(* ===== verification/Los_Prelude.thy ===== *)
theory Los_Prelude
  imports Main "HOL-Library.Word"
begin

unbundle bit_operations_syntax

text \<open>
  The vocabulary the component theories share: the machine integers of los_compiler.h, the
  C truth value of a masked word, counting leading zeros, the build-time constants of
  los_config.h in their default values, the error numbers, and a few generic lemmas on
  lists and words.
\<close>

section \<open>Machine integers\<close>

type_synonym u8 = "8 word"
type_synonym u16 = "16 word"
type_synonym u32 = "32 word"
type_synonym u64 = "64 word"

text \<open>An INT32 is a 32-bit word read in two's complement.\<close>

type_synonym i32 = "32 word"

definition LOS_OK :: u32 where "LOS_OK = 0"
definition LOS_NOK :: u32 where "LOS_NOK = -1"
definition OS_ERROR :: u32 where "OS_ERROR = -1"
definition OS_INVALID :: u32 where "OS_INVALID = -1"
definition OS_NULL_INT :: u32 where "OS_NULL_INT = 0xFFFFFFFF"
definition OS_NULL_SHORT :: u16 where "OS_NULL_SHORT = 0xFFFF"

text \<open>los_config.h: the size of the kernel's heap, which also bounds a stack.\<close>

definition LOSCFG_SYS_HEAP_SIZE :: u32 where "LOSCFG_SYS_HEAP_SIZE = 0x10000"

text \<open>los_compiler.h: rounding an address up to a boundary, and down to a power of two.\<close>

definition LOS_Align :: "u32 \<Rightarrow> u32 \<Rightarrow> u32" where
  "LOS_Align addr boundary =
     (addr + (if addr + (boundary - 1) > addr then boundary - 1 else 0)) AND NOT (boundary - 1)"

definition TRUNCATE :: "u32 \<Rightarrow> u32 \<Rightarrow> u32" where
  "TRUNCATE addr sz = addr AND NOT (sz - 1)"

section \<open>Flags of a status word\<close>

text \<open>The C condition \<open>s & f\<close>.\<close>

definition has :: "'a::len word \<Rightarrow> 'a word \<Rightarrow> bool" where
  "has s f \<longleftrightarrow> s AND f \<noteq> 0"

text \<open>The C assignment \<open>s &= ~f\<close>.\<close>

definition clr :: "'a::len word \<Rightarrow> 'a word \<Rightarrow> 'a word" where
  "clr s f = s AND NOT f"

lemma has_or_left [simp]: "has (s OR m) f \<longleftrightarrow> has s f \<or> has m f"
  unfolding has_def by (metis bit.conj_disj_distrib2 or_eq_0_iff)

lemma has_or_right [simp]: "has s (f OR g) \<longleftrightarrow> has s f \<or> has s g"
  unfolding has_def by (metis bit.conj_disj_distrib or_eq_0_iff)

lemma has_zero [simp]: "\<not> has 0 f" "\<not> has s 0"
  by (simp_all add: has_def)

lemma clr_zero [simp]: "clr w 0 = w"
  by (simp add: clr_def)

text \<open>The flags of a TCB's 16-bit status word, one bit each (los_task.h).\<close>

datatype task_flag = UNUSED | SUSPEND | READY | PEND | RUNNING | DELAY | TIMEOUT | PEND_TIME
  | EXIT | USER_TASK | STACK_FREE | SYSTEM_TASK | SIGNAL | FREEZE | JOINABLE

fun flag_bit :: "task_flag \<Rightarrow> nat" where
  "flag_bit UNUSED = 0"
| "flag_bit SUSPEND = 1"
| "flag_bit READY = 2"
| "flag_bit PEND = 3"
| "flag_bit RUNNING = 4"
| "flag_bit DELAY = 5"
| "flag_bit TIMEOUT = 6"
| "flag_bit PEND_TIME = 7"
| "flag_bit EXIT = 8"
| "flag_bit USER_TASK = 9"
| "flag_bit STACK_FREE = 11"
| "flag_bit SYSTEM_TASK = 12"
| "flag_bit SIGNAL = 13"
| "flag_bit FREEZE = 14"
| "flag_bit JOINABLE = 15"

definition flag :: "task_flag \<Rightarrow> u16" where
  "flag F = push_bit (flag_bit F) 1"

lemma flag_values:
  "flag UNUSED = 0x0001" "flag SUSPEND = 0x0002" "flag READY = 0x0004" "flag PEND = 0x0008"
  "flag RUNNING = 0x0010" "flag DELAY = 0x0020" "flag TIMEOUT = 0x0040"
  "flag PEND_TIME = 0x0080" "flag EXIT = 0x0100" "flag USER_TASK = 0x0200"
  "flag STACK_FREE = 0x0800" "flag SYSTEM_TASK = 0x1000" "flag SIGNAL = 0x2000"
  "flag FREEZE = 0x4000" "flag JOINABLE = 0x8000"
  by (simp_all add: flag_def)

lemma flag_bit_less: "flag_bit F < 16"
  by (cases F) simp_all

lemma flag_bit_inj: "flag_bit F = flag_bit G \<longleftrightarrow> F = G"
  by (cases F; cases G) simp_all

lemma has_flag: "has s (flag F) \<longleftrightarrow> bit s (flag_bit F)"
  by (simp add: has_def flag_def bit_iff_and_push_bit_not_eq_0)

lemma has_clr [simp]: "has (clr s m) (flag F) \<longleftrightarrow> has s (flag F) \<and> \<not> has m (flag F)"
  using flag_bit_less [of F]
  by (auto simp: has_flag clr_def bit_and_iff bit_not_iff)

lemma has_flag_flag [simp]: "has (flag F) (flag G) \<longleftrightarrow> F = G"
proof -
  have "bit (flag F) (flag_bit G) \<longleftrightarrow> flag_bit F = flag_bit G"
    using flag_bit_less [of F] flag_bit_less [of G]
    by (auto simp: flag_def bit_exp_iff)
  then show ?thesis by (simp add: has_flag flag_bit_inj)
qed

section \<open>Counting leading zeros\<close>

text \<open>The compiler builtin CLZ, applied to a non-zero 32-bit word only.\<close>

fun clz_below :: "nat \<Rightarrow> u32 \<Rightarrow> nat" where
  "clz_below 0 x = 0"
| "clz_below (Suc n) x = (if bit x n then 0 else Suc (clz_below n x))"

lemma clz_below_numeral [simp]:
  "clz_below (numeral k) x =
     (if bit x (pred_numeral k) then 0 else Suc (clz_below (pred_numeral k) x))"
  by (simp add: numeral_eq_Suc)

definition CLZ :: "u32 \<Rightarrow> nat" where
  "CLZ x = clz_below 32 x"

lemma clz_below_le: "clz_below n x \<le> n"
  by (induction n) simp_all

lemma clz_below_hit: "clz_below n x < n \<Longrightarrow> bit x (n - 1 - clz_below n x)"
  by (induction n) (auto split: if_splits)

lemma clz_below_above: "k < n \<Longrightarrow> n - 1 - clz_below n x < k \<Longrightarrow> \<not> bit x k"
  by (induction n) (auto split: if_splits simp: less_Suc_eq)

lemma clz_below_miss: "clz_below n x = n \<Longrightarrow> k < n \<Longrightarrow> \<not> bit x k"
  by (induction n) (auto split: if_splits simp: less_Suc_eq)

lemma CLZ_less: "x \<noteq> 0 \<Longrightarrow> CLZ x < 32"
proof (rule ccontr)
  assume x: "x \<noteq> 0" and "\<not> CLZ x < 32"
  then have all: "clz_below 32 x = 32"
    using clz_below_le [of 32 x] by (simp add: CLZ_def)
  have "x = 0"
    by (rule bit_word_eqI) (use clz_below_miss [OF all] in simp)
  with x show False ..
qed

lemma CLZ_bit: "x \<noteq> 0 \<Longrightarrow> bit x (31 - CLZ x)"
  using CLZ_less [of x] clz_below_hit [of 32 x] by (simp add: CLZ_def)

lemma CLZ_above: "k < 32 \<Longrightarrow> 31 - CLZ x < k \<Longrightarrow> \<not> bit x k"
  using clz_below_above [of k 32 x] by (simp add: CLZ_def)

section \<open>Setting and clearing one bit of a bitmap\<close>

text \<open>\<open>0x80000000 >> p\<close>: bit 31 - p, for a shift by less than the width.\<close>

lemma bit_prior_mask:
  assumes "p < 32"
  shows "bit (drop_bit p (0x80000000 :: u32)) k \<longleftrightarrow> k = 31 - p"
proof -
  have top: "bit (0x80000000 :: u32) j \<longleftrightarrow> j = 31" for j
  proof -
    have "bit (0x80000000 :: u32) j = bit (2 ^ 31 :: u32) j"
      by (rule arg_cong [where f = "\<lambda>w. bit w j"]) simp
    also have "\<dots> \<longleftrightarrow> j = 31"
      by (subst bit_exp_iff) auto
    finally show ?thesis .
  qed
  have "bit (drop_bit p (0x80000000 :: u32)) k \<longleftrightarrow> p + k = 31"
    by (simp only: bit_drop_bit_eq comp_def top)
  with assms show ?thesis by arith
qed

section \<open>Stepping a counter below a bound\<close>

lemma word_inc_below:
  fixes x y :: "'a::len word"
  assumes "x < y"
  shows "unat (x + 1) = unat x + 1" "x + 1 \<le> y"
proof -
  have "unat x < unat y" using assms by (simp add: word_less_nat_alt)
  moreover have "unat y < 2 ^ LENGTH('a)" by (rule unsigned_less)
  ultimately have "unat x + 1 < 2 ^ LENGTH('a)" by linarith
  then show u: "unat (x + 1) = unat x + 1"
    by (simp add: unat_word_ariths(1))
  show "x + 1 \<le> y" using \<open>unat x < unat y\<close> u by (simp add: word_le_nat_alt)
qed

lemma word_dec_above:
  fixes x :: "'a::len word"
  assumes "0 < x"
  shows "unat (x - 1) = unat x - 1" "x - 1 \<le> x" "0 < unat x"
  using assms by (auto simp: unat_minus_one word_le_nat_alt unat_gt_0 word_neq_0_conv)

lemma small_cast_16_32: "i < 65536 \<Longrightarrow> ucast (of_nat i :: u16) = (of_nat i :: u32)"
  by (simp add: unsigned_of_nat take_bit_nat_eq_self)

section \<open>Lists\<close>

lemma removeAll_id: "x \<notin> set xs \<Longrightarrow> removeAll x xs = xs"
  by (simp add: removeAll_id)

lemma distinct_removeAll_hd: "distinct (x # xs) \<Longrightarrow> removeAll x (x # xs) = xs"
  by (simp add: removeAll_id)

end
