(* ===== verification/Los_Errno.thy ===== *)
theory Los_Errno
  imports Los_Prelude
begin

text \<open>
  The error numbers the kernel calls return: utils/los_error.h builds a 32-bit code from an
  error type, a module and a number, and each header of kernel/include names its own. Every
  code is one definition; the simplifier evaluates it.
\<close>

definition LOS_ERRTYPE_ERROR :: u32 where "LOS_ERRTYPE_ERROR = push_bit 24 0x02"
definition LOS_ERRTYPE_FATAL :: u32 where "LOS_ERRTYPE_FATAL = push_bit 24 0x03"
definition LOS_ERRNO_OS_ID :: u32 where "LOS_ERRNO_OS_ID = push_bit 16 0x00"

definition LOS_MOD_SYS :: u32 where "LOS_MOD_SYS = 0x00"
definition LOS_MOD_TSK :: u32 where "LOS_MOD_TSK = 0x02"
definition LOS_MOD_SWTMR :: u32 where "LOS_MOD_SWTMR = 0x03"
definition LOS_MOD_TICK :: u32 where "LOS_MOD_TICK = 0x04"
definition LOS_MOD_QUE :: u32 where "LOS_MOD_QUE = 0x06"
definition LOS_MOD_SEM :: u32 where "LOS_MOD_SEM = 0x07"
definition LOS_MOD_EVENT :: u32 where "LOS_MOD_EVENT = 0x1c"
definition LOS_MOD_MUX :: u32 where "LOS_MOD_MUX = 0x1d"

definition LOS_ERRNO_OS_FATAL :: "u32 \<Rightarrow> u32 \<Rightarrow> u32" where
  "LOS_ERRNO_OS_FATAL moduleID errno =
     LOS_ERRTYPE_FATAL OR LOS_ERRNO_OS_ID OR push_bit 8 moduleID OR errno"

definition LOS_ERRNO_OS_ERROR :: "u32 \<Rightarrow> u32 \<Rightarrow> u32" where
  "LOS_ERRNO_OS_ERROR moduleID errno =
     LOS_ERRTYPE_ERROR OR LOS_ERRNO_OS_ID OR push_bit 8 moduleID OR errno"

lemmas errno_base_defs = LOS_ERRTYPE_ERROR_def LOS_ERRTYPE_FATAL_def LOS_ERRNO_OS_ID_def
  LOS_ERRNO_OS_FATAL_def LOS_ERRNO_OS_ERROR_def
  LOS_MOD_SYS_def LOS_MOD_TSK_def LOS_MOD_SWTMR_def LOS_MOD_TICK_def LOS_MOD_QUE_def LOS_MOD_SEM_def LOS_MOD_EVENT_def LOS_MOD_MUX_def

declare LOS_OK_def [simp] LOS_NOK_def [simp] OS_ERROR_def [simp] OS_INVALID_def [simp]
  OS_NULL_INT_def [simp] OS_NULL_SHORT_def [simp]

section \<open>los_task.h\<close>

definition LOS_ERRNO_TSK_NO_MEMORY :: u32 where
  "LOS_ERRNO_TSK_NO_MEMORY = LOS_ERRNO_OS_FATAL LOS_MOD_TSK 0x00"
definition LOS_ERRNO_TSK_PTR_NULL :: u32 where
  "LOS_ERRNO_TSK_PTR_NULL = LOS_ERRNO_OS_ERROR LOS_MOD_TSK 0x01"
definition LOS_ERRNO_TSK_PRIOR_ERROR :: u32 where
  "LOS_ERRNO_TSK_PRIOR_ERROR = LOS_ERRNO_OS_ERROR LOS_MOD_TSK 0x03"
definition LOS_ERRNO_TSK_ENTRY_NULL :: u32 where
  "LOS_ERRNO_TSK_ENTRY_NULL = LOS_ERRNO_OS_ERROR LOS_MOD_TSK 0x04"
definition LOS_ERRNO_TSK_NAME_EMPTY :: u32 where
  "LOS_ERRNO_TSK_NAME_EMPTY = LOS_ERRNO_OS_ERROR LOS_MOD_TSK 0x05"
definition LOS_ERRNO_TSK_STKSZ_TOO_SMALL :: u32 where
  "LOS_ERRNO_TSK_STKSZ_TOO_SMALL = LOS_ERRNO_OS_ERROR LOS_MOD_TSK 0x06"
definition LOS_ERRNO_TSK_ID_INVALID :: u32 where
  "LOS_ERRNO_TSK_ID_INVALID = LOS_ERRNO_OS_ERROR LOS_MOD_TSK 0x07"
definition LOS_ERRNO_TSK_ALREADY_SUSPENDED :: u32 where
  "LOS_ERRNO_TSK_ALREADY_SUSPENDED = LOS_ERRNO_OS_ERROR LOS_MOD_TSK 0x08"
definition LOS_ERRNO_TSK_NOT_SUSPENDED :: u32 where
  "LOS_ERRNO_TSK_NOT_SUSPENDED = LOS_ERRNO_OS_ERROR LOS_MOD_TSK 0x09"
definition LOS_ERRNO_TSK_NOT_CREATED :: u32 where
  "LOS_ERRNO_TSK_NOT_CREATED = LOS_ERRNO_OS_ERROR LOS_MOD_TSK 0x0a"
definition LOS_ERRNO_TSK_DELAY_IN_INT :: u32 where
  "LOS_ERRNO_TSK_DELAY_IN_INT = LOS_ERRNO_OS_FATAL LOS_MOD_TSK 0x0d"
definition LOS_ERRNO_TSK_DELAY_IN_LOCK :: u32 where
  "LOS_ERRNO_TSK_DELAY_IN_LOCK = LOS_ERRNO_OS_ERROR LOS_MOD_TSK 0x0e"
definition LOS_ERRNO_TSK_TCB_UNAVAILABLE :: u32 where
  "LOS_ERRNO_TSK_TCB_UNAVAILABLE = LOS_ERRNO_OS_ERROR LOS_MOD_TSK 0x11"
definition LOS_ERRNO_TSK_OPERATE_SYSTEM_TASK :: u32 where
  "LOS_ERRNO_TSK_OPERATE_SYSTEM_TASK = LOS_ERRNO_OS_ERROR LOS_MOD_TSK 0x14"
definition LOS_ERRNO_TSK_OPERATE_IDLE :: u32 where
  "LOS_ERRNO_TSK_OPERATE_IDLE = LOS_ERRNO_TSK_OPERATE_SYSTEM_TASK"
definition LOS_ERRNO_TSK_SUSPEND_LOCKED :: u32 where
  "LOS_ERRNO_TSK_SUSPEND_LOCKED = LOS_ERRNO_OS_FATAL LOS_MOD_TSK 0x15"
definition LOS_ERRNO_TSK_STKSZ_TOO_LARGE :: u32 where
  "LOS_ERRNO_TSK_STKSZ_TOO_LARGE = LOS_ERRNO_OS_ERROR LOS_MOD_TSK 0x20"
definition LOS_ERRNO_TSK_SUSPEND_SWTMR_NOT_ALLOWED :: u32 where
  "LOS_ERRNO_TSK_SUSPEND_SWTMR_NOT_ALLOWED = LOS_ERRNO_OS_ERROR LOS_MOD_TSK 0x21"
definition LOS_ERRNO_TSK_OPERATE_SWTMR :: u32 where
  "LOS_ERRNO_TSK_OPERATE_SWTMR = LOS_ERRNO_OS_ERROR LOS_MOD_TSK 0x22"
definition LOS_ERRNO_TSK_NOT_JOIN :: u32 where
  "LOS_ERRNO_TSK_NOT_JOIN = LOS_ERRNO_OS_ERROR LOS_MOD_TSK 0x24"
definition LOS_ERRNO_TSK_NOT_JOIN_SELF :: u32 where
  "LOS_ERRNO_TSK_NOT_JOIN_SELF = LOS_ERRNO_OS_ERROR LOS_MOD_TSK 0x25"
definition LOS_ERRNO_TSK_NOT_ALLOW_IN_INT :: u32 where
  "LOS_ERRNO_TSK_NOT_ALLOW_IN_INT = LOS_ERRNO_OS_ERROR LOS_MOD_TSK 0x26"
definition LOS_ERRNO_TSK_ALREADY_EXIT :: u32 where
  "LOS_ERRNO_TSK_ALREADY_EXIT = LOS_ERRNO_OS_ERROR LOS_MOD_TSK 0x27"
definition LOS_ERRNO_TSK_SCHED_LOCKED :: u32 where
  "LOS_ERRNO_TSK_SCHED_LOCKED = LOS_ERRNO_OS_ERROR LOS_MOD_TSK 0x28"
definition LOS_ERRNO_TSK_PROCESS_SIGNAL :: u32 where
  "LOS_ERRNO_TSK_PROCESS_SIGNAL = LOS_ERRNO_OS_ERROR LOS_MOD_TSK 0x29"

lemma los_task_errno [simp]:
  "LOS_ERRNO_TSK_NO_MEMORY = 0x03000200"
  "LOS_ERRNO_TSK_PTR_NULL = 0x02000201"
  "LOS_ERRNO_TSK_PRIOR_ERROR = 0x02000203"
  "LOS_ERRNO_TSK_ENTRY_NULL = 0x02000204"
  "LOS_ERRNO_TSK_NAME_EMPTY = 0x02000205"
  "LOS_ERRNO_TSK_STKSZ_TOO_SMALL = 0x02000206"
  "LOS_ERRNO_TSK_ID_INVALID = 0x02000207"
  "LOS_ERRNO_TSK_ALREADY_SUSPENDED = 0x02000208"
  "LOS_ERRNO_TSK_NOT_SUSPENDED = 0x02000209"
  "LOS_ERRNO_TSK_NOT_CREATED = 0x0200020a"
  "LOS_ERRNO_TSK_DELAY_IN_INT = 0x0300020d"
  "LOS_ERRNO_TSK_DELAY_IN_LOCK = 0x0200020e"
  "LOS_ERRNO_TSK_TCB_UNAVAILABLE = 0x02000211"
  "LOS_ERRNO_TSK_OPERATE_SYSTEM_TASK = 0x02000214"
  "LOS_ERRNO_TSK_OPERATE_IDLE = 0x02000214"
  "LOS_ERRNO_TSK_SUSPEND_LOCKED = 0x03000215"
  "LOS_ERRNO_TSK_STKSZ_TOO_LARGE = 0x02000220"
  "LOS_ERRNO_TSK_SUSPEND_SWTMR_NOT_ALLOWED = 0x02000221"
  "LOS_ERRNO_TSK_OPERATE_SWTMR = 0x02000222"
  "LOS_ERRNO_TSK_NOT_JOIN = 0x02000224"
  "LOS_ERRNO_TSK_NOT_JOIN_SELF = 0x02000225"
  "LOS_ERRNO_TSK_NOT_ALLOW_IN_INT = 0x02000226"
  "LOS_ERRNO_TSK_ALREADY_EXIT = 0x02000227"
  "LOS_ERRNO_TSK_SCHED_LOCKED = 0x02000228"
  "LOS_ERRNO_TSK_PROCESS_SIGNAL = 0x02000229"
  by (simp_all add: errno_base_defs
    LOS_ERRNO_TSK_NO_MEMORY_def
    LOS_ERRNO_TSK_PTR_NULL_def
    LOS_ERRNO_TSK_PRIOR_ERROR_def
    LOS_ERRNO_TSK_ENTRY_NULL_def
    LOS_ERRNO_TSK_NAME_EMPTY_def
    LOS_ERRNO_TSK_STKSZ_TOO_SMALL_def
    LOS_ERRNO_TSK_ID_INVALID_def
    LOS_ERRNO_TSK_ALREADY_SUSPENDED_def
    LOS_ERRNO_TSK_NOT_SUSPENDED_def
    LOS_ERRNO_TSK_NOT_CREATED_def
    LOS_ERRNO_TSK_DELAY_IN_INT_def
    LOS_ERRNO_TSK_DELAY_IN_LOCK_def
    LOS_ERRNO_TSK_TCB_UNAVAILABLE_def
    LOS_ERRNO_TSK_OPERATE_SYSTEM_TASK_def
    LOS_ERRNO_TSK_OPERATE_IDLE_def
    LOS_ERRNO_TSK_SUSPEND_LOCKED_def
    LOS_ERRNO_TSK_STKSZ_TOO_LARGE_def
    LOS_ERRNO_TSK_SUSPEND_SWTMR_NOT_ALLOWED_def
    LOS_ERRNO_TSK_OPERATE_SWTMR_def
    LOS_ERRNO_TSK_NOT_JOIN_def
    LOS_ERRNO_TSK_NOT_JOIN_SELF_def
    LOS_ERRNO_TSK_NOT_ALLOW_IN_INT_def
    LOS_ERRNO_TSK_ALREADY_EXIT_def
    LOS_ERRNO_TSK_SCHED_LOCKED_def
    LOS_ERRNO_TSK_PROCESS_SIGNAL_def)

section \<open>los_sem.h\<close>

definition LOS_ERRNO_SEM_NO_MEMORY :: u32 where
  "LOS_ERRNO_SEM_NO_MEMORY = LOS_ERRNO_OS_ERROR LOS_MOD_SEM 0x00"
definition LOS_ERRNO_SEM_INVALID :: u32 where
  "LOS_ERRNO_SEM_INVALID = LOS_ERRNO_OS_ERROR LOS_MOD_SEM 0x01"
definition LOS_ERRNO_SEM_PTR_NULL :: u32 where
  "LOS_ERRNO_SEM_PTR_NULL = LOS_ERRNO_OS_ERROR LOS_MOD_SEM 0x02"
definition LOS_ERRNO_SEM_ALL_BUSY :: u32 where
  "LOS_ERRNO_SEM_ALL_BUSY = LOS_ERRNO_OS_ERROR LOS_MOD_SEM 0x03"
definition LOS_ERRNO_SEM_UNAVAILABLE :: u32 where
  "LOS_ERRNO_SEM_UNAVAILABLE = LOS_ERRNO_OS_ERROR LOS_MOD_SEM 0x04"
definition LOS_ERRNO_SEM_PEND_INTERR :: u32 where
  "LOS_ERRNO_SEM_PEND_INTERR = LOS_ERRNO_OS_ERROR LOS_MOD_SEM 0x05"
definition LOS_ERRNO_SEM_PEND_IN_LOCK :: u32 where
  "LOS_ERRNO_SEM_PEND_IN_LOCK = LOS_ERRNO_OS_ERROR LOS_MOD_SEM 0x06"
definition LOS_ERRNO_SEM_TIMEOUT :: u32 where
  "LOS_ERRNO_SEM_TIMEOUT = LOS_ERRNO_OS_ERROR LOS_MOD_SEM 0x07"
definition LOS_ERRNO_SEM_OVERFLOW :: u32 where
  "LOS_ERRNO_SEM_OVERFLOW = LOS_ERRNO_OS_ERROR LOS_MOD_SEM 0x08"
definition LOS_ERRNO_SEM_PENDED :: u32 where
  "LOS_ERRNO_SEM_PENDED = LOS_ERRNO_OS_ERROR LOS_MOD_SEM 0x09"
definition LOS_ERRNO_SEM_MAXNUM_ZERO :: u32 where
  "LOS_ERRNO_SEM_MAXNUM_ZERO = LOS_ERRNO_OS_ERROR LOS_MOD_SEM 0x0A"
definition LOS_ERRNO_SEM_PEND_IN_SYSTEM_TASK :: u32 where
  "LOS_ERRNO_SEM_PEND_IN_SYSTEM_TASK = LOS_ERRNO_OS_ERROR LOS_MOD_SEM 0x0B"

lemma los_sem_errno [simp]:
  "LOS_ERRNO_SEM_NO_MEMORY = 0x02000700"
  "LOS_ERRNO_SEM_INVALID = 0x02000701"
  "LOS_ERRNO_SEM_PTR_NULL = 0x02000702"
  "LOS_ERRNO_SEM_ALL_BUSY = 0x02000703"
  "LOS_ERRNO_SEM_UNAVAILABLE = 0x02000704"
  "LOS_ERRNO_SEM_PEND_INTERR = 0x02000705"
  "LOS_ERRNO_SEM_PEND_IN_LOCK = 0x02000706"
  "LOS_ERRNO_SEM_TIMEOUT = 0x02000707"
  "LOS_ERRNO_SEM_OVERFLOW = 0x02000708"
  "LOS_ERRNO_SEM_PENDED = 0x02000709"
  "LOS_ERRNO_SEM_MAXNUM_ZERO = 0x0200070a"
  "LOS_ERRNO_SEM_PEND_IN_SYSTEM_TASK = 0x0200070b"
  by (simp_all add: errno_base_defs
    LOS_ERRNO_SEM_NO_MEMORY_def
    LOS_ERRNO_SEM_INVALID_def
    LOS_ERRNO_SEM_PTR_NULL_def
    LOS_ERRNO_SEM_ALL_BUSY_def
    LOS_ERRNO_SEM_UNAVAILABLE_def
    LOS_ERRNO_SEM_PEND_INTERR_def
    LOS_ERRNO_SEM_PEND_IN_LOCK_def
    LOS_ERRNO_SEM_TIMEOUT_def
    LOS_ERRNO_SEM_OVERFLOW_def
    LOS_ERRNO_SEM_PENDED_def
    LOS_ERRNO_SEM_MAXNUM_ZERO_def
    LOS_ERRNO_SEM_PEND_IN_SYSTEM_TASK_def)

section \<open>los_mux.h\<close>

definition LOS_ERRNO_MUX_NO_MEMORY :: u32 where
  "LOS_ERRNO_MUX_NO_MEMORY = LOS_ERRNO_OS_ERROR LOS_MOD_MUX 0x00"
definition LOS_ERRNO_MUX_INVALID :: u32 where
  "LOS_ERRNO_MUX_INVALID = LOS_ERRNO_OS_ERROR LOS_MOD_MUX 0x01"
definition LOS_ERRNO_MUX_PTR_NULL :: u32 where
  "LOS_ERRNO_MUX_PTR_NULL = LOS_ERRNO_OS_ERROR LOS_MOD_MUX 0x02"
definition LOS_ERRNO_MUX_ALL_BUSY :: u32 where
  "LOS_ERRNO_MUX_ALL_BUSY = LOS_ERRNO_OS_ERROR LOS_MOD_MUX 0x03"
definition LOS_ERRNO_MUX_UNAVAILABLE :: u32 where
  "LOS_ERRNO_MUX_UNAVAILABLE = LOS_ERRNO_OS_ERROR LOS_MOD_MUX 0x04"
definition LOS_ERRNO_MUX_IN_INTERR :: u32 where
  "LOS_ERRNO_MUX_IN_INTERR = LOS_ERRNO_OS_ERROR LOS_MOD_MUX 0x05"
definition LOS_ERRNO_MUX_PEND_IN_LOCK :: u32 where
  "LOS_ERRNO_MUX_PEND_IN_LOCK = LOS_ERRNO_OS_ERROR LOS_MOD_MUX 0x06"
definition LOS_ERRNO_MUX_TIMEOUT :: u32 where
  "LOS_ERRNO_MUX_TIMEOUT = LOS_ERRNO_OS_ERROR LOS_MOD_MUX 0x07"
definition LOS_ERRNO_MUX_PENDED :: u32 where
  "LOS_ERRNO_MUX_PENDED = LOS_ERRNO_OS_ERROR LOS_MOD_MUX 0x09"
definition LOS_ERRNO_MUX_MAXNUM_ZERO :: u32 where
  "LOS_ERRNO_MUX_MAXNUM_ZERO = LOS_ERRNO_OS_ERROR LOS_MOD_MUX 0x0C"
definition LOS_ERRNO_MUX_PEND_IN_SYSTEM_TASK :: u32 where
  "LOS_ERRNO_MUX_PEND_IN_SYSTEM_TASK = LOS_ERRNO_OS_ERROR LOS_MOD_MUX 0x0D"

lemma los_mux_errno [simp]:
  "LOS_ERRNO_MUX_NO_MEMORY = 0x02001d00"
  "LOS_ERRNO_MUX_INVALID = 0x02001d01"
  "LOS_ERRNO_MUX_PTR_NULL = 0x02001d02"
  "LOS_ERRNO_MUX_ALL_BUSY = 0x02001d03"
  "LOS_ERRNO_MUX_UNAVAILABLE = 0x02001d04"
  "LOS_ERRNO_MUX_IN_INTERR = 0x02001d05"
  "LOS_ERRNO_MUX_PEND_IN_LOCK = 0x02001d06"
  "LOS_ERRNO_MUX_TIMEOUT = 0x02001d07"
  "LOS_ERRNO_MUX_PENDED = 0x02001d09"
  "LOS_ERRNO_MUX_MAXNUM_ZERO = 0x02001d0c"
  "LOS_ERRNO_MUX_PEND_IN_SYSTEM_TASK = 0x02001d0d"
  by (simp_all add: errno_base_defs
    LOS_ERRNO_MUX_NO_MEMORY_def
    LOS_ERRNO_MUX_INVALID_def
    LOS_ERRNO_MUX_PTR_NULL_def
    LOS_ERRNO_MUX_ALL_BUSY_def
    LOS_ERRNO_MUX_UNAVAILABLE_def
    LOS_ERRNO_MUX_IN_INTERR_def
    LOS_ERRNO_MUX_PEND_IN_LOCK_def
    LOS_ERRNO_MUX_TIMEOUT_def
    LOS_ERRNO_MUX_PENDED_def
    LOS_ERRNO_MUX_MAXNUM_ZERO_def
    LOS_ERRNO_MUX_PEND_IN_SYSTEM_TASK_def)

section \<open>los_event.h\<close>

definition LOS_ERRNO_EVENT_SETBIT_INVALID :: u32 where
  "LOS_ERRNO_EVENT_SETBIT_INVALID = LOS_ERRNO_OS_ERROR LOS_MOD_EVENT 0x00"
definition LOS_ERRNO_EVENT_READ_TIMEOUT :: u32 where
  "LOS_ERRNO_EVENT_READ_TIMEOUT = LOS_ERRNO_OS_ERROR LOS_MOD_EVENT 0x01"
definition LOS_ERRNO_EVENT_EVENTMASK_INVALID :: u32 where
  "LOS_ERRNO_EVENT_EVENTMASK_INVALID = LOS_ERRNO_OS_ERROR LOS_MOD_EVENT 0x02"
definition LOS_ERRNO_EVENT_READ_IN_INTERRUPT :: u32 where
  "LOS_ERRNO_EVENT_READ_IN_INTERRUPT = LOS_ERRNO_OS_ERROR LOS_MOD_EVENT 0x03"
definition LOS_ERRNO_EVENT_FLAGS_INVALID :: u32 where
  "LOS_ERRNO_EVENT_FLAGS_INVALID = LOS_ERRNO_OS_ERROR LOS_MOD_EVENT 0x04"
definition LOS_ERRNO_EVENT_READ_IN_LOCK :: u32 where
  "LOS_ERRNO_EVENT_READ_IN_LOCK = LOS_ERRNO_OS_ERROR LOS_MOD_EVENT 0x05"
definition LOS_ERRNO_EVENT_PTR_NULL :: u32 where
  "LOS_ERRNO_EVENT_PTR_NULL = LOS_ERRNO_OS_ERROR LOS_MOD_EVENT 0x06"
definition LOS_ERRNO_EVENT_NOT_INITIALIZED :: u32 where
  "LOS_ERRNO_EVENT_NOT_INITIALIZED = LOS_ERRNO_OS_ERROR LOS_MOD_EVENT 0x07"
definition LOS_ERRNO_EVENT_SHOULD_NOT_DESTROYED :: u32 where
  "LOS_ERRNO_EVENT_SHOULD_NOT_DESTROYED = LOS_ERRNO_OS_ERROR LOS_MOD_EVENT 0x08"
definition LOS_ERRNO_EVENT_READ_IN_SYSTEM_TASK :: u32 where
  "LOS_ERRNO_EVENT_READ_IN_SYSTEM_TASK = LOS_ERRNO_OS_ERROR LOS_MOD_EVENT 0x09"

lemma los_event_errno [simp]:
  "LOS_ERRNO_EVENT_SETBIT_INVALID = 0x02001c00"
  "LOS_ERRNO_EVENT_READ_TIMEOUT = 0x02001c01"
  "LOS_ERRNO_EVENT_EVENTMASK_INVALID = 0x02001c02"
  "LOS_ERRNO_EVENT_READ_IN_INTERRUPT = 0x02001c03"
  "LOS_ERRNO_EVENT_FLAGS_INVALID = 0x02001c04"
  "LOS_ERRNO_EVENT_READ_IN_LOCK = 0x02001c05"
  "LOS_ERRNO_EVENT_PTR_NULL = 0x02001c06"
  "LOS_ERRNO_EVENT_NOT_INITIALIZED = 0x02001c07"
  "LOS_ERRNO_EVENT_SHOULD_NOT_DESTROYED = 0x02001c08"
  "LOS_ERRNO_EVENT_READ_IN_SYSTEM_TASK = 0x02001c09"
  by (simp_all add: errno_base_defs
    LOS_ERRNO_EVENT_SETBIT_INVALID_def
    LOS_ERRNO_EVENT_READ_TIMEOUT_def
    LOS_ERRNO_EVENT_EVENTMASK_INVALID_def
    LOS_ERRNO_EVENT_READ_IN_INTERRUPT_def
    LOS_ERRNO_EVENT_FLAGS_INVALID_def
    LOS_ERRNO_EVENT_READ_IN_LOCK_def
    LOS_ERRNO_EVENT_PTR_NULL_def
    LOS_ERRNO_EVENT_NOT_INITIALIZED_def
    LOS_ERRNO_EVENT_SHOULD_NOT_DESTROYED_def
    LOS_ERRNO_EVENT_READ_IN_SYSTEM_TASK_def)

section \<open>los_queue.h\<close>

definition LOS_ERRNO_QUEUE_MAXNUM_ZERO :: u32 where
  "LOS_ERRNO_QUEUE_MAXNUM_ZERO = LOS_ERRNO_OS_ERROR LOS_MOD_QUE 0x00"
definition LOS_ERRNO_QUEUE_NO_MEMORY :: u32 where
  "LOS_ERRNO_QUEUE_NO_MEMORY = LOS_ERRNO_OS_ERROR LOS_MOD_QUE 0x01"
definition LOS_ERRNO_QUEUE_CREATE_NO_MEMORY :: u32 where
  "LOS_ERRNO_QUEUE_CREATE_NO_MEMORY = LOS_ERRNO_OS_ERROR LOS_MOD_QUE 0x02"
definition LOS_ERRNO_QUEUE_SIZE_TOO_BIG :: u32 where
  "LOS_ERRNO_QUEUE_SIZE_TOO_BIG = LOS_ERRNO_OS_ERROR LOS_MOD_QUE 0x03"
definition LOS_ERRNO_QUEUE_CB_UNAVAILABLE :: u32 where
  "LOS_ERRNO_QUEUE_CB_UNAVAILABLE = LOS_ERRNO_OS_ERROR LOS_MOD_QUE 0x04"
definition LOS_ERRNO_QUEUE_NOT_FOUND :: u32 where
  "LOS_ERRNO_QUEUE_NOT_FOUND = LOS_ERRNO_OS_ERROR LOS_MOD_QUE 0x05"
definition LOS_ERRNO_QUEUE_PEND_IN_LOCK :: u32 where
  "LOS_ERRNO_QUEUE_PEND_IN_LOCK = LOS_ERRNO_OS_ERROR LOS_MOD_QUE 0x06"
definition LOS_ERRNO_QUEUE_TIMEOUT :: u32 where
  "LOS_ERRNO_QUEUE_TIMEOUT = LOS_ERRNO_OS_ERROR LOS_MOD_QUE 0x07"
definition LOS_ERRNO_QUEUE_IN_TSKUSE :: u32 where
  "LOS_ERRNO_QUEUE_IN_TSKUSE = LOS_ERRNO_OS_ERROR LOS_MOD_QUE 0x08"
definition LOS_ERRNO_QUEUE_WRITE_IN_INTERRUPT :: u32 where
  "LOS_ERRNO_QUEUE_WRITE_IN_INTERRUPT = LOS_ERRNO_OS_ERROR LOS_MOD_QUE 0x09"
definition LOS_ERRNO_QUEUE_NOT_CREATE :: u32 where
  "LOS_ERRNO_QUEUE_NOT_CREATE = LOS_ERRNO_OS_ERROR LOS_MOD_QUE 0x0a"
definition LOS_ERRNO_QUEUE_IN_TSKWRITE :: u32 where
  "LOS_ERRNO_QUEUE_IN_TSKWRITE = LOS_ERRNO_OS_ERROR LOS_MOD_QUE 0x0b"
definition LOS_ERRNO_QUEUE_CREAT_PTR_NULL :: u32 where
  "LOS_ERRNO_QUEUE_CREAT_PTR_NULL = LOS_ERRNO_OS_ERROR LOS_MOD_QUE 0x0c"
definition LOS_ERRNO_QUEUE_PARA_ISZERO :: u32 where
  "LOS_ERRNO_QUEUE_PARA_ISZERO = LOS_ERRNO_OS_ERROR LOS_MOD_QUE 0x0d"
definition LOS_ERRNO_QUEUE_INVALID :: u32 where
  "LOS_ERRNO_QUEUE_INVALID = LOS_ERRNO_OS_ERROR LOS_MOD_QUE 0x0e"
definition LOS_ERRNO_QUEUE_READ_PTR_NULL :: u32 where
  "LOS_ERRNO_QUEUE_READ_PTR_NULL = LOS_ERRNO_OS_ERROR LOS_MOD_QUE 0x0f"
definition LOS_ERRNO_QUEUE_READSIZE_ISZERO :: u32 where
  "LOS_ERRNO_QUEUE_READSIZE_ISZERO = LOS_ERRNO_OS_ERROR LOS_MOD_QUE 0x10"
definition LOS_ERRNO_QUEUE_WRITE_PTR_NULL :: u32 where
  "LOS_ERRNO_QUEUE_WRITE_PTR_NULL = LOS_ERRNO_OS_ERROR LOS_MOD_QUE 0x12"
definition LOS_ERRNO_QUEUE_WRITESIZE_ISZERO :: u32 where
  "LOS_ERRNO_QUEUE_WRITESIZE_ISZERO = LOS_ERRNO_OS_ERROR LOS_MOD_QUE 0x13"
definition LOS_ERRNO_QUEUE_WRITE_SIZE_TOO_BIG :: u32 where
  "LOS_ERRNO_QUEUE_WRITE_SIZE_TOO_BIG = LOS_ERRNO_OS_ERROR LOS_MOD_QUE 0x15"
definition LOS_ERRNO_QUEUE_ISFULL :: u32 where
  "LOS_ERRNO_QUEUE_ISFULL = LOS_ERRNO_OS_ERROR LOS_MOD_QUE 0x16"
definition LOS_ERRNO_QUEUE_PTR_NULL :: u32 where
  "LOS_ERRNO_QUEUE_PTR_NULL = LOS_ERRNO_OS_ERROR LOS_MOD_QUE 0x17"
definition LOS_ERRNO_QUEUE_READ_IN_INTERRUPT :: u32 where
  "LOS_ERRNO_QUEUE_READ_IN_INTERRUPT = LOS_ERRNO_OS_ERROR LOS_MOD_QUE 0x18"
definition LOS_ERRNO_QUEUE_MAIL_HANDLE_INVALID :: u32 where
  "LOS_ERRNO_QUEUE_MAIL_HANDLE_INVALID = LOS_ERRNO_OS_ERROR LOS_MOD_QUE 0x19"
definition LOS_ERRNO_QUEUE_MAIL_PTR_INVALID :: u32 where
  "LOS_ERRNO_QUEUE_MAIL_PTR_INVALID = LOS_ERRNO_OS_ERROR LOS_MOD_QUE 0x1a"
definition LOS_ERRNO_QUEUE_MAIL_FREE_ERROR :: u32 where
  "LOS_ERRNO_QUEUE_MAIL_FREE_ERROR = LOS_ERRNO_OS_ERROR LOS_MOD_QUE 0x1b"
definition LOS_ERRNO_QUEUE_ISEMPTY :: u32 where
  "LOS_ERRNO_QUEUE_ISEMPTY = LOS_ERRNO_OS_ERROR LOS_MOD_QUE 0x1d"
definition LOS_ERRNO_QUEUE_BUFFER_SIZE_TOO_BIG :: u32 where
  "LOS_ERRNO_QUEUE_BUFFER_SIZE_TOO_BIG = LOS_ERRNO_OS_ERROR LOS_MOD_QUE 0x20"

lemma los_queue_errno [simp]:
  "LOS_ERRNO_QUEUE_MAXNUM_ZERO = 0x02000600"
  "LOS_ERRNO_QUEUE_NO_MEMORY = 0x02000601"
  "LOS_ERRNO_QUEUE_CREATE_NO_MEMORY = 0x02000602"
  "LOS_ERRNO_QUEUE_SIZE_TOO_BIG = 0x02000603"
  "LOS_ERRNO_QUEUE_CB_UNAVAILABLE = 0x02000604"
  "LOS_ERRNO_QUEUE_NOT_FOUND = 0x02000605"
  "LOS_ERRNO_QUEUE_PEND_IN_LOCK = 0x02000606"
  "LOS_ERRNO_QUEUE_TIMEOUT = 0x02000607"
  "LOS_ERRNO_QUEUE_IN_TSKUSE = 0x02000608"
  "LOS_ERRNO_QUEUE_WRITE_IN_INTERRUPT = 0x02000609"
  "LOS_ERRNO_QUEUE_NOT_CREATE = 0x0200060a"
  "LOS_ERRNO_QUEUE_IN_TSKWRITE = 0x0200060b"
  "LOS_ERRNO_QUEUE_CREAT_PTR_NULL = 0x0200060c"
  "LOS_ERRNO_QUEUE_PARA_ISZERO = 0x0200060d"
  "LOS_ERRNO_QUEUE_INVALID = 0x0200060e"
  "LOS_ERRNO_QUEUE_READ_PTR_NULL = 0x0200060f"
  "LOS_ERRNO_QUEUE_READSIZE_ISZERO = 0x02000610"
  "LOS_ERRNO_QUEUE_WRITE_PTR_NULL = 0x02000612"
  "LOS_ERRNO_QUEUE_WRITESIZE_ISZERO = 0x02000613"
  "LOS_ERRNO_QUEUE_WRITE_SIZE_TOO_BIG = 0x02000615"
  "LOS_ERRNO_QUEUE_ISFULL = 0x02000616"
  "LOS_ERRNO_QUEUE_PTR_NULL = 0x02000617"
  "LOS_ERRNO_QUEUE_READ_IN_INTERRUPT = 0x02000618"
  "LOS_ERRNO_QUEUE_MAIL_HANDLE_INVALID = 0x02000619"
  "LOS_ERRNO_QUEUE_MAIL_PTR_INVALID = 0x0200061a"
  "LOS_ERRNO_QUEUE_MAIL_FREE_ERROR = 0x0200061b"
  "LOS_ERRNO_QUEUE_ISEMPTY = 0x0200061d"
  "LOS_ERRNO_QUEUE_BUFFER_SIZE_TOO_BIG = 0x02000620"
  by (simp_all add: errno_base_defs
    LOS_ERRNO_QUEUE_MAXNUM_ZERO_def
    LOS_ERRNO_QUEUE_NO_MEMORY_def
    LOS_ERRNO_QUEUE_CREATE_NO_MEMORY_def
    LOS_ERRNO_QUEUE_SIZE_TOO_BIG_def
    LOS_ERRNO_QUEUE_CB_UNAVAILABLE_def
    LOS_ERRNO_QUEUE_NOT_FOUND_def
    LOS_ERRNO_QUEUE_PEND_IN_LOCK_def
    LOS_ERRNO_QUEUE_TIMEOUT_def
    LOS_ERRNO_QUEUE_IN_TSKUSE_def
    LOS_ERRNO_QUEUE_WRITE_IN_INTERRUPT_def
    LOS_ERRNO_QUEUE_NOT_CREATE_def
    LOS_ERRNO_QUEUE_IN_TSKWRITE_def
    LOS_ERRNO_QUEUE_CREAT_PTR_NULL_def
    LOS_ERRNO_QUEUE_PARA_ISZERO_def
    LOS_ERRNO_QUEUE_INVALID_def
    LOS_ERRNO_QUEUE_READ_PTR_NULL_def
    LOS_ERRNO_QUEUE_READSIZE_ISZERO_def
    LOS_ERRNO_QUEUE_WRITE_PTR_NULL_def
    LOS_ERRNO_QUEUE_WRITESIZE_ISZERO_def
    LOS_ERRNO_QUEUE_WRITE_SIZE_TOO_BIG_def
    LOS_ERRNO_QUEUE_ISFULL_def
    LOS_ERRNO_QUEUE_PTR_NULL_def
    LOS_ERRNO_QUEUE_READ_IN_INTERRUPT_def
    LOS_ERRNO_QUEUE_MAIL_HANDLE_INVALID_def
    LOS_ERRNO_QUEUE_MAIL_PTR_INVALID_def
    LOS_ERRNO_QUEUE_MAIL_FREE_ERROR_def
    LOS_ERRNO_QUEUE_ISEMPTY_def
    LOS_ERRNO_QUEUE_BUFFER_SIZE_TOO_BIG_def)

section \<open>los_swtmr.h\<close>

definition LOS_ERRNO_SWTMR_PTR_NULL :: u32 where
  "LOS_ERRNO_SWTMR_PTR_NULL = LOS_ERRNO_OS_ERROR LOS_MOD_SWTMR 0x00"
definition LOS_ERRNO_SWTMR_INTERVAL_NOT_SUITED :: u32 where
  "LOS_ERRNO_SWTMR_INTERVAL_NOT_SUITED = LOS_ERRNO_OS_ERROR LOS_MOD_SWTMR 0x01"
definition LOS_ERRNO_SWTMR_MODE_INVALID :: u32 where
  "LOS_ERRNO_SWTMR_MODE_INVALID = LOS_ERRNO_OS_ERROR LOS_MOD_SWTMR 0x02"
definition LOS_ERRNO_SWTMR_RET_PTR_NULL :: u32 where
  "LOS_ERRNO_SWTMR_RET_PTR_NULL = LOS_ERRNO_OS_ERROR LOS_MOD_SWTMR 0x03"
definition LOS_ERRNO_SWTMR_MAXSIZE :: u32 where
  "LOS_ERRNO_SWTMR_MAXSIZE = LOS_ERRNO_OS_ERROR LOS_MOD_SWTMR 0x04"
definition LOS_ERRNO_SWTMR_ID_INVALID :: u32 where
  "LOS_ERRNO_SWTMR_ID_INVALID = LOS_ERRNO_OS_ERROR LOS_MOD_SWTMR 0x05"
definition LOS_ERRNO_SWTMR_NOT_CREATED :: u32 where
  "LOS_ERRNO_SWTMR_NOT_CREATED = LOS_ERRNO_OS_ERROR LOS_MOD_SWTMR 0x06"
definition LOS_ERRNO_SWTMR_NO_MEMORY :: u32 where
  "LOS_ERRNO_SWTMR_NO_MEMORY = LOS_ERRNO_OS_ERROR LOS_MOD_SWTMR 0x07"
definition LOS_ERRNO_SWTMR_QUEUE_CREATE_FAILED :: u32 where
  "LOS_ERRNO_SWTMR_QUEUE_CREATE_FAILED = LOS_ERRNO_OS_ERROR LOS_MOD_SWTMR 0x0b"
definition LOS_ERRNO_SWTMR_TASK_CREATE_FAILED :: u32 where
  "LOS_ERRNO_SWTMR_TASK_CREATE_FAILED = LOS_ERRNO_OS_ERROR LOS_MOD_SWTMR 0x0c"
definition LOS_ERRNO_SWTMR_NOT_STARTED :: u32 where
  "LOS_ERRNO_SWTMR_NOT_STARTED = LOS_ERRNO_OS_ERROR LOS_MOD_SWTMR 0x0d"
definition LOS_ERRNO_SWTMR_STATUS_INVALID :: u32 where
  "LOS_ERRNO_SWTMR_STATUS_INVALID = LOS_ERRNO_OS_ERROR LOS_MOD_SWTMR 0x0e"
definition LOS_ERRNO_SWTMR_TICK_PTR_NULL :: u32 where
  "LOS_ERRNO_SWTMR_TICK_PTR_NULL = LOS_ERRNO_OS_ERROR LOS_MOD_SWTMR 0x10"
definition OS_ERRNO_SWTMR_ROUSES_INVALID :: u32 where
  "OS_ERRNO_SWTMR_ROUSES_INVALID = LOS_ERRNO_OS_ERROR LOS_MOD_SWTMR 0x11"
definition OS_ERRNO_SWTMR_ALIGN_INVALID :: u32 where
  "OS_ERRNO_SWTMR_ALIGN_INVALID = LOS_ERRNO_OS_ERROR LOS_MOD_SWTMR 0x12"

lemma los_swtmr_errno [simp]:
  "LOS_ERRNO_SWTMR_PTR_NULL = 0x02000300"
  "LOS_ERRNO_SWTMR_INTERVAL_NOT_SUITED = 0x02000301"
  "LOS_ERRNO_SWTMR_MODE_INVALID = 0x02000302"
  "LOS_ERRNO_SWTMR_RET_PTR_NULL = 0x02000303"
  "LOS_ERRNO_SWTMR_MAXSIZE = 0x02000304"
  "LOS_ERRNO_SWTMR_ID_INVALID = 0x02000305"
  "LOS_ERRNO_SWTMR_NOT_CREATED = 0x02000306"
  "LOS_ERRNO_SWTMR_NO_MEMORY = 0x02000307"
  "LOS_ERRNO_SWTMR_QUEUE_CREATE_FAILED = 0x0200030b"
  "LOS_ERRNO_SWTMR_TASK_CREATE_FAILED = 0x0200030c"
  "LOS_ERRNO_SWTMR_NOT_STARTED = 0x0200030d"
  "LOS_ERRNO_SWTMR_STATUS_INVALID = 0x0200030e"
  "LOS_ERRNO_SWTMR_TICK_PTR_NULL = 0x02000310"
  "OS_ERRNO_SWTMR_ROUSES_INVALID = 0x02000311"
  "OS_ERRNO_SWTMR_ALIGN_INVALID = 0x02000312"
  by (simp_all add: errno_base_defs
    LOS_ERRNO_SWTMR_PTR_NULL_def
    LOS_ERRNO_SWTMR_INTERVAL_NOT_SUITED_def
    LOS_ERRNO_SWTMR_MODE_INVALID_def
    LOS_ERRNO_SWTMR_RET_PTR_NULL_def
    LOS_ERRNO_SWTMR_MAXSIZE_def
    LOS_ERRNO_SWTMR_ID_INVALID_def
    LOS_ERRNO_SWTMR_NOT_CREATED_def
    LOS_ERRNO_SWTMR_NO_MEMORY_def
    LOS_ERRNO_SWTMR_QUEUE_CREATE_FAILED_def
    LOS_ERRNO_SWTMR_TASK_CREATE_FAILED_def
    LOS_ERRNO_SWTMR_NOT_STARTED_def
    LOS_ERRNO_SWTMR_STATUS_INVALID_def
    LOS_ERRNO_SWTMR_TICK_PTR_NULL_def
    OS_ERRNO_SWTMR_ROUSES_INVALID_def
    OS_ERRNO_SWTMR_ALIGN_INVALID_def)

section \<open>los_tick.h\<close>

definition LOS_ERRNO_TICK_CFG_INVALID :: u32 where
  "LOS_ERRNO_TICK_CFG_INVALID = LOS_ERRNO_OS_ERROR LOS_MOD_TICK 0x00"
definition LOS_ERRNO_SYS_PTR_NULL :: u32 where
  "LOS_ERRNO_SYS_PTR_NULL = LOS_ERRNO_OS_ERROR LOS_MOD_SYS 0x10"
definition LOS_ERRNO_SYS_CLOCK_INVALID :: u32 where
  "LOS_ERRNO_SYS_CLOCK_INVALID = LOS_ERRNO_OS_ERROR LOS_MOD_SYS 0x11"
definition LOS_ERRNO_SYS_TIMER_IS_RUNNING :: u32 where
  "LOS_ERRNO_SYS_TIMER_IS_RUNNING = LOS_ERRNO_OS_ERROR LOS_MOD_SYS 0x15"
definition LOS_ERRNO_SYS_HOOK_IS_NULL :: u32 where
  "LOS_ERRNO_SYS_HOOK_IS_NULL = LOS_ERRNO_OS_ERROR LOS_MOD_SYS 0x16"
definition LOS_ERRNO_SYS_TIMER_ADDR_FAULT :: u32 where
  "LOS_ERRNO_SYS_TIMER_ADDR_FAULT = LOS_ERRNO_OS_ERROR LOS_MOD_SYS 0x16"

lemma los_tick_errno [simp]:
  "LOS_ERRNO_TICK_CFG_INVALID = 0x02000400"
  "LOS_ERRNO_SYS_PTR_NULL = 0x02000010"
  "LOS_ERRNO_SYS_CLOCK_INVALID = 0x02000011"
  "LOS_ERRNO_SYS_TIMER_IS_RUNNING = 0x02000015"
  "LOS_ERRNO_SYS_HOOK_IS_NULL = 0x02000016"
  "LOS_ERRNO_SYS_TIMER_ADDR_FAULT = 0x02000016"
  by (simp_all add: errno_base_defs
    LOS_ERRNO_TICK_CFG_INVALID_def
    LOS_ERRNO_SYS_PTR_NULL_def
    LOS_ERRNO_SYS_CLOCK_INVALID_def
    LOS_ERRNO_SYS_TIMER_IS_RUNNING_def
    LOS_ERRNO_SYS_HOOK_IS_NULL_def
    LOS_ERRNO_SYS_TIMER_ADDR_FAULT_def)

end
