(* ===== verification/Los_Tick.thy ===== *)
theory Los_Tick
  imports Los_Errno
begin

text \<open>
  Time: kernel/src/los_tick.c and the conversions of los_tick.h. The tick timer of the port
  (arch/include/los_timer.h) is a table of hooks; the hardware counter behind
  \<open>getCycle\<close> is a sequence of readings indexed by the number of reads so far, each with
  the period the hook writes back. The configuration is LOSCFG_BASE_CORE_TICK_WTIMER 0, the
  default, where the kernel keeps a 64-bit time base beside the counter. A failed LOS_ASSERT
  stops the code in a loop; the model records it in \<open>panic\<close>.
\<close>

section \<open>Configuration\<close>

definition LOSCFG_BASE_CORE_TICK_PER_SECOND :: "'a::len word" where
  "LOSCFG_BASE_CORE_TICK_PER_SECOND = 100"
definition LOSCFG_PLATFORM_HWI_LIMIT :: i32 where "LOSCFG_PLATFORM_HWI_LIMIT = 32"
definition OS_SYS_MS_PER_SECOND :: "'a::len word" where "OS_SYS_MS_PER_SECOND = 1000"
definition OS_SYS_US_PER_SECOND :: "'a::len word" where "OS_SYS_US_PER_SECOND = 1000000"
definition OS_SYS_US_PER_MS :: "'a::len word" where "OS_SYS_US_PER_MS = 1000"
definition OS_SYS_NS_PER_SECOND :: "'a::len word" where "OS_SYS_NS_PER_SECOND = 1000000000"
definition OS_SYS_NS_PER_MS :: "'a::len word" where "OS_SYS_NS_PER_MS = 1000000"

lemmas tick_config = LOSCFG_BASE_CORE_TICK_PER_SECOND_def LOSCFG_PLATFORM_HWI_LIMIT_def
  OS_SYS_MS_PER_SECOND_def OS_SYS_US_PER_SECOND_def OS_SYS_US_PER_MS_def
  OS_SYS_NS_PER_SECOND_def OS_SYS_NS_PER_MS_def

section \<open>The timer's hooks and the state\<close>

record ArchTickTimer =
  tm_freq :: u32
  tm_irqNum :: i32
  tm_periodMax :: u64
  tm_init :: "(u32 \<Rightarrow> u32 \<times> u32) option"     \<comment> \<open>from the old freq: result and new freq\<close>
  tm_getCycle :: "(nat \<Rightarrow> u64 \<times> u32) option"  \<comment> \<open>the n-th reading and its period\<close>
  tm_reload :: "(u64 \<Rightarrow> u64) option"
  tm_lock :: bool                                 \<comment> \<open>the hook is present\<close>
  tm_unlock :: bool
  tm_tickHandler :: "nat option"

record tick_state =
  g_sysTickTimer :: bool                          \<comment> \<open>points to the port's timer, or NULL\<close>
  archTimer :: ArchTickTimer
  hwReads :: nat
  g_sysClock :: u32
  g_cyclesPerTick :: u32
  g_sysTimerIsInit :: bool
  g_tickTimerStartTime :: u64
  g_tickTimerBase :: u64
  g_oldTickTimerBase :: u64
  g_tickTimerBaseUpdate :: bool
  panic :: bool

text \<open>The pointer handed to \<open>LOS_TickTimerRegister\<close>: the port's own block or another.\<close>

datatype timer_ptr = ArchTimerPtr | TimerPtr ArchTickTimer

definition tick_assert :: "bool \<Rightarrow> tick_state \<Rightarrow> tick_state" where
  "tick_assert c k = (if c then k else k\<lparr>panic := True\<rparr>)"

text \<open>\<open>g_sysTickTimer->getCycle(&period)\<close>; a NULL hook is a fault.\<close>

definition getCycle :: "tick_state \<Rightarrow> (u64 \<times> u32) \<times> tick_state" where
  "getCycle k =
     (case tm_getCycle (archTimer k) of
        None \<Rightarrow> ((0, 0), k\<lparr>panic := True\<rparr>)
      | Some f \<Rightarrow> (f (hwReads k), k\<lparr>hwReads := Suc (hwReads k)\<rparr>))"

definition reload :: "u64 \<Rightarrow> tick_state \<Rightarrow> u64 \<times> tick_state" where
  "reload p k =
     (case tm_reload (archTimer k) of
        None \<Rightarrow> (0, k\<lparr>panic := True\<rparr>)
      | Some f \<Rightarrow> (f p, k))"

section \<open>The system time\<close>

definition OsUpdateSysTimeBase :: "tick_state \<Rightarrow> tick_state" where
  "OsUpdateSysTimeBase k =
     (let k1 = (if \<not> g_tickTimerBaseUpdate k
                then (let ((_, period), k') = getCycle k
                      in k'\<lparr>g_tickTimerBase := g_tickTimerBase k' + ucast period\<rparr>)
                else k)
      in k1\<lparr>g_tickTimerBaseUpdate := False\<rparr>)"

definition OsTickTimerBaseReset :: "u64 \<Rightarrow> tick_state \<Rightarrow> tick_state" where
  "OsTickTimerBaseReset currTime k =
     (tick_assert (currTime > g_tickTimerBase k) k)\<lparr>g_tickTimerBase := currTime\<rparr>"

definition LOS_SysCycleGet :: "tick_state \<Rightarrow> u64 \<times> tick_state" where
  "LOS_SysCycleGet k =
     (let ((time, period), k0) = getCycle k;
          schedTime = g_tickTimerBase k0 + time;
          (schedTime, k1) =
            (if schedTime < g_oldTickTimerBase k0
             then (g_tickTimerBase k0 + ucast period + time,
                   k0\<lparr>g_tickTimerBase := g_tickTimerBase k0 + ucast period,
                      g_tickTimerBaseUpdate := True\<rparr>)
             else (schedTime, k0));
          k2 = tick_assert (schedTime \<ge> g_oldTickTimerBase k1) k1
      in (schedTime, k2\<lparr>g_oldTickTimerBase := schedTime\<rparr>))"

definition OsTickTimerReload :: "u64 \<Rightarrow> tick_state \<Rightarrow> u64 \<times> tick_state" where
  "OsTickTimerReload period k =
     (let (now, k1) = LOS_SysCycleGet k
      in reload period (k1\<lparr>g_tickTimerBase := now\<rparr>))"

definition OsTickSysTimerStartTimeSet :: "u64 \<Rightarrow> tick_state \<Rightarrow> tick_state" where
  "OsTickSysTimerStartTimeSet currTime k = k\<lparr>g_tickTimerStartTime := currTime\<rparr>"

section \<open>Registering and initialising the timer\<close>

definition hooks_missing :: "ArchTickTimer \<Rightarrow> bool" where
  "hooks_missing t \<longleftrightarrow> tm_init t = None \<or> tm_reload t = None \<or> \<not> tm_lock t \<or> \<not> tm_unlock t
     \<or> tm_getCycle t = None"

definition TickTimerCheck :: "ArchTickTimer option \<Rightarrow> tick_state \<Rightarrow> u32" where
  "TickTimerCheck tick k =
     (case tick of None \<Rightarrow> LOS_ERRNO_SYS_PTR_NULL
      | Some t \<Rightarrow>
      if tm_freq t = 0 \<or> (LOSCFG_BASE_CORE_TICK_PER_SECOND :: u32) = 0
         \<or> LOSCFG_BASE_CORE_TICK_PER_SECOND > tm_freq t then LOS_ERRNO_SYS_CLOCK_INVALID
      else if sint (tm_irqNum t) > sint LOSCFG_PLATFORM_HWI_LIMIT then LOS_ERRNO_TICK_CFG_INVALID
      else if tm_periodMax t = 0 then LOS_ERRNO_TICK_CFG_INVALID
      else if hooks_missing t then LOS_ERRNO_SYS_HOOK_IS_NULL
      else if g_sysTimerIsInit k then LOS_ERRNO_SYS_TIMER_IS_RUNNING
      else LOS_OK)"

definition OsTickTimerInit :: "tick_state \<Rightarrow> u32 \<times> tick_state" where
  "OsTickTimerInit k =
     (let k = k\<lparr>g_sysTickTimer := True\<rparr>; t = archTimer k
      in if hooks_missing t then (LOS_ERRNO_SYS_HOOK_IS_NULL, k)
         else case tm_init t of
           None \<Rightarrow> (LOS_ERRNO_SYS_HOOK_IS_NULL, k)
         | Some f \<Rightarrow>
            (let (ret, freq) = f (tm_freq t);
                 t = t\<lparr>tm_freq := freq\<rparr>;
                 k = k\<lparr>archTimer := t\<rparr>
             in if ret \<noteq> LOS_OK then (ret, k)
                else if tm_freq t = 0 \<or> tm_freq t < LOSCFG_BASE_CORE_TICK_PER_SECOND
                then (LOS_ERRNO_SYS_CLOCK_INVALID, k)
                else if sint (tm_irqNum t) > sint LOSCFG_PLATFORM_HWI_LIMIT
                then (LOS_ERRNO_TICK_CFG_INVALID, k)
                else (LOS_OK, k\<lparr>g_sysClock := tm_freq t,
                                g_cyclesPerTick := tm_freq t div LOSCFG_BASE_CORE_TICK_PER_SECOND,
                                g_sysTimerIsInit := True\<rparr>)))"

definition LOS_TickTimerRegister ::
    "timer_ptr option \<Rightarrow> nat option \<Rightarrow> tick_state \<Rightarrow> u32 \<times> tick_state" where
  "LOS_TickTimerRegister timer tickHandler k =
     (if timer = None \<and> tickHandler = None then (LOS_ERRNO_SYS_PTR_NULL, k)
      else case timer of
        Some p \<Rightarrow>
          (let t = (case p of ArchTimerPtr \<Rightarrow> archTimer k | TimerPtr t \<Rightarrow> t);
               ret = TickTimerCheck (Some t) k
           in if ret \<noteq> LOS_OK then (ret, k)
              else case p of
                ArchTimerPtr \<Rightarrow> (LOS_ERRNO_SYS_TIMER_ADDR_FAULT, k\<lparr>g_sysTickTimer := True\<rparr>)
              | TimerPtr t \<Rightarrow> (LOS_OK, k\<lparr>g_sysTickTimer := True, archTimer := t\<rparr>))
      | None \<Rightarrow>
          (if g_sysTimerIsInit k then (LOS_ERRNO_SYS_TIMER_IS_RUNNING, k)
           else (LOS_OK, k\<lparr>g_sysTickTimer := True,
                           archTimer := (archTimer k)\<lparr>tm_tickHandler := tickHandler\<rparr>\<rparr>)))"

section \<open>Conversions\<close>

definition OS_SYS_TICK_TO_CYCLE :: "u32 \<Rightarrow> u32 \<Rightarrow> u64" where
  "OS_SYS_TICK_TO_CYCLE sysClock ticks =
     (ucast ticks * ucast sysClock) div LOSCFG_BASE_CORE_TICK_PER_SECOND"

definition OS_SYS_CYCLE_TO_TICK :: "u32 \<Rightarrow> u64 \<Rightarrow> u64" where
  "OS_SYS_CYCLE_TO_TICK sysClock cycle =
     (cycle * LOSCFG_BASE_CORE_TICK_PER_SECOND) div ucast sysClock"

definition OS_CYCLE_PER_TICK :: "tick_state \<Rightarrow> u32" where
  "OS_CYCLE_PER_TICK k = g_sysClock k div LOSCFG_BASE_CORE_TICK_PER_SECOND"

text \<open>\<open>OS_SYS_CYCLE_TO_NS\<close> and \<open>OS_SYS_NS_TO_CYCLE\<close>, at the type UINT64 of their first argument.\<close>

definition OS_SYS_CYCLE_TO_NS :: "u64 \<Rightarrow> u32 \<Rightarrow> u64" where
  "OS_SYS_CYCLE_TO_NS cycle freq =
     (cycle div ucast freq) * OS_SYS_NS_PER_SECOND
       + ((cycle mod ucast freq) * OS_SYS_NS_PER_SECOND div ucast freq)"

definition OS_SYS_NS_TO_CYCLE :: "u64 \<Rightarrow> u32 \<Rightarrow> u64" where
  "OS_SYS_NS_TO_CYCLE time freq =
     (time div OS_SYS_NS_PER_SECOND) * ucast freq
       + (time mod OS_SYS_NS_PER_SECOND) * ucast freq div OS_SYS_NS_PER_SECOND"

text \<open>The frequency ratio is an integer division of the two frequencies.\<close>

definition OsTimeConvertFreq :: "u64 \<Rightarrow> u32 \<Rightarrow> u32 \<Rightarrow> u64" where
  "OsTimeConvertFreq time oldFreq newFreq =
     (if oldFreq \<ge> newFreq then time div ucast (oldFreq div newFreq)
      else time * ucast (newFreq div oldFreq))"

definition LOS_TickCountGet :: "tick_state \<Rightarrow> u64 \<times> tick_state" where
  "LOS_TickCountGet k =
     (let (now, k1) = LOS_SysCycleGet k
      in (OS_SYS_CYCLE_TO_TICK (g_sysClock k1) (now - g_tickTimerStartTime k1), k1))"

definition LOS_CyclePerTickGet :: "tick_state \<Rightarrow> u32" where
  "LOS_CyclePerTickGet k = g_cyclesPerTick k"

definition LOS_MS2Tick :: "u32 \<Rightarrow> u32" where
  "LOS_MS2Tick millisec =
     (if millisec = OS_NULL_INT then OS_NULL_INT
      else ucast (((ucast millisec :: u64) * LOSCFG_BASE_CORE_TICK_PER_SECOND)
                  div OS_SYS_MS_PER_SECOND))"

definition LOS_Tick2MS :: "u32 \<Rightarrow> u32" where
  "LOS_Tick2MS ticks =
     ucast (((ucast ticks :: u64) * OS_SYS_MS_PER_SECOND) div LOSCFG_BASE_CORE_TICK_PER_SECOND)"

text \<open>The divisions by a clock below the unit are divisions by zero: None.\<close>

definition OsCycle2MS :: "tick_state \<Rightarrow> u64 \<Rightarrow> u64 option" where
  "OsCycle2MS k cycle =
     (let d = g_sysClock k div OS_SYS_MS_PER_SECOND
      in if d = 0 then None else Some (cycle div ucast d))"

definition OsCycle2US :: "tick_state \<Rightarrow> u64 \<Rightarrow> u64" where
  "OsCycle2US k cycle =
     (let tmp = ucast (g_sysClock k div OS_SYS_US_PER_SECOND)
      in if tmp = 0 then 0 else cycle div tmp)"

definition LOS_CurrNanosec :: "tick_state \<Rightarrow> u64 option \<times> tick_state" where
  "LOS_CurrNanosec k =
     (let (now, k1) = LOS_SysCycleGet k;
          d = g_sysClock k1 div OS_SYS_NS_PER_MS
      in (if d = 0 then None
          else Some (now * (OS_SYS_NS_PER_SECOND div OS_SYS_NS_PER_MS) div ucast d), k1))"

section \<open>Busy waiting\<close>

text \<open>The loop of \<open>LOS_UDelay\<close>; it ends when the time reaches \<open>endTime\<close>, if it does.\<close>

fun udelay_loop :: "nat \<Rightarrow> u64 \<Rightarrow> tick_state \<Rightarrow> tick_state option" where
  "udelay_loop 0 endTime k = None"
| "udelay_loop (Suc fuel) endTime k =
     (let (now, k1) = LOS_SysCycleGet k
      in if now < endTime then udelay_loop fuel endTime k1 else Some k1)"

definition LOS_UDelay :: "nat \<Rightarrow> u64 \<Rightarrow> tick_state \<Rightarrow> tick_state option" where
  "LOS_UDelay fuel microseconds k =
     (if microseconds = 0 then Some k
      else (let span = (microseconds div OS_SYS_US_PER_SECOND) * ucast (g_sysClock k)
                 + (microseconds mod OS_SYS_US_PER_SECOND) * ucast (g_sysClock k)
                     div OS_SYS_US_PER_SECOND;
                (now, k1) = LOS_SysCycleGet k
            in udelay_loop fuel (now + span) k1))"

definition UINT32_MAX :: u32 where "UINT32_MAX = 0xFFFFFFFF"

function mdelay_loop :: "nat \<Rightarrow> u32 \<Rightarrow> tick_state \<Rightarrow> (u32 \<times> tick_state) option" where
  "mdelay_loop fuel millisec k =
     (if millisec > UINT32_MAX div OS_SYS_US_PER_MS
      then (case LOS_UDelay fuel (ucast ((UINT32_MAX div OS_SYS_US_PER_MS) * OS_SYS_US_PER_MS)) k of
              None \<Rightarrow> None
            | Some k1 \<Rightarrow> mdelay_loop fuel (millisec - UINT32_MAX div OS_SYS_US_PER_MS) k1)
      else Some (millisec, k))"
  by pat_completeness auto
termination
proof (relation "measure (\<lambda>(fuel, millisec, k). unat millisec)", goal_cases)
  case (2 fuel millisec k k1)
  let ?d = "UINT32_MAX div OS_SYS_US_PER_MS"
  have "unat (millisec - ?d) = unat millisec - unat ?d"
    using 2(1) by (simp add: unat_sub)
  moreover have "0 < unat ?d" by (simp add: UINT32_MAX_def OS_SYS_US_PER_MS_def)
  moreover have "unat ?d < unat millisec" using 2(1) by (simp add: word_less_nat_alt)
  ultimately show ?case by simp
qed simp

declare mdelay_loop.simps [simp del]

definition LOS_MDelay :: "nat \<Rightarrow> u32 \<Rightarrow> tick_state \<Rightarrow> tick_state option" where
  "LOS_MDelay fuel millisec k =
     (case mdelay_loop fuel millisec k of
        None \<Rightarrow> None
      | Some (rest, k1) \<Rightarrow> LOS_UDelay fuel (ucast (rest * OS_SYS_US_PER_MS)) k1)"

end
