(* ===== verification/Los_State.thy ===== *)
theory Los_State
  imports Los_Tick
begin

text \<open>
  The scheduler's data (los_task.h, los_sched.c, los_sortlink.h): task control blocks, the
  lists their \<open>pendList\<close> nodes are in, the two sorted timer lists, and the global
  variables. A pointer to a TCB is its index in \<open>g_taskCBArray\<close>; the last index,
  \<open>g_taskMaxNum\<close>, is the block kept for the deleted running task. A list is the HOL list
  of its nodes in order, which is the view theory Los_List proves the pointer operations
  implement.
\<close>

section \<open>Task control blocks\<close>

text \<open>Function pointers the kernel compares: its own two entries, or another address.\<close>

datatype entry_func = OsIdleTask | OsSwtmrTask | EntryFunc nat

record EVENT_CB_S =
  uwEventID :: u32
  stEventList_init :: bool    \<comment> \<open>\<open>stEventList.pstNext != NULL\<close>\<close>

record LosTaskCB =
  stackPointer :: u32
  taskStatus :: u16
  priority :: u16
  timeSlice :: i32
  waitTimes :: u32
  startTime :: u64
  stackSize :: u32
  topOfStack :: u32
  taskID :: u32
  taskEntry :: "entry_func option"
  taskSem :: "nat option"     \<comment> \<open>index of a semaphore block\<close>
  taskMux :: "nat option"     \<comment> \<open>index of a mutex block\<close>
  arg :: u32
  taskName :: "string option"
  joinRetval :: u32
  eventMask :: u32
  eventMode :: u32
  task_msg :: u32

definition zero_tcb :: LosTaskCB where
  "zero_tcb = \<lparr>stackPointer = 0, taskStatus = 0, priority = 0, timeSlice = 0, waitTimes = 0,
     startTime = 0, stackSize = 0, topOfStack = 0, taskID = 0, taskEntry = None, taskSem = None,
     taskMux = None, arg = 0, taskName = None, joinRetval = 0, eventMask = 0, eventMode = 0,
     task_msg = 0\<rparr>"

section \<open>Lists and sorted links\<close>

text \<open>An event control block: the one inside a TCB, or one of the program's.\<close>

datatype evid = TaskEvent nat | UserEvent nat

text \<open>The list heads a \<open>pendList\<close> node can be linked behind.\<close>

datatype listid = PriQueue nat | FreeTask | RecycleTask | SemList nat | MuxList nat
  | EventList evid | QueueRead nat | QueueWrite nat | QueueMem nat | JoinList nat

text \<open>The owner of a \<open>SortLinkList\<close> node: a task's timeout or a software timer.\<close>

datatype sortnode = TaskNode nat | SwtmrNode nat

datatype SortLinkType = OS_SORT_LINK_TASK | OS_SORT_LINK_SWTMR

section \<open>The state\<close>

record sched =
  g_taskCBArray :: "nat \<Rightarrow> LosTaskCB"
  g_taskMaxNum :: u32
  lists :: "listid \<Rightarrow> nat list"
  g_queueBitmap :: u32
  g_taskSortLink :: "sortnode list"
  g_swtmrSortLink :: "sortnode list"
  responseTime :: "sortnode \<Rightarrow> u64"
  g_schedResponseID :: u32
  g_tickIntLock :: u16
  g_schedResponseTime :: u64
  g_schedTimeSlice :: i32
  g_schedTimeSliceMin :: i32
  g_schedTickMinPeriod :: u32
  g_tickResponsePrecision :: u32
  runTask :: nat
  newTask :: nat
  g_losTaskLock :: u16
  g_taskScheduled :: bool
  g_idleTaskID :: u32
  g_swtmrTaskID :: u32
  g_swtmrScan :: bool         \<comment> \<open>a scan function is registered\<close>
  intActive :: bool           \<comment> \<open>\<open>OS_INT_ACTIVE\<close>\<close>
  g_sysNeedSched :: bool
  events :: "evid \<Rightarrow> EVENT_CB_S"
  tk :: tick_state

abbreviation tcb :: "sched \<Rightarrow> nat \<Rightarrow> LosTaskCB" where
  "tcb s t \<equiv> g_taskCBArray s t"

abbreviation st :: "sched \<Rightarrow> nat \<Rightarrow> u16" where
  "st s t \<equiv> taskStatus (tcb s t)"

definition upd_tcb :: "nat \<Rightarrow> (LosTaskCB \<Rightarrow> LosTaskCB) \<Rightarrow> sched \<Rightarrow> sched" where
  "upd_tcb t f s = s\<lparr>g_taskCBArray := (g_taskCBArray s)(t := f (tcb s t))\<rparr>"

text \<open>\<open>taskCB->taskStatus |= f\<close> and \<open>taskCB->taskStatus &= ~f\<close>.\<close>

definition status_set :: "nat \<Rightarrow> u16 \<Rightarrow> sched \<Rightarrow> sched" where
  "status_set t f = upd_tcb t (\<lambda>c. c\<lparr>taskStatus := taskStatus c OR f\<rparr>)"

definition status_clr :: "nat \<Rightarrow> u16 \<Rightarrow> sched \<Rightarrow> sched" where
  "status_clr t f = upd_tcb t (\<lambda>c. c\<lparr>taskStatus := clr (taskStatus c) f\<rparr>)"

definition sched_assert :: "bool \<Rightarrow> sched \<Rightarrow> sched" where
  "sched_assert c s = s\<lparr>tk := tick_assert c (tk s)\<rparr>"

text \<open>\<open>OsGetCurrSchedTimeCycle\<close>.\<close>

definition OsGetCurrSchedTimeCycle :: "sched \<Rightarrow> u64 \<times> sched" where
  "OsGetCurrSchedTimeCycle s = (let (now, k) = LOS_SysCycleGet (tk s) in (now, s\<lparr>tk := k\<rparr>))"

text \<open>\<open>OS_TCB_FROM_TID\<close>: the array at an identifier.\<close>

definition OS_TCB_FROM_TID :: "u32 \<Rightarrow> nat" where
  "OS_TCB_FROM_TID tid = unat tid"

section \<open>Lists of \<open>pendList\<close> nodes\<close>

definition upd_list :: "listid \<Rightarrow> (nat list \<Rightarrow> nat list) \<Rightarrow> sched \<Rightarrow> sched" where
  "upd_list l f s = s\<lparr>lists := (lists s)(l := f (lists s l))\<rparr>"

text \<open>\<open>LOS_ListAdd\<close> at a head, \<open>LOS_ListTailInsert\<close> and \<open>LOS_ListDelete\<close> of a node.\<close>

definition ListAdd :: "listid \<Rightarrow> nat \<Rightarrow> sched \<Rightarrow> sched" where
  "ListAdd l t = upd_list l ((#) t)"

definition ListTailInsert :: "listid \<Rightarrow> nat \<Rightarrow> sched \<Rightarrow> sched" where
  "ListTailInsert l t = upd_list l (\<lambda>xs. xs @ [t])"

definition ListDelete :: "nat \<Rightarrow> sched \<Rightarrow> sched" where
  "ListDelete t s = s\<lparr>lists := (\<lambda>l. removeAll t (lists s l))\<rparr>"

section \<open>What each update leaves alone\<close>

lemma upd_tcb_sel [simp]:
  "g_taskCBArray (upd_tcb t f s) = (g_taskCBArray s)(t := f (tcb s t))"
  "g_taskMaxNum (upd_tcb t f s) = g_taskMaxNum s"
  "lists (upd_tcb t f s) = lists s"
  "g_queueBitmap (upd_tcb t f s) = g_queueBitmap s"
  "g_taskSortLink (upd_tcb t f s) = g_taskSortLink s"
  "g_swtmrSortLink (upd_tcb t f s) = g_swtmrSortLink s"
  "responseTime (upd_tcb t f s) = responseTime s"
  "g_schedResponseID (upd_tcb t f s) = g_schedResponseID s"
  "g_tickIntLock (upd_tcb t f s) = g_tickIntLock s"
  "g_schedResponseTime (upd_tcb t f s) = g_schedResponseTime s"
  "g_schedTimeSlice (upd_tcb t f s) = g_schedTimeSlice s"
  "g_schedTimeSliceMin (upd_tcb t f s) = g_schedTimeSliceMin s"
  "g_tickResponsePrecision (upd_tcb t f s) = g_tickResponsePrecision s"
  "runTask (upd_tcb t f s) = runTask s"
  "newTask (upd_tcb t f s) = newTask s"
  "g_losTaskLock (upd_tcb t f s) = g_losTaskLock s"
  "g_taskScheduled (upd_tcb t f s) = g_taskScheduled s"
  "g_idleTaskID (upd_tcb t f s) = g_idleTaskID s"
  "g_swtmrTaskID (upd_tcb t f s) = g_swtmrTaskID s"
  "g_swtmrScan (upd_tcb t f s) = g_swtmrScan s"
  "intActive (upd_tcb t f s) = intActive s"
  "g_sysNeedSched (upd_tcb t f s) = g_sysNeedSched s"
  "events (upd_tcb t f s) = events s"
  "tk (upd_tcb t f s) = tk s"
  by (simp_all add: upd_tcb_def)

lemmas list_op_defs = ListAdd_def ListTailInsert_def ListDelete_def upd_list_def
lemmas status_defs = status_set_def status_clr_def

end
