(* ===== verification/Los_Sortlink.thy ===== *)
theory Los_Sortlink
  imports Los_State
begin

text \<open>
  The sorted timer lists (kernel/src/los_sortlink.c): nodes ordered by the time they are due.
  The lemmas show that insertion keeps the order and adds exactly the node, that deletion
  removes exactly it, and what the next expiry of a sorted list is.
\<close>

definition OS_SORT_LINK_INVALID_TIME :: u64 where "OS_SORT_LINK_INVALID_TIME = -1"
definition OS_SORT_LINK_UINT64_MAX :: u64 where "OS_SORT_LINK_UINT64_MAX = -1"
definition OS_SCHED_MAX_RESPONSE_TIME :: u64 where
  "OS_SCHED_MAX_RESPONSE_TIME = OS_SORT_LINK_UINT64_MAX"

section \<open>Insertion\<close>

text \<open>
  The loop from the tail towards the head: \<open>rs\<close> are the nodes still to look at, last first,
  \<open>ys\<close> the ones passed. Running off the front would read the list head as a node: None.
\<close>

fun scan_back :: "(sortnode \<Rightarrow> u64) \<Rightarrow> sortnode \<Rightarrow> sortnode list \<Rightarrow> sortnode list \<Rightarrow> sortnode list option" where
  "scan_back rt n [] ys = None"
| "scan_back rt n (x # rs) ys =
     (if rt x \<le> rt n then Some (rev (x # rs) @ n # ys) else scan_back rt n rs (x # ys))"

definition OsAddNode2SortLink ::
    "(sortnode \<Rightarrow> u64) \<Rightarrow> sortnode \<Rightarrow> sortnode list \<Rightarrow> sortnode list option" where
  "OsAddNode2SortLink rt n xs =
     (case xs of
        [] \<Rightarrow> Some [n]
      | x # rest \<Rightarrow>
          if rt x > rt n then Some (n # x # rest)
          else if rt x = rt n then Some (x # n # rest)
          else scan_back rt n (rev xs) [])"

definition sorted_link :: "(sortnode \<Rightarrow> u64) \<Rightarrow> sortnode list \<Rightarrow> bool" where
  "sorted_link rt xs \<longleftrightarrow> sorted (map rt xs)"

lemma sorted_link_Cons [simp]:
  "sorted_link rt (x # xs) \<longleftrightarrow> (\<forall>y\<in>set xs. rt x \<le> rt y) \<and> sorted_link rt xs"
  by (auto simp: sorted_link_def)

lemma sorted_link_Nil [simp]: "sorted_link rt []"
  by (simp add: sorted_link_def)

lemma sorted_link_append [simp]:
  "sorted_link rt (xs @ ys) \<longleftrightarrow>
     sorted_link rt xs \<and> sorted_link rt ys \<and> (\<forall>x\<in>set xs. \<forall>y\<in>set ys. rt x \<le> rt y)"
  by (auto simp: sorted_link_def sorted_append)

lemma sorted_link_cong:
  "(\<And>x. x \<in> set xs \<Longrightarrow> rt x = rt' x) \<Longrightarrow> sorted_link rt xs = sorted_link rt' xs"
  unfolding sorted_link_def by (metis map_eq_conv)

lemma sorted_link_removeAll [simp]: "sorted_link rt xs \<Longrightarrow> sorted_link rt (removeAll n xs)"
  by (induction xs) auto

text \<open>The result of the scan: the node goes behind the last one that is not later.\<close>

lemma scan_back_Some:
  assumes "\<exists>x\<in>set rs. rt x \<le> rt n"
  shows "\<exists>us vs. rev rs = us @ vs \<and> scan_back rt n rs ys = Some (us @ n # vs @ ys)
    \<and> (\<forall>v\<in>set vs. rt n < rt v) \<and> (us \<noteq> [] \<and> rt (last us) \<le> rt n)"
  using assms
proof (induction rs arbitrary: ys)
  case Nil
  then show ?case by simp
next
  case (Cons x rs)
  show ?case
  proof (cases "rt x \<le> rt n")
    case True
    then show ?thesis by (intro exI [of _ "rev (x # rs)"] exI [of _ "[]"]) auto
  next
    case False
    with Cons.prems have "\<exists>y\<in>set rs. rt y \<le> rt n" by auto
    from Cons.IH [OF this, of "x # ys"] obtain us vs where
      "rev rs = us @ vs" "scan_back rt n rs (x # ys) = Some (us @ n # vs @ x # ys)"
      "\<forall>v\<in>set vs. rt n < rt v" "us \<noteq> [] \<and> rt (last us) \<le> rt n" by auto
    with False show ?thesis
      by (intro exI [of _ us] exI [of _ "vs @ [x]"]) auto
  qed
qed

text \<open>
  Where the node ends up in a sorted list: nothing before it is later, nothing behind it is
  earlier; so the list stays sorted. The loop never runs off the front.
\<close>

lemma AddNode_split:
  assumes "sorted_link rt xs"
  shows "\<exists>us vs. xs = us @ vs \<and> OsAddNode2SortLink rt n xs = Some (us @ n # vs)
    \<and> (\<forall>u\<in>set us. rt u \<le> rt n) \<and> (\<forall>v\<in>set vs. rt n \<le> rt v)"
proof (cases xs)
  case Nil
  then show ?thesis by (simp add: OsAddNode2SortLink_def)
next
  case (Cons x rest)
  consider "rt x > rt n" | "rt x = rt n" | "rt x < rt n" by (metis linorder_less_linear)
  then show ?thesis
  proof cases
    case 1
    with Cons assms show ?thesis
      by (intro exI [of _ "[]"] exI [of _ xs]) (force simp: OsAddNode2SortLink_def)
  next
    case 2
    with Cons assms show ?thesis
      by (intro exI [of _ "[x]"] exI [of _ rest]) (auto simp: OsAddNode2SortLink_def)
  next
    case 3
    then have "\<exists>y\<in>set (rev xs). rt y \<le> rt n" using Cons by auto
    from scan_back_Some [OF this, of "[]"] obtain us vs where
      s: "xs = us @ vs" "scan_back rt n (rev xs) [] = Some (us @ n # vs)"
      "\<forall>v\<in>set vs. rt n < rt v" "us \<noteq> []" "rt (last us) \<le> rt n" by auto
    obtain us' where us: "us = us' @ [last us]" using s(4) by (metis append_butlast_last_id)
    have "\<forall>u\<in>set us'. rt u \<le> rt (last us)"
      using assms s(1) us by (metis sorted_link_append list.set_intros(1))
    then have "\<forall>u\<in>set us. rt u \<le> rt n"
      using s(5) us by (metis UnE order_trans set_append set_ConsD empty_iff list.set(1))
    moreover have "OsAddNode2SortLink rt n xs = scan_back rt n (rev xs) []"
      using 3 Cons by (auto simp: OsAddNode2SortLink_def)
    ultimately show ?thesis
      using s by (intro exI [of _ us] exI [of _ vs]) (auto simp: less_imp_le)
  qed
qed

lemma AddNode_sorted:
  "sorted_link rt xs \<Longrightarrow> \<exists>ys. OsAddNode2SortLink rt n xs = Some ys \<and> sorted_link rt ys
     \<and> set ys = insert n (set xs) \<and> (distinct ys \<longleftrightarrow> distinct (n # xs))"
  using AddNode_split [of rt xs n] by (force intro: order_trans)

lemma AddNode_not_None: "sorted_link rt xs \<Longrightarrow> OsAddNode2SortLink rt n xs \<noteq> None"
  using AddNode_sorted [of rt xs n] by auto

section \<open>Operations on the state\<close>

definition link_of :: "SortLinkType \<Rightarrow> sched \<Rightarrow> sortnode list" where
  "link_of ty s = (case ty of OS_SORT_LINK_TASK \<Rightarrow> g_taskSortLink s
                            | OS_SORT_LINK_SWTMR \<Rightarrow> g_swtmrSortLink s)"

definition set_link :: "SortLinkType \<Rightarrow> sortnode list \<Rightarrow> sched \<Rightarrow> sched" where
  "set_link ty xs s = (case ty of OS_SORT_LINK_TASK \<Rightarrow> s\<lparr>g_taskSortLink := xs\<rparr>
                                | OS_SORT_LINK_SWTMR \<Rightarrow> s\<lparr>g_swtmrSortLink := xs\<rparr>)"

definition SET_SORTLIST_VALUE :: "sortnode \<Rightarrow> u64 \<Rightarrow> sched \<Rightarrow> sched" where
  "SET_SORTLIST_VALUE n v s = s\<lparr>responseTime := (responseTime s)(n := v)\<rparr>"

definition OsSortLinkInit :: "SortLinkType \<Rightarrow> sched \<Rightarrow> u32 \<times> sched" where
  "OsSortLinkInit ty s = (LOS_OK, set_link ty [] s)"

definition OsAdd2SortLink :: "sortnode \<Rightarrow> u64 \<Rightarrow> u32 \<Rightarrow> SortLinkType \<Rightarrow> sched \<Rightarrow> sched" where
  "OsAdd2SortLink n start waitTicks ty s =
     (let s1 = SET_SORTLIST_VALUE n
                 (start + OS_SYS_TICK_TO_CYCLE (g_sysClock (tk s)) waitTicks) s
      in case OsAddNode2SortLink (responseTime s1) n (link_of ty s1) of
           Some xs \<Rightarrow> set_link ty xs s1
         | None \<Rightarrow> sched_assert False s1)"

definition OsDeleteNodeSortLink :: "sortnode \<Rightarrow> sched \<Rightarrow> sched" where
  "OsDeleteNodeSortLink n s =
     SET_SORTLIST_VALUE n OS_SORT_LINK_INVALID_TIME
       (s\<lparr>g_taskSortLink := removeAll n (g_taskSortLink s),
          g_swtmrSortLink := removeAll n (g_swtmrSortLink s)\<rparr>)"

text \<open>los_sched.c: the armed response may have been this node's, so it is forgotten.\<close>

definition OsSchedResetSchedResponseTime :: "u64 \<Rightarrow> sched \<Rightarrow> sched" where
  "OsSchedResetSchedResponseTime t s =
     (if t \<le> g_schedResponseTime s
      then s\<lparr>g_schedResponseTime := OS_SCHED_MAX_RESPONSE_TIME\<rparr> else s)"

definition OsDeleteSortLink :: "sortnode \<Rightarrow> sched \<Rightarrow> sched" where
  "OsDeleteSortLink n s =
     (if responseTime s n \<noteq> OS_SORT_LINK_INVALID_TIME
      then OsDeleteNodeSortLink n (OsSchedResetSchedResponseTime (responseTime s n) s)
      else s)"

definition SortLinkNodeTimeUpdate :: "SortLinkType \<Rightarrow> u32 \<Rightarrow> sched \<Rightarrow> sched" where
  "SortLinkNodeTimeUpdate ty oldFreq s =
     fold (\<lambda>n s. SET_SORTLIST_VALUE n
             (OsTimeConvertFreq (responseTime s n) oldFreq (g_sysClock (tk s))) s)
       (link_of ty s) s"

definition OsSortLinkResponseTimeConvertFreq :: "u32 \<Rightarrow> sched \<Rightarrow> sched" where
  "OsSortLinkResponseTimeConvertFreq oldFreq s =
     SortLinkNodeTimeUpdate OS_SORT_LINK_SWTMR oldFreq
       (SortLinkNodeTimeUpdate OS_SORT_LINK_TASK oldFreq s)"

definition OsSortLinkGetTargetExpireTime :: "u64 \<Rightarrow> u64 \<Rightarrow> u64" where
  "OsSortLinkGetTargetExpireTime currTime target =
     (if currTime \<ge> target then 0 else target - currTime)"

definition OsSortLinkGetRemainTime :: "u64 \<Rightarrow> u64 \<Rightarrow> u64" where
  "OsSortLinkGetRemainTime currTime target =
     (if currTime \<ge> target then 0 else target - currTime)"

definition OsSortLinkGetNextExpireTime :: "SortLinkType \<Rightarrow> sched \<Rightarrow> u64 \<times> sched" where
  "OsSortLinkGetNextExpireTime ty s =
     (case link_of ty s of
        [] \<Rightarrow> (0, s)
      | n # _ \<Rightarrow>
          (let (now, s1) = OsGetCurrSchedTimeCycle s
           in (OsSortLinkGetTargetExpireTime now (responseTime s1 n), s1)))"

definition GetSortLinkNextExpireTime :: "SortLinkType \<Rightarrow> u64 \<Rightarrow> u32 \<Rightarrow> sched \<Rightarrow> u64" where
  "GetSortLinkNextExpireTime ty start tickPrecision s =
     (case link_of ty s of
        [] \<Rightarrow> OS_SORT_LINK_UINT64_MAX - ucast tickPrecision
      | n # _ \<Rightarrow> if responseTime s n \<le> start + ucast tickPrecision
                then start + ucast tickPrecision else responseTime s n)"

definition OsGetNextExpireTime :: "u64 \<Rightarrow> u32 \<Rightarrow> sched \<Rightarrow> u64" where
  "OsGetNextExpireTime start tickPrecision s =
     (let taskExpireTime = GetSortLinkNextExpireTime OS_SORT_LINK_TASK start tickPrecision s;
          swtmrExpireTime = GetSortLinkNextExpireTime OS_SORT_LINK_SWTMR start tickPrecision s
      in if taskExpireTime < swtmrExpireTime then taskExpireTime else swtmrExpireTime)"

lemmas sortlink_defs = link_of_def set_link_def SET_SORTLIST_VALUE_def OsAdd2SortLink_def
  OsDeleteNodeSortLink_def OsSchedResetSchedResponseTime_def OsDeleteSortLink_def Let_def

end
