(* ===== verification/Los_Sched.thy ===== *)
theory Los_Sched
  imports Los_Sortlink
begin

text \<open>
  The scheduler (kernel/src/los_sched.c) and its entry points in the xtensa port
  (arch/xtensa/lx6/gcc/los_context.c): the 32 ready queues with their bitmap, the time slice,
  the arming of the tick timer, putting tasks to sleep and waking them, and the task switch.
  The hooks of los_hook.h, the trace and the task monitor are off, as in the default
  configuration; LOSCFG_KERNEL_PM is 0, so the power-management mode is never entered.
\<close>

section \<open>Configuration\<close>

definition OS_PRIORITY_QUEUE_NUM :: nat where "OS_PRIORITY_QUEUE_NUM = 32"
definition PRIQUEUE_PRIOR0_BIT :: u32 where "PRIQUEUE_PRIOR0_BIT = 0x80000000"
definition LOS_WAIT_FOREVER :: u32 where "LOS_WAIT_FOREVER = 0xFFFFFFFF"
definition LOS_NO_WAIT :: u32 where "LOS_NO_WAIT = 0"
definition LOSCFG_BASE_CORE_TICK_PER_SECOND_MINI :: u32 where
  "LOSCFG_BASE_CORE_TICK_PER_SECOND_MINI = 1000"
definition LOSCFG_BASE_CORE_TIMESLICE_TIMEOUT :: u64 where
  "LOSCFG_BASE_CORE_TIMESLICE_TIMEOUT = 20000"
definition OsIsPmMode :: bool where "OsIsPmMode = False"

definition OS_TASK_BLOCKED_STATUS :: u16 where
  "OS_TASK_BLOCKED_STATUS = flag PEND OR flag SUSPEND OR flag EXIT OR flag UNUSED"

definition is_idle :: "sched \<Rightarrow> nat \<Rightarrow> bool" where
  "is_idle s t \<longleftrightarrow> taskID (tcb s t) = g_idleTaskID s"

section \<open>Time slices and the next tick\<close>

definition OsTimeSliceUpdate :: "nat \<Rightarrow> u64 \<Rightarrow> sched \<Rightarrow> sched" where
  "OsTimeSliceUpdate t currTime s =
     (let s1 = sched_assert (currTime \<ge> startTime (tcb s t)) s;
          incTime = (ucast (currTime - startTime (tcb s1 t)) :: i32);
          s2 = (if \<not> is_idle s1 t
                then upd_tcb t (\<lambda>c. c\<lparr>timeSlice := timeSlice c - incTime\<rparr>) s1 else s1)
      in upd_tcb t (\<lambda>c. c\<lparr>startTime := currTime\<rparr>) s2)"

definition OsSchedSetNextExpireTime :: "u32 \<Rightarrow> u64 \<Rightarrow> sched \<Rightarrow> sched" where
  "OsSchedSetNextExpireTime responseID taskEndTime s =
     (let (currTime, s) = OsGetCurrSchedTimeCycle s;
          precision = (ucast (g_tickResponsePrecision s) :: u64);
          nextExpireTime = OsGetNextExpireTime currTime (g_tickResponsePrecision s) s;
          isTimeSlice = (nextExpireTime > taskEndTime
                         \<and> nextExpireTime - taskEndTime > ucast (g_schedTickMinPeriod s));
          nextExpireTime = (if isTimeSlice then taskEndTime else nextExpireTime)
      in if g_schedResponseTime s \<le> nextExpireTime
            \<or> g_schedResponseTime s - nextExpireTime < precision then s
         else
           (let s = s\<lparr>g_schedResponseID := (if isTimeSlice then responseID else OS_INVALID)\<rparr>;
                nextResponseTime = nextExpireTime - currTime;
                nextResponseTime = (if nextResponseTime < precision then precision
                                    else nextResponseTime);
                (r, k) = OsTickTimerReload nextResponseTime (tk s)
            in s\<lparr>tk := k, g_schedResponseTime := currTime + r\<rparr>))"

definition OsSchedUpdateExpireTime :: "sched \<Rightarrow> sched" where
  "OsSchedUpdateExpireTime s =
     (let run = runTask s
      in if \<not> g_taskScheduled s \<or> g_tickIntLock s \<noteq> 0 then s
         else
           (let endTime =
              (if \<not> is_idle s run \<and> \<not> OsIsPmMode
               then (let slice = (if sint (timeSlice (tcb s run)) \<le> sint (g_schedTimeSliceMin s)
                                  then g_schedTimeSlice s else timeSlice (tcb s run))
                     in startTime (tcb s run) + scast slice)
               else OS_SCHED_MAX_RESPONSE_TIME - ucast (g_tickResponsePrecision s))
            in OsSchedSetNextExpireTime (taskID (tcb s run)) endTime s))"

section \<open>The ready queues\<close>

definition prior_bit :: "nat \<Rightarrow> u32" where
  "prior_bit p = drop_bit p PRIQUEUE_PRIOR0_BIT"

definition OsSchedPriQueueEnHead :: "nat \<Rightarrow> nat \<Rightarrow> sched \<Rightarrow> sched" where
  "OsSchedPriQueueEnHead t p s =
     ListAdd (PriQueue p) t
       (if lists s (PriQueue p) = []
        then s\<lparr>g_queueBitmap := g_queueBitmap s OR prior_bit p\<rparr> else s)"

definition OsSchedPriQueueEnTail :: "nat \<Rightarrow> nat \<Rightarrow> sched \<Rightarrow> sched" where
  "OsSchedPriQueueEnTail t p s =
     ListTailInsert (PriQueue p) t
       (if lists s (PriQueue p) = []
        then s\<lparr>g_queueBitmap := g_queueBitmap s OR prior_bit p\<rparr> else s)"

definition OsSchedPriQueueDelete :: "nat \<Rightarrow> nat \<Rightarrow> sched \<Rightarrow> sched" where
  "OsSchedPriQueueDelete t p s =
     (let s1 = ListDelete t s
      in if lists s1 (PriQueue p) = []
         then s1\<lparr>g_queueBitmap := clr (g_queueBitmap s1) (prior_bit p)\<rparr> else s1)"

definition OsSchedTaskEnQueue :: "nat \<Rightarrow> sched \<Rightarrow> sched" where
  "OsSchedTaskEnQueue t s =
     (let s0 = sched_assert (\<not> has (st s t) (flag READY)) s;
          s1 = (if \<not> is_idle s0 t
                then if sint (timeSlice (tcb s0 t)) > sint (g_schedTimeSliceMin s0)
                     then OsSchedPriQueueEnHead t (unat (priority (tcb s0 t))) s0
                     else OsSchedPriQueueEnTail t (unat (priority (tcb s0 t)))
                            (upd_tcb t (\<lambda>c. c\<lparr>timeSlice := g_schedTimeSlice s0\<rparr>) s0)
                else s0);
          s2 = status_clr t (flag PEND OR flag SUSPEND OR flag DELAY OR flag PEND_TIME) s1
      in status_set t (flag READY) s2)"

definition OsSchedTaskDeQueue :: "nat \<Rightarrow> sched \<Rightarrow> sched" where
  "OsSchedTaskDeQueue t s =
     (if has (st s t) (flag READY)
      then status_clr t (flag READY)
             (if \<not> is_idle s t
              then OsSchedPriQueueDelete t (unat (priority (tcb s t))) s else s)
      else s)"

section \<open>Expired timeouts\<close>

definition OsSchedWakePendTimeTask :: "nat \<Rightarrow> bool \<Rightarrow> sched \<Rightarrow> bool \<times> sched" where
  "OsSchedWakePendTimeTask t needSchedule s =
     (let tempStatus = st s t
      in if has tempStatus (flag PEND OR flag DELAY)
         then
           (let s1 = status_clr t (flag PEND OR flag PEND_TIME OR flag DELAY) s;
                s2 = (if has tempStatus (flag PEND)
                      then upd_tcb t (\<lambda>c. c\<lparr>taskMux := None, taskSem := None\<rparr>)
                             (ListDelete t (status_set t (flag TIMEOUT) s1))
                      else s1)
            in if \<not> has tempStatus (flag SUSPEND)
               then (True, OsSchedTaskEnQueue t s2) else (needSchedule, s2))
         else (needSchedule, s))"

lemma EnQueue_sort_links [simp]:
  "g_taskSortLink (OsSchedTaskEnQueue t s) = g_taskSortLink s"
  "g_swtmrSortLink (OsSchedTaskEnQueue t s) = g_swtmrSortLink s"
  "responseTime (OsSchedTaskEnQueue t s) = responseTime s"
  by (simp_all add: OsSchedTaskEnQueue_def Let_def sched_assert_def OsSchedPriQueueEnHead_def
      OsSchedPriQueueEnTail_def list_op_defs status_defs)

lemma WakePendTimeTask_sort_links [simp]:
  "g_taskSortLink (snd (OsSchedWakePendTimeTask t n s)) = g_taskSortLink s"
  "responseTime (snd (OsSchedWakePendTimeTask t n s)) = responseTime s"
  by (simp_all add: OsSchedWakePendTimeTask_def Let_def list_op_defs status_defs)

text \<open>
  The loop of \<open>OsSchedScanTimerList\<close>, over the time read once at its start. A node of the
  task list is always a task's.
\<close>

function scan_timer :: "u64 \<Rightarrow> bool \<Rightarrow> sched \<Rightarrow> bool \<times> sched" where
  "scan_timer currTime need s =
     (case g_taskSortLink s of
        [] \<Rightarrow> (need, s)
      | SwtmrNode i # _ \<Rightarrow> (need, sched_assert False s)
      | TaskNode t # _ \<Rightarrow>
          (if responseTime s (TaskNode t) \<le> currTime
           then (let r = OsSchedWakePendTimeTask t need (OsDeleteNodeSortLink (TaskNode t) s)
                 in scan_timer currTime (fst r) (snd r))
           else (need, s)))"
  by pat_completeness auto
termination
  by (relation "measure (\<lambda>p. length (g_taskSortLink (snd (snd p))))")
    (auto simp: sortlink_defs less_Suc_eq_le length_removeAll_less_eq)

declare scan_timer.simps [simp del]

definition OsSchedScanTimerList :: "sched \<Rightarrow> bool \<times> sched" where
  "OsSchedScanTimerList s =
     (if g_taskSortLink s = [] then (False, s)
      else (let (currTime, s1) = OsGetCurrSchedTimeCycle s in scan_timer currTime False s1))"

section \<open>Leaving and entering the ready state\<close>

definition OsSchedTaskExit :: "nat \<Rightarrow> sched \<Rightarrow> sched" where
  "OsSchedTaskExit t s =
     (let s1 = (if has (st s t) (flag READY) then OsSchedTaskDeQueue t s
                else if has (st s t) (flag PEND)
                then status_clr t (flag PEND) (ListDelete t s) else s);
          s2 = (if has (st s1 t) (flag DELAY OR flag PEND_TIME)
                then status_clr t (flag DELAY OR flag PEND_TIME)
                       (OsDeleteSortLink (TaskNode t) s1)
                else s1)
      in status_set t (flag EXIT) s2)"

definition OsSchedYield :: "sched \<Rightarrow> sched" where
  "OsSchedYield s = upd_tcb (runTask s) (\<lambda>c. c\<lparr>timeSlice := 0\<rparr>) s"

definition OsSchedDelay :: "nat \<Rightarrow> u32 \<Rightarrow> sched \<Rightarrow> sched" where
  "OsSchedDelay t tick s =
     upd_tcb t (\<lambda>c. c\<lparr>waitTimes := tick\<rparr>) (status_set t (flag DELAY) s)"

definition OsSchedTaskWait :: "listid \<Rightarrow> u32 \<Rightarrow> sched \<Rightarrow> sched" where
  "OsSchedTaskWait l ticks s =
     (let run = runTask s;
          s1 = ListTailInsert l run (status_set run (flag PEND) s)
      in if ticks \<noteq> LOS_WAIT_FOREVER
         then upd_tcb run (\<lambda>c. c\<lparr>waitTimes := ticks\<rparr>) (status_set run (flag PEND_TIME) s1)
         else s1)"

definition OsSchedTaskWake :: "nat \<Rightarrow> sched \<Rightarrow> sched" where
  "OsSchedTaskWake t s =
     (let s1 = status_clr t (flag PEND) (ListDelete t s);
          s2 = (if has (st s1 t) (flag PEND_TIME)
                then status_clr t (flag PEND_TIME) (OsDeleteSortLink (TaskNode t) s1) else s1)
      in if \<not> has (st s2 t) (flag SUSPEND) \<and> \<not> has (st s2 t) (flag RUNNING)
         then OsSchedTaskEnQueue t s2 else s2)"

definition OsSchedFreezeTask :: "nat \<Rightarrow> sched \<Rightarrow> sched" where
  "OsSchedFreezeTask t s =
     (let r = responseTime s (TaskNode t)
      in status_set t (flag FREEZE)
           (SET_SORTLIST_VALUE (TaskNode t) r (OsDeleteSortLink (TaskNode t) s)))"

definition OsSchedUnfreezeTask :: "nat \<Rightarrow> sched \<Rightarrow> sched" where
  "OsSchedUnfreezeTask t s =
     (let s1 = status_clr t (flag FREEZE) s;
          (currTime, s2) = OsGetCurrSchedTimeCycle s1;
          r = responseTime s2 (TaskNode t);
          perTick = (ucast (OS_CYCLE_PER_TICK (tk s2)) :: u64)
      in if r > currTime
         then OsAdd2SortLink (TaskNode t) currTime
                (ucast (((r - currTime) + perTick - 1) div perTick)) OS_SORT_LINK_TASK s2
         else
           (let s3 = SET_SORTLIST_VALUE (TaskNode t) OS_SORT_LINK_INVALID_TIME s2;
                s4 = (if has (st s3 t) (flag PEND) then ListDelete t s3 else s3)
            in status_clr t (flag DELAY OR flag PEND_TIME OR flag PEND) s4))"

definition OsSchedSuspend :: "nat \<Rightarrow> sched \<Rightarrow> sched" where
  "OsSchedSuspend t s =
     (let s1 = (if has (st s t) (flag READY) then OsSchedTaskDeQueue t s else s);
          s2 = (if has (st s1 t) (flag PEND_TIME OR flag DELAY) \<and> OsIsPmMode
                then OsSchedFreezeTask t s1 else s1)
      in status_set t (flag SUSPEND) s2)"

definition OsSchedResume :: "nat \<Rightarrow> sched \<Rightarrow> bool \<times> sched" where
  "OsSchedResume t s =
     (let s1 = (if has (st s t) (flag FREEZE) then OsSchedUnfreezeTask t s else s);
          s2 = status_clr t (flag SUSPEND) s1
      in if \<not> has (st s2 t) (flag DELAY OR flag PEND)
         then (True, OsSchedTaskEnQueue t s2) else (False, s2))"

definition set_priority :: "nat \<Rightarrow> u16 \<Rightarrow> sched \<Rightarrow> sched" where
  "set_priority t p = upd_tcb t (\<lambda>c. c\<lparr>priority := p\<rparr>)"

definition OsSchedModifyTaskSchedParam :: "nat \<Rightarrow> u16 \<Rightarrow> sched \<Rightarrow> bool \<times> sched" where
  "OsSchedModifyTaskSchedParam t p s =
     (if has (st s t) (flag READY)
      then (True, OsSchedTaskEnQueue t (set_priority t p (OsSchedTaskDeQueue t s)))
      else (has (st s t) (flag RUNNING), set_priority t p s))"

definition OsSchedSetIdleTaskSchedParam :: "nat \<Rightarrow> sched \<Rightarrow> sched" where
  "OsSchedSetIdleTaskSchedParam idleTask s = OsSchedTaskEnQueue idleTask s"

definition OsSchedSwtmrScanRegister :: "bool \<Rightarrow> sched \<Rightarrow> u32 \<times> sched" where
  "OsSchedSwtmrScanRegister func s =
     (if \<not> func then (LOS_NOK, s) else (LOS_OK, s\<lparr>g_swtmrScan := True\<rparr>))"

definition OsTaskNextSwitchTimeGet :: "sched \<Rightarrow> u32 \<times> sched" where
  "OsTaskNextSwitchTimeGet s =
     (let (ticks, s1) = OsSortLinkGetNextExpireTime OS_SORT_LINK_TASK s in (ucast ticks, s1))"

definition OsSchedGetNextExpireTime :: "u64 \<Rightarrow> sched \<Rightarrow> u64" where
  "OsSchedGetNextExpireTime start s = OsGetNextExpireTime start (g_tickResponsePrecision s) s"

section \<open>Initialisation and a change of frequency\<close>

definition TaskSchedTimeConvertFreq :: "u32 \<Rightarrow> sched \<Rightarrow> sched" where
  "TaskSchedTimeConvertFreq oldFreq s =
     fold (\<lambda>t s.
        if has (st s t) (flag UNUSED) then s
        else
          (let clk = g_sysClock (tk s);
               s1 = upd_tcb t (\<lambda>c. c\<lparr>timeSlice :=
                        (if sint (timeSlice c) > 0
                         then ucast (OsTimeConvertFreq (scast (timeSlice c)) oldFreq clk)
                         else 0)\<rparr>) s
           in if has (st s1 t) (flag RUNNING)
              then upd_tcb t (\<lambda>c. c\<lparr>startTime := OsTimeConvertFreq (startTime c) oldFreq clk\<rparr>) s1
              else s1))
       [0..<unat (g_taskMaxNum s)] s"

definition SchedTimeBaseInit :: "sched \<Rightarrow> sched" where
  "SchedTimeBaseInit s =
     (let clk = g_sysClock (tk s);
          minPeriod = clk div LOSCFG_BASE_CORE_TICK_PER_SECOND_MINI
      in s\<lparr>g_schedResponseTime := OS_SCHED_MAX_RESPONSE_TIME,
           g_schedTickMinPeriod := minPeriod,
           g_tickResponsePrecision := (minPeriod * 75) div 100,
           g_schedTimeSlice :=
             ucast (((ucast clk :: u64) * LOSCFG_BASE_CORE_TIMESLICE_TIMEOUT)
                    div OS_SYS_US_PER_SECOND),
           g_schedTimeSliceMin :=
             ucast (((ucast clk :: u64) * 50) div OS_SYS_US_PER_SECOND)\<rparr>)"

definition OsSchedTimeConvertFreq :: "u32 \<Rightarrow> sched \<Rightarrow> sched" where
  "OsSchedTimeConvertFreq oldFreq s =
     OsSchedUpdateExpireTime
       (OsSortLinkResponseTimeConvertFreq oldFreq
          (TaskSchedTimeConvertFreq oldFreq (SchedTimeBaseInit s)))"

text \<open>
  los_tick.c: the handler reprograms the clock and returns its new frequency. Locking and
  unlocking the timer mask its interrupt.
\<close>

definition LOS_SysTickClockFreqAdjust ::
    "u64 \<Rightarrow> (u32 \<Rightarrow> u32) option \<Rightarrow> u32 \<Rightarrow> sched \<Rightarrow> u32 \<times> sched" where
  "LOS_SysTickClockFreqAdjust responseMax handler param s =
     (case handler of
        None \<Rightarrow> (LOS_ERRNO_SYS_HOOK_IS_NULL, s)
      | Some h \<Rightarrow>
          (let oldFreq = g_sysClock (tk s);
               (currTimeCycle, k) = LOS_SysCycleGet (tk s);
               freq = h param
           in if freq = 0 \<or> freq = g_sysClock k
              then (LOS_ERRNO_SYS_CLOCK_INVALID, s\<lparr>tk := k\<rparr>)
              else
                (let k = snd (reload responseMax k);
                     k = k\<lparr>g_tickTimerBase := OsTimeConvertFreq currTimeCycle oldFreq freq,
                           g_oldTickTimerBase :=
                             OsTimeConvertFreq (g_oldTickTimerBase k) oldFreq freq,
                           g_tickTimerStartTime :=
                             OsTimeConvertFreq (g_tickTimerStartTime k) oldFreq freq,
                           archTimer := (archTimer k)\<lparr>tm_freq := freq\<rparr>,
                           g_sysClock := freq,
                           g_cyclesPerTick := freq div LOSCFG_BASE_CORE_TICK_PER_SECOND\<rparr>
                 in (LOS_OK, OsSchedTimeConvertFreq oldFreq (s\<lparr>tk := k\<rparr>)))))"

definition OsSchedInit :: "sched \<Rightarrow> u32 \<times> sched" where
  "OsSchedInit s =
     (let s1 = s\<lparr>lists := (\<lambda>l. case l of PriQueue p \<Rightarrow> [] | _ \<Rightarrow> lists s l), g_queueBitmap := 0\<rparr>;
          (_, s2) = OsSortLinkInit OS_SORT_LINK_TASK s1
      in (LOS_OK, SchedTimeBaseInit s2))"

section \<open>Choosing and switching\<close>

text \<open>
  The first task of the queue the bitmap points at. An empty queue behind a set bit would read
  the list head as a task; the model answers with the reserved block there, and the invariant
  below excludes it.
\<close>

definition OsGetTopTask :: "sched \<Rightarrow> nat" where
  "OsGetTopTask s =
     (if g_queueBitmap s \<noteq> 0
      then (case lists s (PriQueue (CLZ (g_queueBitmap s))) of
              t # _ \<Rightarrow> t | [] \<Rightarrow> unat (g_taskMaxNum s))
      else OS_TCB_FROM_TID (g_idleTaskID s))"

definition OsSchedTaskSwitch :: "sched \<Rightarrow> bool \<times> sched" where
  "OsSchedTaskSwitch s =
     (let run = runTask s;
          (currTime, s1) = OsGetCurrSchedTimeCycle s;
          s2 = OsTimeSliceUpdate run currTime s1;
          s3 = (if has (st s2 run) (flag PEND_TIME OR flag DELAY)
                then OsAdd2SortLink (TaskNode run) (startTime (tcb s2 run))
                       (waitTimes (tcb s2 run)) OS_SORT_LINK_TASK s2
                else if \<not> has (st s2 run) OS_TASK_BLOCKED_STATUS
                then OsSchedTaskEnQueue run s2 else s2);
          new = OsGetTopTask s3;
          s4 = s3\<lparr>newTask := new\<rparr>;
          s5 = (if run \<noteq> new
                then upd_tcb new (\<lambda>c. c\<lparr>startTime := startTime (tcb s4 run)\<rparr>)
                       (status_set new (flag RUNNING) (status_clr run (flag RUNNING) s4))
                else s4);
          s6 = OsSchedTaskDeQueue new s5;
          endTime = (if \<not> is_idle s6 new
                     then startTime (tcb s6 new) + scast (timeSlice (tcb s6 new))
                     else OS_SCHED_MAX_RESPONSE_TIME - ucast (g_tickResponsePrecision s6));
          s7 = s6\<lparr>g_schedResponseTime := (if g_schedResponseID s6 = taskID (tcb s6 run)
                    then OS_SCHED_MAX_RESPONSE_TIME else g_schedResponseTime s6)\<rparr>
      in (run \<noteq> new, OsSchedSetNextExpireTime (taskID (tcb s7 new)) endTime s7))"

text \<open>
  \<open>ArchTaskSchedule\<close>: inside an interrupt the switch is only requested. The assembly of
  \<open>HalTaskContextSwitch\<close> makes the new task the running one.
\<close>

definition ArchTaskSchedule :: "sched \<Rightarrow> sched" where
  "ArchTaskSchedule s =
     (if intActive s then s\<lparr>g_sysNeedSched := True\<rparr>
      else (let (isSwitch, s1) = OsSchedTaskSwitch (s\<lparr>g_sysNeedSched := False\<rparr>)
            in if isSwitch then s1\<lparr>runTask := newTask s1\<rparr> else s1))"

definition LOS_CHECK_SCHEDULE :: "sched \<Rightarrow> bool" where
  "LOS_CHECK_SCHEDULE s \<longleftrightarrow> g_losTaskLock s = 0"

definition OsCheckKernelRunning :: "sched \<Rightarrow> bool" where
  "OsCheckKernelRunning s \<longleftrightarrow> g_taskScheduled s \<and> LOS_CHECK_SCHEDULE s"

definition HalIrqEndCheckNeedSched :: "sched \<Rightarrow> sched" where
  "HalIrqEndCheckNeedSched s =
     (if g_sysNeedSched s \<and> g_taskScheduled s \<and> LOS_CHECK_SCHEDULE s
      then ArchTaskSchedule s else s)"

definition LOS_Schedule :: "sched \<Rightarrow> sched" where
  "LOS_Schedule s = (if OsCheckKernelRunning s then ArchTaskSchedule s else s)"

definition LOS_SchedTickTimeoutNsGet :: "sched \<Rightarrow> u64 \<times> sched" where
  "LOS_SchedTickTimeoutNsGet s =
     (let r = g_schedResponseTime s;
          (currTime, s1) = OsGetCurrSchedTimeCycle s;
          r = (if r > currTime then r - currTime else 0)
      in (OS_SYS_CYCLE_TO_NS r (g_sysClock (tk s1)), s1))"

end
