(* ===== verification/Los_SchedInv.thy ===== *)
theory Los_SchedInv
  imports Los_Sched
begin

text \<open>
  The invariant of the scheduler's lists, and that each operation of los_sched.c keeps it: a
  node is in at most one list; the ready queues hold exactly the ready tasks other than the
  idle task, each in the queue of its priority; the bitmap has the bit of a priority exactly
  when its queue is not empty; a task is pending exactly when it is in a wait list.
\<close>

section \<open>The invariant\<close>

fun wait_list :: "listid \<Rightarrow> bool" where
  "wait_list (PriQueue p) = False"
| "wait_list FreeTask = False"
| "wait_list RecycleTask = False"
| "wait_list _ = True"

definition on_list :: "sched \<Rightarrow> listid \<Rightarrow> nat \<Rightarrow> bool" where
  "on_list s l t \<longleftrightarrow> t \<in> set (lists s l)"

definition unlinked :: "sched \<Rightarrow> nat \<Rightarrow> bool" where
  "unlinked s t \<longleftrightarrow> (\<forall>l. \<not> on_list s l t)"

definition lists_ok :: "sched \<Rightarrow> bool" where
  "lists_ok s \<longleftrightarrow> (\<forall>l. distinct (lists s l))
     \<and> (\<forall>l l' t. on_list s l t \<longrightarrow> on_list s l' t \<longrightarrow> l = l')"

definition bitmap_ok :: "sched \<Rightarrow> bool" where
  "bitmap_ok s \<longleftrightarrow> (\<forall>p<32. bit (g_queueBitmap s) (31 - p) \<longleftrightarrow> lists s (PriQueue p) \<noteq> [])"

definition ready_ok :: "sched \<Rightarrow> bool" where
  "ready_ok s \<longleftrightarrow>
     (\<forall>p t. on_list s (PriQueue p) t \<longleftrightarrow>
        has (st s t) (flag READY) \<and> \<not> is_idle s t \<and> unat (priority (tcb s t)) = p)
     \<and> (\<forall>t. has (st s t) (flag READY) \<longrightarrow> unat (priority (tcb s t)) < 32)"

definition pend_ok :: "sched \<Rightarrow> bool" where
  "pend_ok s \<longleftrightarrow> (\<forall>t. has (st s t) (flag PEND) \<longleftrightarrow> (\<exists>l. wait_list l \<and> on_list s l t))"

definition sched_ok :: "sched \<Rightarrow> bool" where
  "sched_ok s \<longleftrightarrow> lists_ok s \<and> bitmap_ok s \<and> ready_ok s \<and> pend_ok s"

lemmas inv_defs = on_list_def unlinked_def lists_ok_def bitmap_ok_def ready_ok_def pend_ok_def
  is_idle_def

text \<open>The invariant looks at the lists, the bitmap, the TCBs and the idle task only.\<close>

lemma sched_ok_cong:
  assumes "lists s' = lists s" "g_queueBitmap s' = g_queueBitmap s"
    and "g_idleTaskID s' = g_idleTaskID s"
    and "\<And>t. taskID (tcb s' t) = taskID (tcb s t)"
    and "\<And>t. priority (tcb s' t) = priority (tcb s t)"
    and "\<And>t. has (st s' t) (flag READY) = has (st s t) (flag READY)"
    and "\<And>t. has (st s' t) (flag PEND) = has (st s t) (flag PEND)"
  shows "sched_ok s' = sched_ok s"
  using assms by (simp add: sched_ok_def inv_defs)

lemma prior_bit_bit: "p < 32 \<Longrightarrow> q < 32 \<Longrightarrow> bit (prior_bit p) (31 - q) \<longleftrightarrow> q = p"
  unfolding prior_bit_def PRIQUEUE_PRIOR0_BIT_def by (subst bit_prior_mask) auto

section \<open>What enqueueing and dequeueing do\<close>

lemma EnQueue_tcb:
  "g_taskCBArray (OsSchedTaskEnQueue t s) = (g_taskCBArray s)(t := (tcb s t)\<lparr>
     taskStatus := clr (st s t) (flag PEND OR flag SUSPEND OR flag DELAY OR flag PEND_TIME)
                     OR flag READY,
     timeSlice := (if \<not> is_idle s t \<and> \<not> sint (timeSlice (tcb s t)) > sint (g_schedTimeSliceMin s)
                   then g_schedTimeSlice s else timeSlice (tcb s t))\<rparr>)"
  by (auto simp: OsSchedTaskEnQueue_def Let_def sched_assert_def OsSchedPriQueueEnHead_def
      OsSchedPriQueueEnTail_def list_op_defs status_defs is_idle_def fun_eq_iff)

lemma EnQueue_lists:
  "lists (OsSchedTaskEnQueue t s) =
     (if is_idle s t then lists s
      else (lists s)(PriQueue (unat (priority (tcb s t))) :=
              (if sint (timeSlice (tcb s t)) > sint (g_schedTimeSliceMin s)
               then t # lists s (PriQueue (unat (priority (tcb s t))))
               else lists s (PriQueue (unat (priority (tcb s t)))) @ [t])))"
  by (auto simp: OsSchedTaskEnQueue_def Let_def sched_assert_def OsSchedPriQueueEnHead_def
      OsSchedPriQueueEnTail_def list_op_defs status_defs is_idle_def)

lemma EnQueue_bitmap:
  "g_queueBitmap (OsSchedTaskEnQueue t s) =
     (if is_idle s t \<or> lists s (PriQueue (unat (priority (tcb s t)))) \<noteq> [] then g_queueBitmap s
      else g_queueBitmap s OR prior_bit (unat (priority (tcb s t))))"
  by (auto simp: OsSchedTaskEnQueue_def Let_def sched_assert_def OsSchedPriQueueEnHead_def
      OsSchedPriQueueEnTail_def list_op_defs status_defs is_idle_def)

lemma DeQueue_tcb:
  "g_taskCBArray (OsSchedTaskDeQueue t s) =
     (if has (st s t) (flag READY)
      then (g_taskCBArray s)(t := (tcb s t)\<lparr>taskStatus := clr (st s t) (flag READY)\<rparr>)
      else g_taskCBArray s)"
  by (simp add: OsSchedTaskDeQueue_def OsSchedPriQueueDelete_def Let_def list_op_defs status_defs)

lemma DeQueue_lists:
  "lists (OsSchedTaskDeQueue t s) =
     (if has (st s t) (flag READY) \<and> \<not> is_idle s t
      then (\<lambda>l. removeAll t (lists s l)) else lists s)"
  by (simp add: OsSchedTaskDeQueue_def OsSchedPriQueueDelete_def Let_def list_op_defs status_defs)

lemma DeQueue_bitmap:
  "g_queueBitmap (OsSchedTaskDeQueue t s) =
     (if has (st s t) (flag READY) \<and> \<not> is_idle s t
         \<and> removeAll t (lists s (PriQueue (unat (priority (tcb s t))))) = []
      then clr (g_queueBitmap s) (prior_bit (unat (priority (tcb s t)))) else g_queueBitmap s)"
  by (simp add: OsSchedTaskDeQueue_def OsSchedPriQueueDelete_def Let_def list_op_defs status_defs)

lemma EnQueue_frame [simp]:
  "g_idleTaskID (OsSchedTaskEnQueue t s) = g_idleTaskID s"
  "g_swtmrTaskID (OsSchedTaskEnQueue t s) = g_swtmrTaskID s"
  "runTask (OsSchedTaskEnQueue t s) = runTask s"
  "newTask (OsSchedTaskEnQueue t s) = newTask s"
  "g_losTaskLock (OsSchedTaskEnQueue t s) = g_losTaskLock s"
  "g_taskScheduled (OsSchedTaskEnQueue t s) = g_taskScheduled s"
  "g_taskMaxNum (OsSchedTaskEnQueue t s) = g_taskMaxNum s"
  "intActive (OsSchedTaskEnQueue t s) = intActive s"
  "events (OsSchedTaskEnQueue t s) = events s"
  "g_schedResponseTime (OsSchedTaskEnQueue t s) = g_schedResponseTime s"
  "g_schedResponseID (OsSchedTaskEnQueue t s) = g_schedResponseID s"
  "g_sysClock (tk (OsSchedTaskEnQueue t s)) = g_sysClock (tk s)"
  by (simp_all add: OsSchedTaskEnQueue_def Let_def sched_assert_def tick_assert_def
      OsSchedPriQueueEnHead_def OsSchedPriQueueEnTail_def list_op_defs status_defs)

lemma DeQueue_frame [simp]:
  "g_idleTaskID (OsSchedTaskDeQueue t s) = g_idleTaskID s"
  "g_swtmrTaskID (OsSchedTaskDeQueue t s) = g_swtmrTaskID s"
  "runTask (OsSchedTaskDeQueue t s) = runTask s"
  "newTask (OsSchedTaskDeQueue t s) = newTask s"
  "g_losTaskLock (OsSchedTaskDeQueue t s) = g_losTaskLock s"
  "g_taskScheduled (OsSchedTaskDeQueue t s) = g_taskScheduled s"
  "g_taskMaxNum (OsSchedTaskDeQueue t s) = g_taskMaxNum s"
  "intActive (OsSchedTaskDeQueue t s) = intActive s"
  "events (OsSchedTaskDeQueue t s) = events s"
  "g_taskSortLink (OsSchedTaskDeQueue t s) = g_taskSortLink s"
  "g_swtmrSortLink (OsSchedTaskDeQueue t s) = g_swtmrSortLink s"
  "responseTime (OsSchedTaskDeQueue t s) = responseTime s"
  "tk (OsSchedTaskDeQueue t s) = tk s"
  by (simp_all add: OsSchedTaskDeQueue_def OsSchedPriQueueDelete_def Let_def list_op_defs
      status_defs)

section \<open>The invariant is kept\<close>

lemma lists_ok_insert:
  assumes "lists_ok s" "unlinked s t"
    and "lists s' = (lists s)(l := t # lists s l) \<or> lists s' = (lists s)(l := lists s l @ [t])"
  shows "lists_ok s'"
  using assms by (auto simp: inv_defs split: if_splits)

lemma sched_ok_EnQueue:
  assumes ok: "sched_ok s" and u: "unlinked s t" and p: "unat (priority (tcb s t)) < 32"
  shows "sched_ok (OsSchedTaskEnQueue t s)"
proof (cases "is_idle s t")
  case True
  have "\<not> has (st s t) (flag PEND)" using ok u by (auto simp: sched_ok_def pend_ok_def unlinked_def)
  then show ?thesis
    using ok p True
    by (auto simp: sched_ok_def inv_defs EnQueue_tcb EnQueue_lists EnQueue_bitmap)
next
  case False
  let ?p = "unat (priority (tcb s t))"
  have np: "\<not> has (st s t) (flag PEND)" using ok u by (auto simp: sched_ok_def pend_ok_def unlinked_def)
  have nr: "\<not> has (st s t) (flag READY)"
    using ok u False by (auto simp: sched_ok_def ready_ok_def unlinked_def)
  have "lists (OsSchedTaskEnQueue t s) = (lists s)(PriQueue ?p := t # lists s (PriQueue ?p))
      \<or> lists (OsSchedTaskEnQueue t s) = (lists s)(PriQueue ?p := lists s (PriQueue ?p) @ [t])"
    using False by (cases "sint (timeSlice (tcb s t)) > sint (g_schedTimeSliceMin s)")
      (simp_all only: EnQueue_lists if_True if_False simp_thms)
  then have "lists_ok (OsSchedTaskEnQueue t s)"
    using ok u lists_ok_insert unfolding sched_ok_def by blast
  moreover have "bitmap_ok (OsSchedTaskEnQueue t s)"
    using ok False p
    by (auto simp: sched_ok_def bitmap_ok_def EnQueue_lists EnQueue_bitmap bit_or_iff prior_bit_bit)
  moreover have "ready_ok (OsSchedTaskEnQueue t s)"
    using ok False p nr u
    by (auto simp: sched_ok_def ready_ok_def EnQueue_lists EnQueue_tcb on_list_def is_idle_def
        unlinked_def)
  moreover have "pend_ok (OsSchedTaskEnQueue t s)"
  proof -
    have "on_list (OsSchedTaskEnQueue t s) l x = on_list s l x" if "wait_list l" for l x
      using that False by (cases l) (auto simp: on_list_def EnQueue_lists)
    then show ?thesis
      using ok np u by (auto simp: sched_ok_def pend_ok_def EnQueue_tcb unlinked_def)
  qed
  ultimately show ?thesis by (simp add: sched_ok_def)
qed

lemma sched_ok_DeQueue:
  assumes ok: "sched_ok s"
  shows "sched_ok (OsSchedTaskDeQueue t s)"
proof (cases "has (st s t) (flag READY) \<and> \<not> is_idle s t")
  case False
  then show ?thesis
    using ok by (auto simp: sched_ok_def inv_defs DeQueue_tcb DeQueue_lists DeQueue_bitmap)
next
  case True
  let ?p = "unat (priority (tcb s t))"
  have on: "on_list s (PriQueue ?p) t" and p: "?p < 32"
    using ok True by (auto simp: sched_ok_def ready_ok_def)
  have here: "l = PriQueue ?p" if "on_list s l t" for l
    using ok on that by (auto simp: sched_ok_def lists_ok_def)
  have other: "removeAll t (lists s l) = lists s l" if "l \<noteq> PriQueue ?p" for l
    using here that by (auto simp: on_list_def intro: removeAll_id)
  have L: "lists (OsSchedTaskDeQueue t s) = (lists s)(PriQueue ?p := removeAll t (lists s (PriQueue ?p)))"
    using True other by (auto simp: DeQueue_lists fun_eq_iff)
  have np: "\<not> has (st s t) (flag PEND)"
    using ok here by (metis sched_ok_def pend_ok_def wait_list.simps(1))
  have "lists_ok (OsSchedTaskDeQueue t s)"
    using ok by (auto simp: sched_ok_def lists_ok_def on_list_def L distinct_removeAll split: if_splits)
  moreover have "bitmap_ok (OsSchedTaskDeQueue t s)"
    using ok True p
    by (auto simp: sched_ok_def bitmap_ok_def L DeQueue_bitmap clr_def bit_and_iff bit_not_iff
        prior_bit_bit)
  moreover have "ready_ok (OsSchedTaskDeQueue t s)"
    using ok True
    by (auto simp: sched_ok_def ready_ok_def L DeQueue_tcb on_list_def is_idle_def)
  moreover have "pend_ok (OsSchedTaskDeQueue t s)"
  proof -
    have "on_list (OsSchedTaskDeQueue t s) l x = on_list s l x" if "wait_list l" for l x
      using that by (cases l) (auto simp: on_list_def L)
    then show ?thesis
      using ok np by (auto simp: sched_ok_def pend_ok_def DeQueue_tcb)
  qed
  ultimately show ?thesis by (simp add: sched_ok_def)
qed

lemma DeQueue_unlinked:
  assumes "sched_ok s" "has (st s t) (flag READY)" "\<not> is_idle s t"
  shows "unlinked (OsSchedTaskDeQueue t s) t"
  using assms by (simp add: unlinked_def on_list_def DeQueue_lists)


section \<open>Linking a task to a wait list and unlinking it\<close>

text \<open>What the invariant reads of a TCB, apart from PEND.\<close>

definition tcb_agree :: "sched \<Rightarrow> sched \<Rightarrow> bool" where
  "tcb_agree s s' \<longleftrightarrow> g_queueBitmap s' = g_queueBitmap s \<and> g_idleTaskID s' = g_idleTaskID s
     \<and> (\<forall>t. taskID (tcb s' t) = taskID (tcb s t) \<and> priority (tcb s' t) = priority (tcb s t)
            \<and> has (st s' t) (flag READY) = has (st s t) (flag READY))"

lemma pend_on_list:
  "sched_ok s \<Longrightarrow> has (st s t) (flag PEND) \<Longrightarrow> \<exists>l. wait_list l \<and> on_list s l t"
  by (auto simp: sched_ok_def pend_ok_def)

lemma unlinked_not_pend: "sched_ok s \<Longrightarrow> unlinked s t \<Longrightarrow> \<not> has (st s t) (flag PEND)"
  by (auto simp: sched_ok_def pend_ok_def unlinked_def)

lemma pend_not_ready: "sched_ok s \<Longrightarrow> has (st s t) (flag PEND) \<Longrightarrow> is_idle s t \<or> \<not> has (st s t) (flag READY)"
  unfolding sched_ok_def pend_ok_def ready_ok_def lists_ok_def by (metis wait_list.simps(1))

lemma wait_unique:
  assumes "sched_ok s" "wait_list l" "on_list s l t" "on_list s l' t"
  shows "l' = l"
  using assms by (auto simp: sched_ok_def lists_ok_def)

lemma sched_ok_unpend:
  assumes ok: "sched_ok s" and p: "has (st s t) (flag PEND)"
    and l: "lists s' = (\<lambda>l. removeAll t (lists s l))" and a: "tcb_agree s s'"
    and pt: "\<not> has (st s' t) (flag PEND)"
    and px: "\<And>x. x \<noteq> t \<Longrightarrow> has (st s' x) (flag PEND) = has (st s x) (flag PEND)"
  shows "sched_ok s'" "unlinked s' t"
proof -
  obtain w where w: "wait_list w" "on_list s w t" using pend_on_list [OF ok p] by blast
  have only: "l = w" if "on_list s l t" for l using wait_unique [OF ok w that] by simp
  have pri: "lists s' (PriQueue q) = lists s (PriQueue q)" for q
    using only w(1) l by (metis on_list_def removeAll_id wait_list.simps(1))
  have on: "on_list s' l x \<longleftrightarrow> on_list s l x \<and> x \<noteq> t" for l x by (auto simp: on_list_def l)
  show "unlinked s' t" by (simp add: unlinked_def on)
  have "lists_ok s'"
    using ok by (auto simp: sched_ok_def lists_ok_def on l distinct_removeAll)
  moreover have "bitmap_ok s'" using ok a by (simp add: sched_ok_def bitmap_ok_def pri tcb_agree_def)
  moreover have "ready_ok s'"
    using ok a by (simp add: sched_ok_def ready_ok_def on_list_def pri tcb_agree_def is_idle_def)
  moreover have "pend_ok s'"
  proof -
    have "has (st s' x) (flag PEND) \<longleftrightarrow> (\<exists>l. wait_list l \<and> on_list s' l x)" for x
    proof (cases "x = t")
      case True
      with pt show ?thesis by (simp add: on)
    next
      case False
      then show ?thesis using px [OF False] ok by (simp add: on sched_ok_def pend_ok_def)
    qed
    then show ?thesis by (simp add: pend_ok_def)
  qed
  ultimately show "sched_ok s'" by (simp add: sched_ok_def)
qed

lemma sched_ok_pend:
  assumes ok: "sched_ok s" and u: "unlinked s t" and w: "wait_list l"
    and l: "lists s' = (lists s)(l := lists s l @ [t])" and a: "tcb_agree s s'"
    and pt: "has (st s' t) (flag PEND)"
    and px: "\<And>x. x \<noteq> t \<Longrightarrow> has (st s' x) (flag PEND) = has (st s x) (flag PEND)"
  shows "sched_ok s'"
proof -
  have pri: "lists s' (PriQueue q) = lists s (PriQueue q)" for q using w l by auto
  have on: "on_list s' m x \<longleftrightarrow> on_list s m x \<or> (m = l \<and> x = t)" for m x
    by (auto simp: on_list_def l)
  have "lists_ok s'" using ok u l by (auto simp: sched_ok_def intro: lists_ok_insert)
  moreover have "bitmap_ok s'" using ok a by (simp add: sched_ok_def bitmap_ok_def pri tcb_agree_def)
  moreover have "ready_ok s'"
    using ok a by (simp add: sched_ok_def ready_ok_def on_list_def pri tcb_agree_def is_idle_def)
  moreover have "pend_ok s'"
  proof -
    have "has (st s' x) (flag PEND) \<longleftrightarrow> (\<exists>l. wait_list l \<and> on_list s' l x)" for x
    proof (cases "x = t")
      case True
      with pt w show ?thesis by (auto simp: on)
    next
      case False
      then show ?thesis using px [OF False] ok by (simp add: on sched_ok_def pend_ok_def)
    qed
    then show ?thesis by (simp add: pend_ok_def)
  qed
  ultimately show "sched_ok s'" by (simp add: sched_ok_def)
qed

section \<open>Frames of the timing operations\<close>

lemma GetCurrSchedTimeCycle_eq:
  "OsGetCurrSchedTimeCycle s =
     (fst (LOS_SysCycleGet (tk s)), s\<lparr>tk := snd (LOS_SysCycleGet (tk s))\<rparr>)"
  by (simp add: OsGetCurrSchedTimeCycle_def case_prod_beta Let_def)

lemma SetNextExpireTime_frame [simp]:
  "g_taskCBArray (OsSchedSetNextExpireTime i e s) = g_taskCBArray s"
  "lists (OsSchedSetNextExpireTime i e s) = lists s"
  "g_queueBitmap (OsSchedSetNextExpireTime i e s) = g_queueBitmap s"
  "g_idleTaskID (OsSchedSetNextExpireTime i e s) = g_idleTaskID s"
  "runTask (OsSchedSetNextExpireTime i e s) = runTask s"
  "newTask (OsSchedSetNextExpireTime i e s) = newTask s"
  "g_taskSortLink (OsSchedSetNextExpireTime i e s) = g_taskSortLink s"
  "responseTime (OsSchedSetNextExpireTime i e s) = responseTime s"
  "g_taskMaxNum (OsSchedSetNextExpireTime i e s) = g_taskMaxNum s"
  "g_losTaskLock (OsSchedSetNextExpireTime i e s) = g_losTaskLock s"
  "g_taskScheduled (OsSchedSetNextExpireTime i e s) = g_taskScheduled s"
  "intActive (OsSchedSetNextExpireTime i e s) = intActive s"
  "events (OsSchedSetNextExpireTime i e s) = events s"
  by (simp_all add: OsSchedSetNextExpireTime_def GetCurrSchedTimeCycle_eq Let_def case_prod_beta)

section \<open>Sleeping, waking, and the other operations\<close>

lemma sched_ok_SET_SORTLIST_VALUE [simp]: "sched_ok (SET_SORTLIST_VALUE n v s) = sched_ok s"
  by (rule sched_ok_cong) (simp_all add: SET_SORTLIST_VALUE_def)

lemma DeleteSortLink_frame [simp]:
  "g_taskCBArray (OsDeleteSortLink n s) = g_taskCBArray s"
  "lists (OsDeleteSortLink n s) = lists s"
  "g_queueBitmap (OsDeleteSortLink n s) = g_queueBitmap s"
  "g_idleTaskID (OsDeleteSortLink n s) = g_idleTaskID s"
  "g_swtmrTaskID (OsDeleteSortLink n s) = g_swtmrTaskID s"
  "runTask (OsDeleteSortLink n s) = runTask s"
  "newTask (OsDeleteSortLink n s) = newTask s"
  "g_taskMaxNum (OsDeleteSortLink n s) = g_taskMaxNum s"
  "g_losTaskLock (OsDeleteSortLink n s) = g_losTaskLock s"
  "g_taskScheduled (OsDeleteSortLink n s) = g_taskScheduled s"
  "intActive (OsDeleteSortLink n s) = intActive s"
  "events (OsDeleteSortLink n s) = events s"
  "tk (OsDeleteSortLink n s) = tk s"
  "g_schedTimeSlice (OsDeleteSortLink n s) = g_schedTimeSlice s"
  "g_schedTimeSliceMin (OsDeleteSortLink n s) = g_schedTimeSliceMin s"
  by (simp_all add: sortlink_defs)

lemma sched_ok_DeleteSortLink [simp]: "sched_ok (OsDeleteSortLink n s) = sched_ok s"
  by (rule sched_ok_cong) simp_all

lemma DeleteNodeSortLink_frame [simp]:
  "g_taskCBArray (OsDeleteNodeSortLink n s) = g_taskCBArray s"
  "lists (OsDeleteNodeSortLink n s) = lists s"
  "g_queueBitmap (OsDeleteNodeSortLink n s) = g_queueBitmap s"
  "g_idleTaskID (OsDeleteNodeSortLink n s) = g_idleTaskID s"
  "runTask (OsDeleteNodeSortLink n s) = runTask s"
  "g_taskMaxNum (OsDeleteNodeSortLink n s) = g_taskMaxNum s"
  "g_taskSortLink (OsDeleteNodeSortLink n s) = removeAll n (g_taskSortLink s)"
  "responseTime (OsDeleteNodeSortLink n s)
     = (responseTime s)(n := OS_SORT_LINK_INVALID_TIME)"
  by (simp_all add: sortlink_defs)

lemma sched_ok_DeleteNodeSortLink [simp]: "sched_ok (OsDeleteNodeSortLink n s) = sched_ok s"
  by (rule sched_ok_cong) simp_all

lemma sched_ok_Yield: "sched_ok s \<Longrightarrow> sched_ok (OsSchedYield s)"
  by (subst sched_ok_cong [of _ s]) (simp_all add: OsSchedYield_def)

lemma sched_ok_Delay: "sched_ok s \<Longrightarrow> sched_ok (OsSchedDelay t n s)"
  by (subst sched_ok_cong [of _ s]) (simp_all add: OsSchedDelay_def status_set_def)

lemma sched_ok_TaskWait:
  assumes "sched_ok s" "unlinked s (runTask s)" "wait_list l"
  shows "sched_ok (OsSchedTaskWait l n s)"
  by (rule sched_ok_pend [OF assms])
    (simp_all add: OsSchedTaskWait_def Let_def list_op_defs status_defs tcb_agree_def)

lemma sched_ok_unpend_basic:
  assumes "sched_ok s" "has (st s t) (flag PEND)"
  shows "sched_ok (status_clr t (flag PEND) (ListDelete t s))"
    "unlinked (status_clr t (flag PEND) (ListDelete t s)) t"
  by (rule sched_ok_unpend [OF assms]; simp add: list_op_defs status_defs tcb_agree_def)+

lemma unlinked_cong: "lists s' = lists s \<Longrightarrow> unlinked s' t = unlinked s t"
  by (simp add: unlinked_def on_list_def)

lemma sched_ok_status_clr:
  assumes "sched_ok s" "\<not> has f (flag READY)" "\<not> has f (flag PEND)"
  shows "sched_ok (status_clr t f s)"
  using assms by (subst sched_ok_cong [of _ s]) (auto simp: status_clr_def)

lemma sched_ok_status_set:
  assumes "sched_ok s" "\<not> has f (flag READY)" "\<not> has f (flag PEND)"
  shows "sched_ok (status_set t f s)"
  using assms by (subst sched_ok_cong [of _ s]) (auto simp: status_set_def)

lemma unlinked_status [simp]:
  "unlinked (status_clr t f s) x = unlinked s x"
  "unlinked (status_set t f s) x = unlinked s x"
  "unlinked (OsDeleteSortLink n s) x = unlinked s x"
  "unlinked (OsDeleteNodeSortLink n s) x = unlinked s x"
  "unlinked (upd_tcb t g s) x = unlinked s x"
  by (rule unlinked_cong; simp add: status_defs)+

lemma sched_ok_TaskWake:
  assumes ok: "sched_ok s" and p: "has (st s t) (flag PEND)" and pr: "unat (priority (tcb s t)) < 32"
  shows "sched_ok (OsSchedTaskWake t s)"
proof -
  let ?s1 = "status_clr t (flag PEND) (ListDelete t s)"
  let ?s2 = "if has (st ?s1 t) (flag PEND_TIME)
             then status_clr t (flag PEND_TIME) (OsDeleteSortLink (TaskNode t) ?s1) else ?s1"
  have s2: "sched_ok ?s2" "unlinked ?s2 t" "unat (priority (tcb ?s2 t)) < 32"
    using sched_ok_unpend_basic [OF ok p] pr
    by (simp_all add: sched_ok_status_clr) (simp_all add: status_defs list_op_defs)
  show ?thesis
    using sched_ok_EnQueue [OF s2] s2(1) by (simp add: OsSchedTaskWake_def Let_def)
qed

lemma sched_ok_TaskExit:
  assumes ok: "sched_ok s"
  shows "sched_ok (OsSchedTaskExit t s)"
proof -
  let ?s1 = "if has (st s t) (flag READY) then OsSchedTaskDeQueue t s
             else if has (st s t) (flag PEND) then status_clr t (flag PEND) (ListDelete t s) else s"
  have "sched_ok ?s1" using ok sched_ok_DeQueue sched_ok_unpend_basic by simp
  then show ?thesis
    unfolding OsSchedTaskExit_def Let_def
    by (intro sched_ok_status_set) (simp_all add: sched_ok_status_clr)
qed

lemma sched_ok_Suspend: "sched_ok s \<Longrightarrow> sched_ok (OsSchedSuspend t s)"
  by (simp add: OsSchedSuspend_def Let_def OsIsPmMode_def sched_ok_DeQueue sched_ok_status_set)

lemma sched_ok_Resume:
  assumes ok: "sched_ok s" and f: "\<not> has (st s t) (flag FREEZE)"
    and u: "\<not> has (st s t) (flag DELAY OR flag PEND) \<Longrightarrow> unlinked s t"
    and pr: "unat (priority (tcb s t)) < 32"
  shows "sched_ok (snd (OsSchedResume t s))"
proof -
  have c: "sched_ok (status_clr t (flag SUSPEND) s)" using ok by (simp add: sched_ok_status_clr)
  have u2: "\<not> has (st (status_clr t (flag SUSPEND) s) t) (flag DELAY OR flag PEND) \<Longrightarrow>
      unlinked (status_clr t (flag SUSPEND) s) t"
    using u by (simp add: status_defs)
  have pr2: "unat (priority (tcb (status_clr t (flag SUSPEND) s) t)) < 32"
    using pr by (simp add: status_defs)
  show ?thesis
    using f c sched_ok_EnQueue [OF c u2 pr2] by (simp add: OsSchedResume_def Let_def)
qed

lemma sched_ok_Modify:
  assumes ok: "sched_ok s" and i: "\<not> is_idle s t" and p: "unat p < 32"
  shows "sched_ok (snd (OsSchedModifyTaskSchedParam t p s))"
proof (cases "has (st s t) (flag READY)")
  case True
  let ?d = "OsSchedTaskDeQueue t s"
  have "\<not> has (st ?d t) (flag READY)" by (simp add: DeQueue_tcb True)
  then have "sched_ok (set_priority t p ?d)"
    using sched_ok_DeQueue [OF ok, of t]
    by (auto simp: sched_ok_def inv_defs set_priority_def split: if_splits)
  moreover have "unlinked (set_priority t p ?d) t"
    using DeQueue_unlinked [OF ok True i] by (simp add: set_priority_def)
  moreover have "unat (priority (tcb (set_priority t p ?d) t)) < 32"
    using p by (simp add: set_priority_def)
  ultimately show ?thesis
    using True sched_ok_EnQueue by (simp add: OsSchedModifyTaskSchedParam_def)
next
  case False
  then show ?thesis
    using ok by (auto simp: OsSchedModifyTaskSchedParam_def sched_ok_def inv_defs set_priority_def
        split: if_splits)
qed

section \<open>The chosen task\<close>

lemma top_task_ready:
  assumes ok: "sched_ok s" and b: "g_queueBitmap s \<noteq> 0"
  shows "has (st s (OsGetTopTask s)) (flag READY)" "\<not> is_idle s (OsGetTopTask s)"
    "unat (priority (tcb s (OsGetTopTask s))) = CLZ (g_queueBitmap s)"
    "\<exists>ts. lists s (PriQueue (CLZ (g_queueBitmap s))) = OsGetTopTask s # ts"
proof -
  let ?p = "CLZ (g_queueBitmap s)"
  have "?p < 32" "bit (g_queueBitmap s) (31 - ?p)" using b CLZ_less CLZ_bit by blast+
  then have "lists s (PriQueue ?p) \<noteq> []" using ok by (auto simp: sched_ok_def bitmap_ok_def)
  then obtain x xs where q: "lists s (PriQueue ?p) = x # xs" by (meson list.exhaust)
  then have top: "OsGetTopTask s = x" using b by (simp add: OsGetTopTask_def)
  have "on_list s (PriQueue ?p) x" by (simp add: on_list_def q)
  then show "has (st s (OsGetTopTask s)) (flag READY)" "\<not> is_idle s (OsGetTopTask s)"
    "unat (priority (tcb s (OsGetTopTask s))) = ?p"
    using ok top by (auto simp: sched_ok_def ready_ok_def)
  show "\<exists>ts. lists s (PriQueue ?p) = OsGetTopTask s # ts" by (simp add: q top)
qed

lemma ready_in_bitmap:
  assumes ok: "sched_ok s" and r: "has (st s t) (flag READY)" "\<not> is_idle s t"
  shows "g_queueBitmap s \<noteq> 0" "CLZ (g_queueBitmap s) \<le> unat (priority (tcb s t))"
proof -
  let ?p = "unat (priority (tcb s t))"
  have "on_list s (PriQueue ?p) t" and p: "?p < 32"
    using ok r by (auto simp: sched_ok_def ready_ok_def)
  then have b: "bit (g_queueBitmap s) (31 - ?p)"
    using ok by (auto simp: sched_ok_def bitmap_ok_def on_list_def)
  then show "g_queueBitmap s \<noteq> 0" by auto
  show "CLZ (g_queueBitmap s) \<le> ?p"
  proof (rule ccontr)
    assume "\<not> ?thesis"
    then have "31 - CLZ (g_queueBitmap s) < 31 - ?p"
      using CLZ_less [OF \<open>g_queueBitmap s \<noteq> 0\<close>] by simp
    moreover have "31 - ?p < 32" by arith
    ultimately show False using CLZ_above [of "31 - ?p" "g_queueBitmap s"] b by simp
  qed
qed

lemma top_task_highest:
  assumes ok: "sched_ok s" and r: "has (st s u) (flag READY)" "\<not> is_idle s u"
  shows "priority (tcb s (OsGetTopTask s)) \<le> priority (tcb s u)"
  using ready_in_bitmap [OF ok r] top_task_ready(3) [OF ok ready_in_bitmap(1) [OF ok r]]
  by (simp add: word_le_nat_alt)

lemma top_task_idle:
  assumes ok: "sched_ok s" and b: "g_queueBitmap s = 0"
  shows "OsGetTopTask s = OS_TCB_FROM_TID (g_idleTaskID s)"
    "\<not> (has (st s u) (flag READY) \<and> \<not> is_idle s u)"
  using b ready_in_bitmap(1) [OF ok] by (auto simp: OsGetTopTask_def)

section \<open>The task switch\<close>

text \<open>The running task is not in a ready queue; it is in a list only when it is pending.\<close>

definition run_ok :: "sched \<Rightarrow> bool" where
  "run_ok s \<longleftrightarrow> (let r = runTask s in
     \<not> has (st s r) (flag READY) \<and> (\<not> has (st s r) (flag PEND) \<longrightarrow> unlinked s r)
     \<and> (unat (priority (tcb s r)) < 32 \<or> has (st s r) (flag UNUSED)))"

definition idle_ok :: "sched \<Rightarrow> bool" where
  "idle_ok s \<longleftrightarrow> (let i = OS_TCB_FROM_TID (g_idleTaskID s) in
     is_idle s i \<and> unlinked s i \<and> unat (priority (tcb s i)) < 32)"

lemma Add2SortLink_frame [simp]:
  "g_taskCBArray (OsAdd2SortLink n a b ty s) = g_taskCBArray s"
  "lists (OsAdd2SortLink n a b ty s) = lists s"
  "g_queueBitmap (OsAdd2SortLink n a b ty s) = g_queueBitmap s"
  "g_idleTaskID (OsAdd2SortLink n a b ty s) = g_idleTaskID s"
  "runTask (OsAdd2SortLink n a b ty s) = runTask s"
  "newTask (OsAdd2SortLink n a b ty s) = newTask s"
  "g_taskMaxNum (OsAdd2SortLink n a b ty s) = g_taskMaxNum s"
  "g_losTaskLock (OsAdd2SortLink n a b ty s) = g_losTaskLock s"
  "g_taskScheduled (OsAdd2SortLink n a b ty s) = g_taskScheduled s"
  "intActive (OsAdd2SortLink n a b ty s) = intActive s"
  "events (OsAdd2SortLink n a b ty s) = events s"
  by (simp_all add: sortlink_defs sched_assert_def split: option.splits SortLinkType.splits)

lemma sched_ok_Add2SortLink [simp]: "sched_ok (OsAdd2SortLink n a b ty s) = sched_ok s"
  by (rule sched_ok_cong) simp_all

lemma TimeSliceUpdate_frame [simp]:
  "st (OsTimeSliceUpdate t c s) x = st s x"
  "taskID (tcb (OsTimeSliceUpdate t c s) x) = taskID (tcb s x)"
  "priority (tcb (OsTimeSliceUpdate t c s) x) = priority (tcb s x)"
  "waitTimes (tcb (OsTimeSliceUpdate t c s) x) = waitTimes (tcb s x)"
  "lists (OsTimeSliceUpdate t c s) = lists s"
  "g_queueBitmap (OsTimeSliceUpdate t c s) = g_queueBitmap s"
  "g_idleTaskID (OsTimeSliceUpdate t c s) = g_idleTaskID s"
  "runTask (OsTimeSliceUpdate t c s) = runTask s"
  "newTask (OsTimeSliceUpdate t c s) = newTask s"
  "g_taskMaxNum (OsTimeSliceUpdate t c s) = g_taskMaxNum s"
  "g_losTaskLock (OsTimeSliceUpdate t c s) = g_losTaskLock s"
  "g_taskScheduled (OsTimeSliceUpdate t c s) = g_taskScheduled s"
  "intActive (OsTimeSliceUpdate t c s) = intActive s"
  "events (OsTimeSliceUpdate t c s) = events s"
  "g_taskSortLink (OsTimeSliceUpdate t c s) = g_taskSortLink s"
  "responseTime (OsTimeSliceUpdate t c s) = responseTime s"
  by (simp_all add: OsTimeSliceUpdate_def Let_def sched_assert_def)

lemma sched_ok_TimeSliceUpdate [simp]: "sched_ok (OsTimeSliceUpdate t c s) = sched_ok s"
  by (rule sched_ok_cong) simp_all

text \<open>The first half of the switch: the running task goes where its status sends it.\<close>

definition switch_out :: "sched \<Rightarrow> sched" where
  "switch_out s =
     (let run = runTask s;
          (currTime, s1) = OsGetCurrSchedTimeCycle s;
          s2 = OsTimeSliceUpdate run currTime s1
      in if has (st s2 run) (flag PEND_TIME OR flag DELAY)
         then OsAdd2SortLink (TaskNode run) (startTime (tcb s2 run))
                (waitTimes (tcb s2 run)) OS_SORT_LINK_TASK s2
         else if \<not> has (st s2 run) OS_TASK_BLOCKED_STATUS
         then OsSchedTaskEnQueue run s2 else s2)"

text \<open>The second half, for the chosen task.\<close>

definition switch_in :: "nat \<Rightarrow> sched \<Rightarrow> sched" where
  "switch_in run s3 =
     (let new = OsGetTopTask s3;
          s4 = s3\<lparr>newTask := new\<rparr>;
          s5 = (if run \<noteq> new
                then upd_tcb new (\<lambda>c. c\<lparr>startTime := startTime (tcb s4 run)\<rparr>)
                       (status_set new (flag RUNNING) (status_clr run (flag RUNNING) s4))
                else s4)
      in OsSchedTaskDeQueue new s5)"

lemma switch_out_frame [simp]:
  "runTask (switch_out s) = runTask s"
  "g_idleTaskID (switch_out s) = g_idleTaskID s"
  "g_losTaskLock (switch_out s) = g_losTaskLock s"
  "g_taskScheduled (switch_out s) = g_taskScheduled s"
  "taskID (tcb (switch_out s) x) = taskID (tcb s x)"
  "priority (tcb (switch_out s) x) = priority (tcb s x)"
  by (simp_all add: switch_out_def GetCurrSchedTimeCycle_eq Let_def EnQueue_tcb)

lemma switch_in_frame [simp]:
  "runTask (switch_in r s) = runTask s"
  "newTask (switch_in r s) = OsGetTopTask s"
  "g_idleTaskID (switch_in r s) = g_idleTaskID s"
  "g_losTaskLock (switch_in r s) = g_losTaskLock s"
  "g_taskScheduled (switch_in r s) = g_taskScheduled s"
  "taskID (tcb (switch_in r s) x) = taskID (tcb s x)"
  "priority (tcb (switch_in r s) x) = priority (tcb s x)"
  by (simp_all add: switch_in_def Let_def DeQueue_tcb status_defs)

lemma TaskSwitch_split:
  "OsSchedTaskSwitch s =
     (let run = runTask s; s3 = switch_out s; new = OsGetTopTask s3; s6 = switch_in run s3;
          endTime = (if \<not> is_idle s6 new
                     then startTime (tcb s6 new) + scast (timeSlice (tcb s6 new))
                     else OS_SCHED_MAX_RESPONSE_TIME - ucast (g_tickResponsePrecision s6));
          s7 = s6\<lparr>g_schedResponseTime := (if g_schedResponseID s6 = taskID (tcb s6 run)
                    then OS_SCHED_MAX_RESPONSE_TIME else g_schedResponseTime s6)\<rparr>
      in (run \<noteq> new, OsSchedSetNextExpireTime (taskID (tcb s7 new)) endTime s7))"
  by (simp only: OsSchedTaskSwitch_def switch_out_def switch_in_def Let_def case_prod_beta)

lemma sched_ok_SetNextExpireTime [simp]: "sched_ok (OsSchedSetNextExpireTime i e s) = sched_ok s"
  by (rule sched_ok_cong) simp_all

lemma sched_ok_tk [simp]: "sched_ok (s\<lparr>tk := k\<rparr>) = sched_ok s"
  by (rule sched_ok_cong) simp_all

lemma sched_ok_responseTime [simp]:
  "sched_ok (s\<lparr>g_schedResponseTime := r\<rparr>) = sched_ok s"
  "sched_ok (s\<lparr>newTask := n\<rparr>) = sched_ok s"
  "sched_ok (s\<lparr>runTask := n\<rparr>) = sched_ok s"
  "sched_ok (s\<lparr>g_sysNeedSched := b\<rparr>) = sched_ok s"
  by (rule sched_ok_cong; simp)+

lemma blocked_status:
  "has w OS_TASK_BLOCKED_STATUS \<longleftrightarrow>
     has w (flag PEND) \<or> has w (flag SUSPEND) \<or> has w (flag EXIT) \<or> has w (flag UNUSED)"
  by (simp add: OS_TASK_BLOCKED_STATUS_def)

lemma sched_ok_switch_out:
  assumes ok: "sched_ok s" and r: "run_ok s"
  shows "sched_ok (switch_out s)"
proof -
  let ?s2 = "OsTimeSliceUpdate (runTask s) (fst (LOS_SysCycleGet (tk s)))
               (s\<lparr>tk := snd (LOS_SysCycleGet (tk s))\<rparr>)"
  have s2: "sched_ok ?s2" using ok by simp
  have "sched_ok (OsSchedTaskEnQueue (runTask s) ?s2)"
    if "\<not> has (st s (runTask s)) OS_TASK_BLOCKED_STATUS"
    using that r unlinked_cong [of ?s2 s "runTask s"]
    by (intro sched_ok_EnQueue [OF s2]) (auto simp: run_ok_def Let_def blocked_status)
  with s2 show ?thesis
    by (simp add: switch_out_def GetCurrSchedTimeCycle_eq Let_def)
qed

lemma sched_ok_switch_in: "sched_ok s \<Longrightarrow> sched_ok (switch_in r s)"
  by (simp add: switch_in_def Let_def sched_ok_DeQueue sched_ok_status_set sched_ok_status_clr
      sched_ok_cong [of "upd_tcb _ _ _"])

theorem sched_ok_TaskSwitch:
  assumes "sched_ok s" "run_ok s"
  shows "sched_ok (snd (OsSchedTaskSwitch s))"
  using sched_ok_switch_in [OF sched_ok_switch_out [OF assms]]
  by (simp add: TaskSwitch_split Let_def)

theorem sched_ok_ArchTaskSchedule:
  assumes "sched_ok s" "run_ok s"
  shows "sched_ok (ArchTaskSchedule s)"
proof -
  have "run_ok (s\<lparr>g_sysNeedSched := False\<rparr>)" using assms(2) by (simp add: run_ok_def unlinked_def on_list_def)
  then have "sched_ok (snd (OsSchedTaskSwitch (s\<lparr>g_sysNeedSched := False\<rparr>)))"
    using assms(1) by (intro sched_ok_TaskSwitch) simp_all
  with assms(1) show ?thesis by (simp add: ArchTaskSchedule_def case_prod_beta Let_def)
qed

section \<open>Who runs after the switch\<close>

lemma unlinked_EnQueue:
  "unlinked s x \<Longrightarrow> x \<noteq> t \<or> is_idle s t \<Longrightarrow> unlinked (OsSchedTaskEnQueue t s) x"
  by (auto simp: unlinked_def on_list_def EnQueue_lists)

lemma unlinked_DeQueue: "unlinked s x \<Longrightarrow> unlinked (OsSchedTaskDeQueue t s) x"
  by (auto simp: unlinked_def on_list_def DeQueue_lists)

lemma unlinked_timing [simp]:
  "unlinked (s\<lparr>tk := k\<rparr>) x = unlinked s x"
  "unlinked (s\<lparr>g_sysNeedSched := b\<rparr>) x = unlinked s x"
  "unlinked (OsTimeSliceUpdate t c s) x = unlinked s x"
  "unlinked (OsAdd2SortLink n a w ty s) x = unlinked s x"
  by (rule unlinked_cong; simp)+

lemma idle_ok_switch_out: "idle_ok s \<Longrightarrow> idle_ok (switch_out s)"
proof -
  assume i: "idle_ok s"
  let ?i = "OS_TCB_FROM_TID (g_idleTaskID s)"
  have id: "is_idle (switch_out s) ?i" using i by (simp add: idle_ok_def is_idle_def Let_def)
  have "unlinked (switch_out s) ?i"
  proof -
    let ?s2 = "OsTimeSliceUpdate (runTask s) (fst (LOS_SysCycleGet (tk s)))
                 (s\<lparr>tk := snd (LOS_SysCycleGet (tk s))\<rparr>)"
    have u: "unlinked ?s2 ?i" using i by (simp add: idle_ok_def Let_def)
    have "?i \<noteq> runTask s \<or> is_idle ?s2 (runTask s)"
      using i by (auto simp: idle_ok_def is_idle_def Let_def)
    then show ?thesis
      using u unlinked_EnQueue [OF u]
      by (auto simp add: switch_out_def GetCurrSchedTimeCycle_eq Let_def)
  qed
  with i id show ?thesis by (simp add: idle_ok_def Let_def)
qed

lemma switch_in_status:
  "has (st (switch_in r s) x) (flag READY)
     \<longleftrightarrow> has (st s x) (flag READY) \<and> x \<noteq> OsGetTopTask s"
  "has (st (switch_in r s) x) (flag PEND) = has (st s x) (flag PEND)"
  "r \<noteq> OsGetTopTask s \<Longrightarrow> has (st (switch_in r s) (OsGetTopTask s)) (flag RUNNING)"
  by (auto simp: switch_in_def Let_def DeQueue_tcb status_defs)

lemma top_task_prio:
  assumes ok: "sched_ok s" and i: "idle_ok s"
  shows "unat (priority (tcb s (OsGetTopTask s))) < 32"
proof (cases "g_queueBitmap s = 0")
  case True
  then show ?thesis using i top_task_idle(1) [OF ok True] by (simp add: idle_ok_def Let_def)
next
  case False
  then show ?thesis using top_task_ready(3) [OF ok False] CLZ_less by simp
qed

text \<open>The chosen task is out of every list, not ready any more, and no ready task is better.\<close>

lemma switch_in_top:
  assumes ok: "sched_ok s" and i: "idle_ok s"
  shows "unlinked (switch_in r s) (OsGetTopTask s)"
    "unat (priority (tcb s (OsGetTopTask s))) < 32"
    "has (st (switch_in r s) u) (flag READY) \<Longrightarrow> \<not> is_idle s u \<Longrightarrow>
       \<not> is_idle s (OsGetTopTask s) \<and> priority (tcb s (OsGetTopTask s)) \<le> priority (tcb s u)"
proof -
  let ?t = "OsGetTopTask s"
  let ?s5 = "if r \<noteq> ?t
    then upd_tcb ?t (\<lambda>c. c\<lparr>startTime := startTime (tcb (s\<lparr>newTask := ?t\<rparr>) r)\<rparr>)
      (status_set ?t (flag RUNNING) (status_clr r (flag RUNNING) (s\<lparr>newTask := ?t\<rparr>)))
    else s\<lparr>newTask := ?t\<rparr>"
  have sw: "switch_in r s = OsSchedTaskDeQueue ?t ?s5" by (simp add: switch_in_def Let_def)
  have l5: "lists ?s5 = lists s" by (simp add: status_defs)
  show "unlinked (switch_in r s) ?t"
  proof (cases "g_queueBitmap s = 0")
    case True
    then have "unlinked s ?t" using i top_task_idle(1) [OF ok True] by (simp add: idle_ok_def Let_def)
    then have "unlinked ?s5 ?t" using unlinked_cong [OF l5] by blast
    then show ?thesis by (simp only: sw unlinked_DeQueue)
  next
    case False
    have "has (st ?s5 ?t) (flag READY)" "\<not> is_idle ?s5 ?t"
      using top_task_ready(1,2) [OF ok False] by (auto simp: status_defs is_idle_def)
    then show ?thesis by (simp add: sw unlinked_def on_list_def DeQueue_lists)
  qed
  show "unat (priority (tcb s ?t)) < 32" by (rule top_task_prio [OF ok i])
  assume "has (st (switch_in r s) u) (flag READY)" "\<not> is_idle s u"
  then have u: "has (st s u) (flag READY)" "\<not> is_idle s u" by (simp_all add: switch_in_status)
  show "\<not> is_idle s ?t \<and> priority (tcb s ?t) \<le> priority (tcb s u)"
    using top_task_ready(2) [OF ok ready_in_bitmap(1) [OF ok u]] top_task_highest [OF ok u] by simp
qed

text \<open>After \<open>ArchTaskSchedule\<close> outside an interrupt.\<close>

lemma ArchTaskSchedule_top:
  assumes "\<not> intActive s"
  shows "runTask (ArchTaskSchedule s) = OsGetTopTask (switch_out (s\<lparr>g_sysNeedSched := False\<rparr>))"
  using assms by (simp add: ArchTaskSchedule_def TaskSwitch_split case_prod_beta Let_def)

lemma ArchTaskSchedule_frame:
  assumes "\<not> intActive s"
  defines "s3 \<equiv> switch_out (s\<lparr>g_sysNeedSched := False\<rparr>)"
  shows "g_taskCBArray (ArchTaskSchedule s) = g_taskCBArray (switch_in (runTask s) s3)"
    "lists (ArchTaskSchedule s) = lists (switch_in (runTask s) s3)"
    "g_idleTaskID (ArchTaskSchedule s) = g_idleTaskID s"
  using assms(1) by (simp_all add: ArchTaskSchedule_def TaskSwitch_split case_prod_beta Let_def s3_def)

lemma run_ok_ArchTaskSchedule:
  assumes ok: "sched_ok s" and r: "run_ok s" and i: "idle_ok s" and int: "\<not> intActive s"
  shows "run_ok (ArchTaskSchedule s)"
    "has (st (ArchTaskSchedule s) u) (flag READY) \<Longrightarrow> \<not> is_idle (ArchTaskSchedule s) u \<Longrightarrow>
       \<not> is_idle (ArchTaskSchedule s) (runTask (ArchTaskSchedule s))
       \<and> priority (tcb (ArchTaskSchedule s) (runTask (ArchTaskSchedule s)))
           \<le> priority (tcb (ArchTaskSchedule s) u)"
proof -
  let ?s0 = "s\<lparr>g_sysNeedSched := False\<rparr>"
  let ?s3 = "switch_out ?s0" and ?s' = "ArchTaskSchedule s"
  let ?t = "OsGetTopTask ?s3"
  note f = ArchTaskSchedule_frame [OF int] ArchTaskSchedule_top [OF int]
  have r0: "run_ok ?s0" using r by (simp add: run_ok_def unlinked_def on_list_def)
  have i0: "idle_ok ?s0" using i by (simp add: idle_ok_def is_idle_def unlinked_def on_list_def)
  have ok3: "sched_ok ?s3" using sched_ok_switch_out [OF _ r0] ok by simp
  note top = switch_in_top [OF ok3 idle_ok_switch_out [OF i0]]
  have "unlinked ?s' ?t" using top(1) [of "runTask s"] unlinked_cong [OF f(2)] by blast
  then show "run_ok ?s'"
    using top(2) by (simp add: run_ok_def Let_def f switch_in_status)
  have idle: "is_idle ?s' x = is_idle ?s3 x" for x by (simp add: is_idle_def f)
  assume "has (st ?s' u) (flag READY)" "\<not> is_idle ?s' u"
  then show "\<not> is_idle ?s' (runTask ?s') \<and> priority (tcb ?s' (runTask ?s')) \<le> priority (tcb ?s' u)"
    using top(3) [of "runTask s" u] unfolding idle by (simp add: f)
qed

end
