(* ===== verification/Los_WaitQueue.thy ===== *)
theory Los_WaitQueue
  imports Los_SchedInv
begin

text \<open>
  The interface the IPC components use of the scheduler: a task sleeps on a wait list, and a
  task on a wait list is woken. The locale states what the scheduler promises of the two; its
  clients are the first-in first-out order of handing out, and waking the tasks of a list
  that satisfy a condition. It is interpreted on \<open>OsSchedTaskWait\<close> and
  \<open>OsSchedTaskWake\<close>.
\<close>

text \<open>A blocking call either returns at once or sleeps; its second half runs after the sleep.\<close>

datatype pend_result = Returned u32 | Blocked

section \<open>The interface\<close>

locale wait_queue =
  fixes waiters :: "'s \<Rightarrow> 'l \<Rightarrow> 't list"
    and is_wait :: "'l \<Rightarrow> bool"
    and sleep :: "'l \<Rightarrow> u32 \<Rightarrow> 's \<Rightarrow> 's"
    and wake :: "'t \<Rightarrow> 's \<Rightarrow> 's"
    and inv :: "'s \<Rightarrow> bool"
    and sleepable :: "'s \<Rightarrow> bool"
    and runner :: "'s \<Rightarrow> 't"
  assumes sleep_waiters: "inv s \<Longrightarrow> sleepable s \<Longrightarrow> is_wait l \<Longrightarrow> is_wait m \<Longrightarrow>
      waiters (sleep l n s) m = (if m = l then waiters s l @ [runner s] else waiters s m)"
    and sleep_inv: "inv s \<Longrightarrow> sleepable s \<Longrightarrow> is_wait l \<Longrightarrow> inv (sleep l n s)"
    and wake_waiters: "inv s \<Longrightarrow> is_wait l \<Longrightarrow> is_wait m \<Longrightarrow> t \<in> set (waiters s l) \<Longrightarrow>
      waiters (wake t s) m = (if m = l then remove1 t (waiters s l) else waiters s m)"
    and wake_inv: "inv s \<Longrightarrow> is_wait l \<Longrightarrow> t \<in> set (waiters s l) \<Longrightarrow> inv (wake t s)"
    and waiters_distinct: "inv s \<Longrightarrow> is_wait l \<Longrightarrow> distinct (waiters s l)"
begin

text \<open>Waking from the front hands out in the order of arrival.\<close>

lemma wake_front:
  assumes "inv s" "is_wait l" "waiters s l = ts @ us"
  shows "inv (fold wake ts s) \<and> waiters (fold wake ts s) l = us
    \<and> (\<forall>m. is_wait m \<longrightarrow> m \<noteq> l \<longrightarrow> waiters (fold wake ts s) m = waiters s m)"
  using assms
proof (induction ts arbitrary: s)
  case Nil
  then show ?case by simp
next
  case (Cons t ts)
  have "t \<in> set (waiters s l)" using Cons.prems(3) by simp
  note w = wake_waiters [OF Cons.prems(1,2) _ this] wake_inv [OF Cons.prems(1,2) this]
  have "waiters (wake t s) l = ts @ us" using w(1) [OF Cons.prems(2)] Cons.prems(3) by simp
  from Cons.IH [OF w(2) Cons.prems(2) this] show ?case using w(1) by simp
qed

text \<open>Waking the tasks that satisfy \<open>P\<close>, in the order of the list.\<close>

lemma wake_filter:
  assumes "inv s" "is_wait l" "set ts \<subseteq> set (waiters s l)" "distinct ts"
  shows "inv (fold wake (filter P ts) s)
    \<and> waiters (fold wake (filter P ts) s) l = filter (\<lambda>t. \<not> (P t \<and> t \<in> set ts)) (waiters s l)
    \<and> (\<forall>m. is_wait m \<longrightarrow> m \<noteq> l \<longrightarrow> waiters (fold wake (filter P ts) s) m = waiters s m)"
  using assms
proof (induction ts arbitrary: s)
  case Nil
  then show ?case by simp
next
  case (Cons t ts)
  show ?case
  proof (cases "P t")
    case False
    have "filter (\<lambda>x. \<not> (P x \<and> x \<in> set (t # ts))) (waiters s l)
        = filter (\<lambda>x. \<not> (P x \<and> x \<in> set ts)) (waiters s l)"
      using False by (intro filter_cong) auto
    then show ?thesis using Cons.IH [of s] Cons.prems False by simp
  next
    case True
    have t: "t \<in> set (waiters s l)" using Cons.prems(3) by simp
    note w = wake_waiters [OF Cons.prems(1,2) _ t] wake_inv [OF Cons.prems(1,2) t]
    have d: "distinct (waiters s l)" using waiters_distinct Cons.prems(1,2) by simp
    have wl: "waiters (wake t s) l = filter (\<lambda>x. t \<noteq> x) (waiters s l)"
      using w(1) [OF Cons.prems(2)] d by (simp add: distinct_remove1_removeAll removeAll_filter_not_eq)
    have sub: "set ts \<subseteq> set (waiters (wake t s) l)" using Cons.prems(3,4) wl by auto
    have "filter (\<lambda>x. \<not> (P x \<and> x \<in> set ts)) (filter (\<lambda>x. t \<noteq> x) (waiters s l))
        = filter (\<lambda>x. \<not> (P x \<and> x \<in> set (t # ts))) (waiters s l)"
      unfolding filter_filter using True by (intro filter_cong) auto
    then show ?thesis
      using Cons.IH [OF w(2) Cons.prems(2) sub] Cons.prems(4) True wl w(1) by simp
  qed
qed

lemma wake_where:
  assumes "inv s" "is_wait l"
  shows "inv (fold wake (filter P (waiters s l)) s)"
    "waiters (fold wake (filter P (waiters s l)) s) l = filter (\<lambda>t. \<not> P t) (waiters s l)"
    "is_wait m \<Longrightarrow> m \<noteq> l \<Longrightarrow> waiters (fold wake (filter P (waiters s l)) s) m = waiters s m"
proof -
  have "filter (\<lambda>t. \<not> (P t \<and> t \<in> set (waiters s l))) (waiters s l)
      = filter (\<lambda>t. \<not> P t) (waiters s l)"
    by (intro filter_cong) auto
  then show "inv (fold wake (filter P (waiters s l)) s)"
    "waiters (fold wake (filter P (waiters s l)) s) l = filter (\<lambda>t. \<not> P t) (waiters s l)"
    "is_wait m \<Longrightarrow> m \<noteq> l \<Longrightarrow> waiters (fold wake (filter P (waiters s l)) s) m = waiters s m"
    using wake_filter [OF assms subset_refl waiters_distinct [OF assms], of P] by simp_all
qed

end

section \<open>The scheduler provides it\<close>

definition wait_inv :: "sched \<Rightarrow> bool" where
  "wait_inv s \<longleftrightarrow> sched_ok s
     \<and> (\<forall>t. has (st s t) (flag PEND) \<longrightarrow> unat (priority (tcb s t)) < 32)"

definition can_sleep :: "sched \<Rightarrow> bool" where
  "can_sleep s \<longleftrightarrow> unlinked s (runTask s) \<and> unat (priority (tcb s (runTask s))) < 32"

lemma wait_inv_sched: "wait_inv s \<Longrightarrow> sched_ok s"
  by (simp add: wait_inv_def)

lemma wait_inv_cong:
  assumes "lists s' = lists s" "g_queueBitmap s' = g_queueBitmap s"
    and "g_idleTaskID s' = g_idleTaskID s"
    and "\<And>t. taskID (tcb s' t) = taskID (tcb s t)"
    and "\<And>t. priority (tcb s' t) = priority (tcb s t)"
    and "\<And>t. has (st s' t) (flag READY) = has (st s t) (flag READY)"
    and "\<And>t. has (st s' t) (flag PEND) = has (st s t) (flag PEND)"
  shows "wait_inv s' = wait_inv s"
  using sched_ok_cong [OF assms] assms(5,7) by (simp add: wait_inv_def)

lemma waiter_pends: "wait_inv s \<Longrightarrow> wait_list l \<Longrightarrow> t \<in> set (lists s l) \<Longrightarrow>
    has (st s t) (flag PEND) \<and> unat (priority (tcb s t)) < 32"
  by (auto simp: wait_inv_def sched_ok_def pend_ok_def on_list_def)

lemma TaskWait_tcb:
  "tcb (OsSchedTaskWait l n s) t =
     (if t = runTask s
      then (tcb s t)\<lparr>taskStatus := (if n \<noteq> LOS_WAIT_FOREVER then st s t OR flag PEND OR flag PEND_TIME
                                  else st s t OR flag PEND),
                     waitTimes := (if n \<noteq> LOS_WAIT_FOREVER then n else waitTimes (tcb s t))\<rparr>
      else tcb s t)"
  by (simp add: OsSchedTaskWait_def Let_def list_op_defs status_defs or.assoc)

lemma TaskWait_lists:
  "lists (OsSchedTaskWait l n s) = (lists s)(l := lists s l @ [runTask s])"
  by (simp add: OsSchedTaskWait_def Let_def list_op_defs status_defs)

lemma TaskWait_frame [simp]:
  "runTask (OsSchedTaskWait l n s) = runTask s"
  "g_idleTaskID (OsSchedTaskWait l n s) = g_idleTaskID s"
  "g_losTaskLock (OsSchedTaskWait l n s) = g_losTaskLock s"
  "g_taskScheduled (OsSchedTaskWait l n s) = g_taskScheduled s"
  "intActive (OsSchedTaskWait l n s) = intActive s"
  "events (OsSchedTaskWait l n s) = events s"
  "g_taskSortLink (OsSchedTaskWait l n s) = g_taskSortLink s"
  "responseTime (OsSchedTaskWait l n s) = responseTime s"
  "tk (OsSchedTaskWait l n s) = tk s"
  by (simp_all add: OsSchedTaskWait_def Let_def list_op_defs status_defs)

lemma TaskWake_lists:
  "wait_list l \<Longrightarrow> lists (OsSchedTaskWake t s) l = removeAll t (lists s l)"
  by (cases l) (simp_all add: OsSchedTaskWake_def Let_def list_op_defs status_defs EnQueue_lists)

lemma TaskWake_tcb_other: "x \<noteq> t \<Longrightarrow> tcb (OsSchedTaskWake t s) x = tcb s x"
  by (simp add: OsSchedTaskWake_def Let_def list_op_defs status_defs EnQueue_tcb)

text \<open>A woken task is not pending; unless suspended or running it is ready.\<close>

lemma TaskWake_status:
  "\<not> has (st (OsSchedTaskWake t s) t) (flag PEND OR flag PEND_TIME)"
  "has (st (OsSchedTaskWake t s) t) (flag READY) \<longleftrightarrow>
     has (st s t) (flag READY) \<or> (\<not> has (st s t) (flag SUSPEND) \<and> \<not> has (st s t) (flag RUNNING))"
  "has (st (OsSchedTaskWake t s) t) (flag TIMEOUT) = has (st s t) (flag TIMEOUT)"
  "priority (tcb (OsSchedTaskWake t s) x) = priority (tcb s x)"
  "taskID (tcb (OsSchedTaskWake t s) x) = taskID (tcb s x)"
  by (auto simp: OsSchedTaskWake_def Let_def list_op_defs status_defs EnQueue_tcb)

lemma TaskWake_frame [simp]:
  "runTask (OsSchedTaskWake t s) = runTask s"
  "g_idleTaskID (OsSchedTaskWake t s) = g_idleTaskID s"
  "g_swtmrTaskID (OsSchedTaskWake t s) = g_swtmrTaskID s"
  "g_losTaskLock (OsSchedTaskWake t s) = g_losTaskLock s"
  "g_taskScheduled (OsSchedTaskWake t s) = g_taskScheduled s"
  "g_taskMaxNum (OsSchedTaskWake t s) = g_taskMaxNum s"
  "intActive (OsSchedTaskWake t s) = intActive s"
  "events (OsSchedTaskWake t s) = events s"
  by (simp_all add: OsSchedTaskWake_def Let_def list_op_defs status_defs)

lemma wait_inv_TaskWait:
  assumes "wait_inv s" "can_sleep s" "wait_list l"
  shows "wait_inv (OsSchedTaskWait l n s)"
  using assms sched_ok_TaskWait [of s l n]
  by (auto simp: wait_inv_def can_sleep_def TaskWait_tcb)

lemma wait_inv_TaskWake:
  assumes i: "wait_inv s" and l: "wait_list l" and t: "t \<in> set (lists s l)"
  shows "wait_inv (OsSchedTaskWake t s)"
proof -
  have "sched_ok (OsSchedTaskWake t s)"
    using waiter_pends [OF assms] i by (intro sched_ok_TaskWake) (simp_all add: wait_inv_def)
  moreover have "unat (priority (tcb s x)) < 32" if "has (st (OsSchedTaskWake t s) x) (flag PEND)" for x
    using that TaskWake_status(1) [of t s] i TaskWake_tcb_other [of x t s]
    by (cases "x = t") (simp_all add: wait_inv_def)
  ultimately show ?thesis by (simp add: wait_inv_def TaskWake_status(4))
qed

lemma wait_distinct: "wait_inv s \<Longrightarrow> distinct (lists s l)"
  by (simp add: wait_inv_def sched_ok_def lists_ok_def)

interpretation wq: wait_queue lists wait_list OsSchedTaskWait OsSchedTaskWake wait_inv can_sleep runTask
proof unfold_locales
  fix s l m and n :: u32
  assume "wait_inv s" "can_sleep s" "wait_list l" "wait_list m"
  show "lists (OsSchedTaskWait l n s) m = (if m = l then lists s l @ [runTask s] else lists s m)"
    by (simp add: TaskWait_lists)
next
  fix s l m and t :: nat
  assume a: "wait_inv s" "wait_list l" "wait_list m" "t \<in> set (lists s l)"
  then have "t \<notin> set (lists s m)" if "m \<noteq> l"
    using wait_unique [of s l t m] that by (auto simp: wait_inv_def on_list_def)
  with a wait_distinct [OF a(1)] show "lists (OsSchedTaskWake t s) m
      = (if m = l then remove1 t (lists s l) else lists s m)"
    by (simp add: TaskWake_lists distinct_remove1_removeAll removeAll_id)
qed (simp_all add: wait_inv_TaskWait wait_inv_TaskWake wait_distinct)

end
