(* ===== verification/Los_Kern.thy ===== *)
theory Los_Kern
  imports Los_WaitQueue
begin

text \<open>
  The invariant of the running kernel, which every call of the components below keeps: the
  scheduler's lists, the running task and the idle task are in order. \<open>LOS_Schedule\<close> keeps
  it and never touches a wait list.
\<close>

definition kern_ok :: "sched \<Rightarrow> bool" where
  "kern_ok s \<longleftrightarrow> wait_inv s \<and> run_ok s \<and> idle_ok s \<and> has (st s (runTask s)) (flag RUNNING)"

lemma kern_okD:
  assumes "kern_ok s"
  shows "sched_ok s" "wait_inv s" "run_ok s" "idle_ok s" "has (st s (runTask s)) (flag RUNNING)"
  using assms by (simp_all add: kern_ok_def wait_inv_def)

lemma run_not_ready: "kern_ok s \<Longrightarrow> \<not> has (st s (runTask s)) (flag READY)"
  by (simp add: kern_ok_def run_ok_def Let_def)

lemma idle_not_waiting: "kern_ok s \<Longrightarrow> t \<in> set (lists s l) \<Longrightarrow> t \<noteq> OS_TCB_FROM_TID (g_idleTaskID s)"
  by (auto simp: kern_ok_def idle_ok_def unlinked_def on_list_def Let_def)

section \<open>Waking and sleeping\<close>

lemma TaskWake_unlinked_other:
  assumes "x \<noteq> t" "unlinked s x"
  shows "unlinked (OsSchedTaskWake t s) x"
  using assms
  by (auto simp: OsSchedTaskWake_def Let_def list_op_defs status_defs unlinked_def on_list_def
      EnQueue_lists)

lemma TaskWake_running_unlinked:
  assumes "sched_ok s" "has (st s t) (flag PEND)" "has (st s t) (flag RUNNING)"
  shows "unlinked (OsSchedTaskWake t s) t"
proof -
  have "lists (OsSchedTaskWake t s) = (\<lambda>l. removeAll t (lists s l))"
    using assms(3) by (simp add: OsSchedTaskWake_def Let_def list_op_defs status_defs)
  then show ?thesis by (simp add: unlinked_def on_list_def)
qed

lemma kern_ok_wake:
  assumes k: "kern_ok s" and l: "wait_list l" and t: "t \<in> set (lists s l)"
  shows "kern_ok (OsSchedTaskWake t s)"
proof -
  note d = kern_okD [OF k]
  have p: "has (st s t) (flag PEND)" using waiter_pends [OF d(2) l t] by simp
  have nt: "t \<noteq> OS_TCB_FROM_TID (g_idleTaskID s)" using idle_not_waiting [OF k t] .
  let ?s = "OsSchedTaskWake t s"
  have idle: "idle_ok ?s"
    using d(4) nt TaskWake_unlinked_other [of "OS_TCB_FROM_TID (g_idleTaskID s)" t s]
    by (simp add: idle_ok_def is_idle_def Let_def TaskWake_status)
  have run: "run_ok ?s \<and> has (st ?s (runTask s)) (flag RUNNING)"
  proof (cases "runTask s = t")
    case True
    have "\<not> has (st s t) (flag READY)" using run_not_ready [OF k] True by simp
    moreover have u: "unlinked ?s t" using TaskWake_running_unlinked [OF d(1) p] d(5) True by simp
    moreover have "has (st ?s t) (flag RUNNING)"
      using d(5) True by (simp add: OsSchedTaskWake_def Let_def list_op_defs status_defs)
    ultimately show ?thesis
      using True d(5) waiter_pends [OF d(2) l t] by (simp add: run_ok_def Let_def TaskWake_status)
  next
    case False
    then show ?thesis
      using d(3,5) TaskWake_unlinked_other [OF False]
      by (auto simp: run_ok_def Let_def TaskWake_tcb_other [OF False])
  qed
  show ?thesis
    using wait_inv_TaskWake [OF d(2) l t] idle run by (simp add: kern_ok_def)
qed

definition may_sleep :: "sched \<Rightarrow> bool" where
  "may_sleep s \<longleftrightarrow> can_sleep s \<and> runTask s \<noteq> OS_TCB_FROM_TID (g_idleTaskID s)"

lemma kern_ok_wait:
  assumes k: "kern_ok s" and m: "may_sleep s" and l: "wait_list l"
  shows "kern_ok (OsSchedTaskWait l n s)"
proof -
  note d = kern_okD [OF k]
  have "idle_ok (OsSchedTaskWait l n s)"
    using d(4) m by (auto simp: idle_ok_def is_idle_def Let_def TaskWait_tcb may_sleep_def
        unlinked_def on_list_def TaskWait_lists)
  moreover have "run_ok (OsSchedTaskWait l n s)"
    using d(3) by (auto simp: run_ok_def Let_def TaskWait_tcb)
  moreover have "wait_inv (OsSchedTaskWait l n s)"
    using wait_inv_TaskWait [OF d(2) _ l] m by (simp add: may_sleep_def)
  ultimately show ?thesis using d(5) by (simp add: kern_ok_def TaskWait_tcb)
qed

text \<open>Writing the fields of a TCB that the invariant does not read.\<close>

lemma kern_ok_cong:
  assumes "lists s' = lists s" "g_queueBitmap s' = g_queueBitmap s"
    and "g_idleTaskID s' = g_idleTaskID s" "runTask s' = runTask s"
    and "\<And>t. taskID (tcb s' t) = taskID (tcb s t)"
    and "\<And>t. priority (tcb s' t) = priority (tcb s t)"
    and "\<And>t. st s' t = st s t"
  shows "kern_ok s' = kern_ok s"
proof -
  have "wait_inv s' = wait_inv s" by (rule wait_inv_cong) (simp_all add: assms)
  moreover have "run_ok s' = run_ok s" "idle_ok s' = idle_ok s"
    using assms by (simp_all add: run_ok_def idle_ok_def Let_def is_idle_def unlinked_def on_list_def)
  ultimately show ?thesis using assms by (simp add: kern_ok_def)
qed

lemma kern_ok_flag_clr:
  assumes "kern_ok s" "\<not> has f (flag READY)" "\<not> has f (flag PEND)" "\<not> has f (flag RUNNING)"
    "\<not> has f (flag UNUSED)"
  shows "kern_ok (status_clr t f s)"
proof -
  have "wait_inv (status_clr t f s) = wait_inv s"
    by (rule wait_inv_cong) (use assms in \<open>auto simp: status_defs\<close>)
  moreover have "run_ok (status_clr t f s)"
    using assms by (auto simp: kern_ok_def run_ok_def Let_def status_defs unlinked_def on_list_def)
  moreover have "idle_ok (status_clr t f s)"
    using assms by (auto simp: kern_ok_def idle_ok_def is_idle_def Let_def status_defs unlinked_def on_list_def)
  ultimately show ?thesis using assms by (auto simp: kern_ok_def status_defs)
qed

section \<open>Rescheduling\<close>

text \<open>The lists other than the ready queues.\<close>

definition not_ready_queue :: "listid \<Rightarrow> bool" where
  "not_ready_queue l \<longleftrightarrow> (\<forall>p. l \<noteq> PriQueue p)"

lemma wait_not_ready_queue [simp]: "wait_list l \<Longrightarrow> not_ready_queue l"
  by (auto simp: not_ready_queue_def)

lemma free_not_ready_queue [simp]: "not_ready_queue FreeTask" "not_ready_queue RecycleTask"
  by (simp_all add: not_ready_queue_def)

lemma switch_out_lists:
  assumes "not_ready_queue l"
  shows "lists (switch_out s) l = lists s l"
  using assms by (cases l) (simp_all add: switch_out_def GetCurrSchedTimeCycle_eq Let_def EnQueue_lists
      not_ready_queue_def)

lemma switch_out_pend:
  "has (st (switch_out s) x) (flag PEND) = has (st s x) (flag PEND)"
  "has (st (switch_out s) x) (flag RUNNING) = has (st s x) (flag RUNNING)"
  by (auto simp: switch_out_def GetCurrSchedTimeCycle_eq Let_def EnQueue_tcb blocked_status)

lemma switch_in_lists:
  assumes ok: "sched_ok s" and l: "not_ready_queue l"
  shows "lists (switch_in r s) l = lists s l"
proof -
  let ?t = "OsGetTopTask s"
  have "?t \<notin> set (lists s l)" if "has (st s ?t) (flag READY)" "\<not> is_idle s ?t"
  proof
    assume "?t \<in> set (lists s l)"
    moreover have "on_list s (PriQueue (unat (priority (tcb s ?t)))) ?t"
      using ok that by (auto simp: sched_ok_def ready_ok_def)
    ultimately have "l = PriQueue (unat (priority (tcb s ?t)))"
      using ok by (auto simp: sched_ok_def lists_ok_def on_list_def)
    with l show False by (simp add: not_ready_queue_def)
  qed
  then show ?thesis
    by (auto simp: switch_in_def Let_def DeQueue_lists status_defs removeAll_id is_idle_def
        split: if_splits)
qed

lemma Arch_other_lists:
  assumes "sched_ok s" "run_ok s" "not_ready_queue l"
  shows "lists (ArchTaskSchedule s) l = lists s l"
proof (cases "intActive s")
  case True
  then show ?thesis by (simp add: ArchTaskSchedule_def)
next
  case False
  let ?s0 = "s\<lparr>g_sysNeedSched := False\<rparr>"
  have "run_ok ?s0" using assms(2) by (simp add: run_ok_def)
  then have "sched_ok (switch_out ?s0)" using assms(1) by (simp add: sched_ok_switch_out)
  then show ?thesis
    using assms(3) by (simp add: ArchTaskSchedule_frame(2) [OF False] switch_in_lists
        switch_out_lists)
qed

lemma Arch_wait_lists:
  "sched_ok s \<Longrightarrow> run_ok s \<Longrightarrow> wait_list l \<Longrightarrow> lists (ArchTaskSchedule s) l = lists s l"
  by (simp add: Arch_other_lists)

lemma kern_ok_Arch:
  assumes k: "kern_ok s"
  shows "kern_ok (ArchTaskSchedule s)"
proof (cases "intActive s")
  case True
  have "kern_ok (s\<lparr>g_sysNeedSched := True\<rparr>) = kern_ok s" by (rule kern_ok_cong) simp_all
  then show ?thesis using True k by (simp add: ArchTaskSchedule_def)
next
  case False
  note d = kern_okD [OF k] and f = ArchTaskSchedule_frame [OF False] ArchTaskSchedule_top [OF False]
  let ?s0 = "s\<lparr>g_sysNeedSched := False\<rparr>" and ?s' = "ArchTaskSchedule s"
  let ?s3 = "switch_out ?s0"
  have i3: "idle_ok ?s3"
    using d(4) by (intro idle_ok_switch_out) (simp add: idle_ok_def is_idle_def)
  have l: "lists ?s' = lists (switch_in (runTask s) ?s3)" by (simp add: f)
  have "unlinked (switch_in (runTask s) ?s3) x" if "unlinked ?s3 x" for x
    using that unlinked_DeQueue unlinked_cong
    by (auto simp: switch_in_def Let_def unlinked_def on_list_def DeQueue_lists status_defs
        split: if_splits)
  then have "idle_ok ?s'"
    using i3 unlinked_cong [OF l] by (simp add: idle_ok_def Let_def is_idle_def f)
  moreover have "run_ok ?s'" using run_ok_ArchTaskSchedule(1) [OF d(1,3,4) False] .
  moreover have "wait_inv ?s'"
    using d(2) sched_ok_ArchTaskSchedule [OF d(1,3)]
    by (simp add: wait_inv_def f switch_in_status switch_out_pend)
  moreover have "has (st ?s' (runTask ?s')) (flag RUNNING)"
  proof (cases "runTask s = OsGetTopTask ?s3")
    case True
    then show ?thesis
      using d(5) switch_out_pend(2) [of ?s0 "runTask s"]
      by (simp add: f switch_in_def Let_def DeQueue_tcb)
  next
    case False
    then show ?thesis by (simp add: f switch_in_status(3))
  qed
  ultimately show ?thesis by (simp add: kern_ok_def)
qed

lemma kern_ok_Schedule: "kern_ok s \<Longrightarrow> kern_ok (LOS_Schedule s)"
  by (simp add: LOS_Schedule_def kern_ok_Arch)

lemma Schedule_other_lists:
  "kern_ok s \<Longrightarrow> not_ready_queue l \<Longrightarrow> lists (LOS_Schedule s) l = lists s l"
  by (simp add: LOS_Schedule_def Arch_other_lists kern_okD)

lemma Schedule_wait_lists:
  "kern_ok s \<Longrightarrow> wait_list l \<Longrightarrow> lists (LOS_Schedule s) l = lists s l"
  by (simp add: Schedule_other_lists)

lemma Arch_status:
  assumes "kern_ok s"
  shows "has (st (ArchTaskSchedule s) x) (flag PEND) = has (st s x) (flag PEND)"
    "priority (tcb (ArchTaskSchedule s) x) = priority (tcb s x)"
    "taskID (tcb (ArchTaskSchedule s) x) = taskID (tcb s x)"
    "g_idleTaskID (ArchTaskSchedule s) = g_idleTaskID s"
proof -
  note f = ArchTaskSchedule_frame [of s] and d = ArchTaskSchedule_def [of s]
  show "has (st (ArchTaskSchedule s) x) (flag PEND) = has (st s x) (flag PEND)"
    by (cases "intActive s") (simp_all add: f switch_in_status switch_out_pend, simp add: d)
  show "priority (tcb (ArchTaskSchedule s) x) = priority (tcb s x)"
    by (cases "intActive s") (simp_all add: f, simp add: d)
  show "taskID (tcb (ArchTaskSchedule s) x) = taskID (tcb s x)"
    by (cases "intActive s") (simp_all add: f, simp add: d)
  show "g_idleTaskID (ArchTaskSchedule s) = g_idleTaskID s"
    by (cases "intActive s") (simp_all add: f, simp add: d)
qed

lemma Schedule_status:
  assumes "kern_ok s"
  shows "has (st (LOS_Schedule s) x) (flag PEND) = has (st s x) (flag PEND)"
    "priority (tcb (LOS_Schedule s) x) = priority (tcb s x)"
    "taskID (tcb (LOS_Schedule s) x) = taskID (tcb s x)"
    "g_idleTaskID (LOS_Schedule s) = g_idleTaskID s"
  using assms by (simp_all add: LOS_Schedule_def Arch_status)

text \<open>The fields of a TCB no reschedule writes.\<close>

lemma switch_fields [simp]:
  "eventMask (tcb (switch_in r s) x) = eventMask (tcb s x)"
  "eventMode (tcb (switch_in r s) x) = eventMode (tcb s x)"
  "taskSem (tcb (switch_in r s) x) = taskSem (tcb s x)"
  "taskMux (tcb (switch_in r s) x) = taskMux (tcb s x)"
  "events (switch_in r s) = events s"
  "eventMask (tcb (switch_out s) x) = eventMask (tcb s x)"
  "eventMode (tcb (switch_out s) x) = eventMode (tcb s x)"
  "taskSem (tcb (switch_out s) x) = taskSem (tcb s x)"
  "taskMux (tcb (switch_out s) x) = taskMux (tcb s x)"
  "events (switch_out s) = events s"
  by (simp_all add: switch_in_def switch_out_def Let_def DeQueue_tcb EnQueue_tcb status_defs
      GetCurrSchedTimeCycle_eq OsTimeSliceUpdate_def sched_assert_def)

lemma Schedule_fields [simp]:
  "eventMask (tcb (LOS_Schedule s) x) = eventMask (tcb s x)"
  "eventMode (tcb (LOS_Schedule s) x) = eventMode (tcb s x)"
  "taskSem (tcb (LOS_Schedule s) x) = taskSem (tcb s x)"
  "taskMux (tcb (LOS_Schedule s) x) = taskMux (tcb s x)"
  "events (LOS_Schedule s) = events s"
  by (simp_all add: LOS_Schedule_def ArchTaskSchedule_def TaskSwitch_split Let_def case_prod_beta)

end
