(* ===== verification/Los_Wake.thy ===== *)
theory Los_Wake
  imports Los_Kern
begin

text \<open>
  What becomes of a task that a call of the kernel wakes: its status and its timer right after
  \<open>OsSchedTaskWake\<close>, after waking several tasks in a row, and after the reschedule with which
  the call ends. The components that hand something to a waiter state their wake-up with
  \<open>woken\<close>.
\<close>

section \<open>A reschedule and the status of a task\<close>

text \<open>A reschedule writes the status of the task that stops and of the one that is chosen.\<close>

lemma Schedule_keeps_status:
  assumes k: "kern_ok s" and x: "x \<noteq> runTask s" "\<not> has (st s x) (flag READY)" "x \<noteq> OS_TCB_FROM_TID (g_idleTaskID s)"
  shows "st (LOS_Schedule s) x = st s x" "runTask (LOS_Schedule s) \<noteq> x"
proof -
  let ?s0 = "s\<lparr>g_sysNeedSched := False\<rparr>"
  let ?s3 = "switch_out ?s0" and ?t = "OsGetTopTask (switch_out (s\<lparr>g_sysNeedSched := False\<rparr>))"
  note d = kern_okD [OF k]
  have r0: "run_ok ?s0" using d(3) by (simp add: run_ok_def)
  have ok3: "sched_ok ?s3" using sched_ok_switch_out [OF _ r0] d(1) by simp
  have s3: "st ?s3 x = st s x"
    using x(1) by (simp add: switch_out_def GetCurrSchedTimeCycle_eq Let_def EnQueue_tcb)
  have n: "x \<noteq> ?t"
  proof (cases "g_queueBitmap ?s3 = 0")
    case True
    then show ?thesis using top_task_idle(1) [OF ok3 True] x(3) by simp
  next
    case False
    then show ?thesis using top_task_ready(1) [OF ok3 False] s3 x(2) by auto
  qed
  then have "st (switch_in (runTask s) ?s3) x = st ?s3 x"
    using x(1) by (simp add: switch_in_def Let_def DeQueue_tcb status_defs)
  moreover have "runTask s \<noteq> x" using x(1) by simp
  ultimately have "st (ArchTaskSchedule s) x = st s x \<and> runTask (ArchTaskSchedule s) \<noteq> x"
    using s3 n by (cases "intActive s") (simp_all add: ArchTaskSchedule_frame ArchTaskSchedule_top,
      simp_all add: ArchTaskSchedule_def)
  then show "st (LOS_Schedule s) x = st s x" "runTask (LOS_Schedule s) \<noteq> x"
    using x(1) by (auto simp: LOS_Schedule_def)
qed

lemma switch_out_status:
  "has (st s x) (flag READY) \<Longrightarrow> has (st (switch_out s) x) (flag READY)"
  "has (st (switch_out s) x) (flag PEND_TIME) = has (st s x) (flag PEND_TIME)"
  "has (st (switch_out s) x) (flag TIMEOUT) = has (st s x) (flag TIMEOUT)"
  by (auto simp: switch_out_def GetCurrSchedTimeCycle_eq Let_def EnQueue_tcb)

lemma switch_in_status_more:
  "has (st (switch_in r s) x) (flag PEND_TIME) = has (st s x) (flag PEND_TIME)"
  "has (st (switch_in r s) x) (flag TIMEOUT) = has (st s x) (flag TIMEOUT)"
  by (auto simp: switch_in_def Let_def DeQueue_tcb status_defs)

text \<open>A ready task stays ready, or it is the one that runs now; a running one too, unless it blocks.\<close>

lemma Schedule_more_status:
  "has (st (LOS_Schedule s) x) (flag PEND_TIME) = has (st s x) (flag PEND_TIME)"
  "has (st (LOS_Schedule s) x) (flag TIMEOUT) = has (st s x) (flag TIMEOUT)"
  "has (st s x) (flag READY) \<Longrightarrow> has (st (LOS_Schedule s) x) (flag READY) \<or> runTask (LOS_Schedule s) = x"
proof -
  let ?s0 = "s\<lparr>g_sysNeedSched := False\<rparr>"
  note f = ArchTaskSchedule_frame(1) [of s] ArchTaskSchedule_top [of s] and d = ArchTaskSchedule_def [of s]
  have "has (st (ArchTaskSchedule s) x) (flag PEND_TIME) = has (st s x) (flag PEND_TIME)"
    by (cases "intActive s") (simp_all add: f switch_in_status_more switch_out_status, simp add: d)
  then show "has (st (LOS_Schedule s) x) (flag PEND_TIME) = has (st s x) (flag PEND_TIME)"
    by (simp add: LOS_Schedule_def)
  have "has (st (ArchTaskSchedule s) x) (flag TIMEOUT) = has (st s x) (flag TIMEOUT)"
    by (cases "intActive s") (simp_all add: f switch_in_status_more switch_out_status, simp add: d)
  then show "has (st (LOS_Schedule s) x) (flag TIMEOUT) = has (st s x) (flag TIMEOUT)"
    by (simp add: LOS_Schedule_def)
  assume r: "has (st s x) (flag READY)"
  have "has (st (ArchTaskSchedule s) x) (flag READY) \<or> runTask (ArchTaskSchedule s) = x"
    using r switch_out_status(1) [of ?s0 x]
    by (cases "intActive s") (simp_all add: f switch_in_status, simp add: d)
  then show "has (st (LOS_Schedule s) x) (flag READY) \<or> runTask (LOS_Schedule s) = x"
    using r by (simp add: LOS_Schedule_def)
qed

text \<open>It suspends no task and lifts no suspension.\<close>

lemma switch_suspend:
  "has (st (switch_out s) x) (flag SUSPEND) = has (st s x) (flag SUSPEND)"
  "has (st (switch_in r s) x) (flag SUSPEND) = has (st s x) (flag SUSPEND)"
proof -
  show "has (st (switch_out s) x) (flag SUSPEND) = has (st s x) (flag SUSPEND)"
    by (auto simp: switch_out_def GetCurrSchedTimeCycle_eq Let_def EnQueue_tcb blocked_status)
  show "has (st (switch_in r s) x) (flag SUSPEND) = has (st s x) (flag SUSPEND)"
    by (auto simp: switch_in_def Let_def DeQueue_tcb status_defs)
qed

lemma Schedule_suspend: "has (st (LOS_Schedule s) x) (flag SUSPEND) = has (st s x) (flag SUSPEND)"
proof -
  have "has (st (ArchTaskSchedule s) x) (flag SUSPEND) = has (st s x) (flag SUSPEND)"
    by (cases "intActive s") (simp_all add: ArchTaskSchedule_frame(1) switch_suspend, simp add: ArchTaskSchedule_def)
  then show ?thesis by (simp add: LOS_Schedule_def)
qed

text \<open>A reschedule puts no task on the timer list but the one it stops.\<close>

lemma scan_back_set: "scan_back rt n rs ys = Some zs \<Longrightarrow> set zs = insert n (set rs \<union> set ys)"
  by (induction rt n rs ys rule: scan_back.induct) (auto split: if_splits)

lemma AddNode_set: "OsAddNode2SortLink rt n xs = Some zs \<Longrightarrow> set zs = insert n (set xs)"
  by (auto simp: OsAddNode2SortLink_def simp del: scan_back.simps dest: scan_back_set split: list.splits if_splits)

lemma switch_in_sort_link: "g_taskSortLink (switch_in r s) = g_taskSortLink s"
  by (cases "r = OsGetTopTask s") (simp_all add: switch_in_def Let_def OsSchedTaskDeQueue_def
      OsSchedPriQueueDelete_def list_op_defs status_defs)

lemma switch_out_sort_link:
  "g_taskSortLink (switch_out s) = g_taskSortLink s
   \<or> set (g_taskSortLink (switch_out s)) = insert (TaskNode (runTask s)) (set (g_taskSortLink s))"
proof -
  define s1 where "s1 = snd (OsGetCurrSchedTimeCycle s)"
  define s2 where "s2 = OsTimeSliceUpdate (runTask s) (fst (OsGetCurrSchedTimeCycle s)) s1"
  have l: "g_taskSortLink s2 = g_taskSortLink s"
    by (simp add: s1_def s2_def GetCurrSchedTimeCycle_eq OsTimeSliceUpdate_def sched_assert_def Let_def)
  have "switch_out s \<in> {OsAdd2SortLink (TaskNode (runTask s)) (startTime (tcb s2 (runTask s)))
      (waitTimes (tcb s2 (runTask s))) OS_SORT_LINK_TASK s2, OsSchedTaskEnQueue (runTask s) s2, s2}"
    by (simp add: switch_out_def s1_def s2_def Let_def case_prod_beta)
  moreover have add: "g_taskSortLink (OsAdd2SortLink n a b OS_SORT_LINK_TASK u) = g_taskSortLink u
      \<or> set (g_taskSortLink (OsAdd2SortLink n a b OS_SORT_LINK_TASK u)) = insert n (set (g_taskSortLink u))"
    for n a b and u :: sched
    by (auto simp: OsAdd2SortLink_def SET_SORTLIST_VALUE_def link_of_def set_link_def sched_assert_def
        Let_def split: option.split dest: AddNode_set)
  ultimately show ?thesis using l add [of "TaskNode (runTask s)" _ _ s2]
    by (elim insertE emptyE) (simp_all only: EnQueue_sort_links l simp_thms)
qed

lemma Schedule_sort_link:
  assumes "x \<noteq> runTask s" "TaskNode x \<notin> set (g_taskSortLink s)"
  shows "TaskNode x \<notin> set (g_taskSortLink (LOS_Schedule s))"
proof -
  let ?s0 = "s\<lparr>g_sysNeedSched := False\<rparr>"
  have "TaskNode x \<notin> set (g_taskSortLink (switch_in (runTask s) (switch_out ?s0)))"
    using switch_out_sort_link [of ?s0] assms by (auto simp: switch_in_sort_link)
  then have "TaskNode x \<notin> set (g_taskSortLink (ArchTaskSchedule s))" using assms(2)
    by (auto simp: ArchTaskSchedule_def TaskSwitch_split Let_def case_prod_beta switch_in_sort_link)
  then show ?thesis using assms(2) by (simp add: LOS_Schedule_def)
qed

section \<open>Woken tasks\<close>

text \<open>The task is on the timer list only with a waiting time that runs, as the code arms it.\<close>

definition timer_sound :: "sched \<Rightarrow> nat \<Rightarrow> bool" where
  "timer_sound s t \<longleftrightarrow> (TaskNode t \<in> set (g_taskSortLink s) \<longrightarrow>
     has (st s t) (flag PEND_TIME) \<and> responseTime s (TaskNode t) \<noteq> OS_SORT_LINK_INVALID_TIME)"

text \<open>Right after the wake-up, before the reschedule.\<close>

definition waked :: "sched \<Rightarrow> sched \<Rightarrow> nat \<Rightarrow> bool" where
  "waked s w t \<longleftrightarrow> \<not> has (st w t) (flag PEND OR flag PEND_TIME)
     \<and> has (st w t) (flag TIMEOUT) = has (st s t) (flag TIMEOUT)
     \<and> has (st w t) (flag SUSPEND) = has (st s t) (flag SUSPEND)
     \<and> (\<not> has (st s t) (flag RUNNING) \<longrightarrow>
          has (st w t) (flag READY) = (has (st s t) (flag READY) \<or> \<not> has (st s t) (flag SUSPEND)))
     \<and> (timer_sound s t \<longrightarrow> TaskNode t \<notin> set (g_taskSortLink w))"

text \<open>
  From the state of the call to the state it returns in: the task neither waits nor has a
  time-out, nor is it on the timer list; the wake-up is not taken for a time-out; and unless it is
  the running task itself, it is ready or already running, or still suspended when it was.
\<close>

definition woken :: "sched \<Rightarrow> sched \<Rightarrow> nat \<Rightarrow> bool" where
  "woken s s' t \<longleftrightarrow> \<not> has (st s' t) (flag PEND OR flag PEND_TIME)
     \<and> has (st s' t) (flag TIMEOUT) = has (st s t) (flag TIMEOUT)
     \<and> (\<not> has (st s t) (flag RUNNING) \<longrightarrow>
          (\<not> has (st s t) (flag SUSPEND) \<longrightarrow> has (st s' t) (flag READY) \<or> runTask s' = t)
          \<and> (has (st s t) (flag SUSPEND) \<and> \<not> has (st s t) (flag READY) \<longrightarrow>
               has (st s' t) (flag SUSPEND) \<and> \<not> has (st s' t) (flag READY) \<and> runTask s' \<noteq> t)
          \<and> (timer_sound s t \<longrightarrow> TaskNode t \<notin> set (g_taskSortLink s')))"

lemma waked_TaskWake: "waked s (OsSchedTaskWake t s) t"
proof -
  have "TaskNode t \<notin> set (g_taskSortLink (OsSchedTaskWake t s))" if "timer_sound s t"
    using that by (auto simp: timer_sound_def OsSchedTaskWake_def sortlink_defs list_op_defs status_defs)
  moreover have "has (st (OsSchedTaskWake t s) t) (flag SUSPEND) = has (st s t) (flag SUSPEND)"
    by (auto simp: OsSchedTaskWake_def Let_def list_op_defs status_defs EnQueue_tcb)
  ultimately show ?thesis using TaskWake_status(1) [of t s] by (auto simp: waked_def TaskWake_status(2,3))
qed

text \<open>Waking another task leaves a task's block and timer alone.\<close>

lemma TaskWake_other:
  assumes "x \<noteq> t"
  shows "st (OsSchedTaskWake t s) x = st s x" "timer_sound (OsSchedTaskWake t s) x = timer_sound s x"
    "TaskNode x \<in> set (g_taskSortLink (OsSchedTaskWake t s)) \<longleftrightarrow> TaskNode x \<in> set (g_taskSortLink s)"
proof -
  show c: "st (OsSchedTaskWake t s) x = st s x" using TaskWake_tcb_other [OF assms] by simp
  show m: "TaskNode x \<in> set (g_taskSortLink (OsSchedTaskWake t s)) \<longleftrightarrow> TaskNode x \<in> set (g_taskSortLink s)"
    using assms by (auto simp: OsSchedTaskWake_def sortlink_defs list_op_defs status_defs)
  have "responseTime (OsSchedTaskWake t s) (TaskNode x) = responseTime s (TaskNode x)"
    using assms by (auto simp: OsSchedTaskWake_def sortlink_defs list_op_defs status_defs)
  then show "timer_sound (OsSchedTaskWake t s) x = timer_sound s x" using c m by (simp add: timer_sound_def)
qed

lemma waked_fold:
  assumes "distinct ts" "t \<in> set ts"
  shows "waked s (fold OsSchedTaskWake ts s) t"
proof -
  have later: "st (fold OsSchedTaskWake us w) t = st w t
      \<and> (TaskNode t \<in> set (g_taskSortLink (fold OsSchedTaskWake us w)) \<longleftrightarrow> TaskNode t \<in> set (g_taskSortLink w))
      \<and> timer_sound (fold OsSchedTaskWake us w) t = timer_sound w t"
    if "t \<notin> set us" for us w
    using that by (induction us arbitrary: w) (simp_all add: TaskWake_other)
  obtain us vs where ts: "ts = us @ t # vs" "t \<notin> set us" "t \<notin> set vs"
    using assms split_list [OF assms(2)] by auto
  let ?u = "fold OsSchedTaskWake us s"
  have "waked ?u (OsSchedTaskWake t ?u) t" by (rule waked_TaskWake)
  then show ?thesis using later [OF ts(2), of s] later [OF ts(3), of "OsSchedTaskWake t ?u"] ts(1)
    by (simp add: waked_def)
qed

lemma woken_Schedule:
  assumes k: "kern_ok w" and a: "waked s w t" and r: "runTask w = runTask s" "has (st s (runTask s)) (flag RUNNING)"
    and n: "t \<noteq> OS_TCB_FROM_TID (g_idleTaskID w)"
  shows "woken s (LOS_Schedule w) t"
proof -
  have run: "t \<noteq> runTask w" if "\<not> has (st s t) (flag RUNNING)" using that r by auto
  have "runTask (LOS_Schedule w) \<noteq> t \<and> st (LOS_Schedule w) t = st w t"
    if "\<not> has (st s t) (flag RUNNING)" "has (st s t) (flag SUSPEND)" "\<not> has (st s t) (flag READY)"
    using Schedule_keeps_status [OF k run [OF that(1)] _ n] a that by (simp add: waked_def)
  then show ?thesis
    using a Schedule_more_status [where s = w and x = t] Schedule_status(1) [OF k, of t]
      Schedule_sort_link [OF run]
    unfolding woken_def waked_def by auto
qed

text \<open>One waiter, as the semaphores and the queues wake it; writes to other fields do not matter.\<close>

lemma woken_cong:
  assumes "\<And>x. st u x = st s x" "g_taskSortLink u = g_taskSortLink s" "responseTime u = responseTime s"
  shows "woken u s' t = woken s s' t"
  using assms by (simp add: woken_def timer_sound_def)

lemma wake_woken:
  assumes k: "kern_ok s" and l: "wait_list l" and t: "t \<in> set (lists s l)"
  shows "woken s (LOS_Schedule (OsSchedTaskWake t s)) t"
  using woken_Schedule [OF kern_ok_wake [OF assms] waked_TaskWake] kern_okD(5) [OF k] idle_not_waiting [OF k t]
  by simp

end
