(* ===== verification/Los_Timeout.thy ===== *)
theory Los_Timeout
  imports Los_SchedInv
begin

text \<open>
  Timeouts: the tick handler's scan of the task timer list. The invariant says the list is
  sorted by due time and holds tasks that wait; the scan wakes exactly the tasks that are due.
\<close>

section \<open>The timer list\<close>

definition waiting :: "sched \<Rightarrow> nat \<Rightarrow> bool" where
  "waiting s t \<longleftrightarrow> (has (st s t) (flag PEND) \<or> has (st s t) (flag DELAY) \<and> unlinked s t)
     \<and> \<not> has (st s t) (flag READY) \<and> unat (priority (tcb s t)) < 32"

definition timer_ok :: "sched \<Rightarrow> bool" where
  "timer_ok s \<longleftrightarrow> sorted_link (responseTime s) (g_taskSortLink s) \<and> distinct (g_taskSortLink s)
     \<and> (\<forall>n\<in>set (g_taskSortLink s). \<exists>t. n = TaskNode t \<and> waiting s t)"

lemma timer_ok_node:
  "timer_ok s \<Longrightarrow> TaskNode t \<in> set (g_taskSortLink s) \<Longrightarrow> waiting s t"
  by (auto simp: timer_ok_def)

section \<open>One expired task\<close>

lemma WakePend_unpend:
  assumes ok: "sched_ok s" and w: "waiting s t"
  defines "s1 \<equiv> status_clr t (flag PEND OR flag PEND_TIME OR flag DELAY) s"
  defines "s2 \<equiv> if has (st s t) (flag PEND)
     then upd_tcb t (\<lambda>c. c\<lparr>taskMux := None, taskSem := None\<rparr>)
            (ListDelete t (status_set t (flag TIMEOUT) s1)) else s1"
  shows "sched_ok s2" "unlinked s2 t" "unat (priority (tcb s2 t)) < 32"
    "x \<noteq> t \<Longrightarrow> tcb s2 x = tcb s x" "x \<noteq> t \<Longrightarrow> unlinked s x \<Longrightarrow> unlinked s2 x"
proof -
  have "sched_ok s2 \<and> unlinked s2 t"
  proof (cases "has (st s t) (flag PEND)")
    case True
    have "sched_ok s2" "unlinked s2 t"
      by (rule sched_ok_unpend [OF ok True];
          simp add: s2_def s1_def True list_op_defs status_defs tcb_agree_def)+
    then show ?thesis ..
  next
    case False
    then have "sched_ok s2 = sched_ok s"
      by (intro sched_ok_cong) (simp_all add: s2_def s1_def status_defs)
    moreover have "unlinked s t" using w False by (simp add: waiting_def)
    ultimately show ?thesis using ok False by (simp add: s2_def s1_def)
  qed
  then show "sched_ok s2" "unlinked s2 t" by simp_all
  show "unat (priority (tcb s2 t)) < 32"
    using w by (simp add: s2_def s1_def waiting_def list_op_defs status_defs)
  show "x \<noteq> t \<Longrightarrow> tcb s2 x = tcb s x"
    by (simp add: s2_def s1_def list_op_defs status_defs)
  show "x \<noteq> t \<Longrightarrow> unlinked s x \<Longrightarrow> unlinked s2 x"
    by (simp add: s2_def s1_def list_op_defs status_defs unlinked_def on_list_def)
qed

lemma WakePendTimeTask_effect:
  fixes need :: bool
  assumes ok: "sched_ok s" and w: "waiting s t"
  defines "r \<equiv> OsSchedWakePendTimeTask t need s"
  shows "sched_ok (snd r)"
    "fst r \<longleftrightarrow> need \<or> \<not> has (st s t) (flag SUSPEND)"
    "x \<noteq> t \<Longrightarrow> tcb (snd r) x = tcb s x"
    "x \<noteq> t \<Longrightarrow> unlinked s x \<Longrightarrow> unlinked (snd r) x"
    "has (st (snd r) t) (flag READY) \<longleftrightarrow> \<not> has (st s t) (flag SUSPEND)"
    "\<not> has (st (snd r) t) (flag PEND OR flag DELAY OR flag PEND_TIME)"
    "has (st (snd r) t) (flag TIMEOUT) \<longleftrightarrow> has (st s t) (flag PEND) \<or> has (st s t) (flag TIMEOUT)"
proof -
  let ?s1 = "status_clr t (flag PEND OR flag PEND_TIME OR flag DELAY) s"
  let ?s2 = "if has (st s t) (flag PEND)
     then upd_tcb t (\<lambda>c. c\<lparr>taskMux := None, taskSem := None\<rparr>)
            (ListDelete t (status_set t (flag TIMEOUT) ?s1)) else ?s1"
  note u = WakePend_unpend [OF ok w]
  have r: "r = (if \<not> has (st s t) (flag SUSPEND)
                then (True, OsSchedTaskEnQueue t ?s2) else (need, ?s2))"
    using w by (auto simp add: r_def OsSchedWakePendTimeTask_def waiting_def Let_def)
  show "sched_ok (snd r)"
    using u(1) sched_ok_EnQueue [OF u(1,2,3)] unfolding r by simp
  show "fst r \<longleftrightarrow> need \<or> \<not> has (st s t) (flag SUSPEND)" unfolding r by simp
  show "x \<noteq> t \<Longrightarrow> tcb (snd r) x = tcb s x"
    using u(4) unfolding r by (simp add: EnQueue_tcb)
  show "x \<noteq> t \<Longrightarrow> unlinked s x \<Longrightarrow> unlinked (snd r) x"
    using u(5) unlinked_EnQueue unfolding r by simp
  show "has (st (snd r) t) (flag READY) \<longleftrightarrow> \<not> has (st s t) (flag SUSPEND)"
    "\<not> has (st (snd r) t) (flag PEND OR flag DELAY OR flag PEND_TIME)"
    "has (st (snd r) t) (flag TIMEOUT) \<longleftrightarrow> has (st s t) (flag PEND) \<or> has (st s t) (flag TIMEOUT)"
    using w unfolding r by (simp_all add: EnQueue_tcb list_op_defs status_defs waiting_def)
qed

lemma expire_one:
  fixes need :: bool
  assumes ok: "sched_ok s" and tm: "timer_ok s" and l: "g_taskSortLink s = TaskNode t # ns"
  defines "r \<equiv> OsSchedWakePendTimeTask t need (OsDeleteNodeSortLink (TaskNode t) s)"
  shows "sched_ok (snd r)" "timer_ok (snd r)" "g_taskSortLink (snd r) = ns"
    "n \<in> set ns \<Longrightarrow> responseTime (snd r) n = responseTime s n"
    "fst r \<longleftrightarrow> need \<or> \<not> has (st s t) (flag SUSPEND)"
    "x \<noteq> t \<Longrightarrow> tcb (snd r) x = tcb s x"
    "has (st (snd r) t) (flag READY) \<longleftrightarrow> \<not> has (st s t) (flag SUSPEND)"
    "\<not> has (st (snd r) t) (flag PEND OR flag DELAY OR flag PEND_TIME)"
    "has (st (snd r) t) (flag TIMEOUT) \<longleftrightarrow> has (st s t) (flag PEND) \<or> has (st s t) (flag TIMEOUT)"
proof -
  let ?d = "OsDeleteNodeSortLink (TaskNode t) s"
  have w: "waiting ?d t" using timer_ok_node [OF tm] l by (simp add: waiting_def)
  have dok: "sched_ok ?d" using ok by simp
  note e = WakePendTimeTask_effect [OF dok w, where need = need, folded r_def]
  have t: "TaskNode t \<notin> set ns" using tm l by (auto simp: timer_ok_def)
  then have d: "removeAll (TaskNode t) ns = ns" by (rule removeAll_id)
  show link: "g_taskSortLink (snd r) = ns" using l d by (simp add: r_def)
  show rt: "responseTime (snd r) n = responseTime s n" if "n \<in> set ns" for n
    using t that by (auto simp: r_def)
  show "sched_ok (snd r)" using e(1) .
  show tcbs: "tcb (snd r) x = tcb s x" if "x \<noteq> t" for x using e(3) [OF that] by simp
  show "fst r \<longleftrightarrow> need \<or> \<not> has (st s t) (flag SUSPEND)"
    "has (st (snd r) t) (flag READY) \<longleftrightarrow> \<not> has (st s t) (flag SUSPEND)"
    "\<not> has (st (snd r) t) (flag PEND OR flag DELAY OR flag PEND_TIME)"
    "has (st (snd r) t) (flag TIMEOUT) \<longleftrightarrow> has (st s t) (flag PEND) \<or> has (st s t) (flag TIMEOUT)"
    using e(2,5,6,7) by simp_all
  show "timer_ok (snd r)"
    unfolding timer_ok_def link
  proof (intro conjI ballI)
    have "sorted_link (responseTime s) ns" using tm l by (simp add: timer_ok_def)
    then show "sorted_link (responseTime (snd r)) ns" using sorted_link_cong rt by metis
    show "distinct ns" using tm l by (simp add: timer_ok_def)
  next
    fix n assume n: "n \<in> set ns"
    then obtain u where u: "n = TaskNode u" "waiting s u" "u \<noteq> t"
      using tm l t by (auto simp: timer_ok_def)
    then have "waiting (snd r) u" using tcbs [OF u(3)] e(4) [OF u(3)] by (auto simp: waiting_def)
    with u(1) show "\<exists>t. n = TaskNode t \<and> waiting (snd r) t" by blast
  qed
qed

section \<open>The scan\<close>

definition due :: "u64 \<Rightarrow> sched \<Rightarrow> nat \<Rightarrow> bool" where
  "due now s t \<longleftrightarrow> TaskNode t \<in> set (g_taskSortLink s) \<and> responseTime s (TaskNode t) \<le> now"

text \<open>What a woken task looks like; every other task keeps its block.\<close>

definition woken_from :: "u16 \<Rightarrow> u16 \<Rightarrow> bool" where
  "woken_from old new \<longleftrightarrow> (has new (flag READY) \<longleftrightarrow> \<not> has old (flag SUSPEND))
     \<and> \<not> has new (flag PEND OR flag DELAY OR flag PEND_TIME)
     \<and> (has new (flag TIMEOUT) \<longleftrightarrow> has old (flag PEND) \<or> has old (flag TIMEOUT))"

lemma scan_timer_effect:
  assumes "sched_ok s" "timer_ok s"
  shows "sched_ok (snd (scan_timer now need s)) \<and> timer_ok (snd (scan_timer now need s))
    \<and> g_taskSortLink (snd (scan_timer now need s))
        = filter (\<lambda>n. responseTime s n > now) (g_taskSortLink s)
    \<and> (fst (scan_timer now need s) \<longleftrightarrow> need \<or> (\<exists>t. due now s t \<and> \<not> has (st s t) (flag SUSPEND)))
    \<and> (\<forall>t. if due now s t then woken_from (st s t) (st (snd (scan_timer now need s)) t)
           else tcb (snd (scan_timer now need s)) t = tcb s t)"
  using assms
proof (induction now need s rule: scan_timer.induct)
  case (1 now need s)
  show ?case
  proof (cases "g_taskSortLink s")
    case Nil
    then show ?thesis using 1(2,3) by (simp add: scan_timer.simps [of now need s] due_def)
  next
    case (Cons n ns)
    then obtain t where n: "n = TaskNode t" using 1(3) by (auto simp: timer_ok_def)
    note l = Cons [unfolded n]
    have sorted: "\<forall>m\<in>set ns. responseTime s (TaskNode t) \<le> responseTime s m"
      using 1(3) l by (simp add: timer_ok_def)
    have fresh: "TaskNode t \<notin> set ns" using 1(3) l by (simp add: timer_ok_def)
    show ?thesis
    proof (cases "responseTime s (TaskNode t) \<le> now")
      case False
      then have "filter (\<lambda>n. responseTime s n > now) (g_taskSortLink s) = g_taskSortLink s"
        using sorted l by (auto simp: filter_id_conv)
      moreover have "\<not> due now s u" for u
        using False sorted l by (auto simp: due_def)
      ultimately show ?thesis
        using False 1(2,3) l by (simp add: scan_timer.simps [of now need s])
    next
      case True
      let ?r = "OsSchedWakePendTimeTask t need (OsDeleteNodeSortLink (TaskNode t) s)"
      have step: "scan_timer now need s = scan_timer now (fst ?r) (snd ?r)"
        using True l by (simp add: scan_timer.simps [of now need s] Let_def)
      note e = expire_one [OF 1(2,3) l, where need = need]
      have IH: "sched_ok (snd (scan_timer now (fst ?r) (snd ?r))) \<and> timer_ok (snd (scan_timer now (fst ?r) (snd ?r)))
        \<and> g_taskSortLink (snd (scan_timer now (fst ?r) (snd ?r)))
            = filter (\<lambda>n. responseTime (snd ?r) n > now) (g_taskSortLink (snd ?r))
        \<and> (fst (scan_timer now (fst ?r) (snd ?r)) \<longleftrightarrow> fst ?r \<or> (\<exists>t. due now (snd ?r) t \<and> \<not> has (st (snd ?r) t) (flag SUSPEND)))
        \<and> (\<forall>u. if due now (snd ?r) u then woken_from (st (snd ?r) u) (st (snd (scan_timer now (fst ?r) (snd ?r))) u)
           else tcb (snd (scan_timer now (fst ?r) (snd ?r))) u = tcb (snd ?r) u)"
        using 1(1) [OF l refl True refl] e(1,2) by blast
      have dt: "due now s t" using True l by (simp add: due_def)
      have ndt: "\<not> due now (snd ?r) t" using fresh e(3) by (simp add: due_def)
      have du: "due now (snd ?r) u = due now s u" if "u \<noteq> t" for u
        using that l e(3) e(4) by (auto simp: due_def)
      have f: "filter (\<lambda>n. responseTime (snd ?r) n > now) ns = filter (\<lambda>n. responseTime s n > now) ns"
        using e(4) by (intro filter_cong) auto
      have tasks: "if due now s u then woken_from (st s u) (st (snd (scan_timer now need s)) u)
           else tcb (snd (scan_timer now need s)) u = tcb s u" for u
      proof (cases "u = t")
        case True
        have "tcb (snd (scan_timer now need s)) t = tcb (snd ?r) t"
          using IH ndt unfolding step by simp
        then show ?thesis using e(7,8,9) dt True by (simp add: woken_from_def)
      next
        case False
        then show ?thesis using IH du [OF False] e(6) [OF False] unfolding step by metis
      qed
      have need: "fst (scan_timer now need s) \<longleftrightarrow> need \<or> (\<exists>t. due now s t \<and> \<not> has (st s t) (flag SUSPEND))"
        using IH e(5) dt ndt du e(6) unfolding step by metis
      show ?thesis
        using IH tasks need f e(3) l True unfolding step by simp
    qed
  qed
qed

end
