(* ===== verification/Los_Example.thy ===== *)
theory Los_Example
  imports Los_Wake Los_Timeout
begin

text \<open>
  A concrete kernel state for the witnesses: task 0 is the idle task, task 1 runs at priority
  10, task 2 is ready at priority 5, task 3 pends on semaphore 0 with a timeout that is due at
  time 500, task 4 is delayed until time 5000, task 5 reads event 0 and waits for two flags of
  which one is set. The hardware counter starts at 1000 and advances
  by 10 at each read.
\<close>

definition ex_timer :: ArchTickTimer where
  "ex_timer = \<lparr>tm_freq = 80000000, tm_irqNum = 6, tm_periodMax = 0xFFFFFFFF,
     tm_init = Some (\<lambda>f. (0, 80000000)),
     tm_getCycle = Some (\<lambda>n. (1000 + 10 * of_nat n, 0)), tm_reload = Some (\<lambda>p. p),
     tm_lock = True, tm_unlock = True, tm_tickHandler = None\<rparr>"

definition ex_tick :: tick_state where
  "ex_tick = \<lparr>g_sysTickTimer = True, archTimer = ex_timer, hwReads = 0, g_sysClock = 80000000,
     g_cyclesPerTick = 800000, g_sysTimerIsInit = True, g_tickTimerStartTime = 0,
     g_tickTimerBase = 0, g_oldTickTimerBase = 0, g_tickTimerBaseUpdate = False, panic = False\<rparr>"

definition ex_task :: "u32 \<Rightarrow> u16 \<Rightarrow> u16 \<Rightarrow> LosTaskCB" where
  "ex_task i prio status = zero_tcb\<lparr>taskID := i, priority := prio, taskStatus := status\<rparr>"

definition ex_tasks :: "nat \<Rightarrow> LosTaskCB" where
  "ex_tasks = (\<lambda>t. ex_task 7 32 (flag UNUSED))(
     0 := ex_task 0 31 (flag READY),
     1 := ex_task 1 10 (flag RUNNING),
     2 := ex_task 2 5 (flag READY),
     3 := ex_task 3 7 (flag PEND OR flag PEND_TIME),
     4 := ex_task 4 9 (flag DELAY),
     5 := (ex_task 5 3 (flag PEND))\<lparr>eventMask := 6, eventMode := 4\<rparr>)"

definition ex_lists :: "listid \<Rightarrow> nat list" where
  "ex_lists = (\<lambda>l. [])(PriQueue 5 := [2], SemList 0 := [3],
     EventList (UserEvent 0) := [5])"

definition ex_sched :: sched where
  "ex_sched = \<lparr>g_taskCBArray = ex_tasks, g_taskMaxNum = 6, lists = ex_lists,
     g_queueBitmap = 0x04000000, g_taskSortLink = [TaskNode 3, TaskNode 4], g_swtmrSortLink = [],
     responseTime = (\<lambda>n. -1)(TaskNode 3 := 500, TaskNode 4 := 5000),
     g_schedResponseID = -1, g_tickIntLock = 0, g_schedResponseTime = -1,
     g_schedTimeSlice = 1600000, g_schedTimeSliceMin = 4000, g_schedTickMinPeriod = 80000,
     g_tickResponsePrecision = 60000, runTask = 1, newTask = 1, g_losTaskLock = 0,
     g_taskScheduled = True, g_idleTaskID = 0, g_swtmrTaskID = -1, g_swtmrScan = False,
     intActive = False, g_sysNeedSched = False, 
     events = (\<lambda>e. \<lparr>uwEventID = 0, stEventList_init = False\<rparr>)
       (UserEvent 0 := \<lparr>uwEventID = 2, stEventList_init = True\<rparr>),
     tk = ex_tick\<rparr>"

lemma ex_sel [simp]:
  "g_taskCBArray ex_sched = ex_tasks" "lists ex_sched = ex_lists"
  "g_idleTaskID ex_sched = 0" "runTask ex_sched = 1" "g_queueBitmap ex_sched = 0x04000000"
  "intActive ex_sched = False" "g_taskScheduled ex_sched = True" "g_losTaskLock ex_sched = 0"
  "g_taskSortLink ex_sched = [TaskNode 3, TaskNode 4]" "tk ex_sched = ex_tick"
  "responseTime ex_sched = (\<lambda>n. -1)(TaskNode 3 := 500, TaskNode 4 := 5000)"
  "g_taskMaxNum ex_sched = 6" "g_swtmrTaskID ex_sched = -1"
  by (simp_all add: ex_sched_def)

lemma ex_tcb [simp]:
  "taskID (ex_task i p f) = i" "priority (ex_task i p f) = p" "taskStatus (ex_task i p f) = f"
  by (simp_all add: ex_task_def)

lemma ex_bitmap: "p < 32 \<Longrightarrow> bit (0x04000000 :: u32) (31 - p) \<longleftrightarrow> p = 5"
proof -
  assume p: "p < 32"
  have "bit (0x04000000 :: u32) (31 - p) = bit (prior_bit 5) (31 - p)"
    by (simp add: prior_bit_def PRIQUEUE_PRIOR0_BIT_def)
  then show ?thesis using prior_bit_bit [of 5 p] p by simp
qed

lemma ex_bitmap_ok: "bitmap_ok ex_sched"
  unfolding bitmap_ok_def ex_sel
proof (intro allI impI)
  fix p :: nat assume "p < 32"
  then show "bit (0x04000000 :: u32) (31 - p) \<longleftrightarrow> ex_lists (PriQueue p) \<noteq> []"
    by (simp only: ex_bitmap) (simp add: ex_lists_def)
qed

lemma ex_on_list: "on_list ex_sched l t \<longleftrightarrow> (l = PriQueue 5 \<and> t = 2) \<or> (l = SemList 0 \<and> t = 3)
    \<or> (l = EventList (UserEvent 0) \<and> t = 5)"
  by (auto simp add: on_list_def ex_lists_def)

lemma ex_sched_ok: "sched_ok ex_sched"
proof -
  have "lists_ok ex_sched" by (auto simp: lists_ok_def ex_on_list ex_lists_def)
  moreover note ex_bitmap_ok
  moreover have "ready_ok ex_sched"
    by (auto simp: ready_ok_def ex_on_list ex_tasks_def is_idle_def)
  moreover have "pend_ok ex_sched"
    by (auto simp: pend_ok_def ex_on_list ex_tasks_def)
  ultimately show ?thesis by (simp add: sched_ok_def)
qed

lemma ex_unlinked: "unlinked ex_sched t \<longleftrightarrow> t \<noteq> 2 \<and> t \<noteq> 3 \<and> t \<noteq> 5"
  by (auto simp: unlinked_def ex_on_list)

lemma ex_kern_ok: "kern_ok ex_sched"
  using ex_sched_ok
  by (auto simp: kern_ok_def wait_inv_def run_ok_def idle_ok_def Let_def ex_unlinked ex_tasks_def
      OS_TCB_FROM_TID_def is_idle_def)

lemma ex_may_sleep: "may_sleep ex_sched"
  by (simp add: may_sleep_def can_sleep_def ex_unlinked ex_tasks_def OS_TCB_FROM_TID_def)

lemma ex_timer_ok: "timer_ok ex_sched"
  by (simp add: timer_ok_def waiting_def ex_unlinked ex_tasks_def)

end
