(* ===== verification/Los_List.thy ===== *)
theory Los_List
  imports Los_Prelude
begin

text \<open>
  The intrusive doubly linked list of utils/los_list.h, pointer by pointer: a heap gives the
  \<open>pstNext\<close> and \<open>pstPrev\<close> fields of every node, NULL is None, and an
  operation that dereferences NULL returns None. \<open>is_dlist h head xs\<close> says that the
  ring through \<open>head\<close> holds the nodes \<open>xs\<close> in order; the operations are
  shown to be the list operations of the abstract view, which is the view the other theories
  model their lists in.
\<close>

section \<open>The nodes and the operations of los_list.h\<close>

record 'a dlheap =
  pstPrev :: "'a \<Rightarrow> 'a option"
  pstNext :: "'a \<Rightarrow> 'a option"

definition set_next :: "'a \<Rightarrow> 'a option \<Rightarrow> 'a dlheap \<Rightarrow> 'a dlheap" where
  "set_next n v h = h\<lparr>pstNext := (pstNext h)(n := v)\<rparr>"

definition set_prev :: "'a \<Rightarrow> 'a option \<Rightarrow> 'a dlheap \<Rightarrow> 'a dlheap" where
  "set_prev n v h = h\<lparr>pstPrev := (pstPrev h)(n := v)\<rparr>"

definition LOS_ListInit :: "'a \<Rightarrow> 'a dlheap \<Rightarrow> 'a dlheap" where
  "LOS_ListInit l h = set_prev l (Some l) (set_next l (Some l) h)"

definition LOS_ListAdd :: "'a \<Rightarrow> 'a \<Rightarrow> 'a dlheap \<Rightarrow> 'a dlheap option" where
  "LOS_ListAdd l node h =
     (let h1 = set_next node (pstNext h l) h;
          h2 = set_prev node (Some l) h1
      in case pstNext h2 l of
           None \<Rightarrow> None
         | Some n \<Rightarrow> Some (set_next l (Some node) (set_prev n (Some node) h2)))"

definition LOS_ListTailInsert :: "'a \<Rightarrow> 'a \<Rightarrow> 'a dlheap \<Rightarrow> 'a dlheap option" where
  "LOS_ListTailInsert l node h =
     (case pstPrev h l of None \<Rightarrow> None | Some p \<Rightarrow> LOS_ListAdd p node h)"

definition LOS_ListHeadInsert :: "'a \<Rightarrow> 'a \<Rightarrow> 'a dlheap \<Rightarrow> 'a dlheap option" where
  "LOS_ListHeadInsert l node h = LOS_ListAdd l node h"

definition unlink :: "'a \<Rightarrow> 'a dlheap \<Rightarrow> 'a dlheap option" where
  "unlink node h =
     (case pstNext h node of
        None \<Rightarrow> None
      | Some n \<Rightarrow>
          (let h1 = set_prev n (pstPrev h node) h
           in case pstPrev h1 node of
                None \<Rightarrow> None
              | Some p \<Rightarrow> Some (set_next p (pstNext h1 node) h1)))"

definition LOS_ListDelete :: "'a \<Rightarrow> 'a dlheap \<Rightarrow> 'a dlheap option" where
  "LOS_ListDelete node h =
     (case unlink node h of
        None \<Rightarrow> None
      | Some h1 \<Rightarrow> Some (set_prev node None (set_next node None h1)))"

definition LOS_ListDelInit :: "'a \<Rightarrow> 'a dlheap \<Rightarrow> 'a dlheap option" where
  "LOS_ListDelInit l h =
     (case unlink l h of None \<Rightarrow> None | Some h1 \<Rightarrow> Some (LOS_ListInit l h1))"

definition LOS_ListEmpty :: "'a \<Rightarrow> 'a dlheap \<Rightarrow> bool" where
  "LOS_ListEmpty node h \<longleftrightarrow> pstNext h node = Some node"

text \<open>
  \<open>LOS_DL_LIST_FOR_EACH\<close>: the nodes visited from \<open>pstNext\<close> of the head until
  the head comes back, at most \<open>fuel\<close> of them.
\<close>

fun walk :: "nat \<Rightarrow> 'a \<Rightarrow> 'a \<Rightarrow> 'a dlheap \<Rightarrow> 'a list option" where
  "walk 0 head item h = None"
| "walk (Suc fuel) head item h =
     (if item = head then Some []
      else case pstNext h item of
             None \<Rightarrow> None
           | Some n \<Rightarrow> map_option ((#) item) (walk fuel head n h))"

definition LOS_DL_LIST_FOR_EACH :: "nat \<Rightarrow> 'a \<Rightarrow> 'a dlheap \<Rightarrow> 'a list option" where
  "LOS_DL_LIST_FOR_EACH fuel head h =
     (case pstNext h head of None \<Rightarrow> None | Some n \<Rightarrow> walk fuel head n h)"

lemmas dlist_defs = set_next_def set_prev_def LOS_ListInit_def LOS_ListAdd_def
  LOS_ListTailInsert_def LOS_ListHeadInsert_def unlink_def LOS_ListDelete_def
  LOS_ListDelInit_def LOS_ListEmpty_def Let_def

section \<open>The abstract list of a ring\<close>

text \<open>\<open>dseg h a xs b\<close>: from \<open>a\<close>, through \<open>xs\<close>, to \<open>b\<close>,
  linked both ways.\<close>

fun dseg :: "'a dlheap \<Rightarrow> 'a \<Rightarrow> 'a list \<Rightarrow> 'a \<Rightarrow> bool" where
  "dseg h a [] b \<longleftrightarrow> pstNext h a = Some b \<and> pstPrev h b = Some a"
| "dseg h a (x # xs) b \<longleftrightarrow> pstNext h a = Some x \<and> pstPrev h x = Some a \<and> dseg h x xs b"

definition is_dlist :: "'a dlheap \<Rightarrow> 'a \<Rightarrow> 'a list \<Rightarrow> bool" where
  "is_dlist h head xs \<longleftrightarrow> dseg h head xs head \<and> distinct (head # xs)"

lemma dseg_append [simp]:
  "dseg h a (xs @ y # ys) b \<longleftrightarrow> dseg h a xs y \<and> dseg h y ys b"
  by (induction xs arbitrary: a) auto

lemma dseg_next: "dseg h a xs b \<Longrightarrow> pstNext h a = Some (hd (xs @ [b]))"
  by (cases xs) auto

lemma dseg_prev: "dseg h a xs b \<Longrightarrow> pstPrev h b = Some (last (a # xs))"
  by (induction xs arbitrary: a) auto

text \<open>
  A segment only depends on the next pointers of \<open>a # xs\<close> and the previous pointers of
  \<open>xs @ [b]\<close>: writing the others keeps it.
\<close>

lemma dseg_cong:
  assumes "\<And>x. x \<in> set (a # xs) \<Longrightarrow> pstNext h' x = pstNext h x"
    and "\<And>x. x \<in> set (xs @ [b]) \<Longrightarrow> pstPrev h' x = pstPrev h x"
  shows "dseg h' a xs b = dseg h a xs b"
  using assms by (induction xs arbitrary: a) auto

lemma dseg_set_next [simp]: "n \<notin> set (a # xs) \<Longrightarrow> dseg (set_next n v h) a xs b = dseg h a xs b"
  by (rule dseg_cong) (auto simp: set_next_def)

lemma dseg_set_prev [simp]: "n \<notin> set (xs @ [b]) \<Longrightarrow> dseg (set_prev n v h) a xs b = dseg h a xs b"
  by (rule dseg_cong) (auto simp: set_prev_def)

lemma set_next_sel [simp]:
  "pstNext (set_next n v h) x = (if x = n then v else pstNext h x)"
  "pstPrev (set_next n v h) = pstPrev h"
  "pstPrev (set_prev n v h) x = (if x = n then v else pstPrev h x)"
  "pstNext (set_prev n v h) = pstNext h"
  by (simp_all add: set_next_def set_prev_def)


section \<open>One insertion, one removal\<close>

text \<open>
  Inserting \<open>node\<close> after the start of a segment: the segment gains it, and only the next
  pointers of \<open>p\<close> and \<open>node\<close>, and the previous pointers of \<open>node\<close> and of
  the old successor, change.
\<close>

lemma ListAdd_seg:
  assumes seg: "dseg h p ys b" and d: "distinct (ys @ [b])"
    and fresh: "node \<notin> set ys" "node \<noteq> p" "node \<noteq> b" and p: "p \<notin> set ys"
  shows "\<exists>h'. LOS_ListAdd p node h = Some h' \<and> dseg h' p (node # ys) b
    \<and> (\<forall>x. x \<noteq> p \<and> x \<noteq> node \<longrightarrow> pstNext h' x = pstNext h x)
    \<and> (\<forall>x. x \<noteq> node \<and> x \<noteq> hd (ys @ [b]) \<longrightarrow> pstPrev h' x = pstPrev h x)"
proof -
  let ?n = "hd (ys @ [b])"
  let ?h = "set_next p (Some node) (set_prev ?n (Some node) (set_prev node (Some p)
              (set_next node (Some ?n) h)))"
  have run: "LOS_ListAdd p node h = Some ?h"
    using dseg_next [OF seg] fresh by (simp add: LOS_ListAdd_def Let_def)
  have "dseg ?h node ys b"
    using seg d fresh p by (cases ys) (auto simp: eq_commute)
  then have "dseg ?h p (node # ys) b"
    using fresh by (cases ys) auto
  with run show ?thesis
    by (intro exI [of _ ?h]) auto
qed

lemma unlink_seg:
  assumes seg: "dseg h p (n # ys) b" and d: "distinct (n # ys)" "b \<notin> set (n # ys)"
    and p: "p \<notin> set (n # ys)"
  shows "\<exists>h'. unlink n h = Some h' \<and> dseg h' p ys b
    \<and> pstNext h' n = pstNext h n \<and> pstPrev h' n = pstPrev h n
    \<and> (\<forall>x. x \<noteq> p \<longrightarrow> pstNext h' x = pstNext h x)
    \<and> (\<forall>x. x \<noteq> hd (ys @ [b]) \<longrightarrow> pstPrev h' x = pstPrev h x)"
proof -
  let ?m = "hd (ys @ [b])"
  let ?h = "set_next p (Some ?m) (set_prev ?m (Some p) h)"
  have "n \<noteq> ?m" using d by (cases ys) auto
  then have run: "unlink n h = Some ?h"
    using seg dseg_next [of h n ys b] by (simp add: unlink_def Let_def)
  have "dseg ?h p ys b"
    using seg d p by (cases ys) auto
  with run d p \<open>n \<noteq> ?m\<close> show ?thesis
    by (intro exI [of _ ?h]) auto
qed

section \<open>The operations on a whole list\<close>

lemma is_dlist_split:
  "is_dlist h head (xs @ ys) \<longleftrightarrow>
     dseg h head (xs @ ys) head \<and> distinct (head # xs @ ys)"
  by (simp add: is_dlist_def)

lemma is_dlist_ListAdd:
  assumes l: "is_dlist h head (xs @ ys)" and pos: "p = last (head # xs)"
    and fresh: "node \<notin> set (head # xs @ ys)"
  shows "\<exists>h'. LOS_ListAdd p node h = Some h' \<and> is_dlist h' head (xs @ node # ys)
    \<and> (\<forall>x. x \<notin> set (node # head # xs @ ys) \<longrightarrow>
          pstNext h' x = pstNext h x \<and> pstPrev h' x = pstPrev h x)"
proof (cases xs rule: rev_cases)
  case Nil
  with l fresh have "dseg h head ys head" "distinct (ys @ [head])" "node \<notin> set ys"
    "node \<noteq> head" "head \<notin> set ys" by (auto simp: is_dlist_def)
  from ListAdd_seg [OF this(1,2,3,4) this(4,5)] obtain h' where
    h': "LOS_ListAdd head node h = Some h'" "dseg h' head (node # ys) head"
    and f1: "\<forall>x. x \<noteq> head \<and> x \<noteq> node \<longrightarrow> pstNext h' x = pstNext h x"
    and f2: "\<forall>x. x \<noteq> node \<and> x \<noteq> hd (ys @ [head]) \<longrightarrow> pstPrev h' x = pstPrev h x" by blast
  have "hd (ys @ [head]) \<in> set (head # ys)" by (cases ys) auto
  with h' f1 f2 Nil pos l fresh show ?thesis
    by (intro exI [of _ h']) (auto simp: is_dlist_def)
next
  case (snoc us q)
  with l have segs: "dseg h head us q" "dseg h q ys head"
    and d: "distinct (head # us @ q # ys)" by (auto simp: is_dlist_def)
  have p: "p = q" using pos snoc by simp
  from d fresh snoc have "distinct (ys @ [head])" "node \<notin> set ys" "node \<noteq> q" "node \<noteq> head"
    "q \<notin> set ys" by auto
  from ListAdd_seg [OF segs(2) this] obtain h' where
    h': "LOS_ListAdd q node h = Some h'" "dseg h' q (node # ys) head"
    and f1: "\<forall>x. x \<noteq> q \<and> x \<noteq> node \<longrightarrow> pstNext h' x = pstNext h x"
    and f2: "\<forall>x. x \<noteq> node \<and> x \<noteq> hd (ys @ [head]) \<longrightarrow> pstPrev h' x = pstPrev h x" by blast
  have m: "hd (ys @ [head]) \<in> set (head # ys)" by (cases ys) auto
  have g2: "pstPrev h' x = pstPrev h x" if "x \<notin> set (node # head # ys)" for x
    using f2 m that by (metis list.set_intros(1) list.set_intros(2))
  have "dseg h' head us q = dseg h head us q"
  proof (rule dseg_cong)
    fix x assume "x \<in> set (head # us)"
    then have "x \<noteq> q" "x \<noteq> node" using d fresh snoc by auto
    then show "pstNext h' x = pstNext h x" by (simp add: f1)
  next
    fix x assume "x \<in> set (us @ [q])"
    then have "x \<notin> set (node # head # ys)" using d fresh snoc by auto
    then show "pstPrev h' x = pstPrev h x" by (rule g2)
  qed
  with h' segs(1) have seg: "dseg h' head (us @ q # node # ys) head" by simp
  have fr: "pstNext h' x = pstNext h x \<and> pstPrev h' x = pstPrev h x"
    if "x \<notin> set (node # head # xs @ ys)" for x
    using that snoc f1 g2 [of x] by simp
  from h'(1) seg fr d fresh snoc p show ?thesis
    by (intro exI [of _ h']) (auto simp: is_dlist_def)
qed

lemma is_dlist_unlink:
  assumes l: "is_dlist h head (xs @ n # ys)"
  shows "\<exists>h'. unlink n h = Some h' \<and> is_dlist h' head (xs @ ys)
    \<and> pstNext h' n = pstNext h n \<and> pstPrev h' n = pstPrev h n
    \<and> (\<forall>x. x \<notin> set (head # xs @ n # ys) \<longrightarrow>
          pstNext h' x = pstNext h x \<and> pstPrev h' x = pstPrev h x)"
proof (cases xs rule: rev_cases)
  case Nil
  with l have "dseg h head (n # ys) head" "distinct (n # ys)" "head \<notin> set (n # ys)"
    by (auto simp: is_dlist_def)
  from unlink_seg [OF this this(3)] obtain h' where
    h': "unlink n h = Some h'" "dseg h' head ys head"
    "pstNext h' n = pstNext h n" "pstPrev h' n = pstPrev h n"
    and f1: "\<forall>x. x \<noteq> head \<longrightarrow> pstNext h' x = pstNext h x"
    and f2: "\<forall>x. x \<noteq> hd (ys @ [head]) \<longrightarrow> pstPrev h' x = pstPrev h x" by blast
  have m: "hd (ys @ [head]) \<in> set (head # ys)" by (cases ys) auto
  have g2: "pstPrev h' x = pstPrev h x" if "x \<notin> set (head # ys)" for x
    using f2 m that by metis
  from h' f1 g2 Nil l show ?thesis
    by (intro exI [of _ h']) (auto simp: is_dlist_def)
next
  case (snoc us q)
  with l have segs: "dseg h head us q" "dseg h q (n # ys) head"
    and d: "distinct (head # us @ q # n # ys)" by (auto simp: is_dlist_def)
  then have "distinct (n # ys)" "head \<notin> set (n # ys)" "q \<notin> set (n # ys)" by auto
  from unlink_seg [OF segs(2) this] obtain h' where
    h': "unlink n h = Some h'" "dseg h' q ys head"
    "pstNext h' n = pstNext h n" "pstPrev h' n = pstPrev h n"
    and f1: "\<forall>x. x \<noteq> q \<longrightarrow> pstNext h' x = pstNext h x"
    and f2: "\<forall>x. x \<noteq> hd (ys @ [head]) \<longrightarrow> pstPrev h' x = pstPrev h x" by blast
  have m: "hd (ys @ [head]) \<in> set (head # ys)" by (cases ys) auto
  have g2: "pstPrev h' x = pstPrev h x" if "x \<notin> set (head # ys)" for x
    using f2 m that by metis
  have "dseg h' head us q = dseg h head us q"
  proof (rule dseg_cong)
    fix x assume "x \<in> set (head # us)"
    then have "x \<noteq> q" using d by auto
    then show "pstNext h' x = pstNext h x" by (simp add: f1)
  next
    fix x assume "x \<in> set (us @ [q])"
    then have "x \<notin> set (head # ys)" using d by auto
    then show "pstPrev h' x = pstPrev h x" by (rule g2)
  qed
  with h' segs(1) have seg: "dseg h' head (us @ q # ys) head" by simp
  have fr: "pstNext h' x = pstNext h x \<and> pstPrev h' x = pstPrev h x"
    if "x \<notin> set (head # xs @ n # ys)" for x
    using that snoc f1 g2 [of x] by simp
  from h'(1,3,4) seg fr d snoc show ?thesis
    by (intro exI [of _ h']) (auto simp: is_dlist_def)
qed

lemma is_dlist_ListInit: "is_dlist (LOS_ListInit l h) l []"
  by (simp add: is_dlist_def LOS_ListInit_def)

lemma is_dlist_TailInsert:
  assumes l: "is_dlist h head xs" and fresh: "node \<notin> set (head # xs)"
  shows "\<exists>h'. LOS_ListTailInsert head node h = Some h' \<and> is_dlist h' head (xs @ [node])"
proof -
  have "pstPrev h head = Some (last (head # xs))"
    using l dseg_prev by (fastforce simp: is_dlist_def)
  then show ?thesis
    using is_dlist_ListAdd [of h head xs "[]" "last (head # xs)" node] l fresh
    by (auto simp: LOS_ListTailInsert_def)
qed

lemma is_dlist_HeadInsert:
  assumes "is_dlist h head xs" "node \<notin> set (head # xs)"
  shows "\<exists>h'. LOS_ListHeadInsert head node h = Some h' \<and> is_dlist h' head (node # xs)"
  using is_dlist_ListAdd [of h head "[]" xs head node] assms
  by (auto simp: LOS_ListHeadInsert_def)

lemma is_dlist_Delete:
  assumes l: "is_dlist h head (xs @ n # ys)"
  shows "\<exists>h'. LOS_ListDelete n h = Some h' \<and> is_dlist h' head (xs @ ys)
    \<and> pstNext h' n = None \<and> pstPrev h' n = None"
proof -
  from is_dlist_unlink [OF l] obtain h1 where
    u: "unlink n h = Some h1" "is_dlist h1 head (xs @ ys)" by blast
  let ?h = "set_prev n None (set_next n None h1)"
  have "n \<notin> set (head # xs @ ys)" using l by (auto simp: is_dlist_def)
  then have "is_dlist ?h head (xs @ ys)"
    using u(2) by (simp add: is_dlist_def)
  with u(1) show ?thesis
    by (intro exI [of _ ?h]) (simp add: LOS_ListDelete_def)
qed

lemma is_dlist_Empty: "is_dlist h head xs \<Longrightarrow> LOS_ListEmpty head h \<longleftrightarrow> xs = []"
  by (cases xs) (auto simp: is_dlist_def LOS_ListEmpty_def)

lemma is_dlist_First: "is_dlist h head (x # xs) \<Longrightarrow> pstNext h head = Some x"
  by (simp add: is_dlist_def)

lemma walk_dseg:
  "dseg h a xs head \<Longrightarrow> head \<notin> set xs \<Longrightarrow> length xs < fuel \<Longrightarrow>
     pstNext h a = Some n \<Longrightarrow> walk fuel head n h = Some xs"
proof (induction xs arbitrary: a fuel n)
  case Nil
  then show ?case by (cases fuel) auto
next
  case (Cons x xs)
  then obtain f where f: "fuel = Suc f" by (cases fuel) auto
  have seg: "dseg h x xs head" and n: "n = x" using Cons.prems by auto
  obtain m where m: "pstNext h x = Some m" using dseg_next [OF seg] by simp
  have "walk f head m h = Some xs"
    using Cons.IH [OF seg _ _ m] Cons.prems f by simp
  moreover have "x \<noteq> head" using Cons.prems(2) by auto
  ultimately show ?case using f n m by simp
qed

lemma is_dlist_for_each:
  "is_dlist h head xs \<Longrightarrow> length xs < fuel \<Longrightarrow> LOS_DL_LIST_FOR_EACH fuel head h = Some xs"
  using walk_dseg [of h head xs head fuel] dseg_next [of h head xs head]
  by (auto simp: LOS_DL_LIST_FOR_EACH_def is_dlist_def)

end
