(* ===== verification/Los_SchedProps.thy ===== *)
theory Los_SchedProps
  imports Los_Example Los_List
begin

text \<open>
  The properties of the list primitives, the timer lists, the clock and the scheduler, each
  with a witness on the example state where it has hypotheses.
\<close>

section \<open>Lists\<close>

text \<open>
  C27. The pointer operations of los_list.h on a well-formed ring are the list operations of the
  other theories: tail insertion appends, head insertion prepends, and deletion takes out
  exactly the node and resets its pointers; none of them runs into a NULL.
\<close>

theorem dlist_operations:
  assumes "is_dlist h head (xs @ n # ys)" "node \<notin> set (head # xs @ n # ys)"
  shows "\<exists>h1 h2 h3. LOS_ListTailInsert head node h = Some h1 \<and> is_dlist h1 head ((xs @ n # ys) @ [node])
    \<and> LOS_ListHeadInsert head node h = Some h2 \<and> is_dlist h2 head (node # xs @ n # ys)
    \<and> LOS_ListDelete n h = Some h3 \<and> is_dlist h3 head (xs @ ys)
    \<and> pstNext h3 n = None \<and> pstPrev h3 n = None"
  using is_dlist_TailInsert [OF assms] is_dlist_HeadInsert [OF assms] is_dlist_Delete [OF assms(1)]
  by blast

theorem dlist_operations_witness:
  defines "h \<equiv> \<lparr>pstPrev = (\<lambda>x. None)(0 := Some 2, 1 := Some 0, 2 := Some (1::nat)),
                pstNext = (\<lambda>x. None)(0 := Some 1, 1 := Some 2, 2 := Some 0)\<rparr>"
  shows "\<exists>h3. LOS_ListDelete 1 h = Some h3 \<and> is_dlist h3 0 [2]"
  using dlist_operations [of h 0 "[]" 1 "[2]" 3] by (auto simp: h_def is_dlist_def)

section \<open>The timer lists\<close>

text \<open>
  Inserting a node into a sorted timer list never runs off the front; the result is sorted
  by due time and holds the old nodes and the new one.
\<close>

theorem sort_link_insert:
  assumes "sorted_link rt xs" "n \<notin> set xs" "distinct xs"
  shows "\<exists>ys. OsAddNode2SortLink rt n xs = Some ys \<and> sorted_link rt ys \<and> distinct ys
    \<and> set ys = insert n (set xs) \<and> removeAll n ys = xs"
  using AddNode_split [OF assms(1), of n] assms by (force intro: order_trans simp: removeAll_id)

theorem sort_link_insert_witness:
  "\<exists>ys. OsAddNode2SortLink ((\<lambda>n. 9)(TaskNode 1 := 3, TaskNode 2 := 7)) (TaskNode 3) [TaskNode 1, TaskNode 2]
     = Some ys \<and> sorted_link ((\<lambda>n. 9)(TaskNode 1 := 3, TaskNode 2 := 7)) ys"
  using sort_link_insert [of "(\<lambda>n. 9)(TaskNode 1 := 3, TaskNode 2 := 7)" "[TaskNode 1, TaskNode 2]" "TaskNode 3"]
  by auto

text \<open>
  C6. The scan of the tick handler: with the time it reads, exactly the tasks due leave the
  timer list. Each is then neither pending nor delayed, is ready unless it is suspended, and
  carries the timeout flag if it was pending; every other task is untouched, the invariants
  hold again, and a reschedule is asked for exactly when some task became ready.
\<close>

theorem scan_wakes_exactly_due:
  assumes "sched_ok s" "timer_ok s" "OsGetCurrSchedTimeCycle s = (now, s1)"
    and "OsSchedScanTimerList s = (need, s')"
  shows "sched_ok s' \<and> timer_ok s'
    \<and> g_taskSortLink s' = filter (\<lambda>n. responseTime s n > now) (g_taskSortLink s)
    \<and> (need \<longleftrightarrow> (\<exists>t. due now s t \<and> \<not> has (st s t) (flag SUSPEND)))
    \<and> (\<forall>t. if due now s t then woken_from (st s t) (st s' t) else tcb s' t = tcb s t)"
proof (cases "g_taskSortLink s = []")
  case True
  then show ?thesis using assms by (simp add: OsSchedScanTimerList_def due_def)
next
  case False
  have s1: "s1 = s\<lparr>tk := snd (LOS_SysCycleGet (tk s))\<rparr>"
    using assms(3) by (simp add: GetCurrSchedTimeCycle_eq)
  have "waiting s1 t = waiting s t" for t by (simp add: s1 waiting_def)
  then have "sched_ok s1" "timer_ok s1" using assms(1,2) by (simp_all add: s1 timer_ok_def)
  note e = scan_timer_effect [OF this, where now = now and need = False]
  have "due now s1 t = due now s t" for t by (simp add: due_def s1)
  moreover have scan: "scan_timer now False s1 = (need, s')"
    using assms(3,4) False by (simp add: OsSchedScanTimerList_def)
  moreover have "g_taskCBArray s1 = g_taskCBArray s" "g_taskSortLink s1 = g_taskSortLink s"
    "responseTime s1 = responseTime s" by (simp_all add: s1)
  ultimately show ?thesis using e by (simp only: scan fst_conv snd_conv) simp
qed

theorem scan_wakes_exactly_due_witness:
  "woken_from (flag PEND OR flag PEND_TIME) (st (snd (OsSchedScanTimerList ex_sched)) 3)"
proof -
  obtain now s1 where t: "OsGetCurrSchedTimeCycle ex_sched = (now, s1)" by fastforce
  obtain need s' where r: "OsSchedScanTimerList ex_sched = (need, s')" by fastforce
  have "now = 1000"
    using t by (simp add: GetCurrSchedTimeCycle_eq LOS_SysCycleGet_def getCycle_def ex_tick_def
        ex_timer_def tick_assert_def)
  then have "due now ex_sched 3" by (simp add: due_def)
  moreover have "if due now ex_sched 3 then woken_from (st ex_sched 3) (st s' 3)
      else tcb s' 3 = tcb ex_sched 3"
    using scan_wakes_exactly_due [OF ex_sched_ok ex_timer_ok t r] by blast
  ultimately show ?thesis using r by (simp add: ex_tasks_def)
qed

section \<open>The scheduler\<close>

text \<open>
  C5. After a task switch outside an interrupt, the running task is at least as urgent as every
  ready task; the idle task runs only when no other task is ready.
\<close>

theorem switch_runs_most_urgent:
  assumes "kern_ok s" "\<not> intActive s" "s' = ArchTaskSchedule s"
    and "has (st s' u) (flag READY)" "\<not> is_idle s' u"
  shows "\<not> is_idle s' (runTask s') \<and> priority (tcb s' (runTask s')) \<le> priority (tcb s' u)"
  using run_ok_ArchTaskSchedule(2) [of s u] assms kern_okD [OF assms(1)] by simp

lemma ex_switch_out:
  "has (st (switch_out (ex_sched\<lparr>g_sysNeedSched := False\<rparr>)) 1) (flag READY)"
  "OsGetTopTask (switch_out (ex_sched\<lparr>g_sysNeedSched := False\<rparr>)) = 2"
proof -
  show "has (st (switch_out (ex_sched\<lparr>g_sysNeedSched := False\<rparr>)) 1) (flag READY)"
    by (simp add: switch_out_def GetCurrSchedTimeCycle_eq Let_def ex_tasks_def blocked_status EnQueue_tcb)
  show "OsGetTopTask (switch_out (ex_sched\<lparr>g_sysNeedSched := False\<rparr>)) = 2"
    by (simp add: OsGetTopTask_def switch_out_def GetCurrSchedTimeCycle_eq Let_def ex_tasks_def
        blocked_status EnQueue_bitmap EnQueue_lists ex_lists_def is_idle_def prior_bit_def
        PRIQUEUE_PRIOR0_BIT_def CLZ_def)
qed

theorem switch_runs_most_urgent_witness:
  "priority (tcb (ArchTaskSchedule ex_sched) (runTask (ArchTaskSchedule ex_sched))) \<le> 10"
proof -
  have "has (st (ArchTaskSchedule ex_sched) 1) (flag READY)" "\<not> is_idle (ArchTaskSchedule ex_sched) 1"
    "priority (tcb (ArchTaskSchedule ex_sched) 1) = 10"
    using ex_switch_out
    by (simp_all add: ArchTaskSchedule_frame switch_in_status is_idle_def ex_tasks_def)
  then show ?thesis using switch_runs_most_urgent [OF ex_kern_ok _ refl, of 1] by simp
qed

text \<open>
  C4. A reschedule keeps the invariant: the ready queues, the bitmap and the wait lists agree
  with the tasks' status words, the task that runs is in no ready queue, and no wait list changes.
\<close>

theorem schedule_keeps_invariant:
  assumes "kern_ok s" "wait_list l"
  shows "kern_ok (LOS_Schedule s) \<and> lists (LOS_Schedule s) l = lists s l"
  using assms by (simp add: kern_ok_Schedule Schedule_wait_lists)

theorem schedule_keeps_invariant_witness:
  "kern_ok (LOS_Schedule ex_sched) \<and> lists (LOS_Schedule ex_sched) (SemList 0) = [3]"
  using schedule_keeps_invariant [OF ex_kern_ok, of "SemList 0"] by (simp add: ex_lists_def)

text \<open>
  Putting a task that is in no list into the ready state keeps the invariant; the task goes
  to the front of the queue of its priority when slice is left, and behind it with a new slice
  otherwise. Taking a ready task out again leaves it in no list.
\<close>

theorem enqueue_dequeue:
  assumes "sched_ok s" "unlinked s t" "unat (priority (tcb s t)) < 32" "\<not> is_idle s t"
  shows "sched_ok (OsSchedTaskEnQueue t s)
    \<and> lists (OsSchedTaskEnQueue t s) (PriQueue (unat (priority (tcb s t)))) =
        (if sint (timeSlice (tcb s t)) > sint (g_schedTimeSliceMin s)
         then t # lists s (PriQueue (unat (priority (tcb s t))))
         else lists s (PriQueue (unat (priority (tcb s t)))) @ [t])
    \<and> sched_ok (OsSchedTaskDeQueue t (OsSchedTaskEnQueue t s))
    \<and> unlinked (OsSchedTaskDeQueue t (OsSchedTaskEnQueue t s)) t"
proof -
  have ok: "sched_ok (OsSchedTaskEnQueue t s)" by (rule sched_ok_EnQueue [OF assms(1-3)])
  moreover have "unlinked (OsSchedTaskDeQueue t (OsSchedTaskEnQueue t s)) t"
    using assms(4) by (intro DeQueue_unlinked [OF ok]) (simp_all add: EnQueue_tcb is_idle_def)
  ultimately show ?thesis
    using assms(4) sched_ok_DeQueue [OF ok] by (simp add: EnQueue_lists)
qed

theorem enqueue_dequeue_witness:
  "sched_ok (OsSchedTaskEnQueue 4 ex_sched) \<and> unlinked (OsSchedTaskDeQueue 4 (OsSchedTaskEnQueue 4 ex_sched)) 4"
  using enqueue_dequeue [of ex_sched 4] by (simp add: ex_sched_ok ex_unlinked ex_tasks_def is_idle_def)

end
