(* ===== verification/Los_Pool.thy ===== *)
theory Los_Pool
  imports Main
begin

text \<open>
  The pools of control blocks. Every component of the kernel keeps a fixed array of blocks and
  a list of the unused ones: creating takes the first, deleting puts one back at the front.
  The locale states what a provider promises of the two; its clients are conservation (no block
  is lost, doubled, or handed out twice) and that creation fails only when all are in use.
\<close>

locale slot_pool =
  fixes free :: "'p \<Rightarrow> nat list"
    and in_use :: "'p \<Rightarrow> nat \<Rightarrow> bool"
    and cap :: "'p \<Rightarrow> nat"
    and take_slot :: "nat \<Rightarrow> 'p \<Rightarrow> 'p \<Rightarrow> bool"   \<comment> \<open>a create took the block\<close>
    and give_slot :: "nat \<Rightarrow> 'p \<Rightarrow> 'p \<Rightarrow> bool"   \<comment> \<open>a delete gave it back\<close>
  assumes take_free: "take_slot i p q \<Longrightarrow> free p = i # free q"
    and take_use: "take_slot i p q \<Longrightarrow> in_use q j = (j = i \<or> in_use p j)"
    and take_cap: "take_slot i p q \<Longrightarrow> cap q = cap p"
    and give_free: "give_slot i p q \<Longrightarrow> free q = i # free p"
    and give_use: "give_slot i p q \<Longrightarrow> in_use p i \<and> i < cap p \<and> in_use q j = (j \<noteq> i \<and> in_use p j)"
    and give_cap: "give_slot i p q \<Longrightarrow> cap q = cap p"
begin

definition pool_ok :: "'p \<Rightarrow> bool" where
  "pool_ok p \<longleftrightarrow> distinct (free p) \<and> (\<forall>i. i \<in> set (free p) \<longleftrightarrow> i < cap p \<and> \<not> in_use p i)"

lemma take_ok:
  assumes "pool_ok p" "take_slot i p q"
  shows "pool_ok q" "i < cap p" "\<not> in_use p i"
  using assms take_free [OF assms(2)] take_use [OF assms(2)] take_cap [OF assms(2)]
  by (auto simp: pool_ok_def)

lemma give_ok:
  assumes "pool_ok p" "give_slot i p q"
  shows "pool_ok q"
  using assms give_free [OF assms(2)] give_use [OF assms(2)] give_cap [OF assms(2)]
  by (auto simp: pool_ok_def)

text \<open>The blocks in use and the free ones add up to the pool.\<close>

lemma pool_conservation:
  assumes "pool_ok p"
  shows "length (free p) + card {i. i < cap p \<and> in_use p i} = cap p"
proof -
  have f: "set (free p) = {i. i < cap p \<and> \<not> in_use p i}" using assms by (auto simp: pool_ok_def)
  let ?A = "{i. i < cap p \<and> \<not> in_use p i}" and ?B = "{i. i < cap p \<and> in_use p i}"
  have "card (?A \<union> ?B) = card ?A + card ?B"
    by (rule card_Un_disjoint) auto
  moreover have "?A \<union> ?B = {..<cap p}" by auto
  ultimately have "cap p = card ?A + card ?B" by simp
  moreover have "length (free p) = card (set (free p))"
    using assms by (simp add: pool_ok_def distinct_card)
  ultimately show ?thesis using f by simp
qed

lemma exhausted_iff:
  assumes "pool_ok p"
  shows "free p = [] \<longleftrightarrow> (\<forall>i<cap p. in_use p i)"
  using assms by (metis pool_ok_def set_empty equals0I empty_iff)

end

end
