(* ===== verification/Los_Sem.thy ===== *)
theory Los_Sem
  imports Los_Example Los_Pool
begin

text \<open>
  Semaphores (kernel/src/los_sem.c). The state is the array of control blocks and the list of
  unused ones; the tasks that wait on semaphore \<open>i\<close> are the scheduler's list \<open>SemList i\<close>.
  The memory for the array comes from \<open>LOS_MemAlloc\<close>, whose success is an argument.
  \<open>LOS_SemPend\<close> is two definitions: up to the reschedule, and after the task runs again.
\<close>

section \<open>The control blocks and the operations\<close>

definition LOSCFG_BASE_IPC_SEM_LIMIT :: "'a::len word" where "LOSCFG_BASE_IPC_SEM_LIMIT = 6"
definition OS_SEM_UNUSED :: u16 where "OS_SEM_UNUSED = 0"
definition OS_SEM_USED :: u16 where "OS_SEM_USED = 1"
definition OS_SEM_COUNTING_MAX_COUNT :: u16 where "OS_SEM_COUNTING_MAX_COUNT = 0xFFFF"
definition OS_SEM_BINARY_MAX_COUNT :: u16 where "OS_SEM_BINARY_MAX_COUNT = 1"

record LosSemCB =
  semStat :: u16
  semCount :: u16
  maxSemCount :: u16
  semID :: u16

record sem_state =
  g_allSem :: "nat \<Rightarrow> LosSemCB"
  g_unusedSemList :: "nat list"

definition GET_SEM :: "u32 \<Rightarrow> nat" where "GET_SEM h = unat h"

definition upd_sem :: "nat \<Rightarrow> (LosSemCB \<Rightarrow> LosSemCB) \<Rightarrow> sem_state \<Rightarrow> sem_state" where
  "upd_sem i f p = p\<lparr>g_allSem := (g_allSem p)(i := f (g_allSem p i))\<rparr>"

definition OsSemInit :: "bool \<Rightarrow> sem_state \<Rightarrow> u32 \<times> sem_state" where
  "OsSemInit mem_ok p =
     (let p = p\<lparr>g_unusedSemList := []\<rparr>
      in if (LOSCFG_BASE_IPC_SEM_LIMIT :: u32) = 0 then (LOS_ERRNO_SEM_MAXNUM_ZERO, p)
         else if \<not> mem_ok then (LOS_ERRNO_SEM_NO_MEMORY, p)
         else (LOS_OK,
           fold (\<lambda>index p. (upd_sem index
                    (\<lambda>c. c\<lparr>semID := of_nat index, semStat := OS_SEM_UNUSED\<rparr>) p)
                   \<lparr>g_unusedSemList := g_unusedSemList p @ [index]\<rparr>)
             [0..<unat (LOSCFG_BASE_IPC_SEM_LIMIT :: u32)] p))"

text \<open>The handle written is the second result; \<open>semHandle\<close> says the pointer is not NULL.\<close>

definition OsSemCreate :: "u16 \<Rightarrow> u16 \<Rightarrow> bool \<Rightarrow> sem_state \<times> sched
    \<Rightarrow> u32 \<times> u32 option \<times> sem_state \<times> sched" where
  "OsSemCreate count maxCount semHandle = (\<lambda>(p, s).
     if \<not> semHandle then (LOS_ERRNO_SEM_PTR_NULL, None, p, s)
     else if count > maxCount then (LOS_ERRNO_SEM_OVERFLOW, None, p, s)
     else case g_unusedSemList p of
       [] \<Rightarrow> (LOS_ERRNO_SEM_ALL_BUSY, None, p, s)
     | i # rest \<Rightarrow>
         (let p1 = upd_sem i (\<lambda>c. c\<lparr>semCount := count, semStat := OS_SEM_USED,
                                 maxSemCount := maxCount\<rparr>) (p\<lparr>g_unusedSemList := rest\<rparr>)
          in (LOS_OK, Some (ucast (semID (g_allSem p1 i))), p1,
              upd_list (SemList i) (\<lambda>_. []) s)))"

definition LOS_SemCreate :: "u16 \<Rightarrow> bool \<Rightarrow> sem_state \<times> sched
    \<Rightarrow> u32 \<times> u32 option \<times> sem_state \<times> sched" where
  "LOS_SemCreate count semHandle = OsSemCreate count OS_SEM_COUNTING_MAX_COUNT semHandle"

definition LOS_BinarySemCreate :: "u16 \<Rightarrow> bool \<Rightarrow> sem_state \<times> sched
    \<Rightarrow> u32 \<times> u32 option \<times> sem_state \<times> sched" where
  "LOS_BinarySemCreate count semHandle = OsSemCreate count OS_SEM_BINARY_MAX_COUNT semHandle"

definition LOS_SemDelete :: "u32 \<Rightarrow> sem_state \<times> sched \<Rightarrow> u32 \<times> sem_state \<times> sched" where
  "LOS_SemDelete semHandle = (\<lambda>(p, s).
     if semHandle \<ge> LOSCFG_BASE_IPC_SEM_LIMIT then (LOS_ERRNO_SEM_INVALID, p, s)
     else
       (let i = GET_SEM semHandle
        in if semStat (g_allSem p i) = OS_SEM_UNUSED then (LOS_ERRNO_SEM_INVALID, p, s)
           else if lists s (SemList i) \<noteq> [] then (LOS_ERRNO_SEM_PENDED, p, s)
           else (LOS_OK, upd_sem i (\<lambda>c. c\<lparr>semStat := OS_SEM_UNUSED\<rparr>)
                           (p\<lparr>g_unusedSemList := i # g_unusedSemList p\<rparr>), s)))"

definition OsSemValidCheck :: "nat \<Rightarrow> sem_state \<Rightarrow> sched \<Rightarrow> u32" where
  "OsSemValidCheck i p s =
     (if semStat (g_allSem p i) = OS_SEM_UNUSED then LOS_ERRNO_SEM_INVALID
      else if intActive s then LOS_ERRNO_SEM_PEND_INTERR
      else if g_losTaskLock s \<noteq> 0 then LOS_ERRNO_SEM_PEND_IN_LOCK
      else if has (st s (runTask s)) (flag SYSTEM_TASK) then LOS_ERRNO_SEM_PEND_IN_SYSTEM_TASK
      else LOS_OK)"

definition LOS_SemPend :: "u32 \<Rightarrow> u32 \<Rightarrow> sem_state \<times> sched
    \<Rightarrow> pend_result \<times> sem_state \<times> sched" where
  "LOS_SemPend semHandle timeout = (\<lambda>(p, s).
     if semHandle \<ge> LOSCFG_BASE_IPC_SEM_LIMIT then (Returned LOS_ERRNO_SEM_INVALID, p, s)
     else
       (let i = GET_SEM semHandle;
            retErr = OsSemValidCheck i p s;
            run = runTask s
        in if retErr \<noteq> 0 then (Returned retErr, p, s)
           else if semCount (g_allSem p i) > 0
           then (Returned LOS_OK, upd_sem i (\<lambda>c. c\<lparr>semCount := semCount c - 1\<rparr>) p, s)
           else if timeout = 0 then (Returned LOS_ERRNO_SEM_UNAVAILABLE, p, s)
           else (Blocked, p,
                 LOS_Schedule (OsSchedTaskWait (SemList i) timeout
                   (upd_tcb run (\<lambda>c. c\<lparr>taskSem := Some i\<rparr>) s)))))"

text \<open>After the sleep, in the task \<open>t\<close> that called.\<close>

definition LOS_SemPend_resume :: "nat \<Rightarrow> sched \<Rightarrow> u32 \<times> sched" where
  "LOS_SemPend_resume t s =
     (if has (st s t) (flag TIMEOUT)
      then (LOS_ERRNO_SEM_TIMEOUT, status_clr t (flag TIMEOUT) s)
      else (LOS_OK, s))"

definition LOS_SemPost :: "u32 \<Rightarrow> sem_state \<times> sched \<Rightarrow> u32 \<times> sem_state \<times> sched" where
  "LOS_SemPost semHandle = (\<lambda>(p, s).
     if semHandle \<ge> LOSCFG_BASE_IPC_SEM_LIMIT then (LOS_ERRNO_SEM_INVALID, p, s)
     else
       (let i = GET_SEM semHandle
        in if semStat (g_allSem p i) = OS_SEM_UNUSED then (LOS_ERRNO_SEM_INVALID, p, s)
           else if maxSemCount (g_allSem p i) = semCount (g_allSem p i)
           then (LOS_ERRNO_SEM_OVERFLOW, p, s)
           else case lists s (SemList i) of
             t # _ \<Rightarrow> (LOS_OK, p,
               LOS_Schedule (OsSchedTaskWake t (upd_tcb t (\<lambda>c. c\<lparr>taskSem := None\<rparr>) s)))
           | [] \<Rightarrow> (LOS_OK, upd_sem i (\<lambda>c. c\<lparr>semCount := semCount c + 1\<rparr>) p, s)))"

text \<open>The handle's state is not checked, and the value is stored as an INT32.\<close>

definition LOS_SemGetValue :: "u32 \<Rightarrow> sem_state \<Rightarrow> u32 \<times> i32 option" where
  "LOS_SemGetValue semHandle p =
     (if semHandle \<ge> LOSCFG_BASE_IPC_SEM_LIMIT then (LOS_ERRNO_SEM_INVALID, None)
      else (0, Some (ucast (semCount (g_allSem p (GET_SEM semHandle))))))"

lemmas sem_defs = OsSemCreate_def LOS_SemDelete_def OsSemValidCheck_def LOS_SemPend_def
  LOS_SemPost_def upd_sem_def

section \<open>The pool of semaphores\<close>

definition sem_used :: "sem_state \<Rightarrow> nat \<Rightarrow> bool" where
  "sem_used p i \<longleftrightarrow> semStat (g_allSem p i) \<noteq> OS_SEM_UNUSED"

definition sem_cap :: "sem_state \<Rightarrow> nat" where
  "sem_cap p = unat (LOSCFG_BASE_IPC_SEM_LIMIT :: u32)"

definition sem_take :: "nat \<Rightarrow> sem_state \<Rightarrow> sem_state \<Rightarrow> bool" where
  "sem_take i p q \<longleftrightarrow> (\<exists>c m s h s'. OsSemCreate c m True (p, s) = (LOS_OK, Some h, q, s')
     \<and> hd (g_unusedSemList p) = i)"

definition sem_give :: "nat \<Rightarrow> sem_state \<Rightarrow> sem_state \<Rightarrow> bool" where
  "sem_give i p q \<longleftrightarrow> (\<exists>h s s'. GET_SEM h = i \<and> LOS_SemDelete h (p, s) = (LOS_OK, q, s'))"

lemma sem_limit: "(h::u32) \<ge> LOSCFG_BASE_IPC_SEM_LIMIT \<longleftrightarrow> 6 \<le> unat h"
  by (simp add: LOSCFG_BASE_IPC_SEM_LIMIT_def word_le_nat_alt)

lemma sem_cap_6 [simp]: "sem_cap p = 6"
  by (simp add: sem_cap_def LOSCFG_BASE_IPC_SEM_LIMIT_def)

interpretation semp: slot_pool g_unusedSemList sem_used sem_cap sem_take sem_give
proof unfold_locales
  fix i p q
  assume "sem_take i p q"
  then obtain c m s h s' where "OsSemCreate c m True (p, s) = (LOS_OK, Some h, q, s')"
    "hd (g_unusedSemList p) = i" by (auto simp: sem_take_def)
  then show "g_unusedSemList p = i # g_unusedSemList q" "sem_used q j = (j = i \<or> sem_used p j)"
    "sem_cap q = sem_cap p" for j
    by (auto simp: OsSemCreate_def upd_sem_def Let_def sem_used_def OS_SEM_USED_def
        OS_SEM_UNUSED_def split: if_splits list.splits)
next
  fix i p q
  assume "sem_give i p q"
  then obtain h s s' where "GET_SEM h = i" "LOS_SemDelete h (p, s) = (LOS_OK, q, s')"
    by (auto simp: sem_give_def)
  then show "g_unusedSemList q = i # g_unusedSemList p"
    "sem_used p i \<and> i < sem_cap p \<and> sem_used q j = (j \<noteq> i \<and> sem_used p j)"
    "sem_cap q = sem_cap p" for j
    by (auto simp: LOS_SemDelete_def upd_sem_def Let_def sem_used_def sem_limit GET_SEM_def
        split: if_splits)
qed

section \<open>The invariant\<close>

text \<open>
  The pool is in order, block \<open>i\<close> has identifier \<open>i\<close>, a count is at most its maximum, tasks
  wait only on a used semaphore whose count is zero.
\<close>

definition sem_inv :: "sem_state \<Rightarrow> sched \<Rightarrow> bool" where
  "sem_inv p s \<longleftrightarrow> semp.pool_ok p \<and> (\<forall>i<6. semID (g_allSem p i) = of_nat i)
     \<and> (\<forall>i<6. sem_used p i \<longrightarrow> semCount (g_allSem p i) \<le> maxSemCount (g_allSem p i))
     \<and> (\<forall>i. lists s (SemList i) \<noteq> [] \<longrightarrow> i < 6 \<and> sem_used p i \<and> semCount (g_allSem p i) = 0)"

lemma sem_inv_lists:
  "(\<And>i. lists s' (SemList i) = lists s (SemList i)) \<Longrightarrow> sem_inv p s' = sem_inv p s"
  by (simp add: sem_inv_def)

lemma sem_inv_count:
  assumes inv: "sem_inv p s" and q: "lists s (SemList i) = []" and c: "c \<le> maxSemCount (g_allSem p i)"
  shows "sem_inv (upd_sem i (\<lambda>b. b\<lparr>semCount := c\<rparr>) p) s"
proof -
  let ?p = "upd_sem i (\<lambda>b. b\<lparr>semCount := c\<rparr>) p"
  have u: "sem_used ?p j = sem_used p j" for j by (simp add: sem_used_def upd_sem_def)
  have f: "g_unusedSemList ?p = g_unusedSemList p" by (simp add: upd_sem_def)
  have pool: "semp.pool_ok ?p" using inv by (simp add: sem_inv_def semp.pool_ok_def u f)
  have ids: "\<forall>j<6. semID (g_allSem ?p j) = of_nat j"
    using inv by (simp add: sem_inv_def upd_sem_def)
  have le: "\<forall>j<6. sem_used ?p j \<longrightarrow> semCount (g_allSem ?p j) \<le> maxSemCount (g_allSem ?p j)"
    unfolding u using inv c by (simp add: sem_inv_def upd_sem_def)
  have w: "j < 6 \<and> sem_used ?p j \<and> semCount (g_allSem ?p j) = 0" if "lists s (SemList j) \<noteq> []" for j
  proof -
    have "j \<noteq> i" using q that by auto
    then show ?thesis using inv that unfolding sem_inv_def u by (simp add: upd_sem_def)
  qed
  from pool ids le w show ?thesis by (simp add: sem_inv_def)
qed

definition sem_view :: "nat \<Rightarrow> sem_state \<times> sched \<Rightarrow> nat \<times> nat \<times> nat list" where
  "sem_view i = (\<lambda>(p, s). (unat (semCount (g_allSem p i)), unat (maxSemCount (g_allSem p i)),
                          lists s (SemList i)))"

text \<open>A semaphore as a count, a bound and a queue of tasks.\<close>

fun spec_post :: "nat \<times> nat \<times> nat list \<Rightarrow> u32 \<times> nat \<times> nat \<times> nat list" where
  "spec_post (c, m, q) =
     (if c = m then (LOS_ERRNO_SEM_OVERFLOW, c, m, q)
      else case q of t # q' \<Rightarrow> (LOS_OK, c, m, q') | [] \<Rightarrow> (LOS_OK, c + 1, m, []))"

fun spec_pend :: "nat \<Rightarrow> u32 \<Rightarrow> nat \<times> nat \<times> nat list
    \<Rightarrow> pend_result \<times> nat \<times> nat \<times> nat list" where
  "spec_pend run timeout (c, m, q) =
     (if c > 0 then (Returned LOS_OK, c - 1, m, q)
      else if timeout = 0 then (Returned LOS_ERRNO_SEM_UNAVAILABLE, c, m, q)
      else (Blocked, c, m, q @ [run]))"

lemma kern_ok_taskSem: "kern_ok (upd_tcb t (\<lambda>c. c\<lparr>taskSem := x\<rparr>) s) = kern_ok s"
  by (rule kern_ok_cong) simp_all

lemma TaskWake_taskSem: "taskSem (tcb (OsSchedTaskWake t s) x) = taskSem (tcb s x)"
  by (auto simp: OsSchedTaskWake_def Let_def list_op_defs status_defs EnQueue_tcb)

lemma post_wake:
  assumes k: "kern_ok s" and q: "lists s (SemList i) = t # ts"
  defines "s' \<equiv> LOS_Schedule (OsSchedTaskWake t (upd_tcb t (\<lambda>c. c\<lparr>taskSem := None\<rparr>) s))"
  shows "kern_ok s'" "lists s' (SemList j) = (if j = i then ts else lists s (SemList j))"
    "woken s s' t" "taskSem (tcb s' t) = None"
proof -
  let ?s1 = "upd_tcb t (\<lambda>c. c\<lparr>taskSem := None\<rparr>) s"
  have k1: "kern_ok ?s1" using k by (simp add: kern_ok_taskSem)
  have t: "t \<in> set (lists ?s1 (SemList i))" using q by simp
  note k2 = kern_ok_wake [OF k1 _ t]
  show "woken s s' t"
    using wake_woken [OF k1 _ t] woken_cong [of ?s1 s s' t] unfolding s'_def by simp
  show "taskSem (tcb s' t) = None" unfolding s'_def by (simp add: TaskWake_taskSem)
  show "kern_ok s'" unfolding s'_def using k2 by (simp add: kern_ok_Schedule)
  have "lists s' (SemList j) = lists (OsSchedTaskWake t ?s1) (SemList j)"
    unfolding s'_def using k2 by (simp add: Schedule_wait_lists)
  also have "\<dots> = (if j = i then ts else lists s (SemList j))"
    using wq.wake_waiters [OF kern_okD(2) [OF k1] _ _ t, of "SemList j"] q by simp
  finally show "lists s' (SemList j) = (if j = i then ts else lists s (SemList j))" .
qed

lemma pend_sleep:
  fixes i :: nat and n :: u32 and x :: "nat option"
  assumes k: "kern_ok s" and m: "may_sleep s"
  defines "s' \<equiv> LOS_Schedule (OsSchedTaskWait (SemList i) n
                  (upd_tcb (runTask s) (\<lambda>c. c\<lparr>taskSem := x\<rparr>) s))"
  shows "kern_ok s'"
    "lists s' (SemList j) = (if j = i then lists s (SemList i) @ [runTask s] else lists s (SemList j))"
proof -
  let ?s1 = "upd_tcb (runTask s) (\<lambda>c. c\<lparr>taskSem := x\<rparr>) s"
  have k1: "kern_ok ?s1" and m1: "may_sleep ?s1"
    using k m by (simp_all add: kern_ok_taskSem may_sleep_def can_sleep_def)
  note k2 = kern_ok_wait [OF k1 m1]
  show "kern_ok s'" unfolding s'_def using k2 by (simp add: kern_ok_Schedule)
  have "lists s' (SemList j) = lists (OsSchedTaskWait (SemList i) n ?s1) (SemList j)"
    unfolding s'_def using k2 by (simp add: Schedule_wait_lists)
  then show "lists s' (SemList j) = (if j = i then lists s (SemList i) @ [runTask s] else lists s (SemList j))"
    by (simp add: TaskWait_lists)
qed

text \<open>The two calls refine the specification, keep the invariants and touch no other semaphore.\<close>

lemma SemPost_refines:
  assumes k: "kern_ok s" and inv: "sem_inv p s" and h: "unat h < 6" and u: "sem_used p (unat h)"
    and run: "LOS_SemPost h (p, s) = (r, p', s')"
  shows "(r, sem_view (unat h) (p', s')) = spec_post (sem_view (unat h) (p, s))"
    "j \<noteq> unat h \<Longrightarrow> sem_view j (p', s') = sem_view j (p, s)"
    "kern_ok s'" "sem_inv p' s'"
    "lists s (SemList (unat h)) = t # ts \<Longrightarrow> r = LOS_OK \<Longrightarrow> woken s s' t \<and> taskSem (tcb s' t) = None"
proof -
  have lim: "\<not> h \<ge> LOSCFG_BASE_IPC_SEM_LIMIT" using h by (simp add: sem_limit)
  have used: "semStat (g_allSem p (unat h)) \<noteq> OS_SEM_UNUSED" using u by (simp add: sem_used_def)
  note D = LOS_SemPost_def GET_SEM_def Let_def
  let ?c = "semCount (g_allSem p (unat h))" and ?m = "maxSemCount (g_allSem p (unat h))"
  have "(r, sem_view (unat h) (p', s')) = spec_post (sem_view (unat h) (p, s))
    \<and> (\<forall>j. j \<noteq> unat h \<longrightarrow> sem_view j (p', s') = sem_view j (p, s)) \<and> kern_ok s' \<and> sem_inv p' s'
    \<and> (\<forall>t ts. lists s (SemList (unat h)) = t # ts \<longrightarrow> r = LOS_OK \<longrightarrow> woken s s' t \<and> taskSem (tcb s' t) = None)"
  proof (cases "?m = ?c")
    case True
    then show ?thesis using run lim used k inv by (auto simp: D sem_view_def)
  next
    case False
    have "?c \<le> ?m" using inv h u by (simp add: sem_inv_def)
    then have lt: "?c < ?m" using False by (simp add: order_less_le)
    show ?thesis
    proof (cases "lists s (SemList (unat h))")
      case Nil
      note c1 = word_inc_below [OF lt]
      have r: "r = LOS_OK" "s' = s" "p' = upd_sem (unat h) (\<lambda>c. c\<lparr>semCount := semCount c + 1\<rparr>) p"
        using run lim used False Nil by (simp_all add: D)
      have p': "p' = upd_sem (unat h) (\<lambda>b. b\<lparr>semCount := ?c + 1\<rparr>) p"
        unfolding r(3) by (simp add: upd_sem_def)
      have "unat ?c \<noteq> unat ?m" using lt by (simp add: word_less_nat_alt)
      then have "(r, sem_view (unat h) (p', s')) = spec_post (sem_view (unat h) (p, s))"
        unfolding r using c1 Nil by (simp add: sem_view_def upd_sem_def)
      moreover have "\<forall>j. j \<noteq> unat h \<longrightarrow> sem_view j (p', s') = sem_view j (p, s)"
        unfolding r by (simp add: sem_view_def upd_sem_def)
      moreover have "sem_inv p' s'"
        unfolding p' r(2) by (rule sem_inv_count [OF inv Nil c1(2)])
      ultimately show ?thesis using k r(2) Nil by simp
    next
      case (Cons t ts)
      note w = post_wake [OF k Cons]
      have r: "r = LOS_OK" "p' = p"
        "s' = LOS_Schedule (OsSchedTaskWake t (upd_tcb t (\<lambda>c. c\<lparr>taskSem := None\<rparr>) s))"
        using run lim used False Cons by (simp_all add: D)
      have "sem_inv p' s'"
        using inv Cons w(2) unfolding r(2,3) sem_inv_def by (auto split: if_splits)
      then show ?thesis
        using w Cons False unfolding r by (auto simp: sem_view_def unat_arith_simps)
    qed
  qed
  then show "(r, sem_view (unat h) (p', s')) = spec_post (sem_view (unat h) (p, s))"
    "j \<noteq> unat h \<Longrightarrow> sem_view j (p', s') = sem_view j (p, s)" "kern_ok s'" "sem_inv p' s'"
    "lists s (SemList (unat h)) = t # ts \<Longrightarrow> r = LOS_OK \<Longrightarrow> woken s s' t \<and> taskSem (tcb s' t) = None"
    by blast+
qed

lemma SemPost_error: "LOS_SemPost h (p, s) = (r, p', s') \<Longrightarrow> r \<noteq> LOS_OK \<Longrightarrow> p' = p \<and> s' = s"
  by (auto simp: LOS_SemPost_def Let_def split: if_splits list.splits)

lemma SemPend_refines:
  assumes k: "kern_ok s" and m: "may_sleep s" and inv: "sem_inv p s" and h: "unat h < 6"
    and chk: "OsSemValidCheck (unat h) p s = LOS_OK"
    and run: "LOS_SemPend h timeout (p, s) = (r, p', s')"
  shows "(r, sem_view (unat h) (p', s')) = spec_pend (runTask s) timeout (sem_view (unat h) (p, s))"
    "j \<noteq> unat h \<Longrightarrow> sem_view j (p', s') = sem_view j (p, s)"
    "kern_ok s'" "sem_inv p' s'"
proof -
  have lim: "\<not> h \<ge> LOSCFG_BASE_IPC_SEM_LIMIT" using h by (simp add: sem_limit)
  note D = LOS_SemPend_def GET_SEM_def Let_def
  have used: "sem_used p (unat h)"
    using chk by (auto simp: OsSemValidCheck_def sem_used_def split: if_splits)
  let ?c = "semCount (g_allSem p (unat h))"
  have "(r, sem_view (unat h) (p', s')) = spec_pend (runTask s) timeout (sem_view (unat h) (p, s))
    \<and> (\<forall>j. j \<noteq> unat h \<longrightarrow> sem_view j (p', s') = sem_view j (p, s)) \<and> kern_ok s' \<and> sem_inv p' s'"
  proof (cases "?c > 0")
    case True
    note c1 = word_dec_above [OF True]
    have "?c \<le> maxSemCount (g_allSem p (unat h))" using inv h used by (simp add: sem_inv_def)
    then have c2: "?c - 1 \<le> maxSemCount (g_allSem p (unat h))" using c1(2) by (rule order_trans [rotated])
    have "?c \<noteq> 0" using True by auto
    then have q: "lists s (SemList (unat h)) = []" using inv unfolding sem_inv_def by blast
    have r: "r = Returned LOS_OK" "s' = s" "p' = upd_sem (unat h) (\<lambda>c. c\<lparr>semCount := semCount c - 1\<rparr>) p"
      using run lim chk True by (simp_all add: D)
    have p': "p' = upd_sem (unat h) (\<lambda>b. b\<lparr>semCount := ?c - 1\<rparr>) p"
      unfolding r(3) by (simp add: upd_sem_def)
    have "(r, sem_view (unat h) (p', s')) = spec_pend (runTask s) timeout (sem_view (unat h) (p, s))"
      unfolding r using c1 by (simp add: sem_view_def upd_sem_def)
    moreover have "\<forall>j. j \<noteq> unat h \<longrightarrow> sem_view j (p', s') = sem_view j (p, s)"
      unfolding r by (simp add: sem_view_def upd_sem_def)
    moreover have "sem_inv p' s'"
      unfolding p' r(2) by (rule sem_inv_count [OF inv q c2])
    ultimately show ?thesis using k r(2) by simp
  next
    case False
    then have c0: "?c = 0" by (simp add: word_gt_0)
    show ?thesis
    proof (cases "timeout = 0")
      case True
      then show ?thesis using run lim chk c0 k inv by (auto simp: D sem_view_def)
    next
      case False
      note w = pend_sleep [OF k m, of "unat h" timeout "Some (unat h)"]
      have r: "r = Blocked" "p' = p" "s' = LOS_Schedule (OsSchedTaskWait (SemList (unat h)) timeout
                  (upd_tcb (runTask s) (\<lambda>c. c\<lparr>taskSem := Some (unat h)\<rparr>) s))"
        using run lim chk False c0 by (simp_all add: D)
      have "sem_inv p' s'"
        using inv w(2) c0 h used unfolding r(2,3) sem_inv_def by (auto split: if_splits)
      then show ?thesis using w c0 False unfolding r by (auto simp: sem_view_def)
    qed
  qed
  then show "(r, sem_view (unat h) (p', s')) = spec_pend (runTask s) timeout (sem_view (unat h) (p, s))"
    "j \<noteq> unat h \<Longrightarrow> sem_view j (p', s') = sem_view j (p, s)" "kern_ok s'" "sem_inv p' s'"
    by blast+
qed

section \<open>Properties\<close>

definition ex_sems :: sem_state where
  "ex_sems = \<lparr>g_allSem = (\<lambda>i. \<lparr>semStat = (if i < 2 then 1 else 0), semCount = (if i = 1 then 3 else 0),
       maxSemCount = 0xFFFF, semID = of_nat i\<rparr>), g_unusedSemList = [2, 3, 4, 5]\<rparr>"

lemma ex_sem_inv: "sem_inv ex_sems ex_sched"
  by (auto simp: sem_inv_def semp.pool_ok_def sem_used_def ex_sems_def ex_lists_def OS_SEM_UNUSED_def)

text \<open>
  C7. Posting a semaphore that is in use is the V operation of a counting semaphore with a queue:
  at the maximum it fails and changes nothing; otherwise, with tasks waiting, the first of them
  leaves the queue and the count stays; with none the count goes up by one. The task that left the
  queue is woken: it is neither pending nor on the timer list, it no longer names the semaphore,
  and unless it is suspended it is ready or, after the reschedule, already running. No other
  semaphore changes and the invariants are kept.
\<close>

theorem sem_post_refines:
  assumes "kern_ok s" "sem_inv p s" "unat h < 6" "sem_used p (unat h)"
    and "LOS_SemPost h (p, s) = (r, p', s')"
  shows "(r, sem_view (unat h) (p', s')) = spec_post (sem_view (unat h) (p, s))
    \<and> (\<forall>j. j \<noteq> unat h \<longrightarrow> sem_view j (p', s') = sem_view j (p, s)) \<and> kern_ok s' \<and> sem_inv p' s'
    \<and> (\<forall>t ts. lists s (SemList (unat h)) = t # ts \<longrightarrow> r = LOS_OK \<longrightarrow> woken s s' t \<and> taskSem (tcb s' t) = None)
    \<and> (r \<noteq> LOS_OK \<longrightarrow> p' = p \<and> s' = s)"
  using SemPost_refines [OF assms] SemPost_error [OF assms(5)] by blast

theorem sem_post_refines_witness:
  "sem_view 0 (snd (LOS_SemPost 0 (ex_sems, ex_sched))) = (0, 65535, [])"
  using sem_post_refines [OF ex_kern_ok ex_sem_inv, of 0]
  by (cases "LOS_SemPost 0 (ex_sems, ex_sched)")
    (auto simp: sem_view_def ex_sems_def ex_lists_def sem_used_def OS_SEM_UNUSED_def)

text \<open>
  C8. Pending on a semaphore, once the checks of the caller pass, is the P operation: a positive
  count goes down by one; a zero count without a timeout fails; else the caller is appended to
  the semaphore's queue. No other semaphore changes and the invariants are kept.
\<close>

theorem sem_pend_refines:
  assumes "kern_ok s" "may_sleep s" "sem_inv p s" "unat h < 6"
    and "OsSemValidCheck (unat h) p s = LOS_OK" "LOS_SemPend h timeout (p, s) = (r, p', s')"
  shows "(r, sem_view (unat h) (p', s')) = spec_pend (runTask s) timeout (sem_view (unat h) (p, s))
    \<and> (\<forall>j. j \<noteq> unat h \<longrightarrow> sem_view j (p', s') = sem_view j (p, s)) \<and> kern_ok s' \<and> sem_inv p' s'"
  using SemPend_refines [OF assms] by blast

theorem sem_pend_refines_witness:
  "sem_view 0 (snd (LOS_SemPend 0 50 (ex_sems, ex_sched))) = (0, 65535, [3, 1])"
  using sem_pend_refines [OF ex_kern_ok ex_may_sleep ex_sem_inv, of 0 50]
  by (cases "LOS_SemPend 0 50 (ex_sems, ex_sched)")
    (auto simp: sem_view_def ex_sems_def ex_lists_def OsSemValidCheck_def OS_SEM_UNUSED_def ex_tasks_def)

text \<open>
  Creating a semaphore fails with the busy error exactly when all six are in use; otherwise
  it hands out the identifier of a semaphore that was not in use, with the given count and
  bound and no waiters, and the invariant is kept. Deleting a semaphore nobody waits on gives
  its block back to the pool, and deleting one with waiters fails.
\<close>

theorem sem_create_delete:
  assumes "sem_inv p s" "\<not> c > m" "OsSemCreate c m True (p, s) = (r, h, p', s')"
  shows "r = LOS_ERRNO_SEM_ALL_BUSY \<and> h = None \<and> (\<forall>i<6. sem_used p i) \<and> p' = p \<and> s' = s
    \<or> r = LOS_OK \<and> (\<exists>i<6. \<not> sem_used p i \<and> h = Some (of_nat i) \<and> sem_used p' i
          \<and> sem_view i (p', s') = (unat c, unat m, [])
          \<and> (\<forall>j. j \<noteq> i \<longrightarrow> sem_view j (p', s') = sem_view j (p, s)) \<and> sem_inv p' s'
          \<and> fst (LOS_SemDelete (of_nat i) (p', s')) = LOS_OK)"
proof (cases "g_unusedSemList p")
  case Nil
  then have "\<forall>i<6. sem_used p i"
    using assms(1) semp.exhausted_iff [of p] by (simp add: sem_inv_def)
  then show ?thesis using Nil assms(2,3) by (auto simp: OsSemCreate_def)
next
  case (Cons i rest)
  have pool: "semp.pool_ok p" using assms(1) by (simp add: sem_inv_def)
  have r: "r = LOS_OK" "h = Some (ucast (semID (g_allSem p i)))"
    "p' = upd_sem i (\<lambda>b. b\<lparr>semCount := c, semStat := OS_SEM_USED, maxSemCount := m\<rparr>)
            (p\<lparr>g_unusedSemList := rest\<rparr>)"
    "s' = upd_list (SemList i) (\<lambda>_. []) s"
    using Cons assms(2,3) by (auto simp: OsSemCreate_def Let_def upd_sem_def)
  have "sem_take i p p'"
    unfolding sem_take_def using Cons assms(2,3) r(1,2) by (metis list.sel(1))
  note t = semp.take_ok [OF pool this] semp.take_use [OF this]
  have i: "i < 6" "\<not> sem_used p i" "sem_used p' i" using t by simp_all
  have id: "ucast (semID (g_allSem p i)) = (of_nat i :: u32)"
    using assms(1) i(1) by (simp add: sem_inv_def small_cast_16_32)
  have w: "lists s (SemList i) = []" using assms(1) i(2) by (auto simp: sem_inv_def)
  have l: "lists s' (SemList j) = lists s (SemList j)" for j by (simp add: r(4) upd_list_def w)
  have sem: "g_allSem p' j = (if j = i then (g_allSem p i)\<lparr>semCount := c, semStat := OS_SEM_USED,
      maxSemCount := m\<rparr> else g_allSem p j)" for j by (simp add: r(3) upd_sem_def)
  have inv: "sem_inv p' s'"
    using assms(1,2) t(1) i w unfolding sem_inv_def l t(4) by (auto simp: sem)
  have del: "fst (LOS_SemDelete (of_nat i) (p', s')) = LOS_OK"
    using i w l by (simp add: LOS_SemDelete_def Let_def sem_limit GET_SEM_def unat_of_nat sem_used_def)
  show ?thesis
    using i r(1,2) id inv del l w by (auto simp: sem_view_def sem intro!: exI [of _ i])
qed

theorem sem_create_delete_witness:
  "fst (OsSemCreate 1 4 True (ex_sems, ex_sched)) = LOS_OK"
proof -
  obtain r h p' s' where e: "OsSemCreate 1 4 True (ex_sems, ex_sched) = (r, h, p', s')"
    by (metis prod_cases4)
  have "\<not> sem_used ex_sems 2" by (simp add: sem_used_def ex_sems_def OS_SEM_UNUSED_def)
  then show ?thesis using sem_create_delete [OF ex_sem_inv _ e] e by auto
qed

end
