(* ===== verification/Los_Event.thy ===== *)
theory Los_Event
  imports Los_Example
begin

text \<open>
  Event flags (kernel/src/los_event.c). An event control block is a word of flags and a wait
  list; the word is in the scheduler's state, since every TCB embeds a block, and the waiters
  of block \<open>e\<close> are the list \<open>EventList e\<close>. A NULL block is None. \<open>LOS_EventRead\<close> is
  two definitions, up to the reschedule and after it.
\<close>

section \<open>The operations\<close>

definition LOS_WAITMODE_AND :: u32 where "LOS_WAITMODE_AND = 4"
definition LOS_WAITMODE_OR :: u32 where "LOS_WAITMODE_OR = 2"
definition LOS_WAITMODE_CLR :: u32 where "LOS_WAITMODE_CLR = 1"

definition upd_event :: "evid \<Rightarrow> (EVENT_CB_S \<Rightarrow> EVENT_CB_S) \<Rightarrow> sched \<Rightarrow> sched" where
  "upd_event e f s = s\<lparr>events := (events s)(e := f (events s e))\<rparr>"

definition LOS_EventInit :: "evid option \<Rightarrow> sched \<Rightarrow> u32 \<times> sched" where
  "LOS_EventInit eventCB s =
     (case eventCB of
        None \<Rightarrow> (LOS_ERRNO_EVENT_PTR_NULL, s)
      | Some e \<Rightarrow> (LOS_OK, upd_list (EventList e) (\<lambda>_. [])
                   (upd_event e (\<lambda>_. \<lparr>uwEventID = 0, stEventList_init = True\<rparr>) s)))"

text \<open>The flags that satisfy a read, and the word afterwards.\<close>

definition LOS_EventPoll :: "u32 option \<Rightarrow> u32 \<Rightarrow> u32 \<Rightarrow> u32 \<times> u32 option" where
  "LOS_EventPoll eventID evMask mode =
     (case eventID of
        None \<Rightarrow> (LOS_ERRNO_EVENT_PTR_NULL, None)
      | Some w \<Rightarrow>
          (let ret = (if has mode LOS_WAITMODE_OR
                      then if w AND evMask \<noteq> 0 then w AND evMask else 0
                      else if evMask \<noteq> 0 \<and> evMask = w AND evMask
                      then w AND evMask else 0)
           in (ret, Some (if ret \<noteq> 0 \<and> has mode LOS_WAITMODE_CLR then clr w ret else w))))"

definition OsEventReadParamCheck :: "evid option \<Rightarrow> u32 \<Rightarrow> u32 \<Rightarrow> sched \<Rightarrow> u32" where
  "OsEventReadParamCheck eventCB evMask mode s =
     (case eventCB of
        None \<Rightarrow> LOS_ERRNO_EVENT_PTR_NULL
      | Some e \<Rightarrow>
          if \<not> stEventList_init (events s e) then LOS_ERRNO_EVENT_NOT_INITIALIZED
          else if evMask = 0 then LOS_ERRNO_EVENT_EVENTMASK_INVALID
          else if has evMask LOS_ERRTYPE_ERROR then LOS_ERRNO_EVENT_SETBIT_INVALID
          else if has mode LOS_WAITMODE_OR \<and> has mode LOS_WAITMODE_AND
               \<or> has mode (NOT (LOS_WAITMODE_OR OR LOS_WAITMODE_AND OR LOS_WAITMODE_CLR))
               \<or> \<not> has mode (LOS_WAITMODE_OR OR LOS_WAITMODE_AND)
          then LOS_ERRNO_EVENT_FLAGS_INVALID
          else LOS_OK)"

definition poll_event :: "evid \<Rightarrow> u32 \<Rightarrow> u32 \<Rightarrow> sched \<Rightarrow> u32 \<times> sched" where
  "poll_event e evMask mode s =
     (case LOS_EventPoll (Some (uwEventID (events s e))) evMask mode of
        (ret, Some w) \<Rightarrow> (ret, upd_event e (\<lambda>c. c\<lparr>uwEventID := w\<rparr>) s)
      | (ret, None) \<Rightarrow> (ret, s))"

definition LOS_EventRead :: "evid option \<Rightarrow> u32 \<Rightarrow> u32 \<Rightarrow> u32 \<Rightarrow> sched \<Rightarrow> pend_result \<times> sched" where
  "LOS_EventRead eventCB evMask mode timeOut s =
     (let ret = OsEventReadParamCheck eventCB evMask mode s
      in if ret \<noteq> LOS_OK then (Returned ret, s)
         else if intActive s then (Returned LOS_ERRNO_EVENT_READ_IN_INTERRUPT, s)
         else if has (st s (runTask s)) (flag SYSTEM_TASK)
         then (Returned LOS_ERRNO_EVENT_READ_IN_SYSTEM_TASK, s)
         else case eventCB of
           None \<Rightarrow> (Returned LOS_ERRNO_EVENT_PTR_NULL, s)
         | Some e \<Rightarrow>
             (let (ret, s1) = poll_event e evMask mode s
              in if ret \<noteq> 0 then (Returned ret, s1)
                 else if timeOut = 0 then (Returned ret, s1)
                 else if g_losTaskLock s1 \<noteq> 0 then (Returned LOS_ERRNO_EVENT_READ_IN_LOCK, s1)
                 else (Blocked, LOS_Schedule (OsSchedTaskWait (EventList e) timeOut
                        (upd_tcb (runTask s1) (\<lambda>c. c\<lparr>eventMask := evMask, eventMode := mode\<rparr>) s1)))))"

text \<open>After the sleep, in the task \<open>t\<close> that called.\<close>

definition LOS_EventRead_resume :: "nat \<Rightarrow> evid \<Rightarrow> u32 \<Rightarrow> u32 \<Rightarrow> sched \<Rightarrow> u32 \<times> sched" where
  "LOS_EventRead_resume t e evMask mode s =
     (if has (st s t) (flag TIMEOUT)
      then (LOS_ERRNO_EVENT_READ_TIMEOUT, status_clr t (flag TIMEOUT) s)
      else poll_event e evMask mode s)"

text \<open>Does a write of \<open>events\<close>, which makes the word \<open>w\<close>, wake the waiter?\<close>

definition event_match :: "u32 \<Rightarrow> u32 \<Rightarrow> LosTaskCB \<Rightarrow> bool" where
  "event_match evs w c \<longleftrightarrow>
     has (eventMode c) LOS_WAITMODE_OR \<and> eventMask c AND evs \<noteq> 0
     \<or> has (eventMode c) LOS_WAITMODE_AND \<and> eventMask c AND w = eventMask c"

text \<open>
  The loop over the waiters; the successor is read before a task is woken, so it goes through
  the list as it was at the start.
\<close>

fun event_wake_loop :: "u32 \<Rightarrow> evid \<Rightarrow> nat list \<Rightarrow> bool \<Rightarrow> sched \<Rightarrow> bool \<times> sched" where
  "event_wake_loop evs e [] exitFlag s = (exitFlag, s)"
| "event_wake_loop evs e (resumedTask # next) exitFlag s =
     (if event_match evs (uwEventID (events s e)) (tcb s resumedTask)
      then event_wake_loop evs e next True (OsSchedTaskWake resumedTask s)
      else event_wake_loop evs e next exitFlag s)"

definition LOS_EventWrite :: "evid option \<Rightarrow> u32 \<Rightarrow> sched \<Rightarrow> u32 \<times> sched" where
  "LOS_EventWrite eventCB evs s =
     (case eventCB of
        None \<Rightarrow> (LOS_ERRNO_EVENT_PTR_NULL, s)
      | Some e \<Rightarrow>
          if \<not> stEventList_init (events s e) then (LOS_ERRNO_EVENT_NOT_INITIALIZED, s)
          else if has evs LOS_ERRTYPE_ERROR then (LOS_ERRNO_EVENT_SETBIT_INVALID, s)
          else
            (let s1 = upd_event e (\<lambda>c. c\<lparr>uwEventID := uwEventID c OR evs\<rparr>) s;
                 (exitFlag, s2) = event_wake_loop evs e (lists s1 (EventList e)) False s1
             in (LOS_OK, if exitFlag then LOS_Schedule s2 else s2)))"

definition LOS_EventDestroy :: "evid option \<Rightarrow> sched \<Rightarrow> u32 \<times> sched" where
  "LOS_EventDestroy eventCB s =
     (case eventCB of
        None \<Rightarrow> (LOS_ERRNO_EVENT_PTR_NULL, s)
      | Some e \<Rightarrow> if lists s (EventList e) \<noteq> [] then (LOS_ERRNO_EVENT_SHOULD_NOT_DESTROYED, s)
                  else (LOS_OK, upd_event e (\<lambda>c. c\<lparr>stEventList_init := False\<rparr>) s))"

definition LOS_EventClear :: "evid option \<Rightarrow> u32 \<Rightarrow> sched \<Rightarrow> u32 \<times> sched" where
  "LOS_EventClear eventCB evMask s =
     (case eventCB of
        None \<Rightarrow> (LOS_ERRNO_EVENT_PTR_NULL, s)
      | Some e \<Rightarrow> (LOS_OK, upd_event e (\<lambda>c. c\<lparr>uwEventID := uwEventID c AND evMask\<rparr>) s))"

section \<open>Polling\<close>

text \<open>What a poll answers, in terms of the flags.\<close>

lemma EventPoll_result:
  "LOS_EventPoll (Some w) m mode = (r, Some w') \<Longrightarrow>
     r = (if has mode LOS_WAITMODE_OR \<or> m = w AND m then w AND m else 0)
     \<and> w' = (if has mode LOS_WAITMODE_CLR then clr w r else w)"
  by (auto simp: LOS_EventPoll_def Let_def split: if_splits)

lemma and_mask_error:
  "\<not> has m LOS_ERRTYPE_ERROR \<Longrightarrow> \<not> has (w AND m) (LOS_ERRTYPE_ERROR :: u32)"
  unfolding has_def by (metis and.assoc and_zero_eq)

section \<open>Waking the waiters of a write\<close>

lemma kern_ok_event [simp]: "kern_ok (upd_event e f s) = kern_ok s"
  by (rule kern_ok_cong) (simp_all add: upd_event_def)

lemma upd_event_frame [simp]:
  "g_taskCBArray (upd_event e f s) = g_taskCBArray s" "lists (upd_event e f s) = lists s"
  "events (upd_event e f s) = (events s)(e := f (events s e))"
  "runTask (upd_event e f s) = runTask s"
  "g_losTaskLock (upd_event e f s) = g_losTaskLock s"
  "intActive (upd_event e f s) = intActive s"
  "g_idleTaskID (upd_event e f s) = g_idleTaskID s"
  by (simp_all add: upd_event_def)

lemma fold_wake_tcb: "x \<notin> set ts \<Longrightarrow> tcb (fold OsSchedTaskWake ts s) x = tcb s x"
  by (induction ts arbitrary: s) (simp_all add: TaskWake_tcb_other)

lemma fold_wake_events: "events (fold OsSchedTaskWake ts s) = events s"
  by (induction ts arbitrary: s) simp_all

lemma fold_wake_frame: "runTask (fold OsSchedTaskWake ts s) = runTask s"
  "g_idleTaskID (fold OsSchedTaskWake ts s) = g_idleTaskID s"
  by (induction ts arbitrary: s) simp_all

lemma event_wake_loop_fold:
  assumes "distinct ts"
  shows "event_wake_loop evs e ts x s =
    (x \<or> (\<exists>t\<in>set ts. event_match evs (uwEventID (events s e)) (tcb s t)),
     fold OsSchedTaskWake (filter (\<lambda>t. event_match evs (uwEventID (events s e)) (tcb s t)) ts) s)"
  using assms
proof (induction ts arbitrary: x s)
  case Nil
  then show ?case by simp
next
  case (Cons t ts)
  have same: "tcb (OsSchedTaskWake t s) u = tcb s u" if "u \<in> set ts" for u
    using Cons.prems that by (intro TaskWake_tcb_other) auto
  have f: "filter (\<lambda>u. event_match evs w (tcb (OsSchedTaskWake t s) u)) ts
      = filter (\<lambda>u. event_match evs w (tcb s u)) ts" for w
    using same by (intro filter_cong) auto
  show ?case
    using Cons.IH [of True "OsSchedTaskWake t s"] Cons.IH [of x s] Cons.prems same f by auto
qed

lemma kern_ok_fold_wake:
  assumes "kern_ok s" "wait_list l" "distinct ts" "set ts \<subseteq> set (lists s l)"
  shows "kern_ok (fold OsSchedTaskWake ts s)"
  using assms
proof (induction ts arbitrary: s)
  case Nil
  then show ?case by simp
next
  case (Cons t ts)
  have t: "t \<in> set (lists s l)" using Cons.prems by simp
  have "set ts \<subseteq> set (lists (OsSchedTaskWake t s) l)"
    using Cons.prems by (auto simp: TaskWake_lists)
  then show ?case
    using Cons.IH [OF kern_ok_wake [OF Cons.prems(1,2) t] Cons.prems(2)] Cons.prems(3) by simp
qed

section \<open>The invariant of the waiters\<close>

definition satisfied :: "u32 \<Rightarrow> u32 \<Rightarrow> u32 \<Rightarrow> bool" where
  "satisfied w m mode \<longleftrightarrow> (if has mode LOS_WAITMODE_OR then w AND m \<noteq> 0 else m = w AND m)"

definition event_inv :: "evid \<Rightarrow> sched \<Rightarrow> bool" where
  "event_inv e s \<longleftrightarrow> (\<forall>t\<in>set (lists s (EventList e)).
     (has (eventMode (tcb s t)) LOS_WAITMODE_OR \<noteq> has (eventMode (tcb s t)) LOS_WAITMODE_AND)
     \<and> eventMask (tcb s t) \<noteq> 0
     \<and> \<not> satisfied (uwEventID (events s e)) (eventMask (tcb s t)) (eventMode (tcb s t)))"

text \<open>Under the invariant the condition of the loop is that the new word satisfies the reader.\<close>

lemma match_iff_satisfied:
  assumes "has (eventMode c) LOS_WAITMODE_OR \<noteq> has (eventMode c) LOS_WAITMODE_AND"
    and "\<not> satisfied w (eventMask c) (eventMode c)"
  shows "event_match evs (w OR evs) c = satisfied (w OR evs) (eventMask c) (eventMode c)"
proof (cases "has (eventMode c) LOS_WAITMODE_OR")
  case True
  have "(w OR evs) AND eventMask c = (w AND eventMask c) OR (eventMask c AND evs)"
    by (metis bit.conj_disj_distrib2 and.commute)
  moreover have "w AND eventMask c = 0" using assms(2) True by (simp add: satisfied_def)
  ultimately show ?thesis using True assms(1) by (simp add: event_match_def satisfied_def)
next
  case False
  then show ?thesis using assms(1) by (auto simp: event_match_def satisfied_def and.commute)
qed

lemma EventWrite_effect:
  assumes k: "kern_ok s" and i: "stEventList_init (events s e)" and ev: "\<not> has evs LOS_ERRTYPE_ERROR"
    and inv: "event_inv e s" and run: "LOS_EventWrite (Some e) evs s = (r, s')"
  defines "w \<equiv> uwEventID (events s e) OR evs"
  defines "P \<equiv> \<lambda>t. satisfied w (eventMask (tcb s t)) (eventMode (tcb s t))"
  shows "r = LOS_OK" "kern_ok s'" "uwEventID (events s' e) = w"
    "lists s' (EventList e) = filter (\<lambda>t. \<not> P t) (lists s (EventList e))"
    "wait_list l \<Longrightarrow> l \<noteq> EventList e \<Longrightarrow> lists s' l = lists s l"
    "event_inv e s'" "t \<in> set (lists s (EventList e)) \<Longrightarrow> P t \<Longrightarrow> woken s s' t"
proof -
  let ?s1 = "upd_event e (\<lambda>c. c\<lparr>uwEventID := uwEventID c OR evs\<rparr>) s"
  let ?ts = "lists s (EventList e)"
  let ?M = "\<lambda>t. event_match evs (uwEventID (events ?s1 e)) (tcb ?s1 t)"
  let ?s2 = "fold OsSchedTaskWake (filter ?M ?ts) ?s1"
  have k1: "kern_ok ?s1" using k by simp
  note d = kern_okD [OF k1]
  have dist: "distinct ?ts" using wait_distinct kern_okD(2) [OF k] by blast
  have MP: "?M t = P t" if "t \<in> set ?ts" for t
    using inv that match_iff_satisfied [of "tcb s t" "uwEventID (events s e)" evs]
    by (simp add: event_inv_def P_def w_def)
  have fM: "filter ?M ?ts = filter P ?ts" using MP by (intro filter_cong) auto
  have wl: "wait_list (EventList e)" by simp
  have loop: "event_wake_loop evs e ?ts False ?s1 = (\<exists>t\<in>set ?ts. ?M t, ?s2)"
    using event_wake_loop_fold [OF dist, of evs e False ?s1] by simp
  have s': "r = LOS_OK" "s' = (if \<exists>t\<in>set ?ts. ?M t then LOS_Schedule ?s2 else ?s2)"
    using run i ev by (auto simp add: LOS_EventWrite_def loop Let_def)
  show "r = LOS_OK" by (fact s'(1))
  have k2: "kern_ok ?s2"
    using kern_ok_fold_wake [OF k1 wl, of "filter ?M ?ts"] dist by simp
  have "s' = LOS_Schedule ?s2 \<or> s' = ?s2" by (simp only: s'(2)) simp
  then show k': "kern_ok s'" using k2 kern_ok_Schedule by blast
  have l': "lists s' l = lists ?s2 l" if "wait_list l" for l
    using k2 that by (simp add: s'(2) Schedule_wait_lists)
  note ww = wq.wake_where [OF d(2) wl, where P = ?M]
  show le: "lists s' (EventList e) = filter (\<lambda>t. \<not> P t) ?ts"
    using ww(2) l' [OF wl] MP by (simp cong: filter_cong)
  show "lists s' l = lists s l" if "wait_list l" "l \<noteq> EventList e"
    using ww(3) [OF that] l' [OF that(1)] by simp
  show "woken s s' t" if t: "t \<in> set ?ts" "P t"
  proof -
    have "waked ?s1 ?s2 t" using waked_fold [of "filter ?M ?ts" t ?s1] t MP dist by simp
    moreover have "t \<noteq> OS_TCB_FROM_TID (g_idleTaskID s)" using idle_not_waiting [OF k t(1)] .
    ultimately have "woken ?s1 (LOS_Schedule ?s2) t"
      using woken_Schedule [OF k2, of ?s1 t] kern_okD(5) [OF k] by (simp add: fold_wake_frame)
    moreover have "\<exists>t\<in>set ?ts. ?M t" using t MP by blast
    ultimately show ?thesis using woken_cong [of ?s1 s s' t] by (simp add: s'(2) upd_event_def)
  qed
  have ev': "events s' = events ?s1" by (simp add: s'(2) fold_wake_events)
  then show "uwEventID (events s' e) = w" by (simp add: w_def)
  have tc: "eventMask (tcb s' t) = eventMask (tcb s t)" "eventMode (tcb s' t) = eventMode (tcb s t)"
    if "t \<in> set (lists s' (EventList e))" for t
  proof -
    have "t \<notin> set (filter ?M ?ts)" using that le MP by auto
    then have "tcb ?s2 t = tcb ?s1 t" by (rule fold_wake_tcb)
    then show "eventMask (tcb s' t) = eventMask (tcb s t)" "eventMode (tcb s' t) = eventMode (tcb s t)"
      by (simp_all add: s'(2))
  qed
  show "event_inv e s'"
    unfolding event_inv_def
  proof (intro ballI)
    fix t assume t: "t \<in> set (lists s' (EventList e))"
    then have "t \<in> set ?ts" "\<not> P t" using le by auto
    then show "(has (eventMode (tcb s' t)) LOS_WAITMODE_OR \<noteq> has (eventMode (tcb s' t)) LOS_WAITMODE_AND)
     \<and> eventMask (tcb s' t) \<noteq> 0
     \<and> \<not> satisfied (uwEventID (events s' e)) (eventMask (tcb s' t)) (eventMode (tcb s' t))"
      using inv by (simp add: tc [OF t] ev' event_inv_def P_def w_def)
  qed
qed

section \<open>Properties\<close>

text \<open>
  C23. Writing flags to an initialised event wakes exactly the waiting readers whose condition
  the new word satisfies, in one pass and whatever their mode. Each of them leaves the queue, is
  neither pending nor on the timer list any more and, unless it is suspended, is ready or, after
  the reschedule, already running. The others keep their place in the queue, still pending and
  unsatisfied, no other wait list changes, and the word is the union.
\<close>

theorem event_write_wakes_satisfied:
  assumes "kern_ok s" "stEventList_init (events s e)" "\<not> has evs LOS_ERRTYPE_ERROR" "event_inv e s"
    and "LOS_EventWrite (Some e) evs s = (r, s')"
  shows "r = LOS_OK \<and> kern_ok s' \<and> event_inv e s'
    \<and> uwEventID (events s' e) = uwEventID (events s e) OR evs
    \<and> lists s' (EventList e) = filter (\<lambda>t. \<not> satisfied (uwEventID (events s e) OR evs)
          (eventMask (tcb s t)) (eventMode (tcb s t))) (lists s (EventList e))
    \<and> (\<forall>t\<in>set (lists s (EventList e)).
         if satisfied (uwEventID (events s e) OR evs) (eventMask (tcb s t)) (eventMode (tcb s t))
         then woken s s' t else has (st s' t) (flag PEND))
    \<and> (\<forall>l. wait_list l \<longrightarrow> l \<noteq> EventList e \<longrightarrow> lists s' l = lists s l)"
proof -
  note E = EventWrite_effect [OF assms]
  have "has (st s' t) (flag PEND)" if "t \<in> set (lists s (EventList e))"
    "\<not> satisfied (uwEventID (events s e) OR evs) (eventMask (tcb s t)) (eventMode (tcb s t))" for t
    using waiter_pends [OF kern_okD(2) [OF E(2)], of "EventList e" t] E(4) that by simp
  then show ?thesis using E by simp
qed

theorem event_write_wakes_satisfied_witness:
  "lists (snd (LOS_EventWrite (Some (UserEvent 0)) 4 ex_sched)) (EventList (UserEvent 0)) = []
   \<and> uwEventID (events (snd (LOS_EventWrite (Some (UserEvent 0)) 4 ex_sched)) (UserEvent 0)) = 6"
proof -
  have e: "LOS_EventWrite (Some (UserEvent 0)) 4 ex_sched
      = (fst (LOS_EventWrite (Some (UserEvent 0)) 4 ex_sched),
         snd (LOS_EventWrite (Some (UserEvent 0)) 4 ex_sched))" by simp
  have ev: "events ex_sched (UserEvent 0) = \<lparr>uwEventID = 2, stEventList_init = True\<rparr>"
    by (simp add: ex_sched_def)
  have inv: "event_inv (UserEvent 0) ex_sched"
    by (simp add: event_inv_def ev ex_lists_def ex_tasks_def satisfied_def has_def
        LOS_WAITMODE_OR_def LOS_WAITMODE_AND_def)
  show ?thesis
    using event_write_wakes_satisfied [OF ex_kern_ok _ _ inv e]
    by (simp add: ev ex_lists_def ex_tasks_def has_def satisfied_def errno_base_defs
        LOS_WAITMODE_OR_def)
qed

text \<open>
  What a poll answers: the flags of the mask that are set, if the mode's condition holds,
  and 0 otherwise; they are cleared from the word exactly in the clearing mode. For a mask that
  a read accepts the answer never has the error bit, so it is never confused with an error code.
\<close>

theorem event_poll_answer:
  assumes "LOS_EventPoll (Some w) m mode = (r, Some w')"
  shows "r = (if satisfied w m mode then w AND m else 0)
    \<and> w' = (if has mode LOS_WAITMODE_CLR then clr w r else w)
    \<and> (\<not> has m LOS_ERRTYPE_ERROR \<longrightarrow> \<not> has r LOS_ERRTYPE_ERROR)"
  using EventPoll_result [OF assms] and_mask_error by (auto simp: satisfied_def)

theorem event_poll_answer_witness:
  "clr (7 :: u32) 6 = snd (6 :: u32, clr 7 6) \<and> \<not> has (6 :: u32) LOS_ERRTYPE_ERROR"
  using event_poll_answer [of 7 6 5 6 1]
  by (simp add: LOS_EventPoll_def has_def clr_def LOS_WAITMODE_OR_def LOS_WAITMODE_CLR_def errno_base_defs)

end
