(* ===== verification/Los_Task.thy ===== *)
theory Los_Task
  imports Los_Event
begin

text \<open>
  Tasks (kernel/src/los_task.c): the table of control blocks, creation, suspension, deletion,
  joining and the smaller calls. The heap behind LOS_MemAllocAlign and LOS_MemFree is an
  argument: its state is threaded through, and the two operations are fields of
  \<open>allocator\<close>. The contents of the stacks are not modelled, except as a function of the
  address where the water line is read. A call that reschedules and then goes on is two
  definitions. CPU usage accounting, hooks, signals and the task monitor are off, as in the
  default configuration.
\<close>

section \<open>Configuration\<close>

definition LOSCFG_BASE_CORE_TSK_LIMIT :: u32 where "LOSCFG_BASE_CORE_TSK_LIMIT = 5"
definition OS_TASK_PRIORITY_LOWEST :: u16 where "OS_TASK_PRIORITY_LOWEST = 31"
definition LOSCFG_BASE_CORE_TSK_DEFAULT_STACK_SIZE :: u32 where
  "LOSCFG_BASE_CORE_TSK_DEFAULT_STACK_SIZE = 0x400"
definition LOSCFG_BASE_CORE_TSK_MIN_STACK_SIZE :: u32 where
  "LOSCFG_BASE_CORE_TSK_MIN_STACK_SIZE = LOS_Align 0x80 4"
definition LOSCFG_BASE_CORE_TSK_IDLE_STACK_SIZE :: u32 where
  "LOSCFG_BASE_CORE_TSK_IDLE_STACK_SIZE = 0x180"
definition OS_TASK_STACK_ADDR_ALIGN :: u32 where "OS_TASK_STACK_ADDR_ALIGN = 8"
definition LOSCFG_STACK_POINT_ALIGN_SIZE :: u32 where "LOSCFG_STACK_POINT_ALIGN_SIZE = 8"
definition LOS_TASK_ATTR_JOINABLE :: u32 where "LOS_TASK_ATTR_JOINABLE = 0x80000000"
definition OS_TASK_MAGIC_WORD :: u32 where "OS_TASK_MAGIC_WORD = 0xCCCCCCCC"
definition OS_TASK_STACK_INIT :: u32 where "OS_TASK_STACK_INIT = 0xCACACACA"
definition OS_TASK_STACK_TOP_OFFSET :: u32 where "OS_TASK_STACK_TOP_OFFSET = 4"
definition LOS_TASK_NAMELEN :: nat where "LOS_TASK_NAMELEN = 32"
definition CONTEXT_SIZE :: u32 where "CONTEXT_SIZE = 112"

record TSK_INIT_PARAM_S =
  pfnTaskEntry :: "entry_func option"
  usTaskPrio :: u16
  uwArg :: u32
  stackAddr :: u32
  uwStackSize :: u32
  pcName :: "string option"
  uwResved :: u32

text \<open>The heap: a block or 0 (NULL), and the heap afterwards.\<close>

record 'h allocator =
  mem_alloc_align :: "'h \<Rightarrow> u32 \<Rightarrow> u32 \<Rightarrow> u32 \<times> 'h"
  mem_free :: "'h \<Rightarrow> u32 \<Rightarrow> 'h"

section \<open>Checks and recycling\<close>

definition OS_TASK_ID_CHECK :: "u32 \<Rightarrow> sched \<Rightarrow> bool" where
  "OS_TASK_ID_CHECK tid s \<longleftrightarrow> tid < g_taskMaxNum s"

definition OS_CHECK_TSK_PID_NOIDLE :: "u32 \<Rightarrow> sched \<Rightarrow> bool" where
  "OS_CHECK_TSK_PID_NOIDLE tid s \<longleftrightarrow> tid \<ge> g_taskMaxNum s"

definition OsCheckTaskIDValid :: "u32 \<Rightarrow> sched \<Rightarrow> u32" where
  "OsCheckTaskIDValid tid s =
     (if tid = g_idleTaskID s then LOS_ERRNO_TSK_OPERATE_IDLE
      else if tid = g_swtmrTaskID s then LOS_ERRNO_TSK_SUSPEND_SWTMR_NOT_ALLOWED
      else if tid \<ge> g_taskMaxNum s then LOS_ERRNO_TSK_ID_INVALID
      else LOS_OK)"

text \<open>The whole block is zeroed, with the timer node and the event in it.\<close>

definition OsInsertTCBToFreeList :: "nat \<Rightarrow> sched \<Rightarrow> sched" where
  "OsInsertTCBToFreeList t s =
     ListAdd FreeTask t
       (SET_SORTLIST_VALUE (TaskNode t) 0
         (upd_event (TaskEvent t) (\<lambda>_. \<lparr>uwEventID = 0, stEventList_init = False\<rparr>)
           (upd_tcb t (\<lambda>c. zero_tcb\<lparr>taskID := taskID c, taskStatus := flag UNUSED\<rparr>) s)))"

text \<open>The stack to free, or 0.\<close>

definition OsRecycleTaskResources :: "nat \<Rightarrow> sched \<Rightarrow> u32 \<times> sched" where
  "OsRecycleTaskResources t s =
     (let (stackPtr, s1) =
        (if has (st s t) (flag STACK_FREE) \<and> topOfStack (tcb s t) \<noteq> 0
         then (topOfStack (tcb s t),
               status_clr t (flag STACK_FREE) (upd_tcb t (\<lambda>c. c\<lparr>topOfStack := 0\<rparr>) s))
         else (0, s))
      in (stackPtr, if \<not> has (st s1 t) (flag JOINABLE) then OsInsertTCBToFreeList t s1 else s1))"

lemma Recycle_lists:
  "lists (snd (OsRecycleTaskResources t s)) RecycleTask = lists s RecycleTask"
  by (simp add: OsRecycleTaskResources_def OsInsertTCBToFreeList_def Let_def list_op_defs status_defs
      SET_SORTLIST_VALUE_def upd_event_def)

function OsRecycleFinishedTask :: "'h allocator \<Rightarrow> 'h \<times> sched \<Rightarrow> 'h \<times> sched" where
  "OsRecycleFinishedTask al hs =
     (case lists (snd hs) RecycleTask of
        [] \<Rightarrow> hs
      | t # _ \<Rightarrow>
          (let r = OsRecycleTaskResources t (ListDelete t (snd hs))
           in OsRecycleFinishedTask al (mem_free al (fst hs) (fst r), snd r)))"
  by pat_completeness auto
termination
  by (relation "measure (\<lambda>(al, hs). length (lists (snd hs) RecycleTask))")
    (auto simp: Recycle_lists ListDelete_def less_Suc_eq_le length_removeAll_less_eq)

declare OsRecycleFinishedTask.simps [simp del]

definition LOS_TaskResRecycle :: "'h allocator \<Rightarrow> 'h \<times> sched \<Rightarrow> 'h \<times> sched" where
  "LOS_TaskResRecycle al hs = OsRecycleFinishedTask al hs"

definition OsConvertTskStatus :: "u16 \<Rightarrow> string" where
  "OsConvertTskStatus w =
     (if has w (flag RUNNING) then ''Running''
      else if has w (flag READY) then ''Ready''
      else if has w (flag EXIT) then ''Exit''
      else if has w (flag SUSPEND) then ''Suspend''
      else if has w (flag DELAY) then ''Delay''
      else if has w (flag PEND)
      then if has w (flag PEND_TIME) then ''PendTime'' else ''Pend''
      else ''Impossible'')"

text \<open>The words of a stack that still hold the initial pattern, from \<open>p\<close> up to the stack pointer.\<close>

fun waterline_scan :: "nat \<Rightarrow> (u32 \<Rightarrow> u32) \<Rightarrow> u32 \<Rightarrow> u32 \<Rightarrow> u32" where
  "waterline_scan 0 mem sp p = p"
| "waterline_scan (Suc fuel) mem sp p =
     (if p < sp \<and> mem p = OS_TASK_STACK_INIT then waterline_scan fuel mem sp (p + 4) else p)"

definition OsGetTaskWaterLine :: "(u32 \<Rightarrow> u32) \<Rightarrow> u32 \<Rightarrow> sched \<Rightarrow> u32" where
  "OsGetTaskWaterLine mem tid s =
     (let c = tcb s (OS_TCB_FROM_TID tid)
      in if mem (topOfStack c) = OS_TASK_MAGIC_WORD
         then stackSize c - (waterline_scan (unat (stackPointer c)) mem (stackPointer c)
                (topOfStack c + OS_TASK_STACK_TOP_OFFSET) - topOfStack c)
         else OS_NULL_INT)"

section \<open>Creation\<close>

definition OsTaskInitParamCheck :: "TSK_INIT_PARAM_S option \<Rightarrow> u32 \<times> TSK_INIT_PARAM_S option" where
  "OsTaskInitParamCheck taskInitParam =
     (case taskInitParam of
        None \<Rightarrow> (LOS_ERRNO_TSK_PTR_NULL, None)
      | Some p \<Rightarrow>
          if pcName p = None then (LOS_ERRNO_TSK_NAME_EMPTY, Some p)
          else if pfnTaskEntry p = None then (LOS_ERRNO_TSK_ENTRY_NULL, Some p)
          else if usTaskPrio p > OS_TASK_PRIORITY_LOWEST then (LOS_ERRNO_TSK_PRIOR_ERROR, Some p)
          else if usTaskPrio p = OS_TASK_PRIORITY_LOWEST \<and> pfnTaskEntry p \<noteq> Some OsIdleTask
          then (LOS_ERRNO_TSK_PRIOR_ERROR, Some p)
          else if uwStackSize p > LOSCFG_SYS_HEAP_SIZE then (LOS_ERRNO_TSK_STKSZ_TOO_LARGE, Some p)
          else
            (let p = (if uwStackSize p = 0
                      then p\<lparr>uwStackSize := LOSCFG_BASE_CORE_TSK_DEFAULT_STACK_SIZE\<rparr> else p)
             in if uwStackSize p < LOSCFG_BASE_CORE_TSK_MIN_STACK_SIZE
                then (LOS_ERRNO_TSK_STKSZ_TOO_SMALL, Some p) else (LOS_OK, Some p)))"

text \<open>The saved context at the end of the stack (arch/xtensa/lx6/gcc/los_context.c).\<close>

definition ArchTskStackInit :: "u32 \<Rightarrow> u32 \<Rightarrow> u32 \<Rightarrow> u32" where
  "ArchTskStackInit tid stkSize topStack = topStack + stkSize - CONTEXT_SIZE"

definition OsNewTaskInit :: "'h allocator \<Rightarrow> nat \<Rightarrow> TSK_INIT_PARAM_S \<Rightarrow> 'h \<times> sched
    \<Rightarrow> u32 \<times> 'h \<times> sched" where
  "OsNewTaskInit al t p = (\<lambda>(h, s).
     (let s1 = upd_tcb t (\<lambda>c. c\<lparr>arg := uwArg p, stackSize := uwStackSize p, taskSem := None,
                 taskMux := None, taskStatus := flag SUSPEND, priority := usTaskPrio p,
                 timeSlice := 0, waitTimes := 0, taskEntry := pfnTaskEntry p, eventMask := 0,
                 taskName := pcName p, task_msg := 0\<rparr>) s;
          s2 = SET_SORTLIST_VALUE (TaskNode t) OS_SORT_LINK_INVALID_TIME s1;
          s3 = snd (LOS_EventInit (Some (TaskEvent t)) s2);
          s4 = (if has (uwResved p) LOS_TASK_ATTR_JOINABLE
                then upd_list (JoinList t) (\<lambda>_. []) (status_set t (flag JOINABLE) s3) else s3);
          (ok, h1, s5) =
            (if stackAddr p = 0
             then (let sz = LOS_Align (uwStackSize p) OS_TASK_STACK_ADDR_ALIGN;
                       (ptr, h1) = mem_alloc_align al h sz LOSCFG_STACK_POINT_ALIGN_SIZE;
                       s' = upd_tcb t (\<lambda>c. c\<lparr>stackSize := sz, topOfStack := ptr\<rparr>) s4
                   in if ptr = 0 then (False, h1, s')
                      else (True, h1, status_set t (flag STACK_FREE) s'))
             else (let top = LOS_Align (stackAddr p) LOSCFG_STACK_POINT_ALIGN_SIZE;
                       sz = TRUNCATE (uwStackSize p - (top - stackAddr p)) OS_TASK_STACK_ADDR_ALIGN
                   in (True, h, upd_tcb t (\<lambda>c. c\<lparr>stackSize := sz, topOfStack := top\<rparr>) s4)))
      in if \<not> ok then (LOS_ERRNO_TSK_NO_MEMORY, h1, s5)
         else (LOS_OK, h1, upd_tcb t (\<lambda>c. c\<lparr>stackPointer :=
                 ArchTskStackInit (taskID c) (stackSize c) (topOfStack c)\<rparr>) s5)))"

text \<open>The identifier written through the pointer is the second result.\<close>

definition LOS_TaskCreateOnly :: "'h allocator \<Rightarrow> bool \<Rightarrow> TSK_INIT_PARAM_S option \<Rightarrow> 'h \<times> sched
    \<Rightarrow> u32 \<times> u32 option \<times> 'h \<times> sched" where
  "LOS_TaskCreateOnly al taskIDp param hs =
     (if \<not> taskIDp then (LOS_ERRNO_TSK_ID_INVALID, None, hs)
      else case OsTaskInitParamCheck param of
        (retVal, None) \<Rightarrow> (retVal, None, hs)
      | (retVal, Some p) \<Rightarrow>
          if retVal \<noteq> LOS_OK then (retVal, None, hs)
          else
            (let (h1, s1) = OsRecycleFinishedTask al hs
             in case lists s1 FreeTask of
                  [] \<Rightarrow> (LOS_ERRNO_TSK_TCB_UNAVAILABLE, None, h1, s1)
                | t # _ \<Rightarrow>
                    (let (retVal, h2, s2) = OsNewTaskInit al t p (h1, ListDelete t s1)
                     in if retVal \<noteq> LOS_OK then (retVal, None, h2, OsInsertTCBToFreeList t s2)
                        else (LOS_OK, Some (taskID (tcb s2 t)), h2, s2))))"

definition LOS_TaskCreate :: "'h allocator \<Rightarrow> bool \<Rightarrow> TSK_INIT_PARAM_S option \<Rightarrow> 'h \<times> sched
    \<Rightarrow> u32 \<times> u32 option \<times> 'h \<times> sched" where
  "LOS_TaskCreate al taskIDp param hs =
     (case LOS_TaskCreateOnly al taskIDp param hs of
        (retVal, None, hs1) \<Rightarrow> (retVal, None, hs1)
      | (retVal, Some tid, h1, s1) \<Rightarrow>
          (let s2 = OsSchedTaskEnQueue (OS_TCB_FROM_TID tid) s1
           in (LOS_OK, Some tid, h1, if g_taskScheduled s2 then LOS_Schedule s2 else s2)))"

text \<open>
  \<open>OsTaskInit\<close>: the control blocks are allocated and zeroed (\<open>mem_ok\<close>: the allocation
  succeeded); the last one stands for the deleted runner.
\<close>

definition OsTaskInit :: "bool \<Rightarrow> sched \<Rightarrow> u32 \<times> sched" where
  "OsTaskInit mem_ok s =
     (let s = s\<lparr>g_taskMaxNum := LOSCFG_BASE_CORE_TSK_LIMIT + 1\<rparr>
      in if \<not> mem_ok then (LOS_ERRNO_TSK_NO_MEMORY, s)
         else
           (let n = unat (LOSCFG_BASE_CORE_TSK_LIMIT + 1);
                s = s\<lparr>g_taskCBArray := (\<lambda>_. zero_tcb)\<rparr>;
                s = upd_list RecycleTask (\<lambda>_. []) (upd_list FreeTask (\<lambda>_. []) s);
                s = fold (\<lambda>i s. ListTailInsert FreeTask i
                       (upd_tcb i (\<lambda>c. c\<lparr>taskStatus := flag UNUSED, taskID := of_nat i\<rparr>) s))
                     [0..<n] s;
                s = s\<lparr>runTask := n\<rparr>;
                s = upd_tcb n (\<lambda>c. c\<lparr>taskID := of_nat n,
                       taskStatus := flag UNUSED OR flag RUNNING,
                       priority := OS_TASK_PRIORITY_LOWEST + 1\<rparr>) s;
                s = s\<lparr>g_idleTaskID := OS_INVALID\<rparr>
            in OsSchedInit s))"

definition OsIdleTaskCreate :: "'h allocator \<Rightarrow> 'h \<times> sched \<Rightarrow> u32 \<times> 'h \<times> sched" where
  "OsIdleTaskCreate al hs =
     (let p = \<lparr>pfnTaskEntry = Some OsIdleTask, usTaskPrio = OS_TASK_PRIORITY_LOWEST, uwArg = 0,
               stackAddr = 0, uwStackSize = LOSCFG_BASE_CORE_TSK_IDLE_STACK_SIZE,
               pcName = Some ''IdleCore000'', uwResved = 0\<rparr>
      in case LOS_TaskCreateOnly al True (Some p) hs of
           (retVal, None, hs1) \<Rightarrow> (retVal, hs1)
         | (retVal, Some tid, h1, s1) \<Rightarrow>
             (let s1 = s1\<lparr>g_idleTaskID := tid\<rparr>
              in (LOS_OK, h1, OsSchedSetIdleTaskSchedParam (OS_TCB_FROM_TID tid) s1)))"

section \<open>The current task\<close>

definition LOS_CurTaskIDGet :: "sched \<Rightarrow> u32" where
  "LOS_CurTaskIDGet s = taskID (tcb s (runTask s))"

definition LOS_NextTaskIDGet :: "sched \<Rightarrow> u32" where
  "LOS_NextTaskIDGet s = taskID (tcb s (OsGetTopTask s))"

definition LOS_NewTaskIDGet :: "sched \<Rightarrow> u32" where
  "LOS_NewTaskIDGet s = LOS_NextTaskIDGet s"

definition LOS_CurTaskNameGet :: "sched \<Rightarrow> string option" where
  "LOS_CurTaskNameGet s = taskName (tcb s (runTask s))"

definition LOS_TaskIsRunning :: "sched \<Rightarrow> bool" where
  "LOS_TaskIsRunning s = g_taskScheduled s"

definition LOS_TaskNameGet :: "u32 \<Rightarrow> sched \<Rightarrow> string option" where
  "LOS_TaskNameGet tid s =
     (if OS_CHECK_TSK_PID_NOIDLE tid s then None
      else if has (st s (OS_TCB_FROM_TID tid)) (flag UNUSED) then None
      else taskName (tcb s (OS_TCB_FROM_TID tid)))"

definition LOS_TaskStatusGet :: "u32 \<Rightarrow> bool \<Rightarrow> sched \<Rightarrow> u32 \<times> u32 option" where
  "LOS_TaskStatusGet tid out s =
     (if \<not> out then (LOS_ERRNO_TSK_PTR_NULL, None)
      else if OS_CHECK_TSK_PID_NOIDLE tid s then (LOS_ERRNO_TSK_ID_INVALID, None)
      else if has (st s (OS_TCB_FROM_TID tid)) (flag UNUSED) then (LOS_ERRNO_TSK_NOT_CREATED, None)
      else (LOS_OK, Some (ucast (st s (OS_TCB_FROM_TID tid)))))"

section \<open>Suspending and resuming\<close>

definition LOS_TaskResume :: "u32 \<Rightarrow> sched \<Rightarrow> u32 \<times> sched" where
  "LOS_TaskResume tid s =
     (if \<not> OS_TASK_ID_CHECK tid s then (LOS_ERRNO_TSK_ID_INVALID, s)
      else
        (let t = OS_TCB_FROM_TID tid; tempStatus = st s t
         in if has tempStatus (flag UNUSED) then (LOS_ERRNO_TSK_NOT_CREATED, s)
            else if \<not> has tempStatus (flag SUSPEND) then (LOS_ERRNO_TSK_NOT_SUSPENDED, s)
            else (let (needSched, s1) = OsSchedResume t s
                  in (LOS_OK, if needSched \<and> g_taskScheduled s1 then LOS_Schedule s1 else s1))))"

definition LOS_TaskSuspend :: "u32 \<Rightarrow> sched \<Rightarrow> u32 \<times> sched" where
  "LOS_TaskSuspend tid s =
     (let retErr = OsCheckTaskIDValid tid s
      in if retErr \<noteq> LOS_OK then (retErr, s)
         else
           (let t = OS_TCB_FROM_TID tid; tempStatus = st s t
            in if has tempStatus (flag UNUSED) then (LOS_ERRNO_TSK_NOT_CREATED, s)
               else if has tempStatus (flag SYSTEM_TASK) then (LOS_ERRNO_TSK_OPERATE_SYSTEM_TASK, s)
               else if has tempStatus (flag SUSPEND) then (LOS_ERRNO_TSK_ALREADY_SUSPENDED, s)
               else if has tempStatus (flag RUNNING) \<and> g_losTaskLock s \<noteq> 0
               then (LOS_ERRNO_TSK_SUSPEND_LOCKED, s)
               else (let s1 = OsSchedSuspend t s
                     in (LOS_OK, if tid = taskID (tcb s1 (runTask s1)) then LOS_Schedule s1 else s1))))"

section \<open>Joining\<close>

definition OsTaskJoinPostUnsafe :: "nat \<Rightarrow> sched \<Rightarrow> sched" where
  "OsTaskJoinPostUnsafe t s =
     (if has (st s t) (flag JOINABLE)
      then case lists s (JoinList t) of [] \<Rightarrow> s | r # _ \<Rightarrow> OsSchedTaskWake r s
      else s)"

definition OsTaskJoinPendUnsafe :: "nat \<Rightarrow> sched \<Rightarrow> u32 \<times> sched" where
  "OsTaskJoinPendUnsafe t s =
     (if has (st s t) (flag EXIT) then (LOS_OK, s)
      else if has (st s t) (flag JOINABLE) \<and> lists s (JoinList t) = []
      then (LOS_OK, OsSchedTaskWait (JoinList t) LOS_WAIT_FOREVER s)
      else (LOS_NOK, s))"

definition OsTaskSetDetachUnsafe :: "nat \<Rightarrow> sched \<Rightarrow> u32 \<times> sched" where
  "OsTaskSetDetachUnsafe t s =
     (if has (st s t) (flag JOINABLE)
      then if lists s (JoinList t) = [] then (LOS_OK, status_clr t (flag JOINABLE) s)
           else (LOS_ERRNO_TSK_NOT_JOIN, s)
      else (LOS_NOK, s))"

definition LOS_TaskJoin :: "u32 \<Rightarrow> sched \<Rightarrow> pend_result \<times> sched" where
  "LOS_TaskJoin tid s =
     (let ret = OsCheckTaskIDValid tid s
      in if ret \<noteq> LOS_OK then (Returned ret, s)
         else if intActive s then (Returned LOS_ERRNO_TSK_NOT_ALLOW_IN_INT, s)
         else if g_losTaskLock s \<noteq> 0 then (Returned LOS_ERRNO_TSK_SCHED_LOCKED, s)
         else if tid = LOS_CurTaskIDGet s then (Returned LOS_ERRNO_TSK_NOT_JOIN_SELF, s)
         else if has (st s (OS_TCB_FROM_TID tid)) (flag UNUSED)
         then (Returned LOS_ERRNO_TSK_NOT_CREATED, s)
         else (let (ret, s1) = OsTaskJoinPendUnsafe (OS_TCB_FROM_TID tid) s
               in if ret = LOS_OK then (Blocked, LOS_Schedule s1) else (Returned ret, s1)))"

text \<open>After the reschedule: the value the joined task returned, and its resources.\<close>

definition LOS_TaskJoin_resume :: "'h allocator \<Rightarrow> u32 \<Rightarrow> 'h \<times> sched \<Rightarrow> u32 \<times> u32 \<times> 'h \<times> sched" where
  "LOS_TaskJoin_resume al tid = (\<lambda>(h, s).
     (let t = OS_TCB_FROM_TID tid; retval = joinRetval (tcb s t);
          (stackPtr, s1) = OsRecycleTaskResources t (status_clr t (flag JOINABLE) s)
      in (LOS_OK, retval, mem_free al h stackPtr, s1)))"

definition LOS_TaskDetach :: "u32 \<Rightarrow> sched \<Rightarrow> pend_result \<times> sched" where
  "LOS_TaskDetach tid s =
     (let ret = OsCheckTaskIDValid tid s
      in if ret \<noteq> LOS_OK then (Returned ret, s)
         else if intActive s then (Returned LOS_ERRNO_TSK_NOT_ALLOW_IN_INT, s)
         else if has (st s (OS_TCB_FROM_TID tid)) (flag UNUSED)
         then (Returned LOS_ERRNO_TSK_NOT_CREATED, s)
         else if has (st s (OS_TCB_FROM_TID tid)) (flag EXIT) then LOS_TaskJoin tid s
         else (let (ret, s1) = OsTaskSetDetachUnsafe (OS_TCB_FROM_TID tid) s in (Returned ret, s1)))"

section \<open>Deleting\<close>

definition OsRunningTaskDelete :: "u32 \<Rightarrow> nat \<Rightarrow> sched \<Rightarrow> sched" where
  "OsRunningTaskDelete tid t s =
     (let s1 = ListTailInsert RecycleTask t s;
          n = unat (g_taskMaxNum s1)
      in upd_tcb n (\<lambda>c. c\<lparr>taskID := tid, taskStatus := st s1 t OR flag RUNNING,
              topOfStack := topOfStack (tcb s1 t), taskName := taskName (tcb s1 t)\<rparr>)
           (s1\<lparr>runTask := n\<rparr>))"

definition LOS_TaskDelete :: "'h allocator \<Rightarrow> u32 \<Rightarrow> 'h \<times> sched \<Rightarrow> u32 \<times> 'h \<times> sched" where
  "LOS_TaskDelete al tid = (\<lambda>(h, s).
     (let ret = OsCheckTaskIDValid tid s
      in if ret \<noteq> LOS_OK then (ret, h, s)
         else
           (let t = OS_TCB_FROM_TID tid
            in if has (st s t) (flag SYSTEM_TASK) then (LOS_ERRNO_TSK_OPERATE_SYSTEM_TASK, h, s)
               else if has (st s t) (flag UNUSED) then (LOS_ERRNO_TSK_NOT_CREATED, h, s)
               else if has (st s t) (flag EXIT) then (LOS_ERRNO_TSK_ALREADY_EXIT, h, s)
               else if has (st s t) (flag SIGNAL) then (LOS_ERRNO_TSK_PROCESS_SIGNAL, h, s)
               else
                 (let s1 = (if has (st s t) (flag RUNNING) \<and> g_losTaskLock s \<noteq> 0
                            then s\<lparr>g_losTaskLock := 0\<rparr> else s);
                      s2 = OsSchedTaskExit t (OsTaskJoinPostUnsafe t s1);
                      s3 = snd (LOS_EventDestroy (Some (TaskEvent t)) s2);
                      s4 = upd_tcb t (\<lambda>c. c\<lparr>eventMask := 0\<rparr>)
                             (upd_event (TaskEvent t) (\<lambda>e. e\<lparr>uwEventID := OS_NULL_INT\<rparr>) s3)
                  in if has (st s4 t) (flag RUNNING)
                     then (let s5 = (if \<not> has (st s4 t) (flag JOINABLE)
                                     then OsRunningTaskDelete tid t (status_set t (flag UNUSED) s4)
                                     else s4)
                           in (LOS_OK, h, LOS_Schedule s5))
                     else (let s5 = upd_tcb t (\<lambda>c. c\<lparr>joinRetval := LOS_CurTaskIDGet s4\<rparr>) s4;
                               (stackPtr, s6) = OsRecycleTaskResources t s5
                           in (LOS_OK, mem_free al h stackPtr, s6))))))"

text \<open>\<open>OsTaskEntry\<close>: the entry function returned \<open>v\<close>.\<close>

definition OsTaskEntry :: "'h allocator \<Rightarrow> u32 \<Rightarrow> u32 \<Rightarrow> 'h \<times> sched \<Rightarrow> u32 \<times> 'h \<times> sched" where
  "OsTaskEntry al tid v = (\<lambda>(h, s).
     (let t = OS_TCB_FROM_TID tid; s1 = upd_tcb t (\<lambda>c. c\<lparr>joinRetval := v\<rparr>) s
      in LOS_TaskDelete al (taskID (tcb s1 t)) (h, s1)))"

section \<open>Delay, priority, lock\<close>

definition LOS_TaskYield :: "sched \<Rightarrow> u32 \<times> sched" where
  "LOS_TaskYield s = (LOS_OK, LOS_Schedule (OsSchedYield s))"

definition LOS_TaskDelay :: "u32 \<Rightarrow> sched \<Rightarrow> u32 \<times> sched" where
  "LOS_TaskDelay tick s =
     (if intActive s then (LOS_ERRNO_TSK_DELAY_IN_INT, s)
      else if g_losTaskLock s \<noteq> 0 then (LOS_ERRNO_TSK_DELAY_IN_LOCK, s)
      else if has (st s (runTask s)) (flag SYSTEM_TASK) then (LOS_ERRNO_TSK_OPERATE_SYSTEM_TASK, s)
      else if tick = 0 then LOS_TaskYield s
      else (LOS_OK, LOS_Schedule (OsSchedDelay (runTask s) tick s)))"

definition LOS_TaskPriGet :: "u32 \<Rightarrow> sched \<Rightarrow> u16" where
  "LOS_TaskPriGet tid s =
     (if OS_CHECK_TSK_PID_NOIDLE tid s then ucast OS_INVALID
      else if has (st s (OS_TCB_FROM_TID tid)) (flag UNUSED) then ucast OS_INVALID
      else priority (tcb s (OS_TCB_FROM_TID tid)))"

definition LOS_TaskPriSet :: "u32 \<Rightarrow> u16 \<Rightarrow> sched \<Rightarrow> u32 \<times> sched" where
  "LOS_TaskPriSet tid taskPrio s =
     (if taskPrio > OS_TASK_PRIORITY_LOWEST then (LOS_ERRNO_TSK_PRIOR_ERROR, s)
      else if tid = g_idleTaskID s then (LOS_ERRNO_TSK_OPERATE_IDLE, s)
      else if tid = g_swtmrTaskID s then (LOS_ERRNO_TSK_OPERATE_SWTMR, s)
      else if OS_CHECK_TSK_PID_NOIDLE tid s then (LOS_ERRNO_TSK_ID_INVALID, s)
      else
        (let t = OS_TCB_FROM_TID tid; tempStatus = st s t
         in if has tempStatus (flag UNUSED) then (LOS_ERRNO_TSK_NOT_CREATED, s)
            else if has tempStatus (flag SYSTEM_TASK) then (LOS_ERRNO_TSK_OPERATE_SYSTEM_TASK, s)
            else (let (isReady, s1) = OsSchedModifyTaskSchedParam t taskPrio s
                  in (LOS_OK, if isReady then LOS_Schedule s1 else s1))))"

definition LOS_CurTaskPriSet :: "u16 \<Rightarrow> sched \<Rightarrow> u32 \<times> sched" where
  "LOS_CurTaskPriSet taskPrio s = LOS_TaskPriSet (taskID (tcb s (runTask s))) taskPrio s"

definition LOS_TaskLock :: "sched \<Rightarrow> sched" where
  "LOS_TaskLock s = s\<lparr>g_losTaskLock := g_losTaskLock s + 1\<rparr>"

definition LOS_TaskUnlock :: "sched \<Rightarrow> sched" where
  "LOS_TaskUnlock s =
     (if g_losTaskLock s > 0
      then (let s1 = s\<lparr>g_losTaskLock := g_losTaskLock s - 1\<rparr>
            in if g_losTaskLock s1 = 0 then LOS_Schedule s1 else s1)
      else s)"

definition LOS_Msleep :: "u32 \<Rightarrow> sched \<Rightarrow> sched" where
  "LOS_Msleep mSecs s =
     (if intActive s then s
      else (let interval = (if mSecs = 0 then 0
                            else (let i = LOS_MS2Tick mSecs in if i = 0 then 1 else i))
            in snd (LOS_TaskDelay interval s)))"

end
