(* ===== verification/Los_TaskProps.thy ===== *)
theory Los_TaskProps
  imports Los_Task
begin

text \<open>
  The properties of the task calls: each keeps the kernel's invariant, and what it does to the
  task it names.
\<close>

section \<open>The invariant under the scheduler's operations\<close>

lemma kern_okI:
  assumes "wait_inv s'" "run_ok s'" "idle_ok s'" "has (st s' (runTask s')) (flag RUNNING)"
  shows "kern_ok s'"
  using assms by (simp add: kern_ok_def)

lemma kern_ok_DeQueue:
  assumes k: "kern_ok s"
  shows "kern_ok (OsSchedTaskDeQueue t s)"
proof (rule kern_okI)
  note d = kern_okD [OF k]
  let ?d = "OsSchedTaskDeQueue t s"
  have st: "has (st ?d x) (flag F) = (has (st s x) (flag F) \<and> \<not> (x = t \<and> F = READY))" for x F
    by (auto simp: DeQueue_tcb)
  have pr: "priority (tcb ?d x) = priority (tcb s x)" "taskID (tcb ?d x) = taskID (tcb s x)" for x
    by (simp_all add: DeQueue_tcb)
  show "wait_inv ?d"
    using d(2) sched_ok_DeQueue [OF d(1)] by (simp add: wait_inv_def st pr)
  show "run_ok ?d" using d(3) unlinked_DeQueue by (auto simp: run_ok_def Let_def st pr)
  show "idle_ok ?d" using d(4) unlinked_DeQueue by (auto simp: idle_ok_def Let_def pr is_idle_def)
  show "has (st ?d (runTask ?d)) (flag RUNNING)" using d(5) by (simp add: st)
qed

text \<open>The invariant while there may be no idle task yet.\<close>

definition core_ok :: "sched \<Rightarrow> bool" where
  "core_ok s \<longleftrightarrow> wait_inv s \<and> run_ok s \<and> has (st s (runTask s)) (flag RUNNING)"

lemma kern_core: "kern_ok s \<longleftrightarrow> core_ok s \<and> idle_ok s"
  by (auto simp: kern_ok_def core_ok_def)

lemma core_ok_EnQueue:
  assumes k: "core_ok s" and t: "t \<noteq> runTask s" and u: "unlinked s t"
    and p: "unat (priority (tcb s t)) < 32"
  shows "core_ok (OsSchedTaskEnQueue t s)"
proof -
  have d: "wait_inv s" "run_ok s" "has (st s (runTask s)) (flag RUNNING)" using k by (simp_all add: core_ok_def)
  let ?e = "OsSchedTaskEnQueue t s"
  have o: "tcb ?e x = tcb s x" if "x \<noteq> t" for x using that by (simp add: EnQueue_tcb)
  have pr: "priority (tcb ?e x) = priority (tcb s x)" for x by (simp add: EnQueue_tcb)
  have np: "\<not> has (st ?e t) (flag PEND)" by (simp add: EnQueue_tcb)
  have "unat (priority (tcb s x)) < 32" if "has (st ?e x) (flag PEND)" for x
    using that np o [of x] d(1) by (cases "x = t") (simp_all add: wait_inv_def)
  then have "wait_inv ?e"
    using sched_ok_EnQueue [OF wait_inv_sched [OF d(1)] u p] by (simp add: wait_inv_def pr)
  moreover have "run_ok ?e"
    using d(2) t unlinked_EnQueue [of s "runTask s" t] o [of "runTask s"]
    by (auto simp: run_ok_def Let_def)
  moreover have "has (st ?e (runTask ?e)) (flag RUNNING)" using d(3) t o [of "runTask s"] by simp
  ultimately show ?thesis by (simp add: core_ok_def)
qed

lemma idle_ok_EnQueue: "idle_ok s \<Longrightarrow> idle_ok (OsSchedTaskEnQueue t s)"
  using unlinked_EnQueue [of s "OS_TCB_FROM_TID (g_idleTaskID s)" t]
  by (auto simp: idle_ok_def Let_def is_idle_def EnQueue_tcb)

lemma kern_ok_EnQueue:
  assumes "kern_ok s" "t \<noteq> runTask s" "unlinked s t" "unat (priority (tcb s t)) < 32"
  shows "kern_ok (OsSchedTaskEnQueue t s)"
  using assms core_ok_EnQueue idle_ok_EnQueue by (simp add: kern_core)

lemma kern_ok_status_set:
  assumes k: "kern_ok s" and f: "\<not> has f (flag READY)" "\<not> has f (flag PEND)"
  shows "kern_ok (status_set t f s)"
proof (rule kern_okI)
  note d = kern_okD [OF k]
  have "wait_inv (status_set t f s) = wait_inv s"
    by (rule wait_inv_cong) (use f in \<open>auto simp: status_defs\<close>)
  then show "wait_inv (status_set t f s)" using d(2) by simp
  show "run_ok (status_set t f s)" using d(3) f by (auto simp: run_ok_def Let_def status_defs)
  show "idle_ok (status_set t f s)" using d(4) by (auto simp: idle_ok_def Let_def is_idle_def status_defs)
  show "has (st (status_set t f s) (runTask (status_set t f s))) (flag RUNNING)"
    using d(5) by (auto simp: status_defs)
qed

lemma TCB_FROM_TID_inj: "OS_TCB_FROM_TID a = OS_TCB_FROM_TID b \<longleftrightarrow> a = b"
  by (auto simp: OS_TCB_FROM_TID_def intro: unsigned_word_eqI)

lemma kern_ok_SchedSuspend:
  assumes k: "kern_ok s"
  shows "kern_ok (OsSchedSuspend t s)"
  using kern_ok_DeQueue [OF k, of t] k
  by (simp add: OsSchedSuspend_def Let_def OsIsPmMode_def kern_ok_status_set)

lemma SchedSuspend_status:
  "has (st (OsSchedSuspend t s) x) (flag F) =
     (if x = t then F = SUSPEND \<or> F \<noteq> READY \<and> has (st s t) (flag F) else has (st s x) (flag F))"
  "runTask (OsSchedSuspend t s) = runTask s" "taskID (tcb (OsSchedSuspend t s) x) = taskID (tcb s x)"
  "g_idleTaskID (OsSchedSuspend t s) = g_idleTaskID s"
  "g_losTaskLock (OsSchedSuspend t s) = g_losTaskLock s"
  "g_taskScheduled (OsSchedSuspend t s) = g_taskScheduled s"
  "intActive (OsSchedSuspend t s) = intActive s"
  by (auto simp: OsSchedSuspend_def Let_def OsIsPmMode_def status_defs DeQueue_tcb)



section \<open>Suspending\<close>




section \<open>Resuming\<close>

text \<open>
  C35. Resuming, on every branch (a frozen task does not arise: the power mode that freezes tasks is
  off). A wrong identifier, an unused block and a task that is not suspended are errors, each with
  its code, that change nothing. Otherwise the call succeeds and the suspension is lifted. A task
  that is pending or delayed goes on waiting: nothing but its suspension changes. Any other
  task but the running one, if it is on no list, as a suspended task is, is ready or already runs
  when the call is over, and the invariant is kept.
\<close>

theorem task_resume:
  assumes "kern_ok s" "t = OS_TCB_FROM_TID tid" "\<not> has (st s t) (flag FREEZE)" "LOS_TaskResume tid s = (r, s')"
  shows "if \<not> OS_TASK_ID_CHECK tid s then r = LOS_ERRNO_TSK_ID_INVALID \<and> s' = s
    else if has (st s t) (flag UNUSED) then r = LOS_ERRNO_TSK_NOT_CREATED \<and> s' = s
    else if \<not> has (st s t) (flag SUSPEND) then r = LOS_ERRNO_TSK_NOT_SUSPENDED \<and> s' = s
    else r = LOS_OK \<and> \<not> has (st s' t) (flag SUSPEND)
      \<and> (if has (st s t) (flag DELAY OR flag PEND) then kern_ok s' \<and> s' = status_clr t (flag SUSPEND) s
         else (has (st s' t) (flag READY) \<or> runTask s' = t)
           \<and> (t \<noteq> runTask s \<and> unlinked s t \<and> unat (priority (tcb s t)) < 32 \<longrightarrow> kern_ok s'))"
proof (cases "\<not> OS_TASK_ID_CHECK tid s \<or> has (st s t) (flag UNUSED) \<or> \<not> has (st s t) (flag SUSPEND)")
  case True
  then show ?thesis using assms(2,4) by (auto simp: LOS_TaskResume_def Let_def)
next
  case False
  let ?s1 = "status_clr t (flag SUSPEND) s"
  have k1: "kern_ok ?s1" using assms(1) by (rule kern_ok_flag_clr) simp_all
  have n1: "\<not> has (st ?s1 t) (flag SUSPEND)" by (simp add: status_defs)
  show ?thesis
  proof (cases "has (st s t) (flag DELAY OR flag PEND)")
    case True
    then have "OsSchedResume t s = (False, ?s1)" using assms(3) by (auto simp: OsSchedResume_def Let_def status_defs)
    then have "r = LOS_OK" "s' = ?s1" using assms(2,4) False by (auto simp: LOS_TaskResume_def Let_def)
    then show ?thesis using True False k1 n1 by simp
  next
    case free: False
    let ?s2 = "OsSchedTaskEnQueue t ?s1"
    have "OsSchedResume t s = (True, ?s2)" using assms(3) free by (auto simp: OsSchedResume_def Let_def status_defs)
    then have s': "r = LOS_OK" "s' = (if g_taskScheduled ?s2 then LOS_Schedule ?s2 else ?s2)"
      using assms(2,4) False by (auto simp: LOS_TaskResume_def Let_def)
    have "\<not> has (st ?s2 t) (flag SUSPEND)" "has (st ?s2 t) (flag READY)" by (simp_all add: EnQueue_tcb)
    then have "\<not> has (st s' t) (flag SUSPEND)" "has (st s' t) (flag READY) \<or> runTask s' = t"
      using Schedule_suspend [of ?s2 t] Schedule_more_status(3) [of ?s2 t] unfolding s'(2) by presburger+
    moreover have "kern_ok s'" if "t \<noteq> runTask s" "unlinked s t" "unat (priority (tcb s t)) < 32"
    proof -
      have "kern_ok ?s2" by (rule kern_ok_EnQueue [OF k1]) (use that in \<open>simp_all add: status_defs\<close>)
      then show ?thesis using kern_ok_Schedule unfolding s'(2) by presburger
    qed
    ultimately show ?thesis using s'(1) False free by simp
  qed
qed

definition ex_suspended :: sched where
  "ex_suspended = snd (LOS_TaskSuspend 2 ex_sched)"

lemma ex_suspended_eq: "ex_suspended = OsSchedSuspend 2 ex_sched"
proof -
  have "OsCheckTaskIDValid 2 ex_sched = LOS_OK"
    by (simp add: OsCheckTaskIDValid_def word_le_nat_alt)
  then show ?thesis
    by (simp add: ex_suspended_def LOS_TaskSuspend_def Let_def OS_TCB_FROM_TID_def ex_tasks_def
        SchedSuspend_status)
qed

theorem task_resume_witness:
  "kern_ok (snd (LOS_TaskResume 2 ex_suspended)) \<and> \<not> has (st (snd (LOS_TaskResume 2 ex_suspended)) 2) (flag SUSPEND)"
proof -
  obtain r s' where e: "LOS_TaskResume 2 ex_suspended = (r, s')" by fastforce
  have k: "kern_ok ex_suspended" by (simp add: ex_suspended_eq kern_ok_SchedSuspend ex_kern_ok)
  have d: "lists (OsSchedSuspend 2 ex_sched) = (\<lambda>l. removeAll 2 (ex_lists l))"
    "g_taskMaxNum (OsSchedSuspend 2 ex_sched) = 6"
    "priority (tcb (OsSchedSuspend 2 ex_sched) 2) = 5"
    by (simp_all add: OsSchedSuspend_def Let_def OsIsPmMode_def status_defs ex_tasks_def
        OsSchedTaskDeQueue_def OsSchedPriQueueDelete_def list_op_defs is_idle_def)
  have f: "OS_TASK_ID_CHECK 2 ex_suspended" "2 = OS_TCB_FROM_TID 2" "2 \<noteq> runTask ex_suspended"
    "\<not> has (st ex_suspended 2) (flag FREEZE)" "\<not> has (st ex_suspended 2) (flag UNUSED)" "has (st ex_suspended 2) (flag SUSPEND)"
    "\<not> has (st ex_suspended 2) (flag DELAY OR flag PEND)" "unlinked ex_suspended 2"
    "unat (priority (tcb ex_suspended 2)) < 32"
    by (simp_all add: ex_suspended_eq SchedSuspend_status ex_tasks_def OS_TASK_ID_CHECK_def d
        unlinked_def on_list_def OS_TCB_FROM_TID_def word_less_nat_alt)
  from task_resume [OF k f(2,4) e] f e show ?thesis by simp
qed

section \<open>Resuming the running task\<close>

lemma panic_mono:
  "panic k \<Longrightarrow> panic (snd (LOS_SysCycleGet k))"
  "panic k \<Longrightarrow> panic (snd (OsTickTimerReload p k))"
  "panic (tk s) \<Longrightarrow> panic (tk (OsSchedSetNextExpireTime i e s))"
proof -
  show A: "panic (snd (LOS_SysCycleGet k))" if "panic k" for k
    using that by (auto simp: LOS_SysCycleGet_def getCycle_def tick_assert_def Let_def
        split: option.split prod.split)
  have B: "panic (snd (OsTickTimerReload p k))" if "panic k" for k p
    using A [OF that] by (auto simp: OsTickTimerReload_def reload_def case_prod_beta Let_def split: option.splits)
  then show "panic k \<Longrightarrow> panic (snd (OsTickTimerReload p k))" by blast
  show "panic (tk s) \<Longrightarrow> panic (tk (OsSchedSetNextExpireTime i e s))"
    using A B by (simp add: OsSchedSetNextExpireTime_def GetCurrSchedTimeCycle_eq Let_def case_prod_beta)
qed

lemma DeQueue_switch_in_tk: "tk (switch_in r s) = tk s"
  by (simp add: switch_in_def Let_def status_defs)

text \<open>
  A task that suspended itself and has not been switched out yet (the call was made in an
  interrupt, or an interrupt came between the suspension and the reschedule) is still running;
  resuming it there puts it into the ready queue while it runs, and the switch at the end of the
  interrupt then fails the assertion in \<open>OsSchedTaskEnQueue\<close>.
\<close>

theorem resume_running_task_asserts:
  assumes "kern_ok s" "intActive s" "OS_TASK_ID_CHECK tid s" "OS_TCB_FROM_TID tid = runTask s"
    and "has (st s (runTask s)) (flag SUSPEND)"
    and "\<not> has (st s (runTask s)) (flag UNUSED OR flag FREEZE OR flag DELAY OR flag PEND OR flag PEND_TIME OR flag EXIT)"
    and "LOS_TaskResume tid s = (r, s')"
  shows "r = LOS_OK \<and> has (st s' (runTask s)) (flag READY) \<and> has (st s' (runTask s)) (flag RUNNING)
    \<and> panic (tk (snd (OsSchedTaskSwitch (s'\<lparr>intActive := False\<rparr>))))"
proof -
  let ?t = "runTask s"
  let ?s2 = "OsSchedTaskEnQueue ?t (status_clr ?t (flag SUSPEND) s)"
  have res: "OsSchedResume ?t s = (True, ?s2)"
    using assms(6) by (simp add: OsSchedResume_def Let_def status_defs)
  have s': "r = LOS_OK" "s' = (if g_taskScheduled ?s2 then LOS_Schedule ?s2 else ?s2)"
    using assms(3-7) by (auto simp: LOS_TaskResume_def Let_def res)
  have s'2: "s' = ?s2 \<or> s' = ?s2\<lparr>g_sysNeedSched := True\<rparr>"
    using assms(2) by (auto simp: s'(2) LOS_Schedule_def ArchTaskSchedule_def status_defs)
  have f: "has (st s' ?t) (flag READY)" "has (st s' ?t) (flag RUNNING)" "runTask s' = ?t"
    "\<not> has (st s' ?t) (flag UNUSED OR flag DELAY OR flag PEND OR flag PEND_TIME OR flag EXIT OR flag SUSPEND)"
    using s'2 kern_okD(5) [OF assms(1)] assms(6) by (auto simp: EnQueue_tcb status_defs)
  let ?u = "s'\<lparr>intActive := False\<rparr>"
  have "panic (tk (switch_out ?u))"
    using f by (simp add: switch_out_def GetCurrSchedTimeCycle_eq Let_def blocked_status
        OsSchedTaskEnQueue_def sched_assert_def tick_assert_def status_defs OsSchedPriQueueEnHead_def
        OsSchedPriQueueEnTail_def list_op_defs)
  then have "panic (tk (snd (OsSchedTaskSwitch ?u)))"
    by (simp add: TaskSwitch_split Let_def panic_mono(3) DeQueue_switch_in_tk)
  with f s'(1) show ?thesis by simp
qed

definition ex_self_suspended :: sched where
  "ex_self_suspended = OsSchedSuspend 1 (ex_sched\<lparr>intActive := True\<rparr>)"

theorem resume_running_task_asserts_witness:
  "panic (tk (snd (OsSchedTaskSwitch ((snd (LOS_TaskResume 1 ex_self_suspended))\<lparr>intActive := False\<rparr>))))"
proof -
  obtain r s' where e: "LOS_TaskResume 1 ex_self_suspended = (r, s')" by fastforce
  have "kern_ok (ex_sched\<lparr>intActive := True\<rparr>) = kern_ok ex_sched" by (rule kern_ok_cong) simp_all
  then have k: "kern_ok ex_self_suspended"
    by (simp add: ex_self_suspended_def kern_ok_SchedSuspend ex_kern_ok)
  have "g_taskMaxNum (OsSchedSuspend 1 (ex_sched\<lparr>intActive := True\<rparr>)) = 6"
    by (simp add: OsSchedSuspend_def Let_def OsIsPmMode_def status_defs)
  then have "intActive ex_self_suspended" "OS_TASK_ID_CHECK 1 ex_self_suspended"
    "OS_TCB_FROM_TID 1 = runTask ex_self_suspended"
    "has (st ex_self_suspended (runTask ex_self_suspended)) (flag SUSPEND)"
    "\<not> has (st ex_self_suspended (runTask ex_self_suspended))
        (flag UNUSED OR flag FREEZE OR flag DELAY OR flag PEND OR flag PEND_TIME OR flag EXIT)"
    by (simp_all add: ex_self_suspended_def SchedSuspend_status ex_tasks_def OS_TASK_ID_CHECK_def
        OS_TCB_FROM_TID_def)
  from resume_running_task_asserts [OF k this e] e show ?thesis by simp
qed

section \<open>Priorities\<close>

lemma kern_ok_set_priority:
  assumes k: "kern_ok s" and p: "unat p < 32" and r: "\<not> has (st s t) (flag READY)"
  shows "kern_ok (set_priority t p s)"
proof (rule kern_okI)
  note d = kern_okD [OF k]
  have "sched_ok (set_priority t p s)"
    using d(1) r by (auto simp: sched_ok_def inv_defs set_priority_def split: if_splits)
  then show "wait_inv (set_priority t p s)" using d(2) p by (simp add: wait_inv_def set_priority_def)
  show "run_ok (set_priority t p s)" using d(3) p by (auto simp add: run_ok_def Let_def set_priority_def)
  show "idle_ok (set_priority t p s)"
    using d(4) p by (auto simp: idle_ok_def Let_def set_priority_def is_idle_def)
  show "has (st (set_priority t p s) (runTask (set_priority t p s))) (flag RUNNING)"
    using d(5) by (auto simp add: set_priority_def)
qed

lemma kern_ok_Modify:
  assumes k: "kern_ok s" and i: "\<not> is_idle s t" and p: "unat p < 32"
  shows "kern_ok (snd (OsSchedModifyTaskSchedParam t p s))"
    "priority (tcb (snd (OsSchedModifyTaskSchedParam t p s)) x) = (if x = t then p else priority (tcb s x))"
    "wait_list l \<Longrightarrow> lists (snd (OsSchedModifyTaskSchedParam t p s)) l = lists s l"
    "runTask (snd (OsSchedModifyTaskSchedParam t p s)) = runTask s"
proof -
  note d = kern_okD [OF k]
  let ?d = "OsSchedTaskDeQueue t s"
  have ready: "kern_ok (OsSchedTaskEnQueue t (set_priority t p ?d))" if r: "has (st s t) (flag READY)"
  proof (rule kern_ok_EnQueue)
    show "kern_ok (set_priority t p ?d)"
      using kern_ok_DeQueue [OF k, of t] p r by (intro kern_ok_set_priority) (simp_all add: DeQueue_tcb)
    show "t \<noteq> runTask (set_priority t p ?d)" using run_not_ready [OF k] r by (auto simp: set_priority_def)
    show "unlinked (set_priority t p ?d) t"
      using DeQueue_unlinked [OF d(1) r i] by (simp add: set_priority_def)
    show "unat (priority (tcb (set_priority t p ?d) t)) < 32" using p by (simp add: set_priority_def)
  qed
  show "kern_ok (snd (OsSchedModifyTaskSchedParam t p s))"
    using ready kern_ok_set_priority [OF k p] by (simp add: OsSchedModifyTaskSchedParam_def)
  show "priority (tcb (snd (OsSchedModifyTaskSchedParam t p s)) x) = (if x = t then p else priority (tcb s x))"
    by (simp add: OsSchedModifyTaskSchedParam_def EnQueue_tcb DeQueue_tcb set_priority_def)
  show "lists (snd (OsSchedModifyTaskSchedParam t p s)) l = lists s l" if w: "wait_list l"
  proof (cases "has (st s t) (flag READY)")
    case True
    have "on_list s (PriQueue (unat (priority (tcb s t)))) t"
      using d(1) True i by (auto simp: sched_ok_def ready_ok_def)
    then have "t \<notin> set (lists s l)"
      using wait_unique [OF d(1) w] w by (metis on_list_def wait_list.simps(1))
    then show ?thesis using True w by (cases l)
        (simp_all add: OsSchedModifyTaskSchedParam_def EnQueue_lists DeQueue_lists set_priority_def
          removeAll_id)
  qed (simp add: OsSchedModifyTaskSchedParam_def set_priority_def)
  show "runTask (snd (OsSchedModifyTaskSchedParam t p s)) = runTask s"
    by (simp add: OsSchedModifyTaskSchedParam_def set_priority_def)
qed

lemma PriSet_result:
  assumes "kern_ok s" "p \<le> OS_TASK_PRIORITY_LOWEST" "tid \<noteq> g_idleTaskID s" "tid \<noteq> g_swtmrTaskID s"
    and "tid < g_taskMaxNum s" "t = OS_TCB_FROM_TID tid" "taskID (tcb s t) = tid"
    and "\<not> has (st s t) (flag UNUSED OR flag SYSTEM_TASK)" "LOS_TaskPriSet tid p s = (r, s')"
  shows "r = LOS_OK \<and> s' = (let m = OsSchedModifyTaskSchedParam t p s in if fst m then LOS_Schedule (snd m) else snd m)
    \<and> kern_ok s'
    \<and> (\<forall>x. priority (tcb s' x) = (if x = t then p else priority (tcb s x)))
    \<and> (\<forall>l. wait_list l \<longrightarrow> lists s' l = lists s l)"
proof -
  have p: "unat p < 32" using assms(2) by (simp add: OS_TASK_PRIORITY_LOWEST_def word_le_nat_alt)
  have i: "\<not> is_idle s t" using assms(3,7) by (simp add: is_idle_def)
  note m = kern_ok_Modify [OF assms(1) i p]
  let ?m = "OsSchedModifyTaskSchedParam t p s"
  have "LOS_TaskPriSet tid p s = (LOS_OK, if fst ?m then LOS_Schedule (snd ?m) else snd ?m)"
    using assms(2-5,8) by (simp add: LOS_TaskPriSet_def OS_CHECK_TSK_PID_NOIDLE_def Let_def
        case_prod_beta assms(6) [symmetric] not_less not_le)
  then have s': "r = LOS_OK" "s' = (if fst ?m then LOS_Schedule (snd ?m) else snd ?m)"
    using assms(9) by simp_all
  then show ?thesis
    using m(1,2,3) by (simp add: Let_def kern_ok_Schedule Schedule_status Schedule_wait_lists)
qed

text \<open>
  Setting the priority of a task that allows it keeps the invariant, gives that task the
  priority and leaves the priority of every other task and every wait list as they were.
\<close>

theorem task_priority_set:
  assumes "kern_ok s" "p \<le> OS_TASK_PRIORITY_LOWEST" "tid \<noteq> g_idleTaskID s" "tid \<noteq> g_swtmrTaskID s"
    and "tid < g_taskMaxNum s" "t = OS_TCB_FROM_TID tid" "taskID (tcb s t) = tid"
    and "\<not> has (st s t) (flag UNUSED OR flag SYSTEM_TASK)" "LOS_TaskPriSet tid p s = (r, s')"
  shows "r = LOS_OK \<and> kern_ok s'
    \<and> (\<forall>x. priority (tcb s' x) = (if x = t then p else priority (tcb s x)))
    \<and> (\<forall>l. wait_list l \<longrightarrow> lists s' l = lists s l)"
  using PriSet_result [OF assms] by blast

theorem task_priority_set_witness:
  "priority (tcb (snd (LOS_TaskPriSet 2 20 ex_sched)) 2) = 20"
proof -
  obtain r s' where e: "LOS_TaskPriSet 2 20 ex_sched = (r, s')" by fastforce
  have "20 \<le> OS_TASK_PRIORITY_LOWEST" "2 \<noteq> g_idleTaskID ex_sched" "2 \<noteq> g_swtmrTaskID ex_sched"
    "2 < g_taskMaxNum ex_sched" "2 = OS_TCB_FROM_TID 2" "taskID (tcb ex_sched 2) = 2"
    "\<not> has (st ex_sched 2) (flag UNUSED OR flag SYSTEM_TASK)"
    by (simp_all add: OS_TASK_PRIORITY_LOWEST_def ex_tasks_def OS_TCB_FROM_TID_def word_le_nat_alt
        word_less_nat_alt)
  from task_priority_set [OF ex_kern_ok this e] e show ?thesis by simp
qed

section \<open>Delaying\<close>

lemma Add2SortLink_task:
  fixes a :: u64 and w :: u32
  assumes so: "sorted_link (responseTime s) (g_taskSortLink s)" and d: "distinct (g_taskSortLink s)"
    and n: "n \<notin> set (g_taskSortLink s)"
  defines "at \<equiv> a + OS_SYS_TICK_TO_CYCLE (g_sysClock (tk s)) w"
  defines "s' \<equiv> OsAdd2SortLink n a w OS_SORT_LINK_TASK s"
  shows "responseTime s' = (responseTime s)(n := at)"
    "sorted_link (responseTime s') (g_taskSortLink s')" "distinct (g_taskSortLink s')"
    "set (g_taskSortLink s') = insert n (set (g_taskSortLink s))"
proof -
  let ?rt = "(responseTime s)(n := at)"
  have "sorted_link ?rt (g_taskSortLink s) = sorted_link (responseTime s) (g_taskSortLink s)"
    using n by (intro sorted_link_cong) auto
  then have "sorted_link ?rt (g_taskSortLink s)" using so by simp
  then obtain ys where ys: "OsAddNode2SortLink ?rt n (g_taskSortLink s) = Some ys" "sorted_link ?rt ys"
    "set ys = insert n (set (g_taskSortLink s))" "distinct ys \<longleftrightarrow> distinct (n # g_taskSortLink s)"
    using AddNode_sorted by blast
  have s': "s' = s\<lparr>responseTime := ?rt, g_taskSortLink := ys\<rparr>"
    using ys(1) by (simp add: s'_def at_def OsAdd2SortLink_def SET_SORTLIST_VALUE_def link_of_def
        set_link_def Let_def)
  show "responseTime s' = (responseTime s)(n := at)"
    "sorted_link (responseTime s') (g_taskSortLink s')" "distinct (g_taskSortLink s')"
    "set (g_taskSortLink s') = insert n (set (g_taskSortLink s))"
    using ys d n by (simp_all add: s')
qed

lemma TimeSliceUpdate_start:
  "startTime (tcb (OsTimeSliceUpdate t c s) t) = c"
  "g_sysClock (tk (OsTimeSliceUpdate t c s)) = g_sysClock (tk s)"
  by (simp_all add: OsTimeSliceUpdate_def Let_def sched_assert_def tick_assert_def)

lemma SysCycleGet_clock [simp]: "g_sysClock (snd (LOS_SysCycleGet k)) = g_sysClock k"
  by (auto simp: LOS_SysCycleGet_def getCycle_def tick_assert_def Let_def split: option.split prod.split)

text \<open>The half of the switch that puts a delayed running task on the timer list.\<close>

lemma switch_out_delay:
  assumes tm: "timer_ok s" and n: "TaskNode (runTask s) \<notin> set (g_taskSortLink s)"
    and r: "waiting s (runTask s)" "has (st s (runTask s)) (flag DELAY OR flag PEND_TIME)"
  defines "now \<equiv> fst (LOS_SysCycleGet (tk s))"
  defines "s3 \<equiv> switch_out s"
  shows "timer_ok s3" "TaskNode (runTask s) \<in> set (g_taskSortLink s3)"
    "responseTime s3 (TaskNode (runTask s))
       = now + OS_SYS_TICK_TO_CYCLE (g_sysClock (tk s)) (waitTimes (tcb s (runTask s)))"
    "startTime (tcb s3 (runTask s)) = now" "st s3 x = st s x"
proof -
  let ?s2 = "OsTimeSliceUpdate (runTask s) now (s\<lparr>tk := snd (LOS_SysCycleGet (tk s))\<rparr>)"
  have s3: "s3 = OsAdd2SortLink (TaskNode (runTask s)) (startTime (tcb ?s2 (runTask s)))
                (waitTimes (tcb ?s2 (runTask s))) OS_SORT_LINK_TASK ?s2"
    using r(2) by (auto simp: s3_def switch_out_def GetCurrSchedTimeCycle_eq Let_def now_def)
  have link: "g_taskSortLink ?s2 = g_taskSortLink s" "responseTime ?s2 = responseTime s" by simp_all
  have "sorted_link (responseTime ?s2) (g_taskSortLink ?s2)" "distinct (g_taskSortLink ?s2)"
    "TaskNode (runTask s) \<notin> set (g_taskSortLink ?s2)"
    using tm n by (simp_all add: timer_ok_def)
  note a = Add2SortLink_task [OF this, of "startTime (tcb ?s2 (runTask s))"
      "waitTimes (tcb ?s2 (runTask s))", folded s3]
  have w: "waiting s3 x = waiting s x" for x by (simp add: s3 waiting_def)
  show "timer_ok s3" unfolding timer_ok_def using a tm r(1) by (auto simp: w timer_ok_def)
  show "TaskNode (runTask s) \<in> set (g_taskSortLink s3)" using a(4) by simp
  show "responseTime s3 (TaskNode (runTask s))
       = now + OS_SYS_TICK_TO_CYCLE (g_sysClock (tk s)) (waitTimes (tcb s (runTask s)))"
    using a(1) by (simp add: TimeSliceUpdate_start)
  show "startTime (tcb s3 (runTask s)) = now" by (simp add: s3 TimeSliceUpdate_start)
  show "st s3 x = st s x" by (simp add: s3)
qed

lemma timer_ok_switch_in:
  assumes "timer_ok s"
  shows "timer_ok (switch_in r s)" "g_taskSortLink (switch_in r s) = g_taskSortLink s"
    "responseTime (switch_in r s) = responseTime s"
proof -
  show l: "g_taskSortLink (switch_in r s) = g_taskSortLink s"
    "responseTime (switch_in r s) = responseTime s"
    by (simp_all add: switch_in_def Let_def status_defs)
  have "waiting (switch_in r s) x" if "waiting s x" for x
  proof -
    have "unlinked (switch_in r s) x" if "unlinked s x" for x
      using that by (auto simp: switch_in_def Let_def unlinked_def on_list_def DeQueue_lists status_defs
          split: if_splits)
    moreover have "has (st (switch_in r s) x) (flag DELAY) = has (st s x) (flag DELAY)"
      by (auto simp: switch_in_def Let_def DeQueue_tcb status_defs)
    ultimately show ?thesis using that by (auto simp: waiting_def switch_in_status)
  qed
  then show "timer_ok (switch_in r s)" using assms by (auto simp: timer_ok_def l)
qed

lemma Arch_timer:
  assumes "\<not> intActive s"
  defines "s3 \<equiv> switch_out (s\<lparr>g_sysNeedSched := False\<rparr>)"
  shows "g_taskSortLink (ArchTaskSchedule s) = g_taskSortLink (switch_in (runTask s) s3)"
    "responseTime (ArchTaskSchedule s) = responseTime (switch_in (runTask s) s3)"
  using assms(1) by (simp_all add: ArchTaskSchedule_def TaskSwitch_split case_prod_beta Let_def s3_def)

text \<open>
  C36. A task that delays itself by a positive number of ticks, with the scheduler running and
  unlocked, is on the timer list when the call has switched away; it is due at the time of the
  switch plus the ticks in cycles, is not ready, and the timer list is still in order.
\<close>

theorem task_delay:
  assumes "kern_ok s" "timer_ok s" "OsCheckKernelRunning s" "\<not> intActive s" "tick \<noteq> 0"
    and "t = runTask s" "\<not> has (st s t) (flag SYSTEM_TASK OR flag PEND)"
    and "TaskNode t \<notin> set (g_taskSortLink s)" "unat (priority (tcb s t)) < 32"
    and "LOS_TaskDelay tick s = (r, s')"
  shows "r = LOS_OK \<and> kern_ok s' \<and> timer_ok s' \<and> TaskNode t \<in> set (g_taskSortLink s')
    \<and> responseTime s' (TaskNode t)
        = fst (LOS_SysCycleGet (tk s)) + OS_SYS_TICK_TO_CYCLE (g_sysClock (tk s)) tick
    \<and> \<not> has (st s' t) (flag READY)"
proof -
  let ?s1 = "OsSchedDelay t tick s"
  let ?s0 = "?s1\<lparr>g_sysNeedSched := False\<rparr>"
  let ?s3 = "switch_out ?s0"
  note d = kern_okD [OF assms(1)]
  have k1: "kern_ok ?s1"
  proof -
    have "kern_ok (status_set t (flag DELAY) s)" by (rule kern_ok_status_set [OF assms(1)]) simp_all
    moreover have "kern_ok ?s1 = kern_ok (status_set t (flag DELAY) s)"
      by (rule kern_ok_cong) (simp_all add: OsSchedDelay_def)
    ultimately show ?thesis by simp
  qed
  have lock: "g_losTaskLock s = 0" "g_taskScheduled s"
    using assms(3) by (simp_all add: OsCheckKernelRunning_def LOS_CHECK_SCHEDULE_def)
  have f1: "runTask ?s0 = t" "g_taskSortLink ?s0 = g_taskSortLink s" "responseTime ?s0 = responseTime s"
    "tk ?s0 = tk s" "waitTimes (tcb ?s0 t) = tick" "intActive ?s1 = intActive s" "lists ?s0 = lists s"
    "OsCheckKernelRunning ?s1 = OsCheckKernelRunning s" "runTask ?s1 = t"
    using assms(6) by (simp_all add: OsSchedDelay_def status_defs OsCheckKernelRunning_def LOS_CHECK_SCHEDULE_def)
  have s': "r = LOS_OK" "s' = ArchTaskSchedule ?s1"
    using assms(4-7,10) lock f1 assms(3) by (auto simp: LOS_TaskDelay_def LOS_Schedule_def)
  have "waiting ?s0 x" if "waiting s x" for x
    using that by (auto simp: waiting_def OsSchedDelay_def status_defs unlinked_def on_list_def)
  then have tm0: "timer_ok ?s0" using assms(2) unfolding timer_ok_def f1 by blast
  have w0: "waiting ?s0 (runTask ?s0)" "has (st ?s0 (runTask ?s0)) (flag DELAY OR flag PEND_TIME)"
    using d(3) assms(6,7,9) unfolding f1
    by (auto simp: waiting_def OsSchedDelay_def status_defs run_ok_def Let_def unlinked_def on_list_def)
  have n0: "TaskNode (runTask ?s0) \<notin> set (g_taskSortLink ?s0)" using assms(8) by (simp only: f1) simp
  note o = switch_out_delay [OF tm0 n0 w0, unfolded f1]
  note i = timer_ok_switch_in [OF o(1), of t]
  have ni: "\<not> intActive ?s1" using assms(4) f1(6) by simp
  note a = Arch_timer [OF ni, unfolded f1(9)] and fr = ArchTaskSchedule_frame [OF ni, unfolded f1(9)]
  have "waiting s' x = waiting (switch_in t ?s3) x" for x
    by (simp add: s'(2) waiting_def unlinked_def on_list_def fr)
  then have "timer_ok s'" using i(1) unfolding timer_ok_def s'(2) a by simp
  moreover have "\<not> has (st s' t) (flag READY)"
    using o(5) w0(1) by (simp add: s'(2) fr switch_in_status f1 waiting_def)
  ultimately show ?thesis
    using s'(1) kern_ok_Arch [OF k1] o(2,3) i(2,3) by (simp add: s'(2) a)
qed

theorem task_delay_witness:
  "responseTime (snd (LOS_TaskDelay 100 ex_sched)) (TaskNode 1) = 80001000"
proof -
  obtain r s' where e: "LOS_TaskDelay 100 ex_sched = (r, s')" by fastforce
  have now: "fst (LOS_SysCycleGet ex_tick) = 1000"
    by (simp add: LOS_SysCycleGet_def getCycle_def ex_tick_def ex_timer_def)
  have clk: "g_sysClock ex_tick = 80000000" by (simp add: ex_tick_def)
  have "OsCheckKernelRunning ex_sched" "\<not> intActive ex_sched" "(100 :: u32) \<noteq> 0" "1 = runTask ex_sched"
    "\<not> has (st ex_sched 1) (flag SYSTEM_TASK OR flag PEND)"
    "TaskNode 1 \<notin> set (g_taskSortLink ex_sched)" "unat (priority (tcb ex_sched 1)) < 32"
    by (simp_all add: OsCheckKernelRunning_def LOS_CHECK_SCHEDULE_def ex_tasks_def)
  from task_delay [OF ex_kern_ok ex_timer_ok this e] e show ?thesis
    by (simp add: now clk OS_SYS_TICK_TO_CYCLE_def LOSCFG_BASE_CORE_TICK_PER_SECOND_def)
qed

section \<open>Initialisation\<close>

text \<open>The loop over the table.\<close>

lemma init_loop:
  "fold (\<lambda>i s. ListTailInsert FreeTask i
        (upd_tcb i (\<lambda>c. c\<lparr>taskStatus := flag UNUSED, taskID := of_nat i\<rparr>) s)) [0..<n] s
   = s\<lparr>g_taskCBArray := (\<lambda>t. if t < n then (tcb s t)\<lparr>taskStatus := flag UNUSED, taskID := of_nat t\<rparr>
                            else tcb s t),
       lists := (lists s)(FreeTask := lists s FreeTask @ [0..<n])\<rparr>"
proof (induction n)
  case 0
  then show ?case by simp
next
  case (Suc n)
  show ?case
    by (simp add: Suc.IH) (auto simp: list_op_defs upd_tcb_def fun_eq_iff less_Suc_eq)
qed

definition init_tab :: "nat \<Rightarrow> LosTaskCB" where
  "init_tab = (\<lambda>t. if t < 6 then zero_tcb\<lparr>taskStatus := flag UNUSED, taskID := of_nat t\<rparr>
      else zero_tcb)(6 := zero_tcb\<lparr>taskID := 6, taskStatus := flag UNUSED OR flag RUNNING, priority := 32\<rparr>)"

lemma TaskInit_state:
  assumes "\<And>l. l \<noteq> FreeTask \<Longrightarrow> l \<noteq> RecycleTask \<Longrightarrow> lists s l = []"
    and "OsTaskInit True s = (r, s')"
  shows "r = LOS_OK" "lists s' = (\<lambda>l. if l = FreeTask then [0..<6] else [])" "g_taskCBArray s' = init_tab"
    "g_queueBitmap s' = 0" "g_taskSortLink s' = []" "runTask s' = 6" "g_idleTaskID s' = OS_INVALID"
    "g_taskMaxNum s' = 6" "g_taskScheduled s' = g_taskScheduled s" "g_losTaskLock s' = g_losTaskLock s"
    "g_swtmrSortLink s' = g_swtmrSortLink s" "intActive s' = intActive s" "tk s' = tk s"
    "g_swtmrScan s' = g_swtmrScan s"
proof -
  have lim: "unat (LOSCFG_BASE_CORE_TSK_LIMIT + 1) = 6" by (simp add: LOSCFG_BASE_CORE_TSK_LIMIT_def)
  show "r = LOS_OK" using assms(2) by (simp add: OsTaskInit_def OsSchedInit_def Let_def case_prod_beta)
  let ?s = "s\<lparr>g_taskMaxNum := 6,
      lists := (lists s)(FreeTask := [0..<6], RecycleTask := []), runTask := 6, g_taskCBArray := init_tab,
      g_idleTaskID := OS_INVALID\<rparr>"
  have "OsTaskInit True s = OsSchedInit ?s"
    unfolding OsTaskInit_def Let_def init_loop lim init_tab_def
    by (simp add: upd_tcb_def upd_list_def OS_TASK_PRIORITY_LOWEST_def LOSCFG_BASE_CORE_TSK_LIMIT_def
        fun_upd_twist cong: if_cong del: upt_rec_numeral)
  then have e: "s' = snd (OsSchedInit ?s)" using assms(2) by (metis snd_conv)
  note defs = OsSchedInit_def OsSortLinkInit_def set_link_def SchedTimeBaseInit_def Let_def upd_list_def
  show "lists s' = (\<lambda>l. if l = FreeTask then [0..<6] else [])"
    using assms(1) by (auto simp: e defs fun_eq_iff split: listid.splits simp del: upt_rec_numeral)
  show "g_taskCBArray s' = init_tab" "g_queueBitmap s' = 0" "g_taskSortLink s' = []" "runTask s' = 6"
    "g_idleTaskID s' = OS_INVALID" "g_taskMaxNum s' = 6" "g_taskScheduled s' = g_taskScheduled s"
    "g_losTaskLock s' = g_losTaskLock s" "g_swtmrSortLink s' = g_swtmrSortLink s" "intActive s' = intActive s"
    "tk s' = tk s" "g_swtmrScan s' = g_swtmrScan s"
    by (simp_all add: e defs del: upt_rec_numeral)
qed

lemma TaskInit_ok:
  assumes "\<And>l. l \<noteq> FreeTask \<Longrightarrow> l \<noteq> RecycleTask \<Longrightarrow> lists s l = []"
    and "OsTaskInit True s = (r, s')"
  shows "sched_ok s'" "run_ok s'" "st s' t = (if t < 6 then flag UNUSED else if t = 6 then flag UNUSED OR flag RUNNING else 0)"
proof -
  note S = TaskInit_state [OF assms]
  have stz: "st s' t = (if t < 6 then flag UNUSED else if t = 6 then flag UNUSED OR flag RUNNING else 0)" for t
    by (simp add: S(3) init_tab_def zero_tcb_def)
  then show "st s' t = (if t < 6 then flag UNUSED else if t = 6 then flag UNUSED OR flag RUNNING else 0)" .
  have "lists_ok s'" by (auto simp: lists_ok_def on_list_def S(2) split: if_splits)
  moreover have "bitmap_ok s'" by (simp add: bitmap_ok_def S(2,4))
  moreover have "ready_ok s'" by (simp add: ready_ok_def on_list_def S(2) stz)
  moreover have "pend_ok s'" by (auto simp: pend_ok_def on_list_def S(2) stz split: if_splits)
  ultimately show "sched_ok s'" by (simp add: sched_ok_def)
  show "run_ok s'" by (simp add: run_ok_def S(2,6) stz unlinked_def on_list_def Let_def)
qed

text \<open>
  When its memory is there, the initialisation of the tasks succeeds and establishes the
  invariant of the scheduler: six unused blocks with their identifiers on the free list, empty
  ready queues with an empty bitmap, an empty timer list, and the reserved block as the runner.
\<close>

theorem task_init:
  assumes "\<And>l. l \<noteq> FreeTask \<Longrightarrow> l \<noteq> RecycleTask \<Longrightarrow> lists s l = []"
    and "OsTaskInit True s = (r, s')"
  shows "r = LOS_OK \<and> sched_ok s' \<and> run_ok s' \<and> timer_ok s' \<and> lists s' FreeTask = [0..<6]
    \<and> (\<forall>t<6. st s' t = flag UNUSED \<and> taskID (tcb s' t) = of_nat t)
    \<and> runTask s' = 6 \<and> has (st s' 6) (flag RUNNING)"
  using TaskInit_state [OF assms] TaskInit_ok [OF assms]
  by (simp add: timer_ok_def init_tab_def del: upt_rec_numeral)

theorem task_init_witness:
  "sched_ok (snd (OsTaskInit True (ex_sched\<lparr>lists := \<lambda>l. []\<rparr>)))"
  using task_init [of "ex_sched\<lparr>lists := \<lambda>l. []\<rparr>"]
  by (cases "OsTaskInit True (ex_sched\<lparr>lists := \<lambda>l. []\<rparr>)") simp

section \<open>Deleting\<close>

lemma sched_ok_insert_free:
  assumes ok: "sched_ok s" and u: "unlinked s t" and i: "\<not> is_idle s t"
  shows "sched_ok (OsInsertTCBToFreeList t s)"
proof -
  let ?s = "OsInsertTCBToFreeList t s"
  have l: "lists ?s = (lists s)(FreeTask := t # lists s FreeTask)"
    and tc: "tcb ?s x = (if x = t then zero_tcb\<lparr>taskID := taskID (tcb s t), taskStatus := flag UNUSED\<rparr>
      else tcb s x)" and b: "g_queueBitmap ?s = g_queueBitmap s" "g_idleTaskID ?s = g_idleTaskID s" for x
    by (simp_all add: OsInsertTCBToFreeList_def list_op_defs SET_SORTLIST_VALUE_def upd_event_def)
  have st: "st ?s x = (if x = t then flag UNUSED else st s x)" for x by (simp add: tc)
  have on: "on_list ?s m x \<longleftrightarrow> on_list s m x \<or> (m = FreeTask \<and> x = t)" for m x
    by (auto simp: on_list_def l)
  have np: "\<not> has (st s t) (flag PEND)" by (rule unlinked_not_pend [OF ok u])
  have nr: "\<not> has (st s t) (flag READY)" using ok u i by (auto simp: sched_ok_def ready_ok_def unlinked_def)
  have "lists_ok ?s" using ok u lists_ok_insert [of s t ?s FreeTask] by (simp add: sched_ok_def l)
  moreover have "bitmap_ok ?s" using ok by (simp add: sched_ok_def bitmap_ok_def l b)
  moreover have "ready_ok ?s"
    using ok nr u unfolding sched_ok_def ready_ok_def on
    by (auto simp: st tc is_idle_def b unlinked_def)
  moreover have "pend_ok ?s"
    using ok np unfolding sched_ok_def pend_ok_def on by (auto simp: st)
  ultimately show ?thesis by (simp add: sched_ok_def)
qed

lemma kern_ok_insert_free:
  assumes k: "kern_ok s" and u: "unlinked s t" and i: "\<not> is_idle s t" and r: "t \<noteq> runTask s"
  shows "kern_ok (OsInsertTCBToFreeList t s)"
proof (rule kern_okI)
  note d = kern_okD [OF k]
  let ?s = "OsInsertTCBToFreeList t s" and ?i = "OS_TCB_FROM_TID (g_idleTaskID s)"
  have f: "tcb ?s x = (if x = t then zero_tcb\<lparr>taskID := taskID (tcb s t), taskStatus := flag UNUSED\<rparr>
      else tcb s x)" "runTask ?s = runTask s" "g_idleTaskID ?s = g_idleTaskID s"
    "x \<noteq> t \<Longrightarrow> unlinked s x \<Longrightarrow> unlinked ?s x" for x
    by (simp_all add: OsInsertTCBToFreeList_def list_op_defs SET_SORTLIST_VALUE_def upd_event_def
        unlinked_def on_list_def)
  have ti: "t \<noteq> ?i" using d(4) i by (auto simp: idle_ok_def Let_def)
  show "wait_inv ?s"
    using sched_ok_insert_free [OF d(1) u i] d(2) by (auto simp: wait_inv_def f)
  show "run_ok ?s" using d(3) r f(4) [of "runTask s"] by (auto simp: run_ok_def Let_def f)
  show "idle_ok ?s" using d(4) ti f(4) [of ?i] by (simp add: idle_ok_def Let_def f is_idle_def)
  show "has (st ?s (runTask ?s)) (flag RUNNING)" using d(5) r by (simp add: f)
qed

lemma kern_ok_unpend:
  assumes k: "kern_ok s" and p: "has (st s t) (flag PEND)"
  shows "kern_ok (status_clr t (flag PEND) (ListDelete t s))"
    "unlinked (status_clr t (flag PEND) (ListDelete t s)) t"
proof -
  note d = kern_okD [OF k]
  let ?s = "status_clr t (flag PEND) (ListDelete t s)"
  note u = sched_ok_unpend_basic [OF d(1) p]
  have un: "unlinked ?s x" if "unlinked s x" for x
    using that by (auto simp: unlinked_def on_list_def status_defs list_op_defs)
  show "unlinked ?s t" by (fact u(2))
  show "kern_ok ?s"
  proof (rule kern_okI)
    show "wait_inv ?s" using u(1) d(2) by (auto simp: wait_inv_def status_defs list_op_defs)
    show "run_ok ?s"
      using d(3) u(2) un by (auto simp: run_ok_def Let_def status_defs list_op_defs)
    show "idle_ok ?s" using d(4) un by (auto simp: idle_ok_def Let_def is_idle_def status_defs list_op_defs)
    show "has (st ?s (runTask ?s)) (flag RUNNING)" using d(5) by (auto simp: status_defs list_op_defs)
  qed
qed

lemma kern_ok_DeleteSortLink [simp]: "kern_ok (OsDeleteSortLink n s) = kern_ok s"
  by (rule kern_ok_cong) simp_all

lemma DeQueue_sort_link: "g_taskSortLink (OsSchedTaskDeQueue t s) = g_taskSortLink s"
  "responseTime (OsSchedTaskDeQueue t s) = responseTime s"
  by (simp_all add: OsSchedTaskDeQueue_def OsSchedPriQueueDelete_def Let_def list_op_defs status_defs)

lemma kern_ok_TaskExit:
  assumes k: "kern_ok s" and i: "\<not> is_idle s t"
    and u: "\<not> has (st s t) (flag READY OR flag PEND) \<longrightarrow> unlinked s t"
  shows "kern_ok (OsSchedTaskExit t s)" "unlinked (OsSchedTaskExit t s) t"
    "has (st (OsSchedTaskExit t s) t) (flag F) \<longleftrightarrow> F = EXIT \<or>
       has (st s t) (flag F) \<and> F \<notin> {READY, DELAY, PEND_TIME} \<and> (F = PEND \<longrightarrow> has (st s t) (flag READY))"
proof -
  let ?s1 = "if has (st s t) (flag READY) then OsSchedTaskDeQueue t s
             else if has (st s t) (flag PEND) then status_clr t (flag PEND) (ListDelete t s) else s"
  have k1: "kern_ok ?s1" "unlinked ?s1 t"
    using kern_ok_DeQueue [OF k, of t] kern_ok_unpend [OF k, of t] k u
      DeQueue_unlinked [OF kern_okD(1) [OF k] _ i] by simp_all
  let ?s2 = "if has (st ?s1 t) (flag DELAY OR flag PEND_TIME)
          then status_clr t (flag DELAY OR flag PEND_TIME) (OsDeleteSortLink (TaskNode t) ?s1) else ?s1"
  have k2: "kern_ok ?s2"
    using kern_ok_flag_clr [of "OsDeleteSortLink (TaskNode t) ?s1" "flag DELAY OR flag PEND_TIME" t] k1(1)
    by simp
  have e: "OsSchedTaskExit t s = status_set t (flag EXIT) ?s2" by (simp add: OsSchedTaskExit_def Let_def)
  show "kern_ok (OsSchedTaskExit t s)" unfolding e using k2 by (rule kern_ok_status_set) simp_all
  show "unlinked (OsSchedTaskExit t s) t" unfolding e using k1(2) by simp
  show "has (st (OsSchedTaskExit t s) t) (flag F) \<longleftrightarrow> F = EXIT \<or>
       has (st s t) (flag F) \<and> F \<notin> {READY, DELAY, PEND_TIME} \<and> (F = PEND \<longrightarrow> has (st s t) (flag READY))"
    by (auto simp: OsSchedTaskExit_def Let_def status_defs DeQueue_tcb list_op_defs)
qed

lemma TaskExit_lists:
  assumes "sched_ok s" "\<not> is_idle s t" "\<not> has (st s t) (flag READY OR flag PEND) \<longrightarrow> unlinked s t"
  shows "lists (OsSchedTaskExit t s) l = removeAll t (lists s l)"
proof -
  have "t \<notin> set (lists s l)" if "unlinked s t" using that by (simp add: unlinked_def on_list_def)
  then show ?thesis
    using assms(2,3) by (auto simp: OsSchedTaskExit_def Let_def status_defs DeQueue_lists DeQueue_tcb
        list_op_defs removeAll_id)
qed

text \<open>A task on the timer list is delayed or has a time-out, and its time runs.\<close>

definition timer_armed :: "sched \<Rightarrow> nat \<Rightarrow> bool" where
  "timer_armed s t \<longleftrightarrow> (TaskNode t \<in> set (g_taskSortLink s) \<longrightarrow>
     has (st s t) (flag DELAY OR flag PEND_TIME) \<and> responseTime s (TaskNode t) \<noteq> OS_SORT_LINK_INVALID_TIME)"

lemma TaskExit_sort_link:
  "timer_armed s t \<Longrightarrow> g_taskSortLink (OsSchedTaskExit t s) = removeAll (TaskNode t) (g_taskSortLink s)"
  by (auto simp: timer_armed_def OsSchedTaskExit_def sortlink_defs status_defs list_op_defs DeQueue_tcb
      DeQueue_sort_link removeAll_id)

lemma not_on_free:
  assumes "sched_ok s" "\<not> is_idle s t" "\<not> has (st s t) (flag READY OR flag PEND) \<longrightarrow> unlinked s t"
  shows "t \<notin> set (lists s FreeTask)"
proof
  assume f: "t \<in> set (lists s FreeTask)"
  then have "has (st s t) (flag READY) \<or> has (st s t) (flag PEND)"
    using assms(3) by (auto simp: unlinked_def on_list_def)
  then obtain l where "on_list s l t" "l \<noteq> FreeTask"
    using assms(1,2) unfolding sched_ok_def ready_ok_def pend_ok_def by (metis listid.distinct(1) wait_list.simps(2))
  then show False using f assms(1) by (auto simp: sched_ok_def lists_ok_def on_list_def)
qed

text \<open>
  C37. Deleting a task that is not running and not joinable succeeds: it is taken out of the
  ready queue or the wait list it was on and out of the timer list, where its time was running
  for a delay or a time-out, while the others stay there in their order; its block is cleared,
  marked unused and put at the front of the free list and on no other list, its stack is freed
  when the kernel had allocated it, and the invariant is kept.
\<close>

theorem task_delete:
  assumes "kern_ok s" "OsCheckTaskIDValid tid s = LOS_OK" "t = OS_TCB_FROM_TID tid"
    and "\<not> has (st s t) (flag SYSTEM_TASK OR flag UNUSED OR flag EXIT OR flag SIGNAL OR flag RUNNING OR flag JOINABLE)"
    and "taskID (tcb s t) = tid" "\<not> has (st s t) (flag READY OR flag PEND) \<longrightarrow> unlinked s t"
    and "LOS_TaskDelete al tid (h, s) = (r, h', s')"
  shows "r = LOS_OK \<and> kern_ok s' \<and> runTask s' = runTask s
    \<and> st s' t = flag UNUSED \<and> taskID (tcb s' t) = tid \<and> lists s' FreeTask = t # lists s FreeTask
    \<and> (\<forall>l. l \<noteq> FreeTask \<longrightarrow> t \<notin> set (lists s' l))
    \<and> (timer_armed s t \<longrightarrow> g_taskSortLink s' = removeAll (TaskNode t) (g_taskSortLink s))
    \<and> h' = mem_free al h (if has (st s t) (flag STACK_FREE) then topOfStack (tcb s t) else 0)"
proof -
  have i: "\<not> is_idle s t" "t \<noteq> OS_TCB_FROM_TID (g_idleTaskID s)"
    using assms(2,3,5) by (auto simp: OsCheckTaskIDValid_def TCB_FROM_TID_inj is_idle_def split: if_splits)
  have nr: "t \<noteq> runTask s" using kern_okD(5) [OF assms(1)] assms(4) by auto
  let ?s2 = "OsSchedTaskExit t s"
  note x = kern_ok_TaskExit [OF assms(1) i(1) assms(6)]
    TaskExit_lists [OF kern_okD(1) [OF assms(1)] i(1) assms(6)]
    not_on_free [OF kern_okD(1) [OF assms(1)] i(1) assms(6)]
  let ?s4 = "upd_tcb t (\<lambda>c. c\<lparr>eventMask := 0\<rparr>) (upd_event (TaskEvent t) (\<lambda>e. e\<lparr>uwEventID := OS_NULL_INT\<rparr>)
      (snd (LOS_EventDestroy (Some (TaskEvent t)) ?s2)))"
  let ?s5 = "upd_tcb t (\<lambda>c. c\<lparr>joinRetval := LOS_CurTaskIDGet ?s4\<rparr>) ?s4"
  have f: "runTask ?s2 = runTask s" "g_idleTaskID ?s2 = g_idleTaskID s" "taskID (tcb ?s2 t) = tid"
    "topOfStack (tcb ?s2 t) = topOfStack (tcb s t)"
    using assms(5) by (simp_all add: OsSchedTaskExit_def Let_def status_defs DeQueue_tcb list_op_defs)
  have s4: "has (st ?s4 t) (flag F) = has (st ?s2 t) (flag F)" for F
    by (simp add: LOS_EventDestroy_def upd_event_def)
  have "LOS_TaskDelete al tid (h, s) = (let (stackPtr, s6) = OsRecycleTaskResources t ?s5
      in (LOS_OK, mem_free al h stackPtr, s6))"
    using assms(2,4) x(3) [of RUNNING] s4 [of RUNNING]
    by (simp add: LOS_TaskDelete_def Let_def assms(3) [symmetric] OsTaskJoinPostUnsafe_def)
  then have e: "r = LOS_OK" "h' = mem_free al h (fst (OsRecycleTaskResources t ?s5))"
    "s' = snd (OsRecycleTaskResources t ?s5)"
    using assms(7) by (simp_all add: case_prod_beta Let_def)
  let ?b = "has (st s t) (flag STACK_FREE) \<and> topOfStack (tcb s t) \<noteq> 0"
  let ?s6 = "if ?b then status_clr t (flag STACK_FREE) (upd_tcb t (\<lambda>c. c\<lparr>topOfStack := 0\<rparr>) ?s5) else ?s5"
  have f5: "has (st ?s5 t) (flag STACK_FREE) = has (st s t) (flag STACK_FREE)"
    "topOfStack (tcb ?s5 t) = topOfStack (tcb s t)" "\<not> has (st ?s5 t) (flag JOINABLE)"
    using x(3) assms(4) f(4) by (simp_all add: LOS_EventDestroy_def upd_event_def)
  have rec: "OsRecycleTaskResources t ?s5 = (if ?b then topOfStack (tcb s t) else 0, OsInsertTCBToFreeList t ?s6)"
    using f5 by (simp add: OsRecycleTaskResources_def Let_def status_defs)
  have k5: "kern_ok ?s5" using x(1)
    by (subst kern_ok_cong [of _ ?s2]) (simp_all add: LOS_EventDestroy_def upd_event_def)
  have "kern_ok (upd_tcb t (\<lambda>c. c\<lparr>topOfStack := 0\<rparr>) ?s5) = kern_ok ?s5" by (rule kern_ok_cong) simp_all
  then have k6: "kern_ok ?s6" using k5 kern_ok_flag_clr [of "upd_tcb t (\<lambda>c. c\<lparr>topOfStack := 0\<rparr>) ?s5"] by simp
  have l6: "lists ?s6 = lists ?s2" "runTask ?s6 = runTask s" "g_idleTaskID ?s6 = g_idleTaskID s"
    "taskID (tcb ?s6 t) = tid"
    using f by (simp_all add: LOS_EventDestroy_def upd_event_def status_defs)
  have u6: "unlinked ?s6 t" using x(2) unlinked_cong [OF l6(1)] by simp
  have i6: "\<not> is_idle ?s6 t" using i(1) assms(5) by (simp add: is_idle_def l6)
  have "kern_ok s'" unfolding e(3) rec snd_conv
    using kern_ok_insert_free [OF k6 u6 i6] nr l6(2) by simp
  moreover have "g_taskSortLink s' = g_taskSortLink ?s2" unfolding e(3) rec snd_conv
    by (simp add: OsInsertTCBToFreeList_def list_op_defs SET_SORTLIST_VALUE_def upd_event_def
        LOS_EventDestroy_def status_defs)
  moreover have "lists s' = (lists ?s6)(FreeTask := t # lists ?s6 FreeTask)" "st s' t = flag UNUSED"
    "taskID (tcb s' t) = tid" "runTask s' = runTask s"
    unfolding e(3) rec snd_conv using l6
    by (simp_all add: OsInsertTCBToFreeList_def list_op_defs SET_SORTLIST_VALUE_def upd_event_def zero_tcb_def)
  ultimately show ?thesis
    using e(1,2) x(4,5) TaskExit_sort_link [of s t] unfolding l6(1) rec by (auto simp: removeAll_id)
qed

theorem task_delete_witness:
  "(\<lambda>s'. lists s' FreeTask = [3] \<and> g_taskSortLink s' = [TaskNode 4]) (snd (snd (LOS_TaskDelete \<lparr>mem_alloc_align = (\<lambda>h a b. (0, h)), mem_free = (\<lambda>h p. h)\<rparr> 3
     ((0::nat), ex_sched))))"
proof -
  let ?al = "\<lparr>mem_alloc_align = (\<lambda>h a b. (0, h)), mem_free = (\<lambda>h p. h)\<rparr>"
  obtain r h' s' where e: "LOS_TaskDelete ?al 3 ((0::nat), ex_sched) = (r, h', s')" by (metis prod_cases3)
  have "OsCheckTaskIDValid 3 ex_sched = LOS_OK" "3 = OS_TCB_FROM_TID 3"
    "\<not> has (st ex_sched 3) (flag SYSTEM_TASK OR flag UNUSED OR flag EXIT OR flag SIGNAL OR flag RUNNING OR flag JOINABLE)"
    "taskID (tcb ex_sched 3) = 3"
    "\<not> has (st ex_sched 3) (flag READY OR flag PEND) \<longrightarrow> unlinked ex_sched 3"
    by (simp_all add: OsCheckTaskIDValid_def OS_TCB_FROM_TID_def ex_tasks_def word_le_nat_alt)
  moreover have "timer_armed ex_sched 3"
    by (simp add: timer_armed_def ex_tasks_def OS_SORT_LINK_INVALID_TIME_def)
  moreover note task_delete [OF ex_kern_ok calculation(1-5) e]
  ultimately show ?thesis by (simp add: e ex_lists_def)
qed

end
