(* ===== verification/Los_Mux.thy ===== *)
theory Los_Mux
  imports Los_Pool Los_TaskProps
begin

text \<open>
  Mutexes (kernel/src/los_mux.c): recursive locks with an owner and priority inheritance. The
  state is the array of control blocks and the list of unused ones; the tasks that wait for
  mutex \<open>i\<close> are the scheduler's list \<open>MuxList i\<close>. \<open>LOS_MuxPend\<close> is two definitions: up to
  the reschedule, and after the task runs again.
\<close>

section \<open>The control blocks and the operations\<close>

definition LOSCFG_BASE_IPC_MUX_LIMIT :: u32 where "LOSCFG_BASE_IPC_MUX_LIMIT = 6"
definition OS_MUX_UNUSED :: u8 where "OS_MUX_UNUSED = 0"
definition OS_MUX_USED :: u8 where "OS_MUX_USED = 1"

text \<open>\<open>mux_priority\<close> is the field \<open>priority\<close>.\<close>

record LosMuxCB =
  muxStat :: u8
  muxCount :: u16
  muxID :: u32
  owner :: "nat option"
  mux_priority :: u16

record mux_state =
  g_allMux :: "nat \<Rightarrow> LosMuxCB"
  g_unusedMuxList :: "nat list"

definition GET_MUX :: "u32 \<Rightarrow> nat" where "GET_MUX h = unat h"

definition upd_mux :: "nat \<Rightarrow> (LosMuxCB \<Rightarrow> LosMuxCB) \<Rightarrow> mux_state \<Rightarrow> mux_state" where
  "upd_mux i f p = p\<lparr>g_allMux := (g_allMux p)(i := f (g_allMux p i))\<rparr>"

definition OsMuxInit :: "bool \<Rightarrow> mux_state \<Rightarrow> u32 \<times> mux_state" where
  "OsMuxInit mem_ok p =
     (let p = p\<lparr>g_unusedMuxList := []\<rparr>
      in if LOSCFG_BASE_IPC_MUX_LIMIT = 0 then (LOS_ERRNO_MUX_MAXNUM_ZERO, p)
         else if \<not> mem_ok then (LOS_ERRNO_MUX_NO_MEMORY, p)
         else (LOS_OK,
           fold (\<lambda>index p. (upd_mux index
                    (\<lambda>c. c\<lparr>muxID := of_nat index, owner := None, muxStat := OS_MUX_UNUSED\<rparr>) p)
                   \<lparr>g_unusedMuxList := g_unusedMuxList p @ [index]\<rparr>)
             [0..<unat LOSCFG_BASE_IPC_MUX_LIMIT] p))"

text \<open>The handle written is the second result; \<open>muxHandle\<close> says the pointer is not NULL.\<close>

definition LOS_MuxCreate :: "bool \<Rightarrow> mux_state \<times> sched \<Rightarrow> u32 \<times> u32 option \<times> mux_state \<times> sched" where
  "LOS_MuxCreate muxHandle = (\<lambda>(p, s).
     if \<not> muxHandle then (LOS_ERRNO_MUX_PTR_NULL, None, p, s)
     else case g_unusedMuxList p of
       [] \<Rightarrow> (LOS_ERRNO_MUX_ALL_BUSY, None, p, s)
     | i # rest \<Rightarrow>
         (let p1 = upd_mux i (\<lambda>c. c\<lparr>muxCount := 0, muxStat := OS_MUX_USED, mux_priority := 0,
                                 owner := None\<rparr>) (p\<lparr>g_unusedMuxList := rest\<rparr>)
          in (LOS_OK, Some (muxID (g_allMux p1 i)), p1, upd_list (MuxList i) (\<lambda>_. []) s)))"

definition LOS_MuxDelete :: "u32 \<Rightarrow> mux_state \<times> sched \<Rightarrow> u32 \<times> mux_state \<times> sched" where
  "LOS_MuxDelete muxHandle = (\<lambda>(p, s).
     if muxHandle \<ge> LOSCFG_BASE_IPC_MUX_LIMIT then (LOS_ERRNO_MUX_INVALID, p, s)
     else
       (let i = GET_MUX muxHandle
        in if muxStat (g_allMux p i) = OS_MUX_UNUSED then (LOS_ERRNO_MUX_INVALID, p, s)
           else if lists s (MuxList i) \<noteq> [] \<or> muxCount (g_allMux p i) \<noteq> 0
           then (LOS_ERRNO_MUX_PENDED, p, s)
           else (LOS_OK, upd_mux i (\<lambda>c. c\<lparr>muxStat := OS_MUX_UNUSED\<rparr>)
                           (p\<lparr>g_unusedMuxList := i # g_unusedMuxList p\<rparr>), s)))"

definition OsMuxValidCheck :: "nat \<Rightarrow> mux_state \<Rightarrow> sched \<Rightarrow> u32" where
  "OsMuxValidCheck i p s =
     (if muxStat (g_allMux p i) = OS_MUX_UNUSED then LOS_ERRNO_MUX_INVALID
      else if intActive s then LOS_ERRNO_MUX_IN_INTERR
      else if g_losTaskLock s \<noteq> 0 then LOS_ERRNO_MUX_PEND_IN_LOCK
      else if has (st s (runTask s)) (flag SYSTEM_TASK) then LOS_ERRNO_MUX_PEND_IN_SYSTEM_TASK
      else LOS_OK)"

text \<open>
  The owner inherits the runner's priority when the runner is more urgent (a smaller number).
  A locked mutex without an owner would be a NULL dereference; the invariant excludes it.
\<close>

definition LOS_MuxPend :: "u32 \<Rightarrow> u32 \<Rightarrow> mux_state \<times> sched
    \<Rightarrow> pend_result \<times> mux_state \<times> sched" where
  "LOS_MuxPend muxHandle timeout = (\<lambda>(p, s).
     if muxHandle \<ge> LOSCFG_BASE_IPC_MUX_LIMIT then (Returned LOS_ERRNO_MUX_INVALID, p, s)
     else
       (let i = GET_MUX muxHandle;
            retErr = OsMuxValidCheck i p s;
            run = runTask s
        in if retErr \<noteq> 0 then (Returned retErr, p, s)
           else if muxCount (g_allMux p i) = 0
           then (Returned LOS_OK, upd_mux i (\<lambda>c. c\<lparr>muxCount := muxCount c + 1, owner := Some run,
                                    mux_priority := priority (tcb s run)\<rparr>) p, s)
           else if owner (g_allMux p i) = Some run
           then (Returned LOS_OK, upd_mux i (\<lambda>c. c\<lparr>muxCount := muxCount c + 1\<rparr>) p, s)
           else if timeout = 0 then (Returned LOS_ERRNO_MUX_UNAVAILABLE, p, s)
           else
             (let s1 = upd_tcb run (\<lambda>c. c\<lparr>taskMux := Some i\<rparr>) s;
                  s2 = (case owner (g_allMux p i) of
                          Some ow \<Rightarrow>
                            if priority (tcb s1 ow) > priority (tcb s1 run)
                            then snd (OsSchedModifyTaskSchedParam ow (priority (tcb s1 run)) s1)
                            else s1
                        | None \<Rightarrow> s1)
              in (Blocked, p, LOS_Schedule (OsSchedTaskWait (MuxList i) timeout s2)))))"

text \<open>After the sleep, in the task \<open>t\<close> that called.\<close>

definition LOS_MuxPend_resume :: "nat \<Rightarrow> sched \<Rightarrow> u32 \<times> sched" where
  "LOS_MuxPend_resume t s =
     (if has (st s t) (flag TIMEOUT)
      then (LOS_ERRNO_MUX_TIMEOUT, status_clr t (flag TIMEOUT) s)
      else (LOS_OK, s))"

definition LOS_MuxPost :: "u32 \<Rightarrow> mux_state \<times> sched \<Rightarrow> u32 \<times> mux_state \<times> sched" where
  "LOS_MuxPost muxHandle = (\<lambda>(p, s).
     (let i = GET_MUX muxHandle; run = runTask s
      in if muxHandle \<ge> LOSCFG_BASE_IPC_MUX_LIMIT \<or> muxStat (g_allMux p i) = OS_MUX_UNUSED
         then (LOS_ERRNO_MUX_INVALID, p, s)
         else if intActive s then (LOS_ERRNO_MUX_IN_INTERR, p, s)
         else if muxCount (g_allMux p i) = 0 \<or> owner (g_allMux p i) \<noteq> Some run
         then (LOS_ERRNO_MUX_INVALID, p, s)
         else
           (let p1 = upd_mux i (\<lambda>c. c\<lparr>muxCount := muxCount c - 1\<rparr>) p
            in if muxCount (g_allMux p1 i) \<noteq> 0 then (LOS_OK, p1, s)
               else
                 (let s1 = (if priority (tcb s run) \<noteq> mux_priority (g_allMux p1 i)
                            then snd (OsSchedModifyTaskSchedParam run (mux_priority (g_allMux p1 i)) s)
                            else s)
                  in case lists s1 (MuxList i) of
                       t # _ \<Rightarrow>
                         (LOS_OK, upd_mux i (\<lambda>c. c\<lparr>muxCount := 1, owner := Some t,
                                             mux_priority := priority (tcb s1 t)\<rparr>) p1,
                          LOS_Schedule (OsSchedTaskWake t (upd_tcb t (\<lambda>c. c\<lparr>taskMux := None\<rparr>) s1)))
                     | [] \<Rightarrow> (LOS_OK, upd_mux i (\<lambda>c. c\<lparr>owner := None\<rparr>) p1, s1)))))"

section \<open>The pool of mutexes\<close>

definition mux_used :: "mux_state \<Rightarrow> nat \<Rightarrow> bool" where
  "mux_used p i \<longleftrightarrow> muxStat (g_allMux p i) \<noteq> OS_MUX_UNUSED"

definition mux_cap :: "mux_state \<Rightarrow> nat" where
  "mux_cap p = unat LOSCFG_BASE_IPC_MUX_LIMIT"

definition mux_take :: "nat \<Rightarrow> mux_state \<Rightarrow> mux_state \<Rightarrow> bool" where
  "mux_take i p q \<longleftrightarrow> (\<exists>s h s'. LOS_MuxCreate True (p, s) = (LOS_OK, Some h, q, s')
     \<and> hd (g_unusedMuxList p) = i)"

definition mux_give :: "nat \<Rightarrow> mux_state \<Rightarrow> mux_state \<Rightarrow> bool" where
  "mux_give i p q \<longleftrightarrow> (\<exists>h s s'. GET_MUX h = i \<and> LOS_MuxDelete h (p, s) = (LOS_OK, q, s'))"

lemma mux_limit: "h \<ge> LOSCFG_BASE_IPC_MUX_LIMIT \<longleftrightarrow> 6 \<le> unat h"
  by (simp add: LOSCFG_BASE_IPC_MUX_LIMIT_def word_le_nat_alt)

lemma mux_cap_6 [simp]: "mux_cap p = 6"
  by (simp add: mux_cap_def LOSCFG_BASE_IPC_MUX_LIMIT_def)

interpretation muxp: slot_pool g_unusedMuxList mux_used mux_cap mux_take mux_give
proof unfold_locales
  fix i p q
  assume "mux_take i p q"
  then obtain s h s' where "LOS_MuxCreate True (p, s) = (LOS_OK, Some h, q, s')"
    "hd (g_unusedMuxList p) = i" by (auto simp: mux_take_def)
  then show "g_unusedMuxList p = i # g_unusedMuxList q" "mux_used q j = (j = i \<or> mux_used p j)"
    "mux_cap q = mux_cap p" for j
    by (auto simp: LOS_MuxCreate_def upd_mux_def Let_def mux_used_def OS_MUX_USED_def
        OS_MUX_UNUSED_def split: if_splits list.splits)
next
  fix i p q
  assume "mux_give i p q"
  then obtain h s s' where "GET_MUX h = i" "LOS_MuxDelete h (p, s) = (LOS_OK, q, s')"
    by (auto simp: mux_give_def)
  then show "g_unusedMuxList q = i # g_unusedMuxList p"
    "mux_used p i \<and> i < mux_cap p \<and> mux_used q j = (j \<noteq> i \<and> mux_used p j)"
    "mux_cap q = mux_cap p" for j
    by (auto simp: LOS_MuxDelete_def upd_mux_def Let_def mux_used_def mux_limit GET_MUX_def
        split: if_splits)
qed

section \<open>The invariant\<close>

text \<open>
  A mutex in use has an owner exactly when it is locked; only a locked one has waiters, and the
  owner is not one of them. The idle task takes no mutex.
\<close>

definition slot_ok :: "LosMuxCB \<Rightarrow> nat list \<Rightarrow> (nat \<Rightarrow> bool) \<Rightarrow> bool" where
  "slot_ok c q idle \<longleftrightarrow> (muxCount c = 0 \<longleftrightarrow> owner c = None) \<and> (owner c = None \<longrightarrow> q = [])
     \<and> (\<forall>t. owner c = Some t \<longrightarrow> unat (mux_priority c) < 32 \<and> \<not> idle t \<and> t \<notin> set q)
     \<and> (\<forall>t\<in>set q. \<not> idle t)"

definition mux_inv :: "mux_state \<Rightarrow> sched \<Rightarrow> bool" where
  "mux_inv p s \<longleftrightarrow> muxp.pool_ok p \<and> (\<forall>i<6. muxID (g_allMux p i) = of_nat i)
     \<and> (\<forall>i. if i < 6 \<and> mux_used p i
            then slot_ok (g_allMux p i) (lists s (MuxList i)) (is_idle s)
            else lists s (MuxList i) = [])"

lemma mux_inv_slot: "mux_inv p s \<Longrightarrow> i < 6 \<Longrightarrow> mux_used p i \<Longrightarrow>
    slot_ok (g_allMux p i) (lists s (MuxList i)) (is_idle s)"
  by (simp add: mux_inv_def)

lemma mux_inv_upd:
  assumes inv: "mux_inv p s" and i: "i < 6" "mux_used p i"
    and l: "\<And>j. j \<noteq> i \<Longrightarrow> lists s' (MuxList j) = lists s (MuxList j)" and d: "is_idle s' = is_idle s"
    and ok: "slot_ok (f (g_allMux p i)) (lists s' (MuxList i)) (is_idle s)"
    and f: "muxStat (f (g_allMux p i)) = muxStat (g_allMux p i)"
      "muxID (f (g_allMux p i)) = muxID (g_allMux p i)"
  shows "mux_inv (upd_mux i f p) s'"
proof -
  have u: "mux_used (upd_mux i f p) j = mux_used p j" for j
    by (simp add: mux_used_def upd_mux_def f)
  have "muxp.pool_ok (upd_mux i f p)"
    using inv by (simp add: mux_inv_def muxp.pool_ok_def u) (simp add: upd_mux_def)
  moreover have "\<forall>j<6. muxID (g_allMux (upd_mux i f p) j) = of_nat j"
    using inv by (simp add: mux_inv_def upd_mux_def f)
  moreover have "if j < 6 \<and> mux_used p j
            then slot_ok (g_allMux (upd_mux i f p) j) (lists s' (MuxList j)) (is_idle s')
            else lists s' (MuxList j) = []" for j
    using inv i ok l [of j] by (cases "j = i") (auto simp: mux_inv_def upd_mux_def d)
  ultimately show ?thesis by (simp add: mux_inv_def u)
qed

section \<open>Locking and unlocking as a specification\<close>

text \<open>A mutex as an owner, a depth and a queue of tasks.\<close>

definition mux_view :: "nat \<Rightarrow> mux_state \<times> sched \<Rightarrow> nat option \<times> nat \<times> nat list" where
  "mux_view i = (\<lambda>(p, s). (owner (g_allMux p i), unat (muxCount (g_allMux p i)), lists s (MuxList i)))"

fun spec_mux_pend :: "nat \<Rightarrow> u32 \<Rightarrow> nat option \<times> nat \<times> nat list
    \<Rightarrow> pend_result \<times> nat option \<times> nat \<times> nat list" where
  "spec_mux_pend run timeout (ow, n, q) =
     (if n = 0 then (Returned LOS_OK, Some run, 1, q)
      else if ow = Some run then (Returned LOS_OK, ow, n + 1, q)
      else if timeout = 0 then (Returned LOS_ERRNO_MUX_UNAVAILABLE, ow, n, q)
      else (Blocked, ow, n, q @ [run]))"

fun spec_mux_post :: "nat \<Rightarrow> nat option \<times> nat \<times> nat list \<Rightarrow> u32 \<times> nat option \<times> nat \<times> nat list" where
  "spec_mux_post run (ow, n, q) =
     (if n = 0 \<or> ow \<noteq> Some run then (LOS_ERRNO_MUX_INVALID, ow, n, q)
      else if n > 1 then (LOS_OK, ow, n - 1, q)
      else case q of [] \<Rightarrow> (LOS_OK, None, 0, []) | t # q' \<Rightarrow> (LOS_OK, Some t, 1, q'))"

lemma kern_ok_taskMux: "kern_ok (upd_tcb t (\<lambda>c. c\<lparr>taskMux := x\<rparr>) s) = kern_ok s"
  by (rule kern_ok_cong) simp_all

text \<open>Frames of the change of a priority.\<close>

lemma Modify_frame:
  assumes "kern_ok s" "\<not> is_idle s t"
  shows "is_idle (snd (OsSchedModifyTaskSchedParam t p s)) = is_idle s"
    "g_idleTaskID (snd (OsSchedModifyTaskSchedParam t p s)) = g_idleTaskID s"
    "x \<noteq> t \<Longrightarrow> unlinked s x \<Longrightarrow> unlinked (snd (OsSchedModifyTaskSchedParam t p s)) x"
proof -
  show i: "g_idleTaskID (snd (OsSchedModifyTaskSchedParam t p s)) = g_idleTaskID s"
    by (simp add: OsSchedModifyTaskSchedParam_def set_priority_def)
  show "is_idle (snd (OsSchedModifyTaskSchedParam t p s)) = is_idle s"
    by (rule ext) (simp add: is_idle_def i, simp add: OsSchedModifyTaskSchedParam_def set_priority_def
        EnQueue_tcb DeQueue_tcb)
  have "unlinked (set_priority t p s') x = unlinked s' x" for s'
    by (simp add: set_priority_def unlinked_def on_list_def)
  then show "x \<noteq> t \<Longrightarrow> unlinked s x \<Longrightarrow> unlinked (snd (OsSchedModifyTaskSchedParam t p s)) x"
    by (simp add: OsSchedModifyTaskSchedParam_def unlinked_EnQueue unlinked_DeQueue)
qed

text \<open>The inheritance, and the sleep after it.\<close>

definition inherit :: "nat \<Rightarrow> nat \<Rightarrow> sched \<Rightarrow> sched" where
  "inherit ow run s = (if priority (tcb s ow) > priority (tcb s run)
     then snd (OsSchedModifyTaskSchedParam ow (priority (tcb s run)) s) else s)"

lemma mux_sleep:
  assumes k: "kern_ok s" and m: "may_sleep s" and i: "\<not> is_idle s ow" "ow \<noteq> runTask s"
    and s': "s' = LOS_Schedule (OsSchedTaskWait (MuxList i) n (inherit ow (runTask s)
        (upd_tcb (runTask s) (\<lambda>c. c\<lparr>taskMux := Some i\<rparr>) s)))"
  shows "kern_ok s'" "is_idle s' = is_idle s"
    "lists s' (MuxList j) = (if j = i then lists s (MuxList i) @ [runTask s] else lists s (MuxList j))"
    "priority (tcb s' x) = (if x = ow then min (priority (tcb s ow)) (priority (tcb s (runTask s)))
       else priority (tcb s x))"
proof -
  let ?r = "runTask s"
  let ?s1 = "upd_tcb ?r (\<lambda>c. c\<lparr>taskMux := Some i\<rparr>) s"
  let ?s2 = "inherit ow ?r ?s1"
  have k1: "kern_ok ?s1" using k by (simp add: kern_ok_taskMux)
  have i1: "\<not> is_idle ?s1 ow" "is_idle ?s1 = is_idle s"
    using i by (auto simp: is_idle_def fun_eq_iff)
  have u1: "unlinked ?s1 ?r" using m by (simp add: may_sleep_def can_sleep_def unlinked_def on_list_def)
  have p: "unat (priority (tcb ?s1 ?r)) < 32" using m by (simp add: may_sleep_def can_sleep_def)
  note md = kern_ok_Modify [OF k1 i1(1) p] Modify_frame [OF k1 i1(1)]
  have f: "kern_ok ?s2" "runTask ?s2 = ?r" "is_idle ?s2 = is_idle s" "g_idleTaskID ?s2 = g_idleTaskID s"
    "lists ?s2 (MuxList j) = lists s (MuxList j)" "unlinked ?s2 ?r"
    "priority (tcb ?s2 x) = (if x = ow then min (priority (tcb s ow)) (priority (tcb s ?r))
       else priority (tcb s x))" for j x
    using k1 i i1(2) u1 md(1,2,4,5,6) md(3) [of "MuxList j"] md(7) [of ?r]
    by (simp_all add: inherit_def min_def) (auto dest: leD)
  have m2: "may_sleep ?s2"
    using m f(2,4,6) f(7) [of ?r] i(2) by (simp add: may_sleep_def can_sleep_def)
  have k3: "kern_ok (OsSchedTaskWait (MuxList i) n ?s2)" using kern_ok_wait [OF f(1) m2] by simp
  show "kern_ok s'" unfolding s' using k3 by (simp add: kern_ok_Schedule)
  show "is_idle s' = is_idle s"
    unfolding s' using k3 f(3) by (auto simp: is_idle_def Schedule_status TaskWait_tcb fun_eq_iff)
  show "lists s' (MuxList j) = (if j = i then lists s (MuxList i) @ [?r] else lists s (MuxList j))"
    unfolding s' using k3 f by (simp add: Schedule_wait_lists TaskWait_lists)
  have "priority (tcb (OsSchedTaskWait (MuxList i) n ?s2) x) = priority (tcb ?s2 x)"
    by (simp add: TaskWait_tcb)
  then show "priority (tcb s' x) = (if x = ow then min (priority (tcb s ow)) (priority (tcb s (runTask s)))
       else priority (tcb s x))"
    unfolding s' using k3 f(7) [of x] by (simp only: Schedule_status)
qed

lemma mux_hand_over:
  assumes k: "kern_ok s" and q: "lists s (MuxList i) = t # ts"
    and s': "s' = LOS_Schedule (OsSchedTaskWake t (upd_tcb t (\<lambda>c. c\<lparr>taskMux := None\<rparr>) s))"
  shows "kern_ok s'" "is_idle s' = is_idle s"
    "lists s' (MuxList j) = (if j = i then ts else lists s (MuxList j))"
    "priority (tcb s' x) = priority (tcb s x)"
proof -
  let ?s1 = "upd_tcb t (\<lambda>c. c\<lparr>taskMux := None\<rparr>) s"
  have k1: "kern_ok ?s1" using k by (simp add: kern_ok_taskMux)
  have t: "t \<in> set (lists ?s1 (MuxList i))" using q by simp
  note k2 = kern_ok_wake [OF k1 _ t]
  show "kern_ok s'" unfolding s' using k2 by (simp add: kern_ok_Schedule)
  show "lists s' (MuxList j) = (if j = i then ts else lists s (MuxList j))"
    unfolding s' using k2 wq.wake_waiters [OF kern_okD(2) [OF k1] _ _ t, of "MuxList j"] q
    by (simp add: Schedule_wait_lists)
  show "priority (tcb s' x) = priority (tcb s x)"
    unfolding s' using k2 by (simp add: Schedule_status TaskWake_status)
  show "is_idle s' = is_idle s"
    unfolding s' using k2 by (simp add: is_idle_def Schedule_status TaskWake_status fun_eq_iff)
qed

section \<open>Locking\<close>

definition ex_muxes :: mux_state where
  "ex_muxes = \<lparr>g_allMux = (\<lambda>i. \<lparr>muxStat = (if i < 3 then 1 else 0),
       muxCount = (if i = 0 then 1 else if i = 1 then 2 else 0), muxID = of_nat i,
       owner = (if i = 0 then Some 4 else if i = 1 then Some 1 else None),
       mux_priority = (if i = 0 then 12 else if i = 1 then 8 else 0)\<rparr>), g_unusedMuxList = [3, 4, 5]\<rparr>"

text \<open>Task 4, the owner of mutex 0, is less urgent than the running task.\<close>

definition ex_mux_sched :: sched where "ex_mux_sched = set_priority 4 12 ex_sched"

lemma ex_mux_sched_sel [simp]:
  "lists ex_mux_sched = ex_lists" "runTask ex_mux_sched = 1" "g_idleTaskID ex_mux_sched = 0"
  "g_taskCBArray ex_mux_sched = ex_tasks(4 := (ex_tasks 4)\<lparr>priority := 12\<rparr>)"
  "intActive ex_mux_sched = False" "g_losTaskLock ex_mux_sched = 0"
  by (simp_all add: ex_mux_sched_def set_priority_def)

lemma ex_mux_kern: "kern_ok ex_mux_sched" "may_sleep ex_mux_sched" "mux_inv ex_muxes ex_mux_sched"
proof -
  show "kern_ok ex_mux_sched" unfolding ex_mux_sched_def
    by (rule kern_ok_set_priority [OF ex_kern_ok]) (simp_all add: ex_tasks_def)
  show "may_sleep ex_mux_sched"
    by (simp add: may_sleep_def can_sleep_def ex_tasks_def OS_TCB_FROM_TID_def)
      (simp add: unlinked_def on_list_def ex_lists_def)
  show "mux_inv ex_muxes ex_mux_sched"
    by (auto simp: mux_inv_def muxp.pool_ok_def mux_used_def ex_muxes_def ex_lists_def OS_MUX_UNUSED_def
        slot_ok_def is_idle_def ex_tasks_def)
qed

text \<open>
  C9. Locking a mutex, once the checks of the caller pass and the depth has not reached its
  bound: a free mutex is taken; the owner's depth goes up by one; another task fails without a
  timeout, else joins the end of the queue, and the owner then runs at the more urgent of the
  two priorities. No other priority changes and the invariants are kept.
\<close>

theorem mux_pend_refines:
  assumes "kern_ok s" "may_sleep s" "mux_inv p s" "unat h < 6" "\<not> is_idle s (runTask s)"
    and "OsMuxValidCheck (unat h) p s = LOS_OK" "muxCount (g_allMux p (unat h)) < 0xFFFF"
    and "LOS_MuxPend h timeout (p, s) = (r, p', s')"
  shows "(r, mux_view (unat h) (p', s')) = spec_mux_pend (runTask s) timeout (mux_view (unat h) (p, s))
    \<and> (\<forall>x. priority (tcb s' x) =
         (if r = Blocked \<and> owner (g_allMux p (unat h)) = Some x
          then min (priority (tcb s x)) (priority (tcb s (runTask s))) else priority (tcb s x)))
    \<and> kern_ok s' \<and> mux_inv p' s'"
proof -
  let ?i = "unat h" and ?run = "runTask s"
  let ?c = "g_allMux p ?i"
  have lim: "\<not> h \<ge> LOSCFG_BASE_IPC_MUX_LIMIT" using assms(4) by (simp add: mux_limit)
  have used: "mux_used p ?i"
    using assms(6) by (auto simp: OsMuxValidCheck_def mux_used_def split: if_splits)
  note ok = mux_inv_slot [OF assms(3,4) used]
  have pr: "unat (priority (tcb s ?run)) < 32" using assms(2) by (simp add: may_sleep_def can_sleep_def)
  note D = LOS_MuxPend_def GET_MUX_def Let_def
  note inc = word_inc_below [OF assms(7)]
  have nz: "muxCount ?c + 1 \<noteq> 0" using inc by auto
  consider (free) "muxCount ?c = 0" | (own) "muxCount ?c \<noteq> 0" "owner ?c = Some ?run"
    | (busy) "muxCount ?c \<noteq> 0" "owner ?c \<noteq> Some ?run" "timeout = 0"
    | (sleep) "muxCount ?c \<noteq> 0" "owner ?c \<noteq> Some ?run" "timeout \<noteq> 0" by blast
  then show ?thesis
  proof cases
    case free
    let ?f = "\<lambda>c. c\<lparr>muxCount := muxCount c + 1, owner := Some ?run, mux_priority := priority (tcb s ?run)\<rparr>"
    have r: "r = Returned LOS_OK" "p' = upd_mux ?i ?f p" "s' = s"
      using assms(6,8) lim free by (auto simp: D)
    have q: "lists s (MuxList ?i) = []" using ok free by (simp add: slot_ok_def)
    have "mux_inv p' s'" unfolding r(2,3)
      by (rule mux_inv_upd [OF assms(3,4) used]) (use q pr nz assms(5) in \<open>simp_all add: slot_ok_def\<close>)
    then show ?thesis using r free assms(1) by (simp add: mux_view_def upd_mux_def)
  next
    case own
    have r: "r = Returned LOS_OK" "p' = upd_mux ?i (\<lambda>c. c\<lparr>muxCount := muxCount c + 1\<rparr>) p" "s' = s"
      using assms(6,8) lim own by (auto simp: D)
    have "mux_inv p' s'" unfolding r(2,3)
      by (rule mux_inv_upd [OF assms(3,4) used]) (use own nz ok in \<open>simp_all add: slot_ok_def\<close>)
    then show ?thesis using r own inc assms(1) by (simp add: mux_view_def upd_mux_def unat_eq_0)
  next
    case busy
    then have "r = Returned LOS_ERRNO_MUX_UNAVAILABLE" "p' = p" "s' = s"
      using assms(6,8) lim by (simp_all add: D)
    then show ?thesis using busy assms(1,3) by (simp add: mux_view_def unat_eq_0)
  next
    case sleep
    then obtain ow where ow: "owner ?c = Some ow" "ow \<noteq> ?run" "\<not> is_idle s ow" "ow \<notin> set (lists s (MuxList ?i))"
      using ok by (auto simp: slot_ok_def)
    have r: "r = Blocked" "p' = p" "s' = LOS_Schedule (OsSchedTaskWait (MuxList ?i) timeout
        (inherit ow ?run (upd_tcb ?run (\<lambda>c. c\<lparr>taskMux := Some ?i\<rparr>) s)))"
      using assms(6,8) lim sleep ow(1,2) by (simp_all add: D inherit_def)
    note w = mux_sleep [OF assms(1,2) ow(3,2) r(3)]
    have p: "upd_mux ?i (\<lambda>c. c) p = p" by (simp add: upd_mux_def)
    have "mux_inv (upd_mux ?i (\<lambda>c. c) p) s'"
      by (rule mux_inv_upd [OF assms(3,4) used]) (use w ow ok assms(5) in \<open>simp_all add: slot_ok_def\<close>)
    then show ?thesis using r(1,2) sleep ow(1) w p by (auto simp: mux_view_def unat_eq_0)
  qed
qed

theorem mux_pend_refines_witness:
  "mux_view 0 (snd (LOS_MuxPend 0 50 (ex_muxes, ex_mux_sched))) = (Some 4, 1, [1])
   \<and> priority (tcb (snd (snd (LOS_MuxPend 0 50 (ex_muxes, ex_mux_sched)))) 4) = 10"
proof -
  obtain r p' s' where e: "LOS_MuxPend 0 50 (ex_muxes, ex_mux_sched) = (r, p', s')" by (metis prod_cases3)
  have c: "unat (0::u32) < 6" "\<not> is_idle ex_mux_sched (runTask ex_mux_sched)"
    "OsMuxValidCheck (unat (0::u32)) ex_muxes ex_mux_sched = LOS_OK"
    "muxCount (g_allMux ex_muxes (unat (0::u32))) < 0xFFFF"
    by (simp_all add: is_idle_def ex_tasks_def OsMuxValidCheck_def ex_muxes_def OS_MUX_UNUSED_def word_less_nat_alt)
  from mux_pend_refines [OF ex_mux_kern c e] e show ?thesis
    by (simp add: mux_view_def ex_muxes_def ex_lists_def ex_tasks_def min_def)
qed

section \<open>Unlocking\<close>

text \<open>The priority the owner had when it took the lock is restored.\<close>

definition restore :: "u16 \<Rightarrow> sched \<Rightarrow> sched" where
  "restore pr s = (if priority (tcb s (runTask s)) \<noteq> pr
     then snd (OsSchedModifyTaskSchedParam (runTask s) pr s) else s)"

lemma restore_ok:
  assumes k: "kern_ok s" and i: "\<not> is_idle s (runTask s)" and p: "unat pr < 32"
  shows "kern_ok (restore pr s)" "is_idle (restore pr s) = is_idle s"
    "lists (restore pr s) (MuxList j) = lists s (MuxList j)"
    "priority (tcb (restore pr s) x) = (if x = runTask s then pr else priority (tcb s x))"
  using kern_ok_Modify [OF k i p] Modify_frame [OF k i] k by (simp_all add: restore_def)

text \<open>
  C10. Unlocking, outside interrupts: a task that does not own the mutex fails and changes nothing;
  the owner's depth goes down by one; at the last level the owner gets back the priority it had
  when it took the lock, and the mutex goes to the task that waited longest, or is free when
  nobody waits. No other priority changes and the invariants are kept.
\<close>

theorem mux_post_refines:
  assumes "kern_ok s" "mux_inv p s" "unat h < 6" "mux_used p (unat h)" "\<not> intActive s"
    and "LOS_MuxPost h (p, s) = (r, p', s')"
  shows "(r, mux_view (unat h) (p', s')) = spec_mux_post (runTask s) (mux_view (unat h) (p, s))
    \<and> (\<forall>x. priority (tcb s' x) =
         (if r = LOS_OK \<and> muxCount (g_allMux p (unat h)) = 1 \<and> x = runTask s
          then mux_priority (g_allMux p (unat h)) else priority (tcb s x)))
    \<and> kern_ok s' \<and> mux_inv p' s'"
proof -
  let ?i = "unat h" and ?run = "runTask s"
  let ?c = "g_allMux p ?i"
  have lim: "\<not> h \<ge> LOSCFG_BASE_IPC_MUX_LIMIT" using assms(3) by (simp add: mux_limit)
  have used: "muxStat ?c \<noteq> OS_MUX_UNUSED" using assms(4) by (simp add: mux_used_def)
  note ok = mux_inv_slot [OF assms(2-4)]
  note D = LOS_MuxPost_def GET_MUX_def Let_def
  let ?bad = "muxCount ?c = 0 \<or> owner ?c \<noteq> Some ?run"
  consider (bad) ?bad | (deep) "\<not> ?bad" "muxCount ?c \<noteq> 1"
    | (last) "\<not> ?bad" "muxCount ?c = 1" by blast
  then show ?thesis
  proof cases
    case bad
    then have "r = LOS_ERRNO_MUX_INVALID" "p' = p" "s' = s"
      using assms(5,6) lim used by (auto simp: D)
    then show ?thesis using bad assms(1,2) by (auto simp: mux_view_def unat_eq_0)
  next
    case deep
    then have gt: "muxCount ?c > 0" by (simp add: word_gt_0)
    note dec = word_dec_above [OF gt]
    have n: "unat (muxCount ?c) > 1" "muxCount ?c - 1 \<noteq> 0"
      using deep gt by (metis One_nat_def Suc_lessI unat_gt_0 unsigned_1 unsigned_word_eqI) (use deep in auto)
    have r: "r = LOS_OK" "p' = upd_mux ?i (\<lambda>c. c\<lparr>muxCount := muxCount c - 1\<rparr>) p" "s' = s"
      using assms(5,6) lim used deep n by (auto simp: D upd_mux_def)
    have "mux_inv p' s'" unfolding r(2,3)
      by (rule mux_inv_upd [OF assms(2-4)]) (use n deep ok in \<open>simp_all add: slot_ok_def\<close>)
    then show ?thesis using r deep n dec assms(1) by (auto simp: mux_view_def upd_mux_def unat_eq_0)
  next
    case last
    then have ow: "\<not> is_idle s ?run" "unat (mux_priority ?c) < 32"
      using ok by (auto simp: slot_ok_def)
    let ?p1 = "upd_mux ?i (\<lambda>c. c\<lparr>muxCount := muxCount c - 1\<rparr>) p"
    let ?s1 = "restore (mux_priority ?c) s"
    note rs = restore_ok [OF assms(1) ow]
    have p1: "upd_mux ?i f ?p1 = upd_mux ?i (\<lambda>c. f (c\<lparr>muxCount := muxCount c - 1\<rparr>)) p" for f
      by (simp add: upd_mux_def)
    show ?thesis
    proof (cases "lists s (MuxList ?i)")
      case Nil
      have r: "r = LOS_OK" "p' = upd_mux ?i (\<lambda>c. c\<lparr>muxCount := muxCount c - 1, owner := None\<rparr>) p"
        "s' = ?s1"
        using assms(5,6) lim used last Nil rs(3) [of ?i]
        by (auto simp: D restore_def upd_mux_def split: if_splits)
      have "mux_inv p' s'" unfolding r(2,3)
        by (rule mux_inv_upd [OF assms(2-4)]) (use rs Nil last in \<open>simp_all add: slot_ok_def\<close>)
      then show ?thesis using r last Nil rs by (auto simp: mux_view_def upd_mux_def)
    next
      case (Cons t ts)
      let ?f = "\<lambda>c. c\<lparr>muxCount := 1, owner := Some t, mux_priority := priority (tcb ?s1 t)\<rparr>"
      have r: "r = LOS_OK" "p' = upd_mux ?i ?f p"
        "s' = LOS_Schedule (OsSchedTaskWake t (upd_tcb t (\<lambda>c. c\<lparr>taskMux := None\<rparr>) ?s1))"
        using assms(5,6) lim used last Cons rs(3) [of ?i]
        by (auto simp: D restore_def upd_mux_def split: if_splits)
      have q: "lists ?s1 (MuxList ?i) = t # ts" using Cons rs(3) by simp
      note w = mux_hand_over [OF rs(1) q r(3)]
      have pt: "unat (priority (tcb ?s1 t)) < 32" using waiter_pends [OF kern_okD(2) [OF assms(1)], of "MuxList ?i" t] Cons rs(4) ow(2) by simp
      have "t \<notin> set ts" using wait_distinct [OF kern_okD(2) [OF assms(1)], of "MuxList ?i"] Cons by simp
      then have "mux_inv p' s'" unfolding r(2)
        by (intro mux_inv_upd [OF assms(2-4)]) (use w rs ok Cons pt in \<open>simp_all add: slot_ok_def\<close>)
      then show ?thesis using r(1,2) last Cons w rs by (auto simp: mux_view_def upd_mux_def)
    qed
  qed
qed

theorem mux_post_refines_witness:
  "mux_view 1 (snd (LOS_MuxPost 1 (ex_muxes, ex_mux_sched))) = (Some 1, 1, [])"
proof -
  obtain r p' s' where e: "LOS_MuxPost 1 (ex_muxes, ex_mux_sched) = (r, p', s')" by (metis prod_cases3)
  have c: "unat (1::u32) < 6" "mux_used ex_muxes (unat (1::u32))" "\<not> intActive ex_mux_sched"
    by (simp_all add: mux_used_def ex_muxes_def OS_MUX_UNUSED_def)
  from mux_post_refines [OF ex_mux_kern(1,3) c e] e show ?thesis
    by (simp add: mux_view_def ex_muxes_def ex_lists_def)
qed

section \<open>The depth is a 16 bit counter\<close>

text \<open>
  The bound on the depth in the property of locking is needed: the counter is not checked,
  and the owner that locks once more at depth 65535 is told it succeeded, while the mutex then
  counts as free: the owner can no longer unlock it, and any other task that passes the checks
  takes it at once.
\<close>

theorem mux_depth_wraps:
  assumes "unat h < 6" "OsMuxValidCheck (unat h) p s = LOS_OK"
    and "owner (g_allMux p (unat h)) = Some (runTask s)" "muxCount (g_allMux p (unat h)) = 0xFFFF"
    and "LOS_MuxPend h timeout (p, s) = (r, p', s')"
  shows "r = Returned LOS_OK \<and> s' = s \<and> mux_view (unat h) (p', s') = (Some (runTask s), 0, lists s (MuxList (unat h)))
    \<and> fst (LOS_MuxPost h (p', s')) = LOS_ERRNO_MUX_INVALID
    \<and> (OsMuxValidCheck (unat h) p' (s'\<lparr>runTask := t\<rparr>) = LOS_OK \<longrightarrow>
         (\<exists>p2. LOS_MuxPend h 0 (p', s'\<lparr>runTask := t\<rparr>) = (Returned LOS_OK, p2, s'\<lparr>runTask := t\<rparr>)
            \<and> owner (g_allMux p2 (unat h)) = Some t))"
proof -
  have lim: "\<not> h \<ge> LOSCFG_BASE_IPC_MUX_LIMIT" using assms(1) by (simp add: mux_limit)
  have used: "muxStat (g_allMux p (unat h)) \<noteq> OS_MUX_UNUSED" "\<not> intActive s"
    using assms(2) by (auto simp: OsMuxValidCheck_def split: if_splits)
  have r: "r = Returned LOS_OK" "p' = upd_mux (unat h) (\<lambda>c. c\<lparr>muxCount := muxCount c + 1\<rparr>) p" "s' = s"
    using assms lim by (auto simp: LOS_MuxPend_def Let_def GET_MUX_def)
  show ?thesis
    using assms(3,4) lim used unfolding r(2,3)
    by (auto simp: r(1) mux_view_def LOS_MuxPost_def LOS_MuxPend_def Let_def GET_MUX_def upd_mux_def)
qed

theorem mux_depth_wraps_witness:
  "fst (LOS_MuxPend 1 0 (upd_mux 1 (\<lambda>c. c\<lparr>muxCount := 0xFFFF\<rparr>) ex_muxes, ex_mux_sched)) = Returned LOS_OK"
proof -
  let ?p = "upd_mux 1 (\<lambda>c. c\<lparr>muxCount := 0xFFFF\<rparr>) ex_muxes"
  obtain r p' s' where e: "LOS_MuxPend 1 0 (?p, ex_mux_sched) = (r, p', s')" by (metis prod_cases3)
  have "unat (1::u32) < 6" "OsMuxValidCheck (unat (1::u32)) ?p ex_mux_sched = LOS_OK"
    "owner (g_allMux ?p (unat (1::u32))) = Some (runTask ex_mux_sched)"
    "muxCount (g_allMux ?p (unat (1::u32))) = 0xFFFF"
    by (simp_all add: OsMuxValidCheck_def upd_mux_def ex_muxes_def OS_MUX_UNUSED_def ex_tasks_def)
  from mux_depth_wraps [OF this e] e show ?thesis by simp
qed

section \<open>Creating and deleting\<close>

text \<open>
  Creating a mutex fails with the busy error exactly when all six are in use; otherwise it
  hands out the identifier of one that was not in use, free and with no waiters, and the
  invariant is kept. Deleting a mutex succeeds exactly when it is in use, nobody holds it and
  nobody waits.
\<close>

theorem mux_create_delete:
  assumes "mux_inv p s" "LOS_MuxCreate True (p, s) = (r, h, p', s')"
  shows "(r = LOS_ERRNO_MUX_ALL_BUSY \<and> h = None \<and> (\<forall>i<6. mux_used p i) \<and> p' = p \<and> s' = s
      \<or> r = LOS_OK \<and> (\<exists>i<6. \<not> mux_used p i \<and> h = Some (of_nat i) \<and> mux_used p' i
          \<and> mux_view i (p', s') = (None, 0, [])
          \<and> (\<forall>j. j \<noteq> i \<longrightarrow> mux_view j (p', s') = mux_view j (p, s)) \<and> mux_inv p' s'))
    \<and> (fst (LOS_MuxDelete d (p, s)) = LOS_OK \<longleftrightarrow>
        unat d < 6 \<and> mux_used p (unat d) \<and> mux_view (unat d) (p, s) = (None, 0, []))"
proof -
  have del: "fst (LOS_MuxDelete d (p, s)) = LOS_OK \<longleftrightarrow>
      unat d < 6 \<and> mux_used p (unat d) \<and> mux_view (unat d) (p, s) = (None, 0, [])"
  proof (cases "unat d < 6 \<and> mux_used p (unat d)")
    case True
    then show ?thesis
      using mux_inv_slot [OF assms(1), of "unat d"]
      by (auto simp: LOS_MuxDelete_def Let_def mux_limit GET_MUX_def mux_used_def mux_view_def slot_ok_def)
  next
    case False
    then show ?thesis by (auto simp: LOS_MuxDelete_def Let_def mux_limit GET_MUX_def mux_used_def)
  qed
  show ?thesis
  proof (cases "g_unusedMuxList p")
    case Nil
    then have "\<forall>i<6. mux_used p i"
      using assms(1) muxp.exhausted_iff [of p] by (simp add: mux_inv_def)
    then show ?thesis using Nil assms(2) del by (auto simp: LOS_MuxCreate_def)
  next
    case (Cons i rest)
    have pool: "muxp.pool_ok p" using assms(1) by (simp add: mux_inv_def)
    have r: "r = LOS_OK" "h = Some (muxID (g_allMux p i))"
      "p' = upd_mux i (\<lambda>c. c\<lparr>muxCount := 0, muxStat := OS_MUX_USED, mux_priority := 0, owner := None\<rparr>)
              (p\<lparr>g_unusedMuxList := rest\<rparr>)" "s' = upd_list (MuxList i) (\<lambda>_. []) s"
      using Cons assms(2) by (auto simp: LOS_MuxCreate_def Let_def upd_mux_def)
    have "mux_take i p p'"
      unfolding mux_take_def using Cons assms(2) r(1,2) by (metis list.sel(1))
    note t = muxp.take_ok [OF pool this] muxp.take_use [OF this]
    have i: "i < 6" "\<not> mux_used p i" "mux_used p' i" using t by simp_all
    have id: "muxID (g_allMux p i) = of_nat i" using assms(1) i(1) by (simp add: mux_inv_def)
    have w: "lists s (MuxList i) = []" using assms(1) i(2) unfolding mux_inv_def by metis
    have l: "lists s' (MuxList j) = lists s (MuxList j)" for j by (simp add: r(4) upd_list_def w)
    have d: "is_idle s' = is_idle s" by (simp add: r(4) upd_list_def is_idle_def fun_eq_iff)
    have mux: "g_allMux p' j = (if j = i then (g_allMux p i)\<lparr>muxCount := 0, muxStat := OS_MUX_USED,
        mux_priority := 0, owner := None\<rparr> else g_allMux p j)" for j by (simp add: r(3) upd_mux_def)
    have "muxID (g_allMux p' j) = of_nat j" if "j < 6" for j
      using assms(1) that by (simp add: mux_inv_def mux)
    moreover have "if j < 6 \<and> mux_used p' j
        then slot_ok (g_allMux p' j) (lists s' (MuxList j)) (is_idle s')
        else lists s' (MuxList j) = []" for j
    proof (cases "j = i")
      case True
      then show ?thesis using w unfolding l d by (simp add: mux slot_ok_def)
    next
      case False
      then show ?thesis using assms(1) t(4) [of j] unfolding l d by (simp add: mux mux_inv_def)
    qed
    ultimately have inv: "mux_inv p' s'" using t(1) by (simp add: mux_inv_def)
    show ?thesis
      using i r(1,2) id inv del l w by (auto simp: mux_view_def mux intro!: exI [of _ i])
  qed
qed

theorem mux_create_delete_witness:
  "fst (LOS_MuxCreate True (ex_muxes, ex_mux_sched)) = LOS_OK"
proof -
  obtain r h p' s' where e: "LOS_MuxCreate True (ex_muxes, ex_mux_sched) = (r, h, p', s')"
    by (metis prod_cases4)
  have "\<not> mux_used ex_muxes 3" by (simp add: mux_used_def ex_muxes_def OS_MUX_UNUSED_def)
  then show ?thesis using mux_create_delete [OF ex_mux_kern(3) e, of 0] e by auto
qed

end
