(* ===== verification/Los_Membox.thy ===== *)
theory Los_Membox
  imports Los_Task
begin

text \<open>
  Pools of fixed-size blocks (kernel/src/mm/los_membox.c). A pool is a header followed by the
  blocks; the first word of a block is its node: the next free block while it is free, a magic
  number with the identifier of the task while it is allocated. The state is the headers and
  the nodes by address, and the bytes of the user parts. The exception hook is on
  (\<open>LOSCFG_PLATFORM_EXC\<close>), so the pools are linked and can be examined.
\<close>

section \<open>The memory and the operations\<close>

record LOS_MEMBOX_INFO =
  uwBlkSize :: u32
  uwBlkNum :: u32
  uwBlkCnt :: u32
  nextMemBox :: u32
  stFreeList :: u32

record membox_mem =
  box_info :: "u32 \<Rightarrow> LOS_MEMBOX_INFO"
  box_node :: "u32 \<Rightarrow> u32"
  user_byte :: "u32 \<Rightarrow> u8"
  g_memBoxHead :: u32

definition OS_MEMBOX_MAGIC :: u32 where "OS_MEMBOX_MAGIC = 0xa55a5a00"
definition OS_MEMBOX_MAX_TASKID :: u32 where "OS_MEMBOX_MAX_TASKID = 0xFF"
definition OS_MEMBOX_NODE_HEAD_SIZE :: u32 where "OS_MEMBOX_NODE_HEAD_SIZE = 4"
definition sizeof_MEMBOX_INFO :: u32 where "sizeof_MEMBOX_INFO = 20"

definition OS_MEMBOX_TASKID_GET :: "u32 \<Rightarrow> u32" where
  "OS_MEMBOX_TASKID_GET addr = addr AND OS_MEMBOX_MAX_TASKID"
definition OS_MEMBOX_USER_ADDR :: "u32 \<Rightarrow> u32" where
  "OS_MEMBOX_USER_ADDR addr = addr + OS_MEMBOX_NODE_HEAD_SIZE"
definition OS_MEMBOX_NODE_ADDR :: "u32 \<Rightarrow> u32" where
  "OS_MEMBOX_NODE_ADDR addr = addr - OS_MEMBOX_NODE_HEAD_SIZE"
definition OS_MEMBOX_NEXT :: "u32 \<Rightarrow> u32 \<Rightarrow> u32" where
  "OS_MEMBOX_NEXT addr blkSize = addr + blkSize"
definition LOS_MEMBOX_ALIGNED :: "u32 \<Rightarrow> u32" where
  "LOS_MEMBOX_ALIGNED memAddr = (memAddr + 4 - 1) AND (NOT (4 - 1))"

definition upd_info :: "u32 \<Rightarrow> (LOS_MEMBOX_INFO \<Rightarrow> LOS_MEMBOX_INFO) \<Rightarrow> membox_mem \<Rightarrow> membox_mem" where
  "upd_info pool f m = m\<lparr>box_info := (box_info m)(pool := f (box_info m pool))\<rparr>"

definition set_node :: "u32 \<Rightarrow> u32 \<Rightarrow> membox_mem \<Rightarrow> membox_mem" where
  "set_node a v m = m\<lparr>box_node := (box_node m)(a := v)\<rparr>"

text \<open>The identifier is cut to a byte.\<close>

definition OsMemBoxSetMagic :: "u32 \<Rightarrow> sched \<Rightarrow> membox_mem \<Rightarrow> membox_mem" where
  "OsMemBoxSetMagic node s m =
     (let taskID = ucast (LOS_CurTaskIDGet s) :: u8 in set_node node (OS_MEMBOX_MAGIC OR ucast taskID) m)"

definition OsMemBoxCheckMagic :: "u32 \<Rightarrow> membox_mem \<Rightarrow> u32" where
  "OsMemBoxCheckMagic node m =
     (let taskID = OS_MEMBOX_TASKID_GET (box_node m node)
      in if taskID > LOSCFG_BASE_CORE_TSK_LIMIT + 1 then LOS_NOK
         else if box_node m node = OS_MEMBOX_MAGIC OR taskID then LOS_OK else LOS_NOK)"

definition OsCheckBoxMem :: "u32 \<Rightarrow> u32 \<Rightarrow> membox_mem \<Rightarrow> u32" where
  "OsCheckBoxMem pool node m =
     (let boxInfo = box_info m pool; offset = node - (pool + sizeof_MEMBOX_INFO)
      in if uwBlkSize boxInfo = 0 then LOS_NOK
         else if offset mod uwBlkSize boxInfo \<noteq> 0 then LOS_NOK
         else if offset div uwBlkSize boxInfo \<ge> uwBlkNum boxInfo then LOS_NOK
         else OsMemBoxCheckMagic node m)"

text \<open>The last pool of the list, if the list ends: \<open>OsMemBoxAdd\<close>'s loop.\<close>

partial_function (option) last_pool :: "membox_mem \<Rightarrow> u32 \<Rightarrow> u32 \<Rightarrow> u32 option" where
  "last_pool m curPool nextPool =
     (if nextPool = 0 then Some curPool else last_pool m nextPool (nextMemBox (box_info m nextPool)))"

definition OsMemBoxAdd :: "u32 \<Rightarrow> membox_mem \<Rightarrow> membox_mem option" where
  "OsMemBoxAdd pool m =
     map_option (\<lambda>curPool.
         upd_info pool (\<lambda>i. i\<lparr>nextMemBox := 0\<rparr>)
           (if curPool = 0 then m\<lparr>g_memBoxHead := pool\<rparr>
            else upd_info curPool (\<lambda>i. i\<lparr>nextMemBox := pool\<rparr>) m))
       (last_pool m 0 (g_memBoxHead m))"

text \<open>The loop that links the free blocks: the last block and the memory.\<close>

fun link_nodes :: "nat \<Rightarrow> u32 \<Rightarrow> u32 \<Rightarrow> membox_mem \<Rightarrow> u32 \<times> membox_mem" where
  "link_nodes 0 sz node m = (node, m)"
| "link_nodes (Suc n) sz node m =
     link_nodes n sz (OS_MEMBOX_NEXT node sz) (set_node node (OS_MEMBOX_NEXT node sz) m)"

text \<open>None: the division by a block size of zero traps, or the list of pools does not end.\<close>

definition LOS_MemboxInit :: "u32 \<Rightarrow> u32 \<Rightarrow> u32 \<Rightarrow> membox_mem \<Rightarrow> (u32 \<times> membox_mem) option" where
  "LOS_MemboxInit pool poolSize blkSize m =
     (if pool = 0 then Some (LOS_NOK, m)
      else if blkSize = 0 then Some (LOS_NOK, m)
      else if poolSize < sizeof_MEMBOX_INFO then Some (LOS_NOK, m)
      else
        (let sz = LOS_MEMBOX_ALIGNED (blkSize + OS_MEMBOX_NODE_HEAD_SIZE)
         in if sz = 0 then None
            else
              (let n = (poolSize - sizeof_MEMBOX_INFO) div sz;
                   m1 = upd_info pool (\<lambda>i. i\<lparr>uwBlkSize := sz, uwBlkNum := n, uwBlkCnt := 0\<rparr>) m
               in if n = 0 then Some (LOS_NOK, m1)
                  else
                    (let node = pool + sizeof_MEMBOX_INFO;
                         m2 = upd_info pool (\<lambda>i. i\<lparr>stFreeList := node\<rparr>) m1;
                         (lastNode, m3) = link_nodes (unat (n - 1)) sz node m2
                     in map_option (\<lambda>m4. (LOS_OK, m4)) (OsMemBoxAdd pool (set_node lastNode 0 m3))))))"

definition LOS_MemboxAlloc :: "u32 \<Rightarrow> sched \<Rightarrow> membox_mem \<Rightarrow> u32 \<times> membox_mem" where
  "LOS_MemboxAlloc pool s m =
     (if pool = 0 then (0, m)
      else
        (let nodeTmp = stFreeList (box_info m pool)
         in if nodeTmp = 0 then (0, m)
            else
              (let m1 = upd_info pool (\<lambda>i. i\<lparr>stFreeList := box_node m nodeTmp\<rparr>) m;
                   m2 = OsMemBoxSetMagic nodeTmp s m1
               in (OS_MEMBOX_USER_ADDR nodeTmp, upd_info pool (\<lambda>i. i\<lparr>uwBlkCnt := uwBlkCnt i + 1\<rparr>) m2))))"

definition LOS_MemboxFree :: "u32 \<Rightarrow> u32 \<Rightarrow> membox_mem \<Rightarrow> u32 \<times> membox_mem" where
  "LOS_MemboxFree pool box m =
     (if pool = 0 \<or> box = 0 then (LOS_NOK, m)
      else
        (let node = OS_MEMBOX_NODE_ADDR box
         in if OsCheckBoxMem pool node m \<noteq> LOS_OK then (LOS_NOK, m)
            else (LOS_OK,
                  upd_info pool (\<lambda>i. i\<lparr>stFreeList := node, uwBlkCnt := uwBlkCnt i - 1\<rparr>)
                    (set_node node (stFreeList (box_info m pool)) m))))"

definition LOS_MemboxClr :: "u32 \<Rightarrow> u32 \<Rightarrow> membox_mem \<Rightarrow> membox_mem" where
  "LOS_MemboxClr pool box m =
     (if pool = 0 \<or> box = 0 then m
      else m\<lparr>user_byte := (\<lambda>a. if a - box < uwBlkSize (box_info m pool) - OS_MEMBOX_NODE_HEAD_SIZE
                               then 0 else user_byte m a)\<rparr>)"

text \<open>The three output pointers are not NULL when \<open>out\<close>.\<close>

definition LOS_MemboxStatisticsGet :: "u32 \<Rightarrow> bool \<Rightarrow> membox_mem \<Rightarrow> u32 \<times> (u32 \<times> u32 \<times> u32) option" where
  "LOS_MemboxStatisticsGet boxMem out m =
     (if boxMem = 0 \<or> \<not> out then (LOS_NOK, None)
      else (LOS_OK, Some (uwBlkNum (box_info m boxMem), uwBlkCnt (box_info m boxMem),
                          uwBlkSize (box_info m boxMem))))"

section \<open>Examination after an exception\<close>

record MemInfoCB =
  mi_startAddr :: u32
  mi_size :: u32
  mi_free :: u32
  mi_blockSize :: u32
  mi_errorAddr :: u32
  mi_errorLen :: u32
  mi_errorOwner :: u32

text \<open>The loop over the blocks; the node it stops at, with its tests in the code's order.\<close>

fun exc_scan :: "nat \<Rightarrow> u32 \<Rightarrow> u32 \<Rightarrow> u32 \<Rightarrow> u32 \<Rightarrow> membox_mem \<Rightarrow> u32 option" where
  "exc_scan 0 sz lo hi node m = None"
| "exc_scan (Suc n) sz lo hi node m =
     (if (node < lo \<or> node \<ge> hi) \<and> OsMemBoxCheckMagic node m \<noteq> LOS_OK then Some node
      else exc_scan n sz lo hi (OS_MEMBOX_NEXT node sz) m)"

definition OsMemboxExcInfoGetSub :: "u32 \<Rightarrow> membox_mem \<Rightarrow> MemInfoCB" where
  "OsMemboxExcInfoGetSub pool m =
     (let i = box_info m pool;
          poolEnd = pool + uwBlkSize i * uwBlkNum i + sizeof_MEMBOX_INFO;
          r = \<lparr>mi_startAddr = pool, mi_size = uwBlkNum i, mi_free = uwBlkNum i - uwBlkCnt i,
               mi_blockSize = uwBlkSize i, mi_errorAddr = 0, mi_errorLen = 0, mi_errorOwner = 0\<rparr>
      in case exc_scan (unat (uwBlkNum i)) (uwBlkSize i) pool poolEnd (pool + sizeof_MEMBOX_INFO) m of
           None \<Rightarrow> r
         | Some node \<Rightarrow> r\<lparr>mi_errorAddr := node + OS_MEMBOX_NODE_HEAD_SIZE,
                          mi_errorLen := uwBlkSize i - OS_MEMBOX_NODE_HEAD_SIZE,
                          mi_errorOwner := OS_MEMBOX_TASKID_GET (box_node m node)\<rparr>)"

text \<open>\<open>n\<close> more records fit after this one.\<close>

fun exc_walk :: "nat \<Rightarrow> u32 \<Rightarrow> membox_mem \<Rightarrow> MemInfoCB list" where
  "exc_walk 0 memBox m = (if memBox = 0 then [] else [OsMemboxExcInfoGetSub memBox m])"
| "exc_walk (Suc n) memBox m =
     (if memBox = 0 then []
      else OsMemboxExcInfoGetSub memBox m # exc_walk n (nextMemBox (box_info m memBox)) m)"

definition OsMemboxExcInfoGet :: "u32 \<Rightarrow> membox_mem \<Rightarrow> u32 \<times> MemInfoCB list" where
  "OsMemboxExcInfoGet memNumMax m =
     (let rs = exc_walk (unat memNumMax - 1) (g_memBoxHead m) m in (of_nat (length rs), rs))"

lemmas membox_defs = OS_MEMBOX_NODE_HEAD_SIZE_def sizeof_MEMBOX_INFO_def OS_MEMBOX_USER_ADDR_def
  OS_MEMBOX_NODE_ADDR_def OS_MEMBOX_NEXT_def

section \<open>The shape of a pool\<close>

text \<open>The list of nodes from \<open>p\<close> to NULL, and the blocks of a pool.\<close>

fun chain :: "(u32 \<Rightarrow> u32) \<Rightarrow> u32 \<Rightarrow> u32 list \<Rightarrow> bool" where
  "chain nx p [] \<longleftrightarrow> p = 0"
| "chain nx p (x # xs) \<longleftrightarrow> p = x \<and> x \<noteq> 0 \<and> chain nx (nx x) xs"

definition blk :: "u32 \<Rightarrow> u32 \<Rightarrow> nat \<Rightarrow> u32" where
  "blk pool sz k = pool + sizeof_MEMBOX_INFO + of_nat k * sz"

definition blocks :: "u32 \<Rightarrow> u32 \<Rightarrow> nat \<Rightarrow> u32 list" where
  "blocks pool sz n = map (blk pool sz) [0..<n]"

text \<open>The pool lies in the address space and away from the magic numbers.\<close>

definition fits :: "u32 \<Rightarrow> u32 \<Rightarrow> nat \<Rightarrow> bool" where
  "fits pool sz n \<longleftrightarrow> pool \<noteq> 0 \<and> unat sz \<ge> 8 \<and> unat pool + 20 + n * unat sz < 2 ^ 32
     \<and> (\<forall>b\<in>set (blocks pool sz n). b AND NOT 0xFF \<noteq> OS_MEMBOX_MAGIC)"

definition pool_blocks :: "u32 \<Rightarrow> membox_mem \<Rightarrow> u32 list" where
  "pool_blocks pool m = blocks pool (uwBlkSize (box_info m pool)) (unat (uwBlkNum (box_info m pool)))"

definition membox_ok :: "u32 \<Rightarrow> membox_mem \<Rightarrow> u32 list \<Rightarrow> bool" where
  "membox_ok pool m free \<longleftrightarrow>
     fits pool (uwBlkSize (box_info m pool)) (unat (uwBlkNum (box_info m pool)))
     \<and> chain (box_node m) (stFreeList (box_info m pool)) free
     \<and> distinct free \<and> set free \<subseteq> set (pool_blocks pool m)
     \<and> unat (uwBlkCnt (box_info m pool)) + length free = unat (uwBlkNum (box_info m pool))
     \<and> (\<forall>b\<in>set (pool_blocks pool m) - set free. OsMemBoxCheckMagic b m = LOS_OK)"

lemma chain_upd: "b \<notin> set xs \<Longrightarrow> chain (nx(b := v)) p xs = chain nx p xs"
  by (induction xs arbitrary: p) auto

lemma chain_next: "chain nx p xs \<Longrightarrow> b \<in> set xs \<Longrightarrow> nx b \<in> insert 0 (set xs)"
proof (induction xs arbitrary: p)
  case Nil
  then show ?case by simp
next
  case (Cons x xs)
  then show ?case by (cases xs) auto
qed

lemma chain_nonzero: "chain nx p xs \<Longrightarrow> x \<in> set xs \<Longrightarrow> x \<noteq> 0"
  by (induction xs arbitrary: p) auto

lemma chain_append:
  assumes "chain nx p xs" "distinct xs" "xs \<noteq> []" "q \<noteq> 0" "q \<notin> set xs"
  shows "chain (nx(last xs := q, q := 0)) p (xs @ [q])"
  using assms by (induction xs arbitrary: p) (auto simp: chain_upd fun_upd_twist)

lemma blk_unat:
  assumes "fits pool sz n" "k < n"
  shows "unat (blk pool sz k) = unat pool + 20 + k * unat sz"
proof -
  have "k * unat sz \<le> n * unat sz" using assms(2) by (simp add: mult_le_mono1)
  then have lt: "unat pool + 20 + k * unat sz < 2 ^ 32" using assms(1) unfolding fits_def by linarith
  have "blk pool sz k = of_nat (unat pool + 20 + k * unat sz)"
    by (simp add: blk_def sizeof_MEMBOX_INFO_def)
  then show ?thesis using lt by (simp only: unat_of_nat) (simp add: take_bit_nat_eq_self)
qed

lemma blk_props:
  assumes "fits pool sz n" "k < n"
  shows "blk pool sz k \<noteq> 0" "blk pool sz k + 4 \<noteq> 0" "blk pool sz k \<ge> pool"
proof -
  note u = blk_unat [OF assms]
  have "k * unat sz + unat sz \<le> n * unat sz"
    using assms(2) by (metis Suc_leI add.commute mult_Suc mult_le_mono1)
  then have lt: "unat (blk pool sz k) + 4 < 2 ^ 32" using assms(1) u by (simp add: fits_def)
  then have "unat (blk pool sz k + 4) = unat (blk pool sz k) + 4"
    by (subst unat_add_lem [THEN iffD1]) simp_all
  then show "blk pool sz k + 4 \<noteq> 0" by auto
  show "blk pool sz k \<noteq> 0" using u by auto
  show "blk pool sz k \<ge> pool" using u by (simp add: word_le_nat_alt)
qed

lemma distinct_blocks:
  assumes "fits pool sz n"
  shows "distinct (blocks pool sz n)"
proof -
  have "inj_on (blk pool sz) {0..<n}"
  proof (rule inj_onI)
    fix j k assume "j \<in> {0..<n}" "k \<in> {0..<n}" "blk pool sz j = blk pool sz k"
    then have "j * unat sz = k * unat sz" using blk_unat [OF assms, of j] blk_unat [OF assms, of k]
      by (metis add_left_cancel atLeastLessThan_iff)
    moreover have "unat sz \<noteq> 0" using assms unfolding fits_def by linarith
    ultimately show "j = k" by simp
  qed
  then show ?thesis by (simp add: blocks_def distinct_map)
qed

text \<open>The tests of \<open>OsCheckBoxMem\<close> select exactly the blocks.\<close>

lemma offset_is_block:
  assumes "fits pool sz n" "n = unat w"
  shows "(node - (pool + sizeof_MEMBOX_INFO)) mod sz = 0 \<and> (node - (pool + sizeof_MEMBOX_INFO)) div sz < w
    \<longleftrightarrow> node \<in> set (blocks pool sz n)"
proof
  let ?o = "node - (pool + sizeof_MEMBOX_INFO)"
  assume a: "?o mod sz = 0 \<and> ?o div sz < w"
  then have "?o = ?o div sz * sz" by (metis add.right_neutral div_mult_mod_eq)
  then have "node = blk pool sz (unat (?o div sz))" by (simp add: blk_def algebra_simps)
  moreover have "unat (?o div sz) < n" using a assms(2) by (simp add: word_less_nat_alt)
  ultimately show "node \<in> set (blocks pool sz n)" by (auto simp: blocks_def)
next
  let ?o = "node - (pool + sizeof_MEMBOX_INFO)"
  assume "node \<in> set (blocks pool sz n)"
  then obtain k where k: "k < n" "node = blk pool sz k" by (auto simp: blocks_def)
  have "k * unat sz \<le> n * unat sz" using k by (simp add: mult_le_mono1)
  then have lt: "k * unat sz < 2 ^ 32" using assms(1) unfolding fits_def by linarith
  have sz: "unat sz > 0" using assms(1) by (simp add: fits_def)
  have "?o = of_nat (k * unat sz)" by (simp add: k blk_def)
  then have o: "unat ?o = k * unat sz" using lt by (simp only: unat_of_nat) (simp add: take_bit_nat_eq_self)
  have "unat (?o mod sz) = 0" using o sz by (simp add: unat_mod)
  moreover have "unat (?o div sz) = k" using o sz by (simp add: unat_div)
  ultimately show "?o mod sz = 0 \<and> ?o div sz < w"
    using k assms(2) by (simp add: word_less_nat_alt unat_eq_0)
qed

lemma magic_high_bits:
  assumes "OsMemBoxCheckMagic b m = LOS_OK"
  shows "box_node m b AND NOT 0xFF = OS_MEMBOX_MAGIC"
proof -
  have "box_node m b = OS_MEMBOX_MAGIC OR (box_node m b AND 0xFF)"
    using assms by (simp add: OsMemBoxCheckMagic_def OS_MEMBOX_TASKID_GET_def OS_MEMBOX_MAX_TASKID_def
        Let_def split: if_splits)
  then have "box_node m b AND NOT 0xFF = (OS_MEMBOX_MAGIC OR (box_node m b AND 0xFF)) AND NOT 0xFF"
    by simp
  also have "\<dots> = OS_MEMBOX_MAGIC"
    by (simp add: bit.conj_disj_distrib2 and.assoc OS_MEMBOX_MAGIC_def)
  finally show ?thesis .
qed

text \<open>A free block is not taken for an allocated one.\<close>

lemma free_no_magic:
  assumes ok: "membox_ok pool m free" and b: "b \<in> set free"
  shows "OsMemBoxCheckMagic b m \<noteq> LOS_OK"
proof
  assume "OsMemBoxCheckMagic b m = LOS_OK"
  note h = magic_high_bits [OF this]
  have "box_node m b \<in> insert 0 (set free)"
    using ok b chain_next [of "box_node m"] unfolding membox_ok_def by blast
  then have "box_node m b = 0 \<or> box_node m b \<in> set (pool_blocks pool m)"
    using ok by (auto simp: membox_ok_def)
  moreover have "(0::u32) AND NOT 0xFF \<noteq> OS_MEMBOX_MAGIC" by (simp add: OS_MEMBOX_MAGIC_def)
  ultimately show False using h ok by (auto simp: membox_ok_def fits_def pool_blocks_def)
qed

section \<open>Allocating and freeing\<close>

lemma check_magic_other:
  "x \<noteq> b \<Longrightarrow> OsMemBoxCheckMagic x (set_node b v m) = OsMemBoxCheckMagic x m"
  "OsMemBoxCheckMagic x (upd_info pool f m) = OsMemBoxCheckMagic x m"
  by (simp_all add: OsMemBoxCheckMagic_def set_node_def upd_info_def Let_def)

lemma set_magic_checks:
  assumes "unat (LOS_CurTaskIDGet s) \<le> 6"
  shows "OsMemBoxCheckMagic b (OsMemBoxSetMagic b s m) = LOS_OK"
proof -
  let ?t = "LOS_CurTaskIDGet s"
  obtain k where k: "?t = of_nat k" "k \<le> 6" by (rule that [of "unat ?t"]) (use assms in simp_all)
  then have "k = 0 \<or> k = 1 \<or> k = 2 \<or> k = 3 \<or> k = 4 \<or> k = 5 \<or> k = 6" by linarith
  then have "?t \<in> {0,1,2,3,4,5,6}" using k(1) by auto
  then have "(OS_MEMBOX_MAGIC OR ?t) AND 0xFF = ?t" "\<not> ?t > 6" and t: "ucast (ucast ?t :: u8) = ?t"
    by (auto simp: OS_MEMBOX_MAGIC_def)
  then show ?thesis
    by (simp add: OsMemBoxCheckMagic_def OsMemBoxSetMagic_def set_node_def Let_def t
        OS_MEMBOX_TASKID_GET_def OS_MEMBOX_MAX_TASKID_def LOSCFG_BASE_CORE_TSK_LIMIT_def)
qed

definition ex_pool :: membox_mem where
  "ex_pool = \<lparr>box_info = (\<lambda>_. \<lparr>uwBlkSize = 12, uwBlkNum = 2, uwBlkCnt = 1, nextMemBox = 0,
       stFreeList = 0x1020\<rparr>), box_node = (\<lambda>_. 0)(0x1014 := 0xa55a5a01), user_byte = (\<lambda>_. 0),
     g_memBoxHead = 0x1000\<rparr>"

lemma ex_pool_blocks: "pool_blocks 0x1000 ex_pool = [0x1014, 0x1020]"
  by (simp add: pool_blocks_def ex_pool_def blocks_def blk_def sizeof_MEMBOX_INFO_def upt_rec)

lemma ex_pool_ok: "membox_ok 0x1000 ex_pool [0x1020]"
proof -
  have "fits 0x1000 12 2"
    by (simp add: fits_def blocks_def blk_def sizeof_MEMBOX_INFO_def OS_MEMBOX_MAGIC_def upt_rec)
  then show ?thesis
    by (simp add: membox_ok_def ex_pool_blocks)
      (auto simp: ex_pool_def OsMemBoxCheckMagic_def OS_MEMBOX_TASKID_GET_def OS_MEMBOX_MAX_TASKID_def
        OS_MEMBOX_MAGIC_def LOSCFG_BASE_CORE_TSK_LIMIT_def word_le_nat_alt)
qed

text \<open>
  C24. In a well-formed pool, an allocation by a task of the system returns NULL exactly when no block
  is free; otherwise it returns the user part of the first free block, which becomes an
  allocated block, and the pool stays well formed with the other free blocks.
\<close>

theorem membox_alloc:
  assumes "membox_ok pool m free" "unat (LOS_CurTaskIDGet s) \<le> 6" "LOS_MemboxAlloc pool s m = (a, m')"
  shows "case free of [] \<Rightarrow> a = 0 \<and> m' = m
    | b # rest \<Rightarrow> a = b + 4 \<and> a \<noteq> 0 \<and> b \<in> set (pool_blocks pool m) \<and> membox_ok pool m' rest
        \<and> OsMemBoxCheckMagic b m' = LOS_OK"
proof (cases free)
  case Nil
  then have "stFreeList (box_info m pool) = 0" using assms(1) by (simp add: membox_ok_def)
  then show ?thesis using assms(3) Nil by (simp add: LOS_MemboxAlloc_def Let_def split: if_splits)
next
  case (Cons b rest)
  note ok = assms(1) [unfolded membox_ok_def Cons]
  let ?i = "box_info m pool"
  have b: "stFreeList ?i = b" "b \<noteq> 0" "chain (box_node m) (box_node m b) rest" "b \<notin> set rest"
    "b \<in> set (pool_blocks pool m)" "pool \<noteq> 0"
    using ok by (auto simp: fits_def)
  let ?v = "OS_MEMBOX_MAGIC OR ucast (ucast (LOS_CurTaskIDGet s) :: u8)"
  let ?f = "\<lambda>i. i\<lparr>stFreeList := box_node m b, uwBlkCnt := uwBlkCnt i + 1\<rparr>"
  have r: "a = b + 4" "m' = upd_info pool ?f (set_node b ?v m)"
    using assms(3) b(1,2,6) by (auto simp: LOS_MemboxAlloc_def Let_def OS_MEMBOX_USER_ADDR_def
        OS_MEMBOX_NODE_HEAD_SIZE_def OsMemBoxSetMagic_def set_node_def upd_info_def)
  have m': "OsMemBoxCheckMagic x m' = OsMemBoxCheckMagic x (OsMemBoxSetMagic b s m)" for x
    unfolding r(2) by (simp add: check_magic_other) (simp add: OsMemBoxSetMagic_def Let_def)
  have magic: "OsMemBoxCheckMagic b m' = LOS_OK" using m' set_magic_checks [OF assms(2)] by simp
  have old: "OsMemBoxCheckMagic x m' = OsMemBoxCheckMagic x m" if "x \<noteq> b" for x
    using that by (simp add: r(2) check_magic_other)
  have i: "uwBlkSize (box_info m' pool) = uwBlkSize ?i" "uwBlkNum (box_info m' pool) = uwBlkNum ?i"
    "stFreeList (box_info m' pool) = box_node m b" "uwBlkCnt (box_info m' pool) = uwBlkCnt ?i + 1"
    "pool_blocks pool m' = pool_blocks pool m" "box_node m' = (box_node m)(b := ?v)"
    by (simp_all add: r(2) upd_info_def set_node_def pool_blocks_def)
  have "unat (uwBlkCnt ?i) < unat (uwBlkNum ?i)" using ok by auto
  then have "unat (uwBlkCnt ?i + 1) = unat (uwBlkCnt ?i) + 1"
    using word_inc_below(1) [of "uwBlkCnt ?i" "uwBlkNum ?i"] by (simp add: word_less_nat_alt)
  moreover have "\<forall>x\<in>set (pool_blocks pool m) - set rest. OsMemBoxCheckMagic x m' = LOS_OK"
  proof
    fix x assume x: "x \<in> set (pool_blocks pool m) - set rest"
    show "OsMemBoxCheckMagic x m' = LOS_OK"
      using x ok magic old [of x] by (cases "x = b") auto
  qed
  ultimately have "membox_ok pool m' rest"
    using ok b(3,4) unfolding membox_ok_def i by (simp add: chain_upd)
  moreover obtain k where "k < unat (uwBlkNum ?i)" "b = blk pool (uwBlkSize ?i) k"
    using b(5) by (auto simp: pool_blocks_def blocks_def)
  then have "a \<noteq> 0" using ok blk_props(2) [of pool "uwBlkSize ?i" _ k] r(1) by auto
  ultimately show ?thesis using Cons r(1) b(5) magic by simp
qed

theorem membox_alloc_witness:
  "fst (LOS_MemboxAlloc 0x1000 ex_sched ex_pool) = 0x1024"
proof -
  obtain a m' where e: "LOS_MemboxAlloc 0x1000 ex_sched ex_pool = (a, m')" by fastforce
  have "unat (LOS_CurTaskIDGet ex_sched) \<le> 6" by (simp add: LOS_CurTaskIDGet_def ex_tasks_def)
  from membox_alloc [OF ex_pool_ok this e] e show ?thesis by simp
qed

text \<open>
  C25. Freeing succeeds exactly on the user part of a block of the pool that is allocated, for every
  address: a foreign pointer, a pointer into a block and a second free of the same block are
  refused and change nothing. After a success the block is the first free one and the pool is
  well formed.
\<close>

theorem membox_free:
  assumes "membox_ok pool m free" "LOS_MemboxFree pool box m = (r, m')"
  shows "(r = LOS_OK \<longleftrightarrow> box - 4 \<in> set (pool_blocks pool m) \<and> box - 4 \<notin> set free)
    \<and> (r = LOS_OK \<longrightarrow> membox_ok pool m' ((box - 4) # free)) \<and> (r \<noteq> LOS_OK \<longrightarrow> m' = m)"
proof -
  note ok = assms(1) [unfolded membox_ok_def]
  let ?i = "box_info m pool" and ?b = "box - 4"
  have fit: "fits pool (uwBlkSize ?i) (unat (uwBlkNum ?i))" "pool \<noteq> 0" "uwBlkSize ?i \<noteq> 0"
    using ok by (auto simp: fits_def)
  have chk: "OsCheckBoxMem pool ?b m = LOS_OK \<longleftrightarrow> ?b \<in> set (pool_blocks pool m) \<and> ?b \<notin> set free"
  proof (cases "?b \<in> set (pool_blocks pool m)")
    case True
    then have "OsCheckBoxMem pool ?b m = OsMemBoxCheckMagic ?b m"
      using offset_is_block [OF fit(1) refl, of ?b] fit(3)
      by (simp add: OsCheckBoxMem_def Let_def pool_blocks_def not_le [symmetric])
    moreover have "OsMemBoxCheckMagic ?b m = LOS_OK \<longleftrightarrow> ?b \<notin> set free"
      using free_no_magic [OF assms(1), of ?b] ok True by auto
    ultimately show ?thesis using True by simp
  next
    case False
    then show ?thesis
      using offset_is_block [OF fit(1) refl, of ?b] by (auto simp: OsCheckBoxMem_def Let_def pool_blocks_def)
  qed
  have blk0: "?b \<noteq> 0 \<and> box \<noteq> 0" if "?b \<in> set (pool_blocks pool m)"
  proof -
    obtain k where "k < unat (uwBlkNum ?i)" "?b = blk pool (uwBlkSize ?i) k"
      using \<open>?b \<in> set (pool_blocks pool m)\<close> by (auto simp: pool_blocks_def blocks_def)
    then show ?thesis using blk_props(1,2) [OF fit(1), of k] by auto
  qed
  show ?thesis
  proof (cases "OsCheckBoxMem pool ?b m = LOS_OK")
    case True
    then have b: "?b \<in> set (pool_blocks pool m)" "?b \<notin> set free" using chk by auto
    have r: "r = LOS_OK" "m' = upd_info pool (\<lambda>i. i\<lparr>stFreeList := ?b, uwBlkCnt := uwBlkCnt i - 1\<rparr>)
        (set_node ?b (stFreeList ?i) m)"
      using assms(2) True fit(2) blk0 [OF b(1)]
      by (auto simp: LOS_MemboxFree_def Let_def OS_MEMBOX_NODE_ADDR_def OS_MEMBOX_NODE_HEAD_SIZE_def)
    have i: "uwBlkSize (box_info m' pool) = uwBlkSize ?i" "uwBlkNum (box_info m' pool) = uwBlkNum ?i"
      "stFreeList (box_info m' pool) = ?b" "uwBlkCnt (box_info m' pool) = uwBlkCnt ?i - 1"
      "pool_blocks pool m' = pool_blocks pool m" "box_node m' = (box_node m)(?b := stFreeList ?i)"
      by (simp_all add: r(2) upd_info_def set_node_def pool_blocks_def)
    have old: "OsMemBoxCheckMagic x m' = OsMemBoxCheckMagic x m" if "x \<noteq> ?b" for x
      using that by (simp add: r(2) check_magic_other)
    have sub: "set (?b # free) \<subseteq> set (pool_blocks pool m)" using ok b by simp
    have "length (?b # free) \<le> length (pool_blocks pool m)"
    proof -
      have "card (set (?b # free)) \<le> card (set (pool_blocks pool m))" by (rule card_mono [OF _ sub]) simp
      also have "\<dots> \<le> length (pool_blocks pool m)" by (rule card_length)
      finally show ?thesis using ok b by (simp add: distinct_card)
    qed
    then have "length free < unat (uwBlkNum ?i)" by (simp add: pool_blocks_def blocks_def)
    then have "unat (uwBlkCnt ?i) > 0" using ok by auto
    then have "unat (uwBlkCnt ?i - 1) = unat (uwBlkCnt ?i) - 1" "unat (uwBlkCnt ?i) > 0"
      using word_dec_above(1) [of "uwBlkCnt ?i"] by (simp_all add: word_less_nat_alt)
    moreover have "\<forall>x\<in>set (pool_blocks pool m) - set (?b # free). OsMemBoxCheckMagic x m' = LOS_OK"
      using ok old by auto
    ultimately have "membox_ok pool m' (?b # free)"
      using ok b blk0 [OF b(1)] unfolding membox_ok_def i by (auto simp: chain_upd)
    then show ?thesis using r(1) b by simp
  next
    case False
    then have "r = LOS_NOK" "m' = m"
      using assms(2) by (auto simp: LOS_MemboxFree_def Let_def OS_MEMBOX_NODE_ADDR_def
          OS_MEMBOX_NODE_HEAD_SIZE_def split: if_splits)
    then show ?thesis using False chk by simp
  qed
qed

theorem membox_free_witness:
  "fst (LOS_MemboxFree 0x1000 0x1018 ex_pool) = LOS_OK \<and> fst (LOS_MemboxFree 0x1000 0x1024 ex_pool) \<noteq> LOS_OK"
proof -
  obtain r m' q n where e: "LOS_MemboxFree 0x1000 0x1018 ex_pool = (r, m')"
    "LOS_MemboxFree 0x1000 0x1024 ex_pool = (q, n)" by fastforce
  show ?thesis
    using membox_free [OF ex_pool_ok e(1)] membox_free [OF ex_pool_ok e(2)] e
    by (simp add: ex_pool_blocks)
qed

section \<open>Initialising\<close>

lemma link_nodes_inv:
  assumes "link_nodes n sz node m = (q, m')"
  shows "q = node + of_nat n * sz" "box_info m' = box_info m" "g_memBoxHead m' = g_memBoxHead m"
    "(\<forall>j<n. \<forall>k<n. node + of_nat j * sz = node + of_nat k * sz \<longrightarrow> j = k) \<Longrightarrow> j < n \<Longrightarrow>
       box_node m' (node + of_nat j * sz) = node + of_nat (Suc j) * sz"
proof -
  have *: "q = node + of_nat n * sz \<and> box_info m' = box_info m \<and> g_memBoxHead m' = g_memBoxHead m
      \<and> (\<forall>x. (\<forall>j<n. x \<noteq> node + of_nat j * sz) \<longrightarrow> box_node m' x = box_node m x)
      \<and> ((\<forall>j<n. \<forall>k<n. node + of_nat j * sz = node + of_nat k * sz \<longrightarrow> j = k) \<longrightarrow>
         (\<forall>j<n. box_node m' (node + of_nat j * sz) = node + of_nat (Suc j) * sz))"
    using assms
  proof (induction n arbitrary: node m)
    case 0
    then show ?case by simp
  next
    case (Suc n)
    let ?m = "set_node node (node + sz) m"
    have step: "link_nodes n sz (node + sz) ?m = (q, m')" using Suc.prems by (simp add: OS_MEMBOX_NEXT_def)
    note IH = Suc.IH [OF step]
    have sh: "(node + sz) + of_nat j * sz = node + of_nat (Suc j) * sz" for j by (simp add: algebra_simps)
    have frame: "box_node m' x = box_node m x" if "\<forall>j<Suc n. x \<noteq> node + of_nat j * sz" for x
    proof -
      have "\<forall>j<n. x \<noteq> (node + sz) + of_nat j * sz" using that by (metis sh Suc_less_eq)
      moreover have "x \<noteq> node" using that by (metis mult_zero_left add.right_neutral of_nat_0 zero_less_Suc)
      ultimately show ?thesis using IH by (simp add: set_node_def)
    qed
    have links: "box_node m' (node + of_nat j * sz) = node + of_nat (Suc j) * sz"
      if d: "\<forall>j<Suc n. \<forall>k<Suc n. node + of_nat j * sz = node + of_nat k * sz \<longrightarrow> j = k" and j: "j < Suc n" for j
    proof (cases j)
      case 0
      have "node \<noteq> (node + sz) + of_nat k * sz" if "k < n" for k
      proof
        assume "node = (node + sz) + of_nat k * sz"
        then have "node + of_nat 0 * sz = node + of_nat (Suc k) * sz" unfolding sh [symmetric] by simp
        then have "0 = Suc k" using d that by blast
        then show False by simp
      qed
      then have "box_node m' node = box_node ?m node" using IH by blast
      then show ?thesis using 0 by (simp add: set_node_def)
    next
      case (Suc i)
      have "\<forall>j<n. \<forall>k<n. (node + sz) + of_nat j * sz = (node + sz) + of_nat k * sz \<longrightarrow> j = k"
        unfolding sh using d by (metis Suc_less_eq Suc_inject)
      then have "box_node m' ((node + sz) + of_nat i * sz) = (node + sz) + of_nat (Suc i) * sz"
        using IH j Suc by auto
      then show ?thesis unfolding sh Suc .
    qed
    have "box_info ?m = box_info m" "g_memBoxHead ?m = g_memBoxHead m" by (simp_all add: set_node_def)
    then show ?case using IH frame links by (simp add: algebra_simps)
  qed
  then show "q = node + of_nat n * sz" "box_info m' = box_info m" "g_memBoxHead m' = g_memBoxHead m"
    "(\<forall>j<n. \<forall>k<n. node + of_nat j * sz = node + of_nat k * sz \<longrightarrow> j = k) \<Longrightarrow> j < n \<Longrightarrow>
       box_node m' (node + of_nat j * sz) = node + of_nat (Suc j) * sz"
    by blast+
qed

lemma last_pool_chain:
  assumes "chain (\<lambda>p. nextMemBox (box_info m p)) p ps"
  shows "last_pool m c p = Some (if ps = [] then c else last ps)"
  using assms
proof (induction ps arbitrary: c p)
  case Nil
  then show ?case by (simp add: last_pool.simps)
next
  case (Cons x xs)
  then have "last_pool m c p = last_pool m x (nextMemBox (box_info m x))"
    by (subst last_pool.simps) auto
  also have "\<dots> = Some (if xs = [] then x else last xs)" using Cons by auto
  finally show ?case by simp
qed

lemma chain_cong: "(\<And>x. x \<in> set xs \<Longrightarrow> nx' x = nx x) \<Longrightarrow> chain nx' p xs = chain nx p xs"
  by (induction xs arbitrary: p) auto

lemma chain_from_links:
  assumes "\<forall>j. Suc j < n \<longrightarrow> nx (f j) = f (Suc j)" "n > 0" "nx (f (n - 1)) = 0" "\<forall>j<n. f j \<noteq> 0"
  shows "i < n \<Longrightarrow> chain nx (f i) (map f [i..<n])"
proof (induction "n - i" arbitrary: i)
  case 0
  then show ?case by simp
next
  case (Suc d)
  show ?case
  proof (cases "Suc i < n")
    case True
    then show ?thesis using Suc assms by (simp add: upt_rec [of i])
  next
    case False
    then have "i = n - 1" using Suc.prems by simp
    then show ?thesis using assms by (simp add: upt_rec)
  qed
qed

text \<open>The memory a successful initialisation leaves, \<open>q\<close> the last block after the linking.\<close>

definition init_result :: "u32 \<Rightarrow> u32 list \<Rightarrow> u32 \<Rightarrow> membox_mem \<Rightarrow> membox_mem" where
  "init_result pool ps q m =
     upd_info pool (\<lambda>i. i\<lparr>nextMemBox := 0\<rparr>)
      (if ps = [] then (set_node q 0 m)\<lparr>g_memBoxHead := pool\<rparr>
       else upd_info (last ps) (\<lambda>i. i\<lparr>nextMemBox := pool\<rparr>) (set_node q 0 m))"

lemma init_run:
  assumes "pool \<noteq> 0" "blkSize \<noteq> 0" "sizeof_MEMBOX_INFO \<le> poolSize"
    and "sz = LOS_MEMBOX_ALIGNED (blkSize + OS_MEMBOX_NODE_HEAD_SIZE)" "sz \<noteq> 0"
    and "N = (poolSize - sizeof_MEMBOX_INFO) div sz" "N \<noteq> 0"
    and "chain (\<lambda>p. nextMemBox (box_info m p)) (g_memBoxHead m) ps"
    and "m2 = upd_info pool (\<lambda>i. i\<lparr>uwBlkSize := sz, uwBlkNum := N, uwBlkCnt := 0,
      stFreeList := pool + sizeof_MEMBOX_INFO\<rparr>) m"
    and "link_nodes (unat (N - 1)) sz (pool + sizeof_MEMBOX_INFO) m2 = (q, m3)"
  shows "LOS_MemboxInit pool poolSize blkSize m = Some (LOS_OK, init_result pool ps q m3)"
    "box_info m3 = box_info m2" "g_memBoxHead m3 = g_memBoxHead m"
proof -
  note li = link_nodes_inv [OF assms(10)]
  show i: "box_info m3 = box_info m2" "g_memBoxHead m3 = g_memBoxHead m"
    using li(2,3) by (simp_all add: assms(9) upd_info_def)
  let ?m4 = "set_node q 0 m3"
  have "(\<lambda>p. nextMemBox (box_info ?m4 p)) = (\<lambda>p. nextMemBox (box_info m p))"
    by (auto simp: set_node_def i assms(9) upd_info_def)
  then have "last_pool ?m4 0 (g_memBoxHead ?m4) = Some (if ps = [] then 0 else last ps)"
    using assms(8) i(2) by (intro last_pool_chain) (simp add: set_node_def)
  moreover have "last ps \<noteq> 0" if "ps \<noteq> []" using chain_nonzero [OF assms(8)] that by simp
  ultimately have "OsMemBoxAdd pool ?m4 = Some (init_result pool ps q m3)"
    by (simp add: OsMemBoxAdd_def init_result_def)
  moreover have "upd_info pool (\<lambda>i. i\<lparr>stFreeList := pool + sizeof_MEMBOX_INFO\<rparr>)
      (upd_info pool (\<lambda>i. i\<lparr>uwBlkSize := sz, uwBlkNum := N, uwBlkCnt := 0\<rparr>) m) = m2"
    by (simp add: upd_info_def assms(9))
  ultimately show "LOS_MemboxInit pool poolSize blkSize m = Some (LOS_OK, init_result pool ps q m3)"
    using assms(1-7,10) by (simp add: LOS_MemboxInit_def Let_def not_less)
qed

text \<open>
  C26. Initialising a pool that fits into the address space succeeds when the list of pools ends;
  the pool is well formed with all its blocks free, and is added at the end of the list of pools.
\<close>

theorem membox_init:
  assumes "blkSize \<noteq> 0" "sizeof_MEMBOX_INFO \<le> poolSize" "sz = LOS_MEMBOX_ALIGNED (blkSize + OS_MEMBOX_NODE_HEAD_SIZE)"
    and "n = unat ((poolSize - sizeof_MEMBOX_INFO) div sz)" "n > 0" "fits pool sz n"
    and "chain (\<lambda>p. nextMemBox (box_info m p)) (g_memBoxHead m) ps" "distinct ps" "pool \<notin> set ps"
  shows "\<exists>m'. LOS_MemboxInit pool poolSize blkSize m = Some (LOS_OK, m')
    \<and> membox_ok pool m' (blocks pool sz n)
    \<and> chain (\<lambda>p. nextMemBox (box_info m' p)) (g_memBoxHead m') (ps @ [pool])"
proof -
  let ?N = "(poolSize - sizeof_MEMBOX_INFO) div sz" and ?b = "blk pool sz"
  let ?node = "pool + sizeof_MEMBOX_INFO"
  let ?m2 = "upd_info pool (\<lambda>i. i\<lparr>uwBlkSize := sz, uwBlkNum := ?N, uwBlkCnt := 0, stFreeList := ?node\<rparr>) m"
  obtain q m3 where l: "link_nodes (unat (?N - 1)) sz ?node ?m2 = (q, m3)" by fastforce
  have "?N > 0" using assms(4,5) by (simp add: unat_gt_0 word_gt_0)
  then have N: "?N \<noteq> 0" "unat (?N - 1) = n - 1" using word_dec_above(1) [of ?N] assms(4) by auto
  have sz: "sz \<noteq> 0" "pool \<noteq> 0" using assms(6) by (auto simp: fits_def)
  note run = init_run [OF sz(2) assms(1-3) sz(1) refl N(1) assms(7) refl l]
  have b0: "?b j = ?node + of_nat j * sz" for j by (simp add: blk_def)
  have inj: "j = k" if "j < n" "k < n" "?b j = ?b k" for j k
    using distinct_blocks [OF assms(6)] that by (auto simp: blocks_def distinct_map inj_on_def)
  note li = link_nodes_inv [OF l, unfolded N(2)]
  have q: "q = ?b (n - 1)" using li(1) by (simp add: b0)
  have links: "box_node m3 (?b j) = ?b (Suc j)" if "j < n - 1" for j
    unfolding b0 by (rule li(4)) (use that inj [unfolded b0] in auto)
  have l0: "last ps \<noteq> pool \<and> pool \<noteq> last ps" if "ps \<noteq> []" using that assms(9) last_in_set by metis
  let ?m5 = "init_result pool ps q m3"
  have i5: "uwBlkSize (box_info ?m5 pool) = sz" "uwBlkNum (box_info ?m5 pool) = ?N"
    "stFreeList (box_info ?m5 pool) = ?node" "uwBlkCnt (box_info ?m5 pool) = 0"
    "box_node ?m5 = (box_node m3)(q := 0)"
    using l0 run(2) by (simp_all add: init_result_def upd_info_def set_node_def)
  have "chain (box_node ?m5) (?b 0) (map ?b [0..<n])"
  proof (rule chain_from_links)
    show "\<forall>j. Suc j < n \<longrightarrow> box_node ?m5 (?b j) = ?b (Suc j)"
    proof (intro allI impI)
      fix j assume j: "Suc j < n"
      then have "?b j \<noteq> q" using inj [of j "n - 1"] by (auto simp: q)
      then show "box_node ?m5 (?b j) = ?b (Suc j)" using links [of j] j by (simp add: i5(5))
    qed
    show "box_node ?m5 (?b (n - 1)) = 0" using i5(5) q by simp
  qed (use assms(5) blk_props(1) [OF assms(6)] in auto)
  then have "membox_ok pool ?m5 (blocks pool sz n)"
    using assms(6) distinct_blocks [OF assms(6)]
    unfolding membox_ok_def pool_blocks_def i5 by (simp add: assms(4) [symmetric] blocks_def blk_def)
  moreover have "chain (\<lambda>p. nextMemBox (box_info ?m5 p)) (g_memBoxHead ?m5) (ps @ [pool])"
  proof (cases "ps = []")
    case True
    then show ?thesis using sz by (simp add: init_result_def upd_info_def)
  next
    case False
    have "(\<lambda>p. nextMemBox (box_info ?m5 p)) = (\<lambda>p. nextMemBox (box_info m p))(last ps := pool, pool := 0)"
      using False l0 run(2) by (simp add: init_result_def upd_info_def set_node_def fun_eq_iff)
    then show ?thesis
      using chain_append [OF assms(7,8) False sz(2) assms(9)] False run(3)
      by (simp add: init_result_def upd_info_def set_node_def)
  qed
  ultimately show ?thesis using run(1) by blast
qed

theorem membox_init_witness:
  "\<exists>m'. LOS_MemboxInit 0x2000 68 8 (ex_pool\<lparr>g_memBoxHead := 0\<rparr>) = Some (LOS_OK, m')
    \<and> membox_ok 0x2000 m' [0x2014, 0x2020, 0x202C, 0x2038]"
proof -
  have b: "blocks 0x2000 12 4 = [0x2014, 0x2020, 0x202C, 0x2038]"
    by (simp add: blocks_def blk_def sizeof_MEMBOX_INFO_def upt_rec)
  have f: "fits 0x2000 12 4" by (simp add: fits_def b OS_MEMBOX_MAGIC_def)
  have c: "(8 :: u32) \<noteq> 0" "sizeof_MEMBOX_INFO \<le> 68" "12 = LOS_MEMBOX_ALIGNED (8 + OS_MEMBOX_NODE_HEAD_SIZE)"
    "4 = unat ((68 - sizeof_MEMBOX_INFO) div (12 :: u32))" "(4 :: nat) > 0"
    by (simp_all add: LOS_MEMBOX_ALIGNED_def OS_MEMBOX_NODE_HEAD_SIZE_def sizeof_MEMBOX_INFO_def word_le_nat_alt)
  let ?m = "ex_pool\<lparr>g_memBoxHead := 0\<rparr>"
  have e: "chain (\<lambda>p. nextMemBox (box_info ?m p)) (g_memBoxHead ?m) []" by simp
  show ?thesis using membox_init [OF c f e] unfolding b by auto
qed

section \<open>Two defects\<close>

text \<open>
  The size of a block is rounded up in 32 bits without a check: for four requests near the top
  the rounded size is zero and the division traps; for the last three the pool is made, of
  blocks that have no room but for their own node.
\<close>

theorem membox_init_wraps:
  assumes "pool \<noteq> 0" "poolSize \<ge> 24" "0xFFFFFFF9 \<le> blkSize"
    and "chain (\<lambda>p. nextMemBox (box_info m p)) (g_memBoxHead m) ps" "pool \<notin> set ps"
  shows "if blkSize \<le> 0xFFFFFFFC then LOS_MemboxInit pool poolSize blkSize m = None
    else \<exists>m'. LOS_MemboxInit pool poolSize blkSize m = Some (LOS_OK, m')
           \<and> uwBlkSize (box_info m' pool) = OS_MEMBOX_NODE_HEAD_SIZE"
proof -
  obtain k where k: "blkSize = 0xFFFFFFF9 + of_nat k" "k \<le> 6"
  proof
    show "blkSize = 0xFFFFFFF9 + of_nat (unat (blkSize - 0xFFFFFFF9))" by simp
    have "unat blkSize < 2 ^ LENGTH(32)" by (rule unsigned_less)
    then show "unat (blkSize - 0xFFFFFFF9) \<le> 6" using assms(3) by (simp add: unat_sub word_le_nat_alt)
  qed
  then have ks: "k = 0 \<or> k = 1 \<or> k = 2 \<or> k = 3 \<or> k = 4 \<or> k = 5 \<or> k = 6" by linarith
  have size: "sizeof_MEMBOX_INFO \<le> poolSize"
    using assms(2) by (simp add: sizeof_MEMBOX_INFO_def word_le_nat_alt)
  have al: "LOS_MEMBOX_ALIGNED (blkSize + OS_MEMBOX_NODE_HEAD_SIZE) = (if blkSize \<le> 0xFFFFFFFC then 0 else 4)"
    "blkSize \<noteq> 0"
    using ks by (auto simp: k(1) LOS_MEMBOX_ALIGNED_def OS_MEMBOX_NODE_HEAD_SIZE_def)
  show ?thesis
  proof (cases "blkSize \<le> 0xFFFFFFFC")
    case True
    then show ?thesis using assms(1) size al by (simp add: LOS_MemboxInit_def Let_def not_less)
  next
    case False
    let ?N = "(poolSize - sizeof_MEMBOX_INFO) div 4"
    let ?m2 = "upd_info pool (\<lambda>i. i\<lparr>uwBlkSize := 4, uwBlkNum := ?N, uwBlkCnt := 0,
      stFreeList := pool + sizeof_MEMBOX_INFO\<rparr>) m"
    obtain q m3 where l: "link_nodes (unat (?N - 1)) 4 (pool + sizeof_MEMBOX_INFO) ?m2 = (q, m3)" by fastforce
    have "unat (poolSize - 20) \<ge> 4" using assms(2) by (simp add: word_le_nat_alt unat_sub)
    then have "unat ?N \<noteq> 0" by (simp add: unat_div sizeof_MEMBOX_INFO_def)
    then have N: "?N \<noteq> 0" by auto
    have sz: "4 = LOS_MEMBOX_ALIGNED (blkSize + OS_MEMBOX_NODE_HEAD_SIZE)" "(4::u32) \<noteq> 0" using al False by auto
    note run = init_run [OF assms(1) al(2) size sz refl N assms(4) refl l]
    have "last ps \<noteq> pool \<and> pool \<noteq> last ps" if "ps \<noteq> []" using that assms(5) last_in_set by metis
    then have "uwBlkSize (box_info (init_result pool ps q m3) pool) = OS_MEMBOX_NODE_HEAD_SIZE"
      using run(2) by (simp add: init_result_def upd_info_def set_node_def OS_MEMBOX_NODE_HEAD_SIZE_def)
    then show ?thesis using run(1) False by auto
  qed
qed

theorem membox_init_wraps_witness:
  "LOS_MemboxInit 0x2000 68 0xFFFFFFFC (ex_pool\<lparr>g_memBoxHead := 0\<rparr>) = None"
  using membox_init_wraps [where pool = "0x2000" and poolSize = 68 and blkSize = "0xFFFFFFFC"
      and m = "ex_pool\<lparr>g_memBoxHead := 0\<rparr>" and ps = "[]"] by simp

lemma exc_scan_inside:
  assumes "\<forall>k<n. lo \<le> node + of_nat k * sz \<and> node + of_nat k * sz < hi"
  shows "exc_scan n sz lo hi node m = None"
  using assms
proof (induction n arbitrary: node)
  case 0
  then show ?case by simp
next
  case (Suc n)
  have "\<forall>k<n. lo \<le> (node + sz) + of_nat k * sz \<and> (node + sz) + of_nat k * sz < hi"
  proof (intro allI impI)
    fix k assume "k < n"
    then show "lo \<le> (node + sz) + of_nat k * sz \<and> (node + sz) + of_nat k * sz < hi"
      using Suc.prems [rule_format, of "Suc k"] by (simp add: algebra_simps)
  qed
  then show ?case using Suc.IH [of "node + sz"] Suc.prems [rule_format, of 0]
    by (simp add: OS_MEMBOX_NEXT_def not_less not_le)
qed

text \<open>
  The examination after an exception checks the magic number of a block only when the block
  lies outside its pool, which no block does: whatever the nodes hold, it reports no error.
\<close>

theorem membox_exc_blind:
  assumes "fits pool (uwBlkSize (box_info m pool)) (unat (uwBlkNum (box_info m pool)))"
  shows "mi_errorAddr (OsMemboxExcInfoGetSub pool m) = 0"
proof -
  let ?sz = "uwBlkSize (box_info m pool)" and ?N = "uwBlkNum (box_info m pool)"
  let ?hi = "pool + ?sz * ?N + sizeof_MEMBOX_INFO"
  have lt: "unat pool + 20 + unat ?N * unat ?sz < 2 ^ 32" using assms by (simp add: fits_def)
  have "?hi = of_nat (unat pool + 20 + unat ?N * unat ?sz)"
    by (simp add: sizeof_MEMBOX_INFO_def algebra_simps)
  then have hi: "unat ?hi = unat pool + 20 + unat ?N * unat ?sz"
    using lt by (simp only: unat_of_nat) (simp add: take_bit_nat_eq_self)
  have "pool \<le> pool + sizeof_MEMBOX_INFO + of_nat k * ?sz \<and> pool + sizeof_MEMBOX_INFO + of_nat k * ?sz < ?hi"
    if k: "k < unat ?N" for k
  proof -
    have "k * unat ?sz < unat ?N * unat ?sz" using k assms by (simp add: fits_def)
    then show ?thesis
      using blk_unat [OF assms k] blk_props(3) [OF assms k] hi
      by (simp add: blk_def word_less_nat_alt)
  qed
  then show ?thesis by (simp add: OsMemboxExcInfoGetSub_def Let_def exc_scan_inside)
qed

theorem membox_exc_blind_witness:
  "mi_errorAddr (OsMemboxExcInfoGetSub 0x1000 (set_node 0x1014 0 ex_pool)) = 0"
proof -
  have "fits 0x1000 12 2"
    by (simp add: fits_def blocks_def blk_def sizeof_MEMBOX_INFO_def OS_MEMBOX_MAGIC_def upt_rec)
  then show ?thesis
    using membox_exc_blind [where pool = "0x1000" and m = "set_node 0x1014 0 ex_pool"] by (simp add: set_node_def ex_pool_def)
qed

end
