(* ===== verification/Los_Queue.thy ===== *)
theory Los_Queue
  imports Los_Pool Los_TaskProps Los_Membox
begin

text \<open>
  Message queues (kernel/src/los_queue.c): rings of fixed-size nodes with blocking readers and
  writers, and the mail boxes on top of them. The state is the array of control blocks and the
  list of free ones; the tasks that wait on queue \<open>i\<close> are the scheduler's lists \<open>QueueRead i\<close>,
  \<open>QueueWrite i\<close> and \<open>QueueMem i\<close>. The buffer of a queue is a field of its block, by byte
  offset. Static queues are off, as in the default configuration. An operation that may sleep
  is two definitions: up to the reschedule, and after the task runs again.
\<close>

section \<open>Configuration and types of operations\<close>

definition LOSCFG_BASE_IPC_QUEUE_LIMIT :: u32 where "LOSCFG_BASE_IPC_QUEUE_LIMIT = 6"
definition OS_ALL_IPC_QUEUE_LIMIT :: u32 where "OS_ALL_IPC_QUEUE_LIMIT = LOSCFG_BASE_IPC_QUEUE_LIMIT"
definition OS_QUEUE_UNUSED :: u16 where "OS_QUEUE_UNUSED = 0"
definition OS_QUEUE_INUSED :: u16 where "OS_QUEUE_INUSED = 1"
definition SECUREC_MEM_MAX_LEN :: u32 where "SECUREC_MEM_MAX_LEN = 0x7fffffff"

definition OS_QUEUE_READ :: u32 where "OS_QUEUE_READ = 0"
definition OS_QUEUE_WRITE :: u32 where "OS_QUEUE_WRITE = 1"
definition OS_QUEUE_HEAD :: u32 where "OS_QUEUE_HEAD = 0"
definition OS_QUEUE_TAIL :: u32 where "OS_QUEUE_TAIL = 1"
definition OS_QUEUE_NOT_POINT :: u32 where "OS_QUEUE_NOT_POINT = 0"
definition OS_QUEUE_POINT :: u32 where "OS_QUEUE_POINT = 1"

definition OS_QUEUE_OPERATE_TYPE :: "u32 \<Rightarrow> u32 \<Rightarrow> u32 \<Rightarrow> u32" where
  "OS_QUEUE_OPERATE_TYPE ReadOrWrite HeadOrTail PointOrNot =
     (push_bit 2 PointOrNot OR push_bit 1 HeadOrTail) OR ReadOrWrite"
definition OS_QUEUE_READ_WRITE_GET :: "u32 \<Rightarrow> u32" where "OS_QUEUE_READ_WRITE_GET ty = ty AND 0x01"
definition OS_QUEUE_READ_HEAD :: u32 where "OS_QUEUE_READ_HEAD = OS_QUEUE_READ OR push_bit 1 OS_QUEUE_HEAD"
definition OS_QUEUE_WRITE_HEAD :: u32 where "OS_QUEUE_WRITE_HEAD = OS_QUEUE_WRITE OR push_bit 1 OS_QUEUE_HEAD"
definition OS_QUEUE_WRITE_TAIL :: u32 where "OS_QUEUE_WRITE_TAIL = OS_QUEUE_WRITE OR push_bit 1 OS_QUEUE_TAIL"
definition OS_QUEUE_OPERATE_GET :: "u32 \<Rightarrow> u32" where "OS_QUEUE_OPERATE_GET ty = ty AND 0x03"
definition OS_QUEUE_IS_POINT :: "u32 \<Rightarrow> bool" where "OS_QUEUE_IS_POINT ty \<longleftrightarrow> ty AND 0x04 \<noteq> 0"
definition OS_QUEUE_IS_READ :: "u32 \<Rightarrow> bool" where
  "OS_QUEUE_IS_READ ty \<longleftrightarrow> OS_QUEUE_READ_WRITE_GET ty = OS_QUEUE_READ"
definition OS_QUEUE_IS_WRITE :: "u32 \<Rightarrow> bool" where
  "OS_QUEUE_IS_WRITE ty \<longleftrightarrow> OS_QUEUE_READ_WRITE_GET ty = OS_QUEUE_WRITE"

section \<open>The control blocks\<close>

text \<open>\<open>queueMem\<close> is the contents of the buffer at \<open>queue\<close>.\<close>

record LosQueueCB =
  queue :: u32
  queueName :: "string option"
  queueState :: u16
  queueLen :: u16
  queueSize :: u16
  queueID :: u16
  queueHead :: u16
  queueTail :: u16
  readWriteableCnt :: "u32 \<Rightarrow> u16"
  queueMem :: "nat \<Rightarrow> u8"

record queue_state =
  g_allQueue :: "nat \<Rightarrow> LosQueueCB"
  g_freeQueueList :: "nat list"

text \<open>The heap: a block or 0, and the status of freeing one.\<close>

record 'h heap_ops =
  heap_alloc :: "'h \<Rightarrow> u32 \<Rightarrow> u32 \<times> 'h"
  heap_free :: "'h \<Rightarrow> u32 \<Rightarrow> u32 \<times> 'h"

definition upd_queue :: "nat \<Rightarrow> (LosQueueCB \<Rightarrow> LosQueueCB) \<Rightarrow> queue_state \<Rightarrow> queue_state" where
  "upd_queue i f p = p\<lparr>g_allQueue := (g_allQueue p)(i := f (g_allQueue p i))\<rparr>"

definition OsGetQueueHandle :: "u32 \<Rightarrow> nat" where "OsGetQueueHandle qid = unat qid"

text \<open>The waiting tasks, \<open>readWriteList[readWrite]\<close>.\<close>

definition readWriteList :: "u32 \<Rightarrow> nat \<Rightarrow> listid" where
  "readWriteList readWrite i = (if readWrite = OS_QUEUE_READ then QueueRead i else QueueWrite i)"

definition zero_queue :: LosQueueCB where
  "zero_queue = \<lparr>queue = 0, queueName = None, queueState = 0, queueLen = 0, queueSize = 0,
     queueID = 0, queueHead = 0, queueTail = 0, readWriteableCnt = (\<lambda>_. 0), queueMem = (\<lambda>_. 0)\<rparr>"

definition OsQueueInit :: "bool \<Rightarrow> queue_state \<Rightarrow> u32 \<times> queue_state" where
  "OsQueueInit mem_ok p =
     (if OS_ALL_IPC_QUEUE_LIMIT = 0 then (LOS_ERRNO_QUEUE_MAXNUM_ZERO, p)
      else if \<not> mem_ok then (LOS_ERRNO_QUEUE_NO_MEMORY, p)
      else (LOS_OK,
        fold (\<lambda>index p. (upd_queue index (\<lambda>c. c\<lparr>queueID := of_nat index\<rparr>) p)
                \<lparr>g_freeQueueList := g_freeQueueList p @ [index]\<rparr>)
          [0..<unat LOSCFG_BASE_IPC_QUEUE_LIMIT]
          (p\<lparr>g_allQueue := (\<lambda>_. zero_queue), g_freeQueueList := []\<rparr>)))"

text \<open>\<open>queueIDp\<close> says the pointer is not NULL; the identifier written is the second result.\<close>

definition OsQueueCreate :: "'h heap_ops \<Rightarrow> string option \<Rightarrow> u16 \<Rightarrow> bool \<Rightarrow> u16
    \<Rightarrow> queue_state \<times> 'h \<times> sched \<Rightarrow> u32 \<times> u32 option \<times> queue_state \<times> 'h \<times> sched" where
  "OsQueueCreate al name len queueIDp maxMsgSize = (\<lambda>(p, h, s).
     if \<not> queueIDp then (LOS_ERRNO_QUEUE_CREAT_PTR_NULL, None, p, h, s)
     else if maxMsgSize > OS_NULL_SHORT - 4 then (LOS_ERRNO_QUEUE_SIZE_TOO_BIG, None, p, h, s)
     else if len = 0 \<or> maxMsgSize = 0 then (LOS_ERRNO_QUEUE_PARA_ISZERO, None, p, h, s)
     else
       (let msgSize = maxMsgSize + 4
        in if 0xFFFFFFFF div ucast msgSize < (ucast len :: u32)
           then (LOS_ERRNO_QUEUE_SIZE_TOO_BIG, None, p, h, s)
           else
             (let (buf, h1) = heap_alloc al h (ucast len * ucast msgSize)
              in if buf = 0 then (LOS_ERRNO_QUEUE_CREATE_NO_MEMORY, None, p, h1, s)
                 else case g_freeQueueList p of
                   [] \<Rightarrow> (LOS_ERRNO_QUEUE_CB_UNAVAILABLE, None, p, snd (heap_free al h1 buf), s)
                 | i # rest \<Rightarrow>
                     (let p1 = upd_queue i (\<lambda>c. c\<lparr>queueName := name, queueLen := len,
                                 queueSize := msgSize, queue := buf, queueState := OS_QUEUE_INUSED,
                                 readWriteableCnt := (readWriteableCnt c)(OS_QUEUE_READ := 0, OS_QUEUE_WRITE := len),
                                 queueHead := 0, queueTail := 0\<rparr>) (p\<lparr>g_freeQueueList := rest\<rparr>);
                          s1 = upd_list (QueueMem i) (\<lambda>_. []) (upd_list (QueueWrite i) (\<lambda>_. [])
                                 (upd_list (QueueRead i) (\<lambda>_. []) s))
                      in (LOS_OK, Some (ucast (queueID (g_allQueue p1 i))), p1, h1, s1)))))"

definition LOS_QueueCreate :: "'h heap_ops \<Rightarrow> string option \<Rightarrow> u16 \<Rightarrow> bool \<Rightarrow> u32 \<Rightarrow> u16
    \<Rightarrow> queue_state \<times> 'h \<times> sched \<Rightarrow> u32 \<times> u32 option \<times> queue_state \<times> 'h \<times> sched" where
  "LOS_QueueCreate al name len queueIDp flags maxMsgSize = OsQueueCreate al name len queueIDp maxMsgSize"

section \<open>Checks of the parameters\<close>

text \<open>\<open>bufferAddr\<close> says the buffer is not NULL; a NULL size is None.\<close>

definition OsQueueReadParameterCheck :: "u32 \<Rightarrow> bool \<Rightarrow> u32 option \<Rightarrow> u32 \<Rightarrow> sched \<Rightarrow> u32" where
  "OsQueueReadParameterCheck qid bufferAddr bufferSize timeOut s =
     (if qid \<ge> OS_ALL_IPC_QUEUE_LIMIT then LOS_ERRNO_QUEUE_INVALID
      else if \<not> bufferAddr \<or> bufferSize = None then LOS_ERRNO_QUEUE_READ_PTR_NULL
      else if bufferSize = Some 0 then LOS_ERRNO_QUEUE_READSIZE_ISZERO
      else if timeOut \<noteq> LOS_NO_WAIT \<and> intActive s then LOS_ERRNO_QUEUE_READ_IN_INTERRUPT
      else LOS_OK)"

definition OsQueueWriteParameterCheck :: "u32 \<Rightarrow> bool \<Rightarrow> u32 \<Rightarrow> u32 \<Rightarrow> sched \<Rightarrow> u32" where
  "OsQueueWriteParameterCheck qid bufferAddr bufferSize timeOut s =
     (if qid \<ge> OS_ALL_IPC_QUEUE_LIMIT then LOS_ERRNO_QUEUE_INVALID
      else if \<not> bufferAddr then LOS_ERRNO_QUEUE_WRITE_PTR_NULL
      else if bufferSize = 0 then LOS_ERRNO_QUEUE_WRITESIZE_ISZERO
      else if timeOut \<noteq> LOS_NO_WAIT \<and> intActive s then LOS_ERRNO_QUEUE_WRITE_IN_INTERRUPT
      else LOS_OK)"

definition OsQueueOperateParamCheck :: "LosQueueCB \<Rightarrow> u32 \<Rightarrow> u32 \<Rightarrow> u32" where
  "OsQueueOperateParamCheck queueCB operateType bufferSize =
     (if queueState queueCB = OS_QUEUE_UNUSED then LOS_ERRNO_QUEUE_NOT_CREATE
      else if OS_QUEUE_IS_WRITE operateType \<and> bufferSize > ucast (queueSize queueCB) - 4
      then LOS_ERRNO_QUEUE_WRITE_SIZE_TOO_BIG
      else if bufferSize \<ge> SECUREC_MEM_MAX_LEN then LOS_ERRNO_QUEUE_BUFFER_SIZE_TOO_BIG
      else LOS_OK)"

section \<open>The ring\<close>

text \<open>Bytes of a memory: \<open>n\<close> from offset \<open>off\<close>, and writing a list there.\<close>

definition get_bytes :: "nat \<Rightarrow> nat \<Rightarrow> (nat \<Rightarrow> u8) \<Rightarrow> u8 list" where
  "get_bytes off n mem = map (\<lambda>k. mem (off + k)) [0..<n]"

definition put_bytes :: "nat \<Rightarrow> u8 list \<Rightarrow> (nat \<Rightarrow> u8) \<Rightarrow> nat \<Rightarrow> u8" where
  "put_bytes off bs mem = (\<lambda>a. if off \<le> a \<and> a < off + length bs then bs ! (a - off) else mem a)"

text \<open>A UINT32 in memory, little endian.\<close>

definition u32_bytes :: "u32 \<Rightarrow> u8 list" where
  "u32_bytes w = [ucast w, ucast (drop_bit 8 w), ucast (drop_bit 16 w), ucast (drop_bit 24 w)]"

definition get_u32 :: "nat \<Rightarrow> (nat \<Rightarrow> u8) \<Rightarrow> u32" where
  "get_u32 off mem = ucast (mem off) OR push_bit 8 (ucast (mem (off + 1)))
     OR push_bit 16 (ucast (mem (off + 2))) OR push_bit 24 (ucast (mem (off + 3)))"

text \<open>
  \<open>memcpy_s\<close> between separate buffers (bounds_checking_function): whether it returned EOK, and
  the destination.
\<close>

definition memcpy_s :: "nat \<Rightarrow> (nat \<Rightarrow> u8) \<Rightarrow> u32 \<Rightarrow> nat \<Rightarrow> (nat \<Rightarrow> u8) \<Rightarrow> u32 \<Rightarrow> bool \<times> (nat \<Rightarrow> u8)" where
  "memcpy_s dst mem destMax src smem count =
     (if destMax = 0 \<or> destMax > SECUREC_MEM_MAX_LEN then (False, mem)
      else if count > destMax then (False, put_bytes dst (replicate (unat destMax) 0) mem)
      else (True, put_bytes dst (get_bytes src (unat count) smem) mem))"

text \<open>The position of the operation, and the block with its index moved.\<close>

definition queue_position :: "LosQueueCB \<Rightarrow> u32 \<Rightarrow> (u16 \<times> LosQueueCB) option" where
  "queue_position q operateType =
     (if OS_QUEUE_OPERATE_GET operateType = OS_QUEUE_READ_HEAD
      then Some (queueHead q, q\<lparr>queueHead := (if unat (queueHead q) + 1 = unat (queueLen q) then 0
                                              else queueHead q + 1)\<rparr>)
      else if OS_QUEUE_OPERATE_GET operateType = OS_QUEUE_WRITE_HEAD
      then (let hd' = (if queueHead q = 0 then queueLen q - 1 else queueHead q - 1)
            in Some (hd', q\<lparr>queueHead := hd'\<rparr>))
      else if OS_QUEUE_OPERATE_GET operateType = OS_QUEUE_WRITE_TAIL
      then Some (queueTail q, q\<lparr>queueTail := (if unat (queueTail q) + 1 = unat (queueLen q) then 0
                                              else queueTail q + 1)\<rparr>)
      else None)"

text \<open>
  The caller's buffer and size are arguments and results.
\<close>

definition OsQueueBufferOperate :: "LosQueueCB \<Rightarrow> u32 \<Rightarrow> (nat \<Rightarrow> u8) \<Rightarrow> u32
    \<Rightarrow> LosQueueCB \<times> (nat \<Rightarrow> u8) \<times> u32" where
  "OsQueueBufferOperate queueCB operateType buf bufferSize =
     (case queue_position queueCB operateType of
        None \<Rightarrow> (queueCB, buf, bufferSize)
      | Some (queuePosition, q) \<Rightarrow>
          (let node = unat queuePosition * unat (queueSize q);
               sizeAt = node + unat (queueSize q) - 4
           in if OS_QUEUE_IS_POINT operateType
              then if OS_QUEUE_IS_READ operateType
                   then (q, put_bytes 0 (get_bytes node 4 (queueMem q)) buf, bufferSize)
                   else (q\<lparr>queueMem := put_bytes node (get_bytes 0 4 buf) (queueMem q)\<rparr>, buf, bufferSize)
              else if OS_QUEUE_IS_READ operateType
              then (let stored = get_u32 sizeAt (queueMem q);
                        msgDataSize = (if bufferSize < stored then bufferSize else stored);
                        (ok, buf') = memcpy_s 0 buf bufferSize node (queueMem q) msgDataSize
                    in if \<not> ok then (q, buf', bufferSize) else (q, buf', msgDataSize))
              else (let mem = put_bytes sizeAt (u32_bytes bufferSize) (queueMem q);
                        (ok, mem') = memcpy_s node mem (ucast (queueSize q)) 0 buf bufferSize
                    in (q\<lparr>queueMem := mem'\<rparr>, buf, bufferSize))))"

section \<open>Reading and writing\<close>

text \<open>
  The end of \<open>OsQueueOperate\<close>: the transfer, and a task waiting for the opposite operation is
  woken, or the opposite count goes up.
\<close>

definition queue_finish :: "nat \<Rightarrow> u32 \<Rightarrow> (nat \<Rightarrow> u8) \<Rightarrow> u32 \<Rightarrow> queue_state \<times> sched
    \<Rightarrow> u32 \<times> (nat \<Rightarrow> u8) \<times> u32 \<times> queue_state \<times> sched" where
  "queue_finish i operateType buf bufferSize = (\<lambda>(p, s).
     (let readWriteTmp = (if OS_QUEUE_READ_WRITE_GET operateType = 0 then 1 else 0);
          (q, buf', size') = OsQueueBufferOperate (g_allQueue p i) operateType buf bufferSize;
          p1 = upd_queue i (\<lambda>_. q) p
      in case lists s (readWriteList readWriteTmp i) of
           t # _ \<Rightarrow> (LOS_OK, buf', size', p1, LOS_Schedule (OsSchedTaskWake t s))
         | [] \<Rightarrow> (LOS_OK, buf', size',
                  upd_queue i (\<lambda>c. c\<lparr>readWriteableCnt := (readWriteableCnt c)
                      (readWriteTmp := readWriteableCnt c readWriteTmp + 1)\<rparr>) p1, s)))"

definition OsQueueOperate :: "u32 \<Rightarrow> u32 \<Rightarrow> (nat \<Rightarrow> u8) \<Rightarrow> u32 \<Rightarrow> u32 \<Rightarrow> queue_state \<times> sched
    \<Rightarrow> pend_result \<times> (nat \<Rightarrow> u8) \<times> u32 \<times> queue_state \<times> sched" where
  "OsQueueOperate qid operateType buf bufferSize timeOut = (\<lambda>(p, s).
     (let readWrite = OS_QUEUE_READ_WRITE_GET operateType; i = OsGetQueueHandle qid;
          q = g_allQueue p i;
          ret = OsQueueOperateParamCheck q operateType bufferSize
      in if ret \<noteq> LOS_OK then (Returned ret, buf, bufferSize, p, s)
         else if readWriteableCnt q readWrite = 0
         then if timeOut = LOS_NO_WAIT
              then (Returned (if OS_QUEUE_IS_READ operateType then LOS_ERRNO_QUEUE_ISEMPTY
                              else LOS_ERRNO_QUEUE_ISFULL), buf, bufferSize, p, s)
              else if g_losTaskLock s \<noteq> 0
              then (Returned LOS_ERRNO_QUEUE_PEND_IN_LOCK, buf, bufferSize, p, s)
              else (Blocked, buf, bufferSize, p,
                    LOS_Schedule (OsSchedTaskWait (readWriteList readWrite i) timeOut s))
         else
           (let p1 = upd_queue i (\<lambda>c. c\<lparr>readWriteableCnt := (readWriteableCnt c)
                        (readWrite := readWriteableCnt c readWrite - 1)\<rparr>) p;
                (r, rest) = queue_finish i operateType buf bufferSize (p1, s)
            in (Returned r, rest))))"

text \<open>After the sleep, in the task \<open>t\<close> that called.\<close>

definition OsQueueOperate_resume :: "nat \<Rightarrow> u32 \<Rightarrow> u32 \<Rightarrow> (nat \<Rightarrow> u8) \<Rightarrow> u32 \<Rightarrow> queue_state \<times> sched
    \<Rightarrow> u32 \<times> (nat \<Rightarrow> u8) \<times> u32 \<times> queue_state \<times> sched" where
  "OsQueueOperate_resume t qid operateType buf bufferSize = (\<lambda>(p, s).
     if has (st s t) (flag TIMEOUT)
     then (LOS_ERRNO_QUEUE_TIMEOUT, buf, bufferSize, p, status_clr t (flag TIMEOUT) s)
     else queue_finish (OsGetQueueHandle qid) operateType buf bufferSize (p, s))"

text \<open>The interface: \<open>bufferAddr\<close> None is a NULL buffer.\<close>

type_synonym queue_result = "pend_result \<times> (nat \<Rightarrow> u8) \<times> u32 \<times> queue_state \<times> sched"

definition LOS_QueueReadCopy :: "u32 \<Rightarrow> (nat \<Rightarrow> u8) option \<Rightarrow> u32 option \<Rightarrow> u32 \<Rightarrow> queue_state \<times> sched
    \<Rightarrow> queue_result" where
  "LOS_QueueReadCopy qid bufferAddr bufferSize timeOut = (\<lambda>(p, s).
     (let ret = OsQueueReadParameterCheck qid (bufferAddr \<noteq> None) bufferSize timeOut s;
          operateType = OS_QUEUE_OPERATE_TYPE OS_QUEUE_READ OS_QUEUE_HEAD OS_QUEUE_NOT_POINT
      in case (bufferAddr, bufferSize) of
           (Some buf, Some n) \<Rightarrow>
             if ret \<noteq> LOS_OK then (Returned ret, buf, n, p, s)
             else OsQueueOperate qid operateType buf n timeOut (p, s)
         | _ \<Rightarrow> (Returned ret, (\<lambda>_. 0), 0, p, s)))"

definition LOS_QueueWriteHeadCopy :: "u32 \<Rightarrow> (nat \<Rightarrow> u8) option \<Rightarrow> u32 \<Rightarrow> u32 \<Rightarrow> queue_state \<times> sched
    \<Rightarrow> queue_result" where
  "LOS_QueueWriteHeadCopy qid bufferAddr bufferSize timeOut = (\<lambda>(p, s).
     (let ret = OsQueueWriteParameterCheck qid (bufferAddr \<noteq> None) bufferSize timeOut s;
          operateType = OS_QUEUE_OPERATE_TYPE OS_QUEUE_WRITE OS_QUEUE_HEAD OS_QUEUE_NOT_POINT
      in case bufferAddr of
           None \<Rightarrow> (Returned ret, (\<lambda>_. 0), bufferSize, p, s)
         | Some buf \<Rightarrow> if ret \<noteq> LOS_OK then (Returned ret, buf, bufferSize, p, s)
                       else OsQueueOperate qid operateType buf bufferSize timeOut (p, s)))"

definition LOS_QueueWriteCopy :: "u32 \<Rightarrow> (nat \<Rightarrow> u8) option \<Rightarrow> u32 \<Rightarrow> u32 \<Rightarrow> queue_state \<times> sched
    \<Rightarrow> queue_result" where
  "LOS_QueueWriteCopy qid bufferAddr bufferSize timeOut = (\<lambda>(p, s).
     (let ret = OsQueueWriteParameterCheck qid (bufferAddr \<noteq> None) bufferSize timeOut s;
          operateType = OS_QUEUE_OPERATE_TYPE OS_QUEUE_WRITE OS_QUEUE_TAIL OS_QUEUE_NOT_POINT
      in case bufferAddr of
           None \<Rightarrow> (Returned ret, (\<lambda>_. 0), bufferSize, p, s)
         | Some buf \<Rightarrow> if ret \<noteq> LOS_OK then (Returned ret, buf, bufferSize, p, s)
                       else OsQueueOperate qid operateType buf bufferSize timeOut (p, s)))"

definition LOS_QueueRead :: "u32 \<Rightarrow> (nat \<Rightarrow> u8) option \<Rightarrow> u32 \<Rightarrow> u32 \<Rightarrow> queue_state \<times> sched
    \<Rightarrow> queue_result" where
  "LOS_QueueRead qid bufferAddr bufferSize timeOut = (\<lambda>(p, s).
     (let ret = OsQueueReadParameterCheck qid (bufferAddr \<noteq> None) (Some bufferSize) timeOut s;
          operateType = OS_QUEUE_OPERATE_TYPE OS_QUEUE_READ OS_QUEUE_HEAD OS_QUEUE_POINT
      in case bufferAddr of
           None \<Rightarrow> (Returned ret, (\<lambda>_. 0), bufferSize, p, s)
         | Some buf \<Rightarrow> if ret \<noteq> LOS_OK then (Returned ret, buf, bufferSize, p, s)
                       else OsQueueOperate qid operateType buf bufferSize timeOut (p, s)))"

text \<open>A pointer, 0 for NULL, is copied as its four bytes.\<close>

definition ptr_buf :: "u32 \<Rightarrow> nat \<Rightarrow> u8" where
  "ptr_buf a = put_bytes 0 (u32_bytes a) (\<lambda>_. 0)"

definition LOS_QueueWrite :: "u32 \<Rightarrow> u32 \<Rightarrow> u32 \<Rightarrow> u32 \<Rightarrow> queue_state \<times> sched \<Rightarrow> queue_result" where
  "LOS_QueueWrite qid bufferAddr bufferSize timeOut = (\<lambda>(p, s).
     (let ret = OsQueueWriteParameterCheck qid (bufferAddr \<noteq> 0) 4 timeOut s;
          operateType = OS_QUEUE_OPERATE_TYPE OS_QUEUE_WRITE OS_QUEUE_TAIL OS_QUEUE_POINT
      in if ret \<noteq> LOS_OK then (Returned ret, ptr_buf bufferAddr, 4, p, s)
         else OsQueueOperate qid operateType (ptr_buf bufferAddr) 4 timeOut (p, s)))"

definition LOS_QueueWriteHead :: "u32 \<Rightarrow> u32 \<Rightarrow> u32 \<Rightarrow> u32 \<Rightarrow> queue_state \<times> sched \<Rightarrow> queue_result" where
  "LOS_QueueWriteHead qid bufferAddr bufferSize timeOut = (\<lambda>(p, s).
     if bufferAddr = 0 then (Returned LOS_ERRNO_QUEUE_WRITE_PTR_NULL, ptr_buf 0, 4, p, s)
     else LOS_QueueWriteHeadCopy qid (Some (ptr_buf bufferAddr)) 4 timeOut (p, s))"

section \<open>Mail\<close>

text \<open>The address of the block in a Returned result, 0 for NULL.\<close>

definition OsQueueMailAlloc :: "u32 \<Rightarrow> u32 \<Rightarrow> u32 \<Rightarrow> queue_state \<times> membox_mem \<times> sched
    \<Rightarrow> pend_result \<times> queue_state \<times> membox_mem \<times> sched" where
  "OsQueueMailAlloc qid mailPool timeOut = (\<lambda>(p, m, s).
     if qid \<ge> OS_ALL_IPC_QUEUE_LIMIT then (Returned 0, p, m, s)
     else if mailPool = 0 then (Returned 0, p, m, s)
     else if timeOut \<noteq> LOS_NO_WAIT \<and> intActive s then (Returned 0, p, m, s)
     else
       (let i = OsGetQueueHandle qid
        in if queueState (g_allQueue p i) = OS_QUEUE_UNUSED then (Returned 0, p, m, s)
           else
             (let (mem, m1) = LOS_MemboxAlloc mailPool s m
              in if mem \<noteq> 0 then (Returned mem, p, m1, s)
                 else if timeOut = LOS_NO_WAIT then (Returned 0, p, m1, s)
                 else (Blocked, p, m1, LOS_Schedule (OsSchedTaskWait (QueueMem i) timeOut s)))))"

definition OsQueueMailAlloc_resume :: "nat \<Rightarrow> sched \<Rightarrow> u32 \<times> sched" where
  "OsQueueMailAlloc_resume t s =
     (if has (st s t) (flag TIMEOUT) then (0, status_clr t (flag TIMEOUT) s)
      else (task_msg (tcb s t), upd_tcb t (\<lambda>c. c\<lparr>task_msg := 0\<rparr>) s))"

definition OsQueueMailFree :: "u32 \<Rightarrow> u32 \<Rightarrow> u32 \<Rightarrow> queue_state \<times> membox_mem \<times> sched
    \<Rightarrow> u32 \<times> queue_state \<times> membox_mem \<times> sched" where
  "OsQueueMailFree qid mailPool mailMem = (\<lambda>(p, m, s).
     if qid \<ge> OS_ALL_IPC_QUEUE_LIMIT then (LOS_ERRNO_QUEUE_MAIL_HANDLE_INVALID, p, m, s)
     else if mailPool = 0 then (LOS_ERRNO_QUEUE_MAIL_PTR_INVALID, p, m, s)
     else
       (let i = OsGetQueueHandle qid
        in if queueState (g_allQueue p i) = OS_QUEUE_UNUSED then (LOS_ERRNO_QUEUE_NOT_CREATE, p, m, s)
           else case lists s (QueueMem i) of
             t # _ \<Rightarrow> (LOS_OK, p, m,
                LOS_Schedule (OsSchedTaskWake t (upd_tcb t (\<lambda>c. c\<lparr>task_msg := mailMem\<rparr>) s)))
           | [] \<Rightarrow>
               (let (ret, m1) = LOS_MemboxFree mailPool mailMem m
                in if ret \<noteq> 0 then (LOS_ERRNO_QUEUE_MAIL_FREE_ERROR, p, m1, s) else (LOS_OK, p, m1, s))))"

section \<open>Deleting and examining\<close>

definition LOS_QueueDelete :: "'h heap_ops \<Rightarrow> u32 \<Rightarrow> queue_state \<times> 'h \<times> sched
    \<Rightarrow> u32 \<times> queue_state \<times> 'h \<times> sched" where
  "LOS_QueueDelete al qid = (\<lambda>(p, h, s).
     if qid \<ge> OS_ALL_IPC_QUEUE_LIMIT then (LOS_ERRNO_QUEUE_NOT_FOUND, p, h, s)
     else
       (let i = OsGetQueueHandle qid; q = g_allQueue p i
        in if queueState q = OS_QUEUE_UNUSED then (LOS_ERRNO_QUEUE_NOT_CREATE, p, h, s)
           else if lists s (QueueRead i) \<noteq> [] then (LOS_ERRNO_QUEUE_IN_TSKUSE, p, h, s)
           else if lists s (QueueWrite i) \<noteq> [] then (LOS_ERRNO_QUEUE_IN_TSKUSE, p, h, s)
           else if lists s (QueueMem i) \<noteq> [] then (LOS_ERRNO_QUEUE_IN_TSKUSE, p, h, s)
           else if unat (readWriteableCnt q OS_QUEUE_WRITE) + unat (readWriteableCnt q OS_QUEUE_READ)
                   \<noteq> unat (queueLen q)
           then (LOS_ERRNO_QUEUE_IN_TSKWRITE, p, h, s)
           else
             (let p1 = upd_queue i (\<lambda>c. c\<lparr>queue := 0, queueName := None, queueState := OS_QUEUE_UNUSED\<rparr>)
                         (p\<lparr>g_freeQueueList := i # g_freeQueueList p\<rparr>);
                  (ret, h1) = heap_free al h (queue q)
              in (ret, p1, h1, s))))"

record QUEUE_INFO_S =
  info_queueID :: u32
  info_queueLen :: u16
  info_queueSize :: u16
  info_queueHead :: u16
  info_queueTail :: u16
  info_writableCnt :: u16
  info_readableCnt :: u16
  waitReadTask :: "u32 \<Rightarrow> u32"
  waitWriteTask :: "u32 \<Rightarrow> u32"
  waitMemTask :: "u32 \<Rightarrow> u32"

definition OS_WAIT_TASK_ID_TO_ARRAY_IDX :: "u32 \<Rightarrow> u32" where
  "OS_WAIT_TASK_ID_TO_ARRAY_IDX tid = drop_bit 5 tid"
definition OS_WAIT_TASK_ARRAY_ELEMENT_MASK :: u32 where "OS_WAIT_TASK_ARRAY_ELEMENT_MASK = 31"

text \<open>The loop over a wait list that sets the bit of each task.\<close>

definition wait_bits :: "sched \<Rightarrow> nat list \<Rightarrow> u32 \<Rightarrow> u32" where
  "wait_bits s ts = fold (\<lambda>t a. let i = OS_WAIT_TASK_ID_TO_ARRAY_IDX (taskID (tcb s t))
      in a(i := a i OR push_bit (unat (taskID (tcb s t) AND OS_WAIT_TASK_ARRAY_ELEMENT_MASK)) 1)) ts (\<lambda>_. 0)"

definition LOS_QueueInfoGet :: "u32 \<Rightarrow> bool \<Rightarrow> queue_state \<Rightarrow> sched \<Rightarrow> u32 \<times> QUEUE_INFO_S option" where
  "LOS_QueueInfoGet qid queueInfo p s =
     (let zero = \<lparr>info_queueID = 0, info_queueLen = 0, info_queueSize = 0, info_queueHead = 0,
                  info_queueTail = 0, info_writableCnt = 0, info_readableCnt = 0,
                  waitReadTask = (\<lambda>_. 0), waitWriteTask = (\<lambda>_. 0), waitMemTask = (\<lambda>_. 0)\<rparr>
      in if \<not> queueInfo then (LOS_ERRNO_QUEUE_PTR_NULL, None)
         else if qid \<ge> OS_ALL_IPC_QUEUE_LIMIT then (LOS_ERRNO_QUEUE_INVALID, None)
         else
           (let i = OsGetQueueHandle qid; q = g_allQueue p i
            in if queueState q = OS_QUEUE_UNUSED then (LOS_ERRNO_QUEUE_NOT_CREATE, Some zero)
               else (LOS_OK, Some
                 \<lparr>info_queueID = qid, info_queueLen = queueLen q, info_queueSize = queueSize q,
                  info_queueHead = queueHead q, info_queueTail = queueTail q,
                  info_writableCnt = readWriteableCnt q OS_QUEUE_WRITE,
                  info_readableCnt = readWriteableCnt q OS_QUEUE_READ,
                  waitReadTask = wait_bits s (lists s (QueueRead i)),
                  waitWriteTask = wait_bits s (lists s (QueueWrite i)),
                  waitMemTask = wait_bits s (lists s (QueueMem i))\<rparr>)))"

lemmas queue_op_defs = OS_QUEUE_READ_def OS_QUEUE_WRITE_def OS_QUEUE_HEAD_def OS_QUEUE_TAIL_def
  OS_QUEUE_NOT_POINT_def OS_QUEUE_POINT_def OS_QUEUE_OPERATE_TYPE_def OS_QUEUE_READ_WRITE_GET_def
  OS_QUEUE_READ_HEAD_def OS_QUEUE_WRITE_HEAD_def OS_QUEUE_WRITE_TAIL_def OS_QUEUE_OPERATE_GET_def
  OS_QUEUE_IS_POINT_def OS_QUEUE_IS_READ_def OS_QUEUE_IS_WRITE_def

end
