(* ===== verification/Los_QueueProps.thy ===== *)
theory Los_QueueProps
  imports Los_Queue
begin

text \<open>
  Properties of the message queues: the ring of nodes is a double-ended list of messages, the
  calls refine a bounded queue with waiting readers and writers, and a queue is deleted only
  when nothing is under way.
\<close>

section \<open>Bytes\<close>

lemma length_get_bytes [simp]: "length (get_bytes off n mem) = n"
  by (simp add: get_bytes_def)

lemma get_put_same: "n = length bs \<Longrightarrow> get_bytes off n (put_bytes off bs mem) = bs"
  by (rule nth_equalityI) (simp_all add: get_bytes_def put_bytes_def)

lemma get_put_other:
  "off + n \<le> off' \<or> off' + length bs \<le> off \<Longrightarrow> get_bytes off n (put_bytes off' bs mem) = get_bytes off n mem"
  by (auto simp: get_bytes_def put_bytes_def)

lemma get_u32_other:
  "off + 4 \<le> off' \<or> off' + length bs \<le> off \<Longrightarrow> get_u32 off (put_bytes off' bs mem) = get_u32 off mem"
  by (auto simp: get_u32_def put_bytes_def)

lemma u32_split:
  fixes w :: u32
  shows "ucast (ucast w :: u8) OR push_bit 8 (ucast (ucast (drop_bit 8 w) :: u8))
     OR push_bit 16 (ucast (ucast (drop_bit 16 w) :: u8))
     OR push_bit 24 (ucast (ucast (drop_bit 24 w) :: u8)) = w"
proof (rule bit_eqI)
  fix n assume "possible_bit TYPE(u32) n"
  then have n: "n < 32" by simp
  then consider "n < 8" | "8 \<le> n" "n < 16" | "16 \<le> n" "n < 24" | "24 \<le> n" "n < 32" by linarith
  then show "bit (ucast (ucast w :: u8) OR push_bit 8 (ucast (ucast (drop_bit 8 w) :: u8))
     OR push_bit 16 (ucast (ucast (drop_bit 16 w) :: u8))
     OR push_bit 24 (ucast (ucast (drop_bit 24 w) :: u8)) :: u32) n = bit w n"
    by cases (auto simp: bit_simps)
qed

lemma get_u32_same: "get_u32 off (put_bytes off (u32_bytes w) mem) = w"
  using u32_split [of w] by (simp add: get_u32_def put_bytes_def u32_bytes_def)

lemma length_u32_bytes [simp]: "length (u32_bytes w) = 4"
  by (simp add: u32_bytes_def)

section \<open>The ring as a list of messages\<close>

definition slot_size :: "LosQueueCB \<Rightarrow> nat \<Rightarrow> nat" where
  "slot_size q pos = unat (get_u32 (pos * unat (queueSize q) + unat (queueSize q) - 4) (queueMem q))"

definition slot_msg :: "LosQueueCB \<Rightarrow> nat \<Rightarrow> u8 list" where
  "slot_msg q pos = get_bytes (pos * unat (queueSize q)) (slot_size q pos) (queueMem q)"

definition ring :: "LosQueueCB \<Rightarrow> nat \<Rightarrow> u8 list list" where
  "ring q n = map (\<lambda>k. slot_msg q ((unat (queueHead q) + k) mod unat (queueLen q))) [0..<n]"

definition ring_ok :: "LosQueueCB \<Rightarrow> nat \<Rightarrow> bool" where
  "ring_ok q n \<longleftrightarrow> unat (queueHead q) < unat (queueLen q) \<and> n \<le> unat (queueLen q)
     \<and> unat (queueTail q) = (unat (queueHead q) + n) mod unat (queueLen q)
     \<and> 4 < unat (queueSize q)
     \<and> (\<forall>k<n. slot_size q ((unat (queueHead q) + k) mod unat (queueLen q)) \<le> unat (queueSize q) - 4)"

text \<open>Writing a message into a slot, and the other slots.\<close>

definition write_slot :: "nat \<Rightarrow> u32 \<Rightarrow> (nat \<Rightarrow> u8) \<Rightarrow> LosQueueCB \<Rightarrow> LosQueueCB" where
  "write_slot pos sz buf q = q\<lparr>queueMem :=
     put_bytes (pos * unat (queueSize q)) (get_bytes 0 (unat sz) buf)
       (put_bytes (pos * unat (queueSize q) + unat (queueSize q) - 4) (u32_bytes sz) (queueMem q))\<rparr>"

lemma write_slot_same:
  assumes "4 < unat (queueSize q)" "unat sz \<le> unat (queueSize q) - 4"
  shows "slot_size (write_slot pos sz buf q) pos = unat sz"
    "slot_msg (write_slot pos sz buf q) pos = get_bytes 0 (unat sz) buf"
proof -
  show s: "slot_size (write_slot pos sz buf q) pos = unat sz"
    using assms by (simp add: slot_size_def write_slot_def get_u32_other get_u32_same)
  show "slot_msg (write_slot pos sz buf q) pos = get_bytes 0 (unat sz) buf"
    unfolding slot_msg_def s by (simp add: write_slot_def get_put_same)
qed

lemma slot_apart:
  fixes sz :: nat
  assumes "pos \<noteq> pos'"
  shows "pos' * sz + sz \<le> pos * sz \<or> pos * sz + sz \<le> pos' * sz"
proof -
  have "Suc a * sz \<le> b * sz" if "a < b" for a b using that by (intro mult_le_mono1) simp
  then show ?thesis using assms by (metis add.commute mult_Suc linorder_neqE_nat)
qed

lemma write_slot_other:
  assumes "4 < unat (queueSize q)" "unat sz \<le> unat (queueSize q) - 4" "pos \<noteq> pos'"
    and "slot_size q pos' \<le> unat (queueSize q) - 4"
  shows "slot_size (write_slot pos sz buf q) pos' = slot_size q pos'"
    "slot_msg (write_slot pos sz buf q) pos' = slot_msg q pos'"
proof -
  let ?S = "unat (queueSize q)"
  note ap = slot_apart [OF assms(3), of ?S]
  show s: "slot_size (write_slot pos sz buf q) pos' = slot_size q pos'"
    using assms(1,2) ap by (simp add: slot_size_def write_slot_def) (subst get_u32_other; (subst get_u32_other)?; auto)
  show "slot_msg (write_slot pos sz buf q) pos' = slot_msg q pos'"
    unfolding slot_msg_def s using assms ap
    by (simp add: write_slot_def) (subst get_put_other; (subst get_put_other)?; auto)
qed

text \<open>Positions in the ring.\<close>

lemma ring_pos_inj:
  fixes h :: nat
  assumes "h < len" "j < len" "k < len" "(h + j) mod len = (h + k) mod len"
  shows "j = k"
proof -
  have "(h + x) mod len = (if h + x < len then h + x else h + x - len)" if "x < len" for x
    using assms(1) that by (simp add: mod_if)
  then show ?thesis using assms by (auto split: if_splits)
qed

lemma ring_next:
  fixes h :: nat
  assumes "h < len"
  shows "(if h + 1 = len then 0 else h + 1) = (h + 1) mod len"
  using assms by auto

lemma ring_shift:
  fixes h :: nat
  shows "((h + 1) mod len + k) mod len = (h + Suc k) mod len"
  by (simp add: mod_simps)

lemma ring_back:
  fixes h :: nat
  assumes "h < len"
  shows "((if h = 0 then len - 1 else h - 1) + Suc k) mod len = (h + k) mod len"
  using assms by (cases h) auto

lemma u16_next:
  fixes h len :: u16
  assumes "unat h < unat len"
  shows "unat (if unat h + 1 = unat len then 0 else h + 1) = (unat h + 1) mod unat len"
proof -
  have "unat (h + 1) = unat h + 1" using assms word_inc_below(1) [of h len] by (simp add: word_less_nat_alt)
  then show ?thesis using ring_next [OF assms] assms by auto
qed

lemma u16_back:
  fixes h len :: u16
  assumes "unat h < unat len"
  shows "unat (if h = 0 then len - 1 else h - 1) = (if unat h = 0 then unat len - 1 else unat h - 1)"
proof -
  have "0 < len" using assms by (simp add: word_less_nat_alt)
  then have "unat (len - 1) = unat len - 1" by (rule word_dec_above)
  moreover have "unat (h - 1) = unat h - 1" if "h \<noteq> 0" using that by (intro word_dec_above(1)) (simp add: word_gt_0)
  ultimately show ?thesis by (simp add: unat_eq_0)
qed

text \<open>Appending, prepending and removing a message, on slots.\<close>

lemma ring_append:
  assumes ok: "ring_ok q n" and n: "n < unat (queueLen q)" and sz: "unat sz \<le> unat (queueSize q) - 4"
    and q': "q' = (write_slot (unat (queueTail q)) sz buf q)\<lparr>queueTail := tl'\<rparr>"
    and t: "unat tl' = (unat (queueTail q) + 1) mod unat (queueLen q)"
  shows "ring_ok q' (n + 1)" "ring q' (n + 1) = ring q n @ [get_bytes 0 (unat sz) buf]"
proof -
  let ?L = "unat (queueLen q)" and ?h = "unat (queueHead q)" and ?T = "unat (queueTail q)"
  have f: "queueHead q' = queueHead q" "queueLen q' = queueLen q" "queueSize q' = queueSize q"
    by (simp_all add: q' write_slot_def)
  have T: "?T = (?h + n) mod ?L" using ok by (simp add: ring_ok_def)
  have S: "4 < unat (queueSize q)" using ok by (simp add: ring_ok_def)
  have sl: "slot_size q' x = slot_size (write_slot ?T sz buf q) x"
    "slot_msg q' x = slot_msg (write_slot ?T sz buf q) x" for x
    by (simp_all add: q' slot_size_def slot_msg_def)
  have old: "slot_size q' ((?h + k) mod ?L) = slot_size q ((?h + k) mod ?L)"
    "slot_msg q' ((?h + k) mod ?L) = slot_msg q ((?h + k) mod ?L)" if k: "k < n" for k
  proof -
    have "?T \<noteq> (?h + k) mod ?L"
      using ring_pos_inj [of ?h ?L k n] ok n k T by (auto simp: ring_ok_def)
    moreover have "slot_size q ((?h + k) mod ?L) \<le> unat (queueSize q) - 4" using ok k by (simp add: ring_ok_def)
    ultimately show "slot_size q' ((?h + k) mod ?L) = slot_size q ((?h + k) mod ?L)"
      "slot_msg q' ((?h + k) mod ?L) = slot_msg q ((?h + k) mod ?L)"
      unfolding sl using write_slot_other [OF S sz] by simp_all
  qed
  have new: "slot_size q' ((?h + n) mod ?L) = unat sz" "slot_msg q' ((?h + n) mod ?L) = get_bytes 0 (unat sz) buf"
    unfolding sl T [symmetric] using write_slot_same [OF S sz] by simp_all
  have "unat (queueTail q') = (?h + (n + 1)) mod ?L"
    using t T by (simp add: q' mod_simps)
  moreover have "\<forall>k<n + 1. slot_size q' ((?h + k) mod ?L) \<le> unat (queueSize q) - 4"
    using old(1) new(1) ok sz by (auto simp: ring_ok_def less_Suc_eq)
  ultimately show "ring_ok q' (n + 1)" using ok n unfolding ring_ok_def f by simp
  show "ring q' (n + 1) = ring q n @ [get_bytes 0 (unat sz) buf]"
    unfolding ring_def f using old(2) new(2) by simp
qed

lemma ring_prepend:
  assumes ok: "ring_ok q n" and n: "n < unat (queueLen q)" and sz: "unat sz \<le> unat (queueSize q) - 4"
    and q': "q' = (write_slot (unat hd') sz buf q)\<lparr>queueHead := hd'\<rparr>"
    and t: "unat hd' = (if unat (queueHead q) = 0 then unat (queueLen q) - 1 else unat (queueHead q) - 1)"
  shows "ring_ok q' (n + 1)" "ring q' (n + 1) = get_bytes 0 (unat sz) buf # ring q n"
proof -
  let ?L = "unat (queueLen q)" and ?h = "unat (queueHead q)" and ?H = "unat hd'"
  have f: "queueTail q' = queueTail q" "queueLen q' = queueLen q" "queueSize q' = queueSize q"
    "unat (queueHead q') = ?H" by (simp_all add: q' write_slot_def)
  have S: "4 < unat (queueSize q)" "?h < ?L" using ok by (simp_all add: ring_ok_def)
  have H: "?H < ?L" using S(2) by (auto simp: t)
  have shift: "(?H + Suc k) mod ?L = (?h + k) mod ?L" for k using ring_back [OF S(2)] by (simp add: t)
  have sl: "slot_size q' x = slot_size (write_slot ?H sz buf q) x"
    "slot_msg q' x = slot_msg (write_slot ?H sz buf q) x" for x
    by (simp_all add: q' slot_size_def slot_msg_def)
  have old: "slot_size q' ((?H + Suc k) mod ?L) = slot_size q ((?h + k) mod ?L)"
    "slot_msg q' ((?H + Suc k) mod ?L) = slot_msg q ((?h + k) mod ?L)" if k: "k < n" for k
  proof -
    have "?H \<noteq> (?H + Suc k) mod ?L"
      using ring_pos_inj [OF H, of 0 "Suc k"] H n k by auto
    then have "?H \<noteq> (?h + k) mod ?L" using shift [of k] by simp
    moreover have "slot_size q ((?h + k) mod ?L) \<le> unat (queueSize q) - 4" using ok k by (simp add: ring_ok_def)
    ultimately show "slot_size q' ((?H + Suc k) mod ?L) = slot_size q ((?h + k) mod ?L)"
      "slot_msg q' ((?H + Suc k) mod ?L) = slot_msg q ((?h + k) mod ?L)"
      unfolding sl shift using write_slot_other [OF S(1) sz] by simp_all
  qed
  have new: "slot_size q' ?H = unat sz" "slot_msg q' ?H = get_bytes 0 (unat sz) buf"
    unfolding sl using write_slot_same [OF S(1) sz] by simp_all
  have "unat (queueTail q) = (?H + (n + 1)) mod ?L"
    using ok shift [of n] by (simp add: ring_ok_def)
  moreover have "slot_size q' ((?H + k) mod ?L) \<le> unat (queueSize q) - 4" if "k < n + 1" for k
  proof (cases k)
    case 0
    then show ?thesis using new(1) H sz by simp
  next
    case (Suc j)
    then show ?thesis using old(1) [of j] ok that by (simp add: ring_ok_def)
  qed
  ultimately show "ring_ok q' (n + 1)" using ok n H unfolding ring_ok_def f by simp
  have "[0..<n + 1] = 0 # map Suc [0..<n]" by (simp add: upt_conv_Cons map_Suc_upt)
  then show "ring q' (n + 1) = get_bytes 0 (unat sz) buf # ring q n"
    unfolding ring_def f using old(2) new(2) H by simp
qed

lemma ring_remove:
  assumes ok: "ring_ok q n" and n: "0 < n" and q': "q' = q\<lparr>queueHead := hd'\<rparr>"
    and t: "unat hd' = (unat (queueHead q) + 1) mod unat (queueLen q)"
  shows "ring_ok q' (n - 1)" "ring q n = slot_msg q (unat (queueHead q)) # ring q' (n - 1)"
    "slot_size q (unat (queueHead q)) \<le> unat (queueSize q) - 4"
proof -
  let ?L = "unat (queueLen q)" and ?h = "unat (queueHead q)" and ?H = "unat hd'"
  have f: "queueTail q' = queueTail q" "queueLen q' = queueLen q" "queueSize q' = queueSize q"
    "unat (queueHead q') = ?H" "slot_size q' = slot_size q" "slot_msg q' = slot_msg q"
    by (simp_all add: q' slot_size_def slot_msg_def fun_eq_iff)
  have S: "?h < ?L" using ok by (simp add: ring_ok_def)
  have shift: "(?H + k) mod ?L = (?h + Suc k) mod ?L" for k using ring_shift by (simp add: t)
  have "unat (queueTail q) = (?H + (n - 1)) mod ?L" using ok n shift [of "n - 1"] by (simp add: ring_ok_def)
  moreover have "slot_size q ((?H + k) mod ?L) \<le> unat (queueSize q) - 4" if "k < n - 1" for k
  proof -
    have "Suc k < n" using that by simp
    then have "slot_size q ((?h + Suc k) mod ?L) \<le> unat (queueSize q) - 4"
      using ok unfolding ring_ok_def by blast
    then show ?thesis by (simp only: shift)
  qed
  ultimately show "ring_ok q' (n - 1)" using ok S unfolding ring_ok_def f by (auto simp: t)
  have "[0..<n] = 0 # map Suc [0..<n - 1]" using n by (simp add: upt_conv_Cons map_Suc_upt)
  then show "ring q n = slot_msg q ?h # ring q' (n - 1)"
    unfolding ring_def f using S by (simp add: shift)
  show "slot_size q ?h \<le> unat (queueSize q) - 4" using ok n S by (auto simp: ring_ok_def)
qed

section \<open>The transfer\<close>

definition write_tail_type :: u32 where
  "write_tail_type = OS_QUEUE_OPERATE_TYPE OS_QUEUE_WRITE OS_QUEUE_TAIL OS_QUEUE_NOT_POINT"
definition write_head_type :: u32 where
  "write_head_type = OS_QUEUE_OPERATE_TYPE OS_QUEUE_WRITE OS_QUEUE_HEAD OS_QUEUE_NOT_POINT"
definition read_type :: u32 where
  "read_type = OS_QUEUE_OPERATE_TYPE OS_QUEUE_READ OS_QUEUE_HEAD OS_QUEUE_NOT_POINT"

lemma type_values: "write_tail_type = 3" "write_head_type = 1" "read_type = 0"
  by (simp_all add: write_tail_type_def write_head_type_def read_type_def queue_op_defs)

lemma take_upt0: "take m [0..<n] = [0..<min m n]"
  by (rule nth_equalityI) auto

lemma memcpy_ok:
  "0 < unat destMax \<Longrightarrow> unat destMax \<le> 0x7fffffff \<Longrightarrow> unat count \<le> unat destMax \<Longrightarrow>
   memcpy_s dst mem destMax src smem count = (True, put_bytes dst (get_bytes src (unat count) smem) mem)"
  by (auto simp: memcpy_s_def SECUREC_MEM_MAX_LEN_def word_less_nat_alt)

lemma write_operate:
  assumes "4 < unat (queueSize q)" "unat sz \<le> unat (queueSize q) - 4"
  shows "OsQueueBufferOperate q write_tail_type buf sz =
      ((write_slot (unat (queueTail q)) sz buf q)\<lparr>queueTail :=
          (if unat (queueTail q) + 1 = unat (queueLen q) then 0 else queueTail q + 1)\<rparr>, buf, sz)"
    "OsQueueBufferOperate q write_head_type buf sz =
      (let hd' = (if queueHead q = 0 then queueLen q - 1 else queueHead q - 1)
       in ((write_slot (unat hd') sz buf q)\<lparr>queueHead := hd'\<rparr>, buf, sz))"
proof -
  have lt: "unat (queueSize q) < 2 ^ LENGTH(16)" by (rule unsigned_less)
  then have c: "unat (ucast (queueSize q) :: u32) = unat (queueSize q)"
    by (simp add: unsigned_ucast_eq take_bit_nat_eq_self)
  then have m: "memcpy_s dst mem (ucast (queueSize q)) 0 buf sz =
      (True, put_bytes dst (get_bytes 0 (unat sz) buf) mem)" for dst mem
    using assms lt by (intro memcpy_ok) (simp_all add: c)
  show "OsQueueBufferOperate q write_tail_type buf sz =
      ((write_slot (unat (queueTail q)) sz buf q)\<lparr>queueTail :=
          (if unat (queueTail q) + 1 = unat (queueLen q) then 0 else queueTail q + 1)\<rparr>, buf, sz)"
    by (simp add: OsQueueBufferOperate_def queue_position_def type_values queue_op_defs Let_def m
        write_slot_def)
  show "OsQueueBufferOperate q write_head_type buf sz =
      (let hd' = (if queueHead q = 0 then queueLen q - 1 else queueHead q - 1)
       in ((write_slot (unat hd') sz buf q)\<lparr>queueHead := hd'\<rparr>, buf, sz))"
    by (simp add: OsQueueBufferOperate_def queue_position_def type_values queue_op_defs Let_def m
        write_slot_def)
qed

lemma read_operate:
  assumes "0 < unat sz" "unat sz \<le> 0x7fffffff"
  shows "\<exists>buf'. OsQueueBufferOperate q read_type buf sz =
      (q\<lparr>queueHead := (if unat (queueHead q) + 1 = unat (queueLen q) then 0 else queueHead q + 1)\<rparr>, buf',
       of_nat (min (unat sz) (slot_size q (unat (queueHead q)))))
    \<and> get_bytes 0 (min (unat sz) (slot_size q (unat (queueHead q)))) buf' =
        take (unat sz) (slot_msg q (unat (queueHead q)))"
proof -
  let ?stored = "get_u32 (unat (queueHead q) * unat (queueSize q) + unat (queueSize q) - 4) (queueMem q)"
  let ?n = "if sz < ?stored then sz else ?stored"
  have n: "unat ?n = min (unat sz) (unat ?stored)" by (simp add: min_def word_less_nat_alt)
  have st: "slot_size q (unat (queueHead q)) = unat ?stored" by (simp add: slot_size_def)
  let ?b = "put_bytes 0 (get_bytes (unat (queueHead q) * unat (queueSize q)) (unat ?n) (queueMem q)) buf"
  have "memcpy_s 0 buf sz src smem ?n = (True, put_bytes 0 (get_bytes src (unat ?n) smem) buf)" for src smem
    using assms by (intro memcpy_ok) (simp_all add: n)
  then have "OsQueueBufferOperate q read_type buf sz =
      (q\<lparr>queueHead := (if unat (queueHead q) + 1 = unat (queueLen q) then 0 else queueHead q + 1)\<rparr>, ?b, ?n)"
    by (simp add: OsQueueBufferOperate_def queue_position_def type_values queue_op_defs Let_def
        del: if_split_asm cong: if_cong)
  moreover have "?n = of_nat (min (unat sz) (unat ?stored))" unfolding n [symmetric] by simp
  ultimately have op: "OsQueueBufferOperate q read_type buf sz =
      (q\<lparr>queueHead := (if unat (queueHead q) + 1 = unat (queueLen q) then 0 else queueHead q + 1)\<rparr>, ?b,
       of_nat (min (unat sz) (unat ?stored)))" by (simp only:)
  have "get_bytes 0 (min (unat sz) (unat ?stored)) ?b = take (unat sz) (slot_msg q (unat (queueHead q)))"
    unfolding n [symmetric]
    by (subst get_put_same) (simp_all add: slot_msg_def st n get_bytes_def take_map take_upt0)
  with op show ?thesis unfolding st by (intro exI conjI)
qed

section \<open>Waking and sleeping with the reschedule\<close>

lemma wake_schedule:
  assumes k: "kern_ok s" and l: "wait_list l" "lists s l = t # ts"
  shows "kern_ok (LOS_Schedule (OsSchedTaskWake t s))"
    "wait_list m \<Longrightarrow> lists (LOS_Schedule (OsSchedTaskWake t s)) m = (if m = l then ts else lists s m)"
    "woken s (LOS_Schedule (OsSchedTaskWake t s)) t"
proof -
  have t: "t \<in> set (lists s l)" using l(2) by simp
  note k2 = kern_ok_wake [OF k l(1) t]
  show "woken s (LOS_Schedule (OsSchedTaskWake t s)) t" by (rule wake_woken [OF k l(1) t])
  show "kern_ok (LOS_Schedule (OsSchedTaskWake t s))" using k2 by (rule kern_ok_Schedule)
  show "wait_list m \<Longrightarrow> lists (LOS_Schedule (OsSchedTaskWake t s)) m = (if m = l then ts else lists s m)"
    using k2 wq.wake_waiters [OF kern_okD(2) [OF k] l(1) _ t, of m] l(2) by (simp add: Schedule_wait_lists)
qed

lemma sleep_schedule:
  assumes k: "kern_ok s" and m: "may_sleep s" and l: "wait_list l"
  shows "kern_ok (LOS_Schedule (OsSchedTaskWait l n s))"
    "wait_list m \<Longrightarrow> lists (LOS_Schedule (OsSchedTaskWait l n s)) m =
       (if m = l then lists s l @ [runTask s] else lists s m)"
  using kern_ok_wait [OF k m l, of n] by (simp_all add: kern_ok_Schedule Schedule_wait_lists TaskWait_lists)

section \<open>The queue as a bounded list with waiting tasks\<close>

text \<open>
  A queue in use holds \<open>n\<close> messages. Its counts leave out what is promised to tasks that were
  woken and have not run yet: \<open>n - readable\<close> messages to readers, \<open>len - n - writable\<close> free
  slots to writers. Tasks wait to read only when nothing is readable, and to write only when
  nothing is writable.
\<close>

definition readable :: "LosQueueCB \<Rightarrow> nat" where
  "readable q = unat (readWriteableCnt q OS_QUEUE_READ)"
definition writable :: "LosQueueCB \<Rightarrow> nat" where
  "writable q = unat (readWriteableCnt q OS_QUEUE_WRITE)"

definition queue_ok :: "LosQueueCB \<Rightarrow> nat \<Rightarrow> nat list \<Rightarrow> nat list \<Rightarrow> bool" where
  "queue_ok q n rs ws \<longleftrightarrow> ring_ok q n \<and> queueState q \<noteq> OS_QUEUE_UNUSED
     \<and> readable q \<le> n \<and> n + writable q \<le> unat (queueLen q)
     \<and> (rs \<noteq> [] \<longrightarrow> readable q = 0) \<and> (ws \<noteq> [] \<longrightarrow> writable q = 0)"

lemma ring_cnt [simp]:
  "ring (q\<lparr>readWriteableCnt := c\<rparr>) n = ring q n"
  "ring_ok (q\<lparr>readWriteableCnt := c\<rparr>) n = ring_ok q n"
  by (simp_all add: ring_def ring_ok_def slot_msg_def slot_size_def)

lemma cnt_inc:
  assumes "unat (c :: u16) < m" "m \<le> unat (len :: u16)"
  shows "unat (c + 1) = unat c + 1"
proof -
  have "c < len" using assms by (simp add: word_less_nat_alt)
  then show ?thesis by (rule word_inc_below)
qed

lemma cnt_dec: "(c :: u16) \<noteq> 0 \<Longrightarrow> unat (c - 1) = unat c - 1 \<and> unat c > 0"
  using word_dec_above(1,3) [of c] by (simp add: word_gt_0)

text \<open>A write of either kind.\<close>

definition added :: "u32 \<Rightarrow> u8 list \<Rightarrow> u8 list list \<Rightarrow> u8 list list" where
  "added ty m ms = (if ty = write_head_type then m # ms else ms @ [m])"

lemma added_kind: "added write_tail_type m ms = ms @ [m]" "added write_head_type m ms = m # ms"
  by (simp_all add: added_def type_values)

lemma write_ring:
  assumes "ty = write_tail_type \<or> ty = write_head_type" and ok: "ring_ok q n" "n < unat (queueLen q)"
    and sz: "unat sz \<le> unat (queueSize q) - 4"
  shows "\<exists>q'. OsQueueBufferOperate q ty buf sz = (q', buf, sz) \<and> ring_ok q' (n + 1)
    \<and> ring q' (n + 1) = added ty (get_bytes 0 (unat sz) buf) (ring q n)
    \<and> queueState q' = queueState q \<and> queueLen q' = queueLen q \<and> readWriteableCnt q' = readWriteableCnt q"
  using assms(1)
proof
  have S: "4 < unat (queueSize q)" "unat (queueHead q) < unat (queueLen q)" "unat (queueTail q) < unat (queueLen q)"
    using ok by (auto simp: ring_ok_def)
  note w = write_operate [OF S(1) sz]
  show ?thesis if "ty = write_tail_type"
    using ring_append [OF ok sz refl u16_next [OF S(3)]] that w(1)
    by (simp add: added_def type_values) (simp add: write_slot_def)
  show ?thesis if "ty = write_head_type"
    using ring_prepend [OF ok sz refl u16_back [OF S(2)]] that w(2)
    by (simp add: added_def type_values Let_def) (simp add: write_slot_def)
qed

lemma queue_write_any:
  assumes ty: "ty = write_tail_type \<or> ty = write_head_type"
    and k: "kern_ok s" and m: "may_sleep s" and l: "g_losTaskLock s = 0"
    and ok: "queue_ok (g_allQueue p i) n (lists s (QueueRead i)) (lists s (QueueWrite i))"
    and sz: "0 < unat sz" "unat sz \<le> unat (queueSize (g_allQueue p i)) - 4"
    and run: "OsQueueOperate qid ty buf sz timeOut (p, s) = (r, buf', sz', p', s')" and i: "i = unat qid"
  shows "if writable (g_allQueue p i) = 0
    then p' = p \<and> kern_ok s' \<and> (if timeOut = 0 then r = Returned LOS_ERRNO_QUEUE_ISFULL \<and> s' = s
      else r = Blocked \<and> lists s' (QueueWrite i) = lists s (QueueWrite i) @ [runTask s]
        \<and> lists s' (QueueRead i) = lists s (QueueRead i))
    else r = Returned LOS_OK \<and> kern_ok s'
      \<and> ring (g_allQueue p' i) (n + 1) = added ty (get_bytes 0 (unat sz) buf) (ring (g_allQueue p i) n)
      \<and> queue_ok (g_allQueue p' i) (n + 1) (lists s' (QueueRead i)) (lists s' (QueueWrite i))
      \<and> lists s' (QueueRead i) = tl (lists s (QueueRead i)) \<and> lists s' (QueueWrite i) = lists s (QueueWrite i)
      \<and> readable (g_allQueue p' i) = readable (g_allQueue p i) + (if lists s (QueueRead i) = [] then 1 else 0)
      \<and> (\<forall>t ts. lists s (QueueRead i) = t # ts \<longrightarrow> woken s s' t)"
proof -
  let ?q = "g_allQueue p i" and ?rs = "lists s (QueueRead i)" and ?ws = "lists s (QueueWrite i)"
  let ?W = "readWriteableCnt ?q 1" and ?R = "readWriteableCnt ?q 0"
  have lt: "unat (queueSize ?q) < 2 ^ LENGTH(16)" by (rule unsigned_less)
  then have c: "unat (ucast (queueSize ?q) :: u32) = unat (queueSize ?q)"
    by (simp add: unsigned_ucast_eq take_bit_nat_eq_self)
  have S: "4 < unat (queueSize ?q)" using ok by (simp add: queue_ok_def ring_ok_def)
  have "unat (ucast (queueSize ?q) - 4 :: u32) = unat (queueSize ?q) - 4"
    using S c by (simp add: unat_sub word_le_nat_alt)
  then have chk: "OsQueueOperateParamCheck ?q ty sz = LOS_OK"
    using ok sz lt by (simp add: OsQueueOperateParamCheck_def queue_ok_def word_less_nat_alt word_le_nat_alt
        SECUREC_MEM_MAX_LEN_def)
  have rw: "OS_QUEUE_READ_WRITE_GET ty = 1" "\<not> OS_QUEUE_IS_READ ty"
    using ty by (auto simp: type_values queue_op_defs)
  have rd: "readable ?q = unat ?R" "writable ?q = unat ?W" by (simp_all add: readable_def writable_def queue_op_defs)
  show ?thesis
  proof (cases "?W = 0")
    case True
    have wl: "readWriteList 1 i = QueueWrite i" by (simp add: readWriteList_def queue_op_defs)
    show ?thesis
      using True run chk rw l k sleep_schedule [OF k m, where l = "QueueWrite i" and n = timeOut]
      by (auto simp: OsQueueOperate_def Let_def OsGetQueueHandle_def i [symmetric] LOS_NO_WAIT_def rd wl
          split: if_splits)
  next
    case False
    let ?c1 = "(readWriteableCnt ?q)(1 := ?W - 1)"
    let ?q1 = "?q\<lparr>readWriteableCnt := ?c1\<rparr>"
    note dec = cnt_dec [OF False]
    have n: "n < unat (queueLen ?q1)" "ring_ok ?q1 n" "unat sz \<le> unat (queueSize ?q1) - 4"
      using ok dec sz by (simp_all add: queue_ok_def rd)
    obtain q2 where q2: "OsQueueBufferOperate ?q1 ty buf sz = (q2, buf, sz)" "ring_ok q2 (n + 1)"
      "ring q2 (n + 1) = added ty (get_bytes 0 (unat sz) buf) (ring ?q n)"
      "queueState q2 = queueState ?q" "queueLen q2 = queueLen ?q" "readWriteableCnt q2 = ?c1"
      using write_ring [OF ty n(2,1,3), of buf] by auto
    have wl: "readWriteList 0 i = QueueRead i" by (simp add: readWriteList_def queue_op_defs)
    let ?p2 = "upd_queue i (\<lambda>_. q2) (upd_queue i (\<lambda>c. c\<lparr>readWriteableCnt := (readWriteableCnt c)
        (1 := readWriteableCnt c 1 - 1)\<rparr>) p)"
    have fin: "OsQueueOperate qid ty buf sz timeOut (p, s) = (Returned LOS_OK, buf, sz,
        (case ?rs of t # _ \<Rightarrow> (?p2, LOS_Schedule (OsSchedTaskWake t s))
         | [] \<Rightarrow> (upd_queue i (\<lambda>c. c\<lparr>readWriteableCnt := (readWriteableCnt c)
                  (0 := readWriteableCnt c 0 + 1)\<rparr>) ?p2, s)))"
      using False chk rw q2(1)
      by (simp add: OsQueueOperate_def queue_finish_def Let_def OsGetQueueHandle_def i [symmetric] wl
          split: list.split) (simp add: upd_queue_def)
    show ?thesis
    proof (cases ?rs)
      case Nil
      then have r: "r = Returned LOS_OK" "s' = s" "g_allQueue p' i = q2\<lparr>readWriteableCnt :=
          ?c1(0 := ?R + 1)\<rparr>" using fin run q2(6) by (auto simp: upd_queue_def)
      have "unat ?R \<le> n" using ok by (simp add: queue_ok_def rd)
      then have inc: "unat (?R + 1) = unat ?R + 1" using n(1) by (intro cnt_inc [of _ "n + 1" "queueLen ?q"]) simp_all
      show ?thesis
        using r(1,2) q2(2-5) ok dec inc k Nil unfolding r(3)
        by (simp add: rd queue_ok_def readable_def writable_def queue_op_defs)
    next
      case (Cons t ts)
      then have r: "r = Returned LOS_OK" "s' = LOS_Schedule (OsSchedTaskWake t s)" "g_allQueue p' i = q2"
        using fin run by (auto simp: upd_queue_def)
      note w = wake_schedule [OF k _ Cons]
      show ?thesis
        using r(1) q2(2-6) ok dec w Cons unfolding r(2,3)
        by (simp add: rd queue_ok_def readable_def writable_def queue_op_defs)
    qed
  qed
qed

text \<open>A read.\<close>

lemma read_ring:
  assumes ok: "ring_ok q n" "0 < n" and sz: "0 < unat sz" "unat sz \<le> 0x7fffffff"
  shows "\<exists>q' buf' sz' msg. OsQueueBufferOperate q read_type buf sz = (q', buf', sz')
    \<and> ring_ok q' (n - 1) \<and> ring q n = msg # ring q' (n - 1)
    \<and> get_bytes 0 (unat sz') buf' = take (unat sz) msg \<and> unat sz' = min (unat sz) (length msg)
    \<and> queueState q' = queueState q \<and> queueLen q' = queueLen q \<and> readWriteableCnt q' = readWriteableCnt q"
proof -
  let ?h = "unat (queueHead q)"
  have S: "?h < unat (queueLen q)" using ok by (simp add: ring_ok_def)
  note rem = ring_remove [OF ok refl u16_next [OF S]]
  obtain buf' where b: "OsQueueBufferOperate q read_type buf sz =
      (q\<lparr>queueHead := (if ?h + 1 = unat (queueLen q) then 0 else queueHead q + 1)\<rparr>, buf',
       of_nat (min (unat sz) (slot_size q ?h)))"
    "get_bytes 0 (min (unat sz) (slot_size q ?h)) buf' = take (unat sz) (slot_msg q ?h)"
    using read_operate [OF sz] by blast
  have "min (unat sz) (slot_size q ?h) < 2 ^ LENGTH(32)"
  proof -
    have "unat sz < 2 ^ LENGTH(32)" by (rule unsigned_less)
    then show ?thesis by (simp only: min_less_iff_disj) simp
  qed
  then have n: "unat (of_nat (min (unat sz) (slot_size q ?h)) :: u32) = min (unat sz) (slot_size q ?h)"
    by (simp only: unat_of_nat) (simp add: take_bit_nat_eq_self)
  have "length (slot_msg q ?h) = slot_size q ?h" by (simp add: slot_msg_def)
  then show ?thesis using rem b n by simp
qed

lemma queue_read_any:
  assumes k: "kern_ok s" and m: "may_sleep s" and l: "g_losTaskLock s = 0"
    and ok: "queue_ok (g_allQueue p i) n (lists s (QueueRead i)) (lists s (QueueWrite i))"
    and sz: "0 < unat sz" "unat sz < 0x7fffffff"
    and run: "OsQueueOperate qid read_type buf sz timeOut (p, s) = (r, buf', sz', p', s')" and i: "i = unat qid"
  shows "if readable (g_allQueue p i) = 0
    then p' = p \<and> kern_ok s' \<and> (if timeOut = 0 then r = Returned LOS_ERRNO_QUEUE_ISEMPTY \<and> s' = s
      else r = Blocked \<and> lists s' (QueueRead i) = lists s (QueueRead i) @ [runTask s]
        \<and> lists s' (QueueWrite i) = lists s (QueueWrite i))
    else r = Returned LOS_OK \<and> kern_ok s'
      \<and> (\<exists>msg. ring (g_allQueue p i) n = msg # ring (g_allQueue p' i) (n - 1)
           \<and> get_bytes 0 (unat sz') buf' = take (unat sz) msg \<and> unat sz' = min (unat sz) (length msg))
      \<and> queue_ok (g_allQueue p' i) (n - 1) (lists s' (QueueRead i)) (lists s' (QueueWrite i))
      \<and> lists s' (QueueWrite i) = tl (lists s (QueueWrite i)) \<and> lists s' (QueueRead i) = lists s (QueueRead i)
      \<and> writable (g_allQueue p' i) = writable (g_allQueue p i) + (if lists s (QueueWrite i) = [] then 1 else 0)
      \<and> (\<forall>t ts. lists s (QueueWrite i) = t # ts \<longrightarrow> woken s s' t)"
proof -
  let ?q = "g_allQueue p i" and ?rs = "lists s (QueueRead i)" and ?ws = "lists s (QueueWrite i)"
  let ?W = "readWriteableCnt ?q 1" and ?R = "readWriteableCnt ?q 0"
  have chk: "OsQueueOperateParamCheck ?q read_type sz = LOS_OK"
    using ok sz by (simp add: OsQueueOperateParamCheck_def queue_ok_def type_values queue_op_defs
        SECUREC_MEM_MAX_LEN_def word_le_nat_alt)
  have rw: "OS_QUEUE_READ_WRITE_GET read_type = 0" "OS_QUEUE_IS_READ read_type"
    by (simp_all add: type_values queue_op_defs)
  have rd: "readable ?q = unat ?R" "writable ?q = unat ?W" by (simp_all add: readable_def writable_def queue_op_defs)
  show ?thesis
  proof (cases "?R = 0")
    case True
    have wl: "readWriteList 0 i = QueueRead i" by (simp add: readWriteList_def queue_op_defs)
    show ?thesis
      using True run chk rw l k sleep_schedule [OF k m, where l = "QueueRead i" and n = timeOut]
      by (auto simp: OsQueueOperate_def Let_def OsGetQueueHandle_def i [symmetric] LOS_NO_WAIT_def rd wl
          split: if_splits)
  next
    case False
    let ?c1 = "(readWriteableCnt ?q)(0 := ?R - 1)"
    let ?q1 = "?q\<lparr>readWriteableCnt := ?c1\<rparr>"
    note dec = cnt_dec [OF False]
    have n: "ring_ok ?q1 n" "0 < n" using ok dec by (auto simp: queue_ok_def rd)
    obtain q2 b2 z2 msg where q2: "OsQueueBufferOperate ?q1 read_type buf sz = (q2, b2, z2)" "ring_ok q2 (n - 1)"
      "ring ?q n = msg # ring q2 (n - 1)" "get_bytes 0 (unat z2) b2 = take (unat sz) msg"
      "unat z2 = min (unat sz) (length msg)"
      "queueState q2 = queueState ?q" "queueLen q2 = queueLen ?q" "readWriteableCnt q2 = ?c1"
      using read_ring [OF n sz(1), of buf] sz(2) by auto
    have wl: "readWriteList 1 i = QueueWrite i" by (simp add: readWriteList_def queue_op_defs)
    let ?p2 = "upd_queue i (\<lambda>_. q2) (upd_queue i (\<lambda>c. c\<lparr>readWriteableCnt := (readWriteableCnt c)
        (0 := readWriteableCnt c 0 - 1)\<rparr>) p)"
    have fin: "OsQueueOperate qid read_type buf sz timeOut (p, s) = (Returned LOS_OK, b2, z2,
        (case ?ws of t # _ \<Rightarrow> (?p2, LOS_Schedule (OsSchedTaskWake t s))
         | [] \<Rightarrow> (upd_queue i (\<lambda>c. c\<lparr>readWriteableCnt := (readWriteableCnt c)
                  (1 := readWriteableCnt c 1 + 1)\<rparr>) ?p2, s)))"
      using False chk rw q2(1)
      by (simp add: OsQueueOperate_def queue_finish_def Let_def OsGetQueueHandle_def i [symmetric] wl
          split: list.split) (simp add: upd_queue_def)
    have nw: "unat ?R \<le> n" "n + unat ?W \<le> unat (queueLen ?q)" using ok by (simp_all add: queue_ok_def rd)
    then have nw2: "unat ?R - Suc 0 \<le> n - Suc 0" "n - Suc 0 \<le> unat (queueLen ?q)" by linarith+
    show ?thesis
    proof (cases ?ws)
      case Nil
      then have r: "r = Returned LOS_OK" "s' = s" "buf' = b2" "sz' = z2" "g_allQueue p' i = q2\<lparr>readWriteableCnt :=
          ?c1(1 := ?W + 1)\<rparr>" using fin run q2(8) by (auto simp: upd_queue_def)
      have inc: "unat (?W + 1) = unat ?W + 1"
        using nw n(2) by (intro cnt_inc [of _ "unat (queueLen ?q)" "queueLen ?q"]) simp_all
      show ?thesis
        using q2(2-7) ok dec inc k Nil nw n(2) unfolding r
        by (simp add: rd queue_ok_def readable_def writable_def queue_op_defs)
    next
      case (Cons t ts)
      then have r: "r = Returned LOS_OK" "s' = LOS_Schedule (OsSchedTaskWake t s)" "buf' = b2" "sz' = z2"
        "g_allQueue p' i = q2" using fin run by (auto simp: upd_queue_def)
      note w = wake_schedule [OF k _ Cons]
      show ?thesis
        using q2(2-8) ok dec w Cons nw nw2 n(2) unfolding r
        by (simp add: rd queue_ok_def readable_def writable_def queue_op_defs)
    qed
  qed
qed

section \<open>Properties of the calls\<close>

definition ex_queues :: queue_state where
  "ex_queues = \<lparr>g_allQueue = (\<lambda>i. if i = 0 then zero_queue\<lparr>queue := 0x3000, queueState := 1, queueLen := 2,
       queueSize := 8, queueTail := 1, readWriteableCnt := (\<lambda>_. 1),
       queueMem := (\<lambda>_. 0)(0 := 7, 1 := 8, 4 := 2)\<rparr> else zero_queue\<lparr>queueID := of_nat i\<rparr>),
     g_freeQueueList = [1, 2, 3, 4, 5]\<rparr>"

lemma ex_queue_0:
  "readable (g_allQueue ex_queues 0) = 1" "writable (g_allQueue ex_queues 0) = 1"
  "queueSize (g_allQueue ex_queues 0) = 8" "ring (g_allQueue ex_queues 0) 1 = [[7, 8]]"
  "queue_ok (g_allQueue ex_queues 0) 1 (lists ex_sched (QueueRead 0)) (lists ex_sched (QueueWrite 0))"
proof -
  have sz: "slot_size (g_allQueue ex_queues 0) 0 = 2"
    by (simp add: slot_size_def get_u32_def ex_queues_def zero_queue_def)
  have h: "queueHead (g_allQueue ex_queues 0) = 0" "queueLen (g_allQueue ex_queues 0) = 2"
    "queueTail (g_allQueue ex_queues 0) = 1" "queueState (g_allQueue ex_queues 0) = 1"
    "queueMem (g_allQueue ex_queues 0) = (\<lambda>_. 0)(0 := 7, 1 := 8, 4 := 2)"
    by (simp_all add: ex_queues_def zero_queue_def)
  show cnt: "readable (g_allQueue ex_queues 0) = 1" "writable (g_allQueue ex_queues 0) = 1"
    "queueSize (g_allQueue ex_queues 0) = 8"
    by (simp_all add: readable_def writable_def ex_queues_def)
  show "ring (g_allQueue ex_queues 0) 1 = [[7, 8]]"
    by (simp add: ring_def slot_msg_def sz h cnt get_bytes_def upt_rec)
  show "queue_ok (g_allQueue ex_queues 0) 1 (lists ex_sched (QueueRead 0)) (lists ex_sched (QueueWrite 0))"
    by (simp add: queue_ok_def ring_ok_def cnt h sz ex_lists_def OS_QUEUE_UNUSED_def)
qed

lemma queue_limit: "qid \<ge> OS_ALL_IPC_QUEUE_LIMIT \<longleftrightarrow> 6 \<le> unat qid"
  by (simp add: OS_ALL_IPC_QUEUE_LIMIT_def LOSCFG_BASE_IPC_QUEUE_LIMIT_def word_le_nat_alt)

text \<open>
  C21. Writing a message of a size that fits: with no free slot the call fails without a timeout and
  else puts the caller at the end of the queue's writers; with a free slot it succeeds, the
  message comes after the messages in the queue, the first waiting reader is woken for it (it
  leaves the wait list and the timer list and, unless it is suspended, is ready or, after the
  reschedule, already running) or, with no reader waiting, the readable count goes up, and the
  invariants are kept.
\<close>

theorem queue_write:
  assumes "kern_ok s" "may_sleep s" "g_losTaskLock s = 0" "\<not> intActive s" "unat qid < 6" "i = unat qid"
    and "queue_ok (g_allQueue p i) n (lists s (QueueRead i)) (lists s (QueueWrite i))"
    and "0 < unat sz" "unat sz \<le> unat (queueSize (g_allQueue p i)) - 4"
    and "LOS_QueueWriteCopy qid (Some buf) sz timeOut (p, s) = (r, buf', sz', p', s')"
  shows "if writable (g_allQueue p i) = 0
    then p' = p \<and> kern_ok s' \<and> (if timeOut = 0 then r = Returned LOS_ERRNO_QUEUE_ISFULL \<and> s' = s
      else r = Blocked \<and> lists s' (QueueWrite i) = lists s (QueueWrite i) @ [runTask s]
        \<and> lists s' (QueueRead i) = lists s (QueueRead i))
    else r = Returned LOS_OK \<and> kern_ok s'
      \<and> ring (g_allQueue p' i) (n + 1) = ring (g_allQueue p i) n @ [get_bytes 0 (unat sz) buf]
      \<and> queue_ok (g_allQueue p' i) (n + 1) (lists s' (QueueRead i)) (lists s' (QueueWrite i))
      \<and> lists s' (QueueRead i) = tl (lists s (QueueRead i)) \<and> lists s' (QueueWrite i) = lists s (QueueWrite i)
      \<and> readable (g_allQueue p' i) = readable (g_allQueue p i) + (if lists s (QueueRead i) = [] then 1 else 0)
      \<and> (\<forall>t ts. lists s (QueueRead i) = t # ts \<longrightarrow> woken s s' t)"
proof -
  have "sz \<noteq> 0" using assms(8) by auto
  then have "OsQueueOperate qid write_tail_type buf sz timeOut (p, s) = (r, buf', sz', p', s')"
    using assms(4,5,10) by (simp add: LOS_QueueWriteCopy_def OsQueueWriteParameterCheck_def queue_limit
        write_tail_type_def [symmetric])
  from queue_write_any [OF disjI1 [OF refl] assms(1-3,7-9) this assms(6)] show ?thesis
    unfolding added_kind .
qed

theorem queue_write_witness:
  "ring (g_allQueue (fst (snd (snd (snd (LOS_QueueWriteCopy 0 (Some (\<lambda>_. 9)) 3 0 (ex_queues, ex_sched)))))) 0) 2
   = [[7, 8], [9, 9, 9]]"
proof -
  obtain r b z p' s' where e: "LOS_QueueWriteCopy 0 (Some (\<lambda>_. 9)) 3 0 (ex_queues, ex_sched) = (r, b, z, p', s')"
    by (metis prod_cases5)
  have c: "g_losTaskLock ex_sched = 0" "\<not> intActive ex_sched" "unat (0::u32) < 6" "0 = unat (0::u32)"
    "0 < unat (3::u32)" "unat (3::u32) \<le> unat (queueSize (g_allQueue ex_queues 0)) - 4"
    by (simp_all add: ex_queue_0)
  have "ring (g_allQueue p' 0) (1 + 1) = [[7, 8], get_bytes 0 3 (\<lambda>_. 9)]"
    using queue_write [OF ex_kern_ok ex_may_sleep c(1-4) ex_queue_0(5) c(5,6) e] ex_queue_0 by simp
  from this [unfolded one_add_one] show ?thesis by (simp add: e get_bytes_def upt_rec)
qed

text \<open>
  Writing at the head is the same with the message put before the others, so that it is read next.
\<close>

theorem queue_write_head:
  assumes "kern_ok s" "may_sleep s" "g_losTaskLock s = 0" "\<not> intActive s" "unat qid < 6" "i = unat qid"
    and "queue_ok (g_allQueue p i) n (lists s (QueueRead i)) (lists s (QueueWrite i))"
    and "0 < unat sz" "unat sz \<le> unat (queueSize (g_allQueue p i)) - 4" "0 < writable (g_allQueue p i)"
    and "LOS_QueueWriteHeadCopy qid (Some buf) sz timeOut (p, s) = (r, buf', sz', p', s')"
  shows "r = Returned LOS_OK \<and> kern_ok s'
      \<and> ring (g_allQueue p' i) (n + 1) = get_bytes 0 (unat sz) buf # ring (g_allQueue p i) n
      \<and> queue_ok (g_allQueue p' i) (n + 1) (lists s' (QueueRead i)) (lists s' (QueueWrite i))
      \<and> lists s' (QueueRead i) = tl (lists s (QueueRead i))"
proof -
  have "sz \<noteq> 0" using assms(8) by auto
  then have "OsQueueOperate qid write_head_type buf sz timeOut (p, s) = (r, buf', sz', p', s')"
    using assms(4,5,11) by (simp add: LOS_QueueWriteHeadCopy_def OsQueueWriteParameterCheck_def queue_limit
        write_head_type_def [symmetric])
  note w = queue_write_any [OF disjI2 [OF refl] assms(1-3,7-9) this assms(6), unfolded added_kind]
  have nz: "writable (g_allQueue p i) \<noteq> 0" using assms(10) by simp
  show ?thesis using w unfolding if_not_P [OF nz] by blast
qed

theorem queue_write_head_witness:
  "ring (g_allQueue (fst (snd (snd (snd (LOS_QueueWriteHeadCopy 0 (Some (\<lambda>_. 9)) 3 0 (ex_queues, ex_sched)))))) 0) 2
   = [[9, 9, 9], [7, 8]]"
proof -
  obtain r b z p' s' where e: "LOS_QueueWriteHeadCopy 0 (Some (\<lambda>_. 9)) 3 0 (ex_queues, ex_sched) = (r, b, z, p', s')"
    by (metis prod_cases5)
  have c: "g_losTaskLock ex_sched = 0" "\<not> intActive ex_sched" "unat (0::u32) < 6" "0 = unat (0::u32)"
    "0 < unat (3::u32)" "unat (3::u32) \<le> unat (queueSize (g_allQueue ex_queues 0)) - 4"
    "0 < writable (g_allQueue ex_queues 0)"
    by (simp_all add: ex_queue_0)
  have "ring (g_allQueue p' 0) (1 + 1) = [get_bytes 0 3 (\<lambda>_. 9), [7, 8]]"
    using queue_write_head [OF ex_kern_ok ex_may_sleep c(1-4) ex_queue_0(5) c(5-7) e] ex_queue_0 by simp
  from this [unfolded one_add_one] show ?thesis by (simp add: e get_bytes_def upt_rec)
qed

text \<open>
  C22. Reading: with nothing readable the call fails without a timeout and else puts the caller at
  the end of the queue's readers; otherwise it succeeds, removes the first message, copies as
  much of it as the caller has room for and reports that size, the first waiting writer is
  woken (off the wait list and the timer list and, unless it is suspended, ready or, after the
  reschedule, already running) or, with no writer waiting, the writable count goes up, and the
  invariants are kept.
\<close>

theorem queue_read:
  assumes "kern_ok s" "may_sleep s" "g_losTaskLock s = 0" "\<not> intActive s" "unat qid < 6" "i = unat qid"
    and "queue_ok (g_allQueue p i) n (lists s (QueueRead i)) (lists s (QueueWrite i))"
    and "0 < unat sz" "unat sz < 0x7fffffff"
    and "LOS_QueueReadCopy qid (Some buf) (Some sz) timeOut (p, s) = (r, buf', sz', p', s')"
  shows "if readable (g_allQueue p i) = 0
    then p' = p \<and> kern_ok s' \<and> (if timeOut = 0 then r = Returned LOS_ERRNO_QUEUE_ISEMPTY \<and> s' = s
      else r = Blocked \<and> lists s' (QueueRead i) = lists s (QueueRead i) @ [runTask s]
        \<and> lists s' (QueueWrite i) = lists s (QueueWrite i))
    else r = Returned LOS_OK \<and> kern_ok s'
      \<and> (\<exists>msg. ring (g_allQueue p i) n = msg # ring (g_allQueue p' i) (n - 1)
           \<and> get_bytes 0 (unat sz') buf' = take (unat sz) msg \<and> unat sz' = min (unat sz) (length msg))
      \<and> queue_ok (g_allQueue p' i) (n - 1) (lists s' (QueueRead i)) (lists s' (QueueWrite i))
      \<and> lists s' (QueueWrite i) = tl (lists s (QueueWrite i)) \<and> lists s' (QueueRead i) = lists s (QueueRead i)
      \<and> writable (g_allQueue p' i) = writable (g_allQueue p i) + (if lists s (QueueWrite i) = [] then 1 else 0)
      \<and> (\<forall>t ts. lists s (QueueWrite i) = t # ts \<longrightarrow> woken s s' t)"
proof -
  have "sz \<noteq> 0" using assms(8) by auto
  then have "OsQueueOperate qid read_type buf sz timeOut (p, s) = (r, buf', sz', p', s')"
    using assms(4,5,10) by (simp add: LOS_QueueReadCopy_def OsQueueReadParameterCheck_def queue_limit
        read_type_def [symmetric])
  from queue_read_any [OF assms(1-3,7-9) this assms(6)] show ?thesis .
qed

theorem queue_read_witness:
  "get_bytes 0 2 (fst (snd (LOS_QueueReadCopy 0 (Some (\<lambda>_. 0)) (Some 6) 0 (ex_queues, ex_sched)))) = [7, 8]"
proof -
  obtain r b z p' s' where e: "LOS_QueueReadCopy 0 (Some (\<lambda>_. 0)) (Some 6) 0 (ex_queues, ex_sched) = (r, b, z, p', s')"
    by (metis prod_cases5)
  have c: "g_losTaskLock ex_sched = 0" "\<not> intActive ex_sched" "unat (0::u32) < 6" "0 = unat (0::u32)"
    "0 < unat (6::u32)" "unat (6::u32) < 0x7fffffff" by simp_all
  have "get_bytes 0 (Suc (Suc 0)) b = [7, 8]"
    using queue_read [OF ex_kern_ok ex_may_sleep c(1-4) ex_queue_0(5) c(5,6) e] ex_queue_0 by auto
  then show ?thesis by (simp add: e numeral_2_eq_2)
qed

section \<open>Creating and deleting\<close>

definition queue_used :: "queue_state \<Rightarrow> nat \<Rightarrow> bool" where
  "queue_used p i \<longleftrightarrow> queueState (g_allQueue p i) \<noteq> OS_QUEUE_UNUSED"

definition queue_cap :: "queue_state \<Rightarrow> nat" where
  "queue_cap p = unat OS_ALL_IPC_QUEUE_LIMIT"

definition queue_take :: "nat \<Rightarrow> queue_state \<Rightarrow> queue_state \<Rightarrow> bool" where
  "queue_take i p q \<longleftrightarrow> (\<exists>(al :: nat heap_ops) nm len sz h s x h' s'.
     OsQueueCreate al nm len True sz (p, h, s) = (LOS_OK, Some x, q, h', s') \<and> hd (g_freeQueueList p) = i)"

definition queue_give :: "nat \<Rightarrow> queue_state \<Rightarrow> queue_state \<Rightarrow> bool" where
  "queue_give i p q \<longleftrightarrow> (\<exists>(al :: nat heap_ops) d h s r h' s'. OsGetQueueHandle d = i
     \<and> LOS_QueueDelete al d (p, h, s) = (r, q, h', s') \<and> q \<noteq> p)"

lemma queue_cap_6 [simp]: "queue_cap p = 6"
  by (simp add: queue_cap_def OS_ALL_IPC_QUEUE_LIMIT_def LOSCFG_BASE_IPC_QUEUE_LIMIT_def)

interpretation quep: slot_pool g_freeQueueList queue_used queue_cap queue_take queue_give
proof unfold_locales
  fix i p q
  assume "queue_take i p q"
  then obtain al :: "nat heap_ops" and nm len sz h s x h' s' where
    "OsQueueCreate al nm len True sz (p, h, s) = (LOS_OK, Some x, q, h', s')" "hd (g_freeQueueList p) = i"
    by (auto simp: queue_take_def)
  then show "g_freeQueueList p = i # g_freeQueueList q" "queue_used q j = (j = i \<or> queue_used p j)"
    "queue_cap q = queue_cap p" for j
    by (auto simp: OsQueueCreate_def upd_queue_def Let_def queue_used_def OS_QUEUE_INUSED_def
        OS_QUEUE_UNUSED_def case_prod_beta split: if_splits list.splits)
next
  fix i p q
  assume "queue_give i p q"
  then obtain al :: "nat heap_ops" and d h s r h' s' where "OsGetQueueHandle d = i" "q \<noteq> p"
    "LOS_QueueDelete al d (p, h, s) = (r, q, h', s')" by (auto simp: queue_give_def)
  then show "g_freeQueueList q = i # g_freeQueueList p"
    "queue_used p i \<and> i < queue_cap p \<and> queue_used q j = (j \<noteq> i \<and> queue_used p j)"
    "queue_cap q = queue_cap p" for j
    by (auto simp: LOS_QueueDelete_def upd_queue_def Let_def queue_used_def queue_limit OsGetQueueHandle_def
        case_prod_beta split: if_splits)
qed

text \<open>
  Creating a queue of at least one message of at least one byte, when the memory is there:
  the busy error comes exactly when all six are in use, and the memory is given back; otherwise
  a queue that was not in use is handed out, empty, with all its slots writable and nobody
  waiting, and no other block changes.
\<close>

theorem queue_create:
  assumes "quep.pool_ok p" "\<forall>i<6. queueID (g_allQueue p i) = of_nat i" "len \<noteq> 0" "sz \<noteq> 0" "sz \<le> 0xFFFB"
    and "heap_alloc al h (ucast len * ucast (sz + 4)) = (b, h1)" "b \<noteq> 0"
    and "LOS_QueueCreate al nm len True fl sz (p, h, s) = (r, x, p', h', s')"
  shows "if \<forall>i<6. queue_used p i
    then r = LOS_ERRNO_QUEUE_CB_UNAVAILABLE \<and> x = None \<and> p' = p \<and> s' = s \<and> h' = snd (heap_free al h1 b)
    else \<exists>i<6. \<not> queue_used p i \<and> r = LOS_OK \<and> x = Some (of_nat i) \<and> h' = h1 \<and> quep.pool_ok p'
      \<and> queue_ok (g_allQueue p' i) 0 (lists s' (QueueRead i)) (lists s' (QueueWrite i))
      \<and> lists s' (QueueRead i) = [] \<and> lists s' (QueueWrite i) = [] \<and> lists s' (QueueMem i) = []
      \<and> writable (g_allQueue p' i) = unat len \<and> (\<forall>j. j \<noteq> i \<longrightarrow> g_allQueue p' j = g_allQueue p j)"
proof -
  have m: "unat (sz + 4) = unat sz + 4"
    using assms(5) by (subst unat_add_lem [THEN iffD1]) (simp_all add: word_le_nat_alt)
  have le: "\<not> 0xFFFFFFFF div ucast (sz + 4) < (ucast len :: u32)"
  proof -
    have u: "unat (ucast y :: u32) = unat y" "unat y \<le> 0xFFFF" for y :: u16
    proof -
      have "unat y < 2 ^ LENGTH(16)" by (rule unsigned_less)
      then show "unat (ucast y :: u32) = unat y" "unat y \<le> 0xFFFF"
        by (simp_all add: unsigned_ucast_eq take_bit_nat_eq_self)
    qed
    have "0 < unat (sz + 4)" using m by simp
    then have "(0xFFFFFFFF :: nat) div 0xFFFF \<le> 0xFFFFFFFF div unat (sz + 4)"
      using u(2) [of "sz + 4"] by (intro div_le_mono2)
    then have "unat len \<le> 0xFFFFFFFF div unat (sz + 4)" using u(2) [of len] by simp
    then show ?thesis by (simp add: word_less_nat_alt unat_div u(1) not_less)
  qed
  have chk: "\<not> sz > OS_NULL_SHORT - 4" using assms(5) by (simp add: OS_NULL_SHORT_def)
  have run: "OsQueueCreate al nm len True sz (p, h, s) = (r, x, p', h', s')"
    using assms(8) by (simp add: LOS_QueueCreate_def)
  show ?thesis
  proof (cases "g_freeQueueList p")
    case Nil
    then have "\<forall>i<6. queue_used p i" using assms(1) quep.exhausted_iff [of p] by simp
    then show ?thesis using run Nil assms(3,4,6,7) le chk by (auto simp: OsQueueCreate_def Let_def)
  next
    case (Cons i rest)
    have i: "i < 6" "\<not> queue_used p i" using assms(1) Cons by (auto simp: quep.pool_ok_def)
    let ?f = "\<lambda>c. c\<lparr>queueName := nm, queueLen := len, queueSize := sz + 4, queue := b,
        queueState := OS_QUEUE_INUSED, readWriteableCnt := (readWriteableCnt c)(OS_QUEUE_READ := 0,
          OS_QUEUE_WRITE := len), queueHead := 0, queueTail := 0\<rparr>"
    have r: "r = LOS_OK" "h' = h1" "p' = upd_queue i ?f (p\<lparr>g_freeQueueList := rest\<rparr>)"
      "x = Some (ucast (queueID (g_allQueue p i)))"
      "s' = upd_list (QueueMem i) (\<lambda>_. []) (upd_list (QueueWrite i) (\<lambda>_. []) (upd_list (QueueRead i) (\<lambda>_. []) s))"
      using run Cons assms(3,4,6,7) le chk by (auto simp: OsQueueCreate_def Let_def upd_queue_def)
    have id: "ucast (queueID (g_allQueue p i)) = (of_nat i :: u32)"
      using assms(2) i(1) by (simp add: small_cast_16_32)
    have "queue_used p' j = (j = i \<or> queue_used p j)" for j
      by (simp add: r(3) queue_used_def upd_queue_def OS_QUEUE_INUSED_def OS_QUEUE_UNUSED_def)
    then have pool: "quep.pool_ok p'"
      using assms(1) Cons by (auto simp: quep.pool_ok_def r(3) upd_queue_def)
    have q: "g_allQueue p' i = ?f (g_allQueue p i)" "\<And>j. j \<noteq> i \<Longrightarrow> g_allQueue p' j = g_allQueue p j"
      by (simp_all add: r(3) upd_queue_def)
    have l: "lists s' (QueueRead i) = []" "lists s' (QueueWrite i) = []" "lists s' (QueueMem i) = []"
      by (simp_all add: r(5) upd_list_def)
    have "sz \<noteq> 0 \<Longrightarrow> 0 < unat sz" "len \<noteq> 0 \<Longrightarrow> 0 < unat len" by (simp_all add: unat_gt_0)
    then have "queue_ok (g_allQueue p' i) 0 [] []" "writable (g_allQueue p' i) = unat len"
      using assms(3,4) m by (simp_all add: q(1) queue_ok_def ring_ok_def readable_def writable_def queue_op_defs
          OS_QUEUE_INUSED_def OS_QUEUE_UNUSED_def)
    then show ?thesis using i r(1,2,4) id pool l q(2) by auto
  qed
qed

definition ex_heap :: "nat heap_ops" where
  "ex_heap = \<lparr>heap_alloc = (\<lambda>h n. (0x4000, h + 1)), heap_free = (\<lambda>h a. (0, h - 1))\<rparr>"

lemma ex_queue_pool: "quep.pool_ok ex_queues" "\<forall>i<6. queueID (g_allQueue ex_queues i) = of_nat i"
  by (auto simp: quep.pool_ok_def queue_used_def ex_queues_def zero_queue_def OS_QUEUE_UNUSED_def)

theorem queue_create_witness:
  "fst (LOS_QueueCreate ex_heap None 3 True 0 16 (ex_queues, 0, ex_sched)) = LOS_OK"
proof -
  obtain r x p' h' s' where e: "LOS_QueueCreate ex_heap None 3 True 0 16 (ex_queues, 0, ex_sched) = (r, x, p', h', s')"
    by (metis prod_cases5)
  have c: "(3::u16) \<noteq> 0" "(16::u16) \<noteq> 0" "(16::u16) \<le> 0xFFFB"
    "heap_alloc ex_heap 0 (ucast (3::u16) * ucast ((16::u16) + 4)) = (0x4000, 1)" "(0x4000::u32) \<noteq> 0"
    by (simp_all add: ex_heap_def word_le_nat_alt)
  have "\<not> (\<forall>i<6. queue_used ex_queues i)"
    by (auto simp: queue_used_def ex_queues_def zero_queue_def OS_QUEUE_UNUSED_def intro!: exI [of _ 1])
  from queue_create [OF ex_queue_pool c e, unfolded if_not_P [OF this]] e show ?thesis by auto
qed

text \<open>
  A queue in use is deleted exactly when nobody waits on it and nothing is promised to a task
  that was woken and has not run yet: every message is readable and every other slot writable.
  Then its block is free again and its buffer is given back; otherwise nothing changes.
\<close>

theorem queue_delete:
  assumes "unat d < 6" "i = unat d" "queue_ok (g_allQueue p i) n (lists s (QueueRead i)) (lists s (QueueWrite i))"
    and "LOS_QueueDelete al d (p, h, s) = (r, p', h', s')"
  shows "if lists s (QueueRead i) = [] \<and> lists s (QueueWrite i) = [] \<and> lists s (QueueMem i) = []
      \<and> readable (g_allQueue p i) = n \<and> writable (g_allQueue p i) = unat (queueLen (g_allQueue p i)) - n
    then (r, h') = heap_free al h (queue (g_allQueue p i)) \<and> \<not> queue_used p' i
      \<and> g_freeQueueList p' = i # g_freeQueueList p \<and> s' = s
    else r \<in> {LOS_ERRNO_QUEUE_IN_TSKUSE, LOS_ERRNO_QUEUE_IN_TSKWRITE} \<and> p' = p \<and> h' = h \<and> s' = s"
proof -
  let ?q = "g_allQueue p i"
  have sum: "writable ?q + readable ?q = unat (queueLen ?q) \<longleftrightarrow>
      readable ?q = n \<and> writable ?q = unat (queueLen ?q) - n"
    using assms(3) by (auto simp: queue_ok_def ring_ok_def)
  have "queueState ?q \<noteq> OS_QUEUE_UNUSED" "\<not> d \<ge> OS_ALL_IPC_QUEUE_LIMIT"
    using assms(1,3) by (simp_all add: queue_ok_def queue_limit)
  then show ?thesis
    using assms(2,4) sum
    by (auto simp: LOS_QueueDelete_def Let_def OsGetQueueHandle_def readable_def [symmetric]
        writable_def [symmetric] queue_used_def upd_queue_def case_prod_beta split: if_splits)
qed

theorem queue_delete_witness:
  "g_freeQueueList (fst (snd (LOS_QueueDelete ex_heap 0 (ex_queues, 7, ex_sched)))) = [0, 1, 2, 3, 4, 5]"
proof -
  obtain r p' h' s' where e: "LOS_QueueDelete ex_heap 0 (ex_queues, 7, ex_sched) = (r, p', h', s')"
    by (metis prod_cases4)
  have "unat (0::u32) < 6" "0 = unat (0::u32)" by simp_all
  from queue_delete [OF this ex_queue_0(5) e] have "g_freeQueueList p' = 0 # g_freeQueueList ex_queues"
    using ex_queue_0 by (simp add: ex_lists_def) (simp add: ex_queues_def)
  then show ?thesis unfolding e by (simp add: ex_queues_def)
qed

section \<open>Mail under the task lock\<close>

text \<open>
  The mail allocation has no check of the task lock: with the pool empty and the scheduler
  locked the caller is put on the queue's list of waiters as pending, and goes on running.
\<close>

theorem mail_alloc_locked:
  assumes "unat d < 6" "i = unat d" "pool \<noteq> 0" "\<not> intActive s" "timeOut \<noteq> 0" "g_losTaskLock s \<noteq> 0"
    and "queue_used p i" "fst (LOS_MemboxAlloc pool s m) = 0"
    and "OsQueueMailAlloc d pool timeOut (p, m, s) = (r, p', m', s')"
  shows "r = Blocked \<and> runTask s' = runTask s \<and> has (st s' (runTask s)) (flag PEND)
    \<and> last (lists s' (QueueMem i)) = runTask s"
proof -
  let ?w = "OsSchedTaskWait (QueueMem i) timeOut s"
  have "\<not> OsCheckKernelRunning ?w"
    using assms(6) by (simp add: OsCheckKernelRunning_def LOS_CHECK_SCHEDULE_def)
  then have w: "LOS_Schedule ?w = ?w" by (simp add: LOS_Schedule_def)
  have "\<not> d \<ge> OS_ALL_IPC_QUEUE_LIMIT" using assms(1) by (simp add: queue_limit)
  then have "r = Blocked" "s' = LOS_Schedule ?w"
    using assms by (auto simp: OsQueueMailAlloc_def Let_def OsGetQueueHandle_def LOS_NO_WAIT_def queue_used_def
        case_prod_beta)
  then show ?thesis by (simp add: w TaskWait_tcb TaskWait_lists)
qed

theorem mail_alloc_locked_witness:
  "fst (OsQueueMailAlloc 0 0x1000 5 (ex_queues, ex_pool\<lparr>box_info := \<lambda>_. (box_info ex_pool 0)\<lparr>stFreeList := 0\<rparr>\<rparr>,
     ex_sched\<lparr>g_losTaskLock := 1\<rparr>)) = Blocked"
proof -
  let ?m = "ex_pool\<lparr>box_info := \<lambda>_. (box_info ex_pool 0)\<lparr>stFreeList := 0\<rparr>\<rparr>"
  obtain r p' m' s' where e: "OsQueueMailAlloc 0 0x1000 5 (ex_queues, ?m, ex_sched\<lparr>g_losTaskLock := 1\<rparr>) = (r, p', m', s')"
    by (metis prod_cases4)
  have "unat (0::u32) < 6" "0 = unat (0::u32)" "(0x1000::u32) \<noteq> 0" "\<not> intActive (ex_sched\<lparr>g_losTaskLock := 1\<rparr>)"
    "(5::u32) \<noteq> 0" "g_losTaskLock (ex_sched\<lparr>g_losTaskLock := 1\<rparr>) \<noteq> 0" "queue_used ex_queues 0"
    "fst (LOS_MemboxAlloc 0x1000 (ex_sched\<lparr>g_losTaskLock := 1\<rparr>) ?m) = 0"
    by (simp_all add: queue_used_def ex_queues_def zero_queue_def OS_QUEUE_UNUSED_def LOS_MemboxAlloc_def Let_def)
  from mail_alloc_locked [OF this e] e show ?thesis by simp
qed

end
