(* ===== verification/Los_Swtmr.thy ===== *)
theory Los_Swtmr
  imports Los_QueueProps
begin

text \<open>
  Software timers (kernel/src/los_swtmr.c): timer blocks with a free list, the sorted list of
  the running ones, the scan the tick interrupt runs over it, and the task that calls the
  handlers of the expired timers, which reach it through a message queue. The state is the
  blocks, the queues and the scheduler. A pointer to a block is its index in \<open>g_swtmrCBArray\<close>,
  and its \<open>stSortList\<close> is the node \<open>SwtmrNode i\<close> of the scheduler's state; an address of a
  handler is a word, 0 for NULL. Alignment of timers is off, as in the default configuration.
\<close>

section \<open>Configuration and blocks\<close>

definition LOSCFG_BASE_CORE_SWTMR_LIMIT :: u32 where "LOSCFG_BASE_CORE_SWTMR_LIMIT = 5"
definition OS_SWTMR_HANDLE_QUEUE_SIZE :: u16 where
  "OS_SWTMR_HANDLE_QUEUE_SIZE = ucast (LOSCFG_BASE_CORE_SWTMR_LIMIT + 0)"
definition OS_SWTMR_MAX_TIMERID :: u32 where
  "OS_SWTMR_MAX_TIMERID = (0xFFFFFFFF div LOSCFG_BASE_CORE_SWTMR_LIMIT) * LOSCFG_BASE_CORE_SWTMR_LIMIT"
definition SWTMR_MAX_RUNNING_TICKS :: u64 where "SWTMR_MAX_RUNNING_TICKS = 2"
definition LOSCFG_BASE_CORE_TSK_SWTMR_STACK_SIZE :: u32 where
  "LOSCFG_BASE_CORE_TSK_SWTMR_STACK_SIZE = LOSCFG_BASE_CORE_TSK_DEFAULT_STACK_SIZE"

definition OS_SWTMR_STATUS_UNUSED :: u8 where "OS_SWTMR_STATUS_UNUSED = 0"
definition OS_SWTMR_STATUS_CREATED :: u8 where "OS_SWTMR_STATUS_CREATED = 1"
definition OS_SWTMR_STATUS_TICKING :: u8 where "OS_SWTMR_STATUS_TICKING = 2"

definition LOS_SWTMR_MODE_ONCE :: u8 where "LOS_SWTMR_MODE_ONCE = 0"
definition LOS_SWTMR_MODE_PERIOD :: u8 where "LOS_SWTMR_MODE_PERIOD = 1"
definition LOS_SWTMR_MODE_NO_SELFDELETE :: u8 where "LOS_SWTMR_MODE_NO_SELFDELETE = 2"

record SWTMR_CTRL_S =
  pstNext :: "nat option"
  ucState :: u8
  ucMode :: u8
  ucOverrun :: u8
  usTimerID :: u32
  uwInterval :: u32
  swtmr_uwArg :: u32
  pfnHandler :: u32
  swtmr_startTime :: u64

record SwtmrHandlerItem =
  item_handler :: u32
  item_arg :: u32
  item_swtmrID :: u32

record swtmr_state =
  g_swtmrCBArray :: "nat \<Rightarrow> SWTMR_CTRL_S"
  g_swtmrFreeList :: "nat option"
  g_swtmrHandlerQueue :: u32

type_synonym swtmr_all = "swtmr_state \<times> queue_state \<times> sched"

definition zero_swtmr :: SWTMR_CTRL_S where
  "zero_swtmr = \<lparr>pstNext = None, ucState = 0, ucMode = 0, ucOverrun = 0, usTimerID = 0,
     uwInterval = 0, swtmr_uwArg = 0, pfnHandler = 0, swtmr_startTime = 0\<rparr>"

definition upd_swtmr :: "nat \<Rightarrow> (SWTMR_CTRL_S \<Rightarrow> SWTMR_CTRL_S) \<Rightarrow> swtmr_state \<Rightarrow> swtmr_state" where
  "upd_swtmr i f p = p\<lparr>g_swtmrCBArray := (g_swtmrCBArray p)(i := f (g_swtmrCBArray p i))\<rparr>"

definition OS_SWT_FROM_SID :: "u32 \<Rightarrow> nat" where
  "OS_SWT_FROM_SID swtmrId = unat (swtmrId mod LOSCFG_BASE_CORE_SWTMR_LIMIT)"

text \<open>A \<open>SwtmrHandlerItem\<close> in memory: three words.\<close>

definition sizeof_SwtmrHandlerItem :: u32 where "sizeof_SwtmrHandlerItem = 12"

definition item_bytes :: "SwtmrHandlerItem \<Rightarrow> nat \<Rightarrow> u8" where
  "item_bytes it = put_bytes 0 (u32_bytes (item_handler it) @ u32_bytes (item_arg it)
     @ u32_bytes (item_swtmrID it)) (\<lambda>_. 0)"

definition bytes_item :: "(nat \<Rightarrow> u8) \<Rightarrow> SwtmrHandlerItem" where
  "bytes_item m = \<lparr>item_handler = get_u32 0 m, item_arg = get_u32 4 m, item_swtmrID = get_u32 8 m\<rparr>"

section \<open>Starting, stopping and deleting a block\<close>

definition OsSwtmrStart :: "u64 \<Rightarrow> nat \<Rightarrow> swtmr_state \<times> sched \<Rightarrow> swtmr_state \<times> sched" where
  "OsSwtmrStart currTime i = (\<lambda>(p, s).
     (let p1 = upd_swtmr i (\<lambda>c. c\<lparr>ucState := OS_SWTMR_STATUS_TICKING\<rparr>) p;
          c = g_swtmrCBArray p1 i
      in (p1, OsSchedUpdateExpireTime
                (OsAdd2SortLink (SwtmrNode i) (swtmr_startTime c) (uwInterval c) OS_SORT_LINK_SWTMR s))))"

definition OsSwtmrDelete :: "nat \<Rightarrow> swtmr_state \<Rightarrow> swtmr_state" where
  "OsSwtmrDelete i p =
     (let next_id = (\<lambda>w. if w < OS_SWTMR_MAX_TIMERID - LOSCFG_BASE_CORE_SWTMR_LIMIT
                         then w + LOSCFG_BASE_CORE_SWTMR_LIMIT
                         else w mod LOSCFG_BASE_CORE_SWTMR_LIMIT);
          p1 = upd_swtmr i (\<lambda>c. c\<lparr>usTimerID := next_id (usTimerID c),
                 pstNext := g_swtmrFreeList p, ucState := OS_SWTMR_STATUS_UNUSED\<rparr>) p
      in p1\<lparr>g_swtmrFreeList := Some i\<rparr>)"

definition OsSwtmrStop :: "nat \<Rightarrow> swtmr_state \<times> sched \<Rightarrow> swtmr_state \<times> sched" where
  "OsSwtmrStop i = (\<lambda>(p, s).
     (upd_swtmr i (\<lambda>c. c\<lparr>ucState := OS_SWTMR_STATUS_CREATED, ucOverrun := 0\<rparr>) p,
      OsSchedUpdateExpireTime (OsDeleteSortLink (SwtmrNode i) s)))"

section \<open>Expiry\<close>

text \<open>The result of posting the message is ignored: a full queue loses it.\<close>

definition OsSwtmrTimeoutHandle :: "u64 \<Rightarrow> nat \<Rightarrow> swtmr_all \<Rightarrow> swtmr_all" where
  "OsSwtmrTimeoutHandle currTime i = (\<lambda>(p, q, s).
     (let c = g_swtmrCBArray p i;
          it = \<lparr>item_handler = pfnHandler c, item_arg = swtmr_uwArg c, item_swtmrID = usTimerID c\<rparr>;
          (_, _, _, q1, s1) = LOS_QueueWriteCopy (g_swtmrHandlerQueue p) (Some (item_bytes it))
                                sizeof_SwtmrHandlerItem LOS_NO_WAIT (q, s)
      in if ucMode c = LOS_SWTMR_MODE_PERIOD
         then (let (p2, s2) = OsSwtmrStart currTime i
                     (upd_swtmr i (\<lambda>c. c\<lparr>ucOverrun := ucOverrun c + 1\<rparr>) p, s1)
               in (p2, q1, s2))
         else if ucMode c = LOS_SWTMR_MODE_NO_SELFDELETE
         then (upd_swtmr i (\<lambda>c. c\<lparr>ucState := OS_SWTMR_STATUS_CREATED\<rparr>) p, q1, s1)
         else (p, q1, s1)))"

text \<open>
  The loop of \<open>OsSwtmrScan\<close> over the time read at its start, and one turn of it. None is a loop that does not end,
  as with a period of no cycles. A node of the list is always a timer's.
\<close>

definition scan_fire :: "u64 \<Rightarrow> nat \<Rightarrow> swtmr_all \<Rightarrow> swtmr_all" where
  "scan_fire currTime i = (\<lambda>(p, q, s).
     OsSwtmrTimeoutHandle currTime i
       (upd_swtmr i (\<lambda>c. c\<lparr>swtmr_startTime := responseTime s (SwtmrNode i)\<rparr>) p, q,
        OsDeleteNodeSortLink (SwtmrNode i) s))"

partial_function (option) swtmr_scan :: "u64 \<Rightarrow> swtmr_all \<Rightarrow> swtmr_all option" where
  "swtmr_scan currTime w =
     (case g_swtmrSortLink (snd (snd w)) of
        [] \<Rightarrow> Some w
      | TaskNode t # _ \<Rightarrow> Some (fst w, fst (snd w), sched_assert False (snd (snd w)))
      | SwtmrNode i # _ \<Rightarrow>
          if responseTime (snd (snd w)) (SwtmrNode i) \<le> currTime
          then swtmr_scan currTime (scan_fire currTime i w) else Some w)"

definition OsSwtmrScan :: "swtmr_all \<Rightarrow> (bool \<times> swtmr_all) option" where
  "OsSwtmrScan = (\<lambda>(p, q, s).
     if g_swtmrSortLink s = [] then Some (False, p, q, s)
     else
       (let (currTime, s1) = OsGetCurrSchedTimeCycle s;
            due = (responseTime s1 (hd (g_swtmrSortLink s1)) \<le> currTime)
        in case swtmr_scan currTime (p, q, s1) of
             None \<Rightarrow> None | Some w \<Rightarrow> Some (due, w)))"

section \<open>Rebasing the timers when the scheduler starts\<close>

text \<open>The node behind \<open>n\<close>, or None for the list head.\<close>

definition next_node :: "sortnode \<Rightarrow> sortnode list \<Rightarrow> sortnode option" where
  "next_node n xs = (case dropWhile (\<lambda>m. m \<noteq> n) xs of _ # m # _ \<Rightarrow> Some m | _ \<Rightarrow> None)"

text \<open>\<open>listNext\<close> is followed after its node has been put back.\<close>

partial_function (option) reset_loop :: "u64 \<Rightarrow> sortnode option \<Rightarrow> swtmr_state \<times> sched
    \<Rightarrow> (swtmr_state \<times> sched) option" where
  "reset_loop start listNext ps =
     (case listNext of
        None \<Rightarrow> Some ps
      | Some (TaskNode t) \<Rightarrow> Some (fst ps, sched_assert False (snd ps))
      | Some (SwtmrNode i) \<Rightarrow>
          (let ps1 = OsSwtmrStart start i
                 (upd_swtmr i (\<lambda>c. c\<lparr>swtmr_startTime := start\<rparr>) (fst ps),
                  OsDeleteNodeSortLink (SwtmrNode i) (snd ps))
           in reset_loop start (next_node (SwtmrNode i) (g_swtmrSortLink (snd ps1))) ps1))"

definition OsSwtmrResponseTimeReset :: "u64 \<Rightarrow> swtmr_state \<times> sched \<Rightarrow> (swtmr_state \<times> sched) option" where
  "OsSwtmrResponseTimeReset start ps =
     reset_loop start (case g_swtmrSortLink (snd ps) of [] \<Rightarrow> None | n # _ \<Rightarrow> Some n) ps"

section \<open>Times\<close>

definition cap_ticks :: "u64 \<Rightarrow> u32" where
  "cap_ticks time = ucast (if time > ucast OS_NULL_INT then ucast OS_NULL_INT else time)"

definition OsSwtmrGetNextTimeout :: "sched \<Rightarrow> u32 \<times> sched" where
  "OsSwtmrGetNextTimeout s =
     (let (time, s1) = OsSortLinkGetNextExpireTime OS_SORT_LINK_SWTMR s
      in (cap_ticks (OS_SYS_CYCLE_TO_TICK (g_sysClock (tk s1)) time), s1))"

definition OsSwtmrTimeGet :: "nat \<Rightarrow> sched \<Rightarrow> u32 \<times> sched" where
  "OsSwtmrTimeGet i s =
     (let (now, s1) = OsGetCurrSchedTimeCycle s;
          time = OsSortLinkGetTargetExpireTime now (responseTime s1 (SwtmrNode i))
      in (cap_ticks (OS_SYS_CYCLE_TO_TICK (g_sysClock (tk s1)) time), s1))"

section \<open>The interface\<close>

text \<open>\<open>swtmrIdp\<close> says the pointer is not NULL; the identifier written is the second result.\<close>

definition LOS_SwtmrCreate :: "u32 \<Rightarrow> u8 \<Rightarrow> u32 \<Rightarrow> bool \<Rightarrow> u32 \<Rightarrow> swtmr_state \<times> sched
    \<Rightarrow> u32 \<times> u32 option \<times> swtmr_state \<times> sched" where
  "LOS_SwtmrCreate interval mode handler swtmrIdp uwarg = (\<lambda>(p, s).
     if interval = 0 then (LOS_ERRNO_SWTMR_INTERVAL_NOT_SUITED, None, p, s)
     else if mode \<noteq> LOS_SWTMR_MODE_ONCE \<and> mode \<noteq> LOS_SWTMR_MODE_PERIOD
             \<and> mode \<noteq> LOS_SWTMR_MODE_NO_SELFDELETE then (LOS_ERRNO_SWTMR_MODE_INVALID, None, p, s)
     else if handler = 0 then (LOS_ERRNO_SWTMR_PTR_NULL, None, p, s)
     else if \<not> swtmrIdp then (LOS_ERRNO_SWTMR_RET_PTR_NULL, None, p, s)
     else case g_swtmrFreeList p of
       None \<Rightarrow> (LOS_ERRNO_SWTMR_MAXSIZE, None, p, s)
     | Some i \<Rightarrow>
         (let p1 = p\<lparr>g_swtmrFreeList := pstNext (g_swtmrCBArray p i)\<rparr>;
              p2 = upd_swtmr i (\<lambda>c. c\<lparr>pfnHandler := handler, ucMode := mode, uwInterval := interval,
                     pstNext := None, swtmr_uwArg := uwarg, ucState := OS_SWTMR_STATUS_CREATED,
                     ucOverrun := 0\<rparr>) p1
          in (LOS_OK, Some (usTimerID (g_swtmrCBArray p2 i)), p2,
              SET_SORTLIST_VALUE (SwtmrNode i) OS_SORT_LINK_INVALID_TIME s)))"

definition LOS_SwtmrStart :: "u32 \<Rightarrow> swtmr_state \<times> sched \<Rightarrow> u32 \<times> swtmr_state \<times> sched" where
  "LOS_SwtmrStart swtmrId = (\<lambda>(p, s).
     if swtmrId \<ge> OS_SWTMR_MAX_TIMERID then (LOS_ERRNO_SWTMR_ID_INVALID, p, s)
     else
       (let i = OS_SWT_FROM_SID swtmrId; c = g_swtmrCBArray p i;
            start = (\<lambda>(p, s).
              let (now, s1) = OsGetCurrSchedTimeCycle s
              in (LOS_OK, OsSwtmrStart now i (upd_swtmr i (\<lambda>c. c\<lparr>swtmr_startTime := now\<rparr>) p, s1)))
        in if usTimerID c \<noteq> swtmrId then (LOS_ERRNO_SWTMR_NOT_CREATED, p, s)
           else if ucState c = OS_SWTMR_STATUS_UNUSED then (LOS_ERRNO_SWTMR_NOT_CREATED, p, s)
           else if ucState c = OS_SWTMR_STATUS_TICKING then start (OsSwtmrStop i (p, s))
           else if ucState c = OS_SWTMR_STATUS_CREATED then start (p, s)
           else (LOS_ERRNO_SWTMR_STATUS_INVALID, p, s)))"

definition LOS_SwtmrStop :: "u32 \<Rightarrow> swtmr_state \<times> sched \<Rightarrow> u32 \<times> swtmr_state \<times> sched" where
  "LOS_SwtmrStop swtmrId = (\<lambda>(p, s).
     if swtmrId \<ge> OS_SWTMR_MAX_TIMERID then (LOS_ERRNO_SWTMR_ID_INVALID, p, s)
     else
       (let i = OS_SWT_FROM_SID swtmrId; c = g_swtmrCBArray p i
        in if usTimerID c \<noteq> swtmrId then (LOS_ERRNO_SWTMR_NOT_CREATED, p, s)
           else if ucState c = OS_SWTMR_STATUS_UNUSED then (LOS_ERRNO_SWTMR_NOT_CREATED, p, s)
           else if ucState c = OS_SWTMR_STATUS_CREATED then (LOS_ERRNO_SWTMR_NOT_STARTED, p, s)
           else if ucState c = OS_SWTMR_STATUS_TICKING then (LOS_OK, OsSwtmrStop i (p, s))
           else (LOS_ERRNO_SWTMR_STATUS_INVALID, p, s)))"

text \<open>\<open>tickp\<close> says the pointer is not NULL; the ticks written are the second result.\<close>

definition LOS_SwtmrTimeGet :: "u32 \<Rightarrow> bool \<Rightarrow> swtmr_state \<times> sched
    \<Rightarrow> u32 \<times> u32 option \<times> swtmr_state \<times> sched" where
  "LOS_SwtmrTimeGet swtmrId tickp = (\<lambda>(p, s).
     if swtmrId \<ge> OS_SWTMR_MAX_TIMERID then (LOS_ERRNO_SWTMR_ID_INVALID, None, p, s)
     else if \<not> tickp then (LOS_ERRNO_SWTMR_TICK_PTR_NULL, None, p, s)
     else
       (let i = OS_SWT_FROM_SID swtmrId; c = g_swtmrCBArray p i
        in if usTimerID c \<noteq> swtmrId then (LOS_ERRNO_SWTMR_NOT_CREATED, None, p, s)
           else if ucState c = OS_SWTMR_STATUS_UNUSED then (LOS_ERRNO_SWTMR_NOT_CREATED, None, p, s)
           else if ucState c = OS_SWTMR_STATUS_CREATED then (LOS_ERRNO_SWTMR_NOT_STARTED, None, p, s)
           else if ucState c = OS_SWTMR_STATUS_TICKING
           then (let (t, s1) = OsSwtmrTimeGet i s in (LOS_OK, Some t, p, s1))
           else (LOS_ERRNO_SWTMR_STATUS_INVALID, None, p, s)))"

definition LOS_SwtmrDelete :: "u32 \<Rightarrow> swtmr_state \<times> sched \<Rightarrow> u32 \<times> swtmr_state \<times> sched" where
  "LOS_SwtmrDelete swtmrId = (\<lambda>(p, s).
     if swtmrId \<ge> OS_SWTMR_MAX_TIMERID then (LOS_ERRNO_SWTMR_ID_INVALID, p, s)
     else
       (let i = OS_SWT_FROM_SID swtmrId; c = g_swtmrCBArray p i
        in if usTimerID c \<noteq> swtmrId then (LOS_ERRNO_SWTMR_NOT_CREATED, p, s)
           else if ucState c = OS_SWTMR_STATUS_UNUSED then (LOS_ERRNO_SWTMR_NOT_CREATED, p, s)
           else if ucState c = OS_SWTMR_STATUS_TICKING
           then (let (p1, s1) = OsSwtmrStop i (p, s) in (LOS_OK, OsSwtmrDelete i p1, s1))
           else if ucState c = OS_SWTMR_STATUS_CREATED then (LOS_OK, OsSwtmrDelete i p, s)
           else (LOS_ERRNO_SWTMR_STATUS_INVALID, p, s)))"

section \<open>The timer task\<close>

text \<open>
  One turn of the loop of \<open>OsSwtmrTask\<close>, in two parts: the read, which may sleep, and what is
  done with its result. \<open>call\<close> is the program's handler, an argument with the handler's
  address and argument; the first result says the warning for a slow handler is printed.
\<close>

definition OsSwtmrTask_handle :: "(u32 \<Rightarrow> u32 \<Rightarrow> swtmr_all \<Rightarrow> swtmr_all) \<Rightarrow> u32 \<Rightarrow> (nat \<Rightarrow> u8) \<Rightarrow> u32
    \<Rightarrow> swtmr_all \<Rightarrow> bool \<times> swtmr_all" where
  "OsSwtmrTask_handle call ret buf readSize = (\<lambda>(p, q, s).
     if ret = LOS_OK \<and> readSize = sizeof_SwtmrHandlerItem
     then
       (let it = bytes_item buf
        in if item_handler it = 0 \<or> item_swtmrID it \<ge> OS_SWTMR_MAX_TIMERID then (False, p, q, s)
           else
             (let i = OS_SWT_FROM_SID (item_swtmrID it)
              in if usTimerID (g_swtmrCBArray p i) \<noteq> item_swtmrID it then (False, p, q, s)
                 else
                   (let p1 = (if ucMode (g_swtmrCBArray p i) = LOS_SWTMR_MODE_ONCE
                              then OsSwtmrDelete i p else p);
                        (tick, k1) = LOS_TickCountGet (tk s);
                        (p2, q2, s2) = call (item_handler it) (item_arg it) (p1, q, s\<lparr>tk := k1\<rparr>);
                        (tick', k2) = LOS_TickCountGet (tk s2)
                    in (tick' - tick \<ge> SWTMR_MAX_RUNNING_TICKS, p2, q2, s2\<lparr>tk := k2\<rparr>))))
     else (False, p, q, s))"

definition OsSwtmrTask_read :: "swtmr_all \<Rightarrow> pend_result \<times> (nat \<Rightarrow> u8) \<times> u32 \<times> swtmr_all" where
  "OsSwtmrTask_read = (\<lambda>(p, q, s).
     (let (r, buf, readSize, q1, s1) = LOS_QueueReadCopy (g_swtmrHandlerQueue p) (Some (\<lambda>_. 0))
            (Some sizeof_SwtmrHandlerItem) LOS_WAIT_FOREVER (q, s)
      in (r, buf, readSize, p, q1, s1)))"

text \<open>The identifier of the task is written to \<open>g_swtmrTaskID\<close>.\<close>

definition OsSwtmrTaskCreate :: "'h allocator \<Rightarrow> 'h \<times> sched \<Rightarrow> u32 \<times> 'h \<times> sched" where
  "OsSwtmrTaskCreate al hs =
     (let prm = \<lparr>pfnTaskEntry = Some OsSwtmrTask, usTaskPrio = 0, uwArg = 0, stackAddr = 0,
                 uwStackSize = LOSCFG_BASE_CORE_TSK_SWTMR_STACK_SIZE, pcName = Some ''Swt_Task'',
                 uwResved = 0\<rparr>
      in case LOS_TaskCreate al True (Some prm) hs of
           (ret, None, hs1) \<Rightarrow> (ret, hs1)
         | (ret, Some tid, h1, s1) \<Rightarrow>
             (let s2 = s1\<lparr>g_swtmrTaskID := tid\<rparr>
              in (ret, h1, status_set (OS_TCB_FROM_TID (g_swtmrTaskID s2)) (flag SYSTEM_TASK) s2)))"

section \<open>Initialisation\<close>

definition sizeof_SWTMR_CTRL_S :: u32 where "sizeof_SWTMR_CTRL_S = 48"

text \<open>
  The heap has two views: aligned allocation for the stacks and plain allocation for the rest.
  On an error the block that is freed is where \<open>swtmr\<close> points after the loop.
\<close>

definition OsSwtmrInit :: "'h allocator \<Rightarrow> 'h heap_ops \<Rightarrow> swtmr_state \<times> queue_state \<times> 'h \<times> sched
    \<Rightarrow> u32 \<times> swtmr_state \<times> queue_state \<times> 'h \<times> sched" where
  "OsSwtmrInit al ho = (\<lambda>(p, q, h, s).
     (let sz = sizeof_SWTMR_CTRL_S * LOSCFG_BASE_CORE_SWTMR_LIMIT;
          (base, h1) = heap_alloc ho h sz
      in if base = 0 then (LOS_ERRNO_SWTMR_NO_MEMORY, p, q, h1, s)
         else
           (let p1 = p\<lparr>g_swtmrCBArray := (\<lambda>_. zero_swtmr), g_swtmrFreeList := Some 0\<rparr>;
                p2 = fold (\<lambda>index p. upd_swtmr (index - 1) (\<lambda>c. c\<lparr>pstNext := Some index\<rparr>)
                             (upd_swtmr index (\<lambda>c. c\<lparr>usTimerID := of_nat index\<rparr>) p))
                       [1..<unat LOSCFG_BASE_CORE_SWTMR_LIMIT] p1;
                swtmr = base + sz;
                (ret, qid, q3, h3, s3) = LOS_QueueCreate ho None OS_SWTMR_HANDLE_QUEUE_SIZE True 0
                   (ucast sizeof_SwtmrHandlerItem) (q, h1, s);
                p3 = (case qid of None \<Rightarrow> p2 | Some w \<Rightarrow> p2\<lparr>g_swtmrHandlerQueue := w\<rparr>)
            in if ret \<noteq> LOS_OK
               then (LOS_ERRNO_SWTMR_QUEUE_CREATE_FAILED, p3, q3, snd (heap_free ho h3 swtmr), s3)
               else
                 (let (ret, h4, s4) = OsSwtmrTaskCreate al (h3, s3)
                  in if ret \<noteq> LOS_OK
                     then (LOS_ERRNO_SWTMR_TASK_CREATE_FAILED, p3, q3, snd (heap_free ho h4 swtmr), s4)
                     else
                       (let (ret, s5) = OsSortLinkInit OS_SORT_LINK_SWTMR s4
                        in if ret \<noteq> LOS_OK then (LOS_NOK, p3, q3, snd (heap_free ho h4 swtmr), s5)
                           else
                             (let (ret, s6) = OsSchedSwtmrScanRegister True s5
                              in if ret \<noteq> LOS_OK
                                 then (LOS_NOK, p3, q3, snd (heap_free ho h4 swtmr), s6)
                                 else (LOS_OK, p3, q3, h4, s6)))))))"

lemmas swtmr_config = LOSCFG_BASE_CORE_SWTMR_LIMIT_def OS_SWTMR_MAX_TIMERID_def
  OS_SWTMR_STATUS_UNUSED_def OS_SWTMR_STATUS_CREATED_def OS_SWTMR_STATUS_TICKING_def
  LOS_SWTMR_MODE_ONCE_def LOS_SWTMR_MODE_PERIOD_def LOS_SWTMR_MODE_NO_SELFDELETE_def

end
