(* ===== verification/Los_SwtmrProps.thy ===== *)
theory Los_SwtmrProps
  imports Los_Swtmr
begin

text \<open>
  What the software timers promise: starting arms a timer at the current time plus its interval,
  the scan of the tick fires every timer that is due and re-arms a periodic one without drift,
  stopping and deleting disarm it, a deleted identifier stays invalid; and the two places
  where the code does not keep its contract, a one-shot timer restarted before its handler ran
  and the rebasing at the start of the scheduler.
\<close>

section \<open>What the other parts of the kernel leave alone\<close>

text \<open>The timers' share of the scheduler's state: the list, the due times, the clock.\<close>

definition timers :: "sched \<Rightarrow> sortnode list \<times> (nat \<Rightarrow> u64) \<times> u32" where
  "timers s = (g_swtmrSortLink s, \<lambda>i. responseTime s (SwtmrNode i), g_sysClock (tk s))"

abbreviation due_at :: "sched \<Rightarrow> nat \<Rightarrow> u64" where
  "due_at s i \<equiv> responseTime s (SwtmrNode i)"

definition only_timers :: "sched \<Rightarrow> bool" where
  "only_timers s \<longleftrightarrow> set (g_swtmrSortLink s) \<subseteq> range SwtmrNode"

lemma timersD:
  assumes "timers s' = timers s"
  shows "g_swtmrSortLink s' = g_swtmrSortLink s" "due_at s' i = due_at s i"
    "g_sysClock (tk s') = g_sysClock (tk s)"
proof -
  show "g_swtmrSortLink s' = g_swtmrSortLink s" "g_sysClock (tk s') = g_sysClock (tk s)"
    using assms by (simp_all add: timers_def)
  have "(\<lambda>i. due_at s' i) = (\<lambda>i. due_at s i)" using assms by (simp add: timers_def)
  then show "due_at s' i = due_at s i" by (rule fun_cong)
qed

lemma timers_only: "timers s' = timers s \<Longrightarrow> only_timers s' = only_timers s"
  using timersD(1) [of s' s] by (simp add: only_timers_def)

lemma getCycle_clock [simp]: "g_sysClock (snd (getCycle k)) = g_sysClock k"
  by (simp add: getCycle_def split: option.split)

lemma tick_assert_clock [simp]: "g_sysClock (tick_assert c k) = g_sysClock k"
  by (simp add: tick_assert_def)

lemma SysCycleGet_sysClock [simp]: "g_sysClock (snd (LOS_SysCycleGet k)) = g_sysClock k"
  by (simp add: LOS_SysCycleGet_def Let_def case_prod_beta if_distrib [of snd])

lemma TickTimerReload_clock [simp]: "g_sysClock (snd (OsTickTimerReload p k)) = g_sysClock k"
  by (simp add: OsTickTimerReload_def reload_def Let_def case_prod_beta split: option.split)

lemma timers_tk: "g_sysClock k = g_sysClock (tk s) \<Longrightarrow> timers (s\<lparr>tk := k\<rparr>) = timers s"
  by (simp add: timers_def)

lemma timers_simple [simp]:
  "timers (upd_tcb t f s) = timers s" "timers (status_set t w s) = timers s"
  "timers (status_clr t w s) = timers s" "timers (sched_assert c s) = timers s"
  "timers (s\<lparr>lists := l\<rparr>) = timers s" "timers (upd_list l' f' s) = timers s"
  "timers (s\<lparr>g_queueBitmap := b\<rparr>) = timers s"
  "timers (s\<lparr>g_schedResponseTime := r\<rparr>) = timers s" "timers (s\<lparr>g_schedResponseID := w'\<rparr>) = timers s"
  "timers (s\<lparr>g_sysNeedSched := n\<rparr>) = timers s" "timers (s\<lparr>runTask := t\<rparr>) = timers s"
  "timers (s\<lparr>newTask := t\<rparr>) = timers s" "timers (s\<lparr>g_taskSortLink := xs\<rparr>) = timers s"
  "timers (SET_SORTLIST_VALUE (TaskNode t) v s) = timers s"
  by (simp_all add: timers_def status_defs upd_list_def SET_SORTLIST_VALUE_def sched_assert_def
      tick_assert_def)

lemma timers_cycle [simp]: "timers (snd (OsGetCurrSchedTimeCycle s)) = timers s"
  by (simp add: GetCurrSchedTimeCycle_eq timers_tk)

lemma timers_cycle_tk [simp]: "timers (s\<lparr>tk := snd (LOS_SysCycleGet (tk s))\<rparr>) = timers s"
  by (simp add: timers_tk)

lemma timers_SetNext [simp]: "timers (OsSchedSetNextExpireTime i e s) = timers s"
  by (simp add: OsSchedSetNextExpireTime_def GetCurrSchedTimeCycle_eq Let_def case_prod_beta timers_def)

lemma timers_UpdateExpire [simp]: "timers (OsSchedUpdateExpireTime s) = timers s"
  by (simp add: OsSchedUpdateExpireTime_def Let_def)

lemma timers_AddTask [simp]: "timers (OsAdd2SortLink (TaskNode t) a w OS_SORT_LINK_TASK s) = timers s"
  by (simp add: OsAdd2SortLink_def set_link_def Let_def split: option.split)

lemma timers_Reset [simp]: "timers (OsSchedResetSchedResponseTime t s) = timers s"
  by (simp add: OsSchedResetSchedResponseTime_def)

lemma timers_DeleteTaskNode [simp]:
  "only_timers s \<Longrightarrow> timers (OsDeleteNodeSortLink (TaskNode t) s) = timers s"
proof -
  assume "only_timers s"
  then have "removeAll (TaskNode t) (g_swtmrSortLink s) = g_swtmrSortLink s"
    by (intro removeAll_id) (auto simp: only_timers_def)
  then show ?thesis by (simp add: timers_def OsDeleteNodeSortLink_def SET_SORTLIST_VALUE_def)
qed

lemma timers_DeleteTask [simp]:
  "only_timers s \<Longrightarrow> timers (OsDeleteSortLink (TaskNode t) s) = timers s"
proof -
  assume o: "only_timers s"
  let ?s = "OsSchedResetSchedResponseTime (responseTime s (TaskNode t)) s"
  have "only_timers ?s" using o timers_only [OF timers_Reset] by simp
  then show ?thesis by (simp add: OsDeleteSortLink_def)
qed

lemma timers_EnQueue [simp]: "timers (OsSchedTaskEnQueue t s) = timers s"
  by (simp add: OsSchedTaskEnQueue_def Let_def OsSchedPriQueueEnHead_def OsSchedPriQueueEnTail_def
      ListAdd_def ListTailInsert_def)

lemma timers_DeQueue [simp]: "timers (OsSchedTaskDeQueue t s) = timers s"
  by (simp add: OsSchedTaskDeQueue_def Let_def OsSchedPriQueueDelete_def ListDelete_def)

lemma timers_Wake [simp]: "only_timers s \<Longrightarrow> timers (OsSchedTaskWake t s) = timers s"
proof -
  assume o: "only_timers s"
  let ?s1 = "status_clr t (flag PEND) (ListDelete t s)"
  have t1: "timers ?s1 = timers s" by (simp add: ListDelete_def)
  then have "only_timers ?s1" using o timers_only by blast
  with t1 show ?thesis by (simp add: OsSchedTaskWake_def Let_def)
qed

lemma timers_Wait [simp]: "timers (OsSchedTaskWait l n s) = timers s"
  by (simp add: OsSchedTaskWait_def Let_def ListTailInsert_def)

lemma timers_SliceUpdate [simp]: "timers (OsTimeSliceUpdate t c s) = timers s"
  by (simp add: OsTimeSliceUpdate_def Let_def)

lemma timers_Schedule [simp]: "timers (LOS_Schedule s) = timers s"
proof -
  have o: "timers (switch_out s) = timers s" for s
    by (simp add: switch_out_def GetCurrSchedTimeCycle_eq Let_def)
  have i: "timers (switch_in r s) = timers s" for r s by (simp add: switch_in_def Let_def)
  have "timers (ArchTaskSchedule s) = timers s"
    by (simp add: ArchTaskSchedule_def TaskSwitch_split Let_def case_prod_beta o i)
  then show ?thesis by (simp add: LOS_Schedule_def)
qed

text \<open>Posting to a queue without waiting.\<close>

lemma timers_WriteCopy [simp]:
  assumes o: "only_timers s"
  shows "timers (snd (snd (snd (snd (LOS_QueueWriteCopy qid buf n t (q, s)))))) = timers s"
proof -
  have fin: "timers (snd (snd (snd (snd (queue_finish i ty b0 n0 (p0, s)))))) = timers s"
    for i ty b0 n0 p0
    using o by (auto simp: queue_finish_def Let_def case_prod_beta split: list.splits)
  show ?thesis
    by (auto simp: LOS_QueueWriteCopy_def Let_def OsQueueOperate_def case_prod_beta fin
        split: option.splits)
qed

section \<open>Arming and disarming one timer\<close>

lemma upd_swtmr_sel [simp]:
  "g_swtmrCBArray (upd_swtmr i f p) = (g_swtmrCBArray p)(i := f (g_swtmrCBArray p i))"
  "g_swtmrFreeList (upd_swtmr i f p) = g_swtmrFreeList p"
  "g_swtmrHandlerQueue (upd_swtmr i f p) = g_swtmrHandlerQueue p"
  by (simp_all add: upd_swtmr_def)

abbreviation blk_of :: "swtmr_state \<Rightarrow> nat \<Rightarrow> SWTMR_CTRL_S" where
  "blk_of p i \<equiv> g_swtmrCBArray p i"

definition period :: "u32 \<Rightarrow> SWTMR_CTRL_S \<Rightarrow> u64" where
  "period clk c = OS_SYS_TICK_TO_CYCLE clk (uwInterval c)"

definition link_ok :: "sched \<Rightarrow> bool" where
  "link_ok s \<longleftrightarrow> only_timers s \<and> sorted_link (responseTime s) (g_swtmrSortLink s)
     \<and> distinct (g_swtmrSortLink s)"

abbreviation linked :: "sched \<Rightarrow> nat \<Rightarrow> bool" where
  "linked s i \<equiv> SwtmrNode i \<in> set (g_swtmrSortLink s)"

lemma link_ok_timers:
  assumes "timers s' = timers s"
  shows "link_ok s' = link_ok s"
proof -
  note d = timersD [OF assms]
  have "sorted_link (responseTime s') (g_swtmrSortLink s) = sorted_link (responseTime s) (g_swtmrSortLink s)"
    if "only_timers s"
    using that d(2) by (intro sorted_link_cong) (auto simp: only_timers_def)
  then show ?thesis using timers_only [OF assms] d(1) by (auto simp: link_ok_def)
qed

lemma timers_Delete:
  "timers (OsDeleteNodeSortLink (SwtmrNode i) s) =
     (removeAll (SwtmrNode i) (g_swtmrSortLink s), (due_at s)(i := OS_SORT_LINK_INVALID_TIME),
      g_sysClock (tk s))"
  by (auto simp: timers_def OsDeleteNodeSortLink_def SET_SORTLIST_VALUE_def)

lemma Delete_effect:
  assumes "link_ok s" "s' = OsDeleteNodeSortLink (SwtmrNode i) s"
  shows "link_ok s'" "g_swtmrSortLink s' = removeAll (SwtmrNode i) (g_swtmrSortLink s)"
    "linked s' j \<longleftrightarrow> j \<noteq> i \<and> linked s j"
    "due_at s' j = (if j = i then OS_SORT_LINK_INVALID_TIME else due_at s j)"
    "g_sysClock (tk s') = g_sysClock (tk s)"
proof -
  show l: "g_swtmrSortLink s' = removeAll (SwtmrNode i) (g_swtmrSortLink s)"
    and "g_sysClock (tk s') = g_sysClock (tk s)"
    and "due_at s' j = (if j = i then OS_SORT_LINK_INVALID_TIME else due_at s j)"
    by (simp_all add: assms(2) OsDeleteNodeSortLink_def SET_SORTLIST_VALUE_def)
  show "linked s' j \<longleftrightarrow> j \<noteq> i \<and> linked s j" by (auto simp: l)
  have "sorted_link (responseTime s') (removeAll (SwtmrNode i) (g_swtmrSortLink s))
      = sorted_link (responseTime s) (removeAll (SwtmrNode i) (g_swtmrSortLink s))"
    by (intro sorted_link_cong)
      (auto simp: assms(2) OsDeleteNodeSortLink_def SET_SORTLIST_VALUE_def)
  then show "link_ok s'"
    using assms(1) by (auto simp: link_ok_def only_timers_def l distinct_removeAll)
qed

lemma Start_effect:
  assumes ok: "link_ok s" and n: "\<not> linked s i" and e: "OsSwtmrStart cur i (p, s) = (p', s')"
  shows "p' = upd_swtmr i (\<lambda>c. c\<lparr>ucState := OS_SWTMR_STATUS_TICKING\<rparr>) p"
    "link_ok s'" "linked s' j \<longleftrightarrow> j = i \<or> linked s j"
    "due_at s' j = (if j = i then swtmr_startTime (blk_of p i) + period (g_sysClock (tk s)) (blk_of p i)
                    else due_at s j)"
    "g_sysClock (tk s') = g_sysClock (tk s)"
proof -
  let ?d = "swtmr_startTime (blk_of p i) + period (g_sysClock (tk s)) (blk_of p i)"
  let ?s1 = "SET_SORTLIST_VALUE (SwtmrNode i) ?d s"
  have srt: "sorted_link (responseTime ?s1) (g_swtmrSortLink s)"
  proof -
    have "sorted_link (responseTime ?s1) (g_swtmrSortLink s) = sorted_link (responseTime s) (g_swtmrSortLink s)"
      using n by (intro sorted_link_cong) (auto simp: SET_SORTLIST_VALUE_def)
    then show ?thesis using ok by (simp add: link_ok_def)
  qed
  obtain ys where ys: "OsAddNode2SortLink (responseTime ?s1) (SwtmrNode i) (g_swtmrSortLink s) = Some ys"
    "sorted_link (responseTime ?s1) ys" "set ys = insert (SwtmrNode i) (set (g_swtmrSortLink s))"
    "distinct ys \<longleftrightarrow> distinct (SwtmrNode i # g_swtmrSortLink s)"
    using AddNode_sorted [OF srt, of "SwtmrNode i"] by blast
  let ?s2 = "?s1\<lparr>g_swtmrSortLink := ys\<rparr>"
  have s': "s' = OsSchedUpdateExpireTime ?s2"
    and p': "p' = upd_swtmr i (\<lambda>c. c\<lparr>ucState := OS_SWTMR_STATUS_TICKING\<rparr>) p"
    using e ys(1) by (simp_all add: OsSwtmrStart_def Let_def OsAdd2SortLink_def link_of_def set_link_def
        period_def SET_SORTLIST_VALUE_def)
  note t = timersD [OF timers_UpdateExpire, of ?s2, folded s']
  show "p' = upd_swtmr i (\<lambda>c. c\<lparr>ucState := OS_SWTMR_STATUS_TICKING\<rparr>) p" by (rule p')
  show "linked s' j \<longleftrightarrow> j = i \<or> linked s j" using t(1) ys(3) by simp
  show "due_at s' j = (if j = i then ?d else due_at s j)"
    using t(2) by (simp add: SET_SORTLIST_VALUE_def)
  show "g_sysClock (tk s') = g_sysClock (tk s)" using t(3) by (simp add: SET_SORTLIST_VALUE_def)
  have "link_ok ?s2"
    using ok n ys by (auto simp: link_ok_def only_timers_def SET_SORTLIST_VALUE_def)
  then show "link_ok s'" using link_ok_timers [OF timers_UpdateExpire, of ?s2] s' by simp
qed

section \<open>The scan\<close>

lemma unat_less_2p64: "unat (w :: u64) < 2 ^ 64"
  using unsigned_less [of w] by simp

lemma period_bound: "unat (period clk c) < 2 ^ 58"
proof -
  have "unat (period clk c) = unat ((ucast (uwInterval c) * ucast clk :: u64)) div 100"
    by (simp add: period_def OS_SYS_TICK_TO_CYCLE_def tick_config unat_div)
  moreover have "unat (ucast (uwInterval c) * ucast clk :: u64) < 2 ^ 64" by (rule unat_less_2p64)
  ultimately show ?thesis by simp
qed

text \<open>
  What the scan at time \<open>ct\<close> makes of one timer: its block, whether it is running, and when
  it is due. A periodic timer is re-armed to the first due time after \<open>ct\<close> that is a
  whole number of periods behind the one that passed.
\<close>

definition periods :: "nat \<Rightarrow> nat \<Rightarrow> nat \<Rightarrow> nat" where
  "periods ct c r = (if r \<le> ct then (ct - r) div c + 1 else 0)"

definition timer_after :: "u64 \<Rightarrow> u32 \<Rightarrow> SWTMR_CTRL_S \<times> bool \<times> u64 \<Rightarrow> SWTMR_CTRL_S \<times> bool \<times> u64" where
  "timer_after ct clk = (\<lambda>(c, running, d).
     if \<not> running \<or> d > ct then (c, running, d)
     else if ucMode c = LOS_SWTMR_MODE_PERIOD
     then (let k = periods (unat ct) (unat (period clk c)) (unat d)
           in (c\<lparr>ucState := OS_SWTMR_STATUS_TICKING, ucOverrun := ucOverrun c + of_nat k,
                 swtmr_startTime := d + of_nat (k - 1) * period clk c\<rparr>, True,
               d + of_nat k * period clk c))
     else (c\<lparr>ucState := (if ucMode c = LOS_SWTMR_MODE_NO_SELFDELETE then OS_SWTMR_STATUS_CREATED
                         else ucState c), swtmr_startTime := d\<rparr>, False,
           OS_SORT_LINK_INVALID_TIME))"

abbreviation timer_view :: "swtmr_state \<Rightarrow> sched \<Rightarrow> nat \<Rightarrow> SWTMR_CTRL_S \<times> bool \<times> u64" where
  "timer_view p s i \<equiv> (blk_of p i, linked s i, due_at s i)"

lemma periods_step:
  assumes "r \<le> ct" "0 < c"
  shows "periods ct c r = Suc (periods ct c (r + c))"
proof (cases "r + c \<le> ct")
  case True
  then have "(ct - r) div c = (ct - (r + c)) div c + 1"
    using assms div_add_self2 [of c "ct - (r + c)"] by simp
  then show ?thesis using True assms by (simp add: periods_def)
next
  case False
  then have "(ct - r) div c = 0" using assms by simp
  then show ?thesis using False assms by (simp add: periods_def)
qed

text \<open>One firing.\<close>

definition fire_view :: "u32 \<Rightarrow> SWTMR_CTRL_S \<Rightarrow> u64 \<Rightarrow> SWTMR_CTRL_S \<times> bool \<times> u64" where
  "fire_view clk c d =
     (if ucMode c = LOS_SWTMR_MODE_PERIOD
      then (c\<lparr>ucState := OS_SWTMR_STATUS_TICKING, ucOverrun := ucOverrun c + 1,
              swtmr_startTime := d\<rparr>, True, d + period clk c)
      else (c\<lparr>ucState := (if ucMode c = LOS_SWTMR_MODE_NO_SELFDELETE then OS_SWTMR_STATUS_CREATED
                          else ucState c), swtmr_startTime := d\<rparr>, False,
            OS_SORT_LINK_INVALID_TIME))"

lemma fire_effect:
  assumes ok: "link_ok s" and l: "linked s i" and e: "scan_fire ct i (p, q, s) = (p1, q1, s1)"
  shows "link_ok s1" "g_sysClock (tk s1) = g_sysClock (tk s)"
    "timer_view p1 s1 j = (if j \<noteq> i then timer_view p s j
                           else fire_view (g_sysClock (tk s)) (blk_of p i) (due_at s i))"
    "g_swtmrFreeList p1 = g_swtmrFreeList p"
proof -
  let ?c = "blk_of p i" and ?p0 = "upd_swtmr i (\<lambda>c. c\<lparr>swtmr_startTime := due_at s i\<rparr>) p"
  let ?s0 = "OsDeleteNodeSortLink (SwtmrNode i) s"
  note D = Delete_effect [OF ok refl, of i]
  let ?it = "\<lparr>item_handler = pfnHandler ?c, item_arg = swtmr_uwArg ?c, item_swtmrID = usTimerID ?c\<rparr>"
  obtain r b n q2 s2 where w: "LOS_QueueWriteCopy (g_swtmrHandlerQueue p) (Some (item_bytes ?it))
      sizeof_SwtmrHandlerItem LOS_NO_WAIT (q, ?s0) = (r, b, n, q2, s2)" by (metis prod_cases5)
  have "only_timers ?s0" using D(1) by (simp add: link_ok_def)
  from timers_WriteCopy [OF this, of "g_swtmrHandlerQueue p" "Some (item_bytes ?it)"
      sizeof_SwtmrHandlerItem LOS_NO_WAIT q] w
  have t: "timers s2 = timers ?s0" by simp
  note T = timersD [OF t]
  have ok2: "link_ok s2" using D(1) link_ok_timers [OF t] by simp
  have n2: "\<not> linked s2 i" using T(1) D(3) by simp
  have "link_ok s1 \<and> g_sysClock (tk s1) = g_sysClock (tk s)
      \<and> timer_view p1 s1 j = (if j \<noteq> i then timer_view p s j
          else fire_view (g_sysClock (tk s)) (blk_of p i) (due_at s i))
      \<and> g_swtmrFreeList p1 = g_swtmrFreeList p"
  proof (cases "ucMode ?c = LOS_SWTMR_MODE_PERIOD")
    case True
    let ?p2 = "upd_swtmr i (\<lambda>c. c\<lparr>ucOverrun := ucOverrun c + 1\<rparr>) ?p0"
    obtain p3 s3 where st: "OsSwtmrStart ct i (?p2, s2) = (p3, s3)" by fastforce
    have r: "p1 = p3" "s1 = s3"
      using e True w st by (simp_all add: scan_fire_def OsSwtmrTimeoutHandle_def Let_def)
    note S = Start_effect [OF ok2 n2 st]
    show ?thesis using S(2-5) True T D by (simp add: r S(1) period_def fire_view_def)
  next
    case False
    have r: "s1 = s2" "p1 = (if ucMode ?c = LOS_SWTMR_MODE_NO_SELFDELETE
        then upd_swtmr i (\<lambda>c. c\<lparr>ucState := OS_SWTMR_STATUS_CREATED\<rparr>) ?p0 else ?p0)"
      using e False w by (auto simp add: scan_fire_def OsSwtmrTimeoutHandle_def Let_def split: if_splits)
    show ?thesis using False T D ok2 by (simp add: r fire_view_def)
  qed
  then show "link_ok s1" "g_sysClock (tk s1) = g_sysClock (tk s)"
    "timer_view p1 s1 j = (if j \<noteq> i then timer_view p s j
                           else fire_view (g_sysClock (tk s)) (blk_of p i) (due_at s i))"
    "g_swtmrFreeList p1 = g_swtmrFreeList p" by simp_all
qed

text \<open>A firing followed by the rest of the scan is the scan.\<close>

lemma due_step:
  assumes "unat ct < 2 ^ 63" "d \<le> ct"
  shows "unat (d + period clk c) = unat d + unat (period clk c)"
proof -
  have "unat d + unat (period clk c) < 2 ^ 64"
    using assms period_bound [of clk c] by (simp add: word_le_nat_alt)
  then show ?thesis by (intro unat_add_lem [THEN iffD1]) simp
qed

lemma timer_after_fire:
  assumes b: "unat ct < 2 ^ 63" and d: "d \<le> ct" and c: "0 < unat (period clk c)"
  shows "timer_after ct clk (fire_view clk c d) = timer_after ct clk (c, True, d)"
proof (cases "ucMode c = LOS_SWTMR_MODE_PERIOD")
  case False
  then show ?thesis using d by (simp add: fire_view_def timer_after_def)
next
  case True
  let ?per = "period clk c" and ?d = "d + period clk c"
  let ?k = "periods (unat ct) (unat ?per) (unat d)" and ?k' = "periods (unat ct) (unat ?per) (unat ?d)"
  have k: "?k = Suc ?k'"
    using periods_step [of "unat d" "unat ct" "unat ?per"] d c due_step [OF b d]
    by (simp add: word_le_nat_alt)
  have per: "period clk (c\<lparr>ucState := x, ucOverrun := y, swtmr_startTime := z\<rparr>) = ?per" for x y z
    by (simp add: period_def)
  show ?thesis
  proof (cases "?d > ct")
    case late: True
    then have "?k' = 0" by (simp add: periods_def word_less_nat_alt)
    then show ?thesis using True d [THEN leD] late k by (simp add: fire_view_def timer_after_def per Let_def)
  next
    case False
    then have "?k' \<noteq> 0" by (simp add: periods_def word_less_nat_alt word_le_nat_alt)
    then obtain n where n: "?k' = Suc n" by (metis not0_implies_Suc)
    show ?thesis using True d [THEN leD] False k n
      by (simp add: fire_view_def timer_after_def per Let_def algebra_simps)
  qed
qed

lemma timer_after_fixed: "\<not> running \<or> d > ct \<Longrightarrow> timer_after ct clk (c, running, d) = (c, running, d)"
  by (auto simp: timer_after_def)

text \<open>
  The measure of the loop: over the running timers, how far each is behind \<open>ct\<close>. A firing
  lowers it, as the timer leaves the list or is due at least one cycle later.
\<close>

definition lag :: "nat \<Rightarrow> sched \<Rightarrow> nat" where
  "lag ct s = (\<Sum>i | linked s i. Suc ct - unat (due_at s i))"

lemma finite_linked: "finite {i. linked s i}"
proof -
  have "{i. linked s i} = SwtmrNode -` set (g_swtmrSortLink s)" by auto
  then show ?thesis by (simp add: finite_vimageI inj_on_def)
qed

lemma lag_fire:
  assumes ok: "link_ok s" and l: "linked s i" and e: "scan_fire ct i (p, q, s) = (p1, q1, s1)"
    and b: "unat ct < 2 ^ 63" and d: "due_at s i \<le> ct"
    and c: "0 < unat (period (g_sysClock (tk s)) (blk_of p i))"
  shows "lag (unat ct) s1 < lag (unat ct) s"
proof -
  note F = fire_effect [OF ok l e]
  let ?J = "{j. linked s j}" and ?J1 = "{j. linked s1 j}"
  let ?f = "\<lambda>j. Suc (unat ct) - unat (due_at s j)" and ?f1 = "\<lambda>j. Suc (unat ct) - unat (due_at s1 j)"
  have o: "linked s1 j = linked s j \<and> due_at s1 j = due_at s j" if "j \<noteq> i" for j
    using F(3) [of j] that by simp
  have rest: "sum ?f1 (?J1 - {i}) = sum ?f (?J - {i})"
    by (rule sum.cong) (use o in auto)
  have s: "sum ?f ?J = ?f i + sum ?f (?J - {i})" using l finite_linked by (simp add: sum.remove)
  have f: "0 < ?f i" using d by (simp add: word_le_nat_alt)
  show ?thesis
  proof (cases "ucMode (blk_of p i) = LOS_SWTMR_MODE_PERIOD")
    case True
    then have "linked s1 i" "due_at s1 i = due_at s i + period (g_sysClock (tk s)) (blk_of p i)"
      using F(3) [of i] by (simp_all add: fire_view_def)
    then have "sum ?f1 ?J1 = ?f1 i + sum ?f1 (?J1 - {i})" "?f1 i < ?f i"
      using finite_linked [of s1] due_step [OF b d] c f by (simp_all add: sum.remove)
    then show ?thesis using rest s by (simp add: lag_def)
  next
    case False
    then have "?J1 = ?J1 - {i}" using F(3) [of i] by (simp add: fire_view_def)
    then show ?thesis using rest s f by (simp add: lag_def)
  qed
qed

text \<open>What the loop needs: a list in order and periods that are not empty.\<close>

definition scannable :: "swtmr_state \<Rightarrow> sched \<Rightarrow> bool" where
  "scannable p s \<longleftrightarrow> link_ok s
     \<and> (\<forall>i. linked s i \<longrightarrow> 0 < unat (period (g_sysClock (tk s)) (blk_of p i)))"

lemma scan_loop:
  assumes "scannable p s" "unat ct < 2 ^ 63"
  shows "\<exists>p' q' s'. swtmr_scan ct (p, q, s) = Some (p', q', s') \<and> link_ok s'
    \<and> (\<forall>i. timer_view p' s' i = timer_after ct (g_sysClock (tk s)) (timer_view p s i))
    \<and> (\<forall>i. linked s' i \<longrightarrow> ct < due_at s' i) \<and> g_swtmrFreeList p' = g_swtmrFreeList p"
  using assms(1)
proof (induction "lag (unat ct) s" arbitrary: p q s rule: less_induct)
  case less
  have ok: "link_ok s" using less.prems by (simp add: scannable_def)
  have fin: ?case if "\<forall>i. linked s i \<longrightarrow> ct < due_at s i" "swtmr_scan ct (p, q, s) = Some (p, q, s)"
    using that ok by (auto simp: timer_after_fixed)
  show ?case
  proof (cases "g_swtmrSortLink s")
    case Nil
    then show ?thesis by (intro fin) (simp_all add: swtmr_scan.simps)
  next
    case (Cons n ns)
    then obtain i where n: "n = SwtmrNode i" using ok by (auto simp: link_ok_def only_timers_def)
    have l: "linked s i" using Cons n by simp
    show ?thesis
    proof (cases "due_at s i \<le> ct")
      case False
      have "ct < due_at s j" if "linked s j" for j
      proof -
        have "due_at s i \<le> due_at s j" using ok Cons n that by (auto simp: link_ok_def)
        then show ?thesis using False by simp
      qed
      moreover have "swtmr_scan ct (p, q, s) = Some (p, q, s)"
        using Cons n False by (simp add: swtmr_scan.simps)
      ultimately show ?thesis by (intro fin) simp_all
    next
      case True
      obtain p1 q1 s1 where e: "scan_fire ct i (p, q, s) = (p1, q1, s1)" by (metis prod_cases3)
      note F = fire_effect [OF ok l e]
      have c: "0 < unat (period (g_sysClock (tk s)) (blk_of p i))"
        using less.prems l by (simp add: scannable_def)
      have int: "uwInterval (blk_of p1 j) = uwInterval (blk_of p j)" for j
        using F(3) [of j] by (auto simp: fire_view_def split: if_splits)
      have "linked s1 j \<Longrightarrow> linked s j" for j using F(3) [of j] l by (auto split: if_splits)
      then have sc: "scannable p1 s1"
        using less.prems F(1,2) int by (simp add: scannable_def period_def)
      from less.hyps [OF lag_fire [OF ok l e assms(2) True c] sc, of q1]
      obtain p' q' s' where IH: "swtmr_scan ct (p1, q1, s1) = Some (p', q', s')" "link_ok s'"
        "\<And>j. timer_view p' s' j = timer_after ct (g_sysClock (tk s)) (timer_view p1 s1 j)"
        "\<And>j. linked s' j \<longrightarrow> ct < due_at s' j" "g_swtmrFreeList p' = g_swtmrFreeList p1"
        unfolding F(2) by blast
      have "timer_after ct (g_sysClock (tk s)) (timer_view p1 s1 j)
          = timer_after ct (g_sysClock (tk s)) (timer_view p s j)" for j
        using timer_after_fire [OF assms(2) True c] l by (simp add: F(3))
      moreover have "swtmr_scan ct (p, q, s) = Some (p', q', s')"
        using Cons n True e IH(1) by (simp add: swtmr_scan.simps)
      ultimately show ?thesis using IH(2-5) F(4) by (intro exI [of _ p'] exI [of _ q'] exI [of _ s']) simp
    qed
  qed
qed

section \<open>The pool of blocks and the invariant\<close>

text \<open>The free list is a chain through \<open>pstNext\<close>.\<close>

primrec free_chain :: "swtmr_state \<Rightarrow> nat option \<Rightarrow> nat list \<Rightarrow> bool" where
  "free_chain p first [] \<longleftrightarrow> first = None"
| "free_chain p first (x # xs) \<longleftrightarrow> first = Some x \<and> free_chain p (pstNext (blk_of p x)) xs"

fun walk_free :: "nat \<Rightarrow> swtmr_state \<Rightarrow> nat option \<Rightarrow> nat list" where
  "walk_free (Suc n) p (Some x) = x # walk_free n p (pstNext (blk_of p x))"
| "walk_free _ _ _ = []"

lemma free_chain_cong:
  "(\<And>x. x \<in> set xs \<Longrightarrow> pstNext (blk_of q x) = pstNext (blk_of p x)) \<Longrightarrow>
     free_chain q first xs = free_chain p first xs"
  by (induction xs arbitrary: first) auto

lemma walk_free_chain: "free_chain p first xs \<Longrightarrow> length xs \<le> n \<Longrightarrow> walk_free n p first = xs"
proof (induction xs arbitrary: first n)
  case Nil
  then show ?case by (cases n) auto
next
  case (Cons x xs)
  then show ?case by (cases n) auto
qed

definition swtmr_used :: "swtmr_state \<Rightarrow> nat \<Rightarrow> bool" where
  "swtmr_used p i \<longleftrightarrow> ucState (blk_of p i) \<noteq> OS_SWTMR_STATUS_UNUSED"

definition swtmr_cap :: "swtmr_state \<Rightarrow> nat" where
  "swtmr_cap p = unat LOSCFG_BASE_CORE_SWTMR_LIMIT"

definition swtmr_free :: "swtmr_state \<Rightarrow> nat list" where
  "swtmr_free p = walk_free (swtmr_cap p) p (g_swtmrFreeList p)"

lemma swtmr_cap_5 [simp]: "swtmr_cap p = 5"
  by (simp add: swtmr_cap_def LOSCFG_BASE_CORE_SWTMR_LIMIT_def)

definition chain_ok :: "swtmr_state \<Rightarrow> bool" where
  "chain_ok p \<longleftrightarrow> (\<exists>xs. free_chain p (g_swtmrFreeList p) xs \<and> distinct xs
     \<and> (\<forall>x\<in>set xs. x < 5 \<and> \<not> swtmr_used p x))"

lemma chain_okE:
  assumes "chain_ok p"
  obtains xs where "free_chain p (g_swtmrFreeList p) xs" "distinct xs" "swtmr_free p = xs"
    "\<forall>x\<in>set xs. x < 5 \<and> \<not> swtmr_used p x"
proof -
  obtain xs where c: "free_chain p (g_swtmrFreeList p) xs" "distinct xs" "\<forall>x\<in>set xs. x < 5 \<and> \<not> swtmr_used p x"
    using assms by (auto simp: chain_ok_def)
  have "card (set xs) \<le> card {..<5 :: nat}" by (intro card_mono) (use c(3) in auto)
  then have "length xs \<le> 5" using distinct_card [OF c(2)] by simp
  then show ?thesis using that c walk_free_chain [OF c(1)] by (simp add: swtmr_free_def)
qed

text \<open>Handing out the first block, and giving one back.\<close>

lemma chain_take:
  assumes "chain_ok p" "g_swtmrFreeList p = Some i"
    and "g_swtmrFreeList q = pstNext (blk_of p i)" "\<And>j. j \<noteq> i \<Longrightarrow> blk_of q j = blk_of p j"
  shows "chain_ok q" "swtmr_free p = i # swtmr_free q"
proof -
  obtain xs where x: "free_chain p (g_swtmrFreeList p) xs" "distinct xs" "swtmr_free p = xs"
    "\<forall>x\<in>set xs. x < 5 \<and> \<not> swtmr_used p x" using chain_okE [OF assms(1)] .
  then obtain ys where ys: "xs = i # ys" using assms(2) by (cases xs) auto
  have o: "blk_of q j = blk_of p j" if "j \<in> set ys" for j
    using that x(2) ys assms(4) [of j] by auto
  have "free_chain q (g_swtmrFreeList q) ys = free_chain p (g_swtmrFreeList q) ys"
    by (intro free_chain_cong) (simp add: o)
  then have c: "free_chain q (g_swtmrFreeList q) ys" using x(1) ys assms(3) by simp
  moreover have "\<forall>x\<in>set ys. x < 5 \<and> \<not> swtmr_used q x" using x ys o by (simp add: swtmr_used_def)
  ultimately show q: "chain_ok q" using x(2) ys by (auto simp: chain_ok_def)
  have "card (set ys) \<le> card {..<5 :: nat}" by (intro card_mono) (use x(4) ys in auto)
  then have "length ys \<le> 5" using distinct_card x(2) ys by fastforce
  then show "swtmr_free p = i # swtmr_free q"
    using x(3) ys walk_free_chain [OF c] by (simp add: swtmr_free_def)
qed

lemma chain_give:
  assumes "chain_ok p" "swtmr_used p i" "i < 5" "g_swtmrFreeList q = Some i"
    and "pstNext (blk_of q i) = g_swtmrFreeList p" "\<not> swtmr_used q i"
    and "\<And>j. j \<noteq> i \<Longrightarrow> blk_of q j = blk_of p j"
  shows "chain_ok q" "swtmr_free q = i # swtmr_free p"
proof -
  obtain xs where x: "free_chain p (g_swtmrFreeList p) xs" "distinct xs" "swtmr_free p = xs"
    "\<forall>x\<in>set xs. x < 5 \<and> \<not> swtmr_used p x" using chain_okE [OF assms(1)] .
  have i: "i \<notin> set xs" using x(4) assms(2) by auto
  have o: "blk_of q j = blk_of p j" if "j \<in> set xs" for j
    using that i assms(7) [of j] by auto
  have "free_chain q (g_swtmrFreeList p) xs = free_chain p (g_swtmrFreeList p) xs"
    by (intro free_chain_cong) (simp add: o)
  then have c: "free_chain q (g_swtmrFreeList q) (i # xs)" using x(1) assms(4,5) by simp
  moreover have u: "\<forall>x\<in>set (i # xs). x < 5 \<and> \<not> swtmr_used q x"
    using x(4) assms(3,6) o by (simp add: swtmr_used_def)
  ultimately show "chain_ok q" using x(2) i unfolding chain_ok_def by (intro exI [of _ "i # xs"]) simp
  have "card (set (i # xs)) \<le> card {..<5 :: nat}" by (intro card_mono) (use u in auto)
  then have "length (i # xs) \<le> 5" using distinct_card [of "i # xs"] x(2) i by simp
  then show "swtmr_free q = i # swtmr_free p" using x(3) walk_free_chain [OF c] by (simp add: swtmr_free_def)
qed

definition swtmr_take :: "nat \<Rightarrow> swtmr_state \<Rightarrow> swtmr_state \<Rightarrow> bool" where
  "swtmr_take i p q \<longleftrightarrow> chain_ok p \<and> g_swtmrFreeList p = Some i \<and>
     (\<exists>iv mode h a s w s'. LOS_SwtmrCreate iv mode h True a (p, s) = (LOS_OK, Some w, q, s'))"

definition swtmr_give :: "nat \<Rightarrow> swtmr_state \<Rightarrow> swtmr_state \<Rightarrow> bool" where
  "swtmr_give i p q \<longleftrightarrow> chain_ok p \<and> (\<exists>w s s'. OS_SWT_FROM_SID w = i
     \<and> LOS_SwtmrDelete w (p, s) = (LOS_OK, q, s'))"

lemma OS_SWT_FROM_SID_less: "OS_SWT_FROM_SID w < 5"
proof -
  have "w mod 5 < 5" by (rule word_mod_less_divisor) simp
  then show ?thesis by (simp add: OS_SWT_FROM_SID_def LOSCFG_BASE_CORE_SWTMR_LIMIT_def word_less_nat_alt)
qed

lemma swtmr_errno [simp]:
  "LOS_ERRNO_SWTMR_ID_INVALID \<noteq> LOS_OK" "LOS_ERRNO_SWTMR_NOT_CREATED \<noteq> LOS_OK"
  "LOS_ERRNO_SWTMR_STATUS_INVALID \<noteq> LOS_OK" "LOS_ERRNO_SWTMR_NOT_STARTED \<noteq> LOS_OK"
  "LOS_ERRNO_SWTMR_MAXSIZE \<noteq> LOS_OK"
  by (simp_all add: LOS_ERRNO_SWTMR_ID_INVALID_def LOS_ERRNO_SWTMR_NOT_CREATED_def
      LOS_ERRNO_SWTMR_STATUS_INVALID_def LOS_ERRNO_SWTMR_NOT_STARTED_def LOS_ERRNO_SWTMR_MAXSIZE_def)

lemma Create_result:
  assumes e: "LOS_SwtmrCreate iv mode h True a (p, s) = (LOS_OK, Some w, q, s')"
    and f: "g_swtmrFreeList p = Some i"
  shows "w = usTimerID (blk_of p i)" "s' = SET_SORTLIST_VALUE (SwtmrNode i) OS_SORT_LINK_INVALID_TIME s"
    "blk_of q j = (if j = i then (blk_of p i)\<lparr>pfnHandler := h, ucMode := mode, uwInterval := iv,
       pstNext := None, swtmr_uwArg := a, ucState := OS_SWTMR_STATUS_CREATED, ucOverrun := 0\<rparr>
       else blk_of p j)"
    "g_swtmrFreeList q = pstNext (blk_of p i)" "iv \<noteq> 0"
  using e f by (auto simp: LOS_SwtmrCreate_def upd_swtmr_def Let_def split: if_splits)

lemma Delete_result:
  assumes "LOS_SwtmrDelete w (p, s) = (LOS_OK, q, s')"
  shows "\<not> w \<ge> OS_SWTMR_MAX_TIMERID" "usTimerID (blk_of p (OS_SWT_FROM_SID w)) = w"
    "swtmr_used p (OS_SWT_FROM_SID w)"
    "q = OsSwtmrDelete (OS_SWT_FROM_SID w) (if ucState (blk_of p (OS_SWT_FROM_SID w)) = OS_SWTMR_STATUS_TICKING
       then fst (OsSwtmrStop (OS_SWT_FROM_SID w) (p, s)) else p)"
    "s' = (if ucState (blk_of p (OS_SWT_FROM_SID w)) = OS_SWTMR_STATUS_TICKING
       then snd (OsSwtmrStop (OS_SWT_FROM_SID w) (p, s)) else s)"
  using assms by (auto simp: LOS_SwtmrDelete_def Let_def swtmr_used_def case_prod_beta split: if_splits)

text \<open>The identifier a block gets when its timer is deleted.\<close>

definition next_id :: "u32 \<Rightarrow> u32" where
  "next_id w = (if w < OS_SWTMR_MAX_TIMERID - LOSCFG_BASE_CORE_SWTMR_LIMIT
                then w + LOSCFG_BASE_CORE_SWTMR_LIMIT else w mod LOSCFG_BASE_CORE_SWTMR_LIMIT)"

lemma OsSwtmrDelete_sel:
  "blk_of (OsSwtmrDelete i p) j = (if j = i
     then (blk_of p i)\<lparr>usTimerID := next_id (usTimerID (blk_of p i)),
          pstNext := g_swtmrFreeList p, ucState := OS_SWTMR_STATUS_UNUSED\<rparr> else blk_of p j)"
  "g_swtmrFreeList (OsSwtmrDelete i p) = Some i"
  by (simp_all add: OsSwtmrDelete_def upd_swtmr_def Let_def next_id_def)

interpretation swp: slot_pool swtmr_free swtmr_used swtmr_cap swtmr_take swtmr_give
proof unfold_locales
  fix i p q
  assume t: "swtmr_take i p q"
  then obtain iv mode h a s w s' where c: "chain_ok p" "g_swtmrFreeList p = Some i"
    "LOS_SwtmrCreate iv mode h True a (p, s) = (LOS_OK, Some w, q, s')" by (auto simp: swtmr_take_def)
  note R = Create_result [OF c(3,2)]
  show "swtmr_free p = i # swtmr_free q" using chain_take(2) [OF c(1,2) R(4)] R(3) by simp
  show "swtmr_used q j = (j = i \<or> swtmr_used p j)" for j
    by (auto simp: swtmr_used_def R(3) swtmr_config)
  show "swtmr_cap q = swtmr_cap p" by simp
next
  fix i p q
  assume t: "swtmr_give i p q"
  then obtain w s s' where c: "chain_ok p" "OS_SWT_FROM_SID w = i"
    "LOS_SwtmrDelete w (p, s) = (LOS_OK, q, s')" by (auto simp: swtmr_give_def)
  note R = Delete_result [OF c(3), unfolded c(2)]
  have i: "i < 5" using c(2) OS_SWT_FROM_SID_less by blast
  have q: "g_swtmrFreeList q = Some i" "pstNext (blk_of q i) = g_swtmrFreeList p" "\<not> swtmr_used q i"
    "j \<noteq> i \<Longrightarrow> blk_of q j = blk_of p j" for j
    by (simp_all add: R(4) OsSwtmrDelete_sel swtmr_used_def OsSwtmrStop_def)
  show "swtmr_free q = i # swtmr_free p" using chain_give(2) [OF c(1) R(3) i q(1-3)] q(4) by simp
  show "swtmr_used p i \<and> i < swtmr_cap p \<and> swtmr_used q j = (j \<noteq> i \<and> swtmr_used p j)" for j
    using R(3) i q(3) q(4) [of j] by (cases "j = i") (simp_all add: swtmr_used_def)
  show "swtmr_cap q = swtmr_cap p" by simp
qed

text \<open>
  The invariant: the free blocks and the used ones make up the pool; the running timers are in
  order of their due time, each a block that is ticking; block \<open>i\<close> carries an identifier that
  is \<open>i\<close> modulo the number of blocks.
\<close>

definition block_ok :: "nat \<Rightarrow> SWTMR_CTRL_S \<Rightarrow> bool" where
  "block_ok i c \<longleftrightarrow> usTimerID c < OS_SWTMR_MAX_TIMERID \<and> OS_SWT_FROM_SID (usTimerID c) = i
     \<and> ucState c \<in> {OS_SWTMR_STATUS_UNUSED, OS_SWTMR_STATUS_CREATED, OS_SWTMR_STATUS_TICKING}
     \<and> (ucState c \<noteq> OS_SWTMR_STATUS_UNUSED \<longrightarrow> uwInterval c \<noteq> 0)"

definition running_ok :: "nat \<Rightarrow> SWTMR_CTRL_S \<times> bool \<times> u64 \<Rightarrow> bool" where
  "running_ok i = (\<lambda>(c, running, d). running \<longrightarrow> i < 5 \<and> ucState c = OS_SWTMR_STATUS_TICKING
     \<and> d \<noteq> OS_SORT_LINK_INVALID_TIME)"

definition swtmr_inv :: "swtmr_state \<Rightarrow> sched \<Rightarrow> bool" where
  "swtmr_inv p s \<longleftrightarrow> chain_ok p \<and> swp.pool_ok p \<and> link_ok s
     \<and> (\<forall>i<5. block_ok i (blk_of p i)) \<and> (\<forall>i. running_ok i (timer_view p s i))"

lemma swtmr_invD:
  assumes "swtmr_inv p s"
  shows "chain_ok p" "swp.pool_ok p" "link_ok s" "i < 5 \<Longrightarrow> block_ok i (blk_of p i)"
    "linked s i \<Longrightarrow> i < 5 \<and> ucState (blk_of p i) = OS_SWTMR_STATUS_TICKING
       \<and> due_at s i \<noteq> OS_SORT_LINK_INVALID_TIME"
  using assms by (auto simp: swtmr_inv_def running_ok_def)

text \<open>Operations that leave the pool alone.\<close>

lemma pool_cong:
  assumes "\<And>i. pstNext (blk_of q i) = pstNext (blk_of p i)" "\<And>i. swtmr_used q i = swtmr_used p i"
    "g_swtmrFreeList q = g_swtmrFreeList p"
  shows "chain_ok q = chain_ok p" "swp.pool_ok q = swp.pool_ok p" "swtmr_free q = swtmr_free p"
proof -
  have c: "free_chain q first xs = free_chain p first xs" for first xs
    by (intro free_chain_cong) (simp add: assms(1))
  show "chain_ok q = chain_ok p" by (simp add: chain_ok_def assms c)
  have "walk_free n q first = walk_free n p first" for n first
  proof (induction n arbitrary: first)
    case (Suc n)
    then show ?case by (cases first) (simp_all add: assms(1))
  qed simp
  then show f: "swtmr_free q = swtmr_free p" by (simp add: swtmr_free_def assms(3))
  show "swp.pool_ok q = swp.pool_ok p" by (simp add: swp.pool_ok_def f assms(2))
qed

lemma Stop_effect:
  assumes ok: "link_ok s" and l: "linked s i \<Longrightarrow> due_at s i \<noteq> OS_SORT_LINK_INVALID_TIME"
    and e: "OsSwtmrStop i (p, s) = (p', s')"
  shows "p' = upd_swtmr i (\<lambda>c. c\<lparr>ucState := OS_SWTMR_STATUS_CREATED, ucOverrun := 0\<rparr>) p"
    "link_ok s'" "linked s' j \<longleftrightarrow> j \<noteq> i \<and> linked s j"
    "due_at s' j = (if j = i then OS_SORT_LINK_INVALID_TIME else due_at s j)"
    "g_sysClock (tk s') = g_sysClock (tk s)"
proof -
  show "p' = upd_swtmr i (\<lambda>c. c\<lparr>ucState := OS_SWTMR_STATUS_CREATED, ucOverrun := 0\<rparr>) p"
    using e by (simp add: OsSwtmrStop_def)
  let ?s1 = "OsDeleteSortLink (SwtmrNode i) s"
  have s': "s' = OsSchedUpdateExpireTime ?s1" using e by (simp add: OsSwtmrStop_def)
  let ?r = "OsSchedResetSchedResponseTime (due_at s i) s"
  have okr: "link_ok ?r" using ok link_ok_timers [OF timers_Reset] by simp
  note R = timersD [OF timers_Reset, of "due_at s i" s]
  have d: "link_ok ?s1 \<and> (linked ?s1 j \<longleftrightarrow> j \<noteq> i \<and> linked s j)
      \<and> due_at ?s1 j = (if j = i then OS_SORT_LINK_INVALID_TIME else due_at s j)
      \<and> g_sysClock (tk ?s1) = g_sysClock (tk s)"
  proof (cases "due_at s i = OS_SORT_LINK_INVALID_TIME")
    case True
    then show ?thesis using ok l by (auto simp: OsDeleteSortLink_def)
  next
    case False
    then show ?thesis using Delete_effect [OF okr refl, of i] R by (simp add: OsDeleteSortLink_def)
  qed
  note T = timersD [OF timers_UpdateExpire, of ?s1, folded s']
  show "link_ok s'" using d link_ok_timers [OF timers_UpdateExpire, of ?s1] s' by simp
  show "linked s' j \<longleftrightarrow> j \<noteq> i \<and> linked s j" "g_sysClock (tk s') = g_sysClock (tk s)"
    "due_at s' j = (if j = i then OS_SORT_LINK_INVALID_TIME else due_at s j)" using d T by simp_all
qed

section \<open>Starting\<close>

lemma inv_after:
  assumes inv: "swtmr_inv p s" and lk: "link_ok s'"
    and free: "g_swtmrFreeList p' = g_swtmrFreeList p" "\<And>j. pstNext (blk_of p' j) = pstNext (blk_of p j)"
    and use: "\<And>j. swtmr_used p' j = swtmr_used p j"
    and bk: "\<And>j. j < 5 \<Longrightarrow> block_ok j (blk_of p' j)" and rn: "\<And>j. running_ok j (timer_view p' s' j)"
  shows "swtmr_inv p' s'"
  using inv lk bk rn pool_cong [of p' p, OF free(2) use free(1)] by (simp add: swtmr_inv_def)

lemma Start_inv:
  assumes inv: "swtmr_inv p s" and i: "i < 5" "swtmr_used p i" "\<not> linked s i"
    and st: "uwInterval (blk_of p i) = uwInterval (blk_of p0 i)" "p = upd_swtmr i f p0"
    and b: "unat (swtmr_startTime (blk_of p i)) < 2 ^ 63"
    and e: "OsSwtmrStart cur i (p, s) = (p', s')"
  shows "swtmr_inv p' s'"
proof -
  note D = swtmr_invD [OF inv] and S = Start_effect [OF swtmr_invD(3) [OF inv] i(3) e]
  have "unat (swtmr_startTime (blk_of p i) + period (g_sysClock (tk s)) (blk_of p i)) < 2 ^ 64 - 1"
    using b period_bound [of "g_sysClock (tk s)" "blk_of p i"] by (simp add: unat_word_ariths)
  then have d: "swtmr_startTime (blk_of p i) + period (g_sysClock (tk s)) (blk_of p i) \<noteq> OS_SORT_LINK_INVALID_TIME"
    by (auto simp: OS_SORT_LINK_INVALID_TIME_def unsigned_minus_1_eq_mask mask_eq_exp_minus_1)
  show ?thesis
  proof (rule inv_after [OF inv S(2)])
    fix j
    show "j < 5 \<Longrightarrow> block_ok j (blk_of p' j)"
      using D(4) [of j] i(2) by (auto simp: S(1) block_ok_def swtmr_used_def)
    show "running_ok j (timer_view p' s' j)"
      using D(5) [of j] i(1) d S(3,4) [of j] by (auto simp: S(1) running_ok_def)
    show "swtmr_used p' j = swtmr_used p j"
      using i(2) by (auto simp: S(1) swtmr_used_def swtmr_config)
  qed (simp_all add: S(1))
qed

lemma Stop_inv:
  assumes inv: "swtmr_inv p s" and used: "swtmr_used p i" and e: "OsSwtmrStop i (p, s) = (p', s')"
  shows "swtmr_inv p' s'"
proof -
  note D = swtmr_invD [OF inv]
  note S = Stop_effect [OF D(3) _ e, OF conjunct2 [OF conjunct2 [OF D(5)]]]
  show ?thesis
  proof (rule inv_after [OF inv S(2)])
    fix j
    show "j < 5 \<Longrightarrow> block_ok j (blk_of p' j)" using D(4) [of j] used
      by (auto simp: S(1) block_ok_def swtmr_used_def)
    show "running_ok j (timer_view p' s' j)" using D(5) [of j] S(3,4) [of j]
      by (auto simp: S(1) running_ok_def)
    show "swtmr_used p' j = swtmr_used p j" using used by (auto simp: S(1) swtmr_used_def swtmr_config)
  qed (simp_all add: S(1))
qed

text \<open>A timer is valid when its identifier is that of its block, and the block is in use.\<close>

definition valid_timer :: "swtmr_state \<Rightarrow> u32 \<Rightarrow> bool" where
  "valid_timer p w \<longleftrightarrow> w < OS_SWTMR_MAX_TIMERID \<and> usTimerID (blk_of p (OS_SWT_FROM_SID w)) = w
     \<and> swtmr_used p (OS_SWT_FROM_SID w)"

definition bad_id :: "u32 \<Rightarrow> u32" where
  "bad_id w = (if w \<ge> OS_SWTMR_MAX_TIMERID then LOS_ERRNO_SWTMR_ID_INVALID else LOS_ERRNO_SWTMR_NOT_CREATED)"

lemma SwtmrStart_valid:
  assumes v: "valid_timer p w" and i: "i = OS_SWT_FROM_SID w"
    and st: "ucState (blk_of p i) = OS_SWTMR_STATUS_TICKING \<or> ucState (blk_of p i) = OS_SWTMR_STATUS_CREATED"
  shows "LOS_SwtmrStart w (p, s) =
    (let (p1, s1) = (if ucState (blk_of p i) = OS_SWTMR_STATUS_TICKING then OsSwtmrStop i (p, s) else (p, s));
         (now, s2) = OsGetCurrSchedTimeCycle s1
     in (LOS_OK, OsSwtmrStart now i (upd_swtmr i (\<lambda>c. c\<lparr>swtmr_startTime := now\<rparr>) p1, s2)))"
proof -
  have "\<not> w \<ge> OS_SWTMR_MAX_TIMERID" "usTimerID (blk_of p i) = w" using v i by (simp_all add: valid_timer_def not_le)
  then show ?thesis using st i [symmetric]
    by (elim disjE) (simp_all add: LOS_SwtmrStart_def Let_def OS_SWTMR_STATUS_UNUSED_def
        OS_SWTMR_STATUS_CREATED_def OS_SWTMR_STATUS_TICKING_def)
qed

lemma SwtmrStart_effect:
  assumes inv: "swtmr_inv p s" and e: "LOS_SwtmrStart w (p, s) = (r, p', s')"
    and i: "i = OS_SWT_FROM_SID w"
    and now: "now = fst (OsGetCurrSchedTimeCycle (if ucState (blk_of p i) = OS_SWTMR_STATUS_TICKING
                     then snd (OsSwtmrStop i (p, s)) else s))" and b: "unat now < 2 ^ 63"
  shows "if valid_timer p w
    then r = LOS_OK \<and> linked s' i \<and> swtmr_startTime (blk_of p' i) = now
      \<and> due_at s' i = now + period (g_sysClock (tk s)) (blk_of p i)
      \<and> ucState (blk_of p' i) = OS_SWTMR_STATUS_TICKING
      \<and> (\<forall>j. j \<noteq> i \<longrightarrow> timer_view p' s' j = timer_view p s j) \<and> swtmr_inv p' s'
    else r = bad_id w \<and> p' = p \<and> s' = s"
proof (cases "valid_timer p w")
  case False
  then consider "w \<ge> OS_SWTMR_MAX_TIMERID"
    | "w < OS_SWTMR_MAX_TIMERID" "usTimerID (blk_of p (OS_SWT_FROM_SID w)) \<noteq> w"
    | "w < OS_SWTMR_MAX_TIMERID" "ucState (blk_of p (OS_SWT_FROM_SID w)) = OS_SWTMR_STATUS_UNUSED"
    unfolding valid_timer_def swtmr_used_def by (meson not_le)
  then have "LOS_SwtmrStart w (p, s) = (bad_id w, p, s)"
    by cases (simp_all add: LOS_SwtmrStart_def bad_id_def Let_def)
  then show ?thesis using e False by auto
next
  case True
  note D = swtmr_invD [OF inv]
  have i5: "i < 5" using i OS_SWT_FROM_SID_less by simp
  have used: "swtmr_used p i" using True i by (simp add: valid_timer_def)
  define tick where "tick \<longleftrightarrow> ucState (blk_of p i) = OS_SWTMR_STATUS_TICKING"
  define p1 where "p1 = (if tick then fst (OsSwtmrStop i (p, s)) else p)"
  define s1 where "s1 = (if tick then snd (OsSwtmrStop i (p, s)) else s)"
  have st: "ucState (blk_of p i) = OS_SWTMR_STATUS_TICKING \<or> ucState (blk_of p i) = OS_SWTMR_STATUS_CREATED"
    using D(4) [OF i5] used by (auto simp: block_ok_def swtmr_used_def)
  let ?p2 = "upd_swtmr i (\<lambda>c. c\<lparr>swtmr_startTime := now\<rparr>) p1" and ?s2 = "snd (OsGetCurrSchedTimeCycle s1)"
  have run: "r = LOS_OK" "OsSwtmrStart now i (?p2, ?s2) = (p', s')"
    using e now unfolding SwtmrStart_valid [OF True i st] p1_def s1_def tick_def
    by (simp_all add: Let_def case_prod_beta split: if_splits)
  have P: "swtmr_inv p1 s1 \<and> \<not> linked s1 i \<and> swtmr_used p1 i \<and> uwInterval (blk_of p1 i) = uwInterval (blk_of p i)
      \<and> g_sysClock (tk s1) = g_sysClock (tk s) \<and> (\<forall>j. j \<noteq> i \<longrightarrow> timer_view p1 s1 j = timer_view p s j)"
  proof (cases tick)
    case False
    then show ?thesis using inv used D(5) [of i] by (auto simp: p1_def s1_def tick_def)
  next
    case True
    then have c: "OsSwtmrStop i (p, s) = (p1, s1)" by (simp add: p1_def s1_def)
    note S = Stop_effect [OF D(3) _ c, OF conjunct2 [OF conjunct2 [OF D(5)]]]
    have "swtmr_inv p1 s1" by (rule Stop_inv [OF inv used c])
    then show ?thesis using S(3-5) by (simp add: S(1) swtmr_used_def swtmr_config)
  qed
  note T = timersD [OF timers_cycle, of s1]
  have inv2: "swtmr_inv ?p2 ?s2"
  proof (rule inv_after [OF conjunct1 [OF P]])
    show "link_ok ?s2" using P link_ok_timers [OF timers_cycle, of s1] by (simp add: swtmr_inv_def)
    fix j
    show "j < 5 \<Longrightarrow> block_ok j (blk_of ?p2 j)" using P by (auto simp: swtmr_inv_def block_ok_def)
    show "running_ok j (timer_view ?p2 ?s2 j)" using P T by (auto simp: swtmr_inv_def running_ok_def)
  qed (simp_all add: swtmr_used_def)
  have n2: "\<not> linked ?s2 i" using P T by simp
  note S = Start_effect [OF swtmr_invD(3) [OF inv2] n2 run(2)]
  have "swtmr_inv p' s'"
    by (rule Start_inv [OF inv2 i5 _ n2 _ refl _ run(2)]) (use P b in \<open>simp_all add: swtmr_used_def\<close>)
  moreover have "period c' (blk_of ?p2 i) = period c' (blk_of p i)" for c'
    using P by (simp add: period_def)
  ultimately show ?thesis using True run(1) S(3-5) P T by (simp add: S(1))
qed

text \<open>
  C38. Starting a timer that was created, running or not, arms it: its block is ticking and
  starts at the time that is read, it is in the list once, in order, due one interval later, and
  no other timer changes. Any other identifier is an error and changes nothing.
\<close>

theorem swtmr_start:
  assumes inv: "swtmr_inv p s" and e: "LOS_SwtmrStart w (p, s) = (r, p', s')"
    and i: "i = OS_SWT_FROM_SID w"
    and now: "now = fst (OsGetCurrSchedTimeCycle (if ucState (blk_of p i) = OS_SWTMR_STATUS_TICKING
                     then snd (OsSwtmrStop i (p, s)) else s))" and b: "unat now < 2 ^ 63"
  shows "if valid_timer p w
    then r = LOS_OK \<and> linked s' i \<and> swtmr_startTime (blk_of p' i) = now
      \<and> due_at s' i = now + period (g_sysClock (tk s)) (blk_of p i)
      \<and> ucState (blk_of p' i) = OS_SWTMR_STATUS_TICKING
      \<and> (\<forall>j. j \<noteq> i \<longrightarrow> timer_view p' s' j = timer_view p s j) \<and> swtmr_inv p' s'
    else r = bad_id w \<and> p' = p \<and> s' = s"
  by (rule SwtmrStart_effect [OF inv e i now b])

section \<open>The scan of the tick\<close>

lemma period_pos:
  assumes "uwInterval c \<noteq> 0" "100 \<le> unat clk"
  shows "0 < unat (period clk c)"
proof -
  have t: "take_bit 64 (unat (x :: u32)) = unat x" for x
  proof (rule take_bit_nat_eq_self)
    have "unat x < 2 ^ LENGTH(32)" by (rule unsigned_less)
    then show "unat x < 2 ^ 64" by simp
  qed
  have i: "0 < unat (uwInterval c)" using assms(1) by (simp add: unat_gt_0)
  have b: "unat (uwInterval c) * unat clk < 2 ^ 64"
    using mult_strict_mono [of "unat (uwInterval c)" "2 ^ 32" "unat clk" "2 ^ 32"]
      unsigned_less [of "uwInterval c"] unsigned_less [of clk] by simp
  have "unat (ucast (uwInterval c) * ucast clk :: u64) = unat (uwInterval c) * unat clk"
    using b by (simp add: unat_word_ariths unsigned_ucast_eq t)
  moreover have "100 \<le> unat (uwInterval c) * unat clk"
    using mult_le_mono [of 1 "unat (uwInterval c)" 100 "unat clk"] i assms(2) by simp
  ultimately show ?thesis
    by (simp add: period_def OS_SYS_TICK_TO_CYCLE_def tick_config unat_div div_greater_zero_iff)
qed

lemma timer_after_block:
  assumes "timer_after ct clk (c, run, d) = (c', run', d')"
  shows "pstNext c' = pstNext c" "usTimerID c' = usTimerID c" "uwInterval c' = uwInterval c"
    "run' \<Longrightarrow> ucState c = OS_SWTMR_STATUS_TICKING \<Longrightarrow> ucState c' = OS_SWTMR_STATUS_TICKING"
    "\<not> run \<Longrightarrow> c' = c" "run' \<Longrightarrow> run"
    "ucState c' \<in> {ucState c, OS_SWTMR_STATUS_CREATED, OS_SWTMR_STATUS_TICKING}"
  using assms by (auto simp: timer_after_def Let_def split: if_splits)

lemma scan_inv:
  assumes inv: "swtmr_inv p s" and lk: "link_ok s'"
    and v: "\<And>i. timer_view p' s' i = timer_after ct clk (timer_view p s i)"
    and f: "g_swtmrFreeList p' = g_swtmrFreeList p"
    and nd: "\<And>i. linked s' i \<Longrightarrow> due_at s' i \<noteq> OS_SORT_LINK_INVALID_TIME"
  shows "swtmr_inv p' s'"
proof (rule inv_after [OF inv lk f])
  fix j
  note D = swtmr_invD [OF inv] and A = timer_after_block [OF v [of j, symmetric]]
  show "pstNext (blk_of p' j) = pstNext (blk_of p j)" by (rule A(1))
  show "swtmr_used p' j = swtmr_used p j"
    using A(5,7) D(5) [of j] by (cases "linked s j") (auto simp: swtmr_used_def swtmr_config)
  then show "j < 5 \<Longrightarrow> block_ok j (blk_of p' j)"
    using D(4) [of j] A(2,3,7) by (auto simp: block_ok_def swtmr_used_def)
  show "running_ok j (timer_view p' s' j)"
    using D(5) [of j] A(4,6) nd [of j] by (auto simp: running_ok_def)
qed

lemma periods_bound:
  assumes "d \<le> ct" "unat ct < 2 ^ 63"
  shows "unat (d + of_nat (periods (unat ct) (unat (period clk c)) (unat d)) * period clk c)
    = unat d + periods (unat ct) (unat (period clk c)) (unat d) * unat (period clk c)"
    "unat d + periods (unat ct) (unat (period clk c)) (unat d) * unat (period clk c) < 2 ^ 64 - 1"
proof -
  let ?c = "unat (period clk c)" and ?k = "periods (unat ct) (unat (period clk c)) (unat d)"
  have le: "unat d \<le> unat ct" using assms(1) by (simp add: word_le_nat_alt)
  have k: "?k = (unat ct - unat d) div ?c + 1" using le by (simp add: periods_def)
  have m: "(unat ct - unat d) div ?c * ?c \<le> unat ct - unat d" by (rule div_times_less_eq_dividend)
  have "?k * ?c \<le> (unat ct - unat d) + ?c" unfolding k add_mult_distrib using m by linarith
  then show lt: "unat d + ?k * ?c < 2 ^ 64 - 1"
    using le assms(2) period_bound [of clk c] by simp
  have "d + of_nat ?k * period clk c = of_nat (unat d + ?k * ?c)" by simp
  then show "unat (d + of_nat ?k * period clk c) = unat d + ?k * ?c"
    using lt by (simp only: unat_of_nat) (simp add: take_bit_nat_eq_self)
qed

text \<open>Two periodic timers and a one-shot one, both kinds due; block 3 is created, 4 is free.\<close>

definition ex_block :: "u32 \<Rightarrow> u8 \<Rightarrow> u8 \<Rightarrow> SWTMR_CTRL_S" where
  "ex_block i mode state = zero_swtmr\<lparr>usTimerID := i, ucMode := mode, ucState := state,
     uwInterval := 2, pfnHandler := 0x1000\<rparr>"

definition ex_swtmr :: swtmr_state where
  "ex_swtmr = \<lparr>g_swtmrCBArray = (\<lambda>_. zero_swtmr)(
       0 := ex_block 0 LOS_SWTMR_MODE_PERIOD OS_SWTMR_STATUS_TICKING,
       1 := ex_block 1 LOS_SWTMR_MODE_ONCE OS_SWTMR_STATUS_TICKING,
       2 := ex_block 12 LOS_SWTMR_MODE_PERIOD OS_SWTMR_STATUS_TICKING,
       3 := ex_block 3 LOS_SWTMR_MODE_NO_SELFDELETE OS_SWTMR_STATUS_CREATED,
       4 := zero_swtmr\<lparr>usTimerID := 4\<rparr>),
     g_swtmrFreeList = Some 4, g_swtmrHandlerQueue = 0\<rparr>"

definition ex_timed :: sched where
  "ex_timed = ex_sched\<lparr>g_swtmrSortLink := [SwtmrNode 0, SwtmrNode 1, SwtmrNode 2],
     responseTime := (responseTime ex_sched)(SwtmrNode 0 := 100, SwtmrNode 1 := 200,
       SwtmrNode 2 := 9000)\<rparr>"

lemma ex_timed_due:
  "due_at ex_timed i = (if i = 0 then 100 else if i = 1 then 200 else if i = 2 then 9000 else -1)"
  "linked ex_timed i \<longleftrightarrow> i \<in> {0, 1, 2}" "tk ex_timed = ex_tick"
  by (auto simp: ex_timed_def)

lemma less_5: "i < 5 \<longleftrightarrow> i = 0 \<or> i = Suc 0 \<or> i = 2 \<or> i = 3 \<or> i = (4 :: nat)"
  by auto

lemma ex_swtmr_inv: "swtmr_inv ex_swtmr ex_timed"
proof -
  have u: "swtmr_used ex_swtmr i \<longleftrightarrow> i \<in> {0, 1, 2, 3}" for i
    by (auto simp: swtmr_used_def ex_swtmr_def ex_block_def zero_swtmr_def swtmr_config)
  have c: "free_chain ex_swtmr (g_swtmrFreeList ex_swtmr) [4]"
    by (simp add: ex_swtmr_def zero_swtmr_def)
  then have ch: "chain_ok ex_swtmr" unfolding chain_ok_def by (intro exI [of _ "[4]"]) (simp add: u)
  have "swtmr_free ex_swtmr = [4]" using walk_free_chain [OF c] by (simp add: swtmr_free_def)
  then have pool: "swp.pool_ok ex_swtmr" by (auto simp: swp.pool_ok_def u less_5)
  have lk: "link_ok ex_timed"
    by (auto simp: link_ok_def only_timers_def ex_timed_def)
  have bk: "block_ok i (blk_of ex_swtmr i)" if "i < 5" for i
    using that by (auto simp: less_5 block_ok_def ex_swtmr_def ex_block_def zero_swtmr_def swtmr_config
        OS_SWT_FROM_SID_def)
  have "running_ok i (timer_view ex_swtmr ex_timed i)" for i
    by (auto simp: running_ok_def ex_timed_due ex_swtmr_def ex_block_def OS_SORT_LINK_INVALID_TIME_def)
  then show ?thesis using ch pool lk bk by (simp add: swtmr_inv_def)
qed

lemma rearmed_due:
  assumes "d \<noteq> OS_SORT_LINK_INVALID_TIME" "unat ct < 2 ^ 63" "timer_after ct clk (c, True, d) = (c', True, d')"
  shows "d' \<noteq> OS_SORT_LINK_INVALID_TIME"
proof (cases "d \<le> ct")
  case True
  let ?d = "d + of_nat (periods (unat ct) (unat (period clk c)) (unat d)) * period clk c"
  have "d' = ?d" using assms(3) leD [OF True] by (auto simp: timer_after_def Let_def split: if_splits)
  moreover have "unat ?d < 2 ^ 64 - 1" using periods_bound [OF True assms(2)] by simp
  ultimately show ?thesis
    by (auto simp: OS_SORT_LINK_INVALID_TIME_def unsigned_minus_1_eq_mask mask_eq_exp_minus_1)
next
  case False
  then show ?thesis using assms(1,3) by (simp add: timer_after_fixed not_le)
qed

lemma swtmr_scan_effect:
  assumes inv: "swtmr_inv p s" and clk: "100 \<le> unat (g_sysClock (tk s))"
    and ct: "ct = fst (OsGetCurrSchedTimeCycle s)" "unat ct < 2 ^ 63"
  shows "\<exists>need p' q' s'. OsSwtmrScan (p, q, s) = Some (need, p', q', s')
    \<and> (need \<longleftrightarrow> (\<exists>i. linked s i \<and> due_at s i \<le> ct))
    \<and> (\<forall>i. timer_view p' s' i = timer_after ct (g_sysClock (tk s)) (timer_view p s i))
    \<and> (\<forall>i. linked s' i \<longrightarrow> ct < due_at s' i) \<and> swtmr_inv p' s'"
proof (cases "g_swtmrSortLink s")
  case Nil
  then show ?thesis using inv
    by (intro exI [of _ False] exI [of _ p] exI [of _ q] exI [of _ s])
      (simp add: OsSwtmrScan_def timer_after_fixed)
next
  case (Cons n ns)
  let ?s1 = "snd (OsGetCurrSchedTimeCycle s)" and ?clk = "g_sysClock (tk s)"
  note D = swtmr_invD [OF inv] and T = timersD [OF timers_cycle, of s]
  have "link_ok ?s1" using D(3) link_ok_timers [OF timers_cycle, of s] by simp
  moreover have "uwInterval (blk_of p i) \<noteq> 0" if "linked s i" for i
    using D(5) [OF that] D(4) [of i] by (auto simp: block_ok_def swtmr_config)
  ultimately have "scannable p ?s1" using clk T period_pos by (simp add: scannable_def)
  from scan_loop [OF this ct(2), of q] obtain p' q' s' where L:
    "swtmr_scan ct (p, q, ?s1) = Some (p', q', s')" "link_ok s'"
    "\<And>i. timer_view p' s' i = timer_after ct ?clk (timer_view p s i)"
    "\<And>i. linked s' i \<Longrightarrow> ct < due_at s' i" "g_swtmrFreeList p' = g_swtmrFreeList p"
    using T by auto
  have nd: "due_at s' i \<noteq> OS_SORT_LINK_INVALID_TIME" if l: "linked s' i" for i
  proof -
    have "linked s i" using timer_after_block(6) [OF L(3) [of i, symmetric]] l by simp
    then show ?thesis using rearmed_due [OF _ ct(2)] L(3) [of i] l D(5) [of i] by metis
  qed
  obtain i0 where i0: "n = SwtmrNode i0" "\<And>i. linked s i \<Longrightarrow> due_at s i0 \<le> due_at s i" "linked s i0"
    using D(3) Cons by (auto simp: link_ok_def only_timers_def)
  have "OsSwtmrScan (p, q, s) = Some (due_at s i0 \<le> ct, p', q', s')"
    using Cons L(1) T(1,2) by (simp add: OsSwtmrScan_def Let_def case_prod_beta ct(1) [symmetric] i0(1))
  moreover have "due_at s i0 \<le> ct \<longleftrightarrow> (\<exists>i. linked s i \<and> due_at s i \<le> ct)" using i0 by force
  ultimately show ?thesis using L(3,4) scan_inv [OF inv L(2,3,5) nd] by blast
qed

section \<open>Creating and deleting\<close>

lemma next_id_ok:
  assumes "w < OS_SWTMR_MAX_TIMERID"
  shows "next_id w < OS_SWTMR_MAX_TIMERID" "OS_SWT_FROM_SID (next_id w) = OS_SWT_FROM_SID w"
    "next_id w \<noteq> w"
proof -
  let ?v = "next_id w"
  have w: "unat w < 0xFFFFFFFF" using assms(1) by (simp add: swtmr_config word_less_nat_alt)
  have v: "unat ?v = (if unat w < 0xFFFFFFFA then unat w + 5 else unat w mod 5)"
    using w by (simp add: next_id_def swtmr_config word_less_nat_alt unat_word_ariths)
  have "unat w mod 5 < 0xFFFFFFFF" by (rule less_le_trans [OF mod_less_divisor]) simp_all
  then show "?v < OS_SWTMR_MAX_TIMERID" using v w by (simp add: swtmr_config word_less_nat_alt)
  show "OS_SWT_FROM_SID ?v = OS_SWT_FROM_SID w"
    using v by (simp add: OS_SWT_FROM_SID_def swtmr_config unat_word_ariths)
  have "unat ?v \<noteq> unat w" using v mod_less_divisor [of 5 "unat w"] by (auto split: if_splits)
  then show "?v \<noteq> w" by auto
qed

lemma Delete_block_inv:
  assumes inv: "swtmr_inv p s" and l: "\<not> linked s i" and u: "swtmr_used p i" and i: "i < 5"
  shows "swtmr_inv (OsSwtmrDelete i p) s" "swtmr_free (OsSwtmrDelete i p) = i # swtmr_free p"
proof -
  let ?q = "OsSwtmrDelete i p"
  note D = swtmr_invD [OF inv]
  have b: "g_swtmrFreeList ?q = Some i" "pstNext (blk_of ?q i) = g_swtmrFreeList p" "\<not> swtmr_used ?q i"
    "\<And>j. j \<noteq> i \<Longrightarrow> blk_of ?q j = blk_of p j"
    by (simp_all add: OsSwtmrDelete_sel swtmr_used_def)
  note ch = chain_give [OF D(1) u i b]
  show "swtmr_free ?q = i # swtmr_free p" by (rule ch(2))
  have "swtmr_used ?q j \<longleftrightarrow> j \<noteq> i \<and> swtmr_used p j" for j
    using b(3,4) by (cases "j = i") (simp_all add: swtmr_used_def)
  then have "swp.pool_ok ?q" using D(2) ch(2) u i by (auto simp: swp.pool_ok_def)
  moreover have "block_ok j (blk_of ?q j)" if "j < 5" for j
    using D(4) [OF that] next_id_ok(1,2) [of "usTimerID (blk_of p j)"]
    by (auto simp: OsSwtmrDelete_sel block_ok_def)
  moreover have "running_ok j (timer_view ?q s j)" for j
    using l b(4) [of j] D(5) [of j] by (cases "j = i") (auto simp: running_ok_def)
  ultimately show "swtmr_inv ?q s" using ch(1) D(3) by (simp add: swtmr_inv_def)
qed

text \<open>
  Deleting a timer stops it and puts its block in front of the free list, under an
  identifier that is not the old one, so that a later start, stop or delete of the old identifier
  is an error that changes nothing; no other timer changes. Deleting anything else is an error.
\<close>

theorem swtmr_delete:
  assumes inv: "swtmr_inv p s" and e: "LOS_SwtmrDelete w (p, s) = (r, p', s')"
    and i: "i = OS_SWT_FROM_SID w"
  shows "if valid_timer p w
    then r = LOS_OK \<and> swtmr_free p' = i # swtmr_free p \<and> \<not> linked s' i
      \<and> (\<forall>j. j \<noteq> i \<longrightarrow> timer_view p' s' j = timer_view p s j) \<and> swtmr_inv p' s'
      \<and> (\<forall>t. LOS_SwtmrStart w (p', t) = (LOS_ERRNO_SWTMR_NOT_CREATED, p', t)
           \<and> LOS_SwtmrStop w (p', t) = (LOS_ERRNO_SWTMR_NOT_CREATED, p', t)
           \<and> LOS_SwtmrDelete w (p', t) = (LOS_ERRNO_SWTMR_NOT_CREATED, p', t))
    else r = bad_id w \<and> p' = p \<and> s' = s"
proof (cases "valid_timer p w")
  case False
  then consider "w \<ge> OS_SWTMR_MAX_TIMERID"
    | "w < OS_SWTMR_MAX_TIMERID" "usTimerID (blk_of p (OS_SWT_FROM_SID w)) \<noteq> w"
    | "w < OS_SWTMR_MAX_TIMERID" "ucState (blk_of p (OS_SWT_FROM_SID w)) = OS_SWTMR_STATUS_UNUSED"
    unfolding valid_timer_def swtmr_used_def by (meson not_le)
  then have "LOS_SwtmrDelete w (p, s) = (bad_id w, p, s)"
    by cases (simp_all add: LOS_SwtmrDelete_def bad_id_def Let_def)
  then show ?thesis using e False by auto
next
  case True
  note D = swtmr_invD [OF inv]
  have v: "w < OS_SWTMR_MAX_TIMERID" "usTimerID (blk_of p i) = w" "swtmr_used p i" "i < 5"
    using True i OS_SWT_FROM_SID_less by (simp_all add: valid_timer_def)
  have r: "r = LOS_OK"
    using e v D(4) [OF v(4)] i by (auto simp: LOS_SwtmrDelete_def Let_def block_ok_def swtmr_used_def
        case_prod_beta not_le [symmetric] split: if_splits)
  note R = Delete_result [OF e [unfolded r], folded i]
  define tick where "tick \<longleftrightarrow> ucState (blk_of p i) = OS_SWTMR_STATUS_TICKING"
  define p1 where "p1 = (if tick then fst (OsSwtmrStop i (p, s)) else p)"
  have q: "p' = OsSwtmrDelete i p1" using R(4) by (simp add: p1_def tick_def)
  have P: "swtmr_inv p1 s' \<and> \<not> linked s' i \<and> swtmr_used p1 i \<and> usTimerID (blk_of p1 i) = w
      \<and> g_swtmrFreeList p1 = g_swtmrFreeList p \<and> swtmr_free p1 = swtmr_free p
      \<and> (\<forall>j. j \<noteq> i \<longrightarrow> timer_view p1 s' j = timer_view p s j)"
  proof (cases tick)
    case False
    then show ?thesis using inv v D(5) [of i] R(5) by (auto simp: p1_def tick_def)
  next
    case True
    then have c: "OsSwtmrStop i (p, s) = (p1, s')" using R(5) by (simp add: p1_def tick_def)
    note S = Stop_effect [OF D(3) _ c, OF conjunct2 [OF conjunct2 [OF D(5)]]]
    have "swtmr_free p1 = swtmr_free p"
      by (rule pool_cong(3)) (use v(3) in \<open>auto simp: S(1) swtmr_used_def swtmr_config\<close>)
    then show ?thesis using Stop_inv [OF inv v(3) c] S(3,4) v by (simp add: S(1) swtmr_used_def swtmr_config)
  qed
  have del: "swtmr_inv p' s'" "swtmr_free p' = i # swtmr_free p1"
    using Delete_block_inv [OF conjunct1 [OF P] _ _ v(4)] P by (simp_all add: q)
  have b: "usTimerID (blk_of p' i) \<noteq> w" "\<And>j. j \<noteq> i \<Longrightarrow> blk_of p' j = blk_of p1 j"
    using P next_id_ok(3) [OF v(1)] by (simp_all add: q OsSwtmrDelete_sel)
  have "\<not> w \<ge> OS_SWTMR_MAX_TIMERID" using v(1) by simp
  then have "LOS_SwtmrStart w (p', t) = (LOS_ERRNO_SWTMR_NOT_CREATED, p', t)
      \<and> LOS_SwtmrStop w (p', t) = (LOS_ERRNO_SWTMR_NOT_CREATED, p', t)
      \<and> LOS_SwtmrDelete w (p', t) = (LOS_ERRNO_SWTMR_NOT_CREATED, p', t)" for t
    using b(1) i [symmetric]
    by (simp add: LOS_SwtmrStart_def LOS_SwtmrStop_def LOS_SwtmrDelete_def Let_def)
  then show ?thesis using True r P del b(2) by simp
qed

theorem swtmr_delete_witness:
  "\<exists>p' s'. LOS_SwtmrDelete 12 (ex_swtmr, ex_timed) = (LOS_OK, p', s')
     \<and> LOS_SwtmrStart 12 (p', s') = (LOS_ERRNO_SWTMR_NOT_CREATED, p', s')"
proof -
  obtain r p' s' where e: "LOS_SwtmrDelete 12 (ex_swtmr, ex_timed) = (r, p', s')" by (metis prod_cases3)
  have "valid_timer ex_swtmr 12"
    by (simp add: valid_timer_def OS_SWT_FROM_SID_def ex_swtmr_def ex_block_def swtmr_used_def swtmr_config)
  then show ?thesis using swtmr_delete [OF ex_swtmr_inv e refl] e by auto
qed

theorem swtmr_start_witness:
  "\<exists>p' s'. LOS_SwtmrStart 3 (ex_swtmr, ex_timed) = (LOS_OK, p', s') \<and> due_at s' 3 = 1601000
     \<and> swtmr_inv p' s'"
proof -
  obtain r p' s' where e: "LOS_SwtmrStart 3 (ex_swtmr, ex_timed) = (r, p', s')" by (metis prod_cases3)
  have v: "valid_timer ex_swtmr 3"
    by (simp add: valid_timer_def OS_SWT_FROM_SID_def ex_swtmr_def ex_block_def swtmr_used_def swtmr_config)
  have i: "3 = OS_SWT_FROM_SID 3" by (simp add: OS_SWT_FROM_SID_def swtmr_config)
  have now: "1000 = fst (OsGetCurrSchedTimeCycle (if ucState (blk_of ex_swtmr 3) = OS_SWTMR_STATUS_TICKING
      then snd (OsSwtmrStop 3 (ex_swtmr, ex_timed)) else ex_timed))"
    by (simp add: GetCurrSchedTimeCycle_eq ex_timed_due ex_tick_def LOS_SysCycleGet_def getCycle_def
        ex_timer_def Let_def ex_swtmr_def ex_block_def swtmr_config)
  have "1000 + period (g_sysClock (tk ex_timed)) (blk_of ex_swtmr 3) = 1601000"
    by (simp add: period_def OS_SYS_TICK_TO_CYCLE_def ex_timed_due ex_tick_def ex_swtmr_def ex_block_def
        zero_swtmr_def tick_config)
  then show ?thesis using swtmr_start [OF ex_swtmr_inv e i now] v e by simp
qed

text \<open>
  Creating a timer with valid parameters fails exactly when all blocks are in use; otherwise
  the timer gets a block that was not in use, set up and not running, with an identifier that is
  valid from then on, and no other timer changes.
\<close>

theorem swtmr_create:
  assumes inv: "swtmr_inv p s" and iv: "iv \<noteq> 0" and h: "h \<noteq> 0"
    and mode: "mode \<in> {LOS_SWTMR_MODE_ONCE, LOS_SWTMR_MODE_PERIOD, LOS_SWTMR_MODE_NO_SELFDELETE}"
    and e: "LOS_SwtmrCreate iv mode h True a (p, s) = (r, w, p', s')"
  shows "(\<forall>i<5. swtmr_used p i) \<and> r = LOS_ERRNO_SWTMR_MAXSIZE \<and> w = None \<and> p' = p \<and> s' = s
    \<or> (\<exists>i<5. \<not> swtmr_used p i \<and> r = LOS_OK \<and> w = Some (usTimerID (blk_of p i))
         \<and> valid_timer p' (usTimerID (blk_of p i))
         \<and> ucState (blk_of p' i) = OS_SWTMR_STATUS_CREATED \<and> ucMode (blk_of p' i) = mode
         \<and> uwInterval (blk_of p' i) = iv \<and> pfnHandler (blk_of p' i) = h \<and> swtmr_uwArg (blk_of p' i) = a
         \<and> \<not> linked s' i \<and> (\<forall>j. j \<noteq> i \<longrightarrow> timer_view p' s' j = timer_view p s j)
         \<and> swtmr_inv p' s')"
proof (cases "g_swtmrFreeList p")
  case None
  note D = swtmr_invD [OF inv]
  have "swtmr_free p = []" using None by (simp add: swtmr_free_def)
  then have "\<forall>i<5. swtmr_used p i" using swp.exhausted_iff [OF D(2)] by simp
  then show ?thesis using None e iv h mode by (auto simp: LOS_SwtmrCreate_def)
next
  case (Some i)
  note D = swtmr_invD [OF inv]
  have ok: "r = LOS_OK" "w = Some (usTimerID (blk_of p i))"
    using e iv h mode Some by (auto simp: LOS_SwtmrCreate_def Let_def upd_swtmr_def)
  note R = Create_result [OF e [unfolded ok] Some]
  have "swtmr_take i p p'" unfolding swtmr_take_def using D(1) Some e ok by metis
  note T = swp.take_ok [OF D(2) this] swp.take_use [OF this]
  have i: "i < 5" "\<not> swtmr_used p i" using T by simp_all
  have nl: "\<not> linked s i" using D(5) [of i] i(2) by (auto simp: swtmr_used_def swtmr_config)
  have l: "g_swtmrSortLink s' = g_swtmrSortLink s" "due_at s' j = (if j = i then OS_SORT_LINK_INVALID_TIME
      else due_at s j)" for j by (simp_all add: R(2) SET_SORTLIST_VALUE_def)
  have "sorted_link (responseTime s') (g_swtmrSortLink s) = sorted_link (responseTime s) (g_swtmrSortLink s)"
    by (rule sorted_link_cong) (use nl in \<open>auto simp: R(2) SET_SORTLIST_VALUE_def\<close>)
  then have lk: "link_ok s'" using D(3) by (simp add: link_ok_def only_timers_def l(1))
  have bk: "block_ok j (blk_of p' j)" if "j < 5" for j
    using D(4) [OF that] R(5) by (auto simp: R(3) block_ok_def)
  have "running_ok j (timer_view p' s' j)" for j
    using D(5) [of j] nl by (auto simp: R(3) running_ok_def l)
  then have inv': "swtmr_inv p' s'"
    using lk bk T(1) chain_take(1) [OF D(1) Some R(4)] R(3) by (simp add: swtmr_inv_def)
  have "valid_timer p' (usTimerID (blk_of p i))"
    using D(4) [OF i(1)] by (auto simp: valid_timer_def block_ok_def R(3) swtmr_used_def swtmr_config)
  then show ?thesis using i ok inv' nl by (auto simp: R(3) l intro!: exI [of _ i])
qed

theorem swtmr_create_witness:
  "\<exists>p' s'. LOS_SwtmrCreate 7 LOS_SWTMR_MODE_ONCE 0x2000 True 9 (ex_swtmr, ex_timed) = (LOS_OK, Some 4, p', s')
     \<and> valid_timer p' 4"
proof -
  obtain r w p' s' where
    e: "LOS_SwtmrCreate 7 LOS_SWTMR_MODE_ONCE 0x2000 True 9 (ex_swtmr, ex_timed) = (r, w, p', s')"
    by (metis prod_cases4)
  have u: "swtmr_used ex_swtmr i \<longleftrightarrow> i \<in> {0, 1, 2, 3}" for i
    by (auto simp: swtmr_used_def ex_swtmr_def ex_block_def zero_swtmr_def swtmr_config)
  have "usTimerID (blk_of ex_swtmr 4) = 4" by (simp add: ex_swtmr_def)
  then show ?thesis using swtmr_create [OF ex_swtmr_inv _ _ _ e] e u by (auto simp: less_5)
qed

section \<open>Where the contract is broken\<close>

text \<open>The message to the timer task survives the queue's bytes.\<close>

lemma item_roundtrip: "bytes_item (item_bytes it) = it"
proof -
  have p: "put_bytes 0 (u32_bytes a @ u32_bytes b @ u32_bytes c) m0
      = put_bytes 0 (u32_bytes a) (put_bytes 4 (u32_bytes b) (put_bytes 8 (u32_bytes c) m0))" for a b c m0
    by (rule ext) (auto simp: put_bytes_def nth_append)
  have "get_u32 4 (item_bytes it) = item_arg it" "get_u32 8 (item_bytes it) = item_swtmrID it"
    by (simp_all add: item_bytes_def p get_u32_other get_u32_same)
  moreover have "get_u32 0 (item_bytes it) = item_handler it" by (simp add: item_bytes_def p get_u32_same)
  ultimately show ?thesis by (simp add: bytes_item_def)
qed

text \<open>
  C40. A one-shot timer that is started again after it expired and before its message was handled
  is running when the timer task, seeing the old message, deletes it without stopping it: its
  block is then free and handed out next, and still in the list of running timers. The handler
  called here leaves the timers alone.
\<close>

theorem swtmr_once_restart:
  assumes inv: "swtmr_inv p s" and v: "valid_timer p w" and i: "i = OS_SWT_FROM_SID w"
    and once: "ucMode (blk_of p i) = LOS_SWTMR_MODE_ONCE" and h: "h \<noteq> 0"
    and now: "now = fst (OsGetCurrSchedTimeCycle (if ucState (blk_of p i) = OS_SWTMR_STATUS_TICKING
                     then snd (OsSwtmrStop i (p, s)) else s))" "unat now < 2 ^ 63"
    and st: "LOS_SwtmrStart w (p, s) = (r, p1, s1)"
    and hd: "OsSwtmrTask_handle (\<lambda>_ _ z. z) LOS_OK (item_bytes \<lparr>item_handler = h, item_arg = a, item_swtmrID = w\<rparr>)
       sizeof_SwtmrHandlerItem (p1, q, s1) = (warn, p2, q2, s2)"
  shows "r = LOS_OK \<and> linked s2 i \<and> g_swtmrFreeList p2 = Some i \<and> \<not> swtmr_used p2 i \<and> \<not> swtmr_inv p2 s2"
proof -
  have S: "r = LOS_OK" "linked s1 i" "swtmr_inv p1 s1"
    using SwtmrStart_effect [OF inv st i now(1,2)] v by simp_all
  have blk: "ucMode (blk_of p1 i) = LOS_SWTMR_MODE_ONCE" "usTimerID (blk_of p1 i) = w"
  proof -
    have "ucState (blk_of p i) = OS_SWTMR_STATUS_TICKING \<or> ucState (blk_of p i) = OS_SWTMR_STATUS_CREATED"
      using swtmr_invD(4) [OF inv, of i] v i OS_SWT_FROM_SID_less
      by (auto simp: block_ok_def valid_timer_def swtmr_used_def)
    note R = SwtmrStart_valid [OF v i this, of s]
    show "ucMode (blk_of p1 i) = LOS_SWTMR_MODE_ONCE" "usTimerID (blk_of p1 i) = w"
      using st v i once unfolding R
      by (auto simp: OsSwtmrStop_def OsSwtmrStart_def Let_def case_prod_beta valid_timer_def split: if_splits)
  qed
  have "\<not> w \<ge> OS_SWTMR_MAX_TIMERID" using v by (simp add: valid_timer_def not_le)
  then have D: "p2 = OsSwtmrDelete i p1" "timers s2 = timers s1"
    using hd blk h i [symmetric] by (auto simp: OsSwtmrTask_handle_def item_roundtrip Let_def
        LOS_TickCountGet_def case_prod_beta timers_def)
  have l: "linked s2 i" using timersD(1) [OF D(2)] S(2) by simp
  have u: "\<not> swtmr_used p2 i" by (simp add: D(1) OsSwtmrDelete_sel swtmr_used_def)
  have "\<not> swtmr_inv p2 s2" using l u swtmr_invD(5) [of p2 s2 i] by (auto simp: swtmr_used_def swtmr_config)
  then show ?thesis using l u S(1) by (simp add: D(1) OsSwtmrDelete_sel)
qed

lemma swtmr_inv_timers: "timers s' = timers s \<Longrightarrow> swtmr_inv p s' = swtmr_inv p s"
  using link_ok_timers [of s' s] timersD [of s' s] by (simp add: swtmr_inv_def)

text \<open>Timer 1 has expired; a tick is being handled.\<close>

definition ex_expired :: sched where
  "ex_expired = (OsDeleteNodeSortLink (SwtmrNode 1) ex_timed)\<lparr>g_tickIntLock := 1\<rparr>"

lemma ex_expired_inv: "swtmr_inv ex_swtmr ex_expired"
proof -
  note D = swtmr_invD [OF ex_swtmr_inv]
  let ?s = "OsDeleteNodeSortLink (SwtmrNode 1) ex_timed"
  have "swtmr_inv ex_swtmr ?s"
  proof (rule inv_after [OF ex_swtmr_inv])
    show "link_ok ?s" by (rule Delete_effect(1) [OF D(3) refl])
    fix j
    show "j < 5 \<Longrightarrow> block_ok j (blk_of ex_swtmr j)" by (rule D(4))
    show "running_ok j (timer_view ex_swtmr ?s j)"
      using D(5) [of j] Delete_effect(3,4) [OF D(3) refl, where i = 1 and j = j]
      by (auto simp: running_ok_def)
  qed simp_all
  then show ?thesis using swtmr_inv_timers [of ex_expired ?s] by (simp add: ex_expired_def timers_def)
qed

theorem swtmr_once_restart_witness:
  "\<exists>p1 s1 warn p2 q2 s2. LOS_SwtmrStart 1 (ex_swtmr, ex_expired) = (LOS_OK, p1, s1)
     \<and> OsSwtmrTask_handle (\<lambda>_ _ z. z) LOS_OK
         (item_bytes \<lparr>item_handler = 0x1000, item_arg = 0, item_swtmrID = 1\<rparr>)
         sizeof_SwtmrHandlerItem (p1, ex_queues, s1) = (warn, p2, q2, s2) \<and> linked s2 1 \<and> \<not> swtmr_used p2 1"
proof -
  obtain r p1 s1 where st: "LOS_SwtmrStart 1 (ex_swtmr, ex_expired) = (r, p1, s1)" by (metis prod_cases3)
  obtain warn p2 q2 s2 where hd: "OsSwtmrTask_handle (\<lambda>_ _ z. z) LOS_OK
     (item_bytes \<lparr>item_handler = 0x1000, item_arg = 0, item_swtmrID = 1\<rparr>)
     sizeof_SwtmrHandlerItem (p1, ex_queues, s1) = (warn, p2, q2, s2)" by (metis prod_cases4)
  have v: "valid_timer ex_swtmr 1" and i: "1 = OS_SWT_FROM_SID 1" and o: "ucMode (blk_of ex_swtmr 1) = LOS_SWTMR_MODE_ONCE"
    by (simp_all add: valid_timer_def OS_SWT_FROM_SID_def ex_swtmr_def ex_block_def swtmr_used_def swtmr_config)
  let ?u = "if ucState (blk_of ex_swtmr 1) = OS_SWTMR_STATUS_TICKING then snd (OsSwtmrStop 1 (ex_swtmr, ex_expired))
    else ex_expired"
  have "tk ?u = ex_tick"
    by (simp add: OsSwtmrStop_def OsDeleteSortLink_def ex_expired_def OsDeleteNodeSortLink_def
        SET_SORTLIST_VALUE_def OsSchedUpdateExpireTime_def ex_timed_due ex_timed_def Let_def)
  then have n: "unat (fst (OsGetCurrSchedTimeCycle ?u)) < 2 ^ 63"
    by (simp add: GetCurrSchedTimeCycle_eq ex_tick_def LOS_SysCycleGet_def getCycle_def ex_timer_def Let_def)
  show ?thesis using swtmr_once_restart [OF ex_expired_inv v i o _ refl n st hd] st hd by simp
qed

lemma AddNode_last:
  assumes "xs \<noteq> []" "\<forall>m\<in>set xs. rt m < rt n"
  shows "OsAddNode2SortLink rt n xs = Some (xs @ [n])"
proof -
  obtain m ms where m: "rev xs = m # ms" using assms(1) by (cases "rev xs") auto
  then have xs: "xs = rev ms @ [m]" by (metis rev_rev_ident rev.simps(2))
  then have "rt m \<le> rt n" using assms(2) by (simp add: less_imp_le)
  then have "scan_back rt n (rev xs) [] = Some (xs @ [n])" using xs by simp
  moreover obtain x ys where "xs = x # ys" using assms(1) by (cases xs) auto
  ultimately show ?thesis using assms(2) by (auto simp: OsAddNode2SortLink_def)
qed

text \<open>
  Rebasing at the start of the scheduler follows the link of a node after putting it back
  into the list: when the first timer's new due time lies behind all the others, it ends up last,
  the loop stops, and every other timer keeps its old due time.
\<close>

theorem swtmr_reset_skips:
  assumes ok: "link_ok s" and l: "g_swtmrSortLink s = SwtmrNode i # ns" "ns \<noteq> []"
    and late: "\<forall>n\<in>set ns. responseTime s n < start + period (g_sysClock (tk s)) (blk_of p i)"
  shows "\<exists>p' s'. OsSwtmrResponseTimeReset start (p, s) = Some (p', s')
    \<and> g_swtmrSortLink s' = ns @ [SwtmrNode i]
    \<and> due_at s' i = start + period (g_sysClock (tk s)) (blk_of p i)
    \<and> (\<forall>j. j \<noteq> i \<longrightarrow> timer_view p' s' j = timer_view p s j)"
proof -
  let ?p0 = "upd_swtmr i (\<lambda>c. c\<lparr>swtmr_startTime := start\<rparr>) p" and ?s0 = "OsDeleteNodeSortLink (SwtmrNode i) s"
  let ?d = "start + period (g_sysClock (tk s)) (blk_of p i)"
  obtain p1 s1 where e: "OsSwtmrStart start i (?p0, ?s0) = (p1, s1)" by fastforce
  note D = Delete_effect [OF ok refl, where i = i]
  have n: "SwtmrNode i \<notin> set ns" using ok l(1) by (simp add: link_ok_def)
  have l0: "g_swtmrSortLink ?s0 = ns" using D(2) l(1) n by (simp add: removeAll_id)
  have ni: "\<not> linked ?s0 i" using D(3) [of i] by blast
  note S = Start_effect [OF D(1) ni e]
  let ?rt = "responseTime (SET_SORTLIST_VALUE (SwtmrNode i) ?d ?s0)"
  have rt: "?rt (SwtmrNode i) = ?d" "\<forall>m\<in>set ns. ?rt m < ?d"
    using late n by (auto simp: SET_SORTLIST_VALUE_def OsDeleteNodeSortLink_def)
  have ins: "OsAddNode2SortLink ?rt (SwtmrNode i) ns = Some (ns @ [SwtmrNode i])"
    by (rule AddNode_last [OF l(2)]) (use rt in simp)
  have c: "blk_of ?p0 i = (blk_of p i)\<lparr>swtmr_startTime := start\<rparr>" by simp
  have "s1 = OsSchedUpdateExpireTime ((SET_SORTLIST_VALUE (SwtmrNode i) ?d ?s0)\<lparr>g_swtmrSortLink := ns @ [SwtmrNode i]\<rparr>)"
    using e ins l0 D(5) by (auto simp: OsSwtmrStart_def Let_def OsAdd2SortLink_def link_of_def set_link_def
        period_def SET_SORTLIST_VALUE_def)
  then have l1: "g_swtmrSortLink s1 = ns @ [SwtmrNode i]" using timersD(1) [OF timers_UpdateExpire] by simp
  have "dropWhile (\<lambda>m. m \<noteq> SwtmrNode i) (ns @ [SwtmrNode i]) = [SwtmrNode i]"
    using n by (subst dropWhile_append2) auto
  then have "next_node (SwtmrNode i) (g_swtmrSortLink s1) = None" by (simp add: next_node_def l1)
  then have "OsSwtmrResponseTimeReset start (p, s) = Some (p1, s1)"
    using l(1) e by (simp add: OsSwtmrResponseTimeReset_def reset_loop.simps [of start "Some (SwtmrNode i)"]
        reset_loop.simps [of start None] Let_def)
  moreover have "timer_view p1 s1 j = timer_view p s j" if "j \<noteq> i" for j
    using that S(3,4) [of j] D(3,4) [of j] by (simp add: S(1))
  ultimately show ?thesis using l1 S(4) [of i] D(5) by (simp add: period_def)
qed

theorem swtmr_reset_skips_witness:
  "\<exists>p' s'. OsSwtmrResponseTimeReset 8000 (ex_swtmr, ex_timed) = Some (p', s')
     \<and> due_at s' 0 = 1608000 \<and> due_at s' 1 = 200"
proof -
  have p: "period (g_sysClock (tk ex_timed)) (blk_of ex_swtmr 0) = 1600000"
    by (simp add: period_def OS_SYS_TICK_TO_CYCLE_def ex_timed_due ex_tick_def ex_swtmr_def ex_block_def
        zero_swtmr_def tick_config)
  have l: "g_swtmrSortLink ex_timed = SwtmrNode 0 # [SwtmrNode 1, SwtmrNode 2]" by (simp add: ex_timed_def)
  have d: "\<forall>n\<in>set [SwtmrNode 1, SwtmrNode 2]. responseTime ex_timed n
      < 8000 + period (g_sysClock (tk ex_timed)) (blk_of ex_swtmr 0)"
    unfolding p by (simp add: ex_timed_due)
  from swtmr_reset_skips [OF swtmr_invD(3) [OF ex_swtmr_inv] l _ d] obtain p' s' where
    r: "OsSwtmrResponseTimeReset 8000 (ex_swtmr, ex_timed) = Some (p', s')" "due_at s' 0 = 8000 + 1600000"
    "\<forall>j. j \<noteq> 0 \<longrightarrow> timer_view p' s' j = timer_view ex_swtmr ex_timed j" unfolding p by auto
  have "due_at s' 1 = 200" using r(3) by (simp add: ex_timed_due)
  then show ?thesis using r(1,2) by auto
qed

end
