(* ===== verification/Los_Memory.thy ===== *)
theory Los_Memory
  imports Los_Membox
begin

text \<open>
  The heap (kernel/src/mm/los_memory.c): a two-level segregated fit allocator. Memory is a
  function from the byte address of an aligned word to the word, so headers, the links of the
  free lists, the gap word of an aligned block and the data of the program share one memory
  and can overlap. The options are those of los_config.h: several pools, water line recorded,
  no integrity check on each call, no leak check, no owner of a block, no expansion of a pool,
  no regions. The result None is a call that does not return: \<open>LOS_Panic\<close>, or a list that does
  not end. Interrupt locks are omitted, since nothing interleaves with an operation.
\<close>

section \<open>Layout\<close>

type_synonym hmem = "u32 \<Rightarrow> u32"

text \<open>Fields of a node header, and of a free node behind it.\<close>

definition node_prev :: "u32 \<Rightarrow> u32" where "node_prev n = n"
definition node_size :: "u32 \<Rightarrow> u32" where "node_size n = n + 4"
definition free_prev :: "u32 \<Rightarrow> u32" where "free_prev n = n + 8"
definition free_next :: "u32 \<Rightarrow> u32" where "free_next n = n + 12"

text \<open>Fields of the head of a pool.\<close>

definition pool_self :: "u32 \<Rightarrow> u32" where "pool_self p = p"
definition pool_totalSize :: "u32 \<Rightarrow> u32" where "pool_totalSize p = p + 4"
definition pool_attr :: "u32 \<Rightarrow> u32" where "pool_attr p = p + 8"
definition pool_waterLine :: "u32 \<Rightarrow> u32" where "pool_waterLine p = p + 12"
definition pool_curUsedSize :: "u32 \<Rightarrow> u32" where "pool_curUsedSize p = p + 16"
definition pool_bitmap :: "u32 \<Rightarrow> u32 \<Rightarrow> u32" where "pool_bitmap p w = p + 20 + 4 * w"
definition pool_freeList :: "u32 \<Rightarrow> u32 \<Rightarrow> u32" where "pool_freeList p i = p + 48 + 4 * i"
definition pool_nextPool :: "u32 \<Rightarrow> u32" where "pool_nextPool p = p + 940"

definition sizeof_OsMemPoolHead :: u32 where "sizeof_OsMemPoolHead = 944"

definition OS_MEM_SLI :: nat where "OS_MEM_SLI = 3"
definition OS_MEM_SMALL_BUCKET_COUNT :: u32 where "OS_MEM_SMALL_BUCKET_COUNT = 31"
definition OS_MEM_SMALL_BUCKET_MAX_SIZE :: u32 where "OS_MEM_SMALL_BUCKET_MAX_SIZE = 128"
definition OS_MEM_LARGE_BUCKET_COUNT :: u32 where "OS_MEM_LARGE_BUCKET_COUNT = 24"
definition OS_MEM_LARGE_START_BUCKET :: u32 where "OS_MEM_LARGE_START_BUCKET = 7"
definition OS_MEM_FREE_LIST_COUNT :: u32 where
  "OS_MEM_FREE_LIST_COUNT = OS_MEM_SMALL_BUCKET_COUNT + push_bit OS_MEM_SLI OS_MEM_LARGE_BUCKET_COUNT"
definition OS_MEM_BITMAP_MASK :: u32 where "OS_MEM_BITMAP_MASK = 0x1F"

definition OS_MEM_POOL_EXPAND_ENABLE :: u32 where "OS_MEM_POOL_EXPAND_ENABLE = 0x01"
definition OS_MEM_POOL_UNLOCK_ENABLE :: u32 where "OS_MEM_POOL_UNLOCK_ENABLE = 0x02"

definition OS_MEM_NODE_USED_FLAG :: u32 where "OS_MEM_NODE_USED_FLAG = 0x80000000"
definition OS_MEM_NODE_ALIGNED_FLAG :: u32 where "OS_MEM_NODE_ALIGNED_FLAG = 0x40000000"
definition OS_MEM_NODE_LEAK_FLAG :: u32 where "OS_MEM_NODE_LEAK_FLAG = 0"
definition OS_MEM_NODE_LAST_FLAG :: u32 where "OS_MEM_NODE_LAST_FLAG = 0"
definition OS_MEM_NODE_ALIGNED_AND_USED_FLAG :: u32 where
  "OS_MEM_NODE_ALIGNED_AND_USED_FLAG = OS_MEM_NODE_USED_FLAG OR OS_MEM_NODE_ALIGNED_FLAG
     OR OS_MEM_NODE_LEAK_FLAG OR OS_MEM_NODE_LAST_FLAG"

definition OS_MEM_NODE_GET_USED_FLAG :: "u32 \<Rightarrow> u32" where
  "OS_MEM_NODE_GET_USED_FLAG w = w AND OS_MEM_NODE_USED_FLAG"
definition OS_MEM_NODE_GET_ALIGNED_FLAG :: "u32 \<Rightarrow> u32" where
  "OS_MEM_NODE_GET_ALIGNED_FLAG w = w AND OS_MEM_NODE_ALIGNED_FLAG"
definition OS_MEM_NODE_GET_LAST_FLAG :: "u32 \<Rightarrow> u32" where
  "OS_MEM_NODE_GET_LAST_FLAG w = w AND OS_MEM_NODE_LAST_FLAG"
definition OS_MEM_NODE_GET_SIZE :: "u32 \<Rightarrow> u32" where
  "OS_MEM_NODE_GET_SIZE w = w AND NOT OS_MEM_NODE_ALIGNED_AND_USED_FLAG"
definition OS_MEM_NODE_SET_USED_FLAG :: "u32 \<Rightarrow> u32" where
  "OS_MEM_NODE_SET_USED_FLAG w = w OR OS_MEM_NODE_USED_FLAG"
definition OS_MEM_NODE_SET_ALIGNED_FLAG :: "u32 \<Rightarrow> u32" where
  "OS_MEM_NODE_SET_ALIGNED_FLAG w = w OR OS_MEM_NODE_ALIGNED_FLAG"

definition OS_MEM_GAPSIZE_USED_FLAG :: u32 where "OS_MEM_GAPSIZE_USED_FLAG = 0x80000000"
definition OS_MEM_GAPSIZE_ALIGNED_FLAG :: u32 where "OS_MEM_GAPSIZE_ALIGNED_FLAG = 0x40000000"
definition OS_MEM_GET_ALIGNED_GAPSIZE :: "u32 \<Rightarrow> u32" where
  "OS_MEM_GET_ALIGNED_GAPSIZE g = g AND NOT OS_MEM_GAPSIZE_ALIGNED_FLAG"
definition OS_MEM_GET_GAPSIZE_ALIGNED_FLAG :: "u32 \<Rightarrow> u32" where
  "OS_MEM_GET_GAPSIZE_ALIGNED_FLAG g = g AND OS_MEM_GAPSIZE_ALIGNED_FLAG"
definition OS_MEM_GET_GAPSIZE_USED_FLAG :: "u32 \<Rightarrow> u32" where
  "OS_MEM_GET_GAPSIZE_USED_FLAG g = g AND OS_MEM_GAPSIZE_USED_FLAG"
definition OS_MEM_SET_GAPSIZE_ALIGNED_FLAG :: "u32 \<Rightarrow> u32" where
  "OS_MEM_SET_GAPSIZE_ALIGNED_FLAG g = g OR OS_MEM_GAPSIZE_ALIGNED_FLAG"
definition OS_MEM_GAPSIZE_CHECK :: "u32 \<Rightarrow> bool" where
  "OS_MEM_GAPSIZE_CHECK g \<longleftrightarrow> OS_MEM_GET_GAPSIZE_ALIGNED_FLAG g \<noteq> 0 \<and> OS_MEM_GET_GAPSIZE_USED_FLAG g \<noteq> 0"

definition OS_MEM_ALIGN_SIZE :: u32 where "OS_MEM_ALIGN_SIZE = 4"
definition OS_MEM_IS_POW_TWO :: "u32 \<Rightarrow> bool" where
  "OS_MEM_IS_POW_TWO v \<longleftrightarrow> v AND (v - 1) = 0"
definition OS_MEM_ALIGN :: "u32 \<Rightarrow> u32 \<Rightarrow> u32" where
  "OS_MEM_ALIGN p alignSize = (p + alignSize - 1) AND NOT (alignSize - 1)"
definition OS_MEM_IS_ALIGNED :: "u32 \<Rightarrow> u32 \<Rightarrow> bool" where
  "OS_MEM_IS_ALIGNED a b \<longleftrightarrow> a AND (b - 1) = 0"
definition OS_MEM_NODE_HEAD_SIZE :: u32 where "OS_MEM_NODE_HEAD_SIZE = 8"
definition OS_MEM_MIN_POOL_SIZE :: u32 where
  "OS_MEM_MIN_POOL_SIZE = OS_MEM_NODE_HEAD_SIZE + sizeof_OsMemPoolHead"
definition OS_MEM_MIN_LEFT_SIZE :: u32 where "OS_MEM_MIN_LEFT_SIZE = 16"
definition OS_MEM_MIN_ALLOC_SIZE :: u32 where "OS_MEM_MIN_ALLOC_SIZE = 8"

definition OS_MEM_NEXT_NODE :: "hmem \<Rightarrow> u32 \<Rightarrow> u32" where
  "OS_MEM_NEXT_NODE m node = node + OS_MEM_NODE_GET_SIZE (m (node_size node))"
definition OS_MEM_FIRST_NODE :: "u32 \<Rightarrow> u32" where
  "OS_MEM_FIRST_NODE pool = pool + sizeof_OsMemPoolHead"
definition OS_MEM_END_NODE :: "u32 \<Rightarrow> u32 \<Rightarrow> u32" where
  "OS_MEM_END_NODE pool sz = pool + sz - OS_MEM_NODE_HEAD_SIZE"
definition OS_MEM_MIDDLE_ADDR_OPEN_END :: "u32 \<Rightarrow> u32 \<Rightarrow> u32 \<Rightarrow> bool" where
  "OS_MEM_MIDDLE_ADDR_OPEN_END startAddr middleAddr endAddr \<longleftrightarrow> startAddr \<le> middleAddr \<and> middleAddr < endAddr"
definition OS_MEM_MIDDLE_ADDR :: "u32 \<Rightarrow> u32 \<Rightarrow> u32 \<Rightarrow> bool" where
  "OS_MEM_MIDDLE_ADDR startAddr middleAddr endAddr \<longleftrightarrow> startAddr \<le> middleAddr \<and> middleAddr \<le> endAddr"

abbreviation used_at :: "hmem \<Rightarrow> u32 \<Rightarrow> bool" where
  "used_at m node \<equiv> OS_MEM_NODE_GET_USED_FLAG (m (node_size node)) \<noteq> 0"

section \<open>Size classes\<close>

definition OsMemFFS :: "u32 \<Rightarrow> u16" where
  "OsMemFFS bitmap = ucast (OS_MEM_BITMAP_MASK - of_nat (CLZ (bitmap AND (NOT bitmap + 1))))"

definition OsMemFLS :: "u32 \<Rightarrow> u16" where
  "OsMemFLS bitmap = ucast (OS_MEM_BITMAP_MASK - of_nat (CLZ bitmap))"

definition OsMemLog2 :: "u32 \<Rightarrow> u32" where
  "OsMemLog2 sz = (if sz > 0 then ucast (OsMemFLS sz) else 0)"

definition OsMemFlGet :: "u32 \<Rightarrow> u32" where
  "OsMemFlGet sz =
     (if sz < OS_MEM_SMALL_BUCKET_MAX_SIZE then drop_bit 2 sz - 1
      else OsMemLog2 sz - OS_MEM_LARGE_START_BUCKET + OS_MEM_SMALL_BUCKET_COUNT)"

definition OsMemSlGet :: "u32 \<Rightarrow> u32 \<Rightarrow> u32" where
  "OsMemSlGet sz fl =
     (if fl < OS_MEM_SMALL_BUCKET_COUNT \<or> sz < OS_MEM_SMALL_BUCKET_MAX_SIZE then 0
      else
        (let sl = drop_bit (unat (fl - OS_MEM_SMALL_BUCKET_COUNT + OS_MEM_LARGE_START_BUCKET))
                    (push_bit OS_MEM_SLI sz)
         in sl - push_bit OS_MEM_SLI 1))"

definition OsMemFreeListIndexGet :: "u32 \<Rightarrow> u32" where
  "OsMemFreeListIndexGet sz =
     (let fl = OsMemFlGet sz
      in if fl < OS_MEM_SMALL_BUCKET_COUNT then fl
         else OS_MEM_SMALL_BUCKET_COUNT + push_bit OS_MEM_SLI (fl - OS_MEM_SMALL_BUCKET_COUNT)
                + OsMemSlGet sz fl)"

section \<open>Searching the free lists\<close>

text \<open>The first node of a list that is large enough: the loop of \<open>OsMemFindCurSuitableBlock\<close>.\<close>

partial_function (option) find_block :: "hmem \<Rightarrow> u32 \<Rightarrow> u32 \<Rightarrow> u32 option" where
  "find_block m node sz =
     (if node = 0 then Some 0
      else if m (node_size node) \<ge> sz then Some node
      else find_block m (m (free_next node)) sz)"

definition OsMemFindCurSuitableBlock :: "u32 \<Rightarrow> u32 \<Rightarrow> u32 \<Rightarrow> hmem \<Rightarrow> u32 option" where
  "OsMemFindCurSuitableBlock p index sz m = find_block m (m (pool_freeList p index)) sz"

definition OsMemNotEmptyIndexGet :: "u32 \<Rightarrow> u32 \<Rightarrow> hmem \<Rightarrow> u32" where
  "OsMemNotEmptyIndexGet p index m =
     (let mask = m (pool_bitmap p (drop_bit 5 index))
                   AND NOT (push_bit (unat (index AND OS_MEM_BITMAP_MASK)) 1 - 1)
      in if mask \<noteq> 0 then ucast (OsMemFFS mask) + (index AND NOT OS_MEM_BITMAP_MASK)
         else OS_MEM_FREE_LIST_COUNT)"

text \<open>The loop over the later words of the bitmap.\<close>

function scan_words :: "u32 \<Rightarrow> u32 \<Rightarrow> hmem \<Rightarrow> u32 option" where
  "scan_words p index m =
     (if index < OS_MEM_FREE_LIST_COUNT
      then (let mask = m (pool_bitmap p (drop_bit 5 index))
            in if mask \<noteq> 0 then Some (ucast (OsMemFFS mask) + index)
               else scan_words p (index + 32) m)
      else None)"
  by pat_completeness auto
termination
proof (relation "measure (\<lambda>(p, index, m). 256 - unat index)")
  fix p index :: u32 and m :: hmem and mask
  assume "index < OS_MEM_FREE_LIST_COUNT"
  then have i: "unat index < 223"
    by (simp add: OS_MEM_FREE_LIST_COUNT_def OS_MEM_SMALL_BUCKET_COUNT_def OS_MEM_SLI_def
        OS_MEM_LARGE_BUCKET_COUNT_def word_less_nat_alt)
  then have "unat (index + 32) = unat index + 32"
    by (subst unat_add_lem [THEN iffD1]) auto
  with i show "((p, index + 32, m), p, index, m) \<in> measure (\<lambda>(p, index, m). 256 - unat index)"
    by simp
qed simp

declare scan_words.simps [simp del]

text \<open>The node, or 0, and \<open>outIndex\<close>, which is not written when the node is 0 by the early return.\<close>

definition OsMemFindNextSuitableBlock :: "u32 \<Rightarrow> u32 \<Rightarrow> hmem \<Rightarrow> (u32 \<times> u32) option" where
  "OsMemFindNextSuitableBlock p sz m =
     (let fl = OsMemFlGet sz;
          (index, curIndex) =
            (if fl < OS_MEM_SMALL_BUCKET_COUNT then (fl, OS_MEM_FREE_LIST_COUNT)
             else
               (let curIndex = push_bit OS_MEM_SLI (fl - OS_MEM_SMALL_BUCKET_COUNT) + OsMemSlGet sz fl
                                 + OS_MEM_SMALL_BUCKET_COUNT
                in (curIndex + 1, curIndex)));
          tmp = OsMemNotEmptyIndexGet p index m
      in if tmp \<noteq> OS_MEM_FREE_LIST_COUNT then Some (m (pool_freeList p tmp), tmp)
         else case scan_words p (LOS_Align (index + 1) 32) m of
             Some i \<Rightarrow> Some (m (pool_freeList p i), i)
           | None \<Rightarrow>
               if curIndex = OS_MEM_FREE_LIST_COUNT then Some (0, curIndex)
               else map_option (\<lambda>node. (node, curIndex)) (OsMemFindCurSuitableBlock p curIndex sz m))"

section \<open>The free lists\<close>

definition OsMemSetFreeListBit :: "u32 \<Rightarrow> u32 \<Rightarrow> hmem \<Rightarrow> hmem" where
  "OsMemSetFreeListBit p index m =
     m(pool_bitmap p (drop_bit 5 index) :=
         m (pool_bitmap p (drop_bit 5 index)) OR push_bit (unat (index AND 0x1F)) 1)"

definition OsMemClearFreeListBit :: "u32 \<Rightarrow> u32 \<Rightarrow> hmem \<Rightarrow> hmem" where
  "OsMemClearFreeListBit p index m =
     m(pool_bitmap p (drop_bit 5 index) :=
         m (pool_bitmap p (drop_bit 5 index)) AND NOT (push_bit (unat (index AND 0x1F)) 1))"

definition OsMemListAdd :: "u32 \<Rightarrow> u32 \<Rightarrow> u32 \<Rightarrow> hmem \<Rightarrow> hmem" where
  "OsMemListAdd p listIndex node m =
     (let firstNode = m (pool_freeList p listIndex);
          m1 = (if firstNode \<noteq> 0 then m(free_prev firstNode := node) else m);
          m2 = m1(free_prev node := 0);
          m3 = m2(free_next node := firstNode);
          m4 = m3(pool_freeList p listIndex := node)
      in OsMemSetFreeListBit p listIndex m4)"

definition OsMemListDelete :: "u32 \<Rightarrow> u32 \<Rightarrow> u32 \<Rightarrow> hmem \<Rightarrow> hmem" where
  "OsMemListDelete p listIndex node m =
     (if node = m (pool_freeList p listIndex)
      then
        (let m1 = m(pool_freeList p listIndex := m (free_next node))
         in if m1 (free_next node) = 0 then OsMemClearFreeListBit p listIndex m1
            else m1(free_prev (m1 (free_next node)) := 0))
      else
        (let m1 = m(free_next (m (free_prev node)) := m (free_next node))
         in if m1 (free_next node) \<noteq> 0
            then m1(free_prev (m1 (free_next node)) := m1 (free_prev node)) else m1))"

definition OsMemFreeNodeAdd :: "u32 \<Rightarrow> u32 \<Rightarrow> hmem \<Rightarrow> hmem option" where
  "OsMemFreeNodeAdd p node m =
     (let index = OsMemFreeListIndexGet (m (node_size node))
      in if index \<ge> OS_MEM_FREE_LIST_COUNT then None else Some (OsMemListAdd p index node m))"

definition OsMemFreeNodeDelete :: "u32 \<Rightarrow> u32 \<Rightarrow> hmem \<Rightarrow> hmem" where
  "OsMemFreeNodeDelete p node m =
     OsMemListDelete p (OsMemFreeListIndexGet (m (node_size node))) node m"

definition OsMemFreeNodeGet :: "u32 \<Rightarrow> u32 \<Rightarrow> hmem \<Rightarrow> (u32 \<times> hmem) option" where
  "OsMemFreeNodeGet p sz m =
     (case OsMemFindNextSuitableBlock p sz m of
        None \<Rightarrow> None
      | Some (firstNode, index) \<Rightarrow>
          if firstNode = 0 then Some (0, m)
          else Some (firstNode, OsMemListDelete p index firstNode m))"

section \<open>Merging and splitting\<close>

definition OsMemMergeNode :: "u32 \<Rightarrow> hmem \<Rightarrow> hmem" where
  "OsMemMergeNode node m =
     (let m1 = m(node_size (m (node_prev node)) :=
                   m (node_size (m (node_prev node))) + m (node_size node));
          nextNode = node + m1 (node_size node)
      in if OS_MEM_NODE_GET_LAST_FLAG (m1 (node_size nextNode)) = 0
         then m1(node_prev nextNode := m1 (node_prev node)) else m1)"

definition OsMemSplitNode :: "u32 \<Rightarrow> u32 \<Rightarrow> u32 \<Rightarrow> hmem \<Rightarrow> hmem option" where
  "OsMemSplitNode p allocNode allocSize m =
     (let newFreeNode = allocNode + allocSize;
          m1 = m(node_prev newFreeNode := allocNode);
          m2 = m1(node_size newFreeNode := m1 (node_size allocNode) - allocSize);
          m3 = m2(node_size allocNode := allocSize);
          nextNode = OS_MEM_NEXT_NODE m3 newFreeNode;
          m5 = (if OS_MEM_NODE_GET_LAST_FLAG (m3 (node_size nextNode)) = 0
                then
                  (let m4 = m3(node_prev nextNode := newFreeNode)
                   in if \<not> used_at m4 nextNode
                      then OsMemMergeNode nextNode (OsMemFreeNodeDelete p nextNode m4) else m4)
                else m3)
      in OsMemFreeNodeAdd p newFreeNode m5)"

definition OsMemCreateUsedNode :: "u32 \<Rightarrow> u32" where
  "OsMemCreateUsedNode addr = addr + OS_MEM_NODE_HEAD_SIZE"

definition OsMemWaterUsedRecord :: "u32 \<Rightarrow> u32 \<Rightarrow> hmem \<Rightarrow> hmem" where
  "OsMemWaterUsedRecord p sz m =
     (let m1 = m(pool_curUsedSize p := m (pool_curUsedSize p) + sz)
      in if m1 (pool_curUsedSize p) > m1 (pool_waterLine p)
         then m1(pool_waterLine p := m1 (pool_curUsedSize p)) else m1)"

section \<open>Examination\<close>

definition OsMemAddrValidCheck :: "u32 \<Rightarrow> u32 \<Rightarrow> hmem \<Rightarrow> bool" where
  "OsMemAddrValidCheck p addr m \<longleftrightarrow>
     OS_MEM_MIDDLE_ADDR_OPEN_END (p + sizeof_OsMemPoolHead) addr (p + m (pool_totalSize p))"

definition OsMemAddrValidCheckPrint :: "u32 \<Rightarrow> u32 \<Rightarrow> hmem \<Rightarrow> u32" where
  "OsMemAddrValidCheckPrint p tmpNode m =
     (if m (free_prev tmpNode) \<noteq> 0 \<and> \<not> OsMemAddrValidCheck p (m (free_prev tmpNode)) m then LOS_NOK
      else if m (free_next tmpNode) \<noteq> 0 \<and> \<not> OsMemAddrValidCheck p (m (free_next tmpNode)) m then LOS_NOK
      else LOS_OK)"

definition OsMemIntegrityCheckSub :: "u32 \<Rightarrow> u32 \<Rightarrow> hmem \<Rightarrow> u32" where
  "OsMemIntegrityCheckSub tmpNode p m =
     (if \<not> OsMemAddrValidCheck p (m (node_prev tmpNode)) m then LOS_NOK
      else if \<not> used_at m tmpNode \<and> OsMemAddrValidCheckPrint p tmpNode m \<noteq> 0 then LOS_NOK
      else LOS_OK)"

definition OsMemFreeListNodeCheck :: "u32 \<Rightarrow> u32 \<Rightarrow> hmem \<Rightarrow> u32" where
  "OsMemFreeListNodeCheck p node m =
     (if \<not> OsMemAddrValidCheck p node m
         \<or> m (free_prev node) \<noteq> 0 \<and> \<not> OsMemAddrValidCheck p (m (free_prev node)) m
         \<or> m (free_next node) \<noteq> 0 \<and> \<not> OsMemAddrValidCheck p (m (free_next node)) m
         \<or> \<not> OsMemAddrValidCheck p (m (node_prev node)) m then LOS_NOK
      else if \<not> OS_MEM_IS_ALIGNED node 4 \<or> \<not> OS_MEM_IS_ALIGNED (m (free_prev node)) 4
         \<or> \<not> OS_MEM_IS_ALIGNED (m (free_next node)) 4 \<or> \<not> OS_MEM_IS_ALIGNED (m (node_prev node)) 4
      then LOS_NOK else LOS_OK)"

text \<open>
  Visiting the nodes of one free list; \<open>OsMemPoolHeadCheck\<close> visits all lists and only prints, so
  what it gives here is whether it returns, and the flag that decides what it prints.
\<close>

partial_function (option) list_walk :: "(u32 \<Rightarrow> 'a \<Rightarrow> 'a) \<Rightarrow> hmem \<Rightarrow> u32 \<Rightarrow> 'a \<Rightarrow> 'a option" where
  "list_walk f m node acc = (if node = 0 then Some acc else list_walk f m (m (free_next node)) (f node acc))"

fun lists_walk :: "(u32 \<Rightarrow> u32 \<Rightarrow> 'a \<Rightarrow> 'a) \<Rightarrow> u32 \<Rightarrow> hmem \<Rightarrow> nat list \<Rightarrow> 'a \<Rightarrow> 'a option" where
  "lists_walk f p m [] acc = Some acc"
| "lists_walk f p m (i # is) acc =
     (case list_walk (f (of_nat i)) m (m (pool_freeList p (of_nat i))) acc of
        None \<Rightarrow> None | Some acc' \<Rightarrow> lists_walk f p m is acc')"

definition OsMemPoolHeadCheck :: "u32 \<Rightarrow> hmem \<Rightarrow> bool option" where
  "OsMemPoolHeadCheck p m =
     (if m (pool_self p) \<noteq> p \<or> \<not> OS_MEM_IS_ALIGNED p 4 then Some False
      else lists_walk (\<lambda>_ node fl. fl \<or> OsMemFreeListNodeCheck p node m \<noteq> 0) p m
             [0..<unat OS_MEM_FREE_LIST_COUNT] False)"

text \<open>The loop of \<open>OsMemIntegrityCheck\<close> from one node on.\<close>

partial_function (option) check_nodes :: "u32 \<Rightarrow> u32 \<Rightarrow> hmem \<Rightarrow> u32 \<Rightarrow> u32 option" where
  "check_nodes p endNode m tmpNode =
     (if tmpNode < endNode
      then if OsMemIntegrityCheckSub tmpNode p m = LOS_NOK then Some LOS_NOK
           else check_nodes p endNode m (OS_MEM_NEXT_NODE m tmpNode)
      else Some LOS_OK)"

definition OsMemIntegrityCheck :: "u32 \<Rightarrow> hmem \<Rightarrow> u32 option" where
  "OsMemIntegrityCheck p m =
     (case OsMemPoolHeadCheck p m of
        None \<Rightarrow> None
      | Some _ \<Rightarrow> check_nodes p (OS_MEM_END_NODE p (m (pool_totalSize p))) m (OS_MEM_FIRST_NODE p))"

text \<open>After an error \<open>OsMemIntegrityCheckError\<close> records it and panics.\<close>

definition LOS_MemIntegrityCheck :: "u32 \<Rightarrow> hmem \<Rightarrow> u32 option" where
  "LOS_MemIntegrityCheck p m =
     (if p = 0 then Some LOS_NOK
      else case OsMemIntegrityCheck p m of
          None \<Rightarrow> None
        | Some r \<Rightarrow> if r \<noteq> 0 then None else Some LOS_OK)"

text \<open>Visiting all nodes of a pool with \<open>handle\<close>, which reads only.\<close>

partial_function (option) nodes_do :: "(u32 \<Rightarrow> 'a \<Rightarrow> 'a) \<Rightarrow> hmem \<Rightarrow> u32 \<Rightarrow> u32 \<Rightarrow> 'a \<Rightarrow> 'a option" where
  "nodes_do handle m endNode tmpNode acc =
     (if tmpNode \<le> endNode
      then if tmpNode = endNode then Some acc
           else nodes_do handle m endNode (OS_MEM_NEXT_NODE m tmpNode) (handle tmpNode acc)
      else Some acc)"

definition OsAllMemNodeDoHandle :: "u32 \<Rightarrow> (u32 \<Rightarrow> 'a \<Rightarrow> 'a) \<Rightarrow> hmem \<Rightarrow> 'a \<Rightarrow> 'a option" where
  "OsAllMemNodeDoHandle p handle m acc =
     (if p = 0 then Some acc
      else case LOS_MemIntegrityCheck p m of
          None \<Rightarrow> None
        | Some r \<Rightarrow>
            if r \<noteq> 0 then Some acc
            else nodes_do handle m (OS_MEM_END_NODE p (m (pool_totalSize p))) (OS_MEM_FIRST_NODE p) acc)"

record LOS_MEM_POOL_STATUS =
  totalUsedSize :: u32
  totalFreeSize :: u32
  maxFreeNodeSize :: u32
  usedNodeNum :: u32
  freeNodeNum :: u32
  usageWaterLine :: u32

definition OsMemInfoGet :: "hmem \<Rightarrow> u32 \<Rightarrow> LOS_MEM_POOL_STATUS \<Rightarrow> LOS_MEM_POOL_STATUS" where
  "OsMemInfoGet m node poolStatus =
     (let sz = OS_MEM_NODE_GET_SIZE (m (node_size node))
      in if \<not> used_at m node
         then poolStatus\<lparr>totalFreeSize := totalFreeSize poolStatus + sz,
                maxFreeNodeSize := (if maxFreeNodeSize poolStatus > sz then maxFreeNodeSize poolStatus else sz),
                freeNodeNum := freeNodeNum poolStatus + 1\<rparr>
         else poolStatus\<lparr>totalUsedSize := totalUsedSize poolStatus + sz,
                usedNodeNum := usedNodeNum poolStatus + 1\<rparr>)"

definition zero_status :: LOS_MEM_POOL_STATUS where
  "zero_status = \<lparr>totalUsedSize = 0, totalFreeSize = 0, maxFreeNodeSize = 0, usedNodeNum = 0,
     freeNodeNum = 0, usageWaterLine = 0\<rparr>"

text \<open>\<open>poolStatus\<close> says the pointer is not NULL; what is written there is the second result.\<close>

definition LOS_MemInfoGet :: "u32 \<Rightarrow> bool \<Rightarrow> hmem \<Rightarrow> (u32 \<times> LOS_MEM_POOL_STATUS option) option" where
  "LOS_MemInfoGet p poolStatus m =
     (if \<not> poolStatus then Some (LOS_NOK, None)
      else if p = 0 \<or> m (pool_self p) \<noteq> p then Some (LOS_NOK, None)
      else case OsAllMemNodeDoHandle p (OsMemInfoGet m) m zero_status of
          None \<Rightarrow> None
        | Some r \<Rightarrow> Some (LOS_OK, Some (r\<lparr>usageWaterLine := m (pool_waterLine p)\<rparr>)))"

text \<open>What it prints is not modelled, only whether it returns.\<close>

definition OsMemInfoPrint :: "u32 \<Rightarrow> hmem \<Rightarrow> unit option" where
  "OsMemInfoPrint p m = (case LOS_MemInfoGet p True m of None \<Rightarrow> None | Some _ \<Rightarrow> Some ())"

definition LOS_MemPoolSizeGet :: "u32 \<Rightarrow> hmem \<Rightarrow> u32" where
  "LOS_MemPoolSizeGet p m = (if p = 0 then LOS_NOK else m (pool_totalSize p))"

definition MemUsedGetHandle :: "hmem \<Rightarrow> u32 \<Rightarrow> u32 \<Rightarrow> u32" where
  "MemUsedGetHandle m curNode memUsed =
     (if used_at m curNode then memUsed + OS_MEM_NODE_GET_SIZE (m (node_size curNode)) else memUsed)"

definition LOS_MemTotalUsedGet :: "u32 \<Rightarrow> hmem \<Rightarrow> u32 option" where
  "LOS_MemTotalUsedGet p m =
     (if p = 0 then Some LOS_NOK else OsAllMemNodeDoHandle p (MemUsedGetHandle m) m 0)"

text \<open>The counts that are printed, by list.\<close>

definition LOS_MemFreeNodeShow :: "u32 \<Rightarrow> hmem \<Rightarrow> (u32 \<times> (u32 \<Rightarrow> u32)) option" where
  "LOS_MemFreeNodeShow p m =
     (if p = 0 \<or> p \<noteq> m (pool_self p) then Some (LOS_NOK, \<lambda>_. 0)
      else case lists_walk (\<lambda>i _ c. c(i := c i + 1)) p m [0..<unat OS_MEM_FREE_LIST_COUNT] (\<lambda>_. 0) of
          None \<Rightarrow> None
        | Some c \<Rightarrow> Some (LOS_OK, c))"

section \<open>Allocation\<close>

definition OsMemAlloc :: "u32 \<Rightarrow> u32 \<Rightarrow> hmem \<Rightarrow> (u32 \<times> hmem) option" where
  "OsMemAlloc p sz m =
     (let allocSize = OS_MEM_ALIGN (sz + OS_MEM_NODE_HEAD_SIZE) OS_MEM_ALIGN_SIZE
      in case OsMemFreeNodeGet p allocSize m of
           None \<Rightarrow> None
         | Some (allocNode, m1) \<Rightarrow>
             if allocNode = 0
             then (case OsMemInfoPrint p m1 of None \<Rightarrow> None | Some _ \<Rightarrow> Some (0, m1))
             else
               (case (if allocSize + OS_MEM_MIN_LEFT_SIZE \<le> m1 (node_size allocNode)
                      then OsMemSplitNode p allocNode allocSize m1 else Some m1) of
                  None \<Rightarrow> None
                | Some m2 \<Rightarrow>
                    (let m3 = m2(node_size allocNode := OS_MEM_NODE_SET_USED_FLAG (m2 (node_size allocNode)));
                         m4 = OsMemWaterUsedRecord p (OS_MEM_NODE_GET_SIZE (m3 (node_size allocNode))) m3
                     in Some (OsMemCreateUsedNode allocNode, m4))))"

definition LOS_MemAlloc :: "u32 \<Rightarrow> u32 \<Rightarrow> hmem \<Rightarrow> (u32 \<times> hmem) option" where
  "LOS_MemAlloc p sz m =
     (if p = 0 \<or> sz = 0 then Some (0, m)
      else
        (let sz = (if sz < OS_MEM_MIN_ALLOC_SIZE then OS_MEM_MIN_ALLOC_SIZE else sz)
         in if OS_MEM_NODE_GET_USED_FLAG sz \<noteq> 0 \<or> OS_MEM_NODE_GET_ALIGNED_FLAG sz \<noteq> 0 then Some (0, m)
            else OsMemAlloc p sz m))"

definition LOS_MemAllocAlign :: "u32 \<Rightarrow> u32 \<Rightarrow> u32 \<Rightarrow> hmem \<Rightarrow> (u32 \<times> hmem) option" where
  "LOS_MemAllocAlign p sz boundary m =
     (if p = 0 \<or> sz = 0 \<or> boundary = 0 \<or> \<not> OS_MEM_IS_POW_TWO boundary \<or> \<not> OS_MEM_IS_ALIGNED boundary 4
      then Some (0, m)
      else
        (let sz = (if sz < OS_MEM_MIN_ALLOC_SIZE then OS_MEM_MIN_ALLOC_SIZE else sz)
         in if boundary - 4 > 0xFFFFFFFF - sz then Some (0, m)
            else
              (let useSize = (sz + boundary) - 4
               in if OS_MEM_NODE_GET_USED_FLAG useSize \<noteq> 0 \<or> OS_MEM_NODE_GET_ALIGNED_FLAG useSize \<noteq> 0
                  then Some (0, m)
                  else case OsMemAlloc p useSize m of
                      None \<Rightarrow> None
                    | Some (ptr, m1) \<Rightarrow>
                        (let alignedPtr = OS_MEM_ALIGN ptr boundary
                         in if ptr = alignedPtr then Some (ptr, m1)
                            else
                              (let gapSize = alignedPtr - ptr;
                                   allocNode = ptr - OS_MEM_NODE_HEAD_SIZE;
                                   m2 = m1(node_size allocNode :=
                                             OS_MEM_NODE_SET_ALIGNED_FLAG (m1 (node_size allocNode)));
                                   m3 = m2(alignedPtr - 4 := OS_MEM_SET_GAPSIZE_ALIGNED_FLAG gapSize)
                               in Some (alignedPtr, m3))))))"

section \<open>Freeing\<close>

definition OsMemIsNodeValid :: "u32 \<Rightarrow> u32 \<Rightarrow> u32 \<Rightarrow> u32 \<Rightarrow> hmem \<Rightarrow> bool" where
  "OsMemIsNodeValid node startNode endNode p m \<longleftrightarrow>
     (if \<not> OS_MEM_MIDDLE_ADDR startNode node endNode then False
      else if used_at m node then True
      else if \<not> OsMemAddrValidCheck p (m (node_prev node)) m then False
      else True)"

definition OsMemCheckUsedNode :: "u32 \<Rightarrow> u32 \<Rightarrow> hmem \<Rightarrow> u32" where
  "OsMemCheckUsedNode p node m =
     (let startNode = OS_MEM_FIRST_NODE p;
          endNode = OS_MEM_END_NODE p (m (pool_totalSize p));
          nextNode = OS_MEM_NEXT_NODE m node
      in if \<not> OsMemIsNodeValid node startNode endNode p m then LOS_NOK
         else if \<not> used_at m node then LOS_NOK
         else if \<not> OsMemIsNodeValid nextNode startNode endNode p m then LOS_NOK
         else if OS_MEM_NODE_GET_LAST_FLAG (m (node_size nextNode)) = 0 \<and> m (node_prev nextNode) \<noteq> node
         then LOS_NOK
         else if node \<noteq> startNode
                 \<and> (\<not> OsMemIsNodeValid (m (node_prev node)) startNode endNode p m
                    \<or> OS_MEM_NEXT_NODE m (m (node_prev node)) \<noteq> node)
         then LOS_NOK
         else LOS_OK)"

definition OsMemFree :: "u32 \<Rightarrow> u32 \<Rightarrow> hmem \<Rightarrow> (u32 \<times> hmem) option" where
  "OsMemFree p node m =
     (let ret = OsMemCheckUsedNode p node m
      in if ret \<noteq> LOS_OK then Some (ret, m)
         else
           (let m1 = m(pool_curUsedSize p := m (pool_curUsedSize p) - OS_MEM_NODE_GET_SIZE (m (node_size node)));
                m2 = m1(node_size node := OS_MEM_NODE_GET_SIZE (m1 (node_size node)));
                preNode = m2 (node_prev node);
                (node', m3) = (if preNode \<noteq> 0 \<and> \<not> used_at m2 preNode
                               then (preNode, OsMemMergeNode node (OsMemFreeNodeDelete p preNode m2))
                               else (node, m2));
                nextNode = OS_MEM_NEXT_NODE m3 node';
                m4 = (if nextNode \<noteq> 0 \<and> \<not> used_at m3 nextNode
                      then OsMemMergeNode nextNode (OsMemFreeNodeDelete p nextNode m3) else m3)
            in map_option (\<lambda>m5. (ret, m5)) (OsMemFreeNodeAdd p node' m4)))"

definition OsGetRealPtr :: "u32 \<Rightarrow> u32 \<Rightarrow> hmem \<Rightarrow> u32" where
  "OsGetRealPtr p ptr m =
     (let gapSize = m (ptr - 4)
      in if OS_MEM_GAPSIZE_CHECK gapSize then 0
         else if OS_MEM_GET_GAPSIZE_ALIGNED_FLAG gapSize \<noteq> 0
         then
           (let gapSize = OS_MEM_GET_ALIGNED_GAPSIZE gapSize
            in if gapSize AND (OS_MEM_ALIGN_SIZE - 1) \<noteq> 0 \<or> gapSize > ptr - OS_MEM_NODE_HEAD_SIZE - p then 0
               else ptr - gapSize)
         else ptr)"

definition LOS_MemFree :: "u32 \<Rightarrow> u32 \<Rightarrow> hmem \<Rightarrow> (u32 \<times> hmem) option" where
  "LOS_MemFree p ptr m =
     (if p = 0 \<or> ptr = 0 \<or> \<not> OS_MEM_IS_ALIGNED p 4 \<or> \<not> OS_MEM_IS_ALIGNED ptr 4 then Some (LOS_NOK, m)
      else
        (let ptr = OsGetRealPtr p ptr m
         in if ptr = 0 then Some (LOS_NOK, m)
            else OsMemFree p (ptr - OS_MEM_NODE_HEAD_SIZE) m))"

section \<open>Resizing\<close>

definition OsMemReAllocSmaller :: "u32 \<Rightarrow> u32 \<Rightarrow> u32 \<Rightarrow> u32 \<Rightarrow> hmem \<Rightarrow> hmem option" where
  "OsMemReAllocSmaller p allocSize node nodeSize m =
     (let m1 = m(node_size node := nodeSize)
      in map_option (\<lambda>m2. m2(node_size node := OS_MEM_NODE_SET_USED_FLAG (m2 (node_size node))))
           (if allocSize + OS_MEM_MIN_LEFT_SIZE \<le> nodeSize
            then map_option (\<lambda>m2. m2(pool_curUsedSize p := m2 (pool_curUsedSize p) - (nodeSize - allocSize)))
                   (OsMemSplitNode p node allocSize m1)
            else Some m1))"

definition OsMemMergeNodeForReAllocBigger :: "u32 \<Rightarrow> u32 \<Rightarrow> u32 \<Rightarrow> u32 \<Rightarrow> u32 \<Rightarrow> hmem \<Rightarrow> hmem option" where
  "OsMemMergeNodeForReAllocBigger p allocSize node nodeSize nextNode m =
     (let m1 = m(node_size node := nodeSize);
          m2 = OsMemMergeNode nextNode (OsMemFreeNodeDelete p nextNode m1)
      in map_option (\<lambda>m3.
             (let m4 = m3(node_size node := OS_MEM_NODE_SET_USED_FLAG (m3 (node_size node)))
              in OsMemWaterUsedRecord p (OS_MEM_NODE_GET_SIZE (m4 (node_size node)) - nodeSize) m4))
           (if allocSize + OS_MEM_MIN_LEFT_SIZE \<le> m2 (node_size node)
            then OsMemSplitNode p node allocSize m2 else Some m2))"

text \<open>
  The library's \<open>memcpy_s\<close> on words: it refuses a count above the size of the destination and
  overlapping regions, clearing the destination. Sizes of nodes are multiples of four.
\<close>

definition memcpy_words :: "u32 \<Rightarrow> u32 \<Rightarrow> u32 \<Rightarrow> u32 \<Rightarrow> hmem \<Rightarrow> bool \<times> hmem" where
  "memcpy_words dst destMax src n m =
     (if n > destMax \<or> dst \<le> src \<and> src - dst < n \<or> src \<le> dst \<and> dst - src < n
      then (False, \<lambda>a. if a - dst < destMax then 0 else m a)
      else (True, \<lambda>a. if a - dst < n then m (src + (a - dst)) else m a))"

definition OsMemRealloc :: "u32 \<Rightarrow> u32 \<Rightarrow> u32 \<Rightarrow> u32 \<Rightarrow> hmem \<Rightarrow> (u32 \<times> hmem) option" where
  "OsMemRealloc p ptr node sz m =
     (let allocSize = OS_MEM_ALIGN (sz + OS_MEM_NODE_HEAD_SIZE) OS_MEM_ALIGN_SIZE;
          nodeSize = OS_MEM_NODE_GET_SIZE (m (node_size node));
          nextNode = OS_MEM_NEXT_NODE m node
      in if nodeSize \<ge> allocSize
         then map_option (\<lambda>m1. (ptr, m1)) (OsMemReAllocSmaller p allocSize node nodeSize m)
         else if \<not> used_at m nextNode \<and> m (node_size nextNode) + nodeSize \<ge> allocSize
         then map_option (\<lambda>m1. (ptr, m1))
                (OsMemMergeNodeForReAllocBigger p allocSize node nodeSize nextNode m)
         else case OsMemAlloc p sz m of
             None \<Rightarrow> None
           | Some (tmpPtr, m1) \<Rightarrow>
               if tmpPtr = 0 then Some (0, m1)
               else
                 (let (ok, m2) = memcpy_words tmpPtr sz ptr (nodeSize - OS_MEM_NODE_HEAD_SIZE) m1
                  in if \<not> ok
                     then map_option (\<lambda>(_, m3). (0, m3)) (LOS_MemFree p tmpPtr m2)
                     else map_option (\<lambda>(_, m3). (tmpPtr, m3)) (OsMemFree p node m2)))"

definition LOS_MemRealloc :: "u32 \<Rightarrow> u32 \<Rightarrow> u32 \<Rightarrow> hmem \<Rightarrow> (u32 \<times> hmem) option" where
  "LOS_MemRealloc p ptr sz m =
     (if p = 0 \<or> OS_MEM_NODE_GET_USED_FLAG sz \<noteq> 0 \<or> OS_MEM_NODE_GET_ALIGNED_FLAG sz \<noteq> 0 then Some (0, m)
      else if ptr = 0 then LOS_MemAlloc p sz m
      else if sz = 0 then map_option (\<lambda>(_, m1). (0, m1)) (LOS_MemFree p ptr m)
      else
        (let sz = (if sz < OS_MEM_MIN_ALLOC_SIZE then OS_MEM_MIN_ALLOC_SIZE else sz);
             ptr = OsGetRealPtr p ptr m
         in if ptr = 0 then Some (0, m)
            else
              (let node = ptr - OS_MEM_NODE_HEAD_SIZE
               in if OsMemCheckUsedNode p node m \<noteq> LOS_OK then Some (0, m)
                  else OsMemRealloc p ptr node sz m)))"

section \<open>Pools\<close>

definition LOS_MemUnlockEnable :: "u32 \<Rightarrow> hmem \<Rightarrow> hmem" where
  "LOS_MemUnlockEnable p m =
     (if p = 0 then m else m(pool_attr p := m (pool_attr p) OR OS_MEM_POOL_UNLOCK_ENABLE))"

definition OsMemPoolDeinit :: "u32 \<Rightarrow> hmem \<Rightarrow> hmem" where
  "OsMemPoolDeinit p m = (\<lambda>a. if a - p < sizeof_OsMemPoolHead then 0 else m a)"

definition OsMemPoolInit :: "u32 \<Rightarrow> u32 \<Rightarrow> hmem \<Rightarrow> (u32 \<times> hmem) option" where
  "OsMemPoolInit p sz m =
     (let m1 = OsMemPoolDeinit p m;
          m2 = m1(pool_self p := p);
          m3 = m2(pool_totalSize p := sz);
          m4 = m3(pool_attr p := m3 (pool_attr p) AND NOT (OS_MEM_POOL_UNLOCK_ENABLE OR OS_MEM_POOL_EXPAND_ENABLE));
          newNode = OS_MEM_FIRST_NODE p;
          m5 = m4(node_size newNode := sz - sizeof_OsMemPoolHead - OS_MEM_NODE_HEAD_SIZE);
          m6 = m5(node_prev newNode := OS_MEM_END_NODE p sz)
      in case OsMemFreeNodeAdd p newNode m6 of
           None \<Rightarrow> None
         | Some m7 \<Rightarrow>
             (let endNode = OS_MEM_END_NODE p sz;
                  m8 = m7(node_size endNode := 0);
                  m9 = m8(node_prev endNode := newNode);
                  m10 = m9(node_size endNode := OS_MEM_NODE_SET_USED_FLAG (m9 (node_size endNode)));
                  m11 = m10(pool_curUsedSize p := sizeof_OsMemPoolHead + OS_MEM_NODE_HEAD_SIZE);
                  m12 = m11(pool_waterLine p := m11 (pool_curUsedSize p))
              in Some (LOS_OK, m12)))"

record heap_state =
  hm :: hmem
  g_poolHead :: u32
  m_aucSysMem0 :: u32

text \<open>
  The loop of \<open>OsMemPoolAdd\<close>: None if a pool conflicts (inside the option of returning), else the
  last pool.
\<close>

partial_function (option) pool_conflict :: "u32 \<Rightarrow> u32 \<Rightarrow> hmem \<Rightarrow> u32 \<Rightarrow> u32 \<Rightarrow> u32 option option" where
  "pool_conflict p sz m curPool nextPool =
     (if nextPool = 0 then Some (Some curPool)
      else
        (let poolEnd = nextPool + LOS_MemPoolSizeGet nextPool m
         in if p \<le> nextPool \<and> p + sz > nextPool \<or> p < poolEnd \<and> p + sz \<ge> poolEnd then Some None
            else pool_conflict p sz m nextPool (m (pool_nextPool nextPool))))"

definition OsMemPoolAdd :: "u32 \<Rightarrow> u32 \<Rightarrow> heap_state \<Rightarrow> (u32 \<times> heap_state) option" where
  "OsMemPoolAdd p sz h =
     (case pool_conflict p sz (hm h) (g_poolHead h) (g_poolHead h) of
        None \<Rightarrow> None
      | Some None \<Rightarrow> Some (LOS_NOK, h)
      | Some (Some curPool) \<Rightarrow>
          (let h1 = (if g_poolHead h = 0 then h\<lparr>g_poolHead := p\<rparr>
                     else h\<lparr>hm := (hm h)(pool_nextPool curPool := p)\<rparr>)
           in Some (LOS_OK, h1\<lparr>hm := (hm h1)(pool_nextPool p := 0)\<rparr>)))"

text \<open>The loop of \<open>OsMemPoolDelete\<close>.\<close>

partial_function (option) pool_unlink :: "u32 \<Rightarrow> u32 \<Rightarrow> u32 \<Rightarrow> hmem \<Rightarrow> (u32 \<times> hmem) option" where
  "pool_unlink p curPool nextPool m =
     (if nextPool = 0 then Some (LOS_NOK, m)
      else if p = nextPool then Some (LOS_OK, m(pool_nextPool curPool := m (pool_nextPool nextPool)))
      else pool_unlink p nextPool (m (pool_nextPool nextPool)) m)"

definition OsMemPoolDelete :: "u32 \<Rightarrow> heap_state \<Rightarrow> (u32 \<times> heap_state) option" where
  "OsMemPoolDelete p h =
     (if p = g_poolHead h then Some (LOS_OK, h\<lparr>g_poolHead := hm h (pool_nextPool (g_poolHead h))\<rparr>)
      else map_option (\<lambda>(ret, m). (ret, h\<lparr>hm := m\<rparr>))
             (pool_unlink p (g_poolHead h) (g_poolHead h) (hm h)))"

definition LOS_MemInit :: "u32 \<Rightarrow> u32 \<Rightarrow> heap_state \<Rightarrow> (u32 \<times> heap_state) option" where
  "LOS_MemInit p sz h =
     (if p = 0 \<or> sz \<le> OS_MEM_MIN_POOL_SIZE then Some (LOS_NOK, h)
      else if p AND (OS_MEM_ALIGN_SIZE - 1) \<noteq> 0 \<or> sz AND (OS_MEM_ALIGN_SIZE - 1) \<noteq> 0 then Some (LOS_NOK, h)
      else case OsMemPoolInit p sz (hm h) of
          None \<Rightarrow> None
        | Some (ret, m) \<Rightarrow>
            if ret \<noteq> 0 then Some (LOS_NOK, h\<lparr>hm := m\<rparr>)
            else case OsMemPoolAdd p sz (h\<lparr>hm := m\<rparr>) of
                None \<Rightarrow> None
              | Some (ret, h1) \<Rightarrow>
                  if ret \<noteq> 0 then Some (LOS_NOK, h1\<lparr>hm := OsMemPoolDeinit p (hm h1)\<rparr>)
                  else Some (LOS_OK, h1))"

definition LOS_MemDeInit :: "u32 \<Rightarrow> heap_state \<Rightarrow> (u32 \<times> heap_state) option" where
  "LOS_MemDeInit p h =
     (if p = 0 then Some (LOS_NOK, h)
      else case OsMemPoolDelete p h of
          None \<Rightarrow> None
        | Some (ret, h1) \<Rightarrow>
            if ret \<noteq> 0 then Some (LOS_NOK, h1)
            else Some (LOS_OK, h1\<lparr>hm := OsMemPoolDeinit p (hm h1)\<rparr>))"

text \<open>The number of pools; each is printed on the way.\<close>

partial_function (option) count_pools :: "hmem \<Rightarrow> u32 \<Rightarrow> u32 \<Rightarrow> u32 option" where
  "count_pools m nextPool index =
     (if nextPool = 0 then Some index
      else case OsMemInfoPrint nextPool m of
          None \<Rightarrow> None
        | Some _ \<Rightarrow> count_pools m (m (pool_nextPool nextPool)) (index + 1))"

definition LOS_MemPoolList :: "heap_state \<Rightarrow> u32 option" where
  "LOS_MemPoolList h = count_pools (hm h) (g_poolHead h) 0"

text \<open>\<open>memStart\<close> is the address of \<open>g_memStart\<close>, which the linker chooses.\<close>

definition OsMemSystemInit :: "u32 \<Rightarrow> heap_state \<Rightarrow> (u32 \<times> heap_state) option" where
  "OsMemSystemInit memStart h =
     (let h1 = h\<lparr>m_aucSysMem0 := memStart\<rparr>
      in LOS_MemInit (m_aucSysMem0 h1) LOSCFG_SYS_HEAP_SIZE h1)"

section \<open>Examination after an exception\<close>

text \<open>The node where the scan stops, if it finds a bad one, and the number of nodes visited.\<close>

partial_function (option) heap_exc_scan :: "u32 \<Rightarrow> u32 \<Rightarrow> hmem \<Rightarrow> u32 \<Rightarrow> u32 \<Rightarrow> (u32 \<times> u32 option) option" where
  "heap_exc_scan p endNode m tmpNode cnt =
     (if tmpNode < endNode
      then
        (if (if used_at m tmpNode then \<not> OsMemAddrValidCheck p (m (node_prev tmpNode)) m
             else OsMemAddrValidCheckPrint p tmpNode m \<noteq> 0)
         then Some (cnt + 1, Some tmpNode)
         else heap_exc_scan p endNode m (OS_MEM_NEXT_NODE m tmpNode) (cnt + 1))
      else Some (cnt, None))"

definition OS_TASK_ERRORID :: u32 where "OS_TASK_ERRORID = -1"

definition OsMemExcInfoGetSub :: "u32 \<Rightarrow> hmem \<Rightarrow> MemInfoCB option" where
  "OsMemExcInfoGetSub p m =
     (case heap_exc_scan p (OS_MEM_END_NODE p (m (pool_totalSize p))) m (OS_MEM_FIRST_NODE p) 0 of
        None \<Rightarrow> None
      | Some (cnt, e) \<Rightarrow>
          (let r = \<lparr>mi_startAddr = m (pool_self p), mi_size = m (pool_totalSize p),
                    mi_free = m (pool_totalSize p) - m (pool_curUsedSize p), mi_blockSize = cnt,
                    mi_errorAddr = 0, mi_errorLen = 0, mi_errorOwner = 0\<rparr>
           in case e of
                None \<Rightarrow> Some r
              | Some tmpNode \<Rightarrow> Some (r\<lparr>mi_errorAddr := tmpNode + OS_MEM_NODE_HEAD_SIZE,
                    mi_errorLen := OS_MEM_NODE_GET_SIZE (m (node_size tmpNode)) - OS_MEM_NODE_HEAD_SIZE,
                    mi_errorOwner := OS_TASK_ERRORID\<rparr>)))"

text \<open>\<open>n\<close> more records fit after this one.\<close>

fun heap_exc_walk :: "nat \<Rightarrow> u32 \<Rightarrow> hmem \<Rightarrow> MemInfoCB list option" where
  "heap_exc_walk 0 memPool m =
     (if memPool = 0 then Some [] else map_option (\<lambda>r. [r]) (OsMemExcInfoGetSub memPool m))"
| "heap_exc_walk (Suc n) memPool m =
     (if memPool = 0 then Some []
      else case OsMemExcInfoGetSub memPool m of
          None \<Rightarrow> None
        | Some r \<Rightarrow> map_option (\<lambda>rs. r # rs) (heap_exc_walk n (m (pool_nextPool memPool)) m))"

definition OsMemExcInfoGet :: "u32 \<Rightarrow> heap_state \<Rightarrow> (u32 \<times> MemInfoCB list) option" where
  "OsMemExcInfoGet memNumMax h =
     map_option (\<lambda>rs. (of_nat (length rs), rs)) (heap_exc_walk (unat memNumMax - 1) (g_poolHead h) (hm h))"

end
