(* ===== verification/Los_MemClass.thy ===== *)
theory Los_MemClass
  imports Los_Memory
begin

text \<open>
  The size classes of the heap: which list a size belongs to, that classes grow with sizes, and
  that the search of the bitmap finds the first list that is not empty.
\<close>

section \<open>The highest and the lowest bit\<close>

definition lg :: "u32 \<Rightarrow> nat" where "lg w = 31 - CLZ w"

lemma unat_ge_bit:
  fixes w :: "'a::len word"
  assumes "bit w k"
  shows "2 ^ k \<le> unat w"
proof (rule ccontr)
  assume "\<not> 2 ^ k \<le> unat w"
  then have "unat w div 2 ^ k = 0" by simp
  moreover have "bit (unat w) k" using assms by (simp add: bit_unsigned_iff bit_imp_le_length)
  ultimately show False by (simp add: bit_iff_odd)
qed

lemma unat_less_bits:
  fixes w :: "'a::len word"
  assumes "\<And>j. k \<le> j \<Longrightarrow> j < LENGTH('a) \<Longrightarrow> \<not> bit w j"
  shows "unat w < 2 ^ k"
proof -
  have "take_bit k w = w"
    by (rule bit_word_eqI) (metis assms bit_take_bit_iff not_le)
  then have "take_bit k (unat w) = unat w" by (metis unsigned_take_bit_eq)
  then show ?thesis by (metis take_bit_nat_less_exp)
qed

lemma lg_bounds:
  assumes "w \<noteq> 0"
  shows "2 ^ lg w \<le> unat w" "unat w < 2 ^ (lg w + 1)" "lg w < 32"
proof -
  show "2 ^ lg w \<le> unat w"
    using CLZ_bit [OF assms] unfolding lg_def by (rule unat_ge_bit)
  show "unat w < 2 ^ (lg w + 1)"
    by (rule unat_less_bits) (use CLZ_above [of _ w] in \<open>auto simp: lg_def\<close>)
  show "lg w < 32" by (simp add: lg_def)
qed

lemma lg_unique:
  assumes "2 ^ k \<le> unat w" "unat w < 2 ^ (k + 1)"
  shows "lg w = k"
proof -
  have "w \<noteq> 0" using assms(1) by (metis unat_0 le_zero_eq power_not_zero zero_neq_numeral)
  from lg_bounds [OF this] have "(2::nat) ^ lg w < 2 ^ (k + 1)" "(2::nat) ^ k < 2 ^ (lg w + 1)"
    using assms by linarith+
  then have "lg w < k + 1" "k < lg w + 1" by (simp_all only: power_strict_increasing_iff [of 2] one_less_numeral_iff semiring_norm)
  then show ?thesis by simp
qed

lemma unat_Log2:
  assumes "w \<noteq> 0"
  shows "unat (OsMemLog2 w) = lg w"
proof -
  have c: "CLZ w < 32" by (rule CLZ_less [OF assms])
  then have "unat (0x1F - of_nat (CLZ w) :: u32) = 31 - CLZ w"
    by (subst unat_sub) (auto simp: word_le_nat_alt unat_of_nat take_bit_nat_eq_self unsigned_of_nat)
  then show ?thesis
    using assms c by (simp add: OsMemLog2_def OsMemFLS_def OS_MEM_BITMAP_MASK_def lg_def word_neq_0_conv
        unsigned_ucast_eq unsigned_take_bit_eq take_bit_nat_eq_self)
qed

lemma unat_of_nat32: "n < 2 ^ 32 \<Longrightarrow> unat (of_nat n :: u32) = n"
  by (simp add: unsigned_of_nat take_bit_nat_eq_self)

lemma unat_eq32: "unat w = n \<Longrightarrow> w = (of_nat n :: u32)"
  by auto

lemma unat_drop_bit32: "unat (drop_bit k (w :: u32)) = unat w div 2 ^ k"
proof -
  have "take_bit 32 (unat w) = unat w"
    using unsigned_less [of w] by (intro take_bit_nat_eq_self) simp
  moreover have "unat (drop_bit k w) = drop_bit k (take_bit LENGTH(32) (unat w))"
    by (rule unsigned_drop_bit_eq)
  ultimately show ?thesis by (simp add: drop_bit_eq_div)
qed

section \<open>Classes\<close>

lemmas mem_config = OS_MEM_SLI_def OS_MEM_SMALL_BUCKET_COUNT_def OS_MEM_SMALL_BUCKET_MAX_SIZE_def
  OS_MEM_LARGE_BUCKET_COUNT_def OS_MEM_LARGE_START_BUCKET_def OS_MEM_FREE_LIST_COUNT_def
  OS_MEM_BITMAP_MASK_def

lemma list_count: "OS_MEM_FREE_LIST_COUNT = 223"
  by (simp add: mem_config)

definition cls :: "u32 \<Rightarrow> nat" where
  "cls w = (if unat w < 128 then unat w div 4 - 1
            else 31 + (lg w - 7) * 8 + (8 * unat w div 2 ^ lg w - 8))"

lemma large_nonzero: "128 \<le> unat (w :: u32) \<Longrightarrow> w \<noteq> 0"
  by auto

lemma lg_large:
  assumes "128 \<le> unat w"
  shows "7 \<le> lg w"
proof (rule ccontr)
  assume "\<not> 7 \<le> lg w"
  then have "lg w + 1 \<le> 7" by simp
  then have "(2::nat) ^ (lg w + 1) \<le> 2 ^ 7" by (rule power_increasing) simp
  with lg_bounds(2) [OF large_nonzero [OF assms]] assms show False by simp
qed

lemma lg_small:
  assumes "unat w < 2 ^ k" "0 < k"
  shows "lg w < k"
proof (cases "w = 0")
  case True
  then show ?thesis using assms(2) by (simp add: lg_def CLZ_def)
next
  case False
  from lg_bounds(1) [OF this] assms(1) have "(2::nat) ^ lg w < 2 ^ k" by linarith
  then show ?thesis by simp
qed

lemma sl_bounds:
  assumes "w \<noteq> 0"
  shows "8 \<le> 8 * unat w div 2 ^ lg w" "8 * unat w div 2 ^ lg w < 16"
proof -
  note b = lg_bounds [OF assms]
  have "8 * 2 ^ lg w \<le> 8 * unat w" using b(1) by simp
  then have "8 * 2 ^ lg w div 2 ^ lg w \<le> 8 * unat w div 2 ^ lg w" by (rule div_le_mono)
  then show "8 \<le> 8 * unat w div 2 ^ lg w" by simp
  have "8 * unat w < 16 * 2 ^ lg w" using b(2) by simp
  then show "8 * unat w div 2 ^ lg w < 16" by (simp add: less_mult_imp_div_less)
qed

lemma FlGet_large:
  assumes "128 \<le> unat w"
  shows "OsMemFlGet w = of_nat (lg w + 24)"
proof -
  have "OsMemLog2 w = of_nat (lg w)"
    using unat_Log2 [OF large_nonzero [OF assms]] by (rule unat_eq32)
  with assms show ?thesis by (simp add: OsMemFlGet_def mem_config word_less_nat_alt)
qed

lemma SlGet_large:
  assumes "128 \<le> unat w" "unat w < 2 ^ 29"
  shows "unat (OsMemSlGet w (of_nat (lg w + 24))) = 8 * unat w div 2 ^ lg w - 8"
proof -
  have l: "7 \<le> lg w" "lg w < 29" using lg_large [OF assms(1)] lg_small [OF assms(2)] by simp_all
  have u: "unat (of_nat (lg w + 24) :: u32) = lg w + 24" by (rule unat_of_nat32) (use l in simp)
  have "unat (of_nat (lg w + 24) - 31 + 7 :: u32) = lg w"
  proof -
    have "of_nat (lg w + 24) - 31 + 7 = (of_nat (lg w) :: u32)" by simp
    then show ?thesis using l by (simp add: unsigned_of_nat take_bit_nat_eq_self)
  qed
  moreover have "unat (push_bit 3 w) = 8 * unat w"
    using assms(2) by (simp only: unsigned_push_bit_eq) (simp add: push_bit_eq_mult take_bit_nat_eq_self)
  ultimately have d: "unat (drop_bit (unat (of_nat (lg w + 24) - 31 + 7 :: u32)) (push_bit 3 w))
      = 8 * unat w div 2 ^ lg w"
    by (simp only: unat_drop_bit32)
  note sb = sl_bounds [OF large_nonzero [OF assms(1)]]
  have "OsMemSlGet w (of_nat (lg w + 24))
      = drop_bit (unat (of_nat (lg w + 24) - 31 + 7 :: u32)) (push_bit 3 w) - 8"
    using assms(1) u l by (simp add: OsMemSlGet_def mem_config word_less_nat_alt)
  then show ?thesis
    using d sb(1) by (simp add: unat_sub word_le_nat_alt)
qed

lemma index_small:
  assumes "4 \<le> unat w" "unat w < 128"
  shows "OsMemFreeListIndexGet w = of_nat (cls w)" "cls w < 31" "OsMemFlGet w = of_nat (cls w)"
proof -
  have d: "unat (drop_bit 2 w) = unat w div 4" by (simp only: unat_drop_bit32) simp
  have "1 \<le> unat w div 4" using assms(1) by simp
  then have "unat (drop_bit 2 w - 1) = unat w div 4 - 1"
    using d by (simp add: unat_sub word_le_nat_alt)
  then have e: "drop_bit 2 w - 1 = of_nat (cls w)"
    using assms by (intro unat_eq32) (simp add: cls_def)
  show c: "cls w < 31" using assms by (auto simp: cls_def)
  show f: "OsMemFlGet w = of_nat (cls w)"
    using assms e by (simp add: OsMemFlGet_def mem_config word_less_nat_alt)
  show "OsMemFreeListIndexGet w = of_nat (cls w)"
    using c by (simp add: OsMemFreeListIndexGet_def f mem_config word_less_nat_alt unsigned_of_nat take_bit_nat_eq_self)
qed

lemma index_large:
  assumes "128 \<le> unat w" "unat w < 2 ^ 29"
  shows "OsMemFreeListIndexGet w = of_nat (cls w)" "31 \<le> cls w" "cls w < 31 + 22 * 8"
proof -
  have l: "7 \<le> lg w" "lg w < 29" using lg_large [OF assms(1)] lg_small [OF assms(2)] by simp_all
  note sb = sl_bounds [OF large_nonzero [OF assms(1)]]
  show "31 \<le> cls w" "cls w < 31 + 22 * 8" using assms(1) sb l by (auto simp: cls_def)
  have u: "unat (of_nat (lg w + 24) :: u32) = lg w + 24" by (rule unat_of_nat32) (use l in simp)
  have "OsMemSlGet w (of_nat (lg w + 24)) = of_nat (8 * unat w div 2 ^ lg w - 8)"
    using SlGet_large [OF assms] by (rule unat_eq32)
  moreover have "push_bit 3 (of_nat (lg w + 24) - 31 :: u32) = of_nat ((lg w - 7) * 8)"
  proof -
    have "of_nat (lg w + 24) - 31 = (of_nat (lg w - 7) :: u32)" using l by (simp add: of_nat_diff)
    then show ?thesis by (simp add: push_bit_eq_mult mult.commute)
  qed
  ultimately show "OsMemFreeListIndexGet w = of_nat (cls w)"
    using assms(1) u l
    by (simp add: OsMemFreeListIndexGet_def FlGet_large [OF assms(1)] mem_config word_less_nat_alt cls_def
        del: of_nat_diff)
qed

text \<open>The class of every size up to 512 MiB is a list of the pool; above that the shift overflows.\<close>

lemma index_cls:
  assumes "4 \<le> unat w" "unat w < 2 ^ 29"
  shows "OsMemFreeListIndexGet w = of_nat (cls w)" "cls w < 207"
  using index_small [of w] index_large [of w] assms by (cases "unat w < 128"; simp)+

section \<open>Classes grow with sizes\<close>

lemma lg_mono: "unat v \<le> unat w \<Longrightarrow> v \<noteq> 0 \<Longrightarrow> w \<noteq> 0 \<Longrightarrow> lg v \<le> lg w"
proof (rule ccontr)
  assume a: "unat v \<le> unat w" "v \<noteq> 0" "w \<noteq> 0" "\<not> lg v \<le> lg w"
  then have "(2::nat) ^ (lg w + 1) \<le> 2 ^ lg v" by (intro power_increasing) auto
  with a lg_bounds [of v] lg_bounds [of w] show False by linarith
qed

lemma cls_mono:
  assumes "unat v \<le> unat w"
  shows "cls v \<le> cls w"
proof -
  consider "unat w < 128" | "unat v < 128" "128 \<le> unat w" | "128 \<le> unat v" by linarith
  then show ?thesis
  proof cases
    case 1
    with assms show ?thesis by (simp add: cls_def div_le_mono diff_le_mono)
  next
    case 2
    then show ?thesis by (simp add: cls_def)
  next
    case 3
    then have w: "128 \<le> unat w" "v \<noteq> 0" "w \<noteq> 0" using assms by auto
    note lm = lg_mono [OF assms w(2,3)] and lv = lg_large [OF 3]
    note sv = sl_bounds [OF w(2)] and sw = sl_bounds [OF w(3)]
    show ?thesis
    proof (cases "lg v = lg w")
      case True
      have "8 * unat v div 2 ^ lg w \<le> 8 * unat w div 2 ^ lg w" using assms by (intro div_le_mono) simp
      with True 3 w show ?thesis by (simp add: cls_def)
    next
      case False
      with lm have "lg v - 7 + 1 \<le> lg w - 7" using lv by simp
      then have "(lg v - 7) * 8 + 8 \<le> (lg w - 7) * 8" by simp
      with 3 w sv sw show ?thesis by (simp add: cls_def)
    qed
  qed
qed

lemma cls_less: "cls v < cls w \<Longrightarrow> unat v < unat w"
  using cls_mono [of w v] by linarith

text \<open>A small size has a class of its own.\<close>

lemma cls_small_exact:
  assumes "cls v \<le> cls w" "unat v < 128" "4 dvd unat v" "4 dvd unat w" "4 \<le> unat w"
  shows "unat v \<le> unat w"
proof (rule ccontr)
  assume "\<not> unat v \<le> unat w"
  then have "unat w < unat v" by simp
  with assms show False by (auto simp: cls_def dvd_def)
qed

section \<open>Rounding\<close>

lemma unat_push_bit32: "2 ^ k * unat w < 2 ^ 32 \<Longrightarrow> unat (push_bit k (w :: u32)) = 2 ^ k * unat w"
  by (simp only: unsigned_push_bit_eq) (simp add: push_bit_eq_mult take_bit_nat_eq_self mult.commute)

lemma unat_and_mask: "unat (w AND mask k :: u32) = unat w mod 2 ^ k"
  by (simp only: take_bit_eq_mask [symmetric] unsigned_take_bit_eq) (simp add: take_bit_eq_mod)

lemma unat_and_not_mask: "unat (w AND NOT (mask k) :: u32) = unat w div 2 ^ k * 2 ^ k"
proof -
  have e: "w AND NOT (mask k) = push_bit k (drop_bit k w)"
    by (rule bit_word_eqI) (auto simp: bit_and_iff bit_not_iff bit_mask_iff bit_push_bit_iff bit_drop_bit_eq)
  have "2 ^ k * unat (drop_bit k w) \<le> unat w"
    by (simp only: unat_drop_bit32) (simp add: mult.commute)
  moreover have "unat w < 2 ^ 32" using unsigned_less [of w] by simp
  ultimately show ?thesis
    unfolding e by (simp only: unat_push_bit32 le_less_trans unat_drop_bit32 mult.commute)
qed

lemma mask_numerals: "mask 2 = (3 :: u32)" "mask 5 = (31 :: u32)"
  by (simp_all add: mask_eq_exp_minus_1)

section \<open>The lowest set bit\<close>

lemma odd_and_minus:
  fixes c :: "'a::len word"
  assumes "odd c"
  shows "c AND - c = 1"
proof -
  have "c = 2 * (c div 2) + 1"
    using div_mult_mod_eq [of c 2] assms by (simp add: odd_iff_mod_2_eq_one mult.commute)
  then have d: "- c = NOT (2 * (c div 2))" by (metis add_diff_cancel_right' minus_eq_not_minus_1)
  show ?thesis
  proof (rule bit_word_eqI)
    fix n assume n: "n < LENGTH('a)"
    show "bit (c AND - c) n \<longleftrightarrow> bit (1 :: 'a word) n"
    proof (cases n)
      case 0
      then show ?thesis using assms by (simp add: d even_and_iff even_not_iff bit_0)
    next
      case (Suc j)
      have "bit (2 * (c div 2)) (Suc j) = bit c (Suc j)"
        by (subst bit_double_iff) (use n Suc in \<open>simp add: bit_Suc\<close>)
      then show ?thesis using Suc n by (simp add: d bit_and_iff bit_not_iff bit_1_iff)
    qed
  qed
qed

lemma lowest_bit:
  fixes b :: u32
  assumes "bit b k" "\<And>j. j < k \<Longrightarrow> \<not> bit b j"
  shows "b AND (NOT b + 1) = 2 ^ k"
proof -
  define c where "c = drop_bit k b"
  have b: "b = push_bit k c"
  proof (rule bit_word_eqI)
    fix n assume "n < LENGTH(32)"
    then show "bit b n \<longleftrightarrow> bit (push_bit k c) n"
      using assms(2) [of n] by (cases "n < k") (auto simp: c_def bit_push_bit_iff bit_drop_bit_eq)
  qed
  have "odd c" using assms(1) by (simp add: c_def bit_iff_odd_drop_bit)
  have m: "NOT b + 1 = push_bit k (- c)"
  proof -
    have "NOT b + 1 = - b" by (simp add: minus_eq_not_plus_1)
    then show ?thesis by (simp add: b push_bit_eq_mult)
  qed
  have "b AND (NOT b + 1) = push_bit k (c AND - c)"
    by (simp only: m) (simp only: b push_bit_and)
  then show ?thesis by (simp add: odd_and_minus [OF \<open>odd c\<close>] push_bit_eq_mult)
qed

lemma FFS:
  assumes "b \<noteq> 0"
  shows "\<exists>k<32. (ucast (OsMemFFS b) :: u32) = of_nat k \<and> bit b k \<and> (\<forall>j<k. \<not> bit b j)"
proof -
  obtain k0 where "bit b k0" using assms by (metis bit_word_eqI bit_0_eq bot_apply bot_bool_def)
  then obtain k where k: "bit b k" "\<And>j. j < k \<Longrightarrow> \<not> bit b j"
    using exists_least_iff [of "bit b"] by auto
  have k32: "k < 32" using bit_imp_le_length [OF k(1)] by simp
  have "bit (2 ^ k :: u32) (31 - CLZ (2 ^ k))"
    by (rule CLZ_bit) (use k32 in simp)
  then have "31 - CLZ (2 ^ k) = k" by (simp add: bit_exp_iff)
  moreover have "CLZ (2 ^ k) < 32" by (rule CLZ_less) (use k32 in simp)
  ultimately have c: "CLZ (2 ^ k) = 31 - k" by linarith
  have "(0x1F - of_nat (31 - k) :: u32) = of_nat k" using k32 by (simp add: of_nat_diff)
  then have "(ucast (OsMemFFS b) :: u32) = ucast (ucast (of_nat k :: u32) :: u16)"
    by (simp only: OsMemFFS_def lowest_bit [OF k] c OS_MEM_BITMAP_MASK_def)
  also have "\<dots> = of_nat k"
    using k32 by (simp add: word_eq_iff_unsigned unsigned_ucast_eq unsigned_take_bit_eq unsigned_of_nat
        take_bit_nat_eq_self)
  finally show ?thesis using k k32 by blast
qed

section \<open>Searching the bitmap\<close>

text \<open>\<open>B i\<close>: the list \<open>i\<close> is not empty. There is no list 223, though the bitmap has its bit.\<close>

definition bits_ok :: "u32 \<Rightarrow> hmem \<Rightarrow> (nat \<Rightarrow> bool) \<Rightarrow> bool" where
  "bits_ok p m B \<longleftrightarrow> (\<forall>i<224. bit (m (pool_bitmap p (of_nat (i div 32)))) (i mod 32) = B i) \<and> (\<forall>i\<ge>223. \<not> B i)"

text \<open>The first list from \<open>i\<close> on that is not empty, below a bound.\<close>

definition first_from :: "(nat \<Rightarrow> bool) \<Rightarrow> nat \<Rightarrow> nat \<Rightarrow> bool" where
  "first_from B i j \<longleftrightarrow> i \<le> j \<and> B j \<and> (\<forall>l. i \<le> l \<longrightarrow> l < j \<longrightarrow> \<not> B l)"

lemma word_index:
  assumes "i < 224"
  shows "drop_bit 5 (of_nat i :: u32) = of_nat (i div 32)" "unat (of_nat i AND 0x1F :: u32) = i mod 32"
    "of_nat i AND NOT (0x1F :: u32) = of_nat (i div 32 * 32)"
proof -
  have u: "unat (of_nat i :: u32) = i" by (rule unat_of_nat32) (use assms in simp)
  show "drop_bit 5 (of_nat i :: u32) = of_nat (i div 32)"
    by (rule unat_eq32) (simp only: unat_drop_bit32 u, simp)
  show "unat (of_nat i AND 0x1F :: u32) = i mod 32"
    using unat_and_mask [of "of_nat i" 5] u by (simp add: mask_numerals)
  show "of_nat i AND NOT (0x1F :: u32) = of_nat (i div 32 * 32)"
    by (rule unat_eq32) (use unat_and_not_mask [of "of_nat i" 5] u in \<open>simp add: mask_numerals\<close>)
qed

lemma push_bit_mask: "push_bit k 1 - 1 = (mask k :: u32)"
  by (simp add: mask_eq_exp_minus_1 push_bit_eq_mult)

lemma word_first:
  assumes "(w :: u32) \<noteq> 0" "\<And>n. n < 32 \<Longrightarrow> bit w n \<longleftrightarrow> k \<le> n \<and> B (32 * q + n)"
  shows "\<exists>j. ucast (OsMemFFS w) + of_nat (32 * q) = (of_nat j :: u32) \<and> first_from B (32 * q + k) j
    \<and> j < 32 * q + 32"
proof -
  from FFS [OF assms(1)] obtain l where l: "l < 32" "ucast (OsMemFFS w) = (of_nat l :: u32)" "bit w l"
    "\<And>n. n < l \<Longrightarrow> \<not> bit w n" by auto
  have "\<not> B n" if "32 * q + k \<le> n" "n < 32 * q + l" for n
  proof -
    have "n = 32 * q + (n - 32 * q)" "n - 32 * q < l" "k \<le> n - 32 * q" using that by auto
    then show ?thesis using l(1) l(4) [of "n - 32 * q"] assms(2) [of "n - 32 * q"] by auto
  qed
  then have "first_from B (32 * q + k) (32 * q + l)"
    using l assms(2) [of l] by (auto simp: first_from_def)
  then show ?thesis using l(1,2) by (intro exI [of _ "32 * q + l"]) (simp add: add.commute)
qed

lemma NotEmptyIndexGet:
  assumes "bits_ok p m B" "i < 224"
  shows "(\<exists>j. OsMemNotEmptyIndexGet p (of_nat i) m = of_nat j \<and> first_from B i j)
    \<or> OsMemNotEmptyIndexGet p (of_nat i) m = 223 \<and> (\<forall>j. i \<le> j \<longrightarrow> j < 32 * (i div 32) + 32 \<longrightarrow> \<not> B j)"
proof -
  let ?w = "m (pool_bitmap p (of_nat (i div 32))) AND NOT (mask (i mod 32))"
  have d: "i = 32 * (i div 32) + i mod 32" by simp
  have b: "bit ?w n \<longleftrightarrow> i mod 32 \<le> n \<and> B (32 * (i div 32) + n)" if "n < 32" for n
  proof -
    have "i div 32 < 7" using assms(2) by (intro less_mult_imp_div_less) simp
    then have "32 * (i div 32) + n < 224" using that by linarith
    moreover have "(32 * (i div 32) + n) div 32 = i div 32" "(32 * (i div 32) + n) mod 32 = n"
      using that by simp_all
    ultimately have "bit (m (pool_bitmap p (of_nat (i div 32)))) n = B (32 * (i div 32) + n)"
      using assms(1) unfolding bits_ok_def by metis
    then show ?thesis using that by (auto simp: bit_and_iff bit_not_iff bit_mask_iff)
  qed
  have e: "OsMemNotEmptyIndexGet p (of_nat i) m =
      (if ?w \<noteq> 0 then ucast (OsMemFFS ?w) + of_nat (32 * (i div 32)) else 223)"
    by (simp only: OsMemNotEmptyIndexGet_def OS_MEM_BITMAP_MASK_def word_index [OF assms(2)] push_bit_mask
        list_count Let_def mult.commute)
  show ?thesis
  proof (cases "?w = 0")
    case True
    have "\<not> B j" if "i \<le> j" "j < 32 * (i div 32) + 32" for j
    proof -
      have "j = 32 * (i div 32) + (j - 32 * (i div 32))" "j - 32 * (i div 32) < 32"
        "i mod 32 \<le> j - 32 * (i div 32)" using that d by linarith+
      then show ?thesis using b [of "j - 32 * (i div 32)"] True by simp
    qed
    then show ?thesis using True e by simp
  next
    case False
    from word_first [OF False b] d show ?thesis using e False by (metis (no_types, lifting))
  qed
qed

lemma scan_words:
  assumes "bits_ok p m B" "q \<le> 7"
  shows "(\<exists>j. scan_words p (of_nat (32 * q)) m = Some (of_nat j) \<and> first_from B (32 * q) j)
    \<or> scan_words p (of_nat (32 * q)) m = None \<and> (\<forall>j. 32 * q \<le> j \<longrightarrow> \<not> B j)"
  using assms(2)
proof (induction "7 - q" arbitrary: q)
  case 0
  then have "q = 7" by simp
  then show ?case using assms(1) by (simp add: scan_words.simps list_count bits_ok_def)
next
  case (Suc d)
  then have q: "q < 7" by simp
  let ?w = "m (pool_bitmap p (of_nat q))"
  have b: "bit ?w n \<longleftrightarrow> 0 \<le> n \<and> B (32 * q + n)" if "n < 32" for n
  proof -
    have "32 * q + n < 224" "(32 * q + n) div 32 = q" "(32 * q + n) mod 32 = n" using q that by simp_all
    then show ?thesis using assms(1) unfolding bits_ok_def by (metis le0)
  qed
  have i: "32 * q < 224" "32 * q div 32 = q" using q by simp_all
  have u: "unat (of_nat (32 * q) :: u32) = 32 * q" by (rule unat_of_nat32) (use q in simp)
  have "(of_nat (32 * q) :: u32) < 223" unfolding word_less_nat_alt u using q by simp
  moreover have "of_nat (32 * q) + 32 = (of_nat (32 * Suc q) :: u32)" by simp
  ultimately have e: "scan_words p (of_nat (32 * q)) m =
      (if ?w \<noteq> 0 then Some (ucast (OsMemFFS ?w) + of_nat (32 * q)) else scan_words p (of_nat (32 * Suc q)) m)"
    by (subst scan_words.simps) (simp only: word_index(1) [OF i(1)] i(2) list_count Let_def if_True)
  show ?case
  proof (cases "?w = 0")
    case True
    have none: "\<not> B j" if "32 * q \<le> j" "j < 32 * Suc q" for j
    proof -
      have "j = 32 * q + (j - 32 * q)" "j - 32 * q < 32" using that by auto
      then show ?thesis using b [of "j - 32 * q"] True by simp
    qed
    have IH: "(\<exists>j. scan_words p (of_nat (32 * Suc q)) m = Some (of_nat j) \<and> first_from B (32 * Suc q) j)
      \<or> scan_words p (of_nat (32 * Suc q)) m = None \<and> (\<forall>j. 32 * Suc q \<le> j \<longrightarrow> \<not> B j)"
      by (rule Suc.hyps(1)) (use Suc.hyps(2) q in auto)
    have ff: "first_from B (32 * q) j" if "first_from B (32 * Suc q) j" for j
      using that none unfolding first_from_def by (metis add_leD2 le_trans mult_Suc_right not_le)
    have nn: "\<forall>j. 32 * q \<le> j \<longrightarrow> \<not> B j" if "\<forall>j. 32 * Suc q \<le> j \<longrightarrow> \<not> B j"
      using that none by (meson not_le)
    have "scan_words p (of_nat (32 * q)) m = scan_words p (of_nat (32 * Suc q)) m"
      unfolding e using True by simp
    with IH ff nn show ?thesis by metis
  next
    case False
    from word_first [OF False b] show ?thesis using e False by auto
  qed
qed

end
