(* ===== verification/Los_MemInv.thy ===== *)
theory Los_MemInv
  imports Los_MemClass
begin

text \<open>
  The shape of a heap: the nodes lie one behind the other from the first node to the sentinel,
  every header holds the address of the node before and its own size with flags, and the free
  nodes are on the lists of their classes, linked both ways. Each step of the operations
  (taking a node off its list, merging, splitting, setting flags, putting a node on its list)
  keeps this relation for a changed list of nodes and leaves the data of the others alone.
\<close>

section \<open>Sizes and flags\<close>

abbreviation SZ :: "u32 \<Rightarrow> u32" where "SZ w \<equiv> OS_MEM_NODE_GET_SIZE w"

definition plain :: "u32 \<Rightarrow> bool" where "plain w \<longleftrightarrow> unat w < 2 ^ 30"

lemma flag_word_bits: "bit (0x80000000 :: u32) k \<longleftrightarrow> k = 31" "bit (0x40000000 :: u32) k \<longleftrightarrow> k = 30"
proof -
  have "(0x80000000 :: u32) = 2 ^ 31" "(0x40000000 :: u32) = 2 ^ 30" by simp_all
  then show "bit (0x80000000 :: u32) k \<longleftrightarrow> k = 31" "bit (0x40000000 :: u32) k \<longleftrightarrow> k = 30"
    by (simp_all only: bit_exp_iff) auto
qed

lemma both_flags: "bit OS_MEM_NODE_ALIGNED_AND_USED_FLAG k \<longleftrightarrow> k = 31 \<or> k = 30"
  unfolding OS_MEM_NODE_ALIGNED_AND_USED_FLAG_def OS_MEM_NODE_USED_FLAG_def OS_MEM_NODE_ALIGNED_FLAG_def
    OS_MEM_NODE_LEAK_FLAG_def OS_MEM_NODE_LAST_FLAG_def
  by (simp only: bit_or_iff flag_word_bits bit_0_eq bot_apply bot_bool_def simp_thms)

lemma SZ_take: "SZ w = take_bit 30 w"
proof (rule bit_word_eqI)
  fix n assume "n < LENGTH(32)"
  then show "bit (SZ w) n \<longleftrightarrow> bit (take_bit 30 w) n"
    by (auto simp: OS_MEM_NODE_GET_SIZE_def bit_and_iff bit_not_iff both_flags bit_take_bit_iff)
qed

lemma unat_SZ: "unat (SZ w) = unat w mod 2 ^ 30"
proof -
  have "unat (SZ w) = take_bit 30 (unat w)" by (simp only: SZ_take unsigned_take_bit_eq)
  then show ?thesis by (simp add: take_bit_eq_mod)
qed

lemma unat_SZ_less: "unat (SZ w) < 2 ^ 30"
  by (simp add: unat_SZ)

lemma plain_SZ [simp]: "plain w \<Longrightarrow> SZ w = w"
  unfolding plain_def by (rule word_unat_eq_iff [THEN iffD2]) (simp add: unat_SZ)

lemma plain_SZ_SZ [simp]: "plain (SZ w)"
  by (simp add: plain_def unat_SZ)

lemma single_bit: "(w AND 2 ^ k \<noteq> 0) \<longleftrightarrow> bit (w :: u32) k"
  by (simp add: and_exp_eq_0_iff_not_bit)

lemma used_bit: "OS_MEM_NODE_GET_USED_FLAG w \<noteq> 0 \<longleftrightarrow> bit w 31"
  using single_bit [of w 31] by (simp add: OS_MEM_NODE_GET_USED_FLAG_def OS_MEM_NODE_USED_FLAG_def)

lemma aligned_bit: "OS_MEM_NODE_GET_ALIGNED_FLAG w \<noteq> 0 \<longleftrightarrow> bit w 30"
  using single_bit [of w 30] by (simp add: OS_MEM_NODE_GET_ALIGNED_FLAG_def OS_MEM_NODE_ALIGNED_FLAG_def)

lemma plain_not_bit: "plain w \<Longrightarrow> k \<ge> 30 \<Longrightarrow> \<not> bit w k"
  using unat_ge_bit [of w k] power_increasing [of 30 k "2 :: nat"] unfolding plain_def by linarith

lemma plain_not_used [simp]: "plain w \<Longrightarrow> OS_MEM_NODE_GET_USED_FLAG w = 0"
  using used_bit [of w] plain_not_bit [of w 31] by auto

lemma SET_USED_bits:
  "bit (OS_MEM_NODE_SET_USED_FLAG w) 31" "SZ (OS_MEM_NODE_SET_USED_FLAG w) = SZ w"
  "bit (OS_MEM_NODE_SET_USED_FLAG w) 30 = bit w 30"
proof -
  show "bit (OS_MEM_NODE_SET_USED_FLAG w) 31" "bit (OS_MEM_NODE_SET_USED_FLAG w) 30 = bit w 30"
    by (simp_all add: OS_MEM_NODE_SET_USED_FLAG_def OS_MEM_NODE_USED_FLAG_def bit_or_iff flag_word_bits)
  show "SZ (OS_MEM_NODE_SET_USED_FLAG w) = SZ w"
    by (rule bit_word_eqI) (auto simp: SZ_take OS_MEM_NODE_SET_USED_FLAG_def OS_MEM_NODE_USED_FLAG_def
        bit_or_iff flag_word_bits bit_take_bit_iff)
qed

lemma LAST_flag [simp]: "OS_MEM_NODE_GET_LAST_FLAG w = 0"
  by (simp add: OS_MEM_NODE_GET_LAST_FLAG_def OS_MEM_NODE_LAST_FLAG_def)

section \<open>The nodes of a pool\<close>

text \<open>A node is its address with the word \<open>sizeAndFlag\<close> of its header.\<close>

fun seg :: "u32 \<Rightarrow> (u32 \<times> u32) list \<Rightarrow> u32 \<Rightarrow> bool" where
  "seg a [] e \<longleftrightarrow> a = e"
| "seg a ((n, w) # bs) e \<longleftrightarrow> n = a \<and> 16 \<le> unat (SZ w) \<and> 4 dvd unat (SZ w)
     \<and> unat a + unat (SZ w) \<le> unat e \<and> seg (a + SZ w) bs e"

lemma unat_less32: "unat (w :: u32) < 2 ^ 32"
proof -
  have "unat w < 2 ^ LENGTH(32)" by (rule unsigned_less)
  then show ?thesis by simp
qed

lemma unat_add_below:
  assumes "unat a + unat b \<le> unat (e :: u32)"
  shows "unat (a + b :: u32) = unat a + unat b"
  using assms unat_less32 [of e] by (intro unat_add_lem [THEN iffD1]) simp

lemma seg_le: "seg a bs e \<Longrightarrow> unat a \<le> unat e"
  by (induction bs arbitrary: a) auto

lemma seg_append: "seg a (us @ vs) e \<longleftrightarrow> (\<exists>b. seg a us b \<and> seg b vs e)"
proof (induction us arbitrary: a)
  case (Cons x us)
  obtain n w where x: "x = (n, w)" by (cases x)
  show ?case (is "?l = ?r")
  proof
    assume ?l
    then obtain b where "n = a" "16 \<le> unat (SZ w)" "4 dvd unat (SZ w)" "unat a + unat (SZ w) \<le> unat e"
      "seg (a + SZ w) us b" "seg b vs e" using Cons x by auto
    with seg_le [of "a + SZ w" us b] show ?r
      by (intro exI [of _ b]) (simp add: x unat_add_below [of a "SZ w" e])
  next
    assume ?r
    then obtain b where b: "seg a (x # us) b" "seg b vs e" by auto
    with seg_le [OF b(2)] show ?l using Cons x by auto
  qed
qed simp

lemma seg_nodes:
  assumes "seg a bs e" "(n, w) \<in> set bs"
  shows "unat a \<le> unat n" "unat n + unat (SZ w) \<le> unat e" "16 \<le> unat (SZ w)" "4 dvd unat (SZ w)"
    "4 dvd unat n - unat a"
proof -
  have "unat a \<le> unat n \<and> unat n + unat (SZ w) \<le> unat e \<and> 16 \<le> unat (SZ w) \<and> 4 dvd unat (SZ w)
      \<and> 4 dvd unat n - unat a"
    using assms
  proof (induction bs arbitrary: a)
    case (Cons x bs)
    obtain k v where x: "x = (k, v)" by (cases x)
    from Cons.prems(1) x have k: "k = a" "16 \<le> unat (SZ v)" "4 dvd unat (SZ v)"
      "unat a + unat (SZ v) \<le> unat e" "seg (a + SZ v) bs e" by auto
    show ?case
    proof (cases "(n, w) = (k, v)")
      case True
      then show ?thesis using k by simp
    next
      case False
      with Cons.prems(2) x have "(n, w) \<in> set bs" by auto
      note IH = Cons.IH [OF k(5) this, unfolded unat_add_below [OF k(4)]]
      then have "unat n - unat a = (unat n - (unat a + unat (SZ v))) + unat (SZ v)" by simp
      with IH k(3) have "4 dvd unat n - unat a" by (metis dvd_add)
      with IH show ?thesis by simp
    qed
  qed simp
  then show "unat a \<le> unat n" "unat n + unat (SZ w) \<le> unat e" "16 \<le> unat (SZ w)" "4 dvd unat (SZ w)"
    "4 dvd unat n - unat a" by simp_all
qed

lemma seg_apart:
  assumes "seg a bs e" "(n, w) \<in> set bs" "(k, v) \<in> set bs"
  shows "unat n < unat k \<Longrightarrow> unat n + unat (SZ w) \<le> unat k" "n = k \<Longrightarrow> w = v"
proof -
  from split_list [OF assms(2)] obtain us vs where bs: "bs = us @ (n, w) # vs" by auto
  with assms(1) obtain b where b: "seg a us b" "seg b ((n, w) # vs) e" by (auto simp: seg_append)
  then have n: "b = n" "16 \<le> unat (SZ w)" "seg (n + SZ w) vs e" "unat (n + SZ w) = unat n + unat (SZ w)"
    using unat_add_below by auto
  consider "(k, v) \<in> set us" | "k = n" "v = w" | "(k, v) \<in> set vs" using assms(3) bs by auto
  then have "(unat n < unat k \<longrightarrow> unat n + unat (SZ w) \<le> unat k) \<and> (n = k \<longrightarrow> w = v)"
  proof cases
    case 1
    then show ?thesis using seg_nodes [OF b(1) 1] n by auto
  next
    case 3
    then show ?thesis using seg_nodes [OF n(3) 3] n by auto
  qed simp
  then show "unat n < unat k \<Longrightarrow> unat n + unat (SZ w) \<le> unat k" "n = k \<Longrightarrow> w = v" by simp_all
qed

lemma seg_distinct: "seg a bs e \<Longrightarrow> distinct (map fst bs) \<and> e \<notin> fst ` set bs"
proof (induction bs arbitrary: a)
  case (Cons x bs)
  obtain n w where x: "x = (n, w)" by (cases x)
  with Cons.prems have s: "n = a" "16 \<le> unat (SZ w)" "unat a + unat (SZ w) \<le> unat e" "seg (a + SZ w) bs e"
    by auto
  have "a \<notin> fst ` set bs"
    using seg_nodes(1) [OF s(4)] unat_add_below [OF s(3)] s(2) by fastforce
  moreover have "e \<noteq> a" using s by auto
  ultimately show ?case using Cons.IH [OF s(4)] x s(1) by auto
qed simp

section \<open>Addresses of fields\<close>

text \<open>Nodes that are at least a free node's header apart and behind the head of the pool.\<close>

definition spaced :: "u32 \<Rightarrow> u32 set \<Rightarrow> bool" where
  "spaced p N \<longleftrightarrow> (\<forall>n\<in>N. unat p + 944 \<le> unat n \<and> unat n + 16 \<le> 2 ^ 32)
     \<and> (\<forall>n\<in>N. \<forall>k\<in>N. unat n < unat k \<longrightarrow> unat n + 16 \<le> unat k)"

definition pool_cell :: "u32 \<Rightarrow> u32 \<Rightarrow> bool" where
  "pool_cell p a \<longleftrightarrow> unat p \<le> unat a \<and> unat a < unat p + 944"

lemma unat_neI: "unat x \<noteq> unat y \<Longrightarrow> x \<noteq> y"
  by auto

lemma unat_field:
  assumes "unat n + 16 \<le> 2 ^ 32"
  shows "unat (node_prev n) = unat n" "unat (node_size n) = unat n + 4"
    "unat (free_prev n) = unat n + 8" "unat (free_next n) = unat n + 12"
  using assms by (simp_all add: node_prev_def node_size_def free_prev_def free_next_def unat_add_lem [THEN iffD1])

lemma spaced_fields:
  assumes "spaced p N" "n \<in> N" "k \<in> N"
  shows "node_prev n \<noteq> node_size k" "node_prev n \<noteq> free_prev k" "node_prev n \<noteq> free_next k"
    "node_size n \<noteq> node_prev k" "node_size n \<noteq> free_prev k" "node_size n \<noteq> free_next k"
    "free_prev n \<noteq> node_prev k" "free_prev n \<noteq> node_size k" "free_prev n \<noteq> free_next k"
    "free_next n \<noteq> node_prev k" "free_next n \<noteq> node_size k" "free_next n \<noteq> free_prev k"
proof -
  have b: "unat n + 16 \<le> 2 ^ 32" "unat k + 16 \<le> 2 ^ 32"
    "unat n = unat k \<or> unat n + 16 \<le> unat k \<or> unat k + 16 \<le> unat n"
    using assms unfolding spaced_def by (metis nat_neq_iff)+
  note u = unat_field [OF b(1)] unat_field [OF b(2)]
  show "node_prev n \<noteq> node_size k" "node_prev n \<noteq> free_prev k" "node_prev n \<noteq> free_next k"
    "node_size n \<noteq> node_prev k" "node_size n \<noteq> free_prev k" "node_size n \<noteq> free_next k"
    "free_prev n \<noteq> node_prev k" "free_prev n \<noteq> node_size k" "free_prev n \<noteq> free_next k"
    "free_next n \<noteq> node_prev k" "free_next n \<noteq> node_size k" "free_next n \<noteq> free_prev k"
    by (rule unat_neI, simp only: u, use b(3) in linarith)+
qed

lemma unat_offset32: "unat p + k < 2 ^ 32 \<Longrightarrow> unat (p + of_nat k :: u32) = unat p + k"
  by (subst unat_add_lem [THEN iffD1]) (auto simp: unat_of_nat32)

lemma unat_pool:
  assumes "unat p + 944 \<le> 2 ^ 32"
  shows "unat (pool_self p) = unat p" "unat (pool_totalSize p) = unat p + 4" "unat (pool_attr p) = unat p + 8"
    "unat (pool_waterLine p) = unat p + 12" "unat (pool_curUsedSize p) = unat p + 16"
    "unat (pool_nextPool p) = unat p + 940"
    "k < 7 \<Longrightarrow> unat (pool_bitmap p (of_nat k)) = unat p + 20 + 4 * k"
    "i < 223 \<Longrightarrow> unat (pool_freeList p (of_nat i)) = unat p + 48 + 4 * i"
proof -
  show "k < 7 \<Longrightarrow> unat (pool_bitmap p (of_nat k)) = unat p + 20 + 4 * k"
    using unat_offset32 [of p "20 + 4 * k"] assms by (simp add: pool_bitmap_def add.assoc)
  show "i < 223 \<Longrightarrow> unat (pool_freeList p (of_nat i)) = unat p + 48 + 4 * i"
    using unat_offset32 [of p "48 + 4 * i"] assms by (simp add: pool_freeList_def add.assoc)
qed (use assms unat_offset32 [of p 4] unat_offset32 [of p 8] unat_offset32 [of p 12] unat_offset32 [of p 16]
      unat_offset32 [of p 940] in \<open>simp_all add: pool_self_def pool_totalSize_def pool_attr_def
      pool_waterLine_def pool_curUsedSize_def pool_nextPool_def\<close>)

lemma pool_cells:
  assumes "unat p + 944 \<le> 2 ^ 32"
  shows "pool_cell p (pool_self p)" "pool_cell p (pool_totalSize p)" "pool_cell p (pool_attr p)"
    "pool_cell p (pool_waterLine p)" "pool_cell p (pool_curUsedSize p)" "pool_cell p (pool_nextPool p)"
    "k < 7 \<Longrightarrow> pool_cell p (pool_bitmap p (of_nat k))" "i < 223 \<Longrightarrow> pool_cell p (pool_freeList p (of_nat i))"
  by (simp_all add: pool_cell_def unat_pool [OF assms])

lemma pool_distinct:
  assumes "unat p + 944 \<le> 2 ^ 32"
  shows "k < 7 \<Longrightarrow> i < 223 \<Longrightarrow> pool_bitmap p (of_nat k) \<noteq> pool_freeList p (of_nat i)"
    "k < 7 \<Longrightarrow> i < 223 \<Longrightarrow> pool_freeList p (of_nat i) \<noteq> pool_bitmap p (of_nat k)"
    "i < 223 \<Longrightarrow> j < 223 \<Longrightarrow> pool_freeList p (of_nat i) = pool_freeList p (of_nat j) \<longleftrightarrow> i = j"
    "k < 7 \<Longrightarrow> l < 7 \<Longrightarrow> pool_bitmap p (of_nat k) = pool_bitmap p (of_nat l) \<longleftrightarrow> k = l"
proof -
  have "unat (pool_bitmap p (of_nat k)) \<noteq> unat (pool_freeList p (of_nat i))" if "k < 7" "i < 223" for k i
    using that unat_pool(7) [OF assms, of k] unat_pool(8) [OF assms, of i] by linarith
  note ne = this [of k i]
  show "k < 7 \<Longrightarrow> i < 223 \<Longrightarrow> pool_bitmap p (of_nat k) \<noteq> pool_freeList p (of_nat i)" by (rule unat_neI) (rule ne)
  show "k < 7 \<Longrightarrow> i < 223 \<Longrightarrow> pool_freeList p (of_nat i) \<noteq> pool_bitmap p (of_nat k)" by (rule not_sym, rule unat_neI) (rule ne)
  show "i < 223 \<Longrightarrow> j < 223 \<Longrightarrow> pool_freeList p (of_nat i) = pool_freeList p (of_nat j) \<longleftrightarrow> i = j"
  proof -
    assume l: "i < 223" "j < 223"
    have "i = j" if "pool_freeList p (of_nat i) = pool_freeList p (of_nat j)"
      using unat_pool(8) [OF assms l(1), unfolded that] unat_pool(8) [OF assms l(2)] by linarith
    then show ?thesis by blast
  qed
  show "k < 7 \<Longrightarrow> l < 7 \<Longrightarrow> pool_bitmap p (of_nat k) = pool_bitmap p (of_nat l) \<longleftrightarrow> k = l"
  proof -
    assume b: "k < 7" "l < 7"
    have "k = l" if "pool_bitmap p (of_nat k) = pool_bitmap p (of_nat l)"
      using unat_pool(7) [OF assms b(1), unfolded that] unat_pool(7) [OF assms b(2)] by linarith
    then show ?thesis by blast
  qed
qed

lemma pool_info_distinct:
  assumes "unat p + 944 \<le> 2 ^ 32"
  shows "pool_cell p a \<Longrightarrow> unat p + 20 \<le> unat a \<Longrightarrow> a \<noteq> pool_self p \<and> a \<noteq> pool_totalSize p
    \<and> a \<noteq> pool_attr p \<and> a \<noteq> pool_waterLine p \<and> a \<noteq> pool_curUsedSize p"
proof -
  show "pool_cell p a \<Longrightarrow> unat p + 20 \<le> unat a \<Longrightarrow> a \<noteq> pool_self p \<and> a \<noteq> pool_totalSize p
    \<and> a \<noteq> pool_attr p \<and> a \<noteq> pool_waterLine p \<and> a \<noteq> pool_curUsedSize p"
    using unat_pool [OF assms] by auto
qed

lemma pool_not_node:
  assumes "spaced p N" "n \<in> N" "pool_cell p a"
  shows "a \<noteq> node_prev n" "a \<noteq> node_size n" "a \<noteq> free_prev n" "a \<noteq> free_next n"
proof -
  have b: "unat p + 944 \<le> unat n" "unat n + 16 \<le> 2 ^ 32" using assms unfolding spaced_def by auto
  show "a \<noteq> node_prev n" "a \<noteq> node_size n" "a \<noteq> free_prev n" "a \<noteq> free_next n"
    by (rule unat_neI, simp only: unat_field [OF b(2)], use b(1) assms(3) in \<open>unfold pool_cell_def, linarith\<close>)+
qed

lemmas node_not_pool = pool_not_node [THEN not_sym]

lemma field_eq [simp]:
  "node_prev n = node_prev k \<longleftrightarrow> n = k" "node_size n = node_size k \<longleftrightarrow> n = k"
  "free_prev n = free_prev k \<longleftrightarrow> n = k" "free_next n = free_next k \<longleftrightarrow> n = k"
  by (simp_all add: node_prev_def node_size_def free_prev_def free_next_def)

section \<open>Lists linked both ways\<close>

definition hd_or :: "'a \<Rightarrow> 'a list \<Rightarrow> 'a" where "hd_or d xs = (case xs of [] \<Rightarrow> d | x # _ \<Rightarrow> x)"
definition last_or :: "'a \<Rightarrow> 'a list \<Rightarrow> 'a" where "last_or d xs = (if xs = [] then d else last xs)"

lemma or_simps [simp]: "hd_or d [] = d" "hd_or d (x # xs) = x" "last_or d [] = d"
  "last_or d (x # xs) = last_or x xs" "last_or d (xs @ [x]) = x"
  by (simp_all add: hd_or_def last_or_def)

text \<open>From \<open>pr\<close>, which precedes the first element, to \<open>en\<close>, which follows the last.\<close>

fun dll :: "(u32 \<Rightarrow> u32) \<Rightarrow> (u32 \<Rightarrow> u32) \<Rightarrow> u32 \<Rightarrow> u32 list \<Rightarrow> u32 \<Rightarrow> bool" where
  "dll pv nx pr [] en \<longleftrightarrow> True"
| "dll pv nx pr (x # xs) en \<longleftrightarrow> pv x = pr \<and> nx x = hd_or en xs \<and> dll pv nx x xs en"

lemma dll_append:
  "dll pv nx pr (us @ vs) en \<longleftrightarrow> dll pv nx pr us (hd_or en vs) \<and> dll pv nx (last_or pr us) vs en"
  by (induction us arbitrary: pr) (auto simp: hd_or_def split: list.splits)

lemma dll_cong:
  assumes "\<And>x. x \<in> set xs \<Longrightarrow> pv' x = pv x \<and> nx' x = nx x"
  shows "dll pv' nx' pr xs en = dll pv nx pr xs en"
  using assms by (induction xs arbitrary: pr) auto

lemma dll_set_next:
  assumes "dll pv nx pr us y" "distinct us"
  shows "dll pv (nx(last_or d us := z)) pr us z"
  using assms
proof (induction us arbitrary: pr d)
  case (Cons x us)
  show ?case
  proof (cases us)
    case Nil
    then show ?thesis using Cons by (simp add: last_or_def)
  next
    case (Cons y ys)
    have "last_or x us \<in> set us" using Cons by (simp add: last_or_def)
    then have "last_or x us \<noteq> x" using Cons.prems(2) by auto
    then show ?thesis using Cons.IH [of x x] Cons.prems Cons by auto
  qed
qed simp

lemma dll_set_prev:
  assumes "dll pv nx pr (x # xs) en" "x \<notin> set xs"
  shows "dll (pv(x := z)) nx z (x # xs) en"
proof -
  have "dll (pv(x := z)) nx x xs en = dll pv nx x xs en" by (rule dll_cong) (use assms(2) in auto)
  with assms(1) show ?thesis by simp
qed

text \<open>Taking an element out.\<close>

lemma dll_remove:
  assumes "dll pv nx pr (us @ x # vs) en" "distinct (us @ x # vs)"
  shows "dll (if vs = [] then pv else pv(hd vs := last_or pr us))
             (if us = [] then nx else nx(last us := hd_or en vs)) pr (us @ vs) en"
proof -
  let ?pv = "if vs = [] then pv else pv(hd vs := last_or pr us)"
  let ?nx = "if us = [] then nx else nx(last us := hd_or en vs)"
  have d: "dll pv nx pr us x" "dll pv nx x vs en" using assms(1) by (auto simp: dll_append)
  have "dll pv ?nx pr us (hd_or en vs)"
    using dll_set_next [OF d(1), of "last us" "hd_or en vs"] assms(2) by (auto simp: last_or_def)
  then have "dll ?pv ?nx pr us (hd_or en vs)"
    by (subst dll_cong [of us ?pv pv ?nx ?nx]) (use assms(2) in \<open>auto simp: neq_Nil_conv\<close>)
  moreover have "dll ?pv nx (last_or pr us) vs en"
    using d(2) assms(2) dll_set_prev [of pv nx x "hd vs" "tl vs" en "last_or pr us"] by (cases vs) auto
  then have "dll ?pv ?nx (last_or pr us) vs en"
    by (subst dll_cong [of vs ?pv ?pv ?nx nx]) (use assms(2) last_in_set [of us] in \<open>auto simp: disjoint_iff\<close>)
  ultimately show ?thesis by (simp add: dll_append)
qed

section \<open>The free lists of a pool\<close>

text \<open>\<open>F\<close> are the free nodes with their sizes, \<open>fl\<close> the lists in the order of the links.\<close>

definition lists_inv :: "u32 \<Rightarrow> hmem \<Rightarrow> (u32 \<times> u32) set \<Rightarrow> (nat \<Rightarrow> u32 list) \<Rightarrow> bool" where
  "lists_inv p m F fl \<longleftrightarrow>
     (\<forall>i<223. m (pool_freeList p (of_nat i)) = hd_or 0 (fl i)
        \<and> dll (\<lambda>n. m (free_prev n)) (\<lambda>n. m (free_next n)) 0 (fl i) 0 \<and> distinct (fl i)
        \<and> set (fl i) = {n. \<exists>w. (n, w) \<in> F \<and> cls w = i})
     \<and> bits_ok p m (\<lambda>i. i < 223 \<and> fl i \<noteq> [])"

text \<open>The cells the lists live in: the links of the nodes, the heads and the bitmap.\<close>

definition link_cell :: "u32 \<Rightarrow> u32 set \<Rightarrow> u32 \<Rightarrow> bool" where
  "link_cell p X a \<longleftrightarrow> (\<exists>n\<in>X. a = free_prev n \<or> a = free_next n)
     \<or> unat p + 20 \<le> unat a \<and> unat a < unat p + 940"

lemma link_cellI:
  assumes "unat p + 944 \<le> 2 ^ 32"
  shows "n \<in> X \<Longrightarrow> link_cell p X (free_prev n)" "n \<in> X \<Longrightarrow> link_cell p X (free_next n)"
    "i < 223 \<Longrightarrow> link_cell p X (pool_freeList p (of_nat i))"
    "k < 7 \<Longrightarrow> link_cell p X (pool_bitmap p (of_nat k))"
  using unat_pool(7,8) [OF assms] by (auto simp: link_cell_def)

lemma link_cell_mono: "link_cell p X a \<Longrightarrow> X \<subseteq> Y \<Longrightarrow> link_cell p Y a"
  by (auto simp: link_cell_def)

lemma div_32_less: "i < 224 \<Longrightarrow> i div 32 < (7 :: nat)"
  by (intro less_mult_imp_div_less) simp

lemma lists_inv_cong:
  assumes "lists_inv p m F fl" "unat p + 944 \<le> 2 ^ 32"
    and "\<And>a. link_cell p (fst ` F) a \<Longrightarrow> m' a = m a"
  shows "lists_inv p m' F fl"
proof -
  have "dll (\<lambda>n. m' (free_prev n)) (\<lambda>n. m' (free_next n)) 0 (fl i) 0
      = dll (\<lambda>n. m (free_prev n)) (\<lambda>n. m (free_next n)) 0 (fl i) 0" if "i < 223" for i
  proof (rule dll_cong)
    fix x assume "x \<in> set (fl i)"
    moreover have "set (fl i) = {n. \<exists>w. (n, w) \<in> F \<and> cls w = i}"
      using assms(1) that unfolding lists_inv_def by blast
    ultimately obtain w where "(x, w) \<in> F" by blast
    then have x: "x \<in> fst ` F" by (rule rev_image_eqI) simp
    show "m' (free_prev x) = m (free_prev x) \<and> m' (free_next x) = m (free_next x)"
      by (rule conjI; rule assms(3), rule link_cellI [OF assms(2)], rule x)
  qed
  moreover have "m' (pool_freeList p (of_nat i)) = m (pool_freeList p (of_nat i))" if "i < 223" for i
    by (rule assms(3), rule link_cellI [OF assms(2)], rule that)
  moreover have "m' (pool_bitmap p (of_nat k)) = m (pool_bitmap p (of_nat k))" if "k < 7" for k
    by (rule assms(3), rule link_cellI [OF assms(2)], rule that)
  then have "bits_ok p m' B = bits_ok p m B" for B
    unfolding bits_ok_def by (simp add: div_32_less)
  ultimately show ?thesis using assms(1) by (simp add: lists_inv_def)
qed

lemma bit_words:
  assumes "k < 32" "j < 32"
  shows "bit (w OR (2 :: u32) ^ k) j \<longleftrightarrow> bit w j \<or> j = k"
    "bit (w AND NOT ((2 :: u32) ^ k)) j \<longleftrightarrow> bit w j \<and> j \<noteq> k"
  using assms by (auto simp: bit_or_iff bit_and_iff bit_not_iff bit_exp_iff)

lemma bits_ok_change:
  assumes "bits_ok p m B" "i < 223"
    and "\<And>k. k < 7 \<Longrightarrow> k \<noteq> i div 32 \<Longrightarrow> m' (pool_bitmap p (of_nat k)) = m (pool_bitmap p (of_nat k))"
    and "\<And>j. j < 32 \<Longrightarrow> bit (m' (pool_bitmap p (of_nat (i div 32)))) j \<longleftrightarrow>
          (if j = i mod 32 then b else bit (m (pool_bitmap p (of_nat (i div 32)))) j)"
  shows "bits_ok p m' (B(i := b))"
proof -
  have "bit (m' (pool_bitmap p (of_nat (j div 32)))) (j mod 32) = (B(i := b)) j" if "j < 224" for j
  proof (cases "j div 32 = i div 32")
    case True
    then have "j mod 32 = i mod 32 \<longleftrightarrow> j = i" by (metis div_mult_mod_eq)
    moreover have "bit (m (pool_bitmap p (of_nat (j div 32)))) (j mod 32) = B j"
      using assms(1) that unfolding bits_ok_def by blast
    ultimately show ?thesis using assms(4) [of "j mod 32"] True by auto
  next
    case False
    have "j div 32 < 7" using that by (intro less_mult_imp_div_less) simp
    then have "m' (pool_bitmap p (of_nat (j div 32))) = m (pool_bitmap p (of_nat (j div 32)))"
      using assms(3) False by blast
    then show ?thesis using assms(1) that False by (auto simp: bits_ok_def)
  qed
  then show ?thesis using assms(1,2) by (auto simp: bits_ok_def)
qed

section \<open>Putting a node on its list\<close>

lemma ListAdd_obs:
  assumes sp: "spaced p N" and p: "unat p + 944 \<le> 2 ^ 32" and i: "i < 223" and n: "n \<in> N"
    and f: "f = m (pool_freeList p (of_nat i))" "f = 0 \<or> f \<in> N" "f \<noteq> n"
    and m': "m' = OsMemListAdd p (of_nat i) n m"
  shows "x \<in> N \<Longrightarrow> m' (free_prev x) = (if x = n then 0 else if x = f \<and> f \<noteq> 0 then n else m (free_prev x))"
    "x \<in> N \<Longrightarrow> m' (free_next x) = (if x = n then f else m (free_next x))"
    "j < 223 \<Longrightarrow> m' (pool_freeList p (of_nat j)) = (if j = i then n else m (pool_freeList p (of_nat j)))"
    "k < 7 \<Longrightarrow> m' (pool_bitmap p (of_nat k)) = (if k = i div 32
       then m (pool_bitmap p (of_nat k)) OR push_bit (i mod 32) 1 else m (pool_bitmap p (of_nat k)))"
    "\<not> link_cell p (if f = 0 then {n} else {n, f}) a \<Longrightarrow> m' a = m a"
proof -
  have w: "i div 32 < 7" using i by (intro less_mult_imp_div_less) simp
  have e: "m' = (let m4 = ((if f \<noteq> 0 then m(free_prev f := n) else m)(free_prev n := 0))
             (free_next n := f, pool_freeList p (of_nat i) := n)
         in m4(pool_bitmap p (of_nat (i div 32)) := m4 (pool_bitmap p (of_nat (i div 32)))
                 OR push_bit (i mod 32) 1))"
    using i by (simp add: m' OsMemListAdd_def OsMemSetFreeListBit_def Let_def f(1) word_index)
  note ne = spaced_fields [OF sp] pool_distinct [OF p] pool_not_node [OF sp] node_not_pool [OF sp]
    pool_cells [OF p]
  have fN: "f \<noteq> 0 \<Longrightarrow> f \<in> N" using f(2) by blast
  note s = e Let_def ne n i w fN
  show "x \<in> N \<Longrightarrow> m' (free_prev x) = (if x = n then 0 else if x = f \<and> f \<noteq> 0 then n else m (free_prev x))"
    by (cases "f = 0") (simp_all add: s)
  show "x \<in> N \<Longrightarrow> m' (free_next x) = (if x = n then f else m (free_next x))"
    by (cases "f = 0") (simp_all add: s)
  show "j < 223 \<Longrightarrow> m' (pool_freeList p (of_nat j)) = (if j = i then n else m (pool_freeList p (of_nat j)))"
    by (cases "f = 0") (simp_all add: s)
  show "k < 7 \<Longrightarrow> m' (pool_bitmap p (of_nat k)) = (if k = i div 32
       then m (pool_bitmap p (of_nat k)) OR push_bit (i mod 32) 1 else m (pool_bitmap p (of_nat k)))"
    by (cases "f = 0") (simp_all add: s)
  assume a: "\<not> link_cell p (if f = 0 then {n} else {n, f}) a"
  then have "a \<noteq> free_prev n" "a \<noteq> free_next n" "a \<noteq> pool_freeList p (of_nat i)"
    "a \<noteq> pool_bitmap p (of_nat (i div 32))" "f \<noteq> 0 \<Longrightarrow> a \<noteq> free_prev f"
    using link_cellI [OF p] i w by auto
  then show "m' a = m a" by (simp add: e Let_def)
qed

lemma lists_invD:
  assumes "lists_inv p m F fl" "i < 223"
  shows "m (pool_freeList p (of_nat i)) = hd_or 0 (fl i)"
    "dll (\<lambda>n. m (free_prev n)) (\<lambda>n. m (free_next n)) 0 (fl i) 0" "distinct (fl i)"
    "x \<in> set (fl i) \<longleftrightarrow> (\<exists>w. (x, w) \<in> F \<and> cls w = i)" "x \<in> set (fl i) \<Longrightarrow> x \<in> fst ` F"
  using assms unfolding lists_inv_def by (auto intro: rev_image_eqI)

lemma lists_disjoint:
  assumes "lists_inv p m F fl" "inj_on fst F" "i < 223" "j < 223" "x \<in> set (fl i)" "x \<in> set (fl j)"
  shows "i = j"
proof -
  obtain v w where "(x, v) \<in> F" "cls v = i" "(x, w) \<in> F" "cls w = j"
    using lists_invD(4) [OF assms(1,3)] lists_invD(4) [OF assms(1,4)] assms(5,6) by blast
  then show ?thesis using assms(2) by (metis fst_conv inj_onD prod.inject)
qed

lemma spaced_nonzero: "spaced p N \<Longrightarrow> n \<in> N \<Longrightarrow> n \<noteq> 0"
  by (auto simp: spaced_def)

lemma lists_inv_add:
  assumes sp: "spaced p N" and p: "unat p + 944 \<le> 2 ^ 32" and L: "lists_inv p m F fl"
    and F: "fst ` F \<subseteq> N" "inj_on fst F" and n: "n \<in> N" "n \<notin> fst ` F" and i: "i < 223" "cls w = i"
  shows "lists_inv p (OsMemListAdd p (of_nat i) n m) (insert (n, w) F) (fl(i := n # fl i))"
    "\<not> link_cell p (insert n (fst ` F)) a \<Longrightarrow> OsMemListAdd p (of_nat i) n m a = m a"
proof -
  let ?f = "m (pool_freeList p (of_nat i))" and ?m = "OsMemListAdd p (of_nat i) n m"
  note D = lists_invD [OF L]
  have f: "?f \<in> fst ` F" "?f \<in> set (fl i)" "fl i = ?f # tl (fl i)" if "?f \<noteq> 0"
    using D(1,5) [OF i(1)] that by (cases "fl i"; auto)+
  have f0: "fl i = []" if "?f = 0"
    using D(1,5) [OF i(1)] that F(1) spaced_nonzero [OF sp] by (cases "fl i") auto
  have fn: "?f = 0 \<or> ?f \<in> N" using f(1) F(1) by blast
  have fn2: "?f \<noteq> n" using f(1) n spaced_nonzero [OF sp n(1)] by metis
  note O = ListAdd_obs [where m = m and f = ?f and m' = ?m, OF sp p i(1) n(1) refl fn fn2 refl]
  have sub: "(if ?f = 0 then {n} else {n, ?f}) \<subseteq> insert n (fst ` F)" using f(1) by auto
  show "\<not> link_cell p (insert n (fst ` F)) a \<Longrightarrow> ?m a = m a"
    using link_cell_mono [OF _ sub, where a = a and p = p] O(5) [of a] by metis
  have other: "dll (\<lambda>n. ?m (free_prev n)) (\<lambda>n. ?m (free_next n)) pr xs 0
      = dll (\<lambda>n. m (free_prev n)) (\<lambda>n. m (free_next n)) pr xs 0"
    if "set xs \<subseteq> fst ` F" "?f \<notin> set xs" for pr xs
  proof (rule dll_cong)
    fix x assume "x \<in> set xs"
    then have "x \<in> N" "x \<noteq> n" "x \<noteq> ?f" using that F(1) n(2) by auto
    then show "?m (free_prev x) = m (free_prev x) \<and> ?m (free_next x) = m (free_next x)"
      by (simp add: O(1,2))
  qed
  have "dll (\<lambda>n. ?m (free_prev n)) (\<lambda>n. ?m (free_next n)) 0 ((fl(i := n # fl i)) j) 0" if j: "j < 223" for j
  proof (cases "j = i")
    case False
    have "?f \<notin> set (fl j)"
    proof
      assume "?f \<in> set (fl j)"
      moreover from this have "?f \<noteq> 0" using D(5) [OF j] F(1) spaced_nonzero [OF sp] by blast
      ultimately show False using lists_disjoint [OF L F(2) i(1) j f(2)] False by blast
    qed
    moreover have "set (fl j) \<subseteq> fst ` F" using D(5) [OF j] by blast
    ultimately show ?thesis using other D(2) [OF j] False by simp
  next
    case True
    show ?thesis
    proof (cases "?f = 0")
      case True
      then show ?thesis using \<open>j = i\<close> O(1,2) [OF n(1)] f0 by simp
    next
      case False
      define r where "r = tl (fl i)"
      have e: "fl i = ?f # r" using f(3) [OF False] by (simp add: r_def)
      have "dll (\<lambda>n. m (free_prev n)) (\<lambda>n. m (free_next n)) ?f r 0" "m (free_next ?f) = hd_or 0 r"
        using D(2) [OF i(1)] by (subst (asm) e, simp)+
      moreover have "?f \<notin> set r" using D(3) [OF i(1)] by (subst (asm) e) simp
      moreover have "set r \<subseteq> fst ` F" using D(5) [OF i(1)] e by (metis list.set_intros(2) subsetI)
      ultimately have "dll (\<lambda>n. ?m (free_prev n)) (\<lambda>n. ?m (free_next n)) n (?f # r) 0"
        using other [of r ?f] O(1,2) [of ?f] fn fn2 False by simp
      then have "dll (\<lambda>n. ?m (free_prev n)) (\<lambda>n. ?m (free_next n)) 0 (n # ?f # r) 0"
        using O(1,2) [OF n(1)] by simp
      then show ?thesis using \<open>j = i\<close> e by simp
    qed
  qed
  moreover have "?m (pool_freeList p (of_nat j)) = hd_or 0 ((fl(i := n # fl i)) j)" if "j < 223" for j
    using O(3) [OF that] D(1) [OF that] by simp
  moreover have "distinct ((fl(i := n # fl i)) j)" if "j < 223" for j
    using D(3,5) [OF that] n(2) by auto
  moreover have "set ((fl(i := n # fl i)) j) = {x. \<exists>v. (x, v) \<in> insert (n, w) F \<and> cls v = j}" if "j < 223" for j
  proof -
    have "x \<in> set ((fl(i := n # fl i)) j) \<longleftrightarrow> (\<exists>v. (x, v) \<in> insert (n, w) F \<and> cls v = j)" for x
      using D(4) [OF that, of x] i(2) n(2) by auto
    then show ?thesis by blast
  qed
  moreover have "bits_ok p ?m ((\<lambda>j. j < 223 \<and> fl j \<noteq> [])(i := True))"
  proof (rule bits_ok_change [OF _ i(1)])
    show "bits_ok p m (\<lambda>j. j < 223 \<and> fl j \<noteq> [])" using L by (simp add: lists_inv_def)
  qed (use O(4) i div_32_less [of i] in \<open>simp_all add: bit_words\<close>)
  then have "bits_ok p ?m (\<lambda>j. j < 223 \<and> (fl(i := n # fl i)) j \<noteq> [])"
    by (rule back_subst [where P = "bits_ok p ?m"]) (use i in auto)
  ultimately show "lists_inv p ?m (insert (n, w) F) (fl(i := n # fl i))"
    unfolding lists_inv_def by blast
qed

section \<open>Taking a node off its list\<close>

lemma ListDelete_obs:
  assumes sp: "spaced p N" and p: "unat p + 944 \<le> 2 ^ 32" and i: "i < 223"
    and xs: "set (us @ n # vs) \<subseteq> N" "distinct (us @ n # vs)"
    and h: "m (pool_freeList p (of_nat i)) = hd_or 0 (us @ n # vs)"
    and d: "dll (\<lambda>n. m (free_prev n)) (\<lambda>n. m (free_next n)) 0 (us @ n # vs) 0"
    and m': "m' = OsMemListDelete p (of_nat i) n m"
  shows "x \<in> N \<Longrightarrow> m' (free_prev x) = (if vs \<noteq> [] \<and> x = hd vs then last_or 0 us else m (free_prev x))"
    "x \<in> N \<Longrightarrow> m' (free_next x) = (if us \<noteq> [] \<and> x = last us then hd_or 0 vs else m (free_next x))"
    "j < 223 \<Longrightarrow> m' (pool_freeList p (of_nat j)) = (if j = i then hd_or 0 (us @ vs) else m (pool_freeList p (of_nat j)))"
    "k < 7 \<Longrightarrow> m' (pool_bitmap p (of_nat k)) = (if us @ vs = [] \<and> k = i div 32
       then m (pool_bitmap p (of_nat k)) AND NOT (2 ^ (i mod 32)) else m (pool_bitmap p (of_nat k)))"
    "\<not> link_cell p (set (us @ n # vs)) a \<Longrightarrow> m' a = m a"
proof -
  have w: "i div 32 < 7" using i by (intro div_32_less) simp
  note nz = spaced_nonzero [OF sp]
  have n: "n \<in> N" "m (free_next n) = hd_or 0 vs" "m (free_prev n) = last_or 0 us"
    using xs d by (auto simp: dll_append)
  have v: "vs \<noteq> [] \<Longrightarrow> hd vs \<in> N" "vs \<noteq> [] \<Longrightarrow> hd vs \<noteq> n" "hd_or 0 vs = 0 \<longleftrightarrow> vs = []"
    "vs \<noteq> [] \<Longrightarrow> hd_or 0 vs = hd vs"
    using xs nz by (cases vs; auto)+
  have u: "us \<noteq> [] \<Longrightarrow> last us \<in> N" "us \<noteq> [] \<Longrightarrow> last us \<noteq> n" "us \<noteq> [] \<Longrightarrow> last_or 0 us = last us"
    "us \<noteq> [] \<Longrightarrow> hd us \<noteq> n"
    using xs by (auto simp: last_or_def)
  note ne = spaced_fields [OF sp] pool_distinct [OF p] pool_not_node [OF sp] node_not_pool [OF sp]
    pool_cells [OF p]
  have e: "m' = (let m1 = (if us = [] then m(pool_freeList p (of_nat i) := hd_or 0 vs)
                           else m(free_next (last us) := hd_or 0 vs))
      in if vs \<noteq> [] then m1(free_prev (hd vs) := last_or 0 us)
         else if us = [] then m1(pool_bitmap p (of_nat (i div 32)) :=
            m1 (pool_bitmap p (of_nat (i div 32))) AND NOT (2 ^ (i mod 32))) else m1)"
  proof (cases us)
    case Nil
    then show ?thesis
      using i n v h by (simp add: m' OsMemListDelete_def OsMemClearFreeListBit_def Let_def ne word_index)
  next
    case (Cons y ys)
    then have "n \<noteq> m (pool_freeList p (of_nat i))" using h u(4) by simp
    then show ?thesis
      using Cons i n v u by (simp add: m' OsMemListDelete_def Let_def ne)
  qed
  have h': "us \<noteq> [] \<Longrightarrow> m (pool_freeList p (of_nat i)) = hd_or 0 (us @ vs)" using h by (cases us) auto
  note s = e Let_def ne n i w v(1,2) u(1,2)
  show "x \<in> N \<Longrightarrow> m' (free_prev x) = (if vs \<noteq> [] \<and> x = hd vs then last_or 0 us else m (free_prev x))"
    by (cases "us = []"; cases "vs = []") (simp_all add: s)
  show "x \<in> N \<Longrightarrow> m' (free_next x) = (if us \<noteq> [] \<and> x = last us then hd_or 0 vs else m (free_next x))"
    by (cases "us = []"; cases "vs = []") (simp_all add: s)
  show "j < 223 \<Longrightarrow> m' (pool_freeList p (of_nat j)) = (if j = i then hd_or 0 (us @ vs) else m (pool_freeList p (of_nat j)))"
    using h' by (cases "us = []"; cases "vs = []") (simp_all add: s)
  show "k < 7 \<Longrightarrow> m' (pool_bitmap p (of_nat k)) = (if us @ vs = [] \<and> k = i div 32
       then m (pool_bitmap p (of_nat k)) AND NOT (2 ^ (i mod 32)) else m (pool_bitmap p (of_nat k)))"
    by (cases "us = []"; cases "vs = []") (simp_all add: s)
  assume a: "\<not> link_cell p (set (us @ n # vs)) a"
  have "a \<noteq> pool_freeList p (of_nat i)" "a \<noteq> pool_bitmap p (of_nat (i div 32))"
    "us \<noteq> [] \<Longrightarrow> a \<noteq> free_next (last us)" "vs \<noteq> [] \<Longrightarrow> a \<noteq> free_prev (hd vs)"
    using a link_cellI [OF p, where X = "set (us @ n # vs)"] i w by (auto; metis hd_in_set last_in_set)+
  then show "m' a = m a" by (simp add: e Let_def)
qed

lemma lists_inv_delete:
  assumes sp: "spaced p N" and p: "unat p + 944 \<le> 2 ^ 32" and L: "lists_inv p m F fl"
    and F: "fst ` F \<subseteq> N" "inj_on fst F" and n: "(n, w) \<in> F" and i: "i < 223" "cls w = i"
  shows "lists_inv p (OsMemListDelete p (of_nat i) n m) (F - {(n, w)}) (fl(i := removeAll n (fl i)))"
    "\<not> link_cell p (fst ` F) a \<Longrightarrow> OsMemListDelete p (of_nat i) n m a = m a"
proof -
  let ?m = "OsMemListDelete p (of_nat i) n m"
  note D = lists_invD [OF L]
  have "n \<in> set (fl i)" using D(4) [OF i(1)] n i(2) by blast
  then obtain us vs where x: "fl i = us @ n # vs" by (meson split_list)
  have d: "distinct (us @ n # vs)" using D(3) [OF i(1)] x by simp
  have sF: "set (us @ n # vs) \<subseteq> fst ` F" using D(5) [OF i(1)] x by (metis subsetI)
  then have sN: "set (us @ n # vs) \<subseteq> N" using F(1) by blast
  have r: "removeAll n (fl i) = us @ vs" using d x by simp
  note O = ListDelete_obs [where m = m and m' = ?m, OF sp p i(1) sN d D(1) [OF i(1), unfolded x]
      D(2) [OF i(1), unfolded x] refl]
  show "\<not> link_cell p (fst ` F) a \<Longrightarrow> ?m a = m a"
    using link_cell_mono [OF _ sF, where a = a and p = p] O(5) [of a] by metis
  have "dll (\<lambda>n. ?m (free_prev n)) (\<lambda>n. ?m (free_next n)) 0 ((fl(i := removeAll n (fl i))) j) 0"
    if j: "j < 223" for j
  proof (cases "j = i")
    case False
    have "dll (\<lambda>n. ?m (free_prev n)) (\<lambda>n. ?m (free_next n)) 0 (fl j) 0
        = dll (\<lambda>n. m (free_prev n)) (\<lambda>n. m (free_next n)) 0 (fl j) 0"
    proof (rule dll_cong)
      fix y assume y: "y \<in> set (fl j)"
      then have "y \<notin> set (fl i)" using lists_disjoint [OF L F(2) j i(1) y] False by blast
      then have "y \<notin> set us" "y \<notin> set vs" by (simp_all add: x)
      then have "us \<noteq> [] \<Longrightarrow> y \<noteq> last us" "vs \<noteq> [] \<Longrightarrow> y \<noteq> hd vs" by auto
      moreover have "y \<in> N" using D(5) [OF j y] F(1) by blast
      ultimately show "?m (free_prev y) = m (free_prev y) \<and> ?m (free_next y) = m (free_next y)"
        using O(1,2) [of y] by auto
    qed
    then show ?thesis using D(2) [OF j] False by simp
  next
    case True
    let ?pv = "if vs = [] then (\<lambda>n. m (free_prev n)) else (\<lambda>n. m (free_prev n))(hd vs := last_or 0 us)"
    let ?nx = "if us = [] then (\<lambda>n. m (free_next n)) else (\<lambda>n. m (free_next n))(last us := hd_or 0 vs)"
    have "dll ?pv ?nx 0 (us @ vs) 0"
      using dll_remove [OF D(2) [OF i(1), unfolded x] d] .
    moreover have "dll (\<lambda>n. ?m (free_prev n)) (\<lambda>n. ?m (free_next n)) 0 (us @ vs) 0 = dll ?pv ?nx 0 (us @ vs) 0"
    proof (rule dll_cong)
      fix y assume "y \<in> set (us @ vs)"
      then have "y \<in> N" using sN by auto
      then show "?m (free_prev y) = ?pv y \<and> ?m (free_next y) = ?nx y" using O(1,2) [of y] by simp
    qed
    ultimately show ?thesis using True r by simp
  qed
  moreover have "?m (pool_freeList p (of_nat j)) = hd_or 0 ((fl(i := removeAll n (fl i))) j)" if "j < 223" for j
    using O(3) [OF that] D(1) [OF that] r by simp
  moreover have "distinct ((fl(i := removeAll n (fl i))) j)" if "j < 223" for j
    using D(3) [OF that] d r by auto
  moreover have "set ((fl(i := removeAll n (fl i))) j) = {x. \<exists>v. (x, v) \<in> F - {(n, w)} \<and> cls v = j}" if "j < 223" for j
  proof -
    have u: "v = w" if "(n, v) \<in> F" for v using F(2) n that by (metis fst_conv inj_onD prod.inject)
    have "y \<in> set ((fl(i := removeAll n (fl i))) j) \<longleftrightarrow> (\<exists>v. (y, v) \<in> F - {(n, w)} \<and> cls v = j)" for y
      using D(4) [OF that, of y] i(2) u by auto
    then show ?thesis by blast
  qed
  moreover have "bits_ok p ?m ((\<lambda>j. j < 223 \<and> fl j \<noteq> [])(i := (us @ vs \<noteq> [])))"
  proof (rule bits_ok_change [OF _ i(1)])
    show B: "bits_ok p m (\<lambda>j. j < 223 \<and> fl j \<noteq> [])" using L by (simp add: lists_inv_def)
    fix j :: nat assume j: "j < 32"
    have "bit (m (pool_bitmap p (of_nat (i div 32)))) (i mod 32)"
      using B i(1) x unfolding bits_ok_def by auto
    then show "bit (?m (pool_bitmap p (of_nat (i div 32)))) j =
        (if j = i mod 32 then us @ vs \<noteq> [] else bit (m (pool_bitmap p (of_nat (i div 32)))) j)"
      using O(4) [of "i div 32"] i(1) div_32_less [of i] j by (auto simp: bit_words)
  qed (use O(4) in simp)
  then have "bits_ok p ?m (\<lambda>j. j < 223 \<and> (fl(i := removeAll n (fl i))) j \<noteq> [])"
    by (rule back_subst [where P = "bits_ok p ?m"]) (use i r in auto)
  ultimately show "lists_inv p ?m (F - {(n, w)}) (fl(i := removeAll n (fl i)))"
    unfolding lists_inv_def by blast
qed

end
