(* ===== verification/Los_MemRep.thy ===== *)
theory Los_MemRep
  imports Los_MemInv
begin

text \<open>
  The relation between the memory of a pool and its list of nodes, and what the steps of the
  operations do to it: merging two nodes, splitting one, changing flags, taking a free node off
  its list and putting one on.
\<close>

section \<open>The relation\<close>

fun hdrs :: "hmem \<Rightarrow> u32 \<Rightarrow> (u32 \<times> u32) list \<Rightarrow> bool" where
  "hdrs m pr [] \<longleftrightarrow> True"
| "hdrs m pr ((n, w) # bs) \<longleftrightarrow> m (node_prev n) = pr \<and> m (node_size n) = w \<and> hdrs m n bs"

lemma hdrs_append: "hdrs m pr (us @ vs) \<longleftrightarrow> hdrs m pr us \<and> hdrs m (last_or pr (map fst us)) vs"
proof (induction us arbitrary: pr)
  case (Cons x us)
  then show ?case by (cases x) simp
qed simp

lemma hdrs_cong:
  assumes "\<And>n. n \<in> fst ` set bs \<Longrightarrow> m' (node_prev n) = m (node_prev n) \<and> m' (node_size n) = m (node_size n)"
  shows "hdrs m' pr bs = hdrs m pr bs"
  using assms
proof (induction bs arbitrary: pr)
  case (Cons x bs)
  then show ?case by (cases x) simp
qed simp

lemma hdrs_size: "hdrs m pr bs \<Longrightarrow> (n, w) \<in> set bs \<Longrightarrow> m (node_size n) = w"
proof (induction bs arbitrary: pr)
  case (Cons x bs)
  then show ?case by (cases x) auto
qed simp

definition pool_fits :: "u32 \<Rightarrow> u32 \<Rightarrow> bool" where
  "pool_fits p sz \<longleftrightarrow> 4 dvd unat p \<and> 0 < unat p \<and> 968 \<le> unat sz \<and> unat sz \<le> 2 ^ 28
     \<and> 4 dvd unat sz \<and> unat p + unat sz + 8 \<le> 2 ^ 32"

definition rep :: "u32 \<Rightarrow> u32 \<Rightarrow> hmem \<Rightarrow> (u32 \<times> u32) list \<Rightarrow> (u32 \<times> u32) set \<Rightarrow> bool" where
  "rep p sz m bs F \<longleftrightarrow> pool_fits p sz \<and> m (pool_self p) = p \<and> m (pool_totalSize p) = sz \<and> bs \<noteq> []
     \<and> seg (OS_MEM_FIRST_NODE p) bs (OS_MEM_END_NODE p sz)
     \<and> hdrs m (OS_MEM_END_NODE p sz) (bs @ [(OS_MEM_END_NODE p sz, OS_MEM_NODE_USED_FLAG)])
     \<and> F \<subseteq> {(n, w). (n, w) \<in> set bs \<and> plain w} \<and> (\<exists>fl. lists_inv p m F fl)"

definition nodes :: "u32 \<Rightarrow> u32 \<Rightarrow> (u32 \<times> u32) list \<Rightarrow> u32 set" where
  "nodes p sz bs = insert (OS_MEM_END_NODE p sz) (fst ` set bs)"

lemma unat_end:
  assumes "pool_fits p sz"
  shows "unat (OS_MEM_END_NODE p sz) = unat p + unat sz - 8" "unat (OS_MEM_FIRST_NODE p) = unat p + 944"
    "unat p + 944 \<le> 2 ^ 32"
proof -
  note a = assms [unfolded pool_fits_def]
  have "unat (p + sz) = unat p + unat sz" using a by (intro unat_add_lem [THEN iffD1]) simp
  then show "unat (OS_MEM_END_NODE p sz) = unat p + unat sz - 8"
    using a by (simp add: OS_MEM_END_NODE_def OS_MEM_NODE_HEAD_SIZE_def unat_sub word_le_nat_alt)
  show "unat (OS_MEM_FIRST_NODE p) = unat p + 944"
    using a unat_offset32 [of p 944] by (simp add: OS_MEM_FIRST_NODE_def sizeof_OsMemPoolHead_def)
  show "unat p + 944 \<le> 2 ^ 32" using a by simp
qed

lemma spaced_nodes:
  assumes "pool_fits p sz" "seg (OS_MEM_FIRST_NODE p) bs (OS_MEM_END_NODE p sz)"
  shows "spaced p (nodes p sz bs)"
proof -
  note u = unat_end [OF assms(1)] and f = assms(1) [unfolded pool_fits_def]
  have n: "unat p + 944 \<le> unat n \<and> unat n + 16 \<le> unat (OS_MEM_END_NODE p sz)" if "n \<in> fst ` set bs" for n
  proof -
    from that obtain w where "(n, w) \<in> set bs" by force
    from seg_nodes [OF assms(2) this] u show ?thesis by linarith
  qed
  have k: "unat n + 16 \<le> unat k" if nk: "n \<in> fst ` set bs" "k \<in> fst ` set bs" "unat n < unat k" for n k
  proof -
    from nk obtain w v where "(n, w) \<in> set bs" "(k, v) \<in> set bs" by force
    from seg_apart(1) [OF assms(2) this nk(3)] seg_nodes(3) [OF assms(2) this(1)] show ?thesis by linarith
  qed
  have e: "unat (OS_MEM_END_NODE p sz) + 16 \<le> 2 ^ 32" "unat p + 944 \<le> unat (OS_MEM_END_NODE p sz)"
    using u f by linarith+
  show ?thesis
    unfolding spaced_def nodes_def
  proof (intro conjI ballI impI)
    fix n assume "n \<in> insert (OS_MEM_END_NODE p sz) (fst ` set bs)"
    then show "unat p + 944 \<le> unat n" "unat n + 16 \<le> 2 ^ 32" using n [of n] e by force+
  next
    fix n k assume "n \<in> insert (OS_MEM_END_NODE p sz) (fst ` set bs)"
      "k \<in> insert (OS_MEM_END_NODE p sz) (fst ` set bs)" "unat n < unat k"
    then show "unat n + 16 \<le> unat k" using n [of n] n [of k] k [of n k] by fastforce
  qed
qed

text \<open>
  What may change: the data of the nodes in \<open>S\<close> does not, nor does memory outside the pool or the
  link to the next pool.
\<close>

definition data_cell :: "u32 \<Rightarrow> u32 \<Rightarrow> u32 \<Rightarrow> bool" where
  "data_cell n w a \<longleftrightarrow> unat n + 8 \<le> unat a \<and> unat a < unat n + unat (SZ w)"

definition keeps :: "u32 \<Rightarrow> u32 \<Rightarrow> (u32 \<times> u32) set \<Rightarrow> hmem \<Rightarrow> hmem \<Rightarrow> bool" where
  "keeps p sz S m m' \<longleftrightarrow> (\<forall>n w a. (n, w) \<in> S \<longrightarrow> data_cell n w a \<longrightarrow> m' a = m a)
     \<and> (\<forall>a. unat a < unat p \<or> unat p + unat sz \<le> unat a \<longrightarrow> m' a = m a)
     \<and> m' (pool_nextPool p) = m (pool_nextPool p)"

lemma keeps_refl [simp]: "keeps p sz S m m"
  by (simp add: keeps_def)

lemma keeps_trans: "keeps p sz S m m' \<Longrightarrow> keeps p sz T m' m'' \<Longrightarrow> keeps p sz (S \<inter> T) m m''"
  unfolding keeps_def by (metis IntD1 IntD2)

lemma keeps_mono: "keeps p sz S m m' \<Longrightarrow> T \<subseteq> S \<Longrightarrow> keeps p sz T m m'"
  unfolding keeps_def by blast

lemma keeps_cells:
  assumes "pool_fits p sz" "seg (OS_MEM_FIRST_NODE p) bs (OS_MEM_END_NODE p sz)" "F \<subseteq> set bs"
    and c: "\<And>a. m' a \<noteq> m a \<Longrightarrow> pool_cell p a \<or> (\<exists>n\<in>nodes p sz bs. a = node_prev n \<or> a = node_size n)
      \<or> (\<exists>n\<in>fst ` F. a = free_prev n \<or> a = free_next n)"
    and np: "m' (pool_nextPool p) = m (pool_nextPool p)"
  shows "keeps p sz (set bs - F) m m'"
proof -
  note u = unat_end [OF assms(1)] and f = assms(1) [unfolded pool_fits_def]
  have sp: "spaced p (nodes p sz bs)" using assms by (rule_tac spaced_nodes)
  have fit: "unat x + 16 \<le> 2 ^ 32" if "x \<in> nodes p sz bs" for x
    using sp that unfolding spaced_def by blast
  have hd: "unat x \<le> unat a \<and> unat a < unat x + 8" if "a = node_prev x \<or> a = node_size x" "x \<in> nodes p sz bs" for a x
    using that(1) unat_field [OF fit [OF that(2)]] by auto
  have lk: "unat x \<le> unat a \<and> unat a < unat x + 16" if "a = free_prev x \<or> a = free_next x" "x \<in> fst ` F" for a x
  proof -
    have "x \<in> nodes p sz bs" using that assms(3) by (auto simp: nodes_def)
    from unat_field [OF fit [OF this]] that(1) show ?thesis by auto
  qed
  have "m' a = m a" if nw: "(n, w) \<in> set bs" "(n, w) \<notin> F" and a: "data_cell n w a" for n w a
  proof (rule ccontr)
    assume "m' a \<noteq> m a"
    note s = seg_nodes [OF assms(2) nw(1)]
    from c [OF \<open>m' a \<noteq> m a\<close>] show False
    proof (elim disjE)
      assume "pool_cell p a"
      then show False using a s u unfolding pool_cell_def data_cell_def by linarith
    next
      assume "\<exists>n\<in>nodes p sz bs. a = node_prev n \<or> a = node_size n"
      then obtain x where x: "x \<in> nodes p sz bs" "unat x \<le> unat a" "unat a < unat x + 8" using hd by blast
      show False
      proof (cases "x = OS_MEM_END_NODE p sz")
        case True
        then show False using x(2) a s(2) unfolding data_cell_def by simp
      next
        case False
        then obtain v where v: "(x, v) \<in> set bs" using x(1) by (auto simp: nodes_def)
        show False
          using seg_apart(1) [OF assms(2) nw(1) v] seg_apart(1) [OF assms(2) v nw(1)]
            seg_nodes(3) [OF assms(2) v] a x(2,3) unfolding data_cell_def by linarith
      qed
    next
      assume "\<exists>n\<in>fst ` F. a = free_prev n \<or> a = free_next n"
      then obtain x v where x: "(x, v) \<in> F" "unat x \<le> unat a" "unat a < unat x + 16" using lk by force
      have v: "(x, v) \<in> set bs" using x(1) assms(3) by blast
      have "n \<noteq> x" using seg_apart(2) [OF assms(2) nw(1) v] x(1) nw(2) by auto
      then have "unat n \<noteq> unat x" by (simp add: word_unat_eq_iff)
      then show False
        using seg_apart(1) [OF assms(2) nw(1) v] seg_apart(1) [OF assms(2) v nw(1)]
          seg_nodes(3) [OF assms(2) v] a x(2,3) unfolding data_cell_def by linarith
    qed
  qed
  moreover have "m' a = m a" if a: "unat a < unat p \<or> unat p + unat sz \<le> unat a" for a
  proof (rule ccontr)
    assume "m' a \<noteq> m a"
    from c [OF this] show False
    proof (elim disjE)
      assume "pool_cell p a"
      then show False using a f unfolding pool_cell_def by linarith
    next
      assume "\<exists>n\<in>nodes p sz bs. a = node_prev n \<or> a = node_size n"
      then obtain x where x: "x \<in> nodes p sz bs" "unat x \<le> unat a" "unat a < unat x + 8" using hd by blast
      have "unat x \<le> unat (OS_MEM_END_NODE p sz) \<and> unat p \<le> unat x"
      proof (cases "x = OS_MEM_END_NODE p sz")
        case True
        then show ?thesis using u f by (simp only: True) linarith
      next
        case False
        then obtain v where "(x, v) \<in> set bs" using x(1) by (auto simp: nodes_def)
        from seg_nodes [OF assms(2) this] u show ?thesis by linarith
      qed
      then show False using x u f a by linarith
    next
      assume "\<exists>n\<in>fst ` F. a = free_prev n \<or> a = free_next n"
      then obtain x v where x: "(x, v) \<in> F" "unat x \<le> unat a" "unat a < unat x + 16" using lk by force
      have v: "(x, v) \<in> set bs" using x(1) assms(3) by blast
      show False using seg_nodes [OF assms(2) v] x u f a by linarith
    qed
  qed
  ultimately show ?thesis using np by (auto simp: keeps_def)
qed

lemma repD:
  assumes "rep p sz m bs F"
  shows "pool_fits p sz" "seg (OS_MEM_FIRST_NODE p) bs (OS_MEM_END_NODE p sz)" "bs \<noteq> []"
    "hdrs m (OS_MEM_END_NODE p sz) (bs @ [(OS_MEM_END_NODE p sz, OS_MEM_NODE_USED_FLAG)])"
    "F \<subseteq> set bs" "(n, w) \<in> F \<Longrightarrow> plain w" "\<exists>fl. lists_inv p m F fl" "m (pool_self p) = p" "m (pool_totalSize p) = sz"
    "spaced p (nodes p sz bs)" "unat p + 944 \<le> 2 ^ 32" "fst ` F \<subseteq> nodes p sz bs" "inj_on fst F"
proof -
  show a: "pool_fits p sz" "seg (OS_MEM_FIRST_NODE p) bs (OS_MEM_END_NODE p sz)" "bs \<noteq> []"
    "hdrs m (OS_MEM_END_NODE p sz) (bs @ [(OS_MEM_END_NODE p sz, OS_MEM_NODE_USED_FLAG)])"
    "F \<subseteq> set bs" "(n, w) \<in> F \<Longrightarrow> plain w" "\<exists>fl. lists_inv p m F fl" "m (pool_self p) = p" "m (pool_totalSize p) = sz"
    using assms by (auto simp: rep_def)
  show "spaced p (nodes p sz bs)" by (rule spaced_nodes [OF a(1,2)])
  show "unat p + 944 \<le> 2 ^ 32" by (rule unat_end [OF a(1)])
  show "fst ` F \<subseteq> nodes p sz bs" using a(5) by (auto simp: nodes_def)
  show "inj_on fst F"
  proof (rule inj_onI)
    fix x y assume "x \<in> F" "y \<in> F" "fst x = fst y"
    then show "x = y" using seg_apart(2) [OF a(2), of "fst x" "snd x" "fst y" "snd y"] a(5)
      by (metis prod.collapse subset_iff)
  qed
qed

lemma rep_node:
  assumes "rep p sz m bs F" "(n, w) \<in> set bs"
  shows "m (node_size n) = w" "n \<in> nodes p sz bs" "16 \<le> unat (SZ w)" "4 dvd unat (SZ w)"
    "unat (SZ w) < 2 ^ 28" "unat n + unat (SZ w) \<le> unat (OS_MEM_END_NODE p sz)" "unat p + 944 \<le> unat n"
proof -
  note D = repD [OF assms(1)] and s = seg_nodes [OF repD(2) [OF assms(1)] assms(2)]
  note u = unat_end [OF D(1)] and f = D(1) [unfolded pool_fits_def]
  show "m (node_size n) = w" using hdrs_size [OF D(4)] assms(2) by auto
  show "n \<in> nodes p sz bs" using assms(2) by (force simp: nodes_def)
  show "16 \<le> unat (SZ w)" "4 dvd unat (SZ w)" "unat n + unat (SZ w) \<le> unat (OS_MEM_END_NODE p sz)" by (rule s)+
  show "unat p + 944 \<le> unat n" using s u by simp
  show "unat (SZ w) < 2 ^ 28" using s u f by linarith
qed

lemma rep_index:
  assumes "rep p sz m bs F" "(n, w) \<in> set bs" "plain w"
  shows "OsMemFreeListIndexGet (m (node_size n)) = of_nat (cls w)" "cls w < 207"
  using rep_node [OF assms(1,2)] index_cls [of w] assms(3) by simp_all

text \<open>Fields of the pool that only the bookkeeping uses.\<close>

definition info :: "u32 \<Rightarrow> hmem \<Rightarrow> u32 \<times> u32 \<times> u32 \<times> u32" where
  "info p m = (m (pool_attr p), m (pool_waterLine p), m (pool_curUsedSize p), m (pool_nextPool p))"

lemma info_cong:
  assumes "info p m' = info p m"
  shows "m' (pool_curUsedSize p) = m (pool_curUsedSize p)" "m' (pool_waterLine p) = m (pool_waterLine p)"
    "m' (pool_attr p) = m (pool_attr p)" "m' (pool_nextPool p) = m (pool_nextPool p)"
  using assms by (simp_all add: info_def)

text \<open>A change of the links only.\<close>

lemma rep_links:
  assumes R: "rep p sz m bs F" and G: "G \<subseteq> {(n, w). (n, w) \<in> set bs \<and> plain w}" "F \<subseteq> H" "H \<subseteq> set bs"
    and L: "lists_inv p m' G fl" and c: "\<And>a. \<not> link_cell p (fst ` H) a \<Longrightarrow> m' a = m a"
  shows "rep p sz m' bs G" "keeps p sz (set bs - H) m m'" "info p m' = info p m"
proof -
  note D = repD [OF R]
  note ne = pool_not_node [OF D(10)]
  have H: "fst ` H \<subseteq> nodes p sz bs" using G(3) by (auto simp: nodes_def)
  have low: "m' a = m a" if "unat p \<le> unat a" "unat a < unat p + 20 \<or> unat p + 940 \<le> unat a \<and> unat a < unat p + 944" for a
  proof (rule c)
    have "pool_cell p a" using that by (auto simp: pool_cell_def)
    then have "\<not> (\<exists>n\<in>fst ` H. a = free_prev n \<or> a = free_next n)" using ne H by blast
    then show "\<not> link_cell p (fst ` H) a" using that unfolding link_cell_def by linarith
  qed
  note up = unat_pool [OF D(11)]
  have hdr: "m' (node_prev n) = m (node_prev n)" "m' (node_size n) = m (node_size n)" if "n \<in> nodes p sz bs" for n
  proof -
    have b: "unat p + 944 \<le> unat n" "unat n + 16 \<le> 2 ^ 32" using D(10) that unfolding spaced_def by blast+
    have "node_prev n \<noteq> free_prev k \<and> node_prev n \<noteq> free_next k \<and> node_size n \<noteq> free_prev k \<and> node_size n \<noteq> free_next k"
      if "k \<in> fst ` H" for k
      using spaced_fields [OF D(10) \<open>n \<in> nodes p sz bs\<close>, of k] that H by blast
    moreover have "\<not> unat (node_prev n) < unat p + 940" "\<not> unat (node_size n) < unat p + 940"
      using b(1) unat_field(1,2) [OF b(2)] by linarith+
    ultimately have "\<not> link_cell p (fst ` H) (node_prev n)" "\<not> link_cell p (fst ` H) (node_size n)"
      unfolding link_cell_def by blast+
    then show "m' (node_prev n) = m (node_prev n)" "m' (node_size n) = m (node_size n)"
      by (simp_all add: c)
  qed
  have "hdrs m' (OS_MEM_END_NODE p sz) (bs @ [(OS_MEM_END_NODE p sz, OS_MEM_NODE_USED_FLAG)])
      = hdrs m (OS_MEM_END_NODE p sz) (bs @ [(OS_MEM_END_NODE p sz, OS_MEM_NODE_USED_FLAG)])"
    by (rule hdrs_cong) (use hdr in \<open>auto simp: nodes_def\<close>)
  moreover have "m' (pool_self p) = p" "m' (pool_totalSize p) = sz"
    using low up D(8,9) by simp_all
  ultimately show "rep p sz m' bs G"
    using D G(1) L unfolding rep_def by blast
  show i: "info p m' = info p m"
    using low up by (simp add: info_def)
  show "keeps p sz (set bs - H) m m'"
  proof (rule keeps_cells [OF D(1,2) G(3)])
    fix a assume "m' a \<noteq> m a"
    then have "link_cell p (fst ` H) a" using c by blast
    then show "pool_cell p a \<or> (\<exists>n\<in>nodes p sz bs. a = node_prev n \<or> a = node_size n)
      \<or> (\<exists>n\<in>fst ` H. a = free_prev n \<or> a = free_next n)"
      unfolding link_cell_def pool_cell_def by auto
  qed (rule info_cong(4) [OF i])
qed

lemma rep_add:
  assumes R: "rep p sz m bs F" and n: "(n, w) \<in> set bs" "plain w" "(n, w) \<notin> F"
  shows "\<exists>m'. OsMemFreeNodeAdd p n m = Some m' \<and> rep p sz m' bs (insert (n, w) F)
    \<and> keeps p sz (set bs - insert (n, w) F) m m' \<and> info p m' = info p m"
proof -
  note D = repD [OF R]
  from D(7) obtain fl where L: "lists_inv p m F fl" by blast
  have nF: "n \<notin> fst ` F"
  proof
    assume "n \<in> fst ` F"
    then obtain v where "(n, v) \<in> F" by force
    then show False using seg_apart(2) [OF D(2) n(1), of n v] n(3) D(5) by auto
  qed
  note ix = rep_index [OF R n(1,2)] and N = rep_node(2) [OF R n(1)]
  have i: "cls w < 223" using ix(2) by simp
  let ?m = "OsMemListAdd p (of_nat (cls w)) n m"
  note A = lists_inv_add [OF D(10,11) L D(12,13) N nF i refl]
  have "OsMemFreeNodeAdd p n m = Some ?m"
    using ix i by (simp add: OsMemFreeNodeAdd_def list_count word_le_nat_alt unat_of_nat32 not_le)
  moreover have "rep p sz ?m bs (insert (n, w) F)" "keeps p sz (set bs - insert (n, w) F) m ?m" "info p ?m = info p m"
    by (rule rep_links [OF R _ _ _ A(1), where H = "insert (n, w) F"];
      use n D(5,6) A(2) in \<open>auto simp: image_insert\<close>)+
  ultimately show ?thesis by blast
qed

lemma rep_delete:
  assumes R: "rep p sz m bs F" and n: "(n, w) \<in> F"
  shows "rep p sz (OsMemFreeNodeDelete p n m) bs (F - {(n, w)})"
    "keeps p sz (set bs - F) m (OsMemFreeNodeDelete p n m)" "info p (OsMemFreeNodeDelete p n m) = info p m"
proof -
  note D = repD [OF R]
  from D(7) obtain fl where L: "lists_inv p m F fl" by blast
  have b: "(n, w) \<in> set bs" "plain w" using n D(5,6) by auto
  note ix = rep_index [OF R b]
  have i: "cls w < 223" using ix(2) by simp
  note A = lists_inv_delete [OF D(10,11) L D(12,13) n i refl]
  have e: "OsMemFreeNodeDelete p n m = OsMemListDelete p (of_nat (cls w)) n m"
    using ix by (simp add: OsMemFreeNodeDelete_def)
  show "rep p sz (OsMemFreeNodeDelete p n m) bs (F - {(n, w)})"
    "keeps p sz (set bs - F) m (OsMemFreeNodeDelete p n m)" "info p (OsMemFreeNodeDelete p n m) = info p m"
    unfolding e by (rule rep_links [OF R _ _ _ A(1), where H = F]; use D(5,6) A(2) in auto)+
qed

section \<open>Changes of the headers\<close>

lemma rep_hdrs:
  assumes R: "rep p sz m bs F" and B: "bs' \<noteq> []" "seg (OS_MEM_FIRST_NODE p) bs' (OS_MEM_END_NODE p sz)"
    and F: "F \<subseteq> set bs'"
    and H: "hdrs m' (OS_MEM_END_NODE p sz) (bs' @ [(OS_MEM_END_NODE p sz, OS_MEM_NODE_USED_FLAG)])"
    and c: "\<And>a. m' a \<noteq> m a \<Longrightarrow> \<exists>n\<in>nodes p sz bs \<union> nodes p sz bs'. a = node_prev n \<or> a = node_size n"
  shows "rep p sz m' bs' F" "info p m' = info p m"
proof -
  note D = repD [OF R]
  note s' = spaced_nodes [OF D(1) B(2)]
  have F': "fst ` F \<subseteq> nodes p sz bs'" using F by (auto simp: nodes_def)
  have pc: "m' a = m a" if "pool_cell p a" for a
  proof (rule ccontr)
    assume "m' a \<noteq> m a"
    from c [OF this] pool_not_node [OF D(10) _ that] pool_not_node [OF s' _ that] show False by blast
  qed
  have lk: "m' a = m a" if "link_cell p (fst ` F) a" for a
  proof (rule ccontr)
    assume ne: "m' a \<noteq> m a"
    then have "\<not> pool_cell p a" using pc by blast
    then have "\<not> (unat p + 20 \<le> unat a \<and> unat a < unat p + 940)" unfolding pool_cell_def by linarith
    moreover have "(\<exists>k\<in>fst ` F. a = free_prev k \<or> a = free_next k) \<or> unat p + 20 \<le> unat a \<and> unat a < unat p + 940"
      using that unfolding link_cell_def .
    ultimately obtain k where k: "k \<in> fst ` F" "a = free_prev k \<or> a = free_next k" by metis
    from c [OF ne] obtain n where n: "n \<in> nodes p sz bs \<or> n \<in> nodes p sz bs'" "a = node_prev n \<or> a = node_size n"
      by (metis Un_iff)
    have kN: "k \<in> nodes p sz bs" "k \<in> nodes p sz bs'" using k(1) D(12) F' by auto
    from n(1) show False
    proof
      assume "n \<in> nodes p sz bs"
      from spaced_fields [OF D(10) this kN(1)] k(2) n(2) show False by metis
    next
      assume "n \<in> nodes p sz bs'"
      from spaced_fields [OF s' this kN(2)] k(2) n(2) show False by metis
    qed
  qed
  from D(7) obtain fl where L: "lists_inv p m F fl" by blast
  have "lists_inv p m' F fl" by (rule lists_inv_cong [OF L D(11) lk])
  moreover have "m' (pool_self p) = p" "m' (pool_totalSize p) = sz"
    using pc pool_cells [OF D(11)] D(8,9) by simp_all
  ultimately show "rep p sz m' bs' F"
    using D(1,6) B F H unfolding rep_def by blast
  show "info p m' = info p m" using pc pool_cells [OF D(11)] by (simp add: info_def)
qed

text \<open>The node behind another.\<close>

lemma seg_next:
  assumes "seg a (us @ (n, w) # vs) e"
  shows "fst (hd (vs @ [(e, v)])) = n + SZ w"
  using assms by (cases vs) (auto simp: seg_append)

lemma rep_next:
  assumes "rep p sz m (us @ (n, w) # vs) F"
  shows "OS_MEM_NEXT_NODE m n = fst (hd (vs @ [(OS_MEM_END_NODE p sz, OS_MEM_NODE_USED_FLAG)]))"
    "m (node_prev n) = last_or (OS_MEM_END_NODE p sz) (map fst us)"
proof -
  note D = repD [OF assms]
  show "OS_MEM_NEXT_NODE m n = fst (hd (vs @ [(OS_MEM_END_NODE p sz, OS_MEM_NODE_USED_FLAG)]))"
    using rep_node(1) [OF assms, of n w] by (simp add: OS_MEM_NEXT_NODE_def seg_next [OF D(2)])
  show "m (node_prev n) = last_or (OS_MEM_END_NODE p sz) (map fst us)"
    using D(4) by (simp add: hdrs_append)
qed

lemma plain_sum:
  assumes "plain wa" "plain wn" "unat a + (unat wa + unat wn) \<le> unat e" "unat wa + unat wn < 2 ^ 28"
  shows "unat (wa + wn) = unat wa + unat wn" "plain (wa + wn)"
proof -
  show "unat (wa + wn) = unat wa + unat wn" by (rule unat_add_lem [THEN iffD1]) (use assms(4) in simp)
  then show "plain (wa + wn)" using assms(4) by (simp add: plain_def)
qed

lemma rep_merge:
  assumes R: "rep p sz m (us @ (a, wa) # (n, wn) # vs) F" and w: "plain wa" "plain wn"
    and nF: "(a, wa) \<notin> F" "(n, wn) \<notin> F"
  shows "rep p sz (OsMemMergeNode n m) (us @ (a, wa + wn) # vs) F"
    "keeps p sz (set (us @ (a, wa) # (n, wn) # vs)) m (OsMemMergeNode n m)"
    "info p (OsMemMergeNode n m) = info p m" "plain (wa + wn)" "unat (wa + wn) = unat wa + unat wn"
proof -
  let ?bs = "us @ (a, wa) # (n, wn) # vs" and ?bs' = "us @ (a, wa + wn) # vs" and ?m = "OsMemMergeNode n m"
  let ?e = "OS_MEM_END_NODE p sz" and ?E = "(OS_MEM_END_NODE p sz, OS_MEM_NODE_USED_FLAG)"
  note D = repD [OF R]
  from D(2) obtain us': "seg (OS_MEM_FIRST_NODE p) us a" and n: "n = a + wa" and
    sz: "16 \<le> unat wa" "4 dvd unat wa" "16 \<le> unat wn" "4 dvd unat wn" "unat a + unat wa \<le> unat ?e"
      "unat n + unat wn \<le> unat ?e" and vs: "seg (n + wn) vs ?e"
    using w by (auto simp: seg_append)
  have un: "unat n = unat a + unat wa" using unat_add_below [OF sz(5)] n by simp
  have "unat wa + unat wn < 2 ^ 28"
    using sz(6) un rep_node(7) [OF R, of a wa] unat_end [OF D(1)] D(1) unfolding pool_fits_def by auto
  note sum = plain_sum [OF w _ this, of a ?e]
  show pl: "plain (wa + wn)" and us: "unat (wa + wn) = unat wa + unat wn" using sum sz(6) un by simp_all
  have seg': "seg (OS_MEM_FIRST_NODE p) ?bs' ?e"
    using us' sz un us vs n pl by (auto simp: seg_append add.assoc)
  obtain x wx rest where x: "vs @ [?E] = (x, wx) # rest" by (cases "vs @ [?E]") auto
  have xn: "x = n + wn" using seg_next [of "OS_MEM_FIRST_NODE p" "us @ [(a, wa)]" n wn vs ?e] D(2) w x
    by (metis append.assoc append_Cons append_Nil fst_conv list.sel(1) plain_SZ)
  have H: "hdrs m ?e us" "m (node_prev a) = last_or ?e (map fst us)" "m (node_size a) = wa"
    "m (node_prev n) = a" "m (node_size n) = wn" "m (node_size x) = wx" "hdrs m x rest"
    using D(4) by (simp_all add: hdrs_append x)
  have ds: "distinct (map fst ?bs @ [?e])" using seg_distinct [OF D(2)] by auto
  have map_x: "map fst ?bs @ [?e] = map fst us @ a # n # x # map fst rest"
  proof -
    have "map fst (vs @ [?E]) = x # map fst rest" by (simp only: x list.map fst_conv)
    then show ?thesis by simp
  qed
  have dx: "distinct (map fst us @ a # n # x # map fst rest)" using ds by (simp only: map_x)
  then have ne: "a \<noteq> n" "x \<noteq> a" "x \<noteq> n" "a \<notin> fst ` set us" "x \<notin> fst ` set us" "a \<notin> fst ` set rest" "x \<notin> fst ` set rest"
    by auto
  have N: "a \<in> nodes p sz ?bs" "n \<in> nodes p sz ?bs" "x \<in> nodes p sz ?bs" "fst ` set us \<subseteq> nodes p sz ?bs"
    "fst ` set rest \<subseteq> nodes p sz ?bs"
  proof -
    have "set (map fst ?bs @ [?e]) = nodes p sz ?bs" by (auto simp: nodes_def)
    then have "nodes p sz ?bs = set (map fst us @ a # n # x # map fst rest)" by (simp only: map_x)
    then show "a \<in> nodes p sz ?bs" "n \<in> nodes p sz ?bs" "x \<in> nodes p sz ?bs" "fst ` set us \<subseteq> nodes p sz ?bs"
      "fst ` set rest \<subseteq> nodes p sz ?bs" by auto
  qed
  note sf = spaced_fields [OF D(10)]
  have e: "?m = m(node_size a := wa + wn, node_prev x := a)"
    using H ne sf N by (simp add: OsMemMergeNode_def Let_def xn)
  have hu: "hdrs ?m ?e us = hdrs m ?e us"
    by (rule hdrs_cong) (use e ne sf N in \<open>auto simp: subset_iff\<close>)
  have hr: "hdrs ?m x rest = hdrs m x rest"
    by (rule hdrs_cong) (use e ne sf N in \<open>auto simp: subset_iff\<close>)
  have "hdrs ?m ?e (us @ (a, wa + wn) # (x, wx) # rest)"
    using H hu hr ne sf N by (simp add: hdrs_append e)
  then have H': "hdrs ?m ?e (?bs' @ [?E])" by (simp only: x append_assoc append_Cons)
  have ch: "\<exists>k\<in>nodes p sz ?bs. b = node_prev k \<or> b = node_size k" if "?m b \<noteq> m b" for b
    using that N e by (auto split: if_splits)
  have F': "F \<subseteq> set ?bs'" using D(5) nF by auto
  show "rep p sz ?m ?bs' F" and i: "info p ?m = info p m"
    by (rule rep_hdrs [OF R _ seg' F' H'], simp, use ch in blast)+
  have "keeps p sz (set ?bs - {}) m ?m" by (rule keeps_cells [OF D(1,2)]) (use ch info_cong(4) [OF i] in auto)
  then show "keeps p sz (set ?bs) m ?m" by simp
qed

text \<open>Splitting a node: the header of the new node, the size of the old, and the link back.\<close>

lemma rep_split:
  assumes R: "rep p sz m (us @ (a, w) # vs) F" and w: "plain w" "(a, w) \<notin> F"
    and s: "16 \<le> unat s" "4 dvd unat s" "unat s + 16 \<le> unat w" and b: "b = a + s"
    and x: "x = fst (hd (vs @ [(OS_MEM_END_NODE p sz, OS_MEM_NODE_USED_FLAG)]))"
    and m': "m' = m(node_prev b := a, node_size b := w - s, node_size a := s, node_prev x := b)"
  shows "rep p sz m' (us @ (a, s) # (b, w - s) # vs) F"
    "keeps p sz (set (us @ (a, s) # (b, w - s) # vs)) m m'"
    "info p m' = info p m" "plain s" "plain (w - s)" "unat (w - s) = unat w - unat s"
    "OS_MEM_NEXT_NODE (m(node_prev b := a, node_size b := w - s, node_size a := s)) b = x"
    "m' (node_size x) = m (node_size x)"
proof -
  let ?bs = "us @ (a, w) # vs" and ?bs' = "us @ (a, s) # (b, w - s) # vs"
  let ?e = "OS_MEM_END_NODE p sz" and ?E = "(OS_MEM_END_NODE p sz, OS_MEM_NODE_USED_FLAG)"
  note D = repD [OF R]
  from D(2) have us': "seg (OS_MEM_FIRST_NODE p) us a" and
    sz: "4 dvd unat w" "unat a + unat w \<le> unat ?e" and vs: "seg (a + w) vs ?e"
    using w by (auto simp: seg_append)
  show uw: "unat (w - s) = unat w - unat s" using s(3) by (simp add: unat_sub word_le_nat_alt)
  have "unat w < 2 ^ 30" using w(1) by (simp add: plain_def)
  then show pl: "plain s" "plain (w - s)" using s(3) uw by (simp_all add: plain_def)
  have ub: "unat b = unat a + unat s" using unat_add_below [of a s ?e] sz(2) s(3) b by simp
  have seg': "seg (OS_MEM_FIRST_NODE p) ?bs' ?e"
    using us' sz s uw ub vs b pl by (auto simp: seg_append dvd_diff_nat)
  note sp = spaced_nodes [OF D(1) seg']
  obtain wx rest where r: "vs @ [?E] = (x, wx) # rest" using x by (cases "vs @ [?E]") auto
  have xb: "x = b + (w - s)" using seg_next [OF D(2), of "OS_MEM_NODE_USED_FLAG"] x w(1) b by simp
  have H: "hdrs m ?e us" "m (node_prev a) = last_or ?e (map fst us)" "m (node_size a) = w"
    "m (node_size x) = wx" "hdrs m x rest"
    using D(4) by (simp_all add: hdrs_append r)
  have map_x: "map fst ?bs' @ [?e] = map fst us @ a # b # x # map fst rest"
  proof -
    have "map fst (vs @ [?E]) = x # map fst rest" by (simp only: r list.map fst_conv)
    then show ?thesis by simp
  qed
  have "distinct (map fst ?bs' @ [?e])" using seg_distinct [OF seg'] by auto
  then have "distinct (map fst us @ a # b # x # map fst rest)" by (simp only: map_x)
  then have ne: "a \<noteq> b" "x \<noteq> a" "x \<noteq> b" "a \<notin> fst ` set us" "b \<notin> fst ` set us" "x \<notin> fst ` set us"
    "a \<notin> fst ` set rest" "b \<notin> fst ` set rest" "x \<notin> fst ` set rest"
    by auto
  have N: "a \<in> nodes p sz ?bs'" "b \<in> nodes p sz ?bs'" "x \<in> nodes p sz ?bs'"
    "k \<in> fst ` set us \<Longrightarrow> k \<in> nodes p sz ?bs'" "k \<in> fst ` set rest \<Longrightarrow> k \<in> nodes p sz ?bs'" for k
  proof -
    have "set (map fst ?bs' @ [?e]) = nodes p sz ?bs'" by (auto simp: nodes_def)
    then have "nodes p sz ?bs' = set (map fst us @ a # b # x # map fst rest)" by (simp only: map_x)
    then show "a \<in> nodes p sz ?bs'" "b \<in> nodes p sz ?bs'" "x \<in> nodes p sz ?bs'"
      "k \<in> fst ` set us \<Longrightarrow> k \<in> nodes p sz ?bs'" "k \<in> fst ` set rest \<Longrightarrow> k \<in> nodes p sz ?bs'" by auto
  qed
  note sf = spaced_fields [OF sp]
  show "OS_MEM_NEXT_NODE (m(node_prev b := a, node_size b := w - s, node_size a := s)) b = x"
    using ne sf N pl by (simp add: OS_MEM_NEXT_NODE_def xb)
  show "m' (node_size x) = m (node_size x)" using ne sf N by (simp add: m')
  have cong: "hdrs m' pr l = hdrs m pr l" if "fst ` set l \<subseteq> nodes p sz ?bs'" "a \<notin> fst ` set l" "b \<notin> fst ` set l"
    "x \<notin> fst ` set l" for pr l
  proof (rule hdrs_cong)
    fix k assume k: "k \<in> fst ` set l"
    then have "k \<in> nodes p sz ?bs'" "k \<noteq> a" "k \<noteq> b" "k \<noteq> x" using that by auto
    then show "m' (node_prev k) = m (node_prev k) \<and> m' (node_size k) = m (node_size k)"
      using sf N by (simp add: m')
  qed
  have "hdrs m' ?e us" using cong [of us] N(4) ne H(1) by blast
  moreover have "hdrs m' x rest" using cong [of rest] N(5) ne H(5) by blast
  ultimately have "hdrs m' ?e (us @ (a, s) # (b, w - s) # (x, wx) # rest)"
    using H ne sf N by (simp add: hdrs_append m')
  then have H': "hdrs m' ?e (?bs' @ [?E])" by (simp only: r append_assoc append_Cons)
  have ch: "\<exists>k\<in>nodes p sz ?bs'. c = node_prev k \<or> c = node_size k" if "m' c \<noteq> m c" for c
    using that N by (auto simp: m' split: if_splits)
  have F': "F \<subseteq> set ?bs'" using D(5) w by auto
  show "rep p sz m' ?bs' F" and i: "info p m' = info p m"
    by (rule rep_hdrs [OF R _ seg' F' H'], simp, use ch in blast)+
  have "keeps p sz (set ?bs' - {}) m m'" by (rule keeps_cells [OF D(1) seg']) (use ch info_cong(4) [OF i] in auto)
  then show "keeps p sz (set ?bs') m m'" by simp
qed

text \<open>Changing the flags of a node.\<close>

lemma rep_flags:
  assumes R: "rep p sz m (us @ (a, w) # vs) F" and w: "(a, w) \<notin> F" "SZ w' = SZ w"
  shows "rep p sz (m(node_size a := w')) (us @ (a, w') # vs) F"
    "keeps p sz (set (us @ (a, w) # vs)) m (m(node_size a := w'))"
    "info p (m(node_size a := w')) = info p m"
proof -
  let ?bs = "us @ (a, w) # vs" and ?bs' = "us @ (a, w') # vs" and ?m = "m(node_size a := w')"
  let ?e = "OS_MEM_END_NODE p sz" and ?E = "(OS_MEM_END_NODE p sz, OS_MEM_NODE_USED_FLAG)"
  note D = repD [OF R]
  have seg': "seg (OS_MEM_FIRST_NODE p) ?bs' ?e" using D(2) w(2) by (auto simp: seg_append)
  have a: "a \<in> nodes p sz ?bs" by (simp add: nodes_def)
  have ds: "distinct (map fst ?bs @ [?e])" using seg_distinct [OF D(2)] by auto
  have H: "hdrs m ?e us" "m (node_prev a) = last_or ?e (map fst us)" "m (node_size a) = w" "hdrs m a (vs @ [?E])"
    using D(4) by (simp_all add: hdrs_append)
  note sf = spaced_fields [OF D(10)]
  have cong: "hdrs ?m pr l = hdrs m pr l" if "fst ` set l \<subseteq> nodes p sz ?bs" "a \<notin> fst ` set l" for pr l
    by (rule hdrs_cong) (use sf a that in \<open>auto simp: subset_iff\<close>)
  have "hdrs ?m ?e us" by (subst cong) (use ds H(1) in \<open>auto simp: nodes_def\<close>)
  moreover have "hdrs ?m a (vs @ [?E])" by (subst cong) (use ds H(4) in \<open>auto simp: nodes_def\<close>)
  ultimately have H': "hdrs ?m ?e (?bs' @ [?E])"
    using H(2) sf [OF a a] by (simp add: hdrs_append)
  have ch: "\<exists>k\<in>nodes p sz ?bs. c = node_prev k \<or> c = node_size k" if "?m c \<noteq> m c" for c
    using that a by (auto split: if_splits)
  have F': "F \<subseteq> set ?bs'" using D(5) w(1) by auto
  show "rep p sz ?m ?bs' F" and i: "info p ?m = info p m"
    by (rule rep_hdrs [OF R _ seg' F' H'], simp, use ch in blast)+
  have "keeps p sz (set ?bs - {}) m ?m" by (rule keeps_cells [OF D(1,2)]) (use ch info_cong(4) [OF i] in auto)
  then show "keeps p sz (set ?bs) m ?m" by simp
qed

text \<open>Changing the bookkeeping of the pool.\<close>

lemma rep_info:
  assumes R: "rep p sz m bs F"
    and c: "\<And>a. m' a \<noteq> m a \<Longrightarrow> a = pool_curUsedSize p \<or> a = pool_waterLine p \<or> a = pool_attr p \<or> a = pool_nextPool p"
  shows "rep p sz m' bs F" "m' (pool_nextPool p) = m (pool_nextPool p) \<Longrightarrow> keeps p sz (set bs) m m'"
proof -
  note D = repD [OF R]
  note up = unat_pool [OF D(11)]
  have un: "m' a = m a" if "\<not> pool_cell p a \<or> unat p + 20 \<le> unat a \<and> unat a < unat p + 940
      \<or> unat a < unat p + 8" for a
  proof (rule ccontr)
    assume "m' a \<noteq> m a"
    from c [OF this] that show False using up pool_cells [OF D(11)] by auto
  qed
  have nd: "m' (node_prev n) = m (node_prev n) \<and> m' (node_size n) = m (node_size n)
      \<and> m' (free_prev n) = m (free_prev n) \<and> m' (free_next n) = m (free_next n)" if "n \<in> nodes p sz bs" for n
    using un pool_not_node [OF D(10) that] by metis
  have "hdrs m' (OS_MEM_END_NODE p sz) (bs @ [(OS_MEM_END_NODE p sz, OS_MEM_NODE_USED_FLAG)])
      = hdrs m (OS_MEM_END_NODE p sz) (bs @ [(OS_MEM_END_NODE p sz, OS_MEM_NODE_USED_FLAG)])"
    by (rule hdrs_cong) (use nd in \<open>auto simp: nodes_def\<close>)
  moreover from D(7) obtain fl where L: "lists_inv p m F fl" by blast
  have "lists_inv p m' F fl"
  proof (rule lists_inv_cong [OF L D(11)])
    fix a assume "link_cell p (fst ` F) a"
    then show "m' a = m a" unfolding link_cell_def using un nd D(12) by blast
  qed
  moreover have "m' (pool_self p) = p" "m' (pool_totalSize p) = sz" using un up D(8,9) by simp_all
  moreover have "F \<subseteq> {(n, w). (n, w) \<in> set bs \<and> plain w}" using D(5,6) by auto
  ultimately show "rep p sz m' bs F" using D(1-4) unfolding rep_def by blast
  assume np: "m' (pool_nextPool p) = m (pool_nextPool p)"
  have "keeps p sz (set bs - {}) m m'" by (rule keeps_cells [OF D(1,2)]) (use un np in \<open>auto\<close>)
  then show "keeps p sz (set bs) m m'" by simp
qed

end
