(* ===== verification/Los_MemOps.thy ===== *)
theory Los_MemOps
  imports Los_MemRep
begin

text \<open>
  The operations on a heap: the search finds a block that is large enough whenever there is
  one, allocation and freeing keep the heap well formed with all neighbouring free nodes
  merged, and the data of the other blocks is not touched.
\<close>

section \<open>The search for a block\<close>

lemma find_block_list:
  assumes "dll pv (\<lambda>n. m (free_next n)) pr xs 0" "\<And>n. n \<in> set xs \<Longrightarrow> n \<noteq> 0"
  shows "find_block m (hd_or 0 xs) sz = Some (case find (\<lambda>n. sz \<le> m (node_size n)) xs of None \<Rightarrow> 0 | Some n \<Rightarrow> n)"
  using assms
proof (induction xs arbitrary: pr)
  case Nil
  then show ?case by (simp add: find_block.simps)
next
  case (Cons x xs)
  then show ?case by (subst find_block.simps) auto
qed

lemma align_next_word:
  assumes "i \<le> 223"
  shows "LOS_Align (of_nat i + 1) 32 = of_nat (32 * (i div 32 + 1))"
proof -
  have u: "unat (of_nat i + 1 :: u32) = i + 1" using unat_of_nat32 [of "i + 1"] assms by (simp add: add.commute)
  have v: "unat (of_nat i + 1 + 31 :: u32) = i + 32" using unat_of_nat32 [of "i + 32"] assms by (simp add: add.commute)
  have "(of_nat i + 1 + 31 :: u32) > of_nat i + 1" unfolding word_less_nat_alt u v by simp
  then have "LOS_Align (of_nat i + 1) 32 = (of_nat i + 1 + 31) AND NOT (mask 5)"
    by (simp add: LOS_Align_def mask_numerals)
  moreover have "unat ((of_nat i + 1 + 31 :: u32) AND NOT (mask 5)) = 32 * (i div 32 + 1)"
  proof -
    have "(i + 32) div 32 = i div 32 + 1" by (rule div_add_self2) simp
    then have "(i + 32) div 32 * 32 = 32 * (i div 32 + 1)" by (simp only: mult.commute)
    then show ?thesis by (simp only: unat_and_not_mask v) simp
  qed
  ultimately show ?thesis by (metis unat_eq32)
qed

text \<open>The two searches of the bitmap together.\<close>

definition list_from :: "u32 \<Rightarrow> u32 \<Rightarrow> hmem \<Rightarrow> u32 option" where
  "list_from p index m =
     (let tmp = OsMemNotEmptyIndexGet p index m
      in if tmp \<noteq> OS_MEM_FREE_LIST_COUNT then Some tmp else scan_words p (LOS_Align (index + 1) 32) m)"

lemma list_from:
  assumes "bits_ok p m B" "i \<le> 223"
  shows "(\<exists>j. list_from p (of_nat i) m = Some (of_nat j) \<and> j < 223 \<and> first_from B i j)
    \<or> list_from p (of_nat i) m = None \<and> (\<forall>j. i \<le> j \<longrightarrow> \<not> B j)"
proof -
  have b: "B j \<Longrightarrow> j < 223" for j using assms(1) by (meson bits_ok_def not_le)
  have q: "i div 32 + 1 \<le> 7" using div_32_less [of i] assms(2) by simp
  consider (hit) j where "OsMemNotEmptyIndexGet p (of_nat i) m = of_nat j" "first_from B i j"
    | (miss) "OsMemNotEmptyIndexGet p (of_nat i) m = 223" "\<forall>j. i \<le> j \<longrightarrow> j < 32 * (i div 32) + 32 \<longrightarrow> \<not> B j"
    using NotEmptyIndexGet [OF assms(1), of i] assms(2) by auto
  then show ?thesis
  proof cases
    case hit
    then have j: "j < 223" using b by (simp add: first_from_def)
    have "(of_nat j :: u32) \<noteq> 223"
      by (rule unat_neI) (use unat_of_nat32 [of j] j in simp)
    then have "list_from p (of_nat i) m = Some (of_nat j)"
      using hit(1) by (simp add: list_from_def list_count)
    then show ?thesis using hit(2) j by blast
  next
    case miss
    have s: "list_from p (of_nat i) m = scan_words p (of_nat (32 * (i div 32 + 1))) m"
      using miss(1) by (simp add: list_from_def list_count align_next_word [OF assms(2)] del: of_nat_mult)
    have lower: "\<not> B l" if "i \<le> l" "l < 32 * (i div 32 + 1)" for l using miss(2) that by auto
    have i_le: "i \<le> 32 * (i div 32 + 1)" by presburger
    from scan_words [OF assms(1) q] show ?thesis
    proof (elim disjE exE conjE)
      fix j assume "scan_words p (of_nat (32 * (i div 32 + 1))) m = Some (of_nat j)"
        "first_from B (32 * (i div 32 + 1)) j"
      moreover from this have "first_from B i j"
        using lower b i_le unfolding first_from_def by (meson not_le order_trans)
      ultimately show ?thesis using s b unfolding first_from_def by auto
    next
      assume "scan_words p (of_nat (32 * (i div 32 + 1))) m = None" "\<forall>j\<ge>32 * (i div 32 + 1). \<not> B j"
      then show ?thesis using s lower by (metis not_le)
    qed
  qed
qed

lemma NextSuitable:
  "OsMemFindNextSuitableBlock p sz m =
     (let fl = OsMemFlGet sz;
          curIndex = (if fl < 31 then 223 else push_bit 3 (fl - 31) + OsMemSlGet sz fl + 31);
          index = (if fl < 31 then fl else curIndex + 1)
      in case list_from p index m of
           Some i \<Rightarrow> Some (m (pool_freeList p i), i)
         | None \<Rightarrow>
             if curIndex = 223 then Some (0, curIndex)
             else map_option (\<lambda>node. (node, curIndex)) (OsMemFindCurSuitableBlock p curIndex sz m))"
  by (simp add: OsMemFindNextSuitableBlock_def list_from_def Let_def list_count
      OS_MEM_SMALL_BUCKET_COUNT_def OS_MEM_SLI_def split: option.split)

text \<open>What a search must give: a node that fits, or 0 when none does.\<close>

definition found :: "(u32 \<times> u32) set \<Rightarrow> u32 \<Rightarrow> (u32 \<times> u32) option \<Rightarrow> bool" where
  "found F sz r \<longleftrightarrow> (\<exists>i. r = Some (0, i) \<and> (\<forall>(n, w)\<in>F. unat w < unat sz))
     \<or> (\<exists>n w. r = Some (n, of_nat (cls w)) \<and> (n, w) \<in> F \<and> unat sz \<le> unat w)"

lemma search_list:
  assumes R: "rep p z m bs F" and L: "lists_inv p m F fl" and c: "c < 223"
    and hi: "\<And>n w. (n, w) \<in> F \<Longrightarrow> cls w > c \<Longrightarrow> False"
    and lo: "\<And>n w. (n, w) \<in> F \<Longrightarrow> cls w < c \<Longrightarrow> unat w < unat sz"
  shows "found F sz (map_option (\<lambda>node. (node, of_nat c)) (OsMemFindCurSuitableBlock p (of_nat c) sz m))"
proof -
  note D = repD [OF R] and l = lists_invD [OF L c]
  have sz: "m (node_size n) = w" if "(n, w) \<in> F" for n w
    using rep_node(1) [OF R, of n w] D(5) that by blast
  have e: "OsMemFindCurSuitableBlock p (of_nat c) sz m
      = Some (case find (\<lambda>n. sz \<le> m (node_size n)) (fl c) of None \<Rightarrow> 0 | Some n \<Rightarrow> n)"
    unfolding OsMemFindCurSuitableBlock_def l(1)
    by (rule find_block_list [OF l(2)]) (use l(5) D(12) spaced_nonzero [OF D(10)] in blast)
  show ?thesis
  proof (cases "find (\<lambda>n. sz \<le> m (node_size n)) (fl c)")
    case None
    have "unat w < unat sz" if nw: "(n, w) \<in> F" for n w
    proof (cases "cls w = c")
      case True
      then have "n \<in> set (fl c)" using l(4) nw by blast
      then have "\<not> sz \<le> m (node_size n)" using None by (simp add: find_None_iff)
      then show ?thesis using sz [OF nw] by (simp add: word_le_nat_alt not_le)
    next
      case False
      then show ?thesis using hi [OF nw] lo [OF nw] by (meson nat_neq_iff)
    qed
    then show ?thesis using e None unfolding found_def by auto
  next
    case (Some n)
    then have "n \<in> set (fl c)" "sz \<le> m (node_size n)" by (auto simp: find_Some_iff)
    then obtain w where "(n, w) \<in> F" "cls w = c" "unat sz \<le> unat w"
      using l(4) sz by (auto simp: word_le_nat_alt)
    then show ?thesis using e Some unfolding found_def by auto
  qed
qed

lemma cls_upper: "unat w < 2 ^ 28 \<Longrightarrow> cls w \<le> 198"
proof (cases "unat w < 128")
  case False
  assume "unat w < 2 ^ 28"
  then have "lg w < 28" by (rule lg_small) simp
  moreover have "w \<noteq> 0" using False by auto
  from sl_bounds [OF this] have "8 * unat w div 2 ^ lg w - 8 \<le> 7" by simp
  ultimately show ?thesis using False by (simp add: cls_def)
qed (simp add: cls_def)

text \<open>Sizes above 512 MiB look in the wrong lists, but those are empty in a pool this small.\<close>

lemma huge_index:
  assumes "2 ^ 29 \<le> unat sz" "unat sz < 2 ^ 31"
  shows "\<not> OsMemFlGet sz < 31"
    "\<exists>c. push_bit 3 (OsMemFlGet sz - 31) + OsMemSlGet sz (OsMemFlGet sz) + 31 = (of_nat c :: u32) \<and> 199 \<le> c \<and> c < 223"
proof -
  have big: "128 \<le> unat sz" using assms(1) by simp
  have z: "sz \<noteq> 0" using assms(1) by auto
  have l: "lg sz = 29 \<or> lg sz = 30"
  proof -
    have "lg sz < 31" using assms(2) by (rule lg_small) simp
    moreover have "\<not> lg sz < 29"
    proof
      assume "lg sz < 29"
      then have "lg sz + 1 \<le> 29" by simp
      then have "(2::nat) ^ (lg sz + 1) \<le> 2 ^ 29" by (rule power_increasing) simp
      with lg_bounds(2) [OF z] assms(1) show False by linarith
    qed
    ultimately show ?thesis by linarith
  qed
  have f: "OsMemFlGet sz = of_nat (lg sz + 24)" by (rule FlGet_large [OF big])
  have uf: "unat (OsMemFlGet sz) = lg sz + 24" unfolding f by (rule unat_of_nat32) (use l in auto)
  show "\<not> OsMemFlGet sz < 31" using uf l by (auto simp: word_less_nat_alt)
  let ?d = "drop_bit (lg sz) (push_bit 3 sz)"
  have "unat (OsMemFlGet sz - 31 + 7) = lg sz"
  proof -
    have "OsMemFlGet sz - 31 + 7 = (of_nat (lg sz) :: u32)" by (simp add: f)
    then show ?thesis using l by (auto simp: unat_of_nat32)
  qed
  then have s: "OsMemSlGet sz (OsMemFlGet sz) = ?d - 8"
    using big uf l by (auto simp: OsMemSlGet_def mem_config word_less_nat_alt)
  have "unat ?d < 8"
  proof -
    have "unat (push_bit 3 sz) < 2 ^ 32" by (rule unat_less32)
    also have "(2::nat) ^ 32 \<le> 8 * 2 ^ lg sz" using l by auto
    finally show ?thesis unfolding unat_drop_bit32 by (simp add: less_mult_imp_div_less)
  qed
  moreover have "?d = of_nat (unat ?d)" by simp
  moreover have "push_bit 3 (OsMemFlGet sz - 31) = (of_nat ((lg sz - 7) * 8) :: u32)"
    using l by (auto simp: f push_bit_eq_mult)
  ultimately show "\<exists>c. push_bit 3 (OsMemFlGet sz - 31) + OsMemSlGet sz (OsMemFlGet sz) + 31 = (of_nat c :: u32) \<and> 199 \<le> c \<and> c < 223"
    unfolding s using l by (intro exI [of _ "(lg sz - 7) * 8 + unat ?d + 31 - 8"]) (auto simp: of_nat_diff)
qed

lemma search:
  assumes R: "rep p z m bs F" and sz: "16 \<le> unat sz" "4 dvd unat sz" "unat sz < 2 ^ 31"
  shows "found F sz (OsMemFindNextSuitableBlock p sz m)"
proof -
  note D = repD [OF R]
  from D(7) obtain fl where L: "lists_inv p m F fl" by blast
  define B where "B i = (i < 223 \<and> fl i \<noteq> [])" for i
  have b: "bits_ok p m B" using L by (simp add: lists_inv_def B_def [abs_def])
  have w: "16 \<le> unat w" "4 dvd unat w" "unat w < 2 ^ 28" "cls w \<le> 198" "B (cls w)" if "(n, w) \<in> F" for n w
  proof -
    have "(n, w) \<in> set bs" "plain w" using D(5,6) that by auto
    from rep_node [OF R this(1)] this(2) show c: "16 \<le> unat w" "4 dvd unat w" "unat w < 2 ^ 28" by simp_all
    show c': "cls w \<le> 198" by (rule cls_upper [OF c(3)])
    have "n \<in> set (fl (cls w))" using lists_invD(4) [OF L, of "cls w" n] c' that by auto
    then show "B (cls w)" using c' by (auto simp: B_def)
  qed
  have hit: "found F sz (Some (m (pool_freeList p (of_nat j)), of_nat j))"
    if j: "j < 223" "B j" and ge: "\<And>n w. (n, w) \<in> F \<Longrightarrow> cls w = j \<Longrightarrow> unat sz \<le> unat w" for j
  proof -
    have "m (pool_freeList p (of_nat j)) \<in> set (fl j)"
      using lists_invD(1) [OF L j(1)] j(2) by (cases "fl j") (auto simp: B_def)
    then obtain v where "(m (pool_freeList p (of_nat j)), v) \<in> F" "cls v = j" using lists_invD(4) [OF L j(1)] by blast
    then show ?thesis using ge unfolding found_def by blast
  qed
  show ?thesis
  proof (cases "unat sz < 2 ^ 29")
    case True
    have s4: "4 \<le> unat sz" using sz by simp
    show ?thesis
    proof (cases "unat sz < 128")
      case small: True
      note ix = index_small [OF s4 small]
      have i: "OsMemFlGet sz < 31" using ix by (simp add: word_less_nat_alt unat_of_nat32)
      have e: "OsMemFindNextSuitableBlock p sz m = (case list_from p (of_nat (cls sz)) m of
          Some i \<Rightarrow> Some (m (pool_freeList p i), i) | None \<Rightarrow> Some (0, 223))"
        using i ix(3) by (simp add: NextSuitable Let_def)
      have fits: "unat sz \<le> unat w" if "(n, w) \<in> F" "cls sz \<le> cls w" for n w
        using cls_small_exact [OF that(2) small sz(2)] w(1,2) [OF that(1)] by simp
      have "cls sz \<le> 223" using ix by simp
      from list_from [OF b this] show ?thesis
      proof (elim disjE exE conjE)
        fix j assume j: "list_from p (of_nat (cls sz)) m = Some (of_nat j)" "j < 223" "first_from B (cls sz) j"
        then show ?thesis using e hit [OF j(2)] fits by (simp add: first_from_def)
      next
        assume n: "list_from p (of_nat (cls sz)) m = None" "\<forall>j\<ge>cls sz. \<not> B j"
        have "unat v < unat sz" if "(k, v) \<in> F" for k v
          using n(2) w(5) [OF that] cls_less [of v sz] by (meson not_le)
        then show ?thesis using e n(1) unfolding found_def by auto
      qed
    next
      case False
      then have large: "128 \<le> unat sz" by simp
      note ix = index_large [OF large True]
      have cu: "push_bit 3 (OsMemFlGet sz - 31) + OsMemSlGet sz (OsMemFlGet sz) + 31 = of_nat (cls sz)"
        and i: "\<not> OsMemFlGet sz < 31"
      proof -
        have "unat (OsMemFlGet sz) = lg sz + 24" unfolding FlGet_large [OF large]
          by (rule unat_of_nat32) (use lg_small [OF True] in simp)
        then show i: "\<not> OsMemFlGet sz < 31" using lg_large [OF large] by (simp add: word_less_nat_alt)
        show "push_bit 3 (OsMemFlGet sz - 31) + OsMemSlGet sz (OsMemFlGet sz) + 31 = of_nat (cls sz)"
          using ix(1) i by (simp add: OsMemFreeListIndexGet_def mem_config Let_def algebra_simps)
      qed
      have ne: "(of_nat (cls sz) :: u32) \<noteq> 223"
        by (rule unat_neI) (use ix(3) unat_of_nat32 [of "cls sz"] in simp)
      have e: "OsMemFindNextSuitableBlock p sz m = (case list_from p (of_nat (cls sz + 1)) m of
          Some i \<Rightarrow> Some (m (pool_freeList p i), i)
        | None \<Rightarrow> map_option (\<lambda>node. (node, of_nat (cls sz))) (OsMemFindCurSuitableBlock p (of_nat (cls sz)) sz m))"
        by (simp only: NextSuitable Let_def i ne cu if_False of_nat_add of_nat_1)
      have "cls sz + 1 \<le> 223" using ix by simp
      from list_from [OF b this] show ?thesis
      proof (elim disjE exE conjE)
        fix j assume j: "list_from p (of_nat (cls sz + 1)) m = Some (of_nat j)" "j < 223" "first_from B (cls sz + 1) j"
        have "unat sz \<le> unat v" if "cls v = j" for v
          using j(3) that cls_less [of sz v] by (simp add: first_from_def)
        then show ?thesis using e j hit [OF j(2)] by (simp add: first_from_def)
      next
        assume n: "list_from p (of_nat (cls sz + 1)) m = None" "\<forall>j\<ge>cls sz + 1. \<not> B j"
        have "found F sz (map_option (\<lambda>node. (node, of_nat (cls sz))) (OsMemFindCurSuitableBlock p (of_nat (cls sz)) sz m))"
        proof (rule search_list [OF R L])
          show "cls sz < 223" using ix by simp
          show False if "(k, v) \<in> F" "cls v > cls sz" for k v using n(2) w(5) [OF that(1)] that(2) by (simp add: Suc_leI)
          show "unat v < unat sz" if "(k, v) \<in> F" "cls v < cls sz" for k v by (rule cls_less [OF that(2)])
        qed
        then show ?thesis using e n(1) by simp
      qed
    qed
  next
    case False
    then have huge: "2 ^ 29 \<le> unat sz" by simp
    note hi = huge_index [OF huge sz(3)]
    from hi(2) obtain c where c: "push_bit 3 (OsMemFlGet sz - 31) + OsMemSlGet sz (OsMemFlGet sz) + 31 = (of_nat c :: u32)"
      "199 \<le> c" "c < 223" by blast
    have ne: "(of_nat c :: u32) \<noteq> 223" by (rule unat_neI) (use c(3) unat_of_nat32 [of c] in simp)
    have nB: "\<not> B j" if "199 \<le> j" for j
    proof
      assume "B j"
      then obtain n where "n \<in> set (fl j)" "j < 223" by (cases "fl j") (auto simp: B_def)
      then obtain v where "(n, v) \<in> F" "cls v = j" using lists_invD(4) [OF L] by blast
      then show False using w(4) that by fastforce
    qed
    have "c + 1 \<le> 223" using c by simp
    from list_from [OF b this] nB c(2) have none: "list_from p (of_nat (c + 1)) m = None"
      unfolding first_from_def by (metis le_add1 order_trans)
    have e: "OsMemFindNextSuitableBlock p sz m = map_option (\<lambda>node. (node, of_nat c)) (OsMemFindCurSuitableBlock p (of_nat c) sz m)"
      using none by (simp only: NextSuitable Let_def hi(1) ne c(1) if_False of_nat_add of_nat_1 option.case)
    show ?thesis
      unfolding e
    proof (rule search_list [OF R L c(3)])
      show False if "(k, v) \<in> F" "cls v > c" for k v using w(4) [OF that(1)] that(2) c(2) by simp
      show "unat v < unat sz" if "(k, v) \<in> F" "cls v < c" for k v using w(3) [OF that(1)] huge by simp
    qed
  qed
qed

section \<open>Splitting, with the free node behind taken in\<close>

lemma end_not_plain: "bit OS_MEM_NODE_USED_FLAG 31" "\<not> plain OS_MEM_NODE_USED_FLAG"
proof -
  show "bit OS_MEM_NODE_USED_FLAG 31" by (simp add: OS_MEM_NODE_USED_FLAG_def flag_word_bits)
  then show "\<not> plain OS_MEM_NODE_USED_FLAG" using plain_not_bit [of OS_MEM_NODE_USED_FLAG 31] by auto
qed

lemma rep_head_word:
  assumes "rep p sz m bs F" "bs = us @ vs"
  shows "m (node_size (fst (hd (vs @ [(OS_MEM_END_NODE p sz, OS_MEM_NODE_USED_FLAG)]))))
    = snd (hd (vs @ [(OS_MEM_END_NODE p sz, OS_MEM_NODE_USED_FLAG)]))"
proof -
  let ?E = "(OS_MEM_END_NODE p sz, OS_MEM_NODE_USED_FLAG)"
  have "hd (vs @ [?E]) \<in> set (bs @ [?E])" using assms(2) by (cases vs) auto
  then show ?thesis using hdrs_size [OF repD(4) [OF assms(1)]] by (metis prod.collapse)
qed

lemma MemSplitNode_eq:
  assumes "m (node_size a) = w" "16 \<le> unat s"
  shows "OsMemSplitNode p a s m =
    (let m3 = m(node_prev (a + s) := a, node_size (a + s) := w - s, node_size a := s);
         x = OS_MEM_NEXT_NODE m3 (a + s);
         m4 = m3(node_prev x := a + s)
     in OsMemFreeNodeAdd p (a + s)
          (if \<not> used_at m4 x then OsMemMergeNode x (OsMemFreeNodeDelete p x m4) else m4))"
proof -
  have "s \<noteq> 4" using assms(2) by auto
  then have "node_size a \<noteq> node_prev (a + s)" by (simp add: node_size_def node_prev_def)
  then show ?thesis using assms(1) by (simp add: OsMemSplitNode_def Let_def)
qed

lemma rep_not_twice:
  assumes "rep p sz m (us @ (a, w) # vs) F" "(a, w) \<notin> F"
  shows "(a, v) \<notin> F"
proof
  assume "(a, v) \<in> F"
  then have "(a, v) \<in> set (us @ (a, w) # vs)" using repD(5) [OF assms(1)] by blast
  from seg_apart(2) [OF repD(2) [OF assms(1)] this, of a w] \<open>(a, v) \<in> F\<close> assms(2) show False by simp
qed

lemma keeps_step: "keeps p sz S m m' \<Longrightarrow> keeps p sz T m' m'' \<Longrightarrow> U \<subseteq> S \<Longrightarrow> U \<subseteq> T \<Longrightarrow> keeps p sz U m m''"
  by (meson keeps_mono keeps_trans Int_greatest)

lemma MemSplitNode_used:
  assumes R: "rep p sz m (us @ (a, w) # vs) F" and w: "plain w" "(a, w) \<notin> F"
    and s: "16 \<le> unat s" "4 dvd unat s" "unat s + 16 \<le> unat w"
    and x: "bit (snd (hd (vs @ [(OS_MEM_END_NODE p sz, OS_MEM_NODE_USED_FLAG)]))) 31"
  shows "\<exists>m'. OsMemSplitNode p a s m = Some m' \<and> rep p sz m' (us @ (a, s) # (a + s, w - s) # vs) (insert (a + s, w - s) F)
    \<and> keeps p sz (set (us @ (a, s) # vs) - F) m m' \<and> info p m' = info p m \<and> plain s"
proof -
  let ?x = "fst (hd (vs @ [(OS_MEM_END_NODE p sz, OS_MEM_NODE_USED_FLAG)]))" and ?b = "a + s"
  let ?m3 = "m(node_prev ?b := a, node_size ?b := w - s, node_size a := s)" and ?bs = "us @ (a, s) # (?b, w - s) # vs"
  let ?m4 = "?m3(node_prev ?x := ?b)"
  note S = rep_split [OF R w s refl refl refl]
  have used: "used_at ?m4 ?x"
    using rep_head_word [OF R, of "us @ [(a, w)]" vs] x by (simp only: S(8) used_bit) simp
  have "m (node_size a) = w" using rep_node(1) [OF R, of a w] by simp
  then have e: "OsMemSplitNode p a s m = OsMemFreeNodeAdd p ?b ?m4"
    using used by (simp only: MemSplitNode_eq s(1) Let_def S(7) simp_thms if_False)
  have nF: "(?b, w - s) \<notin> F"
  proof
    assume "(?b, w - s) \<in> F"
    then have i: "(?b, w - s) \<in> set (us @ (a, w) # vs)" using repD(5) [OF R] by blast
    have "(a, w) \<in> set (us @ (a, w) # vs)" by simp
    have lt: "unat a < unat ?b" "unat ?b = unat a + unat s"
    proof -
      show "unat ?b = unat a + unat s"
        by (rule unat_add_below [of a s "OS_MEM_END_NODE p sz"]) (use rep_node(6) [OF R, of a w] w s in simp)
      then show "unat a < unat ?b" using s by simp
    qed
    from seg_apart(1) [OF repD(2) [OF R] _ i lt(1), of w] lt(2) s(3) w(1) show False by simp
  qed
  from rep_add [OF S(1) _ S(5) nF] obtain m' where A: "OsMemFreeNodeAdd p ?b ?m4 = Some m'"
    "rep p sz m' ?bs (insert (?b, w - s) F)" "keeps p sz (set ?bs - insert (?b, w - s) F) ?m4 m'" "info p m' = info p ?m4"
    by auto
  have "distinct (map fst ?bs)" using seg_distinct [OF repD(2) [OF S(1)]] by simp
  then have b: "\<And>v. (?b, v) \<notin> set (us @ (a, s) # vs)" by (auto simp: image_iff)
  have "keeps p sz (set (us @ (a, s) # vs) - F) m m'"
    by (rule keeps_step [OF S(2) A(3)]) (use b in auto)
  then show ?thesis using A S(3,4) e by auto
qed

lemma MemSplitNode_free:
  assumes R: "rep p sz m (us @ (a, w) # (x, wx) # vs) F" and w: "plain w" "(a, w) \<notin> F"
    and s: "16 \<le> unat s" "4 dvd unat s" "unat s + 16 \<le> unat w" and x: "(x, wx) \<in> F"
  shows "\<exists>m'. OsMemSplitNode p a s m = Some m'
    \<and> rep p sz m' (us @ (a, s) # (a + s, w - s + wx) # vs) (insert (a + s, w - s + wx) (F - {(x, wx)}))
    \<and> keeps p sz (set (us @ (a, s) # vs) - F) m m' \<and> info p m' = info p m \<and> plain s \<and> plain (w - s + wx)"
proof -
  let ?b = "a + s"
  let ?m3 = "m(node_prev ?b := a, node_size ?b := w - s, node_size a := s)"
  let ?m4 = "?m3(node_prev x := ?b)" and ?bs = "us @ (a, s) # (?b, w - s) # (x, wx) # vs" and ?F = "F - {(x, wx)}"
  let ?bs' = "us @ (a, s) # (?b, w - s + wx) # vs"
  have hx: "fst (hd (((x, wx) # vs) @ [(OS_MEM_END_NODE p sz, OS_MEM_NODE_USED_FLAG)])) = x" by simp
  note S = rep_split [OF R w s refl hx [symmetric] refl]
  have pw: "plain wx" using repD(6) [OF R x] .
  have mx: "m (node_size x) = wx" using rep_node(1) [OF R, of x wx] by simp
  have free: "\<not> used_at ?m4 x" using plain_not_used [OF pw] by (simp only: S(8) mx)
  have "m (node_size a) = w" using rep_node(1) [OF R, of a w] by simp
  then have e: "OsMemSplitNode p a s m
      = OsMemFreeNodeAdd p ?b (OsMemMergeNode x (OsMemFreeNodeDelete p x ?m4))"
    using free by (simp only: MemSplitNode_eq s(1) Let_def S(7) simp_thms if_True)
  note Dl = rep_delete [OF S(1) x]
  have ds: "distinct (map fst ?bs)" using seg_distinct [OF repD(2) [OF S(1)]] by simp
  have FS: "F \<subseteq> set ?bs" by (rule repD(5) [OF S(1)])
  have bF: "(?b, v) \<notin> F" for v
  proof
    assume v: "(?b, v) \<in> F"
    then have "(?b, v) \<in> set (us @ (a, w) # (x, wx) # vs)" using repD(5) [OF R] by blast
    then have "?b \<in> fst ` set us \<or> ?b = a \<or> ?b = x \<or> ?b \<in> fst ` set vs" by force
    then show False using ds by auto
  qed
  have "?bs = (us @ [(a, s)]) @ (?b, w - s) # (x, wx) # vs" by simp
  then have R2: "rep p sz (OsMemFreeNodeDelete p x ?m4) ((us @ [(a, s)]) @ (?b, w - s) # (x, wx) # vs) ?F"
    using Dl(1) by simp
  note M = rep_merge [OF R2 S(5) pw]
  have M': "rep p sz (OsMemMergeNode x (OsMemFreeNodeDelete p x ?m4)) ?bs' ?F"
    using M(1) bF by simp
  have "(?b, w - s + wx) \<notin> ?F" using bF by blast
  from rep_add [OF M' _ M(4) this] bF obtain m' where A:
    "OsMemFreeNodeAdd p ?b (OsMemMergeNode x (OsMemFreeNodeDelete p x ?m4)) = Some m'"
    "rep p sz m' ?bs' (insert (?b, w - s + wx) ?F)"
    "keeps p sz (set ?bs' - insert (?b, w - s + wx) ?F) (OsMemMergeNode x (OsMemFreeNodeDelete p x ?m4)) m'"
    "info p m' = info p (OsMemMergeNode x (OsMemFreeNodeDelete p x ?m4))" by auto
  have b: "(?b, v) \<notin> set (us @ (a, s) # vs)" "(x, v) \<notin> set (us @ (a, s) # vs)" for v
    using ds by (auto simp: image_iff)
  have k1: "keeps p sz (set (us @ (a, s) # vs) - F) m (OsMemFreeNodeDelete p x ?m4)"
    by (rule keeps_step [OF S(2) Dl(2)]) auto
  have k2: "keeps p sz (set (us @ (a, s) # vs) - F) m (OsMemMergeNode x (OsMemFreeNodeDelete p x ?m4))"
    by (rule keeps_step [OF k1 M(2)]) (use bF in auto)
  have "keeps p sz (set (us @ (a, s) # vs) - F) m m'"
    by (rule keeps_step [OF k2 A(3)]) (use b in auto)
  moreover have "info p m' = info p m" using A(4) M(3) bF Dl(3) S(3) by simp
  ultimately show ?thesis using A(1,2) S(4) M(4) e bF by auto
qed

end
