(* ===== verification/Los_Heap.thy ===== *)
theory Los_Heap
  imports Los_MemOps
begin

text \<open>
  The heap as its users see it. \<open>heap_ok\<close> relates the memory of a pool to the list of its nodes:
  the headers and free lists agree with it, no two free nodes are neighbours, and the counter of
  used bytes is the sum of the used nodes. The theorems state what each call does to that list
  and that it leaves the data of all other blocks as it was.
\<close>

section \<open>Well-formed heaps\<close>

definition free_nodes :: "(u32 \<times> u32) list \<Rightarrow> (u32 \<times> u32) set" where
  "free_nodes bs = {(n, w). (n, w) \<in> set bs \<and> \<not> bit w 31}"

definition used_nodes :: "(u32 \<times> u32) list \<Rightarrow> (u32 \<times> u32) set" where
  "used_nodes bs = {(n, w). (n, w) \<in> set bs \<and> bit w 31}"

definition used_bytes :: "(u32 \<times> u32) list \<Rightarrow> u32" where
  "used_bytes bs = sum_list (map (\<lambda>(n, w). if bit w 31 then SZ w else 0) bs)"

definition merged :: "(u32 \<times> u32) list \<Rightarrow> bool" where
  "merged bs \<longleftrightarrow> successively (\<lambda>x y. bit (snd x) 31 \<or> bit (snd y) 31) bs"

definition heap_ok :: "u32 \<Rightarrow> u32 \<Rightarrow> hmem \<Rightarrow> (u32 \<times> u32) list \<Rightarrow> bool" where
  "heap_ok p sz m bs \<longleftrightarrow> rep p sz m bs (free_nodes bs) \<and> merged bs
     \<and> m (pool_curUsedSize p) = 952 + used_bytes bs \<and> m (pool_curUsedSize p) \<le> m (pool_waterLine p)"

lemma free_used: "set bs - free_nodes bs = used_nodes bs"
  by (auto simp: free_nodes_def used_nodes_def)

lemma used_bytes_simps [simp]:
  "used_bytes [] = 0" "used_bytes ((n, w) # bs) = (if bit w 31 then SZ w else 0) + used_bytes bs"
  "used_bytes (us @ vs) = used_bytes us + used_bytes vs"
  by (simp_all add: used_bytes_def)

lemma free_nodes_simps:
  "free_nodes (us @ vs) = free_nodes us \<union> free_nodes vs"
  "free_nodes ((n, w) # vs) = (if bit w 31 then free_nodes vs else insert (n, w) (free_nodes vs))"
  "free_nodes [] = {}"
  by (auto simp: free_nodes_def)

lemma used_nodes_simps:
  "used_nodes (us @ vs) = used_nodes us \<union> used_nodes vs"
  "used_nodes ((n, w) # vs) = (if bit w 31 then insert (n, w) (used_nodes vs) else used_nodes vs)"
  "used_nodes [] = {}"
  by (auto simp: used_nodes_def)

lemma merged_append:
  "merged (us @ vs) \<longleftrightarrow> merged us \<and> merged vs
     \<and> (us = [] \<or> vs = [] \<or> bit (snd (last us)) 31 \<or> bit (snd (hd vs)) 31)"
  by (auto simp: merged_def successively_append_iff)

lemma merged_Cons:
  "merged (x # vs) \<longleftrightarrow> merged vs \<and> (vs = [] \<or> bit (snd x) 31 \<or> bit (snd (hd vs)) 31)"
  by (cases vs) (auto simp: merged_def)

lemma merged_Nil [simp]: "merged []"
  by (simp add: merged_def)

lemma plain_free: "plain w \<Longrightarrow> \<not> bit w 31"
  using plain_not_bit [of w 31] by simp

section \<open>Walking over a heap\<close>

lemma nodes_do:
  assumes "seg a bs e" "\<And>n w. (n, w) \<in> set bs \<Longrightarrow> m (node_size n) = w"
  shows "nodes_do h m e a acc = Some (fold (\<lambda>(n, w). h n) bs acc)"
  using assms
proof (induction bs arbitrary: a acc)
  case Nil
  then show ?case by (simp add: nodes_do.simps)
next
  case (Cons x bs)
  obtain n w where x: "x = (n, w)" by (cases x)
  with Cons.prems have s: "n = a" "16 \<le> unat (SZ w)" "unat a + unat (SZ w) \<le> unat e" "seg (a + SZ w) bs e" by auto
  have "a \<le> e" "a \<noteq> e" using s(2,3) by (auto simp: word_le_nat_alt)
  moreover have "OS_MEM_NEXT_NODE m a = a + SZ w" using Cons.prems(2) [of n w] x s(1) by (simp add: OS_MEM_NEXT_NODE_def)
  ultimately show ?case using Cons.IH [OF s(4)] Cons.prems(2) x s(1) by (subst nodes_do.simps) simp
qed

lemma check_nodes:
  assumes "seg a bs e" "\<And>n w. (n, w) \<in> set bs \<Longrightarrow> m (node_size n) = w \<and> OsMemIntegrityCheckSub n p m = LOS_OK"
  shows "check_nodes p e m a = Some LOS_OK"
  using assms
proof (induction bs arbitrary: a)
  case Nil
  then show ?case by (simp add: check_nodes.simps)
next
  case (Cons x bs)
  obtain n w where x: "x = (n, w)" by (cases x)
  with Cons.prems have s: "n = a" "16 \<le> unat (SZ w)" "unat a + unat (SZ w) \<le> unat e" "seg (a + SZ w) bs e" by auto
  have "a < e" using s(2,3) by (simp add: word_less_nat_alt)
  moreover have c: "m (node_size a) = w" "OsMemIntegrityCheckSub a p m = LOS_OK"
    using Cons.prems(2) [of n w] x s(1) by simp_all
  moreover have "OS_MEM_NEXT_NODE m a = a + SZ w" using c by (simp add: OS_MEM_NEXT_NODE_def)
  moreover have "check_nodes p e m (a + SZ w) = Some LOS_OK"
    by (rule Cons.IH [OF s(4)], rule Cons.prems(2)) simp
  ultimately show ?case by (subst check_nodes.simps) (simp add: LOS_OK_def LOS_NOK_def)
qed

lemma list_walk_dll:
  assumes "dll pv (\<lambda>n. m (free_next n)) pr xs 0" "\<And>n. n \<in> set xs \<Longrightarrow> n \<noteq> 0"
  shows "list_walk f m (hd_or 0 xs) acc = Some (fold f xs acc)"
  using assms
proof (induction xs arbitrary: pr acc)
  case Nil
  then show ?case by (simp add: list_walk.simps)
next
  case (Cons x xs)
  then show ?case by (subst list_walk.simps) auto
qed

lemma lists_walk:
  assumes "rep p sz m bs F" "lists_inv p m F fl" "\<forall>i\<in>set is. i < 223"
  shows "lists_walk f p m is acc = Some (fold (\<lambda>i. fold (f (of_nat i)) (fl i)) is acc)"
  using assms(3)
proof (induction "is" arbitrary: acc)
  case (Cons i "is")
  then have i: "i < 223" by simp
  note D = repD [OF assms(1)] and l = lists_invD [OF assms(2) i]
  have "list_walk (f (of_nat i)) m (m (pool_freeList p (of_nat i))) acc = Some (fold (f (of_nat i)) (fl i) acc)"
    unfolding l(1) by (rule list_walk_dll [OF l(2)]) (use l(5) D(12) spaced_nonzero [OF D(10)] in blast)
  then show ?case using Cons by simp
qed simp

lemma dll_links:
  assumes "dll pv nx pr xs en" "x \<in> set xs"
  shows "pv x = pr \<or> pv x \<in> set xs" "nx x = en \<or> nx x \<in> set xs"
proof -
  have "(pv x = pr \<or> pv x \<in> set xs) \<and> (nx x = en \<or> nx x \<in> set xs)"
    using assms
  proof (induction xs arbitrary: pr)
    case (Cons y ys)
    then show ?case by (cases ys) auto
  qed simp
  then show "pv x = pr \<or> pv x \<in> set xs" "nx x = en \<or> nx x \<in> set xs" by simp_all
qed

text \<open>Every node of the pool is a valid address for the checks.\<close>

lemma addr_valid:
  assumes "rep p sz m bs F" "n \<in> nodes p sz bs"
  shows "OsMemAddrValidCheck p n m"
proof -
  note D = repD [OF assms(1)] and u = unat_end [OF repD(1) [OF assms(1)]]
  have f: "968 \<le> unat sz" "unat p + unat sz + 8 \<le> 2 ^ 32" using D(1) by (simp_all add: pool_fits_def)
  have "unat (p + sz) = unat p + unat sz" by (rule unat_add_lem [THEN iffD1]) (use f in simp)
  moreover have "unat p + 944 \<le> unat n" using D(10) assms(2) unfolding spaced_def by blast
  moreover have "unat n < unat p + unat sz"
  proof (cases "n = OS_MEM_END_NODE p sz")
    case True
    then show ?thesis using u f by simp
  next
    case False
    then obtain w where "(n, w) \<in> set bs" using assms(2) by (auto simp: nodes_def)
    from rep_node(3,6) [OF assms(1) this] u show ?thesis by linarith
  qed
  ultimately show ?thesis
    using u(2) by (simp add: OsMemAddrValidCheck_def OS_MEM_MIDDLE_ADDR_OPEN_END_def D(9) word_le_nat_alt
        word_less_nat_alt OS_MEM_FIRST_NODE_def)
qed

lemma prev_in_nodes:
  assumes "rep p sz m bs F" "(n, w) \<in> set bs"
  shows "m (node_prev n) \<in> nodes p sz bs"
proof -
  from split_list [OF assms(2)] obtain us vs where bs: "bs = us @ (n, w) # vs" by auto
  have "m (node_prev n) = last_or (OS_MEM_END_NODE p sz) (map fst us)"
    using rep_next(2) [of p sz m us n w vs F] assms(1) bs by simp
  then show ?thesis using bs by (auto simp: nodes_def last_or_def last_map split: if_splits)
qed

lemma links_in_nodes:
  assumes "rep p sz m bs F" "(n, w) \<in> F"
  shows "m (free_prev n) = 0 \<or> m (free_prev n) \<in> nodes p sz bs"
    "m (free_next n) = 0 \<or> m (free_next n) \<in> nodes p sz bs"
proof -
  note D = repD [OF assms(1)]
  from D(7) obtain fl where L: "lists_inv p m F fl" by blast
  have "(n, w) \<in> set bs" "plain w" using D(5,6) assms(2) by auto
  then have i: "cls w < 223" using rep_index(2) [OF assms(1)] by fastforce
  note l = lists_invD [OF L i]
  have n: "n \<in> set (fl (cls w))" using l(4) assms(2) by blast
  show "m (free_prev n) = 0 \<or> m (free_prev n) \<in> nodes p sz bs"
    "m (free_next n) = 0 \<or> m (free_next n) \<in> nodes p sz bs"
    using dll_links [OF l(2) n] l(5) D(12) by blast+
qed

text \<open>The integrity check passes on a well-formed heap, so the calls that run it return.\<close>

lemma integrity_ok:
  assumes "heap_ok p sz m bs"
  shows "LOS_MemIntegrityCheck p m = Some LOS_OK"
proof -
  have R: "rep p sz m bs (free_nodes bs)" using assms by (simp add: heap_ok_def)
  note D = repD [OF R]
  from D(7) obtain fl where L: "lists_inv p m (free_nodes bs) fl" by blast
  have "\<forall>i\<in>set [0..<unat OS_MEM_FREE_LIST_COUNT]. i < 223" by (simp add: list_count)
  from lists_walk [OF R L this, of "\<lambda>_ node fl. fl \<or> OsMemFreeListNodeCheck p node m \<noteq> 0" False] have h: "\<exists>y. OsMemPoolHeadCheck p m = Some y"
    by (auto simp: OsMemPoolHeadCheck_def)
  have c: "check_nodes p (OS_MEM_END_NODE p sz) m (OS_MEM_FIRST_NODE p) = Some LOS_OK"
  proof (rule check_nodes [OF D(2)])
    fix n w assume n: "(n, w) \<in> set bs"
    have s: "m (node_size n) = w" by (rule rep_node(1) [OF R n])
    have v: "OsMemAddrValidCheck p (m (node_prev n)) m" by (rule addr_valid [OF R prev_in_nodes [OF R n]])
    have "OsMemAddrValidCheckPrint p n m = LOS_OK" if "\<not> bit w 31"
    proof -
      have "(n, w) \<in> free_nodes bs" using n that by (simp add: free_nodes_def)
      from links_in_nodes [OF R this] addr_valid [OF R] show ?thesis
        unfolding OsMemAddrValidCheckPrint_def by metis
    qed
    then show "m (node_size n) = w \<and> OsMemIntegrityCheckSub n p m = LOS_OK"
      using s v used_bit [of w] by (auto simp: OsMemIntegrityCheckSub_def LOS_OK_def)
  qed
  have "p \<noteq> 0" using D(1) by (auto simp: pool_fits_def)
  then show ?thesis using h c by (auto simp: LOS_MemIntegrityCheck_def OsMemIntegrityCheck_def D(9) LOS_OK_def)
qed

lemma AllMemNode:
  assumes "heap_ok p sz m bs"
  shows "OsAllMemNodeDoHandle p h m acc = Some (fold (\<lambda>(n, w). h n) bs acc)"
proof -
  have R: "rep p sz m bs (free_nodes bs)" using assms by (simp add: heap_ok_def)
  note D = repD [OF R]
  have "p \<noteq> 0" using D(1) by (auto simp: pool_fits_def)
  moreover have "nodes_do h m (OS_MEM_END_NODE p sz) (OS_MEM_FIRST_NODE p) acc = Some (fold (\<lambda>(n, w). h n) bs acc)"
    by (rule nodes_do [OF D(2)]) (rule rep_node(1) [OF R])
  ultimately show ?thesis using integrity_ok [OF assms] D(9) by (simp add: OsAllMemNodeDoHandle_def LOS_OK_def)
qed

lemma InfoPrint_ok: "heap_ok p sz m bs \<Longrightarrow> OsMemInfoPrint p m = Some ()"
  by (simp add: OsMemInfoPrint_def LOS_MemInfoGet_def AllMemNode)

end

