(* ===== verification/Los_HeapAlloc.thy ===== *)
theory Los_HeapAlloc
  imports Los_Heap
begin

text \<open>Allocation: the node that is taken, how it is cut, and the counters.\<close>

section \<open>Sizes of requests\<close>

lemma align4: "unat r + 3 < 2 ^ 32 \<Longrightarrow> unat (OS_MEM_ALIGN r OS_MEM_ALIGN_SIZE) = (unat r + 3) div 4 * 4"
proof -
  assume "unat r + 3 < 2 ^ 32"
  then have "unat (r + 3) = unat r + 3" using unat_offset32 [of r 3] by simp
  moreover have "r + 4 - 1 = r + 3" by simp
  ultimately show ?thesis
    using unat_and_not_mask [of "r + 3" 2] by (simp add: OS_MEM_ALIGN_def OS_MEM_ALIGN_SIZE_def mask_numerals add.commute)
qed

abbreviation alloc_size :: "u32 \<Rightarrow> u32" where
  "alloc_size r \<equiv> OS_MEM_ALIGN (r + OS_MEM_NODE_HEAD_SIZE) OS_MEM_ALIGN_SIZE"

lemma alloc_size:
  assumes "8 \<le> unat r" "unat r < 2 ^ 30"
  shows "16 \<le> unat (alloc_size r)" "4 dvd unat (alloc_size r)" "unat (alloc_size r) < 2 ^ 31"
    "unat r + 8 \<le> unat (alloc_size r)" "unat (alloc_size r) < unat r + 12"
proof -
  have "unat (r + OS_MEM_NODE_HEAD_SIZE) = unat r + 8"
    using assms by (simp add: OS_MEM_NODE_HEAD_SIZE_def unat_add_lem [THEN iffD1])
  then have e: "unat (alloc_size r) = (unat r + 11) div 4 * 4"
    using align4 [of "r + OS_MEM_NODE_HEAD_SIZE"] assms by simp
  show "16 \<le> unat (alloc_size r)" "4 dvd unat (alloc_size r)" "unat (alloc_size r) < 2 ^ 31"
    "unat r + 8 \<le> unat (alloc_size r)" "unat (alloc_size r) < unat r + 12"
    unfolding e using assms by simp_all
qed

section \<open>What allocation does to the nodes\<close>

text \<open>
  A free node of at least \<open>s\<close> bytes is taken. What is left of it stays a free node if it is large
  enough to hold the links; otherwise it goes to the block.
\<close>

definition takes :: "u32 \<Rightarrow> u32 \<Rightarrow> (u32 \<times> u32) list \<Rightarrow> (u32 \<times> u32) list \<Rightarrow> bool" where
  "takes s a bs bs' \<longleftrightarrow> (\<exists>us w vs. bs = us @ (a, w) # vs \<and> (a, w) \<in> free_nodes bs \<and> unat s \<le> unat w
     \<and> bs' = us @ (if unat s + 16 \<le> unat w
                   then [(a, OS_MEM_NODE_SET_USED_FLAG s), (a + s, w - s)]
                   else [(a, OS_MEM_NODE_SET_USED_FLAG w)]) @ vs)"

lemma heap_okD:
  assumes "heap_ok p sz m bs"
  shows "rep p sz m bs (free_nodes bs)" "merged bs" "m (pool_curUsedSize p) = 952 + used_bytes bs"
    "m (pool_curUsedSize p) \<le> m (pool_waterLine p)"
  using assms unfolding heap_ok_def by blast+

lemma WaterUsedRecord:
  assumes R: "rep p sz m bs F"
  shows "rep p sz (OsMemWaterUsedRecord p s m) bs F" "keeps p sz (set bs) m (OsMemWaterUsedRecord p s m)"
    "OsMemWaterUsedRecord p s m (pool_curUsedSize p) = m (pool_curUsedSize p) + s"
    "OsMemWaterUsedRecord p s m (pool_curUsedSize p) \<le> OsMemWaterUsedRecord p s m (pool_waterLine p)"
proof -
  have ne: "pool_curUsedSize p \<noteq> pool_waterLine p" by (simp add: pool_curUsedSize_def pool_waterLine_def)
  have "a = pool_curUsedSize p \<or> a = pool_waterLine p" if "OsMemWaterUsedRecord p s m a \<noteq> m a" for a
    using that by (auto simp: OsMemWaterUsedRecord_def Let_def split: if_splits)
  moreover have "OsMemWaterUsedRecord p s m (pool_nextPool p) = m (pool_nextPool p)"
    by (simp add: OsMemWaterUsedRecord_def Let_def pool_curUsedSize_def pool_waterLine_def pool_nextPool_def)
  ultimately show "rep p sz (OsMemWaterUsedRecord p s m) bs F" "keeps p sz (set bs) m (OsMemWaterUsedRecord p s m)"
    using rep_info [OF R, of "OsMemWaterUsedRecord p s m"] by blast+
  show "OsMemWaterUsedRecord p s m (pool_curUsedSize p) = m (pool_curUsedSize p) + s"
    "OsMemWaterUsedRecord p s m (pool_curUsedSize p) \<le> OsMemWaterUsedRecord p s m (pool_waterLine p)"
    using ne by (auto simp: OsMemWaterUsedRecord_def Let_def)
qed

lemma FreeNodeGet:
  assumes R: "rep p sz m bs F" and s: "16 \<le> unat s" "4 dvd unat s" "unat s < 2 ^ 31"
  shows "OsMemFreeNodeGet p s m = Some (0, m) \<and> (\<forall>(n, w)\<in>F. unat w < unat s)
    \<or> (\<exists>a w. OsMemFreeNodeGet p s m = Some (a, OsMemFreeNodeDelete p a m) \<and> (a, w) \<in> F \<and> unat s \<le> unat w
        \<and> a \<noteq> 0)"
  using search [OF R s] unfolding found_def
proof (elim disjE exE conjE)
  fix n w assume f: "OsMemFindNextSuitableBlock p s m = Some (n, of_nat (cls w))" "(n, w) \<in> F" "unat s \<le> unat w"
  note D = repD [OF R]
  have "n \<noteq> 0" using spaced_nonzero [OF D(10)] D(12) f(2) by force
  moreover have "(n, w) \<in> set bs" "plain w" using D(5,6) f(2) by auto
  then have "OsMemFreeListIndexGet (m (node_size n)) = of_nat (cls w)" using rep_index [OF R] by blast
  ultimately show ?thesis using f by (auto simp: OsMemFreeNodeGet_def OsMemFreeNodeDelete_def)
qed (simp add: OsMemFreeNodeGet_def)

text \<open>The end of an allocation: the flag of the node and the counters.\<close>

lemma finish_alloc:
  assumes R: "rep p sz m (us @ (a, v) # vs) F" and v: "plain v" "(a, v) \<notin> F"
    and F: "F = free_nodes (us @ vs)" and M: "merged (us @ (a, OS_MEM_NODE_SET_USED_FLAG v) # vs)"
    and u: "m (pool_curUsedSize p) = 952 + used_bytes (us @ vs)"
    and m': "m' = OsMemWaterUsedRecord p v (m(node_size a := OS_MEM_NODE_SET_USED_FLAG v))"
  shows "heap_ok p sz m' (us @ (a, OS_MEM_NODE_SET_USED_FLAG v) # vs)"
    "keeps p sz (set (us @ vs)) m m'"
proof -
  let ?w = "OS_MEM_NODE_SET_USED_FLAG v" and ?m = "m(node_size a := OS_MEM_NODE_SET_USED_FLAG v)"
  note S = rep_flags [OF R v(2), of ?w, OF SET_USED_bits(2)]
  note W = WaterUsedRecord [OF S(1), of v]
  have "free_nodes (us @ (a, ?w) # vs) = F" by (simp add: F free_nodes_simps SET_USED_bits)
  moreover have "used_bytes (us @ (a, ?w) # vs) = used_bytes (us @ vs) + v"
    using v(1) by (simp add: SET_USED_bits)
  ultimately show "heap_ok p sz m' (us @ (a, ?w) # vs)"
    using W M u info_cong(1) [OF S(3)] unfolding heap_ok_def m' by simp
  show "keeps p sz (set (us @ vs)) m m'"
    unfolding m' by (rule keeps_step [OF S(2) W(2)]) auto
qed

lemma MemAlloc:
  assumes H: "heap_ok p sz m bs" and r: "8 \<le> unat r" "unat r < 2 ^ 30"
  shows "OsMemAlloc p r m = Some (0, m) \<and> (\<forall>(n, w)\<in>free_nodes bs. unat w < unat (alloc_size r))
    \<or> (\<exists>a bs' m'. OsMemAlloc p r m = Some (a + 8, m') \<and> takes (alloc_size r) a bs bs'
        \<and> heap_ok p sz m' bs' \<and> keeps p sz (used_nodes bs) m m')"
proof -
  let ?A = "alloc_size r" and ?F = "free_nodes bs"
  note R = heap_okD(1) [OF H] and s = alloc_size [OF r]
  from FreeNodeGet [OF R s(1-3)] show ?thesis
  proof (elim disjE exE conjE)
    assume "OsMemFreeNodeGet p ?A m = Some (0, m)" "\<forall>(n, w)\<in>?F. unat w < unat ?A"
    then show ?thesis using InfoPrint_ok [OF H] by (simp add: OsMemAlloc_def Let_def)
  next
    fix a w assume g: "OsMemFreeNodeGet p ?A m = Some (a, OsMemFreeNodeDelete p a m)" and aw: "(a, w) \<in> ?F"
      and le: "unat ?A \<le> unat w" and a0: "a \<noteq> 0"
    let ?m = "OsMemFreeNodeDelete p a m"
    note Dl = rep_delete [OF R aw] and D = repD [OF R]
    have pw: "plain w" by (rule D(6) [OF aw])
    from aw have "(a, w) \<in> set bs" by (simp add: free_nodes_def)
    then obtain us vs where bs: "bs = us @ (a, w) # vs" by (meson split_list)
    have ds: "distinct (map fst bs)" using seg_distinct [OF D(2)] by simp
    have nb: "\<not> bit w 31" by (rule plain_free [OF pw])
    have F1: "?F - {(a, w)} = free_nodes (us @ vs)"
      using ds nb by (auto simp: bs free_nodes_def image_iff)
    have R1: "rep p sz ?m (us @ (a, w) # vs) (free_nodes (us @ vs))" using Dl(1) by (simp only: bs [symmetric] F1)
    have cur: "?m (pool_curUsedSize p) = 952 + used_bytes (us @ vs)"
      using heap_okD(3) [OF H] info_cong(1) [OF Dl(3)] nb by (simp add: bs)
    have mg: "merged us" "merged vs" "us = [] \<or> bit (snd (last us)) 31" "vs = [] \<or> bit (snd (hd vs)) 31"
      using heap_okD(2) [OF H] nb by (auto simp: bs merged_append merged_Cons)
    have k1: "keeps p sz (used_nodes bs) m ?m" using Dl(2) by (simp add: free_used)
    have mw: "?m (node_size a) = w" using rep_node(1) [OF R1] by simp
    have un: "used_nodes bs = used_nodes (us @ vs)" using nb by (auto simp: bs used_nodes_def)
    have us: "used_nodes bs \<subseteq> set (us @ vs)" unfolding un by (auto simp: used_nodes_def)
    have nF: "(a, v) \<notin> free_nodes (us @ vs)" for v using ds by (auto simp: bs free_nodes_def image_iff)
    have leq: "?A + OS_MEM_MIN_LEFT_SIZE \<le> w \<longleftrightarrow> unat ?A + 16 \<le> unat w"
    proof -
      have "unat (?A + OS_MEM_MIN_LEFT_SIZE) = unat ?A + 16"
        using s(3) by (simp add: OS_MEM_MIN_LEFT_SIZE_def unat_add_lem [THEN iffD1])
      then show ?thesis by (simp add: word_le_nat_alt)
    qed
    show ?thesis
    proof (cases "unat ?A + 16 \<le> unat w")
      case True
      have nx: "bit (snd (hd (vs @ [(OS_MEM_END_NODE p sz, OS_MEM_NODE_USED_FLAG)]))) 31"
        using mg(4) end_not_plain(1) by (cases vs) auto
      from MemSplitNode_used [OF R1 pw nF s(1,2) True nx] obtain m2 where S:
        "OsMemSplitNode p a ?A ?m = Some m2"
        "rep p sz m2 (us @ (a, ?A) # (a + ?A, w - ?A) # vs) (insert (a + ?A, w - ?A) (free_nodes (us @ vs)))"
        "keeps p sz (set (us @ (a, ?A) # vs) - free_nodes (us @ vs)) ?m m2" "info p m2 = info p ?m" "plain ?A"
        by blast
      let ?vs = "(a + ?A, w - ?A) # vs"
      let ?m' = "OsMemWaterUsedRecord p ?A (m2(node_size a := OS_MEM_NODE_SET_USED_FLAG ?A))"
      have "plain (w - ?A)" by (rule repD(6) [OF S(2)]) (rule insertI1)
      then have fr: "\<not> bit (w - ?A) 31" by (rule plain_free)
      have nA: "(a, ?A) \<notin> insert (a + ?A, w - ?A) (free_nodes (us @ vs))"
        using nF s(1) by auto
      have 1: "insert (a + ?A, w - ?A) (free_nodes (us @ vs)) = free_nodes (us @ ?vs)"
        using fr by (simp add: free_nodes_simps)
      have 2: "merged (us @ (a, OS_MEM_NODE_SET_USED_FLAG ?A) # ?vs)"
        using mg by (auto simp: merged_append merged_Cons SET_USED_bits)
      have 3: "m2 (pool_curUsedSize p) = 952 + used_bytes (us @ ?vs)"
        using cur info_cong(1) [OF S(4)] fr by simp
      note Z = finish_alloc [OF S(2,5) nA 1 2 3 refl]
      have "OsMemAlloc p r m = Some (a + 8, ?m')"
        using g a0 mw leq True S(1) rep_node(1) [OF S(2), of a ?A] S(5)
        by (simp add: OsMemAlloc_def Let_def OsMemCreateUsedNode_def OS_MEM_NODE_HEAD_SIZE_def SET_USED_bits)
      moreover have "takes ?A a bs (us @ (a, OS_MEM_NODE_SET_USED_FLAG ?A) # ?vs)"
        unfolding takes_def using True le aw by (intro exI [of _ us] exI [of _ w] exI [of _ vs]) (simp add: bs)
      moreover have "keeps p sz (used_nodes bs) m ?m'"
      proof (rule keeps_step [OF k1 _ subset_refl])
        show "keeps p sz (used_nodes bs) ?m ?m'"
          unfolding un by (rule keeps_step [OF S(3) Z(2)]) (auto simp: used_nodes_def free_nodes_def)
      qed simp
      ultimately show ?thesis using Z(1) by blast
    next
      case False
      let ?m' = "OsMemWaterUsedRecord p w (?m(node_size a := OS_MEM_NODE_SET_USED_FLAG w))"
      have 2: "merged (us @ (a, OS_MEM_NODE_SET_USED_FLAG w) # vs)"
        using mg by (simp add: merged_append merged_Cons SET_USED_bits)
      note Z = finish_alloc [OF R1 pw nF refl 2 cur refl]
      have "OsMemAlloc p r m = Some (a + 8, ?m')"
        using g a0 mw leq False pw
        by (simp add: OsMemAlloc_def Let_def OsMemCreateUsedNode_def OS_MEM_NODE_HEAD_SIZE_def SET_USED_bits)
      moreover have "takes ?A a bs (us @ (a, OS_MEM_NODE_SET_USED_FLAG w) # vs)"
        unfolding takes_def using False le aw by (intro exI [of _ us] exI [of _ w] exI [of _ vs]) (simp add: bs)
      moreover have "keeps p sz (used_nodes bs) m ?m'"
        by (rule keeps_step [OF k1 Z(2) subset_refl us])
      ultimately show ?thesis using Z(1) by blast
    qed
  qed
qed

end
