(* ===== verification/Los_HeapFree.thy ===== *)
theory Los_HeapFree
  imports Los_HeapAlloc
begin

text \<open>Freeing: the checks of the node that is given back, and the merging with its neighbours.\<close>

section \<open>The check of a used node\<close>

lemma node_valid:
  assumes R: "rep p sz m bs F" and n: "n \<in> nodes p sz bs"
  shows "OsMemIsNodeValid n (OS_MEM_FIRST_NODE p) (OS_MEM_END_NODE p sz) p m"
proof -
  note D = repD [OF R] and u = unat_end [OF repD(1) [OF R]]
  have "unat p + 944 \<le> unat n" using D(10) n unfolding spaced_def by blast
  moreover have "unat n \<le> unat (OS_MEM_END_NODE p sz)"
    using n rep_node(6) [OF R] by (force simp: nodes_def)
  ultimately have "OS_MEM_MIDDLE_ADDR (OS_MEM_FIRST_NODE p) n (OS_MEM_END_NODE p sz)"
    using u by (simp add: OS_MEM_MIDDLE_ADDR_def word_le_nat_alt)
  moreover have "OsMemAddrValidCheck p (m (node_prev n)) m" if "\<not> used_at m n"
  proof -
    have "m (node_size (OS_MEM_END_NODE p sz)) = OS_MEM_NODE_USED_FLAG"
      using hdrs_size [OF D(4)] by auto
    then have "n \<noteq> OS_MEM_END_NODE p sz" using that end_not_plain(1) by (auto simp: used_bit)
    then obtain w where "(n, w) \<in> set bs" using n by (auto simp: nodes_def)
    from addr_valid [OF R prev_in_nodes [OF R this]] show ?thesis .
  qed
  ultimately show ?thesis by (simp add: OsMemIsNodeValid_def)
qed

lemma next_prev:
  assumes R: "rep p sz m (us @ (n, w) # vs) F"
  shows "OS_MEM_NEXT_NODE m n \<in> nodes p sz (us @ (n, w) # vs)" "m (node_prev (OS_MEM_NEXT_NODE m n)) = n"
proof -
  let ?E = "(OS_MEM_END_NODE p sz, OS_MEM_NODE_USED_FLAG)"
  note x = rep_next(1) [OF R] and D = repD [OF R]
  show "OS_MEM_NEXT_NODE m n \<in> nodes p sz (us @ (n, w) # vs)"
    unfolding x by (cases vs) (auto simp: nodes_def)
  have "hdrs m n (vs @ [?E])" using D(4) by (simp add: hdrs_append)
  then show "m (node_prev (OS_MEM_NEXT_NODE m n)) = n"
    unfolding x by (cases vs) auto
qed

lemma CheckUsedNode:
  assumes H: "heap_ok p sz m bs" and n: "(n, w) \<in> used_nodes bs"
  shows "OsMemCheckUsedNode p n m = LOS_OK"
proof -
  note R = heap_okD(1) [OF H] and D = repD [OF heap_okD(1) [OF H]]
  from n have "(n, w) \<in> set bs" and b: "bit w 31" by (simp_all add: used_nodes_def)
  then obtain us vs where bs: "bs = us @ (n, w) # vs" by (meson split_list)
  have R': "rep p sz m (us @ (n, w) # vs) (free_nodes bs)" using R bs by simp
  have N: "n \<in> nodes p sz bs" by (simp add: bs nodes_def)
  have u: "used_at m n" using b rep_node(1) [OF R \<open>(n, w) \<in> set bs\<close>] by (simp add: used_bit)
  have P: "OsMemIsNodeValid (m (node_prev n)) (OS_MEM_FIRST_NODE p) (OS_MEM_END_NODE p sz) p m
      \<and> OS_MEM_NEXT_NODE m (m (node_prev n)) = n" if "n \<noteq> OS_MEM_FIRST_NODE p"
  proof
    show "OsMemIsNodeValid (m (node_prev n)) (OS_MEM_FIRST_NODE p) (OS_MEM_END_NODE p sz) p m"
      by (rule node_valid [OF R prev_in_nodes [OF R \<open>(n, w) \<in> set bs\<close>]])
    have "us \<noteq> []" using that D(2) by (auto simp: bs)
    then obtain us' k v where us: "us = us' @ [(k, v)]" by (metis rev_exhaust surj_pair)
    have "rep p sz m (us' @ (k, v) # (n, w) # vs) (free_nodes bs)" using R' us by simp
    from rep_next(1) [OF this] have "OS_MEM_NEXT_NODE m k = n" by simp
    moreover have "m (node_prev n) = k" using rep_next(2) [OF R'] us by simp
    ultimately show "OS_MEM_NEXT_NODE m (m (node_prev n)) = n" by simp
  qed
  have V: "OsMemIsNodeValid (OS_MEM_NEXT_NODE m n) (OS_MEM_FIRST_NODE p) (OS_MEM_END_NODE p sz) p m"
    using node_valid [OF R'] next_prev(1) [OF R'] by blast
  show ?thesis
    using P V node_valid [OF R N] u next_prev(2) [OF R'] by (auto simp: OsMemCheckUsedNode_def Let_def D(9))
qed

lemma CheckUsedNode_not:
  assumes H: "heap_ok p sz m bs" and n: "n \<in> nodes p sz bs" "\<And>w. (n, w) \<notin> used_nodes bs"
  shows "OsMemCheckUsedNode p n m = LOS_NOK"
proof -
  note R = heap_okD(1) [OF H] and D = repD [OF heap_okD(1) [OF H]]
  show ?thesis
  proof (cases "n = OS_MEM_END_NODE p sz")
    case False
    then obtain w where w: "(n, w) \<in> set bs" using n(1) by (auto simp: nodes_def)
    then have "\<not> bit w 31" using n(2) [of w] by (simp add: used_nodes_def)
    then have "\<not> used_at m n" using rep_node(1) [OF R w] by (simp add: used_bit)
    then show ?thesis by (simp add: OsMemCheckUsedNode_def Let_def)
  next
    case True
    obtain us k v where bs: "bs = us @ [(k, v)]" using D(3) by (metis rev_exhaust surj_pair)
    have R': "rep p sz m (us @ (k, v) # []) (free_nodes bs)" using R bs by simp
    have "OS_MEM_NEXT_NODE m k = n" using rep_next(1) [OF R'] True by simp
    then have "m (node_prev n) = k" using next_prev(2) [OF R'] by simp
    moreover have "k \<noteq> n" using seg_distinct [OF D(2)] True by (auto simp: bs)
    moreover have "m (node_size n) = OS_MEM_NODE_USED_FLAG" using hdrs_size [OF D(4)] True by auto
    then have "OS_MEM_NEXT_NODE m n = n"
      by (simp add: OS_MEM_NEXT_NODE_def OS_MEM_NODE_USED_FLAG_def OS_MEM_NODE_GET_SIZE_def
          OS_MEM_NODE_ALIGNED_AND_USED_FLAG_def OS_MEM_NODE_ALIGNED_FLAG_def OS_MEM_NODE_LEAK_FLAG_def
          OS_MEM_NODE_LAST_FLAG_def)
    ultimately show ?thesis by (simp add: OsMemCheckUsedNode_def Let_def)
  qed
qed

section \<open>Merging with the neighbours\<close>

fun absorb :: "u32 \<Rightarrow> u32 \<Rightarrow> (u32 \<times> u32) list \<Rightarrow> (u32 \<times> u32) list" where
  "absorb a s [] = [(a, s)]"
| "absorb a s ((x, v) # vs) = (if bit v 31 then (a, s) # (x, v) # vs else (a, s + v) # vs)"

definition frees :: "u32 \<Rightarrow> u32 \<Rightarrow> (u32 \<times> u32) list \<Rightarrow> (u32 \<times> u32) list \<Rightarrow> bool" where
  "frees n w bs bs' \<longleftrightarrow> (\<exists>us vs. bs = us @ (n, w) # vs \<and> bit w 31
     \<and> bs' = (if us \<noteq> [] \<and> \<not> bit (snd (last us)) 31
              then butlast us @ absorb (fst (last us)) (snd (last us) + SZ w) vs
              else us @ absorb n (SZ w) vs))"

lemma rep_distinct:
  assumes "rep p sz m bs F"
  shows "distinct (map fst bs)"
  using seg_distinct [OF repD(2) [OF assms]] by simp

lemma next_nonzero:
  assumes "rep p sz m (us @ (n, w) # vs) F"
  shows "OS_MEM_NEXT_NODE m n \<noteq> 0"
  by (rule spaced_nonzero [OF repD(10) [OF assms] next_prev(1) [OF assms]])

text \<open>The second half of \<open>OsMemFree\<close>: a free node behind \<open>a\<close> is taken in.\<close>

definition merge_next :: "u32 \<Rightarrow> u32 \<Rightarrow> hmem \<Rightarrow> hmem" where
  "merge_next p a m = (if OS_MEM_NEXT_NODE m a \<noteq> 0 \<and> \<not> used_at m (OS_MEM_NEXT_NODE m a)
     then OsMemMergeNode (OS_MEM_NEXT_NODE m a) (OsMemFreeNodeDelete p (OS_MEM_NEXT_NODE m a) m) else m)"

lemma free_right:
  assumes R: "rep p sz m (us @ (a, s) # vs) (free_nodes (us @ vs))" and s: "plain s"
    and mg: "merged us" "us = [] \<or> bit (snd (last us)) 31" "merged vs"
    and m1: "m1 = merge_next p a m"
  shows "\<exists>m'. OsMemFreeNodeAdd p a m1 = Some m'
    \<and> rep p sz m' (us @ absorb a s vs) (free_nodes (us @ absorb a s vs)) \<and> merged (us @ absorb a s vs)
    \<and> keeps p sz (used_nodes (us @ vs)) m m' \<and> info p m' = info p m
    \<and> used_bytes (us @ absorb a s vs) = used_bytes (us @ vs)"
proof -
  note m1 = m1 [unfolded merge_next_def]
  have nb: "\<not> bit s 31" by (rule plain_free [OF s])
  have nF: "(a, v) \<notin> free_nodes (us @ vs)" for v
    using rep_distinct [OF R] by (auto simp: free_nodes_def image_iff)
  show ?thesis
  proof (cases "vs = [] \<or> bit (snd (hd vs)) 31")
    case True
    have "used_at m (OS_MEM_NEXT_NODE m a)"
      using rep_head_word [OF R, of "us @ [(a, s)]" vs] rep_next(1) [OF R] True end_not_plain(1)
      by (cases vs) (auto simp: used_bit)
    then have m1': "m1 = m" using m1 by simp
    have ab: "absorb a s vs = (a, s) # vs" using True by (cases "(a, s, vs)" rule: absorb.cases) auto
    from rep_add [OF R _ s nF] obtain m' where A: "OsMemFreeNodeAdd p a m = Some m'"
      "rep p sz m' (us @ (a, s) # vs) (insert (a, s) (free_nodes (us @ vs)))"
      "keeps p sz (set (us @ (a, s) # vs) - insert (a, s) (free_nodes (us @ vs))) m m'" "info p m' = info p m" by auto
    have "insert (a, s) (free_nodes (us @ vs)) = free_nodes (us @ (a, s) # vs)"
      using nb by (simp add: free_nodes_simps)
    moreover have "keeps p sz (used_nodes (us @ vs)) m m'"
      by (rule keeps_mono [OF A(3)]) (use nb in \<open>auto simp: used_nodes_def free_nodes_def\<close>)
    moreover have "merged (us @ (a, s) # vs)" using mg True by (auto simp: merged_append merged_Cons)
    ultimately show ?thesis using A nb unfolding ab m1' by auto
  next
    case False
    then obtain x v vs' where vs: "vs = (x, v) # vs'" by (cases vs) auto
    with False have nv: "\<not> bit v 31" by simp
    have xF: "(x, v) \<in> free_nodes (us @ vs)" using nv by (simp add: vs free_nodes_def)
    have pv: "plain v" by (rule repD(6) [OF R xF])
    have nx: "OS_MEM_NEXT_NODE m a = x" using rep_next(1) [OF R] by (simp add: vs)
    have "\<not> used_at m x" using rep_node(1) [OF R, of x v] nv by (simp add: vs used_bit)
    then have m1': "m1 = OsMemMergeNode x (OsMemFreeNodeDelete p x m)"
      using m1 nx next_nonzero [OF R] by simp
    have ab: "absorb a s vs = (a, s + v) # vs'" using nv by (simp add: vs)
    note Dl = rep_delete [OF R xF]
    have F1: "free_nodes (us @ vs) - {(x, v)} = free_nodes (us @ vs')"
      using rep_distinct [OF R] nv by (auto simp: vs free_nodes_def image_iff)
    have R2: "rep p sz (OsMemFreeNodeDelete p x m) (us @ (a, s) # (x, v) # vs') (free_nodes (us @ vs'))"
      using Dl(1) by (simp only: F1) (simp add: vs)
    have nF': "(a, y) \<notin> free_nodes (us @ vs')" "(x, y) \<notin> free_nodes (us @ vs')" for y
      using rep_distinct [OF R] by (auto simp: vs free_nodes_def image_iff)
    note M = rep_merge [OF R2 s pv nF']
    from rep_add [OF M(1) _ M(4) nF'(1)] obtain m' where A: "OsMemFreeNodeAdd p a m1 = Some m'"
      "rep p sz m' (us @ (a, s + v) # vs') (insert (a, s + v) (free_nodes (us @ vs')))"
      "keeps p sz (set (us @ (a, s + v) # vs') - insert (a, s + v) (free_nodes (us @ vs'))) m1 m'"
      "info p m' = info p m1" unfolding m1' by auto
    have nb': "\<not> bit (s + v) 31" by (rule plain_free [OF M(4)])
    have un: "used_nodes (us @ vs) = used_nodes (us @ vs')" using nv by (auto simp: vs used_nodes_def)
    have k: "keeps p sz (used_nodes (us @ vs)) m m1"
      unfolding m1' by (rule keeps_step [OF Dl(2) M(2)]; unfold un) (auto simp: used_nodes_def free_nodes_def vs)
    have k2: "keeps p sz (used_nodes (us @ vs)) m m'"
      by (rule keeps_step [OF k A(3) subset_refl]; unfold un)
        (use nb' in \<open>auto simp: used_nodes_def free_nodes_def\<close>)
    have "insert (a, s + v) (free_nodes (us @ vs')) = free_nodes (us @ (a, s + v) # vs')"
      using nb' by (simp add: free_nodes_simps)
    moreover have "merged (us @ (a, s + v) # vs')"
      using mg nv by (auto simp: vs merged_append merged_Cons)
    moreover have "info p m' = info p m" using A(4) M(3) Dl(3) unfolding m1' by simp
    moreover have "used_bytes (us @ (a, s + v) # vs') = used_bytes (us @ vs)" using nb' nv by (simp add: vs)
    ultimately show ?thesis using A(1,2) k2 unfolding ab by auto
  qed
qed

section \<open>Freeing a node\<close>

lemma used_bytes_sum:
  assumes "seg a bs e"
  shows "unat (used_bytes bs) = (\<Sum>(n, w)\<leftarrow>bs. if bit w 31 then unat (SZ w) else 0)
    \<and> unat a + unat (used_bytes bs) \<le> unat e"
  using assms
proof (induction bs arbitrary: a)
  case Nil
  then show ?case by simp
next
  case (Cons x bs)
  obtain n w where x: "x = (n, w)" by (cases x)
  with Cons.prems have s: "unat a + unat (SZ w) \<le> unat e" "seg (a + SZ w) bs e" by auto
  have "unat (a + SZ w) = unat a + unat (SZ w)" by (rule unat_add_below [OF s(1)])
  then have le: "unat a + unat (SZ w) + unat (used_bytes bs) \<le> unat e" using Cons.IH [OF s(2)] by simp
  have "unat (SZ w + used_bytes bs) = unat (SZ w) + unat (used_bytes bs)"
    by (rule unat_add_below [of _ _ e]) (use le in simp)
  then show ?case using Cons.IH [OF s(2)] le x by auto
qed

lemma cur_bound:
  assumes H: "heap_ok p sz m (us @ (n, w) # vs)" and b: "bit w 31"
  shows "unat (m (pool_curUsedSize p)) = 952 + unat (used_bytes (us @ (n, w) # vs))"
    "SZ w \<le> m (pool_curUsedSize p)" "m (pool_curUsedSize p) - SZ w = 952 + used_bytes (us @ vs)"
proof -
  note R = heap_okD(1) [OF H] and D = repD [OF heap_okD(1) [OF H]]
  note B = used_bytes_sum [OF D(2)]
  have "unat (used_bytes (us @ (n, w) # vs)) + 952 \<le> 2 ^ 28"
    using B unat_end [OF D(1)] D(1) unfolding pool_fits_def by linarith
  then show u: "unat (m (pool_curUsedSize p)) = 952 + unat (used_bytes (us @ (n, w) # vs))"
    unfolding heap_okD(3) [OF H] by (subst unat_add_lem [THEN iffD1]) simp_all
  have "unat (SZ w) \<le> unat (used_bytes (us @ (n, w) # vs))" using B b by simp
  then show "SZ w \<le> m (pool_curUsedSize p)" using u by (simp add: word_le_nat_alt)
  show "m (pool_curUsedSize p) - SZ w = 952 + used_bytes (us @ vs)"
    using heap_okD(3) [OF H] b by simp
qed

text \<open>The flags of the node are cleared and its size taken off the counter.\<close>

lemma release:
  assumes H: "heap_ok p sz m (us @ (n, w) # vs)" and b: "bit w 31"
    and m': "m' = m(pool_curUsedSize p := m (pool_curUsedSize p) - SZ w, node_size n := SZ w)"
  shows "rep p sz m' (us @ (n, SZ w) # vs) (free_nodes (us @ vs))"
    "keeps p sz (set (us @ (n, w) # vs)) m m'"
    "m' (pool_curUsedSize p) = 952 + used_bytes (us @ vs)"
    "m' (pool_curUsedSize p) \<le> m' (pool_waterLine p)"
proof -
  note R = heap_okD(1) [OF H] and D = repD [OF heap_okD(1) [OF H]]
  let ?m = "m(pool_curUsedSize p := m (pool_curUsedSize p) - SZ w)"
  have F: "free_nodes (us @ (n, w) # vs) = free_nodes (us @ vs)" using b by (auto simp: free_nodes_def)
  have nF: "(n, w) \<notin> free_nodes (us @ vs)" using b by (simp add: free_nodes_def)
  have "a = pool_curUsedSize p" if "?m a \<noteq> m a" for a using that by (auto split: if_splits)
  moreover have "?m (pool_nextPool p) = m (pool_nextPool p)" by (simp add: pool_curUsedSize_def pool_nextPool_def)
  ultimately have I: "rep p sz ?m (us @ (n, w) # vs) (free_nodes (us @ vs))" "keeps p sz (set (us @ (n, w) # vs)) m ?m"
    using rep_info [OF R, of ?m] by (simp only: F, blast)+
  have e: "m' = ?m(node_size n := SZ w)" by (simp add: m')
  note S = rep_flags [OF I(1) nF, of "SZ w", folded e]
  show "rep p sz m' (us @ (n, SZ w) # vs) (free_nodes (us @ vs))" by (rule S(1)) simp
  have "keeps p sz (set (us @ (n, w) # vs)) ?m m'" by (rule S(2)) simp
  with I(2) show "keeps p sz (set (us @ (n, w) # vs)) m m'" by (rule keeps_step) auto
  have i: "info p m' = info p ?m" by (rule S(3)) simp
  have ne: "pool_waterLine p \<noteq> pool_curUsedSize p" by (simp add: pool_curUsedSize_def pool_waterLine_def)
  show "m' (pool_curUsedSize p) = 952 + used_bytes (us @ vs)"
    using info_cong(1) [OF i] cur_bound(3) [OF H b] by simp
  have "m (pool_curUsedSize p) - SZ w \<le> m (pool_curUsedSize p)"
    by (rule word_sub_le [OF cur_bound(2) [OF H b]])
  then show "m' (pool_curUsedSize p) \<le> m' (pool_waterLine p)"
    using info_cong(1,2) [OF i] heap_okD(4) [OF H] ne by simp
qed

lemma free_before:
  assumes H: "heap_ok p sz m (us @ (n, w) # vs)" and b: "bit w 31"
    and m2: "m2 = m(pool_curUsedSize p := m (pool_curUsedSize p) - SZ w, node_size n := SZ w)"
  shows "us = [] \<or> bit (snd (last us)) 31 \<Longrightarrow>
      OsMemFree p n m = map_option (\<lambda>m5. (LOS_OK, m5)) (OsMemFreeNodeAdd p n (merge_next p n m2))"
    "us = us' @ [(k, v)] \<Longrightarrow> \<not> bit v 31 \<Longrightarrow>
      OsMemFree p n m = map_option (\<lambda>m5. (LOS_OK, m5))
        (OsMemFreeNodeAdd p k (merge_next p k (OsMemMergeNode n (OsMemFreeNodeDelete p k m2))))"
proof -
  have n: "(n, w) \<in> used_nodes (us @ (n, w) # vs)" "(n, w) \<in> set (us @ (n, w) # vs)" using b by (simp_all add: used_nodes_def)
  note L = release [OF H b m2] and D = repD [OF release(1) [OF H b m2]]
  have mw: "m (node_size n) = w" by (rule rep_node(1) [OF heap_okD(1) [OF H] n(2)])
  have ne: "pool_curUsedSize p \<noteq> node_size n"
    by (rule pool_not_node(2) [OF D(10) _ pool_cells(5) [OF D(11)]]) (simp add: nodes_def)
  have mn: "(m(pool_curUsedSize p := x)) (node_size n) = w" for x using ne mw by simp
  define pre where "pre = m2 (node_prev n)"
  have pre: "pre = last_or (OS_MEM_END_NODE p sz) (map fst us)" unfolding pre_def by (rule rep_next(2) [OF L(1)])
  define q where "q = (if pre \<noteq> 0 \<and> \<not> used_at m2 pre
    then (pre, OsMemMergeNode n (OsMemFreeNodeDelete p pre m2)) else (n, m2))"
  have e: "OsMemFree p n m = map_option (\<lambda>m5. (LOS_OK, m5)) (OsMemFreeNodeAdd p (fst q) (merge_next p (fst q) (snd q)))"
    by (simp only: OsMemFree_def Let_def CheckUsedNode [OF H n(1)] mw mn simp_thms if_False m2 [symmetric]
        pre_def [symmetric] q_def split_beta merge_next_def)
  show "OsMemFree p n m = map_option (\<lambda>m5. (LOS_OK, m5)) (OsMemFreeNodeAdd p n (merge_next p n m2))"
    if us: "us = [] \<or> bit (snd (last us)) 31"
  proof -
    have "used_at m2 pre"
    proof (cases us rule: rev_cases)
      case Nil
      then have "pre = OS_MEM_END_NODE p sz" using pre by simp
      moreover have "m2 (node_size (OS_MEM_END_NODE p sz)) = OS_MEM_NODE_USED_FLAG" using hdrs_size [OF D(4)] by auto
      ultimately show ?thesis using end_not_plain(1) by (simp add: used_bit)
    next
      case (snoc us' y)
      obtain k v where "y = (k, v)" by (cases y)
      then show ?thesis using us pre snoc rep_node(1) [OF L(1), of k v] by (simp add: used_bit)
    qed
    then show ?thesis using e by (simp add: q_def)
  qed
  show "OsMemFree p n m = map_option (\<lambda>m5. (LOS_OK, m5))
      (OsMemFreeNodeAdd p k (merge_next p k (OsMemMergeNode n (OsMemFreeNodeDelete p k m2))))"
    if us: "us = us' @ [(k, v)]" and nv: "\<not> bit v 31"
  proof -
    have pk: "pre = k" using pre us by simp
    have "\<not> used_at m2 k" using rep_node(1) [OF L(1), of k v] nv by (simp add: us used_bit)
    moreover have "k \<noteq> 0" by (rule spaced_nonzero [OF D(10)]) (simp add: us nodes_def)
    ultimately show ?thesis using e by (simp add: q_def pk)
  qed
qed

lemma MemFree:
  assumes H: "heap_ok p sz m bs" and n: "(n, w) \<in> used_nodes bs"
  shows "\<exists>m' bs'. OsMemFree p n m = Some (LOS_OK, m') \<and> frees n w bs bs' \<and> heap_ok p sz m' bs'
    \<and> keeps p sz (used_nodes bs - {(n, w)}) m m'"
proof -
  from n have "(n, w) \<in> set bs" and b: "bit w 31" by (simp_all add: used_nodes_def)
  then obtain us vs where bs: "bs = us @ (n, w) # vs" by (meson split_list)
  note H' = H [unfolded bs]
  define m2 where "m2 = m(pool_curUsedSize p := m (pool_curUsedSize p) - SZ w, node_size n := SZ w)"
  note L = release [OF H' b m2_def] and D = repD [OF release(1) [OF H' b m2_def]]
  note ds = rep_distinct [OF L(1)]
  have mg: "merged us" "merged vs" using heap_okD(2) [OF H'] by (auto simp: merged_append merged_Cons)
  have un: "used_nodes bs - {(n, w)} = used_nodes (us @ vs)"
    using ds b by (auto simp: bs used_nodes_def image_iff)
  have k0: "keeps p sz (used_nodes (us @ vs)) m m2"
    by (rule keeps_mono [OF L(2)]) (auto simp: used_nodes_def)
  show ?thesis
  proof (cases "us = [] \<or> bit (snd (last us)) 31")
    case True
    note e = free_before(1) [OF H' b m2_def True, folded bs]
    from free_right [OF L(1) plain_SZ_SZ mg(1) True mg(2) refl]
    obtain m' where A: "OsMemFreeNodeAdd p n (merge_next p n m2) = Some m'"
      "rep p sz m' (us @ absorb n (SZ w) vs) (free_nodes (us @ absorb n (SZ w) vs))"
      "merged (us @ absorb n (SZ w) vs)" "keeps p sz (used_nodes (us @ vs)) m2 m'" "info p m' = info p m2"
      "used_bytes (us @ absorb n (SZ w) vs) = used_bytes (us @ vs)" by blast
    have "heap_ok p sz m' (us @ absorb n (SZ w) vs)"
      unfolding heap_ok_def using A L(3,4) info_cong(1,2) [OF A(5)] by simp
    moreover have "frees n w bs (us @ absorb n (SZ w) vs)"
      unfolding frees_def using True b by (intro exI [of _ us] exI [of _ vs]) (auto simp: bs)
    moreover have "keeps p sz (used_nodes bs - {(n, w)}) m m'"
      unfolding un by (rule keeps_step [OF k0 A(4)]) auto
    ultimately show ?thesis using e A(1) by auto
  next
    case False
    then obtain us' k v where us: "us = us' @ [(k, v)]" by (metis rev_exhaust surj_pair)
    with False have nv: "\<not> bit v 31" by simp
    have kF: "(k, v) \<in> free_nodes (us @ vs)" using nv by (simp add: us free_nodes_def)
    have pv: "plain v" by (rule repD(6) [OF L(1) kF])
    note e = free_before(2) [OF H' b m2_def us nv, folded bs]
    note Dl = rep_delete [OF L(1) kF]
    have F1: "free_nodes (us @ vs) - {(k, v)} = free_nodes (us' @ vs)"
      using ds nv by (auto simp: us free_nodes_def image_iff)
    have R2: "rep p sz (OsMemFreeNodeDelete p k m2) (us' @ (k, v) # (n, SZ w) # vs) (free_nodes (us' @ vs))"
      using Dl(1) by (simp only: F1) (simp add: us)
    have nF: "(k, y) \<notin> free_nodes (us' @ vs)" "(n, y) \<notin> free_nodes (us' @ vs)" for y
      using ds by (auto simp: us free_nodes_def image_iff)
    note M = rep_merge [OF R2 pv plain_SZ_SZ nF]
    let ?s = "v + SZ w"
    have mg': "merged us'" "us' = [] \<or> bit (snd (last us')) 31"
      using mg(1) nv by (auto simp: us merged_append)
    from free_right [OF M(1,4) mg' mg(2) refl]
    obtain m' where A: "OsMemFreeNodeAdd p k (merge_next p k (OsMemMergeNode n (OsMemFreeNodeDelete p k m2))) = Some m'"
      "rep p sz m' (us' @ absorb k ?s vs) (free_nodes (us' @ absorb k ?s vs))"
      "merged (us' @ absorb k ?s vs)" "keeps p sz (used_nodes (us' @ vs)) (OsMemMergeNode n (OsMemFreeNodeDelete p k m2)) m'"
      "info p m' = info p (OsMemMergeNode n (OsMemFreeNodeDelete p k m2))"
      "used_bytes (us' @ absorb k ?s vs) = used_bytes (us' @ vs)" by blast
    have i: "info p m' = info p m2" using A(5) M(3) Dl(3) by simp
    have ub: "used_bytes (us' @ absorb k ?s vs) = used_bytes (us @ vs)" using A(6) nv by (simp add: us)
    have un': "used_nodes (us @ vs) = used_nodes (us' @ vs)" using nv by (auto simp: us used_nodes_def)
    have "heap_ok p sz m' (us' @ absorb k ?s vs)"
      unfolding heap_ok_def using A(2,3) L(3,4) info_cong(1,2) [OF i] ub by simp
    moreover have "frees n w bs (us' @ absorb k ?s vs)"
      unfolding frees_def using False b us by (intro exI [of _ us] exI [of _ vs]) (auto simp: bs)
    moreover have "keeps p sz (used_nodes bs - {(n, w)}) m m'"
    proof -
      have "keeps p sz (used_nodes (us @ vs)) m (OsMemFreeNodeDelete p k m2)"
        by (rule keeps_step [OF k0 Dl(2)]) (auto simp: used_nodes_def free_nodes_def)
      then have "keeps p sz (used_nodes (us @ vs)) m (OsMemMergeNode n (OsMemFreeNodeDelete p k m2))"
        by (rule keeps_step [OF _ M(2) subset_refl]) (auto simp: us used_nodes_def nv)
      then show ?thesis unfolding un by (rule keeps_step [OF _ A(4) subset_refl]) (simp add: un')
    qed
    ultimately show ?thesis using e A(1) by auto
  qed
qed

end
