(* ===== verification/Los_HeapCalls.thy ===== *)
theory Los_HeapCalls
  imports Los_HeapFree
begin

text \<open>
  The calls of the heap on a well-formed pool: allocation, plain and aligned, and freeing by the
  pointer that was handed out.
\<close>

section \<open>Blocks\<close>

text \<open>The pointer \<open>q\<close> belongs to the used node: behind its header, or behind a gap whose size is written before it.\<close>

definition block_at :: "hmem \<Rightarrow> u32 \<Rightarrow> u32 \<Rightarrow> u32 \<Rightarrow> bool" where
  "block_at m q n w \<longleftrightarrow> bit w 31 \<and>
     (if bit w 30
      then unat n + 12 \<le> unat q \<and> unat q < unat n + unat (SZ w) \<and> 4 dvd unat q - unat n
        \<and> m (q - 4) = OS_MEM_SET_GAPSIZE_ALIGNED_FLAG (q - (n + 8))
      else q = n + 8)"

definition max_req :: "u32 \<Rightarrow> u32" where
  "max_req r = (if r < OS_MEM_MIN_ALLOC_SIZE then OS_MEM_MIN_ALLOC_SIZE else r)"

lemma max_req: "8 \<le> unat (max_req r)" "unat r \<le> unat (max_req r)" "unat r < 2 ^ 30 \<Longrightarrow> unat (max_req r) < 2 ^ 30"
  by (simp_all add: max_req_def OS_MEM_MIN_ALLOC_SIZE_def word_less_nat_alt)

lemma plain_flags: "OS_MEM_NODE_GET_USED_FLAG w = 0 \<and> OS_MEM_NODE_GET_ALIGNED_FLAG w = 0 \<longleftrightarrow> plain w"
proof
  assume "OS_MEM_NODE_GET_USED_FLAG w = 0 \<and> OS_MEM_NODE_GET_ALIGNED_FLAG w = 0"
  then have b: "\<not> bit w 31" "\<not> bit w 30" using used_bit [of w] aligned_bit [of w] by auto
  have "take_bit 30 w = w"
  proof (rule bit_word_eqI)
    fix k assume "k < LENGTH(32)"
    then have "k < 30 \<or> k = 30 \<or> k = 31" by auto
    then show "bit (take_bit 30 w) k \<longleftrightarrow> bit w k" using b by (auto simp: bit_take_bit_iff)
  qed
  then show "plain w" using plain_SZ_SZ [of w] by (simp add: SZ_take)
next
  assume "plain w"
  then show "OS_MEM_NODE_GET_USED_FLAG w = 0 \<and> OS_MEM_NODE_GET_ALIGNED_FLAG w = 0"
    using used_bit [of w] aligned_bit [of w] plain_not_bit [of w] by force
qed

lemma plain_iff: "plain w \<longleftrightarrow> unat w < 2 ^ 30" by (simp add: plain_def)

lemma aligned4: "OS_MEM_IS_ALIGNED x 4 \<longleftrightarrow> 4 dvd unat x"
  using unat_and_mask [of x 2] unsigned_eq_0_iff [of "x AND 3"]
  by (auto simp: OS_MEM_IS_ALIGNED_def mask_numerals dvd_eq_mod_eq_0)

lemma pool_ptr:
  assumes "rep p sz m bs F" "(n, w) \<in> set bs"
  shows "unat (n + 8) = unat n + 8" "p \<noteq> 0" "4 dvd unat n" "OS_MEM_IS_ALIGNED p 4"
proof -
  note D = repD [OF assms(1)] and f = repD(1) [OF assms(1), unfolded pool_fits_def]
  show "unat (n + 8) = unat n + 8"
    using unat_offset32 [of n 8] rep_node(3,6) [OF assms] unat_less32 [of "OS_MEM_END_NODE p sz"] by simp
  show "p \<noteq> 0" using f by auto
  have "4 dvd unat n - unat (OS_MEM_FIRST_NODE p)" "unat (OS_MEM_FIRST_NODE p) \<le> unat n"
    using seg_nodes(1,5) [OF D(2) assms(2)] by simp_all
  moreover have "4 dvd unat (OS_MEM_FIRST_NODE p)" using unat_end(2) [OF D(1)] f by simp
  ultimately show "4 dvd unat n" by presburger
  show "OS_MEM_IS_ALIGNED p 4" using f by (simp add: aligned4)
qed

section \<open>Allocation\<close>

lemma takes_used:
  assumes "takes s a bs bs'" "plain s" "\<And>w. (a, w) \<in> free_nodes bs \<Longrightarrow> plain w" "distinct (map fst bs)"
  shows "\<exists>w. used_nodes bs' = insert (a, w) (used_nodes bs) \<and> bit w 31 \<and> \<not> bit w 30 \<and> unat s \<le> unat (SZ w)
    \<and> (\<forall>v. (a, v) \<notin> used_nodes bs)"
proof -
  from assms(1) obtain us w vs where t: "bs = us @ (a, w) # vs" "(a, w) \<in> free_nodes bs" "unat s \<le> unat w"
    "bs' = us @ (if unat s + 16 \<le> unat w then [(a, OS_MEM_NODE_SET_USED_FLAG s), (a + s, w - s)]
                 else [(a, OS_MEM_NODE_SET_USED_FLAG w)]) @ vs"
    unfolding takes_def by blast
  have pw: "plain w" by (rule assms(3) [OF t(2)])
  have nb: "\<not> bit w 31" "\<not> bit w 30" "\<not> bit s 30" using plain_not_bit pw assms(2) by auto
  have a: "\<forall>v. (a, v) \<notin> used_nodes bs" using assms(4) nb by (auto simp: t(1) used_nodes_def image_iff)
  have ws: "plain (w - s)"
  proof -
    have "w - s \<le> w" using t(3) by (intro word_sub_le) (simp add: word_le_nat_alt)
    then show ?thesis using pw by (simp add: plain_def word_le_nat_alt)
  qed
  then have "\<not> bit (w - s) 31" by (rule plain_free)
  then show ?thesis
    using t(3) nb a pw assms(2) SET_USED_bits
    by (intro exI [of _ "if unat s + 16 \<le> unat w then OS_MEM_NODE_SET_USED_FLAG s else OS_MEM_NODE_SET_USED_FLAG w"])
      (auto simp: t(1,4) used_nodes_simps)
qed

section \<open>The data of a block belongs to its owner\<close>

lemma data_not_meta:
  assumes "rep p sz m bs F" "(n, w) \<in> set bs - F" "data_cell n w c"
  shows "\<not> pool_cell p c" "k \<in> nodes p sz bs \<Longrightarrow> c \<noteq> node_prev k" "k \<in> nodes p sz bs \<Longrightarrow> c \<noteq> node_size k"
    "k \<in> fst ` F \<Longrightarrow> c \<noteq> free_prev k" "k \<in> fst ` F \<Longrightarrow> c \<noteq> free_next k"
proof -
  note D = repD [OF assms(1)]
  define meta where "meta a \<longleftrightarrow> pool_cell p a \<or> (\<exists>n\<in>nodes p sz bs. a = node_prev n \<or> a = node_size n)
      \<or> (\<exists>n\<in>fst ` F. a = free_prev n \<or> a = free_next n)" for a
  define m' where "m' a = (if meta a \<and> a \<noteq> pool_nextPool p then m a + 1 else m a)" for a
  have "keeps p sz (set bs - F) m m'"
  proof (rule keeps_cells [OF D(1,2,5)])
    fix a assume "m' a \<noteq> m a"
    then have "meta a" unfolding m'_def by presburger
    then show "pool_cell p a \<or> (\<exists>n\<in>nodes p sz bs. a = node_prev n \<or> a = node_size n)
      \<or> (\<exists>n\<in>fst ` F. a = free_prev n \<or> a = free_next n)" by (simp add: meta_def)
  qed (simp add: m'_def)
  then have "m' c = m c" using assms(2,3) by (simp add: keeps_def)
  moreover have "c \<noteq> pool_nextPool p"
    by (rule unat_neI) (use rep_node(7) [OF assms(1), of n w] assms(2,3) unat_pool(6) [OF D(11)] in \<open>auto simp: data_cell_def\<close>)
  ultimately have "\<not> meta c" unfolding m'_def by (cases "meta c") simp_all
  then show "\<not> pool_cell p c" "k \<in> nodes p sz bs \<Longrightarrow> c \<noteq> node_prev k" "k \<in> nodes p sz bs \<Longrightarrow> c \<noteq> node_size k"
    "k \<in> fst ` F \<Longrightarrow> c \<noteq> free_prev k" "k \<in> fst ` F \<Longrightarrow> c \<noteq> free_next k"
    by (auto simp: meta_def)
qed

lemma used_free_disjoint: "used_nodes bs \<subseteq> set bs - free_nodes bs"
  by (auto simp: used_nodes_def free_nodes_def)

lemma heap_data:
  assumes H: "heap_ok p sz m bs"
    and c: "\<And>a. m' a \<noteq> m a \<Longrightarrow> \<exists>n w. (n, w) \<in> used_nodes bs \<and> data_cell n w a"
  shows "heap_ok p sz m' bs"
proof -
  note R = heap_okD(1) [OF H] and D = repD [OF heap_okD(1) [OF H]]
  have same: "m' a = m a" if "pool_cell p a \<or> (\<exists>k\<in>nodes p sz bs. a = node_prev k \<or> a = node_size k)
      \<or> (\<exists>k\<in>fst ` free_nodes bs. a = free_prev k \<or> a = free_next k)" for a
  proof (rule ccontr)
    assume "m' a \<noteq> m a"
    from c [OF this] obtain n w where "(n, w) \<in> set bs - free_nodes bs" "data_cell n w a"
      using used_free_disjoint by blast
    from data_not_meta [OF R this] that show False by blast
  qed
  have nd: "m' (node_prev k) = m (node_prev k)" "m' (node_size k) = m (node_size k)" if "k \<in> nodes p sz bs" for k
    by (rule same, use that in blast)+
  have "hdrs m' (OS_MEM_END_NODE p sz) (bs @ [(OS_MEM_END_NODE p sz, OS_MEM_NODE_USED_FLAG)])
      = hdrs m (OS_MEM_END_NODE p sz) (bs @ [(OS_MEM_END_NODE p sz, OS_MEM_NODE_USED_FLAG)])"
    by (rule hdrs_cong) (use nd in \<open>auto simp: nodes_def\<close>)
  moreover from D(7) obtain fl where L: "lists_inv p m (free_nodes bs) fl" by blast
  have "lists_inv p m' (free_nodes bs) fl"
  proof (rule lists_inv_cong [OF L D(11)])
    fix a assume "link_cell p (fst ` free_nodes bs) a"
    then show "m' a = m a" by (intro same) (auto simp: link_cell_def pool_cell_def)
  qed
  moreover have "m' (pool_self p) = p" "m' (pool_totalSize p) = sz"
    "m' (pool_curUsedSize p) = m (pool_curUsedSize p)" "m' (pool_waterLine p) = m (pool_waterLine p)"
    using same [OF disjI1] pool_cells [OF D(11)] D(8,9) by simp_all
  moreover have "free_nodes bs \<subseteq> {(n, w). (n, w) \<in> set bs \<and> plain w}" using D(5,6) by auto
  ultimately have "rep p sz m' bs (free_nodes bs)" using D(1-4) unfolding rep_def by metis
  then show ?thesis
    using heap_okD [OF H] \<open>m' (pool_curUsedSize p) = m (pool_curUsedSize p)\<close>
      \<open>m' (pool_waterLine p) = m (pool_waterLine p)\<close> unfolding heap_ok_def by simp
qed

lemma block_ptr:
  assumes R: "rep p sz m bs F" and n: "(n, w) \<in> set bs" and b: "block_at m q n w"
  shows "OsGetRealPtr p q m = n + 8" "OS_MEM_IS_ALIGNED q 4" "q \<noteq> 0"
proof -
  note P = pool_ptr [OF R n] and N = rep_node [OF R n]
  have m4: "n + 8 - 4 = node_size n" by (simp add: node_size_def)
  have fl: "OS_MEM_GET_GAPSIZE_ALIGNED_FLAG g \<noteq> 0 \<longleftrightarrow> bit g 30" "OS_MEM_GET_GAPSIZE_USED_FLAG g \<noteq> 0 \<longleftrightarrow> bit g 31" for g
    using aligned_bit [of g] used_bit [of g]
    by (simp_all add: OS_MEM_GET_GAPSIZE_ALIGNED_FLAG_def OS_MEM_GAPSIZE_ALIGNED_FLAG_def
        OS_MEM_NODE_GET_ALIGNED_FLAG_def OS_MEM_NODE_ALIGNED_FLAG_def OS_MEM_GET_GAPSIZE_USED_FLAG_def
        OS_MEM_GAPSIZE_USED_FLAG_def OS_MEM_NODE_GET_USED_FLAG_def OS_MEM_NODE_USED_FLAG_def)
  have "OsGetRealPtr p q m = n + 8 \<and> 4 dvd unat q \<and> unat q \<noteq> 0"
  proof (cases "bit w 30")
    case False
    then have q: "q = n + 8" using b by (simp add: block_at_def)
    have "OS_MEM_GET_GAPSIZE_ALIGNED_FLAG (m (q - 4)) = 0" using fl(1) [of w] False N(1) by (simp add: q m4)
    then show ?thesis using P q by (simp add: OsGetRealPtr_def Let_def OS_MEM_GAPSIZE_CHECK_def)
  next
    case True
    let ?g = "q - (n + 8)"
    have q: "unat n + 12 \<le> unat q" "unat q < unat n + unat (SZ w)" "4 dvd unat q - unat n"
      "m (q - 4) = OS_MEM_SET_GAPSIZE_ALIGNED_FLAG ?g"
      using b True by (simp_all add: block_at_def)
    have ug: "unat ?g = unat q - (unat n + 8)" using q(1) P(1) by (subst unat_sub) (simp_all add: word_le_nat_alt)
    have pg: "plain ?g" using N(5) q(2) by (simp add: plain_def ug)
    have sb: "bit (OS_MEM_SET_GAPSIZE_ALIGNED_FLAG ?g) 30" "\<not> bit (OS_MEM_SET_GAPSIZE_ALIGNED_FLAG ?g) 31"
      using plain_not_bit [OF pg, of 31]
      by (simp_all add: OS_MEM_SET_GAPSIZE_ALIGNED_FLAG_def OS_MEM_GAPSIZE_ALIGNED_FLAG_def bit_or_iff flag_word_bits)
    have strip: "OS_MEM_GET_ALIGNED_GAPSIZE (OS_MEM_SET_GAPSIZE_ALIGNED_FLAG ?g) = ?g"
      using plain_not_bit [OF pg, of 30]
      by (intro bit_word_eqI, simp only: OS_MEM_GET_ALIGNED_GAPSIZE_def OS_MEM_SET_GAPSIZE_ALIGNED_FLAG_def
          OS_MEM_GAPSIZE_ALIGNED_FLAG_def bit_and_iff bit_or_iff bit_not_iff flag_word_bits) auto
    have "4 dvd unat q" using q(1,3) P(3) by presburger
    then have "4 dvd unat ?g" using P(3) q(1) unfolding ug by presburger
    then have "?g AND (OS_MEM_ALIGN_SIZE - 1) = 0" using aligned4 [of ?g] by (simp add: OS_MEM_ALIGN_SIZE_def OS_MEM_IS_ALIGNED_def)
    moreover have "\<not> ?g > q - OS_MEM_NODE_HEAD_SIZE - p"
    proof -
      have "unat (q - 8 - p) = unat q - 8 - unat p"
        using q(1) N(7) by (subst unat_sub; (subst unat_sub)?) (simp_all add: word_le_nat_alt unat_sub)
      then show ?thesis using ug N(7) by (simp add: word_less_nat_alt OS_MEM_NODE_HEAD_SIZE_def not_less)
    qed
    ultimately have "OsGetRealPtr p q m = q - ?g"
      using fl [of "m (q - 4)"] sb by (simp add: OsGetRealPtr_def Let_def OS_MEM_GAPSIZE_CHECK_def q(4) strip)
    then show ?thesis using \<open>4 dvd unat q\<close> q(1) by simp
  qed
  then show "OsGetRealPtr p q m = n + 8" "OS_MEM_IS_ALIGNED q 4" "q \<noteq> 0" by (auto simp: aligned4)
qed

section \<open>The calls\<close>

lemma LOS_MemAlloc_call:
  assumes H: "heap_ok p sz m bs" and r: "r \<noteq> 0" "unat r < 2 ^ 30"
  shows "LOS_MemAlloc p r m = OsMemAlloc p (max_req r) m"
proof -
  note R = heap_okD(1) [OF H]
  obtain n w where "(n, w) \<in> set bs" using repD(3) [OF R] by (metis list.set_intros(1) neq_Nil_conv surj_pair)
  then have "p \<noteq> 0" by (rule pool_ptr(2) [OF R])
  moreover have "plain (max_req r)" using max_req(3) [OF r(2)] by (simp add: plain_def)
  ultimately show ?thesis using plain_flags [of "max_req r"] r(1) by (simp add: LOS_MemAlloc_def Let_def max_req_def)
qed

lemma LOS_MemFree_call:
  assumes H: "heap_ok p sz m bs" and n: "(n, w) \<in> used_nodes bs" and b: "block_at m q n w"
  shows "LOS_MemFree p q m = OsMemFree p n m"
proof -
  note R = heap_okD(1) [OF H]
  have n': "(n, w) \<in> set bs" using n by (simp add: used_nodes_def)
  have "n + 8 \<noteq> 0" using pool_ptr(1) [OF R n'] by (metis add_is_0 numeral_eq_Suc unsigned_0 nat.distinct(1))
  then show ?thesis
    using block_ptr [OF R n' b] pool_ptr(2,4) [OF R n'] by (simp add: LOS_MemFree_def Let_def OS_MEM_NODE_HEAD_SIZE_def)
qed

lemma heap_flags:
  assumes H: "heap_ok p sz m (us @ (a, w) # vs)" and w: "bit w 31" "SZ w' = SZ w" "bit w' 31"
  shows "heap_ok p sz (m(node_size a := w')) (us @ (a, w') # vs)"
    "keeps p sz (set (us @ (a, w) # vs)) m (m(node_size a := w'))"
proof -
  note R = heap_okD(1) [OF H]
  have nF: "(a, w) \<notin> free_nodes (us @ (a, w) # vs)" using w by (simp add: free_nodes_def)
  note S = rep_flags [OF R nF w(2)]
  have "free_nodes (us @ (a, w') # vs) = free_nodes (us @ (a, w) # vs)" using w by (simp add: free_nodes_simps)
  then show "heap_ok p sz (m(node_size a := w')) (us @ (a, w') # vs)"
    using S(1) info_cong(1,2) [OF S(3)] heap_okD(2-4) [OF H] w
    by (simp add: heap_ok_def merged_append merged_Cons)
  show "keeps p sz (set (us @ (a, w) # vs)) m (m(node_size a := w'))" by (rule S(2))
qed

lemma pow_two:
  assumes "OS_MEM_IS_POW_TWO b" "b \<noteq> 0"
  shows "\<exists>k<32. unat b = 2 ^ k \<and> b - 1 = mask k"
proof -
  let ?k = "lg b"
  note B = lg_bounds [OF assms(2)]
  have bk: "bit v ?k" if "2 ^ ?k \<le> unat v" "unat v < 2 ^ (?k + 1)" for v :: u32
  proof -
    have "unat v div 2 ^ ?k = 1" using that by (simp add: div_nat_eqI)
    then have "drop_bit ?k v = 1" by (intro word_unat_eq_iff [THEN iffD2]) (simp only: unat_drop_bit32 unat_1)
    then show ?thesis by (simp add: bit_iff_odd_drop_bit)
  qed
  have "unat b = 2 ^ ?k"
  proof (rule ccontr)
    assume "unat b \<noteq> 2 ^ ?k"
    then have "2 ^ ?k < unat b" using B by simp
    moreover have "unat (b - 1) = unat b - 1" using assms(2) by (simp add: unat_minus_one)
    ultimately have "bit b ?k" "bit (b - 1) ?k" using B by (auto intro!: bk)
    then have "bit (b AND (b - 1)) ?k" by (simp add: bit_and_iff)
    then show False using assms(1) by (simp add: OS_MEM_IS_POW_TWO_def)
  qed
  moreover have "b = 2 ^ ?k" using unat_eq32 [OF \<open>unat b = 2 ^ ?k\<close>] by simp
  then have "b - 1 = mask ?k" by (simp add: mask_eq_exp_minus_1)
  ultimately show ?thesis using B(3) by blast
qed

lemma align_up:
  assumes b: "OS_MEM_IS_POW_TWO b" "b \<noteq> 0" and x: "unat x + unat b \<le> 2 ^ 32"
  shows "unat x \<le> unat (OS_MEM_ALIGN x b)" "unat (OS_MEM_ALIGN x b) < unat x + unat b"
    "unat b dvd unat (OS_MEM_ALIGN x b)"
proof -
  from pow_two [OF b] obtain k where k: "k < 32" "unat b = 2 ^ k" "b - 1 = mask k" by blast
  have "unat (b - 1) = 2 ^ k - 1" using b(2) k(2) by (simp add: unat_minus_one)
  then have u: "unat (x + (b - 1)) = unat x + (2 ^ k - 1)"
    using x k(2) by (subst unat_add_lem [THEN iffD1]) simp_all
  have "OS_MEM_ALIGN x b = (x + (b - 1)) AND NOT (mask k)"
    unfolding OS_MEM_ALIGN_def k(3) [symmetric] by (simp only: add_diff_eq)
  then have e: "unat (OS_MEM_ALIGN x b) = (unat x + (2 ^ k - 1)) div 2 ^ k * 2 ^ k"
    by (simp only: unat_and_not_mask u)
  show "unat b dvd unat (OS_MEM_ALIGN x b)" by (simp add: e k(2))
  let ?y = "unat x + (2 ^ k - 1)"
  have d: "?y div 2 ^ k * 2 ^ k + ?y mod 2 ^ k = ?y" "?y mod 2 ^ k < 2 ^ k" by (rule div_mult_mod_eq) simp
  have "0 < (2 :: nat) ^ k" by simp
  then show "unat x \<le> unat (OS_MEM_ALIGN x b)" "unat (OS_MEM_ALIGN x b) < unat x + unat b"
    unfolding e k(2) using d by linarith+
qed

lemma data_keeps:
  assumes R: "rep p sz m bs F" and n: "(n, w) \<in> set bs"
    and c: "\<And>a. m' a \<noteq> m a \<Longrightarrow> data_cell n w a"
  shows "keeps p sz (set bs - {(n, w)}) m m'"
  unfolding keeps_def
proof (intro conjI allI impI)
  note D = repD [OF R]
  fix k v a assume k: "(k, v) \<in> set bs - {(n, w)}" and d: "data_cell k v a"
  show "m' a = m a"
  proof (rule ccontr)
    assume "m' a \<noteq> m a"
    then have e: "data_cell n w a" by (rule c)
    have "k \<noteq> n" using seg_apart(2) [OF D(2) n, of k v] k by auto
    then have "unat k \<noteq> unat n" by (simp add: word_unat_eq_iff)
    then show False
      using seg_apart(1) [OF D(2) n, of k v] seg_apart(1) [OF D(2) _ n, of k v] k d e
      unfolding data_cell_def by force
  qed
next
  note u = unat_end [OF repD(1) [OF R]] and f = repD(1) [OF R, unfolded pool_fits_def]
  fix a :: u32 assume "unat a < unat p \<or> unat p + unat sz \<le> unat a"
  then have "\<not> data_cell n w a" using rep_node(6,7) [OF R n] u f unfolding data_cell_def by linarith
  then show "m' a = m a" using c by blast
next
  have "\<not> data_cell n w (pool_nextPool p)"
    using rep_node(7) [OF R n] unat_pool(6) [OF repD(11) [OF R]] by (simp add: data_cell_def)
  then show "m' (pool_nextPool p) = m (pool_nextPool p)" using c by blast
qed

lemma SET_ALIGNED_bits:
  "bit (OS_MEM_NODE_SET_ALIGNED_FLAG w) 31 = bit w 31" "SZ (OS_MEM_NODE_SET_ALIGNED_FLAG w) = SZ w"
  "bit (OS_MEM_NODE_SET_ALIGNED_FLAG w) 30"
proof -
  show "bit (OS_MEM_NODE_SET_ALIGNED_FLAG w) 31 = bit w 31" "bit (OS_MEM_NODE_SET_ALIGNED_FLAG w) 30"
    by (simp_all add: OS_MEM_NODE_SET_ALIGNED_FLAG_def OS_MEM_NODE_ALIGNED_FLAG_def bit_or_iff flag_word_bits)
  show "SZ (OS_MEM_NODE_SET_ALIGNED_FLAG w) = SZ w"
    by (rule bit_word_eqI) (auto simp: SZ_take OS_MEM_NODE_SET_ALIGNED_FLAG_def OS_MEM_NODE_ALIGNED_FLAG_def
        bit_or_iff flag_word_bits bit_take_bit_iff)
qed

text \<open>An aligned block: the node is taken as usual, the pointer moved up to the boundary.\<close>

lemma align_request:
  assumes g: "b \<noteq> 0" "OS_MEM_IS_ALIGNED b 4" "\<not> b - 4 > 0xFFFFFFFF - max_req r" "plain (max_req r + b - 4)"
  shows "4 \<le> unat b" "4 dvd unat b" "unat (max_req r + b - 4) = unat (max_req r) + unat b - 4"
    "8 \<le> unat (max_req r + b - 4)" "unat (max_req r + b - 4) < 2 ^ 30"
proof -
  show b4: "4 \<le> unat b" "4 dvd unat b"
    using g(1,2) by (auto simp: aligned4 unat_gt_0 intro!: dvd_imp_le)
  show uu: "unat (max_req r + b - 4) = unat (max_req r) + unat b - 4"
  proof -
    let ?r = "max_req r"
    have b: "unat (b - 4) = unat b - 4" using b4 by (simp add: unat_sub word_le_nat_alt)
    have "unat (0xFFFFFFFF - ?r) = 0xFFFFFFFF - unat ?r"
      using unat_less32 [of ?r] by (subst unat_sub) (simp_all add: word_le_nat_alt)
    then have "unat b - 4 \<le> 0xFFFFFFFF - unat ?r" using g(3) b by (simp add: word_less_nat_alt not_less)
    then have "unat (?r + (b - 4)) = unat ?r + (unat b - 4)"
      using b unat_less32 [of ?r] by (subst unat_add_lem [THEN iffD1]) simp_all
    then show ?thesis using b4 by (simp add: add_diff_eq)
  qed
  show "8 \<le> unat (max_req r + b - 4)" "unat (max_req r + b - 4) < 2 ^ 30"
    using uu b4 max_req(1) [of r] g(4) by (simp_all add: plain_def)
qed

lemma MemAllocAlign:
  assumes H: "heap_ok p sz m bs" and r: "r \<noteq> 0" and q: "LOS_MemAllocAlign p r b m = Some (q, m')" "q \<noteq> 0"
  shows "\<exists>a w bs'. heap_ok p sz m' bs' \<and> used_nodes bs' = insert (a, w) (used_nodes bs) \<and> block_at m' q a w
    \<and> (\<forall>v. (a, v) \<notin> used_nodes bs) \<and> unat b dvd unat q \<and> unat q + unat r \<le> unat a + unat (SZ w)
    \<and> keeps p sz (used_nodes bs) m m'
    \<and> (\<exists>bs1. takes (alloc_size (max_req r + b - 4)) a bs bs1 \<and> free_nodes bs' = free_nodes bs1)"
proof -
  let ?r = "max_req r" and ?u = "(max_req r + b) - 4"
  have g: "p \<noteq> 0" "b \<noteq> 0" "OS_MEM_IS_POW_TWO b" "OS_MEM_IS_ALIGNED b 4" "\<not> b - 4 > 0xFFFFFFFF - ?r"
    "OS_MEM_NODE_GET_USED_FLAG ?u = 0 \<and> OS_MEM_NODE_GET_ALIGNED_FLAG ?u = 0"
    using q by (auto simp: LOS_MemAllocAlign_def Let_def max_req_def [symmetric] split: if_splits)
  have pu: "plain ?u" using g(6) plain_flags by blast
  note rq = align_request [OF g(2,4,5) pu]
  note b4 = rq(1,2) and uu = rq(3) and ur = rq(4,5)
  from MemAlloc [OF H ur] q g r have "\<exists>a bs1 m1. OsMemAlloc p ?u m = Some (a + 8, m1)
      \<and> takes (alloc_size ?u) a bs bs1 \<and> heap_ok p sz m1 bs1 \<and> keeps p sz (used_nodes bs) m m1"
    by (auto simp: LOS_MemAllocAlign_def Let_def max_req_def [symmetric] OS_MEM_ALIGN_def split: if_splits)
  then obtain a bs1 m1 where A: "OsMemAlloc p ?u m = Some (a + 8, m1)"
    "takes (alloc_size ?u) a bs bs1" "heap_ok p sz m1 bs1" "keeps p sz (used_nodes bs) m m1" by blast
  note R = heap_okD(1) [OF H] and R1 = heap_okD(1) [OF A(3)]
  have ps: "plain (alloc_size ?u)" and fp: "\<And>w. (a, w) \<in> free_nodes bs \<Longrightarrow> plain w"
    using A(2) repD(6) [OF R] unfolding takes_def plain_def by fastforce+
  from takes_used [OF A(2) ps fp rep_distinct [OF R]] obtain w where W:
    "used_nodes bs1 = insert (a, w) (used_nodes bs)" "bit w 31" "\<not> bit w 30"
    "unat (alloc_size ?u) \<le> unat (SZ w)" "\<forall>v. (a, v) \<notin> used_nodes bs" by blast
  have w: "(a, w) \<in> set bs1" using W(1) by (auto simp: used_nodes_def)
  note N = rep_node [OF R1 w] and P = pool_ptr [OF R1 w]
  let ?x = "a + 8" and ?q = "OS_MEM_ALIGN (a + 8) b"
  have room: "unat ?x + unat ?r + unat b \<le> unat a + unat (SZ w) + 4"
    using alloc_size(4) [OF ur] W(4) uu P(1) b4 by linarith
  have x: "unat ?x + unat b \<le> 2 ^ 32"
    using room max_req(1) [of r] N(6) unat_less32 [of "OS_MEM_END_NODE p sz"] by linarith
  note al = align_up [OF g(3,2) x]
  have d4: "4 dvd unat ?q - unat ?x" "4 dvd unat ?q"
    using al(3) b4(2) P(1,3) dvd_trans [OF b4(2) al(3)] by (auto intro: dvd_diff_nat)
  have e: "LOS_MemAllocAlign p r b m =
      (if ?x = ?q then Some (?x, m1)
       else Some (?q, m1(node_size a := OS_MEM_NODE_SET_ALIGNED_FLAG w,
              ?q - 4 := OS_MEM_SET_GAPSIZE_ALIGNED_FLAG (?q - ?x))))"
    using g r A(1) N(1)
    by (simp add: LOS_MemAllocAlign_def Let_def max_req_def [symmetric] OS_MEM_NODE_HEAD_SIZE_def)
  have fit: "unat ?q + unat r \<le> unat a + unat (SZ w)"
  proof -
    have "unat ?q + 4 \<le> unat ?x + unat b" using al(1,2) d4(1) b4(2) by presburger
    then show ?thesis using room max_req(2) [of r] by linarith
  qed
  show ?thesis
  proof (cases "?x = ?q")
    case True
    then have "q = ?q" "q = ?x" "m' = m1" using e q(1) by auto
    then show ?thesis
      using A(2-4) W al(3) fit by (intro exI [of _ a] exI [of _ w] exI [of _ bs1]) (auto simp: block_at_def)
  next
    case False
    from w obtain us vs where bs1: "bs1 = us @ (a, w) # vs" by (meson split_list)
    let ?w = "OS_MEM_NODE_SET_ALIGNED_FLAG w" and ?m2 = "m1(node_size a := OS_MEM_NODE_SET_ALIGNED_FLAG w)"
    let ?bs = "us @ (a, ?w) # vs"
    have q': "q = ?q" "m' = ?m2(?q - 4 := OS_MEM_SET_GAPSIZE_ALIGNED_FLAG (?q - ?x))" using e q(1) False by auto
    have w': "bit ?w 31" using SET_ALIGNED_bits(1) W(2) by simp
    note Fl = heap_flags [OF A(3) [unfolded bs1] W(2) SET_ALIGNED_bits(2) w']
    have "unat ?x \<noteq> unat ?q" using False by (simp add: word_unat_eq_iff)
    then have far: "unat a + 12 \<le> unat ?q" using al(1) d4(1) P(1) by presburger
    have "unat (?q - 4) = unat ?q - 4" using far by (subst unat_sub) (simp_all add: word_le_nat_alt)
    then have dc: "data_cell a ?w (?q - 4)"
      using far fit unfolding data_cell_def SET_ALIGNED_bits by linarith
    have ch: "data_cell a ?w c" if "m' c \<noteq> ?m2 c" for c using that dc by (auto simp: q'(2) split: if_splits)
    have in': "(a, ?w) \<in> used_nodes ?bs" "(a, ?w) \<in> set ?bs" using w' by (simp_all add: used_nodes_def)
    have 1: "heap_ok p sz m' ?bs" by (rule heap_data [OF Fl(1)]) (use ch in'(1) in blast)
    note ds = rep_distinct [OF R1]
    have "(a, y) \<notin> used_nodes us \<union> used_nodes vs" for y using ds by (auto simp: bs1 used_nodes_def image_iff)
    moreover have "insert (a, w) (used_nodes us \<union> used_nodes vs) = insert (a, w) (used_nodes bs)"
      using W(1,2) by (simp add: bs1 used_nodes_simps)
    ultimately have un: "used_nodes us \<union> used_nodes vs = used_nodes bs"
      using W(5) insert_ident [of "(a, w)" "used_nodes us \<union> used_nodes vs" "used_nodes bs"] by blast
    then have 2: "used_nodes ?bs = insert (a, ?w) (used_nodes bs)" using w' by (auto simp: used_nodes_simps)
    have sub: "used_nodes bs \<subseteq> set (us @ (a, w) # vs)" "used_nodes bs \<subseteq> set ?bs - {(a, ?w)}"
      using W(5) unfolding un [symmetric] by (auto simp: used_nodes_def)
    have "keeps p sz (used_nodes bs) m1 ?m2" by (rule keeps_mono [OF Fl(2) sub(1)])
    from keeps_step [OF A(4) this subset_refl subset_refl] have "keeps p sz (used_nodes bs) m ?m2" .
    then have 3: "keeps p sz (used_nodes bs) m m'"
      by (rule keeps_step [OF _ data_keeps [OF heap_okD(1) [OF Fl(1)] in'(2) ch] subset_refl sub(2)])
    have "0 < unat r" using r by (simp add: unat_gt_0)
    then have "unat ?q < unat a + unat (SZ w)" using fit by linarith
    moreover have "4 dvd unat ?q - unat a" using d4(1) far P(1) by presburger
    ultimately have "block_at m' q a ?w"
      unfolding block_at_def using far SET_ALIGNED_bits(3) [of w] w' q' by (simp add: SET_ALIGNED_bits)
    moreover have "free_nodes ?bs = free_nodes bs1" using w' W(2) by (simp add: bs1 free_nodes_simps)
    ultimately show ?thesis using 1 2 3 W(5) al(3) fit q'(1) A(2)
      by (intro exI [of _ a] exI [of _ ?w] exI [of _ ?bs]) (auto simp: SET_ALIGNED_bits)
  qed
qed

end
