(* ===== verification/Los_HeapInit.thy ===== *)
theory Los_HeapInit
  imports Los_HeapCalls
begin

text \<open>Setting up a pool, and the list of pools.\<close>

section \<open>One pool\<close>

abbreviation first_node :: "u32 \<Rightarrow> u32 \<Rightarrow> (u32 \<times> u32) list" where
  "first_node p sz \<equiv> [(OS_MEM_FIRST_NODE p, sz - 952)]"

lemma first_seg:
  assumes "pool_fits p sz"
  shows "seg (OS_MEM_FIRST_NODE p) (first_node p sz) (OS_MEM_END_NODE p sz)"
    "unat (sz - 952) = unat sz - 952" "plain (sz - 952)" "16 \<le> unat (sz - 952)" "unat (sz - 952) < 2 ^ 29"
proof -
  note f = assms [unfolded pool_fits_def] and u = unat_end [OF assms]
  show us: "unat (sz - 952) = unat sz - 952" using f by (subst unat_sub) (simp_all add: word_le_nat_alt)
  have "unat sz - 952 \<le> 2 ^ 28" using f by linarith
  then show pl: "plain (sz - 952)" and "unat (sz - 952) < 2 ^ 29" unfolding plain_def us by simp_all
  show b: "16 \<le> unat (sz - 952)" unfolding us using f by linarith
  have "4 dvd unat sz - 952" using f by presburger
  moreover have "OS_MEM_FIRST_NODE p + (sz - 952) = OS_MEM_END_NODE p sz"
    by (simp add: OS_MEM_FIRST_NODE_def OS_MEM_END_NODE_def sizeof_OsMemPoolHead_def OS_MEM_NODE_HEAD_SIZE_def)
  ultimately show "seg (OS_MEM_FIRST_NODE p) (first_node p sz) (OS_MEM_END_NODE p sz)"
    using pl b us u f by simp
qed

lemma prev_size_ne [simp]: "node_prev n \<noteq> node_size n" "node_size n \<noteq> node_prev n"
  by (simp_all add: node_prev_def node_size_def)

lemma empty_lists:
  assumes p: "unat p + 944 \<le> 2 ^ 32" and z: "\<And>a. link_cell p {} a \<Longrightarrow> m a = 0"
  shows "lists_inv p m {} (\<lambda>_. [])"
proof -
  have "bits_ok p m (\<lambda>i. False)"
    unfolding bits_ok_def
  proof (intro conjI allI impI)
    fix i :: nat assume "i < 224"
    then have "m (pool_bitmap p (of_nat (i div 32))) = 0"
      by (intro z link_cellI(4) [OF p] div_32_less)
    then show "bit (m (pool_bitmap p (of_nat (i div 32)))) (i mod 32) = False" by simp
  qed simp
  then show ?thesis using z [OF link_cellI(3) [OF p]] by (simp add: lists_inv_def)
qed

lemma MemPoolDeinit:
  assumes "pool_fits p sz"
  shows "OsMemPoolDeinit p m a = (if pool_cell p a then 0 else m a)"
proof -
  have "a - p < 944 \<longleftrightarrow> pool_cell p a"
  proof (cases "p \<le> a")
    case True
    then have "unat (a - p) = unat a - unat p" "unat p \<le> unat a" by (simp_all add: unat_sub word_le_nat_alt)
    then show ?thesis by (simp add: pool_cell_def word_less_nat_alt) arith
  next
    case False
    then have "unat a < unat p" by (simp add: word_le_nat_alt)
    moreover have "unat (a - p) = 2 ^ 32 + unat a - unat p"
      using \<open>unat a < unat p\<close> by (subst unat_sub_if') simp
    ultimately show ?thesis using assms by (simp add: pool_fits_def pool_cell_def word_less_nat_alt) arith
  qed
  then show ?thesis by (simp add: OsMemPoolDeinit_def sizeof_OsMemPoolHead_def)
qed

lemma PoolInit:
  assumes f: "pool_fits p sz"
  shows "\<exists>m'. OsMemPoolInit p sz m = Some (LOS_OK, m') \<and> heap_ok p sz m' (first_node p sz) 
    \<and> (\<forall>a. unat a < unat p \<or> unat p + unat sz \<le> unat a \<longrightarrow> m' a = m a)
    \<and> m' (pool_nextPool p) = 0 \<and> m' (pool_curUsedSize p) = 952"
proof -
  let ?n = "OS_MEM_FIRST_NODE p" and ?e = "OS_MEM_END_NODE p sz" and ?w = "sz - 952"
  note u = unat_end [OF f] and S = first_seg [OF f] and f' = f [unfolded pool_fits_def]
  note sp = spaced_nodes [OF f S(1)]
  have nd: "?n \<in> nodes p sz (first_node p sz)" "?e \<in> nodes p sz (first_node p sz)" by (simp_all add: nodes_def)
  note up = unat_pool [OF u(3)] and pc = pool_cells [OF u(3)]
  have un: "unat (node_prev ?n) = unat p + 944" "unat (node_size ?n) = unat p + 948"
    "unat (node_prev ?e) = unat p + unat sz - 8" "unat (node_size ?e) = unat p + unat sz - 4"
    using sp nd u f' unfolding spaced_def by (simp_all add: unat_field)
  define m6 where "m6 = (OsMemPoolDeinit p m)(pool_self p := p, pool_totalSize p := sz,
    pool_attr p := 0, node_size ?n := ?w, node_prev ?n := ?e)"
  note deinit = MemPoolDeinit [OF f]
  have low: "m6 a = 0" if "pool_cell p a" "unat p + 12 \<le> unat a" for a
    using that up un by (auto simp: m6_def deinit pool_cell_def)
  have L0: "lists_inv p m6 {} (\<lambda>_. [])"
    by (rule empty_lists [OF u(3)]) (auto simp: link_cell_def pool_cell_def intro!: low)
  have c: "OsMemFreeListIndexGet ?w = of_nat (cls ?w)" "cls ?w < 207"
    using index_cls [of ?w] S(4,5) by simp_all
  then have c': "cls ?w < 223" by simp
  define m7 where "m7 = OsMemListAdd p (of_nat (cls ?w)) ?n m6"
  have "inj_on fst {}" "fst ` {} \<subseteq> nodes p sz (first_node p sz)" "?n \<notin> fst ` {}" by simp_all
  note A = lists_inv_add [OF sp u(3) L0 this(2,1) nd(1) this(3) c' refl, folded m7_def]
  have add: "OsMemFreeNodeAdd p ?n m6 = Some m7"
    using c by (simp add: OsMemFreeNodeAdd_def list_count m7_def m6_def word_le_nat_alt unat_of_nat32 not_le)
  define m' where "m' = m7(node_size ?e := 0, node_prev ?e := ?n, node_size ?e := OS_MEM_NODE_USED_FLAG,
    pool_curUsedSize p := 952, pool_waterLine p := 952)"
  have "(OsMemPoolDeinit p m)(pool_self p := p, pool_totalSize p := sz,
      pool_attr p := ((OsMemPoolDeinit p m)(pool_self p := p, pool_totalSize p := sz)) (pool_attr p)
        AND NOT (OS_MEM_POOL_UNLOCK_ENABLE OR OS_MEM_POOL_EXPAND_ENABLE),
      node_size ?n := ?w, node_prev ?n := ?e) = m6"
    using pc(3) up by (auto simp: m6_def deinit pool_self_def pool_totalSize_def pool_attr_def)
  then have i: "OsMemPoolInit p sz m = Some (LOS_OK, m')"
    using add by (simp add: OsMemPoolInit_def Let_def sizeof_OsMemPoolHead_def OS_MEM_NODE_HEAD_SIZE_def m'_def
        OS_MEM_NODE_SET_USED_FLAG_def LOS_OK_def)
  have fn: "unat (free_prev ?n) = unat p + 952" "unat (free_next ?n) = unat p + 956"
    using sp nd(1) u f' unfolding spaced_def by (simp_all add: unat_field)
  have m7: "m7 a = m6 a" if "pool_cell p a \<Longrightarrow> unat p + 940 \<le> unat a \<or> unat a < unat p + 20"
      "unat a < unat p + 952 \<or> unat p + 960 \<le> unat a" for a
  proof -
    have "\<not> link_cell p {?n} a" using that fn by (auto simp: link_cell_def pool_cell_def)
    then show ?thesis using A(2) by simp
  qed
  have m': "m' a = m7 a" if "unat a < unat p + 12 \<or> unat p + 20 \<le> unat a"
      "unat a + 8 < unat p + unat sz \<or> unat p + unat sz \<le> unat a" for a
  proof -
    have "a \<noteq> node_size ?e" "a \<noteq> node_prev ?e" "a \<noteq> pool_curUsedSize p" "a \<noteq> pool_waterLine p"
      by (rule unat_neI, simp only: un up, use that f' in linarith)+
    then show ?thesis by (simp add: m'_def)
  qed
  have L: "lists_inv p m' {(?n, ?w)} ((\<lambda>_. [])(cls ?w := [?n]))"
  proof (rule lists_inv_cong [OF A(1) u(3)])
    fix a assume "link_cell p (fst ` insert (?n, ?w) {}) a"
    then have "unat a = unat p + 952 \<or> unat a = unat p + 956 \<or> unat p + 20 \<le> unat a \<and> unat a < unat p + 940"
      using fn by (auto simp: link_cell_def)
    then show "m' a = m7 a" using f' by (intro m') linarith+
  qed
  have head: "m' (pool_self p) = p" "m' (pool_totalSize p) = sz" "m' (pool_nextPool p) = 0"
  proof -
    have lo: "m' a = m6 a" if "unat p \<le> unat a" "unat a < unat p + 12 \<or> unat a = unat p + 940" for a
    proof -
      have "m' a = m7 a" using that f' by (intro m') linarith+
      also have "m7 a = m6 a" using that by (intro m7) linarith+
      finally show ?thesis .
    qed
    have "m6 (pool_self p) = p" "m6 (pool_totalSize p) = sz"
      using up un by (auto simp: m6_def)
    then show "m' (pool_self p) = p" "m' (pool_totalSize p) = sz" using lo up by simp_all
    show "m' (pool_nextPool p) = 0" using lo [of "pool_nextPool p"] low [OF pc(6)] up by simp
  qed
  have hi: "m' a = m6 a" if "unat a = unat p + 944 \<or> unat a = unat p + 948" for a
  proof -
    have "m' a = m7 a" using that f' by (intro m') linarith+
    also have "m7 a = m6 a" using that by (intro m7) (auto simp: pool_cell_def)
    finally show ?thesis .
  qed
  have H1: "m' (node_prev ?n) = ?e" "m' (node_size ?n) = ?w"
    using hi un by simp_all (simp_all add: m6_def)
  have H2: "m' (node_prev ?e) = ?n" "m' (node_size ?e) = OS_MEM_NODE_USED_FLAG"
    "m' (pool_curUsedSize p) = 952" "m' (pool_waterLine p) = 952"
  proof -
    have "pool_curUsedSize p \<noteq> pool_waterLine p" by (simp add: pool_curUsedSize_def pool_waterLine_def)
    moreover have "node_prev ?e \<noteq> pool_curUsedSize p" "node_prev ?e \<noteq> pool_waterLine p"
      "node_size ?e \<noteq> pool_curUsedSize p" "node_size ?e \<noteq> pool_waterLine p"
      by (rule unat_neI, simp only: un up, use f' in linarith)+
    ultimately show "m' (node_prev ?e) = ?n" "m' (node_size ?e) = OS_MEM_NODE_USED_FLAG"
      "m' (pool_curUsedSize p) = 952" "m' (pool_waterLine p) = 952" by (simp_all add: m'_def)
  qed
  have nb: "\<not> bit ?w 31" by (rule plain_free [OF S(3)])
  have "rep p sz m' (first_node p sz) {(?n, ?w)}"
    unfolding rep_def using f head(1,2) S(1,3) H1 H2 L by auto
  then have "heap_ok p sz m' (first_node p sz)"
    using nb H2 by (simp add: heap_ok_def free_nodes_simps merged_def)
  moreover have "m' a = m a" if "unat a < unat p \<or> unat p + unat sz \<le> unat a" for a
  proof -
    from that have a: "unat a < unat p \<or> unat p + unat sz \<le> unat a" .
    have "m' a = m7 a" using a f' by (intro m') linarith+
    also have "m7 a = m6 a" using a f' by (intro m7) (auto simp: pool_cell_def)
    also have "m6 a = m a"
    proof -
      have "a \<noteq> pool_self p" "a \<noteq> pool_totalSize p" "a \<noteq> pool_attr p" "a \<noteq> node_size ?n" "a \<noteq> node_prev ?n"
        by (rule unat_neI, simp only: un up, use a f' in linarith)+
      moreover have "\<not> pool_cell p a" unfolding pool_cell_def using a f' by linarith
      ultimately show ?thesis by (simp add: m6_def deinit)
    qed
    finally show "m' a = m a" .
  qed
  ultimately show ?thesis using i head(3) H2(3) by blast
qed

end
