(* ===== verification/Los_HeapPools.thy ===== *)
theory Los_HeapPools
  imports Los_HeapInit
begin

text \<open>The list of pools: what happens in one pool does not touch another, and a new pool joins the list.\<close>

section \<open>Pools side by side\<close>

lemma heap_cong:
  assumes H: "heap_ok q tz m bs" and c: "\<And>a. unat q \<le> unat a \<Longrightarrow> unat a < unat q + unat tz \<Longrightarrow> m' a = m a"
  shows "heap_ok q tz m' bs"
proof -
  note R = heap_okD(1) [OF H] and D = repD [OF heap_okD(1) [OF H]]
  note u = unat_end [OF D(1)] and f = D(1) [unfolded pool_fits_def]
  have pc: "m' a = m a" if "pool_cell q a" for a
    using that f by (intro c) (auto simp: pool_cell_def)
  have nd: "m' (node_prev n) = m (node_prev n)" "m' (node_size n) = m (node_size n)" if "n \<in> nodes q tz bs" for n
  proof -
    have b: "unat q + 944 \<le> unat n" "unat n + 16 \<le> 2 ^ 32" using D(10) that unfolding spaced_def by blast+
    have "unat n \<le> unat (OS_MEM_END_NODE q tz)" using that rep_node(6) [OF R] by (force simp: nodes_def)
    then have "unat n + 8 \<le> unat q + unat tz" using u f by linarith
    then show "m' (node_prev n) = m (node_prev n)" "m' (node_size n) = m (node_size n)"
      using b by (intro c; simp add: unat_field)+
  qed
  have "hdrs m' (OS_MEM_END_NODE q tz) (bs @ [(OS_MEM_END_NODE q tz, OS_MEM_NODE_USED_FLAG)])
      = hdrs m (OS_MEM_END_NODE q tz) (bs @ [(OS_MEM_END_NODE q tz, OS_MEM_NODE_USED_FLAG)])"
    by (rule hdrs_cong) (use nd in \<open>auto simp: nodes_def\<close>)
  moreover from D(7) obtain fl where L: "lists_inv q m (free_nodes bs) fl" by blast
  have "lists_inv q m' (free_nodes bs) fl"
  proof (rule lists_inv_cong [OF L D(11)])
    fix a assume "link_cell q (fst ` free_nodes bs) a"
    then show "m' a = m a"
      unfolding link_cell_def
    proof (elim disjE)
      assume "\<exists>n\<in>fst ` free_nodes bs. a = free_prev n \<or> a = free_next n"
      then obtain n w where w: "(n, w) \<in> set bs" and a: "a = free_prev n \<or> a = free_next n" using D(5) by force
      note N = rep_node [OF R w]
      have b: "unat n + 16 \<le> 2 ^ 32" using D(10) rep_node(2) [OF R w] unfolding spaced_def by blast
      show ?thesis using a N(3,6,7) u f unat_field [OF b] by (intro c; elim disjE; simp)
    next
      assume "unat q + 20 \<le> unat a \<and> unat a < unat q + 940"
      then show ?thesis by (intro pc) (simp add: pool_cell_def)
    qed
  qed
  moreover have "m' (pool_self q) = q" "m' (pool_totalSize q) = tz"
    "m' (pool_curUsedSize q) = m (pool_curUsedSize q)" "m' (pool_waterLine q) = m (pool_waterLine q)"
    using pc pool_cells [OF D(11)] D(8,9) by simp_all
  moreover have "free_nodes bs \<subseteq> {(n, w). (n, w) \<in> set bs \<and> plain w}" using D(5,6) by auto
  ultimately have "rep q tz m' bs (free_nodes bs)" using D(1-4) unfolding rep_def by metis
  then show ?thesis
    using heap_okD [OF H] \<open>m' (pool_curUsedSize q) = m (pool_curUsedSize q)\<close>
      \<open>m' (pool_waterLine q) = m (pool_waterLine q)\<close> unfolding heap_ok_def by simp
qed

type_synonym pool = "u32 \<times> u32 \<times> (u32 \<times> u32) list"

definition apart :: "u32 \<Rightarrow> u32 \<Rightarrow> pool \<Rightarrow> bool" where
  "apart p sz x = (case x of (q, tz, _) \<Rightarrow> unat p + unat sz \<le> unat q \<or> unat q + unat tz \<le> unat p)"

fun pool_chain :: "hmem \<Rightarrow> u32 \<Rightarrow> u32 list \<Rightarrow> bool" where
  "pool_chain m a [] \<longleftrightarrow> a = 0"
| "pool_chain m a (p # ps) \<longleftrightarrow> a = p \<and> p \<noteq> 0 \<and> pool_chain m (m (pool_nextPool p)) ps"

fun all_apart :: "pool list \<Rightarrow> bool" where
  "all_apart [] \<longleftrightarrow> True"
| "all_apart ((p, sz, bs) # hs) \<longleftrightarrow> (\<forall>x\<in>set hs. apart p sz x) \<and> all_apart hs"

definition heaps_ok :: "heap_state \<Rightarrow> pool list \<Rightarrow> bool" where
  "heaps_ok h hs \<longleftrightarrow> pool_chain (hm h) (g_poolHead h) (map fst hs) \<and> all_apart hs
     \<and> (\<forall>p sz bs. (p, sz, bs) \<in> set hs \<longrightarrow> heap_ok p sz (hm h) bs)"

lemma apart_commute: "apart p sz (q, tz, bs) \<longleftrightarrow> apart q tz (p, sz, bs')"
  by (auto simp: apart_def)

lemma all_apart_append:
  "all_apart (us @ vs) \<longleftrightarrow> all_apart us \<and> all_apart vs \<and> (\<forall>(p, sz, bs)\<in>set us. \<forall>x\<in>set vs. apart p sz x)"
  by (induction us rule: all_apart.induct) auto

lemma heap_positive:
  assumes "heap_ok p sz m bs"
  shows "p \<noteq> 0" "0 < unat sz" "unat p + unat sz + 8 \<le> 2 ^ 32" "968 \<le> unat sz" "m (pool_totalSize p) = sz"
    "unat (pool_nextPool p) = unat p + 940"
proof -
  note D = repD [OF heap_okD(1) [OF assms]]
  show "p \<noteq> 0" "0 < unat sz" "unat p + unat sz + 8 \<le> 2 ^ 32" "968 \<le> unat sz"
    using D(1) by (auto simp: pool_fits_def)
  show "m (pool_totalSize p) = sz" by (rule D(9))
  show "unat (pool_nextPool p) = unat p + 940" by (rule unat_pool(6) [OF D(11)])
qed

text \<open>A change inside one pool that keeps its link and its invariant keeps all of them.\<close>

lemma pools_step:
  assumes H: "heaps_ok h (us @ (p, sz, bs) # vs)" and K: "heap_ok p sz m' bs'" and k: "keeps p sz S (hm h) m'"
  shows "heaps_ok (h\<lparr>hm := m'\<rparr>) (us @ (p, sz, bs') # vs)"
proof -
  have P: "heap_ok p sz (hm h) bs" using H by (simp add: heaps_ok_def)
  have ap: "apart p sz x" if "x \<in> set us \<union> set vs" for x
  proof -
    obtain q tz cs where "x = (q, tz, cs)" by (cases x)
    then show ?thesis using that H apart_commute [of p sz q tz cs bs]
      by (auto simp: heaps_ok_def all_apart_append)
  qed
  have same: "m' a = hm h a" if "x \<in> set us \<union> set vs" "x = (q, tz, cs)" "unat q \<le> unat a" "unat a < unat q + unat tz" for x q tz cs a
    using ap [OF that(1)] that(2-4) k by (auto simp: apart_def keeps_def)
  have ok: "heap_ok q tz m' cs" if "(q, tz, cs) \<in> set us \<union> set vs" for q tz cs
  proof (rule heap_cong)
    show "heap_ok q tz (hm h) cs" using that H by (auto simp: heaps_ok_def)
  qed (rule same [OF that refl])
  have lk: "m' (pool_nextPool q) = hm h (pool_nextPool q)" if "q \<in> fst ` set (us @ (p, sz, bs) # vs)" for q
  proof (cases "q = p")
    case True
    then show ?thesis using k by (simp add: keeps_def)
  next
    case False
    with that have "\<exists>tz cs. (q, tz, cs) \<in> set us \<union> set vs" by force
    then obtain tz cs where x: "(q, tz, cs) \<in> set us \<union> set vs" by blast
    have "heap_ok q tz (hm h) cs" using x H by (auto simp: heaps_ok_def)
    from heap_positive [OF this] show ?thesis by (intro same [OF x refl]) simp_all
  qed
  have "pool_chain m' a ps = pool_chain (hm h) a ps" if "set ps \<subseteq> fst ` set (us @ (p, sz, bs) # vs)" for a ps
    using that by (induction ps arbitrary: a) (simp_all add: lk)
  from this [of "map fst (us @ (p, sz, bs) # vs)" "g_poolHead h"]
  have "pool_chain m' (g_poolHead h) (map fst (us @ (p, sz, bs') # vs))"
    using H by (auto simp: heaps_ok_def)
  moreover have "all_apart (us @ (p, sz, bs') # vs)"
  proof -
    have "apart q tz (p, sz, bs') = apart q tz (p, sz, bs)" for q tz by (simp add: apart_def)
    then show ?thesis using H by (simp add: heaps_ok_def all_apart_append)
  qed
  ultimately show ?thesis using K ok by (auto simp: heaps_ok_def)
qed

lemma heap_next:
  assumes H: "heap_ok p sz m bs"
  shows "heap_ok p sz (m(pool_nextPool p := v)) bs"
proof -
  let ?m = "m(pool_nextPool p := v)"
  have "a = pool_nextPool p" if "?m a \<noteq> m a" for a using that by (auto split: if_splits)
  then have "rep p sz ?m bs (free_nodes bs)" using rep_info(1) [OF heap_okD(1) [OF H], of ?m] by blast
  moreover have "pool_curUsedSize p \<noteq> pool_nextPool p" "pool_waterLine p \<noteq> pool_nextPool p"
    by (simp_all add: pool_curUsedSize_def pool_waterLine_def pool_nextPool_def)
  ultimately show ?thesis using heap_okD(2-4) [OF H] by (simp add: heap_ok_def)
qed

lemma next_inj [simp]: "pool_nextPool p = pool_nextPool q \<longleftrightarrow> p = q"
  by (simp add: pool_nextPool_def)

lemma apart_distinct:
  assumes "all_apart hs" "\<And>p sz bs. (p, sz, bs) \<in> set hs \<Longrightarrow> heap_ok p sz m bs"
  shows "distinct (map fst hs)"
  using assms
proof (induction hs rule: all_apart.induct)
  case (2 p sz bs hs)
  have "p \<notin> fst ` set hs"
  proof
    assume "p \<in> fst ` set hs"
    then obtain tz cs where x: "(p, tz, cs) \<in> set hs" by force
    have "0 < unat sz" "0 < unat tz"
      using heap_positive(2) [OF 2(3) [of p sz bs]] heap_positive(2) [OF 2(3) [of p tz cs]] x by simp_all
    then show False using 2(2) x by (auto simp: apart_def)
  qed
  then show ?case using 2 by auto
qed simp

text \<open>Setting the link of one pool touches no other.\<close>

lemma pools_next:
  assumes A: "all_apart hs" and H: "\<And>p sz bs. (p, sz, bs) \<in> set hs \<Longrightarrow> heap_ok p sz m bs"
    and x: "x \<in> fst ` set hs" and q: "(q, tz, cs) \<in> set hs"
  shows "heap_ok q tz (m(pool_nextPool x := v)) cs"
proof (cases "x = q")
  case True
  then show ?thesis using heap_next [OF H [OF q]] by simp
next
  case False
  then obtain sz bs where y: "(x, sz, bs) \<in> set hs" using x by force
  have ap: "apart x sz (q, tz, cs) \<or> apart q tz (x, sz, bs)"
  proof -
    from y obtain us vs where hs: "hs = us @ (x, sz, bs) # vs" by (meson split_list)
    then show ?thesis using A q False by (fastforce simp: all_apart_append)
  qed
  show ?thesis
  proof (rule heap_cong [OF H [OF q]])
    fix a :: u32 assume a: "unat q \<le> unat a" "unat a < unat q + unat tz"
    have "a \<noteq> pool_nextPool x"
      by (rule unat_neI, simp only: heap_positive(6) [OF H [OF y]])
        (use a ap heap_positive(4) [OF H [OF y]] in \<open>auto simp: apart_def\<close>)
    then show "(m(pool_nextPool x := v)) a = m a" by simp
  qed
qed

section \<open>A new pool\<close>

lemma pool_no_conflict:
  assumes "pool_chain m a (map fst hs)" "\<And>q tz cs. (q, tz, cs) \<in> set hs \<Longrightarrow> m (pool_totalSize q) = tz
      \<and> q \<noteq> 0 \<and> unat q + unat tz < 2 ^ 32
      \<and> \<not> (unat p \<le> unat q \<and> unat q < unat p + unat sz
          \<or> unat p < unat q + unat tz \<and> unat q + unat tz \<le> unat p + unat sz)"
    and f: "unat p + unat sz < 2 ^ 32"
  shows "pool_conflict p sz m cur a = Some (Some (last_or cur (map fst hs)))"
  using assms(1,2)
proof (induction hs arbitrary: a cur)
  case Nil
  then show ?case by (simp add: pool_conflict.simps)
next
  case (Cons x hs)
  obtain q tz cs where x: "x = (q, tz, cs)" by (cases x)
  have q: "m (pool_totalSize q) = tz" "q \<noteq> 0" "unat q + unat tz < 2 ^ 32"
    "\<not> (unat p \<le> unat q \<and> unat q < unat p + unat sz
          \<or> unat p < unat q + unat tz \<and> unat q + unat tz \<le> unat p + unat sz)"
    using Cons.prems(2) [of q tz cs] x by auto
  have e: "unat (q + tz) = unat q + unat tz" "unat (p + sz) = unat p + unat sz"
    using q(3) f by (simp_all add: unat_add_lem [THEN iffD1])
  have "\<not> (p \<le> q \<and> p + sz > q \<or> p < q + tz \<and> p + sz \<ge> q + tz)"
    using q(4) by (simp add: word_le_nat_alt word_less_nat_alt e)
  moreover have "pool_conflict p sz m q (m (pool_nextPool q)) = Some (Some (last_or q (map fst hs)))"
    by (rule Cons.IH) (use Cons.prems x in auto)
  moreover have "a = q" using Cons.prems(1) x by simp
  ultimately show ?case
    using q x by (subst pool_conflict.simps) (simp add: LOS_MemPoolSizeGet_def Let_def)
qed

lemma MemInit_eq:
  assumes f: "pool_fits p sz" and i: "OsMemPoolInit p sz (hm h) = Some (LOS_OK, m)"
  shows "LOS_MemInit p sz h = (case OsMemPoolAdd p sz (h\<lparr>hm := m\<rparr>) of
                None \<Rightarrow> None
              | Some (ret, h1) \<Rightarrow>
                  if ret \<noteq> 0 then Some (LOS_NOK, h1\<lparr>hm := OsMemPoolDeinit p (hm h1)\<rparr>)
                  else Some (LOS_OK, h1))"
proof -
  have "p \<noteq> 0" "\<not> sz \<le> 952" "4 dvd unat p" "4 dvd unat sz"
    using f by (auto simp: pool_fits_def word_le_nat_alt)
  moreover from this(3,4) have "p AND 3 = 0" "sz AND 3 = 0"
    using aligned4 [of p] aligned4 [of sz] by (simp_all add: OS_MEM_IS_ALIGNED_def)
  ultimately show ?thesis
    using i by (simp add: LOS_MemInit_def OS_MEM_MIN_POOL_SIZE_def OS_MEM_NODE_HEAD_SIZE_def
        sizeof_OsMemPoolHead_def OS_MEM_ALIGN_SIZE_def LOS_OK_def cong: option.case_cong)
qed

lemma chain_snoc:
  assumes "pool_chain m a ps" "ps \<noteq> []" "distinct ps" "p \<notin> set ps" "p \<noteq> 0"
  shows "pool_chain (m(pool_nextPool (last ps) := p, pool_nextPool p := 0)) a (ps @ [p])"
  using assms
proof (induction ps arbitrary: a)
  case (Cons q ps)
  show ?case
  proof (cases ps)
    case Nil
    then show ?thesis using Cons by auto
  next
    case (Cons r rs)
    define M where "M = m(pool_nextPool (last ps) := p, pool_nextPool p := 0)"
    have "pool_chain M (m (pool_nextPool q)) (ps @ [p])"
      unfolding M_def by (rule Cons.IH) (use Cons.prems Cons in auto)
    moreover have l: "last ps \<noteq> q" "last (q # ps) = last ps" using Cons.prems(3) Cons by auto
    from l(1) have "M (pool_nextPool q) = m (pool_nextPool q)" using Cons.prems(4) by (auto simp: M_def)
    ultimately show ?thesis
      using Cons.prems(1) unfolding l(2) M_def [symmetric] append_Cons pool_chain.simps by simp
  qed
qed simp

lemma heaps_ok_entry: "heaps_ok h hs \<Longrightarrow> (q, tz, cs) \<in> set hs \<Longrightarrow> heap_ok q tz (hm h) cs"
  by (auto simp: heaps_ok_def)

lemma pool_chain_cong:
  assumes "\<And>q. q \<in> set ps \<Longrightarrow> m' (pool_nextPool q) = m (pool_nextPool q)"
  shows "pool_chain m' a ps = pool_chain m a ps"
  using assms by (induction ps arbitrary: a) simp_all

lemma MemInit:
  assumes H: "heaps_ok h hs" and f: "pool_fits p sz" and ap: "\<And>x. x \<in> set hs \<Longrightarrow> apart p sz x"
  shows "\<exists>h'. LOS_MemInit p sz h = Some (LOS_OK, h') \<and> heaps_ok h' (hs @ [(p, sz, first_node p sz)])
    \<and> (\<forall>a. (unat a < unat p \<or> unat p + unat sz \<le> unat a) \<and> a \<notin> pool_nextPool ` fst ` set hs \<longrightarrow> hm h' a = hm h a)"
proof -
  from PoolInit [OF f, of "hm h"] obtain m where I: "OsMemPoolInit p sz (hm h) = Some (LOS_OK, m)"
    "heap_ok p sz m (first_node p sz)" "\<And>a. unat a < unat p \<or> unat p + unat sz \<le> unat a \<Longrightarrow> m a = hm h a"
    "m (pool_nextPool p) = 0" by blast
  note f' = f [unfolded pool_fits_def]
  have same: "m a = hm h a" if "(q, tz, cs) \<in> set hs" "unat q \<le> unat a" "unat a < unat q + unat tz" for q tz cs a
    using ap [OF that(1)] that(2,3) I(3) [of a] by (auto simp: apart_def)
  have ok: "heap_ok q tz m cs" if "(q, tz, cs) \<in> set hs" for q tz cs
    by (rule heap_cong [OF heaps_ok_entry [OF H that]]) (rule same [OF that])
  let ?hs = "hs @ [(p, sz, first_node p sz)]"
  have A: "all_apart ?hs"
    using H ap by (auto simp: heaps_ok_def all_apart_append apart_def)
  have O: "heap_ok q tz m cs" if "(q, tz, cs) \<in> set ?hs" for q tz cs
    using that ok I(2) by auto
  have d: "distinct (map fst ?hs)" by (rule apart_distinct [OF A O])
  have "m (pool_nextPool q) = hm h (pool_nextPool q)" if "q \<in> set (map fst hs)" for q
  proof -
    from that obtain tz cs where x: "(q, tz, cs) \<in> set hs" by auto
    note heap_positive [OF heaps_ok_entry [OF H x]]
    then show ?thesis by (intro same [OF x]) simp_all
  qed
  then have C: "pool_chain m (g_poolHead h) (map fst hs)"
    using pool_chain_cong [of "map fst hs" m "hm h"] H by (simp add: heaps_ok_def)
  have "pool_conflict p sz m (g_poolHead h) (g_poolHead h) = Some (Some (last_or (g_poolHead h) (map fst hs)))"
  proof (rule pool_no_conflict [OF C])
    fix q tz cs assume x: "(q, tz, cs) \<in> set hs"
    show "m (pool_totalSize q) = tz \<and> q \<noteq> 0 \<and> unat q + unat tz < 2 ^ 32
      \<and> \<not> (unat p \<le> unat q \<and> unat q < unat p + unat sz
          \<or> unat p < unat q + unat tz \<and> unat q + unat tz \<le> unat p + unat sz)"
      using heap_positive [OF ok [OF x]] ap [OF x] by (auto simp: apart_def)
  qed (use f' in simp)
  then have add: "OsMemPoolAdd p sz (h\<lparr>hm := m\<rparr>) = Some (LOS_OK,
      (let h1 = (if hs = [] then h\<lparr>hm := m, g_poolHead := p\<rparr> else h\<lparr>hm := m(pool_nextPool (last (map fst hs)) := p)\<rparr>)
       in h1\<lparr>hm := (hm h1)(pool_nextPool p := 0)\<rparr>))"
    using C heap_positive(1) [OF ok] by (cases hs) (auto simp: OsMemPoolAdd_def Let_def last_or_def LOS_OK_def)
  show ?thesis
  proof (cases "hs = []")
    case True
    have "LOS_MemInit p sz h = Some (LOS_OK, h\<lparr>hm := m(pool_nextPool p := 0), g_poolHead := p\<rparr>)"
      using True add by (simp add: MemInit_eq [OF f I(1)] LOS_OK_def)
    moreover have "heap_ok p sz (m(pool_nextPool p := 0)) (first_node p sz)" by (rule heap_next [OF I(2)])
    moreover have "p \<noteq> 0" using f' by auto
    ultimately show ?thesis
      using True I(3) heap_positive(6) [OF I(2)] f' by (auto simp: heaps_ok_def)
  next
    case False
    let ?m = "m(pool_nextPool (last (map fst hs)) := p, pool_nextPool p := 0)"
    have e: "LOS_MemInit p sz h = Some (LOS_OK, h\<lparr>hm := ?m\<rparr>)"
      using False add by (simp add: MemInit_eq [OF f I(1)] LOS_OK_def)
    have l: "last (map fst hs) \<in> fst ` set hs" using False by (simp add: last_map)
    have O1: "heap_ok q tz (m(pool_nextPool (last (map fst hs)) := p)) cs" if "(q, tz, cs) \<in> set ?hs" for q tz cs
      by (rule pools_next [OF A O _ that]) (use l in auto)
    have O2: "heap_ok q tz ?m cs" if "(q, tz, cs) \<in> set ?hs" for q tz cs
      by (rule pools_next [OF A O1 _ that]) auto
    have "p \<noteq> 0" using f' by auto
    then have "pool_chain ?m (g_poolHead h) (map fst hs @ [p])"
      using d False by (intro chain_snoc [OF C]) auto
    then have "heaps_ok (h\<lparr>hm := ?m\<rparr>) ?hs" using A O2 by (simp add: heaps_ok_def)
    moreover have "?m a = hm h a" if "unat a < unat p \<or> unat p + unat sz \<le> unat a" "a \<notin> pool_nextPool ` fst ` set hs" for a
      using I(3) [OF that(1)] that l heap_positive(6) [OF I(2)] f' by auto
    ultimately show ?thesis using e by auto
  qed
qed

section \<open>Taking a pool out, and the list as a whole\<close>

lemma unlink_found:
  assumes "pool_chain m a (us @ p # vs)" "p \<notin> set us"
  shows "pool_unlink p cur a m = Some (LOS_OK, m(pool_nextPool (last_or cur us) := m (pool_nextPool p)))"
  using assms
proof (induction us arbitrary: a cur)
  case Nil
  then show ?case by (simp add: pool_unlink.simps fun_upd_def)
next
  case (Cons q us)
  then have "pool_unlink p q (m (pool_nextPool q)) m
      = Some (LOS_OK, m(pool_nextPool (last_or q us) := m (pool_nextPool p)))" by (simp add: fun_upd_def)
  then show ?case using Cons.prems by (subst pool_unlink.simps) (auto simp: fun_upd_def)
qed

lemma chain_remove:
  assumes "pool_chain m a (us @ p # vs)" "us \<noteq> []" "distinct (us @ p # vs)"
  shows "pool_chain (m(pool_nextPool (last us) := m (pool_nextPool p))) a (us @ vs)"
  using assms
proof (induction us arbitrary: a)
  case (Cons q us)
  show ?case
  proof (cases us)
    case Nil
    have "pool_chain (m(pool_nextPool q := v)) b vs = pool_chain m b vs" for b v
      by (rule pool_chain_cong) (use Cons.prems(3) in auto)
    then show ?thesis using Cons.prems Nil by (auto simp: fun_upd_def)
  next
    case (Cons r rs)
    define M where "M = m(pool_nextPool (last us) := m (pool_nextPool p))"
    have "pool_chain M (m (pool_nextPool q)) (us @ vs)"
      unfolding M_def by (rule Cons.IH) (use Cons.prems Cons in auto)
    moreover have l: "last us \<noteq> q" "last (q # us) = last us" using Cons.prems(3) Cons by auto
    from l(1) have "M (pool_nextPool q) = m (pool_nextPool q)" by (auto simp: M_def)
    ultimately show ?thesis
      using Cons.prems(1) unfolding l(2) M_def [symmetric] append_Cons pool_chain.simps by simp
  qed
qed simp

lemma chain_head: "pool_chain m a (p # ps) \<Longrightarrow> a = p"
  by simp

lemma MemDeInit:
  assumes H: "heaps_ok h (us @ (p, sz, bs) # vs)"
  shows "\<exists>h'. LOS_MemDeInit p h = Some (LOS_OK, h') \<and> heaps_ok h' (us @ vs)"
proof -
  let ?hs = "us @ (p, sz, bs) # vs"
  have A: "all_apart ?hs" "all_apart (us @ vs)" using H by (auto simp: heaps_ok_def all_apart_append)
  note O = heaps_ok_entry [OF H]
  have P: "heap_ok p sz (hm h) bs" by (rule O) simp
  note hp = heap_positive [OF P]
  have d: "distinct (map fst ?hs)" by (rule apart_distinct [OF A(1) O])
  have C: "pool_chain (hm h) (g_poolHead h) (map fst us @ p # map fst vs)" using H by (simp add: heaps_ok_def)
  have zero: "OsMemPoolDeinit p m a = (if pool_cell p a then 0 else m a)" for m a
    by (rule MemPoolDeinit) (use repD(1) [OF heap_okD(1) [OF P]] in simp)
  have away: "\<not> pool_cell p a" if "(q, tz, cs) \<in> set (us @ vs)" "unat q \<le> unat a" "unat a < unat q + unat tz" for q tz cs a
  proof -
    have "apart p sz (q, tz, cs)" using that(1) A(1) apart_commute [of p sz q tz cs bs] by (auto simp: all_apart_append)
    then show ?thesis using that(2,3) hp(4) by (auto simp: apart_def pool_cell_def)
  qed
  have K: "heaps_ok (h\<lparr>hm := OsMemPoolDeinit p m, g_poolHead := g\<rparr>) (us @ vs)"
    if c: "pool_chain m g (map fst (us @ vs))" and o: "\<And>q tz cs. (q, tz, cs) \<in> set (us @ vs) \<Longrightarrow> heap_ok q tz m cs" for m g
  proof -
    have "heap_ok q tz (OsMemPoolDeinit p m) cs" if x: "(q, tz, cs) \<in> set (us @ vs)" for q tz cs
      by (rule heap_cong [OF o [OF x]]) (use away [OF x] in \<open>simp add: zero\<close>)
    moreover have "pool_chain (OsMemPoolDeinit p m) g (map fst (us @ vs)) = pool_chain m g (map fst (us @ vs))"
    proof (rule pool_chain_cong)
      fix q assume "q \<in> set (map fst (us @ vs))"
      then obtain tz cs where x: "(q, tz, cs) \<in> set (us @ vs)" by force
      note heap_positive [OF o [OF x]]
      then show "OsMemPoolDeinit p m (pool_nextPool q) = m (pool_nextPool q)"
        using away [OF x, of "pool_nextPool q"] by (simp add: zero)
    qed
    ultimately show ?thesis using c A(2) by (simp add: heaps_ok_def)
  qed
  show ?thesis
  proof (cases "us = []")
    case True
    then have g: "g_poolHead h = p" "pool_chain (hm h) (hm h (pool_nextPool p)) (map fst vs)" using C by simp_all
    then have "LOS_MemDeInit p h = Some (LOS_OK, h\<lparr>hm := OsMemPoolDeinit p (hm h), g_poolHead := hm h (pool_nextPool p)\<rparr>)"
      using hp(1) by (simp add: LOS_MemDeInit_def OsMemPoolDelete_def LOS_OK_def)
    moreover have "heaps_ok (h\<lparr>hm := OsMemPoolDeinit p (hm h), g_poolHead := hm h (pool_nextPool p)\<rparr>) (us @ vs)"
      by (rule K) (use g True O in auto)
    ultimately show ?thesis by blast
  next
    case False
    have np: "p \<notin> set (map fst us)" using d by auto
    have g: "p \<noteq> g_poolHead h" using C False np by (cases us) auto
    let ?m = "(hm h)(pool_nextPool (last (map fst us)) := hm h (pool_nextPool p))"
    have "LOS_MemDeInit p h = Some (LOS_OK, h\<lparr>hm := OsMemPoolDeinit p ?m, g_poolHead := g_poolHead h\<rparr>)"
      using hp(1) g unlink_found [OF C np, of "g_poolHead h"] False
      by (simp add: LOS_MemDeInit_def OsMemPoolDelete_def LOS_OK_def last_or_def)
    moreover have "heaps_ok (h\<lparr>hm := OsMemPoolDeinit p ?m, g_poolHead := g_poolHead h\<rparr>) (us @ vs)"
    proof (rule K)
      show "pool_chain ?m (g_poolHead h) (map fst (us @ vs))"
        using chain_remove [OF C] False d by simp
      show "heap_ok q tz ?m cs" if "(q, tz, cs) \<in> set (us @ vs)" for q tz cs
        by (rule pools_next [OF A(1) O]) (use that False in \<open>auto simp: last_map\<close>)
    qed
    ultimately show ?thesis by blast
  qed
qed

lemma count_pools:
  assumes "pool_chain m a (map fst hs)" "\<And>q tz cs. (q, tz, cs) \<in> set hs \<Longrightarrow> heap_ok q tz m cs"
  shows "count_pools m a i = Some (i + of_nat (length hs))"
  using assms
proof (induction hs arbitrary: a i)
  case Nil
  then show ?case by (simp add: count_pools.simps)
next
  case (Cons x hs)
  obtain q tz cs where x: "x = (q, tz, cs)" by (cases x)
  have "OsMemInfoPrint q m = Some ()" by (rule InfoPrint_ok, rule Cons.prems(2) [of q tz cs]) (simp add: x)
  moreover have "count_pools m (m (pool_nextPool q)) (i + 1) = Some (i + 1 + of_nat (length hs))"
    by (rule Cons.IH) (use Cons.prems x in auto)
  ultimately show ?case using Cons.prems(1) x by (subst count_pools.simps) (simp add: algebra_simps)
qed

lemma MemPoolList:
  "heaps_ok h hs \<Longrightarrow> LOS_MemPoolList h = Some (of_nat (length hs))"
  using count_pools [of "hm h" "g_poolHead h" hs 0] by (simp add: LOS_MemPoolList_def heaps_ok_def)

end
