(* ===== verification/Los_HeapRealloc.thy ===== *)
theory Los_HeapRealloc
  imports Los_HeapCalls
begin

text \<open>Resizing: in place downwards, into a free neighbour, or by moving the data.\<close>

section \<open>Opening and closing a node\<close>

lemma open_node:
  assumes H: "heap_ok p sz m (us @ (n, w) # vs)" and b: "bit w 31"
  shows "rep p sz (m(node_size n := SZ w)) (us @ (n, SZ w) # vs) (free_nodes (us @ vs))"
    "keeps p sz (set (us @ (n, w) # vs)) m (m(node_size n := SZ w))"
    "info p (m(node_size n := SZ w)) = info p m"
proof -
  note R = heap_okD(1) [OF H]
  have F: "free_nodes (us @ (n, w) # vs) = free_nodes (us @ vs)" using b by (auto simp: free_nodes_def)
  have nF: "(n, w) \<notin> free_nodes (us @ vs)" using b by (simp add: free_nodes_def)
  have "SZ (SZ w) = SZ w" by simp
  note S = rep_flags [OF R [unfolded F] nF this]
  show "rep p sz (m(node_size n := SZ w)) (us @ (n, SZ w) # vs) (free_nodes (us @ vs))" by (rule S)
  show "keeps p sz (set (us @ (n, w) # vs)) m (m(node_size n := SZ w))" by (rule S)
  show "info p (m(node_size n := SZ w)) = info p m" by (rule S)
qed

lemma close_node:
  assumes R: "rep p sz m (us @ (a, v) # vs) F" and v: "plain v" "(a, v) \<notin> F"
    and F: "F = free_nodes (us @ vs)" and M: "merged (us @ (a, OS_MEM_NODE_SET_USED_FLAG v) # vs)"
    and u: "m (pool_curUsedSize p) = 952 + used_bytes (us @ vs) + v" "m (pool_curUsedSize p) \<le> m (pool_waterLine p)"
  shows "heap_ok p sz (m(node_size a := OS_MEM_NODE_SET_USED_FLAG v)) (us @ (a, OS_MEM_NODE_SET_USED_FLAG v) # vs)"
    "keeps p sz (set (us @ (a, v) # vs)) m (m(node_size a := OS_MEM_NODE_SET_USED_FLAG v))"
proof -
  let ?w = "OS_MEM_NODE_SET_USED_FLAG v"
  note S = rep_flags [OF R v(2), of ?w, OF SET_USED_bits(2)]
  have "free_nodes (us @ (a, ?w) # vs) = F" by (simp add: F free_nodes_simps SET_USED_bits)
  moreover have "used_bytes (us @ (a, ?w) # vs) = used_bytes (us @ vs) + v"
    using v(1) by (simp add: SET_USED_bits)
  ultimately show "heap_ok p sz (m(node_size a := ?w)) (us @ (a, ?w) # vs)"
    using S(1) M u info_cong(1,2) [OF S(3)] unfolding heap_ok_def by (simp add: add.assoc)
  show "keeps p sz (set (us @ (a, v) # vs)) m (m(node_size a := ?w))" by (rule S(2))
qed

lemma keeps_prefix:
  assumes "keeps p sz S m m'" "(n, w) \<in> S" "unat (SZ v) \<le> unat (SZ w)"
  shows "keeps p sz (insert (n, v) S) m m'"
proof -
  have "m' a = m a" if "(k, y) \<in> insert (n, v) S" "data_cell k y a" for k y a
  proof (cases "(k, y) = (n, v)")
    case True
    then have "data_cell n w a" using that(2) assms(3) by (simp add: data_cell_def)
    then show ?thesis using assms(1,2) by (simp add: keeps_def)
  next
    case False
    then have "(k, y) \<in> S" using that(1) by auto
    then show ?thesis using that(2) assms(1) by (simp add: keeps_def)
  qed
  then show ?thesis using assms(1) by (simp add: keeps_def)
qed

text \<open>The state after a split of an open node whose neighbour may be free.\<close>

lemma split_open:
  assumes R: "rep p sz m (us @ (a, w) # vs) (free_nodes (us @ vs))" and w: "plain w"
    and s: "16 \<le> unat s" "4 dvd unat s" "unat s + 16 \<le> unat w" and M: "merged us" "merged vs"
  shows "\<exists>m' vs'. OsMemSplitNode p a s m = Some m' \<and> rep p sz m' (us @ (a, s) # vs') (free_nodes (us @ vs'))
    \<and> keeps p sz (insert (a, s) (used_nodes (us @ vs))) m m' \<and> info p m' = info p m \<and> plain s
    \<and> used_nodes vs' = used_nodes vs \<and> used_bytes vs' = used_bytes vs \<and> merged vs'"
proof -
  have nF: "(a, y) \<notin> free_nodes (us @ vs)" for y
    using rep_distinct [OF R] by (auto simp: free_nodes_def image_iff)
  show ?thesis
  proof (cases "vs = [] \<or> bit (snd (hd vs)) 31")
    case True
    have nx: "bit (snd (hd (vs @ [(OS_MEM_END_NODE p sz, OS_MEM_NODE_USED_FLAG)]))) 31"
      using True end_not_plain(1) by (cases vs) auto
    from MemSplitNode_used [OF R w nF s nx] obtain m' where S: "OsMemSplitNode p a s m = Some m'"
      "rep p sz m' (us @ (a, s) # (a + s, w - s) # vs) (insert (a + s, w - s) (free_nodes (us @ vs)))"
      "keeps p sz (set (us @ (a, s) # vs) - free_nodes (us @ vs)) m m'" "info p m' = info p m" "plain s" by blast
    have "plain (w - s)" by (rule repD(6) [OF S(2)]) (rule insertI1)
    then have nb: "\<not> bit (w - s) 31" by (rule plain_free)
    have "insert (a + s, w - s) (free_nodes (us @ vs)) = free_nodes (us @ (a + s, w - s) # vs)"
      using nb by (simp add: free_nodes_simps)
    moreover have "keeps p sz (insert (a, s) (used_nodes (us @ vs))) m m'"
      by (rule keeps_mono [OF S(3)]) (use nF in \<open>auto simp: used_nodes_def free_nodes_def\<close>)
    moreover have "merged ((a + s, w - s) # vs)" using M(2) True by (auto simp: merged_Cons)
    ultimately show ?thesis
      using S nb by (intro exI [of _ m'] exI [of _ "(a + s, w - s) # vs"]) (simp add: used_nodes_simps)
  next
    case False
    then obtain x wx vs1 where vs: "vs = (x, wx) # vs1" and nx: "\<not> bit wx 31" by (cases vs) auto
    have xF: "(x, wx) \<in> free_nodes (us @ vs)" using nx by (simp add: vs free_nodes_def)
    from MemSplitNode_free [OF R [unfolded vs] w nF [unfolded vs] s xF [unfolded vs]] obtain m' where S:
      "OsMemSplitNode p a s m = Some m'"
      "rep p sz m' (us @ (a, s) # (a + s, w - s + wx) # vs1)
        (insert (a + s, w - s + wx) (free_nodes (us @ (x, wx) # vs1) - {(x, wx)}))"
      "keeps p sz (set (us @ (a, s) # vs1) - free_nodes (us @ (x, wx) # vs1)) m m'"
      "info p m' = info p m" "plain s" "plain (w - s + wx)" by blast
    have nb: "\<not> bit (w - s + wx) 31" by (rule plain_free [OF S(6)])
    have "free_nodes (us @ (x, wx) # vs1) - {(x, wx)} = free_nodes (us @ vs1)"
      using rep_distinct [OF R] nx by (auto simp: vs free_nodes_def image_iff)
    then have "insert (a + s, w - s + wx) (free_nodes (us @ (x, wx) # vs1) - {(x, wx)})
        = free_nodes (us @ (a + s, w - s + wx) # vs1)"
      using nb by (simp add: free_nodes_simps)
    moreover have "keeps p sz (insert (a, s) (used_nodes (us @ vs))) m m'"
      by (rule keeps_mono [OF S(3)]) (use nF nx in \<open>auto simp: vs used_nodes_def free_nodes_def\<close>)
    moreover have "merged ((a + s, w - s + wx) # vs1)" using M(2) nx by (auto simp: vs merged_Cons)
    ultimately show ?thesis
      using S nb nx by (intro exI [of _ m'] exI [of _ "(a + s, w - s + wx) # vs1"]) (simp add: vs used_nodes_simps)
  qed
qed

section \<open>In place\<close>

lemma merged_used:
  assumes "merged (us @ (n, w) # vs)"
  shows "merged us" "merged vs"
  using assms by (auto simp: merged_append merged_Cons)

lemma merged_around:
  assumes "merged us" "merged vs" "bit w 31"
  shows "merged (us @ (n, w) # vs)"
  using assms by (auto simp: merged_append merged_Cons)

text \<open>What a resize in place promises: the node keeps its address and its data up to the smaller size.\<close>

definition resized :: "u32 \<Rightarrow> u32 \<Rightarrow> hmem \<Rightarrow> hmem \<Rightarrow> (u32 \<times> u32) list \<Rightarrow> u32 \<Rightarrow> u32 \<Rightarrow> u32 \<Rightarrow> bool" where
  "resized p sz m m' bs n w s \<longleftrightarrow> (\<exists>w' bs'. heap_ok p sz m' bs' \<and> bit w' 31 \<and> \<not> bit w' 30
     \<and> unat s \<le> unat (SZ w') \<and> used_nodes bs' = insert (n, w') (used_nodes bs - {(n, w)})
     \<and> keeps p sz (insert (n, if unat s < unat (SZ w) then s else SZ w) (used_nodes bs - {(n, w)})) m m')"

lemma used_minus:
  assumes "distinct (map fst (us @ (n, w) # vs))" "bit w 31"
  shows "used_nodes (us @ (n, w) # vs) - {(n, w)} = used_nodes (us @ vs)"
  using assms by (auto simp: used_nodes_def image_iff)

lemma ReAllocSmaller:
  assumes H: "heap_ok p sz m (us @ (n, w) # vs)" and b: "bit w 31"
    and s: "16 \<le> unat s" "4 dvd unat s" "unat s \<le> unat (SZ w)"
  shows "\<exists>m'. OsMemReAllocSmaller p s n (SZ w) m = Some m' \<and> resized p sz m m' (us @ (n, w) # vs) n w s"
proof -
  let ?m1 = "m(node_size n := SZ w)"
  note O = open_node [OF H b] and mg = merged_used [OF heap_okD(2) [OF H]] and C = cur_bound [OF H b]
  note ds = rep_distinct [OF heap_okD(1) [OF H]]
  have nF: "(n, y) \<notin> free_nodes (us @ vs)" for y
    using ds by (auto simp: free_nodes_def image_iff)
  have un: "used_nodes (us @ (n, w) # vs) - {(n, w)} = used_nodes (us @ vs)" by (rule used_minus [OF ds b])
  have k1: "keeps p sz (insert (n, SZ w) (used_nodes (us @ vs))) m ?m1"
  proof -
    have "keeps p sz (insert (n, SZ w) (set (us @ (n, w) # vs))) m ?m1"
      by (rule keeps_prefix [OF O(2), of n w]) simp_all
    then show ?thesis by (rule keeps_mono) (auto simp: used_nodes_def)
  qed
  have un1: "used_nodes (us @ (n, OS_MEM_NODE_SET_USED_FLAG v) # vs')
      = insert (n, OS_MEM_NODE_SET_USED_FLAG v) (used_nodes (us @ vs))" if "used_nodes vs' = used_nodes vs" for v vs'
    using that SET_USED_bits by (auto simp: used_nodes_simps)
  have cw: "952 + used_bytes (us @ vs) + SZ w = m (pool_curUsedSize p)" using C(3) by (metis diff_add_cancel)
  have leq: "s + OS_MEM_MIN_LEFT_SIZE \<le> SZ w \<longleftrightarrow> unat s + 16 \<le> unat (SZ w)"
  proof -
    have "unat (s + OS_MEM_MIN_LEFT_SIZE) = unat s + 16"
      using s(3) unat_SZ_less [of w] by (simp add: OS_MEM_MIN_LEFT_SIZE_def unat_add_lem [THEN iffD1])
    then show ?thesis by (simp add: word_le_nat_alt)
  qed
  show ?thesis
  proof (cases "unat s + 16 \<le> unat (SZ w)")
    case False
    define M where "M = ?m1(node_size n := OS_MEM_NODE_SET_USED_FLAG (SZ w))"
    have e: "OsMemReAllocSmaller p s n (SZ w) m = Some M"
      using False leq by (simp add: OsMemReAllocSmaller_def Let_def M_def)
    have "?m1 (pool_curUsedSize p) = 952 + used_bytes (us @ vs) + SZ w" "?m1 (pool_curUsedSize p) \<le> ?m1 (pool_waterLine p)"
      using info_cong(1,2) [OF O(3)] cw heap_okD(4) [OF H] by simp_all
    note Z = close_node [OF O(1) plain_SZ_SZ nF refl merged_around [OF mg SET_USED_bits(1)] this, folded M_def]
    have k: "keeps p sz (insert (n, SZ w) (used_nodes (us @ vs))) m M"
      by (rule keeps_step [OF k1 Z(2)]) (auto simp: used_nodes_def)
    let ?v = "if unat s < unat (SZ w) then s else SZ w"
    have "plain s" using s(3) unat_SZ_less [of w] by (simp add: plain_def)
    then have "unat (SZ ?v) \<le> unat (SZ (SZ w))" using s(3) by simp
    from keeps_prefix [OF k _ this] have "keeps p sz (insert (n, ?v) (used_nodes (us @ vs))) m M"
      by (rule keeps_mono) auto
    moreover have "\<not> bit (OS_MEM_NODE_SET_USED_FLAG (SZ w)) 30"
      using SET_USED_bits(3) plain_not_bit [OF plain_SZ_SZ, of 30 w] by simp
    ultimately have "resized p sz m M (us @ (n, w) # vs) n w s"
      unfolding resized_def un using Z(1) un1 [OF refl, of "SZ w"] SET_USED_bits(1,2) s(3)
      by (intro exI [of _ "OS_MEM_NODE_SET_USED_FLAG (SZ w)"]
          exI [of _ "us @ (n, OS_MEM_NODE_SET_USED_FLAG (SZ w)) # vs"] conjI) simp_all
    then show ?thesis using e by blast
  next
    case True
    from split_open [OF O(1) plain_SZ_SZ s(1,2) True mg] obtain m2 vs' where S:
      "OsMemSplitNode p n s ?m1 = Some m2" "rep p sz m2 (us @ (n, s) # vs') (free_nodes (us @ vs'))"
      "keeps p sz (insert (n, s) (used_nodes (us @ vs))) ?m1 m2" "info p m2 = info p ?m1" "plain s"
      "used_nodes vs' = used_nodes vs" "used_bytes vs' = used_bytes vs" "merged vs'" by blast
    let ?m3 = "m2(pool_curUsedSize p := m2 (pool_curUsedSize p) - (SZ w - s))"
    let ?m4 = "?m3(node_size n := OS_MEM_NODE_SET_USED_FLAG s)"
    note D = repD [OF S(2)]
    have ne: "node_size n \<noteq> pool_curUsedSize p"
      by (rule node_not_pool(2) [OF D(10) _ pool_cells(5) [OF D(11)]]) (simp add: nodes_def)
    have "m2 (node_size n) = s" by (rule rep_node(1) [OF S(2)]) simp
    then have e: "OsMemReAllocSmaller p s n (SZ w) m = Some ?m4"
      using True leq S(1) ne by (simp add: OsMemReAllocSmaller_def Let_def)
    have c3: "?m3 a \<noteq> m2 a \<Longrightarrow> a = pool_curUsedSize p" for a by (auto split: if_splits)
    have np: "?m3 (pool_nextPool p) = m2 (pool_nextPool p)" by (simp add: pool_curUsedSize_def pool_nextPool_def)
    have R3: "rep p sz ?m3 (us @ (n, s) # vs') (free_nodes (us @ vs'))" "keeps p sz (set (us @ (n, s) # vs')) m2 ?m3"
      using rep_info [OF S(2), of ?m3] c3 np by blast+
    have nF': "(n, s) \<notin> free_nodes (us @ vs')"
      using rep_distinct [OF S(2)] by (auto simp: free_nodes_def image_iff)
    have m2c: "m2 (pool_curUsedSize p) = m (pool_curUsedSize p)" "m2 (pool_waterLine p) = m (pool_waterLine p)"
      using info_cong(1,2) [OF S(4)] info_cong(1,2) [OF O(3)] by simp_all
    have sw: "s \<le> SZ w" using s(3) by (simp add: word_le_nat_alt)
    have "m (pool_curUsedSize p) - (SZ w - s) = 952 + used_bytes (us @ vs) + s"
      unfolding cw [symmetric] by (simp add: algebra_simps)
    then have u3: "?m3 (pool_curUsedSize p) = 952 + used_bytes (us @ vs') + s" using m2c S(7) by simp
    have "SZ w - s \<le> m (pool_curUsedSize p)"
      using word_sub_le [OF sw] C(2) by (rule order_trans)
    then have "m (pool_curUsedSize p) - (SZ w - s) \<le> m (pool_curUsedSize p)" by (rule word_sub_le)
    then have w3: "?m3 (pool_curUsedSize p) \<le> ?m3 (pool_waterLine p)"
      using m2c heap_okD(4) [OF H] by (simp add: pool_curUsedSize_def pool_waterLine_def)
    note Z = close_node [OF R3(1) S(5) nF' refl merged_around [OF mg(1) S(8) SET_USED_bits(1)] u3 w3]
    have "unat (SZ s) \<le> unat (SZ (SZ w))" using s(3) S(5) by simp
    from keeps_prefix [OF k1 _ this] have "keeps p sz (insert (n, s) (used_nodes (us @ vs))) m ?m1"
      by (rule keeps_mono) auto
    from keeps_step [OF this S(3) subset_refl subset_refl]
    have k2: "keeps p sz (insert (n, s) (used_nodes (us @ vs))) m m2" .
    have sub: "insert (n, s) (used_nodes (us @ vs)) \<subseteq> set (us @ (n, s) # vs')"
      using S(6) by (auto simp: used_nodes_simps) (auto simp: used_nodes_def)
    have "keeps p sz (insert (n, s) (used_nodes (us @ vs))) m ?m3" by (rule keeps_step [OF k2 R3(2) subset_refl sub])
    then have k4: "keeps p sz (insert (n, s) (used_nodes (us @ vs))) m ?m4" by (rule keeps_step [OF _ Z(2) subset_refl sub])
    define M where "M = ?m4"
    have "resized p sz m M (us @ (n, w) # vs) n w s"
      unfolding resized_def un
    proof (intro exI conjI)
      show "heap_ok p sz M (us @ (n, OS_MEM_NODE_SET_USED_FLAG s) # vs')" unfolding M_def by (rule Z(1))
      show "keeps p sz (insert (n, if unat s < unat (SZ w) then s else SZ w) (used_nodes (us @ vs))) m M"
        using k4 True unfolding M_def by simp
    qed (use un1 [OF S(6), of s] SET_USED_bits [of s] S(5) plain_not_bit [OF S(5), of 30] in auto)
    then show ?thesis using e unfolding M_def by blast
  qed
qed

lemma ReAllocBigger:
  assumes H: "heap_ok p sz m (us @ (n, w) # (x, wx) # vs)" and b: "bit w 31" "\<not> bit wx 31"
    and s: "16 \<le> unat s" "4 dvd unat s" "unat (SZ w) < unat s" "unat s \<le> unat wx + unat (SZ w)"
  shows "\<exists>m'. OsMemMergeNodeForReAllocBigger p s n (SZ w) x m = Some m'
    \<and> resized p sz m m' (us @ (n, w) # (x, wx) # vs) n w s"
proof -
  let ?bs = "us @ (n, w) # (x, wx) # vs" and ?m1 = "m(node_size n := SZ w)" and ?v = "SZ w + wx"
  note O = open_node [OF H b(1)] and C = cur_bound [OF H b(1)]
  note ds = rep_distinct [OF heap_okD(1) [OF H]]
  have mg: "merged us" "merged vs" "vs = [] \<or> bit (snd (hd vs)) 31"
    using heap_okD(2) [OF H] b(2) by (auto simp: merged_append merged_Cons)
  have un: "used_nodes ?bs - {(n, w)} = used_nodes (us @ vs)"
    using used_minus [OF ds b(1)] b(2) by (simp add: used_nodes_simps)
  have xF: "(x, wx) \<in> free_nodes (us @ (x, wx) # vs)" using b(2) by (simp add: free_nodes_def)
  have px: "plain wx" by (rule repD(6) [OF O(1) xF])
  note Dl = rep_delete [OF O(1) xF]
  have F1: "free_nodes (us @ (x, wx) # vs) - {(x, wx)} = free_nodes (us @ vs)"
    using ds b(2) by (auto simp: free_nodes_def image_iff)
  have nF: "(n, y) \<notin> free_nodes (us @ vs)" "(x, y) \<notin> free_nodes (us @ vs)" for y
    using ds by (auto simp: free_nodes_def image_iff)
  note M = rep_merge [OF Dl(1) [unfolded F1] plain_SZ_SZ px nF]
  define m2 where "m2 = OsMemMergeNode x (OsMemFreeNodeDelete p x ?m1)"
  note M = M [folded m2_def]
  have mn2: "m2 (node_size n) = ?v" by (rule rep_node(1) [OF M(1)]) simp
  have i2: "info p m2 = info p m" using M(3) Dl(3) O(3) by simp
  have cw: "952 + used_bytes (us @ vs) + SZ w = m (pool_curUsedSize p)"
  proof -
    have "used_bytes (us @ (x, wx) # vs) = used_bytes (us @ vs)" using b(2) by simp
    then show ?thesis using C(3) by (simp only: diff_eq_eq)
  qed
  have sub1: "insert (n, SZ w) (used_nodes (us @ vs)) \<subseteq> set (us @ (n, SZ w) # (x, wx) # vs)"
    by (auto simp: used_nodes_def)
  have k2: "keeps p sz (insert (n, SZ w) (used_nodes (us @ vs))) m m2"
  proof -
    have "keeps p sz (insert (n, SZ w) (set ?bs)) m ?m1" by (rule keeps_prefix [OF O(2), of n w]) simp_all
    then have k1: "keeps p sz (insert (n, SZ w) (used_nodes (us @ vs))) m ?m1"
      by (rule keeps_mono) (auto simp: used_nodes_def)
    have "keeps p sz (insert (n, SZ w) (used_nodes (us @ vs))) m (OsMemFreeNodeDelete p x ?m1)"
      by (rule keeps_step [OF k1 Dl(2) subset_refl])
        (use ds b(2) in \<open>auto simp: used_nodes_def free_nodes_def image_iff\<close>)
    from keeps_step [OF this M(2) subset_refl sub1] show ?thesis .
  qed
  have "unat s + 16 < 2 ^ 32" using s(4) px unat_SZ_less [of w] by (simp add: plain_def)
  then have leq: "s + OS_MEM_MIN_LEFT_SIZE \<le> ?v \<longleftrightarrow> unat s + 16 \<le> unat ?v"
    by (simp add: OS_MEM_MIN_LEFT_SIZE_def unat_add_lem [THEN iffD1] word_le_nat_alt)
  have Z: "heap_ok p sz (OsMemWaterUsedRecord p (v - SZ w) (m3(node_size n := OS_MEM_NODE_SET_USED_FLAG v)))
        (us @ (n, OS_MEM_NODE_SET_USED_FLAG v) # vs')
      \<and> keeps p sz (insert (n, SZ w) (used_nodes (us @ vs))) m
          (OsMemWaterUsedRecord p (v - SZ w) (m3(node_size n := OS_MEM_NODE_SET_USED_FLAG v)))"
    if R3: "rep p sz m3 (us @ (n, v) # vs') (free_nodes (us @ vs'))" and v: "plain v" "unat (SZ w) \<le> unat v"
      and vs': "used_nodes vs' = used_nodes vs" "used_bytes vs' = used_bytes vs" "merged vs'"
      and k3: "keeps p sz (insert (n, v) (used_nodes (us @ vs))) m2 m3" and i3: "info p m3 = info p m" for m3 v vs'
  proof -
    let ?w = "OS_MEM_NODE_SET_USED_FLAG v"
    have nF': "(n, v) \<notin> free_nodes (us @ vs')"
      using rep_distinct [OF R3] by (auto simp: free_nodes_def image_iff)
    note S = rep_flags [OF R3 nF', of ?w, OF SET_USED_bits(2)]
    note W = WaterUsedRecord [OF S(1), of "v - SZ w"]
    define M3 where "M3 = OsMemWaterUsedRecord p (v - SZ w) (m3(node_size n := ?w))"
    note W = W [folded M3_def]
    have "free_nodes (us @ (n, ?w) # vs') = free_nodes (us @ vs')" by (simp add: free_nodes_simps SET_USED_bits)
    moreover have "used_bytes (us @ (n, ?w) # vs') = used_bytes (us @ vs) + v"
      using v(1) vs'(2) by (simp add: SET_USED_bits)
    moreover have "M3 (pool_curUsedSize p) = 952 + (used_bytes (us @ vs) + v)"
      using W(3) info_cong(1) [OF S(3)] info_cong(1) [OF i3] cw [symmetric] by (simp add: algebra_simps)
    ultimately have h: "heap_ok p sz M3 (us @ (n, ?w) # vs')"
      using W(1,4) merged_around [OF mg(1) vs'(3) SET_USED_bits(1)] unfolding heap_ok_def by simp
    have sub: "insert (n, v) (used_nodes (us @ vs)) \<subseteq> set (us @ (n, v) # vs')"
      "used_nodes (us @ vs) \<subseteq> set (us @ (n, ?w) # vs')"
      using vs'(1) by (auto simp: used_nodes_simps) (auto simp: used_nodes_def)
    have k5: "keeps p sz (insert (n, v) (used_nodes (us @ vs))) m2 (m3(node_size n := ?w))"
      by (rule keeps_step [OF k3 S(2) subset_refl sub(1)])
    have "unat (SZ (SZ w)) \<le> unat (SZ v)" using v by simp
    from keeps_prefix [OF k5 insertI1 this]
    have "keeps p sz (insert (n, SZ w) (insert (n, v) (used_nodes (us @ vs)))) m2 (m3(node_size n := ?w))" .
    then have k4: "keeps p sz (insert (n, SZ w) (used_nodes (us @ vs))) m (m3(node_size n := ?w))"
      by (rule keeps_step [OF k2]) auto
    have "keeps p sz (insert (n, ?w) (used_nodes (us @ vs))) (m3(node_size n := ?w)) M3"
      by (rule keeps_mono [OF W(2)]) (use sub(2) in auto)
    then have "keeps p sz (insert (n, SZ w) (insert (n, ?w) (used_nodes (us @ vs)))) (m3(node_size n := ?w)) M3"
      by (rule keeps_prefix) (use v in \<open>auto simp: SET_USED_bits\<close>)
    then have "keeps p sz (insert (n, SZ w) (used_nodes (us @ vs))) m M3" by (rule keeps_step [OF k4]) auto
    with h show ?thesis unfolding M3_def by blast
  qed
  have fin: "resized p sz m M3 ?bs n w s"
    if "heap_ok p sz M3 (us @ (n, OS_MEM_NODE_SET_USED_FLAG v) # vs')" "plain v" "unat s \<le> unat v"
      "used_nodes vs' = used_nodes vs" "keeps p sz (insert (n, SZ w) (used_nodes (us @ vs))) m M3" for M3 v vs'
    unfolding resized_def un
  proof (intro exI conjI)
    show "heap_ok p sz M3 (us @ (n, OS_MEM_NODE_SET_USED_FLAG v) # vs')" by (rule that(1))
    show "keeps p sz (insert (n, if unat s < unat (SZ w) then s else SZ w) (used_nodes (us @ vs))) m M3"
      using that(5) s(3) by simp
    show "used_nodes (us @ (n, OS_MEM_NODE_SET_USED_FLAG v) # vs')
        = insert (n, OS_MEM_NODE_SET_USED_FLAG v) (used_nodes (us @ vs))"
      using that(4) SET_USED_bits by (auto simp: used_nodes_simps)
  qed (use that(2,3) SET_USED_bits [of v] plain_not_bit [OF that(2), of 30] in auto)
  have e: "OsMemMergeNodeForReAllocBigger p s n (SZ w) x m = map_option (\<lambda>m3.
        OsMemWaterUsedRecord p (SZ (OS_MEM_NODE_SET_USED_FLAG (m3 (node_size n))) - SZ w)
          (m3(node_size n := OS_MEM_NODE_SET_USED_FLAG (m3 (node_size n)))))
      (if s + OS_MEM_MIN_LEFT_SIZE \<le> m2 (node_size n) then OsMemSplitNode p n s m2 else Some m2)"
    by (simp add: OsMemMergeNodeForReAllocBigger_def Let_def m2_def)
  show ?thesis
  proof (cases "unat s + 16 \<le> unat ?v")
    case False
    have v: "unat (SZ w) \<le> unat ?v" "unat s \<le> unat ?v" using M(5) s(4) by simp_all
    have "keeps p sz (insert (n, ?v) (used_nodes (us @ vs))) m2 m2" by simp
    from Z [OF M(1,4) v(1) refl refl mg(2) this i2] show ?thesis
      using e False leq mn2 M(4) fin [OF _ M(4) v(2) refl] by (simp add: SET_USED_bits)
  next
    case True
    from split_open [OF M(1,4) s(1,2) True mg(1,2)] obtain m3 vs' where S:
      "OsMemSplitNode p n s m2 = Some m3" "rep p sz m3 (us @ (n, s) # vs') (free_nodes (us @ vs'))"
      "keeps p sz (insert (n, s) (used_nodes (us @ vs))) m2 m3" "info p m3 = info p m2" "plain s"
      "used_nodes vs' = used_nodes vs" "used_bytes vs' = used_bytes vs" "merged vs'" by blast
    have mn3: "m3 (node_size n) = s" by (rule rep_node(1) [OF S(2)]) simp
    have "info p m3 = info p m" using S(4) i2 by simp
    moreover have "unat (SZ w) \<le> unat s" using s(3) by simp
    ultimately show ?thesis
      using e True leq mn2 mn3 S(1,5) Z [OF S(2,5) _ S(6-8,3)] fin [OF _ S(5) order_refl S(6)]
      by (simp add: SET_USED_bits)
  qed
qed

section \<open>Resizing a block\<close>

text \<open>
  The block is where it was or somewhere else, large enough, and what the old one held is at the
  same offsets behind the new pointer; the other blocks are untouched.
\<close>

definition moved :: "u32 \<Rightarrow> u32 \<Rightarrow> hmem \<Rightarrow> hmem \<Rightarrow> (u32 \<times> u32) list \<Rightarrow> u32 \<Rightarrow> u32 \<Rightarrow> u32 \<Rightarrow> u32 \<Rightarrow> bool" where
  "moved p sz m m' bs n w r q \<longleftrightarrow> (\<exists>k w' bs'. q = k + 8 \<and> heap_ok p sz m' bs' \<and> bit w' 31 \<and> \<not> bit w' 30
     \<and> unat r + 8 \<le> unat (SZ w') \<and> used_nodes bs' = insert (k, w') (used_nodes bs - {(n, w)})
     \<and> (\<forall>v. (k, v) \<notin> used_nodes bs - {(n, w)})
     \<and> (\<forall>i. unat i < unat r \<longrightarrow> unat i + 8 < unat (SZ w) \<longrightarrow> m' (q + i) = m (n + 8 + i))
     \<and> keeps p sz (used_nodes bs - {(n, w)}) m m')"

lemma resized_moved:
  assumes R: "resized p sz m m' bs n w s" and r: "unat r + 8 \<le> unat s" "plain s"
    and n: "unat n + unat (SZ w) < 2 ^ 32" and d: "distinct (map fst bs)" "(n, w) \<in> set bs"
  shows "moved p sz m m' bs n w r (n + 8)"
proof -
  from R obtain w' bs' where A: "heap_ok p sz m' bs'" "bit w' 31" "\<not> bit w' 30" "unat s \<le> unat (SZ w')"
    "used_nodes bs' = insert (n, w') (used_nodes bs - {(n, w)})"
    "keeps p sz (insert (n, if unat s < unat (SZ w) then s else SZ w) (used_nodes bs - {(n, w)})) m m'"
    unfolding resized_def by blast
  have "m' (n + 8 + i) = m (n + 8 + i)" if i: "unat i < unat r" "unat i + 8 < unat (SZ w)" for i
  proof -
    have "unat (n + (8 + i)) = unat n + (8 + unat i)"
    proof -
      have "unat (8 + i) = 8 + unat i" using i(2) n by (subst unat_add_lem [THEN iffD1]) simp_all
      then show ?thesis using i(2) n by (subst unat_add_lem [THEN iffD1]) simp_all
    qed
    then have "data_cell n (if unat s < unat (SZ w) then s else SZ w) (n + 8 + i)"
      using i r by (simp add: data_cell_def add.assoc)
    then show ?thesis using A(6) unfolding keeps_def by blast
  qed
  moreover have "keeps p sz (used_nodes bs - {(n, w)}) m m'" by (rule keeps_mono [OF A(6)]) auto
  moreover have "\<forall>v. (n, v) \<notin> used_nodes bs - {(n, w)}"
    using d by (auto simp: used_nodes_def dest: eq_key_imp_eq_value)
  ultimately show ?thesis unfolding moved_def using A(1-3,5) order_trans [OF r(1) A(4)]
    by (intro exI [of _ n] exI [of _ w'] exI [of _ bs'] conjI allI impI) simp_all
qed

lemma ReallocInPlace:
  assumes H: "heap_ok p sz m bs" and n: "(n, w) \<in> used_nodes bs" and r: "8 \<le> unat r" "unat r < 2 ^ 30"
    and c: "unat (alloc_size r) \<le> unat (SZ w)
      \<or> \<not> used_at m (OS_MEM_NEXT_NODE m n) \<and> m (node_size (OS_MEM_NEXT_NODE m n)) + SZ w \<ge> alloc_size r"
  shows "\<exists>m'. OsMemRealloc p (n + 8) n r m = Some (n + 8, m') \<and> moved p sz m m' bs n w r (n + 8)"
proof -
  let ?A = "alloc_size r"
  note s = alloc_size [OF r] and R = heap_okD(1) [OF H]
  from n have nb: "(n, w) \<in> set bs" and b: "bit w 31" by (simp_all add: used_nodes_def)
  then obtain us vs where bs: "bs = us @ (n, w) # vs" by (meson split_list)
  note N = rep_node [OF R nb]
  have fit: "unat n + unat (SZ w) < 2 ^ 32" using N(6) unat_less32 [of "OS_MEM_END_NODE p sz"] by simp
  have eA: "OS_MEM_ALIGN (r + OS_MEM_NODE_HEAD_SIZE) OS_MEM_ALIGN_SIZE = ?A" ..
  show ?thesis
  proof (cases "unat ?A \<le> unat (SZ w)")
    case True
    from ReAllocSmaller [OF H [unfolded bs] b s(1,2) True] obtain m' where
      "OsMemReAllocSmaller p ?A n (SZ w) m = Some m'" "resized p sz m m' bs n w ?A" unfolding bs by blast
    moreover have "plain ?A" using True unat_SZ_less [of w] by (simp add: plain_def)
    ultimately show ?thesis
      using True N(1) resized_moved [of p sz m m' bs n w ?A r] s(4) fit nb rep_distinct [OF R]
      by (simp add: OsMemRealloc_def Let_def word_le_nat_alt)
  next
    case False
    let ?x = "OS_MEM_NEXT_NODE m n"
    have x: "\<not> used_at m ?x" "m (node_size ?x) + SZ w \<ge> ?A" using c False by simp_all
    have "vs \<noteq> []"
    proof
      assume "vs = []"
      then have "?x = OS_MEM_END_NODE p sz" using rep_next(1) [of p sz m us n w "[]"] R bs by simp
      moreover have "m (node_size (OS_MEM_END_NODE p sz)) = OS_MEM_NODE_USED_FLAG"
        using hdrs_size [OF repD(4) [OF R]] by auto
      ultimately show False using x(1) end_not_plain(1) by (simp add: used_bit)
    qed
    then obtain y wy vs' where vs: "vs = (y, wy) # vs'" by (cases vs) auto
    have y: "?x = y" using rep_next(1) [of p sz m us n w vs] R bs vs by simp
    have my: "m (node_size y) = wy" using rep_node(1) [OF R, of y wy] bs vs by simp
    have ny: "\<not> bit wy 31" using x(1) y my by (simp add: used_bit)
    then have "(y, wy) \<in> free_nodes bs" by (simp add: bs vs free_nodes_def)
    then have py: "plain wy" using repD(6) [OF R] by blast
    have "unat (wy + SZ w) = unat wy + unat (SZ w)"
      using py unat_SZ_less [of w] by (subst unat_add_lem [THEN iffD1]) (simp_all add: plain_def)
    then have le: "unat ?A \<le> unat wy + unat (SZ w)" using x(2) y my by (simp add: word_le_nat_alt)
    have lt: "unat (SZ w) < unat ?A" using False by simp
    from ReAllocBigger [OF H [unfolded bs vs] b ny s(1,2) lt le] obtain m' where
      m': "OsMemMergeNodeForReAllocBigger p ?A n (SZ w) y m = Some m'" "resized p sz m m' bs n w ?A"
      unfolding bs vs by blast
    have "plain ?A"
    proof -
      have "unat wy < 2 ^ 28" using rep_node(5) [OF R, of y wy] bs vs py by simp
      then show ?thesis using le N(5) by (simp add: plain_def)
    qed
    then show ?thesis
      using False N(1) x m' y resized_moved [OF m'(2) s(4) _ fit rep_distinct [OF R] nb]
      by (simp add: OsMemRealloc_def Let_def word_le_nat_alt)
  qed
qed

lemma frees_used:
  assumes H: "heap_ok p sz m bs" and f: "frees n w bs bs'"
  shows "used_nodes bs' = used_nodes bs - {(n, w)}"
proof -
  note R = heap_okD(1) [OF H] and ds = rep_distinct [OF heap_okD(1) [OF H]]
  have small: "unat v < 2 ^ 28" if "(k, v) \<in> set bs" "\<not> bit v 31" for k v
  proof -
    have "plain v" using repD(6) [OF R, of k v] that by (simp add: free_nodes_def)
    then show ?thesis using rep_node(5) [OF R that(1)] by simp
  qed
  from f obtain us vs where bs: "bs = us @ (n, w) # vs" and b: "bit w 31"
    and bs': "bs' = (if us \<noteq> [] \<and> \<not> bit (snd (last us)) 31
              then butlast us @ absorb (fst (last us)) (snd (last us) + SZ w) vs else us @ absorb n (SZ w) vs)"
    unfolding frees_def by blast
  have sw: "unat (SZ w) < 2 ^ 28" using rep_node(5) [OF R, of n w] bs by simp
  have ab: "used_nodes (absorb a s vs) = used_nodes vs" if s: "unat s < 2 ^ 29" for a s
  proof (cases vs)
    case Nil
    then show ?thesis using s plain_free [of s] by (simp add: plain_def used_nodes_simps)
  next
    case (Cons y vs')
    obtain x v where y: "y = (x, v)" by (cases y)
    show ?thesis
    proof (cases "bit v 31")
      case True
      then show ?thesis using Cons y s plain_free [of s] by (simp add: plain_def used_nodes_simps)
    next
      case False
      have "unat v < 2 ^ 28" using small [of x v] False Cons y bs by simp
      then have "unat (s + v) = unat s + unat v" using s by (subst unat_add_lem [THEN iffD1]) simp_all
      then have "plain (s + v)" using s \<open>unat v < 2 ^ 28\<close> by (simp add: plain_def)
      then show ?thesis using Cons y False plain_free by (simp add: used_nodes_simps)
    qed
  qed
  have un: "used_nodes bs - {(n, w)} = used_nodes (us @ vs)" unfolding bs by (rule used_minus) (use ds b bs in auto)
  show ?thesis
  proof (cases "us \<noteq> [] \<and> \<not> bit (snd (last us)) 31")
    case True
    then obtain us' k v where us: "us = us' @ [(k, v)]" by (metis rev_exhaust surj_pair)
    have "unat v < 2 ^ 28" using small [of k v] True bs us by simp
    then have "unat (v + SZ w) < 2 ^ 29" using sw by (subst unat_add_lem [THEN iffD1]) simp_all
    then show ?thesis using True ab un by (simp add: bs' us used_nodes_simps)
  next
    case False
    then have "bs' = us @ absorb n (SZ w) vs" using bs' by auto
    then show ?thesis using ab [of "SZ w" n] sw un by (simp add: used_nodes_simps)
  qed
qed

lemma word_range:
  assumes "unat (d :: u32) + unat k < 2 ^ 32"
  shows "x - d < k \<longleftrightarrow> unat d \<le> unat x \<and> unat x < unat d + unat k"
proof (cases "d \<le> x")
  case True
  then have "unat (x - d) = unat x - unat d" "unat d \<le> unat x" by (simp_all add: unat_sub word_le_nat_alt)
  then show ?thesis by (simp add: word_less_nat_alt) arith
next
  case False
  then have "unat x < unat d" by (simp add: word_le_nat_alt)
  moreover have "unat (x - d) = 2 ^ 32 + unat x - unat d"
    using \<open>unat x < unat d\<close> by (subst unat_sub_if') simp
  ultimately show ?thesis using assms by (simp add: word_less_nat_alt)
qed

lemma ReallocMove:
  assumes H: "heap_ok p sz m bs" and n: "(n, w) \<in> used_nodes bs" and r: "8 \<le> unat r" "unat r < 2 ^ 30"
    and c: "unat (SZ w) < unat (alloc_size r)"
      "used_at m (OS_MEM_NEXT_NODE m n) \<or> m (node_size (OS_MEM_NEXT_NODE m n)) + SZ w < alloc_size r"
  shows "OsMemRealloc p (n + 8) n r m = Some (0, m)
    \<or> (\<exists>q m'. OsMemRealloc p (n + 8) n r m = Some (q, m') \<and> moved p sz m m' bs n w r q)"
proof -
  let ?A = "alloc_size r"
  note s = alloc_size [OF r] and R = heap_okD(1) [OF H]
  from n have nb: "(n, w) \<in> set bs" and b: "bit w 31" by (simp_all add: used_nodes_def)
  note N = rep_node [OF R nb]
  have c1: "\<not> SZ w \<ge> ?A" using c(1) by (simp add: word_le_nat_alt)
  have c2: "\<not> (\<not> used_at m (OS_MEM_NEXT_NODE m n) \<and> m (node_size (OS_MEM_NEXT_NODE m n)) + SZ w \<ge> ?A)"
    using c(2) by auto
  have "OsMemRealloc p (n + 8) n r m = (case OsMemAlloc p r m of None \<Rightarrow> None
      | Some (tmpPtr, m1) \<Rightarrow> if tmpPtr = 0 then Some (0, m1)
          else (let (ok, m2) = memcpy_words tmpPtr r (n + 8) (SZ w - OS_MEM_NODE_HEAD_SIZE) m1
                in if \<not> ok then map_option (\<lambda>(_, m3). (0, m3)) (LOS_MemFree p tmpPtr m2)
                   else map_option (\<lambda>(_, m3). (tmpPtr, m3)) (OsMemFree p n m2)))"
    by (simp only: OsMemRealloc_def Let_def N(1) c1 c2 if_False)
  note e = this [unfolded OS_MEM_NODE_HEAD_SIZE_def]
  from MemAlloc [OF H r] show ?thesis
  proof (elim disjE exE conjE)
    assume "OsMemAlloc p r m = Some (0, m)"
    then show ?thesis using e by simp
  next
    fix a bs1 m1 assume A: "OsMemAlloc p r m = Some (a + 8, m1)" "takes ?A a bs bs1" "heap_ok p sz m1 bs1"
      "keeps p sz (used_nodes bs) m m1"
    have ps: "plain ?A" and fp: "\<And>w. (a, w) \<in> free_nodes bs \<Longrightarrow> plain w"
      using A(2) repD(6) [OF R] unfolding takes_def plain_def by fastforce+
    from takes_used [OF A(2) ps fp rep_distinct [OF R]] obtain v where V:
      "used_nodes bs1 = insert (a, v) (used_nodes bs)" "bit v 31" "\<not> bit v 30" "unat ?A \<le> unat (SZ v)"
      "\<forall>y. (a, y) \<notin> used_nodes bs" by blast
    note R1 = heap_okD(1) [OF A(3)]
    have in1: "(a, v) \<in> used_nodes bs1" "(n, w) \<in> used_nodes bs1" using V(1) n by simp_all
    then have set1: "(a, v) \<in> set bs1" "(n, w) \<in> set bs1" by (simp_all add: used_nodes_def)
    note NA = rep_node [OF R1 set1(1)] and PA = pool_ptr [OF R1 set1(1)]
    note NN = rep_node [OF R1 set1(2)] and PN = pool_ptr [OF R1 set1(2)]
    have top: "unat (OS_MEM_END_NODE p sz) < 2 ^ 32" by (rule unat_less32)
    have an: "a \<noteq> n" using V(5) n by blast
    have ap: "unat n + unat (SZ w) \<le> unat a \<or> unat a + unat (SZ v) \<le> unat n"
    proof -
      have "unat a \<noteq> unat n" using an by (simp add: word_unat_eq_iff)
      then show ?thesis
        using seg_apart(1) [OF repD(2) [OF R1] set1] seg_apart(1) [OF repD(2) [OF R1] set1(2,1)] by linarith
    qed
    have l: "unat (SZ w - 8) = unat (SZ w) - 8" using N(3) by (simp add: unat_sub word_le_nat_alt)
    have fits: "unat (SZ w) - 8 \<le> unat r"
    proof -
      have "unat (SZ w) + 4 \<le> unat ?A" using c(1) N(4) s(2) by presburger
      then show ?thesis using s(5) by linarith
    qed
    have rd: "x - (a + 8) < SZ w - 8 \<longleftrightarrow> unat a + 8 \<le> unat x \<and> unat x < unat a + unat (SZ w)" for x
    proof -
      have "unat (a + 8) + unat (SZ w - 8) < 2 ^ 32" using PA(1) l NA(6) c(1) V(4) N(3) top by linarith
      from word_range [OF this, of x] show ?thesis using PA(1) l N(3) by auto
    qed
    define m2 where "m2 = (\<lambda>x. if x - (a + 8) < SZ w - 8 then m1 (n + 8 + (x - (a + 8))) else m1 x)"
    have cp: "memcpy_words (a + 8) r (n + 8) (SZ w - 8) m1 = (True, m2)"
    proof -
      have "\<not> SZ w - 8 > r" using fits l by (simp add: word_less_nat_alt)
      moreover have "\<not> (a + 8 \<le> n + 8 \<and> n + 8 - (a + 8) < SZ w - 8)"
        using rd [of "n + 8"] ap PN(1) V(4) c(1) by auto
      moreover have "\<not> (n + 8 \<le> a + 8 \<and> a + 8 - (n + 8) < SZ w - 8)"
      proof -
        have "unat (n + 8) + unat (SZ w - 8) < 2 ^ 32" using PN(1) l NN(6) N(3) top by linarith
        from word_range [OF this, of "a + 8"] show ?thesis using PA(1) PN(1) l N(3) NA(3) ap by auto
      qed
      ultimately show ?thesis unfolding memcpy_words_def m2_def by simp
    qed
    have ch: "data_cell a v x" if "m2 x \<noteq> m1 x" for x
    proof -
      have "x - (a + 8) < SZ w - 8" by (rule ccontr) (use that in \<open>simp add: m2_def\<close>)
      then show ?thesis using rd [of x] V(4) c(1) by (simp add: data_cell_def)
    qed
    have H2: "heap_ok p sz m2 bs1" by (rule heap_data [OF A(3)]) (use ch in1(1) in blast)
    note K2 = data_keeps [OF R1 set1(1) ch]
    from MemFree [OF H2 in1(2)] obtain m3 bs' where F: "OsMemFree p n m2 = Some (LOS_OK, m3)" "frees n w bs1 bs'"
      "heap_ok p sz m3 bs'" "keeps p sz (used_nodes bs1 - {(n, w)}) m2 m3" by blast
    have "a + 8 \<noteq> 0" using PA(1) by (metis add_is_0 unsigned_0 zero_neq_numeral)
    then have res: "OsMemRealloc p (n + 8) n r m = Some (a + 8, m3)" using e A(1) cp F(1) by simp
    have un: "used_nodes bs' = insert (a, v) (used_nodes bs - {(n, w)})"
      using frees_used [OF H2 F(2)] V(1) an by auto
    have sub: "used_nodes bs - {(n, w)} \<subseteq> set bs1 - {(a, v)}" "used_nodes bs - {(n, w)} \<subseteq> used_nodes bs1 - {(n, w)}"
      using V(1,5) by (auto simp: used_nodes_def)
    have "keeps p sz (used_nodes bs - {(n, w)}) m m2"
      by (rule keeps_step [OF A(4) K2 _ sub(1)]) auto
    then have k: "keeps p sz (used_nodes bs - {(n, w)}) m m3"
      by (rule keeps_step [OF _ F(4) subset_refl sub(2)])
    have dat: "m3 (a + 8 + i) = m (n + 8 + i)" if i: "unat i + 8 < unat (SZ w)" for i
    proof -
      have u: "unat (a + 8 + i) = unat a + 8 + unat i" "unat (n + 8 + i) = unat n + 8 + unat i"
        using i PA(1) PN(1) NA(6) NN(6) V(4) c(1) top by (subst unat_add_lem [THEN iffD1]; simp)+
      have "data_cell a v (a + 8 + i)" using u(1) i V(4) c(1) by (simp add: data_cell_def)
      then have "m3 (a + 8 + i) = m2 (a + 8 + i)"
        using F(4) in1(1) an unfolding keeps_def by blast
      also have "m2 (a + 8 + i) = m1 (n + 8 + i)"
        using rd [of "a + 8 + i"] u(1) i by (simp add: m2_def)
      also have "m1 (n + 8 + i) = m (n + 8 + i)"
      proof -
        have "data_cell n w (n + 8 + i)" using u(2) i by (simp add: data_cell_def)
        then show ?thesis using A(4) n unfolding keeps_def by blast
      qed
      finally show ?thesis .
    qed
    have "unat r + 8 \<le> unat (SZ v)" using s(4) V(4) by linarith
    then have "moved p sz m m3 bs n w r (a + 8)"
      unfolding moved_def using F(3) V(2,3,5) un dat k
      by (intro exI [of _ a] exI [of _ v] exI [of _ bs']) simp
    with res show ?thesis by blast
  qed
qed

end
