(* ===== verification/Los_HeapDouble.thy ===== *)
theory Los_HeapDouble
  imports Los_HeapRealloc
begin

text \<open>
  Freeing a block a second time. The header of a freed block keeps its size without the flags, also
  when the node has become part of the one before it, so the second call is refused.
\<close>

definition off_meta :: "u32 \<Rightarrow> u32 \<Rightarrow> (u32 \<times> u32) list \<Rightarrow> u32 \<Rightarrow> bool" where
  "off_meta p sz bs c \<longleftrightarrow> \<not> pool_cell p c
     \<and> (\<forall>y\<in>nodes p sz bs. c \<noteq> node_prev y \<and> c \<noteq> node_size y \<and> c \<noteq> free_prev y \<and> c \<noteq> free_next y)"

lemma off_link: "off_meta p sz bs c \<Longrightarrow> X \<subseteq> nodes p sz bs \<Longrightarrow> \<not> link_cell p X c"
  by (auto simp: off_meta_def link_cell_def pool_cell_def)

lemma add_frame:
  assumes R: "rep p sz m bs F" and n: "(n, w) \<in> set bs" "plain w" "(n, w) \<notin> F"
    and a: "OsMemFreeNodeAdd p n m = Some m'" and c: "off_meta p sz bs c"
  shows "m' c = m c"
proof -
  note D = repD [OF R]
  from D(7) obtain fl where L: "lists_inv p m F fl" by blast
  have nF: "n \<notin> fst ` F"
  proof
    assume "n \<in> fst ` F"
    then obtain v where "(n, v) \<in> F" by force
    then show False using seg_apart(2) [OF D(2) n(1), of n v] n(3) D(5) by auto
  qed
  note ix = rep_index [OF R n(1,2)] and N = rep_node(2) [OF R n(1)]
  have i: "cls w < 223" using ix(2) by simp
  have "OsMemFreeNodeAdd p n m = Some (OsMemListAdd p (of_nat (cls w)) n m)"
    using ix i by (simp add: OsMemFreeNodeAdd_def list_count word_le_nat_alt unat_of_nat32 not_le)
  moreover have "\<not> link_cell p (insert n (fst ` F)) c" by (rule off_link [OF c]) (use N D(12) in auto)
  ultimately show ?thesis using lists_inv_add(2) [OF D(10,11) L D(12,13) N nF i refl] a by simp
qed

lemma delete_frame:
  assumes R: "rep p sz m bs F" and n: "(n, w) \<in> F" and c: "off_meta p sz bs c"
  shows "OsMemFreeNodeDelete p n m c = m c"
proof -
  note D = repD [OF R]
  from D(7) obtain fl where L: "lists_inv p m F fl" by blast
  have b: "(n, w) \<in> set bs" "plain w" using n D(5,6) by auto
  note ix = rep_index [OF R b]
  have i: "cls w < 223" using ix(2) by simp
  have "OsMemFreeNodeDelete p n m = OsMemListDelete p (of_nat (cls w)) n m"
    using ix by (simp add: OsMemFreeNodeDelete_def)
  moreover have "\<not> link_cell p (fst ` F) c" by (rule off_link [OF c D(12)])
  ultimately show ?thesis using lists_inv_delete(2) [OF D(10,11) L D(12,13) n i refl] by simp
qed

lemma merge_frame:
  assumes R: "rep p sz m (us @ (a, wa) # (n, wn) # vs) F" and w: "plain wa" "plain wn"
    and c: "c \<noteq> node_size a" "\<And>y. y \<in> nodes p sz vs \<Longrightarrow> c \<noteq> node_prev y"
  shows "OsMemMergeNode n m c = m c"
proof -
  let ?E = "(OS_MEM_END_NODE p sz, OS_MEM_NODE_USED_FLAG)"
  have R': "rep p sz m ((us @ [(a, wa)]) @ (n, wn) # vs) F" using R by simp
  have pn: "m (node_prev n) = a" using rep_next(2) [OF R'] by simp
  have ms: "m (node_size a) = wa" "m (node_size n) = wn" using rep_node(1) [OF R] by simp_all
  have ne: "node_size n \<noteq> node_size a" using rep_distinct [OF R] by auto
  have "OS_MEM_NEXT_NODE m n = fst (hd (vs @ [?E]))" by (rule rep_next(1) [OF R'])
  then have x: "n + wn \<in> nodes p sz vs" using ms w by (cases vs) (auto simp: OS_MEM_NEXT_NODE_def nodes_def)
  show ?thesis using c(1) c(2) [OF x] ne by (simp add: OsMemMergeNode_def Let_def pn ms)
qed

lemma right_frame:
  assumes R: "rep p sz m (us @ (a, s) # vs) (free_nodes (us @ vs))" and s: "plain s"
    and A: "OsMemFreeNodeAdd p a (merge_next p a m) = Some m'" and c: "off_meta p sz (us @ (a, s) # vs) c"
  shows "m' c = m c"
proof -
  have nF: "(a, v) \<notin> free_nodes (us @ vs)" for v
    using rep_distinct [OF R] by (auto simp: free_nodes_def image_iff)
  show ?thesis
  proof (cases "OS_MEM_NEXT_NODE m a \<noteq> 0 \<and> \<not> used_at m (OS_MEM_NEXT_NODE m a)")
    case False
    then have "merge_next p a m = m" by (simp only: merge_next_def if_False)
    then show ?thesis using add_frame [OF R _ s nF _ c] A by simp
  next
    case True
    have "vs \<noteq> []"
    proof
      assume "vs = []"
      then have "OS_MEM_NEXT_NODE m a = OS_MEM_END_NODE p sz" using rep_next(1) [OF R] by simp
      moreover have "m (node_size (OS_MEM_END_NODE p sz)) = OS_MEM_NODE_USED_FLAG"
        using hdrs_size [OF repD(4) [OF R]] by auto
      ultimately show False using True end_not_plain(1) by (simp add: used_bit)
    qed
    then obtain x v vs' where vs: "vs = (x, v) # vs'" by (cases vs) auto
    have nx: "OS_MEM_NEXT_NODE m a = x" using rep_next(1) [OF R] by (simp add: vs)
    have nv: "\<not> bit v 31" using True rep_node(1) [OF R, of x v] nx by (simp add: vs used_bit)
    have xF: "(x, v) \<in> free_nodes (us @ vs)" using nv by (simp add: vs free_nodes_def)
    have pv: "plain v" by (rule repD(6) [OF R xF])
    have m1: "merge_next p a m = OsMemMergeNode x (OsMemFreeNodeDelete p x m)"
      using True nx by (simp add: merge_next_def)
    note Dl = rep_delete [OF R xF]
    have F1: "free_nodes (us @ vs) - {(x, v)} = free_nodes (us @ vs')"
      using rep_distinct [OF R] nv by (auto simp: vs free_nodes_def image_iff)
    have R2: "rep p sz (OsMemFreeNodeDelete p x m) (us @ (a, s) # (x, v) # vs') (free_nodes (us @ vs'))"
      using Dl(1) by (simp only: F1) (simp add: vs)
    have nF': "(a, y) \<notin> free_nodes (us @ vs')" "(x, y) \<notin> free_nodes (us @ vs')" for y
      using rep_distinct [OF R] by (auto simp: vs free_nodes_def image_iff)
    note M = rep_merge [OF R2 s pv nF']
    have c': "off_meta p sz (us @ (a, s + v) # vs') c" using c by (auto simp: off_meta_def nodes_def vs)
    have "m' c = OsMemMergeNode x (OsMemFreeNodeDelete p x m) c"
      by (rule add_frame [OF M(1) _ M(4) nF'(1) A [unfolded m1] c']) simp
    also have "\<dots> = OsMemFreeNodeDelete p x m c"
      by (rule merge_frame [OF R2 s pv]) (use c in \<open>auto simp: off_meta_def nodes_def vs\<close>)
    also have "\<dots> = m c" by (rule delete_frame [OF R xF c])
    finally show ?thesis .
  qed
qed

text \<open>After a node is freed its header holds no flag.\<close>

lemma freed_header:
  assumes H: "heap_ok p sz m bs" and n: "(n, w) \<in> used_nodes bs" and f: "OsMemFree p n m = Some (LOS_OK, m')"
  shows "plain (m' (node_size n))"
proof -
  from n have nb: "(n, w) \<in> set bs" and b: "bit w 31" by (simp_all add: used_nodes_def)
  then obtain us vs where bs: "bs = us @ (n, w) # vs" by (meson split_list)
  note H' = H [unfolded bs]
  define m2 where "m2 = m(pool_curUsedSize p := m (pool_curUsedSize p) - SZ w, node_size n := SZ w)"
  note L = release [OF H' b m2_def] and D = repD [OF release(1) [OF H' b m2_def]]
  note ds = rep_distinct [OF L(1)]
  have mg: "merged us" "merged vs" using heap_okD(2) [OF H'] by (auto simp: merged_append merged_Cons)
  show ?thesis
  proof (cases "us = [] \<or> bit (snd (last us)) 31")
    case True
    from free_right [OF L(1) plain_SZ_SZ mg(1) True mg(2) refl] f
    have R: "rep p sz m' (us @ absorb n (SZ w) vs) (free_nodes (us @ absorb n (SZ w) vs))"
      by (auto simp: free_before(1) [OF H' b m2_def True, folded bs])
    have "\<exists>s vs'. absorb n (SZ w) vs = (n, s) # vs'" by (cases "(n, SZ w, vs)" rule: absorb.cases) auto
    then obtain s vs' where ab: "absorb n (SZ w) vs = (n, s) # vs'" by blast
    have s: "m' (node_size n) = s" by (rule rep_node(1) [OF R]) (simp add: ab)
    have "frees n w bs (us @ absorb n (SZ w) vs)"
      unfolding frees_def using True b by (intro exI [of _ us] exI [of _ vs]) (auto simp: bs)
    from frees_used [OF H this] have "(n, s) \<in> used_nodes (us @ absorb n (SZ w) vs) \<Longrightarrow> s \<noteq> w \<and> (n, s) \<in> set bs"
      by (auto simp: used_nodes_def)
    moreover have "s' = w" if "(n, s') \<in> set bs" for s'
      using rep_distinct [OF heap_okD(1) [OF H]] that nb by (metis eq_key_imp_eq_value)
    ultimately have "(n, s) \<notin> used_nodes (us @ absorb n (SZ w) vs)" by blast
    then have "\<not> bit s 31" by (simp add: ab used_nodes_def)
    then have "(n, s) \<in> free_nodes (us @ absorb n (SZ w) vs)" by (simp add: ab free_nodes_def)
    then show ?thesis using repD(6) [OF R] s by blast
  next
    case False
    then obtain us' k v where us: "us = us' @ [(k, v)]" by (metis rev_exhaust surj_pair)
    with False have nv: "\<not> bit v 31" by simp
    have kF: "(k, v) \<in> free_nodes (us @ vs)" using nv by (simp add: us free_nodes_def)
    have pv: "plain v" by (rule repD(6) [OF L(1) kF])
    note Dl = rep_delete [OF L(1) kF]
    have F1: "free_nodes (us @ vs) - {(k, v)} = free_nodes (us' @ vs)"
      using ds nv by (auto simp: us free_nodes_def image_iff)
    have R2: "rep p sz (OsMemFreeNodeDelete p k m2) (us' @ (k, v) # (n, SZ w) # vs) (free_nodes (us' @ vs))"
      using Dl(1) by (simp only: F1) (simp add: us)
    have nF: "(k, y) \<notin> free_nodes (us' @ vs)" "(n, y) \<notin> free_nodes (us' @ vs)" for y
      using ds by (auto simp: us free_nodes_def image_iff)
    note M = rep_merge [OF R2 pv plain_SZ_SZ nF]
    have A: "OsMemFreeNodeAdd p k (merge_next p k (OsMemMergeNode n (OsMemFreeNodeDelete p k m2))) = Some m'"
      using f free_before(2) [OF H' b m2_def us nv, folded bs] by auto
    have nn: "n \<in> nodes p sz (us @ (n, SZ w) # vs)" by (simp add: nodes_def)
    note sf = spaced_fields [OF D(10)]
    have sub: "nodes p sz (us' @ (k, v + SZ w) # vs) \<subseteq> nodes p sz (us @ (n, SZ w) # vs) - {n}"
      using ds seg_distinct [OF D(2)] by (auto simp: us nodes_def)
    have pc: "\<not> pool_cell p (node_size n)" using pool_not_node(2) [OF D(10) nn] by blast
    have c: "off_meta p sz (us' @ (k, v + SZ w) # vs) (node_size n)"
      unfolding off_meta_def
    proof (intro conjI ballI)
      show "\<not> pool_cell p (node_size n)" by (rule pc)
      fix y assume "y \<in> nodes p sz (us' @ (k, v + SZ w) # vs)"
      with sub have y: "y \<in> nodes p sz (us @ (n, SZ w) # vs)" "y \<noteq> n" by auto
      show "node_size n \<noteq> node_prev y" "node_size n \<noteq> node_size y"
        "node_size n \<noteq> free_prev y" "node_size n \<noteq> free_next y"
        using sf(4,5,6) [OF nn y(1)] y(2) by simp_all
    qed
    have lk: "\<not> link_cell p (fst ` free_nodes (us @ vs)) (node_size n)"
      using pc sf(5,6) [OF nn] D(12) by (auto simp: link_cell_def pool_cell_def)
    have "m' (node_size n) = OsMemMergeNode n (OsMemFreeNodeDelete p k m2) (node_size n)"
      by (rule right_frame [OF M(1,4) A c])
    also have "\<dots> = OsMemFreeNodeDelete p k m2 (node_size n)"
      by (rule merge_frame [OF R2 pv plain_SZ_SZ])
        (use ds sf(4) [OF nn] in \<open>auto simp: us nodes_def\<close>)
    also have "\<dots> = SZ w" by (rule rep_node(1) [OF Dl(1)]) simp
    finally show ?thesis by simp
  qed
qed

text \<open>Freeing a node writes nothing outside the pool's head and the headers and links of the nodes.\<close>

lemma freed_frame:
  assumes H: "heap_ok p sz m bs" and n: "(n, w) \<in> used_nodes bs" and f: "OsMemFree p n m = Some (LOS_OK, m')"
    and c: "off_meta p sz bs c"
  shows "m' c = m c"
proof -
  from n have nb: "(n, w) \<in> set bs" and b: "bit w 31" by (simp_all add: used_nodes_def)
  then obtain us vs where bs: "bs = us @ (n, w) # vs" by (meson split_list)
  note H' = H [unfolded bs]
  define m2 where "m2 = m(pool_curUsedSize p := m (pool_curUsedSize p) - SZ w, node_size n := SZ w)"
  note L = release [OF H' b m2_def] and D = repD [OF release(1) [OF H' b m2_def]]
  note ds = rep_distinct [OF L(1)]
  have c2: "off_meta p sz (us @ (n, SZ w) # vs) c" using c by (simp add: bs off_meta_def nodes_def)
  have "c \<noteq> pool_curUsedSize p" using c pool_cells(5) [OF D(11)] by (auto simp: off_meta_def)
  moreover have "c \<noteq> node_size n" using c nb by (auto simp: off_meta_def nodes_def image_iff)
  ultimately have m2: "m2 c = m c" by (simp add: m2_def)
  show ?thesis
  proof (cases "us = [] \<or> bit (snd (last us)) 31")
    case True
    have A: "OsMemFreeNodeAdd p n (merge_next p n m2) = Some m'"
      using f free_before(1) [OF H' b m2_def True, folded bs] by auto
    show ?thesis using right_frame [OF L(1) plain_SZ_SZ A c2] m2 by simp
  next
    case False
    then obtain us' k v where us: "us = us' @ [(k, v)]" by (metis rev_exhaust surj_pair)
    with False have nv: "\<not> bit v 31" by simp
    have kF: "(k, v) \<in> free_nodes (us @ vs)" using nv by (simp add: us free_nodes_def)
    have pv: "plain v" by (rule repD(6) [OF L(1) kF])
    note Dl = rep_delete [OF L(1) kF]
    have F1: "free_nodes (us @ vs) - {(k, v)} = free_nodes (us' @ vs)"
      using ds nv by (auto simp: us free_nodes_def image_iff)
    have R2: "rep p sz (OsMemFreeNodeDelete p k m2) (us' @ (k, v) # (n, SZ w) # vs) (free_nodes (us' @ vs))"
      using Dl(1) by (simp only: F1) (simp add: us)
    have nF: "(k, y) \<notin> free_nodes (us' @ vs)" "(n, y) \<notin> free_nodes (us' @ vs)" for y
      using ds by (auto simp: us free_nodes_def image_iff)
    note M = rep_merge [OF R2 pv plain_SZ_SZ nF]
    have A: "OsMemFreeNodeAdd p k (merge_next p k (OsMemMergeNode n (OsMemFreeNodeDelete p k m2))) = Some m'"
      using f free_before(2) [OF H' b m2_def us nv, folded bs] by auto
    have c3: "off_meta p sz (us' @ (k, v + SZ w) # vs) c" using c2 by (auto simp: off_meta_def nodes_def us)
    have "m' c = OsMemMergeNode n (OsMemFreeNodeDelete p k m2) c" by (rule right_frame [OF M(1,4) A c3])
    also have "\<dots> = OsMemFreeNodeDelete p k m2 c"
      by (rule merge_frame [OF R2 pv plain_SZ_SZ]) (use c2 in \<open>auto simp: off_meta_def nodes_def us\<close>)
    also have "\<dots> = m2 c" by (rule delete_frame [OF L(1) kF c2])
    finally show ?thesis using m2 by simp
  qed
qed

text \<open>The words of a used node behind the place of its links are such words.\<close>

lemma inner_off_meta:
  assumes H: "heap_ok p sz m bs" and n: "(n, w) \<in> used_nodes bs"
    and c: "unat n + 16 \<le> unat c" "unat c < unat n + unat (SZ w)"
  shows "off_meta p sz bs c"
proof -
  note D = repD [OF heap_okD(1) [OF H]]
  have nb: "(n, w) \<in> set bs" using n by (simp add: used_nodes_def)
  have N: "n \<in> nodes p sz bs" using nb by (force simp: nodes_def)
  have "unat p + 944 \<le> unat n" using D(10) N by (auto simp: spaced_def)
  then have pc: "\<not> pool_cell p c" using c by (simp add: pool_cell_def)
  have y: "unat y + 16 \<le> 2 ^ 32 \<and> (unat y \<le> unat n \<or> unat n + unat (SZ w) \<le> unat y)" if yn: "y \<in> nodes p sz bs" for y
  proof -
    have "unat y \<le> unat n \<or> unat n + unat (SZ w) \<le> unat y"
    proof (cases "y = OS_MEM_END_NODE p sz")
      case True
      then show ?thesis using seg_nodes(2) [OF D(2) nb] by simp
    next
      case False
      then obtain v where "(y, v) \<in> set bs" using yn by (auto simp: nodes_def)
      then show ?thesis using seg_apart(1) [OF D(2) nb] by (meson linorder_not_less)
    qed
    then show ?thesis using D(10) yn by (auto simp: spaced_def)
  qed
  show ?thesis unfolding off_meta_def
  proof (intro conjI ballI)
    show "\<not> pool_cell p c" by (rule pc)
    fix x assume x: "x \<in> nodes p sz bs"
    note u = unat_field [OF y [OF x, THEN conjunct1]]
    show "c \<noteq> node_prev x" "c \<noteq> node_size x" "c \<noteq> free_prev x" "c \<noteq> free_next x"
      by (rule unat_neI, simp only: u, use y [OF x] c in linarith)+
  qed
qed

text \<open>The pointer the program holds; for an aligned block its gap word lies behind the links.\<close>

lemma MemFree_again:
  assumes H: "heap_ok p sz m bs" and n: "(n, w) \<in> used_nodes bs" and f: "OsMemFree p n m = Some (LOS_OK, m')"
    and b: "block_at m q n w" and gap: "bit w 30 \<Longrightarrow> unat n + 20 \<le> unat q"
  shows "LOS_MemFree p q m' = Some (LOS_NOK, m')"
proof -
  have pl: "plain (m' (node_size n))" by (rule freed_header [OF H n f])
  have nb: "(n, w) \<in> set bs" using n by (simp add: used_nodes_def)
  note R = heap_okD(1) [OF H]
  note P = pool_ptr [OF R nb]
  have u: "\<not> used_at m' n" using plain_free [OF pl] by (simp add: used_bit)
  have o: "OsGetRealPtr p q m' = 0 \<or> OsGetRealPtr p q m' = n + 8"
  proof (cases "bit w 30")
    case False
    then have q: "q = n + 8" using b by (simp add: block_at_def)
    have g: "m' (q - 4) = m' (node_size n)" unfolding q
      by (rule arg_cong [of _ _ m']) (simp add: node_size_def)
    have "OS_MEM_GET_GAPSIZE_ALIGNED_FLAG (m' (q - 4)) = 0"
      using pl plain_flags [of "m' (node_size n)"] unfolding g
      by (simp add: OS_MEM_GET_GAPSIZE_ALIGNED_FLAG_def OS_MEM_GAPSIZE_ALIGNED_FLAG_def
          OS_MEM_NODE_GET_ALIGNED_FLAG_def OS_MEM_NODE_ALIGNED_FLAG_def)
    then show ?thesis by (simp add: OsGetRealPtr_def Let_def q)
  next
    case True
    have q: "unat n + 20 \<le> unat q" "unat q < unat n + unat (SZ w)" using gap b True by (simp_all add: block_at_def)
    have "unat (q - 4) = unat q - 4" using q(1) by (subst unat_sub) (simp_all add: word_le_nat_alt)
    then have "off_meta p sz bs (q - 4)" by (intro inner_off_meta [OF H n]) (use q in linarith)+
    from freed_frame [OF H n f this] have "OsGetRealPtr p q m' = OsGetRealPtr p q m" by (simp add: OsGetRealPtr_def)
    then show ?thesis using block_ptr(1) [OF R nb b] by simp
  qed
  have k: "OsMemFree p n m' = Some (LOS_NOK, m')"
    using u by (simp add: OsMemFree_def OsMemCheckUsedNode_def Let_def LOS_NOK_def LOS_OK_def)
  have k': "OsMemFree p (n + 8 - OS_MEM_NODE_HEAD_SIZE) m' = Some (LOS_NOK, m')"
    using k by (simp add: OS_MEM_NODE_HEAD_SIZE_def)
  show ?thesis unfolding LOS_MemFree_def Let_def using o k' by presburger
qed

end
