(* ===== verification/Los_HeapLive.thy ===== *)
theory Los_HeapLive
  imports Los_HeapPools Los_HeapDouble
begin

text \<open>
  The heap as an interface. A client knows the blocks it holds: their addresses, the number of bytes
  it asked for and whether it asked for an alignment. The locale \<open>block_heap\<close> states what the heap
  promises of them, \<open>live_ok\<close> relates them to the nodes of a pool, and the interpretation shows that
  the calls of \<open>los_memory.c\<close> keep the promises.
\<close>

section \<open>The interface\<close>

type_synonym live = "u32 \<Rightarrow> (u32 \<times> bool) option"

definition in_block :: "u32 \<Rightarrow> u32 \<Rightarrow> u32 \<Rightarrow> bool" where
  "in_block q r a \<longleftrightarrow> unat q \<le> unat a \<and> unat a < unat q + unat r"

definition holds :: "live \<Rightarrow> hmem \<Rightarrow> hmem \<Rightarrow> bool" where
  "holds L m m' \<longleftrightarrow> (\<forall>q r al a. L q = Some (r, al) \<longrightarrow> in_block q r a \<longrightarrow> m' a = m a)"

locale block_heap =
  fixes ok :: "hmem \<Rightarrow> live \<Rightarrow> bool"
    and alloc :: "u32 \<Rightarrow> hmem \<Rightarrow> (u32 \<times> hmem) option"
    and align :: "u32 \<Rightarrow> u32 \<Rightarrow> hmem \<Rightarrow> (u32 \<times> hmem) option"
    and free :: "u32 \<Rightarrow> hmem \<Rightarrow> (u32 \<times> hmem) option"
    and resize :: "u32 \<Rightarrow> u32 \<Rightarrow> hmem \<Rightarrow> (u32 \<times> hmem) option"
  assumes alloc_law: "ok m L \<Longrightarrow> \<exists>q m'. alloc r m = Some (q, m')
      \<and> (if q = 0 then m' = m else L q = None \<and> ok m' (L(q \<mapsto> (r, False))) \<and> holds L m m')"
    and align_law: "ok m L \<Longrightarrow> \<exists>q m'. align r b m = Some (q, m')
      \<and> (if q = 0 then m' = m else L q = None \<and> ok m' (L(q \<mapsto> (r, True))) \<and> holds L m m' \<and> unat b dvd unat q)"
    and free_law: "ok m L \<Longrightarrow> L q = Some x \<Longrightarrow> \<exists>m'. free q m = Some (LOS_OK, m')
      \<and> ok m' (L(q := None)) \<and> holds (L(q := None)) m m'"
    and resize_law: "ok m L \<Longrightarrow> L q = Some (r, False) \<Longrightarrow> r' \<noteq> 0 \<Longrightarrow>
      \<exists>q' m'. resize q r' m = Some (q', m')
      \<and> (if q' = 0 then m' = m
         else (q' = q \<or> L q' = None) \<and> ok m' (L(q := None, q' \<mapsto> (r', False))) \<and> holds (L(q := None)) m m'
           \<and> (\<forall>i. unat i < unat r \<longrightarrow> unat i < unat r' \<longrightarrow> m' (q' + i) = m (q + i)))"
    and apart_law: "ok m L \<Longrightarrow> L q = Some (r, al) \<Longrightarrow> L q' = Some (r', al') \<Longrightarrow> q \<noteq> q' \<Longrightarrow>
      in_block q r a \<Longrightarrow> \<not> in_block q' r' a"
    and write_law: "ok m L \<Longrightarrow> (\<And>a. m' a \<noteq> m a \<Longrightarrow> \<exists>q r al. L q = Some (r, al) \<and> in_block q r a) \<Longrightarrow> ok m' L"

section \<open>Who owns which node\<close>

text \<open>Every block the client holds lies in a used node of its own, and every used node is held.\<close>

definition owns :: "(u32 \<times> u32) set \<Rightarrow> hmem \<Rightarrow> live \<Rightarrow> (u32 \<Rightarrow> u32 \<times> u32) \<Rightarrow> bool" where
  "owns U m L own \<longleftrightarrow> (\<forall>q r al. L q = Some (r, al) \<longrightarrow>
       block_at m q (fst (own q)) (snd (own q)) \<and> (al \<or> \<not> bit (snd (own q)) 30)
       \<and> unat q + unat r \<le> unat (fst (own q)) + unat (SZ (snd (own q))))
     \<and> inj_on own (dom L) \<and> own ` dom L = U"

definition live_ok :: "u32 \<Rightarrow> u32 \<Rightarrow> hmem \<Rightarrow> live \<Rightarrow> bool" where
  "live_ok p sz m L \<longleftrightarrow> (\<exists>bs own. heap_ok p sz m bs \<and> owns (used_nodes bs) m L own)"

lemma ownsD:
  assumes "owns U m L own" "L q = Some (r, al)"
  shows "own q \<in> U" "block_at m q (fst (own q)) (snd (own q))" "al \<or> \<not> bit (snd (own q)) 30"
    "unat q + unat r \<le> unat (fst (own q)) + unat (SZ (snd (own q)))"
proof -
  have "q \<in> dom L" using assms(2) by blast
  then have "own q \<in> own ` dom L" by simp
  also have "own ` dom L = U" using assms(1) by (simp add: owns_def)
  finally show "own q \<in> U" .
qed (use assms in \<open>simp_all add: owns_def\<close>)

lemma used_in:
  assumes "heap_ok p sz m bs" "x \<in> used_nodes bs"
  shows "(fst x, snd x) \<in> set bs" "(fst x, snd x) \<in> used_nodes bs"
  using assms(2) by (auto simp: used_nodes_def)

text \<open>The pointer lies in the data of its node.\<close>

lemma block_cell:
  assumes H: "heap_ok p sz m bs" and n: "(n, w) \<in> set bs" and b: "block_at m' q n w"
  shows "data_cell n w q" "unat n + 8 \<le> unat q"
proof -
  note R = heap_okD(1) [OF H]
  show "data_cell n w q" "unat n + 8 \<le> unat q"
    using b rep_node(3) [OF R n] pool_ptr(1) [OF R n]
    by (auto simp: block_at_def data_cell_def split: if_splits)
qed

lemma nodes_apart:
  assumes H: "heap_ok p sz m bs" and n: "(n, w) \<in> set bs" "(k, v) \<in> set bs" and d: "data_cell n w a" "data_cell k v a"
  shows "n = k" "w = v"
proof -
  note D = repD [OF heap_okD(1) [OF H]]
  show nk: "n = k"
  proof (rule ccontr)
    assume "n \<noteq> k"
    then have "unat n \<noteq> unat k" by (simp add: word_unat_eq_iff)
    then show False
      using seg_apart(1) [OF D(2) n] seg_apart(1) [OF D(2) n(2,1)] d unfolding data_cell_def by linarith
  qed
  show "w = v" by (rule seg_apart(2) [OF D(2) n nk])
qed

lemma block_data:
  assumes H: "heap_ok p sz m bs" and o: "owns U m' L own" "U \<subseteq> used_nodes bs"
    and q: "L q = Some (r, al)" and a: "in_block q r a"
  shows "data_cell (fst (own q)) (snd (own q)) a"
proof -
  note O = ownsD [OF o(1) q]
  have "own q \<in> used_nodes bs" using O(1) o(2) by blast
  from block_cell(2) [OF H used_in(1) [OF H this] O(2)] O(4) a show ?thesis
    unfolding in_block_def data_cell_def by linarith
qed

lemma live_apart:
  assumes H: "heap_ok p sz m bs" and o: "owns (used_nodes bs) m' L own"
    and q: "L q = Some (r, al)" "L q' = Some (r', al')" "q \<noteq> q'" "in_block q r a"
  shows "\<not> in_block q' r' a"
proof
  assume a: "in_block q' r' a"
  note x = used_in(1) [OF H ownsD(1) [OF o q(1)]] used_in(1) [OF H ownsD(1) [OF o q(2)]]
  from nodes_apart [OF H x block_data [OF H o subset_refl q(1,4)] block_data [OF H o subset_refl q(2) a]]
  have "own q = own q'" by (simp add: prod_eq_iff)
  then show False using o q unfolding owns_def by (meson domI inj_onD)
qed

section \<open>What the calls do to the owners\<close>

lemma block_at_keeps:
  assumes H: "heap_ok p sz m bs" and n: "(n, w) \<in> set bs" and b: "block_at m q n w"
    and k: "keeps p sz S m m'" "(n, w) \<in> S"
  shows "block_at m' q n w"
proof (cases "bit w 30")
  case True
  then have q: "unat n + 12 \<le> unat q" "unat q < unat n + unat (SZ w)" using b by (simp_all add: block_at_def)
  have "unat (q - 4) = unat q - 4" using q by (subst unat_sub) (simp_all add: word_le_nat_alt)
  then have "data_cell n w (q - 4)" unfolding data_cell_def using q by linarith
  then have "m' (q - 4) = m (q - 4)" using k unfolding keeps_def by blast
  then show ?thesis using b True by (simp add: block_at_def)
qed (use b in \<open>simp add: block_at_def\<close>)

lemma owns_keeps:
  assumes H: "heap_ok p sz m bs" and o: "owns U m L own" "U \<subseteq> used_nodes bs" and k: "keeps p sz U m m'"
  shows "owns U m' L own" "holds L m m'"
proof -
  have "block_at m' q (fst (own q)) (snd (own q))" if q: "L q = Some (r, al)" for q r al
  proof -
    note O = ownsD [OF o(1) q]
    from O(1) o(2) have "own q \<in> used_nodes bs" by blast
    then show ?thesis using block_at_keeps [OF H _ O(2) k] O(1) used_in(1) [OF H] by simp
  qed
  then show "owns U m' L own" using o(1) by (simp add: owns_def)
  show "holds L m m'"
    unfolding holds_def
  proof (intro allI impI)
    fix q r al a assume q: "L q = Some (r, al)" "in_block q r a"
    have "(fst (own q), snd (own q)) \<in> U" using ownsD(1) [OF o(1) q(1)] by simp
    then show "m' a = m a" using block_data [OF H o q] k unfolding keeps_def by blast
  qed
qed

lemma owns_remove:
  assumes o: "owns U m L own" and q: "L q = Some x"
  shows "owns (U - {own q}) m (L(q := None)) own"
proof -
  have i: "inj_on own (dom L)" and r: "own ` dom L = U" using o by (simp_all add: owns_def)
  have "own ` (dom L - {q}) = own ` dom L - own ` {q}" by (rule inj_on_image_set_diff [OF i]) (use q in auto)
  then show ?thesis using o r inj_on_subset [OF i, of "dom L - {q}"] by (auto simp: owns_def)
qed

lemma owns_add:
  assumes H: "heap_ok p sz m bs" and u: "used_nodes bs = insert (a, w) U" "\<And>v. (a, v) \<notin> U" and o: "owns U m L own"
    and q: "block_at m q a w" "unat q + unat r \<le> unat a + unat (SZ w)" "al \<or> \<not> bit w 30"
  shows "L q = None" "owns (used_nodes bs) m (L(q \<mapsto> (r, al))) (own(q := (a, w)))"
proof -
  have aw: "(a, w) \<in> set bs" using u(1) by (auto simp: used_nodes_def)
  show n: "L q = None"
  proof (rule ccontr)
    assume "L q \<noteq> None"
    then obtain r' al' where l: "L q = Some (r', al')" by auto
    note O = ownsD [OF o l]
    then have "own q \<in> used_nodes bs" using u(1) by simp
    note x = used_in(1) [OF H this]
    have "a = fst (own q)"
      by (rule nodes_apart(1) [OF H aw x block_cell(1) [OF H aw q(1)] block_cell(1) [OF H x O(2)]])
    then show False using u(2) O(1) by (metis prod.collapse)
  qed
  have "(own(q := (a, w))) ` dom (L(q \<mapsto> (r, al))) = insert (a, w) U"
    using o n by (auto simp: owns_def image_iff)
  moreover have "inj_on (own(q := (a, w))) (dom (L(q \<mapsto> (r, al))))"
  proof -
    have "(a, w) \<notin> own ` dom L" using o u(2) by (auto simp: owns_def)
    moreover have "q \<notin> dom L" using n by auto
    moreover have "inj_on own (dom L)" using o by (simp add: owns_def)
    ultimately show ?thesis unfolding inj_on_def by (auto simp: n) (metis domI image_eqI)+
  qed
  ultimately show "owns (used_nodes bs) m (L(q \<mapsto> (r, al))) (own(q := (a, w)))"
    using o q u(1) n unfolding owns_def by (auto split: if_splits)
qed

section \<open>The calls keep the promises\<close>

lemma live_add:
  assumes H: "heap_ok p sz m bs" and o: "owns (used_nodes bs) m L own" and H': "heap_ok p sz m' bs'"
    and u: "used_nodes bs' = insert (a, w) (used_nodes bs)" "\<And>v. (a, v) \<notin> used_nodes bs"
    and q: "block_at m' q a w" "unat q + unat r \<le> unat a + unat (SZ w)" "al \<or> \<not> bit w 30"
    and k: "keeps p sz (used_nodes bs) m m'"
  shows "L q = None \<and> live_ok p sz m' (L(q \<mapsto> (r, al))) \<and> holds L m m'"
proof -
  note K = owns_keeps [OF H o subset_refl k]
  from owns_add [where al = al, OF H' u K(1) q] show ?thesis using K(2) H' unfolding live_ok_def by blast
qed

lemma MemAlloc_used:
  assumes H: "heap_ok p sz m bs" and r: "8 \<le> unat r" "unat r < 2 ^ 30"
  shows "OsMemAlloc p r m = Some (0, m)
    \<or> (\<exists>a w m' bs'. OsMemAlloc p r m = Some (a + 8, m') \<and> heap_ok p sz m' bs' \<and> used_nodes bs' = insert (a, w) (used_nodes bs)
      \<and> (\<forall>v. (a, v) \<notin> used_nodes bs) \<and> bit w 31 \<and> \<not> bit w 30 \<and> unat (a + 8) + unat r \<le> unat a + unat (SZ w)
      \<and> unat (a + 8) = unat a + 8 \<and> keeps p sz (used_nodes bs) m m')"
proof -
  from MemAlloc [OF H r] show ?thesis
  proof (elim disjE exE conjE)
    fix a bs' m' assume A: "OsMemAlloc p r m = Some (a + 8, m')" "takes (alloc_size r) a bs bs'"
      "heap_ok p sz m' bs'" "keeps p sz (used_nodes bs) m m'"
    note R = heap_okD(1) [OF H]
    have ps: "plain (alloc_size r)" and fp: "\<And>w. (a, w) \<in> free_nodes bs \<Longrightarrow> plain w"
      using A(2) repD(6) [OF R] unfolding takes_def plain_def by fastforce+
    from takes_used [OF A(2) ps fp rep_distinct [OF R]] obtain w where W:
      "used_nodes bs' = insert (a, w) (used_nodes bs)" "bit w 31" "\<not> bit w 30"
      "unat (alloc_size r) \<le> unat (SZ w)" "\<forall>v. (a, v) \<notin> used_nodes bs" by blast
    have u: "unat (a + 8) = unat a + 8"
      by (rule pool_ptr(1) [OF heap_okD(1) [OF A(3)], of a w]) (use W(1) in \<open>auto simp: used_nodes_def\<close>)
    have "unat (a + 8) + unat r \<le> unat a + unat (SZ w)" using u alloc_size(4) [OF r] W(4) by linarith
    then show ?thesis using A W u by blast
  qed blast
qed

text \<open>A size that reaches into the flag bits, or is 0, is refused.\<close>

lemma MemAlloc_refused: "\<not> (r \<noteq> 0 \<and> unat r < 2 ^ 30) \<Longrightarrow> LOS_MemAlloc p r m = Some (0, m)"
  using plain_flags [of r] plain_iff [of r]
  by (cases "r = 0") (auto simp: LOS_MemAlloc_def OS_MEM_MIN_ALLOC_SIZE_def word_less_nat_alt)

lemma MemRealloc_refused: "\<not> unat r < 2 ^ 30 \<Longrightarrow> LOS_MemRealloc p q r m = Some (0, m)"
  using plain_flags [of r] plain_iff [of r] by (auto simp: LOS_MemRealloc_def)

lemma live_alloc_small:
  assumes "live_ok p sz m L" and r: "r \<noteq> 0" "unat r < 2 ^ 30"
  shows "\<exists>q m'. LOS_MemAlloc p r m = Some (q, m')
    \<and> (if q = 0 then m' = m else L q = None \<and> live_ok p sz m' (L(q \<mapsto> (r, False))) \<and> holds L m m')"
proof -
  from assms(1) obtain bs own where H: "heap_ok p sz m bs" and o: "owns (used_nodes bs) m L own"
    unfolding live_ok_def by blast
  note M = max_req(1,2) [of r] max_req(3) [OF r(2)]
  from MemAlloc_used [OF H M(1,3)] show ?thesis unfolding LOS_MemAlloc_call [OF H r]
  proof (elim disjE exE conjE)
    fix a w m' bs' assume A: "OsMemAlloc p (max_req r) m = Some (a + 8, m')" "heap_ok p sz m' bs'"
      "used_nodes bs' = insert (a, w) (used_nodes bs)" "\<forall>v. (a, v) \<notin> used_nodes bs" "bit w 31" "\<not> bit w 30"
      "unat (a + 8) + unat (max_req r) \<le> unat a + unat (SZ w)" "unat (a + 8) = unat a + 8" "keeps p sz (used_nodes bs) m m'"
    have b: "block_at m' (a + 8) a w" using A(5,6) by (simp add: block_at_def)
    have f: "unat (a + 8) + unat r \<le> unat a + unat (SZ w)" using A(7) M(2) by linarith
    have "a + 8 \<noteq> 0" using A(8) by (metis add_is_0 unsigned_0 zero_neq_numeral)
    moreover have "L (a + 8) = None \<and> live_ok p sz m' (L(a + 8 \<mapsto> (r, False))) \<and> holds L m m'"
      by (rule live_add [OF H o A(2,3) _ b f _ A(9)]) (use A(4,6) in simp_all)
    ultimately show "\<exists>q m'. OsMemAlloc p (max_req r) m = Some (q, m')
        \<and> (if q = 0 then m' = m else L q = None \<and> live_ok p sz m' (L(q \<mapsto> (r, False))) \<and> holds L m m')"
      using A(1) by (intro exI [of _ "a + 8"] exI [of _ m']) simp
  qed simp
qed

lemma live_alloc:
  assumes "live_ok p sz m L"
  shows "\<exists>q m'. LOS_MemAlloc p r m = Some (q, m')
    \<and> (if q = 0 then m' = m else L q = None \<and> live_ok p sz m' (L(q \<mapsto> (r, False))) \<and> holds L m m')"
  using live_alloc_small [OF assms] MemAlloc_refused [of r p m] by (cases "r \<noteq> 0 \<and> unat r < 2 ^ 30") auto

lemma live_free:
  assumes "live_ok p sz m L" and q: "L q = Some x"
  shows "\<exists>m'. LOS_MemFree p q m = Some (LOS_OK, m') \<and> live_ok p sz m' (L(q := None)) \<and> holds (L(q := None)) m m'"
proof -
  from assms(1) obtain bs own where H: "heap_ok p sz m bs" and o: "owns (used_nodes bs) m L own"
    unfolding live_ok_def by blast
  obtain r al where l: "L q = Some (r, al)" using q by (cases x) auto
  obtain n w where nw: "own q = (n, w)" by (cases "own q")
  note O = ownsD [OF o l, unfolded nw fst_conv snd_conv]
  from MemFree [OF H O(1)] obtain m' bs' where F: "OsMemFree p n m = Some (LOS_OK, m')" "frees n w bs bs'"
    "heap_ok p sz m' bs'" "keeps p sz (used_nodes bs - {(n, w)}) m m'" by blast
  have "owns (used_nodes bs - {(n, w)}) m (L(q := None)) own" using owns_remove [OF o q] by (simp add: nw)
  note K = owns_keeps [OF H this _ F(4)]
  have "live_ok p sz m' (L(q := None))"
    unfolding live_ok_def using F(3) K(1) by (intro exI [of _ bs'] exI [of _ own]) (simp add: frees_used [OF H F(2)])
  then show ?thesis using F(1) K(2) by (simp add: LOS_MemFree_call [OF H O(1,2)])
qed

text \<open>An aligned request is looked at unless it is malformed or too large.\<close>

definition align_request_ok :: "u32 \<Rightarrow> u32 \<Rightarrow> u32 \<Rightarrow> bool" where
  "align_request_ok p r b \<longleftrightarrow> \<not> (p = 0 \<or> r = 0 \<or> b = 0 \<or> \<not> OS_MEM_IS_POW_TWO b \<or> \<not> OS_MEM_IS_ALIGNED b 4)
    \<and> \<not> b - 4 > 0xFFFFFFFF - max_req r
    \<and> \<not> (OS_MEM_NODE_GET_USED_FLAG (max_req r + b - 4) \<noteq> 0 \<or> OS_MEM_NODE_GET_ALIGNED_FLAG (max_req r + b - 4) \<noteq> 0)"

lemma MemAllocAlign_total:
  assumes H: "heap_ok p sz m bs"
  shows "\<exists>q m'. LOS_MemAllocAlign p r b m = Some (q, m') \<and> (q = 0 \<longrightarrow> m' = m)
    \<and> (q = 0 \<longrightarrow> align_request_ok p r b \<longrightarrow> OsMemAlloc p (max_req r + b - 4) m = Some (0, m))"
proof -
  let ?u = "(max_req r + b) - 4" and ?go = "align_request_ok p r b"
  show ?thesis
  proof (cases ?go)
    case False
    then have "LOS_MemAllocAlign p r b m = Some (0, m)"
      by (auto simp: LOS_MemAllocAlign_def Let_def max_req_def [symmetric] align_request_ok_def)
    then show ?thesis using False by simp
  next
    case True
    then have g: "b \<noteq> 0" "OS_MEM_IS_POW_TWO b" "OS_MEM_IS_ALIGNED b 4" "\<not> b - 4 > 0xFFFFFFFF - max_req r" "plain ?u"
      using plain_flags unfolding align_request_ok_def by blast+
    note rq = align_request [OF g(1,3-5)]
    have e: "LOS_MemAllocAlign p r b m = (case OsMemAlloc p ?u m of None \<Rightarrow> None
        | Some (ptr, m1) \<Rightarrow> if ptr = OS_MEM_ALIGN ptr b then Some (ptr, m1)
            else Some (OS_MEM_ALIGN ptr b, m1(node_size (ptr - 8) := OS_MEM_NODE_SET_ALIGNED_FLAG (m1 (node_size (ptr - 8))),
                   OS_MEM_ALIGN ptr b - 4 := OS_MEM_SET_GAPSIZE_ALIGNED_FLAG (OS_MEM_ALIGN ptr b - ptr))))"
      using True unfolding align_request_ok_def by (simp add: LOS_MemAllocAlign_def Let_def max_req_def [symmetric] OS_MEM_NODE_HEAD_SIZE_def
          split: option.split)
    from MemAlloc_used [OF H rq(4,5)] show ?thesis
    proof (elim disjE exE conjE)
      assume "OsMemAlloc p ?u m = Some (0, m)"
      then show ?thesis using e by (simp add: OS_MEM_ALIGN_def)
    next
      fix a w m' bs' assume A: "OsMemAlloc p ?u m = Some (a + 8, m')" "heap_ok p sz m' bs'"
        "used_nodes bs' = insert (a, w) (used_nodes bs)" "unat (a + 8) + unat ?u \<le> unat a + unat (SZ w)" "unat (a + 8) = unat a + 8"
      have "(a, w) \<in> set bs'" using A(3) by (auto simp: used_nodes_def)
      from rep_node(6) [OF heap_okD(1) [OF A(2)] this]
      have "unat (a + 8) + unat b \<le> 2 ^ 32"
        using A(4) rq(1,3) max_req(1) [of r] unat_less32 [of "OS_MEM_END_NODE p sz"] by linarith
      from align_up(1) [OF g(2,1) this] have "unat (OS_MEM_ALIGN (a + 8) b) \<noteq> 0" using A(5) by linarith
      then have "OS_MEM_ALIGN (a + 8) b \<noteq> 0" by (metis unsigned_0)
      then show ?thesis using e A(1) by (simp split: if_splits)
    qed
  qed
qed

lemma live_align:
  assumes "live_ok p sz m L"
  shows "\<exists>q m'. LOS_MemAllocAlign p r b m = Some (q, m')
    \<and> (if q = 0 then m' = m
       else L q = None \<and> live_ok p sz m' (L(q \<mapsto> (r, True))) \<and> holds L m m' \<and> unat b dvd unat q)"
proof -
  from assms(1) obtain bs own where H: "heap_ok p sz m bs" and o: "owns (used_nodes bs) m L own"
    unfolding live_ok_def by blast
  from MemAllocAlign_total [OF H] obtain q m' where Q: "LOS_MemAllocAlign p r b m = Some (q, m')" "q = 0 \<longrightarrow> m' = m" by blast
  have "L q = None \<and> live_ok p sz m' (L(q \<mapsto> (r, True))) \<and> holds L m m' \<and> unat b dvd unat q" if q: "q \<noteq> 0"
  proof -
    have r: "r \<noteq> 0" using Q(1) q by (auto simp: LOS_MemAllocAlign_def)
    from MemAllocAlign [OF H r Q(1) q] obtain a w bs' where A: "heap_ok p sz m' bs'" "used_nodes bs' = insert (a, w) (used_nodes bs)"
      "block_at m' q a w" "\<forall>v. (a, v) \<notin> used_nodes bs" "unat b dvd unat q" "unat q + unat r \<le> unat a + unat (SZ w)"
      "keeps p sz (used_nodes bs) m m'" by blast
    show ?thesis using live_add [where al = True, OF H o A(1,2) _ A(3,6) _ A(7)] A(4,5) by simp
  qed
  then show ?thesis using Q by (intro exI [of _ q] exI [of _ m']) simp
qed

lemma MemRealloc_call:
  assumes H: "heap_ok p sz m bs" and n: "(n, w) \<in> used_nodes bs" "\<not> bit w 30" and r: "r \<noteq> 0" "unat r < 2 ^ 30"
  shows "LOS_MemRealloc p (n + 8) r m = OsMemRealloc p (n + 8) n (max_req r) m"
proof -
  have nb: "(n, w) \<in> set bs" and b: "block_at m (n + 8) n w" using n by (simp_all add: used_nodes_def block_at_def)
  note R = heap_okD(1) [OF H]
  have "plain r" using r(2) by (simp add: plain_def)
  then have f: "OS_MEM_NODE_GET_USED_FLAG r = 0" "OS_MEM_NODE_GET_ALIGNED_FLAG r = 0" using plain_flags [of r] by simp_all
  show ?thesis
    using r(1) f pool_ptr(2) [OF R nb] block_ptr [OF R nb b] CheckUsedNode [OF H n(1)]
    by (simp add: LOS_MemRealloc_def Let_def max_req_def OS_MEM_NODE_HEAD_SIZE_def)
qed

lemma MemRealloc:
  assumes H: "heap_ok p sz m bs" and n: "(n, w) \<in> used_nodes bs" "\<not> bit w 30" and r: "r \<noteq> 0" "unat r < 2 ^ 30"
  shows "LOS_MemRealloc p (n + 8) r m = Some (0, m)
    \<or> (\<exists>q m'. LOS_MemRealloc p (n + 8) r m = Some (q, m') \<and> moved p sz m m' bs n w (max_req r) q)"
proof -
  note M = max_req(1) [of r] max_req(3) [OF r(2)]
  show ?thesis unfolding MemRealloc_call [OF H n r]
    using ReallocInPlace [OF H n(1) M] ReallocMove [OF H n(1) M] by (metis linorder_not_less)
qed

lemma live_resize_small:
  assumes "live_ok p sz m L" and q: "L q = Some (r, False)" and r: "r' \<noteq> 0" "unat r' < 2 ^ 30"
  shows "\<exists>q' m'. LOS_MemRealloc p q r' m = Some (q', m')
    \<and> (if q' = 0 then m' = m
       else (q' = q \<or> L q' = None) \<and> live_ok p sz m' (L(q := None, q' \<mapsto> (r', False))) \<and> holds (L(q := None)) m m'
         \<and> (\<forall>i. unat i < unat r \<longrightarrow> unat i < unat r' \<longrightarrow> m' (q' + i) = m (q + i)))"
proof -
  from assms(1) obtain bs own where H: "heap_ok p sz m bs" and o: "owns (used_nodes bs) m L own"
    unfolding live_ok_def by blast
  obtain n w where nw: "own q = (n, w)" by (cases "own q")
  note O = ownsD [OF o q, unfolded nw fst_conv snd_conv]
  have w: "\<not> bit w 30" and qn: "q = n + 8" using O(2,3) by (simp_all add: block_at_def)
  have u8: "unat q = unat n + 8" using pool_ptr(1) [OF heap_okD(1) [OF H], of n w] O(1) qn by (simp add: used_nodes_def)
  have rm: "owns (used_nodes bs - {(n, w)}) m (L(q := None)) own" using owns_remove [OF o q] by (simp add: nw)
  from MemRealloc [OF H O(1) w r] show ?thesis unfolding qn [symmetric]
  proof (elim disjE exE conjE)
    fix q' m' assume A: "LOS_MemRealloc p q r' m = Some (q', m')" "moved p sz m m' bs n w (max_req r') q'"
    from A(2) obtain k w' bs' where B: "q' = k + 8" "heap_ok p sz m' bs'" "bit w' 31" "\<not> bit w' 30"
      "unat (max_req r') + 8 \<le> unat (SZ w')" "used_nodes bs' = insert (k, w') (used_nodes bs - {(n, w)})"
      "\<forall>v. (k, v) \<notin> used_nodes bs - {(n, w)}"
      "\<forall>i. unat i < unat (max_req r') \<longrightarrow> unat i + 8 < unat (SZ w) \<longrightarrow> m' (q' + i) = m (n + 8 + i)"
      "keeps p sz (used_nodes bs - {(n, w)}) m m'" unfolding moved_def by blast
    have k8: "unat q' = unat k + 8"
      using pool_ptr(1) [OF heap_okD(1) [OF B(2)], of k w'] B(1,6) by (auto simp: used_nodes_def)
    note K = owns_keeps [OF H rm _ B(9)]
    have b: "block_at m' q' k w'" using B(1,3,4) by (simp add: block_at_def)
    have f: "unat q' + unat r' \<le> unat k + unat (SZ w')" using B(5) k8 max_req(2) [of r'] by linarith
    note ad = owns_add [where al = False, OF B(2,6) _ K(1) b f]
    have "q' = q \<or> L q' = None" using ad(1) B(4,7) by (auto split: if_splits)
    moreover have "live_ok p sz m' (L(q := None, q' \<mapsto> (r', False)))"
      unfolding live_ok_def using ad(2) B(2,4,7) by blast
    moreover have "m' (q' + i) = m (q + i)" if "unat i < unat r" "unat i < unat r'" for i
    proof -
      have "unat i < unat (max_req r')" using that(2) max_req(2) [of r'] by linarith
      moreover have "unat i + 8 < unat (SZ w)" using that(1) O(4) u8 by linarith
      ultimately show ?thesis using B(8) unfolding qn by blast
    qed
    moreover have "q' \<noteq> 0" using k8 by (metis add_is_0 unsigned_0 zero_neq_numeral)
    ultimately show "\<exists>q' m'. LOS_MemRealloc p q r' m = Some (q', m')
      \<and> (if q' = 0 then m' = m
         else (q' = q \<or> L q' = None) \<and> live_ok p sz m' (L(q := None, q' \<mapsto> (r', False))) \<and> holds (L(q := None)) m m'
           \<and> (\<forall>i. unat i < unat r \<longrightarrow> unat i < unat r' \<longrightarrow> m' (q' + i) = m (q + i)))"
      using A(1) K(2) by (intro exI [of _ q'] exI [of _ m']) simp
  qed simp
qed

lemma live_resize:
  assumes "live_ok p sz m L" "L q = Some (r, False)" "r' \<noteq> 0"
  shows "\<exists>q' m'. LOS_MemRealloc p q r' m = Some (q', m')
    \<and> (if q' = 0 then m' = m
       else (q' = q \<or> L q' = None) \<and> live_ok p sz m' (L(q := None, q' \<mapsto> (r', False))) \<and> holds (L(q := None)) m m'
         \<and> (\<forall>i. unat i < unat r \<longrightarrow> unat i < unat r' \<longrightarrow> m' (q' + i) = m (q + i)))"
  using live_resize_small [OF assms] MemRealloc_refused [of r' p q m] by (cases "unat r' < 2 ^ 30") simp_all

lemma live_write:
  assumes "live_ok p sz m L" and c: "\<And>a. m' a \<noteq> m a \<Longrightarrow> \<exists>q r al. L q = Some (r, al) \<and> in_block q r a"
  shows "live_ok p sz m' L"
proof -
  from assms(1) obtain bs own where H: "heap_ok p sz m bs" and o: "owns (used_nodes bs) m L own"
    unfolding live_ok_def by blast
  have H': "heap_ok p sz m' bs"
  proof (rule heap_data [OF H])
    fix a assume "m' a \<noteq> m a"
    then obtain q r al where q: "L q = Some (r, al)" "in_block q r a" using c by blast
    show "\<exists>n w. (n, w) \<in> used_nodes bs \<and> data_cell n w a"
      using block_data [OF H o subset_refl q] ownsD(1) [OF o q(1)] by (metis prod.collapse)
  qed
  have "block_at m' q (fst (own q)) (snd (own q))" if q: "L q = Some (r, al)" for q r al
  proof -
    note O = ownsD [OF o q]
    note N = used_in(1) [OF H O(1)]
    have "m' (q - 4) = m (q - 4)" if b: "bit (snd (own q)) 30"
    proof (rule ccontr)
      assume "m' (q - 4) \<noteq> m (q - 4)"
      then obtain q2 r2 al2 where q2: "L q2 = Some (r2, al2)" "in_block q2 r2 (q - 4)" using c by blast
      note O2 = ownsD [OF o q2(1)]
      have far: "unat (fst (own q)) + 12 \<le> unat q" "unat q < unat (fst (own q)) + unat (SZ (snd (own q)))"
        using O(2) b by (simp_all add: block_at_def)
      have u: "unat (q - 4) = unat q - 4" using far by (subst unat_sub) (simp_all add: word_le_nat_alt)
      have d: "data_cell (fst (own q)) (snd (own q)) (q - 4)" unfolding data_cell_def u using far by linarith
      from nodes_apart [OF H N used_in(1) [OF H O2(1)] d block_data [OF H o subset_refl q2]]
      have "own q = own q2" by (simp add: prod_eq_iff)
      then have "q = q2" using o q q2(1) unfolding owns_def by (meson domI inj_onD)
      then have "unat q \<le> unat (q - 4)" using q2(2) unfolding in_block_def by blast
      then show False using u far(1) by linarith
    qed
    then show ?thesis using O(2) by (simp add: block_at_def)
  qed
  then have "owns (used_nodes bs) m' L own" using o by (simp add: owns_def)
  then show ?thesis using H' unfolding live_ok_def by blast
qed

lemma live_disjoint:
  assumes "live_ok p sz m L" and q: "L q = Some (r, al)" "L q' = Some (r', al')" "q \<noteq> q'" "in_block q r a"
  shows "\<not> in_block q' r' a"
proof -
  from assms(1) obtain bs own where H: "heap_ok p sz m bs" and o: "owns (used_nodes bs) m L own"
    unfolding live_ok_def by blast
  show ?thesis by (rule live_apart [OF H o q])
qed

interpretation lh: block_heap "live_ok p sz" "LOS_MemAlloc p" "LOS_MemAllocAlign p" "LOS_MemFree p" "LOS_MemRealloc p" for p sz
  by unfold_locales
    (rule live_alloc live_align live_free live_resize live_disjoint live_write; assumption | blast)+

text \<open>What follows for a client: a new block overlaps none of the others, and a resized one none of those left.\<close>

context block_heap begin

lemma alloc_apart:
  assumes "ok m L" "alloc r m = Some (q, m')" "q \<noteq> 0" "L q' = Some (r', al')" "in_block q' r' a"
  shows "\<not> in_block q r a" "m' a = m a"
proof -
  from alloc_law [OF assms(1), of r] assms(2,3) have A: "L q = None" "ok m' (L(q \<mapsto> (r, False)))" "holds L m m'" by auto
  have "q' \<noteq> q" using A(1) assms(4) by auto
  then show "\<not> in_block q r a"
    using apart_law [OF A(2), of q' r' al' q r False a] assms(4,5) by simp
  show "m' a = m a" using A(3) assms(4,5) unfolding holds_def by blast
qed

text \<open>A block that is taken and given back leaves the client with what it held.\<close>

lemma alloc_free:
  assumes "ok m L" "alloc r m = Some (q, m1)" "q \<noteq> 0"
  shows "\<exists>m2. free q m1 = Some (LOS_OK, m2) \<and> ok m2 L \<and> holds L m m2"
proof -
  from alloc_law [OF assms(1), of r] assms(2,3) have A: "L q = None" "ok m1 (L(q \<mapsto> (r, False)))" "holds L m m1" by auto
  from free_law [OF A(2), of q "(r, False)"] obtain m2 where F: "free q m1 = Some (LOS_OK, m2)"
    "ok m2 (L(q \<mapsto> (r, False), q := None))" "holds (L(q \<mapsto> (r, False), q := None)) m1 m2" by auto
  have "L(q \<mapsto> (r, False), q := None) = L" using A(1) by (simp add: fun_upd_idem)
  then show ?thesis using F A(3) unfolding holds_def by auto
qed

end

end
