(* ===== verification/Los_HeapSteps.thy ===== *)
theory Los_HeapSteps
  imports Los_HeapLive
begin

text \<open>
  A pool in use: from its initialisation on, the program takes, resizes, gives back and writes blocks
  in any order. The step relation records what the program holds; its invariant is \<open>live_ok\<close>, kept
  by the laws of the interface.
\<close>

section \<open>The steps\<close>

datatype heap_op = Alloc u32 | Align u32 u32 | Release u32 | Resize u32 u32 | Store u32 u32

inductive heap_step :: "u32 \<Rightarrow> heap_op \<Rightarrow> hmem \<times> live \<Rightarrow> hmem \<times> live \<Rightarrow> bool" for p where
  step_alloc: "LOS_MemAlloc p r m = Some (q, m') \<Longrightarrow>
    heap_step p (Alloc r) (m, L) (m', if q = 0 then L else L(q \<mapsto> (r, False)))"
| step_align: "LOS_MemAllocAlign p r b m = Some (q, m') \<Longrightarrow>
    heap_step p (Align r b) (m, L) (m', if q = 0 then L else L(q \<mapsto> (r, True)))"
| step_free: "L q = Some x \<Longrightarrow> LOS_MemFree p q m = Some (ret, m') \<Longrightarrow>
    heap_step p (Release q) (m, L) (m', L(q := None))"
| step_resize: "L q = Some (r, False) \<Longrightarrow> r' \<noteq> 0 \<Longrightarrow> LOS_MemRealloc p q r' m = Some (q', m') \<Longrightarrow>
    heap_step p (Resize q r') (m, L) (m', if q' = 0 then L else L(q := None, q' \<mapsto> (r', False)))"
| step_store: "L q = Some (r, al) \<Longrightarrow> in_block q r a \<Longrightarrow>
    heap_step p (Store a v) (m, L) (m(a := v), L)"

inductive_cases heap_stepE [elim!]:
  "heap_step p (Alloc r) (m, L) (m', L')"
  "heap_step p (Align r b) (m, L) (m', L')"
  "heap_step p (Release q) (m, L) (m', L')"
  "heap_step p (Resize q r) (m, L) (m', L')"
  "heap_step p (Store a v) (m, L) (m', L')"

inductive heap_reach :: "u32 \<Rightarrow> u32 \<Rightarrow> hmem \<Rightarrow> live \<Rightarrow> bool" for p sz where
  reach_init: "g_poolHead h = 0 \<Longrightarrow> LOS_MemInit p sz h = Some (LOS_OK, h') \<Longrightarrow> heap_reach p sz (hm h') (\<lambda>_. None)"
| reach_step: "heap_reach p sz m L \<Longrightarrow> heap_step p e (m, L) (m', L') \<Longrightarrow> heap_reach p sz m' L'"

section \<open>The invariant\<close>

lemma live_step:
  assumes ok: "live_ok p sz m L" and s: "heap_step p e (m, L) (m', L')"
  shows "live_ok p sz m' L'"
proof (cases e)
  case (Alloc r)
  then show ?thesis using s ok lh.alloc_law [OF ok, of r] by (auto split: if_splits)
next
  case (Align r b)
  then show ?thesis using s ok lh.align_law [OF ok, of r b] by (auto split: if_splits)
next
  case (Release q)
  with s obtain x ret where q: "L q = Some x" "LOS_MemFree p q m = Some (ret, m')" "L' = L(q := None)" by auto
  then show ?thesis using lh.free_law [OF ok q(1)] by auto
next
  case (Resize q r')
  with s obtain r q' where q: "L q = Some (r, False)" "r' \<noteq> 0" "LOS_MemRealloc p q r' m = Some (q', m')"
    "L' = (if q' = 0 then L else L(q := None, q' \<mapsto> (r', False)))" by auto
  then show ?thesis using lh.resize_law [OF ok q(1,2)] ok by (auto split: if_splits)
next
  case (Store a v)
  with s obtain q r al where q: "L q = Some (r, al)" "in_block q r a" "m' = m(a := v)" "L' = L" by auto
  show ?thesis unfolding q(4) by (rule lh.write_law [OF ok]) (use q(1-3) in \<open>auto split: if_splits\<close>)
qed

lemma live_init:
  assumes "pool_fits p sz" "g_poolHead h = 0" "LOS_MemInit p sz h = Some (LOS_OK, h')"
  shows "heap_ok p sz (hm h') (first_node p sz)" "live_ok p sz (hm h') (\<lambda>_. None)"
proof -
  have "heaps_ok h []" using assms(2) by (simp add: heaps_ok_def)
  from MemInit [OF this assms(1)] assms(3) have "heaps_ok h' [(p, sz, first_node p sz)]" by auto
  then show H: "heap_ok p sz (hm h') (first_node p sz)" by (simp add: heaps_ok_def)
  have "plain (sz - 952)" by (rule first_seg(3) [OF assms(1)])
  then have "used_nodes (first_node p sz) = {}" using plain_free by (simp add: used_nodes_simps)
  then show "live_ok p sz (hm h') (\<lambda>_. None)" unfolding live_ok_def owns_def using H by auto
qed

lemma reach_ok:
  assumes "heap_reach p sz m L" "pool_fits p sz"
  shows "live_ok p sz m L"
  using assms(1)
proof induction
  case (reach_init h h')
  then show ?case by (rule live_init(2) [OF assms(2)])
next
  case (reach_step m L e m' L')
  show ?case by (rule live_step [OF reach_step(3,2)])
qed

text \<open>A step leaves the blocks it is not about, and their contents.\<close>

lemma step_keeps:
  assumes ok: "live_ok p sz m L" and s: "heap_step p e (m, L) (m', L')"
    and q: "L q = Some (r, al)" "in_block q r a"
    and e: "e \<noteq> Release q" "\<And>r'. e \<noteq> Resize q r'" "\<And>v. e \<noteq> Store a v"
  shows "L' q = Some (r, al)" "m' a = m a"
proof -
  have keep: "m' a = m a" if "holds K m m'" "K q = Some (r, al)" for K
    using that q(2) unfolding holds_def by blast
  have "L' q = Some (r, al) \<and> m' a = m a"
  proof (cases e)
    case (Alloc r')
    then show ?thesis using s q keep [of L] lh.alloc_law [OF ok, of r'] by (auto split: if_splits)
  next
    case (Align r' b)
    then show ?thesis using s q keep [of L] lh.align_law [OF ok, of r' b] by (auto split: if_splits)
  next
    case (Release k)
    with s e(1) obtain x ret where k: "L k = Some x" "LOS_MemFree p k m = Some (ret, m')" "L' = L(k := None)" "k \<noteq> q" by auto
    then have l: "(L(k := None)) q = Some (r, al)" using q(1) by simp
    from lh.free_law [OF ok k(1)] k(2) have "holds (L(k := None)) m m'" by auto
    from keep [OF this l] l k(3) show ?thesis by simp
  next
    case (Resize k r')
    with s e(2) obtain r0 k' where k: "L k = Some (r0, False)" "r' \<noteq> 0" "LOS_MemRealloc p k r' m = Some (k', m')"
      "L' = (if k' = 0 then L else L(k := None, k' \<mapsto> (r', False)))" "k \<noteq> q" by auto
    then have l: "(L(k := None)) q = Some (r, al)" using q(1) by simp
    from lh.resize_law [OF ok k(1,2)] k(3)
    have c: "if k' = 0 then m' = m else (k' = k \<or> L k' = None) \<and> holds (L(k := None)) m m'" by (auto split: if_splits)
    show ?thesis
    proof (cases "k' = 0")
      case False
      then have "k' \<noteq> q" "holds (L(k := None)) m m'" using c k(5) q(1) by auto
      then show ?thesis using keep [of "L(k := None)", OF _ l] k(4,5) q(1) False by simp
    qed (use c k(4) q(1) in simp)
  next
    case (Store b v)
    with s e(3) have "m' = m(b := v)" "L' = L" "b \<noteq> a" by auto
    then show ?thesis using q(1) by simp
  qed
  then show "L' q = Some (r, al)" "m' a = m a" by simp_all
qed

end
