(* ===== verification/Los_HeapProps.thy ===== *)
theory Los_HeapProps
  imports Los_HeapSteps
begin

text \<open>
  The properties of the heap: what each call does to a well-formed pool, and what holds of a pool
  however the program uses it.
\<close>

section \<open>Consequences of the invariant\<close>

lemma no_used:
  assumes H: "heap_ok p sz m bs" and u: "used_nodes bs = {}"
  shows "bs = first_node p sz"
proof -
  note R = heap_okD(1) [OF H] and D = repD [OF heap_okD(1) [OF H]]
  have f: "\<not> bit w 31" if "(n, w) \<in> set bs" for n w using u that by (auto simp: used_nodes_def)
  obtain n w vs where bs: "bs = (n, w) # vs" using D(3) by (metis neq_Nil_conv surj_pair)
  have "vs = []"
  proof (rule ccontr)
    assume "vs \<noteq> []"
    then obtain k v vs' where "vs = (k, v) # vs'" by (metis neq_Nil_conv surj_pair)
    then show False using heap_okD(2) [OF H] f [of n w] f [of k v] by (simp add: bs merged_Cons)
  qed
  then have b: "bs = [(n, w)]" by (simp add: bs)
  then have s: "n = OS_MEM_FIRST_NODE p" "OS_MEM_FIRST_NODE p + SZ w = OS_MEM_END_NODE p sz"
    using D(2) by auto
  have "plain w" using repD(6) [OF R, of n w] f [of n w] b by (simp add: free_nodes_def)
  then have "SZ w = w" by (rule plain_SZ)
  moreover have "OS_MEM_END_NODE p sz - OS_MEM_FIRST_NODE p = sz - 952"
    by (simp add: OS_MEM_FIRST_NODE_def OS_MEM_END_NODE_def sizeof_OsMemPoolHead_def OS_MEM_NODE_HEAD_SIZE_def)
  ultimately have "w = sz - 952" using s(2) by (metis add_diff_cancel_left')
  then show ?thesis using b s(1) by simp
qed

lemma live_none:
  assumes "live_ok p sz m (\<lambda>_. None)"
  shows "heap_ok p sz m (first_node p sz)"
proof -
  from assms obtain bs own where H: "heap_ok p sz m bs" and o: "owns (used_nodes bs) m (\<lambda>_. None) own"
    unfolding live_ok_def by blast
  from o have "used_nodes bs = {}" by (simp add: owns_def)
  from no_used [OF H this] H show ?thesis by simp
qed

text \<open>In a pool with a single free node everything that fits is granted.\<close>

lemma whole_alloc:
  assumes H: "heap_ok p sz m (first_node p sz)" and r: "0 < unat r" "unat r + 960 \<le> unat sz"
  shows "\<exists>q m'. LOS_MemAlloc p r m = Some (q, m') \<and> q \<noteq> 0"
proof -
  note R = heap_okD(1) [OF H] and f = repD(1) [OF heap_okD(1) [OF H], unfolded pool_fits_def]
  note S = first_seg [OF repD(1) [OF R]]
  have r': "r \<noteq> 0" "unat r < 2 ^ 30" using r f by auto
  note M = max_req(1,2) [of r] max_req(3) [OF r'(2)]
  note A = alloc_size [OF M(1,3)]
  have mr: "unat (max_req r) + 960 \<le> unat sz"
    using r(2) f by (simp add: max_req_def OS_MEM_MIN_ALLOC_SIZE_def)
  have "unat (alloc_size (max_req r)) \<le> unat (sz - 952)"
  proof -
    have "4 dvd unat (sz - 952)" using S(2) f by (simp add: dvd_diff_nat)
    moreover have "unat (alloc_size (max_req r)) < unat (sz - 952) + 4" using A(5) mr S(2) by linarith
    ultimately show ?thesis using A(2) by presburger
  qed
  moreover have "(OS_MEM_FIRST_NODE p, sz - 952) \<in> free_nodes (first_node p sz)"
    using plain_free [OF S(3)] by (simp add: free_nodes_def)
  ultimately have "\<not> (\<forall>(n, w)\<in>free_nodes (first_node p sz). unat w < unat (alloc_size (max_req r)))" by fastforce
  with MemAlloc [OF H M(1,3)] obtain a bs' m' where B: "OsMemAlloc p (max_req r) m = Some (a + 8, m')"
    "takes (alloc_size (max_req r)) a (first_node p sz) bs'" by blast
  then have "a = OS_MEM_FIRST_NODE p" by (auto simp: takes_def free_nodes_def)
  then have "a + 8 \<noteq> 0"
    using pool_ptr(1) [OF R, of a "sz - 952"] by (metis add_is_0 list.set_intros(1) unsigned_0 zero_neq_numeral)
  then show ?thesis using B(1) by (simp add: LOS_MemAlloc_call [OF H r'])
qed

text \<open>Where a block lies.\<close>

lemma live_range:
  assumes "live_ok p sz m L" "L q = Some (r, al)"
  shows "4 dvd unat q" "unat p + 952 \<le> unat q" "unat q + unat r + 8 \<le> unat p + unat sz"
proof -
  from assms(1) obtain bs own where H: "heap_ok p sz m bs" and o: "owns (used_nodes bs) m L own"
    unfolding live_ok_def by blast
  note O = ownsD [OF o assms(2)] and R = heap_okD(1) [OF H]
  note n = used_in(1) [OF H O(1)]
  note N = rep_node [OF R n] and u = unat_end [OF repD(1) [OF R]] and f = repD(1) [OF R, unfolded pool_fits_def]
  show "4 dvd unat q" using block_ptr(2) [OF R n O(2)] by (simp add: aligned4)
  show "unat p + 952 \<le> unat q" using block_cell(2) [OF H n O(2)] N(7) by linarith
  show "unat q + unat r + 8 \<le> unat p + unat sz" using O(4) N(6) u f by linarith
qed

section \<open>Sample pools\<close>

definition ex_memory :: heap_state where
  "ex_memory = \<lparr>hm = (\<lambda>_. 0), g_poolHead = 0, m_aucSysMem0 = 0\<rparr>"

lemma ex_fits: "pool_fits 0x1000 0x1000" by (simp add: pool_fits_def)

lemma ex_init: "\<exists>h'. LOS_MemInit 0x1000 0x1000 ex_memory = Some (LOS_OK, h') \<and> heap_reach 0x1000 0x1000 (hm h') (\<lambda>_. None)
    \<and> heap_ok 0x1000 0x1000 (hm h') (first_node 0x1000 0x1000)"
proof -
  have "heaps_ok ex_memory []" by (simp add: heaps_ok_def ex_memory_def)
  from MemInit [OF this ex_fits] obtain h' where "LOS_MemInit 0x1000 0x1000 ex_memory = Some (LOS_OK, h')" by auto
  moreover have "g_poolHead ex_memory = 0" by (simp add: ex_memory_def)
  ultimately show ?thesis using reach_init live_init(1) [OF ex_fits] by blast
qed

lemma ex_block: "\<exists>m q. heap_reach 0x1000 0x1000 m [q \<mapsto> (100, False)]"
proof -
  from ex_init obtain h' :: heap_state where h: "heap_reach 0x1000 0x1000 (hm h') (\<lambda>_. None)"
    "heap_ok 0x1000 0x1000 (hm h') (first_node 0x1000 0x1000)" by blast
  from whole_alloc [OF h(2), of 100] obtain q m' where "LOS_MemAlloc 0x1000 100 (hm h') = Some (q, m')" "q \<noteq> 0" by auto
  from reach_step [OF h(1) step_alloc [OF this(1)]] this(2) show ?thesis by auto
qed

lemma ex_used: "\<exists>m bs n w. heap_ok 0x1000 0x1000 m bs \<and> (n, w) \<in> used_nodes bs \<and> \<not> bit w 30"
proof -
  from ex_block obtain m q where "heap_reach 0x1000 0x1000 m [q \<mapsto> (100, False)]" by blast
  from reach_ok [OF this ex_fits] obtain bs own where "heap_ok 0x1000 0x1000 m bs"
    "owns (used_nodes bs) m [q \<mapsto> (100, False)] own" unfolding live_ok_def by blast
  with ownsD [OF this(2), of q 100 False] show ?thesis by (metis fun_upd_same prod.collapse)
qed

section \<open>What each call does\<close>

text \<open>
  A pool that lies apart from those there are is initialised: it is the last of the list, one
  free node fills it behind its head, the others keep their nodes, and nothing outside the pool is
  written but the link of the list.
\<close>

theorem heap_init:
  assumes "heaps_ok h hs" "pool_fits p sz" "\<forall>x\<in>set hs. apart p sz x"
  shows "\<exists>h'. LOS_MemInit p sz h = Some (LOS_OK, h')
    \<and> heaps_ok h' (hs @ [(p, sz, [(OS_MEM_FIRST_NODE p, sz - 952)])])
    \<and> LOS_MemPoolList h' = Some (of_nat (length hs + 1))
    \<and> (\<forall>a. (unat a < unat p \<or> unat p + unat sz \<le> unat a) \<and> a \<notin> pool_nextPool ` fst ` set hs \<longrightarrow> hm h' a = hm h a)"
proof -
  from MemInit [OF assms(1,2)] assms(3) obtain h' where A: "LOS_MemInit p sz h = Some (LOS_OK, h')"
    "heaps_ok h' (hs @ [(p, sz, first_node p sz)])"
    "\<forall>a. (unat a < unat p \<or> unat p + unat sz \<le> unat a) \<and> a \<notin> pool_nextPool ` fst ` set hs \<longrightarrow> hm h' a = hm h a"
    by blast
  then show ?thesis using MemPoolList [OF A(2)] by (intro exI [of _ h']) simp
qed

theorem heap_init_witness:
  "\<exists>h' :: heap_state. LOS_MemInit 0x1000 0x1000 ex_memory = Some (LOS_OK, h') \<and> LOS_MemPoolList h' = Some 1"
proof -
  have "heaps_ok ex_memory []" by (simp add: heaps_ok_def ex_memory_def)
  from heap_init [OF this ex_fits] show ?thesis by auto
qed

text \<open>
  C12. \<open>LOS_MemAlloc\<close> on a well-formed pool. It fails, changing nothing, only when every free node
  is smaller than the request with its header. Otherwise one free node is taken, its rest, if it can
  hold a node, stays free behind it, the block lies behind the header and has at least the size
  asked for, no used node is touched, and the pool is well-formed.
\<close>

theorem heap_alloc_call:
  assumes "heap_ok p sz m bs" "r \<noteq> 0" "unat r < 2 ^ 30"
  shows "LOS_MemAlloc p r m = Some (0, m) \<and> (\<forall>(n, w)\<in>free_nodes bs. unat w < unat (alloc_size (max_req r)))
    \<or> (\<exists>a w bs' m'. LOS_MemAlloc p r m = Some (a + 8, m') \<and> takes (alloc_size (max_req r)) a bs bs'
        \<and> heap_ok p sz m' bs' \<and> used_nodes bs' = insert (a, w) (used_nodes bs) \<and> unat r + 8 \<le> unat (SZ w)
        \<and> keeps p sz (used_nodes bs) m m')"
proof -
  note M = max_req(1,2) [of r] max_req(3) [OF assms(3)] and R = heap_okD(1) [OF assms(1)]
  from MemAlloc [OF assms(1) M(1,3), folded LOS_MemAlloc_call [OF assms]] show ?thesis
  proof (elim disjE exE conjE)
    fix a bs' m' assume A: "LOS_MemAlloc p r m = Some (a + 8, m')" "takes (alloc_size (max_req r)) a bs bs'"
      "heap_ok p sz m' bs'" "keeps p sz (used_nodes bs) m m'"
    have ps: "plain (alloc_size (max_req r))" and fp: "\<And>w. (a, w) \<in> free_nodes bs \<Longrightarrow> plain w"
      using A(2) repD(6) [OF R] unfolding takes_def plain_def by fastforce+
    from takes_used [OF A(2) ps fp rep_distinct [OF R]] obtain w where
      W: "used_nodes bs' = insert (a, w) (used_nodes bs)" "unat (alloc_size (max_req r)) \<le> unat (SZ w)" by blast
    have "unat r + 8 \<le> unat (SZ w)" using W(2) alloc_size(4) [OF M(1,3)] M(2) by linarith
    then show ?thesis using A W(1) by blast
  qed blast
qed

theorem heap_alloc_call_witness:
  "\<exists>m q m'. LOS_MemAlloc 0x1000 100 m = Some (q, m') \<and> heap_ok 0x1000 0x1000 m (first_node 0x1000 0x1000)
    \<and> (q = 0 \<or> (\<exists>bs'. heap_ok 0x1000 0x1000 m' bs' \<and> card (used_nodes bs') = 1))"
proof -
  from ex_init obtain h' :: heap_state where H: "heap_ok 0x1000 0x1000 (hm h') (first_node 0x1000 0x1000)" by blast
  have "used_nodes (first_node 0x1000 0x1000) = {}"
    using plain_free [OF first_seg(3) [OF ex_fits]] by (simp add: used_nodes_simps)
  with heap_alloc_call [OF H, of 100] H show ?thesis by fastforce
qed

text \<open>
  C13. \<open>LOS_MemFree\<close> of a block in use, by the pointer it was handed out with, aligned or not,
  returns \<open>LOS_OK\<close>: the node is free and one with its free neighbours on both sides, no other
  used node is touched, and the pool is well-formed.
\<close>

theorem heap_free_call:
  assumes "heap_ok p sz m bs" "(n, w) \<in> used_nodes bs" "block_at m q n w"
  shows "\<exists>m' bs'. LOS_MemFree p q m = Some (LOS_OK, m') \<and> frees n w bs bs' \<and> heap_ok p sz m' bs'
    \<and> used_nodes bs' = used_nodes bs - {(n, w)} \<and> keeps p sz (used_nodes bs - {(n, w)}) m m'"
  unfolding LOS_MemFree_call [OF assms] using MemFree [OF assms(1,2)] frees_used [OF assms(1)] by blast

theorem heap_free_call_witness:
  "\<exists>m q m'. LOS_MemFree 0x1000 q m = Some (LOS_OK, m') \<and> q \<noteq> 0"
proof -
  from ex_used obtain m bs n w where U: "heap_ok 0x1000 0x1000 m bs" "(n, w) \<in> used_nodes bs" "\<not> bit w 30" by blast
  then have b: "block_at m (n + 8) n w" by (simp add: block_at_def used_nodes_def)
  have "n + 8 \<noteq> 0" by (rule block_ptr(3) [OF heap_okD(1) [OF U(1)] _ b]) (use U(2) in \<open>simp add: used_nodes_def\<close>)
  with heap_free_call [OF U(1,2) b] show ?thesis by blast
qed

text \<open>
  C14. A block is freed once: the second \<open>LOS_MemFree\<close> of the same pointer returns \<open>LOS_NOK\<close> and
  changes nothing, whatever its node was merged with. This holds of every pointer from
  \<open>LOS_MemAlloc\<close> and \<open>LOS_MemRealloc\<close>, and of one from \<open>LOS_MemAllocAlign\<close> that was moved forward by
  more than 8 bytes, or not at all. It says nothing of an aligned pointer moved by 4 or 8 bytes: its gap
  word is then one of the two words where the freed node keeps its links, and what the second call reads
  there depends on the free list.
\<close>

theorem heap_double_free:
  assumes "heap_ok p sz m bs" "(n, w) \<in> used_nodes bs" "block_at m q n w" "bit w 30 \<Longrightarrow> unat n + 20 \<le> unat q"
  shows "\<exists>m'. LOS_MemFree p q m = Some (LOS_OK, m') \<and> LOS_MemFree p q m' = Some (LOS_NOK, m')"
proof -
  from MemFree [OF assms(1,2)] obtain m' where f: "OsMemFree p n m = Some (LOS_OK, m')" by blast
  then show ?thesis
    using MemFree_again [OF assms(1,2) f assms(3,4)] LOS_MemFree_call [OF assms(1-3)] by (intro exI [of _ m']) simp
qed

theorem heap_double_free_witness:
  "\<exists>m q m'. LOS_MemFree 0x1000 q m = Some (LOS_OK, m') \<and> LOS_MemFree 0x1000 q m' = Some (LOS_NOK, m')"
proof -
  from ex_used obtain m bs n w where "heap_ok 0x1000 0x1000 m bs" "(n, w) \<in> used_nodes bs" "\<not> bit w 30" by blast
  with heap_double_free [OF this(1,2), of "n + 8"] show ?thesis by (simp add: block_at_def used_nodes_def) blast
qed

text \<open>
  C15. \<open>LOS_MemRealloc\<close> of a block that came from \<open>LOS_MemAlloc\<close> or \<open>LOS_MemRealloc\<close>, as the flag
  of its node says (bit 30 is clear): it fails and leaves the block as it was, or the block, in its
  place or moved, has the new size and the old contents as far as both sizes go, the node of the old
  one is given back, and no other used node is touched. Blocks of \<open>LOS_MemAllocAlign\<close> are excluded,
  since it is false of them: their contents are not at the pointer the call returns
  (\<open>heap_realloc_aligned\<close> in \<open>Los_HeapFaults\<close>).
\<close>

theorem heap_realloc_call:
  assumes "heap_ok p sz m bs" "(n, w) \<in> used_nodes bs" "\<not> bit w 30" "r \<noteq> 0" "unat r < 2 ^ 30"
  shows "LOS_MemRealloc p (n + 8) r m = Some (0, m)
    \<or> (\<exists>k w' bs' m'. LOS_MemRealloc p (n + 8) r m = Some (k + 8, m') \<and> heap_ok p sz m' bs'
        \<and> used_nodes bs' = insert (k, w') (used_nodes bs - {(n, w)}) \<and> unat r + 8 \<le> unat (SZ w')
        \<and> (\<forall>i. unat i < unat r \<longrightarrow> unat i + 8 < unat (SZ w) \<longrightarrow> m' (k + 8 + i) = m (n + 8 + i))
        \<and> keeps p sz (used_nodes bs - {(n, w)}) m m')"
  using MemRealloc [OF assms]
proof (elim disjE exE conjE)
  fix q m' assume A: "LOS_MemRealloc p (n + 8) r m = Some (q, m')" "moved p sz m m' bs n w (max_req r) q"
  from A(2) obtain k w' bs' where B: "q = k + 8" "heap_ok p sz m' bs'" "unat (max_req r) + 8 \<le> unat (SZ w')"
    "used_nodes bs' = insert (k, w') (used_nodes bs - {(n, w)})"
    "\<forall>i. unat i < unat (max_req r) \<longrightarrow> unat i + 8 < unat (SZ w) \<longrightarrow> m' (q + i) = m (n + 8 + i)"
    "keeps p sz (used_nodes bs - {(n, w)}) m m'" unfolding moved_def by blast
  have "unat r + 8 \<le> unat (SZ w')" using B(3) max_req(2) [of r] by linarith
  moreover have "\<forall>i. unat i < unat r \<longrightarrow> unat i + 8 < unat (SZ w) \<longrightarrow> m' (k + 8 + i) = m (n + 8 + i)"
    using B(5) max_req(2) [of r] unfolding B(1) by (meson less_le_trans)
  ultimately show ?thesis using A(1) B by blast
qed blast

theorem heap_realloc_call_witness:
  "\<exists>m q q' m'. LOS_MemRealloc 0x1000 q 200 m = Some (q', m')
    \<and> (q' = 0 \<or> (\<forall>i. unat i < 8 \<longrightarrow> m' (q' + i) = m (q + i)))"
proof -
  from ex_used obtain m bs n w where U: "heap_ok 0x1000 0x1000 m bs" "(n, w) \<in> used_nodes bs" "\<not> bit w 30" by blast
  have N: "16 \<le> unat (SZ w)" by (rule rep_node(3) [OF heap_okD(1) [OF U(1)], of n w]) (use U(2) in \<open>simp add: used_nodes_def\<close>)
  from heap_realloc_call [OF U, of 200] have "LOS_MemRealloc 0x1000 (n + 8) 200 m = Some (0, m)
    \<or> (\<exists>k m'. LOS_MemRealloc 0x1000 (n + 8) 200 m = Some (k + 8, m')
        \<and> (\<forall>i. unat i < 200 \<longrightarrow> unat i + 8 < unat (SZ w) \<longrightarrow> m' (k + 8 + i) = m (n + 8 + i)))" by fastforce
  then show ?thesis
  proof (elim disjE exE conjE)
    fix k m' assume A: "LOS_MemRealloc 0x1000 (n + 8) 200 m = Some (k + 8, m')"
      "\<forall>i. unat i < 200 \<longrightarrow> unat i + 8 < unat (SZ w) \<longrightarrow> m' (k + 8 + i) = m (n + 8 + i)"
    then show ?thesis using N
      by (intro exI [of _ m] exI [of _ "n + 8"] exI [of _ "k + 8"] exI [of _ m']) auto
  qed blast
qed

section \<open>A pool in use\<close>

text \<open>
  C11. However the program uses a pool, the blocks it holds are aligned, lie in the pool between its
  head and its end node, and do not overlap, and the check of the pool's integrity succeeds.
\<close>

theorem heap_reach_sound:
  assumes "pool_fits p sz" "heap_reach p sz m L"
  shows "LOS_MemIntegrityCheck p m = Some LOS_OK
    \<and> (\<forall>q r al. L q = Some (r, al) \<longrightarrow> 4 dvd unat q \<and> unat p + 952 \<le> unat q \<and> unat q + unat r + 8 \<le> unat p + unat sz)
    \<and> (\<forall>q q' r r' al al' a. L q = Some (r, al) \<and> L q' = Some (r', al') \<and> q \<noteq> q' \<and> in_block q r a \<longrightarrow> \<not> in_block q' r' a)"
proof (intro conjI allI impI)
  note ok = reach_ok [OF assms(2,1)]
  show "LOS_MemIntegrityCheck p m = Some LOS_OK" using ok integrity_ok unfolding live_ok_def by blast
  show "4 dvd unat q" "unat p + 952 \<le> unat q" "unat q + unat r + 8 \<le> unat p + unat sz" if "L q = Some (r, al)" for q r al
    by (rule live_range [OF ok that])+
  show "\<not> in_block q' r' a"
    if "L q = Some (r, al) \<and> L q' = Some (r', al') \<and> q \<noteq> q' \<and> in_block q r a" for q q' r r' al al' a
    using that by (intro lh.apart_law [OF ok]) auto
qed

theorem heap_reach_sound_witness:
  "\<exists>m q. heap_reach 0x1000 0x1000 m [q \<mapsto> (100, False)] \<and> 0x1000 + 952 \<le> unat q \<and> unat q + 108 \<le> 0x2000
    \<and> LOS_MemIntegrityCheck 0x1000 m = Some LOS_OK"
proof -
  from ex_block obtain m q where h: "heap_reach 0x1000 0x1000 m [q \<mapsto> (100, False)]" by blast
  note A = heap_reach_sound [OF ex_fits h]
  have "[q \<mapsto> (100, False)] q = Some (100 :: u32, False)" by simp
  note B = A [THEN conjunct2, THEN conjunct1, rule_format, OF this]
  show ?thesis using B A [THEN conjunct1] h by (intro exI [of _ m] exI [of _ q]) simp
qed

text \<open>
  C16. No call on a pool in use runs for ever or into a bad node: allocation, plain or aligned, returns
  for every size, so does resizing a block the program holds to a size other than zero, where the block
  is not one of \<open>LOS_MemAllocAlign\<close>, and freeing any block it holds returns \<open>LOS_OK\<close>; the walks over
  the nodes return as well.
\<close>

theorem heap_calls_return:
  assumes "pool_fits p sz" "heap_reach p sz m L"
  shows "(\<exists>q m'. LOS_MemAlloc p r m = Some (q, m')) \<and> (\<exists>q m'. LOS_MemAllocAlign p r b m = Some (q, m'))
    \<and> (\<forall>q x. L q = Some x \<longrightarrow> (\<exists>m'. LOS_MemFree p q m = Some (LOS_OK, m')))
    \<and> (\<forall>q r0. L q = Some (r0, False) \<longrightarrow> r \<noteq> 0 \<longrightarrow> (\<exists>q' m'. LOS_MemRealloc p q r m = Some (q', m')))
    \<and> LOS_MemIntegrityCheck p m \<noteq> None \<and> OsMemInfoPrint p m \<noteq> None"
proof (intro conjI allI impI)
  note ok = reach_ok [OF assms(2,1)]
  obtain bs where H: "heap_ok p sz m bs" using ok unfolding live_ok_def by blast
  show "\<exists>q m'. LOS_MemAlloc p r m = Some (q, m')" using lh.alloc_law [OF ok, of r] by blast
  show "\<exists>q m'. LOS_MemAllocAlign p r b m = Some (q, m')" using lh.align_law [OF ok, of r b] by blast
  show "\<exists>m'. LOS_MemFree p q m = Some (LOS_OK, m')" if "L q = Some x" for q x using lh.free_law [OF ok that] by blast
  show "\<exists>q' m'. LOS_MemRealloc p q r m = Some (q', m')" if "L q = Some (r0, False)" "r \<noteq> 0" for q r0
    using lh.resize_law [OF ok that] by blast
  show "LOS_MemIntegrityCheck p m \<noteq> None" "OsMemInfoPrint p m \<noteq> None" by (simp_all add: integrity_ok [OF H] InfoPrint_ok [OF H])
qed

theorem heap_calls_return_witness:
  "\<exists>m q m' x. LOS_MemFree 0x1000 q m = Some (LOS_OK, m') \<and> LOS_MemAlloc 0x1000 0x7FFFFFFF m = Some x"
proof -
  from ex_block obtain m q where h: "heap_reach 0x1000 0x1000 m [q \<mapsto> (100, False)]" by blast
  note A = heap_calls_return [OF ex_fits h, of "0x7FFFFFFF" 4]
  have "[q \<mapsto> (100, False)] q = Some (100 :: u32, False)" by simp
  from A [THEN conjunct2, THEN conjunct2, THEN conjunct1, rule_format, OF this] A [THEN conjunct1]
  obtain m' k m'' where "LOS_MemFree 0x1000 q m = Some (LOS_OK, m')" "LOS_MemAlloc 0x1000 0x7FFFFFFF m = Some (k, m'')" by blast
  then show ?thesis by blast
qed

text \<open>
  C17. The contents of a block change only by a store to it: whatever step the program makes, a block
  that it neither gives back nor resizes is still held, and a byte of it that it does not store to
  keeps its value.
\<close>

theorem heap_contents_kept:
  assumes "pool_fits p sz" "heap_reach p sz m L" "heap_step p e (m, L) (m', L')"
    and "L q = Some (r, al)" "in_block q r a" "e \<noteq> Release q" "\<forall>r'. e \<noteq> Resize q r'" "\<forall>v. e \<noteq> Store a v"
  shows "L' q = Some (r, al) \<and> m' a = m a"
  using step_keeps [OF reach_ok [OF assms(2,1)] assms(3-6)] assms(7,8) by blast

theorem heap_contents_kept_witness:
  "\<exists>m m' L q. heap_step 0x1000 (Alloc 50) (m, [q \<mapsto> (100, False)]) (m', L) \<and> L q = Some (100, False) \<and> m' q = m q"
proof -
  from ex_block obtain m q where h: "heap_reach 0x1000 0x1000 m [q \<mapsto> (100, False)]" by blast
  from lh.alloc_law [OF reach_ok [OF h ex_fits], of 50] obtain k m' where "LOS_MemAlloc 0x1000 50 m = Some (k, m')" by blast
  note s = step_alloc [OF this, of "[q \<mapsto> (100, False)]"]
  have i: "in_block q 100 q" "[q \<mapsto> (100, False)] q = Some (100 :: u32, False)" by (simp_all add: in_block_def)
  have t: "(if k = 0 then [q \<mapsto> (100, False)] else [q \<mapsto> (100, False), k \<mapsto> (50, False)]) q = Some (100 :: u32, False) \<and> m' q = m q"
    by (rule heap_contents_kept [OF ex_fits h s i(2,1)]) simp_all
  show ?thesis by (rule exI [of _ m], rule exI [of _ m'], rule exI, rule exI [of _ q]) (rule conjI [OF s t])
qed

text \<open>
  C18. Nothing is lost to fragmentation: when the program has given back every block, in whatever
  order, the pool is one free node again, and any request that leaves room for the head of the pool
  and two headers is granted.
\<close>

theorem heap_drained:
  assumes "pool_fits p sz" "heap_reach p sz m (\<lambda>_. None)" "0 < unat r" "unat r + 960 \<le> unat sz"
  shows "heap_ok p sz m [(OS_MEM_FIRST_NODE p, sz - 952)] \<and> (\<exists>q m'. LOS_MemAlloc p r m = Some (q, m') \<and> q \<noteq> 0)"
  using live_none [OF reach_ok [OF assms(2,1)]] whole_alloc [OF _ assms(3,4)] by blast

theorem heap_drained_witness:
  "\<exists>m q m'. heap_reach 0x1000 0x1000 m (\<lambda>_. None) \<and> LOS_MemAlloc 0x1000 3136 m = Some (q, m') \<and> q \<noteq> 0"
proof -
  from ex_init obtain h' :: heap_state where h: "heap_reach 0x1000 0x1000 (hm h') (\<lambda>_. None)" by blast
  from heap_drained [OF ex_fits h, of 3136] h show ?thesis by auto
qed

end
