(* ===== verification/Los_HeapFaults.thy ===== *)
theory Los_HeapFaults
  imports Los_HeapProps
begin

text \<open>
  Where the heap does not do what its callers expect: initialising a pool again, and resizing an
  aligned block.
\<close>

section \<open>Initialising a pool that is there\<close>

text \<open>
  \<open>LOS_MemInit\<close> writes the head and the first node before it looks for a conflict: called on the
  pool that is the first of the list it returns \<open>LOS_NOK\<close>, and the head of the pool in use is cleared.
\<close>

theorem heap_reinit_destroys:
  assumes H: "heaps_ok h ((p, sz, bs) # hs)"
  shows "\<exists>h'. LOS_MemInit p sz h = Some (LOS_NOK, h') \<and> g_poolHead h' = p
    \<and> (\<forall>a. pool_cell p a \<longrightarrow> hm h' a = 0)"
proof -
  have g: "g_poolHead h = p" and ok: "heap_ok p sz (hm h) bs" using H by (auto simp: heaps_ok_def)
  note P = heap_positive [OF ok]
  have f: "pool_fits p sz" by (rule repD(1) [OF heap_okD(1) [OF ok]])
  note f' = f [unfolded pool_fits_def]
  from PoolInit [OF f] obtain m where I: "OsMemPoolInit p sz (hm h) = Some (LOS_OK, m)" by blast
  have "unat (p + sz) = unat p + unat sz" using f' by (intro unat_add_lem [THEN iffD1]) simp
  then have "p + sz > p" using P(2) by (simp add: word_less_nat_alt)
  then have "pool_conflict p sz m p p = Some None"
    by (subst pool_conflict.simps) (simp add: P(1))
  then have e: "LOS_MemInit p sz h = Some (LOS_NOK, h\<lparr>hm := OsMemPoolDeinit p m\<rparr>)"
    using g by (simp add: MemInit_eq [OF f I] OsMemPoolAdd_def LOS_NOK_def)
  have z: "OsMemPoolDeinit p m a = 0" if "pool_cell p a" for a using that MemPoolDeinit [OF f] by simp
  show ?thesis using e z g by (intro exI [of _ "h\<lparr>hm := OsMemPoolDeinit p m\<rparr>"]) simp
qed

section \<open>Resizing an aligned block\<close>

text \<open>
  \<open>LOS_MemRealloc\<close> goes back from the pointer of an aligned block to its node and answers with the
  start of the node's data. So the answer is another pointer even when the block stays in its place:
  what the program finds there begins with the gap, not with its data.
\<close>

theorem heap_realloc_aligned:
  assumes H: "heap_ok p sz m bs" and n: "(n, w) \<in> used_nodes bs" "block_at m q n w" "bit w 30"
    and r: "r \<noteq> 0" "unat r < 2 ^ 30" "unat (alloc_size (max_req r)) \<le> unat (SZ w)"
  shows "\<exists>m'. LOS_MemRealloc p q r m = Some (n + 8, m') \<and> n + 8 \<noteq> q
    \<and> (\<forall>i. unat i < unat r \<longrightarrow> unat i + 8 < unat (SZ w) \<longrightarrow> m' (n + 8 + i) = m (n + 8 + i))"
proof -
  have nb: "(n, w) \<in> set bs" using n(1) by (simp add: used_nodes_def)
  note R = heap_okD(1) [OF H] and M = max_req(1,2) [of r] max_req(3) [OF r(2)]
  have "plain r" using r(2) by (simp add: plain_def)
  then have f: "OS_MEM_NODE_GET_USED_FLAG r = 0" "OS_MEM_NODE_GET_ALIGNED_FLAG r = 0" using plain_flags [of r] by simp_all
  have e: "LOS_MemRealloc p q r m = OsMemRealloc p (n + 8) n (max_req r) m"
    using r(1) f pool_ptr(2) [OF R nb] pool_ptr(1) [OF R nb] block_ptr [OF R nb n(2)] CheckUsedNode [OF H n(1)]
    by (auto simp: LOS_MemRealloc_def Let_def max_req_def OS_MEM_NODE_HEAD_SIZE_def)
  from ReallocInPlace [OF H n(1) M(1,3)] r(3) obtain m' where A: "OsMemRealloc p (n + 8) n (max_req r) m = Some (n + 8, m')"
    "moved p sz m m' bs n w (max_req r) (n + 8)" by blast
  have "unat n + 12 \<le> unat q" using n(2,3) by (simp add: block_at_def)
  then have "n + 8 \<noteq> q" using pool_ptr(1) [OF R nb] by auto
  moreover have "\<forall>i. unat i < unat r \<longrightarrow> unat i + 8 < unat (SZ w) \<longrightarrow> m' (n + 8 + i) = m (n + 8 + i)"
    using A(2) M(2) unfolding moved_def by (meson less_le_trans)
  ultimately show ?thesis using A(1) by (intro exI [of _ m']) (simp add: e)
qed

end
