(* ===== verification/Los_Kernel.thy ===== *)
theory Los_Kernel
  imports Los_Swtmr Los_Sem Los_Mux Los_Memory
begin

text \<open>
  Where the components meet: the tick handler and the interrupt around it
  (\<open>kernel/src/los_sched.c\<close>, \<open>los_tick.c\<close>, \<open>arch/xtensa/lx6/gcc/los_interrupt.c\<close>), the start of the
  scheduler (\<open>los_sched.c\<close>, \<open>los_context.c\<close>) and the initialisation of the kernel (\<open>los_init.c\<close>).
\<close>

section \<open>The tick\<close>

text \<open>The scans of the timers and of the sleeping tasks, with the timeline locked.\<close>

definition tick_scans :: "swtmr_all \<Rightarrow> swtmr_all option" where
  "tick_scans = (\<lambda>(p, q, s).
     (let s1 = s\<lparr>g_tickIntLock := g_tickIntLock s + 1\<rparr>
      in case (if g_swtmrScan s1 then map_option snd (OsSwtmrScan (p, q, s1)) else Some (p, q, s1)) of
           None \<Rightarrow> None
         | Some (p2, q2, s2) \<Rightarrow>
             (let (_, s3) = OsSchedScanTimerList s2
              in Some (p2, q2, s3\<lparr>g_tickIntLock := g_tickIntLock s3 - 1\<rparr>))))"

definition LOS_SchedTickHandler :: "swtmr_all \<Rightarrow> swtmr_all option" where
  "LOS_SchedTickHandler = (\<lambda>(p, q, s).
     if \<not> g_taskScheduled s then Some (p, q, s)
     else
       (let (tickStartTime, s1) = OsGetCurrSchedTimeCycle s
        in case (if g_schedResponseID s1 = OS_INVALID then tick_scans (p, q, s1) else Some (p, q, s1)) of
             None \<Rightarrow> None
           | Some (p2, q2, s2) \<Rightarrow>
               (let s3 = OsTimeSliceUpdate (runTask s2) tickStartTime s2;
                    (now, s4) = OsGetCurrSchedTimeCycle s3;
                    s5 = upd_tcb (runTask s4) (\<lambda>c. c\<lparr>startTime := now\<rparr>) s4;
                    s6 = s5\<lparr>g_schedResponseTime := OS_SCHED_MAX_RESPONSE_TIME\<rparr>
                in Some (p2, q2, if LOS_CHECK_SCHEDULE s6 then ArchTaskSchedule s6
                                 else OsSchedUpdateExpireTime s6))))"

definition OsTickHandler :: "swtmr_all \<Rightarrow> swtmr_all option" where
  "OsTickHandler = (\<lambda>(p, q, s). LOS_SchedTickHandler (p, q, s\<lparr>tk := OsUpdateSysTimeBase (tk s)\<rparr>))"

text \<open>
  The entry of an interrupt, for the handler that is registered for it. \<open>intActive\<close> says whether
  \<open>g_intCount\<close> is positive, so it is what it was when the count has gone up and down again.
\<close>

definition HalInterrupt :: "(swtmr_all \<Rightarrow> swtmr_all option) \<Rightarrow> swtmr_all \<Rightarrow> swtmr_all option" where
  "HalInterrupt handler = (\<lambda>(p, q, s).
     case handler (p, q, s\<lparr>intActive := True\<rparr>) of
       None \<Rightarrow> None
     | Some (p1, q1, s1) \<Rightarrow> Some (p1, q1, HalIrqEndCheckNeedSched (s1\<lparr>intActive := intActive s\<rparr>)))"

section \<open>The start of the scheduler\<close>

definition OsSchedStart :: "swtmr_state \<times> sched \<Rightarrow> (swtmr_state \<times> sched) option" where
  "OsSchedStart = (\<lambda>(p, s).
     (let new = OsGetTopTask s;
          s1 = (status_set new (flag RUNNING) s)\<lparr>newTask := new, runTask := new\<rparr>;
          (now, s2) = OsGetCurrSchedTimeCycle s1;
          s3 = OsSchedTaskDeQueue new (upd_tcb new (\<lambda>c. c\<lparr>startTime := now\<rparr>) s2);
          s4 = s3\<lparr>tk := OsTickSysTimerStartTimeSet (startTime (tcb s3 new)) (tk s3)\<rparr>
      in case OsSwtmrResponseTimeReset (startTime (tcb s4 new)) (p, s4) of
           None \<Rightarrow> None
         | Some (p5, s5) \<Rightarrow>
             (let s6 = s5\<lparr>g_taskScheduled := True, g_schedResponseTime := OS_SCHED_MAX_RESPONSE_TIME,
                         g_schedResponseID := OS_INVALID\<rparr>
              in Some (p5, OsSchedSetNextExpireTime (taskID (tcb s6 new))
                             (startTime (tcb s6 new) + scast (timeSlice (tcb s6 new))) s6))))"

text \<open>\<open>HalStartToRun\<close> loads the context of \<open>runTask\<close> and does not return; the result is the state it runs in.\<close>

definition ArchStartSchedule :: "swtmr_state \<times> sched \<Rightarrow> (swtmr_state \<times> sched) option" where
  "ArchStartSchedule ps = OsSchedStart ps"

definition LOS_Start :: "swtmr_state \<times> sched \<Rightarrow> (swtmr_state \<times> sched) option" where
  "LOS_Start ps = ArchStartSchedule ps"

section \<open>The kernel as a whole\<close>

record kernel =
  kheap :: heap_state
  kswtmr :: swtmr_state
  kqueue :: queue_state
  ksem :: sem_state
  kmux :: mux_state
  ksched :: sched

text \<open>
  The heap as its callers use it: \<open>m_aucSysMem0\<close> is the pool of all of them. An operation that does
  not return would leave the memory as it was here; on the heaps the kernel reaches all return.
\<close>

definition kernel_heap :: "u32 \<Rightarrow> hmem heap_ops" where
  "kernel_heap p = \<lparr>heap_alloc = (\<lambda>m r. case LOS_MemAlloc p r m of None \<Rightarrow> (0, m) | Some x \<Rightarrow> x),
     heap_free = (\<lambda>m q. case LOS_MemFree p q m of None \<Rightarrow> (LOS_NOK, m) | Some x \<Rightarrow> x)\<rparr>"

definition kernel_stacks :: "u32 \<Rightarrow> hmem allocator" where
  "kernel_stacks p = \<lparr>mem_alloc_align = (\<lambda>m r b. case LOS_MemAllocAlign p r b m of None \<Rightarrow> (0, m) | Some x \<Rightarrow> x),
     mem_free = (\<lambda>m q. case LOS_MemFree p q m of None \<Rightarrow> m | Some (_, m1) \<Rightarrow> m1)\<rparr>"

text \<open>Sizes of the control blocks on a machine of 32 bits.\<close>

definition sizeof_LosTaskCB :: u32 where "sizeof_LosTaskCB = 128"
definition sizeof_LosSemCB :: u32 where "sizeof_LosSemCB = 16"
definition sizeof_LosMuxCB :: u32 where "sizeof_LosMuxCB = 24"
definition sizeof_LosQueueCB :: u32 where "sizeof_LosQueueCB = 48"

text \<open>The allocation at the head of an initialisation function, which is modelled with its outcome.\<close>

definition with_block :: "u32 \<Rightarrow> (bool \<Rightarrow> kernel \<Rightarrow> u32 \<times> kernel) \<Rightarrow> kernel \<Rightarrow> u32 \<times> kernel" where
  "with_block sz init k =
     (let (b, m) = heap_alloc (kernel_heap (m_aucSysMem0 (kheap k))) (hm (kheap k)) sz
      in init (b \<noteq> 0) (k\<lparr>kheap := (kheap k)\<lparr>hm := m\<rparr>\<rparr>))"

definition init_tick :: "kernel \<Rightarrow> u32 \<times> kernel" where
  "init_tick k = (let (ret, t) = OsTickTimerInit (tk (ksched k)) in (ret, k\<lparr>ksched := (ksched k)\<lparr>tk := t\<rparr>\<rparr>))"

definition init_tasks :: "kernel \<Rightarrow> u32 \<times> kernel" where
  "init_tasks = with_block ((LOSCFG_BASE_CORE_TSK_LIMIT + 1 + 1) * sizeof_LosTaskCB)
     (\<lambda>ok k. let (ret, s) = OsTaskInit ok (ksched k) in (ret, k\<lparr>ksched := s\<rparr>))"

definition init_sems :: "kernel \<Rightarrow> u32 \<times> kernel" where
  "init_sems = with_block (LOSCFG_BASE_IPC_SEM_LIMIT * sizeof_LosSemCB)
     (\<lambda>ok k. let (ret, x) = OsSemInit ok (ksem k) in (ret, k\<lparr>ksem := x\<rparr>))"

definition init_muxes :: "kernel \<Rightarrow> u32 \<times> kernel" where
  "init_muxes = with_block (LOSCFG_BASE_IPC_MUX_LIMIT * sizeof_LosMuxCB)
     (\<lambda>ok k. let (ret, x) = OsMuxInit ok (kmux k) in (ret, k\<lparr>kmux := x\<rparr>))"

definition init_queues :: "kernel \<Rightarrow> u32 \<times> kernel" where
  "init_queues = with_block (LOSCFG_BASE_IPC_QUEUE_LIMIT * sizeof_LosQueueCB)
     (\<lambda>ok k. let (ret, x) = OsQueueInit ok (kqueue k) in (ret, k\<lparr>kqueue := x\<rparr>))"

definition init_swtmrs :: "kernel \<Rightarrow> u32 \<times> kernel" where
  "init_swtmrs k =
     (let base = m_aucSysMem0 (kheap k);
          (ret, p, q, m, s) = OsSwtmrInit (kernel_stacks base) (kernel_heap base)
             (kswtmr k, kqueue k, hm (kheap k), ksched k)
      in (ret, k\<lparr>kswtmr := p, kqueue := q, kheap := (kheap k)\<lparr>hm := m\<rparr>, ksched := s\<rparr>))"

definition init_idle :: "kernel \<Rightarrow> u32 \<times> kernel" where
  "init_idle k =
     (let (ret, m, s) = OsIdleTaskCreate (kernel_stacks (m_aucSysMem0 (kheap k))) (hm (kheap k), ksched k)
      in (ret, k\<lparr>kheap := (kheap k)\<lparr>hm := m\<rparr>, ksched := s\<rparr>))"

text \<open>One after the other, up to the first that fails.\<close>

fun init_steps :: "(kernel \<Rightarrow> u32 \<times> kernel) list \<Rightarrow> kernel \<Rightarrow> u32 \<times> kernel" where
  "init_steps [] k = (LOS_OK, k)"
| "init_steps (f # fs) k = (let (ret, k1) = f k in if ret \<noteq> LOS_OK then (ret, k1) else init_steps fs k1)"

definition LOS_KernelInit :: "u32 \<Rightarrow> kernel \<Rightarrow> (u32 \<times> kernel) option" where
  "LOS_KernelInit memStart k =
     (case OsMemSystemInit memStart (kheap k) of
        None \<Rightarrow> None
      | Some (ret, h) \<Rightarrow>
          Some (if ret \<noteq> LOS_OK then (ret, k\<lparr>kheap := h\<rparr>)
                else init_steps [init_tick, init_tasks, init_sems, init_muxes, init_queues, init_swtmrs, init_idle]
                       (k\<lparr>kheap := h\<rparr>)))"

end
