(* ===== verification/Los_QueueHeap.thy ===== *)
theory Los_QueueHeap
  imports Los_QueueProps Los_HeapProps Los_Kernel
begin

text \<open>
  The queues on the kernel's heap. The rings of the queues in use are blocks of the pool, one each,
  of the size the control block says; creating and deleting queues keeps that, and no error path of
  either loses a block.
\<close>

section \<open>The heap the queues call\<close>

definition ring_bytes :: "LosQueueCB \<Rightarrow> u32" where
  "ring_bytes c = ucast (queueLen c) * ucast (queueSize c)"

definition rings_held :: "queue_state \<Rightarrow> live \<Rightarrow> bool" where
  "rings_held q L \<longleftrightarrow> (\<forall>i<6. queue_used q i \<longrightarrow>
       L (queue (g_allQueue q i)) = Some (ring_bytes (g_allQueue q i), False)
       \<and> (\<forall>j<6. queue_used q j \<longrightarrow> queue (g_allQueue q i) = queue (g_allQueue q j) \<longrightarrow> i = j))"

lemma kernel_alloc:
  assumes "live_ok p sz m L" "heap_alloc (kernel_heap p) m r = (b, m1)"
  shows "if b = 0 then m1 = m else LOS_MemAlloc p r m = Some (b, m1) \<and> L b = None
    \<and> live_ok p sz m1 (L(b \<mapsto> (r, False))) \<and> holds L m m1"
proof -
  from lh.alloc_law [OF assms(1), of r] obtain q m' where "LOS_MemAlloc p r m = Some (q, m')"
    "if q = 0 then m' = m else L q = None \<and> live_ok p sz m' (L(q \<mapsto> (r, False))) \<and> holds L m m'" by blast
  then show ?thesis using assms(2) by (simp add: kernel_heap_def split: if_splits)
qed

lemma kernel_free:
  assumes "live_ok p sz m L" "L b = Some x"
  shows "\<exists>m1. heap_free (kernel_heap p) m b = (LOS_OK, m1) \<and> live_ok p sz m1 (L(b := None)) \<and> holds (L(b := None)) m m1"
  using lh.free_law [OF assms] by (auto simp: kernel_heap_def)

section \<open>A sample\<close>

definition ex_no_queues :: queue_state where
  "ex_no_queues = \<lparr>g_allQueue = (\<lambda>_. zero_queue), g_freeQueueList = [0..<6]\<rparr>"

definition ex_ring :: "u32 \<Rightarrow> queue_state" where
  "ex_ring b = \<lparr>g_allQueue = (\<lambda>_. zero_queue)(0 := zero_queue\<lparr>queue := b, queueState := OS_QUEUE_INUSED, queueLen := 2,
     queueSize := 12, readWriteableCnt := (\<lambda>_. 0)(OS_QUEUE_WRITE := 2)\<rparr>), g_freeQueueList = [1..<6]\<rparr>"

lemma ex_queue_pools: "quep.pool_ok ex_no_queues" "rings_held ex_no_queues (\<lambda>_. None)"
  by (auto simp: quep.pool_ok_def rings_held_def ex_no_queues_def queue_used_def zero_queue_def OS_QUEUE_UNUSED_def)

lemma ex_ring_held: "rings_held (ex_ring b) [b \<mapsto> (24, False)]" "queue_used (ex_ring b) 0"
  by (auto simp: rings_held_def ex_ring_def queue_used_def zero_queue_def OS_QUEUE_UNUSED_def OS_QUEUE_INUSED_def
      ring_bytes_def)

lemma ex_ring_block: "\<exists>m b m1. live_ok 0x1000 0x1000 m (\<lambda>_. None) \<and> LOS_MemAlloc 0x1000 24 m = Some (b, m1) \<and> b \<noteq> 0
    \<and> live_ok 0x1000 0x1000 m1 [b \<mapsto> (24, False)]"
proof -
  from ex_init obtain h' :: heap_state where h: "heap_reach 0x1000 0x1000 (hm h') (\<lambda>_. None)"
    "heap_ok 0x1000 0x1000 (hm h') (first_node 0x1000 0x1000)" by blast
  from whole_alloc [OF h(2), of 24] obtain b m1 where "LOS_MemAlloc 0x1000 24 (hm h') = Some (b, m1)" "b \<noteq> 0" by auto
  then show ?thesis using lh.alloc_law [OF reach_ok [OF h(1) ex_fits], of 24] reach_ok [OF h(1) ex_fits] by auto
qed

section \<open>Creating and deleting\<close>

text \<open>
  C19. Creating a queue on a heap in use. On success the ring is a new block of exactly the bytes
  the messages need, and it and the rings of the queues there were are held; on every error the
  program holds what it held and the queues are as they were. The contents of the other blocks stay.
\<close>

theorem queue_create_heap:
  assumes "live_ok p sz m L" "rings_held q L" "quep.pool_ok q"
    and "LOS_QueueCreate (kernel_heap p) nm len idp fl mx (q, m, s) = (r, x, q', m', s')"
  shows "if r = LOS_OK
    then \<exists>i<6. \<not> queue_used q i \<and> queue_used q' i \<and> L (queue (g_allQueue q' i)) = None
      \<and> live_ok p sz m' (L(queue (g_allQueue q' i) \<mapsto> (ring_bytes (g_allQueue q' i), False)))
      \<and> rings_held q' (L(queue (g_allQueue q' i) \<mapsto> (ring_bytes (g_allQueue q' i), False))) \<and> holds L m m'
    else live_ok p sz m' L \<and> q' = q \<and> s' = s \<and> holds L m m'"
proof -
  obtain b m1 where a: "heap_alloc (kernel_heap p) m (ucast len * ucast (mx + 4)) = (b, m1)" by fastforce
  note A = kernel_alloc [OF assms(1) a]
  have err: "LOS_ERRNO_QUEUE_CREAT_PTR_NULL \<noteq> LOS_OK" "LOS_ERRNO_QUEUE_SIZE_TOO_BIG \<noteq> LOS_OK"
    "LOS_ERRNO_QUEUE_PARA_ISZERO \<noteq> LOS_OK" "LOS_ERRNO_QUEUE_CREATE_NO_MEMORY \<noteq> LOS_OK"
    "LOS_ERRNO_QUEUE_CB_UNAVAILABLE \<noteq> LOS_OK"
    by (simp_all add: LOS_ERRNO_QUEUE_CREAT_PTR_NULL_def LOS_ERRNO_QUEUE_SIZE_TOO_BIG_def
        LOS_ERRNO_QUEUE_PARA_ISZERO_def LOS_ERRNO_QUEUE_CREATE_NO_MEMORY_def LOS_ERRNO_QUEUE_CB_UNAVAILABLE_def LOS_OK_def)
  have same: "holds L m m" by (simp add: holds_def)
  let ?bad = "\<not> idp \<or> mx > OS_NULL_SHORT - 4 \<or> len = 0 \<or> mx = 0 \<or> 0xFFFFFFFF div ucast (mx + 4) < (ucast len :: u32)"
  show ?thesis
  proof (cases "?bad \<or> b = 0")
    case True
    then have "r \<noteq> LOS_OK" "q' = q" "s' = s" "m' = m"
      using assms(4) A a err by (auto simp: LOS_QueueCreate_def OsQueueCreate_def Let_def split: if_splits)
    then show ?thesis using assms(1) same by simp
  next
    case False
    with A have B: "LOS_MemAlloc p (ucast len * ucast (mx + 4)) m = Some (b, m1)" "L b = None"
      "live_ok p sz m1 (L(b \<mapsto> (ucast len * ucast (mx + 4), False)))" "holds L m m1" by simp_all
    show ?thesis
    proof (cases "g_freeQueueList q")
      case Nil
      from lh.alloc_free [OF assms(1) B(1)] False obtain m2 where
        "LOS_MemFree p b m1 = Some (LOS_OK, m2)" "live_ok p sz m2 L" "holds L m m2" by blast
      moreover from this have "r \<noteq> LOS_OK" "q' = q" "s' = s" "m' = m2"
        using assms(4) a err False Nil
        by (auto simp: LOS_QueueCreate_def OsQueueCreate_def Let_def kernel_heap_def split: if_splits)
      ultimately show ?thesis by simp
    next
      case (Cons i rest)
      then have i: "i < 6" "\<not> queue_used q i" using assms(3) by (auto simp: quep.pool_ok_def)
      from assms(4) a False Cons have e: "r = LOS_OK" "m' = m1" "queue (g_allQueue q' i) = b"
        "ring_bytes (g_allQueue q' i) = ucast len * ucast (mx + 4)" "queue_used q' i"
        "\<And>j. j \<noteq> i \<Longrightarrow> g_allQueue q' j = g_allQueue q j"
        by (auto simp: LOS_QueueCreate_def OsQueueCreate_def Let_def upd_queue_def ring_bytes_def queue_used_def
            OS_QUEUE_INUSED_def OS_QUEUE_UNUSED_def)
      have o: "queue_used q' j \<longleftrightarrow> queue_used q j" if "j \<noteq> i" for j using e(6) [OF that] by (simp add: queue_used_def)
      have "rings_held q' (L(b \<mapsto> (ucast len * ucast (mx + 4), False)))"
        using assms(2) e(3-6) o B(2) unfolding rings_held_def by (metis fun_upd_apply option.distinct(1))
      then show ?thesis using i e B by auto
    qed
  qed
qed

theorem queue_create_heap_witness:
  "\<exists>m q' m' s' L. LOS_QueueCreate (kernel_heap 0x1000) None 2 True 0 8 (ex_no_queues, m, ex_sched) = (LOS_OK, Some 0, q', m', s')
    \<and> live_ok 0x1000 0x1000 m' L \<and> rings_held q' L"
proof -
  from ex_ring_block obtain m b m1 where B: "live_ok 0x1000 0x1000 m (\<lambda>_. None)" "LOS_MemAlloc 0x1000 24 m = Some (b, m1)" "b \<noteq> 0"
    by blast
  obtain r x q' m' s' where e: "LOS_QueueCreate (kernel_heap 0x1000) None 2 True 0 8 (ex_no_queues, m, ex_sched) = (r, x, q', m', s')"
    by (metis prod_cases5)
  have "[0..<6] = 0 # [1..<6]" by (simp add: upt_rec)
  then have ok: "r = LOS_OK" "x = Some 0"
    using e B(2,3) by (auto simp: LOS_QueueCreate_def OsQueueCreate_def Let_def kernel_heap_def ex_no_queues_def
        OS_NULL_SHORT_def upd_queue_def zero_queue_def word_less_nat_alt unat_div)
  from queue_create_heap [OF B(1) ex_queue_pools(2,1) e] e ok show ?thesis by auto
qed

text \<open>
  C20. Deleting a queue gives its ring back to the heap and keeps the rings of the others; when the
  queue cannot be deleted, nothing changes.
\<close>

theorem queue_delete_heap:
  assumes "live_ok p sz m L" "rings_held q L"
    and "LOS_QueueDelete (kernel_heap p) d (q, m, s) = (r, q', m', s')"
  shows "if r = LOS_OK
    then \<exists>b x. b = queue (g_allQueue q (unat d)) \<and> queue_used q (unat d) \<and> \<not> queue_used q' (unat d) \<and> L b = Some x
      \<and> live_ok p sz m' (L(b := None)) \<and> rings_held q' (L(b := None)) \<and> holds (L(b := None)) m m'
    else q' = q \<and> m' = m \<and> s' = s"
proof -
  let ?q = "g_allQueue q (unat d)"
  let ?del = "d < OS_ALL_IPC_QUEUE_LIMIT \<and> queue_used q (unat d) \<and> lists s (QueueRead (unat d)) = []
    \<and> lists s (QueueWrite (unat d)) = [] \<and> lists s (QueueMem (unat d)) = []
    \<and> unat (readWriteableCnt ?q OS_QUEUE_WRITE) + unat (readWriteableCnt ?q OS_QUEUE_READ) = unat (queueLen ?q)"
  have err: "LOS_ERRNO_QUEUE_NOT_FOUND \<noteq> LOS_OK" "LOS_ERRNO_QUEUE_NOT_CREATE \<noteq> LOS_OK"
    "LOS_ERRNO_QUEUE_IN_TSKUSE \<noteq> LOS_OK" "LOS_ERRNO_QUEUE_IN_TSKWRITE \<noteq> LOS_OK"
    by (simp_all add: LOS_ERRNO_QUEUE_NOT_FOUND_def LOS_ERRNO_QUEUE_NOT_CREATE_def
        LOS_ERRNO_QUEUE_IN_TSKUSE_def LOS_ERRNO_QUEUE_IN_TSKWRITE_def LOS_OK_def)
  show ?thesis
  proof (cases ?del)
    case False
    then have "r \<noteq> LOS_OK \<and> q' = q \<and> m' = m \<and> s' = s"
      using assms(3) err
      by (auto simp: LOS_QueueDelete_def Let_def OsGetQueueHandle_def queue_used_def not_le split: if_splits)
    then show ?thesis by simp
  next
    case True
    then have d: "unat d < 6" by (simp add: queue_limit not_le [symmetric])
    with True assms(2) have l: "L (queue ?q) = Some (ring_bytes ?q, False)" by (simp add: rings_held_def)
    from kernel_free [OF assms(1) l] obtain m1 where F: "heap_free (kernel_heap p) m (queue ?q) = (LOS_OK, m1)"
      "live_ok p sz m1 (L(queue ?q := None))" "holds (L(queue ?q := None)) m m1" by blast
    from True have nd: "\<not> d \<ge> OS_ALL_IPC_QUEUE_LIMIT" by (simp add: not_le)
    from assms(3) True F(1) nd have e: "r = LOS_OK" "m' = m1" "\<not> queue_used q' (unat d)"
      "\<And>j. j \<noteq> unat d \<Longrightarrow> g_allQueue q' j = g_allQueue q j"
      by (auto simp: LOS_QueueDelete_def Let_def OsGetQueueHandle_def queue_used_def upd_queue_def)
    have o: "queue_used q' j \<longleftrightarrow> queue_used q j" if "j \<noteq> unat d" for j using e(4) [OF that] by (simp add: queue_used_def)
    have "rings_held q' (L(queue ?q := None))"
      unfolding rings_held_def
    proof (intro allI impI conjI)
      fix i assume i: "i < 6" "queue_used q' i"
      with e(3) have ne: "i \<noteq> unat d" by auto
      with i o have u: "queue_used q i" by simp
      then have "queue (g_allQueue q i) \<noteq> queue ?q"
        using assms(2) i(1) d True ne unfolding rings_held_def by blast
      then show "(L(queue ?q := None)) (queue (g_allQueue q' i)) = Some (ring_bytes (g_allQueue q' i), False)"
        using assms(2) i(1) u e(4) [OF ne] by (simp add: rings_held_def)
      fix j assume j: "j < 6" "queue_used q' j" "queue (g_allQueue q' i) = queue (g_allQueue q' j)"
      with e(3) have nj: "j \<noteq> unat d" by auto
      then show "i = j" using assms(2) i(1) u j o [OF nj] e(4) [OF ne] e(4) [OF nj] unfolding rings_held_def by simp
    qed
    then show ?thesis using e F True l by auto
  qed
qed

theorem queue_delete_heap_witness:
  "\<exists>b m q' m' s'. LOS_QueueDelete (kernel_heap 0x1000) 0 (ex_ring b, m, ex_sched) = (LOS_OK, q', m', s')
    \<and> live_ok 0x1000 0x1000 m' (\<lambda>_. None)"
proof -
  from ex_ring_block obtain b m where B: "live_ok 0x1000 0x1000 m [b \<mapsto> (24, False)]" by blast
  obtain r q' m' s' where e: "LOS_QueueDelete (kernel_heap 0x1000) 0 (ex_ring b, m, ex_sched) = (r, q', m', s')"
    by (metis prod_cases4)
  from kernel_free [OF B, of b "(24, False)"] have "\<exists>m1. heap_free (kernel_heap 0x1000) m b = (LOS_OK, m1)" by auto
  then have ok: "r = LOS_OK"
    using e by (auto simp: LOS_QueueDelete_def Let_def OsGetQueueHandle_def ex_ring_def ex_lists_def OS_ALL_IPC_QUEUE_LIMIT_def
        LOSCFG_BASE_IPC_QUEUE_LIMIT_def
        OS_QUEUE_UNUSED_def OS_QUEUE_INUSED_def OS_QUEUE_READ_def OS_QUEUE_WRITE_def zero_queue_def)
  have b: "queue (g_allQueue (ex_ring b) 0) = b" by (simp add: ex_ring_def)
  have "([b \<mapsto> (24 :: u32, False)])(b := None) = (\<lambda>_. None)" by auto
  with queue_delete_heap [OF B ex_ring_held(1) e] ok b have "live_ok 0x1000 0x1000 m' (\<lambda>_. None)" by auto
  with e ok show ?thesis by blast
qed

end
