(* ===== verification/Los_Interrupt.thy ===== *)
theory Los_Interrupt
  imports Los_Kernel Los_SwtmrProps Los_TaskProps Los_Timeout
begin

text \<open>
  Inside an interrupt: time does not run backwards unless an assertion failed, and what the
  handlers call leaves the tasks where they are or wakes one of them. The invariant of the
  sleeping tasks that ticks keep is stated here.
\<close>

section \<open>Time goes forward\<close>

definition tick_later :: "tick_state \<Rightarrow> tick_state \<Rightarrow> bool" where
  "tick_later k k' \<longleftrightarrow> panic k' \<or> \<not> panic k \<and> g_oldTickTimerBase k \<le> g_oldTickTimerBase k'"

lemma later_refl [simp]: "tick_later k k"
  by (auto simp: tick_later_def)

lemma later_trans: "tick_later k k' \<Longrightarrow> tick_later k' k'' \<Longrightarrow> tick_later k k''"
  by (auto simp: tick_later_def)

lemma later_getCycle [simp]: "tick_later k (snd (getCycle k))"
  by (auto simp: tick_later_def getCycle_def split: option.split)

lemma later_assert [simp]: "tick_later k (tick_assert c k)"
  by (auto simp: tick_later_def tick_assert_def)

lemma later_SysCycleGet [simp]:
  "tick_later k (snd (LOS_SysCycleGet k))"
  "g_oldTickTimerBase (snd (LOS_SysCycleGet k)) = fst (LOS_SysCycleGet k)"
  by (auto simp: LOS_SysCycleGet_def Let_def case_prod_beta tick_later_def tick_assert_def getCycle_def
      split: option.split)

lemma later_Reload [simp]: "tick_later k (snd (OsTickTimerReload p k))"
proof -
  let ?k = "snd (LOS_SysCycleGet k)\<lparr>g_tickTimerBase := fst (LOS_SysCycleGet k)\<rparr>"
  have "tick_later k ?k" using later_SysCycleGet(1) [of k] by (simp add: tick_later_def)
  moreover have "tick_later ?k (snd (reload p ?k))"
    by (auto simp: reload_def tick_later_def split: option.split)
  ultimately show ?thesis
    using later_trans by (fastforce simp: OsTickTimerReload_def Let_def case_prod_beta)
qed

lemma later_UpdateBase [simp]: "tick_later k (OsUpdateSysTimeBase k)"
  using later_getCycle [of k]
  by (auto simp: OsUpdateSysTimeBase_def Let_def case_prod_beta tick_later_def)

section \<open>Steps that move no task\<close>

definition unmoved :: "sched \<Rightarrow> sched \<Rightarrow> bool" where
  "unmoved s s' \<longleftrightarrow> lists s' = lists s \<and> g_queueBitmap s' = g_queueBitmap s
     \<and> g_idleTaskID s' = g_idleTaskID s \<and> runTask s' = runTask s
     \<and> (\<forall>t. taskID (tcb s' t) = taskID (tcb s t) \<and> priority (tcb s' t) = priority (tcb s t) \<and> st s' t = st s t)
     \<and> g_taskSortLink s' = g_taskSortLink s
     \<and> (\<forall>t. responseTime s' (TaskNode t) = responseTime s (TaskNode t))
     \<and> g_losTaskLock s' = g_losTaskLock s \<and> g_taskScheduled s' = g_taskScheduled s
     \<and> g_tickIntLock s' = g_tickIntLock s \<and> intActive s' = intActive s \<and> tick_later (tk s) (tk s')"

lemma unmoved_refl [simp]: "unmoved s s"
  by (simp add: unmoved_def)

lemma unmoved_trans: "unmoved s s' \<Longrightarrow> unmoved s' s'' \<Longrightarrow> unmoved s s''"
  using later_trans by (auto simp: unmoved_def)

lemma unmoved_Cycle [simp]: "unmoved s (snd (OsGetCurrSchedTimeCycle s))"
  by (simp add: unmoved_def GetCurrSchedTimeCycle_eq)

lemma unmoved_assert [simp]: "unmoved s (sched_assert c s)"
  by (simp add: unmoved_def sched_assert_def)

lemma unmoved_fields [simp]:
  "unmoved s (s\<lparr>g_schedResponseTime := r\<rparr>)" "unmoved s (s\<lparr>g_schedResponseID := w\<rparr>)"
  "unmoved s (s\<lparr>g_sysNeedSched := n\<rparr>)" "unmoved s (s\<lparr>g_swtmrSortLink := xs\<rparr>)"
  "unmoved s (SET_SORTLIST_VALUE (SwtmrNode i) v s)"
  "unmoved s (upd_tcb t (\<lambda>c. c\<lparr>startTime := v\<rparr>) s)" "unmoved s (upd_tcb t (\<lambda>c. c\<lparr>timeSlice := f c\<rparr>) s)"
  "tick_later (tk s) k \<Longrightarrow> unmoved s (s\<lparr>tk := k\<rparr>)"
  by (simp_all add: unmoved_def SET_SORTLIST_VALUE_def)

lemma unmoved_SetNext [simp]: "unmoved s (OsSchedSetNextExpireTime i e s)"
  using later_trans [OF later_SysCycleGet(1) later_Reload]
  by (simp add: OsSchedSetNextExpireTime_def GetCurrSchedTimeCycle_eq Let_def case_prod_beta unmoved_def)

lemma unmoved_UpdateExpire [simp]: "unmoved s (OsSchedUpdateExpireTime s)"
  by (simp add: OsSchedUpdateExpireTime_def Let_def)

lemma unmoved_SliceUpdate [simp]: "unmoved s (OsTimeSliceUpdate t c s)"
  by (simp add: unmoved_def) (simp add: OsTimeSliceUpdate_def Let_def sched_assert_def)

lemma unmoved_AddSwtmr [simp]: "unmoved s (OsAdd2SortLink (SwtmrNode i) a w OS_SORT_LINK_SWTMR s)"
proof -
  have "unmoved s (SET_SORTLIST_VALUE (SwtmrNode i) v s\<lparr>g_swtmrSortLink := xs\<rparr>)"
    "unmoved s (sched_assert c (SET_SORTLIST_VALUE (SwtmrNode i) v s))" for v xs c
    using unmoved_trans [OF unmoved_fields(5) unmoved_fields(4)]
      unmoved_trans [OF unmoved_fields(5) unmoved_assert] by blast+
  then show ?thesis by (simp add: OsAdd2SortLink_def set_link_def Let_def split: option.split)
qed


section \<open>The sleeping tasks\<close>

text \<open>
  A task that is ready, running or the idle task is not asleep; a node of the timer list has a
  time, and a task that waits there for an object is known to have a time-out.
\<close>

abbreviation awake :: "u16 \<Rightarrow> bool" where
  "awake w \<equiv> \<not> has w (flag PEND OR flag DELAY OR flag PEND_TIME)"

definition up :: "sched \<Rightarrow> nat \<Rightarrow> bool" where
  "up s t \<longleftrightarrow> has (st s t) (flag READY) \<or> t = runTask s \<or> t = OS_TCB_FROM_TID (g_idleTaskID s)"

definition timed_ok :: "sched \<Rightarrow> bool" where
  "timed_ok s \<longleftrightarrow> timer_ok s \<and> (\<forall>t. up s t \<longrightarrow> awake (st s t))
     \<and> (\<forall>t. TaskNode t \<in> set (g_taskSortLink s) \<longrightarrow> responseTime s (TaskNode t) \<noteq> OS_SORT_LINK_INVALID_TIME
          \<and> (has (st s t) (flag PEND) \<longrightarrow> has (st s t) (flag PEND_TIME)))"

lemma timed_okD:
  assumes "timed_ok s"
  shows "timer_ok s" "up s t \<Longrightarrow> awake (st s t)"
    "TaskNode t \<in> set (g_taskSortLink s) \<Longrightarrow> responseTime s (TaskNode t) \<noteq> OS_SORT_LINK_INVALID_TIME"
    "TaskNode t \<in> set (g_taskSortLink s) \<Longrightarrow> has (st s t) (flag PEND) \<Longrightarrow> has (st s t) (flag PEND_TIME)"
    "TaskNode t \<in> set (g_taskSortLink s) \<Longrightarrow> \<not> up s t"
  using assms by (auto simp: timed_ok_def timer_ok_def waiting_def)

lemma sorted_link_filter: "sorted_link rt xs \<Longrightarrow> sorted_link rt (filter P xs)"
  by (induction xs) auto

text \<open>Fewer nodes, and tasks outside the list that change.\<close>

lemma timed_ok_sub:
  assumes tm: "timed_ok s" and l: "g_taskSortLink s' = filter P (g_taskSortLink s)"
    and n: "\<And>u. TaskNode u \<in> set (g_taskSortLink s') \<Longrightarrow> responseTime s' (TaskNode u) = responseTime s (TaskNode u)
       \<and> st s' u = st s u \<and> priority (tcb s' u) = priority (tcb s u) \<and> (unlinked s u \<longrightarrow> unlinked s' u)"
    and a: "\<And>u. up s' u \<Longrightarrow> awake (st s' u)"
  shows "timed_ok s'"
proof -
  note d = timed_okD(1) [OF tm]
  have only: "\<exists>t. m = TaskNode t \<and> m \<in> set (g_taskSortLink s') \<and> waiting s t"
    if "m \<in> set (g_taskSortLink s')" for m
    using that d unfolding l by (auto simp: timer_ok_def)
  have "sorted_link (responseTime s) (g_taskSortLink s')"
    using d unfolding l by (simp add: timer_ok_def sorted_link_filter)
  moreover have "sorted_link (responseTime s') (g_taskSortLink s') = sorted_link (responseTime s) (g_taskSortLink s')"
    using only n by (intro sorted_link_cong) blast
  moreover have "\<exists>t. m = TaskNode t \<and> waiting s' t" if m: "m \<in> set (g_taskSortLink s')" for m
  proof -
    obtain t where t: "m = TaskNode t" "waiting s t" using only [OF m] by blast
    then have "waiting s' t" using n [of t] m by (auto simp: waiting_def)
    with t(1) show ?thesis by blast
  qed
  moreover have "distinct (g_taskSortLink s')" using d by (simp add: l timer_ok_def)
  ultimately have "timer_ok s'" by (simp add: timer_ok_def)
  moreover have "TaskNode t \<in> set (g_taskSortLink s)" if "TaskNode t \<in> set (g_taskSortLink s')" for t
    using that by (simp add: l)
  ultimately show ?thesis using tm n a by (auto simp: timed_ok_def)
qed

lemma timed_ok_cong:
  assumes tm: "timed_ok s" and u: "unmoved s s'"
  shows "timed_ok s'"
proof (rule timed_ok_sub [OF tm, of s' "\<lambda>_. True"])
  show "up s' t \<Longrightarrow> awake (st s' t)" for t
    using u timed_okD(2) [OF tm, of t] by (simp add: up_def unmoved_def)
qed (use u in \<open>simp_all add: unmoved_def unlinked_def on_list_def\<close>)

text \<open>Waking one task of a wait list.\<close>

lemma DeleteSortLink_list [simp]:
  "g_taskSortLink (OsDeleteSortLink n s) =
     (if responseTime s n \<noteq> OS_SORT_LINK_INVALID_TIME then removeAll n (g_taskSortLink s) else g_taskSortLink s)"
  "m \<noteq> n \<Longrightarrow> responseTime (OsDeleteSortLink n s) m = responseTime s m"
  by (simp_all add: OsDeleteSortLink_def OsDeleteNodeSortLink_def SET_SORTLIST_VALUE_def
      OsSchedResetSchedResponseTime_def)

lemma TaskWake_links:
  "g_taskSortLink (OsSchedTaskWake t s) =
     (if has (st s t) (flag PEND_TIME) \<and> responseTime s (TaskNode t) \<noteq> OS_SORT_LINK_INVALID_TIME
      then removeAll (TaskNode t) (g_taskSortLink s) else g_taskSortLink s)"
  "m \<noteq> TaskNode t \<Longrightarrow> responseTime (OsSchedTaskWake t s) m = responseTime s m"
  by (simp_all add: OsSchedTaskWake_def Let_def list_op_defs status_defs)

lemma woken_awake:
  assumes "has (st (OsSchedTaskWake t s) t) (flag READY)" "\<not> has (st s t) (flag READY)"
  shows "awake (st (OsSchedTaskWake t s) t)"
  using assms by (auto simp: OsSchedTaskWake_def Let_def list_op_defs status_defs EnQueue_tcb split: if_splits)

lemma timed_ok_wake:
  assumes k: "kern_ok s" and tm: "timed_ok s" and w: "wait_list l" "t \<in> set (lists s l)"
  shows "timed_ok (OsSchedTaskWake t s)"
proof (rule timed_ok_sub [OF tm])
  let ?s = "OsSchedTaskWake t s"
  have p: "has (st s t) (flag PEND)" using waiter_pends [OF kern_okD(2) [OF k] w] by simp
  show l: "g_taskSortLink ?s = filter (\<lambda>n. TaskNode t \<noteq> n) (g_taskSortLink s)"
  proof (cases "TaskNode t \<in> set (g_taskSortLink s)")
    case True
    then show ?thesis
      using timed_okD(3,4) [OF tm, of t] p by (simp add: TaskWake_links removeAll_filter_not_eq)
  next
    case False
    then have "filter (\<lambda>n. TaskNode t \<noteq> n) (g_taskSortLink s) = g_taskSortLink s"
      by (auto simp: filter_id_conv)
    then show ?thesis using False by (simp add: TaskWake_links removeAll_id)
  qed
  fix u
  show "responseTime ?s (TaskNode u) = responseTime s (TaskNode u) \<and> st ?s u = st s u
      \<and> priority (tcb ?s u) = priority (tcb s u) \<and> (unlinked s u \<longrightarrow> unlinked ?s u)"
    if "TaskNode u \<in> set (g_taskSortLink ?s)"
  proof -
    have "u \<noteq> t" using that by (auto simp: l)
    then show ?thesis using TaskWake_unlinked_other by (simp add: TaskWake_links(2) TaskWake_tcb_other)
  qed
  show "awake (st ?s u)" if "up ?s u"
  proof (cases "u = t")
    case True
    have n: "\<not> up s t" using timed_okD(2) [OF tm, of t] p by auto
    then have r: "has (st ?s t) (flag READY)" using that True by (simp add: up_def)
    have "awake (st ?s t)" by (rule woken_awake [OF r]) (use n in \<open>simp add: up_def\<close>)
    then show ?thesis using True by simp
  next
    case False
    then show ?thesis using that timed_okD(2) [OF tm, of u] by (simp add: up_def TaskWake_tcb_other)
  qed
qed


section \<open>Steps inside an interrupt\<close>

definition irq_ok :: "sched \<Rightarrow> bool" where
  "irq_ok s \<longleftrightarrow> kern_ok s \<and> timed_ok s \<and> intActive s"

definition irq_step :: "sched \<Rightarrow> sched \<Rightarrow> bool" where
  "irq_step s s' \<longleftrightarrow> irq_ok s' \<and> runTask s' = runTask s \<and> g_idleTaskID s' = g_idleTaskID s \<and> g_losTaskLock s' = g_losTaskLock s
     \<and> g_taskScheduled s' = g_taskScheduled s \<and> g_tickIntLock s' = g_tickIntLock s \<and> tick_later (tk s) (tk s')"

lemma irq_trans: "irq_step s s' \<Longrightarrow> irq_step s' s'' \<Longrightarrow> irq_step s s''"
  using later_trans by (auto simp: irq_step_def)

lemma irq_refl: "irq_ok s \<Longrightarrow> irq_step s s"
  by (simp add: irq_step_def)

lemma irq_stepD: "irq_step s s' \<Longrightarrow> irq_ok s'"
  by (simp add: irq_step_def)

lemma irq_unmoved:
  assumes ok: "irq_ok s" and u: "unmoved s s'"
  shows "irq_step s s'"
proof -
  have "kern_ok s' = kern_ok s" by (rule kern_ok_cong) (use u in \<open>auto simp: unmoved_def\<close>)
  then show ?thesis
    using ok u timed_ok_cong [OF _ u] by (simp add: irq_step_def irq_ok_def unmoved_def)
qed

text \<open>A reschedule is only asked for.\<close>

lemma irq_Schedule:
  assumes "irq_ok s"
  shows "irq_step s (LOS_Schedule s)"
proof -
  have "unmoved s (LOS_Schedule s)"
    using assms by (simp add: irq_ok_def LOS_Schedule_def ArchTaskSchedule_def)
  then show ?thesis by (rule irq_unmoved [OF assms])
qed

lemma later_Add [simp]: "tick_later (tk s) (tk (OsAdd2SortLink n a w ty s))"
  by (auto simp: OsAdd2SortLink_def Let_def SET_SORTLIST_VALUE_def set_link_def sched_assert_def
      split: option.split SortLinkType.split)

lemma EnQueue_time [simp]:
  "tick_later (tk s) (tk (OsSchedTaskEnQueue t s))" "g_tickIntLock (OsSchedTaskEnQueue t s) = g_tickIntLock s"
  by (simp_all add: OsSchedTaskEnQueue_def Let_def sched_assert_def OsSchedPriQueueEnHead_def
      OsSchedPriQueueEnTail_def list_op_defs status_defs)

lemma DeleteSortLink_time [simp]:
  "tk (OsDeleteSortLink n s) = tk s" "g_tickIntLock (OsDeleteSortLink n s) = g_tickIntLock s"
  "tk (OsDeleteNodeSortLink n s) = tk s" "g_tickIntLock (OsDeleteNodeSortLink n s) = g_tickIntLock s"
  "g_losTaskLock (OsDeleteNodeSortLink n s) = g_losTaskLock s"
  "g_taskScheduled (OsDeleteNodeSortLink n s) = g_taskScheduled s"
  "intActive (OsDeleteNodeSortLink n s) = intActive s"
  by (simp_all add: OsDeleteSortLink_def OsDeleteNodeSortLink_def SET_SORTLIST_VALUE_def
      OsSchedResetSchedResponseTime_def)

lemma TaskWake_time [simp]:
  "tick_later (tk s) (tk (OsSchedTaskWake t s))" "g_tickIntLock (OsSchedTaskWake t s) = g_tickIntLock s"
proof -
  let ?s1 = "status_clr t (flag PEND) (ListDelete t s)"
  let ?s2 = "if has (st ?s1 t) (flag PEND_TIME)
     then status_clr t (flag PEND_TIME) (OsDeleteSortLink (TaskNode t) ?s1) else ?s1"
  have "tk ?s2 = tk s" "g_tickIntLock ?s2 = g_tickIntLock s"
    by (simp_all add: list_op_defs status_defs)
  then show "tick_later (tk s) (tk (OsSchedTaskWake t s))" "g_tickIntLock (OsSchedTaskWake t s) = g_tickIntLock s"
    using EnQueue_time(1) [of ?s2 t] EnQueue_time(2) [of t ?s2] unfolding OsSchedTaskWake_def Let_def by auto
qed

lemma irq_wake:
  assumes "irq_ok s" "wait_list l" "t \<in> set (lists s l)"
  shows "irq_step s (OsSchedTaskWake t s)"
  using assms kern_ok_wake timed_ok_wake by (auto simp: irq_step_def irq_ok_def)

text \<open>A message posted without waiting.\<close>

lemma readWriteList_wait [simp]: "wait_list (readWriteList b i)"
  by (simp add: readWriteList_def)

lemma irq_WriteCopy:
  assumes ok: "irq_ok s"
  shows "irq_step s (snd (snd (snd (snd (LOS_QueueWriteCopy qid buf n LOS_NO_WAIT (q, s))))))"
proof -
  have "irq_step s (snd (snd (snd (snd (queue_finish i ty b0 n0 (p0, s))))))" for i ty b0 n0 p0
  proof -
    let ?l = "readWriteList (if OS_QUEUE_READ_WRITE_GET ty = 0 then 1 else 0) i"
    show ?thesis
    proof (cases "lists s ?l")
      case Nil
      then show ?thesis using irq_refl [OF ok] by (simp add: queue_finish_def Let_def case_prod_beta)
    next
      case (Cons t ts)
      then have w: "irq_step s (OsSchedTaskWake t s)" using irq_wake [OF ok, of ?l t] by simp
      show ?thesis using irq_trans [OF w irq_Schedule [OF irq_stepD [OF w]]] Cons
        by (simp add: queue_finish_def Let_def case_prod_beta)
    qed
  qed
  then show ?thesis using irq_refl [OF ok]
    by (auto simp: LOS_QueueWriteCopy_def Let_def OsQueueOperate_def case_prod_beta split: option.splits)
qed

section \<open>The scan of the timers\<close>

lemma irq_SwtmrStart:
  assumes "irq_ok s"
  shows "irq_step s (snd (OsSwtmrStart cur i (p, s)))"
  using irq_unmoved [OF assms unmoved_trans [OF unmoved_AddSwtmr unmoved_UpdateExpire]]
  by (simp add: OsSwtmrStart_def Let_def)

lemma irq_DeleteTimer:
  assumes ok: "irq_ok s"
  shows "irq_step s (OsDeleteNodeSortLink (SwtmrNode i) s)"
proof -
  have "removeAll (SwtmrNode i) (g_taskSortLink s) = g_taskSortLink s"
    using ok by (intro removeAll_id) (auto simp: irq_ok_def timed_ok_def timer_ok_def)
  then have "unmoved s (OsDeleteNodeSortLink (SwtmrNode i) s)"
    by (simp add: unmoved_def)
  then show ?thesis by (rule irq_unmoved [OF ok])
qed

lemma irq_fire:
  assumes ok: "irq_ok s"
  shows "irq_step s (snd (snd (scan_fire ct i (p, q, s))))"
proof -
  let ?c = "g_swtmrCBArray p i" and ?s0 = "OsDeleteNodeSortLink (SwtmrNode i) s"
  let ?it = "\<lparr>item_handler = pfnHandler ?c, item_arg = swtmr_uwArg ?c, item_swtmrID = usTimerID ?c\<rparr>"
  obtain r b n q1 s1 where w: "LOS_QueueWriteCopy (g_swtmrHandlerQueue p) (Some (item_bytes ?it))
      sizeof_SwtmrHandlerItem LOS_NO_WAIT (q, ?s0) = (r, b, n, q1, s1)" by (metis prod_cases5)
  note d = irq_DeleteTimer [OF ok, of i]
  have "irq_step ?s0 s1" using irq_WriteCopy [OF irq_stepD [OF d]] w by (metis snd_conv)
  then have s1: "irq_step s s1" by (rule irq_trans [OF d])
  have "irq_step s (snd (OsSwtmrStart ct i (p', s1)))" for p'
    by (rule irq_trans [OF s1 irq_SwtmrStart [OF irq_stepD [OF s1]]])
  then show ?thesis using w s1
    by (simp add: scan_fire_def OsSwtmrTimeoutHandle_def Let_def case_prod_beta)
qed

lemma irq_scan:
  assumes "swtmr_scan ct (p, q, s) = Some (p', q', s')" "irq_ok s"
  shows "irq_step s s'"
proof -
  have "irq_ok (snd (snd w)) \<longrightarrow> irq_step (snd (snd w)) (snd (snd w'))" if "swtmr_scan ct w = Some w'" for w w'
  proof (rule swtmr_scan.raw_induct [where P = "\<lambda>ct w w'. irq_ok (snd (snd w)) \<longrightarrow> irq_step (snd (snd w)) (snd (snd w'))", OF _ that],
      intro impI)
    fix scan ct w w'
    assume IH: "\<And>ct w w'. scan ct w = Some w' \<Longrightarrow> irq_ok (snd (snd w)) \<longrightarrow> irq_step (snd (snd w)) (snd (snd w'))"
      and ok: "irq_ok (snd (snd w))"
      and e: "(case g_swtmrSortLink (snd (snd w)) of [] \<Rightarrow> Some w
         | TaskNode t # _ \<Rightarrow> Some (fst w, fst (snd w), sched_assert False (snd (snd w)))
         | SwtmrNode i # _ \<Rightarrow> if responseTime (snd (snd w)) (SwtmrNode i) \<le> ct
             then scan ct (scan_fire ct i w) else Some w) = Some w'"
    have fire: "irq_step (snd (snd w)) (snd (snd (scan_fire ct i w)))" for i
      using irq_fire [OF ok, of ct i "fst w" "fst (snd w)"] by simp
    show "irq_step (snd (snd w)) (snd (snd w'))"
      using e IH [of ct "scan_fire ct i w" w' for i] irq_trans [OF fire] irq_stepD [OF fire] irq_refl [OF ok]
        irq_unmoved [OF ok unmoved_assert]
      by (auto split: list.splits sortnode.splits if_splits)
  qed
  from this [OF assms(1)] show ?thesis using assms(2) by simp
qed


section \<open>The scan of the sleeping tasks\<close>

lemma WakePend_time:
  "tick_later (tk s) (tk (snd (OsSchedWakePendTimeTask t need s)))"
  "g_tickIntLock (snd (OsSchedWakePendTimeTask t need s)) = g_tickIntLock s"
  "runTask (snd (OsSchedWakePendTimeTask t need s)) = runTask s"
  "g_idleTaskID (snd (OsSchedWakePendTimeTask t need s)) = g_idleTaskID s"
  "g_losTaskLock (snd (OsSchedWakePendTimeTask t need s)) = g_losTaskLock s"
  "g_taskScheduled (snd (OsSchedWakePendTimeTask t need s)) = g_taskScheduled s"
  "intActive (snd (OsSchedWakePendTimeTask t need s)) = intActive s"
proof -
  let ?s1 = "status_clr t (flag PEND OR flag PEND_TIME OR flag DELAY) s"
  let ?s2 = "if has (st s t) (flag PEND)
     then upd_tcb t (\<lambda>c. c\<lparr>taskMux := None, taskSem := None\<rparr>)
            (ListDelete t (status_set t (flag TIMEOUT) ?s1)) else ?s1"
  have f: "tk ?s2 = tk s" "g_tickIntLock ?s2 = g_tickIntLock s" "runTask ?s2 = runTask s"
    "g_idleTaskID ?s2 = g_idleTaskID s" "g_losTaskLock ?s2 = g_losTaskLock s"
    "g_taskScheduled ?s2 = g_taskScheduled s" "intActive ?s2 = intActive s"
    by (simp_all add: list_op_defs status_defs)
  have e: "snd (OsSchedWakePendTimeTask t need s) \<in> {s, ?s2, OsSchedTaskEnQueue t ?s2}"
    by (simp add: OsSchedWakePendTimeTask_def Let_def)
  then show "tick_later (tk s) (tk (snd (OsSchedWakePendTimeTask t need s)))"
    using EnQueue_time(1) [of ?s2 t] f(1) by auto
  show "g_tickIntLock (snd (OsSchedWakePendTimeTask t need s)) = g_tickIntLock s"
    using e EnQueue_time(2) [of t ?s2] f(2) by auto
  show "runTask (snd (OsSchedWakePendTimeTask t need s)) = runTask s"
    "g_idleTaskID (snd (OsSchedWakePendTimeTask t need s)) = g_idleTaskID s"
    "g_losTaskLock (snd (OsSchedWakePendTimeTask t need s)) = g_losTaskLock s"
    "g_taskScheduled (snd (OsSchedWakePendTimeTask t need s)) = g_taskScheduled s"
    "intActive (snd (OsSchedWakePendTimeTask t need s)) = intActive s"
    using e f by auto
qed

lemma irq_expire:
  fixes need :: bool
  assumes ok: "irq_ok s" and l: "g_taskSortLink s = TaskNode t # ns"
  defines "r \<equiv> OsSchedWakePendTimeTask t need (OsDeleteNodeSortLink (TaskNode t) s)"
  shows "irq_step s (snd r)"
proof -
  let ?d = "OsDeleteNodeSortLink (TaskNode t) s"
  have k: "kern_ok s" and tm: "timed_ok s" and int: "intActive s" using ok by (simp_all add: irq_ok_def)
  note D = kern_okD [OF k] and T = timed_okD [OF tm]
  have d0: "waiting ?d t" using timer_ok_node [OF T(1)] l by (simp add: waiting_def)
  have nt: "\<not> up s t" using T(5) [of t] l by simp
  note e = expire_one [OF D(1) T(1) l, where need = need, folded r_def]
  note E = WakePendTimeTask_effect [OF sched_ok_DeleteNodeSortLink [THEN iffD2, OF D(1)] d0, where need = need, folded r_def]
  have w: "runTask (snd r) = runTask s" "g_idleTaskID (snd r) = g_idleTaskID s"
    "g_losTaskLock (snd r) = g_losTaskLock s" "g_taskScheduled (snd r) = g_taskScheduled s"
    "intActive (snd r) = intActive s" "g_tickIntLock (snd r) = g_tickIntLock s" "tick_later (tk s) (tk (snd r))"
    using WakePend_time [where s = ?d and t = t and need = need] by (simp_all add: r_def)
  have o: "tcb (snd r) x = tcb s x" "unlinked s x \<longrightarrow> unlinked (snd r) x" if "x \<noteq> t" for x
    using e(6) [OF that] E(4) [OF that] by simp_all
  have up_t: "awake (st (snd r) t)" using e(8) .
  have prio: "unat (priority (tcb s x)) < 32" if "has (st (snd r) x) (flag PEND)" for x
    using that up_t o(1) [of x] D(2) by (cases "x = t") (auto simp: wait_inv_def)
  have ne: "runTask s \<noteq> t" "OS_TCB_FROM_TID (g_idleTaskID s) \<noteq> t" using nt by (auto simp: up_def)
  have "wait_inv (snd r)"
    unfolding wait_inv_def
  proof (intro conjI allI impI)
    show "sched_ok (snd r)" by (rule e(1))
    fix x assume "has (st (snd r) x) (flag PEND)"
    then show "unat (priority (tcb (snd r) x)) < 32"
      using prio [of x] up_t o(1) [of x] by (cases "x = t") auto
  qed
  moreover have "run_ok (snd r)" "has (st (snd r) (runTask (snd r))) (flag RUNNING)"
    using D(3,5) o [OF ne(1)] by (auto simp: run_ok_def Let_def w)
  moreover have "idle_ok (snd r)"
    using D(4) o [OF ne(2)] by (simp add: idle_ok_def Let_def is_idle_def w)
  ultimately have k': "kern_ok (snd r)" by (simp add: kern_ok_def)
  have "timed_ok (snd r)"
  proof (rule timed_ok_sub [OF tm, of _ "\<lambda>n. n \<noteq> TaskNode t"])
    have ns: "TaskNode t \<notin> set ns" using T(1) l by (auto simp: timer_ok_def)
    show "g_taskSortLink (snd r) = filter (\<lambda>n. n \<noteq> TaskNode t) (g_taskSortLink s)"
      using ns by (simp add: e(3) l) (metis (mono_tags, lifting) filter_True)
    fix u
    show "responseTime (snd r) (TaskNode u) = responseTime s (TaskNode u) \<and> st (snd r) u = st s u
        \<and> priority (tcb (snd r) u) = priority (tcb s u) \<and> (unlinked s u \<longrightarrow> unlinked (snd r) u)"
      if "TaskNode u \<in> set (g_taskSortLink (snd r))"
      using that e(3) e(4) [of "TaskNode u"] ns o [of u] by (cases "u = t") simp_all
    show "up (snd r) u \<Longrightarrow> awake (st (snd r) u)"
      using T(2) [of u] up_t o(1) [of u] by (cases "u = t") (simp_all add: up_def w)
  qed
  then show ?thesis using k' int w by (simp add: irq_step_def irq_ok_def)
qed


lemma timers_WakePend [simp]: "timers (snd (OsSchedWakePendTimeTask t need s)) = timers s"
  by (simp add: OsSchedWakePendTimeTask_def Let_def ListDelete_def)

lemma irq_scan_timer:
  "irq_ok s \<Longrightarrow> only_timers s \<Longrightarrow> irq_step s (snd (scan_timer now need s))
     \<and> timers (snd (scan_timer now need s)) = timers s
     \<and> (\<forall>n\<in>set (g_taskSortLink (snd (scan_timer now need s))). now < responseTime (snd (scan_timer now need s)) n)"
proof (induction now need s rule: scan_timer.induct)
  case (1 now need s)
  have tm: "timer_ok s" and k: "kern_ok s" using 1(2) by (simp_all add: irq_ok_def timed_ok_def)
  show ?case
  proof (cases "g_taskSortLink s")
    case Nil
    then show ?thesis using irq_refl [OF 1(2)] by (simp add: scan_timer.simps [of now need s])
  next
    case (Cons n ns)
    then obtain t where "n = TaskNode t" using tm by (auto simp: timer_ok_def)
    note l = Cons [unfolded this]
    have sorted: "\<forall>m\<in>set ns. responseTime s (TaskNode t) \<le> responseTime s m"
      using tm l by (simp add: timer_ok_def)
    show ?thesis
    proof (cases "responseTime s (TaskNode t) \<le> now")
      case False
      then show ?thesis using irq_refl [OF 1(2)] l sorted by (auto simp: scan_timer.simps [of now need s])
    next
      case True
      let ?d = "OsDeleteNodeSortLink (TaskNode t) s"
      let ?r = "OsSchedWakePendTimeTask t need ?d"
      have step: "scan_timer now need s = scan_timer now (fst ?r) (snd ?r)"
        using True l by (simp add: scan_timer.simps [of now need s] Let_def)
      note e = irq_expire [OF 1(2) l, of need]
      have t: "timers (snd ?r) = timers s" using 1(3) by simp
      have "only_timers (snd ?r)" using timers_only [OF t] 1(3) by simp
      note IH = 1(1) [OF l refl True refl irq_stepD [OF e] this]
      show ?thesis using IH irq_trans [OF e] t unfolding step by simp
    qed
  qed
qed

lemma irq_ScanTimerList:
  assumes ok: "irq_ok s" and o: "only_timers s" and e: "OsSchedScanTimerList s = (need, s')"
  shows "irq_step s s'" "timers s' = timers s"
    "panic (tk s') \<or> (\<forall>n\<in>set (g_taskSortLink s'). g_oldTickTimerBase (tk s) < responseTime s' n)"
proof -
  let ?s1 = "snd (OsGetCurrSchedTimeCycle s)" and ?now = "fst (OsGetCurrSchedTimeCycle s)"
  note u = irq_unmoved [OF ok unmoved_Cycle]
  have t1: "timers ?s1 = timers s" by simp
  note S = irq_scan_timer [OF irq_stepD [OF u], where now = ?now and need = False]
  have n: "tick_later (tk s) (tk ?s1)" "g_oldTickTimerBase (tk ?s1) = ?now"
    by (simp_all add: GetCurrSchedTimeCycle_eq)
  show "irq_step s s'" "timers s' = timers s"
    "panic (tk s') \<or> (\<forall>n\<in>set (g_taskSortLink s'). g_oldTickTimerBase (tk s) < responseTime s' n)"
  proof (atomize (full), cases "g_taskSortLink s = []")
    case True
    then show "irq_step s s' \<and> timers s' = timers s \<and>
      (panic (tk s') \<or> (\<forall>n\<in>set (g_taskSortLink s'). g_oldTickTimerBase (tk s) < responseTime s' n))"
      using e irq_refl [OF ok] by (simp add: OsSchedScanTimerList_def)
  next
    case False
    then have s': "s' = snd (scan_timer ?now False ?s1)"
      using e by (simp add: OsSchedScanTimerList_def case_prod_beta)
    have "only_timers ?s1" using o timers_only [OF t1] by simp
    note S' = S [OF this, folded s']
    have "panic (tk s') \<or> g_oldTickTimerBase (tk s) \<le> ?now"
      using n S' by (auto simp: tick_later_def irq_step_def)
    then show "irq_step s s' \<and> timers s' = timers s \<and>
      (panic (tk s') \<or> (\<forall>n\<in>set (g_taskSortLink s'). g_oldTickTimerBase (tk s) < responseTime s' n))"
      using irq_trans [OF u] S' t1 by (metis le_less_trans)
  qed
qed


section \<open>The switch at the end\<close>

lemma switch_out_awake:
  assumes "awake (st s (runTask s))"
  shows "g_taskSortLink (switch_out s) = g_taskSortLink s" "responseTime (switch_out s) = responseTime s"
    "x \<noteq> runTask s \<Longrightarrow> st (switch_out s) x = st s x" "awake (st (switch_out s) (runTask s))"
    "unlinked s x \<Longrightarrow> x \<noteq> runTask s \<Longrightarrow> unlinked (switch_out s) x"
proof -
  let ?s1 = "snd (OsGetCurrSchedTimeCycle s)"
  let ?s2 = "OsTimeSliceUpdate (runTask s) (fst (OsGetCurrSchedTimeCycle s)) ?s1"
  have f: "g_taskSortLink ?s2 = g_taskSortLink s" "responseTime ?s2 = responseTime s" "st ?s2 x = st s x"
    "lists ?s2 = lists s" "st ?s1 x = st s x" for x by (simp_all add: GetCurrSchedTimeCycle_eq)
  have e: "switch_out s = (if \<not> has (st ?s2 (runTask s)) OS_TASK_BLOCKED_STATUS
      then OsSchedTaskEnQueue (runTask s) ?s2 else ?s2)"
    using assms by (simp add: switch_out_def Let_def case_prod_beta GetCurrSchedTimeCycle_eq)
  show "g_taskSortLink (switch_out s) = g_taskSortLink s" "responseTime (switch_out s) = responseTime s"
    by (simp_all only: e f EnQueue_sort_links split: if_split) simp_all
  show "x \<noteq> runTask s \<Longrightarrow> st (switch_out s) x = st s x"
    by (simp add: e EnQueue_tcb f)
  show "awake (st (switch_out s) (runTask s))"
    using assms by (auto simp: e EnQueue_tcb f)
  assume u: "unlinked s x" "x \<noteq> runTask s"
  then have "unlinked ?s2 x" using unlinked_cong [OF f(4)] by simp
  then show "unlinked (switch_out s) x" using u(2) unlinked_EnQueue by (simp add: e)
qed

lemma switch_in_rest:
  "g_taskSortLink (switch_in r s) = g_taskSortLink s" "responseTime (switch_in r s) = responseTime s"
  "x \<noteq> r \<Longrightarrow> x \<noteq> OsGetTopTask s \<Longrightarrow> st (switch_in r s) x = st s x"
  "awake (st (switch_in r s) x) = awake (st s x)"
  "unlinked s x \<Longrightarrow> unlinked (switch_in r s) x"
  by (auto simp: switch_in_def Let_def DeQueue_tcb status_defs OsSchedTaskDeQueue_def
      OsSchedPriQueueDelete_def list_op_defs unlinked_def on_list_def)

lemma timed_ok_Arch:
  assumes k: "kern_ok s" and tm: "timed_ok s" and int: "\<not> intActive s"
  shows "timed_ok (ArchTaskSchedule s)"
proof -
  let ?s0 = "s\<lparr>g_sysNeedSched := False\<rparr>"
  let ?s3 = "switch_out ?s0" and ?s' = "ArchTaskSchedule s"
  let ?r = "runTask s" and ?t = "OsGetTopTask (switch_out (s\<lparr>g_sysNeedSched := False\<rparr>))"
  note D = kern_okD [OF k] and T = timed_okD [OF tm] and f = ArchTaskSchedule_frame [OF int]
  have "awake (st ?s0 (runTask ?s0))" using T(2) [of ?r] by (simp add: up_def)
  note o = switch_out_awake [OF this]
  have k0: "unmoved s ?s0" by simp
  have ok3: "sched_ok ?s3" using sched_ok_switch_out [of ?s0] D(1,3)
    by (simp add: run_ok_def unlinked_def on_list_def)
  have a3: "awake (st ?s3 x)" if "up ?s3 x" for x
  proof (cases "x = ?r")
    case True
    then show ?thesis using o(4) by simp
  next
    case False
    then show ?thesis using that o(3) [of x] T(2) [of x] by (simp add: up_def)
  qed
  have "up ?s3 ?t"
  proof (cases "g_queueBitmap ?s3 = 0")
    case True
    then show ?thesis by (simp add: OsGetTopTask_def up_def)
  next
    case False
    then show ?thesis using top_task_ready(1) [OF ok3] by (simp add: up_def)
  qed
  note top = a3 [OF this]
  have g: "st ?s' x = st (switch_in ?r ?s3) x" "priority (tcb ?s' x) = priority (tcb s x)"
    "unlinked ?s' x = unlinked (switch_in ?r ?s3) x" for x
    using f unlinked_cong [OF f(2)] by simp_all
  have link: "g_taskSortLink ?s' = g_taskSortLink s" "responseTime ?s' = responseTime s"
    using int o(1,2) by (simp_all add: ArchTaskSchedule_def TaskSwitch_split case_prod_beta Let_def switch_in_rest)
  show ?thesis
  proof (rule timed_ok_sub [OF tm, of _ "\<lambda>_. True"])
    show "g_taskSortLink ?s' = filter (\<lambda>_. True) (g_taskSortLink s)" by (simp add: link)
    fix u
    show "responseTime ?s' (TaskNode u) = responseTime s (TaskNode u) \<and> st ?s' u = st s u
        \<and> priority (tcb ?s' u) = priority (tcb s u) \<and> (unlinked s u \<longrightarrow> unlinked ?s' u)"
      if "TaskNode u \<in> set (g_taskSortLink ?s')"
    proof -
      have l: "TaskNode u \<in> set (g_taskSortLink s)" using that by (simp add: link)
      have r: "u \<noteq> ?r" using T(5) [OF l] by (auto simp: up_def)
      have "\<not> awake (st s u)" using timer_ok_node [OF T(1) l] by (auto simp: waiting_def)
      then have "u \<noteq> ?t" using top o(3) [of u] r by auto
      moreover have "unlinked s u \<Longrightarrow> unlinked ?s0 u" by (simp add: unlinked_def on_list_def)
      ultimately show ?thesis
        using r o(3) [of u] o(5) [of u] switch_in_rest(3) [where x = u and r = ?r and s = ?s3]
          switch_in_rest(5) [where x = u and r = ?r and s = ?s3] by (simp add: g link)
    qed
    show "awake (st ?s' u)" if "up ?s' u"
    proof -
      have "up ?s3 u \<or> u = ?t"
        using that f ArchTaskSchedule_top [OF int] by (auto simp: up_def g switch_in_status)
      then have "awake (st ?s3 u)" using a3 top by blast
      then show ?thesis using switch_in_rest(4) [where x = u and r = ?r and s = ?s3] g(1) [of u] by simp
    qed
  qed
qed

end
