(* ===== verification/Los_SwtmrPost.thy ===== *)
theory Los_SwtmrPost
  imports Los_Interrupt
begin

text \<open>
  What the expiry of the software timers sends: the messages the scan of the tick puts into the
  handler queue, one for each time a timer fires, and the tasks waiting there that it wakes.
\<close>

section \<open>One message\<close>

text \<open>The message of a timer's block, and how often a timer fires in a scan at time \<open>ct\<close>.\<close>

definition fire_msg :: "SWTMR_CTRL_S \<Rightarrow> u8 list" where
  "fire_msg c = u32_bytes (pfnHandler c) @ u32_bytes (swtmr_uwArg c) @ u32_bytes (usTimerID c)"

definition firings :: "u64 \<Rightarrow> u32 \<Rightarrow> SWTMR_CTRL_S \<times> bool \<times> u64 \<Rightarrow> nat" where
  "firings ct clk = (\<lambda>(c, running, d).
     if \<not> running \<or> d > ct then 0
     else if ucMode c = LOS_SWTMR_MODE_PERIOD then periods (unat ct) (unat (period clk c)) (unat d) else 1)"

abbreviation handler_queue :: "swtmr_state \<Rightarrow> nat" where
  "handler_queue p \<equiv> unat (g_swtmrHandlerQueue p)"

text \<open>The handler queue is a queue in use with \<open>n\<close> messages in its ring and room for a message.\<close>

definition handler_ok :: "swtmr_state \<Rightarrow> queue_state \<Rightarrow> nat \<Rightarrow> bool" where
  "handler_ok p q n \<longleftrightarrow> (let b = g_allQueue q (handler_queue p) in
     handler_queue p < 6 \<and> ring_ok b n \<and> queueState b \<noteq> OS_QUEUE_UNUSED
     \<and> n + writable b \<le> unat (queueLen b) \<and> 16 \<le> unat (queueSize b))"

lemma get_bytes_put_same: "get_bytes 0 (length xs) (put_bytes 0 xs m) = xs"
  by (rule nth_equalityI) (simp_all add: get_bytes_def put_bytes_def)

lemma item_msg:
  "get_bytes 0 12 (item_bytes \<lparr>item_handler = pfnHandler c, item_arg = swtmr_uwArg c, item_swtmrID = usTimerID c\<rparr>)
   = fire_msg c"
  using get_bytes_put_same [of "fire_msg c" "\<lambda>_. 0"] by (simp add: item_bytes_def fire_msg_def)

text \<open>Posting it: a full queue loses it; otherwise it is the last in the ring, and the first task that waits is woken.\<close>

lemma post_msg:
  assumes ok: "handler_ok p q n" and e: "LOS_QueueWriteCopy (g_swtmrHandlerQueue p) (Some buf)
      sizeof_SwtmrHandlerItem LOS_NO_WAIT (q, s) = (r, b', z', q', s')"
  defines "i \<equiv> handler_queue p"
  shows "if writable (g_allQueue q i) = 0 then q' = q \<and> s' = s
    else handler_ok p q' (n + 1)
      \<and> ring (g_allQueue q' i) (n + 1) = ring (g_allQueue q i) n @ [get_bytes 0 12 buf]
      \<and> writable (g_allQueue q' i) = writable (g_allQueue q i) - 1
      \<and> (\<forall>j. j \<noteq> i \<longrightarrow> g_allQueue q' j = g_allQueue q j)
      \<and> s' = (case lists s (QueueRead i) of [] \<Rightarrow> s | t # _ \<Rightarrow> LOS_Schedule (OsSchedTaskWake t s))"
proof -
  let ?q = "g_allQueue q i" and ?sz = "12 :: u32"
  let ?W = "readWriteableCnt ?q 1"
  have lt: "unat (queueSize ?q) < 2 ^ LENGTH(16)" by (rule unsigned_less)
  have S: "16 \<le> unat (queueSize ?q)" using ok by (simp add: handler_ok_def Let_def i_def)
  have c: "unat (ucast (queueSize ?q) :: u32) = unat (queueSize ?q)"
    using lt by (simp add: unsigned_ucast_eq take_bit_nat_eq_self)
  have "unat (ucast (queueSize ?q) - 4 :: u32) = unat (queueSize ?q) - 4"
    using S c by (simp add: unat_sub word_le_nat_alt)
  moreover have "\<not> unat (queueSize ?q) - 4 < 12" using S by linarith
  ultimately have chk: "OsQueueOperateParamCheck ?q write_tail_type ?sz = LOS_OK"
    using ok by (simp add: OsQueueOperateParamCheck_def handler_ok_def Let_def i_def word_less_nat_alt
        word_le_nat_alt SECUREC_MEM_MAX_LEN_def)
  have rw: "OS_QUEUE_READ_WRITE_GET write_tail_type = 1" "\<not> OS_QUEUE_IS_READ write_tail_type"
    by (simp_all add: type_values queue_op_defs)
  have W: "writable ?q = unat ?W" by (simp add: writable_def queue_op_defs)
  have run: "OsQueueOperate (g_swtmrHandlerQueue p) write_tail_type buf ?sz LOS_NO_WAIT (q, s) = (r, b', z', q', s')"
    using e ok by (simp add: LOS_QueueWriteCopy_def OsQueueWriteParameterCheck_def queue_limit sizeof_SwtmrHandlerItem_def
        handler_ok_def Let_def write_tail_type_def [symmetric])
  show ?thesis
  proof (cases "?W = 0")
    case True
    then have "q' = q \<and> s' = s" using run chk rw
      by (simp add: OsQueueOperate_def Let_def OsGetQueueHandle_def i_def [symmetric])
    then show ?thesis using True W by simp
  next
    case False
    note dec = cnt_dec [OF False]
    let ?q1 = "?q\<lparr>readWriteableCnt := (readWriteableCnt ?q)(1 := ?W - 1)\<rparr>"
    have n: "n < unat (queueLen ?q1)" "ring_ok ?q1 n" "unat ?sz \<le> unat (queueSize ?q1) - 4"
      using ok dec S by (simp_all add: handler_ok_def Let_def W i_def [symmetric])
    obtain q2 where q2: "OsQueueBufferOperate ?q1 write_tail_type buf ?sz = (q2, buf, ?sz)" "ring_ok q2 (n + 1)"
      "ring q2 (n + 1) = added write_tail_type (get_bytes 0 (unat ?sz) buf) (ring ?q1 n)"
      "queueState q2 = queueState ?q1" "queueLen q2 = queueLen ?q1" "readWriteableCnt q2 = readWriteableCnt ?q1"
      using write_ring [OF disjI1 [OF refl] n(2,1,3), of buf] by auto
    have "queueSize q2 = queueSize (fst (OsQueueBufferOperate ?q1 write_tail_type buf ?sz))" using q2(1) by simp
    also have "\<dots> = queueSize ?q" using n(3) S by (simp add: write_operate(1) write_slot_def)
    finally have size: "queueSize q2 = queueSize ?q" .
    have wl: "readWriteList 0 i = QueueRead i" by (simp add: readWriteList_def queue_op_defs)
    have r: "g_allQueue q' = (g_allQueue q)(i := (if lists s (QueueRead i) = []
        then q2\<lparr>readWriteableCnt := (readWriteableCnt q2)(0 := readWriteableCnt q2 0 + 1)\<rparr> else q2))"
      "s' = (case lists s (QueueRead i) of [] \<Rightarrow> s | t # _ \<Rightarrow> LOS_Schedule (OsSchedTaskWake t s))"
      using run False chk rw q2(1)
      by (auto simp: OsQueueOperate_def queue_finish_def Let_def OsGetQueueHandle_def i_def [symmetric] wl upd_queue_def
          split: list.splits)
    show ?thesis
      using ok dec q2(2-6) size S
      by (simp add: r W handler_ok_def Let_def i_def [symmetric] added_kind writable_def queue_op_defs)
  qed
qed

section \<open>The scan\<close>

text \<open>
  What a list of messages does to the handler queue: as many as there is room for go in, in
  order, behind what was there; no other queue changes.
\<close>

definition posted :: "nat \<Rightarrow> u8 list list \<Rightarrow> queue_state \<Rightarrow> nat \<Rightarrow> queue_state \<Rightarrow> bool" where
  "posted i ms q n q' \<longleftrightarrow> (let k = min (length ms) (writable (g_allQueue q i)) in
     ring (g_allQueue q' i) (n + k) = ring (g_allQueue q i) n @ take k ms
     \<and> writable (g_allQueue q' i) = writable (g_allQueue q i) - k
     \<and> (\<forall>j. j \<noteq> i \<longrightarrow> g_allQueue q' j = g_allQueue q j))"

text \<open>Each message that goes in takes one task off the queue's readers, the first first, and wakes it.\<close>

definition readers_woken :: "nat \<Rightarrow> nat \<Rightarrow> sched \<Rightarrow> sched \<Rightarrow> bool" where
  "readers_woken i k s s' \<longleftrightarrow> lists s' (QueueRead i) = drop k (lists s (QueueRead i))
     \<and> (\<forall>t. if t \<in> set (take k (lists s (QueueRead i))) then waked s s' t
            else st s' t = st s t \<and> responseTime s' (TaskNode t) = responseTime s (TaskNode t)
              \<and> (TaskNode t \<in> set (g_taskSortLink s') \<longleftrightarrow> TaskNode t \<in> set (g_taskSortLink s)))"

lemma readers_0: "unmoved s s' \<Longrightarrow> readers_woken i 0 s s'"
  by (simp add: readers_woken_def unmoved_def)

lemma readers_trans:
  assumes d: "distinct (lists s (QueueRead i))" and a: "readers_woken i j s u" "readers_woken i k u s'"
  shows "readers_woken i (j + k) s s'"
proof -
  let ?l = "lists s (QueueRead i)"
  have t: "take (j + k) ?l = take j ?l @ take k (drop j ?l)" by (simp add: take_add)
  have dis: "x \<notin> set (take k (drop j ?l))" if "x \<in> set (take j ?l)" for x
    using d that by (metis append_take_drop_id disjoint_iff distinct_append in_set_takeD)
  have l: "lists u (QueueRead i) = drop j ?l" using a(1) by (simp add: readers_woken_def)
  let ?same = "\<lambda>s s' t. st s' t = st s t \<and> responseTime s' (TaskNode t) = responseTime s (TaskNode t)
      \<and> (TaskNode t \<in> set (g_taskSortLink s') \<longleftrightarrow> TaskNode t \<in> set (g_taskSortLink s))"
  have A: "if x \<in> set (take j ?l) then waked s u x else ?same s u x" for x
    using a(1) by (simp add: readers_woken_def)
  have B: "if x \<in> set (take k (drop j ?l)) then waked u s' x else ?same u s' x" for x
    using a(2) unfolding readers_woken_def l by simp
  have "waked s s' x" if "x \<in> set (take j ?l)" for x
  proof -
    have "waked s u x" "?same u s' x" using A [of x] B [of x] dis [OF that] that by simp_all
    then show ?thesis by (simp add: waked_def)
  qed
  moreover have "waked s s' x" if "x \<in> set (take k (drop j ?l))" for x
  proof -
    have "x \<notin> set (take j ?l)" using dis that by blast
    then have "?same s u x" "waked u s' x" using A [of x] B [of x] that by simp_all
    then show ?thesis by (simp add: waked_def timer_sound_def)
  qed
  moreover have "?same s s' x" if "x \<notin> set (take j ?l)" "x \<notin> set (take k (drop j ?l))" for x
    using A [of x] B [of x] that by simp
  moreover have "lists s' (QueueRead i) = drop (j + k) ?l"
    using a unfolding readers_woken_def l by (simp add: add.commute)
  ultimately show ?thesis unfolding readers_woken_def t by auto
qed

lemma readers_wake:
  assumes ok: "irq_ok s" and l: "lists s (QueueRead i) = t # ts"
  shows "readers_woken i 1 s (LOS_Schedule (OsSchedTaskWake t s))"
proof -
  let ?w = "OsSchedTaskWake t s"
  have k: "kern_ok s" using ok by (simp add: irq_ok_def)
  have w: "irq_step s ?w" using irq_wake [OF ok, of "QueueRead i" t] l by simp
  have u: "unmoved ?w (LOS_Schedule ?w)"
    using irq_stepD [OF w] by (simp add: irq_ok_def LOS_Schedule_def ArchTaskSchedule_def)
  have "t \<notin> set ts" using wait_distinct [OF kern_okD(2) [OF k], of "QueueRead i"] l by simp
  then have "lists ?w (QueueRead i) = ts" using l by (simp add: TaskWake_lists removeAll_id)
  moreover have "waked s ?w t" by (rule waked_TaskWake)
  moreover have "responseTime ?w (TaskNode x) = responseTime s (TaskNode x)" if "x \<noteq> t" for x
    using that by (simp add: TaskWake_links(2))
  ultimately show ?thesis
    using u TaskWake_other(1,3) [of _ t s] l by (auto simp: readers_woken_def unmoved_def waked_def)
qed

text \<open>One firing: its message goes to the queue as far as there is room.\<close>

lemma fire_posts:
  assumes lk: "link_ok s" "linked s i" and ok: "handler_ok p q n" and e: "scan_fire ct i (p, q, s) = (p1, q1, s1)"
  defines "h \<equiv> handler_queue p"
  defines "k \<equiv> min 1 (writable (g_allQueue q h))"
  shows "handler_ok p1 q1 (n + k)" "posted h [fire_msg (blk_of p i)] q n q1"
    "fire_msg (blk_of p1 j) = fire_msg (blk_of p j)" "g_swtmrHandlerQueue p1 = g_swtmrHandlerQueue p"
    "irq_ok s \<Longrightarrow> readers_woken h k s s1"
proof -
  let ?c = "blk_of p i" and ?p0 = "upd_swtmr i (\<lambda>c. c\<lparr>swtmr_startTime := due_at s i\<rparr>) p"
  let ?s0 = "OsDeleteNodeSortLink (SwtmrNode i) s"
  let ?it = "\<lparr>item_handler = pfnHandler ?c, item_arg = swtmr_uwArg ?c, item_swtmrID = usTimerID ?c\<rparr>"
  obtain r b z q2 s2 where w: "LOS_QueueWriteCopy (g_swtmrHandlerQueue p) (Some (item_bytes ?it))
      sizeof_SwtmrHandlerItem LOS_NO_WAIT (q, ?s0) = (r, b, z, q2, s2)" by (metis prod_cases5)
  note P = post_msg [OF ok w, folded h_def, unfolded item_msg]
  have q: "q1 = q2" and s: "s1 \<in> {s2, snd (OsSwtmrStart ct i (upd_swtmr i (\<lambda>c. c\<lparr>ucOverrun := ucOverrun c + 1\<rparr>) ?p0, s2))}"
    and h: "g_swtmrHandlerQueue p1 = g_swtmrHandlerQueue p"
    using e w by (auto simp: scan_fire_def OsSwtmrTimeoutHandle_def OsSwtmrStart_def Let_def split: if_splits)
  show "g_swtmrHandlerQueue p1 = g_swtmrHandlerQueue p" by (rule h)
  show "fire_msg (blk_of p1 j) = fire_msg (blk_of p j)"
    using fire_effect(3) [OF lk e, of j] by (auto simp: fire_view_def fire_msg_def split: if_splits)
  have "handler_ok p1 q1 m = handler_ok p q2 m" for m by (simp add: handler_ok_def q h Let_def)
  then show "handler_ok p1 q1 (n + k)" "posted h [fire_msg ?c] q n q1"
    using P ok by (auto simp: k_def posted_def q Let_def split: if_splits)
  assume irq: "irq_ok s"
  have u0: "irq_step s ?s0" by (rule irq_DeleteTimer [OF irq])
  have "removeAll (SwtmrNode i) (g_taskSortLink s) = g_taskSortLink s"
    using irq by (intro removeAll_id) (auto simp: irq_ok_def timed_ok_def timer_ok_def)
  then have m0: "unmoved s ?s0" by (simp add: unmoved_def)
  have m1: "unmoved s2 s1" using s unmoved_trans [OF unmoved_AddSwtmr unmoved_UpdateExpire]
    by (auto simp: OsSwtmrStart_def Let_def)
  have d: "distinct (lists x (QueueRead h))" if "irq_ok x" for x
    using wait_distinct kern_okD(2) that by (auto simp: irq_ok_def)
  have "readers_woken h k ?s0 s2"
  proof (cases "writable (g_allQueue q h) = 0 \<or> lists ?s0 (QueueRead h) = []")
    case True
    then have "s2 = ?s0" using P by (auto split: if_splits)
    then show ?thesis using True readers_0 [of ?s0 ?s0 h] by (auto simp: k_def readers_woken_def)
  next
    case False
    then obtain t ts where l: "lists ?s0 (QueueRead h) = t # ts" by (cases "lists ?s0 (QueueRead h)") auto
    then have "k = 1" "s2 = LOS_Schedule (OsSchedTaskWake t ?s0)" using P False by (auto simp: k_def)
    then show ?thesis using readers_wake [OF irq_stepD [OF u0] l] by simp
  qed
  from readers_trans [OF d [OF irq] readers_0 [OF m0] this] have "readers_woken h k s s2" by simp
  from readers_trans [OF d [OF irq] this readers_0 [OF m1]] show "readers_woken h k s s1" by simp
qed

lemma posted_trans:
  assumes "posted i ms q n q1" "posted i ms' q1 (n + min (length ms) (writable (g_allQueue q i))) q'"
  shows "posted i (ms @ ms') q n q'"
proof -
  let ?w = "writable (g_allQueue q i)" and ?l = "length ms" and ?l' = "length ms'"
  have w: "writable (g_allQueue q1 i) = ?w - min ?l ?w" using assms(1) by (simp add: posted_def Let_def)
  have k: "min (?l + ?l') ?w = min ?l ?w + min ?l' (?w - min ?l ?w)" by linarith
  have t: "take (min (?l + ?l') ?w) (ms @ ms') = take (min ?l ?w) ms @ take (min ?l' (?w - min ?l ?w)) ms'"
    by (cases "?l \<le> ?w") (auto simp: min_def)
  show ?thesis using assms unfolding posted_def Let_def w length_append k t [unfolded k]
    by (simp add: add.assoc [symmetric])
qed

text \<open>The firings that are left after one.\<close>

lemma firings_fire:
  assumes "unat ct < 2 ^ 63" "d \<le> ct" "0 < unat (period clk c)"
  shows "firings ct clk (c, True, d) = Suc (firings ct clk (fire_view clk c d))"
proof (cases "ucMode c = LOS_SWTMR_MODE_PERIOD")
  case False
  then show ?thesis using assms(2) by (simp add: firings_def fire_view_def)
next
  case True
  have p: "period clk (c\<lparr>ucState := x, ucOverrun := y, swtmr_startTime := z\<rparr>) = period clk c" for x y z
    by (simp add: period_def)
  have k: "periods (unat ct) (unat (period clk c)) (unat d)
      = Suc (periods (unat ct) (unat (period clk c)) (unat (d + period clk c)))"
    using periods_step [of "unat d" "unat ct" "unat (period clk c)"] assms due_step [OF assms(1,2)]
    by (simp add: word_le_nat_alt)
  have "periods (unat ct) (unat (period clk c)) (unat (d + period clk c)) = 0" if "d + period clk c > ct"
    using that by (simp add: periods_def word_less_nat_alt)
  then show ?thesis using True assms(2) [THEN leD] k by (simp add: firings_def fire_view_def p)
qed

lemma scan_posts:
  assumes "scannable p s" "unat ct < 2 ^ 63" "handler_ok p q n" "swtmr_scan ct (p, q, s) = Some (p', q', s')"
  defines "i \<equiv> handler_queue p"
  shows "\<exists>fired. (\<forall>j. count_list fired j = firings ct (g_sysClock (tk s)) (timer_view p s j))
    \<and> posted i (map (\<lambda>j. fire_msg (blk_of p j)) fired) q n q'
    \<and> handler_ok p' q' (n + min (length fired) (writable (g_allQueue q i)))
    \<and> (irq_ok s \<longrightarrow> readers_woken i (min (length fired) (writable (g_allQueue q i))) s s')"
  using assms(1,3,4) unfolding i_def
proof (induction "lag (unat ct) s" arbitrary: p q s n rule: less_induct)
  case less
  let ?i = "handler_queue p" and ?clk = "g_sysClock (tk s)"
  have ok: "link_ok s" using less.prems by (simp add: scannable_def)
  have fin: ?case if "\<forall>j. linked s j \<longrightarrow> ct < due_at s j" "swtmr_scan ct (p, q, s) = Some (p, q, s)"
    using that less.prems(2,3) readers_0 [of s s ?i]
    by (intro exI [of _ "[]"]) (auto simp: firings_def posted_def)
  show ?case
  proof (cases "g_swtmrSortLink s")
    case Nil
    then show ?thesis by (intro fin) (simp_all add: swtmr_scan.simps)
  next
    case (Cons x xs)
    then obtain j where x: "x = SwtmrNode j" using ok by (auto simp: link_ok_def only_timers_def)
    have l: "linked s j" using Cons x by simp
    show ?thesis
    proof (cases "due_at s j \<le> ct")
      case False
      have "ct < due_at s m" if "linked s m" for m
        using ok Cons x that False by (auto simp: link_ok_def dest: less_le_trans)
      moreover have "swtmr_scan ct (p, q, s) = Some (p, q, s)" using Cons x False by (simp add: swtmr_scan.simps)
      ultimately show ?thesis by (intro fin) simp_all
    next
      case True
      obtain p1 q1 s1 where e: "scan_fire ct j (p, q, s) = (p1, q1, s1)" by (metis prod_cases3)
      note F = fire_effect [OF ok l e] and P = fire_posts [OF ok l less.prems(2) e]
      have c: "0 < unat (period ?clk (blk_of p j))" using less.prems(1) l by (simp add: scannable_def)
      have int: "uwInterval (blk_of p1 m) = uwInterval (blk_of p m)" for m
        using F(3) [of m] by (auto simp: fire_view_def split: if_splits)
      have "linked s1 m \<Longrightarrow> linked s m" for m using F(3) [of m] l by (auto split: if_splits)
      then have sc: "scannable p1 s1" using less.prems(1) F(1,2) int by (simp add: scannable_def period_def)
      have r: "swtmr_scan ct (p1, q1, s1) = Some (p', q', s')"
        using less.prems(3) Cons x True e by (simp add: swtmr_scan.simps)
      let ?w = "writable (g_allQueue q ?i)"
      from less.hyps [OF lag_fire [OF ok l e assms(2) True c] sc P(1) r] obtain fired where
        I: "\<And>m. count_list fired m = firings ct ?clk (timer_view p1 s1 m)"
        "posted ?i (map (\<lambda>m. fire_msg (blk_of p m)) fired) q1 (n + min 1 ?w) q'"
        "handler_ok p' q' (n + min 1 ?w + min (length fired) (writable (g_allQueue q1 ?i)))"
        "irq_ok s1 \<Longrightarrow> readers_woken ?i (min (length fired) (writable (g_allQueue q1 ?i))) s1 s'"
        unfolding P(3,4) F(2) by blast
      have w1: "writable (g_allQueue q1 ?i) = ?w - min 1 ?w" using P(2) by (simp add: posted_def Let_def)
      have k: "min (length (j # fired)) ?w = min 1 ?w + min (length fired) (?w - min 1 ?w)" by (simp only: list.size)
      have "count_list (j # fired) m = firings ct ?clk (timer_view p s m)" for m
        using I(1) [of m] firings_fire [OF assms(2) True c] l by (cases "m = j") (simp_all add: F(3))
      moreover have "posted ?i (map (\<lambda>m. fire_msg (blk_of p m)) (j # fired)) q n q'"
        using posted_trans [OF P(2), of "map (\<lambda>m. fire_msg (blk_of p m)) fired" q'] I(2) by simp
      moreover have "handler_ok p' q' (n + min (length (j # fired)) ?w)"
        using I(3) unfolding k w1 by (simp add: add.assoc)
      moreover have "readers_woken ?i (min (length (j # fired)) ?w) s s'" if irq: "irq_ok s"
      proof -
        have "irq_ok s1" using irq_stepD [OF irq_fire [OF irq]] e by (metis snd_conv)
        moreover have "distinct (lists s (QueueRead ?i))"
          using irq wait_distinct kern_okD(2) by (auto simp: irq_ok_def)
        ultimately show ?thesis using readers_trans P(5) [OF irq] I(4) unfolding k w1 by blast
      qed
      ultimately show ?thesis by blast
    qed
  qed
qed

text \<open>The same for the scan as the tick calls it.\<close>

lemma Scan_posts:
  assumes inv: "swtmr_inv p s" and clk: "100 \<le> unat (g_sysClock (tk s))"
    and ct: "ct = fst (OsGetCurrSchedTimeCycle s)" "unat ct < 2 ^ 63" and hq: "handler_ok p q n"
    and e: "OsSwtmrScan (p, q, s) = Some (need, p', q', s')"
  defines "i \<equiv> handler_queue p"
  shows "\<exists>fired. (\<forall>j. count_list fired j = firings ct (g_sysClock (tk s)) (timer_view p s j))
    \<and> posted i (map (\<lambda>j. fire_msg (blk_of p j)) fired) q n q'
    \<and> handler_ok p' q' (n + min (length fired) (writable (g_allQueue q i)))
    \<and> (irq_ok s \<longrightarrow> readers_woken i (min (length fired) (writable (g_allQueue q i))) s s')"
proof (cases "g_swtmrSortLink s = []")
  case True
  then have "p' = p" "q' = q" "s' = s" using e by (simp_all add: OsSwtmrScan_def)
  then show ?thesis using True hq readers_0 [of s s i]
    by (intro exI [of _ "[]"]) (simp add: firings_def posted_def i_def)
next
  case False
  let ?s1 = "snd (OsGetCurrSchedTimeCycle s)"
  note D = swtmr_invD [OF inv] and T = timersD [OF timers_cycle, of s]
  have "link_ok ?s1" using D(3) link_ok_timers [OF timers_cycle, of s] by simp
  moreover have "uwInterval (blk_of p j) \<noteq> 0" if "linked s j" for j
    using D(5) [OF that] D(4) [of j] by (auto simp: block_ok_def swtmr_config)
  ultimately have "scannable p ?s1" using clk T period_pos by (simp add: scannable_def)
  moreover have "swtmr_scan ct (p, q, ?s1) = Some (p', q', s')"
    using e False ct(1) by (simp add: OsSwtmrScan_def Let_def case_prod_beta split: option.splits)
  ultimately obtain fired where
    P: "\<forall>j. count_list fired j = firings ct (g_sysClock (tk ?s1)) (timer_view p ?s1 j)"
    "posted i (map (\<lambda>j. fire_msg (blk_of p j)) fired) q n q'"
    "handler_ok p' q' (n + min (length fired) (writable (g_allQueue q i)))"
    "irq_ok ?s1 \<longrightarrow> readers_woken i (min (length fired) (writable (g_allQueue q i))) ?s1 s'"
    using scan_posts [OF _ ct(2) hq] unfolding i_def by blast
  have "readers_woken i (min (length fired) (writable (g_allQueue q i))) s s'" if irq: "irq_ok s"
  proof -
    have "irq_ok ?s1" using irq_stepD [OF irq_unmoved [OF irq unmoved_Cycle]] .
    then have "readers_woken i (min (length fired) (writable (g_allQueue q i))) ?s1 s'" using P(4) by blast
    moreover have "distinct (lists s (QueueRead i))" using irq wait_distinct kern_okD(2) by (auto simp: irq_ok_def)
    ultimately show ?thesis using readers_trans [OF _ readers_0 [OF unmoved_Cycle]] by fastforce
  qed
  then show ?thesis using P(1-3) T by (intro exI [of _ fired]) simp
qed

text \<open>
  C39. The scan of the tick always ends. It fires every timer that is due, a one-shot timer once and
  a periodic one once for every period that has passed, and each firing posts the message with
  the timer's handler, argument and identifier to the handler queue: the messages come behind
  those in the queue, in the order of the firings, as many as there is room for (the code drops
  the rest), and no other queue changes. A one-shot timer leaves the list, and a periodic one is
  due again at the first time after now that is a whole number of periods behind the one that
  passed, so it does not drift, with its overruns counted. The other timers do not change, nothing
  due is left, and the invariants of the timers and of the handler queue are kept.
\<close>

theorem swtmr_scan_fires:
  assumes inv: "swtmr_inv p s" and clk: "100 \<le> unat (g_sysClock (tk s))"
    and ct: "ct = fst (OsGetCurrSchedTimeCycle s)" "unat ct < 2 ^ 63" and hq: "handler_ok p q n"
  shows "\<exists>need p' q' s' fired. OsSwtmrScan (p, q, s) = Some (need, p', q', s')
    \<and> (need \<longleftrightarrow> (\<exists>i. linked s i \<and> due_at s i \<le> ct))
    \<and> (\<forall>i. timer_view p' s' i = timer_after ct (g_sysClock (tk s)) (timer_view p s i))
    \<and> (\<forall>i. linked s' i \<longrightarrow> ct < due_at s' i) \<and> swtmr_inv p' s'
    \<and> (\<forall>i. count_list fired i = firings ct (g_sysClock (tk s)) (timer_view p s i))
    \<and> posted (handler_queue p) (map (\<lambda>i. fire_msg (blk_of p i)) fired) q n q'
    \<and> handler_ok p' q' (n + min (length fired) (writable (g_allQueue q (handler_queue p))))"
proof -
  from swtmr_scan_effect [OF inv clk ct, of q] obtain need p' q' s' where
    r: "OsSwtmrScan (p, q, s) = Some (need, p', q', s')" "need \<longleftrightarrow> (\<exists>i. linked s i \<and> due_at s i \<le> ct)"
    "\<forall>i. timer_view p' s' i = timer_after ct (g_sysClock (tk s)) (timer_view p s i)"
    "\<forall>i. linked s' i \<longrightarrow> ct < due_at s' i" "swtmr_inv p' s'" by blast
  from Scan_posts [OF inv clk ct hq r(1)] r show ?thesis by blast
qed

text \<open>The handler queue is empty and has ten slots; timers 0 and 1 are due, each once.\<close>

definition ex_handler :: queue_state where
  "ex_handler = \<lparr>g_allQueue = (\<lambda>i. if i = 0 then zero_queue\<lparr>queue := 0x3000, queueState := 1, queueLen := 10,
       queueSize := 16, readWriteableCnt := (\<lambda>_. 0)(1 := 10)\<rparr> else zero_queue\<lparr>queueID := of_nat i\<rparr>),
     g_freeQueueList = [1, 2, 3, 4, 5]\<rparr>"

lemma ex_handler_ok: "handler_ok ex_swtmr ex_handler 0" "writable (g_allQueue ex_handler 0) = 10"
  by (simp_all add: handler_ok_def ring_ok_def ex_handler_def ex_swtmr_def zero_queue_def writable_def
      queue_op_defs OS_QUEUE_UNUSED_def)

lemma ex_firings: "firings ct 80000000 (timer_view ex_swtmr ex_timed i) = (if i \<in> {0, 1} then 1 else 0)"
  if "ct \<in> {1000, 1020}"
  using that by (auto simp: firings_def ex_timed_due ex_swtmr_def ex_block_def swtmr_config periods_def period_def
      OS_SYS_TICK_TO_CYCLE_def tick_config zero_swtmr_def)

lemma two_fired:
  assumes "\<And>i. count_list fired i = (if i \<in> {0, 1 :: nat} then 1 else 0)"
  shows "set fired = {0, 1}" "length fired = 2"
proof -
  have "x \<in> set fired \<longleftrightarrow> x \<in> {0, 1}" for x
    using assms [of x] count_notin [of x fired] by (auto simp: count_list_0_iff split: if_splits)
  then show s: "set fired = {0, 1}" by blast
  have "sum (count_list fired) {0, 1} = length fired" by (rule sum_count_set) (simp_all add: s)
  then show "length fired = 2" by (simp add: assms)
qed

theorem swtmr_scan_fires_witness:
  "\<exists>p' q' s'. OsSwtmrScan (ex_swtmr, ex_handler, ex_timed) = Some (True, p', q', s')
     \<and> due_at s' 0 = 1600100 \<and> \<not> linked s' 1 \<and> due_at s' 2 = 9000 \<and> swtmr_inv p' s'
     \<and> set (ring (g_allQueue q' 0) 2) = {fire_msg (blk_of ex_swtmr 0), fire_msg (blk_of ex_swtmr 1)}"
proof -
  have ct: "fst (OsGetCurrSchedTimeCycle ex_timed) = 1000"
    by (simp add: GetCurrSchedTimeCycle_eq ex_timed_due ex_tick_def LOS_SysCycleGet_def getCycle_def
        ex_timer_def Let_def)
  have "100 \<le> unat (g_sysClock (tk ex_timed))" by (simp add: ex_timed_due ex_tick_def)
  moreover have c: "g_sysClock (tk ex_timed) = 80000000" "handler_queue ex_swtmr = 0"
    by (simp_all add: ex_timed_due ex_tick_def ex_swtmr_def)
  ultimately obtain need p' q' s' fired where
    r: "OsSwtmrScan (ex_swtmr, ex_handler, ex_timed) = Some (need, p', q', s')"
    "need \<longleftrightarrow> (\<exists>i. linked ex_timed i \<and> due_at ex_timed i \<le> 1000)" "swtmr_inv p' s'"
    "\<And>i. timer_view p' s' i = timer_after 1000 80000000 (timer_view ex_swtmr ex_timed i)"
    "\<And>i. count_list fired i = firings 1000 80000000 (timer_view ex_swtmr ex_timed i)"
    "posted 0 (map (\<lambda>i. fire_msg (blk_of ex_swtmr i)) fired) ex_handler 0 q'"
    using swtmr_scan_fires [OF ex_swtmr_inv _ ct [symmetric] _ ex_handler_ok(1)] unfolding c by force
  have need unfolding r(2) by (intro exI [of _ 0]) (simp add: ex_timed_due)
  moreover have "due_at s' 0 = 1600100" using r(4) [of 0]
    by (simp add: ex_timed_due timer_after_def ex_swtmr_def ex_block_def Let_def periods_def period_def
        OS_SYS_TICK_TO_CYCLE_def tick_config zero_swtmr_def)
  moreover have "\<not> linked s' 1" "due_at s' 2 = 9000" using r(4) [of 1] r(4) [of 2]
    by (simp_all add: ex_timed_due timer_after_def ex_swtmr_def ex_block_def swtmr_config)
  moreover have "set (ring (g_allQueue q' 0) 2) = {fire_msg (blk_of ex_swtmr 0), fire_msg (blk_of ex_swtmr 1)}"
  proof -
    have "count_list fired i = (if i \<in> {0, 1} then 1 else 0)" for i using r(5) [of i] ex_firings [of 1000 i] by simp
    note f = two_fired [OF this]
    have "ring (g_allQueue q' 0) 2 = map (\<lambda>i. fire_msg (blk_of ex_swtmr i)) fired"
      using r(6) f(2) by (simp add: posted_def ex_handler_ok(2) ring_def)
    then show ?thesis using f(1) by simp
  qed
  ultimately show ?thesis using r(1,3) by auto
qed

end
