(* ===== verification/Los_TickProps.thy ===== *)
theory Los_TickProps
  imports Los_SwtmrPost
begin

text \<open>
  The tick interrupt from its entry to the switch at its end: what it makes of the timers, of
  the sleeping tasks and of the processor.
\<close>

section \<open>The two scans\<close>

text \<open>
  What the scan of the timers puts into the handler queue: a message for each firing; without the
  scan, when it has not been registered, nothing.
\<close>

definition scan_fired :: "u64 \<Rightarrow> swtmr_state \<Rightarrow> queue_state \<Rightarrow> nat \<Rightarrow> sched \<Rightarrow> nat list
    \<Rightarrow> swtmr_state \<Rightarrow> queue_state \<Rightarrow> bool" where
  "scan_fired ct p q n s fired p' q' \<longleftrightarrow>
     (\<forall>i. count_list fired i = (if g_swtmrScan s then firings ct (g_sysClock (tk s)) (timer_view p s i) else 0))
     \<and> posted (handler_queue p) (map (\<lambda>i. fire_msg (blk_of p i)) fired) q n q'
     \<and> handler_ok p' q' (n + min (length fired) (writable (g_allQueue q (handler_queue p))))"

lemma irq_timer_scan:
  assumes ok: "irq_ok s" and inv: "swtmr_inv p s" and clk: "100 \<le> unat (g_sysClock (tk s))"
    and ct: "ct = fst (OsGetCurrSchedTimeCycle s)" "unat ct < 2 ^ 63"
  shows "\<exists>p' q' s'. (if g_swtmrScan s then map_option snd (OsSwtmrScan (p, q, s)) else Some (p, q, s)) = Some (p', q', s')
    \<and> irq_step s s' \<and> swtmr_inv p' s'
    \<and> (g_swtmrScan s \<longrightarrow> (\<forall>i. timer_view p' s' i = timer_after ct (g_sysClock (tk s)) (timer_view p s i)))
    \<and> (\<forall>n. handler_ok p q n \<longrightarrow> (\<exists>fired. scan_fired ct p q n s fired p' q'
          \<and> readers_woken (handler_queue p) (min (length fired) (writable (g_allQueue q (handler_queue p)))) s s'))"
proof (cases "g_swtmrScan s")
  case False
  have "handler_ok p q n \<longrightarrow> (\<exists>fired. scan_fired ct p q n s fired p q
      \<and> readers_woken (handler_queue p) (min (length fired) (writable (g_allQueue q (handler_queue p)))) s s)" for n
    using False readers_0 [of s s] by (intro impI exI [of _ "[]"]) (simp add: scan_fired_def posted_def)
  then show ?thesis using False irq_refl [OF ok] inv by simp
next
  case True
  from swtmr_scan_effect [OF inv clk ct, of q] obtain need p' q' s' where
    r: "OsSwtmrScan (p, q, s) = Some (need, p', q', s')" "swtmr_inv p' s'"
    "\<forall>i. timer_view p' s' i = timer_after ct (g_sysClock (tk s)) (timer_view p s i)" by blast
  have "irq_step s s'"
  proof (cases "g_swtmrSortLink s = []")
    case True
    then show ?thesis using r(1) irq_refl [OF ok] by (simp add: OsSwtmrScan_def)
  next
    case False
    note u = irq_unmoved [OF ok unmoved_Cycle]
    have "swtmr_scan ct (p, q, snd (OsGetCurrSchedTimeCycle s)) = Some (p', q', s')"
      using r(1) False ct(1) by (simp add: OsSwtmrScan_def Let_def case_prod_beta split: option.splits)
    from irq_trans [OF u irq_scan [OF this irq_stepD [OF u]]] show ?thesis .
  qed
  moreover have "\<exists>fired. scan_fired ct p q n s fired p' q'
      \<and> readers_woken (handler_queue p) (min (length fired) (writable (g_allQueue q (handler_queue p)))) s s'"
    if "handler_ok p q n" for n
    using Scan_posts [OF inv clk ct that r(1)] ok True unfolding scan_fired_def by auto
  ultimately show ?thesis using r True by simp
qed

lemma irq_IntLock:
  assumes "irq_ok s"
  shows "irq_ok (s\<lparr>g_tickIntLock := n\<rparr>)"
proof -
  let ?s = "s\<lparr>g_tickIntLock := n\<rparr>"
  have k: "kern_ok ?s = kern_ok s" by (rule kern_ok_cong) simp_all
  have "timed_ok ?s"
  proof (rule timed_ok_sub [of s _ "\<lambda>_. True"])
    show "up ?s u \<Longrightarrow> awake (st ?s u)" for u
      using assms timed_okD(2) [of s u] by (simp add: irq_ok_def up_def)
  qed (use assms in \<open>simp_all add: irq_ok_def unlinked_def on_list_def\<close>)
  then show ?thesis using k assms by (simp add: irq_ok_def)
qed

text \<open>
  The tasks at the end of both scans: those in \<open>R\<close> have been woken for a message; the time of the
  others has come, or they are as they were.
\<close>

definition scan_tasks :: "u64 \<Rightarrow> nat set \<Rightarrow> sched \<Rightarrow> sched \<Rightarrow> bool" where
  "scan_tasks now R s s' \<longleftrightarrow> (\<forall>t. if t \<in> R then waked s s' t
     else if due now s t then woken_from (st s t) (st s' t) \<and> TaskNode t \<notin> set (g_taskSortLink s')
     else st s' t = st s t \<and> (TaskNode t \<in> set (g_taskSortLink s') \<longleftrightarrow> TaskNode t \<in> set (g_taskSortLink s)))"

lemma scan_tasks_cong:
  assumes "\<And>t. st a t = st s t" "g_taskSortLink a = g_taskSortLink s"
    "\<And>t. responseTime a (TaskNode t) = responseTime s (TaskNode t)"
    "\<And>t. st b t = st s' t" "g_taskSortLink b = g_taskSortLink s'"
  shows "scan_tasks now R a b = scan_tasks now R s s'"
  by (simp add: scan_tasks_def waked_def timer_sound_def due_def assms cong: if_cong)

text \<open>The tasks that the messages wake.\<close>

definition taken :: "swtmr_state \<Rightarrow> queue_state \<Rightarrow> sched \<Rightarrow> nat list \<Rightarrow> nat set" where
  "taken p q s fired = set (take (min (length fired) (writable (g_allQueue q (handler_queue p))))
     (lists s (QueueRead (handler_queue p))))"

lemma task_scan:
  assumes ok: "irq_ok s" and o: "only_timers s" and e: "OsSchedScanTimerList s = (need, s')"
    and b: "tick_later k (tk s)"
  shows "\<exists>now. scan_tasks now {} s s'
    \<and> (panic (tk s') \<or> g_oldTickTimerBase k \<le> now \<and> now \<le> g_oldTickTimerBase (tk s'))"
proof (cases "g_taskSortLink s = []")
  case True
  then show ?thesis using e b
    by (intro exI [of _ "g_oldTickTimerBase (tk s)"])
      (auto simp: OsSchedScanTimerList_def scan_tasks_def due_def tick_later_def)
next
  case False
  let ?s1 = "snd (OsGetCurrSchedTimeCycle s)" and ?now = "fst (OsGetCurrSchedTimeCycle s)"
  note u = unmoved_Cycle [of s] and ok1 = irq_stepD [OF irq_unmoved [OF ok unmoved_Cycle]]
  have s': "s' = snd (scan_timer ?now False ?s1)"
    using e False by (simp add: OsSchedScanTimerList_def case_prod_beta)
  have "sched_ok ?s1" "timer_ok ?s1" using ok1 kern_okD(1) by (auto simp: irq_ok_def timed_ok_def)
  note E = scan_timer_effect [OF this, of ?now False, folded s']
  have due: "due ?now ?s1 t = due ?now s t" for t using u by (simp add: due_def unmoved_def)
  have l: "g_taskSortLink s' = filter (\<lambda>n. responseTime ?s1 n > ?now) (g_taskSortLink ?s1)"
    and t: "if due ?now s t then woken_from (st ?s1 t) (st s' t) else tcb s' t = tcb ?s1 t" for t
    using E due by simp_all
  have "scan_tasks ?now {} s s'"
    unfolding scan_tasks_def
  proof
    fix t
    have "TaskNode t \<in> set (g_taskSortLink s') \<longleftrightarrow> TaskNode t \<in> set (g_taskSortLink s) \<and> \<not> due ?now s t"
      using u by (auto simp: l due_def unmoved_def not_le)
    then show "if t \<in> {} then waked s s' t else if due ?now s t then woken_from (st s t) (st s' t) \<and> TaskNode t \<notin> set (g_taskSortLink s')
     else st s' t = st s t \<and> (TaskNode t \<in> set (g_taskSortLink s') \<longleftrightarrow> TaskNode t \<in> set (g_taskSortLink s))"
      using t [of t] u by (cases "due ?now s t") (simp_all add: unmoved_def)
  qed
  moreover have "tick_later (tk ?s1) (tk s')" "g_oldTickTimerBase (tk ?s1) = ?now"
    using irq_scan_timer [OF ok1, of ?now False] o timers_only [of ?s1 s]
    by (simp_all add: s' irq_step_def GetCurrSchedTimeCycle_eq)
  moreover have "tick_later k (tk ?s1)" using later_trans [OF b] u by (simp add: unmoved_def)
  ultimately show ?thesis by (intro exI [of _ ?now]) (auto simp: tick_later_def)
qed

lemma scan_tasks_readers:
  assumes tm: "timed_ok s" and k: "kern_ok s" and r: "readers_woken i m s u" and t: "scan_tasks now {} u s'"
  shows "scan_tasks now (set (take m (lists s (QueueRead i)))) s s'"
  unfolding scan_tasks_def
proof
  fix t
  let ?R = "set (take m (lists s (QueueRead i)))"
  have T: "if due now u t then woken_from (st u t) (st s' t) \<and> TaskNode t \<notin> set (g_taskSortLink s')
     else st s' t = st u t \<and> (TaskNode t \<in> set (g_taskSortLink s') \<longleftrightarrow> TaskNode t \<in> set (g_taskSortLink u))"
    using t by (simp add: scan_tasks_def)
  have R: "if t \<in> ?R then waked s u t
      else st u t = st s t \<and> responseTime u (TaskNode t) = responseTime s (TaskNode t)
        \<and> (TaskNode t \<in> set (g_taskSortLink u) \<longleftrightarrow> TaskNode t \<in> set (g_taskSortLink s))"
    using r by (simp add: readers_woken_def)
  have sound: "timer_sound s t" if "t \<in> ?R"
  proof -
    have "has (st s t) (flag PEND)"
      using waiter_pends [OF kern_okD(2) [OF k], of "QueueRead i" t] that by (auto dest: in_set_takeD)
    then show ?thesis using timed_okD(3,4) [OF tm, of t] by (simp add: timer_sound_def)
  qed
  show "if t \<in> ?R then waked s s' t
     else if due now s t then woken_from (st s t) (st s' t) \<and> TaskNode t \<notin> set (g_taskSortLink s')
     else st s' t = st s t \<and> (TaskNode t \<in> set (g_taskSortLink s') \<longleftrightarrow> TaskNode t \<in> set (g_taskSortLink s))"
  proof (cases "t \<in> ?R")
    case True
    then have w: "waked s u t" "TaskNode t \<notin> set (g_taskSortLink u)" using R sound by (simp_all add: waked_def)
    then have "st s' t = st u t" "TaskNode t \<notin> set (g_taskSortLink s')" using T by (simp_all add: due_def)
    then show ?thesis using True w(1) by (simp add: waked_def)
  next
    case False
    then have "due now u t = due now s t" using R by (simp add: due_def)
    then show ?thesis using False R T by (cases "due now s t") simp_all
  qed
qed

lemma irq_scans:
  assumes ok: "irq_ok s" and inv: "swtmr_inv p s" and clk: "100 \<le> unat (g_sysClock (tk s))"
    and ct: "ct = fst (OsGetCurrSchedTimeCycle s)" "unat ct < 2 ^ 63"
  shows "\<exists>p' q' s'. tick_scans (p, q, s) = Some (p', q', s') \<and> irq_step s s' \<and> swtmr_inv p' s'
    \<and> (g_swtmrScan s \<longrightarrow> (\<forall>i. timer_view p' s' i = timer_after ct (g_sysClock (tk s)) (timer_view p s i)))
    \<and> (panic (tk s') \<or> (\<forall>n\<in>set (g_taskSortLink s'). g_oldTickTimerBase (tk s) < responseTime s' n))
    \<and> (\<forall>n. handler_ok p q n \<longrightarrow> (\<exists>fired now. scan_fired ct p q n s fired p' q'
         \<and> scan_tasks now (taken p q s fired) s s'
         \<and> (panic (tk s') \<or> g_oldTickTimerBase (tk s) \<le> now \<and> now \<le> g_oldTickTimerBase (tk s'))))"
proof -
  let ?s1 = "s\<lparr>g_tickIntLock := g_tickIntLock s + 1\<rparr>"
  have inv1: "swtmr_inv p ?s1" using inv swtmr_inv_timers [of ?s1 s] by (simp add: timers_def)
  have clk1: "100 \<le> unat (g_sysClock (tk ?s1))" and ct1: "ct = fst (OsGetCurrSchedTimeCycle ?s1)"
    using clk ct(1) by (simp_all add: GetCurrSchedTimeCycle_eq)
  from irq_timer_scan [OF irq_IntLock [OF ok] inv1 clk1 ct1 ct(2), of q] obtain p2 q2 s2 where S:
    "(if g_swtmrScan ?s1 then map_option snd (OsSwtmrScan (p, q, ?s1)) else Some (p, q, ?s1)) = Some (p2, q2, s2)"
    "irq_step ?s1 s2" "swtmr_inv p2 s2"
    "g_swtmrScan ?s1 \<longrightarrow> (\<forall>i. timer_view p2 s2 i = timer_after ct (g_sysClock (tk ?s1)) (timer_view p ?s1 i))"
    "\<forall>n. handler_ok p q n \<longrightarrow> (\<exists>fired. scan_fired ct p q n ?s1 fired p2 q2
       \<and> readers_woken (handler_queue p) (min (length fired) (writable (g_allQueue q (handler_queue p)))) ?s1 s2)"
    by blast
  obtain need s3 where e: "OsSchedScanTimerList s2 = (need, s3)" by fastforce
  have o: "only_timers s2" using swtmr_invD(3) [OF S(3)] by (simp add: link_ok_def)
  note L = irq_ScanTimerList [OF irq_stepD [OF S(2)] o e] and T = timersD [OF irq_ScanTimerList(2) [OF irq_stepD [OF S(2)] o e]]
  let ?s4 = "s3\<lparr>g_tickIntLock := g_tickIntLock s3 - 1\<rparr>"
  have t: "irq_step ?s1 s3" by (rule irq_trans [OF S(2) L(1)])
  have "irq_step s ?s4" using t irq_IntLock [OF irq_stepD [OF t]] by (simp add: irq_step_def)
  moreover have "swtmr_inv p2 ?s4"
    using S(3) swtmr_inv_timers [of ?s4 s2] L(2) by (simp add: timers_def)
  moreover have "timer_view p2 ?s4 i = timer_view p2 s2 i" for i using T by simp
  moreover have "panic (tk s3) \<or> (\<forall>n\<in>set (g_taskSortLink s3). g_oldTickTimerBase (tk s) < responseTime s3 n)"
  proof -
    have "panic (tk s2) \<or> g_oldTickTimerBase (tk s) \<le> g_oldTickTimerBase (tk s2)"
      using S(2) by (auto simp: irq_step_def tick_later_def)
    moreover have "panic (tk s2) \<Longrightarrow> panic (tk s3)" using L(1) by (auto simp: irq_step_def tick_later_def)
    ultimately show ?thesis using L(3) by (meson le_less_trans)
  qed
  moreover have "tick_scans (p, q, s) = Some (p2, q2, ?s4)"
    unfolding tick_scans_def Let_def case_prod_conv S(1) by (simp add: e)
  moreover have "\<exists>fired now. scan_fired ct p q n s fired p2 q2 \<and> scan_tasks now (taken p q s fired) s ?s4
      \<and> (panic (tk ?s4) \<or> g_oldTickTimerBase (tk s) \<le> now \<and> now \<le> g_oldTickTimerBase (tk ?s4))"
    if "handler_ok p q n" for n
  proof -
    obtain fired where f: "scan_fired ct p q n ?s1 fired p2 q2"
      "readers_woken (handler_queue p) (min (length fired) (writable (g_allQueue q (handler_queue p)))) ?s1 s2"
      using S(5) \<open>handler_ok p q n\<close> by blast
    have "tick_later (tk s) (tk s2)" using S(2) by (simp add: irq_step_def)
    from task_scan [OF irq_stepD [OF S(2)] o e this] obtain now where
      N: "scan_tasks now {} s2 s3" "panic (tk s3) \<or> g_oldTickTimerBase (tk s) \<le> now \<and> now \<le> g_oldTickTimerBase (tk s3)"
      by blast
    have "timed_ok ?s1" using irq_IntLock [OF ok] by (simp add: irq_ok_def)
    from scan_tasks_readers [OF this _ f(2) N(1)] irq_IntLock [OF ok]
    have "scan_tasks now (taken p q s fired) ?s1 s3" by (simp add: taken_def irq_ok_def)
    then have "scan_tasks now (taken p q s fired) s ?s4"
      using scan_tasks_cong [of s ?s1 ?s4 s3] by simp
    then show ?thesis using f(1) N(2) by (intro exI [of _ fired] exI [of _ now]) (simp add: scan_fired_def)
  qed
  ultimately show ?thesis using S(4) by (intro exI [of _ p2] exI [of _ q2] exI [of _ ?s4]) simp
qed

section \<open>The handler\<close>

text \<open>After the scans: the slice of the running task is charged and a switch is asked for.\<close>

definition tick_finish :: "u64 \<Rightarrow> sched \<Rightarrow> sched" where
  "tick_finish start s =
     (let s3 = OsTimeSliceUpdate (runTask s) start s;
          (now, s4) = OsGetCurrSchedTimeCycle s3;
          s6 = (upd_tcb (runTask s4) (\<lambda>c. c\<lparr>startTime := now\<rparr>) s4)\<lparr>g_schedResponseTime := OS_SCHED_MAX_RESPONSE_TIME\<rparr>
      in if LOS_CHECK_SCHEDULE s6 then ArchTaskSchedule s6 else OsSchedUpdateExpireTime s6)"

lemma unmoved_Arch_irq: "intActive s \<Longrightarrow> unmoved s (ArchTaskSchedule s)"
  by (simp add: ArchTaskSchedule_def)

lemma irq_finish:
  assumes "irq_ok s"
  shows "irq_step s (tick_finish start s)" "timers (tick_finish start s) = timers s"
    "g_taskSortLink (tick_finish start s) = g_taskSortLink s"
    "responseTime (tick_finish start s) (TaskNode t) = responseTime s (TaskNode t)"
    "g_losTaskLock s = 0 \<Longrightarrow> g_sysNeedSched (tick_finish start s)"
    "unmoved s (tick_finish start s)"
proof -
  let ?s3 = "OsTimeSliceUpdate (runTask s) start s"
  let ?s4 = "snd (OsGetCurrSchedTimeCycle ?s3)" and ?now = "fst (OsGetCurrSchedTimeCycle ?s3)"
  let ?s5 = "upd_tcb (runTask ?s4) (\<lambda>c. c\<lparr>startTime := ?now\<rparr>) ?s4"
  let ?s6 = "?s5\<lparr>g_schedResponseTime := OS_SCHED_MAX_RESPONSE_TIME\<rparr>"
  have e: "tick_finish start s = (if LOS_CHECK_SCHEDULE ?s6 then ArchTaskSchedule ?s6 else OsSchedUpdateExpireTime ?s6)"
    by (simp add: tick_finish_def Let_def case_prod_beta)
  have u6: "unmoved s ?s6"
    by (rule unmoved_trans [OF unmoved_trans [OF unmoved_trans [OF unmoved_SliceUpdate unmoved_Cycle] unmoved_fields(6)] unmoved_fields(1)])
  have int: "intActive ?s6" using assms u6 by (simp add: irq_ok_def unmoved_def)
  have u: "unmoved s (tick_finish start s)"
    using unmoved_trans [OF u6 unmoved_Arch_irq [OF int]] unmoved_trans [OF u6 unmoved_UpdateExpire] by (simp add: e)
  then show "unmoved s (tick_finish start s)" "g_taskSortLink (tick_finish start s) = g_taskSortLink s"
    "responseTime (tick_finish start s) (TaskNode t) = responseTime s (TaskNode t)"
    by (simp_all add: unmoved_def)
  show "irq_step s (tick_finish start s)" by (rule irq_unmoved [OF assms u])
  have t6: "timers ?s6 = timers s" by simp
  have "timers (ArchTaskSchedule ?s6) = timers ?s6" using int by (simp add: ArchTaskSchedule_def)
  then show "timers (tick_finish start s) = timers s" using t6 by (simp add: e)
  show "g_sysNeedSched (tick_finish start s)" if "g_losTaskLock s = 0"
    using that u6 int by (simp add: e LOS_CHECK_SCHEDULE_def unmoved_def ArchTaskSchedule_def)
qed

lemma TickHandler_eq:
  assumes "g_taskScheduled s" "OsGetCurrSchedTimeCycle s = (start, s1)"
    "(if g_schedResponseID s1 = OS_INVALID then tick_scans (p, q, s1) else Some (p, q, s1)) = Some (p2, q2, s2)"
  shows "LOS_SchedTickHandler (p, q, s) = Some (p2, q2, tick_finish start s2)"
  using assms by (cases "g_schedResponseID s1 = OS_INVALID")
    (simp_all add: LOS_SchedTickHandler_def tick_finish_def Let_def case_prod_beta)

section \<open>The end of the interrupt\<close>

lemma switch_time:
  "tick_later (tk s) (tk (switch_out s))" "g_tickIntLock (switch_out s) = g_tickIntLock s"
  "intActive (switch_out s) = intActive s"
  "tk (switch_in r s) = tk s" "g_tickIntLock (switch_in r s) = g_tickIntLock s"
  "intActive (switch_in r s) = intActive s"
proof -
  let ?s2 = "OsTimeSliceUpdate (runTask s) (fst (OsGetCurrSchedTimeCycle s)) (snd (OsGetCurrSchedTimeCycle s))"
  have u: "unmoved s ?s2" by (rule unmoved_trans [OF unmoved_Cycle unmoved_SliceUpdate])
  have e: "switch_out s \<in> {OsAdd2SortLink (TaskNode (runTask s)) (startTime (tcb ?s2 (runTask s)))
      (waitTimes (tcb ?s2 (runTask s))) OS_SORT_LINK_TASK ?s2, OsSchedTaskEnQueue (runTask s) ?s2, ?s2}"
    by (simp add: switch_out_def Let_def case_prod_beta)
  have a: "g_tickIntLock (OsAdd2SortLink n a w OS_SORT_LINK_TASK x) = g_tickIntLock x" for n a w x
    by (auto simp: OsAdd2SortLink_def Let_def SET_SORTLIST_VALUE_def set_link_def sched_assert_def
        split: option.split)
  have l: "tick_later (tk s) (tk x)" if "tick_later (tk ?s2) (tk x)" for x :: sched
    using u that later_trans by (auto simp: unmoved_def)
  show "tick_later (tk s) (tk (switch_out s))" using e l by auto
  show "g_tickIntLock (switch_out s) = g_tickIntLock s" "intActive (switch_out s) = intActive s"
    using e u a by (auto simp: unmoved_def)
qed (simp_all add: switch_in_def Let_def OsSchedTaskDeQueue_def OsSchedPriQueueDelete_def list_op_defs status_defs)

lemma Arch_time:
  "tick_later (tk s) (tk (ArchTaskSchedule s))" "g_tickIntLock (ArchTaskSchedule s) = g_tickIntLock s"
  "intActive (ArchTaskSchedule s) = intActive s"
proof -
  let ?s0 = "s\<lparr>g_sysNeedSched := False\<rparr>"
  let ?s6 = "switch_in (runTask s) (switch_out ?s0)"
  define z where "z = snd (OsSchedTaskSwitch ?s0)"
  obtain i e r where z: "z = OsSchedSetNextExpireTime i e (?s6\<lparr>g_schedResponseTime := r\<rparr>)"
    by (simp add: z_def TaskSwitch_split Let_def)
  have u: "unmoved ?s6 z" unfolding z by (rule unmoved_trans [OF unmoved_fields(1) unmoved_SetNext])
  have "tick_later (tk s) (tk z) \<and> g_tickIntLock z = g_tickIntLock s \<and> intActive z = intActive s"
    using u switch_time(1-3) [of ?s0] switch_time(4-6) [of "runTask s" "switch_out ?s0"] later_trans
    by (fastforce simp: unmoved_def)
  then show "tick_later (tk s) (tk (ArchTaskSchedule s))" "g_tickIntLock (ArchTaskSchedule s) = g_tickIntLock s"
    "intActive (ArchTaskSchedule s) = intActive s"
    by (simp_all add: ArchTaskSchedule_def case_prod_beta z_def)
qed

lemma Arch_links:
  assumes "kern_ok s" "timed_ok s" "\<not> intActive s"
  shows "g_taskSortLink (ArchTaskSchedule s) = g_taskSortLink s" "responseTime (ArchTaskSchedule s) = responseTime s"
proof -
  have "awake (st s (runTask s))" using timed_okD(2) [OF assms(2), of "runTask s"] by (simp add: up_def)
  then have "awake (st (s\<lparr>g_sysNeedSched := False\<rparr>) (runTask (s\<lparr>g_sysNeedSched := False\<rparr>)))" by simp
  note o = switch_out_awake(1,2) [OF this]
  show "g_taskSortLink (ArchTaskSchedule s) = g_taskSortLink s" "responseTime (ArchTaskSchedule s) = responseTime s"
    using assms(3) o by (simp_all add: ArchTaskSchedule_def TaskSwitch_split case_prod_beta Let_def switch_in_rest)
qed

lemma irq_exit:
  assumes ok: "irq_ok s" and sched: "g_taskScheduled s"
  defines "s' \<equiv> HalIrqEndCheckNeedSched (s\<lparr>intActive := False\<rparr>)"
  shows "kern_ok s'" "timed_ok s'" "timers s' = timers s" "\<not> intActive s'" "g_tickIntLock s' = g_tickIntLock s"
    "g_taskSortLink s' = g_taskSortLink s" "responseTime s' (TaskNode t) = responseTime s (TaskNode t)"
    "panic (tk s) \<Longrightarrow> panic (tk s')"
    "g_losTaskLock s = 0 \<Longrightarrow> g_sysNeedSched s \<Longrightarrow> has (st s' u) (flag READY) \<Longrightarrow> \<not> is_idle s' u \<Longrightarrow>
       \<not> is_idle s' (runTask s') \<and> priority (tcb s' (runTask s')) \<le> priority (tcb s' u)"
    "kern_ok (s\<lparr>intActive := False\<rparr>)" "s' = s\<lparr>intActive := False\<rparr> \<or> s' = LOS_Schedule (s\<lparr>intActive := False\<rparr>)"
    "tick_later (tk s) (tk s')"
proof -
  let ?s0 = "s\<lparr>intActive := False\<rparr>"
  have e: "s' = (if g_sysNeedSched s \<and> g_losTaskLock s = 0 then ArchTaskSchedule ?s0 else ?s0)"
    using sched by (simp add: s'_def HalIrqEndCheckNeedSched_def LOS_CHECK_SCHEDULE_def)
  have l: "s' = (if g_sysNeedSched s then LOS_Schedule ?s0 else ?s0)"
    using sched by (simp add: e LOS_Schedule_def OsCheckKernelRunning_def LOS_CHECK_SCHEDULE_def)
  have "kern_ok ?s0 = kern_ok s" by (rule kern_ok_cong) simp_all
  then show k0: "kern_ok ?s0" using ok by (simp add: irq_ok_def)
  show "s' = ?s0 \<or> s' = LOS_Schedule ?s0" by (simp add: l)
  show "tick_later (tk s) (tk s')" using Arch_time(1) [of ?s0] by (simp add: e)
  have t0: "timed_ok ?s0"
  proof (rule timed_ok_sub [of s _ "\<lambda>_. True"])
    show "up ?s0 u \<Longrightarrow> awake (st ?s0 u)" for u
      using ok timed_okD(2) [of s u] by (simp add: irq_ok_def up_def)
  qed (use ok in \<open>simp_all add: irq_ok_def unlinked_def on_list_def\<close>)
  show "kern_ok s'" "timed_ok s'" using k0 t0 kern_ok_Arch [OF k0] timed_ok_Arch [OF k0 t0] by (simp_all add: e)
  show "timers s' = timers s" unfolding l by (simp add: timers_def [of ?s0] timers_def [of s])
  show "\<not> intActive s'" "g_tickIntLock s' = g_tickIntLock s" by (simp_all add: e Arch_time)
  show "g_taskSortLink s' = g_taskSortLink s" "responseTime s' (TaskNode t) = responseTime s (TaskNode t)"
    using Arch_links [OF k0 t0] by (simp_all add: e)
  show "panic (tk s) \<Longrightarrow> panic (tk s')" using Arch_time(1) [of ?s0] by (simp add: e tick_later_def)
  assume "g_losTaskLock s = 0" "g_sysNeedSched s" "has (st s' u) (flag READY)" "\<not> is_idle s' u"
  then show "\<not> is_idle s' (runTask s') \<and> priority (tcb s' (runTask s')) \<le> priority (tcb s' u)"
    using run_ok_ArchTaskSchedule(2) [OF kern_okD(1,3,4) [OF k0], of u] by (simp add: e)
qed

section \<open>The tasks when the interrupt is over\<close>

lemma Schedule_delay: "has (st (LOS_Schedule s) x) (flag DELAY) = has (st s x) (flag DELAY)"
proof -
  have "has (st (switch_out s) x) (flag DELAY) = has (st s x) (flag DELAY)" for s
    by (auto simp: switch_out_def GetCurrSchedTimeCycle_eq Let_def EnQueue_tcb)
  moreover have "has (st (switch_in r s) x) (flag DELAY) = has (st s x) (flag DELAY)" for r s
    by (auto simp: switch_in_def Let_def DeQueue_tcb status_defs)
  ultimately have "has (st (ArchTaskSchedule s) x) (flag DELAY) = has (st s x) (flag DELAY)"
    by (cases "intActive s") (simp_all add: ArchTaskSchedule_frame(1), simp add: ArchTaskSchedule_def)
  then show ?thesis by (simp add: LOS_Schedule_def)
qed

text \<open>
  A sleeping task whose time came: it sleeps no longer and is off the timer list, it knows of the
  time-out if it waited for something, and it is ready or already runs, unless it is suspended.
\<close>

definition roused :: "sched \<Rightarrow> sched \<Rightarrow> nat \<Rightarrow> bool" where
  "roused s s' t \<longleftrightarrow> TaskNode t \<notin> set (g_taskSortLink s') \<and> awake (st s' t)
     \<and> has (st s' t) (flag TIMEOUT) = (has (st s t) (flag PEND) \<or> has (st s t) (flag TIMEOUT))
     \<and> (if has (st s t) (flag SUSPEND) then \<not> has (st s' t) (flag READY) \<and> runTask s' \<noteq> t
        else has (st s' t) (flag READY) \<or> runTask s' = t)"

lemma exit_tasks:
  assumes k: "kern_ok u" and tm: "timed_ok s" and t: "scan_tasks now R s u"
    and r: "runTask u = runTask s" "has (st s (runTask s)) (flag RUNNING)" "g_idleTaskID u = g_idleTaskID s"
    and i: "OS_TCB_FROM_TID (g_idleTaskID s) \<notin> R" and s': "s' = u \<or> s' = LOS_Schedule u"
    and l: "g_taskSortLink s' = g_taskSortLink u"
  shows "if x \<in> R then woken s s' x else if due now s x then roused s s' x
    else TaskNode x \<in> set (g_taskSortLink s) \<longrightarrow> TaskNode x \<in> set (g_taskSortLink s') \<and> st s' x = st s x"
proof (cases "x \<in> R")
  case True
  then have w: "waked s u x" using t by (simp add: scan_tasks_def)
  have n: "x \<noteq> OS_TCB_FROM_TID (g_idleTaskID u)" using i True r(3) by auto
  have "woken s s' x"
  proof (cases "s' = u")
    case True
    then show ?thesis using w r by (auto simp: woken_def waked_def)
  next
    case False
    then show ?thesis using s' woken_Schedule [OF k w r(1,2) n] by simp
  qed
  then show ?thesis using True by simp
next
  case out: False
  have T: "if due now s x then woken_from (st s x) (st u x) \<and> TaskNode x \<notin> set (g_taskSortLink u)
     else st u x = st s x \<and> (TaskNode x \<in> set (g_taskSortLink u) \<longleftrightarrow> TaskNode x \<in> set (g_taskSortLink s))"
    using t out by (simp add: scan_tasks_def)
  have on: "x \<noteq> runTask u" "x \<noteq> OS_TCB_FROM_TID (g_idleTaskID u)" "\<not> has (st s x) (flag READY)"
    if "TaskNode x \<in> set (g_taskSortLink s)" using timed_okD(5) [OF tm that] r by (auto simp: up_def)
  have keep: "st s' x = st u x \<and> runTask s' \<noteq> x"
    if "TaskNode x \<in> set (g_taskSortLink s)" "\<not> has (st u x) (flag READY)"
    using s' Schedule_keeps_status [OF k on(1) [OF that(1)] that(2) on(2) [OF that(1)]] on(1) [OF that(1)] by auto
  show ?thesis
  proof (cases "due now s x")
    case True
    then have w: "woken_from (st s x) (st u x)" "TaskNode x \<notin> set (g_taskSortLink u)" using T by simp_all
    have ls: "TaskNode x \<in> set (g_taskSortLink s)" using True by (simp add: due_def)
    have "awake (st s' x)" "has (st s' x) (flag TIMEOUT) = has (st u x) (flag TIMEOUT)"
      "has (st u x) (flag READY) \<Longrightarrow> has (st s' x) (flag READY) \<or> runTask s' = x"
      using s' w(1) Schedule_more_status [where s = u and x = x] Schedule_status(1) [OF k, of x] Schedule_delay [of u x]
      by (auto simp: woken_from_def)
    then have "roused s s' x" using w keep [OF ls] l by (auto simp: roused_def woken_from_def)
    then show ?thesis using True out by simp
  next
    case False
    then show ?thesis using T out keep on(3) l by auto
  qed
qed

text \<open>From the entry of the handler to the end of its scans.\<close>

lemma tick_entry:
  assumes k: "kern_ok s" and tm: "timed_ok s" and inv: "swtmr_inv p s"
    and clk: "100 \<le> unat (g_sysClock (tk s))" and sched: "g_taskScheduled s"
    and start: "OsGetCurrSchedTimeCycle (s\<lparr>intActive := True, tk := OsUpdateSysTimeBase (tk s)\<rparr>) = (start, s1)"
    and ct: "ct = fst (OsGetCurrSchedTimeCycle s1)" "unat ct < 2 ^ 63"
  shows "\<exists>p2 q2 s2. (if g_schedResponseID s1 = OS_INVALID then tick_scans (p, q, s1) else Some (p, q, s1)) = Some (p2, q2, s2)
    \<and> irq_step s1 s2 \<and> swtmr_inv p2 s2
    \<and> (g_schedResponseID s = OS_INVALID \<longrightarrow>
       (g_swtmrScan s \<longrightarrow> (\<forall>i. timer_view p2 s2 i = timer_after ct (g_sysClock (tk s)) (timer_view p s i)))
       \<and> (panic (tk s2) \<or> (\<forall>n\<in>set (g_taskSortLink s2). start < responseTime s2 n))
       \<and> (\<forall>n. handler_ok p q n \<longrightarrow> (\<exists>fired now. scan_fired ct p q n s fired p2 q2
            \<and> scan_tasks now (taken p q s fired) s s2
            \<and> (panic (tk s2) \<or> start \<le> now \<and> now \<le> g_oldTickTimerBase (tk s2)))))
    \<and> g_taskScheduled (s\<lparr>intActive := True, tk := OsUpdateSysTimeBase (tk s)\<rparr>)
    \<and> g_losTaskLock s2 = g_losTaskLock s \<and> g_tickIntLock s2 = g_tickIntLock s \<and> g_taskScheduled s2
    \<and> runTask s2 = runTask s \<and> g_idleTaskID s2 = g_idleTaskID s"
proof -
  let ?i = "s\<lparr>intActive := True\<rparr>" and ?s0 = "s\<lparr>intActive := True, tk := OsUpdateSysTimeBase (tk s)\<rparr>"
  have "kern_ok ?i = kern_ok s" by (rule kern_ok_cong) simp_all
  moreover have "timed_ok ?i"
  proof (rule timed_ok_sub [OF tm, of _ "\<lambda>_. True"])
    show "up ?i u \<Longrightarrow> awake (st ?i u)" for u using timed_okD(2) [OF tm, of u] by (simp add: up_def)
  qed (simp_all add: unlinked_def on_list_def)
  ultimately have oki: "irq_ok ?i" using k by (simp add: irq_ok_def)
  have c: "s1 = snd (OsGetCurrSchedTimeCycle ?s0)" "start = fst (OsGetCurrSchedTimeCycle ?s0)"
    using start by simp_all
  have u0: "unmoved ?i ?s0" using unmoved_fields(8) [of ?i "OsUpdateSysTimeBase (tk s)"] by simp
  have st1: "irq_step ?i s1" unfolding c by (rule irq_unmoved [OF oki unmoved_trans [OF u0 unmoved_Cycle]])
  have t1: "timers s1 = timers s"
  proof -
    have "timers ?i = timers s" by (simp add: timers_def)
    moreover have "timers ?s0 = timers ?i" using timers_tk [of "OsUpdateSysTimeBase (tk s)" ?i]
      by (simp add: OsUpdateSysTimeBase_def Let_def case_prod_beta)
    ultimately show ?thesis by (simp add: c)
  qed
  have f: "g_schedResponseID s1 = g_schedResponseID s" "g_swtmrScan s1 = g_swtmrScan s"
    "g_oldTickTimerBase (tk s1) = start" by (simp_all add: c GetCurrSchedTimeCycle_eq)
  have inv1: "swtmr_inv p s1" using inv swtmr_inv_timers [OF t1] by simp
  note T = timersD [OF t1]
  have sc: "g_losTaskLock x = g_losTaskLock s \<and> g_tickIntLock x = g_tickIntLock s \<and> g_taskScheduled x
      \<and> runTask x = runTask s \<and> g_idleTaskID x = g_idleTaskID s"
    if "irq_step s1 x" for x using that st1 sched by (simp add: irq_step_def)
  show ?thesis
  proof (cases "g_schedResponseID s = OS_INVALID")
    case False
    then show ?thesis using f(1) irq_refl [OF irq_stepD [OF st1]] sc [OF irq_refl [OF irq_stepD [OF st1]]] inv1 sched
      by (intro exI [of _ p] exI [of _ q] exI [of _ s1]) simp
  next
    case True
    have "100 \<le> unat (g_sysClock (tk s1))" using clk T(3) by simp
    from irq_scans [OF irq_stepD [OF st1] inv1 this ct, of q] obtain p2 q2 s2 where
      S: "tick_scans (p, q, s1) = Some (p2, q2, s2)" "irq_step s1 s2" "swtmr_inv p2 s2"
      "g_swtmrScan s1 \<longrightarrow> (\<forall>i. timer_view p2 s2 i = timer_after ct (g_sysClock (tk s1)) (timer_view p s1 i))"
      "panic (tk s2) \<or> (\<forall>n\<in>set (g_taskSortLink s2). g_oldTickTimerBase (tk s1) < responseTime s2 n)"
      "\<forall>n. handler_ok p q n \<longrightarrow> (\<exists>fired now. scan_fired ct p q n s1 fired p2 q2
         \<and> scan_tasks now (taken p q s1 fired) s1 s2
         \<and> (panic (tk s2) \<or> g_oldTickTimerBase (tk s1) \<le> now \<and> now \<le> g_oldTickTimerBase (tk s2)))" by blast
    have "unmoved ?i s1" unfolding c by (rule unmoved_trans [OF u0 unmoved_Cycle])
    then have "taken p q s1 fired = taken p q s fired" "scan_tasks now R s1 s2 = scan_tasks now R s s2" for fired now R
      using scan_tasks_cong [of s1 s s2 s2] by (simp_all add: taken_def unmoved_def)
    moreover have "scan_fired ct p q n s1 fired p2 q2 = scan_fired ct p q n s fired p2 q2" for n fired
      using f(2) T by (simp add: scan_fired_def)
    ultimately show ?thesis using S True f sc [OF S(2)] T sched
      by (intro exI [of _ p2] exI [of _ q2] exI [of _ s2]) simp
  qed
qed

text \<open>
  C1. The tick interrupt, from the entry of the handler to the switch at its end, in a kernel whose
  invariants hold: it returns, for any number of timers that are due and any messages their
  expiry posts, and the invariants hold again. When the tick was armed for a time-out, every
  timer has been advanced past the time of the scan and no task is left asleep whose time had
  come when the tick began. When the handler queue is in order as well (with \<open>n\<close> messages), each
  firing has posted its message there, as far as there was room; the tasks that waited there for
  the messages are woken; and there is a time of the scan of the sleepers, between the start of
  the tick and its end, such that every other sleeper that was due by then is roused (it sleeps
  no longer, knows of its time-out, and is ready or already runs unless it is suspended) and
  every one that was not still sleeps as before. Unless the scheduler is locked the most urgent
  ready task runs.
\<close>

theorem tick_interrupt:
  assumes k: "kern_ok s" and tm: "timed_ok s" and inv: "swtmr_inv p s"
    and clk: "100 \<le> unat (g_sysClock (tk s))" and sched: "g_taskScheduled s" and int: "\<not> intActive s"
    and start: "OsGetCurrSchedTimeCycle (s\<lparr>intActive := True, tk := OsUpdateSysTimeBase (tk s)\<rparr>) = (start, s1)"
    and ct: "ct = fst (OsGetCurrSchedTimeCycle s1)" "unat ct < 2 ^ 63"
  shows "\<exists>p' q' s'. HalInterrupt OsTickHandler (p, q, s) = Some (p', q', s')
    \<and> kern_ok s' \<and> timed_ok s' \<and> swtmr_inv p' s' \<and> \<not> intActive s' \<and> g_tickIntLock s' = g_tickIntLock s
    \<and> (g_schedResponseID s = OS_INVALID \<longrightarrow>
         (g_swtmrScan s \<longrightarrow> (\<forall>i. timer_view p' s' i = timer_after ct (g_sysClock (tk s)) (timer_view p s i)))
         \<and> (panic (tk s') \<or> (\<forall>t. TaskNode t \<in> set (g_taskSortLink s') \<longrightarrow> start < responseTime s' (TaskNode t)))
         \<and> (\<forall>n. handler_ok p q n \<longrightarrow> (\<exists>fired now. scan_fired ct p q n s fired p' q'
              \<and> (panic (tk s') \<or> start \<le> now \<and> now \<le> g_oldTickTimerBase (tk s'))
              \<and> (\<forall>t. if t \<in> taken p q s fired then woken s s' t else if due now s t then roused s s' t
                 else TaskNode t \<in> set (g_taskSortLink s) \<longrightarrow> TaskNode t \<in> set (g_taskSortLink s') \<and> st s' t = st s t))))
    \<and> (g_losTaskLock s = 0 \<longrightarrow> (\<forall>u. has (st s' u) (flag READY) \<and> \<not> is_idle s' u \<longrightarrow>
         \<not> is_idle s' (runTask s') \<and> priority (tcb s' (runTask s')) \<le> priority (tcb s' u)))"
proof -
  let ?s0 = "s\<lparr>intActive := True, tk := OsUpdateSysTimeBase (tk s)\<rparr>"
  obtain p2 q2 s2 where P: "(if g_schedResponseID s1 = OS_INVALID then tick_scans (p, q, s1) else Some (p, q, s1)) = Some (p2, q2, s2)"
    "irq_step s1 s2" "swtmr_inv p2 s2"
    "g_schedResponseID s = OS_INVALID \<longrightarrow>
       (g_swtmrScan s \<longrightarrow> (\<forall>i. timer_view p2 s2 i = timer_after ct (g_sysClock (tk s)) (timer_view p s i)))
       \<and> (panic (tk s2) \<or> (\<forall>n\<in>set (g_taskSortLink s2). start < responseTime s2 n))
       \<and> (\<forall>n. handler_ok p q n \<longrightarrow> (\<exists>fired now. scan_fired ct p q n s fired p2 q2
            \<and> scan_tasks now (taken p q s fired) s s2
            \<and> (panic (tk s2) \<or> start \<le> now \<and> now \<le> g_oldTickTimerBase (tk s2))))"
    "g_taskScheduled ?s0" "g_losTaskLock s2 = g_losTaskLock s" "g_tickIntLock s2 = g_tickIntLock s"
    "g_taskScheduled s2" "runTask s2 = runTask s" "g_idleTaskID s2 = g_idleTaskID s"
    using tick_entry [OF k tm inv clk sched start ct, of q] by blast
  have U: "runTask s2 = runTask s" "g_idleTaskID s2 = g_idleTaskID s"
    using P(9,10) by simp_all
  let ?s3 = "tick_finish start s2"
  note F = irq_finish [OF irq_stepD [OF P(2)], where start = start]
  note X = irq_exit [OF irq_stepD [OF F(1)]]
  let ?s4 = "HalIrqEndCheckNeedSched (?s3\<lparr>intActive := False\<rparr>)"
  have sch: "g_taskScheduled ?s3" using F(1) P(8) by (simp add: irq_step_def)
  have t: "timers ?s4 = timers s2" using X(3) [OF sch] F(2) by simp
  have "HalInterrupt OsTickHandler (p, q, s) = Some (p2, q2, ?s4)"
    using TickHandler_eq [OF P(5) start P(1)] int by (simp add: HalInterrupt_def OsTickHandler_def)
  moreover have "swtmr_inv p2 ?s4" using P(3) swtmr_inv_timers [OF t] by simp
  moreover have "timer_view p2 ?s4 i = timer_after ct (g_sysClock (tk s)) (timer_view p s i)"
    if "g_schedResponseID s = OS_INVALID" "g_swtmrScan s" for i
    using timersD [OF t] P(4) that by simp
  moreover have "panic (tk ?s4) \<or> (\<forall>t. TaskNode t \<in> set (g_taskSortLink ?s4) \<longrightarrow> start < responseTime ?s4 (TaskNode t))"
    if "g_schedResponseID s = OS_INVALID"
  proof -
    have "panic (tk s2) \<Longrightarrow> panic (tk ?s4)" using X(8) [OF sch] F(1) by (auto simp: irq_step_def tick_later_def)
    then show ?thesis using P(4) that X(6,7) [OF sch] F(3,4) by auto
  qed
  moreover have "g_tickIntLock ?s4 = g_tickIntLock s" using X(5) [OF sch] F(1) P(7) by (simp add: irq_step_def)
  moreover have "\<not> is_idle ?s4 (runTask ?s4) \<and> priority (tcb ?s4 (runTask ?s4)) \<le> priority (tcb ?s4 u)"
    if "g_losTaskLock s = 0" "has (st ?s4 u) (flag READY)" "\<not> is_idle ?s4 u" for u
  proof -
    have "g_losTaskLock ?s3 = 0" "g_sysNeedSched ?s3" using that(1) F(1,5) P(6) by (simp_all add: irq_step_def)
    from X(9) [OF sch this that(2,3)] show ?thesis .
  qed
  moreover have "\<exists>fired now. scan_fired ct p q n s fired p2 q2
      \<and> (panic (tk ?s4) \<or> start \<le> now \<and> now \<le> g_oldTickTimerBase (tk ?s4))
      \<and> (\<forall>t. if t \<in> taken p q s fired then woken s ?s4 t else if due now s t then roused s ?s4 t
         else TaskNode t \<in> set (g_taskSortLink s) \<longrightarrow> TaskNode t \<in> set (g_taskSortLink ?s4) \<and> st ?s4 t = st s t)"
    if hq: "g_schedResponseID s = OS_INVALID" "handler_ok p q n" for n
  proof -
    obtain fired now where S: "scan_fired ct p q n s fired p2 q2" "scan_tasks now (taken p q s fired) s s2"
      "panic (tk s2) \<or> start \<le> now \<and> now \<le> g_oldTickTimerBase (tk s2)" using P(4) hq by blast
    let ?u = "?s3\<lparr>intActive := False\<rparr>"
    have "scan_tasks now R s ?u = scan_tasks now R s s2" for R
      using F(6) by (intro scan_tasks_cong) (simp_all add: unmoved_def)
    then have u: "scan_tasks now (taken p q s fired) s ?u" using S(2) by simp
    have r: "runTask ?u = runTask s" "g_idleTaskID ?u = g_idleTaskID s" using F(1,6) U by (simp_all add: irq_step_def unmoved_def)
    have i: "OS_TCB_FROM_TID (g_idleTaskID s) \<notin> taken p q s fired"
      using idle_not_waiting [OF k] by (auto simp: taken_def dest: in_set_takeD)
    have "tick_later (tk s2) (tk ?s4)" using X(12) [OF sch] F(6) later_trans by (auto simp: unmoved_def)
    then have "panic (tk ?s4) \<or> start \<le> now \<and> now \<le> g_oldTickTimerBase (tk ?s4)"
      using S(3) by (auto simp: tick_later_def)
    moreover have "g_taskSortLink ?s4 = g_taskSortLink ?u" using X(6) [OF sch] by simp
    note exit_tasks [OF X(10) [OF sch] tm u r(1) kern_okD(5) [OF k] r(2) i X(11) [OF sch] this]
    ultimately show ?thesis using S(1) by blast
  qed
  ultimately show ?thesis using X(1,2,4) [OF sch] by blast
qed

text \<open>The example: timers 0 and 1 are due, and so is the time-out of task 3; task 2 is ready and more urgent.\<close>

definition ex_tick_due :: sched where
  "ex_tick_due = ex_timed\<lparr>g_swtmrScan := True\<rparr>"

lemma ex_tick_due_ok: "kern_ok ex_tick_due" "timed_ok ex_tick_due" "swtmr_inv ex_swtmr ex_tick_due"
proof -
  have f: "g_taskCBArray ex_tick_due = ex_tasks" "lists ex_tick_due = ex_lists" "runTask ex_tick_due = 1"
    "g_queueBitmap ex_tick_due = g_queueBitmap ex_sched" "g_taskSortLink ex_tick_due = g_taskSortLink ex_sched"
    "responseTime ex_tick_due (TaskNode t) = responseTime ex_sched (TaskNode t)"
    "g_idleTaskID ex_tick_due = 0" for t
    by (simp_all add: ex_tick_due_def ex_timed_def)
  show "kern_ok ex_tick_due" using kern_ok_cong [of ex_tick_due ex_sched] ex_kern_ok by (simp add: f)
  have "timed_ok ex_sched"
    using ex_timer_ok by (auto simp: timed_ok_def up_def ex_tasks_def OS_TCB_FROM_TID_def OS_SORT_LINK_INVALID_TIME_def)
  then show "timed_ok ex_tick_due"
  proof (rule timed_ok_sub [of _ _ "\<lambda>_. True"])
    show "up ex_tick_due u \<Longrightarrow> awake (st ex_tick_due u)" for u
      using timed_okD(2) [OF \<open>timed_ok ex_sched\<close>, of u] by (simp add: up_def f)
  qed (simp_all add: f unlinked_def on_list_def)
  show "swtmr_inv ex_swtmr ex_tick_due"
    using ex_swtmr_inv swtmr_inv_timers [of ex_tick_due ex_timed] by (simp add: ex_tick_due_def timers_def)
qed

theorem tick_interrupt_witness:
  "\<exists>p' q' s'. HalInterrupt OsTickHandler (ex_swtmr, ex_handler, ex_tick_due) = Some (p', q', s')
     \<and> kern_ok s' \<and> timed_ok s' \<and> swtmr_inv p' s' \<and> due_at s' 0 = 1600100 \<and> \<not> linked s' 1 \<and> due_at s' 2 = 9000
     \<and> set (ring (g_allQueue q' 0) 2) = {fire_msg (blk_of ex_swtmr 0), fire_msg (blk_of ex_swtmr 1)}
     \<and> (panic (tk s') \<or> roused ex_tick_due s' 3)"
proof -
  let ?s = "ex_tick_due"
  obtain start s1 where e: "OsGetCurrSchedTimeCycle (?s\<lparr>intActive := True, tk := OsUpdateSysTimeBase (tk ?s)\<rparr>) = (start, s1)"
    by fastforce
  have k: "tk ?s = ex_tick" "g_taskScheduled ?s" "\<not> intActive ?s" "g_schedResponseID ?s = OS_INVALID" "g_swtmrScan ?s"
    "handler_queue ex_swtmr = 0" "g_sysClock ex_tick = 80000000" "lists ?s = ex_lists"
    "g_taskSortLink ?s = [TaskNode 3, TaskNode 4]" "responseTime ?s (TaskNode 3) = 500"
    by (simp_all add: ex_tick_due_def ex_timed_def ex_sched_def ex_swtmr_def ex_tick_def)
  have ct: "1020 = fst (OsGetCurrSchedTimeCycle s1)" and st: "500 \<le> start"
    using e k(1) by (auto simp: GetCurrSchedTimeCycle_eq OsUpdateSysTimeBase_def ex_tick_def LOS_SysCycleGet_def
        getCycle_def ex_timer_def Let_def tick_assert_def)
  have ck: "100 \<le> unat (g_sysClock (tk ?s))" by (simp add: k ex_tick_def)
  have b: "unat (1020 :: u64) < 2 ^ 63" by simp
  from tick_interrupt [OF ex_tick_due_ok ck k(2,3) e ct b, of ex_handler] k(4,5)
  obtain p' q' s' where r: "HalInterrupt OsTickHandler (ex_swtmr, ex_handler, ?s) = Some (p', q', s')"
    "kern_ok s'" "timed_ok s'" "swtmr_inv p' s'"
    "\<forall>i. timer_view p' s' i = timer_after 1020 (g_sysClock (tk ?s)) (timer_view ex_swtmr ?s i)"
    "\<forall>n. handler_ok ex_swtmr ex_handler n \<longrightarrow> (\<exists>fired now. scan_fired 1020 ex_swtmr ex_handler n ?s fired p' q'
       \<and> (panic (tk s') \<or> start \<le> now \<and> now \<le> g_oldTickTimerBase (tk s'))
       \<and> (\<forall>t. if t \<in> taken ex_swtmr ex_handler ?s fired then woken ?s s' t else if due now ?s t then roused ?s s' t
          else TaskNode t \<in> set (g_taskSortLink ?s) \<longrightarrow> TaskNode t \<in> set (g_taskSortLink s') \<and> st s' t = st ?s t))"
    by blast
  then obtain fired now where f: "scan_fired 1020 ex_swtmr ex_handler 0 ?s fired p' q'" "panic (tk s') \<or> start \<le> now"
    "\<And>t. if t \<in> taken ex_swtmr ex_handler ?s fired then woken ?s s' t else if due now ?s t then roused ?s s' t
       else TaskNode t \<in> set (g_taskSortLink ?s) \<longrightarrow> TaskNode t \<in> set (g_taskSortLink s') \<and> st s' t = st ?s t"
    using ex_handler_ok(1) by blast
  have v: "timer_view ex_swtmr ?s i = timer_view ex_swtmr ex_timed i" for i by (simp add: ex_tick_due_def)
  have R: "timer_view p' s' i = timer_after 1020 80000000 (timer_view ex_swtmr ex_timed i)" for i
    using r(5) [THEN spec, of i] unfolding v k(1,7) .
  have "due_at s' 0 = 1600100" using R [of 0]
    by (simp add: ex_timed_due timer_after_def ex_swtmr_def ex_block_def Let_def periods_def period_def
        OS_SYS_TICK_TO_CYCLE_def tick_config zero_swtmr_def)
  moreover have "\<not> linked s' 1" "due_at s' 2 = 9000" using R [of 1] R [of 2]
    by (simp_all add: ex_timed_due timer_after_def ex_swtmr_def ex_block_def swtmr_config)
  moreover have "set (ring (g_allQueue q' 0) 2) = {fire_msg (blk_of ex_swtmr 0), fire_msg (blk_of ex_swtmr 1)}"
  proof -
    have "count_list fired i = (if i \<in> {0, 1} then 1 else 0)" for i
      using f(1) ex_firings [of 1020 i] unfolding scan_fired_def v k(1,7) by (simp add: k(5))
    note two = two_fired [OF this]
    have "ring (g_allQueue q' 0) 2 = map (\<lambda>i. fire_msg (blk_of ex_swtmr i)) fired"
      using f(1) two(2) by (simp add: scan_fired_def posted_def ex_handler_ok(2) ring_def k(6))
    then show ?thesis using two(1) by simp
  qed
  moreover have "panic (tk s') \<or> roused ?s s' 3"
  proof (cases "panic (tk s')")
    case False
    then have "due now ?s 3" using f(2) st by (simp add: due_def k(9,10))
    moreover have "taken ex_swtmr ex_handler ?s fired = {}" by (simp add: taken_def k(6,8) ex_lists_def)
    ultimately show ?thesis using f(3) [of 3] by simp
  qed simp
  ultimately show ?thesis using r(1-4) by auto
qed

end
