(* ===== verification/Los_TaskCreate.thy ===== *)
theory Los_TaskCreate
  imports Los_TaskProps Los_Interrupt
begin

text \<open>
  Creating tasks: what \<open>OsNewTaskInit\<close> writes, and that a created task takes the first free block, is
  ready when the call is over, and disturbs no other task.
\<close>

section \<open>Free blocks\<close>

text \<open>A block on the free list has its identifier, is unused, and nobody waits on what is in it.\<close>

definition free_ok :: "sched \<Rightarrow> bool" where
  "free_ok s \<longleftrightarrow> (\<forall>t\<in>set (lists s FreeTask). taskID (tcb s t) = of_nat t \<and> t < 2 ^ 32
     \<and> st s t = flag UNUSED \<and> lists s (EventList (TaskEvent t)) = [] \<and> lists s (JoinList t) = [])"

lemma free_okD:
  assumes "free_ok s" "t \<in> set (lists s FreeTask)"
  shows "taskID (tcb s t) = of_nat t" "OS_TCB_FROM_TID (of_nat t) = t" "st s t = flag UNUSED"
    "lists s (EventList (TaskEvent t)) = []" "lists s (JoinList t) = []"
  using assms by (auto simp: free_ok_def OS_TCB_FROM_TID_def unat_of_nat)

section \<open>A new block\<close>

lemma NewTaskInit_state:
  assumes "OsNewTaskInit al t p (h, s) = (r, h', s')"
  shows "s' = s\<lparr>g_taskCBArray := (g_taskCBArray s)(t := tcb s' t),
       lists := (if has (uwResved p) LOS_TASK_ATTR_JOINABLE
                 then (lists s)(EventList (TaskEvent t) := [], JoinList t := [])
                 else (lists s)(EventList (TaskEvent t) := [])),
       responseTime := (responseTime s)(TaskNode t := OS_SORT_LINK_INVALID_TIME), events := events s'\<rparr>"
    "taskID (tcb s' t) = taskID (tcb s t)" "priority (tcb s' t) = usTaskPrio p" "timeSlice (tcb s' t) = 0"
    "taskEntry (tcb s' t) = pfnTaskEntry p" "taskName (tcb s' t) = pcName p" "arg (tcb s' t) = uwArg p"
    "has (st s' t) (flag F) \<longleftrightarrow> F = SUSPEND \<or> F = JOINABLE \<and> has (uwResved p) LOS_TASK_ATTR_JOINABLE
       \<or> F = STACK_FREE \<and> stackAddr p = 0 \<and> r = LOS_OK"
    "stackAddr p = 0 \<Longrightarrow> (topOfStack (tcb s' t), h') = mem_alloc_align al h
       (LOS_Align (uwStackSize p) OS_TASK_STACK_ADDR_ALIGN) LOSCFG_STACK_POINT_ALIGN_SIZE"
    "stackAddr p \<noteq> 0 \<Longrightarrow> h' = h"
    "r = (if stackAddr p = 0 \<and> topOfStack (tcb s' t) = 0 then LOS_ERRNO_TSK_NO_MEMORY else LOS_OK)"
    "r = LOS_OK \<Longrightarrow> stackPointer (tcb s' t)
       = ArchTskStackInit (taskID (tcb s t)) (stackSize (tcb s' t)) (topOfStack (tcb s' t))"
proof -
  note defs = OsNewTaskInit_def Let_def SET_SORTLIST_VALUE_def LOS_EventInit_def upd_event_def upd_list_def
    status_set_def upd_tcb_def LOS_ERRNO_TSK_NO_MEMORY_def
  obtain q h1 where a: "mem_alloc_align al h (LOS_Align (uwStackSize p) OS_TASK_STACK_ADDR_ALIGN)
        LOSCFG_STACK_POINT_ALIGN_SIZE = (q, h1)" by fastforce
  note e = assms [symmetric]
  show "s' = s\<lparr>g_taskCBArray := (g_taskCBArray s)(t := tcb s' t),
       lists := (if has (uwResved p) LOS_TASK_ATTR_JOINABLE
                 then (lists s)(EventList (TaskEvent t) := [], JoinList t := [])
                 else (lists s)(EventList (TaskEvent t) := [])),
       responseTime := (responseTime s)(TaskNode t := OS_SORT_LINK_INVALID_TIME), events := events s'\<rparr>"
    using e a by (cases "stackAddr p = 0"; cases "q = 0"; cases "has (uwResved p) LOS_TASK_ATTR_JOINABLE")
      (simp_all add: defs)
  show "taskID (tcb s' t) = taskID (tcb s t)" "priority (tcb s' t) = usTaskPrio p" "timeSlice (tcb s' t) = 0"
    "taskEntry (tcb s' t) = pfnTaskEntry p" "taskName (tcb s' t) = pcName p" "arg (tcb s' t) = uwArg p"
    using e a by (auto simp: defs split: if_splits)
  show "has (st s' t) (flag F) \<longleftrightarrow> F = SUSPEND \<or> F = JOINABLE \<and> has (uwResved p) LOS_TASK_ATTR_JOINABLE
       \<or> F = STACK_FREE \<and> stackAddr p = 0 \<and> r = LOS_OK"
    using e a by (auto simp: defs split: if_splits)
  show "r = (if stackAddr p = 0 \<and> topOfStack (tcb s' t) = 0 then LOS_ERRNO_TSK_NO_MEMORY else LOS_OK)"
    "stackAddr p \<noteq> 0 \<Longrightarrow> h' = h"
    "stackAddr p = 0 \<Longrightarrow> (topOfStack (tcb s' t), h') = mem_alloc_align al h
       (LOS_Align (uwStackSize p) OS_TASK_STACK_ADDR_ALIGN) LOSCFG_STACK_POINT_ALIGN_SIZE"
    "r = LOS_OK \<Longrightarrow> stackPointer (tcb s' t)
       = ArchTskStackInit (taskID (tcb s t)) (stackSize (tcb s' t)) (topOfStack (tcb s' t))"
    using e a by (auto simp: defs split: if_splits)
qed

section \<open>A block taken from the free list\<close>

lemma new_task:
  assumes k: "core_ok s" and f: "free_ok s" and l: "lists s FreeTask = t # ts"
    and e: "OsNewTaskInit al t p (h, ListDelete t s) = (r, h', s')"
  shows "lists s' = (lists s)(FreeTask := ts)" "t \<noteq> runTask s" "unlinked s' t" "core_ok s'"
    "idle_ok s \<Longrightarrow> idle_ok s' \<and> \<not> is_idle s t" "free_ok s'" "x \<noteq> t \<Longrightarrow> tcb s' x = tcb s x"
    "taskID (tcb s' t) = of_nat t"
proof -
  have d: "wait_inv s" "run_ok s" "has (st s (runTask s)) (flag RUNNING)" using k by (simp_all add: core_ok_def)
  note ok = wait_inv_sched [OF d(1)] and N = NewTaskInit_state [OF e]
  have lo: "distinct (lists s m)" "on_list s m x \<Longrightarrow> on_list s m' x \<Longrightarrow> m = m'" for m m' x
    using ok by (auto simp: sched_ok_def lists_ok_def)
  have t: "t \<in> set (lists s FreeTask)" by (simp add: l)
  note F = free_okD [OF f t]
  have nin: "t \<notin> set (lists s m)" if "m \<noteq> FreeTask" for m
    using that lo(2) [of m t FreeTask] t by (auto simp: on_list_def)
  have del: "lists (ListDelete t s) = (lists s)(FreeTask := ts)"
    using nin lo(1) [of FreeTask] l by (auto simp: list_op_defs fun_eq_iff removeAll_id)
  have "lists s' = (if has (uwResved p) LOS_TASK_ATTR_JOINABLE
       then (lists (ListDelete t s))(EventList (TaskEvent t) := [], JoinList t := [])
       else (lists (ListDelete t s))(EventList (TaskEvent t) := []))"
    by (subst N(1)) simp
  then show L: "lists s' = (lists s)(FreeTask := ts)"
    using F(4,5) by (auto simp: del fun_eq_iff)
  have T: "tcb s' x = tcb s x" if "x \<noteq> t" for x
    using that by (subst N(1)) (simp add: list_op_defs)
  then show "x \<noteq> t \<Longrightarrow> tcb s' x = tcb s x" by blast
  have I: "g_idleTaskID s' = g_idleTaskID s" "runTask s' = runTask s" "g_queueBitmap s' = g_queueBitmap s"
    by (subst N(1); simp add: list_op_defs)+
  have id: "taskID (tcb s' x) = taskID (tcb s x)" for x
    using T [of x] N(2) by (cases "x = t") (simp_all add: list_op_defs)
  then show "taskID (tcb s' t) = of_nat t" using F(1) by simp
  show nr: "t \<noteq> runTask s" using F(3) d(3) by auto
  have on: "on_list s' m x \<longleftrightarrow> on_list s m x \<and> x \<noteq> t" for m x
    using nin lo(1) [of FreeTask] l by (cases "m = FreeTask") (auto simp: on_list_def L)
  then show un: "unlinked s' t" by (simp add: unlinked_def)
  have st: "has (st s' t) (flag READY) = False" "has (st s' t) (flag PEND) = False" by (simp_all add: N(8))
  have s0: "has (st s t) (flag READY) = False" "has (st s t) (flag PEND) = False" by (simp_all add: F(3))
  have sF: "has (st s' x) (flag G) = has (st s x) (flag G)" if "G = READY \<or> G = PEND" for x G
    using that T [of x] st s0 by (cases "x = t") auto
  have pr: "priority (tcb s' x) = priority (tcb s x)" if "x \<noteq> t" for x using T [OF that] by simp
  have dts: "distinct ts" using lo(1) [of FreeTask] l by simp
  have "distinct (lists s' m)" for m using dts lo(1) by (simp add: L)
  then have "lists_ok s'" unfolding lists_ok_def on using lo(2) by blast
  moreover have "bitmap_ok s'" using ok by (simp add: sched_ok_def bitmap_ok_def L I)
  moreover have "ready_ok s'"
  proof -
    have r: "on_list s (PriQueue q) x \<longleftrightarrow> has (st s x) (flag READY) \<and> \<not> is_idle s x \<and> unat (priority (tcb s x)) = q"
      "has (st s x) (flag READY) \<longrightarrow> unat (priority (tcb s x)) < 32" for q x
      using ok by (simp_all add: sched_ok_def ready_ok_def)
    have "on_list s' (PriQueue q) x \<longleftrightarrow> has (st s' x) (flag READY) \<and> \<not> is_idle s' x \<and> unat (priority (tcb s' x)) = q"
      "has (st s' x) (flag READY) \<longrightarrow> unat (priority (tcb s' x)) < 32" for q x
      using r(1) [of q x] r(2) [of x] st s0 T [of x] id [of x] by (cases "x = t"; simp add: on is_idle_def I)+
    then show ?thesis unfolding ready_ok_def by blast
  qed
  moreover have "pend_ok s'"
  proof -
    have w: "wait_list m \<Longrightarrow> \<not> on_list s m t" for m using nin [of m] by (cases m) (auto simp: on_list_def)
    have "has (st s' x) (flag PEND) \<longleftrightarrow> (\<exists>m. wait_list m \<and> on_list s' m x)" for x
      using ok sF [of PEND x] st w unfolding sched_ok_def pend_ok_def on by (cases "x = t") auto
    then show ?thesis by (simp add: pend_ok_def)
  qed
  ultimately have so: "sched_ok s'" by (simp add: sched_ok_def)
  have "has (st s' x) (flag PEND) \<longrightarrow> unat (priority (tcb s' x)) < 32" for x
    using d(1) T [of x] st by (cases "x = t") (simp_all add: wait_inv_def)
  then have "wait_inv s'" using so by (simp add: wait_inv_def)
  moreover have "run_ok s'"
    using d(2) nr on T [of "runTask s"] by (auto simp: run_ok_def Let_def I unlinked_def)
  ultimately show "core_ok s'" using d(3) nr T [of "runTask s"] by (simp add: core_ok_def I)
  show "idle_ok s \<Longrightarrow> idle_ok s' \<and> \<not> is_idle s t"
  proof -
    assume i: "idle_ok s"
    let ?i = "OS_TCB_FROM_TID (g_idleTaskID s)"
    have "?i \<noteq> t" using i t by (auto simp: idle_ok_def Let_def unlinked_def on_list_def)
    then show ?thesis
      using i T [of ?i] on F(2) by (auto simp: idle_ok_def Let_def is_idle_def I unlinked_def F(1))
  qed
  have "x \<in> set ts \<Longrightarrow> x \<noteq> t" for x using lo(1) [of FreeTask] l by auto
  then show "free_ok s'" using f T by (auto simp: free_ok_def L l)
qed

section \<open>The creation\<close>

lemma Schedule_free_ok:
  assumes "kern_ok s" "free_ok s"
  shows "free_ok (LOS_Schedule s)"
proof -
  have "st (LOS_Schedule s) x = flag UNUSED" if "x \<in> set (lists s FreeTask)" for x
  proof -
    have x: "st s x = flag UNUSED" using free_okD(3) [OF assms(2) that] .
    then have r: "x \<noteq> runTask s" "\<not> has (st s x) (flag READY)" using kern_okD(5) [OF assms(1)] by auto
    show ?thesis using Schedule_keeps_status(1) [OF assms(1) r idle_not_waiting [OF assms(1) that]] x by simp
  qed
  then show ?thesis using assms by (simp add: free_ok_def Schedule_other_lists Schedule_status)
qed

lemma EnQueue_free_ok:
  assumes "free_ok s" "t \<notin> set (lists s FreeTask)"
  shows "free_ok (OsSchedTaskEnQueue t s)"
proof -
  have l: "lists (OsSchedTaskEnQueue t s) l = lists s l" if "not_ready_queue l" for l
    using that by (auto simp: EnQueue_lists not_ready_queue_def)
  have "tcb (OsSchedTaskEnQueue t s) x = tcb s x" if "x \<in> set (lists s FreeTask)" for x
    using that assms(2) by (auto simp: EnQueue_tcb)
  then show ?thesis using assms by (simp add: free_ok_def l)
qed

lemma CreateOnly_eq:
  assumes "lists s RecycleTask = []" "lists s FreeTask = t # ts" "OsTaskInitParamCheck (Some p0) = (LOS_OK, Some p)"
  shows "LOS_TaskCreateOnly al True (Some p0) (h, s) =
     (let (r, h2, s2) = OsNewTaskInit al t p (h, ListDelete t s)
      in if r \<noteq> LOS_OK then (r, None, h2, OsInsertTCBToFreeList t s2) else (LOS_OK, Some (taskID (tcb s2 t)), h2, s2))"
  using assms by (simp add: LOS_TaskCreateOnly_def OsRecycleFinishedTask.simps Let_def)

lemma param_prio:
  assumes "OsTaskInitParamCheck (Some p0) = (LOS_OK, Some p)"
  shows "unat (usTaskPrio p) < 32" "usTaskPrio p = usTaskPrio p0" "stackAddr p = stackAddr p0"
    "uwResved p = uwResved p0" "pfnTaskEntry p = pfnTaskEntry p0" "pfnTaskEntry p \<noteq> None"
  using assms by (auto simp: OsTaskInitParamCheck_def OS_TASK_PRIORITY_LOWEST_def Let_def word_less_nat_alt
      not_less word_le_nat_alt split: if_splits)

text \<open>A new task in the ready state; and the block back on the free list, when there was no stack.\<close>

lemma create_success:
  assumes k: "core_ok s" and f: "free_ok s" and l: "lists s FreeTask = t # ts"
    and c: "OsTaskInitParamCheck (Some p0) = (LOS_OK, Some p)"
    and e: "OsNewTaskInit al t p (h, ListDelete t s) = (r, h', s2)" and r: "r = LOS_OK"
  defines "s3 \<equiv> OsSchedTaskEnQueue t s2"
  shows "core_ok s3" "idle_ok s \<Longrightarrow> idle_ok s3" "free_ok s3" "has (st s3 t) (flag READY)"
    "lists s3 FreeTask = ts" "not_ready_queue m \<Longrightarrow> m \<noteq> FreeTask \<Longrightarrow> lists s3 m = lists s m"
    "priority (tcb s3 t) = usTaskPrio p" "OS_TCB_FROM_TID (taskID (tcb s2 t)) = t" "taskID (tcb s2 t) = of_nat t"
proof -
  note W = new_task [OF k f l e] and N = NewTaskInit_state [OF e] and P = param_prio [OF c]
  have run: "runTask s2 = runTask s" by (subst N(1)) (simp add: list_op_defs)
  have p: "unat (priority (tcb s2 t)) < 32" using P(1) by (simp add: N(3))
  show "core_ok s3" unfolding s3_def
    by (rule core_ok_EnQueue [OF W(4) _ W(3) p]) (use W(2) run in simp)
  show "idle_ok s \<Longrightarrow> idle_ok s3" unfolding s3_def using W(5) idle_ok_EnQueue by blast
  have nin: "t \<notin> set (lists s2 FreeTask)" using W(3) by (simp add: unlinked_def on_list_def)
  show "free_ok s3" unfolding s3_def by (rule EnQueue_free_ok [OF W(6) nin])
  show "has (st s3 t) (flag READY)" by (simp add: s3_def EnQueue_tcb)
  have o: "lists s3 m = lists s2 m" if "not_ready_queue m" for m
    using that by (auto simp: s3_def EnQueue_lists not_ready_queue_def)
  show "lists s3 FreeTask = ts" by (simp add: o W(1))
  show "not_ready_queue m \<Longrightarrow> m \<noteq> FreeTask \<Longrightarrow> lists s3 m = lists s m" by (simp add: o W(1))
  show "priority (tcb s3 t) = usTaskPrio p" by (simp add: s3_def EnQueue_tcb N(3))
  show "taskID (tcb s2 t) = of_nat t" "OS_TCB_FROM_TID (taskID (tcb s2 t)) = t"
    using W(8) free_okD(2) [OF f, of t] l by simp_all
qed

lemma create_failure:
  assumes k: "kern_ok s" and f: "free_ok s" and l: "lists s FreeTask = t # ts"
    and e: "OsNewTaskInit al t p (h, ListDelete t s) = (r, h', s2)"
  defines "s3 \<equiv> OsInsertTCBToFreeList t s2"
  shows "kern_ok s3" "free_ok s3" "lists s3 = lists s" "runTask s3 = runTask s"
proof -
  have k': "core_ok s" "idle_ok s" using k by (simp_all add: kern_core)
  note W = new_task [OF k'(1) f l e] and N = NewTaskInit_state [OF e]
  have fr: "runTask s2 = runTask s" "g_idleTaskID s2 = g_idleTaskID s"
    by (subst N(1); simp add: list_op_defs)+
  have "\<not> is_idle s2 t" using W(5) [OF k'(2)] N(2) by (simp add: is_idle_def fr list_op_defs)
  then show "kern_ok s3" unfolding s3_def
    by (intro kern_ok_insert_free) (use W fr k'(2) in \<open>simp_all add: kern_core\<close>)
  have L: "lists s3 = (lists s2)(FreeTask := t # lists s2 FreeTask)" "runTask s3 = runTask s2"
    "tcb s3 x = (if x = t then zero_tcb\<lparr>taskID := taskID (tcb s2 t), taskStatus := flag UNUSED\<rparr> else tcb s2 x)" for x
    by (simp_all add: s3_def OsInsertTCBToFreeList_def list_op_defs SET_SORTLIST_VALUE_def upd_event_def)
  show l3: "lists s3 = lists s" using W(1) l by (auto simp: L fun_eq_iff)
  show "runTask s3 = runTask s" using fr by (simp add: L)
  show "free_ok s3" using f W(7,8) unfolding free_ok_def l3 by (auto simp: L)
qed

text \<open>
  C28. Creating a task when a block is free. If there is a stack for it the call succeeds: the
  task has the first free block and its identifier, is ready at its priority or already runs, and
  the wait lists of the others are as they were. If the heap has no stack left, the call
  reports that and the block is back in front of the free list. Either way the invariants hold.
\<close>

theorem task_create:
  assumes k: "kern_ok s" and f: "free_ok s" and l: "lists s RecycleTask = []" "lists s FreeTask = t # ts"
    and c: "OsTaskInitParamCheck (Some p0) = (LOS_OK, Some p)"
    and e: "LOS_TaskCreate al True (Some p0) (h, s) = (r, tid, h', s')"
  shows "kern_ok s' \<and> free_ok s' \<and> lists s' RecycleTask = []
    \<and> (if stackAddr p0 = 0
          \<and> fst (mem_alloc_align al h (LOS_Align (uwStackSize p) OS_TASK_STACK_ADDR_ALIGN) LOSCFG_STACK_POINT_ALIGN_SIZE) = 0
       then r = LOS_ERRNO_TSK_NO_MEMORY \<and> tid = None \<and> lists s' = lists s
       else r = LOS_OK \<and> tid = Some (of_nat t) \<and> lists s' FreeTask = ts
         \<and> (has (st s' t) (flag READY) \<or> runTask s' = t) \<and> priority (tcb s' t) = usTaskPrio p0
         \<and> (\<forall>m. wait_list m \<longrightarrow> lists s' m = lists s m))"
proof -
  obtain r2 h2 s2 where n: "OsNewTaskInit al t p (h, ListDelete t s) = (r2, h2, s2)" by (metis prod_cases3)
  note N = NewTaskInit_state [OF n] and P = param_prio [OF c]
  have r2: "r2 = (if stackAddr p0 = 0
      \<and> fst (mem_alloc_align al h (LOS_Align (uwStackSize p) OS_TASK_STACK_ADDR_ALIGN) LOSCFG_STACK_POINT_ALIGN_SIZE) = 0
      then LOS_ERRNO_TSK_NO_MEMORY else LOS_OK)"
    using N(9,11) P(3) by (metis fst_conv)
  have ne: "LOS_ERRNO_TSK_NO_MEMORY \<noteq> LOS_OK" by (simp add: LOS_ERRNO_TSK_NO_MEMORY_def)
  show ?thesis
  proof (cases "r2 = LOS_OK")
    case False
    then have "r = r2" "tid = None" "s' = OsInsertTCBToFreeList t s2"
      using e by (simp_all add: LOS_TaskCreate_def CreateOnly_eq [OF l c] n Let_def)
    then show ?thesis using create_failure [OF k f l(2) n] False r2 l(1) by (auto split: if_splits)
  next
    case True
    have k': "core_ok s" "idle_ok s" using k by (simp_all add: kern_core)
    note S = create_success [OF k'(1) f l(2) c n True]
    let ?s3 = "OsSchedTaskEnQueue t s2"
    have e': "r = LOS_OK" "tid = Some (of_nat t)" "s' = (if g_taskScheduled ?s3 then LOS_Schedule ?s3 else ?s3)"
      using e True S(8,9) by (auto simp add: LOS_TaskCreate_def CreateOnly_eq [OF l c] n Let_def)
    have k3: "kern_ok ?s3" using S(1) S(2) [OF k'(2)] by (simp add: kern_core)
    have "kern_ok s'" "free_ok s'" using k3 S(3) by (simp_all add: e' kern_ok_Schedule Schedule_free_ok)
    moreover have "lists s' m = lists ?s3 m" if "not_ready_queue m" for m
      using that k3 by (simp add: e' Schedule_other_lists)
    moreover have "priority (tcb s' t) = usTaskPrio p0" using S(7) k3 P(2) by (simp add: e' Schedule_status)
    moreover have "has (st s' t) (flag READY) \<or> runTask s' = t"
      using Schedule_more_status(3) [OF S(4)] S(4) unfolding e'(3) by presburger
    moreover have "wait_list m \<Longrightarrow> m \<noteq> FreeTask" for m by auto
    ultimately show ?thesis using True ne r2 e'(1,2) S(5,6) l(1) by (auto split: if_splits)
  qed
qed

text \<open>The example with block 6 free, and a task as urgent as the first of the ready ones.\<close>

definition ex_free :: sched where
  "ex_free = upd_tcb 6 (\<lambda>_. ex_task 6 0 (flag UNUSED)) (upd_list FreeTask (\<lambda>_. [6]) ex_sched)"

definition ex_param :: TSK_INIT_PARAM_S where
  "ex_param = \<lparr>pfnTaskEntry = Some (EntryFunc 0), usTaskPrio = 5, uwArg = 9, stackAddr = 0, uwStackSize = 0x400,
     pcName = Some ''task'', uwResved = 0\<rparr>"

lemma ex_free_ok: "kern_ok ex_free" "free_ok ex_free"
proof -
  have l: "lists ex_free = ex_lists(FreeTask := [6])" and b: "g_queueBitmap ex_free = 0x04000000"
    and t: "tcb ex_free x = (if x = 6 then ex_task 6 0 (flag UNUSED) else ex_tasks x)"
    and i: "g_idleTaskID ex_free = 0" "runTask ex_free = 1" for x
    by (simp_all add: ex_free_def upd_list_def)
  have on: "on_list ex_free m x \<longleftrightarrow> on_list ex_sched m x \<or> m = FreeTask \<and> x = 6" for m x
    by (auto simp: on_list_def l ex_lists_def)
  have d: "sched_ok ex_sched" by (fact ex_sched_ok)
  have "lists_ok ex_free" by (auto simp: lists_ok_def on ex_on_list l ex_lists_def)
  moreover have "bitmap_ok ex_free" using ex_bitmap_ok by (simp add: bitmap_ok_def l b)
  moreover have "ready_ok ex_free"
    by (auto simp: ready_ok_def on ex_on_list t i ex_tasks_def is_idle_def)
  moreover have "pend_ok ex_free"
    by (auto simp: pend_ok_def on ex_on_list t ex_tasks_def)
  ultimately have "sched_ok ex_free" by (simp add: sched_ok_def)
  then show "kern_ok ex_free"
    by (auto simp: kern_ok_def wait_inv_def run_ok_def idle_ok_def Let_def unlinked_def on ex_on_list t i ex_tasks_def
        OS_TCB_FROM_TID_def is_idle_def)
  show "free_ok ex_free" by (simp add: free_ok_def l t ex_lists_def)
qed

theorem task_create_witness:
  "\<exists>h' s'. LOS_TaskCreate \<lparr>mem_alloc_align = (\<lambda>h r b. (h, h + r)), mem_free = (\<lambda>h p. h)\<rparr> True (Some ex_param) (0x1000, ex_free)
     = (LOS_OK, Some 6, h', s') \<and> kern_ok s' \<and> (has (st s' 6) (flag READY) \<or> runTask s' = 6)"
proof -
  let ?al = "\<lparr>mem_alloc_align = (\<lambda>h r b. (h, h + r)), mem_free = (\<lambda>h p. h)\<rparr> :: u32 allocator"
  obtain r tid h' s' where e: "LOS_TaskCreate ?al True (Some ex_param) (0x1000, ex_free) = (r, tid, h', s')"
    by (rule prod_cases4)
  have c: "OsTaskInitParamCheck (Some ex_param) = (LOS_OK, Some ex_param)"
    by (simp add: OsTaskInitParamCheck_def ex_param_def OS_TASK_PRIORITY_LOWEST_def LOSCFG_SYS_HEAP_SIZE_def
        LOSCFG_BASE_CORE_TSK_MIN_STACK_SIZE_def LOS_Align_def word_le_nat_alt word_less_nat_alt)
  have l: "lists ex_free RecycleTask = []" "lists ex_free FreeTask = [6]"
    by (simp_all add: ex_free_def upd_list_def ex_lists_def)
  from task_create [OF ex_free_ok l c e]
  have "r = LOS_OK" "tid = Some 6" "kern_ok s'" "has (st s' 6) (flag READY) \<or> runTask s' = 6"
    by (simp_all add: ex_param_def)
  then show ?thesis using e by auto
qed

end
