(* ===== verification/Los_Start.thy ===== *)
theory Los_Start
  imports Los_TaskCreate Los_TickProps
begin

text \<open>
  The start of the scheduler: what holds between the initialisation and \<open>LOS_Start\<close>, that creating
  tasks keeps it, and that the start makes the most urgent task the running one, in a state from which
  the running kernel's invariants hold.
\<close>

section \<open>Before the start\<close>

text \<open>The clock is set and no interrupt is being handled.\<close>

definition clock_ok :: "sched \<Rightarrow> bool" where
  "clock_ok s \<longleftrightarrow> 100 \<le> unat (g_sysClock (tk s)) \<and> \<not> intActive s"

text \<open>Nobody sleeps yet; the idle task exists and the reserved block stands for the running task.\<close>

definition boot_ok :: "sched \<Rightarrow> bool" where
  "boot_ok s \<longleftrightarrow> kern_ok s \<and> free_ok s \<and> lists s RecycleTask = [] \<and> g_taskSortLink s = [] \<and> g_swtmrSortLink s = []
     \<and> \<not> g_taskScheduled s \<and> clock_ok s \<and> (\<forall>t. awake (st s t))"

lemma boot_okD:
  assumes "boot_ok s"
  shows "kern_ok s" "free_ok s" "lists s RecycleTask = []" "g_taskSortLink s = []" "g_swtmrSortLink s = []"
    "\<not> g_taskScheduled s" "awake (st s t)" "clock_ok s"
  using assms unfolding boot_ok_def by blast+

lemma new_task_frame:
  assumes "OsNewTaskInit al t p (h, ListDelete t s) = (r, h', s')" "only_timers s"
  shows "g_taskSortLink s' = g_taskSortLink s" "g_taskScheduled s' = g_taskScheduled s" "timers s' = timers s"
    "g_swtmrScan s' = g_swtmrScan s" "g_swtmrTaskID s' = g_swtmrTaskID s" "g_idleTaskID s' = g_idleTaskID s"
    "awake (st s' t)" "tk s' = tk s" "runTask s' = runTask s" "g_swtmrSortLink s' = g_swtmrSortLink s"
    "g_losTaskLock s' = g_losTaskLock s" "intActive s' = intActive s"
proof -
  note N = NewTaskInit_state [OF assms(1)]
  show "awake (st s' t)" by (simp add: N(8))
  show "g_taskSortLink s' = g_taskSortLink s" "g_taskScheduled s' = g_taskScheduled s" "timers s' = timers s"
    "g_swtmrScan s' = g_swtmrScan s" "g_swtmrTaskID s' = g_swtmrTaskID s" "g_idleTaskID s' = g_idleTaskID s"
    "tk s' = tk s" "runTask s' = runTask s" "g_swtmrSortLink s' = g_swtmrSortLink s"
    "g_losTaskLock s' = g_losTaskLock s" "intActive s' = intActive s"
    by (subst N(1); simp add: list_op_defs timers_def)+
qed

lemma EnQueue_awake: "awake (st s x) \<Longrightarrow> awake (st (OsSchedTaskEnQueue t s) x)"
  by (auto simp: EnQueue_tcb)

text \<open>A task created, or not, whatever the parameters are.\<close>

lemma boot_create:
  assumes b: "boot_ok s" and e: "LOS_TaskCreate al True p0 (h, s) = (r, tid, h', s')"
  shows "boot_ok s'" "timers s' = timers s" "g_idleTaskID s' = g_idleTaskID s"
    "set (lists s' FreeTask) \<subseteq> set (lists s FreeTask)" "x \<notin> set (lists s FreeTask) \<Longrightarrow> tcb s' x = tcb s x"
proof -
  note d = boot_okD [OF b]
  have rec: "OsRecycleFinishedTask al (h, s) = (h, s)" using d(3) by (simp add: OsRecycleFinishedTask.simps)
  have "boot_ok s' \<and> timers s' = timers s \<and> g_idleTaskID s' = g_idleTaskID s
    \<and> set (lists s' FreeTask) \<subseteq> set (lists s FreeTask) \<and> (\<forall>x. x \<notin> set (lists s FreeTask) \<longrightarrow> tcb s' x = tcb s x)"
  proof (cases "\<exists>q p t ts. p0 = Some q \<and> OsTaskInitParamCheck p0 = (LOS_OK, Some p) \<and> lists s FreeTask = t # ts")
    case False
    then have "s' = s"
      using e rec by (cases p0) (auto simp: LOS_TaskCreate_def LOS_TaskCreateOnly_def OsTaskInitParamCheck_def Let_def
          split: list.splits if_splits)
    then show ?thesis using b by simp
  next
    case True
    then obtain q p t ts where T: "p0 = Some q" "OsTaskInitParamCheck (Some q) = (LOS_OK, Some p)" "lists s FreeTask = t # ts"
      by blast
    obtain r2 h2 s2 where n: "OsNewTaskInit al t p (h, ListDelete t s) = (r2, h2, s2)" by (metis prod_cases3)
    have k': "core_ok s" "idle_ok s" using d(1) by (simp_all add: kern_core)
    have o: "only_timers s" using d(5) by (simp add: only_timers_def)
    note W = new_task [OF k'(1) d(2) T(3) n] and N = new_task_frame [OF n o]
    have aw: "awake (st s2 x)" for x using N(7) d(7) [of x] W(7) [of x] by (cases "x = t") simp_all
    show ?thesis
    proof (cases "r2 = LOS_OK")
      case False
      then have s': "s' = OsInsertTCBToFreeList t s2"
        using e T(1) by (simp add: LOS_TaskCreate_def CreateOnly_eq [OF d(3) T(3,2)] n Let_def)
      have tc: "tcb s' x = (if x = t then zero_tcb\<lparr>taskID := taskID (tcb s2 t), taskStatus := flag UNUSED\<rparr> else tcb s2 x)" for x
        by (simp add: s' OsInsertTCBToFreeList_def list_op_defs SET_SORTLIST_VALUE_def upd_event_def)
      then have "awake (st s' x)" for x using aw [of x] by simp
      moreover have "x \<notin> set (lists s FreeTask) \<Longrightarrow> tcb s' x = tcb s x" for x using tc [of x] W(7) [of x] T(3) by auto
      moreover have "g_idleTaskID s' = g_idleTaskID s2"
        by (simp add: s' OsInsertTCBToFreeList_def list_op_defs SET_SORTLIST_VALUE_def upd_event_def)
      moreover have "g_taskSortLink s' = g_taskSortLink s2" "g_taskScheduled s' = g_taskScheduled s2" "timers s' = timers s2"
        "g_swtmrSortLink s' = g_swtmrSortLink s2" "tk s' = tk s2" "intActive s' = intActive s2"
        by (simp_all add: s' OsInsertTCBToFreeList_def list_op_defs SET_SORTLIST_VALUE_def upd_event_def timers_def)
      ultimately show ?thesis
        using create_failure [OF d(1,2) T(3) n] d N by (simp add: boot_ok_def clock_ok_def s' [symmetric])
    next
      case True
      note S = create_success [OF k'(1) d(2) T(3,2) n True]
      have s': "s' = OsSchedTaskEnQueue t s2"
        using e T(1) True S(8,9) N(2) d(6) by (auto simp: LOS_TaskCreate_def CreateOnly_eq [OF d(3) T(3,2)] n Let_def)
      have "x \<notin> set (lists s FreeTask) \<Longrightarrow> tcb s' x = tcb s x" for x
        using W(7) [of x] T(3) by (auto simp: s' EnQueue_tcb)
      moreover have "set (lists s' FreeTask) \<subseteq> set (lists s FreeTask)" using S(5) T(3) by (auto simp: s')
      ultimately show ?thesis
        using S(1,3,6) S(2) [OF k'(2)] d N EnQueue_awake [OF aw] unfolding s' by (simp add: boot_ok_def clock_ok_def kern_core)
    qed
  qed
  then show "boot_ok s'" "timers s' = timers s" "g_idleTaskID s' = g_idleTaskID s"
    "set (lists s' FreeTask) \<subseteq> set (lists s FreeTask)" "x \<notin> set (lists s FreeTask) \<Longrightarrow> tcb s' x = tcb s x" by blast+
qed

section \<open>The first task\<close>

text \<open>The start up to the timers: the chosen task runs and is off its queue.\<close>

definition start_run :: "sched \<Rightarrow> sched" where
  "start_run s =
     (let new = OsGetTopTask s;
          s1 = (status_set new (flag RUNNING) s)\<lparr>newTask := new, runTask := new\<rparr>;
          (now, s2) = OsGetCurrSchedTimeCycle s1
      in OsSchedTaskDeQueue new (upd_tcb new (\<lambda>c. c\<lparr>startTime := now\<rparr>) s2))"

lemma start_run_state:
  assumes k: "kern_ok s"
  shows "kern_ok (start_run s)" "runTask (start_run s) = OsGetTopTask s"
    "has (st (start_run s) x) (flag F) \<longleftrightarrow> has (st s x) (flag F) \<and> \<not> (F = READY \<and> x = OsGetTopTask s)
       \<or> F = RUNNING \<and> x = OsGetTopTask s"
    "priority (tcb (start_run s) x) = priority (tcb s x)" "is_idle (start_run s) x = is_idle s x"
    "g_taskSortLink (start_run s) = g_taskSortLink s" "timers (start_run s) = timers s"
    "not_ready_queue l \<Longrightarrow> lists (start_run s) l = lists s l" "taskID (tcb (start_run s) x) = taskID (tcb s x)"
    "x \<noteq> OsGetTopTask s \<Longrightarrow> tcb (start_run s) x = tcb s x" "g_idleTaskID (start_run s) = g_idleTaskID s"
    "intActive (start_run s) = intActive s"
proof -
  let ?n = "OsGetTopTask s"
  define b where "b = upd_tcb ?n (\<lambda>c. c\<lparr>startTime := fst (LOS_SysCycleGet (tk s))\<rparr>)
     (status_set ?n (flag RUNNING) s\<lparr>newTask := ?n, runTask := ?n, tk := snd (LOS_SysCycleGet (tk s))\<rparr>)"
  have e: "start_run s = OsSchedTaskDeQueue ?n b"
    by (simp add: start_run_def b_def GetCurrSchedTimeCycle_eq Let_def status_defs)
  note d = kern_okD [OF k]
  have f: "lists b = lists s" "runTask b = ?n" "g_idleTaskID b = g_idleTaskID s" "g_queueBitmap b = g_queueBitmap s"
    "priority (tcb b x) = priority (tcb s x)" "taskID (tcb b x) = taskID (tcb s x)"
    "has (st b x) (flag F) \<longleftrightarrow> has (st s x) (flag F) \<or> F = RUNNING \<and> x = ?n" for x F
    by (auto simp: b_def status_defs)
  have i: "is_idle b x = is_idle s x" for x by (simp add: is_idle_def f)
  have ok: "sched_ok b" using d(1) by (subst sched_ok_cong [of b s]) (simp_all add: f)
  have st: "has (st (start_run s) x) (flag F) \<longleftrightarrow> has (st s x) (flag F) \<and> \<not> (F = READY \<and> x = ?n) \<or> F = RUNNING \<and> x = ?n" for x F
    by (auto simp: e DeQueue_tcb f)
  show "has (st (start_run s) x) (flag F) \<longleftrightarrow> has (st s x) (flag F) \<and> \<not> (F = READY \<and> x = ?n) \<or> F = RUNNING \<and> x = ?n"
    by (fact st)
  have g: "runTask (start_run s) = ?n" "priority (tcb (start_run s) x) = priority (tcb s x)"
    "taskID (tcb (start_run s) x) = taskID (tcb s x)" "g_idleTaskID (start_run s) = g_idleTaskID s" for x
    by (simp_all add: e f DeQueue_tcb)
  show "runTask (start_run s) = ?n" "priority (tcb (start_run s) x) = priority (tcb s x)"
    "taskID (tcb (start_run s) x) = taskID (tcb s x)" "g_idleTaskID (start_run s) = g_idleTaskID s" by (fact g)+
  show "x \<noteq> ?n \<Longrightarrow> tcb (start_run s) x = tcb s x" by (simp add: e DeQueue_tcb b_def status_defs)
  show "is_idle (start_run s) x = is_idle s x" by (simp add: is_idle_def g)
  show "g_taskSortLink (start_run s) = g_taskSortLink s" by (simp add: e b_def status_defs)
  show "intActive (start_run s) = intActive s" by (simp add: e b_def status_defs)
  show "timers (start_run s) = timers s" by (simp add: e b_def status_defs timers_def)
  have un: "unlinked b x = unlinked s x" for x by (rule unlinked_cong [OF f(1)])
  have top: "unlinked (start_run s) ?n" "unat (priority (tcb s ?n)) < 32"
  proof -
    show "unlinked (start_run s) ?n"
    proof (cases "g_queueBitmap s = 0")
      case True
      then have "unlinked b ?n" using d(4) top_task_idle(1) [OF d(1) True] by (simp add: idle_ok_def Let_def un)
      then show ?thesis by (simp only: e unlinked_DeQueue)
    next
      case False
      then show ?thesis using top_task_ready(1,2) [OF d(1) False] DeQueue_unlinked [OF ok] by (simp add: e f i)
    qed
    show "unat (priority (tcb s ?n)) < 32" by (rule top_task_prio [OF d(1,4)])
  qed
  show "kern_ok (start_run s)"
  proof (rule kern_okI)
    show "wait_inv (start_run s)"
      using sched_ok_DeQueue [OF ok, of ?n] d(2) by (simp add: wait_inv_def e [symmetric] st g)
    show "run_ok (start_run s)" using top by (simp add: run_ok_def Let_def g st)
    show "idle_ok (start_run s)"
      using d(4) unlinked_DeQueue [of b "OS_TCB_FROM_TID (g_idleTaskID s)" ?n] un
      by (simp add: idle_ok_def Let_def is_idle_def g e [symmetric])
    show "has (st (start_run s) (runTask (start_run s))) (flag RUNNING)" by (simp add: g st)
  qed
  show "lists (start_run s) l = lists s l" if l: "not_ready_queue l"
  proof -
    have "?n \<notin> set (lists s l)" if r: "has (st s ?n) (flag READY)" "\<not> is_idle s ?n"
    proof
      assume "?n \<in> set (lists s l)"
      moreover have "on_list s (PriQueue (unat (priority (tcb s ?n)))) ?n"
        using d(1) r by (auto simp: sched_ok_def ready_ok_def)
      ultimately have "l = PriQueue (unat (priority (tcb s ?n)))"
        using d(1) by (auto simp: sched_ok_def lists_ok_def on_list_def)
      with l show False by (simp add: not_ready_queue_def)
    qed
    then show ?thesis by (auto simp: e DeQueue_lists f i removeAll_id split: if_splits)
  qed
qed

section \<open>The start\<close>

lemma Start_eq:
  assumes "g_swtmrSortLink s = []"
  defines "s4 \<equiv> start_run s\<lparr>tk := OsTickSysTimerStartTimeSet (startTime (tcb (start_run s) (OsGetTopTask s))) (tk (start_run s)),
     g_taskScheduled := True, g_schedResponseTime := OS_SCHED_MAX_RESPONSE_TIME, g_schedResponseID := OS_INVALID\<rparr>"
  shows "LOS_Start (p, s) = Some (p, OsSchedSetNextExpireTime (taskID (tcb s4 (OsGetTopTask s)))
     (startTime (tcb s4 (OsGetTopTask s)) + scast (timeSlice (tcb s4 (OsGetTopTask s)))) s4)"
proof -
  have "g_swtmrSortLink (start_run s) = []"
    using assms(1) by (simp add: start_run_def GetCurrSchedTimeCycle_eq Let_def status_defs)
  then show ?thesis
    by (simp add: LOS_Start_def ArchStartSchedule_def OsSchedStart_def start_run_def Let_def case_prod_beta
        OsSwtmrResponseTimeReset_def reset_loop.simps s4_def)
qed

text \<open>The start from any state of the boot, with no software timer armed.\<close>

lemma Start_runs:
  assumes b: "boot_ok s"
  shows "\<exists>s'. LOS_Start (p, s) = Some (p, s') \<and> kern_ok s' \<and> timed_ok s' \<and> free_ok s' \<and> g_taskScheduled s' \<and> clock_ok s'
    \<and> (swtmr_inv p s \<longrightarrow> swtmr_inv p s')
    \<and> runTask s' = OsGetTopTask s \<and> has (st s' (runTask s')) (flag RUNNING)
    \<and> (\<forall>u. has (st s u) (flag READY) \<and> \<not> is_idle s u \<longrightarrow>
         priority (tcb s' (runTask s')) \<le> priority (tcb s u) \<and> \<not> is_idle s' (runTask s'))"
proof -
  let ?n = "OsGetTopTask s" and ?r = "start_run s"
  let ?s4 = "?r\<lparr>tk := OsTickSysTimerStartTimeSet (startTime (tcb ?r ?n)) (tk ?r), g_taskScheduled := True,
     g_schedResponseTime := OS_SCHED_MAX_RESPONSE_TIME, g_schedResponseID := OS_INVALID\<rparr>"
  let ?s' = "OsSchedSetNextExpireTime (taskID (tcb ?s4 ?n)) (startTime (tcb ?s4 ?n) + scast (timeSlice (tcb ?s4 ?n))) ?s4"
  note d = boot_okD [OF b] and R = start_run_state [OF boot_okD(1) [OF b]]
  note ok = kern_okD(1) [OF d(1)]
  have u: "unmoved ?s4 ?s'" by simp
  have f: "lists ?s' = lists ?r" "runTask ?s' = ?n" "g_idleTaskID ?s' = g_idleTaskID ?r" "g_queueBitmap ?s' = g_queueBitmap ?r"
    "taskID (tcb ?s' x) = taskID (tcb ?r x)" "priority (tcb ?s' x) = priority (tcb ?r x)" "st ?s' x = st ?r x"
    "g_taskSortLink ?s' = g_taskSortLink ?r" "g_taskScheduled ?s'" for x
    using u R(2) unfolding unmoved_def by simp_all
  have aw: "awake (st ?s' x)" for x using d(7) [of x] by (simp add: f R(3))
  have "kern_ok ?s'" using R(1) kern_ok_cong [of ?s' ?r] by (simp add: f R(2))
  moreover have "timed_ok ?s'" using aw by (simp add: timed_ok_def timer_ok_def f R(6) d(4))
  moreover have "free_ok ?s'"
  proof -
    have "st ?r x = st s x" if x: "x \<in> set (lists s FreeTask)" for x
    proof -
      have nr: "\<not> has (st s x) (flag READY)" using free_okD(3) [OF d(2) x] by simp
      have "x \<noteq> ?n"
        using nr top_task_ready(1) [OF ok] top_task_idle(1) [OF ok] idle_not_waiting [OF d(1) x]
        by (cases "g_queueBitmap s = 0") auto
      then show ?thesis using R(10) by simp
    qed
    then show ?thesis using d(2) by (simp add: free_ok_def f R(8,9))
  qed
  moreover have tm: "timers ?s' = timers s"
  proof -
    have "timers ?s4 = timers ?r" by (simp add: timers_def OsTickSysTimerStartTimeSet_def)
    then show "timers ?s' = timers s" using R(7) by simp
  qed
  moreover have "swtmr_inv p ?s' = swtmr_inv p s" by (rule swtmr_inv_timers [OF tm])
  moreover have "clock_ok ?s'"
  proof -
    have "intActive ?s' = intActive s" using u R(12) unfolding unmoved_def by simp
    then show ?thesis using d(8) timersD(3) [OF tm] by (simp add: clock_ok_def)
  qed
  moreover have "priority (tcb ?s' (runTask ?s')) \<le> priority (tcb s x) \<and> \<not> is_idle ?s' (runTask ?s')"
    if "has (st s x) (flag READY)" "\<not> is_idle s x" for x
    using top_task_highest [OF ok that] top_task_ready(2) [OF ok ready_in_bitmap(1) [OF ok that]]
    by (simp add: f R(2,4,9,11) is_idle_def)
  moreover have "has (st ?s' (runTask ?s')) (flag RUNNING)" by (simp add: f R(2,3))
  moreover have "LOS_Start (p, s) = Some (p, ?s')" by (rule Start_eq [OF d(5)])
  ultimately show ?thesis using f(2,9) by blast
qed

end
