(* ===== verification/Los_HeapRoom.thy ===== *)
theory Los_HeapRoom
  imports Los_HeapLive Los_Kernel
begin

text \<open>
  How much a heap still grants for sure: a free node of at least so many bytes. Every request takes
  at most its size with the header, the padding and the least node from it, so a start-up that takes a
  known amount succeeds.
\<close>

section \<open>The largest free node\<close>

definition room :: "u32 \<Rightarrow> u32 \<Rightarrow> hmem \<Rightarrow> live \<Rightarrow> nat \<Rightarrow> bool" where
  "room p sz m L n \<longleftrightarrow> (\<exists>bs own k v. heap_ok p sz m bs \<and> owns (used_nodes bs) m L own
     \<and> (k, v) \<in> free_nodes bs \<and> n \<le> unat v)"

lemma room_live: "room p sz m L n \<Longrightarrow> live_ok p sz m L"
  unfolding room_def live_ok_def by blast

lemma takes_room:
  assumes pl: "\<And>w. (a, w) \<in> free_nodes bs \<Longrightarrow> plain w" and t: "takes s a bs bs'" and k: "(k, v) \<in> free_nodes bs" and v: "unat s + 16 \<le> unat v"
  shows "\<exists>k' v'. (k', v') \<in> free_nodes bs' \<and> unat v - unat s \<le> unat v'"
proof -
  from t obtain us w vs where T: "bs = us @ (a, w) # vs" "(a, w) \<in> free_nodes bs"
    "bs' = us @ (if unat s + 16 \<le> unat w
                   then [(a, OS_MEM_NODE_SET_USED_FLAG s), (a + s, w - s)]
                   else [(a, OS_MEM_NODE_SET_USED_FLAG w)]) @ vs" unfolding takes_def by blast
  show ?thesis
  proof (cases "(k, v) = (a, w)")
    case False
    then have "(k, v) \<in> free_nodes bs'" using k T(1,3) by (auto simp: free_nodes_def)
    then show ?thesis by (intro exI [of _ k] exI [of _ v]) simp
  next
    case True
    then have d: "unat (w - s) = unat w - unat s" using v by (simp add: unat_sub word_le_nat_alt)
    have "plain (w - s)" using pl [OF T(2)] d by (simp add: plain_def)
    then have "\<not> bit (w - s) 31" by (simp add: plain_not_bit)
    then have "(a + s, w - s) \<in> free_nodes bs'" using T(3) v True by (simp add: free_nodes_def)
    then show ?thesis using d True by (intro exI [of _ "a + s"] exI [of _ "w - s"]) simp
  qed
qed

text \<open>A request that fits is granted, and leaves the rest.\<close>

lemma room_alloc:
  assumes rm: "room p sz m L n" and r: "r \<noteq> 0" "unat r < 2 ^ 30" and n: "unat (max_req r) + 28 \<le> n"
  shows "\<exists>b m'. LOS_MemAlloc p r m = Some (b, m') \<and> b \<noteq> 0 \<and> L b = None
    \<and> room p sz m' (L(b \<mapsto> (r, False))) (n - (unat (max_req r) + 12))"
proof -
  from rm obtain bs own k v where H: "heap_ok p sz m bs" and o: "owns (used_nodes bs) m L own"
    and k: "(k, v) \<in> free_nodes bs" and v: "n \<le> unat v" unfolding room_def by blast
  note M = max_req(1,2) [of r] max_req(3) [OF r(2)] and R = heap_okD(1) [OF H]
  note S = alloc_size [OF M(1,3)]
  from MemAlloc [OF H M(1,3)] have "\<exists>a bs' m'. OsMemAlloc p (max_req r) m = Some (a + 8, m')
      \<and> takes (alloc_size (max_req r)) a bs bs' \<and> heap_ok p sz m' bs' \<and> keeps p sz (used_nodes bs) m m'"
  proof (elim disjE conjE)
    assume "\<forall>(x, w)\<in>free_nodes bs. unat w < unat (alloc_size (max_req r))"
    then have "unat v < unat (alloc_size (max_req r))" using k by blast
    then show ?thesis using S(5) v n by linarith
  qed blast
  then obtain a bs' m' where A: "OsMemAlloc p (max_req r) m = Some (a + 8, m')"
    "takes (alloc_size (max_req r)) a bs bs'" "heap_ok p sz m' bs'" "keeps p sz (used_nodes bs) m m'" by blast
  have ps: "plain (alloc_size (max_req r))" and fp: "\<And>w. (a, w) \<in> free_nodes bs \<Longrightarrow> plain w"
    using A(2) repD(6) [OF R] unfolding takes_def plain_def by fastforce+
  from takes_used [OF A(2) ps fp rep_distinct [OF R]] obtain w where W:
    "used_nodes bs' = insert (a, w) (used_nodes bs)" "bit w 31" "\<not> bit w 30"
    "unat (alloc_size (max_req r)) \<le> unat (SZ w)" "\<forall>v. (a, v) \<notin> used_nodes bs" by blast
  have u: "unat (a + 8) = unat a + 8"
    by (rule pool_ptr(1) [OF heap_okD(1) [OF A(3)], of a w]) (use W(1) in \<open>auto simp: used_nodes_def\<close>)
  have b: "block_at m' (a + 8) a w" using W(2,3) by (simp add: block_at_def)
  have f: "unat (a + 8) + unat r \<le> unat a + unat (SZ w)" using u S(4) W(4) M(2) by linarith
  note K = owns_keeps [OF H o subset_refl A(4)]
  from owns_add [where al = False, OF A(3) W(1) _ K(1) b f] W(3,5)
  have O: "L (a + 8) = None" "owns (used_nodes bs') m' (L(a + 8 \<mapsto> (r, False))) (own(a + 8 := (a, w)))" by simp_all
  have "unat (alloc_size (max_req r)) + 16 \<le> unat v" using S(5) v n by linarith
  from takes_room [OF fp A(2) k this] obtain k' v' where "(k', v') \<in> free_nodes bs'"
    "unat v - unat (alloc_size (max_req r)) \<le> unat v'" by blast
  moreover from this(2) have "n - (unat (max_req r) + 12) \<le> unat v'" using S(5) v by linarith
  ultimately have "room p sz m' (L(a + 8 \<mapsto> (r, False))) (n - (unat (max_req r) + 12))"
    unfolding room_def using A(3) O(2) by blast
  moreover have "a + 8 \<noteq> 0" using u by (metis add_is_0 unsigned_0 zero_neq_numeral)
  ultimately show ?thesis using A(1) O(1) LOS_MemAlloc_call [OF H r] by metis
qed

lemma room_align:
  assumes rm: "room p sz m L n" and g: "align_request_ok p r b" and n: "unat (max_req r + b - 4) + 28 \<le> n"
  shows "\<exists>q m'. LOS_MemAllocAlign p r b m = Some (q, m') \<and> q \<noteq> 0 \<and> L q = None
    \<and> room p sz m' (L(q \<mapsto> (r, True))) (n - (unat (max_req r + b - 4) + 12))"
proof -
  let ?u = "max_req r + b - 4"
  from rm obtain bs own k v where H: "heap_ok p sz m bs" and o: "owns (used_nodes bs) m L own"
    and k: "(k, v) \<in> free_nodes bs" and v: "n \<le> unat v" unfolding room_def by blast
  note R = heap_okD(1) [OF H]
  have g': "b \<noteq> 0" "OS_MEM_IS_ALIGNED b 4" "\<not> b - 4 > 0xFFFFFFFF - max_req r" "plain ?u" and r: "r \<noteq> 0"
    using g plain_flags unfolding align_request_ok_def by blast+
  note rq = align_request [OF g'] note S = alloc_size [OF rq(4,5)]
  from MemAllocAlign_total [OF H, of r b] obtain q m' where Q: "LOS_MemAllocAlign p r b m = Some (q, m')"
    "q = 0 \<longrightarrow> OsMemAlloc p ?u m = Some (0, m)" using g by blast
  have q0: "q \<noteq> 0"
  proof
    assume "q = 0"
    with Q have z: "OsMemAlloc p ?u m = Some (0, m)" by blast
    from MemAlloc [OF H rq(4,5)] show False
    proof (elim disjE exE conjE)
      assume "\<forall>(x, w)\<in>free_nodes bs. unat w < unat (alloc_size ?u)"
      then have "unat v < unat (alloc_size ?u)" using k by blast
      then show False using S(5) v n by linarith
    next
      fix a bs' m' assume A: "OsMemAlloc p ?u m = Some (a + 8, m')" "takes (alloc_size ?u) a bs bs'"
      then have "(a, w) \<in> set bs \<Longrightarrow> unat (a + 8) = unat a + 8" for w using pool_ptr(1) [OF R] by blast
      moreover have "\<exists>w. (a, w) \<in> set bs" using A(2) unfolding takes_def by auto
      ultimately have "a + 8 \<noteq> 0" by (metis add_is_0 unsigned_0 zero_neq_numeral)
      then show False using A(1) z by simp
    qed
  qed
  from MemAllocAlign [OF H r Q(1) q0] obtain a w bs' bs1 where A: "heap_ok p sz m' bs'"
    "used_nodes bs' = insert (a, w) (used_nodes bs)" "block_at m' q a w" "\<forall>v. (a, v) \<notin> used_nodes bs"
    "unat q + unat r \<le> unat a + unat (SZ w)" "keeps p sz (used_nodes bs) m m'"
    "takes (alloc_size ?u) a bs bs1" "free_nodes bs' = free_nodes bs1" by blast
  note K = owns_keeps [OF H o subset_refl A(6)]
  from owns_add [where al = True, OF A(1,2) _ K(1) A(3,5)] A(4)
  have O: "L q = None" "owns (used_nodes bs') m' (L(q \<mapsto> (r, True))) (own(q := (a, w)))" by simp_all
  have fp: "\<And>w. (a, w) \<in> free_nodes bs \<Longrightarrow> plain w" using repD(6) [OF R] by blast
  have "unat (alloc_size ?u) + 16 \<le> unat v" using S(5) v n by linarith
  from takes_room [OF fp A(7) k this] obtain k' v' where "(k', v') \<in> free_nodes bs'"
    "unat v - unat (alloc_size ?u) \<le> unat v'" unfolding A(8) by blast
  moreover from this(2) have "n - (unat ?u + 12) \<le> unat v'" using S(5) v by linarith
  ultimately have "room p sz m' (L(q \<mapsto> (r, True))) (n - (unat ?u + 12))"
    unfolding room_def using A(1) O(2) by blast
  then show ?thesis using Q(1) q0 O(1) by blast
qed

section \<open>As the start-up calls it\<close>

lemma kernel_room:
  assumes "room p sz m L n" "r \<noteq> 0" "unat r < 2 ^ 30" "unat (max_req r) + 28 \<le> n"
  shows "\<exists>b m'. heap_alloc (kernel_heap p) m r = (b, m') \<and> b \<noteq> 0 \<and> L b = None
    \<and> room p sz m' (L(b \<mapsto> (r, False))) (n - (unat (max_req r) + 12))"
  using room_alloc [OF assms] by (auto simp: kernel_heap_def)

lemma kernel_stack_room:
  assumes "room p sz m L n" "align_request_ok p r b" "unat (max_req r + b - 4) + 28 \<le> n"
  shows "\<exists>q m'. mem_alloc_align (kernel_stacks p) m r b = (q, m') \<and> q \<noteq> 0 \<and> L q = None
    \<and> room p sz m' (L(q \<mapsto> (r, True))) (n - (unat (max_req r + b - 4) + 12))"
  using room_align [OF assms] by (auto simp: kernel_stacks_def)

end
