(* ===== verification/Los_Boot.thy ===== *)
theory Los_Boot
  imports Los_Start Los_HeapRoom Los_QueueHeap
begin

text \<open>
  The initialisation of the kernel as a whole: the heap, the timer, the tables of the components, the
  task of the software timers and the idle task.
\<close>

section \<open>The heap\<close>

lemma MemInit_start:
  assumes "LOS_MemInit p sz h = Some (r, h')"
  shows "m_aucSysMem0 h' = m_aucSysMem0 h"
  using assms by (auto simp: LOS_MemInit_def OsMemPoolAdd_def Let_def split: if_splits option.splits)

lemma heap_boot:
  assumes f: "pool_fits memStart LOSCFG_SYS_HEAP_SIZE" and z: "g_poolHead h = 0"
  shows "\<exists>h'. OsMemSystemInit memStart h = Some (LOS_OK, h') \<and> m_aucSysMem0 h' = memStart
    \<and> room memStart LOSCFG_SYS_HEAP_SIZE (hm h') (\<lambda>_. None) 64584"
proof -
  let ?h = "h\<lparr>m_aucSysMem0 := memStart\<rparr>" and ?sz = LOSCFG_SYS_HEAP_SIZE
  have "heaps_ok ?h []" using z by (simp add: heaps_ok_def)
  from MemInit [OF this f] obtain h' where i: "LOS_MemInit memStart ?sz ?h = Some (LOS_OK, h')"
    "heaps_ok h' ([] @ [(memStart, ?sz, first_node memStart ?sz)])" by auto
  have "heap_ok memStart ?sz (hm h') (first_node memStart ?sz)" using heaps_ok_entry [OF i(2)] by simp
  moreover have "\<not> bit (?sz - 952) 31" by (simp add: LOSCFG_SYS_HEAP_SIZE_def)
  then have "(OS_MEM_FIRST_NODE memStart, ?sz - 952) \<in> free_nodes (first_node memStart ?sz)"
    "used_nodes (first_node memStart ?sz) = {}"
    by (auto simp: free_nodes_def used_nodes_def)
  moreover have "64584 \<le> unat (?sz - 952)" by (simp add: LOSCFG_SYS_HEAP_SIZE_def)
  moreover have "owns {} (hm h') (\<lambda>_. None) (\<lambda>_. undefined)" by (simp add: owns_def)
  ultimately have "room memStart ?sz (hm h') (\<lambda>_. None) 64584" unfolding room_def by metis
  moreover have "m_aucSysMem0 h' = memStart" using MemInit_start [OF i(1)] by simp
  ultimately show ?thesis using i(1) by (simp add: OsMemSystemInit_def Let_def)
qed

section \<open>The tables\<close>

text \<open>The loop of every table: block \<open>i\<close> is set up and appended to the free list.\<close>

lemma table_loop:
  assumes "\<And>i p. cbs (step i p) = (cbs p)(i := f i (cbs p i))" "\<And>i p. free (step i p) = free p @ [i]"
  shows "cbs (fold step [0..<n] p) = (\<lambda>i. if i < n then f i (cbs p i) else cbs p i)"
    "free (fold step [0..<n] p) = free p @ [0..<n]"
  by (induction n) (auto simp: assms fun_eq_iff less_Suc_eq)

lemma SemInit_ok:
  "\<exists>p'. OsSemInit True p = (LOS_OK, p') \<and> (\<forall>s. (\<forall>i. lists s (SemList i) = []) \<longrightarrow> sem_inv p' s)"
proof -
  let ?step = "\<lambda>index p. (upd_sem index (\<lambda>c. c\<lparr>semID := of_nat index, semStat := OS_SEM_UNUSED\<rparr>) p)
      \<lparr>g_unusedSemList := g_unusedSemList p @ [index]\<rparr>"
  let ?p = "fold ?step [0..<6] (p\<lparr>g_unusedSemList := []\<rparr>)"
  have c: "g_allSem (?step i q) = (g_allSem q)(i := (\<lambda>i c. c\<lparr>semID := of_nat i, semStat := OS_SEM_UNUSED\<rparr>) i (g_allSem q i))" "g_unusedSemList (?step i q) = g_unusedSemList q @ [i]" for i q
    by (simp_all add: upd_sem_def)
  note T = table_loop [where cbs = g_allSem and free = g_unusedSemList and step = ?step and n = 6, OF c]
  have t: "g_allSem ?p = (\<lambda>i. if i < 6 then (g_allSem p i)\<lparr>semID := of_nat i, semStat := OS_SEM_UNUSED\<rparr> else g_allSem p i)"
    "g_unusedSemList ?p = [0..<6]"
    using T [of "p\<lparr>g_unusedSemList := []\<rparr>"] by (simp_all cong: if_cong)
  have "OsSemInit True p = (LOS_OK, ?p)" by (simp add: OsSemInit_def Let_def LOSCFG_BASE_IPC_SEM_LIMIT_def)
  moreover have "sem_inv ?p s" if "\<forall>i. lists s (SemList i) = []" for s
    unfolding sem_inv_def semp.pool_ok_def sem_used_def t using that by auto
  ultimately show ?thesis by blast
qed

lemma MuxInit_ok:
  "\<exists>p'. OsMuxInit True p = (LOS_OK, p') \<and> (\<forall>s. (\<forall>i. lists s (MuxList i) = []) \<longrightarrow> mux_inv p' s)"
proof -
  let ?step = "\<lambda>index p. (upd_mux index (\<lambda>c. c\<lparr>muxID := of_nat index, owner := None, muxStat := OS_MUX_UNUSED\<rparr>) p)
      \<lparr>g_unusedMuxList := g_unusedMuxList p @ [index]\<rparr>"
  let ?p = "fold ?step [0..<6] (p\<lparr>g_unusedMuxList := []\<rparr>)"
  have c: "g_allMux (?step i q) = (g_allMux q)(i := (\<lambda>i c. c\<lparr>muxID := of_nat i, owner := None, muxStat := OS_MUX_UNUSED\<rparr>) i (g_allMux q i))" "g_unusedMuxList (?step i q) = g_unusedMuxList q @ [i]" for i q
    by (simp_all add: upd_mux_def)
  note T = table_loop [where cbs = g_allMux and free = g_unusedMuxList and step = ?step and n = 6, OF c]
  have t: "g_allMux ?p = (\<lambda>i. if i < 6 then (g_allMux p i)\<lparr>muxID := of_nat i, owner := None, muxStat := OS_MUX_UNUSED\<rparr>
      else g_allMux p i)" "g_unusedMuxList ?p = [0..<6]"
    using T [of "p\<lparr>g_unusedMuxList := []\<rparr>"] by (simp_all cong: if_cong)
  have "OsMuxInit True p = (LOS_OK, ?p)" by (simp add: OsMuxInit_def Let_def LOSCFG_BASE_IPC_MUX_LIMIT_def)
  moreover have "mux_inv ?p s" if "\<forall>i. lists s (MuxList i) = []" for s
    unfolding mux_inv_def muxp.pool_ok_def mux_used_def t using that by auto
  ultimately show ?thesis by blast
qed

lemma QueueInit_ok:
  "\<exists>p'. OsQueueInit True p = (LOS_OK, p') \<and> quep.pool_ok p' \<and> (\<forall>i<6. queueID (g_allQueue p' i) = of_nat i)
    \<and> (\<forall>i. \<not> queue_used p' i) \<and> g_freeQueueList p' = [0..<6]"
proof -
  let ?step = "\<lambda>index p. (upd_queue index (\<lambda>c. c\<lparr>queueID := of_nat index\<rparr>) p)\<lparr>g_freeQueueList := g_freeQueueList p @ [index]\<rparr>"
  let ?p = "fold ?step [0..<6] (p\<lparr>g_allQueue := (\<lambda>_. zero_queue), g_freeQueueList := []\<rparr>)"
  have c: "g_allQueue (?step i q) = (g_allQueue q)(i := (\<lambda>i c. c\<lparr>queueID := of_nat i\<rparr>) i (g_allQueue q i))" "g_freeQueueList (?step i q) = g_freeQueueList q @ [i]" for i q
    by (simp_all add: upd_queue_def)
  note T = table_loop [where cbs = g_allQueue and free = g_freeQueueList and step = ?step and n = 6, OF c]
  have t: "g_allQueue ?p = (\<lambda>i. if i < 6 then zero_queue\<lparr>queueID := of_nat i\<rparr> else zero_queue)"
    "g_freeQueueList ?p = [0..<6]"
    using T [of "p\<lparr>g_allQueue := (\<lambda>_. zero_queue), g_freeQueueList := []\<rparr>"] by (simp_all cong: if_cong)
  have "OsQueueInit True p = (LOS_OK, ?p)"
    by (simp add: OsQueueInit_def OS_ALL_IPC_QUEUE_LIMIT_def LOSCFG_BASE_IPC_QUEUE_LIMIT_def)
  moreover have "\<not> queue_used ?p i" for i
    unfolding queue_used_def t by (simp add: zero_queue_def OS_QUEUE_UNUSED_def)
  moreover from this have "quep.pool_ok ?p" unfolding quep.pool_ok_def t by auto
  moreover have "\<forall>i<6. queueID (g_allQueue ?p i) = of_nat i" unfolding t by simp
  ultimately show ?thesis using t(2) by (intro exI [of _ ?p]) blast
qed

section \<open>The tasks of the kernel\<close>

text \<open>While the kernel makes its own tasks: the first \<open>n\<close> blocks are taken, nobody sleeps or waits.\<close>

definition setup_ok :: "sched \<Rightarrow> nat \<Rightarrow> bool" where
  "setup_ok s n \<longleftrightarrow> core_ok s \<and> free_ok s \<and> lists s FreeTask = [n..<6] \<and> lists s RecycleTask = []
     \<and> (\<forall>l. wait_list l \<longrightarrow> lists s l = []) \<and> g_taskSortLink s = [] \<and> g_swtmrSortLink s = [] \<and> \<not> g_taskScheduled s
     \<and> (\<forall>t. awake (st s t)) \<and> (\<forall>x. has (st s x) (flag READY) \<longrightarrow> x < n) \<and> (\<forall>x<6. taskID (tcb s x) = of_nat x)
     \<and> g_idleTaskID s = OS_INVALID \<and> clock_ok s"

lemma setup_okD:
  assumes "setup_ok s n"
  shows "core_ok s" "free_ok s" "lists s FreeTask = [n..<6]" "lists s RecycleTask = []" "wait_list l \<Longrightarrow> lists s l = []"
    "g_taskSortLink s = []" "g_swtmrSortLink s = []" "\<not> g_taskScheduled s" "awake (st s t)"
    "has (st s x) (flag READY) \<Longrightarrow> x < n" "x < 6 \<Longrightarrow> taskID (tcb s x) = of_nat x" "g_idleTaskID s = OS_INVALID"
    "only_timers s" "clock_ok s"
  using assms unfolding setup_ok_def only_timers_def by (blast, simp_all)

lemma setup_start:
  assumes "\<And>l. l \<noteq> FreeTask \<Longrightarrow> l \<noteq> RecycleTask \<Longrightarrow> lists s l = []" "\<not> g_taskScheduled s" "g_swtmrSortLink s = []"
    "clock_ok s"
  shows "\<exists>s'. OsTaskInit True s = (LOS_OK, s') \<and> setup_ok s' 0"
proof -
  obtain r s' where e: "OsTaskInit True s = (r, s')" by fastforce
  note S = TaskInit_state [OF assms(1) e] and O = TaskInit_ok [OF assms(1) e]
  have "core_ok s'" using O(1,2) by (simp add: core_ok_def wait_inv_def O(3) S(6))
  moreover have "free_ok s'" by (auto simp: free_ok_def S(2,3) init_tab_def)
  moreover have "awake (st s' t)" "\<not> has (st s' t) (flag READY)" for t by (simp_all add: O(3))
  moreover have "\<forall>x<6. taskID (tcb s' x) = of_nat x" by (simp add: S(3) init_tab_def)
  moreover have "lists s' l = []" if "wait_list l" for l using that by (auto simp: S(2))
  ultimately have "setup_ok s' 0"
    unfolding setup_ok_def using assms(2-4) by (simp add: S(2,5-13) clock_ok_def)
  then show ?thesis using e S(1) by blast
qed

text \<open>One task made by the kernel, on a stack of the heap.\<close>

lemma setup_create:
  assumes su: "setup_ok s n" and n6: "n < 6" and rm: "room p sz m L a"
    and c: "OsTaskInitParamCheck (Some q0) = (LOS_OK, Some prm)" "stackAddr prm = 0"
    and r: "r = LOS_Align (uwStackSize prm) OS_TASK_STACK_ADDR_ALIGN" "align_request_ok p r 8" "unat (max_req r + 8 - 4) + 28 \<le> a"
  shows "\<exists>m' s2 b. LOS_TaskCreateOnly (kernel_stacks p) True (Some q0) (m, s) = (LOS_OK, Some (of_nat n), m', s2)
    \<and> room p sz m' (L(b \<mapsto> (r, True))) (a - (unat (max_req r + 8 - 4) + 12)) \<and> L b = None
    \<and> OsNewTaskInit (kernel_stacks p) n prm (m, ListDelete n s) = (LOS_OK, m', s2) \<and> setup_ok s2 (Suc n) \<and> unlinked s2 n
    \<and> priority (tcb s2 n) = usTaskPrio prm \<and> \<not> has (st s2 n) (flag READY) \<and> timers s2 = timers s \<and> g_swtmrScan s2 = g_swtmrScan s
    \<and> tk s2 = tk s \<and> n \<noteq> runTask s2 \<and> (\<forall>x. x \<noteq> n \<longrightarrow> tcb s2 x = tcb s x)
    \<and> (\<forall>l. not_ready_queue l \<longrightarrow> l \<noteq> FreeTask \<longrightarrow> lists s2 l = lists s l)
    \<and> (\<forall>q. lists s2 (PriQueue q) = lists s (PriQueue q)) \<and> g_swtmrTaskID s2 = g_swtmrTaskID s"
proof -
  note d = setup_okD [OF su]
  have fl: "lists s FreeTask = n # [Suc n..<6]" using d(3) n6 by (simp add: upt_conv_Cons)
  obtain ret m' s2 where e: "OsNewTaskInit (kernel_stacks p) n prm (m, ListDelete n s) = (ret, m', s2)" by (metis prod_cases3)
  note N = NewTaskInit_state [OF e] and W = new_task [OF d(1,2) fl e] and F = new_task_frame [OF e d(13)]
  from kernel_stack_room [OF rm r(2,3)] obtain b m1 where B: "mem_alloc_align (kernel_stacks p) m r 8 = (b, m1)" "b \<noteq> 0"
    "L b = None" "room p sz m1 (L(b \<mapsto> (r, True))) (a - (unat (max_req r + 8 - 4) + 12))" by blast
  have t: "topOfStack (tcb s2 n) = b" "m' = m1"
    using N(9) [OF c(2)] B(1) by (simp_all add: r(1) LOSCFG_STACK_POINT_ALIGN_SIZE_def)
  have ret: "ret = LOS_OK" using N(11) t(1) B(2) by simp
  have o: "LOS_TaskCreateOnly (kernel_stacks p) True (Some q0) (m, s) = (LOS_OK, Some (of_nat n), m', s2)"
    using W(8) by (simp add: CreateOnly_eq [OF d(4) fl c(1)] e ret)
  have nr: "\<not> has (st s2 n) (flag READY)" by (simp add: N(8))
  have aw: "awake (st s2 x)" for x using F(7) d(9) [of x] W(7) [of x] by (cases "x = n") simp_all
  have rd: "x < Suc n" if "has (st s2 x) (flag READY)" for x
    using that nr W(7) [of x] d(10) [of x] by (cases "x = n") simp_all
  have id: "taskID (tcb s2 x) = of_nat x" if "x < 6" for x using that W(8) W(7) [of x] d(11) [of x] by (cases "x = n") simp_all
  have "setup_ok s2 (Suc n)"
    unfolding setup_ok_def using W(1,4,6) d(3-8,12,14) F(1,2,6,8,10,12) aw id rd by (auto simp: clock_ok_def)
  moreover have "n \<noteq> runTask s2" using W(2) F(9) by simp
  ultimately show ?thesis
    using o e ret B(3,4) t(2) W(1,3,7) N(3) nr F(3,4,5,8)
    by (intro exI [of _ m'] exI [of _ s2] exI [of _ b]) simp
qed

lemma EnQueue_scan [simp]: "g_swtmrScan (OsSchedTaskEnQueue t s) = g_swtmrScan s"
  by (simp add: OsSchedTaskEnQueue_def Let_def sched_assert_def OsSchedPriQueueEnHead_def
      OsSchedPriQueueEnTail_def list_op_defs status_defs)

text \<open>The task of the software timers, which is the first, and the idle task, which is the second.\<close>

lemma setup_enqueue:
  assumes su: "setup_ok s (Suc n)" and u: "unlinked s n" "n \<noteq> runTask s" "unat (priority (tcb s n)) < 32" and n6: "n < 6"
  shows "setup_ok (OsSchedTaskEnQueue n s) (Suc n)"
proof -
  note d = setup_okD [OF su]
  let ?e = "OsSchedTaskEnQueue n s"
  have l: "lists ?e m = lists s m" if "not_ready_queue m" for m using that by (auto simp: EnQueue_lists not_ready_queue_def)
  have "free_ok ?e" by (rule EnQueue_free_ok [OF d(2)]) (use u(1) in \<open>simp add: unlinked_def on_list_def\<close>)
  moreover have "core_ok ?e" by (rule core_ok_EnQueue [OF d(1) u(2,1,3)])
  moreover have "awake (st ?e x)" for x using EnQueue_awake [OF d(9)] .
  moreover have "x < Suc n" if "has (st ?e x) (flag READY)" for x
    using that d(10) [of x] by (cases "x = n") (simp_all add: EnQueue_tcb)
  moreover have "taskID (tcb ?e x) = taskID (tcb s x)" for x by (simp add: EnQueue_tcb)
  ultimately show ?thesis using d(3-8,11,12,14) l unfolding setup_ok_def clock_ok_def by simp
qed

lemma stack_request: "p \<noteq> 0 \<Longrightarrow> align_request_ok p 0x400 8" "p \<noteq> 0 \<Longrightarrow> align_request_ok p 0x180 8"
  by (simp_all add: align_request_ok_def max_req_def OS_MEM_MIN_ALLOC_SIZE_def OS_MEM_IS_POW_TWO_def OS_MEM_IS_ALIGNED_def
      OS_MEM_NODE_GET_USED_FLAG_def OS_MEM_NODE_GET_ALIGNED_FLAG_def OS_MEM_NODE_USED_FLAG_def OS_MEM_NODE_ALIGNED_FLAG_def)

lemma setup_system_task:
  assumes su: "setup_ok s n" and t: "t \<notin> set (lists s FreeTask)"
  shows "setup_ok (status_set t (flag SYSTEM_TASK) s\<lparr>g_swtmrTaskID := w\<rparr>) n"
proof -
  note d = setup_okD [OF su]
  define u where "u = status_set t (flag SYSTEM_TASK) s\<lparr>g_swtmrTaskID := w\<rparr>"
  have st: "has (st u x) (flag F) \<longleftrightarrow> has (st s x) (flag F) \<or> F = SYSTEM_TASK \<and> x = t" for x F
    by (auto simp: u_def status_defs)
  have f: "lists u = lists s" "runTask u = runTask s" "g_queueBitmap u = g_queueBitmap s" "g_idleTaskID u = g_idleTaskID s"
    "priority (tcb u x) = priority (tcb s x)" "taskID (tcb u x) = taskID (tcb s x)" "x \<noteq> t \<Longrightarrow> st u x = st s x" for x
    by (simp_all add: u_def status_defs)
  have "wait_inv u = wait_inv s" by (rule wait_inv_cong) (simp_all add: f st)
  moreover have "run_ok u = run_ok s" by (simp add: run_ok_def Let_def f st unlinked_def on_list_def)
  ultimately have "core_ok u" using d(1) by (simp add: core_ok_def f st)
  moreover have "st u x = st s x" if "x \<in> set (lists s FreeTask)" for x
    by (rule f(7)) (use that t in blast)
  then have "free_ok u" using d(2) by (simp add: free_ok_def f)
  moreover have "awake (st u x)" for x using d(9) [of x] by (simp add: st)
  moreover have "g_taskSortLink u = g_taskSortLink s" "g_swtmrSortLink u = g_swtmrSortLink s" "g_taskScheduled u = g_taskScheduled s"
    "clock_ok u = clock_ok s"
    by (simp_all add: u_def status_defs clock_ok_def)
  ultimately show ?thesis unfolding setup_ok_def u_def [symmetric] using d(3-8,10-12,14) f st by simp
qed

lemma swtmr_task_boot:
  assumes su: "setup_ok s 0" and rm: "room p sz m L a" and a: "2000 \<le> a" and p: "p \<noteq> 0"
  shows "\<exists>m' s' b. OsSwtmrTaskCreate (kernel_stacks p) (m, s) = (LOS_OK, m', s')
    \<and> room p sz m' (L(b \<mapsto> (0x400, True))) (a - 1040) \<and> L b = None \<and> setup_ok s' 1 \<and> g_swtmrTaskID s' = 0
    \<and> has (st s' 0) (flag READY) \<and> priority (tcb s' 0) = 0 \<and> timers s' = timers s \<and> g_swtmrScan s' = g_swtmrScan s"
proof -
  let ?prm = "\<lparr>pfnTaskEntry = Some OsSwtmrTask, usTaskPrio = 0, uwArg = 0, stackAddr = 0,
     uwStackSize = LOSCFG_BASE_CORE_TSK_SWTMR_STACK_SIZE, pcName = Some ''Swt_Task'', uwResved = 0\<rparr>"
  have al: "LOS_Align 0x400 8 = 0x400" by (simp add: LOS_Align_def word_less_nat_alt)
  have c: "OsTaskInitParamCheck (Some ?prm) = (LOS_OK, Some ?prm)"
    by (simp add: OsTaskInitParamCheck_def OS_TASK_PRIORITY_LOWEST_def LOSCFG_SYS_HEAP_SIZE_def word_le_nat_alt
        word_less_nat_alt LOSCFG_BASE_CORE_TSK_MIN_STACK_SIZE_def LOS_Align_def
        LOSCFG_BASE_CORE_TSK_SWTMR_STACK_SIZE_def LOSCFG_BASE_CORE_TSK_DEFAULT_STACK_SIZE_def)
  have r: "0x400 = LOS_Align (uwStackSize ?prm) OS_TASK_STACK_ADDR_ALIGN"
    by (simp add: al OS_TASK_STACK_ADDR_ALIGN_def LOSCFG_BASE_CORE_TSK_SWTMR_STACK_SIZE_def LOSCFG_BASE_CORE_TSK_DEFAULT_STACK_SIZE_def)
  have q: "unat (max_req 0x400 + 8 - 4) = 1028" by (simp add: max_req_def OS_MEM_MIN_ALLOC_SIZE_def)
  have b: "unat (max_req 0x400 + 8 - 4) + 28 \<le> a" using a unfolding q by simp
  from setup_create [OF su _ rm c _ r stack_request(1) [OF p] b] obtain m' s2 k where
    C: "LOS_TaskCreateOnly (kernel_stacks p) True (Some ?prm) (m, s) = (LOS_OK, Some 0, m', s2)"
    "room p sz m' (L(k \<mapsto> (0x400, True))) (a - (unat (max_req 0x400 + 8 - 4) + 12))" "L k = None"
    "setup_ok s2 (Suc 0)" "unlinked s2 0" "priority (tcb s2 0) = 0" "timers s2 = timers s" "g_swtmrScan s2 = g_swtmrScan s"
    "tk s2 = tk s" "0 \<noteq> runTask s2"
    by auto
  let ?e = "OsSchedTaskEnQueue 0 s2"
  have e: "setup_ok ?e (Suc 0)" using setup_enqueue [OF C(4,5)] C(6,10) by simp
  let ?s' = "status_set 0 (flag SYSTEM_TASK) ?e\<lparr>g_swtmrTaskID := 0\<rparr>"
  have "lists ?e FreeTask = [Suc 0..<6]" using setup_okD(3) [OF e] .
  then have "setup_ok ?s' (Suc 0)" by (intro setup_system_task [OF e]) simp
  moreover have "has (st ?s' 0) (flag READY)" "priority (tcb ?s' 0) = 0" "timers ?s' = timers s" "g_swtmrScan ?s' = g_swtmrScan s"
    using C(6-8) by (simp_all add: status_defs EnQueue_tcb timers_def)
  moreover have "OsSwtmrTaskCreate (kernel_stacks p) (m, s) = (LOS_OK, m', ?s')"
    using C(1) setup_okD(8) [OF e] by (simp add: OsSwtmrTaskCreate_def Let_def LOS_TaskCreate_def OS_TCB_FROM_TID_def status_defs upd_tcb_def)
  ultimately show ?thesis using C(2,3) unfolding q by (intro exI [of _ m'] exI [of _ ?s'] exI [of _ k]) simp
qed

section \<open>The software timers\<close>

definition init_timers :: "swtmr_state \<Rightarrow> swtmr_state" where
  "init_timers p = fold (\<lambda>index p. upd_swtmr (index - 1) (\<lambda>c. c\<lparr>pstNext := Some index\<rparr>)
       (upd_swtmr index (\<lambda>c. c\<lparr>usTimerID := of_nat index\<rparr>) p))
     [1..<unat LOSCFG_BASE_CORE_SWTMR_LIMIT] (p\<lparr>g_swtmrCBArray := (\<lambda>_. zero_swtmr), g_swtmrFreeList := Some 0\<rparr>)"

lemma init_timers_state:
  "g_swtmrFreeList (init_timers p) = Some 0"
  "i < 5 \<Longrightarrow> blk_of (init_timers p) i = zero_swtmr\<lparr>usTimerID := of_nat i, pstNext := (if i < 4 then Some (Suc i) else None)\<rparr>"
  "5 \<le> i \<Longrightarrow> blk_of (init_timers p) i = zero_swtmr"
proof -
  have u: "[1..<unat LOSCFG_BASE_CORE_SWTMR_LIMIT] = [1, 2, 3, 4]"
    by (simp add: LOSCFG_BASE_CORE_SWTMR_LIMIT_def upt_rec)
  have e: "init_timers p = p\<lparr>g_swtmrFreeList := Some 0, g_swtmrCBArray := (\<lambda>_. zero_swtmr)
     (0 := zero_swtmr\<lparr>pstNext := Some 1\<rparr>, 1 := zero_swtmr\<lparr>usTimerID := 1, pstNext := Some 2\<rparr>,
      2 := zero_swtmr\<lparr>usTimerID := 2, pstNext := Some 3\<rparr>, 4 := zero_swtmr\<lparr>usTimerID := 4\<rparr>,
      3 := zero_swtmr\<lparr>usTimerID := 3, pstNext := Some 4\<rparr>)\<rparr>"
    unfolding init_timers_def u by (simp add: upd_swtmr_def)
  show "g_swtmrFreeList (init_timers p) = Some 0" by (simp add: e)
  show "5 \<le> i \<Longrightarrow> blk_of (init_timers p) i = zero_swtmr" by (auto simp: e)
  assume "i < 5"
  then have "i = 0 \<or> i = 1 \<or> i = 2 \<or> i = 3 \<or> i = 4" by linarith
  then show "blk_of (init_timers p) i = zero_swtmr\<lparr>usTimerID := of_nat i, pstNext := (if i < 4 then Some (Suc i) else None)\<rparr>"
    by (auto simp: e zero_swtmr_def)
qed

lemma init_timers_inv:
  assumes "g_swtmrSortLink s = []" and p: "blk_of q = blk_of (init_timers p)" "g_swtmrFreeList q = Some 0"
  shows "swtmr_inv q s"
proof -
  have st: "\<not> swtmr_used q i" for i
    using init_timers_state(2,3) [of i p] by (cases "i < 5") (simp_all add: swtmr_used_def p OS_SWTMR_STATUS_UNUSED_def zero_swtmr_def)
  have nx: "pstNext (blk_of q i) = (if i < 4 then Some (Suc i) else None)" if "i < 5" for i
    using init_timers_state(2) [OF that, of p] by (simp add: p)
  have c: "free_chain q (Some 0) [0, 1, 2, 3, 4]" by (simp add: nx)
  have f: "swtmr_free q = [0, 1, 2, 3, 4]"
    using walk_free_chain [OF c, of 5] by (simp add: swtmr_free_def p(2))
  have "chain_ok q" unfolding chain_ok_def p(2) using c st by (intro exI [of _ "[0, 1, 2, 3, 4]"]) simp
  moreover have "swp.pool_ok q" using st by (auto simp: swp.pool_ok_def f)
  moreover have "link_ok s" using assms(1) by (simp add: link_ok_def only_timers_def)
  moreover have "block_ok i (blk_of q i)" if "i < 5" for i
  proof -
    have "usTimerID (blk_of q i) = of_nat i" "ucState (blk_of q i) = OS_SWTMR_STATUS_UNUSED"
      using init_timers_state(2) [OF that, of p] by (simp_all add: p zero_swtmr_def OS_SWTMR_STATUS_UNUSED_def)
    moreover have "i = 0 \<or> i = 1 \<or> i = 2 \<or> i = 3 \<or> i = 4" using that by linarith
    ultimately show ?thesis
      by (auto simp: block_ok_def OS_SWTMR_MAX_TIMERID_def OS_SWT_FROM_SID_def LOSCFG_BASE_CORE_SWTMR_LIMIT_def)
  qed
  moreover have "running_ok i (timer_view q s i)" for i using assms(1) by (simp add: running_ok_def)
  ultimately show ?thesis by (simp add: swtmr_inv_def)
qed

text \<open>The queue the expired timers are posted to, on a heap with room for it.\<close>

lemma handler_queue:
  assumes rm: "room p sz m L a" and a: "200 \<le> a" and q: "quep.pool_ok q" "\<And>i. \<not> queue_used q i" "g_freeQueueList q = [0..<6]"
    "\<forall>i<6. queueID (g_allQueue q i) = of_nat i"
  shows "\<exists>q' m' b. LOS_QueueCreate (kernel_heap p) None OS_SWTMR_HANDLE_QUEUE_SIZE True 0 (ucast sizeof_SwtmrHandlerItem) (q, m, s)
      = (LOS_OK, Some 0, q', m', upd_list (QueueMem 0) (\<lambda>_. []) (upd_list (QueueWrite 0) (\<lambda>_. []) (upd_list (QueueRead 0) (\<lambda>_. []) s)))
    \<and> room p sz m' (L(b \<mapsto> (80, False))) (a - 92) \<and> L b = None \<and> quep.pool_ok q'
    \<and> (\<forall>i. queue_used q' i \<longleftrightarrow> i = 0) \<and> queue (g_allQueue q' 0) = b \<and> ring_bytes (g_allQueue q' 0) = 80"
proof -
  have r: "unat (max_req 80) = 80" by (simp add: max_req_def OS_MEM_MIN_ALLOC_SIZE_def)
  have ra: "unat (max_req 80) + 28 \<le> a" using a unfolding r by simp
  from kernel_room [OF rm _ _ ra] obtain b m' where b: "heap_alloc (kernel_heap p) m 80 = (b, m')" "b \<noteq> 0" "L b = None"
    "room p sz m' (L(b \<mapsto> (80, False))) (a - (unat (max_req 80) + 12))" by auto
  have fl: "g_freeQueueList q = 0 # [1..<6]" using q(3) by (simp add: upt_conv_Cons)
  define q' where "q' = upd_queue 0 (\<lambda>c. c\<lparr>queueName := None, queueLen := 5, queueSize := 16, queue := b,
      queueState := OS_QUEUE_INUSED, readWriteableCnt := (readWriteableCnt c)(OS_QUEUE_READ := 0, OS_QUEUE_WRITE := 5),
      queueHead := 0, queueTail := 0\<rparr>) (q\<lparr>g_freeQueueList := [1..<6]\<rparr>)"
  have id: "queueID (g_allQueue q 0) = 0" using q(4) by simp
  have e: "LOS_QueueCreate (kernel_heap p) None OS_SWTMR_HANDLE_QUEUE_SIZE True 0 (ucast sizeof_SwtmrHandlerItem) (q, m, s)
      = (LOS_OK, Some 0, q', m', upd_list (QueueMem 0) (\<lambda>_. []) (upd_list (QueueWrite 0) (\<lambda>_. []) (upd_list (QueueRead 0) (\<lambda>_. []) s)))"
    using b(1,2) fl id
    by (simp add: LOS_QueueCreate_def OsQueueCreate_def OS_SWTMR_HANDLE_QUEUE_SIZE_def LOSCFG_BASE_CORE_SWTMR_LIMIT_def
        sizeof_SwtmrHandlerItem_def OS_NULL_SHORT_def Let_def q'_def upd_queue_def word_less_nat_alt unat_div)
  have u: "queue_used q' i \<longleftrightarrow> i = 0" for i
    using q(2) [of i] by (simp add: queue_used_def q'_def upd_queue_def OS_QUEUE_UNUSED_def OS_QUEUE_INUSED_def)
  have "g_freeQueueList q' = [1..<6]" by (simp add: q'_def upd_queue_def)
  then have "quep.pool_ok q'" unfolding quep.pool_ok_def u by auto
  moreover have "queue (g_allQueue q' 0) = b" "ring_bytes (g_allQueue q' 0) = 80"
    by (simp_all add: q'_def upd_queue_def ring_bytes_def)
  ultimately show ?thesis using e b(3,4) u unfolding r by (intro exI [of _ q'] exI [of _ m'] exI [of _ b]) simp
qed

lemma upd_list_empty: "lists s l = [] \<Longrightarrow> upd_list l (\<lambda>_. []) s = s"
  by (simp add: upd_list_def fun_upd_idem)

lemma SwtmrInit_boot:
  assumes su: "setup_ok s 0" and rm: "room p sz m K a" and a: "4000 \<le> a" and p: "p \<noteq> 0"
    and q: "quep.pool_ok q" "\<And>i. \<not> queue_used q i" "g_freeQueueList q = [0..<6]" "\<forall>i<6. queueID (g_allQueue q i) = of_nat i"
  shows "\<exists>w' q' m' s' L. OsSwtmrInit (kernel_stacks p) (kernel_heap p) (w, q, m, s) = (LOS_OK, w', q', m', s')
    \<and> room p sz m' L (a - 1384) \<and> rings_held q' L \<and> quep.pool_ok q' \<and> setup_ok s' 1 \<and> swtmr_inv w' s'
    \<and> g_swtmrTaskID s' = 0 \<and> has (st s' 0) (flag READY) \<and> priority (tcb s' 0) = 0 \<and> g_swtmrScan s'"
proof -
  note d = setup_okD [OF su]
  have r: "unat (max_req 240) = 240" by (simp add: max_req_def OS_MEM_MIN_ALLOC_SIZE_def)
  have ra: "unat (max_req 240) + 28 \<le> a" using a unfolding r by simp
  from kernel_room [OF rm _ _ ra] obtain b0 m1 where b0: "heap_alloc (kernel_heap p) m 240 = (b0, m1)" "b0 \<noteq> 0"
    "room p sz m1 (K(b0 \<mapsto> (240, False))) (a - (unat (max_req 240) + 12))" by auto
  have a1: "200 \<le> a - (unat (max_req 240) + 12)" using a unfolding r by simp
  from handler_queue [OF b0(3) a1 q, of s] obtain q' m2 b1 where
    Q: "LOS_QueueCreate (kernel_heap p) None OS_SWTMR_HANDLE_QUEUE_SIZE True 0 (ucast sizeof_SwtmrHandlerItem) (q, m1, s)
      = (LOS_OK, Some 0, q', m2, upd_list (QueueMem 0) (\<lambda>_. []) (upd_list (QueueWrite 0) (\<lambda>_. []) (upd_list (QueueRead 0) (\<lambda>_. []) s)))"
    "room p sz m2 (K(b0 \<mapsto> (240, False), b1 \<mapsto> (80, False))) (a - (unat (max_req 240) + 12) - 92)"
    "quep.pool_ok q'" "\<forall>i. queue_used q' i \<longleftrightarrow> i = 0" "queue (g_allQueue q' 0) = b1" "ring_bytes (g_allQueue q' 0) = 80"
    by blast
  have s: "upd_list (QueueMem 0) (\<lambda>_. []) (upd_list (QueueWrite 0) (\<lambda>_. []) (upd_list (QueueRead 0) (\<lambda>_. []) s)) = s"
    using d(5) by (simp add: upd_list_empty)
  let ?L2 = "K(b0 \<mapsto> (240, False), b1 \<mapsto> (80, False))" and ?a2 = "a - (unat (max_req 240) + 12) - 92"
  have a2: "2000 \<le> ?a2" using a unfolding r by simp
  from swtmr_task_boot [OF su Q(2) a2 p] obtain m3 s3 b2 where
    T: "OsSwtmrTaskCreate (kernel_stacks p) (m2, s) = (LOS_OK, m3, s3)" "room p sz m3 (?L2(b2 \<mapsto> (0x400, True))) (?a2 - 1040)"
    "?L2 b2 = None" "setup_ok s3 1" "g_swtmrTaskID s3 = 0" "has (st s3 0) (flag READY)" "priority (tcb s3 0) = 0" by blast
  let ?s' = "s3\<lparr>g_swtmrSortLink := [], g_swtmrScan := True\<rparr>" and ?w = "init_timers w\<lparr>g_swtmrHandlerQueue := 0\<rparr>"
  have "setup_ok ?s' 1"
  proof -
    have "core_ok ?s' = core_ok s3"
      using wait_inv_cong [of ?s' s3] by (simp add: core_ok_def run_ok_def Let_def unlinked_def on_list_def)
    then show ?thesis using T(4) by (simp add: setup_ok_def free_ok_def clock_ok_def)
  qed
  moreover have "swtmr_inv ?w ?s'" by (rule init_timers_inv [of _ _ w]) (simp_all add: init_timers_state(1))
  moreover have "rings_held q' (?L2(b2 \<mapsto> (0x400, True)))"
  proof -
    have "b1 \<noteq> b2" using T(3) by auto
    then show ?thesis using Q(4-6) by (simp add: rings_held_def)
  qed
  moreover have "OsSwtmrInit (kernel_stacks p) (kernel_heap p) (w, q, m, s) = (LOS_OK, ?w, q', m3, ?s')"
  proof -
    have sz: "sizeof_SWTMR_CTRL_S * LOSCFG_BASE_CORE_SWTMR_LIMIT = 240"
      by (simp add: sizeof_SWTMR_CTRL_S_def LOSCFG_BASE_CORE_SWTMR_LIMIT_def)
    show ?thesis
      unfolding OsSwtmrInit_def sz
      by (simp add: b0(1,2) Q(1) s T(1) Let_def OsSortLinkInit_def set_link_def OsSchedSwtmrScanRegister_def init_timers_def)
  qed
  moreover have "room p sz m3 (?L2(b2 \<mapsto> (0x400, True))) (a - 1384)" using T(2) unfolding r by simp
  ultimately show ?thesis using Q(3) T(5-7)
    by (intro exI [of _ ?w] exI [of _ q'] exI [of _ m3] exI [of _ ?s'] exI [of _ "?L2(b2 \<mapsto> (0x400, True))"]) simp
qed

section \<open>The idle task\<close>

lemma sched_ok_set_idle:
  assumes ok: "sched_ok s" and r: "\<And>x. has (st s x) (flag READY) \<Longrightarrow> taskID (tcb s x) \<noteq> g_idleTaskID s \<and> taskID (tcb s x) \<noteq> w"
  shows "sched_ok (s\<lparr>g_idleTaskID := w\<rparr>)"
proof -
  have "ready_ok s" using ok by (simp add: sched_ok_def)
  then have "ready_ok (s\<lparr>g_idleTaskID := w\<rparr>)" using r unfolding ready_ok_def on_list_def is_idle_def by simp blast
  then show ?thesis using ok by (simp add: sched_ok_def lists_ok_def on_list_def bitmap_ok_def pend_ok_def)
qed

lemma idle_task_boot:
  assumes su: "setup_ok s 1" and rm: "room p sz m L a" and a: "1000 \<le> a" and p: "p \<noteq> 0"
  shows "\<exists>m' s' b. OsIdleTaskCreate (kernel_stacks p) (m, s) = (LOS_OK, m', s')
    \<and> room p sz m' (L(b \<mapsto> (0x180, True))) (a - 400) \<and> L b = None \<and> boot_ok s' \<and> g_idleTaskID s' = 1
    \<and> lists s' FreeTask = [2..<6] \<and> (\<forall>l. wait_list l \<longrightarrow> lists s' l = []) \<and> tcb s' 0 = tcb s 0
    \<and> g_swtmrTaskID s' = g_swtmrTaskID s \<and> timers s' = timers s \<and> g_swtmrScan s' = g_swtmrScan s"
proof -
  let ?prm = "\<lparr>pfnTaskEntry = Some OsIdleTask, usTaskPrio = OS_TASK_PRIORITY_LOWEST, uwArg = 0, stackAddr = 0,
     uwStackSize = LOSCFG_BASE_CORE_TSK_IDLE_STACK_SIZE, pcName = Some ''IdleCore000'', uwResved = 0\<rparr>"
  have al: "LOS_Align 0x180 8 = 0x180" by (simp add: LOS_Align_def word_less_nat_alt)
  have c: "OsTaskInitParamCheck (Some ?prm) = (LOS_OK, Some ?prm)"
    by (simp add: OsTaskInitParamCheck_def OS_TASK_PRIORITY_LOWEST_def LOSCFG_SYS_HEAP_SIZE_def word_le_nat_alt
        word_less_nat_alt LOSCFG_BASE_CORE_TSK_MIN_STACK_SIZE_def LOS_Align_def LOSCFG_BASE_CORE_TSK_IDLE_STACK_SIZE_def)
  have r: "0x180 = LOS_Align (uwStackSize ?prm) OS_TASK_STACK_ADDR_ALIGN"
    by (simp add: al OS_TASK_STACK_ADDR_ALIGN_def LOSCFG_BASE_CORE_TSK_IDLE_STACK_SIZE_def)
  have q: "unat (max_req 0x180 + 8 - 4) = 388" by (simp add: max_req_def OS_MEM_MIN_ALLOC_SIZE_def)
  have b: "unat (max_req 0x180 + 8 - 4) + 28 \<le> a" using a unfolding q by simp
  from setup_create [OF su _ rm c _ r stack_request(2) [OF p] b] obtain m' s2 k where
    C: "LOS_TaskCreateOnly (kernel_stacks p) True (Some ?prm) (m, s) = (LOS_OK, Some 1, m', s2)"
    "room p sz m' (L(k \<mapsto> (0x180, True))) (a - (unat (max_req 0x180 + 8 - 4) + 12))" "L k = None"
    "setup_ok s2 2" "unlinked s2 1" "priority (tcb s2 1) = OS_TASK_PRIORITY_LOWEST" "\<not> has (st s2 1) (flag READY)"
    "timers s2 = timers s" "g_swtmrScan s2 = g_swtmrScan s" "1 \<noteq> runTask s2" "\<forall>x. x \<noteq> 1 \<longrightarrow> tcb s2 x = tcb s x"
    "g_swtmrTaskID s2 = g_swtmrTaskID s"
    by (auto simp: numeral_2_eq_2)
  note d = setup_okD [OF C(4)]
  define u where "u = s2\<lparr>g_idleTaskID := 1\<rparr>"
  have f: "lists u = lists s2" "g_taskCBArray u = g_taskCBArray s2" "runTask u = runTask s2" "g_idleTaskID u = 1"
    "timers u = timers s2" "g_swtmrScan u = g_swtmrScan s2" "g_swtmrTaskID u = g_swtmrTaskID s2" "g_taskScheduled u = g_taskScheduled s2"
    "g_taskSortLink u = g_taskSortLink s2" "g_swtmrSortLink u = g_swtmrSortLink s2"
    "clock_ok u = clock_ok s2"
    by (simp_all add: u_def timers_def clock_ok_def)
  have id1: "taskID (tcb s2 1) = 1" using d(11) [of 1] by simp
  have w2: "sched_ok s2" using d(1) by (simp add: core_ok_def wait_inv_def)
  have rd: "x = 0" if "has (st s2 x) (flag READY)" for x using d(10) [OF that] C(7) that by (cases "x = 1") auto
  have "sched_ok u" unfolding u_def
  proof (rule sched_ok_set_idle [OF w2])
    show "taskID (tcb s2 x) \<noteq> g_idleTaskID s2 \<and> taskID (tcb s2 x) \<noteq> 1" if "has (st s2 x) (flag READY)" for x
      using rd [OF that] d(11) [of 0] d(12) by (simp add: OS_INVALID_def)
  qed
  then have cu: "core_ok u"
    using d(1) by (simp add: core_ok_def wait_inv_def run_ok_def Let_def f unlinked_def on_list_def)
  have un: "unlinked u 1" using C(5) by (simp add: unlinked_def on_list_def f)
  have pr: "unat (priority (tcb u 1)) < 32" using C(6) by (simp add: f OS_TASK_PRIORITY_LOWEST_def)
  have ii: "is_idle u 1" using id1 by (simp add: is_idle_def f)
  let ?e = "OsSchedTaskEnQueue 1 u"
  have "lists ?e = lists s2" using ii by (simp add: EnQueue_lists f)
  then have L: "lists (OsSchedTaskEnQueue (Suc 0) u) = lists s2" by simp
  have "core_ok ?e" by (rule core_ok_EnQueue [OF cu _ un pr]) (use C(10) in \<open>simp add: f\<close>)
  moreover have "idle_ok ?e"
  proof -
    have "unlinked ?e 1" using un ii by (simp add: unlinked_EnQueue)
    then show ?thesis using pr id1 by (simp add: idle_ok_def Let_def is_idle_def f EnQueue_tcb OS_TCB_FROM_TID_def)
  qed
  moreover have "free_ok ?e"
  proof (rule EnQueue_free_ok)
    show "free_ok u" using d(2) by (simp add: free_ok_def f)
    show "1 \<notin> set (lists u FreeTask)" using un by (simp add: unlinked_def on_list_def)
  qed
  moreover have "awake (st ?e x)" for x by (rule EnQueue_awake, unfold f(2), rule d(9))
  moreover have "clock_ok ?e" using d(14) f(11) by (simp add: clock_ok_def)
  ultimately have "boot_ok ?e" using d(4,6-8) by (simp add: boot_ok_def kern_core L f)
  moreover have "OsIdleTaskCreate (kernel_stacks p) (m, s) = (LOS_OK, m', ?e)"
    using C(1) by (simp add: OsIdleTaskCreate_def Let_def OsSchedSetIdleTaskSchedParam_def OS_TCB_FROM_TID_def u_def)
  moreover have "tcb ?e 0 = tcb s 0" using C(11) by (simp add: EnQueue_tcb f)
  ultimately show ?thesis using C(2,3,8,9,12) d(3,5) f L unfolding q
    by (intro exI [of _ m'] exI [of _ ?e] exI [of _ k]) simp
qed

section \<open>The kernel\<close>

definition heap_at :: "kernel \<Rightarrow> u32 \<Rightarrow> live \<Rightarrow> nat \<Rightarrow> bool" where
  "heap_at k p L a \<longleftrightarrow> m_aucSysMem0 (kheap k) = p \<and> room p LOSCFG_SYS_HEAP_SIZE (hm (kheap k)) L a"

lemma block_step:
  assumes "heap_at k p L a" "r \<noteq> 0" "unat r < 2 ^ 30" "max_req r = r" "unat r + 28 \<le> a"
  shows "\<exists>k' L'. (\<forall>f. with_block r f k = f True k') \<and> heap_at k' p L' (a - (unat r + 12)) \<and> kswtmr k' = kswtmr k
    \<and> kqueue k' = kqueue k \<and> ksem k' = ksem k \<and> kmux k' = kmux k \<and> ksched k' = ksched k"
proof -
  have h: "m_aucSysMem0 (kheap k) = p" "room p LOSCFG_SYS_HEAP_SIZE (hm (kheap k)) L a"
    using assms(1) by (simp_all add: heap_at_def)
  have n: "unat (max_req r) + 28 \<le> a" using assms(4,5) by simp
  from kernel_room [OF h(2) assms(2,3) n] obtain b m' where
    "heap_alloc (kernel_heap p) (hm (kheap k)) r = (b, m')" "b \<noteq> 0"
    "room p LOSCFG_SYS_HEAP_SIZE m' (L(b \<mapsto> (r, False))) (a - (unat r + 12))" unfolding assms(4) by blast
  then show ?thesis using h(1)
    by (intro exI [of _ "k\<lparr>kheap := (kheap k)\<lparr>hm := m'\<rparr>\<rparr>"] exI [of _ "L(b \<mapsto> (r, False))"])
      (simp add: with_block_def heap_at_def)
qed

lemma init_tasks_ok:
  assumes h: "heap_at k p L a" "2000 \<le> a"
    and s: "\<And>l. l \<noteq> FreeTask \<Longrightarrow> l \<noteq> RecycleTask \<Longrightarrow> lists (ksched k) l = []" "\<not> g_taskScheduled (ksched k)"
      "g_swtmrSortLink (ksched k) = []" "clock_ok (ksched k)"
  shows "\<exists>k' L'. init_tasks k = (LOS_OK, k') \<and> heap_at k' p L' (a - 908) \<and> setup_ok (ksched k') 0"
proof -
  have z: "(LOSCFG_BASE_CORE_TSK_LIMIT + 1 + 1) * sizeof_LosTaskCB = 896"
    by (simp add: LOSCFG_BASE_CORE_TSK_LIMIT_def sizeof_LosTaskCB_def)
  have "max_req 896 = 896" by (simp add: max_req_def OS_MEM_MIN_ALLOC_SIZE_def)
  from block_step [OF h(1) _ _ this] h(2) obtain k1 L1 where
    B: "\<And>f :: bool \<Rightarrow> kernel \<Rightarrow> u32 \<times> kernel. with_block 896 f k = f True k1" "heap_at k1 p L1 (a - 908)" "ksched k1 = ksched k" by auto
  from setup_start [OF s] obtain s' where "OsTaskInit True (ksched k) = (LOS_OK, s')" "setup_ok s' 0" by blast
  then show ?thesis unfolding init_tasks_def z using B by (auto simp: heap_at_def)
qed

lemma init_sems_ok:
  assumes h: "heap_at k p L a" "2000 \<le> a"
  shows "\<exists>k' L'. init_sems k = (LOS_OK, k') \<and> heap_at k' p L' (a - 108) \<and> ksched k' = ksched k
    \<and> (\<forall>s. (\<forall>i. lists s (SemList i) = []) \<longrightarrow> sem_inv (ksem k') s)"
proof -
  have z: "LOSCFG_BASE_IPC_SEM_LIMIT * sizeof_LosSemCB = 96"
    by (simp add: LOSCFG_BASE_IPC_SEM_LIMIT_def sizeof_LosSemCB_def)
  have "max_req 96 = 96" by (simp add: max_req_def OS_MEM_MIN_ALLOC_SIZE_def)
  from block_step [OF h(1) _ _ this] h(2) obtain k1 L1 where
    B: "\<And>f :: bool \<Rightarrow> kernel \<Rightarrow> u32 \<times> kernel. with_block 96 f k = f True k1" "heap_at k1 p L1 (a - 108)" "ksched k1 = ksched k" by auto
  from SemInit_ok [of "ksem k1"] obtain x where "OsSemInit True (ksem k1) = (LOS_OK, x)"
    "\<forall>s. (\<forall>i. lists s (SemList i) = []) \<longrightarrow> sem_inv x s" by blast
  then show ?thesis using B by (auto simp: init_sems_def z heap_at_def)
qed

lemma init_muxes_ok:
  assumes h: "heap_at k p L a" "2000 \<le> a"
  shows "\<exists>k' L'. init_muxes k = (LOS_OK, k') \<and> heap_at k' p L' (a - 156) \<and> ksched k' = ksched k \<and> ksem k' = ksem k
    \<and> (\<forall>s. (\<forall>i. lists s (MuxList i) = []) \<longrightarrow> mux_inv (kmux k') s)"
proof -
  have z: "LOSCFG_BASE_IPC_MUX_LIMIT * sizeof_LosMuxCB = 144"
    by (simp add: LOSCFG_BASE_IPC_MUX_LIMIT_def sizeof_LosMuxCB_def)
  have "max_req 144 = 144" by (simp add: max_req_def OS_MEM_MIN_ALLOC_SIZE_def)
  from block_step [OF h(1) _ _ this] h(2) obtain k1 L1 where
    B: "\<And>f :: bool \<Rightarrow> kernel \<Rightarrow> u32 \<times> kernel. with_block 144 f k = f True k1" "heap_at k1 p L1 (a - 156)" "ksched k1 = ksched k" "ksem k1 = ksem k" by auto
  from MuxInit_ok [of "kmux k1"] obtain x where "OsMuxInit True (kmux k1) = (LOS_OK, x)"
    "\<forall>s. (\<forall>i. lists s (MuxList i) = []) \<longrightarrow> mux_inv x s" by blast
  then show ?thesis using B by (auto simp: init_muxes_def z heap_at_def)
qed

lemma init_queues_ok:
  assumes h: "heap_at k p L a" "2000 \<le> a"
  shows "\<exists>k' L'. init_queues k = (LOS_OK, k') \<and> heap_at k' p L' (a - 300) \<and> ksched k' = ksched k \<and> ksem k' = ksem k
    \<and> kmux k' = kmux k \<and> quep.pool_ok (kqueue k') \<and> (\<forall>i. \<not> queue_used (kqueue k') i) \<and> g_freeQueueList (kqueue k') = [0..<6]
    \<and> (\<forall>i<6. queueID (g_allQueue (kqueue k') i) = of_nat i)"
proof -
  have z: "LOSCFG_BASE_IPC_QUEUE_LIMIT * sizeof_LosQueueCB = 288"
    by (simp add: LOSCFG_BASE_IPC_QUEUE_LIMIT_def sizeof_LosQueueCB_def)
  have "max_req 288 = 288" by (simp add: max_req_def OS_MEM_MIN_ALLOC_SIZE_def)
  from block_step [OF h(1) _ _ this] h(2) obtain k1 L1 where
    B: "\<And>f :: bool \<Rightarrow> kernel \<Rightarrow> u32 \<times> kernel. with_block 288 f k = f True k1" "heap_at k1 p L1 (a - 300)" "ksched k1 = ksched k" "ksem k1 = ksem k" "kmux k1 = kmux k" by auto
  from QueueInit_ok [of "kqueue k1"] obtain x where "OsQueueInit True (kqueue k1) = (LOS_OK, x)" "quep.pool_ok x"
    "\<forall>i<6. queueID (g_allQueue x i) = of_nat i" "\<forall>i. \<not> queue_used x i" "g_freeQueueList x = [0..<6]" by blast
  then show ?thesis using B by (auto simp: init_queues_def z heap_at_def)
qed

lemma init_swtmrs_ok:
  assumes h: "heap_at k p L a" "4000 \<le> a" "p \<noteq> 0" and su: "setup_ok (ksched k) 0"
    and q: "quep.pool_ok (kqueue k)" "\<And>i. \<not> queue_used (kqueue k) i" "g_freeQueueList (kqueue k) = [0..<6]"
      "\<forall>i<6. queueID (g_allQueue (kqueue k) i) = of_nat i"
  shows "\<exists>k' L'. init_swtmrs k = (LOS_OK, k') \<and> heap_at k' p L' (a - 1384) \<and> ksem k' = ksem k \<and> kmux k' = kmux k
    \<and> rings_held (kqueue k') L' \<and> quep.pool_ok (kqueue k') \<and> setup_ok (ksched k') 1 \<and> swtmr_inv (kswtmr k') (ksched k')
    \<and> g_swtmrTaskID (ksched k') = 0 \<and> has (st (ksched k') 0) (flag READY) \<and> priority (tcb (ksched k') 0) = 0 \<and> g_swtmrScan (ksched k')"
proof -
  have r: "room p LOSCFG_SYS_HEAP_SIZE (hm (kheap k)) L a" "m_aucSysMem0 (kheap k) = p" using h(1) by (simp_all add: heap_at_def)
  from SwtmrInit_boot [OF su r(1) h(2,3) q, of "kswtmr k"] obtain w q' m s L' where
    S: "OsSwtmrInit (kernel_stacks p) (kernel_heap p) (kswtmr k, kqueue k, hm (kheap k), ksched k) = (LOS_OK, w, q', m, s)"
    "room p LOSCFG_SYS_HEAP_SIZE m L' (a - 1384)" "rings_held q' L'" "quep.pool_ok q'" "setup_ok s 1" "swtmr_inv w s"
    "g_swtmrTaskID s = 0" "has (st s 0) (flag READY)" "priority (tcb s 0) = 0" "g_swtmrScan s" by blast
  show ?thesis
    by (intro exI [of _ "k\<lparr>kswtmr := w, kqueue := q', kheap := (kheap k)\<lparr>hm := m\<rparr>, ksched := s\<rparr>"] exI [of _ L'])
      (use S r(2) in \<open>simp add: init_swtmrs_def heap_at_def\<close>)
qed

lemma init_idle_ok:
  assumes h: "heap_at k p L a" "1000 \<le> a" "p \<noteq> 0" and su: "setup_ok (ksched k) 1" and r: "rings_held (kqueue k) L"
  shows "\<exists>k' L'. init_idle k = (LOS_OK, k') \<and> heap_at k' p L' (a - 400) \<and> ksem k' = ksem k \<and> kmux k' = kmux k
    \<and> kqueue k' = kqueue k \<and> rings_held (kqueue k') L' \<and> kswtmr k' = kswtmr k \<and> boot_ok (ksched k') \<and> g_idleTaskID (ksched k') = 1
    \<and> lists (ksched k') FreeTask = [2..<6] \<and> (\<forall>l. wait_list l \<longrightarrow> lists (ksched k') l = []) \<and> tcb (ksched k') 0 = tcb (ksched k) 0
    \<and> g_swtmrTaskID (ksched k') = g_swtmrTaskID (ksched k) \<and> timers (ksched k') = timers (ksched k)
    \<and> g_swtmrScan (ksched k') = g_swtmrScan (ksched k)"
proof -
  have rm: "room p LOSCFG_SYS_HEAP_SIZE (hm (kheap k)) L a" "m_aucSysMem0 (kheap k) = p" using h(1) by (simp_all add: heap_at_def)
  from idle_task_boot [OF su rm(1) h(2,3)] obtain m s b where
    I: "OsIdleTaskCreate (kernel_stacks p) (hm (kheap k), ksched k) = (LOS_OK, m, s)"
    "room p LOSCFG_SYS_HEAP_SIZE m (L(b \<mapsto> (0x180, True))) (a - 400)" "L b = None" "boot_ok s" "g_idleTaskID s = 1"
    "lists s FreeTask = [2..<6]" "\<forall>l. wait_list l \<longrightarrow> lists s l = []" "tcb s 0 = tcb (ksched k) 0"
    "g_swtmrTaskID s = g_swtmrTaskID (ksched k)" "timers s = timers (ksched k)" "g_swtmrScan s = g_swtmrScan (ksched k)" by blast
  have "rings_held (kqueue k) (L(b \<mapsto> (0x180, True)))"
    using r I(3) unfolding rings_held_def by (metis fun_upd_apply option.distinct(1))
  then show ?thesis
    by (intro exI [of _ "k\<lparr>kheap := (kheap k)\<lparr>hm := m\<rparr>, ksched := s\<rparr>"] exI [of _ "L(b \<mapsto> (0x180, True))"])
      (use I rm(2) in \<open>simp add: init_idle_def heap_at_def\<close>)
qed

lemma room_mono: "room p sz m L n \<Longrightarrow> n' \<le> n \<Longrightarrow> room p sz m L n'"
  unfolding room_def using le_trans by blast

lemma init_steps_append:
  "init_steps fs k = (LOS_OK, k') \<Longrightarrow> init_steps (fs @ gs) k = init_steps gs k'"
  by (induction fs arbitrary: k) (auto split: prod.splits if_splits)

lemma TickTimerInit_clock:
  assumes "OsTickTimerInit k = (LOS_OK, t)"
  shows "100 \<le> unat (g_sysClock t)"
  using assms
  by (auto simp: OsTickTimerInit_def Let_def tick_config not_less word_le_nat_alt LOS_ERRNO_SYS_HOOK_IS_NULL_def
      LOS_ERRNO_SYS_CLOCK_INVALID_def LOS_ERRNO_TICK_CFG_INVALID_def split: if_splits option.splits prod.splits)

lemma init_tables:
  assumes h: "heap_at k p L 64584"
    and s: "\<forall>l. lists (ksched k) l = []" "\<not> g_taskScheduled (ksched k)" "g_swtmrSortLink (ksched k) = []"
    and t: "OsTickTimerInit (tk (ksched k)) = (LOS_OK, t)" "\<not> intActive (ksched k)"
  shows "\<exists>k' L'. init_steps [init_tick, init_tasks, init_sems, init_muxes, init_queues] k = (LOS_OK, k') \<and> heap_at k' p L' 63112
    \<and> setup_ok (ksched k') 0 \<and> (\<forall>s. (\<forall>i. lists s (SemList i) = []) \<longrightarrow> sem_inv (ksem k') s)
    \<and> (\<forall>s. (\<forall>i. lists s (MuxList i) = []) \<longrightarrow> mux_inv (kmux k') s) \<and> quep.pool_ok (kqueue k')
    \<and> (\<forall>i. \<not> queue_used (kqueue k') i) \<and> g_freeQueueList (kqueue k') = [0..<6]
    \<and> (\<forall>i<6. queueID (g_allQueue (kqueue k') i) = of_nat i)"
proof -
  define k1 where "k1 = k\<lparr>ksched := (ksched k)\<lparr>tk := t\<rparr>\<rparr>"
  have k1: "init_tick k = (LOS_OK, k1)" using t(1) by (simp add: init_tick_def k1_def)
  have h1: "heap_at k1 p L 64584" using h by (simp add: heap_at_def k1_def)
  have s1: "\<And>l. l \<noteq> FreeTask \<Longrightarrow> l \<noteq> RecycleTask \<Longrightarrow> lists (ksched k1) l = []" "\<not> g_taskScheduled (ksched k1)"
    "g_swtmrSortLink (ksched k1) = []" using s by (simp_all add: k1_def)
  have c1: "clock_ok (ksched k1)" using t(2) TickTimerInit_clock [OF t(1)] by (simp add: clock_ok_def k1_def)
  from init_tasks_ok [OF h1 _ s1 c1] obtain k2 L2 where k2: "init_tasks k1 = (LOS_OK, k2)" "heap_at k2 p L2 63676"
    "setup_ok (ksched k2) 0" by auto
  from init_sems_ok [OF k2(2)] obtain k3 L3 where k3: "init_sems k2 = (LOS_OK, k3)" "heap_at k3 p L3 63568"
    "ksched k3 = ksched k2" "\<forall>s. (\<forall>i. lists s (SemList i) = []) \<longrightarrow> sem_inv (ksem k3) s" by auto
  from init_muxes_ok [OF k3(2)] obtain k4 L4 where k4: "init_muxes k3 = (LOS_OK, k4)" "heap_at k4 p L4 63412"
    "ksched k4 = ksched k3" "ksem k4 = ksem k3" "\<forall>s. (\<forall>i. lists s (MuxList i) = []) \<longrightarrow> mux_inv (kmux k4) s" by auto
  from init_queues_ok [OF k4(2)] obtain k5 L5 where k5: "init_queues k4 = (LOS_OK, k5)" "heap_at k5 p L5 63112"
    "ksched k5 = ksched k4" "ksem k5 = ksem k4" "kmux k5 = kmux k4" "quep.pool_ok (kqueue k5)" "\<forall>i. \<not> queue_used (kqueue k5) i"
    "g_freeQueueList (kqueue k5) = [0..<6]" "\<forall>i<6. queueID (g_allQueue (kqueue k5) i) = of_nat i" by auto
  have "init_steps [init_tick, init_tasks, init_sems, init_muxes, init_queues] k = (LOS_OK, k5)"
    using k1 k2(1) k3(1) k4(1) k5(1) by simp
  then show ?thesis using k2(3) k3(3,4) k4(3-5) k5(2-9) by (intro exI [of _ k5] exI [of _ L5]) simp
qed

text \<open>All of it, from the memory and the timer at power-on.\<close>

lemma KernelInit_ok:
  assumes f: "pool_fits memStart LOSCFG_SYS_HEAP_SIZE" "g_poolHead (kheap k) = 0"
    and s: "\<forall>l. lists (ksched k) l = []" "\<not> g_taskScheduled (ksched k)" "g_swtmrSortLink (ksched k) = []"
    and t: "OsTickTimerInit (tk (ksched k)) = (LOS_OK, t)" "\<not> intActive (ksched k)"
  shows "\<exists>k' L. LOS_KernelInit memStart k = Some (LOS_OK, k')
    \<and> room memStart LOSCFG_SYS_HEAP_SIZE (hm (kheap k')) L 60000 \<and> rings_held (kqueue k') L \<and> quep.pool_ok (kqueue k')
    \<and> sem_inv (ksem k') (ksched k') \<and> mux_inv (kmux k') (ksched k') \<and> swtmr_inv (kswtmr k') (ksched k')
    \<and> boot_ok (ksched k') \<and> g_swtmrScan (ksched k') \<and> lists (ksched k') FreeTask = [2..<6]
    \<and> g_idleTaskID (ksched k') = 1 \<and> g_swtmrTaskID (ksched k') = 0
    \<and> has (st (ksched k') 0) (flag READY) \<and> \<not> is_idle (ksched k') 0 \<and> priority (tcb (ksched k') 0) = 0"
proof -
  have p: "memStart \<noteq> 0" using f(1) by (auto simp: pool_fits_def)
  from heap_boot [OF f] obtain h where H: "OsMemSystemInit memStart (kheap k) = Some (LOS_OK, h)" "m_aucSysMem0 h = memStart"
    "room memStart LOSCFG_SYS_HEAP_SIZE (hm h) (\<lambda>_. None) 64584" by blast
  let ?k = "k\<lparr>kheap := h\<rparr>"
  have "heap_at ?k memStart (\<lambda>_. None) 64584" using H by (simp add: heap_at_def)
  from init_tables [OF this] s t obtain k5 L5 where
    k5: "init_steps [init_tick, init_tasks, init_sems, init_muxes, init_queues] ?k = (LOS_OK, k5)" "heap_at k5 memStart L5 63112"
    "setup_ok (ksched k5) 0" "\<forall>s. (\<forall>i. lists s (SemList i) = []) \<longrightarrow> sem_inv (ksem k5) s"
    "\<forall>s. (\<forall>i. lists s (MuxList i) = []) \<longrightarrow> mux_inv (kmux k5) s" "quep.pool_ok (kqueue k5)"
    "\<And>i. \<not> queue_used (kqueue k5) i" "g_freeQueueList (kqueue k5) = [0..<6]" "\<forall>i<6. queueID (g_allQueue (kqueue k5) i) = of_nat i"
    by auto
  from init_swtmrs_ok [OF k5(2) _ p k5(3,6,7,8,9)] obtain k6 L6 where k6: "init_swtmrs k5 = (LOS_OK, k6)"
    "heap_at k6 memStart L6 61728" "ksem k6 = ksem k5" "kmux k6 = kmux k5" "rings_held (kqueue k6) L6" "quep.pool_ok (kqueue k6)"
    "setup_ok (ksched k6) 1" "swtmr_inv (kswtmr k6) (ksched k6)" "g_swtmrTaskID (ksched k6) = 0"
    "has (st (ksched k6) 0) (flag READY)" "priority (tcb (ksched k6) 0) = 0" "g_swtmrScan (ksched k6)" by auto
  from init_idle_ok [OF k6(2) _ p k6(7,5)] obtain k7 L7 where k7: "init_idle k6 = (LOS_OK, k7)"
    "heap_at k7 memStart L7 61328" "ksem k7 = ksem k6" "kmux k7 = kmux k6" "kqueue k7 = kqueue k6" "rings_held (kqueue k7) L7"
    "kswtmr k7 = kswtmr k6" "boot_ok (ksched k7)" "g_idleTaskID (ksched k7) = 1" "lists (ksched k7) FreeTask = [2..<6]"
    "\<forall>l. wait_list l \<longrightarrow> lists (ksched k7) l = []" "tcb (ksched k7) 0 = tcb (ksched k6) 0"
    "g_swtmrTaskID (ksched k7) = g_swtmrTaskID (ksched k6)" "timers (ksched k7) = timers (ksched k6)"
    "g_swtmrScan (ksched k7) = g_swtmrScan (ksched k6)" by auto
  have "LOS_KernelInit memStart k = Some (LOS_OK, k7)"
    using H(1) init_steps_append [OF k5(1), of "[init_swtmrs, init_idle]"] k6(1) k7(1) by (simp add: LOS_KernelInit_def)
  moreover have "sem_inv (ksem k7) (ksched k7)" "mux_inv (kmux k7) (ksched k7)"
    using k5(4,5) k6(3,4) k7(3,4,11) by simp_all
  moreover have "swtmr_inv (kswtmr k7) (ksched k7)"
    using k6(8) unfolding k7(7) swtmr_inv_timers [OF k7(14)] .
  moreover have "room memStart LOSCFG_SYS_HEAP_SIZE (hm (kheap k7)) L7 60000"
    using k7(2) room_mono [of memStart LOSCFG_SYS_HEAP_SIZE "hm (kheap k7)" L7 61328 60000] by (simp add: heap_at_def)
  moreover have "\<not> is_idle (ksched k7) 0" using setup_okD(11) [OF k6(7), of 0] k7(9,12) by (simp add: is_idle_def)
  ultimately show ?thesis using k6(6,9-12) k7(5,6,8-10,12,13,15)
    by (intro exI [of _ k7] exI [of _ L7]) simp
qed

section \<open>Power-on to the first task\<close>

text \<open>The state before \<open>LOS_KernelInit\<close>: the variables are zero and the hardware timer starts.\<close>

definition power_on :: "u32 \<Rightarrow> kernel \<Rightarrow> bool" where
  "power_on memStart k \<longleftrightarrow> pool_fits memStart LOSCFG_SYS_HEAP_SIZE \<and> g_poolHead (kheap k) = 0
     \<and> (\<forall>l. lists (ksched k) l = []) \<and> \<not> g_taskScheduled (ksched k) \<and> g_swtmrSortLink (ksched k) = []
     \<and> \<not> intActive (ksched k) \<and> fst (OsTickTimerInit (tk (ksched k))) = LOS_OK"

lemma power_on_init:
  assumes "power_on memStart k"
  shows "\<exists>k' L. LOS_KernelInit memStart k = Some (LOS_OK, k')
    \<and> room memStart LOSCFG_SYS_HEAP_SIZE (hm (kheap k')) L 60000 \<and> rings_held (kqueue k') L \<and> quep.pool_ok (kqueue k')
    \<and> sem_inv (ksem k') (ksched k') \<and> mux_inv (kmux k') (ksched k') \<and> swtmr_inv (kswtmr k') (ksched k')
    \<and> boot_ok (ksched k') \<and> g_swtmrScan (ksched k') \<and> lists (ksched k') FreeTask = [2..<6]
    \<and> g_idleTaskID (ksched k') = 1 \<and> g_swtmrTaskID (ksched k') = 0
    \<and> has (st (ksched k') 0) (flag READY) \<and> \<not> is_idle (ksched k') 0 \<and> priority (tcb (ksched k') 0) = 0"
proof -
  obtain r t where t: "OsTickTimerInit (tk (ksched k)) = (r, t)" by fastforce
  then have "r = LOS_OK" using assms by (simp add: power_on_def)
  with t assms show ?thesis unfolding power_on_def by (intro KernelInit_ok [where t = t]) simp_all
qed

text \<open>
  C3. The initialisation of the kernel at power-on, on any 64 KB that can hold a pool: when the
  hardware timer starts, every allocation of it is granted, no step fails, and each component has its
  invariant: the heap owns exactly the blocks handed out, with more than 60000 bytes still to give,
  the handler queue has its ring, no semaphore, mutex or timer is in use, the idle task and the task
  of the software timers exist, and the scheduler can be started.
\<close>

theorem kernel_init:
  assumes "power_on memStart k"
  shows "\<exists>k' L. LOS_KernelInit memStart k = Some (LOS_OK, k')
    \<and> room memStart LOSCFG_SYS_HEAP_SIZE (hm (kheap k')) L 60000 \<and> rings_held (kqueue k') L \<and> quep.pool_ok (kqueue k')
    \<and> sem_inv (ksem k') (ksched k') \<and> mux_inv (kmux k') (ksched k') \<and> swtmr_inv (kswtmr k') (ksched k')
    \<and> boot_ok (ksched k') \<and> g_swtmrScan (ksched k') \<and> lists (ksched k') FreeTask = [2..<6]
    \<and> g_idleTaskID (ksched k') = 1 \<and> g_swtmrTaskID (ksched k') = 0
    \<and> has (st (ksched k') 0) (flag READY) \<and> \<not> is_idle (ksched k') 0 \<and> priority (tcb (ksched k') 0) = 0"
  by (rule power_on_init [OF assms])

definition ex_power_on :: kernel where
  "ex_power_on = \<lparr>kheap = ex_memory, kswtmr = ex_swtmr, kqueue = ex_queues, ksem = ex_sems, kmux = ex_muxes,
     ksched = ex_sched\<lparr>lists := \<lambda>_. [], g_taskScheduled := False\<rparr>\<rparr>"

lemma ex_power_on_ok: "power_on 0x1000 ex_power_on"
proof -
  have "pool_fits 0x1000 LOSCFG_SYS_HEAP_SIZE" by (simp add: pool_fits_def LOSCFG_SYS_HEAP_SIZE_def)
  moreover have "fst (OsTickTimerInit ex_tick) = LOS_OK"
    by (simp add: OsTickTimerInit_def ex_tick_def ex_timer_def hooks_missing_def Let_def tick_config LOSCFG_PLATFORM_HWI_LIMIT_def)
  ultimately show ?thesis by (simp add: power_on_def ex_power_on_def ex_memory_def) (simp add: ex_sched_def)
qed

theorem kernel_init_witness:
  "\<exists>k'. LOS_KernelInit 0x1000 ex_power_on = Some (LOS_OK, k') \<and> boot_ok (ksched k') \<and> lists (ksched k') FreeTask = [2..<6]"
  using kernel_init [OF ex_power_on_ok] by blast

text \<open>The tasks the program creates before the start, whatever the outcome of each call.\<close>

fun create_all :: "'h allocator \<Rightarrow> TSK_INIT_PARAM_S option list \<Rightarrow> 'h \<times> sched \<Rightarrow> 'h \<times> sched" where
  "create_all al [] hs = hs"
| "create_all al (p # ps) hs = (let (_, _, hs1) = LOS_TaskCreate al True p hs in create_all al ps hs1)"

lemma create_all_boot:
  assumes "boot_ok s" "create_all al ps (h, s) = (h', s')"
  shows "boot_ok s' \<and> timers s' = timers s \<and> g_idleTaskID s' = g_idleTaskID s
    \<and> (\<forall>x. x \<notin> set (lists s FreeTask) \<longrightarrow> tcb s' x = tcb s x)"
  using assms
proof (induction ps arbitrary: h s)
  case Nil
  then show ?case by simp
next
  case (Cons p ps)
  obtain r tid h1 s1 where e: "LOS_TaskCreate al True p (h, s) = (r, tid, h1, s1)" by (metis prod_cases4)
  note B = boot_create [OF Cons.prems(1) e]
  have "create_all al ps (h1, s1) = (h', s')" using Cons.prems(2) e by simp
  from Cons.IH [OF B(1) this] B(2-5) show ?case by auto
qed

text \<open>
  C2. From power-on to the first task: the kernel initialises itself, the program creates any tasks
  with any parameters, successfully or not, and starts the scheduler. The start returns into a task of
  the highest priority, which is 0, the timer task being ready with it, and what the running kernel
  relies on holds: its invariants and those of the tick interrupt.
\<close>

theorem kernel_boot:
  assumes "power_on memStart k"
  shows "\<exists>k' s0 s'. LOS_KernelInit memStart k = Some (LOS_OK, k')
    \<and> snd (create_all (kernel_stacks memStart) ps (hm (kheap k'), ksched k')) = s0
    \<and> LOS_Start (kswtmr k', s0) = Some (kswtmr k', s')
    \<and> kern_ok s' \<and> timed_ok s' \<and> free_ok s' \<and> swtmr_inv (kswtmr k') s' \<and> g_taskScheduled s' \<and> clock_ok s'
    \<and> has (st s' (runTask s')) (flag RUNNING) \<and> priority (tcb s' (runTask s')) = 0 \<and> \<not> is_idle s' (runTask s')"
proof -
  from power_on_init [OF assms] obtain k' where K: "LOS_KernelInit memStart k = Some (LOS_OK, k')" "boot_ok (ksched k')"
    "swtmr_inv (kswtmr k') (ksched k')" "lists (ksched k') FreeTask = [2..<6]" "has (st (ksched k') 0) (flag READY)"
    "\<not> is_idle (ksched k') 0" "priority (tcb (ksched k') 0) = 0" by blast
  obtain h0 s0 where c: "create_all (kernel_stacks memStart) ps (hm (kheap k'), ksched k') = (h0, s0)" by fastforce
  note B = create_all_boot [OF K(2) c]
  have t0: "tcb s0 0 = tcb (ksched k') 0" using B K(4) by simp
  have r0: "has (st s0 0) (flag READY)" "\<not> is_idle s0 0" "priority (tcb s0 0) = 0"
    using K(5-7) B by (simp_all add: t0 is_idle_def)
  have inv: "swtmr_inv (kswtmr k') s0" using K(3) swtmr_inv_timers [of s0 "ksched k'"] B by blast
  from Start_runs [of s0 "kswtmr k'"] B obtain s' where S: "LOS_Start (kswtmr k', s0) = Some (kswtmr k', s')" "kern_ok s'"
    "timed_ok s'" "free_ok s'" "g_taskScheduled s'" "swtmr_inv (kswtmr k') s'" "has (st s' (runTask s')) (flag RUNNING)"
    "clock_ok s'" "priority (tcb s' (runTask s')) \<le> 0" "\<not> is_idle s' (runTask s')" using inv r0 by metis
  have "priority (tcb s' (runTask s')) = 0" using S(9) by simp
  then show ?thesis using K(1) c S by (intro exI [of _ k'] exI [of _ s0] exI [of _ s']) simp
qed

theorem kernel_boot_witness:
  "\<exists>k' s0 s'. LOS_KernelInit 0x1000 ex_power_on = Some (LOS_OK, k')
    \<and> snd (create_all (kernel_stacks 0x1000) [Some ex_param, None] (hm (kheap k'), ksched k')) = s0
    \<and> LOS_Start (kswtmr k', s0) = Some (kswtmr k', s') \<and> kern_ok s' \<and> priority (tcb s' (runTask s')) = 0"
  using kernel_boot [OF ex_power_on_ok, of "[Some ex_param, None]"] by blast

end
