(* ===== verification/Los_Cmsis.thy ===== *)
theory Los_Cmsis
  imports Los_Kernel Los_Event
begin

text \<open>
  The CMSIS-RTOS2 interface to the kernel (kal/cmsis/cmsis_liteos2.c) on the types of cmsis_os2.h:
  the calls an application makes. A handle is a pointer to a control block, so it is None for
  NULL or the index of a block; an event-flags handle is the address of its block in the heap.
  A call that may sleep returns \<open>Sleeping\<close> and is continued by the function of the same name
  with \<open>_resume\<close>. The memory pools are in theory Los_CmsisPool.
\<close>

section \<open>Status codes and enumerations\<close>

datatype osStatus_t = osOK | osError | osErrorTimeout | osErrorResource | osErrorParameter
  | osErrorNoMemory | osErrorISR

fun status_int :: "osStatus_t \<Rightarrow> i32" where
  "status_int osOK = 0"
| "status_int osError = -1"
| "status_int osErrorTimeout = -2"
| "status_int osErrorResource = -3"
| "status_int osErrorParameter = -4"
| "status_int osErrorNoMemory = -5"
| "status_int osErrorISR = -6"

datatype osKernelState_t = osKernelInactive | osKernelReady | osKernelRunning | osKernelLocked
  | osKernelSuspended | osKernelError

datatype osThreadState_t = osThreadInactive | osThreadReady | osThreadRunning | osThreadBlocked
  | osThreadTerminated | osThreadError

definition osPriorityNormal :: i32 where "osPriorityNormal = 24"
definition osPriorityError :: i32 where "osPriorityError = -1"
definition osFlagsWaitAny :: u32 where "osFlagsWaitAny = 0"
definition osFlagsWaitAll :: u32 where "osFlagsWaitAll = 1"
definition osFlagsNoClear :: u32 where "osFlagsNoClear = 2"
definition osFlagsErrorUnknown :: u32 where "osFlagsErrorUnknown = 0xFFFFFFFF"
definition osFlagsErrorTimeout :: u32 where "osFlagsErrorTimeout = 0xFFFFFFFE"
definition osFlagsErrorResource :: u32 where "osFlagsErrorResource = 0xFFFFFFFD"
definition osFlagsErrorParameter :: u32 where "osFlagsErrorParameter = 0xFFFFFFFC"
definition osThreadJoinable :: u32 where "osThreadJoinable = 1"
definition osTimerOnce :: u32 where "osTimerOnce = 0"
definition osTimerPeriodic :: u32 where "osTimerPeriodic = 1"

datatype 'a os_result = Status 'a | Sleeping

fun os_result_of :: "(u32 \<Rightarrow> 'a) \<Rightarrow> pend_result \<Rightarrow> 'a os_result" where
  "os_result_of f (Returned r) = Status (f r)"
| "os_result_of f Blocked = Sleeping"

section \<open>The kernel\<close>

definition LOSCFG_BASE_CORE_TSK_DEFAULT_PRIO :: i32 where "LOSCFG_BASE_CORE_TSK_DEFAULT_PRIO = 10"
definition OS_TASK_PRIORITY_HIGHEST :: u16 where "OS_TASK_PRIORITY_HIGHEST = 0"
definition KERNEL_UNLOCKED :: i32 where "KERNEL_UNLOCKED = 0"
definition KERNEL_LOCKED :: i32 where "KERNEL_LOCKED = 1"
definition KERNEL_ID :: string where "KERNEL_ID = ''HUAWEI-LiteOS''"
definition g_stLosVersion :: "u32 \<times> u32" where "g_stLosVersion = (1, 1)"

text \<open>The C conversion of an \<open>int\<close> to the \<open>UINT16\<close> it is stored in is part of the first.\<close>

definition LOS_PRIORITY :: "i32 \<Rightarrow> u16" where
  "LOS_PRIORITY cmsisPriority = ucast (LOSCFG_BASE_CORE_TSK_DEFAULT_PRIO - (cmsisPriority - osPriorityNormal))"
definition CMSIS_PRIORITY :: "u16 \<Rightarrow> i32" where
  "CMSIS_PRIORITY losPriority = osPriorityNormal + (LOSCFG_BASE_CORE_TSK_DEFAULT_PRIO - ucast losPriority)"
definition ISVALID_LOS_PRIORITY :: "u16 \<Rightarrow> bool" where
  "ISVALID_LOS_PRIORITY losPrio \<longleftrightarrow> losPrio > OS_TASK_PRIORITY_HIGHEST \<and> losPrio < OS_TASK_PRIORITY_LOWEST"

record cmsis =
  os_kernel :: kernel
  g_kernelState :: osKernelState_t

definition osKernelInitialize :: "u32 \<Rightarrow> cmsis \<Rightarrow> (osStatus_t \<times> cmsis) option" where
  "osKernelInitialize memStart c =
     (if intActive (ksched (os_kernel c)) then Some (osErrorISR, c)
      else if g_kernelState c \<noteq> osKernelInactive then Some (osError, c)
      else case LOS_KernelInit memStart (os_kernel c) of
             None \<Rightarrow> None
           | Some (ret, k) \<Rightarrow>
               Some (if ret = LOS_OK then (osOK, c\<lparr>os_kernel := k, g_kernelState := osKernelReady\<rparr>)
                     else (osError, c\<lparr>os_kernel := k\<rparr>)))"

text \<open>The version and the identification written; \<open>memcpy_s\<close> refuses a buffer shorter than the string.\<close>

definition osKernelGetInfo :: "bool \<Rightarrow> bool \<Rightarrow> u32 \<Rightarrow> osStatus_t \<times> ((u32 \<times> u32) \<times> string) option" where
  "osKernelGetInfo version id_buf id_size =
     (if \<not> version \<or> \<not> id_buf \<or> id_size = 0 then (osError, None)
      else if of_nat (length KERNEL_ID + 1) \<le> id_size \<and> id_size \<le> SECUREC_MEM_MAX_LEN
      then (osOK, Some (g_stLosVersion, KERNEL_ID)) else (osError, None))"

definition osKernelGetState :: "osKernelState_t \<Rightarrow> sched \<Rightarrow> osKernelState_t" where
  "osKernelGetState kernelState s =
     (if \<not> g_taskScheduled s
      then if kernelState = osKernelReady then osKernelReady else osKernelInactive
      else if g_losTaskLock s > 0 then osKernelLocked else osKernelRunning)"

text \<open>
  \<open>LOS_Start\<close> does not return on this port: on success the result is the state in which the first
  task runs, and the assignment after the call is not reached.
\<close>

definition osKernelStart :: "cmsis \<Rightarrow> (osStatus_t os_result \<times> cmsis) option" where
  "osKernelStart c =
     (let k = os_kernel c
      in if intActive (ksched k) then Some (Status osErrorISR, c)
         else if g_kernelState c \<noteq> osKernelReady then Some (Status osError, c)
         else map_option (\<lambda>(p, s). (Sleeping, c\<lparr>os_kernel := k\<lparr>kswtmr := p, ksched := s\<rparr>\<rparr>))
                (LOS_Start (kswtmr k, ksched k)))"

definition osKernelLock :: "sched \<Rightarrow> i32 \<times> sched" where
  "osKernelLock s =
     (if intActive s then (status_int osErrorISR, s)
      else if \<not> g_taskScheduled s then (status_int osError, s)
      else if g_losTaskLock s > 0 then (KERNEL_LOCKED, s)
      else (KERNEL_UNLOCKED, LOS_TaskLock s))"

definition osKernelUnlock :: "sched \<Rightarrow> i32 \<times> sched" where
  "osKernelUnlock s =
     (if intActive s then (status_int osErrorISR, s)
      else if \<not> g_taskScheduled s then (status_int osError, s)
      else if g_losTaskLock s > 0
      then (let s1 = LOS_TaskUnlock s
            in (if g_losTaskLock s1 \<noteq> 0 then status_int osError else KERNEL_LOCKED, s1))
      else (KERNEL_UNLOCKED, s))"

definition osKernelRestoreLock :: "i32 \<Rightarrow> sched \<Rightarrow> i32 \<times> sched" where
  "osKernelRestoreLock lock s =
     (if intActive s then (status_int osErrorISR, s)
      else if \<not> g_taskScheduled s then (status_int osError, s)
      else if lock = KERNEL_UNLOCKED
      then (let s1 = LOS_TaskUnlock s
            in (if g_losTaskLock s1 \<noteq> 0 then status_int osError else KERNEL_UNLOCKED, s1))
      else if lock = KERNEL_LOCKED then (KERNEL_LOCKED, LOS_TaskLock s)
      else (status_int osError, s))"

definition osKernelGetTickCount :: "tick_state \<Rightarrow> u32 \<times> tick_state" where
  "osKernelGetTickCount k = (let (ticks, k1) = LOS_TickCountGet k in (ucast ticks, k1))"

definition osKernelGetTickFreq :: u32 where
  "osKernelGetTickFreq = LOSCFG_BASE_CORE_TICK_PER_SECOND"

definition osKernelGetSysTimerCount :: "tick_state \<Rightarrow> u32 \<times> tick_state" where
  "osKernelGetSysTimerCount k = (let (now, k1) = LOS_SysCycleGet k in (ucast now, k1))"

definition osKernelGetSysTimerFreq :: "tick_state \<Rightarrow> u32" where
  "osKernelGetSysTimerFreq k = g_sysClock k"

section \<open>Threads\<close>

record osThreadAttr_t =
  attr_name :: "string option"
  attr_bits :: u32
  attr_cb_mem :: u32
  attr_cb_size :: u32
  attr_stack_mem :: u32
  attr_stack_size :: u32
  attr_priority :: i32
  attr_tz_module :: u32
  attr_reserved :: u32

definition osThreadNew :: "'h allocator \<Rightarrow> entry_func option \<Rightarrow> u32 \<Rightarrow> osThreadAttr_t option
    \<Rightarrow> 'h \<times> sched \<Rightarrow> nat option \<times> 'h \<times> sched" where
  "osThreadNew al func argument attr = (\<lambda>(h, s).
     if intActive s \<or> func = None then (None, h, s)
     else
       (let attrTemp = \<lparr>attr_name = None, attr_bits = 0, attr_cb_mem = 0, attr_cb_size = 0,
              attr_stack_mem = 0, attr_stack_size = 0, attr_priority = osPriorityNormal,
              attr_tz_module = 0, attr_reserved = 0\<rparr>;
            a = (case attr of None \<Rightarrow> attrTemp | Some x \<Rightarrow> x);
            prio = LOS_PRIORITY (attr_priority a)
        in if \<not> ISVALID_LOS_PRIORITY prio then (None, h, s)
           else
             (let own = attr_stack_mem a \<noteq> 0 \<and> attr_stack_size a \<noteq> 0;
                  p = \<lparr>pfnTaskEntry = func, usTaskPrio = prio, uwArg = argument,
                       stackAddr = (if own then attr_stack_mem a else 0),
                       uwStackSize = (if attr_stack_size a \<noteq> 0 then attr_stack_size a
                                      else LOSCFG_BASE_CORE_TSK_DEFAULT_STACK_SIZE),
                       pcName = Some (case attr_name a of Some n \<Rightarrow> n | None \<Rightarrow> ''CmsisTask''),
                       uwResved = (if attr_bits a = osThreadJoinable then LOS_TASK_ATTR_JOINABLE else 0)\<rparr>
              in case LOS_TaskCreate al True (Some p) (h, s) of
                   (ret, Some tid, h1, s1) \<Rightarrow> (if ret \<noteq> LOS_OK then None else Some (OS_TCB_FROM_TID tid), h1, s1)
                 | (ret, None, h1, s1) \<Rightarrow> (None, h1, s1))))"

definition osThreadGetName :: "nat option \<Rightarrow> sched \<Rightarrow> string option" where
  "osThreadGetName thread_id s =
     (case thread_id of None \<Rightarrow> None | Some t \<Rightarrow> if intActive s then None else taskName (tcb s t))"

definition osThreadGetId :: "sched \<Rightarrow> nat option" where "osThreadGetId s = Some (runTask s)"

definition osThreadGetArgument :: "sched \<Rightarrow> u32" where
  "osThreadGetArgument s =
     (if intActive s then 0
      else case osThreadGetId s of None \<Rightarrow> 0 | Some t \<Rightarrow> arg (tcb s t))"

definition osThreadGetState :: "nat option \<Rightarrow> sched \<Rightarrow> osThreadState_t" where
  "osThreadGetState thread_id s =
     (case thread_id of
        None \<Rightarrow> osThreadError
      | Some t \<Rightarrow>
          (let status = st s t
           in if intActive s then osThreadError
              else if has status (flag RUNNING) then osThreadRunning
              else if has status (flag READY) then osThreadReady
              else if has status (flag DELAY OR flag PEND OR flag SUSPEND OR flag PEND_TIME) then osThreadBlocked
              else if has status (flag UNUSED) then osThreadInactive
              else osThreadError))"

definition osThreadGetStackSize :: "nat option \<Rightarrow> sched \<Rightarrow> u32" where
  "osThreadGetStackSize thread_id s =
     (case thread_id of None \<Rightarrow> 0 | Some t \<Rightarrow> if intActive s then 0 else stackSize (tcb s t))"

text \<open>
  The words from \<open>ptr\<close> on that hold the initial pattern. The loop has no bound, so it may run past
  the stack and, when the whole memory holds the pattern, for ever: None.
\<close>

partial_function (option) water_scan :: "(u32 \<Rightarrow> u32) \<Rightarrow> u32 \<Rightarrow> u32 \<Rightarrow> u32 option" where
  "water_scan mem ptr count =
     (if mem ptr = OS_TASK_STACK_INIT then water_scan mem (ptr + 4) (count + 1) else Some count)"

definition osTaskStackWaterMarkGet :: "(u32 \<Rightarrow> u32) \<Rightarrow> u32 \<Rightarrow> sched \<Rightarrow> u32 option" where
  "osTaskStackWaterMarkGet mem tid s =
     (if tid > LOSCFG_BASE_CORE_TSK_LIMIT then Some 0
      else
        (let c = tcb s (OS_TCB_FROM_TID tid)
         in if has (taskStatus c) (flag UNUSED) then Some 0
            else map_option (\<lambda>count. count * 4) (water_scan mem (topOfStack c + 4) 0)))"

definition osThreadGetStackSpace :: "(u32 \<Rightarrow> u32) \<Rightarrow> nat option \<Rightarrow> sched \<Rightarrow> u32 option" where
  "osThreadGetStackSpace mem thread_id s =
     (case thread_id of
        None \<Rightarrow> Some 0
      | Some t \<Rightarrow> if intActive s then Some 0 else osTaskStackWaterMarkGet mem (taskID (tcb s t)) s)"

text \<open>The \<open>switch\<close> over the kernel's error numbers.\<close>

definition priority_status :: "u32 \<Rightarrow> osStatus_t" where
  "priority_status ret =
     (if ret = LOS_ERRNO_TSK_PRIOR_ERROR \<or> ret = LOS_ERRNO_TSK_OPERATE_SYSTEM_TASK
         \<or> ret = LOS_ERRNO_TSK_ID_INVALID then osErrorParameter
      else if ret = LOS_ERRNO_TSK_NOT_CREATED then osErrorResource
      else osOK)"

definition osThreadSetPriority :: "nat option \<Rightarrow> i32 \<Rightarrow> sched \<Rightarrow> osStatus_t \<times> sched" where
  "osThreadSetPriority thread_id prio s =
     (if intActive s then (osErrorISR, s)
      else case thread_id of
        None \<Rightarrow> (osErrorParameter, s)
      | Some t \<Rightarrow>
          if \<not> ISVALID_LOS_PRIORITY (LOS_PRIORITY prio) then (osErrorParameter, s)
          else (let (ret, s1) = LOS_TaskPriSet (taskID (tcb s t)) (LOS_PRIORITY prio) s
                in (priority_status ret, s1)))"

definition osThreadGetPriority :: "nat option \<Rightarrow> sched \<Rightarrow> i32" where
  "osThreadGetPriority thread_id s =
     (case thread_id of
        None \<Rightarrow> osPriorityError
      | Some t \<Rightarrow>
          if intActive s then osPriorityError
          else
            (let ret = LOS_TaskPriGet (taskID (tcb s t)) s
             in if ret = ucast OS_INVALID \<or> ret > OS_TASK_PRIORITY_LOWEST then osPriorityError
                else CMSIS_PRIORITY ret))"

definition osThreadYield :: "sched \<Rightarrow> osStatus_t \<times> sched" where
  "osThreadYield s =
     (if intActive s then (osErrorISR, s)
      else (let (ret, s1) = LOS_TaskYield s in (if ret = LOS_OK then osOK else osError, s1)))"

definition suspend_status :: "u32 \<Rightarrow> osStatus_t" where
  "suspend_status ret =
     (if ret = LOS_ERRNO_TSK_OPERATE_IDLE \<or> ret = LOS_ERRNO_TSK_SUSPEND_SWTMR_NOT_ALLOWED
         \<or> ret = LOS_ERRNO_TSK_ID_INVALID then osErrorParameter
      else if ret = LOS_ERRNO_TSK_NOT_CREATED \<or> ret = LOS_ERRNO_TSK_ALREADY_SUSPENDED
         \<or> ret = LOS_ERRNO_TSK_SUSPEND_LOCKED then osErrorResource
      else osOK)"

definition osThreadSuspend :: "nat option \<Rightarrow> sched \<Rightarrow> osStatus_t \<times> sched" where
  "osThreadSuspend thread_id s =
     (if intActive s then (osErrorISR, s)
      else case thread_id of
        None \<Rightarrow> (osErrorParameter, s)
      | Some t \<Rightarrow> (let (ret, s1) = LOS_TaskSuspend (taskID (tcb s t)) s in (suspend_status ret, s1)))"

definition resume_status :: "u32 \<Rightarrow> osStatus_t" where
  "resume_status ret =
     (if ret = LOS_ERRNO_TSK_ID_INVALID then osErrorParameter
      else if ret = LOS_ERRNO_TSK_NOT_CREATED \<or> ret = LOS_ERRNO_TSK_NOT_SUSPENDED then osErrorResource
      else osOK)"

definition osThreadResume :: "nat option \<Rightarrow> sched \<Rightarrow> osStatus_t \<times> sched" where
  "osThreadResume thread_id s =
     (if intActive s then (osErrorISR, s)
      else case thread_id of
        None \<Rightarrow> (osErrorParameter, s)
      | Some t \<Rightarrow> (let (ret, s1) = LOS_TaskResume (taskID (tcb s t)) s in (resume_status ret, s1)))"

definition join_status :: "u32 \<Rightarrow> osStatus_t" where
  "join_status ret =
     (if ret = LOS_ERRNO_TSK_NOT_ALLOW_IN_INT then osErrorISR
      else if ret \<noteq> LOS_OK then osErrorResource else osOK)"

definition osThreadDetach :: "nat option \<Rightarrow> sched \<Rightarrow> osStatus_t os_result \<times> sched" where
  "osThreadDetach thread_id s =
     (case thread_id of
        None \<Rightarrow> (Status osErrorParameter, s)
      | Some t \<Rightarrow> (let (r, s1) = LOS_TaskDetach (taskID (tcb s t)) s in (os_result_of join_status r, s1)))"

definition osThreadJoin :: "nat option \<Rightarrow> sched \<Rightarrow> osStatus_t os_result \<times> sched" where
  "osThreadJoin thread_id s =
     (case thread_id of
        None \<Rightarrow> (Status osErrorParameter, s)
      | Some t \<Rightarrow> (let (r, s1) = LOS_TaskJoin (taskID (tcb s t)) s in (os_result_of join_status r, s1)))"

text \<open>Once the joined thread has ended: both calls finish in the kernel's join.\<close>

definition osThreadJoin_resume :: "'h allocator \<Rightarrow> u32 \<Rightarrow> 'h \<times> sched \<Rightarrow> osStatus_t \<times> 'h \<times> sched" where
  "osThreadJoin_resume al tid hs =
     (let (ret, _, hs1) = LOS_TaskJoin_resume al tid hs in (join_status ret, hs1))"

definition terminate_status :: "u32 \<Rightarrow> osStatus_t" where
  "terminate_status ret =
     (if ret = LOS_ERRNO_TSK_OPERATE_IDLE \<or> ret = LOS_ERRNO_TSK_SUSPEND_SWTMR_NOT_ALLOWED
         \<or> ret = LOS_ERRNO_TSK_ID_INVALID then osErrorParameter
      else if ret = LOS_ERRNO_TSK_NOT_CREATED then osErrorResource
      else osOK)"

definition osThreadTerminate :: "'h allocator \<Rightarrow> nat option \<Rightarrow> 'h \<times> sched \<Rightarrow> osStatus_t \<times> 'h \<times> sched" where
  "osThreadTerminate al thread_id = (\<lambda>(h, s).
     if intActive s then (osErrorISR, h, s)
     else case thread_id of
        None \<Rightarrow> (osErrorParameter, h, s)
      | Some t \<Rightarrow> (let (ret, hs1) = LOS_TaskDelete al (taskID (tcb s t)) (h, s)
                   in (terminate_status ret, hs1)))"

definition osThreadGetCount :: "sched \<Rightarrow> u32" where
  "osThreadGetCount s =
     (if intActive s then 0
      else fold (\<lambda>index count. if \<not> has (st s index) (flag UNUSED) then count + 1 else count)
             [0..<unat LOSCFG_BASE_CORE_TSK_LIMIT + 1] 0)"

definition osThreadExit :: "'h allocator \<Rightarrow> 'h \<times> sched \<Rightarrow> 'h \<times> sched" where
  "osThreadExit al = (\<lambda>(h, s). snd (LOS_TaskDelete al (LOS_CurTaskIDGet s) (h, s)))"

text \<open>\<open>HalDelay\<close> is a weak function whose definition here is empty.\<close>

definition HalDelay :: "u32 \<Rightarrow> sched \<Rightarrow> sched" where "HalDelay ticks s = s"

definition osDelay :: "osKernelState_t \<Rightarrow> u32 \<Rightarrow> sched \<Rightarrow> osStatus_t \<times> sched" where
  "osDelay kernelState ticks s =
     (if intActive s then (osErrorISR, s)
      else if ticks = 0 then (osErrorParameter, s)
      else if osKernelGetState kernelState s \<noteq> osKernelRunning then (osOK, HalDelay ticks s)
      else (let (ret, s1) = LOS_TaskDelay ticks s in (if ret = LOS_OK then osOK else osError, s1)))"

definition osDelayUntil :: "u32 \<Rightarrow> sched \<Rightarrow> osStatus_t \<times> sched" where
  "osDelayUntil ticks s =
     (let (tickCount, k) = osKernelGetTickCount (tk s); s1 = s\<lparr>tk := k\<rparr>
      in if intActive s1 then (osErrorISR, s1)
         else if ticks < tickCount then (osError, s1)
         else (let (ret, s2) = LOS_TaskDelay (ticks - tickCount) s1
               in (if ret = LOS_OK then osOK else osError, s2)))"

end
