(* ===== verification/Los_CmsisIpc.thy ===== *)
theory Los_CmsisIpc
  imports Los_Cmsis
begin

text \<open>
  The objects of the CMSIS-RTOS2 interface (kal/cmsis/cmsis_liteos2.c): timers, event flags,
  mutexes, semaphores, message queues and thread flags.
\<close>

section \<open>Timers\<close>

definition osTimerNew :: "u32 \<Rightarrow> u32 \<Rightarrow> u32 \<Rightarrow> swtmr_state \<times> sched \<Rightarrow> nat option \<times> swtmr_state \<times> sched" where
  "osTimerNew func ty argument = (\<lambda>(p, s).
     if func = 0 \<or> intActive s then (None, p, s)
     else if ty \<noteq> osTimerOnce \<and> ty \<noteq> osTimerPeriodic then (None, p, s)
     else
       (let mode = (if ty = osTimerOnce then LOS_SWTMR_MODE_NO_SELFDELETE else LOS_SWTMR_MODE_PERIOD)
        in case LOS_SwtmrCreate 1 mode func True argument (p, s) of
             (ret, Some swtmrId, p1, s1) \<Rightarrow>
               (if ret \<noteq> LOS_OK then None else Some (OS_SWT_FROM_SID swtmrId), p1, s1)
           | (ret, None, p1, s1) \<Rightarrow> (None, p1, s1)))"

definition swtmr_status :: "u32 \<Rightarrow> osStatus_t" where
  "swtmr_status ret =
     (if ret = LOS_OK then osOK
      else if ret = LOS_ERRNO_SWTMR_ID_INVALID then osErrorParameter else osErrorResource)"

text \<open>The interval is written before the kernel is asked to start the timer.\<close>

definition osTimerStart :: "nat option \<Rightarrow> u32 \<Rightarrow> swtmr_state \<times> sched \<Rightarrow> osStatus_t \<times> swtmr_state \<times> sched" where
  "osTimerStart timer_id ticks = (\<lambda>(p, s).
     if intActive s then (osErrorISR, p, s)
     else case timer_id of
       None \<Rightarrow> (osErrorParameter, p, s)
     | Some i \<Rightarrow>
         if ticks = 0 then (osErrorParameter, p, s)
         else
           (let p1 = upd_swtmr i (\<lambda>c. c\<lparr>uwInterval := ticks\<rparr>) p;
                (ret, ps) = LOS_SwtmrStart (usTimerID (g_swtmrCBArray p1 i)) (p1, s)
            in (swtmr_status ret, ps)))"

definition osTimerGetName :: "nat option \<Rightarrow> string option" where "osTimerGetName timer_id = None"

definition osTimerStop :: "nat option \<Rightarrow> swtmr_state \<times> sched \<Rightarrow> osStatus_t \<times> swtmr_state \<times> sched" where
  "osTimerStop timer_id = (\<lambda>(p, s).
     if intActive s then (osErrorISR, p, s)
     else case timer_id of
       None \<Rightarrow> (osErrorParameter, p, s)
     | Some i \<Rightarrow> (let (ret, ps) = LOS_SwtmrStop (usTimerID (g_swtmrCBArray p i)) (p, s)
                  in (swtmr_status ret, ps)))"

definition osTimerIsRunning :: "nat option \<Rightarrow> swtmr_state \<times> sched \<Rightarrow> u32" where
  "osTimerIsRunning timer_id = (\<lambda>(p, s).
     if intActive s then ucast (status_int osErrorISR)
     else case timer_id of
       None \<Rightarrow> 0
     | Some i \<Rightarrow> if ucState (g_swtmrCBArray p i) = OS_SWTMR_STATUS_TICKING then 1 else 0)"

definition osTimerDelete :: "nat option \<Rightarrow> swtmr_state \<times> sched \<Rightarrow> osStatus_t \<times> swtmr_state \<times> sched" where
  "osTimerDelete timer_id = (\<lambda>(p, s).
     if intActive s then (osErrorISR, p, s)
     else case timer_id of
       None \<Rightarrow> (osErrorParameter, p, s)
     | Some i \<Rightarrow> (let (ret, ps) = LOS_SwtmrDelete (usTimerID (g_swtmrCBArray p i)) (p, s)
                  in (swtmr_status ret, ps)))"

section \<open>Event flags\<close>

definition sizeof_EVENT_CB_S :: u32 where "sizeof_EVENT_CB_S = 12"

text \<open>The block at an address.\<close>

definition event_at :: "u32 \<Rightarrow> evid option" where
  "event_at a = (if a = 0 then None else Some (UserEvent (unat a)))"

definition event_word :: "u32 \<Rightarrow> sched \<Rightarrow> u32" where
  "event_word a s = uwEventID (events s (UserEvent (unat a)))"

definition osEventFlagsNew :: "'h heap_ops \<Rightarrow> 'h \<times> sched \<Rightarrow> u32 \<times> 'h \<times> sched" where
  "osEventFlagsNew al = (\<lambda>(h, s).
     if intActive s then (0, h, s)
     else
       (let (pstEventCB, h1) = heap_alloc al h sizeof_EVENT_CB_S
        in if pstEventCB = 0 then (0, h1, s)
           else
             (let (ret, s1) = LOS_EventInit (event_at pstEventCB) s
              in if ret = LOS_OK then (pstEventCB, h1, s1)
                 else (0, snd (heap_free al h1 pstEventCB), s1))))"

definition osEventFlagsGetName :: "u32 \<Rightarrow> sched \<Rightarrow> string option" where
  "osEventFlagsGetName ef_id s = (if intActive s then None else None)"

text \<open>
  The write may switch to a task it woke; the flags returned are read when the caller runs again,
  so the first result is a function of the state it then finds.
\<close>

definition osEventFlagsSet :: "u32 \<Rightarrow> u32 \<Rightarrow> sched \<Rightarrow> (sched \<Rightarrow> u32) \<times> sched" where
  "osEventFlagsSet ef_id flags s =
     (if ef_id = 0 then (\<lambda>_. osFlagsErrorParameter, s)
      else
        (let (ret, s1) = LOS_EventWrite (event_at ef_id) flags s
         in (\<lambda>s2. if ret = LOS_OK then event_word ef_id s2 else osFlagsErrorResource, s1)))"

definition osEventFlagsClear :: "u32 \<Rightarrow> u32 \<Rightarrow> sched \<Rightarrow> u32 \<times> sched" where
  "osEventFlagsClear ef_id flags s =
     (if ef_id = 0 then (osFlagsErrorParameter, s)
      else
        (let rflags = event_word ef_id s; (ret, s1) = LOS_EventClear (event_at ef_id) (NOT flags) s
         in (if ret = LOS_OK then rflags else osFlagsErrorResource, s1)))"

definition osEventFlagsGet :: "u32 \<Rightarrow> sched \<Rightarrow> u32" where
  "osEventFlagsGet ef_id s = (if ef_id = 0 then 0 else event_word ef_id s)"

text \<open>The options of a wait as a mode of the kernel.\<close>

definition wait_mode :: "u32 \<Rightarrow> u32" where
  "wait_mode options =
     (let m = 0 OR (if options AND osFlagsWaitAll = osFlagsWaitAll then LOS_WAITMODE_AND else LOS_WAITMODE_OR)
      in if options AND osFlagsNoClear = osFlagsNoClear then m AND NOT LOS_WAITMODE_CLR
         else m OR LOS_WAITMODE_CLR)"

definition flags_status :: "u32 \<Rightarrow> u32" where
  "flags_status ret =
     (if ret = LOS_ERRNO_EVENT_PTR_NULL \<or> ret = LOS_ERRNO_EVENT_EVENTMASK_INVALID
         \<or> ret = LOS_ERRNO_EVENT_FLAGS_INVALID \<or> ret = LOS_ERRNO_EVENT_SETBIT_INVALID
      then osFlagsErrorParameter
      else if ret = LOS_ERRNO_EVENT_READ_IN_INTERRUPT \<or> ret = LOS_ERRNO_EVENT_READ_IN_LOCK
      then osFlagsErrorResource
      else if ret = LOS_ERRNO_EVENT_READ_TIMEOUT then osFlagsErrorTimeout
      else ret)"

definition osEventFlagsWait :: "u32 \<Rightarrow> u32 \<Rightarrow> u32 \<Rightarrow> u32 \<Rightarrow> sched \<Rightarrow> u32 os_result \<times> sched" where
  "osEventFlagsWait ef_id flags options timeout s =
     (if intActive s \<and> timeout \<noteq> 0 then (Status osFlagsErrorParameter, s)
      else if options > osFlagsWaitAny OR osFlagsWaitAll OR osFlagsNoClear
      then (Status osFlagsErrorParameter, s)
      else (let (r, s1) = LOS_EventRead (event_at ef_id) flags (wait_mode options) timeout s
            in (os_result_of flags_status r, s1)))"

definition osEventFlagsWait_resume :: "nat \<Rightarrow> u32 \<Rightarrow> u32 \<Rightarrow> u32 \<Rightarrow> sched \<Rightarrow> u32 \<times> sched" where
  "osEventFlagsWait_resume t ef_id flags options s =
     (let (ret, s1) = LOS_EventRead_resume t (UserEvent (unat ef_id)) flags (wait_mode options) s
      in (flags_status ret, s1))"

definition osEventFlagsDelete :: "'h heap_ops \<Rightarrow> u32 \<Rightarrow> 'h \<times> sched \<Rightarrow> osStatus_t \<times> 'h \<times> sched" where
  "osEventFlagsDelete al ef_id = (\<lambda>(h, s).
     if intActive s then (osErrorISR, h, s)
     else
       (let (d, s1) = LOS_EventDestroy (event_at ef_id) s;
            (f, h1) = heap_free al h ef_id
        in (if d \<noteq> LOS_OK \<or> f \<noteq> LOS_OK then osErrorParameter else osOK, h1, s1)))"

section \<open>Mutexes\<close>

definition osMutexNew :: "mux_state \<times> sched \<Rightarrow> nat option \<times> mux_state \<times> sched" where
  "osMutexNew = (\<lambda>(p, s).
     if intActive s then (None, p, s)
     else case LOS_MuxCreate True (p, s) of
            (ret, Some muxId, p1, s1) \<Rightarrow> (if ret = LOS_OK then Some (GET_MUX muxId) else None, p1, s1)
          | (ret, None, p1, s1) \<Rightarrow> (None, p1, s1))"

definition mux_status :: "u32 \<Rightarrow> osStatus_t" where
  "mux_status ret =
     (if ret = LOS_OK then osOK
      else if ret = LOS_ERRNO_MUX_INVALID then osErrorParameter
      else if ret = LOS_ERRNO_MUX_TIMEOUT then osErrorTimeout
      else osErrorResource)"

definition osMutexAcquire :: "nat option \<Rightarrow> u32 \<Rightarrow> mux_state \<times> sched
    \<Rightarrow> osStatus_t os_result \<times> mux_state \<times> sched" where
  "osMutexAcquire mutex_id timeout = (\<lambda>(p, s).
     case mutex_id of
       None \<Rightarrow> (Status osErrorParameter, p, s)
     | Some i \<Rightarrow>
         if intActive s then (Status osErrorISR, p, s)
         else (let (r, ps) = LOS_MuxPend (muxID (g_allMux p i)) timeout (p, s)
               in (os_result_of mux_status r, ps)))"

definition osMutexAcquire_resume :: "nat \<Rightarrow> sched \<Rightarrow> osStatus_t \<times> sched" where
  "osMutexAcquire_resume t s = (let (ret, s1) = LOS_MuxPend_resume t s in (mux_status ret, s1))"

definition release_status :: "u32 \<Rightarrow> osStatus_t" where
  "release_status ret =
     (if ret = LOS_OK then osOK
      else if ret = LOS_ERRNO_MUX_INVALID then osErrorParameter else osErrorResource)"

definition osMutexRelease :: "nat option \<Rightarrow> mux_state \<times> sched \<Rightarrow> osStatus_t \<times> mux_state \<times> sched" where
  "osMutexRelease mutex_id = (\<lambda>(p, s).
     case mutex_id of
       None \<Rightarrow> (osErrorParameter, p, s)
     | Some i \<Rightarrow>
         if intActive s then (osErrorISR, p, s)
         else (let (ret, ps) = LOS_MuxPost (muxID (g_allMux p i)) (p, s) in (release_status ret, ps)))"

definition osMutexGetOwner :: "nat option \<Rightarrow> mux_state \<times> sched \<Rightarrow> nat option" where
  "osMutexGetOwner mutex_id = (\<lambda>(p, s).
     if intActive s then None
     else case mutex_id of None \<Rightarrow> None | Some i \<Rightarrow> owner (g_allMux p i))"

definition osMutexDelete :: "nat option \<Rightarrow> mux_state \<times> sched \<Rightarrow> osStatus_t \<times> mux_state \<times> sched" where
  "osMutexDelete mutex_id = (\<lambda>(p, s).
     if intActive s then (osErrorISR, p, s)
     else case mutex_id of
       None \<Rightarrow> (osErrorParameter, p, s)
     | Some i \<Rightarrow> (let (ret, ps) = LOS_MuxDelete (muxID (g_allMux p i)) (p, s) in (release_status ret, ps)))"

section \<open>Semaphores\<close>

definition osSemaphoreNew :: "u32 \<Rightarrow> u32 \<Rightarrow> sem_state \<times> sched \<Rightarrow> nat option \<times> sem_state \<times> sched" where
  "osSemaphoreNew max_count initial_count = (\<lambda>(p, s).
     if initial_count > max_count \<or> max_count > ucast OS_SEM_COUNTING_MAX_COUNT \<or> max_count = 0
        \<or> intActive s then (None, p, s)
     else
       (case (if max_count = 1 then LOS_BinarySemCreate (ucast initial_count) True (p, s)
              else LOS_SemCreate (ucast initial_count) True (p, s)) of
          (ret, Some semId, p1, s1) \<Rightarrow> (if ret = LOS_OK then Some (GET_SEM semId) else None, p1, s1)
        | (ret, None, p1, s1) \<Rightarrow> (None, p1, s1)))"

definition osSemaphoreGetName :: "nat option \<Rightarrow> string option" where "osSemaphoreGetName semaphore_id = None"

definition sem_status :: "u32 \<Rightarrow> osStatus_t" where
  "sem_status ret =
     (if ret = LOS_OK then osOK
      else if ret = LOS_ERRNO_SEM_INVALID then osErrorParameter
      else if ret = LOS_ERRNO_SEM_TIMEOUT then osErrorTimeout
      else osErrorResource)"

definition osSemaphoreAcquire :: "nat option \<Rightarrow> u32 \<Rightarrow> sem_state \<times> sched
    \<Rightarrow> osStatus_t os_result \<times> sem_state \<times> sched" where
  "osSemaphoreAcquire semaphore_id timeout = (\<lambda>(p, s).
     case semaphore_id of
       None \<Rightarrow> (Status osErrorParameter, p, s)
     | Some i \<Rightarrow>
         if intActive s \<and> timeout \<noteq> 0 then (Status osErrorParameter, p, s)
         else (let (r, ps) = LOS_SemPend (ucast (semID (g_allSem p i))) timeout (p, s)
               in (os_result_of sem_status r, ps)))"

definition osSemaphoreAcquire_resume :: "nat \<Rightarrow> sched \<Rightarrow> osStatus_t \<times> sched" where
  "osSemaphoreAcquire_resume t s = (let (ret, s1) = LOS_SemPend_resume t s in (sem_status ret, s1))"

definition post_status :: "u32 \<Rightarrow> osStatus_t" where
  "post_status ret =
     (if ret = LOS_OK then osOK
      else if ret = LOS_ERRNO_SEM_INVALID then osErrorParameter else osErrorResource)"

definition osSemaphoreRelease :: "nat option \<Rightarrow> sem_state \<times> sched \<Rightarrow> osStatus_t \<times> sem_state \<times> sched" where
  "osSemaphoreRelease semaphore_id = (\<lambda>(p, s).
     case semaphore_id of
       None \<Rightarrow> (osErrorParameter, p, s)
     | Some i \<Rightarrow> (let (ret, ps) = LOS_SemPost (ucast (semID (g_allSem p i))) (p, s)
                  in (post_status ret, ps)))"

definition osSemaphoreGetCount :: "nat option \<Rightarrow> sem_state \<Rightarrow> u32" where
  "osSemaphoreGetCount semaphore_id p =
     (case semaphore_id of
        None \<Rightarrow> 0
      | Some i \<Rightarrow> if semStat (g_allSem p i) = 0 then 0 else ucast (semCount (g_allSem p i)))"

definition osSemaphoreDelete :: "nat option \<Rightarrow> sem_state \<times> sched \<Rightarrow> osStatus_t \<times> sem_state \<times> sched" where
  "osSemaphoreDelete semaphore_id = (\<lambda>(p, s).
     if intActive s then (osErrorISR, p, s)
     else case semaphore_id of
       None \<Rightarrow> (osErrorParameter, p, s)
     | Some i \<Rightarrow> (let (ret, ps) = LOS_SemDelete (ucast (semID (g_allSem p i))) (p, s)
                  in (post_status ret, ps)))"

section \<open>Message queues\<close>

datatype QueueAttribute = ATTR_CAPACITY | ATTR_MSGSIZE | ATTR_COUNT | ATTR_SPACE

text \<open>The attributes are their name; a NULL pointer and a NULL name are both None.\<close>

definition osMessageQueueNew :: "'h heap_ops \<Rightarrow> u32 \<Rightarrow> u32 \<Rightarrow> string option
    \<Rightarrow> queue_state \<times> 'h \<times> sched \<Rightarrow> nat option \<times> queue_state \<times> 'h \<times> sched" where
  "osMessageQueueNew al msg_count msg_size attr = (\<lambda>(p, h, s).
     if msg_count = 0 \<or> msg_size = 0 \<or> intActive s then (None, p, h, s)
     else case LOS_QueueCreate al attr (ucast msg_count) True 0 (ucast msg_size) (p, h, s) of
            (ret, Some queueId, phs) \<Rightarrow> (if ret = LOS_OK then Some (OsGetQueueHandle queueId) else None, phs)
          | (ret, None, phs) \<Rightarrow> (None, phs))"

definition queue_op_status :: "u32 \<Rightarrow> osStatus_t" where
  "queue_op_status ret =
     (if ret = LOS_OK then osOK
      else if ret = LOS_ERRNO_QUEUE_INVALID \<or> ret = LOS_ERRNO_QUEUE_NOT_CREATE then osErrorParameter
      else if ret = LOS_ERRNO_QUEUE_TIMEOUT then osErrorTimeout
      else osErrorResource)"

text \<open>The bytes of a message; the last result but two is the buffer, which a read fills.\<close>

definition osMessageQueueOp :: "nat option \<Rightarrow> (nat \<Rightarrow> u8) option \<Rightarrow> u32 \<Rightarrow> u32 \<Rightarrow> queue_state \<times> sched
    \<Rightarrow> osStatus_t os_result \<times> (nat \<Rightarrow> u8) option \<times> queue_state \<times> sched" where
  "osMessageQueueOp mq_id msg_ptr timeout rw = (\<lambda>(p, s).
     case (mq_id, msg_ptr) of
       (Some i, Some buf) \<Rightarrow>
         if intActive s \<and> timeout \<noteq> 0 then (Status osErrorParameter, msg_ptr, p, s)
         else
           (let q = g_allQueue p i; bufferSize = ucast (queueSize q) - 4;
                (r, buf1, _, p1, s1) =
                  (if rw = OS_QUEUE_WRITE
                   then LOS_QueueWriteCopy (ucast (queueID q)) msg_ptr bufferSize timeout (p, s)
                   else LOS_QueueReadCopy (ucast (queueID q)) msg_ptr (Some bufferSize) timeout (p, s))
            in (os_result_of queue_op_status r, Some buf1, p1, s1))
     | _ \<Rightarrow> (Status osErrorParameter, msg_ptr, p, s))"

text \<open>After the sleep of task \<open>t\<close>, with the queue and the size the call used.\<close>

definition osMessageQueueOp_resume :: "nat \<Rightarrow> u32 \<Rightarrow> (nat \<Rightarrow> u8) \<Rightarrow> u32 \<Rightarrow> u32 \<Rightarrow> queue_state \<times> sched
    \<Rightarrow> osStatus_t \<times> (nat \<Rightarrow> u8) \<times> queue_state \<times> sched" where
  "osMessageQueueOp_resume t qid buf bufferSize rw ps =
     (let ty = (if rw = OS_QUEUE_WRITE
                then OS_QUEUE_OPERATE_TYPE OS_QUEUE_WRITE OS_QUEUE_TAIL OS_QUEUE_NOT_POINT
                else OS_QUEUE_OPERATE_TYPE OS_QUEUE_READ OS_QUEUE_HEAD OS_QUEUE_NOT_POINT);
          (ret, buf1, _, ps1) = OsQueueOperate_resume t qid ty buf bufferSize ps
      in (queue_op_status ret, buf1, ps1))"

definition osMessageQueuePut :: "nat option \<Rightarrow> (nat \<Rightarrow> u8) option \<Rightarrow> u8 \<Rightarrow> u32 \<Rightarrow> queue_state \<times> sched
    \<Rightarrow> osStatus_t os_result \<times> (nat \<Rightarrow> u8) option \<times> queue_state \<times> sched" where
  "osMessageQueuePut mq_id msg_ptr msg_prio timeout = osMessageQueueOp mq_id msg_ptr timeout OS_QUEUE_WRITE"

definition osMessageQueueGet :: "nat option \<Rightarrow> (nat \<Rightarrow> u8) option \<Rightarrow> u32 \<Rightarrow> queue_state \<times> sched
    \<Rightarrow> osStatus_t os_result \<times> (nat \<Rightarrow> u8) option \<times> queue_state \<times> sched" where
  "osMessageQueueGet mq_id msg_ptr timeout = osMessageQueueOp mq_id msg_ptr timeout OS_QUEUE_READ"

definition osMessageQueueGetAttr :: "nat option \<Rightarrow> QueueAttribute \<Rightarrow> queue_state \<Rightarrow> u16" where
  "osMessageQueueGetAttr mq_id attr p =
     (case mq_id of
        None \<Rightarrow> 0
      | Some i \<Rightarrow>
          (let q = g_allQueue p i
           in if queueState q = OS_QUEUE_UNUSED then 0
              else case attr of
                ATTR_CAPACITY \<Rightarrow> queueLen q
              | ATTR_MSGSIZE \<Rightarrow> ucast (ucast (queueSize q) - (4 :: u32))
              | ATTR_COUNT \<Rightarrow> readWriteableCnt q OS_QUEUE_READ
              | ATTR_SPACE \<Rightarrow> readWriteableCnt q OS_QUEUE_WRITE))"

definition osMessageQueueGetCapacity :: "nat option \<Rightarrow> queue_state \<Rightarrow> u32" where
  "osMessageQueueGetCapacity mq_id p = ucast (osMessageQueueGetAttr mq_id ATTR_CAPACITY p)"
definition osMessageQueueGetMsgSize :: "nat option \<Rightarrow> queue_state \<Rightarrow> u32" where
  "osMessageQueueGetMsgSize mq_id p = ucast (osMessageQueueGetAttr mq_id ATTR_MSGSIZE p)"
definition osMessageQueueGetCount :: "nat option \<Rightarrow> queue_state \<Rightarrow> u32" where
  "osMessageQueueGetCount mq_id p = ucast (osMessageQueueGetAttr mq_id ATTR_COUNT p)"
definition osMessageQueueGetSpace :: "nat option \<Rightarrow> queue_state \<Rightarrow> u32" where
  "osMessageQueueGetSpace mq_id p = ucast (osMessageQueueGetAttr mq_id ATTR_SPACE p)"

definition queue_delete_status :: "u32 \<Rightarrow> osStatus_t" where
  "queue_delete_status ret =
     (if ret = LOS_OK then osOK
      else if ret = LOS_ERRNO_QUEUE_NOT_FOUND \<or> ret = LOS_ERRNO_QUEUE_NOT_CREATE then osErrorParameter
      else osErrorResource)"

definition osMessageQueueDelete :: "'h heap_ops \<Rightarrow> nat option \<Rightarrow> queue_state \<times> 'h \<times> sched
    \<Rightarrow> osStatus_t \<times> queue_state \<times> 'h \<times> sched" where
  "osMessageQueueDelete al mq_id = (\<lambda>(p, h, s).
     case mq_id of
       None \<Rightarrow> (osErrorParameter, p, h, s)
     | Some i \<Rightarrow>
         if intActive s then (osErrorISR, p, h, s)
         else (let (ret, phs) = LOS_QueueDelete al (ucast (queueID (g_allQueue p i))) (p, h, s)
               in (queue_delete_status ret, phs)))"

definition osMessageQueueGetName :: "nat option \<Rightarrow> queue_state \<Rightarrow> string option" where
  "osMessageQueueGetName mq_id p = (case mq_id of None \<Rightarrow> None | Some i \<Rightarrow> queueName (g_allQueue p i))"

section \<open>Thread flags\<close>

definition osThreadFlagsSet :: "nat option \<Rightarrow> u32 \<Rightarrow> sched \<Rightarrow> u32 \<times> sched" where
  "osThreadFlagsSet thread_id flags s =
     (case thread_id of
        None \<Rightarrow> (osFlagsErrorParameter, s)
      | Some t \<Rightarrow>
          (let eventSave = uwEventID (events s (TaskEvent t));
               (ret, s1) = LOS_EventWrite (Some (TaskEvent t)) flags s
           in (if ret = LOS_OK then eventSave OR flags
               else if ret = LOS_ERRNO_EVENT_SETBIT_INVALID then osFlagsErrorParameter
               else osFlagsErrorResource, s1)))"

definition osThreadFlagsClear :: "u32 \<Rightarrow> sched \<Rightarrow> u32 \<times> sched" where
  "osThreadFlagsClear flags s =
     (if intActive s then (osFlagsErrorUnknown, s)
      else
        (let e = TaskEvent (runTask s); saveFlags = uwEventID (events s e);
             (ret, s1) = LOS_EventClear (Some e) (NOT flags) s
         in (if ret = LOS_OK then saveFlags else osFlagsErrorResource, s1)))"

definition osThreadFlagsGet :: "sched \<Rightarrow> u32" where
  "osThreadFlagsGet s =
     (if intActive s then osFlagsErrorUnknown else uwEventID (events s (TaskEvent (runTask s))))"

text \<open>The value returned for the kernel's \<open>ret\<close>, in the state \<open>s\<close> after the read by task \<open>t\<close>.\<close>

definition thread_flags_status :: "nat \<Rightarrow> u32 \<Rightarrow> sched \<Rightarrow> u32" where
  "thread_flags_status t ret s =
     (if \<not> has ret LOS_ERRTYPE_ERROR then uwEventID (events s (TaskEvent t)) OR ret
      else if ret = LOS_ERRNO_EVENT_PTR_NULL \<or> ret = LOS_ERRNO_EVENT_SETBIT_INVALID
         \<or> ret = LOS_ERRNO_EVENT_EVENTMASK_INVALID \<or> ret = LOS_ERRNO_EVENT_FLAGS_INVALID
      then osFlagsErrorParameter
      else if ret = LOS_ERRNO_EVENT_READ_TIMEOUT then osFlagsErrorTimeout
      else osFlagsErrorResource)"

definition osThreadFlagsWait :: "u32 \<Rightarrow> u32 \<Rightarrow> u32 \<Rightarrow> sched \<Rightarrow> u32 os_result \<times> sched" where
  "osThreadFlagsWait flags options timeout s =
     (if intActive s then (Status osFlagsErrorUnknown, s)
      else if options > osFlagsWaitAny OR osFlagsWaitAll OR osFlagsNoClear
      then (Status osFlagsErrorParameter, s)
      else
        (let t = runTask s;
             (r, s1) = LOS_EventRead (Some (TaskEvent t)) flags (wait_mode options) timeout s
         in (os_result_of (\<lambda>ret. thread_flags_status t ret s1) r, s1)))"

definition osThreadFlagsWait_resume :: "nat \<Rightarrow> u32 \<Rightarrow> u32 \<Rightarrow> sched \<Rightarrow> u32 \<times> sched" where
  "osThreadFlagsWait_resume t flags options s =
     (let (ret, s1) = LOS_EventRead_resume t (TaskEvent t) flags (wait_mode options) s
      in (thread_flags_status t ret s1, s1))"

end
