(* ===== verification/Los_CmsisPool.thy ===== *)
theory Los_CmsisPool
  imports Los_CmsisIpc Los_QueueHeap
begin

text \<open>
  The memory pools of the CMSIS-RTOS2 interface (kal/cmsis/cmsis_liteos2.c). A pool is a control
  block and the memory of its blocks, each from the caller or from the kernel's heap; the first
  word of a free block is the address of the next one. The control blocks are kept by address,
  the words of the blocks in the memory of theory Los_Membox. A block shorter than a word would
  make the words overlap; the theorems are about the sizes for which they do not.
\<close>

section \<open>The pools and their operations\<close>

definition MP_ALLOC :: u32 where "MP_ALLOC = 1"
definition MD_ALLOC :: u32 where "MD_ALLOC = 2"
definition MEM_POOL_VALID :: u32 where "MEM_POOL_VALID = 0xFFEEFF00"

record MemPoolCB =
  poolInfo :: LOS_MEMBOX_INFO
  poolBase :: u32
  poolSize :: u32
  mp_status :: u32
  mp_name :: "string option"

definition sizeof_MemPoolCB :: u32 where "sizeof_MemPoolCB = 36"

record pool_mem =
  pool_cb :: "u32 \<Rightarrow> MemPoolCB"
  pool_words :: membox_mem

record osMemoryPoolAttr_t =
  mpa_name :: "string option"
  mpa_attr_bits :: u32
  mpa_cb_mem :: u32
  mpa_cb_size :: u32
  mpa_mp_mem :: u32
  mpa_mp_size :: u32

definition upd_pool :: "u32 \<Rightarrow> (MemPoolCB \<Rightarrow> MemPoolCB) \<Rightarrow> pool_mem \<Rightarrow> pool_mem" where
  "upd_pool mp f m = m\<lparr>pool_cb := (pool_cb m)(mp := f (pool_cb m mp))\<rparr>"

definition upd_words :: "(membox_mem \<Rightarrow> membox_mem) \<Rightarrow> pool_mem \<Rightarrow> pool_mem" where
  "upd_words f m = m\<lparr>pool_words := f (pool_words m)\<rparr>"

definition pool_valid :: "u32 \<Rightarrow> pool_mem \<Rightarrow> bool" where
  "pool_valid mp m \<longleftrightarrow> mp_status (pool_cb m mp) AND MEM_POOL_VALID = MEM_POOL_VALID"

text \<open>The end of \<open>osMemoryPoolNew\<close>: the control block and the list of all blocks.\<close>

definition pool_setup :: "u32 \<Rightarrow> u32 \<Rightarrow> u32 \<Rightarrow> string option \<Rightarrow> pool_mem \<Rightarrow> pool_mem" where
  "pool_setup mp block_count block_size name m =
     (let node = poolBase (pool_cb m mp);
          m1 = upd_pool mp (\<lambda>c. c\<lparr>poolSize := block_count * block_size, mp_name := name,
                 poolInfo := (poolInfo c)\<lparr>uwBlkCnt := 0, uwBlkNum := block_count,
                               uwBlkSize := block_size, stFreeList := node\<rparr>\<rparr>) m;
          (lastNode, w) = link_nodes (unat (block_count - 1)) block_size node (pool_words m1)
      in upd_pool mp (\<lambda>c. c\<lparr>mp_status := mp_status c OR MEM_POOL_VALID\<rparr>)
           (upd_words (\<lambda>_. set_node lastNode 0 w) m1))"

text \<open>None: the first block is written through a NULL pointer.\<close>

definition osMemoryPoolNew :: "'h heap_ops \<Rightarrow> u32 \<Rightarrow> u32 \<Rightarrow> osMemoryPoolAttr_t option \<Rightarrow> sched
    \<Rightarrow> pool_mem \<times> 'h \<Rightarrow> (u32 \<times> pool_mem \<times> 'h) option" where
  "osMemoryPoolNew al block_count block_size attr s = (\<lambda>(m, h).
     if intActive s then Some (0, m, h)
     else if block_count = 0 \<or> block_size = 0 then Some (0, m, h)
     else
       (let size = block_count * block_size;
            memCB = (case attr of None \<Rightarrow> False
                     | Some a \<Rightarrow> mpa_cb_mem a \<noteq> 0 \<and> mpa_cb_size a \<ge> sizeof_MemPoolCB);
            memMP = (case attr of None \<Rightarrow> False
                     | Some a \<Rightarrow> mpa_mp_mem a \<noteq> 0 \<and> mpa_mp_mem a AND 3 = 0 \<and> mpa_mp_size a \<ge> size);
            name = (case attr of None \<Rightarrow> None | Some a \<Rightarrow> mpa_name a);
            (mp, h1) = (if memCB then (case attr of None \<Rightarrow> 0 | Some a \<Rightarrow> mpa_cb_mem a, h)
                        else heap_alloc al h sizeof_MemPoolCB)
        in if mp = 0 then Some (0, m, h1)
           else
             (let m1 = upd_pool mp (\<lambda>c. c\<lparr>mp_status := if memCB then 0 else MP_ALLOC\<rparr>) m;
                  (base, h2) = (if memMP then (case attr of None \<Rightarrow> 0 | Some a \<Rightarrow> mpa_mp_mem a, h1)
                                else heap_alloc al h1 size);
                  m2 = upd_pool mp (\<lambda>c. c\<lparr>poolBase := base\<rparr>) m1
              in if \<not> memMP \<and> base = 0 \<and> \<not> memCB then Some (0, m2, snd (heap_free al h2 mp))
                 else
                   (let m3 = (if memMP then m2
                              else upd_pool mp (\<lambda>c. c\<lparr>mp_status := mp_status c OR MD_ALLOC\<rparr>) m2)
                    in if base = 0 then None
                       else Some (mp, pool_setup mp block_count block_size name m3, h2)))))"

definition osMemoryPoolAlloc :: "u32 \<Rightarrow> u32 \<Rightarrow> pool_mem \<Rightarrow> u32 \<times> pool_mem" where
  "osMemoryPoolAlloc mp timeout m =
     (if mp = 0 then (0, m)
      else if pool_valid mp m
      then
        (let node = stFreeList (poolInfo (pool_cb m mp))
         in if node \<noteq> 0
            then (node, upd_pool mp (\<lambda>c. c\<lparr>poolInfo := (poolInfo c)\<lparr>
                          stFreeList := box_node (pool_words m) node,
                          uwBlkCnt := uwBlkCnt (poolInfo c) + 1\<rparr>\<rparr>) m)
            else (node, m))
      else (0, m))"

definition osMemoryPoolFree :: "u32 \<Rightarrow> u32 \<Rightarrow> pool_mem \<Rightarrow> osStatus_t \<times> pool_mem" where
  "osMemoryPoolFree mp block m =
     (if mp = 0 \<or> block = 0 then (osErrorParameter, m)
      else if \<not> pool_valid mp m then (osErrorResource, m)
      else
        (let c = pool_cb m mp
         in if block < poolBase c \<or> block \<ge> poolBase c + poolSize c then (osErrorParameter, m)
            else (osOK,
              upd_words (set_node block (stFreeList (poolInfo c)))
                (upd_pool mp (\<lambda>c. c\<lparr>poolInfo := (poolInfo c)\<lparr>stFreeList := block,
                                      uwBlkCnt := uwBlkCnt (poolInfo c) - 1\<rparr>\<rparr>) m))))"

definition osMemoryPoolDelete :: "'h heap_ops \<Rightarrow> u32 \<Rightarrow> sched \<Rightarrow> pool_mem \<times> 'h
    \<Rightarrow> osStatus_t \<times> pool_mem \<times> 'h" where
  "osMemoryPoolDelete al mp s = (\<lambda>(m, h).
     if intActive s then (osErrorISR, m, h)
     else if mp = 0 then (osErrorParameter, m, h)
     else if \<not> pool_valid mp m then (osErrorResource, m, h)
     else
       (let c = pool_cb m mp;
            (m1, h1) = (if has (mp_status c) MD_ALLOC
                        then (upd_pool mp (\<lambda>c. c\<lparr>poolBase := 0\<rparr>) m, snd (heap_free al h (poolBase c)))
                        else (m, h));
            m2 = upd_pool mp (\<lambda>c. c\<lparr>mp_name := None, mp_status := clr (mp_status c) MEM_POOL_VALID\<rparr>) m1
        in (osOK, m2, if has (mp_status (pool_cb m2 mp)) MP_ALLOC then snd (heap_free al h1 mp) else h1)))"

definition osMemoryPoolGetCapacity :: "u32 \<Rightarrow> pool_mem \<Rightarrow> u32" where
  "osMemoryPoolGetCapacity mp m =
     (if mp = 0 then 0 else if \<not> pool_valid mp m then 0 else uwBlkNum (poolInfo (pool_cb m mp)))"

definition osMemoryPoolGetBlockSize :: "u32 \<Rightarrow> pool_mem \<Rightarrow> u32" where
  "osMemoryPoolGetBlockSize mp m =
     (if mp = 0 then 0 else if \<not> pool_valid mp m then 0 else uwBlkSize (poolInfo (pool_cb m mp)))"

definition osMemoryPoolGetCount :: "u32 \<Rightarrow> pool_mem \<Rightarrow> u32" where
  "osMemoryPoolGetCount mp m =
     (if mp = 0 then 0 else if \<not> pool_valid mp m then 0 else uwBlkCnt (poolInfo (pool_cb m mp)))"

definition osMemoryPoolGetSpace :: "u32 \<Rightarrow> pool_mem \<Rightarrow> u32" where
  "osMemoryPoolGetSpace mp m =
     (if mp = 0 then 0 else if \<not> pool_valid mp m then 0
      else uwBlkNum (poolInfo (pool_cb m mp)) - uwBlkCnt (poolInfo (pool_cb m mp)))"

definition osMemoryPoolGetName :: "u32 \<Rightarrow> sched \<Rightarrow> pool_mem \<Rightarrow> string option" where
  "osMemoryPoolGetName mp s m =
     (if mp = 0 then None else if intActive s then None
      else if pool_valid mp m then mp_name (pool_cb m mp) else None)"

section \<open>The shape of a pool\<close>

definition mp_blk :: "u32 \<Rightarrow> u32 \<Rightarrow> nat \<Rightarrow> u32" where
  "mp_blk base bsz k = base + of_nat k * bsz"

definition mp_blocks :: "u32 \<Rightarrow> u32 \<Rightarrow> nat \<Rightarrow> u32 list" where
  "mp_blocks base bsz n = map (mp_blk base bsz) [0..<n]"

definition mp_fits :: "u32 \<Rightarrow> u32 \<Rightarrow> nat \<Rightarrow> bool" where
  "mp_fits base bsz n \<longleftrightarrow> base \<noteq> 0 \<and> 4 \<le> unat bsz \<and> unat base + n * unat bsz < 2 ^ 32"

definition cb_blocks :: "MemPoolCB \<Rightarrow> u32 list" where
  "cb_blocks c = mp_blocks (poolBase c) (uwBlkSize (poolInfo c)) (unat (uwBlkNum (poolInfo c)))"

text \<open>A valid pool whose free blocks are \<open>free\<close>, in the order of the list.\<close>

definition mp_ok :: "u32 \<Rightarrow> pool_mem \<Rightarrow> u32 list \<Rightarrow> bool" where
  "mp_ok mp m free \<longleftrightarrow>
     (let c = pool_cb m mp; i = poolInfo c
      in mp \<noteq> 0 \<and> pool_valid mp m \<and> mp_fits (poolBase c) (uwBlkSize i) (unat (uwBlkNum i))
         \<and> poolSize c = uwBlkNum i * uwBlkSize i
         \<and> chain (box_node (pool_words m)) (stFreeList i) free \<and> distinct free
         \<and> set free \<subseteq> set (cb_blocks c)
         \<and> unat (uwBlkCnt i) + length free = unat (uwBlkNum i))"

lemma mp_blk_unat:
  assumes "mp_fits base bsz n" "k \<le> n"
  shows "unat (mp_blk base bsz k) = unat base + k * unat bsz"
proof -
  have "k * unat bsz \<le> n * unat bsz" using assms(2) by (simp add: mult_le_mono1)
  then have lt: "unat base + k * unat bsz < 2 ^ 32" using assms(1) unfolding mp_fits_def by linarith
  have "mp_blk base bsz k = of_nat (unat base + k * unat bsz)" by (simp add: mp_blk_def)
  then show ?thesis using lt by (simp only: unat_of_nat) (simp add: take_bit_nat_eq_self)
qed

lemma mp_blk_inj:
  assumes "mp_fits base bsz n" "j \<le> n" "k \<le> n" "mp_blk base bsz j = mp_blk base bsz k"
  shows "j = k"
proof -
  have "j * unat bsz = k * unat bsz"
    using mp_blk_unat [OF assms(1,2)] mp_blk_unat [OF assms(1,3)] assms(4) by (metis add_left_cancel)
  moreover have "unat bsz \<noteq> 0" using assms(1) unfolding mp_fits_def by linarith
  ultimately show ?thesis by simp
qed

lemma mp_blocks_props:
  assumes "mp_fits base bsz n"
  shows "distinct (mp_blocks base bsz n)" "length (mp_blocks base bsz n) = n" "0 \<notin> set (mp_blocks base bsz n)"
proof -
  have "inj_on (mp_blk base bsz) {0..<n}"
    by (rule inj_onI) (use mp_blk_inj [OF assms] in auto)
  then show "distinct (mp_blocks base bsz n)" by (simp add: mp_blocks_def distinct_map)
  show "length (mp_blocks base bsz n) = n" by (simp add: mp_blocks_def)
  have "mp_blk base bsz k \<noteq> 0" if "k < n" for k
  proof
    assume "mp_blk base bsz k = 0"
    then have "unat base = 0" using mp_blk_unat [OF assms, of k] that by simp
    then show False using assms by (simp add: mp_fits_def unat_eq_0)
  qed
  then show "0 \<notin> set (mp_blocks base bsz n)" unfolding mp_blocks_def by force
qed

text \<open>The range test of \<open>osMemoryPoolFree\<close> admits the blocks, and all addresses between them.\<close>

lemma mp_in_range:
  assumes "mp_fits base bsz (unat num)" "tot = num * bsz"
  shows "(base \<le> a \<and> a < base + tot) \<longleftrightarrow> unat base \<le> unat a \<and> unat a < unat base + unat num * unat bsz"
proof -
  have lt: "unat base + unat num * unat bsz < 2 ^ 32" using assms(1) by (simp add: mp_fits_def)
  have "base + tot = of_nat (unat base + unat num * unat bsz)" by (simp add: assms(2))
  then have "unat (base + tot) = unat base + unat num * unat bsz"
    using lt by (simp only: unat_of_nat) (simp add: take_bit_nat_eq_self)
  then show ?thesis by (simp add: word_le_nat_alt word_less_nat_alt)
qed

lemma mp_block_in_range:
  assumes "mp_fits base bsz (unat num)" "tot = num * bsz" "b \<in> set (mp_blocks base bsz (unat num))"
  shows "base \<le> b \<and> b < base + tot"
proof -
  from assms(3) obtain k where k: "k < unat num" "b = mp_blk base bsz k" by (auto simp: mp_blocks_def)
  have "Suc k * unat bsz \<le> unat num * unat bsz" using k(1) by (intro mult_le_mono1) simp
  moreover have "unat bsz > 0" using assms(1) by (simp add: mp_fits_def)
  ultimately show ?thesis
    using mp_blk_unat [OF assms(1), of k] k by (simp add: mp_in_range [OF assms(1,2)])
qed

lemma pool_sel [simp]:
  "pool_cb (upd_words f m) = pool_cb m" "pool_words (upd_words f m) = f (pool_words m)"
  "pool_cb (upd_pool mp g m) = (pool_cb m)(mp := g (pool_cb m mp))" "pool_words (upd_pool mp g m) = pool_words m"
  by (simp_all add: upd_words_def upd_pool_def)

section \<open>Allocating and freeing\<close>

lemma mp_alloc:
  assumes "mp_ok mp m free" "osMemoryPoolAlloc mp t m = (b, m')"
  shows "case free of [] \<Rightarrow> b = 0 \<and> m' = m
    | x # rest \<Rightarrow> b = x \<and> b \<noteq> 0 \<and> mp_ok mp m' rest \<and> cb_blocks (pool_cb m' mp) = cb_blocks (pool_cb m mp)"
proof -
  let ?i = "poolInfo (pool_cb m mp)"
  note ok = assms(1) [unfolded mp_ok_def Let_def]
  show ?thesis
  proof (cases free)
    case Nil
    then show ?thesis using ok assms(2) by (auto simp: osMemoryPoolAlloc_def Let_def)
  next
    case (Cons x rest)
    then have x: "stFreeList ?i = x" "x \<noteq> 0" "chain (box_node (pool_words m)) (box_node (pool_words m) x) rest"
      using ok by auto
    then have r: "b = x" "m' = upd_pool mp (\<lambda>c. c\<lparr>poolInfo := (poolInfo c)\<lparr>
        stFreeList := box_node (pool_words m) x, uwBlkCnt := uwBlkCnt (poolInfo c) + 1\<rparr>\<rparr>) m"
      using ok assms(2) by (auto simp: osMemoryPoolAlloc_def Let_def)
    have "unat (uwBlkCnt ?i) < unat (uwBlkNum ?i)" using ok Cons by auto
    then have "unat (uwBlkCnt ?i + 1) = unat (uwBlkCnt ?i) + 1"
      using word_inc_below(1) [of "uwBlkCnt ?i" "uwBlkNum ?i"] by (simp add: word_less_nat_alt)
    then have "mp_ok mp m' rest"
      using ok Cons x by (simp add: r mp_ok_def Let_def pool_valid_def cb_blocks_def)
    then show ?thesis using Cons r x(2) by (simp add: cb_blocks_def)
  qed
qed

lemma mp_free:
  assumes "mp_ok mp m free" "b \<in> set (cb_blocks (pool_cb m mp))" "osMemoryPoolFree mp b m = (r, m')"
  shows "r = osOK" "cb_blocks (pool_cb m' mp) = cb_blocks (pool_cb m mp)"
    "b \<notin> set free \<Longrightarrow> mp_ok mp m' (b # free)"
proof -
  let ?c = "pool_cb m mp" let ?i = "poolInfo ?c"
  note ok = assms(1) [unfolded mp_ok_def Let_def]
  have fit: "mp_fits (poolBase ?c) (uwBlkSize ?i) (unat (uwBlkNum ?i))" "poolSize ?c = uwBlkNum ?i * uwBlkSize ?i"
    using ok by auto
  note rg = mp_block_in_range [OF fit assms(2) [unfolded cb_blocks_def]]
  have b0: "b \<noteq> 0" using mp_blocks_props(3) [OF fit(1)] assms(2) by (auto simp: cb_blocks_def)
  have e: "r = osOK" "m' = upd_words (set_node b (stFreeList ?i)) (upd_pool mp (\<lambda>c. c\<lparr>poolInfo :=
      (poolInfo c)\<lparr>stFreeList := b, uwBlkCnt := uwBlkCnt (poolInfo c) - 1\<rparr>\<rparr>) m)"
    using assms(3) ok rg b0 by (auto simp: osMemoryPoolFree_def Let_def not_less not_le split: if_splits)
  show "r = osOK" by fact
  show "cb_blocks (pool_cb m' mp) = cb_blocks ?c" by (simp add: e cb_blocks_def)
  assume nb: "b \<notin> set free"
  have "card (set (b # free)) \<le> card (set (cb_blocks ?c))" by (rule card_mono) (use ok assms(2) in auto)
  also have "\<dots> \<le> unat (uwBlkNum ?i)"
    using card_length [of "cb_blocks ?c"] mp_blocks_props(2) [OF fit(1)] by (simp add: cb_blocks_def)
  finally have "length free < unat (uwBlkNum ?i)" using ok nb by (simp add: distinct_card)
  then have "unat (uwBlkCnt ?i) > 0" using ok by auto
  then have "unat (uwBlkCnt ?i - 1) = unat (uwBlkCnt ?i) - 1"
    using word_dec_above(1) [of "uwBlkCnt ?i"] by (simp add: word_less_nat_alt)
  with \<open>unat (uwBlkCnt ?i) > 0\<close> show "mp_ok mp m' (b # free)"
    using ok nb b0 assms(2) by (simp add: e mp_ok_def Let_def pool_valid_def cb_blocks_def set_node_def chain_upd)
qed

lemma mp_store:
  assumes "mp_ok mp m free" "b \<notin> set free"
  shows "mp_ok mp (upd_words (set_node b v) m) free"
  using assms by (simp add: mp_ok_def Let_def pool_valid_def set_node_def chain_upd)

section \<open>A client of a pool\<close>

text \<open>
  Any sequence of allocations, frees of blocks the program holds, and stores into them; the
  last argument is the set of blocks it holds.
\<close>

inductive mp_run :: "u32 \<Rightarrow> pool_mem \<Rightarrow> pool_mem \<Rightarrow> u32 set \<Rightarrow> bool" for mp m0 where
  mp_start: "mp_run mp m0 m0 {}"
| mp_take: "mp_run mp m0 m held \<Longrightarrow> osMemoryPoolAlloc mp t m = (b, m')
    \<Longrightarrow> mp_run mp m0 m' (if b = 0 then held else insert b held)"
| mp_give: "mp_run mp m0 m held \<Longrightarrow> b \<in> held \<Longrightarrow> osMemoryPoolFree mp b m = (r, m')
    \<Longrightarrow> mp_run mp m0 m' (held - {b})"
| mp_write: "mp_run mp m0 m held \<Longrightarrow> b \<in> held \<Longrightarrow> mp_run mp m0 (upd_words (set_node b v) m) held"

lemma mp_run_inv:
  assumes "mp_run mp m0 m held" "mp_ok mp m0 (cb_blocks (pool_cb m0 mp))"
  shows "\<exists>free. mp_ok mp m free \<and> cb_blocks (pool_cb m mp) = cb_blocks (pool_cb m0 mp)
    \<and> held = set (cb_blocks (pool_cb m0 mp)) - set free"
  using assms(1)
proof induction
  case mp_start
  then show ?case using assms(2) by auto
next
  case (mp_take m held t b m')
  then obtain free where f: "mp_ok mp m free" "cb_blocks (pool_cb m mp) = cb_blocks (pool_cb m0 mp)"
    "held = set (cb_blocks (pool_cb m0 mp)) - set free" by blast
  note A = mp_alloc [OF f(1) mp_take.hyps(2)]
  show ?case
  proof (cases free)
    case Nil
    then show ?thesis using A f by auto
  next
    case (Cons x rest)
    have "x \<in> set (cb_blocks (pool_cb m0 mp))" "x \<notin> set rest"
      using f(1,2) Cons by (auto simp: mp_ok_def Let_def)
    then show ?thesis using A f Cons by (intro exI [of _ rest]) auto
  qed
next
  case (mp_give m held b r m')
  then obtain free where f: "mp_ok mp m free" "cb_blocks (pool_cb m mp) = cb_blocks (pool_cb m0 mp)"
    "held = set (cb_blocks (pool_cb m0 mp)) - set free" by blast
  then have "b \<in> set (cb_blocks (pool_cb m mp))" "b \<notin> set free" using mp_give.hyps(2) by auto
  with mp_free(2,3) [OF f(1) _ mp_give.hyps(3)] f show ?case by (intro exI [of _ "b # free"]) auto
next
  case (mp_write m held b v)
  then obtain free where f: "mp_ok mp m free" "cb_blocks (pool_cb m mp) = cb_blocks (pool_cb m0 mp)"
    "held = set (cb_blocks (pool_cb m0 mp)) - set free" by blast
  then show ?case using mp_store [OF f(1)] mp_write.hyps(2) by (intro exI [of _ free]) auto
qed

section \<open>A sample\<close>

definition ex_mpool :: pool_mem where
  "ex_mpool = \<lparr>pool_cb = (\<lambda>_. \<lparr>poolInfo = \<lparr>uwBlkSize = 8, uwBlkNum = 2, uwBlkCnt = 0, nextMemBox = 0,
       stFreeList = 0x3000\<rparr>, poolBase = 0x3000, poolSize = 16, mp_status = MEM_POOL_VALID, mp_name = None\<rparr>),
     pool_words = ex_pool\<lparr>box_node := (\<lambda>_. 0)(0x3000 := 0x3008)\<rparr>\<rparr>"

lemma ex_mpool_blocks: "cb_blocks (pool_cb ex_mpool mp) = [0x3000, 0x3008]"
  by (simp add: ex_mpool_def cb_blocks_def mp_blocks_def mp_blk_def upt_rec)

lemma ex_mpool_ok: "mp_ok 0x100 ex_mpool (cb_blocks (pool_cb ex_mpool 0x100))"
  unfolding ex_mpool_blocks mp_ok_def Let_def
  by (simp add: ex_mpool_blocks) (simp add: ex_mpool_def mp_fits_def pool_valid_def)

section \<open>Creating a pool on the kernel's heap\<close>

lemma pool_setup_ok:
  assumes fit: "mp_fits base bsz (unat num)" and n: "num \<noteq> 0" and mp: "mp \<noteq> 0" "poolBase (pool_cb m mp) = base"
  shows "mp_ok mp (pool_setup mp num bsz name m) (mp_blocks base bsz (unat num))"
    "cb_blocks (pool_cb (pool_setup mp num bsz name m) mp) = mp_blocks base bsz (unat num)"
    "poolBase (pool_cb (pool_setup mp num bsz name m) mp) = base"
    "mp_status (pool_cb (pool_setup mp num bsz name m) mp) = mp_status (pool_cb m mp) OR MEM_POOL_VALID"
proof -
  let ?n = "unat num" and ?b = "mp_blk base bsz" and ?m = "pool_setup mp num bsz name m"
  obtain q w where l: "link_nodes (unat (num - 1)) bsz base (pool_words m) = (q, w)" by fastforce
  have n1: "unat (num - 1) = ?n - 1" "0 < ?n" using word_dec_above(1) [of num] n by (auto simp: unat_gt_0 word_gt_0)
  have inj: "j = k" if "j < ?n" "k < ?n" "?b j = ?b k" for j k
    using mp_blk_inj [OF fit, of j k] that by simp
  note li = link_nodes_inv [OF l, unfolded n1(1)]
  have q: "q = ?b (?n - 1)" using li(1) by (simp add: mp_blk_def)
  have links: "box_node w (?b j) = ?b (Suc j)" if "j < ?n - 1" for j
    unfolding mp_blk_def by (rule li(4)) (use that inj [unfolded mp_blk_def] in auto)
  have cb: "pool_cb ?m mp = (pool_cb m mp)\<lparr>poolSize := num * bsz, mp_name := name,
      poolInfo := (poolInfo (pool_cb m mp))\<lparr>uwBlkCnt := 0, uwBlkNum := num, uwBlkSize := bsz, stFreeList := base\<rparr>,
      mp_status := mp_status (pool_cb m mp) OR MEM_POOL_VALID\<rparr>"
    "pool_words ?m = set_node q 0 w"
    using l mp(2) by (simp_all add: pool_setup_def Let_def)
  have bl: "cb_blocks (pool_cb ?m mp) = mp_blocks base bsz ?n" using mp(2) by (simp add: cb cb_blocks_def)
  have "chain (box_node (set_node q 0 w)) (?b 0) (map ?b [0..<?n])"
  proof (rule chain_from_links)
    show "\<forall>j. Suc j < ?n \<longrightarrow> box_node (set_node q 0 w) (?b j) = ?b (Suc j)"
    proof (intro allI impI)
      fix j assume j: "Suc j < ?n"
      then have "?b j \<noteq> q" using inj [of j "?n - 1"] by (auto simp: q)
      then show "box_node (set_node q 0 w) (?b j) = ?b (Suc j)" using links [of j] j by (simp add: set_node_def)
    qed
    show "\<forall>j<?n. ?b j \<noteq> 0" using mp_blocks_props(3) [OF fit] unfolding mp_blocks_def by force
  qed (use n1 q in \<open>simp_all add: set_node_def\<close>)
  moreover have "pool_valid mp ?m" by (simp add: pool_valid_def cb(1) bit.conj_disj_distrib2)
  ultimately show "mp_ok mp ?m (mp_blocks base bsz ?n)"
    using mp mp_blocks_props(1,2) [OF fit] fit unfolding mp_ok_def Let_def bl
    by (simp add: cb) (simp add: mp_blocks_def mp_blk_def)
  show "cb_blocks (pool_cb ?m mp) = mp_blocks base bsz ?n" by (fact bl)
qed (simp_all add: pool_setup_def Let_def mp(2) split_beta)

lemma holds_less: "holds L m m' \<Longrightarrow> K \<subseteq>\<^sub>m L \<Longrightarrow> holds K m m'"
  unfolding holds_def map_le_def by (metis domI)

lemma holds_trans: "holds L m m1 \<Longrightarrow> holds L m1 m2 \<Longrightarrow> holds L m m2"
  by (simp add: holds_def)

lemma live_fits: "live_ok p sz m L \<Longrightarrow> pool_fits p sz"
  unfolding live_ok_def using heap_okD(1) repD(1) by blast

text \<open>
  C32. Creating a pool with the kernel's memory. On NULL the program holds what it held, so nothing
  is lost when only the second allocation fails; otherwise the control block and the blocks are two
  new blocks of the heap, of their sizes, and the pool is well formed with all its blocks free.
  Deleting the pool gives both back.
\<close>

theorem mempool_new:
  assumes "live_ok p sz h L" "\<not> intActive s" "num \<noteq> 0" "4 \<le> unat bsz" "unat num * unat bsz < 2 ^ 32"
  shows "\<exists>mp m' h'. osMemoryPoolNew (kernel_heap p) num bsz None s (m, h) = Some (mp, m', h')
    \<and> (if mp = 0 then live_ok p sz h' L \<and> holds L h h'
       else let base = poolBase (pool_cb m' mp) in
         L mp = None \<and> L base = None \<and> mp \<noteq> base
         \<and> live_ok p sz h' (L(mp \<mapsto> (36, False), base \<mapsto> (num * bsz, False))) \<and> holds L h h'
         \<and> mp_ok mp m' (mp_blocks base bsz (unat num))
         \<and> (\<exists>m'' h''. osMemoryPoolDelete (kernel_heap p) mp s (m', h') = (osOK, m'', h'')
              \<and> live_ok p sz h'' L \<and> holds L h' h'' \<and> \<not> pool_valid mp m''))"
proof -
  have b0: "bsz \<noteq> 0" using assms(4) by auto
  obtain mp h1 where a1: "heap_alloc (kernel_heap p) h sizeof_MemPoolCB = (mp, h1)" by fastforce
  note A1 = kernel_alloc [OF assms(1) a1]
  let ?m1 = "upd_pool mp (\<lambda>c. c\<lparr>mp_status := MP_ALLOC\<rparr>) m"
  obtain base h2 where a2: "heap_alloc (kernel_heap p) h1 (num * bsz) = (base, h2)" by fastforce
  consider "mp = 0" | "mp \<noteq> 0" "base = 0" | "mp \<noteq> 0" "base \<noteq> 0" by blast
  then show ?thesis
  proof cases
    case 1
    then show ?thesis using a1 A1 assms(1,2,3) b0 by (simp add: osMemoryPoolNew_def holds_def)
  next
    case 2
    with A1 have B: "LOS_MemAlloc p sizeof_MemPoolCB h = Some (mp, h1)"
      "live_ok p sz h1 (L(mp \<mapsto> (sizeof_MemPoolCB, False)))" by simp_all
    from kernel_alloc [OF B(2) a2] 2 have "h2 = h1" by simp
    moreover from lh.alloc_free [OF assms(1) B(1) 2(1)] obtain h3 where
      "LOS_MemFree p mp h1 = Some (LOS_OK, h3)" "live_ok p sz h3 L" "holds L h h3" by blast
    ultimately show ?thesis using a1 a2 2 assms(2,3) b0 by (simp add: osMemoryPoolNew_def kernel_heap_def)
  next
    case 3
    with A1 have B: "L mp = None" "live_ok p sz h1 (L(mp \<mapsto> (sizeof_MemPoolCB, False)))" "holds L h h1" by simp_all
    let ?L1 = "L(mp \<mapsto> (sizeof_MemPoolCB, False))" let ?L2 = "?L1(base \<mapsto> (num * bsz, False))"
    from kernel_alloc [OF B(2) a2] 3 have C: "?L1 base = None" "live_ok p sz h2 ?L2" "holds ?L1 h1 h2" by simp_all
    then have ne: "mp \<noteq> base" "L base = None" by (auto split: if_splits)
    have sub: "L \<subseteq>\<^sub>m ?L1" using B(1) by (auto simp: map_le_def)
    note h = holds_trans [OF B(3) holds_less [OF C(3) sub]]
    have l2: "?L2 base = Some (num * bsz, False)" by simp
    note live_range(3) [OF C(2) l2]
    moreover have "unat p + unat sz + 8 \<le> 2 ^ 32" using live_fits [OF assms(1)] by (simp add: pool_fits_def)
    moreover have "unat (num * bsz) = unat num * unat bsz" using assms(5) by (simp add: unat_mult_lem [symmetric])
    ultimately have fit: "mp_fits base bsz (unat num)" using assms(4) 3(2) by (simp add: mp_fits_def)
    let ?m3 = "upd_pool mp (\<lambda>c. c\<lparr>mp_status := mp_status c OR MD_ALLOC\<rparr>) (upd_pool mp (\<lambda>c. c\<lparr>poolBase := base\<rparr>) ?m1)"
    let ?m4 = "pool_setup mp num bsz None ?m3"
    have b3: "poolBase (pool_cb ?m3 mp) = base" by simp
    note S = pool_setup_ok [OF fit assms(3) 3(1) b3, of None]
    have new: "osMemoryPoolNew (kernel_heap p) num bsz None s (m, h) = Some (mp, ?m4, h2)"
      using a1 a2 3 assms(2,3) b0 by (simp add: osMemoryPoolNew_def)
    have st: "mp_status (pool_cb ?m4 mp) = 0xFFEEFF03"
      unfolding S(4) by (simp add: MP_ALLOC_def MD_ALLOC_def MEM_POOL_VALID_def)
    from kernel_free [OF C(2) l2] obtain h5 where d: "heap_free (kernel_heap p) h2 base = (LOS_OK, h5)"
      "live_ok p sz h5 (?L2(base := None))" "holds (?L2(base := None)) h2 h5" by blast
    have L1: "?L2(base := None) = ?L1" by (rule ext) (use ne in simp)
    have "?L1 mp = Some (sizeof_MemPoolCB, False)" by simp
    from kernel_free [OF d(2) [unfolded L1] this] obtain h6 where e: "heap_free (kernel_heap p) h5 mp = (LOS_OK, h6)"
      "live_ok p sz h6 (?L1(mp := None))" "holds (?L1(mp := None)) h5 h6" by blast
    have L0: "?L1(mp := None) = L" using B(1) by auto
    note holds_trans [OF holds_less [OF d(3) [unfolded L1] sub] e(3) [unfolded L0]]
    moreover obtain m5 where "osMemoryPoolDelete (kernel_heap p) mp s (?m4, h2) = (osOK, m5, h6)" "\<not> pool_valid mp m5"
      using st S(3) 3(1) assms(2) d(1) e(1)
      by (simp add: osMemoryPoolDelete_def pool_valid_def has_def clr_def MP_ALLOC_def MD_ALLOC_def MEM_POOL_VALID_def)
    ultimately show ?thesis
      using new 3(1) B(1) ne C(2) h S(1,3) e(2) [unfolded L0] by (simp add: Let_def sizeof_MemPoolCB_def)
  qed
qed

theorem mempool_new_witness:
  "\<exists>h h' mp m'. osMemoryPoolNew (kernel_heap 0x1000) 4 16 None ex_sched (ex_mpool, h) = Some (mp, m', h')
     \<and> (mp = 0 \<or> (\<exists>base. mp_ok mp m' (mp_blocks base 16 4)))"
proof -
  from ex_ring_block obtain h where h: "live_ok 0x1000 0x1000 h (\<lambda>_. None)" by blast
  have "\<not> intActive ex_sched" "(4 :: u32) \<noteq> 0" "4 \<le> unat (16 :: u32)" "unat (4 :: u32) * unat (16 :: u32) < 2 ^ 32"
    by simp_all
  note side = this
  have four: "unat (4 :: u32) = 4" by simp
  from mempool_new [OF h side, of ex_mpool] obtain mp m' h' where
    "osMemoryPoolNew (kernel_heap 0x1000) 4 16 None ex_sched (ex_mpool, h) = Some (mp, m', h')"
    "mp = 0 \<or> mp_ok mp m' (mp_blocks (poolBase (pool_cb m' mp)) 16 (unat (4 :: u32)))"
    by (auto simp: Let_def split: if_splits)
  then show ?thesis unfolding four by blast
qed

section \<open>What a client sees\<close>

text \<open>
  C33. Whatever a program does with the pool: it never gets a block it holds, it gets NULL exactly
  when it holds all of them, every block it holds can be freed, and the counters tell how many it
  holds and how many are left.
\<close>

theorem mempool_run:
  assumes "mp_run mp m0 m held" "mp_ok mp m0 (cb_blocks (pool_cb m0 mp))"
  shows "held \<subseteq> set (cb_blocks (pool_cb m0 mp))
    \<and> unat (osMemoryPoolGetCount mp m) = card held
    \<and> unat (osMemoryPoolGetSpace mp m) + card held = unat (osMemoryPoolGetCapacity mp m)
    \<and> (\<forall>t. case osMemoryPoolAlloc mp t m of
         (b, m') \<Rightarrow> if b = 0 then held = set (cb_blocks (pool_cb m0 mp))
                    else b \<in> set (cb_blocks (pool_cb m0 mp)) \<and> b \<notin> held)
    \<and> (\<forall>b\<in>held. fst (osMemoryPoolFree mp b m) = osOK)"
proof -
  let ?B = "cb_blocks (pool_cb m0 mp)" let ?i = "poolInfo (pool_cb m mp)"
  from mp_run_inv [OF assms] obtain free where f: "mp_ok mp m free" "cb_blocks (pool_cb m mp) = ?B"
    "held = set ?B - set free" by blast
  note ok = f(1) [unfolded mp_ok_def Let_def]
  have fit: "mp_fits (poolBase (pool_cb m mp)) (uwBlkSize ?i) (unat (uwBlkNum ?i))" using ok by simp
  have len: "card (set ?B) = unat (uwBlkNum ?i)" and sub: "set free \<subseteq> set ?B"
    using mp_blocks_props(1,2) [OF fit] f(2) ok by (simp_all add: cb_blocks_def distinct_card)
  have "card held = unat (uwBlkNum ?i) - length free"
    using f(3) len sub ok by (simp add: card_Diff_subset distinct_card)
  then have c: "unat (uwBlkCnt ?i) = card held" "length free + card held = unat (uwBlkNum ?i)"
    using ok by auto
  then have "unat (uwBlkNum ?i - uwBlkCnt ?i) = length free" by (simp add: unat_sub word_le_nat_alt)
  then have counts: "unat (osMemoryPoolGetCount mp m) = card held"
    "unat (osMemoryPoolGetSpace mp m) + card held = unat (osMemoryPoolGetCapacity mp m)"
    using ok c by (simp_all add: osMemoryPoolGetCount_def osMemoryPoolGetSpace_def osMemoryPoolGetCapacity_def)
  have "case osMemoryPoolAlloc mp t m of (b, m') \<Rightarrow> if b = 0 then held = set ?B else b \<in> set ?B \<and> b \<notin> held" for t
    using mp_alloc [OF f(1), of t "fst (osMemoryPoolAlloc mp t m)" "snd (osMemoryPoolAlloc mp t m)"] f(3) sub
    by (cases free) auto
  moreover have "\<forall>b\<in>held. fst (osMemoryPoolFree mp b m) = osOK"
    using mp_free(1) [OF f(1)] f(2,3) by (metis DiffD1 prod.collapse)
  ultimately show ?thesis using counts f(3) by blast
qed

theorem mempool_run_witness:
  "unat (osMemoryPoolGetSpace 0x100 (snd (osMemoryPoolAlloc 0x100 0 ex_mpool))) = 1"
proof -
  obtain b m' where a: "osMemoryPoolAlloc 0x100 0 ex_mpool = (b, m')" by fastforce
  then have b: "b = 0x3000" "osMemoryPoolGetCapacity 0x100 m' = 2"
    by (auto simp: osMemoryPoolAlloc_def osMemoryPoolGetCapacity_def ex_mpool_def pool_valid_def upd_pool_def)
  from mp_take [OF mp_start a] have "mp_run 0x100 ex_mpool m' {0x3000}" using b(1) by simp
  from mempool_run [OF this ex_mpool_ok] show ?thesis using b(2) a by simp
qed

text \<open>
  A second free of a block is accepted, whatever the pool: it makes the block its own
  successor in the list of free blocks, and the next two allocations return the same block.
\<close>

theorem mempool_double_free:
  assumes "mp_ok mp m free" "b \<in> set (cb_blocks (pool_cb m mp))" "b \<notin> set free"
    and "osMemoryPoolFree mp b m = (r1, m1)" "osMemoryPoolFree mp b m1 = (r2, m2)"
    and "osMemoryPoolAlloc mp t1 m2 = (a1, m3)" "osMemoryPoolAlloc mp t2 m3 = (a2, m4)"
  shows "r1 = osOK \<and> r2 = osOK \<and> a1 = b \<and> a2 = b"
proof -
  note F = mp_free [OF assms(1,2,4)]
  have ok1: "mp_ok mp m1 (b # free)" by (rule F(3) [OF assms(3)])
  then have h: "stFreeList (poolInfo (pool_cb m1 mp)) = b" "b \<noteq> 0" "mp \<noteq> 0" "pool_valid mp m1"
    by (simp_all add: mp_ok_def Let_def)
  have "r2 = osOK" using mp_free(1) [OF ok1 _ assms(5)] assms(2) F(2) by simp
  then have m2: "m2 = upd_words (set_node b b) (upd_pool mp (\<lambda>c. c\<lparr>poolInfo :=
      (poolInfo c)\<lparr>stFreeList := b, uwBlkCnt := uwBlkCnt (poolInfo c) - 1\<rparr>\<rparr>) m1)"
    using assms(5) h by (auto simp: osMemoryPoolFree_def Let_def split: if_splits)
  have m3: "a1 = b" "box_node (pool_words m3) b = b" "stFreeList (poolInfo (pool_cb m3 mp)) = b" "pool_valid mp m3"
    using assms(6) h by (auto simp: m2 osMemoryPoolAlloc_def Let_def pool_valid_def set_node_def)
  then have "a2 = b" using assms(7) h by (auto simp: osMemoryPoolAlloc_def Let_def)
  with m3 F(1) \<open>r2 = osOK\<close> show ?thesis by simp
qed

theorem mempool_double_free_witness:
  "\<exists>m a. osMemoryPoolAlloc 0x100 0 ex_mpool = (a, m)
     \<and> fst (osMemoryPoolAlloc 0x100 0 (snd (osMemoryPoolFree 0x100 a (snd (osMemoryPoolFree 0x100 a m))))) = a"
proof -
  obtain b m where a: "osMemoryPoolAlloc 0x100 0 ex_mpool = (b, m)" by fastforce
  from mp_alloc [OF ex_mpool_ok a] have A: "b = 0x3000" "mp_ok 0x100 m [0x3008]"
    "cb_blocks (pool_cb m 0x100) = [0x3000, 0x3008]" by (simp_all add: ex_mpool_blocks)
  obtain r1 m1 where f1: "osMemoryPoolFree 0x100 b m = (r1, m1)" by fastforce
  obtain r2 m2 where f2: "osMemoryPoolFree 0x100 b m1 = (r2, m2)" by fastforce
  obtain a1 m3 where a1: "osMemoryPoolAlloc 0x100 0 m2 = (a1, m3)" by fastforce
  obtain a2 m4 where a2: "osMemoryPoolAlloc 0x100 0 m3 = (a2, m4)" by fastforce
  from mempool_double_free [OF A(2) _ _ f1 f2 a1 a2] A have "a1 = b" by simp
  then show ?thesis using a f1 f2 a1 by auto
qed

end
