(* ===== verification/Los_CmsisProps.thy ===== *)
theory Los_CmsisProps
  imports Los_CmsisPool Los_TickProps
begin

text \<open>
  What the calls of the CMSIS-RTOS2 interface do for an application: the lock of the scheduler and
  its restoring, the two scales of priorities, and the limit of a semaphore.
\<close>

section \<open>What a reschedule leaves alone\<close>

definition same_config :: "sched \<Rightarrow> sched \<Rightarrow> bool" where
  "same_config s s' \<longleftrightarrow> g_losTaskLock s' = g_losTaskLock s \<and> g_taskMaxNum s' = g_taskMaxNum s
     \<and> g_taskScheduled s' = g_taskScheduled s \<and> intActive s' = intActive s
     \<and> (\<forall>x. has (st s' x) (flag UNUSED) = has (st s x) (flag UNUSED))"

lemma same_config_refl [simp]: "same_config s s"
  by (simp add: same_config_def)

lemma same_config_trans: "same_config s s1 \<Longrightarrow> same_config s1 s2 \<Longrightarrow> same_config s s2"
  by (simp add: same_config_def)

lemma same_config_steps [simp]:
  "same_config s (OsSchedTaskEnQueue t s)" "same_config s (OsSchedTaskDeQueue t s)"
  "same_config s (OsTimeSliceUpdate t c s)" "same_config s (OsSchedSetNextExpireTime i e s)"
  "same_config s (OsAdd2SortLink n a w ty s)" "same_config s (s\<lparr>g_schedResponseTime := r\<rparr>)"
  by (auto simp: same_config_def EnQueue_tcb DeQueue_tcb OsTimeSliceUpdate_def sched_assert_def
      OsSchedSetNextExpireTime_def GetCurrSchedTimeCycle_eq OsAdd2SortLink_def SET_SORTLIST_VALUE_def set_link_def
      Let_def case_prod_beta split: option.split SortLinkType.split)

lemma same_config_switch [simp]: "same_config s (switch_out s)" "same_config s (switch_in r s)"
proof -
  let ?s1 = "snd (OsGetCurrSchedTimeCycle s)"
  let ?s2 = "OsTimeSliceUpdate (runTask s) (fst (OsGetCurrSchedTimeCycle s)) ?s1"
  have "same_config s ?s1" by (simp add: same_config_def GetCurrSchedTimeCycle_eq)
  then have u: "same_config s ?s2" by (rule same_config_trans) simp
  have "switch_out s \<in> {OsAdd2SortLink (TaskNode (runTask s)) (startTime (tcb ?s2 (runTask s)))
      (waitTimes (tcb ?s2 (runTask s))) OS_SORT_LINK_TASK ?s2, OsSchedTaskEnQueue (runTask s) ?s2, ?s2}"
    by (simp add: switch_out_def Let_def case_prod_beta)
  then show "same_config s (switch_out s)" using u same_config_trans [OF u same_config_steps(1)]
      same_config_trans [OF u same_config_steps(5)] by auto
  define m where "m = OsGetTopTask s"
  have n: "same_config s (s\<lparr>newTask := m\<rparr>)"
    "same_config s (upd_tcb m (\<lambda>c. c\<lparr>startTime := v\<rparr>) (status_set m (flag RUNNING) (status_clr r (flag RUNNING) (s\<lparr>newTask := m\<rparr>))))"
    for v by (auto simp: same_config_def status_defs)
  show "same_config s (switch_in r s)"
    using same_config_trans [OF n(1) same_config_steps(2)] same_config_trans [OF n(2) same_config_steps(2)]
    by (simp add: switch_in_def Let_def m_def)
qed

lemma same_config_Schedule: "same_config s (LOS_Schedule s)"
proof -
  let ?s0 = "s\<lparr>g_sysNeedSched := False\<rparr>"
  let ?s6 = "switch_in (runTask s) (switch_out ?s0)"
  define z where "z = snd (OsSchedTaskSwitch ?s0)"
  obtain i e r where z: "z = OsSchedSetNextExpireTime i e (?s6\<lparr>g_schedResponseTime := r\<rparr>)"
    by (simp add: z_def TaskSwitch_split Let_def)
  have n: "same_config x (x\<lparr>g_sysNeedSched := b\<rparr>)" "same_config x (x\<lparr>runTask := t\<rparr>)" for x b t
    by (simp_all add: same_config_def)
  have "same_config ?s6 z" unfolding z by (rule same_config_trans [OF same_config_steps(6,4)])
  then have "same_config s z"
    using same_config_trans [OF n(1) same_config_trans [OF same_config_switch]] same_config_trans by blast
  then have "same_config s (ArchTaskSchedule s)"
    using n same_config_trans [OF _ n(2), of s z]
    by (simp add: ArchTaskSchedule_def case_prod_beta z_def)
  then show ?thesis by (simp add: LOS_Schedule_def)
qed

section \<open>The lock of the scheduler\<close>

text \<open>
  C29. Taking the lock and restoring what it returned. When the scheduler was unlocked it is
  unlocked again, after a reschedule. When it was locked already, \<open>osKernelLock\<close> does not lock it
  once more but \<open>osKernelRestoreLock\<close> does, so the pair leaves it one level deeper: the outer
  \<open>osKernelUnlock\<close> then fails and the scheduler stays locked.
\<close>

theorem kernel_lock_restore:
  assumes "g_taskScheduled s" "\<not> intActive s" "osKernelLock s = (r, s1)" "osKernelRestoreLock r s1 = (r', s2)"
  shows "if g_losTaskLock s = 0
    then r = KERNEL_UNLOCKED \<and> r' = KERNEL_UNLOCKED \<and> s2 = LOS_Schedule s \<and> g_losTaskLock s2 = 0
    else r = KERNEL_LOCKED \<and> r' = KERNEL_LOCKED \<and> s2 = s\<lparr>g_losTaskLock := g_losTaskLock s + 1\<rparr>
      \<and> (g_losTaskLock s < 0xFFFF \<longrightarrow> osKernelUnlock s2 = (status_int osError, s)
          \<and> osKernelGetState k s = osKernelLocked)"
proof (cases "g_losTaskLock s = 0")
  case True
  have e: "s\<lparr>g_losTaskLock := 0\<rparr> = s" using True by (metis sched.surjective sched.update_convs(17))
  moreover have "g_losTaskLock (LOS_Schedule s) = 0" using same_config_Schedule [of s] True by (simp add: same_config_def)
  ultimately show ?thesis
    using assms True by (auto simp: osKernelLock_def osKernelRestoreLock_def LOS_TaskLock_def LOS_TaskUnlock_def
        Let_def KERNEL_UNLOCKED_def e)
next
  case False
  then have "r = KERNEL_LOCKED" "r' = KERNEL_LOCKED" "s2 = s\<lparr>g_losTaskLock := g_losTaskLock s + 1\<rparr>"
    using assms by (auto simp: osKernelLock_def osKernelRestoreLock_def LOS_TaskLock_def KERNEL_UNLOCKED_def
        KERNEL_LOCKED_def word_gt_0)
  moreover have "g_losTaskLock s + 1 > 0" if "g_losTaskLock s < 0xFFFF"
    using word_inc_below(1) [OF that] that by (simp add: word_less_nat_alt)
  ultimately show ?thesis
    using assms(1,2) False by (auto simp: osKernelUnlock_def LOS_TaskUnlock_def Let_def osKernelGetState_def word_gt_0)
qed

theorem kernel_lock_restore_witness:
  "\<exists>s1 s2. osKernelLock (ex_sched\<lparr>g_losTaskLock := 1\<rparr>) = (KERNEL_LOCKED, s1)
     \<and> osKernelRestoreLock KERNEL_LOCKED s1 = (KERNEL_LOCKED, s2) \<and> fst (osKernelUnlock s2) = status_int osError"
proof -
  let ?s = "ex_sched\<lparr>g_losTaskLock := 1\<rparr>"
  obtain r s1 where a: "osKernelLock ?s = (r, s1)" by fastforce
  obtain r' s2 where b: "osKernelRestoreLock r s1 = (r', s2)" by fastforce
  have "g_taskScheduled ?s" "\<not> intActive ?s" by simp_all
  from kernel_lock_restore [OF this a b, of osKernelReady] a b show ?thesis by (auto simp: word_less_nat_alt)
qed

section \<open>The priorities of threads\<close>

lemma ucast_minus_one [simp]: "(ucast (- 1 :: i32) :: u16) = 0xFFFF"
  by code_simp

lemma priority_conv:
  assumes "0 \<le> sint p" "sint p \<le> 56"
  shows "(ISVALID_LOS_PRIORITY (LOS_PRIORITY p) \<longleftrightarrow> 4 \<le> sint p \<and> sint p \<le> 33)
    \<and> (ISVALID_LOS_PRIORITY (LOS_PRIORITY p) \<longrightarrow>
         CMSIS_PRIORITY (LOS_PRIORITY p) = p \<and> int (unat (LOS_PRIORITY p)) = 34 - sint p)"
proof -
  obtain k where k: "p = of_nat k" "k \<le> 56"
  proof
    show "p = of_nat (nat (sint p))" using assms(1) by simp
    show "nat (sint p) \<le> 56" using assms(2) by simp
  qed
  have "k \<in> set [0..<57]" using k(2) by simp
  then show ?thesis unfolding k(1)
    by (simp add: upt_rec) (elim disjE; simp add: ISVALID_LOS_PRIORITY_def LOS_PRIORITY_def CMSIS_PRIORITY_def
      LOSCFG_BASE_CORE_TSK_DEFAULT_PRIO_def osPriorityNormal_def OS_TASK_PRIORITY_HIGHEST_def
      OS_TASK_PRIORITY_LOWEST_def word_less_nat_alt)
qed

lemma unat_ucast_u16: "unat (c :: u32) \<le> 0xFFFF \<Longrightarrow> unat (ucast c :: u16) = unat c"
  by (simp add: unsigned_ucast_eq take_bit_nat_eq_self)

lemma unat_ucast_small: "i < 6 \<Longrightarrow> unat (ucast (of_nat i :: u16) :: u32) = i"
  by (simp add: unsigned_ucast_eq unat_of_nat take_bit_nat_eq_self)

text \<open>
  The two scales of priorities. Of the priorities of CMSIS, from idle (1) to the one reserved for
  interrupts (56), exactly 4 to 33 are accepted; on these the conversion to the kernel's scale turns
  the order round, and the conversion back is its inverse.
\<close>

theorem priority_scale:
  assumes "0 \<le> sint p" "sint p \<le> 56"
  shows "(ISVALID_LOS_PRIORITY (LOS_PRIORITY p) \<longleftrightarrow> 4 \<le> sint p \<and> sint p \<le> 33)
    \<and> (ISVALID_LOS_PRIORITY (LOS_PRIORITY p) \<longrightarrow>
         CMSIS_PRIORITY (LOS_PRIORITY p) = p \<and> int (unat (LOS_PRIORITY p)) = 34 - sint p)"
  using priority_conv [OF assms] .

theorem priority_scale_witness:
  "ISVALID_LOS_PRIORITY (LOS_PRIORITY 33) \<and> \<not> ISVALID_LOS_PRIORITY (LOS_PRIORITY 40)"
  using priority_scale [of 33] priority_scale [of 40] by simp

text \<open>
  C30. A priority set is the priority read back. On a thread that the kernel lets an application
  change, and for a priority of the accepted range, the call succeeds, keeps the invariant, changes no other
  thread's priority, and \<open>osThreadGetPriority\<close> answers the priority that was set.
\<close>

theorem thread_priority:
  assumes "kern_ok s" "\<not> intActive s" "4 \<le> sint p" "sint p \<le> 33"
    and tid: "taskID (tcb s t) = tid" "OS_TCB_FROM_TID tid = t" "tid \<noteq> g_idleTaskID s" "tid \<noteq> g_swtmrTaskID s"
    and "tid < g_taskMaxNum s" "\<not> has (st s t) (flag UNUSED OR flag SYSTEM_TASK)"
    and "osThreadSetPriority (Some t) p s = (r, s')"
  shows "r = osOK \<and> kern_ok s' \<and> osThreadGetPriority (Some t) s' = p
    \<and> (\<forall>x. x \<noteq> t \<longrightarrow> priority (tcb s' x) = priority (tcb s x))"
proof -
  let ?q = "LOS_PRIORITY p"
  have v: "ISVALID_LOS_PRIORITY ?q" "CMSIS_PRIORITY ?q = p" using priority_conv [of p] assms(3,4) by simp_all
  then have q: "?q \<le> OS_TASK_PRIORITY_LOWEST" by (simp add: ISVALID_LOS_PRIORITY_def less_imp_le)
  obtain ret s1 where e: "LOS_TaskPriSet tid ?q s = (ret, s1)" by fastforce
  note R = PriSet_result [OF assms(1) q tid(3,4) assms(9) tid(2) [symmetric] tid(1) assms(10) e]
  have s1: "r = osOK" "s' = s1"
    using assms(2,11) v(1) tid(1) e R by (simp_all add: osThreadSetPriority_def priority_status_def
        LOS_ERRNO_TSK_PRIOR_ERROR_def LOS_ERRNO_TSK_OPERATE_SYSTEM_TASK_def LOS_ERRNO_TSK_ID_INVALID_def
        LOS_ERRNO_TSK_NOT_CREATED_def)
  define m where "m = snd (OsSchedModifyTaskSchedParam t ?q s)"
  have sm: "same_config s m" "taskID (tcb m x) = taskID (tcb s x)" for x
    by (auto simp: m_def OsSchedModifyTaskSchedParam_def set_priority_def same_config_def EnQueue_tcb DeQueue_tcb)
  have k: "kern_ok m"
    using kern_ok_Modify(1) [OF assms(1), of t ?q] q tid(1,3)
    by (simp add: m_def is_idle_def OS_TASK_PRIORITY_LOWEST_def word_le_nat_alt)
  have "s1 = LOS_Schedule m \<or> s1 = m" using R by (auto simp: Let_def m_def split: if_splits)
  then have c: "same_config s s1" "taskID (tcb s1 t) = tid"
    using sm same_config_trans [OF sm(1) same_config_Schedule] Schedule_status(3) [OF k] tid(1) by auto
  have "LOS_TaskPriGet (taskID (tcb s1 t)) s1 = ?q"
    using c R assms(9,10) tid(2) by (auto simp: same_config_def LOS_TaskPriGet_def OS_CHECK_TSK_PID_NOIDLE_def)
  moreover have "?q \<noteq> ucast OS_INVALID" "\<not> ?q > OS_TASK_PRIORITY_LOWEST"
    using q by (auto simp: OS_TASK_PRIORITY_LOWEST_def not_less)
  ultimately have "osThreadGetPriority (Some t) s1 = p"
    using c(1) assms(2) v(2) by (simp add: osThreadGetPriority_def same_config_def Let_def)
  moreover have "kern_ok s1" "\<forall>x. priority (tcb s1 x) = (if x = t then ?q else priority (tcb s x))" using R by blast+
  ultimately show ?thesis by (simp only: s1) simp
qed

theorem thread_priority_witness:
  "osThreadGetPriority (Some 2) (snd (osThreadSetPriority (Some 2) 30 ex_sched)) = 30"
proof -
  obtain r s' where e: "osThreadSetPriority (Some 2) 30 ex_sched = (r, s')" by fastforce
  have "taskID (tcb ex_sched 2) = 2" "OS_TCB_FROM_TID 2 = 2" "2 \<noteq> g_idleTaskID ex_sched" "2 \<noteq> g_swtmrTaskID ex_sched"
    "2 < g_taskMaxNum ex_sched" "\<not> has (st ex_sched 2) (flag UNUSED OR flag SYSTEM_TASK)"
    by (simp_all add: ex_tasks_def OS_TCB_FROM_TID_def word_less_nat_alt)
  from thread_priority [OF ex_kern_ok _ _ _ this e] e show ?thesis by simp
qed

section \<open>The limit of a semaphore\<close>

text \<open>
  C31. Creating a semaphore, on every branch. NULL comes back exactly when the call comes from an
  interrupt, the limit is zero or above 65535, the initial count is above the limit, or all blocks
  are in use; then nothing changes. Otherwise the semaphore is an unused block with the initial count and
  no waiters; the invariant and the other semaphores stay. Its limit is the one asked for only
  when that is 1 or 65535: every other limit is replaced by 65535.
\<close>

theorem semaphore_new:
  assumes "sem_inv p s" "osSemaphoreNew lim c (p, s) = (x, p', s')"
  shows "(x = None \<longleftrightarrow> intActive s \<or> lim = 0 \<or> lim > 0xFFFF \<or> c > lim \<or> (\<forall>i<6. sem_used p i))
    \<and> (case x of
      None \<Rightarrow> p' = p \<and> s' = s
    | Some i \<Rightarrow> i < 6 \<and> \<not> sem_used p i \<and> sem_used p' i \<and> sem_inv p' s'
        \<and> sem_view i (p', s') = (unat c, if lim = 1 then 1 else 0xFFFF, [])
        \<and> (\<forall>j. j \<noteq> i \<longrightarrow> sem_view j (p', s') = sem_view j (p, s)))"
proof -
  let ?bad = "c > lim \<or> lim > 0xFFFF \<or> lim = 0 \<or> intActive s"
  let ?n = "(if lim = 1 then 1 else 0xFFFF) :: u16"
  have L: "ucast OS_SEM_COUNTING_MAX_COUNT = (0xFFFF :: u32)" by (simp add: OS_SEM_COUNTING_MAX_COUNT_def)
  have e: "osSemaphoreNew lim c (p, s) = (if ?bad then (None, p, s)
      else case OsSemCreate (ucast c) ?n True (p, s) of
          (ret, Some semId, p1, s1) \<Rightarrow> (if ret = LOS_OK then Some (GET_SEM semId) else None, p1, s1)
        | (ret, None, p1, s1) \<Rightarrow> (None, p1, s1))"
    by (simp add: osSemaphoreNew_def L LOS_BinarySemCreate_def LOS_SemCreate_def
        OS_SEM_COUNTING_MAX_COUNT_def OS_SEM_BINARY_MAX_COUNT_def)
  show ?thesis
  proof (cases ?bad)
    case True
    then show ?thesis using assms(2) e by auto
  next
    case False
    then have uc: "unat c \<le> unat lim" "unat lim \<le> 0xFFFF" "lim \<noteq> 0" by (simp_all add: word_less_nat_alt not_less word_le_nat_alt)
    then have w: "unat (ucast c :: u16) = unat c" by (simp add: unat_ucast_u16)
    have le: "\<not> (ucast c :: u16) > ?n" using uc w by (auto simp: word_less_nat_alt)
    have pool: "semp.pool_ok p" using assms(1) by (simp add: sem_inv_def)
    show ?thesis
    proof (cases "g_unusedSemList p")
      case Nil
      then have "\<forall>i<6. sem_used p i" using semp.exhausted_iff [OF pool] by simp
      then show ?thesis using assms(2) e False le Nil by (auto simp: OsSemCreate_def)
    next
      case (Cons i rest)
      then have i: "i < 6" "\<not> sem_used p i" using pool by (auto simp: semp.pool_ok_def)
      have id: "semID (g_allSem p i) = of_nat i" using assms(1) i(1) by (simp add: sem_inv_def)
      let ?p = "upd_sem i (\<lambda>c'. c'\<lparr>semCount := ucast c, semStat := OS_SEM_USED, maxSemCount := ?n\<rparr>) (p\<lparr>g_unusedSemList := rest\<rparr>)"
      let ?s = "upd_list (SemList i) (\<lambda>_. []) s"
      have cr: "OsSemCreate (ucast c) ?n True (p, s) = (LOS_OK, Some (ucast (of_nat i :: u16)), ?p, ?s)"
        using le Cons id by (simp add: OsSemCreate_def Let_def upd_sem_def)
      have g: "GET_SEM (ucast (of_nat i :: u16)) = i" using i(1) by (simp add: GET_SEM_def unat_ucast_small)
      have r: "x = Some i" "p' = ?p" "s' = ?s" using assms(2) e False cr g by auto
      have "sem_take i p ?p" unfolding sem_take_def by (intro exI conjI, rule cr) (simp add: Cons)
      note P = semp.take_ok(1) [OF pool this]
      have u: "sem_used ?p j = (j = i \<or> sem_used p j)" for j
        by (simp add: sem_used_def upd_sem_def OS_SEM_USED_def OS_SEM_UNUSED_def)
      have l: "lists ?s (SemList j) = (if j = i then [] else lists s (SemList j))" for j by (simp add: upd_list_def)
      have "sem_inv ?p ?s"
        using assms(1) P le unfolding sem_inv_def u l by (auto simp: upd_sem_def not_less)
      moreover have "\<not> (\<forall>i<6. sem_used p i)" using i by blast
      ultimately show ?thesis using i False r w u by (simp add: sem_view_def upd_sem_def upd_list_def)
    qed
  qed
qed

theorem semaphore_new_witness:
  "\<exists>p' s'. osSemaphoreNew 5 5 (ex_sems, ex_sched) = (Some 2, p', s')
     \<and> sem_view 2 (p', s') = (5, 0xFFFF, [])"
proof -
  obtain x p' s' where e: "osSemaphoreNew 5 5 (ex_sems, ex_sched) = (x, p', s')" by (metis prod_cases3)
  then have x: "x = Some 2" by (auto simp: osSemaphoreNew_def LOS_SemCreate_def OsSemCreate_def ex_sems_def
      OS_SEM_COUNTING_MAX_COUNT_def GET_SEM_def upd_sem_def word_less_nat_alt Let_def)
  from semaphore_new [OF ex_sem_inv e] show ?thesis using e x by simp
qed

end
