(* ===== verification/Spec2Isabelle.thy ===== *)
theory Spec2Isabelle
  imports Los_SchedProps Los_Sem Los_Event Los_TaskProps Los_Mux Los_Membox Los_QueueProps Los_SwtmrProps
    Los_HeapProps Los_HeapFaults Los_QueueHeap Los_TickProps Los_Boot Los_CmsisProps
begin

text \<open>
  \<^bold>\<open>The LiteOS-M kernel of this repository\<close>

  The repository is an OpenHarmony tree for a board with an ESP32 (\<open>vendor/LeeTai\<close>, \<open>device/soc/esp\<close>).
  Its own core is the kernel, \<open>kernel/liteos_m\<close>: preemptive tasks with 32 priorities, time-outs,
  semaphores, mutexes, events, queues, software timers and two allocators. These theories translate
  it function by function, under the default options of \<open>kernel/include/los_config.h\<close> and for the
  xtensa port, and prove what makes each part correct. File names below are relative to
  \<open>kernel/liteos_m\<close>; definitions carry the names of the C functions, macros, structs and globals.

  \<^bold>\<open>How the code is represented.\<close>
  Machine integers are words of their width, so additions wrap as in C. A struct is a record with
  the C field names; a field name used by two structs is prefixed by its struct in one of them.
  A pointer to a control block is its index in the array of blocks, a NULL pointer is None or 0, and
  the list a \<open>LOS_DL_LIST\<close> head stands for is a HOL list of the indices linked in it
  (\<open>Los_List\<close> proves that the pointer code of \<open>utils/los_list.h\<close> implements the list
  operations). State is passed explicitly: each function takes and returns the record of the
  component and, where it reaches the scheduler, the record \<open>sched\<close>. Error codes are the values of
  \<open>utils/los_error.h\<close>, evaluated by the simplifier. A call that sleeps is two definitions: up to the
  switch (the result is \<open>Blocked\<close>), and \<open>_resume\<close>, which runs in the caller after it was woken; what
  happens in between is any sequence of other calls. Disabling interrupts makes each function one
  step. A failed \<open>LOS_ASSERT\<close> sets the flag \<open>panic\<close> of the clock and the model goes on.

  \<^bold>\<open>The parts, from the bottom up.\<close>
  \<^item> \<open>Los_Prelude\<close>, \<open>Los_Errno\<close>: \<open>utils/los_compiler.h\<close>, \<open>utils/los_error.h\<close>, the configuration, masks and
    leading zeros, error numbers. \<open>Los_List\<close>: \<open>utils/los_list.h\<close> over a heap of pointers.
    \<open>Los_Pool\<close>: the locale \<open>slot_pool\<close> of an array of blocks with a list of the unused ones.
  \<^item> \<open>Los_Tick\<close>: \<open>kernel/src/los_tick.c\<close>. The hardware counter is a function from the number of reads to
    the value read, an argument of everything that follows. \<open>Los_State\<close>: the task control blocks and
    the globals of \<open>los_sched.c\<close> and \<open>los_task.c\<close>. \<open>Los_Sortlink\<close>: \<open>los_sortlink.c\<close>.
  \<^item> \<open>Los_Sched\<close>: \<open>los_sched.c\<close> and \<open>arch/xtensa/lx6/gcc/los_context.c\<close>. \<open>Los_SchedInv\<close> states the invariant
    of the ready queues, the bitmap and the wait lists and that every operation keeps it;
    \<open>Los_WaitQueue\<close> the locale \<open>wait_queue\<close>, what the components may assume of sleeping and waking;
    \<open>Los_Kern\<close> the invariant \<open>kern_ok\<close> of the running kernel; \<open>Los_Wake\<close> what a task that was woken looks
    like (\<open>woken\<close>: neither pending nor on the timer list and, unless it is suspended, ready or already
    running) and that a reschedule keeps it so; \<open>Los_Timeout\<close> the scan of the sleeping
    tasks. \<open>Los_Example\<close> is a concrete state for the witnesses.
  \<^item> \<open>Los_Task\<close>, \<open>Los_TaskProps\<close>: \<open>los_task.c\<close>. \<open>Los_Sem\<close>: \<open>los_sem.c\<close>, with an abstract counting semaphore that
    the code refines. \<open>Los_Mux\<close>: \<open>los_mux.c\<close>, with an abstract mutex with priority inheritance.
    \<open>Los_Event\<close>: \<open>los_event.c\<close>. \<open>Los_Queue\<close>, \<open>Los_QueueProps\<close>: \<open>los_queue.c\<close>, rings as lists of messages.
    \<open>Los_Swtmr\<close>, \<open>Los_SwtmrProps\<close>: \<open>los_swtmr.c\<close>.
  \<^item> \<open>Los_Membox\<close>: \<open>kernel/src/mm/los_membox.c\<close>, pools of blocks of one size.
  \<^item> \<open>Los_Memory\<close>: \<open>kernel/src/mm/los_memory.c\<close>, the heap, over one memory of words that holds headers,
    links and data. Its proofs: \<open>Los_MemClass\<close> (size classes and the search of the bitmap),
    \<open>Los_MemInv\<close>, \<open>Los_MemRep\<close> (memory against the list of nodes), \<open>Los_MemOps\<close>, \<open>Los_Heap\<close>, \<open>Los_HeapAlloc\<close>,
    \<open>Los_HeapFree\<close>, \<open>Los_HeapCalls\<close>, \<open>Los_HeapInit\<close>, \<open>Los_HeapPools\<close>, \<open>Los_HeapRealloc\<close>, \<open>Los_HeapDouble\<close> (one call
    each), \<open>Los_HeapLive\<close> (the locale \<open>block_heap\<close>: what a program may assume of the blocks it holds),
    \<open>Los_HeapSteps\<close> (a program that uses a pool, as a step relation), \<open>Los_HeapProps\<close>, \<open>Los_HeapFaults\<close>.
  \<^item> \<open>Los_Kernel\<close>: where the parts meet: the tick interrupt (\<open>los_sched.c\<close>, \<open>los_tick.c\<close>,
    \<open>arch/xtensa/lx6/gcc/los_interrupt.c\<close>), the start of the scheduler, and \<open>los_init.c\<close>.
    \<open>Los_QueueHeap\<close>: queues whose rings are blocks of the heap. \<open>Los_Interrupt\<close>, \<open>Los_TickProps\<close>: the tick
    from its entry to the switch at its end. \<open>Los_HeapRoom\<close>: how much a heap grants for sure.
    \<open>Los_SwtmrPost\<close>: the messages the scan of the timers posts to the queue of the timer task (\<open>posted\<close>), how
    often each timer fires (\<open>firings\<close>) and the readers it wakes; its hypothesis \<open>handler_ok\<close> says that
    this queue exists and is in order. \<open>Los_TaskCreate\<close>: creating tasks. \<open>Los_Start\<close>, \<open>Los_Boot\<close>: from power-on to the first task.
  \<^item> \<open>Los_Cmsis\<close>, \<open>Los_CmsisIpc\<close>, \<open>Los_CmsisPool\<close>: \<open>kal/cmsis/cmsis_liteos2.c\<close>, the interface applications call,
    on the types of \<open>third_party/cmsis/CMSIS/RTOS2/Include/cmsis_os2.h\<close>: kernel and threads; timers, event flags,
    mutexes, semaphores, message queues and thread flags; memory pools. A handle is the index of a
    control block, or an address for the objects that are blocks of the heap. \<open>Los_CmsisProps\<close>: the lock
    of the scheduler, the scale of priorities, the limit of a semaphore.

  \<^bold>\<open>What the theorems show.\<close>
  From zeroed variables and any 64 KB, \<open>LOS_KernelInit\<close> succeeds and establishes the invariant of every
  component; after any creations of tasks \<open>LOS_Start\<close> enters the most urgent task in a state from which
  the other theorems apply. The invariant of the scheduler is kept by a switch and by every call of the components, and after a
  switch no ready task is more urgent than the running one; the tick interrupt returns, fires every
  timer that is due, without drift, each firing with its message in the queue of the timer task as far as
  that has room, wakes the readers of that queue and every task whose time has come, lets every
  other sleeper sleep, and ends with the most urgent task running. Semaphores and mutexes implement their abstract counterparts, with waiters
  served first in, first out, and with lent priorities given back; events wake exactly the satisfied
  waiters; queues are bounded sequences of messages. A waiter that a post, a write, a read or an event wakes
  is not only off its list but \<open>woken\<close>. The pools of control blocks lose and double no
  block. A heap stays well formed whatever the program does with it: blocks are aligned, inside the
  pool and apart, contents are kept, every call returns, a double free is refused, free neighbours
  are merged, and a request is refused only when no free node fits. Two of these have a limit in the blocks of
  \<open>LOS_MemAllocAlign\<close>: resizing keeps the contents only of the other blocks (\<open>heap_realloc_aligned\<close> shows
  what it does to these), and a double free is shown to be refused for an aligned pointer only when it was moved
  forward by more than 8 bytes, since a shorter gap word lies where the freed node keeps its links. For the application's interface: locking and
  restoring the scheduler, a priority read back is the one set, when a semaphore is refused and which limit it gets, memory pools as a
  client sees them, the pools on the kernel's heap without a loss. Theorems about faults show
  where the code does not keep its contract; the project manifest lists them.

  \<^bold>\<open>Loops and fuel.\<close>
  Recursion over HOL lists and measures is used where the code's loop is bounded.
  \<open>partial_function (option)\<close> models the loops that may not end (the scans of timers, walks over the
  nodes and lists of a heap, the scan of a stack); that they end is proved for the states the invariants describe.
  Fuel appears in the busy waits \<open>LOS_UDelay\<close> and \<open>LOS_MDelay\<close> only, where the counter decides.

  \<^bold>\<open>Not modelled.\<close>
  Options that are off by default: hooks, trace, CPU usage, power management, signals, aligned timers,
  static queues, leak checks, memory regions and shadow memory. Printing, the shell dumps and the
  exception dump of \<open>los_task.c\<close>; \<open>LOS_CpuTick2MS\<close> and \<open>LOS_CpuTick2US\<close>, which use floating point;
  \<open>LOS_Panic\<close> and \<open>LOS_Reboot\<close>, which never return. The assembly of the ports and the contents of the
  stacks. \<open>components\<close> and \<open>kal/posix\<close> of the kernel, the vendor SDK, the drivers and the third-party packages.
\<close>

end
